(* ===== verification/Mpack_Prelude.thy ===== *)
theory Mpack_Prelude
  imports Main "HOL-Library.Word" "HOL-Library.Monad_Syntax"
begin

section \<open>Prelude: machine types, checked slice operations, big-endian bytes\<close>

text \<open>
  What every component shares.

  \<^item> The Rust machine integers as words: unsigned and signed types of one width are the same
    word type; \<open>unat\<close> reads the unsigned value, \<open>sint\<close> the two's complement one. The floats
    \<open>f32\<close> and \<open>f64\<close> are their IEEE-754 bit patterns, so \<open>to_bits\<close> and \<open>from_bits\<close> are the
    identity. \<open>usize\<close> is \<open>nat\<close>; where the code saturates, the bound \<open>usize_max\<close> of a 64-bit
    target is written out.
  \<^item> A Rust panic is the value \<open>None\<close> of the \<open>option\<close> monad in which every operation that could
    panic is written. Indexing, slicing and \<open>copy_from_slice\<close> are the checked operations
    \<open>index\<close>, \<open>slice\<close> and \<open>store_at\<close>: they give \<open>None\<close> where the Rust operation panics.
  \<^item> \<open>?\<close> on an \<open>Option\<close> in a method with \<open>&mut self\<close> is \<open>try_opt\<close>: a missing value ends the
    method with the state reached so far.
  \<^item> Big-endian byte sequences and their inverse, with the round trip in both directions.
\<close>

unbundle bit_operations_syntax

subsection \<open>Machine types\<close>

type_synonym u8 = "8 word"
type_synonym u16 = "16 word"
type_synonym u32 = "32 word"
type_synonym u64 = "64 word"
type_synonym i8 = "8 word"
type_synonym i16 = "16 word"
type_synonym i32 = "32 word"
type_synonym i64 = "64 word"
type_synonym f32 = "32 word"
type_synonym f64 = "64 word"

named_theorems contracts "total-correctness rules of the operations, one per operation"
named_theorems checked "when a checked operation cannot panic"

definition usize_max :: nat where
  "usize_max = 2 ^ 64 - 1"

definition sat_add :: "nat \<Rightarrow> nat \<Rightarrow> nat" where
  "sat_add a b = min (a + b) usize_max"

definition sat_mul :: "nat \<Rightarrow> nat \<Rightarrow> nat" where
  "sat_mul a b = min (a * b) usize_max"

text \<open>\<open>uN::try_from(n: usize).ok()\<close>.\<close>

definition try_from :: "nat \<Rightarrow> 'a::len word option" where
  "try_from n = (if n < 2 ^ LENGTH('a) then Some (word_of_nat n) else None)"

text \<open>\<open>u32::checked_mul\<close>.\<close>

definition checked_mul :: "'a::len word \<Rightarrow> 'a word \<Rightarrow> 'a word option" where
  "checked_mul a b = (if unat a * unat b < 2 ^ LENGTH('a) then Some (a * b) else None)"

lemma try_from_Some_unat:
  "try_from n = Some (w :: 'a::len word) \<Longrightarrow> unat w = n"
  by (auto simp: try_from_def unsigned_of_nat take_bit_nat_eq_self split: if_splits)

lemma unat_less_exp: "unat (w :: 'a::len word) < 2 ^ LENGTH('a)"
  by (rule unsigned_less)

lemma unat_u8_less: "unat (w :: u8) < 256"
  using unat_less_exp [of w] by simp

lemma unat_u16_less: "unat (w :: u16) < 65536"
  using unat_less_exp [of w] by simp

lemma unat_u32_less: "unat (w :: u32) < 4294967296"
  using unat_less_exp [of w] by simp

lemma unat_u64_less: "unat (w :: u64) < 18446744073709551616"
  using unat_less_exp [of w] by simp

lemmas unat_less_bounds = unat_u8_less unat_u16_less unat_u32_less unat_u64_less

lemma unat_le_bounds:
  "unat (w8 :: u8) \<le> 255" "unat (w8 :: u8) \<le> 65535" "unat (w8 :: u8) \<le> 4294967295"
  "unat (w16 :: u16) \<le> 65535" "unat (w16 :: u16) \<le> 4294967295" "unat (w32 :: u32) \<le> 4294967295"
  "unat (w8 :: u8) < 256" "unat (w8 :: u8) < 65536" "unat (w8 :: u8) < 4294967296"
  "unat (w16 :: u16) < 65536" "unat (w16 :: u16) < 4294967296" "unat (w32 :: u32) < 4294967296"
  using unat_u8_less [of w8] unat_u16_less [of w16] unat_u32_less [of w32] by simp_all

lemma unat_of_nat_small: "n < 2 ^ LENGTH('a::len) \<Longrightarrow> unat (word_of_nat n :: 'a word) = n"
  by (simp add: unsigned_of_nat take_bit_nat_eq_self)

lemma checked_mul_two_unat:
  "checked_mul (w :: u32) 2 = Some v \<Longrightarrow> unat v = 2 * unat w \<and> 2 * unat w < 2 ^ 32"
proof -
  assume "checked_mul w 2 = Some v"
  then have "v = w * 2" and less: "unat w * 2 < 2 ^ 32"
    by (auto simp: checked_mul_def split: if_splits)
  then show ?thesis
    by (simp add: unat_word_ariths)
qed

subsection \<open>Checked indexing and slicing\<close>

definition index :: "'a list \<Rightarrow> nat \<Rightarrow> 'a option" where
  "index xs i = (if i < length xs then Some (xs ! i) else None)"

definition slice :: "'a list \<Rightarrow> nat \<Rightarrow> nat \<Rightarrow> 'a list option" where
  "slice xs i j = (if i \<le> j \<and> j \<le> length xs then Some (take (j - i) (drop i xs)) else None)"

text \<open>\<open>xs[i..i + ys.len()].copy_from_slice(ys)\<close>.\<close>

definition store_at :: "'a list \<Rightarrow> nat \<Rightarrow> 'a list \<Rightarrow> 'a list option" where
  "store_at xs i ys =
     (if i + length ys \<le> length xs
      then Some (take i xs @ ys @ drop (i + length ys) xs) else None)"

lemma index_ok [checked]: "i < length xs \<Longrightarrow> index xs i = Some (xs ! i)"
  by (simp add: index_def)

lemma slice_ok [checked]:
  "i \<le> j \<Longrightarrow> j \<le> length xs \<Longrightarrow> slice xs i j = Some (take (j - i) (drop i xs))"
  by (simp add: slice_def)

lemma store_at_ok [checked]:
  "i + length ys \<le> length xs \<Longrightarrow>
     store_at xs i ys = Some (take i xs @ ys @ drop (i + length ys) xs)"
  by (simp add: store_at_def)

lemma store_at_length: "store_at xs i ys = Some zs \<Longrightarrow> length zs = length xs"
  by (auto simp: store_at_def split: if_splits)

lemma slice_length: "slice xs i j = Some ys \<Longrightarrow> length ys = j - i"
  by (auto simp: slice_def split: if_splits)

subsection \<open>The \<open>?\<close> operator on optional results\<close>

definition try_opt ::
  "('a option \<times> 's) option \<Rightarrow> ('a \<Rightarrow> 's \<Rightarrow> ('b option \<times> 's) option) \<Rightarrow> ('b option \<times> 's) option"
where
  "try_opt m k = do {
     (x, s) \<leftarrow> m;
     (case x of None \<Rightarrow> Some (None, s) | Some v \<Rightarrow> k v s)
   }"

lemma try_opt_None [simp]: "try_opt (Some (None, s)) k = Some (None, s)"
  by (simp add: try_opt_def)

lemma try_opt_Some [simp]: "try_opt (Some (Some v, s)) k = k v s"
  by (simp add: try_opt_def)

lemma try_opt_panic [simp]: "try_opt None k = None"
  by (simp add: try_opt_def)

lemma try_opt_SomeE:
  assumes "try_opt m k = Some (Some v, s)"
  obtains x s' where "m = Some (Some x, s')" and "k x s' = Some (Some v, s)"
  using assms by (auto simp: try_opt_def bind_eq_Some_conv split: option.splits)

subsection \<open>Big-endian bytes\<close>

fun be_bytes :: "nat \<Rightarrow> nat \<Rightarrow> u8 list" where
  "be_bytes 0 v = []"
| "be_bytes (Suc n) v = be_bytes n (v div 256) @ [word_of_nat v]"

definition to_be_bytes :: "'a::len word \<Rightarrow> u8 list" where
  "to_be_bytes w = be_bytes (LENGTH('a) div 8) (unat w)"

definition from_be :: "u8 list \<Rightarrow> nat" where
  "from_be bs = foldl (\<lambda>acc b. acc * 256 + unat b) 0 bs"

lemma length_be_bytes [simp]: "length (be_bytes n v) = n"
  by (induction n arbitrary: v) auto

lemma length_to_be_bytes [simp]: "length (to_be_bytes (w :: 'a::len word)) = LENGTH('a) div 8"
  by (simp add: to_be_bytes_def)

lemma from_be_Nil [simp]: "from_be [] = 0"
  by (simp add: from_be_def)

lemma from_be_snoc [simp]: "from_be (bs @ [b]) = from_be bs * 256 + unat b"
  by (simp add: from_be_def)

lemma from_be_less: "from_be bs < 256 ^ length bs"
proof (induction bs rule: rev_induct)
  case (snoc b bs)
  have "unat b < 256"
    using unsigned_less [of b] by simp
  with snoc show ?case by simp
qed simp

lemma from_be_be_bytes: "from_be (be_bytes n v) = v mod 256 ^ n"
proof (induction n arbitrary: v)
  case (Suc n)
  have "from_be (be_bytes (Suc n) v) = (v div 256 mod 256 ^ n) * 256 + v mod 256"
    by (simp add: Suc unsigned_of_nat take_bit_eq_mod)
  also have "\<dots> = v mod (256 * 256 ^ n)"
    by (simp add: mod_mult2_eq)
  finally show ?case by simp
qed simp

lemma be_bytes_from_be: "be_bytes (length bs) (from_be bs) = bs"
proof (induction bs rule: rev_induct)
  case (snoc b bs)
  have b: "unat b < 256"
    using unsigned_less [of b] by simp
  have "(256 :: u8) = 0"
    by simp
  then have "(word_of_nat (from_be bs) :: u8) * 256 + b = b"
    by (simp only: mult_zero_right add_0_left)
  then have "(word_of_nat (from_be bs * 256 + unat b) :: u8) = b"
    by simp
  with snoc b show ?case by simp
qed simp

lemma pow_256: "8 dvd k \<Longrightarrow> (256 :: nat) ^ (k div 8) = 2 ^ k"
proof -
  assume "8 dvd k"
  then obtain j where k: "k = 8 * j" ..
  have "(256 :: nat) ^ j = (2 ^ 8) ^ j" by simp
  also have "\<dots> = 2 ^ (8 * j)" by (simp only: power_mult)
  finally show ?thesis using k by simp
qed

lemma from_be_to_be_bytes [simp]:
  "8 dvd LENGTH('a::len) \<Longrightarrow> from_be (to_be_bytes (w :: 'a word)) = unat w"
  using unat_less_exp [of w] by (simp add: to_be_bytes_def from_be_be_bytes pow_256)

lemma to_be_bytes_from_be:
  assumes "length bs = LENGTH('a::len) div 8" and "8 dvd LENGTH('a)"
  shows "to_be_bytes (word_of_nat (from_be bs) :: 'a word) = bs"
proof -
  have "from_be bs < 2 ^ LENGTH('a)"
    using from_be_less [of bs] assms by (simp add: pow_256)
  then have "unat (word_of_nat (from_be bs) :: 'a word) = from_be bs"
    by (rule unat_of_nat_small)
  then show ?thesis
    using be_bytes_from_be [of bs] by (simp add: to_be_bytes_def flip: assms(1))
qed

text \<open>Any sufficiently long byte sequence starts with the bytes of a word.\<close>

lemma to_be_bytes_prefix:
  assumes "LENGTH('a::len) div 8 \<le> length bs" and "8 dvd LENGTH('a)"
  obtains w :: "'a::len word" and rest where "bs = to_be_bytes w @ rest"
proof -
  let ?n = "LENGTH('a) div 8"
  have "to_be_bytes (word_of_nat (from_be (take ?n bs)) :: 'a word) = take ?n bs"
    using assms by (intro to_be_bytes_from_be) auto
  then have "bs = to_be_bytes (word_of_nat (from_be (take ?n bs)) :: 'a word) @ drop ?n bs"
    by simp
  then show thesis by (rule that)
qed

lemma to_be_bytes_8 [simp]: "to_be_bytes (w :: u8) = [w]"
  by (simp add: to_be_bytes_def)

lemma unat_and_15: "unat ((m :: u8) AND 15) = unat m mod 16"
proof -
  have "m AND 15 = take_bit 4 m"
    by (simp add: take_bit_eq_mask mask_eq_exp_minus_1)
  then show ?thesis
    by (simp only: unsigned_take_bit_eq) (simp add: take_bit_eq_mod)
qed

lemma unat_and_31: "unat ((m :: u8) AND 31) = unat m mod 32"
proof -
  have "m AND 31 = take_bit 5 m"
    by (simp add: take_bit_eq_mask mask_eq_exp_minus_1)
  then show ?thesis
    by (simp only: unsigned_take_bit_eq) (simp add: take_bit_eq_mod)
qed

lemma nat_or_shift: "(y :: nat) < 2 ^ n \<Longrightarrow> push_bit n x OR y = x * 2 ^ n + y"
proof -
  assume "y < 2 ^ n"
  then have y: "take_bit n y = y"
    by (simp add: take_bit_nat_eq_self)
  have "push_bit n x AND take_bit n y = 0"
    by (rule bit_eqI) (simp add: bit_simps)
  then have "push_bit n x + y = push_bit n x OR y"
    by (intro disjunctive_add_eq_or) (simp only: y)
  then show ?thesis
    by (simp add: push_bit_eq_mult)
qed

lemma unat_or_shift:
  fixes x y :: "'a::len word"
  assumes "unat y < 2 ^ n" and "unat x * 2 ^ n < 2 ^ LENGTH('a)"
  shows "unat (push_bit n x OR y) = unat x * 2 ^ n + unat y"
proof -
  have "unat (push_bit n x) = take_bit LENGTH('a) (push_bit n (unat x))"
    by (rule unsigned_push_bit_eq)
  also have "\<dots> = push_bit n (unat x)"
    using assms(2) by (intro take_bit_nat_eq_self) (simp add: push_bit_eq_mult)
  finally have "unat (push_bit n x OR y) = push_bit n (unat x) OR unat y"
    by (simp only: unsigned_or_eq)
  also have "\<dots> = unat x * 2 ^ n + unat y"
    using assms(1) by (rule nat_or_shift)
  finally show ?thesis .
qed

end
