(* ===== verification/Mpack_Common.thy ===== *)
theory Mpack_Common
  imports Mpack_Prelude
begin

section \<open>Tags, errors and types (\<open>src/common.rs\<close>)\<close>

text \<open>
  The shared vocabulary of the crate: the sticky error codes, the value categories, the decoded
  tags, and the timestamp payload. A payload-carrying tag (string, binary, extension) holds the
  length of the payload, a compound tag its number of elements; the floats are bit patterns.
\<close>

datatype error =
    Err_Ok | Err_Io | Err_Invalid | Err_Unsupported | Err_Type | Err_TooBig
  | Err_Memory | Err_Bug | Err_Data | Err_Eof

text \<open>\<open>#[default] Ok\<close>.\<close>

instantiation error :: default
begin

definition default_error :: error where
  "default_error = Err_Ok"

instance ..

end

datatype mtype =
    Type_Nil | Type_Bool | Type_Int | Type_Uint | Type_Float | Type_Double
  | Type_Str | Type_Bin | Type_Array | Type_Map | Type_Ext

record timestamp =
  seconds :: i64
  nanoseconds :: u32

definition timestamp_nanoseconds_max :: u32 where
  "timestamp_nanoseconds_max = 999999999"

datatype tag =
    Tag_Nil
  | Tag_Bool bool
  | Tag_Int i64
  | Tag_Uint u64
  | Tag_Float f32
  | Tag_Double f64
  | Tag_Str u32
  | Tag_Bin u32
  | Tag_Array u32
  | Tag_Map u32
  | Tag_Ext i8 u32

fun kind :: "tag \<Rightarrow> mtype" where
  "kind Tag_Nil = Type_Nil"
| "kind (Tag_Bool _) = Type_Bool"
| "kind (Tag_Int _) = Type_Int"
| "kind (Tag_Uint _) = Type_Uint"
| "kind (Tag_Float _) = Type_Float"
| "kind (Tag_Double _) = Type_Double"
| "kind (Tag_Str _) = Type_Str"
| "kind (Tag_Bin _) = Type_Bin"
| "kind (Tag_Array _) = Type_Array"
| "kind (Tag_Map _) = Type_Map"
| "kind (Tag_Ext _ _) = Type_Ext"

text \<open>
  What follows a header in the byte stream: the payload bytes of strings, binaries and
  extensions, and the number of values inside arrays and maps (a map of \<open>n\<close> entries holds
  \<open>2 * n\<close> values).
\<close>

fun payload_len :: "tag \<Rightarrow> nat" where
  "payload_len (Tag_Str n) = unat n"
| "payload_len (Tag_Bin n) = unat n"
| "payload_len (Tag_Ext _ n) = unat n"
| "payload_len _ = 0"

fun child_count :: "tag \<Rightarrow> nat" where
  "child_count (Tag_Array n) = unat n"
| "child_count (Tag_Map n) = 2 * unat n"
| "child_count _ = 0"

text \<open>
  The crate writes every non-negative integer in an unsigned format, so a tag is read back in
  its normal form: a non-negative \<open>Tag_Int\<close> as the \<open>Tag_Uint\<close> of the same value.
\<close>

fun normal_tag :: "tag \<Rightarrow> tag" where
  "normal_tag (Tag_Int v) = (if 0 \<le> sint v then Tag_Uint v else Tag_Int v)"
| "normal_tag t = t"

lemma normal_tag_idem [simp]: "normal_tag (normal_tag t) = normal_tag t"
  by (cases t) auto

lemma payload_len_normal [simp]: "payload_len (normal_tag t) = payload_len t"
  by (cases t) auto

lemma child_count_normal [simp]: "child_count (normal_tag t) = child_count t"
  by (cases t) auto

end
