(* ===== verification/Writer_Fixed.thy ===== *)
theory Writer_Fixed
  imports Mpack_Common
begin

section \<open>The fixed-buffer writer (\<open>src/writer.rs\<close>, \<open>Writer\<close>)\<close>

text \<open>
  A writer over a caller-owned buffer. An operation with \<open>&mut self\<close> is a function
  \<open>writer \<Rightarrow> writer option\<close>; \<open>None\<close> is a panic. The first error is sticky. A header is
  written only when all of it fits; payload bytes are written up to the first that does not.
\<close>

record writer =
  w_buffer :: "u8 list"
  w_position :: nat
  w_error :: error

definition writer_new :: "u8 list \<Rightarrow> writer" where
  "writer_new buffer = \<lparr>w_buffer = buffer, w_position = 0, w_error = Err_Ok\<rparr>"

text \<open>\<open>&self.buffer[..self.position]\<close>.\<close>

definition written :: "writer \<Rightarrow> u8 list option" where
  "written w = slice (w_buffer w) 0 (w_position w)"

subsection \<open>Raw output\<close>

definition write_header :: "u8 list \<Rightarrow> writer \<Rightarrow> writer option" where
  "write_header hdr w =
     (if w_error w \<noteq> Err_Ok then Some w
      else if length (w_buffer w) - w_position w < length hdr
      then Some (w\<lparr>w_error := Err_TooBig\<rparr>)
      else do {
        buffer \<leftarrow> store_at (w_buffer w) (w_position w) hdr;
        Some (w\<lparr>w_buffer := buffer, w_position := w_position w + length hdr\<rparr>)
      })"

definition write_header_with_value :: "u8 \<Rightarrow> u8 list \<Rightarrow> writer \<Rightarrow> writer option" where
  "write_header_with_value marker val w = do {
     hdr \<leftarrow> store_at (replicate 9 0) 0 [marker];
     hdr \<leftarrow> store_at hdr 1 val;
     hdr \<leftarrow> slice hdr 0 (length val + 1);
     write_header hdr w
   }"

definition flag_too_big :: "writer \<Rightarrow> writer" where
  "flag_too_big w = (if w_error w = Err_Ok then w\<lparr>w_error := Err_TooBig\<rparr> else w)"

definition write_byte :: "u8 \<Rightarrow> writer \<Rightarrow> writer option" where
  "write_byte byte w =
     (if w_error w \<noteq> Err_Ok then Some w
      else if w_position w < length (w_buffer w)
      then Some (w\<lparr>w_buffer := (w_buffer w)[w_position w := byte],
                   w_position := w_position w + 1\<rparr>)
      else Some (w\<lparr>w_error := Err_TooBig\<rparr>))"

definition write_bytes :: "u8 list \<Rightarrow> writer \<Rightarrow> writer option" where
  "write_bytes bytes w =
     (if w_error w \<noteq> Err_Ok \<or> bytes = [] then Some w
      else
        (let available = length (w_buffer w) - w_position w;
             n = min (length bytes) available
         in do {
           w \<leftarrow> (if n > 0 then do {
                    part \<leftarrow> slice bytes 0 n;
                    buffer \<leftarrow> store_at (w_buffer w) (w_position w) part;
                    Some (w\<lparr>w_buffer := buffer, w_position := w_position w + n\<rparr>)
                  } else Some w);
           Some (if n < length bytes then w\<lparr>w_error := Err_TooBig\<rparr> else w)
         }))"

subsection \<open>Scalars\<close>

definition write_nil :: "writer \<Rightarrow> writer option" where
  "write_nil w = write_byte 0xc0 w"

definition write_bool :: "bool \<Rightarrow> writer \<Rightarrow> writer option" where
  "write_bool v w = write_byte (if v then 0xc3 else 0xc2) w"

definition write_u64 :: "u64 \<Rightarrow> writer \<Rightarrow> writer option" where
  "write_u64 v w =
     (if unat v \<le> 0x7f then write_header [ucast v] w
      else if unat v \<le> 255 then write_header [0xcc, ucast v] w
      else if unat v \<le> 65535 then write_header_with_value 0xcd (to_be_bytes (ucast v :: u16)) w
      else if unat v \<le> 4294967295 then write_header_with_value 0xce (to_be_bytes (ucast v :: u32)) w
      else write_header_with_value 0xcf (to_be_bytes v) w)"

definition write_uint :: "u64 \<Rightarrow> writer \<Rightarrow> writer option" where
  "write_uint v w = write_u64 v w"

definition write_u8 :: "u8 \<Rightarrow> writer \<Rightarrow> writer option" where
  "write_u8 v w = write_u64 (ucast v) w"

definition write_u16 :: "u16 \<Rightarrow> writer \<Rightarrow> writer option" where
  "write_u16 v w = write_u64 (ucast v) w"

definition write_u32 :: "u32 \<Rightarrow> writer \<Rightarrow> writer option" where
  "write_u32 v w = write_u64 (ucast v) w"

definition write_i64 :: "i64 \<Rightarrow> writer \<Rightarrow> writer option" where
  "write_i64 v w =
     (if 0 \<le> sint v then write_u64 v w
      else if - 32 \<le> sint v then write_header [ucast v] w
      else if - 128 \<le> sint v then write_header_with_value 0xd0 (to_be_bytes (ucast v :: i8)) w
      else if - 32768 \<le> sint v then write_header_with_value 0xd1 (to_be_bytes (ucast v :: i16)) w
      else if - 2147483648 \<le> sint v then write_header_with_value 0xd2 (to_be_bytes (ucast v :: i32)) w
      else write_header_with_value 0xd3 (to_be_bytes v) w)"

definition write_int :: "i64 \<Rightarrow> writer \<Rightarrow> writer option" where
  "write_int v w = write_i64 v w"

definition write_i8 :: "i8 \<Rightarrow> writer \<Rightarrow> writer option" where
  "write_i8 v w = write_i64 (scast v) w"

definition write_i16 :: "i16 \<Rightarrow> writer \<Rightarrow> writer option" where
  "write_i16 v w = write_i64 (scast v) w"

definition write_i32 :: "i32 \<Rightarrow> writer \<Rightarrow> writer option" where
  "write_i32 v w = write_i64 (scast v) w"

definition write_f32_bits :: "u32 \<Rightarrow> writer \<Rightarrow> writer option" where
  "write_f32_bits bits w = write_header_with_value 0xca (to_be_bytes bits) w"

definition write_f64_bits :: "u64 \<Rightarrow> writer \<Rightarrow> writer option" where
  "write_f64_bits bits w = write_header_with_value 0xcb (to_be_bytes bits) w"

definition write_f32 :: "f32 \<Rightarrow> writer \<Rightarrow> writer option" where
  "write_f32 v w = write_f32_bits v w"

definition write_f64 :: "f64 \<Rightarrow> writer \<Rightarrow> writer option" where
  "write_f64 v w = write_f64_bits v w"

subsection \<open>Headers of compounds and payloads\<close>

text \<open>
  \<open>if let Ok(length) = u16::try_from(length)\<close> and the arms after it; a length beyond
  \<open>u32::MAX\<close> has no format.
\<close>

definition write_array_header :: "nat \<Rightarrow> writer \<Rightarrow> writer option" where
  "write_array_header len w =
     (if len \<le> 15 then write_header [0x90 OR word_of_nat len] w
      else case (try_from len :: u16 option) of
        Some l \<Rightarrow> write_header_with_value 0xdc (to_be_bytes l) w
      | None \<Rightarrow> (case (try_from len :: u32 option) of
          Some l \<Rightarrow> write_header_with_value 0xdd (to_be_bytes l) w
        | None \<Rightarrow> Some (flag_too_big w)))"

definition write_array :: "nat \<Rightarrow> writer \<Rightarrow> writer option" where
  "write_array len w = write_array_header len w"

definition write_map_header :: "nat \<Rightarrow> writer \<Rightarrow> writer option" where
  "write_map_header len w =
     (if len \<le> 15 then write_header [0x80 OR word_of_nat len] w
      else case (try_from len :: u16 option) of
        Some l \<Rightarrow> write_header_with_value 0xde (to_be_bytes l) w
      | None \<Rightarrow> (case (try_from len :: u32 option) of
          Some l \<Rightarrow> write_header_with_value 0xdf (to_be_bytes l) w
        | None \<Rightarrow> Some (flag_too_big w)))"

definition write_map :: "nat \<Rightarrow> writer \<Rightarrow> writer option" where
  "write_map len w = write_map_header len w"

definition write_str_header :: "nat \<Rightarrow> writer \<Rightarrow> writer option" where
  "write_str_header len w =
     (if len \<le> 31 then write_header [0xa0 OR word_of_nat len] w
      else case (try_from len :: u8 option) of
        Some l \<Rightarrow> write_header [0xd9, l] w
      | None \<Rightarrow> (case (try_from len :: u16 option) of
          Some l \<Rightarrow> write_header_with_value 0xda (to_be_bytes l) w
        | None \<Rightarrow> (case (try_from len :: u32 option) of
            Some l \<Rightarrow> write_header_with_value 0xdb (to_be_bytes l) w
          | None \<Rightarrow> Some (flag_too_big w))))"

text \<open>The version-4 raw header, which has no 8-bit length.\<close>

definition write_str_header_v4 :: "nat \<Rightarrow> writer \<Rightarrow> writer option" where
  "write_str_header_v4 len w =
     (if len \<le> 31 then write_header [0xa0 OR word_of_nat len] w
      else case (try_from len :: u16 option) of
        Some l \<Rightarrow> write_header_with_value 0xda (to_be_bytes l) w
      | None \<Rightarrow> (case (try_from len :: u32 option) of
          Some l \<Rightarrow> write_header_with_value 0xdb (to_be_bytes l) w
        | None \<Rightarrow> Some (flag_too_big w)))"

definition write_bin_header :: "nat \<Rightarrow> writer \<Rightarrow> writer option" where
  "write_bin_header len w =
     (case (try_from len :: u8 option) of
        Some l \<Rightarrow> write_header [0xc4, l] w
      | None \<Rightarrow> (case (try_from len :: u16 option) of
          Some l \<Rightarrow> write_header_with_value 0xc5 (to_be_bytes l) w
        | None \<Rightarrow> (case (try_from len :: u32 option) of
            Some l \<Rightarrow> write_header_with_value 0xc6 (to_be_bytes l) w
          | None \<Rightarrow> Some (flag_too_big w))))"

definition write_ext_header :: "i8 \<Rightarrow> nat \<Rightarrow> writer \<Rightarrow> writer option" where
  "write_ext_header ext_type len w =
     (if len = 1 then write_header [0xd4, ext_type] w
      else if len = 2 then write_header [0xd5, ext_type] w
      else if len = 4 then write_header [0xd6, ext_type] w
      else if len = 8 then write_header [0xd7, ext_type] w
      else if len = 16 then write_header [0xd8, ext_type] w
      else if (try_from len :: u8 option) \<noteq> None
      then write_header [0xc7, word_of_nat len, ext_type] w
      else if (try_from len :: u16 option) \<noteq> None
      then write_header (0xc8 # to_be_bytes (word_of_nat len :: u16) @ [ext_type]) w
      else if (try_from len :: u32 option) \<noteq> None
      then write_header (0xc9 # to_be_bytes (word_of_nat len :: u32) @ [ext_type]) w
      else Some (flag_too_big w))"

subsection \<open>Composite values\<close>

definition write_ext :: "i8 \<Rightarrow> u8 list \<Rightarrow> writer \<Rightarrow> writer option" where
  "write_ext ext_type val w = do {
     w \<leftarrow> write_ext_header ext_type (length val) w;
     write_bytes val w
   }"

definition write_str :: "u8 list \<Rightarrow> writer \<Rightarrow> writer option" where
  "write_str val w = do {
     w \<leftarrow> write_str_header (length val) w;
     write_bytes val w
   }"

definition write_bin :: "u8 list \<Rightarrow> writer \<Rightarrow> writer option" where
  "write_bin val w = do {
     w \<leftarrow> write_bin_header (length val) w;
     write_bytes val w
   }"

text \<open>
  The three timestamp formats. \<open>seconds >> k\<close> on \<open>i64\<close> is the arithmetic shift, \<open>as u8\<close> keeps
  the low byte; the 64-bit format packs 30 bits of nanoseconds above 34 bits of seconds.
\<close>

definition write_timestamp :: "i64 \<Rightarrow> u32 \<Rightarrow> writer \<Rightarrow> writer option" where
  "write_timestamp secs nanos w =
     (if unat nanos > 999999999
      then Some (if w_error w = Err_Ok then w\<lparr>w_error := Err_Bug\<rparr> else w)
      else if 0 \<le> sint secs \<and> sint secs \<le> 4294967295 \<and> nanos = 0
      then write_header
        [0xd6, 0xff, ucast (signed_drop_bit 24 secs), ucast (signed_drop_bit 16 secs),
         ucast (signed_drop_bit 8 secs), ucast secs] w
      else if 0 \<le> sint secs \<and> sint secs < 2 ^ 34
      then write_header
        ([0xd7, 0xff] @ to_be_bytes (push_bit 34 (ucast nanos :: u64) OR secs)) w
      else write_header ([0xc7, 12, 0xff] @ to_be_bytes nanos @ to_be_bytes secs) w)"

end
