(* ===== verification/Reader_Core.thy ===== *)
theory Reader_Core
  imports Mpack_Common
begin

section \<open>The reader and its tag decoder (\<open>src/reader.rs\<close>)\<close>

text \<open>
  \<open>Reader\<close> over a fixed input slice: the record, the sticky error, the byte takes and
  \<open>parse_tag\<close>. An operation with \<open>&mut self\<close> is a function
  \<open>reader \<Rightarrow> ('a \<times> reader) option\<close>; \<open>None\<close> is a panic.
\<close>

record reader =
  r_data :: "u8 list"
  r_position :: nat
  r_error :: error

definition reader_new :: "u8 list \<Rightarrow> reader" where
  "reader_new data = \<lparr>r_data = data, r_position = 0, r_error = Err_Ok\<rparr>"

text \<open>\<open>self.data.len() - self.position\<close> underflows, and panics, when the position is beyond the end.\<close>

definition remaining :: "reader \<Rightarrow> nat option" where
  "remaining r =
     (if r_position r \<le> length (r_data r) then Some (length (r_data r) - r_position r) else None)"

definition flag_error :: "error \<Rightarrow> reader \<Rightarrow> reader" where
  "flag_error e r = (if r_error r = Err_Ok \<and> e \<noteq> Err_Ok then r\<lparr>r_error := e\<rparr> else r)"

text \<open>\<open>saturating_sub\<close> is the subtraction on \<open>nat\<close>.\<close>

definition require :: "nat \<Rightarrow> reader \<Rightarrow> bool \<times> reader" where
  "require n r =
     (if length (r_data r) - r_position r < n then (False, flag_error Err_Invalid r) else (True, r))"

definition take_u8 :: "reader \<Rightarrow> (u8 \<times> reader) option" where
  "take_u8 r = do {
     value \<leftarrow> index (r_data r) (r_position r);
     Some (value, r\<lparr>r_position := r_position r + 1\<rparr>)
   }"

definition take_u16 :: "reader \<Rightarrow> (u16 \<times> reader) option" where
  "take_u16 r = do {
     (b0, r) \<leftarrow> take_u8 r;
     (b1, r) \<leftarrow> take_u8 r;
     Some (word_of_nat (from_be [b0, b1]), r)
   }"

definition take_u32 :: "reader \<Rightarrow> (u32 \<times> reader) option" where
  "take_u32 r = do {
     (b0, r) \<leftarrow> take_u8 r;
     (b1, r) \<leftarrow> take_u8 r;
     (b2, r) \<leftarrow> take_u8 r;
     (b3, r) \<leftarrow> take_u8 r;
     Some (word_of_nat (from_be [b0, b1, b2, b3]), r)
   }"

definition take_u64 :: "reader \<Rightarrow> (u64 \<times> reader) option" where
  "take_u64 r = do {
     (b0, r) \<leftarrow> take_u8 r;
     (b1, r) \<leftarrow> take_u8 r;
     (b2, r) \<leftarrow> take_u8 r;
     (b3, r) \<leftarrow> take_u8 r;
     (b4, r) \<leftarrow> take_u8 r;
     (b5, r) \<leftarrow> take_u8 r;
     (b6, r) \<leftarrow> take_u8 r;
     (b7, r) \<leftarrow> take_u8 r;
     Some (word_of_nat (from_be [b0, b1, b2, b3, b4, b5, b6, b7]), r)
   }"

definition take_ext :: "u32 \<Rightarrow> reader \<Rightarrow> (tag \<times> reader) option" where
  "take_ext len r = do {
     (ty, r) \<leftarrow> take_u8 r;
     Some (Tag_Ext ty len, r)
   }"

text \<open>The two \<open>header_size\<close> bindings of \<open>parse_tag\<close>; \<open>m\<close> is the marker's value.\<close>

definition header_size :: "nat \<Rightarrow> nat" where
  "header_size m =
     (if m \<le> 0xbf \<or> (0xc0 \<le> m \<and> m \<le> 0xc3) \<or> (0xd4 \<le> m \<and> m \<le> 0xd8) \<or> 0xe0 \<le> m then 1
      else if m = 0xc4 \<or> m = 0xc7 \<or> m = 0xcc \<or> m = 0xd0 \<or> m = 0xd9 then 2
      else if m = 0xc5 \<or> m = 0xc8 \<or> m = 0xcd \<or> m = 0xd1 \<or> m = 0xda \<or> m = 0xdc \<or> m = 0xde then 3
      else if m = 0xc6 \<or> m = 0xc9 \<or> m = 0xce \<or> m = 0xd2 \<or> m = 0xdb \<or> m = 0xdd \<or> m = 0xdf then 5
      else if m = 0xca then 5
      else 9)
     + (if (0xc7 \<le> m \<and> m \<le> 0xc9) \<or> (0xd4 \<le> m \<and> m \<le> 0xd8) then 1 else 0)"

text \<open>
  The match on the marker that builds the tag. \<open>0xc1\<close> is the one marker with no tag; the code
  then flags \<open>Invalid\<close> and returns.
\<close>

definition tag_of_marker :: "u8 \<Rightarrow> reader \<Rightarrow> (tag option \<times> reader) option" where
  "tag_of_marker marker r =
     (let m = unat marker; done = (\<lambda>(t, r). Some (Some t, r)) in
      if m \<le> 0x7f then Some (Some (Tag_Uint (ucast marker)), r)
      else if m \<le> 0x8f then Some (Some (Tag_Map (ucast (marker AND 0x0f))), r)
      else if m \<le> 0x9f then Some (Some (Tag_Array (ucast (marker AND 0x0f))), r)
      else if m \<le> 0xbf then Some (Some (Tag_Str (ucast (marker AND 0x1f))), r)
      else if m = 0xc0 then Some (Some Tag_Nil, r)
      else if m = 0xc1 then Some (None, flag_error Err_Invalid r)
      else if m = 0xc2 then Some (Some (Tag_Bool False), r)
      else if m = 0xc3 then Some (Some (Tag_Bool True), r)
      else if m = 0xc4 then do { (v, r) \<leftarrow> take_u8 r; Some (Some (Tag_Bin (ucast v)), r) }
      else if m = 0xc5 then do { (v, r) \<leftarrow> take_u16 r; Some (Some (Tag_Bin (ucast v)), r) }
      else if m = 0xc6 then do { (v, r) \<leftarrow> take_u32 r; Some (Some (Tag_Bin v), r) }
      else if m = 0xc7 then do { (v, r) \<leftarrow> take_u8 r; take_ext (ucast v) r \<bind> done }
      else if m = 0xc8 then do { (v, r) \<leftarrow> take_u16 r; take_ext (ucast v) r \<bind> done }
      else if m = 0xc9 then do { (v, r) \<leftarrow> take_u32 r; take_ext v r \<bind> done }
      else if m = 0xca then do { (v, r) \<leftarrow> take_u32 r; Some (Some (Tag_Float v), r) }
      else if m = 0xcb then do { (v, r) \<leftarrow> take_u64 r; Some (Some (Tag_Double v), r) }
      else if m = 0xcc then do { (v, r) \<leftarrow> take_u8 r; Some (Some (Tag_Uint (ucast v)), r) }
      else if m = 0xcd then do { (v, r) \<leftarrow> take_u16 r; Some (Some (Tag_Uint (ucast v)), r) }
      else if m = 0xce then do { (v, r) \<leftarrow> take_u32 r; Some (Some (Tag_Uint (ucast v)), r) }
      else if m = 0xcf then do { (v, r) \<leftarrow> take_u64 r; Some (Some (Tag_Uint v), r) }
      else if m = 0xd0 then do { (v, r) \<leftarrow> take_u8 r; Some (Some (Tag_Int (scast v)), r) }
      else if m = 0xd1 then do { (v, r) \<leftarrow> take_u16 r; Some (Some (Tag_Int (scast v)), r) }
      else if m = 0xd2 then do { (v, r) \<leftarrow> take_u32 r; Some (Some (Tag_Int (scast v)), r) }
      else if m = 0xd3 then do { (v, r) \<leftarrow> take_u64 r; Some (Some (Tag_Int v), r) }
      else if m = 0xd4 then take_ext 1 r \<bind> done
      else if m = 0xd5 then take_ext 2 r \<bind> done
      else if m = 0xd6 then take_ext 4 r \<bind> done
      else if m = 0xd7 then take_ext 8 r \<bind> done
      else if m = 0xd8 then take_ext 16 r \<bind> done
      else if m = 0xd9 then do { (v, r) \<leftarrow> take_u8 r; Some (Some (Tag_Str (ucast v)), r) }
      else if m = 0xda then do { (v, r) \<leftarrow> take_u16 r; Some (Some (Tag_Str (ucast v)), r) }
      else if m = 0xdb then do { (v, r) \<leftarrow> take_u32 r; Some (Some (Tag_Str v), r) }
      else if m = 0xdc then do { (v, r) \<leftarrow> take_u16 r; Some (Some (Tag_Array (ucast v)), r) }
      else if m = 0xdd then do { (v, r) \<leftarrow> take_u32 r; Some (Some (Tag_Array v), r) }
      else if m = 0xde then do { (v, r) \<leftarrow> take_u16 r; Some (Some (Tag_Map (ucast v)), r) }
      else if m = 0xdf then do { (v, r) \<leftarrow> take_u32 r; Some (Some (Tag_Map v), r) }
      else Some (Some (Tag_Int (scast marker)), r))"

definition parse_tag :: "bool \<Rightarrow> reader \<Rightarrow> (tag option \<times> reader) option" where
  "parse_tag consume r =
     (if r_error r \<noteq> Err_Ok then Some (None, r)
      else
        (let start = r_position r in
         case index (r_data r) (r_position r) of
           None \<Rightarrow> Some (None, flag_error Err_Invalid r)
         | Some marker \<Rightarrow>
             (case require (header_size (unat marker)) r of
                (False, r) \<Rightarrow> Some (None, r)
              | (True, r) \<Rightarrow> do {
                  (t, r) \<leftarrow> tag_of_marker marker (r\<lparr>r_position := r_position r + 1\<rparr>);
                  Some (t, if consume then r else r\<lparr>r_position := start\<rparr>)
                })))"

definition read_tag :: "reader \<Rightarrow> (tag option \<times> reader) option" where
  "read_tag r = parse_tag True r"

definition peek_tag :: "reader \<Rightarrow> (tag option \<times> reader) option" where
  "peek_tag r = parse_tag False r"

end
