(* ===== verification/Msgpack_Format.thy ===== *)
theory Msgpack_Format
  imports Mpack_Common
begin

section \<open>The MessagePack header formats, as a specification\<close>

text \<open>
  The abstract contract of the reader and of the writers: which byte sequences are headers, and
  of which tag. One rule per format of the MessagePack specification, stated on values and not
  on the code's bit operations. The reader is proved to recognise exactly this relation, the
  writers to produce members of it of least length.
\<close>

inductive header :: "u8 list \<Rightarrow> tag \<Rightarrow> bool" where
  pos_fixint: "n < 128 \<Longrightarrow> header [word_of_nat n] (Tag_Uint (word_of_nat n))"
| fixmap: "n < 16 \<Longrightarrow> header [word_of_nat (0x80 + n)] (Tag_Map (word_of_nat n))"
| fixarray: "n < 16 \<Longrightarrow> header [word_of_nat (0x90 + n)] (Tag_Array (word_of_nat n))"
| fixstr: "n < 32 \<Longrightarrow> header [word_of_nat (0xa0 + n)] (Tag_Str (word_of_nat n))"
| nil: "header [0xc0] Tag_Nil"
| bool_false: "header [0xc2] (Tag_Bool False)"
| bool_true: "header [0xc3] (Tag_Bool True)"
| bin8: "header (0xc4 # to_be_bytes (n :: u8)) (Tag_Bin (ucast n))"
| bin16: "header (0xc5 # to_be_bytes (n :: u16)) (Tag_Bin (ucast n))"
| bin32: "header (0xc6 # to_be_bytes (n :: u32)) (Tag_Bin n)"
| ext8: "header (0xc7 # to_be_bytes (n :: u8) @ [ty]) (Tag_Ext ty (ucast n))"
| ext16: "header (0xc8 # to_be_bytes (n :: u16) @ [ty]) (Tag_Ext ty (ucast n))"
| ext32: "header (0xc9 # to_be_bytes (n :: u32) @ [ty]) (Tag_Ext ty n)"
| float32: "header (0xca # to_be_bytes (f :: f32)) (Tag_Float f)"
| float64: "header (0xcb # to_be_bytes (d :: f64)) (Tag_Double d)"
| uint8: "header (0xcc # to_be_bytes (v :: u8)) (Tag_Uint (ucast v))"
| uint16: "header (0xcd # to_be_bytes (v :: u16)) (Tag_Uint (ucast v))"
| uint32: "header (0xce # to_be_bytes (v :: u32)) (Tag_Uint (ucast v))"
| uint64: "header (0xcf # to_be_bytes (v :: u64)) (Tag_Uint v)"
| int8: "header (0xd0 # to_be_bytes (v :: i8)) (Tag_Int (scast v))"
| int16: "header (0xd1 # to_be_bytes (v :: i16)) (Tag_Int (scast v))"
| int32: "header (0xd2 # to_be_bytes (v :: i32)) (Tag_Int (scast v))"
| int64: "header (0xd3 # to_be_bytes (v :: i64)) (Tag_Int v)"
| fixext1: "header [0xd4, ty] (Tag_Ext ty 1)"
| fixext2: "header [0xd5, ty] (Tag_Ext ty 2)"
| fixext4: "header [0xd6, ty] (Tag_Ext ty 4)"
| fixext8: "header [0xd7, ty] (Tag_Ext ty 8)"
| fixext16: "header [0xd8, ty] (Tag_Ext ty 16)"
| str8: "header (0xd9 # to_be_bytes (n :: u8)) (Tag_Str (ucast n))"
| str16: "header (0xda # to_be_bytes (n :: u16)) (Tag_Str (ucast n))"
| str32: "header (0xdb # to_be_bytes (n :: u32)) (Tag_Str n)"
| array16: "header (0xdc # to_be_bytes (n :: u16)) (Tag_Array (ucast n))"
| array32: "header (0xdd # to_be_bytes (n :: u32)) (Tag_Array n)"
| map16: "header (0xde # to_be_bytes (n :: u16)) (Tag_Map (ucast n))"
| map32: "header (0xdf # to_be_bytes (n :: u32)) (Tag_Map n)"
| neg_fixint: "n < 32 \<Longrightarrow> header [word_of_nat (0xe0 + n)] (Tag_Int (word_of_int (int n - 32)))"

lemma header_length: "header hs t \<Longrightarrow> 1 \<le> length hs \<and> length hs \<le> 9"
  by (induction rule: header.induct) auto

lemma header_nonempty: "header hs t \<Longrightarrow> hs \<noteq> []"
  by (auto dest: header_length)

text \<open>A byte sequence that starts with a header.\<close>

definition has_header :: "u8 list \<Rightarrow> bool" where
  "has_header bs \<longleftrightarrow> (\<exists>hs t rest. header hs t \<and> bs = hs @ rest)"

lemma has_headerI: "header hs t \<Longrightarrow> has_header (hs @ rest)"
  by (auto simp: has_header_def)

end
