(* ===== verification/Reader_Header.thy ===== *)
theory Reader_Header
  imports Reader_Core Msgpack_Format
begin

section \<open>The tag decoder recognises exactly the MessagePack headers\<close>

text \<open>
  A cursor view of the reader (\<open>unread\<close>, \<open>advance\<close>), the byte takes in terms of it, and the two
  halves of the contract of \<open>parse_tag\<close>: on a header it returns the header's tag and moves past
  it, on anything else it flags \<open>Invalid\<close>. It never panics.
\<close>

definition unread :: "reader \<Rightarrow> u8 list" where
  "unread r = drop (r_position r) (r_data r)"

definition advance :: "nat \<Rightarrow> reader \<Rightarrow> reader" where
  "advance n r = r\<lparr>r_position := r_position r + n\<rparr>"

lemma unread_advance [simp]: "unread (advance n r) = drop n (unread r)"
  by (simp add: unread_def advance_def add.commute)

lemma advance_advance [simp]: "advance n (advance m r) = advance (m + n) r"
  by (simp add: advance_def)

lemma advance_0 [simp]: "advance 0 r = r"
  by (simp add: advance_def)

lemma advance_fields [simp]:
  "r_data (advance n r) = r_data r" "r_error (advance n r) = r_error r"
  "r_position (advance n r) = r_position r + n"
  by (simp_all add: advance_def)

subsection \<open>Takes at the cursor\<close>

lemma take_u8_cons [simp]: "unread r = b # bs \<Longrightarrow> take_u8 r = Some (b, advance 1 r)"
  by (cases "r_position r < length (r_data r)")
    (simp_all add: unread_def take_u8_def index_def advance_def flip: Cons_nth_drop_Suc)

lemma length_2D: "length xs = 2 \<Longrightarrow> \<exists>a b. xs = [a, b]"
  by (auto simp: numeral_2_eq_2 length_Suc_conv)

lemma length_4D: "length xs = 4 \<Longrightarrow> \<exists>a b c d. xs = [a, b, c, d]"
  by (auto simp: eval_nat_numeral length_Suc_conv)

lemma length_8D: "length xs = 8 \<Longrightarrow> \<exists>a b c d e f g h. xs = [a, b, c, d, e, f, g, h]"
  by (auto simp: eval_nat_numeral length_Suc_conv)

lemma take_u16_bytes [simp]:
  assumes "unread r = to_be_bytes w @ bs"
  shows "take_u16 r = Some (w, advance 2 r)"
proof -
  obtain b0 b1 where b: "to_be_bytes w = [b0, b1]"
    using length_2D [of "to_be_bytes w"] by auto
  have "word_of_nat (from_be [b0, b1]) = w"
    using from_be_to_be_bytes [of w] by (simp add: b)
  with assms b show ?thesis
    by (simp add: take_u16_def)
qed

lemma take_u32_bytes [simp]:
  assumes "unread r = to_be_bytes w @ bs"
  shows "take_u32 r = Some (w, advance 4 r)"
proof -
  obtain b0 b1 b2 b3 where b: "to_be_bytes w = [b0, b1, b2, b3]"
    using length_4D [of "to_be_bytes w"] by auto
  have "word_of_nat (from_be [b0, b1, b2, b3]) = w"
    using from_be_to_be_bytes [of w] by (simp add: b)
  with assms b show ?thesis
    by (simp add: take_u32_def)
qed

lemma take_u64_bytes [simp]:
  assumes "unread r = to_be_bytes w @ bs"
  shows "take_u64 r = Some (w, advance 8 r)"
proof -
  obtain b0 b1 b2 b3 b4 b5 b6 b7 where b: "to_be_bytes w = [b0, b1, b2, b3, b4, b5, b6, b7]"
    using length_8D [of "to_be_bytes w"] by auto
  have "word_of_nat (from_be [b0, b1, b2, b3, b4, b5, b6, b7]) = w"
    using from_be_to_be_bytes [of w] by (simp add: b)
  with assms b show ?thesis
    by (simp add: take_u64_def)
qed

lemma take_ext_cons [simp]:
  "unread r = b # bs \<Longrightarrow> take_ext n r = Some (Tag_Ext b n, advance 1 r)"
  by (simp add: take_ext_def)

subsection \<open>Soundness: a header is decoded to its tag\<close>

lemma header_size_header: "header (m # hs) t \<Longrightarrow> header_size (unat m) = Suc (length hs)"
  by (erule header.cases, simp_all add: unat_of_nat_small del: of_nat_add,
      simp_all add: header_size_def)

lemma sint_i8_small:
  "- 128 \<le> k \<Longrightarrow> k < 128 \<Longrightarrow> sint (word_of_int k :: i8) = k"
  by (simp only: signed_of_int) (simp add: signed_take_bit_int_eq_self_iff)

lemma neg_fixint_value:
  "n < 32 \<Longrightarrow> (scast (word_of_nat (224 + n) :: i8) :: i64) = word_of_int (int n - 32)"
proof -
  assume "n < 32"
  have "(word_of_nat (224 + n) :: i8) = word_of_int (int n - 32)"
    by simp
  moreover have "sint (word_of_int (int n - 32) :: i8) = int n - 32"
    using \<open>n < 32\<close> by (intro sint_i8_small) auto
  ultimately show ?thesis
    by (simp only: scast_eq)
qed

lemma fix_mod:
  "n < 16 \<Longrightarrow> (128 + n) mod 16 = (n::nat)" "n < 16 \<Longrightarrow> (144 + n) mod 16 = n"
  "n < 32 \<Longrightarrow> (160 + n) mod 32 = n"
  using mod_mult_self2[of n 16 8] mod_mult_self2[of n 16 9] mod_mult_self2[of n 32 5]
  by (simp_all add: ac_simps)

lemma ucast_and_15: "(ucast ((m :: u8) AND 15) :: u32) = word_of_nat (unat m mod 16)"
  by (simp only: flip: unat_and_15) (simp add: unsigned_def)

lemma ucast_and_31: "(ucast ((m :: u8) AND 31) :: u32) = word_of_nat (unat m mod 32)"
  by (simp only: flip: unat_and_31) (simp add: unsigned_def)

lemma ucast_u8_small: "n < 256 \<Longrightarrow> (ucast (word_of_nat n :: u8) :: 'a::len word) = word_of_nat n"
  by (subst of_nat_unat [symmetric]) (simp only: unat_of_nat_small [where 'a = 8, simplified])

lemma tag_of_marker_header:
  assumes h: "header (m # hs) t" and u: "unread r = hs @ rest"
  shows "tag_of_marker m r = Some (Some t, advance (length hs) r)"
  using h
proof (cases rule: header.cases)
  case (neg_fixint n)
  with u show ?thesis
    by (simp add: tag_of_marker_def unat_of_nat_small neg_fixint_value del: of_nat_add)
qed (use u in \<open>simp_all add: tag_of_marker_def unat_of_nat_small
       ucast_and_15 ucast_and_31 ucast_u8_small fix_mod del: of_nat_add\<close>)

subsection \<open>Completeness: every other input is rejected\<close>

text \<open>The markers \<open>0xc0\<close> to \<open>0xdf\<close> one by one, and the four fixed ranges.\<close>

lemma marker_cases:
  obtains (fixint) n where "n < 128" "m = (word_of_nat n :: u8)"
  | (fixmap) n where "n < 16" "m = word_of_nat (0x80 + n)"
  | (fixarray) n where "n < 16" "m = word_of_nat (0x90 + n)"
  | (fixstr) n where "n < 32" "m = word_of_nat (0xa0 + n)"
  | (single) "m \<in> set [0xc0, 0xc1, 0xc2, 0xc3, 0xc4, 0xc5, 0xc6, 0xc7, 0xc8, 0xc9, 0xca, 0xcb, 0xcc,
      0xcd, 0xce, 0xcf, 0xd0, 0xd1, 0xd2, 0xd3, 0xd4, 0xd5, 0xd6, 0xd7, 0xd8, 0xd9, 0xda, 0xdb,
      0xdc, 0xdd, 0xde, 0xdf]"
  | (neg_fixint) n where "n < 32" "m = word_of_nat (0xe0 + n)"
proof -
  have lt: "unat m < 256" by (rule unat_u8_less)
  have m: "m = word_of_nat (unat m)" by simp
  consider "unat m < 0x80" | "0x80 \<le> unat m" "unat m < 0x90" | "0x90 \<le> unat m" "unat m < 0xa0"
    | "0xa0 \<le> unat m" "unat m < 0xc0" | "0xc0 \<le> unat m" "unat m < 0xe0" | "0xe0 \<le> unat m"
    by linarith
  then show thesis
  proof cases
    case 1 then show thesis using m fixint by blast
  next
    case 2 then show thesis using m fixmap [of "unat m - 0x80"] by simp
  next
    case 3 then show thesis using m fixarray [of "unat m - 0x90"] by simp
  next
    case 4 then show thesis using m fixstr [of "unat m - 0xa0"] by simp
  next
    case 5
    then have "unat m \<in> set [0xc0..<0xe0]" by (simp only: set_upt atLeastLessThan_iff)
    then have "m \<in> word_of_nat ` set [0xc0..<0xe0]" using m by blast
    also have "\<dots> = set (map word_of_nat [0xc0..<0xe0])" by (simp only: set_map)
    also have "map word_of_nat [0xc0..<0xe0] = [0xc0, 0xc1, 0xc2, 0xc3, 0xc4, 0xc5, 0xc6, 0xc7, 0xc8,
      0xc9, 0xca, 0xcb, 0xcc, 0xcd, 0xce, 0xcf, 0xd0, 0xd1, 0xd2, 0xd3, 0xd4, 0xd5, 0xd6, 0xd7,
      0xd8, 0xd9, 0xda, 0xdb, 0xdc, 0xdd, 0xde, 0xdf :: u8]"
      by (simp add: upt_rec)
    finally show thesis by (rule single)
  next
    case 6 then show thesis using m lt neg_fixint [of "unat m - 0xe0"] by simp
  qed
qed

lemma header_ex_word:
  assumes "\<And>w :: 'a::len word. header (m # to_be_bytes w) (f w)"
    and "LENGTH('a) div 8 \<le> length bs" and "8 dvd LENGTH('a)"
  shows "has_header (m # bs)"
  using to_be_bytes_prefix [OF assms(2,3)] assms(1) by (metis append_Cons has_headerI)

lemma header_ex_word_type:
  assumes h: "\<And>(w :: 'a::len word) ty. header (m # to_be_bytes w @ [ty]) (f w ty)"
    and l: "Suc (LENGTH('a) div 8) \<le> length bs" and d: "8 dvd LENGTH('a)"
  shows "has_header (m # bs)"
proof -
  from l have "LENGTH('a) div 8 \<le> length bs" by simp
  then obtain w :: "'a word" and rest where bs: "bs = to_be_bytes w @ rest"
    using d by (rule to_be_bytes_prefix)
  with l obtain ty rest' where "rest = ty # rest'"
    by (cases rest) auto
  with bs have eq: "m # bs = (m # to_be_bytes w @ [ty]) @ rest'" by simp
  show ?thesis by (simp only: eq has_headerI [OF h])
qed

lemma header_ex_type:
  assumes "\<And>ty. header [m, ty] (f ty)" and "Suc 0 \<le> length bs"
  shows "has_header (m # bs)"
  using assms by (cases bs) (auto intro: has_headerI [where hs = "[m, _]", simplified])

lemma header_ex_single:
  assumes "header [m] t"
  shows "has_header (m # bs)"
  using has_headerI [OF assms, of bs] by simp

lemmas header_ex =
  header_ex_single [OF nil] header_ex_single [OF bool_false] header_ex_single [OF bool_true]
  header_ex_single [OF pos_fixint] header_ex_single [OF fixmap] header_ex_single [OF fixarray]
  header_ex_single [OF fixstr] header_ex_single [OF neg_fixint]
  header_ex_word [OF bin8] header_ex_word [OF bin16] header_ex_word [OF bin32]
  header_ex_word_type [OF ext8] header_ex_word_type [OF ext16] header_ex_word_type [OF ext32]
  header_ex_word [OF float32] header_ex_word [OF float64]
  header_ex_word [OF uint8] header_ex_word [OF uint16]
  header_ex_word [OF uint32] header_ex_word [OF uint64]
  header_ex_word [OF int8] header_ex_word [OF int16]
  header_ex_word [OF int32] header_ex_word [OF int64]
  header_ex_type [OF fixext1] header_ex_type [OF fixext2] header_ex_type [OF fixext4]
  header_ex_type [OF fixext8] header_ex_type [OF fixext16]
  header_ex_word [OF str8] header_ex_word [OF str16] header_ex_word [OF str32]
  header_ex_word [OF array16] header_ex_word [OF array32]
  header_ex_word [OF map16] header_ex_word [OF map32]

lemma header_complete:
  assumes "header_size (unat m) \<le> Suc (length bs)" and "m \<noteq> 0xc1"
  shows "has_header (m # bs)"
proof (cases m rule: marker_cases)
  case single
  with assms show ?thesis
    by (simp, elim disjE) (simp_all add: header_ex, simp_all add: header_size_def header_ex)
qed (auto intro: header_ex simp del: of_nat_add)

subsection \<open>The contract of the decoder\<close>

lemma length_unread: "length (unread r) = length (r_data r) - r_position r"
  by (simp add: unread_def)

lemma index_unread: "index (r_data r) (r_position r) = (case unread r of [] \<Rightarrow> None | b # _ \<Rightarrow> Some b)"
  by (cases "r_position r < length (r_data r)")
    (simp_all add: unread_def index_def flip: Cons_nth_drop_Suc)

lemma require_unread:
  "require n r = (if length (unread r) < n then (False, flag_error Err_Invalid r) else (True, r))"
  by (simp add: require_def length_unread)

lemma parse_tag_sticky [simp]: "r_error r \<noteq> Err_Ok \<Longrightarrow> parse_tag c r = Some (None, r)"
  by (simp add: parse_tag_def)

lemma parse_tag_header:
  assumes ok: "r_error r = Err_Ok" and h: "header hs t" and u: "unread r = hs @ rest"
  shows "parse_tag c r = Some (Some t, if c then advance (length hs) r else r)"
proof -
  obtain m hs' where hs: "hs = m # hs'"
    using header_nonempty [OF h] by (cases hs) auto
  have sz: "header_size (unat m) = Suc (length hs')"
    using h by (simp add: hs header_size_header)
  have u': "unread (advance 1 r) = hs' @ rest"
    by (simp add: u hs)
  have "tag_of_marker m (advance 1 r) = Some (Some t, advance (length hs') (advance 1 r))"
    using h u' by (simp add: hs tag_of_marker_header)
  then have "tag_of_marker m (r\<lparr>r_position := Suc (r_position r)\<rparr>) = Some (Some t, advance (length hs) r)"
    by (simp add: hs) (simp add: advance_def)
  then show ?thesis
    using ok u by (simp add: parse_tag_def index_unread require_unread hs sz)
qed

text \<open>The marker \<open>0xc1\<close> is the one rejected after its byte was consumed.\<close>

definition reject_skip :: "bool \<Rightarrow> u8 list \<Rightarrow> nat" where
  "reject_skip consume bs = (case bs of [] \<Rightarrow> 0 | b # _ \<Rightarrow> if b = 0xc1 \<and> consume then 1 else 0)"

lemma parse_tag_reject:
  assumes ok: "r_error r = Err_Ok" and no: "\<not> has_header (unread r)"
  shows "parse_tag c r = Some (None, flag_error Err_Invalid (advance (reject_skip c (unread r)) r))"
proof (cases "unread r")
  case Nil
  then show ?thesis
    using ok by (simp add: parse_tag_def index_unread reject_skip_def)
next
  case (Cons m bs)
  show ?thesis
  proof (cases "m = 0xc1")
    case True
    then show ?thesis
      using ok Cons by (simp add: parse_tag_def index_unread require_unread header_size_def
          tag_of_marker_def reject_skip_def flag_error_def advance_def)
  next
    case False
    then have "\<not> header_size (unat m) \<le> Suc (length bs)"
      using no Cons header_complete by auto
    then show ?thesis
      using ok Cons False by (simp add: parse_tag_def index_unread require_unread reject_skip_def)
  qed
qed

lemma header_unique:
  assumes "header hs t" and "header hs' t'" and "hs @ rest = hs' @ rest'"
  shows "hs = hs' \<and> t = t' \<and> rest = rest'"
proof -
  let ?r = "reader_new (hs @ rest)"
  have u: "unread ?r = hs @ rest" "r_error ?r = Err_Ok"
    by (simp_all add: unread_def reader_new_def)
  have "parse_tag True ?r = Some (Some t, advance (length hs) ?r)"
    using assms(1) u by (simp add: parse_tag_header)
  moreover have "parse_tag True ?r = Some (Some t', advance (length hs') ?r)"
    using assms(2,3) u by (simp add: parse_tag_header)
  ultimately have "t = t'" and "length hs = length hs'"
    by (auto dest!: arg_cong [where f = r_position])
  with assms(3) show ?thesis by simp
qed

end
