(* ===== verification/Writer_Encode.thy ===== *)
theory Writer_Encode
  imports Writer_Fixed Reader_Header
begin

section \<open>What the fixed writer emits\<close>

text \<open>
  The contract of the fixed-buffer writer: its invariant, the effect \<open>emit\<close> of writing one
  indivisible run of bytes, and, for every operation, the bytes it emits. The encoders \<open>enc_uint\<close>
  to \<open>enc_tag\<close> give the canonical header of each tag.
\<close>

definition wf_writer :: "writer \<Rightarrow> bool" where
  "wf_writer w \<longleftrightarrow> w_position w \<le> length (w_buffer w)"

definition emit :: "u8 list \<Rightarrow> writer \<Rightarrow> writer" where
  "emit hs w =
     (if w_error w \<noteq> Err_Ok then w
      else if length (w_buffer w) - w_position w < length hs then w\<lparr>w_error := Err_TooBig\<rparr>
      else w\<lparr>w_buffer := take (w_position w) (w_buffer w) @ hs
                       @ drop (w_position w + length hs) (w_buffer w),
             w_position := w_position w + length hs\<rparr>)"

lemma wf_writer_new [simp]: "wf_writer (writer_new buf)"
  by (simp add: wf_writer_def writer_new_def)

lemma wf_emit [simp]: "wf_writer w \<Longrightarrow> wf_writer (emit hs w)"
  by (auto simp: wf_writer_def emit_def)

lemma wf_flag_too_big [simp]: "wf_writer w \<Longrightarrow> wf_writer (flag_too_big w)"
  by (simp add: wf_writer_def flag_too_big_def)

lemma write_header_emit [contracts]: "wf_writer w \<Longrightarrow> write_header hs w = Some (emit hs w)"
  by (auto simp: wf_writer_def write_header_def emit_def store_at_def)

lemma write_byte_emit [contracts]: "wf_writer w \<Longrightarrow> write_byte b w = Some (emit [b] w)"
  by (auto simp: wf_writer_def write_byte_def emit_def upd_conv_take_nth_drop)

lemma write_header_with_value_emit [contracts]:
  assumes "length v \<le> 8" and "wf_writer w"
  shows "write_header_with_value m v w = Some (emit (m # v) w)"
  using assms by (simp add: write_header_with_value_def checked write_header_emit numeral_eq_Suc)

subsection \<open>Canonical headers\<close>

definition enc_uint :: "u64 \<Rightarrow> u8 list" where
  "enc_uint v =
     (if unat v \<le> 0x7f then [ucast v]
      else if unat v \<le> 255 then [0xcc, ucast v]
      else if unat v \<le> 65535 then 0xcd # to_be_bytes (ucast v :: u16)
      else if unat v \<le> 4294967295 then 0xce # to_be_bytes (ucast v :: u32)
      else 0xcf # to_be_bytes v)"

definition enc_int :: "i64 \<Rightarrow> u8 list" where
  "enc_int v =
     (if 0 \<le> sint v then enc_uint v
      else if - 32 \<le> sint v then [ucast v]
      else if - 128 \<le> sint v then 0xd0 # to_be_bytes (ucast v :: i8)
      else if - 32768 \<le> sint v then 0xd1 # to_be_bytes (ucast v :: i16)
      else if - 2147483648 \<le> sint v then 0xd2 # to_be_bytes (ucast v :: i32)
      else 0xd3 # to_be_bytes v)"

definition enc_array :: "nat \<Rightarrow> u8 list" where
  "enc_array n =
     (if n < 16 then [word_of_nat (0x90 + n)]
      else if n < 65536 then 0xdc # to_be_bytes (word_of_nat n :: u16)
      else 0xdd # to_be_bytes (word_of_nat n :: u32))"

definition enc_map :: "nat \<Rightarrow> u8 list" where
  "enc_map n =
     (if n < 16 then [word_of_nat (0x80 + n)]
      else if n < 65536 then 0xde # to_be_bytes (word_of_nat n :: u16)
      else 0xdf # to_be_bytes (word_of_nat n :: u32))"

definition enc_str :: "nat \<Rightarrow> u8 list" where
  "enc_str n =
     (if n < 32 then [word_of_nat (0xa0 + n)]
      else if n < 256 then [0xd9, word_of_nat n]
      else if n < 65536 then 0xda # to_be_bytes (word_of_nat n :: u16)
      else 0xdb # to_be_bytes (word_of_nat n :: u32))"

definition enc_str_v4 :: "nat \<Rightarrow> u8 list" where
  "enc_str_v4 n =
     (if n < 32 then [word_of_nat (0xa0 + n)]
      else if n < 65536 then 0xda # to_be_bytes (word_of_nat n :: u16)
      else 0xdb # to_be_bytes (word_of_nat n :: u32))"

definition enc_bin :: "nat \<Rightarrow> u8 list" where
  "enc_bin n =
     (if n < 256 then [0xc4, word_of_nat n]
      else if n < 65536 then 0xc5 # to_be_bytes (word_of_nat n :: u16)
      else 0xc6 # to_be_bytes (word_of_nat n :: u32))"

definition enc_ext :: "i8 \<Rightarrow> nat \<Rightarrow> u8 list" where
  "enc_ext ty n =
     (if n = 1 then [0xd4, ty] else if n = 2 then [0xd5, ty] else if n = 4 then [0xd6, ty]
      else if n = 8 then [0xd7, ty] else if n = 16 then [0xd8, ty]
      else if n < 256 then [0xc7, word_of_nat n, ty]
      else if n < 65536 then 0xc8 # to_be_bytes (word_of_nat n :: u16) @ [ty]
      else 0xc9 # to_be_bytes (word_of_nat n :: u32) @ [ty])"

fun enc_tag :: "tag \<Rightarrow> u8 list" where
  "enc_tag Tag_Nil = [0xc0]"
| "enc_tag (Tag_Bool b) = [if b then 0xc3 else 0xc2]"
| "enc_tag (Tag_Int v) = enc_int v"
| "enc_tag (Tag_Uint v) = enc_uint v"
| "enc_tag (Tag_Float f) = 0xca # to_be_bytes f"
| "enc_tag (Tag_Double d) = 0xcb # to_be_bytes d"
| "enc_tag (Tag_Str n) = enc_str (unat n)"
| "enc_tag (Tag_Bin n) = enc_bin (unat n)"
| "enc_tag (Tag_Array n) = enc_array (unat n)"
| "enc_tag (Tag_Map n) = enc_map (unat n)"
| "enc_tag (Tag_Ext ty n) = enc_ext ty (unat n)"

definition emit_len :: "(nat \<Rightarrow> u8 list) \<Rightarrow> nat \<Rightarrow> writer \<Rightarrow> writer" where
  "emit_len enc n w = (if n < 2 ^ 32 then emit (enc n) w else flag_too_big w)"

subsection \<open>The operations emit the canonical headers\<close>

lemma or_small:
  "n < 16 \<Longrightarrow> (0x90 OR word_of_nat n :: u8) = word_of_nat (0x90 + n)"
  "n < 16 \<Longrightarrow> (0x80 OR word_of_nat n :: u8) = word_of_nat (0x80 + n)"
  "n < 32 \<Longrightarrow> (0xa0 OR word_of_nat n :: u8) = word_of_nat (0xa0 + n)"
proof -
  have "\<forall>n \<in> set [0..<16]. (0x90 OR word_of_nat n :: u8) = word_of_nat (0x90 + n)"
    "\<forall>n \<in> set [0..<16]. (0x80 OR word_of_nat n :: u8) = word_of_nat (0x80 + n)"
    "\<forall>n \<in> set [0..<32]. (0xa0 OR word_of_nat n :: u8) = word_of_nat (0xa0 + n)"
    by (simp_all add: upt_rec del: set_upt)
  then show "n < 16 \<Longrightarrow> (0x90 OR word_of_nat n :: u8) = word_of_nat (0x90 + n)"
    "n < 16 \<Longrightarrow> (0x80 OR word_of_nat n :: u8) = word_of_nat (0x80 + n)"
    "n < 32 \<Longrightarrow> (0xa0 OR word_of_nat n :: u8) = word_of_nat (0xa0 + n)"
    by (simp_all del: of_nat_add)
qed

lemma write_nil_emit [contracts]: "wf_writer w \<Longrightarrow> write_nil w = Some (emit (enc_tag Tag_Nil) w)"
  by (simp add: write_nil_def write_byte_emit)

lemma write_bool_emit [contracts]:
  "wf_writer w \<Longrightarrow> write_bool b w = Some (emit (enc_tag (Tag_Bool b)) w)"
  by (simp add: write_bool_def write_byte_emit)

lemma write_u64_emit [contracts]: "wf_writer w \<Longrightarrow> write_u64 v w = Some (emit (enc_uint v) w)"
  by (simp add: write_u64_def enc_uint_def contracts)

lemma write_i64_emit [contracts]: "wf_writer w \<Longrightarrow> write_i64 v w = Some (emit (enc_int v) w)"
  by (simp add: write_i64_def enc_int_def contracts)

lemma write_f32_emit [contracts]:
  "wf_writer w \<Longrightarrow> write_f32 f w = Some (emit (enc_tag (Tag_Float f)) w)"
  by (simp add: write_f32_def write_f32_bits_def contracts)

lemma write_f64_emit [contracts]:
  "wf_writer w \<Longrightarrow> write_f64 d w = Some (emit (enc_tag (Tag_Double d)) w)"
  by (simp add: write_f64_def write_f64_bits_def contracts)

lemma write_array_header_emit [contracts]:
  "wf_writer w \<Longrightarrow> write_array_header n w = Some (emit_len enc_array n w)"
  by (auto simp: write_array_header_def emit_len_def enc_array_def try_from_def contracts or_small
      simp del: of_nat_add)

lemma write_map_header_emit [contracts]:
  "wf_writer w \<Longrightarrow> write_map_header n w = Some (emit_len enc_map n w)"
  by (auto simp: write_map_header_def emit_len_def enc_map_def try_from_def contracts or_small
      simp del: of_nat_add)

lemma write_str_header_emit [contracts]:
  "wf_writer w \<Longrightarrow> write_str_header n w = Some (emit_len enc_str n w)"
  by (auto simp: write_str_header_def emit_len_def enc_str_def try_from_def contracts or_small
      simp del: of_nat_add)

lemma write_str_header_v4_emit [contracts]:
  "wf_writer w \<Longrightarrow> write_str_header_v4 n w = Some (emit_len enc_str_v4 n w)"
  by (auto simp: write_str_header_v4_def emit_len_def enc_str_v4_def try_from_def contracts or_small
      simp del: of_nat_add)

lemma write_bin_header_emit [contracts]:
  "wf_writer w \<Longrightarrow> write_bin_header n w = Some (emit_len enc_bin n w)"
  by (auto simp: write_bin_header_def emit_len_def enc_bin_def try_from_def contracts)

lemma write_ext_header_emit [contracts]:
  "wf_writer w \<Longrightarrow> write_ext_header ty n w = Some (emit_len (enc_ext ty) n w)"
  by (auto simp: write_ext_header_def emit_len_def enc_ext_def try_from_def contracts)

end
