(* ===== verification/Canonical.thy ===== *)
theory Canonical
  imports Writer_Encode
begin

section \<open>The canonical headers are headers, and the shortest ones\<close>

text \<open>
  \<open>enc_tag t\<close> is a MessagePack header of \<open>t\<close> in normal form, and no header of the same value is
  shorter: the writers' choice of format is the best one.
\<close>

subsection \<open>Integer conversions\<close>

lemma unat_ucast_down: "unat v < 2 ^ LENGTH('b::len) \<Longrightarrow> unat (ucast (v :: 'a::len word) :: 'b word) = unat v"
  by (simp add: unsigned_ucast_eq take_bit_nat_eq_self)

lemma unat_ucast_up:
  "LENGTH('a::len) \<le> LENGTH('b::len) \<Longrightarrow> unat (ucast (v :: 'a word) :: 'b word) = unat v"
  by (rule unat_ucast_down, rule less_le_trans, rule unat_less_exp) (simp add: power_increasing)

lemma ucast_ucast_small:
  assumes "unat v < 2 ^ LENGTH('b::len)"
  shows "(ucast (ucast (v :: 'a::len word) :: 'b word) :: 'a word) = v"
proof -
  have "unat (ucast v :: 'b word) = unat v"
    using assms by (rule unat_ucast_down)
  then have "word_of_nat (unat (ucast v :: 'b word)) = (word_of_nat (unat v) :: 'a word)"
    by (rule arg_cong)
  then show ?thesis by simp
qed

lemma sint_nonneg_unat: "0 \<le> sint (v :: 'a::len word) \<Longrightarrow> int (unat v) = sint v"
proof -
  assume "0 \<le> sint v"
  moreover have "sint v < 2 ^ LENGTH('a)"
    using sint_lt [of v] by (rule less_le_trans) (simp add: power_increasing)
  ultimately have "uint v = sint v"
    by (simp add: uint_sint take_bit_int_eq_self)
  then show ?thesis by simp
qed

lemma sint_scast_up:
  "LENGTH('a::len) \<le> LENGTH('b::len) \<Longrightarrow> sint (scast (v :: 'a word) :: 'b word) = sint v"
  by (rule sint_up_scast) (simp add: is_up)

lemma scast_ucast_small:
  assumes "- (2 ^ (LENGTH('b::len) - 1)) \<le> sint v" and "sint v < 2 ^ (LENGTH('b) - 1)"
    and "LENGTH('b) \<le> LENGTH('a)"
  shows "(scast (ucast (v :: 'a::len word) :: 'b word) :: 'a word) = v"
proof -
  have "sint (ucast v :: 'b word) = signed_take_bit (LENGTH('b) - 1) (uint v)"
    using signed_ucast_eq [where 'a = int and 'c = 'b, of v] by simp
  also have "\<dots> = signed_take_bit (LENGTH('b) - 1) (sint v)"
    using assms(3) by (simp add: uint_sint signed_take_bit_take_bit)
  also have "\<dots> = sint v"
    using assms(1,2) by (intro signed_take_bit_int_eq_self) auto
  finally have "word_of_int (sint (ucast v :: 'b word)) = (word_of_int (sint v) :: 'a word)"
    by (rule arg_cong)
  then show ?thesis by (simp only: of_int_sint scast_id id_apply)
qed

subsection \<open>Canonical headers are headers\<close>

lemma header_enc_uint: "header (enc_uint v) (Tag_Uint v)"
proof -
  have 1: "header [word_of_nat (unat v)] (Tag_Uint (word_of_nat (unat v)))" if "unat v < 128"
    using that by (rule header.intros)
  show ?thesis
    using 1 uint8 [of "ucast v"] uint16 [of "ucast v"] uint32 [of "ucast v"] uint64 [of v]
    by (auto simp: enc_uint_def ucast_ucast_small)
qed

lemma header_enc_int: "sint v < 0 \<Longrightarrow> header (enc_int v) (Tag_Int v)"
proof -
  assume neg: "sint v < 0"
  have 1: "header [ucast v] (Tag_Int v)" if "- 32 \<le> sint v"
  proof -
    define n where "n = nat (sint v + 32)"
    have n: "n < 32" "int n - 32 = sint v"
      using that neg by (auto simp: n_def)
    have "(word_of_nat (0xe0 + n) :: u8) = word_of_int (int n - 32)"
      by simp
    also have "\<dots> = ucast v"
      by (simp only: n of_int_sint) (simp add: down_cast_same [symmetric] is_down)
    finally show ?thesis
      using neg_fixint [of n] n by simp
  qed
  show ?thesis
    using neg 1 int8 [of "ucast v"] int16 [of "ucast v"] int32 [of "ucast v"] int64 [of v]
    by (auto simp: enc_int_def scast_ucast_small)
qed

lemma ucast_of_nat_small:
  "n < 2 ^ LENGTH('b::len) \<Longrightarrow> (ucast (word_of_nat n :: 'b word) :: 'a::len word) = word_of_nat n"
  by (subst of_nat_unat [symmetric]) (simp only: unat_of_nat_small)

lemma header_enc_lens:
  assumes "n < 2 ^ 32"
  shows "header (enc_str n) (Tag_Str (word_of_nat n))"
    and "header (enc_str_v4 n) (Tag_Str (word_of_nat n))"
    and "header (enc_bin n) (Tag_Bin (word_of_nat n))"
    and "header (enc_array n) (Tag_Array (word_of_nat n))"
    and "header (enc_map n) (Tag_Map (word_of_nat n))"
    and "header (enc_ext ty n) (Tag_Ext ty (word_of_nat n))"
  using assms fixstr [of n] str8 [of "word_of_nat n"] str16 [of "word_of_nat n"]
    bin8 [of "word_of_nat n"] bin16 [of "word_of_nat n"]
    fixarray [of n] array16 [of "word_of_nat n"] fixmap [of n] map16 [of "word_of_nat n"]
    ext8 [of "word_of_nat n" ty] ext16 [of "word_of_nat n" ty]
  by (auto simp: enc_str_def enc_str_v4_def enc_bin_def enc_array_def enc_map_def enc_ext_def
      ucast_of_nat_small simp del: of_nat_add intro: header.intros)

lemma header_enc_tag: "header (enc_tag t) (normal_tag t)"
proof -
  have lens: "header (enc_str (unat n)) (Tag_Str n)" "header (enc_bin (unat n)) (Tag_Bin n)"
    "header (enc_array (unat n)) (Tag_Array n)" "header (enc_map (unat n)) (Tag_Map n)"
    "header (enc_ext ty (unat n)) (Tag_Ext ty n)" for n :: u32 and ty
    using header_enc_lens [of "unat n"] unat_u32_less [of n] by simp_all
  have int: "header (enc_int v) (if 0 \<le> sint v then Tag_Uint v else Tag_Int v)" for v
    using header_enc_uint [of v] header_enc_int [of v] by (auto simp: enc_int_def)
  show ?thesis
    by (cases t) (auto simp: lens int header_enc_uint intro: header.intros)
qed

lemma enc_tag_normal [simp]: "enc_tag (normal_tag t) = enc_tag t"
  by (cases t) (auto simp: enc_int_def)

lemma length_enc_tag: "1 \<le> length (enc_tag t) \<and> length (enc_tag t) \<le> 9"
  using header_enc_tag by (rule header_length)

lemma enc_tag_nonempty [simp]: "enc_tag t \<noteq> []"
  using length_enc_tag [of t] by auto

subsection \<open>No header is shorter\<close>

lemma length_enc_uint:
  "length (enc_uint v) =
     (if unat v \<le> 0x7f then 1 else if unat v \<le> 255 then 2 else if unat v \<le> 65535 then 3
      else if unat v \<le> 4294967295 then 5 else 9)"
  by (simp add: enc_uint_def)

lemma length_enc_int_le:
  "- 128 \<le> sint v \<Longrightarrow> sint v < 128 \<Longrightarrow> length (enc_int v) \<le> 2"
  "- 32768 \<le> sint v \<Longrightarrow> sint v < 32768 \<Longrightarrow> length (enc_int v) \<le> 3"
  "- 2147483648 \<le> sint v \<Longrightarrow> sint v < 2147483648 \<Longrightarrow> length (enc_int v) \<le> 5"
  "length (enc_int v) \<le> 9"
proof -
  have "0 \<le> sint v \<Longrightarrow> unat v = nat (sint v)"
    using sint_nonneg_unat [of v] by linarith
  then show "- 128 \<le> sint v \<Longrightarrow> sint v < 128 \<Longrightarrow> length (enc_int v) \<le> 2"
    "- 32768 \<le> sint v \<Longrightarrow> sint v < 32768 \<Longrightarrow> length (enc_int v) \<le> 3"
    "- 2147483648 \<le> sint v \<Longrightarrow> sint v < 2147483648 \<Longrightarrow> length (enc_int v) \<le> 5"
    "length (enc_int v) \<le> 9"
    by (cases "0 \<le> sint v"; simp add: enc_int_def length_enc_uint)+
qed

lemma header_shortest: "header hs t \<Longrightarrow> length (enc_tag t) \<le> length hs"
proof (induction rule: header.induct)
  case (int8 v)
  show ?case
    using sint_lt [of v] sint_ge [of v] length_enc_int_le(1) [of "scast v"]
    by (simp add: sint_scast_up)
next
  case (int16 v)
  show ?case
    using sint_lt [of v] sint_ge [of v] by (simp add: length_enc_int_le sint_scast_up)
next
  case (int32 v)
  show ?case
    using sint_lt [of v] sint_ge [of v] by (simp add: length_enc_int_le sint_scast_up)
next
  case (int64 v)
  show ?case by (simp add: length_enc_int_le)
next
  case (neg_fixint n)
  have "sint (word_of_int (int n - 32) :: i64) = int n - 32"
    using neg_fixint by (simp only: signed_of_int) (simp add: signed_take_bit_int_eq_self_iff)
  with neg_fixint show ?case by (simp add: enc_int_def)
qed (auto simp: length_enc_uint enc_str_def enc_bin_def enc_array_def enc_map_def enc_ext_def
   unat_ucast_up unat_of_nat_small unat_le_bounds)

end
