(* ===== verification/Writer_Growable.thy ===== *)
theory Writer_Growable
  imports Writer_Fixed
begin

section \<open>The growable writer (\<open>src/writer.rs\<close>, \<open>GrowableWriter\<close>)\<close>

text \<open>
  A writer over a growing vector. Every operation encodes through a fixed writer over sixteen
  scratch bytes and appends what that writer wrote.
\<close>

record growable =
  g_bytes :: "u8 list"
  g_error :: error

definition growable_new :: growable where
  "growable_new = \<lparr>g_bytes = [], g_error = default\<rparr>"

text \<open>The capacity is an allocation hint only.\<close>

definition growable_with_capacity :: "nat \<Rightarrow> growable" where
  "growable_with_capacity capacity = \<lparr>g_bytes = [], g_error = Err_Ok\<rparr>"

definition growable_into_vec :: "growable \<Rightarrow> error + u8 list" where
  "growable_into_vec g = (if g_error g = Err_Ok then Inr (g_bytes g) else Inl (g_error g))"

definition growable_append :: "u8 list \<Rightarrow> growable \<Rightarrow> growable" where
  "growable_append bytes g = (if g_error g = Err_Ok then g\<lparr>g_bytes := g_bytes g @ bytes\<rparr> else g)"

definition growable_encode :: "(writer \<Rightarrow> writer option) \<Rightarrow> growable \<Rightarrow> growable option" where
  "growable_encode encode g =
     (if g_error g \<noteq> Err_Ok then Some g
      else do {
        w \<leftarrow> encode (writer_new (replicate 16 0));
        bytes \<leftarrow> written w;
        Some (g\<lparr>g_error := w_error w, g_bytes := g_bytes g @ bytes\<rparr>)
      })"

definition gw_write_nil :: "growable \<Rightarrow> growable option" where
  "gw_write_nil g = growable_encode write_nil g"

definition gw_write_bool :: "bool \<Rightarrow> growable \<Rightarrow> growable option" where
  "gw_write_bool v g = growable_encode (write_bool v) g"

definition gw_write_u64 :: "u64 \<Rightarrow> growable \<Rightarrow> growable option" where
  "gw_write_u64 v g = growable_encode (write_u64 v) g"

definition gw_write_i64 :: "i64 \<Rightarrow> growable \<Rightarrow> growable option" where
  "gw_write_i64 v g = growable_encode (write_i64 v) g"

definition gw_write_f32 :: "f32 \<Rightarrow> growable \<Rightarrow> growable option" where
  "gw_write_f32 v g = growable_encode (write_f32 v) g"

definition gw_write_f64 :: "f64 \<Rightarrow> growable \<Rightarrow> growable option" where
  "gw_write_f64 v g = growable_encode (write_f64 v) g"

definition gw_write_array_header :: "nat \<Rightarrow> growable \<Rightarrow> growable option" where
  "gw_write_array_header count g = growable_encode (write_array_header count) g"

definition gw_write_map_header :: "nat \<Rightarrow> growable \<Rightarrow> growable option" where
  "gw_write_map_header count g = growable_encode (write_map_header count) g"

definition gw_write_str_header :: "nat \<Rightarrow> growable \<Rightarrow> growable option" where
  "gw_write_str_header len g = growable_encode (write_str_header len) g"

definition gw_write_bin_header :: "nat \<Rightarrow> growable \<Rightarrow> growable option" where
  "gw_write_bin_header len g = growable_encode (write_bin_header len) g"

definition gw_write_ext_header :: "i8 \<Rightarrow> nat \<Rightarrow> growable \<Rightarrow> growable option" where
  "gw_write_ext_header ext_type len g = growable_encode (write_ext_header ext_type len) g"

definition gw_write_str :: "u8 list \<Rightarrow> growable \<Rightarrow> growable option" where
  "gw_write_str val g = do {
     g \<leftarrow> growable_encode (write_str_header (length val)) g;
     Some (growable_append val g)
   }"

definition gw_write_bin :: "u8 list \<Rightarrow> growable \<Rightarrow> growable option" where
  "gw_write_bin val g = do {
     g \<leftarrow> growable_encode (write_bin_header (length val)) g;
     Some (growable_append val g)
   }"

definition gw_write_ext :: "i8 \<Rightarrow> u8 list \<Rightarrow> growable \<Rightarrow> growable option" where
  "gw_write_ext ext_type val g = do {
     g \<leftarrow> growable_encode (write_ext_header ext_type (length val)) g;
     Some (growable_append val g)
   }"

definition gw_write_timestamp :: "i64 \<Rightarrow> u32 \<Rightarrow> growable \<Rightarrow> growable option" where
  "gw_write_timestamp secs nanos g = growable_encode (write_timestamp secs nanos) g"

definition gw_write_bytes :: "u8 list \<Rightarrow> growable \<Rightarrow> growable option" where
  "gw_write_bytes bytes g = Some (growable_append bytes g)"

end
