(* ===== verification/Writer_Contract.thy ===== *)
theory Writer_Contract
  imports Canonical Writer_Growable
begin

section \<open>One contract for both writers\<close>

text \<open>
  The interface of a byte sink as the rest of the crate uses it. \<open>emits ok err out f hs\<close>: on a
  well-formed state the operation \<open>f\<close> does not panic and keeps the state well-formed; an earlier
  error freezes the state; otherwise it appends exactly \<open>hs\<close> to the emitted, or ends with an
  error having appended a prefix of it.
\<close>

definition emits ::
  "('s \<Rightarrow> bool) \<Rightarrow> ('s \<Rightarrow> error) \<Rightarrow> ('s \<Rightarrow> u8 list) \<Rightarrow> ('s \<Rightarrow> 's option) \<Rightarrow> u8 list \<Rightarrow> bool"
where
  "emits ok err out f hs \<longleftrightarrow>
     (\<forall>s. ok s \<longrightarrow> (\<exists>s'. f s = Some s' \<and> ok s' \<and>
        (if err s \<noteq> Err_Ok then s' = s
         else if err s' = Err_Ok then out s' = out s @ hs
         else \<exists>k. out s' = out s @ take k hs)))"

lemma emitsE:
  assumes "emits ok err out f hs" and "ok s"
  obtains s' where "f s = Some s'" and "ok s'" and "err s \<noteq> Err_Ok \<Longrightarrow> s' = s"
    and "err s = Err_Ok \<Longrightarrow> err s' = Err_Ok \<Longrightarrow> out s' = out s @ hs"
    and "err s = Err_Ok \<Longrightarrow> err s' \<noteq> Err_Ok \<Longrightarrow> \<exists>k. out s' = out s @ take k hs"
  using assms unfolding emits_def by (metis (full_types))

lemma emits_seq:
  assumes f: "emits ok err out f hs" and g: "emits ok err out g gs"
  shows "emits ok err out (\<lambda>s. f s \<bind> g) (hs @ gs)"
  unfolding emits_def
proof (intro allI impI)
  fix s assume ok: "ok s"
  obtain s1 where 1: "f s = Some s1" "ok s1" "err s \<noteq> Err_Ok \<Longrightarrow> s1 = s"
      "err s = Err_Ok \<Longrightarrow> err s1 = Err_Ok \<Longrightarrow> out s1 = out s @ hs"
      "err s = Err_Ok \<Longrightarrow> err s1 \<noteq> Err_Ok \<Longrightarrow> \<exists>k. out s1 = out s @ take k hs"
    using f ok by (rule emitsE) blast
  obtain s2 where 2: "g s1 = Some s2" "ok s2" "err s1 \<noteq> Err_Ok \<Longrightarrow> s2 = s1"
      "err s1 = Err_Ok \<Longrightarrow> err s2 = Err_Ok \<Longrightarrow> out s2 = out s1 @ gs"
      "err s1 = Err_Ok \<Longrightarrow> err s2 \<noteq> Err_Ok \<Longrightarrow> \<exists>k. out s2 = out s1 @ take k gs"
    using g 1(2) by (rule emitsE) blast
  have pre: "\<exists>k. out s2 = out s @ take k (hs @ gs)" if e: "err s = Err_Ok" "err s2 \<noteq> Err_Ok"
  proof (cases "err s1 = Err_Ok")
    case True
    then obtain k where "out s2 = out s1 @ take k gs"
      using 2(5) e by blast
    with True have "out s2 = out s @ hs @ take k gs"
      using 1(4) e by simp
    then have "out s2 = out s @ take (length hs + k) (hs @ gs)" by simp
    then show ?thesis by blast
  next
    case False
    then obtain k where "out s2 = out s @ take k hs"
      using 1(5) 2(3) e by auto
    then have "out s2 = out s @ take (min k (length hs)) (hs @ gs)"
      by (simp add: min_def)
    then show ?thesis by blast
  qed
  show "\<exists>s'. (f s \<bind> g) = Some s' \<and> ok s' \<and>
      (if err s \<noteq> Err_Ok then s' = s
       else if err s' = Err_Ok then out s' = out s @ hs @ gs
       else \<exists>k. out s' = out s @ take k (hs @ gs))"
    using 1 2 pre by (intro exI [of _ s2]) (auto; metis)
qed

locale encoder =
  fixes ok :: "'s \<Rightarrow> bool" and err :: "'s \<Rightarrow> error" and out :: "'s \<Rightarrow> u8 list"
    and put_nil :: "'s \<Rightarrow> 's option" and put_bool :: "bool \<Rightarrow> 's \<Rightarrow> 's option"
    and put_u64 :: "u64 \<Rightarrow> 's \<Rightarrow> 's option" and put_i64 :: "i64 \<Rightarrow> 's \<Rightarrow> 's option"
    and put_f32 :: "f32 \<Rightarrow> 's \<Rightarrow> 's option" and put_f64 :: "f64 \<Rightarrow> 's \<Rightarrow> 's option"
    and put_array :: "nat \<Rightarrow> 's \<Rightarrow> 's option" and put_map :: "nat \<Rightarrow> 's \<Rightarrow> 's option"
    and put_str :: "nat \<Rightarrow> 's \<Rightarrow> 's option" and put_bin :: "nat \<Rightarrow> 's \<Rightarrow> 's option"
    and put_ext :: "i8 \<Rightarrow> nat \<Rightarrow> 's \<Rightarrow> 's option"
    and put_bytes :: "u8 list \<Rightarrow> 's \<Rightarrow> 's option"
  assumes nil_emits: "emits ok err out put_nil [0xc0]"
    and bool_emits: "emits ok err out (put_bool b) [if b then 0xc3 else 0xc2]"
    and u64_emits: "emits ok err out (put_u64 v) (enc_uint v)"
    and i64_emits: "emits ok err out (put_i64 i) (enc_int i)"
    and f32_emits: "emits ok err out (put_f32 f) (0xca # to_be_bytes f)"
    and f64_emits: "emits ok err out (put_f64 d) (0xcb # to_be_bytes d)"
    and array_emits: "n < 2 ^ 32 \<Longrightarrow> emits ok err out (put_array n) (enc_array n)"
    and map_emits: "n < 2 ^ 32 \<Longrightarrow> emits ok err out (put_map n) (enc_map n)"
    and str_emits: "n < 2 ^ 32 \<Longrightarrow> emits ok err out (put_str n) (enc_str n)"
    and bin_emits: "n < 2 ^ 32 \<Longrightarrow> emits ok err out (put_bin n) (enc_bin n)"
    and ext_emits: "n < 2 ^ 32 \<Longrightarrow> emits ok err out (put_ext ty n) (enc_ext ty n)"
    and bytes_emits: "emits ok err out (put_bytes bs) bs"
begin

lemma tag_emits:
  "emits ok err out
     (case t of Tag_Nil \<Rightarrow> put_nil | Tag_Bool b \<Rightarrow> put_bool b | Tag_Int i \<Rightarrow> put_i64 i
      | Tag_Uint v \<Rightarrow> put_u64 v | Tag_Float f \<Rightarrow> put_f32 f | Tag_Double d \<Rightarrow> put_f64 d
      | Tag_Str n \<Rightarrow> put_str (unat n) | Tag_Bin n \<Rightarrow> put_bin (unat n)
      | Tag_Array n \<Rightarrow> put_array (unat n) | Tag_Map n \<Rightarrow> put_map (unat n)
      | Tag_Ext ty n \<Rightarrow> put_ext ty (unat n))
     (enc_tag t)"
  using unat_u32_less
  by (cases t) (simp_all add: nil_emits bool_emits u64_emits i64_emits f32_emits f64_emits
      array_emits map_emits str_emits bin_emits ext_emits)

lemma str_value_emits:
  "length val < 2 ^ 32 \<Longrightarrow>
     emits ok err out (\<lambda>s. put_str (length val) s \<bind> put_bytes val) (enc_str (length val) @ val)"
  by (intro emits_seq str_emits bytes_emits)

lemma bin_value_emits:
  "length val < 2 ^ 32 \<Longrightarrow>
     emits ok err out (\<lambda>s. put_bin (length val) s \<bind> put_bytes val) (enc_bin (length val) @ val)"
  by (intro emits_seq bin_emits bytes_emits)

lemma ext_value_emits:
  "length val < 2 ^ 32 \<Longrightarrow>
     emits ok err out (\<lambda>s. put_ext ty (length val) s \<bind> put_bytes val)
       (enc_ext ty (length val) @ val)"
  by (intro emits_seq ext_emits bytes_emits)

end

subsection \<open>The fixed writer provides it\<close>

definition emitted :: "writer \<Rightarrow> u8 list" where
  "emitted w = take (w_position w) (w_buffer w)"

definition room :: "writer \<Rightarrow> nat" where
  "room w = length (w_buffer w) - w_position w"

lemma written_emitted: "wf_writer w \<Longrightarrow> written w = Some (emitted w)"
  by (simp add: written_def wf_writer_def emitted_def checked)

lemma emit_fits:
  assumes "wf_writer w" and "w_error w = Err_Ok" and "length hs \<le> room w"
  shows "emitted (emit hs w) = emitted w @ hs" and "w_error (emit hs w) = Err_Ok"
    and "room (emit hs w) = room w - length hs"
  using assms by (auto simp: wf_writer_def room_def emitted_def emit_def min_def)

lemma emit_too_big:
  assumes "w_error w = Err_Ok" and "room w < length hs"
  shows "emit hs w = w\<lparr>w_error := Err_TooBig\<rparr>"
  using assms by (auto simp: room_def emit_def)

lemma emit_sticky [simp]: "w_error w \<noteq> Err_Ok \<Longrightarrow> emit hs w = w"
  by (simp add: emit_def)

lemma emits_emit:
  assumes "\<And>w. wf_writer w \<Longrightarrow> f w = Some (emit hs w)"
  shows "emits wf_writer w_error emitted f hs"
proof -
  have "\<exists>k. emitted (emit hs w) = emitted w @ take k hs" if "w_error (emit hs w) \<noteq> Err_Ok" for w
    using that emit_too_big [of w hs] by (intro exI [of _ 0]) (auto simp: emit_def emitted_def)
  moreover have "emitted (emit hs w) = emitted w @ hs"
    if "wf_writer w" "w_error w = Err_Ok" "w_error (emit hs w) = Err_Ok" for w
    using that emit_fits(1) [of w hs] emit_too_big [of w hs] by (cases "length hs \<le> room w") auto
  ultimately show ?thesis
    using assms by (simp add: emits_def)
qed

text \<open>Payload bytes are written as far as they fit.\<close>

definition emit_bytes :: "u8 list \<Rightarrow> writer \<Rightarrow> writer" where
  "emit_bytes bs w =
     (if w_error w \<noteq> Err_Ok then w
      else let w' = emit (take (room w) bs) w
           in if room w < length bs then w'\<lparr>w_error := Err_TooBig\<rparr> else w')"

lemma emit_Nil: "wf_writer w \<Longrightarrow> emit [] w = w"
  by (simp add: emit_def)

lemma write_bytes_emit [contracts]:
  assumes "wf_writer w"
  shows "write_bytes bs w = Some (emit_bytes bs w)"
proof (cases "w_error w \<noteq> Err_Ok \<or> bs = []")
  case True
  then show ?thesis
    using assms by (auto simp: write_bytes_def emit_bytes_def emit_Nil)
next
  case False
  let ?n = "min (length bs) (room w)"
  have "write_bytes bs w =
      Some (if ?n < length bs then (emit (take ?n bs) w)\<lparr>w_error := Err_TooBig\<rparr>
            else emit (take ?n bs) w)"
    using False assms
    by (auto simp: write_bytes_def room_def checked emit_def wf_writer_def Let_def)
  moreover have "take ?n bs = take (room w) bs"
    by (simp add: min_def)
  ultimately show ?thesis
    using False by (auto simp: emit_bytes_def Let_def)
qed

lemma emit_bytes_facts:
  assumes "wf_writer w" and "w_error w = Err_Ok"
  shows "wf_writer (emit_bytes bs w)"
    and "emitted (emit_bytes bs w) = emitted w @ take (room w) bs"
    and "w_error (emit_bytes bs w) = (if length bs \<le> room w then Err_Ok else Err_TooBig)"
proof -
  have "length (take (room w) bs) \<le> room w" by simp
  note fits = emit_fits [OF assms this]
  show "wf_writer (emit_bytes bs w)"
    using assms wf_emit [of w "take (room w) bs"]
    by (auto simp: emit_bytes_def Let_def wf_writer_def)
  show "emitted (emit_bytes bs w) = emitted w @ take (room w) bs"
    using assms fits(1) by (auto simp: emit_bytes_def Let_def emitted_def)
  show "w_error (emit_bytes bs w) = (if length bs \<le> room w then Err_Ok else Err_TooBig)"
    using assms fits(2) by (auto simp: emit_bytes_def Let_def)
qed

lemma emits_emit_bytes: "emits wf_writer w_error emitted (write_bytes bs) bs"
proof -
  have "emit_bytes bs w = w" if "w_error w \<noteq> Err_Ok" for w
    using that by (simp add: emit_bytes_def)
  then show ?thesis
    unfolding emits_def by (auto simp: write_bytes_emit emit_bytes_facts)
qed

lemma emits_emit_len:
  assumes "n < 2 ^ 32" and "\<And>w. wf_writer w \<Longrightarrow> f w = Some (emit_len enc n w)"
  shows "emits wf_writer w_error emitted f (enc n)"
  using assms by (intro emits_emit) (simp add: emit_len_def)

interpretation fixed: encoder wf_writer w_error emitted write_nil write_bool write_u64 write_i64
  write_f32 write_f64 write_array_header write_map_header write_str_header write_bin_header
  write_ext_header write_bytes
  by unfold_locales (simp_all add: emits_emit emits_emit_len emits_emit_bytes contracts)

subsection \<open>The growable writer provides it\<close>

lemma emitted_new: "emitted (writer_new buf) = []" "w_error (writer_new buf) = Err_Ok"
  "room (writer_new buf) = length buf"
  by (simp_all add: emitted_def room_def writer_new_def)

text \<open>A header of at most sixteen bytes always fits the scratch buffer.\<close>

lemma growable_encode_emit:
  assumes "\<And>w. wf_writer w \<Longrightarrow> f w = Some (emit hs w)" and "length hs \<le> 16"
  shows "growable_encode f g = Some (growable_append hs g)"
  using assms by (simp add: growable_encode_def growable_append_def written_emitted emit_fits emitted_new)

lemma growable_encode_too_big:
  assumes "\<And>w. wf_writer w \<Longrightarrow> f w = Some (flag_too_big w)"
  shows "growable_encode f g = Some (if g_error g = Err_Ok then g\<lparr>g_error := Err_TooBig\<rparr> else g)"
  using assms
  by (simp add: growable_encode_def written_emitted emitted_new flag_too_big_def)
    (simp add: emitted_def writer_new_def written_def slice_def)

lemma length_enc:
  "length (enc_uint v) \<le> 16" "length (enc_int v) \<le> 16" "length (enc_array n) \<le> 16"
  "length (enc_map n) \<le> 16" "length (enc_str n) \<le> 16" "length (enc_bin n) \<le> 16"
  "length (enc_ext ty n) \<le> 16"
  by (simp_all add: enc_int_def enc_uint_def enc_array_def enc_map_def enc_str_def enc_bin_def
      enc_ext_def)

lemma gw_scalar_append [contracts]:
  "gw_write_nil g = Some (growable_append [0xc0] g)"
  "gw_write_bool b g = Some (growable_append [if b then 0xc3 else 0xc2] g)"
  "gw_write_u64 v g = Some (growable_append (enc_uint v) g)"
  "gw_write_i64 i g = Some (growable_append (enc_int i) g)"
  "gw_write_f32 f g = Some (growable_append (0xca # to_be_bytes f) g)"
  "gw_write_f64 d g = Some (growable_append (0xcb # to_be_bytes d) g)"
  by (simp_all add: gw_write_nil_def gw_write_bool_def gw_write_u64_def gw_write_i64_def
      gw_write_f32_def gw_write_f64_def growable_encode_emit contracts length_enc)

lemma gw_header_append [contracts]:
  "n < 2 ^ 32 \<Longrightarrow> gw_write_array_header n g = Some (growable_append (enc_array n) g)"
  "n < 2 ^ 32 \<Longrightarrow> gw_write_map_header n g = Some (growable_append (enc_map n) g)"
  "n < 2 ^ 32 \<Longrightarrow> gw_write_str_header n g = Some (growable_append (enc_str n) g)"
  "n < 2 ^ 32 \<Longrightarrow> gw_write_bin_header n g = Some (growable_append (enc_bin n) g)"
  "n < 2 ^ 32 \<Longrightarrow> gw_write_ext_header ty n g = Some (growable_append (enc_ext ty n) g)"
  by (simp_all add: gw_write_array_header_def gw_write_map_header_def gw_write_str_header_def
      gw_write_bin_header_def gw_write_ext_header_def growable_encode_emit contracts length_enc
      emit_len_def)

lemma emits_append:
  assumes "\<And>g. f g = Some (growable_append hs g)"
  shows "emits (\<lambda>_. True) g_error g_bytes f hs"
  using assms by (simp add: emits_def growable_append_def)

interpretation growing: encoder "\<lambda>_. True" g_error g_bytes gw_write_nil gw_write_bool gw_write_u64
  gw_write_i64 gw_write_f32 gw_write_f64 gw_write_array_header gw_write_map_header
  gw_write_str_header gw_write_bin_header gw_write_ext_header gw_write_bytes
  by unfold_locales (simp_all add: emits_append contracts gw_write_bytes_def)

end
