(* ===== verification/Utf8.thy ===== *)
theory Utf8
  imports Mpack_Common
begin

section \<open>The UTF-8 check (\<open>src/reader.rs\<close>, \<open>check_utf8_impl\<close>)\<close>

text \<open>
  The loop over the byte index \<open>i\<close>, with every guard as the code has it. Each read \<open>bytes[k]\<close> is
  behind the test \<open>k < bytes.len()\<close>, so it is written \<open>bytes ! k\<close>.
\<close>

definition is_cont :: "u8 \<Rightarrow> bool" where
  "is_cont b \<longleftrightarrow> b AND 0xc0 = 0x80"

function check_utf8_from :: "bool \<Rightarrow> u8 list \<Rightarrow> nat \<Rightarrow> bool" where
  "check_utf8_from allow_null bytes i =
     (if i < length bytes then
        let lead = bytes ! i in
        if \<not> allow_null \<and> lead = 0 then False
        else if unat lead \<le> 0x7f then check_utf8_from allow_null bytes (i + 1)
        else if lead AND 0xe0 = 0xc0 then
          (if i + 1 \<ge> length bytes \<or> \<not> is_cont (bytes ! (i + 1)) then False
           else
             let z = (push_bit 6 (ucast (lead AND NOT 0xe0)) OR ucast (bytes ! (i + 1) AND NOT 0xc0) :: u32)
             in if unat z < 0x80 then False else check_utf8_from allow_null bytes (i + 2))
        else if lead AND 0xf0 = 0xe0 then
          (if i + 2 \<ge> length bytes \<or> \<not> is_cont (bytes ! (i + 1)) \<or> \<not> is_cont (bytes ! (i + 2)) then False
           else
             let z = (push_bit 12 (ucast (lead AND NOT 0xf0))
                      OR push_bit 6 (ucast (bytes ! (i + 1) AND NOT 0xc0))
                      OR ucast (bytes ! (i + 2) AND NOT 0xc0) :: u32)
             in if unat z < 0x800 \<or> (0xd800 \<le> unat z \<and> unat z \<le> 0xdfff) then False
                else check_utf8_from allow_null bytes (i + 3))
        else if lead AND 0xf8 = 0xf0 then
          (if i + 3 \<ge> length bytes \<or> \<not> is_cont (bytes ! (i + 1)) \<or> \<not> is_cont (bytes ! (i + 2))
              \<or> \<not> is_cont (bytes ! (i + 3)) then False
           else
             let z = (push_bit 18 (ucast (lead AND NOT 0xf8))
                      OR push_bit 12 (ucast (bytes ! (i + 1) AND NOT 0xc0))
                      OR push_bit 6 (ucast (bytes ! (i + 2) AND NOT 0xc0))
                      OR ucast (bytes ! (i + 3) AND NOT 0xc0) :: u32)
             in if \<not> (0x10000 \<le> unat z \<and> unat z \<le> 0x10ffff) then False
                else check_utf8_from allow_null bytes (i + 4))
        else False
      else True)"
  by pat_completeness auto
termination
  by (relation "measure (\<lambda>(_, bytes, i). length bytes - i)") auto

declare check_utf8_from.simps [simp del]

definition check_utf8_impl :: "u8 list \<Rightarrow> bool \<Rightarrow> bool" where
  "check_utf8_impl bytes allow_null = check_utf8_from allow_null bytes 0"

definition check_utf8 :: "u8 list \<Rightarrow> bool" where
  "check_utf8 bytes = check_utf8_impl bytes True"

definition check_utf8_no_null :: "u8 list \<Rightarrow> bool" where
  "check_utf8_no_null bytes = check_utf8_impl bytes False"

end
