(* ===== verification/Float_Conv.thy ===== *)
theory Float_Conv
  imports Mpack_Common
begin

section \<open>IEEE-754 conversions of the language\<close>

text \<open>
  Rust's \<open>as\<close> between the integer and float types, and the float comparison, on bit patterns.
  A finite pattern stands for \<open>(-1)^s * m * 2^e\<close>; \<open>round_shift\<close> is the division by a power of two
  that rounds to nearest, ties to even. The language leaves the payload of a converted NaN open;
  the model keeps the sign and the leading payload bits and sets the quiet bit, one of the results it allows
  and the one the common targets give.
\<close>

definition round_shift :: "nat \<Rightarrow> nat \<Rightarrow> nat" where
  "round_shift m k =
     (let q = m div 2 ^ k; r = m mod 2 ^ k in
      if 2 * r > 2 ^ k \<or> (2 * r = 2 ^ k \<and> odd q) then q + 1 else q)"

text \<open>The number of bits of \<open>m\<close>.\<close>

fun bit_len :: "nat \<Rightarrow> nat" where
  "bit_len m = (if m = 0 then 0 else Suc (bit_len (m div 2)))"

declare bit_len.simps [simp del]

text \<open>
  Packs \<open>m * 2^e\<close> (with \<open>e\<close> an integer) into the format with \<open>p\<close> fraction bits, \<open>w\<close> exponent
  bits and bias \<open>2^(w-1) - 1\<close>; the result is the pattern without the sign. \<open>q\<close> is the exponent
  of the last fraction bit; a carry out of the rounding moves into the exponent field by itself,
  because the fraction and the exponent are adjacent.
\<close>

definition pack_float :: "nat \<Rightarrow> nat \<Rightarrow> nat \<Rightarrow> int \<Rightarrow> nat" where
  "pack_float p w m e =
     (if m = 0 then 0
      else
        let bias = 2 ^ (w - 1) - 1 :: int;
            emin = 1 - bias - int p;
            q = max emin (e + int (bit_len m) - 1 - int p);
            frac = (if e \<ge> q then m * 2 ^ nat (e - q) else round_shift m (nat (q - e)));
            r = (if q = emin then frac else frac + nat (q - emin) * 2 ^ p)
        in min r ((2 ^ w - 1) * 2 ^ p))"

definition f32_sign :: "f32 \<Rightarrow> bool" where
  "f32_sign x = bit x 31"

definition f32_exp :: "f32 \<Rightarrow> nat" where
  "f32_exp x = unat x div 2 ^ 23 mod 256"

definition f32_frac :: "f32 \<Rightarrow> nat" where
  "f32_frac x = unat x mod 2 ^ 23"

definition f64_sign :: "f64 \<Rightarrow> bool" where
  "f64_sign x = bit x 63"

definition f64_exp :: "f64 \<Rightarrow> nat" where
  "f64_exp x = unat x div 2 ^ 52 mod 2048"

definition f64_frac :: "f64 \<Rightarrow> nat" where
  "f64_frac x = unat x mod 2 ^ 52"

definition f32_is_nan :: "f32 \<Rightarrow> bool" where
  "f32_is_nan x \<longleftrightarrow> f32_exp x = 255 \<and> f32_frac x \<noteq> 0"

definition f64_is_nan :: "f64 \<Rightarrow> bool" where
  "f64_is_nan x \<longleftrightarrow> f64_exp x = 2047 \<and> f64_frac x \<noteq> 0"

definition f32_mant :: "f32 \<Rightarrow> nat" where
  "f32_mant x = (if f32_exp x = 0 then f32_frac x else 2 ^ 23 + f32_frac x)"

definition f64_mant :: "f64 \<Rightarrow> nat" where
  "f64_mant x = (if f64_exp x = 0 then f64_frac x else 2 ^ 52 + f64_frac x)"

definition f32_scale :: "f32 \<Rightarrow> int" where
  "f32_scale x = int (max 1 (f32_exp x)) - 150"

definition f64_scale :: "f64 \<Rightarrow> int" where
  "f64_scale x = int (max 1 (f64_exp x)) - 1075"

definition f32_make :: "bool \<Rightarrow> nat \<Rightarrow> f32" where
  "f32_make s n = word_of_nat ((if s then 2 ^ 31 else 0) + n)"

definition f64_make :: "bool \<Rightarrow> nat \<Rightarrow> f64" where
  "f64_make s n = word_of_nat ((if s then 2 ^ 63 else 0) + n)"

text \<open>\<open>x as f64\<close> for \<open>x: f32\<close>.\<close>

definition f32_to_f64 :: "f32 \<Rightarrow> f64" where
  "f32_to_f64 x =
     (if f32_exp x = 255 then
        (if f32_frac x = 0 then f64_make (f32_sign x) (2047 * 2 ^ 52)
         else f64_make (f32_sign x)
                (2047 * 2 ^ 52 + (if f32_frac x < 2 ^ 22 then 2 ^ 51 else 0) + f32_frac x * 2 ^ 29))
      else f64_make (f32_sign x) (pack_float 52 11 (f32_mant x) (f32_scale x)))"

text \<open>\<open>x as f32\<close> for \<open>x: f64\<close>.\<close>

definition f64_to_f32 :: "f64 \<Rightarrow> f32" where
  "f64_to_f32 x =
     (if f64_exp x = 2047 then
        (if f64_frac x = 0 then f32_make (f64_sign x) (255 * 2 ^ 23)
         else f32_make (f64_sign x)
                (255 * 2 ^ 23 + (if f64_frac x < 2 ^ 51 then 2 ^ 22 else 0) + f64_frac x div 2 ^ 29))
      else f32_make (f64_sign x) (pack_float 23 8 (f64_mant x) (f64_scale x)))"

definition u64_to_f32 :: "u64 \<Rightarrow> f32" where
  "u64_to_f32 v = f32_make False (pack_float 23 8 (unat v) 0)"

definition u64_to_f64 :: "u64 \<Rightarrow> f64" where
  "u64_to_f64 v = f64_make False (pack_float 52 11 (unat v) 0)"

definition i64_to_f32 :: "i64 \<Rightarrow> f32" where
  "i64_to_f32 v = f32_make (sint v < 0) (pack_float 23 8 (nat \<bar>sint v\<bar>) 0)"

definition i64_to_f64 :: "i64 \<Rightarrow> f64" where
  "i64_to_f64 v = f64_make (sint v < 0) (pack_float 52 11 (nat \<bar>sint v\<bar>) 0)"

text \<open>
  \<open><\<close> on floats: false when an argument is a NaN; otherwise the order of the magnitudes with their
  signs, in which the two zeros are equal.
\<close>

definition f32_key :: "f32 \<Rightarrow> int" where
  "f32_key x = (let m = int (unat x mod 2 ^ 31) in if f32_sign x then - m else m)"

definition f64_key :: "f64 \<Rightarrow> int" where
  "f64_key x = (let m = int (unat x mod 2 ^ 63) in if f64_sign x then - m else m)"

definition f32_less :: "f32 \<Rightarrow> f32 \<Rightarrow> bool" where
  "f32_less x y \<longleftrightarrow> \<not> f32_is_nan x \<and> \<not> f32_is_nan y \<and> f32_key x < f32_key y"

definition f64_less :: "f64 \<Rightarrow> f64 \<Rightarrow> bool" where
  "f64_less x y \<longleftrightarrow> \<not> f64_is_nan x \<and> \<not> f64_is_nan y \<and> f64_key x < f64_key y"

end
