(* ===== verification/Reader_Ops.thy ===== *)
theory Reader_Ops
  imports Reader_Core Utf8 Float_Conv
begin

section \<open>The reader's typed reads, payload reads and discard (\<open>src/reader.rs\<close>)\<close>

text \<open>
  The methods of \<open>Reader\<close> above the tag decoder. The \<open>?\<close> on a read is \<open>try_opt\<close>; the
  \<open>unreachable!()\<close> of \<open>read_timestamp\<close> is a panic, \<open>None\<close>.
\<close>

definition type_error :: "reader \<Rightarrow> ('a option \<times> reader) option" where
  "type_error r = Some (None, flag_error Err_Type r)"

subsection \<open>Scalars\<close>

definition read_nil :: "reader \<Rightarrow> (bool \<times> reader) option" where
  "read_nil r = do {
     (t, r) \<leftarrow> read_tag r;
     (case t of
        Some Tag_Nil \<Rightarrow> Some (True, r)
      | Some _ \<Rightarrow> Some (False, flag_error Err_Type r)
      | None \<Rightarrow> Some (False, r))
   }"

definition read_bool :: "reader \<Rightarrow> (bool option \<times> reader) option" where
  "read_bool r = try_opt (read_tag r) (\<lambda>t r.
     case t of Tag_Bool v \<Rightarrow> Some (Some v, r) | _ \<Rightarrow> type_error r)"

definition read_u64 :: "reader \<Rightarrow> (u64 option \<times> reader) option" where
  "read_u64 r = try_opt (read_tag r) (\<lambda>t r.
     case t of
       Tag_Uint v \<Rightarrow> Some (Some v, r)
     | Tag_Int v \<Rightarrow> if 0 \<le> sint v then Some (Some v, r) else type_error r
     | _ \<Rightarrow> type_error r)"

definition read_i64 :: "reader \<Rightarrow> (i64 option \<times> reader) option" where
  "read_i64 r = try_opt (read_tag r) (\<lambda>t r.
     case t of
       Tag_Int v \<Rightarrow> Some (Some v, r)
     | Tag_Uint v \<Rightarrow> if unat v < 2 ^ 63 then Some (Some v, r) else type_error r
     | _ \<Rightarrow> type_error r)"

definition read_f32 :: "reader \<Rightarrow> (f32 option \<times> reader) option" where
  "read_f32 r = try_opt (read_tag r) (\<lambda>t r.
     case t of Tag_Float v \<Rightarrow> Some (Some v, r) | _ \<Rightarrow> type_error r)"

definition read_f64 :: "reader \<Rightarrow> (f64 option \<times> reader) option" where
  "read_f64 r = try_opt (read_tag r) (\<lambda>t r.
     case t of
       Tag_Float v \<Rightarrow> Some (Some (f32_to_f64 v), r)
     | Tag_Double v \<Rightarrow> Some (Some v, r)
     | _ \<Rightarrow> type_error r)"

subsection \<open>Headers\<close>

definition read_length :: "(tag \<Rightarrow> u32 option) \<Rightarrow> reader \<Rightarrow> (u32 option \<times> reader) option" where
  "read_length select r = try_opt (read_tag r) (\<lambda>t r.
     case select t of Some len \<Rightarrow> Some (Some len, r) | None \<Rightarrow> type_error r)"

definition read_str_header :: "reader \<Rightarrow> (u32 option \<times> reader) option" where
  "read_str_header r = read_length (\<lambda>t. case t of Tag_Str len \<Rightarrow> Some len | _ \<Rightarrow> None) r"

definition read_bin_header :: "reader \<Rightarrow> (u32 option \<times> reader) option" where
  "read_bin_header r = read_length (\<lambda>t. case t of Tag_Bin len \<Rightarrow> Some len | _ \<Rightarrow> None) r"

definition read_array_header :: "reader \<Rightarrow> (u32 option \<times> reader) option" where
  "read_array_header r = read_length (\<lambda>t. case t of Tag_Array len \<Rightarrow> Some len | _ \<Rightarrow> None) r"

definition read_map_header :: "reader \<Rightarrow> (u32 option \<times> reader) option" where
  "read_map_header r = read_length (\<lambda>t. case t of Tag_Map len \<Rightarrow> Some len | _ \<Rightarrow> None) r"

definition read_ext_header :: "reader \<Rightarrow> ((i8 \<times> u32) option \<times> reader) option" where
  "read_ext_header r = try_opt (read_tag r) (\<lambda>t r.
     case t of Tag_Ext ty len \<Rightarrow> Some (Some (ty, len), r) | _ \<Rightarrow> type_error r)"

subsection \<open>Payload bytes\<close>

definition read_bytes :: "nat \<Rightarrow> reader \<Rightarrow> (u8 list option \<times> reader) option" where
  "read_bytes len r =
     (if r_error r \<noteq> Err_Ok then Some (None, r)
      else case require len r of
        (False, r) \<Rightarrow> Some (None, r)
      | (True, r) \<Rightarrow>
          (let start = r_position r; r = r\<lparr>r_position := r_position r + len\<rparr>
           in do {
             bytes \<leftarrow> slice (r_data r) start (r_position r);
             Some (Some bytes, r)
           }))"

definition read_bytes_utf8 :: "nat \<Rightarrow> reader \<Rightarrow> (u8 list option \<times> reader) option" where
  "read_bytes_utf8 len r =
     (if r_error r \<noteq> Err_Ok then Some (None, r)
      else case require len r of
        (False, r) \<Rightarrow> Some (None, r)
      | (True, r) \<Rightarrow>
          (let start = r_position r; end = start + len
           in do {
             bytes \<leftarrow> slice (r_data r) start end;
             if \<not> check_utf8 bytes then type_error r
             else Some (Some bytes, r\<lparr>r_position := end\<rparr>)
           }))"

definition skip_bytes :: "nat \<Rightarrow> reader \<Rightarrow> bool \<times> reader" where
  "skip_bytes len r =
     (if r_error r \<noteq> Err_Ok then (False, r)
      else case require len r of
        (False, r) \<Rightarrow> (False, r)
      | (True, r) \<Rightarrow> (True, r\<lparr>r_position := r_position r + len\<rparr>))"

definition read_native_u8 :: "reader \<Rightarrow> (u8 option \<times> reader) option" where
  "read_native_u8 r =
     (if r_error r \<noteq> Err_Ok then Some (None, r)
      else case require 1 r of
        (False, r) \<Rightarrow> Some (None, r)
      | (True, r) \<Rightarrow> do { (v, r) \<leftarrow> take_u8 r; Some (Some v, r) })"

definition read_native_u16 :: "reader \<Rightarrow> (u16 option \<times> reader) option" where
  "read_native_u16 r =
     (if r_error r \<noteq> Err_Ok then Some (None, r)
      else case require 2 r of
        (False, r) \<Rightarrow> Some (None, r)
      | (True, r) \<Rightarrow> do { (v, r) \<leftarrow> take_u16 r; Some (Some v, r) })"

definition read_native_u32 :: "reader \<Rightarrow> (u32 option \<times> reader) option" where
  "read_native_u32 r =
     (if r_error r \<noteq> Err_Ok then Some (None, r)
      else case require 4 r of
        (False, r) \<Rightarrow> Some (None, r)
      | (True, r) \<Rightarrow> do { (v, r) \<leftarrow> take_u32 r; Some (Some v, r) })"

subsection \<open>Timestamps\<close>

text \<open>The byte reads \<open>bytes[i]\<close> of the three layouts are slices of the payload.\<close>

definition timestamp_of_bytes :: "nat \<Rightarrow> u8 list \<Rightarrow> timestamp option" where
  "timestamp_of_bytes sz bytes =
     (if sz = 4 then do {
        secs \<leftarrow> slice bytes 0 4;
        Some \<lparr>seconds = ucast (word_of_nat (from_be secs) :: u32), nanoseconds = 0\<rparr>
      }
      else if sz = 8 then do {
        packed \<leftarrow> map_option (\<lambda>bs. word_of_nat (from_be bs) :: u64) (slice bytes 0 8);
        Some \<lparr>seconds = packed AND (push_bit 34 1 - 1), nanoseconds = ucast (drop_bit 34 packed)\<rparr>
      }
      else if sz = 12 then do {
        nanos \<leftarrow> slice bytes 0 4;
        secs \<leftarrow> slice bytes 4 12;
        Some \<lparr>seconds = word_of_nat (from_be secs), nanoseconds = word_of_nat (from_be nanos)\<rparr>
      }
      else None)"

definition read_timestamp :: "nat \<Rightarrow> reader \<Rightarrow> (timestamp option \<times> reader) option" where
  "read_timestamp sz r =
     (if r_error r \<noteq> Err_Ok then Some (None, r)
      else if sz \<noteq> 4 \<and> sz \<noteq> 8 \<and> sz \<noteq> 12 then Some (None, flag_error Err_Invalid r)
      else case require sz r of
        (False, r) \<Rightarrow> Some (None, r)
      | (True, r) \<Rightarrow>
          (let start = r_position r; end = start + sz
           in do {
             bytes \<leftarrow> slice (r_data r) start end;
             ts \<leftarrow> timestamp_of_bytes sz bytes;
             if unat (nanoseconds ts) > unat timestamp_nanoseconds_max
             then Some (None, flag_error Err_Invalid r)
             else Some (Some ts, r\<lparr>r_position := end\<rparr>)
           }))"

subsection \<open>Discard\<close>

text \<open>
  \<open>discard\<close> recurses into the elements of arrays and maps. The first argument is the number of
  calls the thread's stack can still hold: a call beyond it is the abort \<open>None\<close>. The loops over
  the element count stop at the first error.
\<close>

primrec discard_elements :: "(reader \<Rightarrow> reader option) \<Rightarrow> nat \<Rightarrow> reader \<Rightarrow> reader option" where
  "discard_elements discard_one 0 r = Some r"
| "discard_elements discard_one (Suc count) r = do {
     r \<leftarrow> discard_one r;
     if r_error r \<noteq> Err_Ok then Some r else discard_elements discard_one count r
   }"

primrec discard_pairs :: "(reader \<Rightarrow> reader option) \<Rightarrow> nat \<Rightarrow> reader \<Rightarrow> reader option" where
  "discard_pairs discard_one 0 r = Some r"
| "discard_pairs discard_one (Suc count) r = do {
     r \<leftarrow> discard_one r;
     r \<leftarrow> discard_one r;
     if r_error r \<noteq> Err_Ok then Some r else discard_pairs discard_one count r
   }"

primrec discard :: "nat \<Rightarrow> reader \<Rightarrow> reader option" where
  "discard 0 r = None"
| "discard (Suc depth) r = do {
     (t, r) \<leftarrow> read_tag r;
     (case t of
        None \<Rightarrow> Some r
      | Some (Tag_Str len) \<Rightarrow> Some (snd (skip_bytes (unat len) r))
      | Some (Tag_Bin len) \<Rightarrow> Some (snd (skip_bytes (unat len) r))
      | Some (Tag_Ext ty len) \<Rightarrow> Some (snd (skip_bytes (unat len) r))
      | Some (Tag_Array count) \<Rightarrow> discard_elements (discard depth) (unat count) r
      | Some (Tag_Map count) \<Rightarrow> discard_pairs (discard depth) (unat count) r
      | Some _ \<Rightarrow> Some r)
   }"

end
