(* ===== verification/Reader_Contract.thy ===== *)
theory Reader_Contract
  imports Reader_Header Reader_Ops
begin

section \<open>The contract of the reading operations\<close>

text \<open>
  \<open>reads m\<close> is what every reading operation of the crate promises: on a well-formed reader it does
  not panic, it keeps the input and never moves backwards, an earlier error freezes the reader,
  and it yields a value exactly when the reader has no error afterwards. \<open>acts m\<close> is the same
  without the last part, for operations whose result is a flag.
\<close>

definition wf_reader :: "reader \<Rightarrow> bool" where
  "wf_reader r \<longleftrightarrow> r_position r \<le> length (r_data r)"

definition advances :: "reader \<Rightarrow> reader \<Rightarrow> bool" where
  "advances r r' \<longleftrightarrow>
     r_data r' = r_data r \<and> r_position r \<le> r_position r' \<and> (wf_reader r \<longrightarrow> wf_reader r')
     \<and> (r_error r \<noteq> Err_Ok \<longrightarrow> r' = r)"

definition acts :: "(reader \<Rightarrow> ('a \<times> reader) option) \<Rightarrow> bool" where
  "acts m \<longleftrightarrow> (\<forall>r. wf_reader r \<longrightarrow> (\<exists>x r'. m r = Some (x, r') \<and> advances r r'))"

definition reads :: "(reader \<Rightarrow> ('a option \<times> reader) option) \<Rightarrow> bool" where
  "reads m \<longleftrightarrow> (\<forall>r. wf_reader r \<longrightarrow> (\<exists>x r'. m r = Some (x, r') \<and> advances r r'
      \<and> (x = None \<longleftrightarrow> r_error r' \<noteq> Err_Ok)))"

lemma advances_refl [simp]: "advances r r"
  by (simp add: advances_def)

lemma advances_trans [trans]: "advances r1 r2 \<Longrightarrow> advances r2 r3 \<Longrightarrow> advances r1 r3"
  by (auto simp: advances_def)

lemma advances_wf: "advances r r' \<Longrightarrow> wf_reader r \<Longrightarrow> wf_reader r'"
  by (simp add: advances_def)

lemma advances_flag [simp]: "advances r (flag_error e r)"
  by (simp add: advances_def flag_error_def wf_reader_def)

lemma advances_advance:
  "r_error r = Err_Ok \<Longrightarrow> n \<le> length (unread r) \<Longrightarrow> advances r (advance n r)"
  by (auto simp: advances_def wf_reader_def length_unread)

lemma flag_error_fields [simp]:
  "r_data (flag_error e r) = r_data r" "r_position (flag_error e r) = r_position r"
  by (simp_all add: flag_error_def)

lemma unread_flag_error [simp]: "unread (flag_error e r) = unread r"
  by (simp add: unread_def)

lemma flag_error_error:
  "e \<noteq> Err_Ok \<Longrightarrow> r_error (flag_error e r) = (if r_error r = Err_Ok then e else r_error r)"
  by (simp add: flag_error_def)

lemma flag_error_bad [simp]: "e \<noteq> Err_Ok \<Longrightarrow> r_error (flag_error e r) \<noteq> Err_Ok"
  by (simp add: flag_error_def)

lemma flag_error_sticky [simp]: "r_error r \<noteq> Err_Ok \<Longrightarrow> flag_error e r = r"
  by (simp add: flag_error_def)

lemma wf_reader_new [simp]: "wf_reader (reader_new data)"
  by (simp add: wf_reader_def reader_new_def)

lemma readsE:
  assumes "reads m" and "wf_reader r"
  obtains x r' where "m r = Some (x, r')" and "advances r r'" and "wf_reader r'"
    and "x = None \<longleftrightarrow> r_error r' \<noteq> Err_Ok"
  using assms unfolding reads_def by (metis advances_wf)

lemma readsI:
  assumes "\<And>r. wf_reader r \<Longrightarrow> r_error r \<noteq> Err_Ok \<Longrightarrow> m r = Some (None, r)"
    and "\<And>r. wf_reader r \<Longrightarrow> r_error r = Err_Ok \<Longrightarrow>
      \<exists>x r'. m r = Some (x, r') \<and> advances r r' \<and> (x = None \<longleftrightarrow> r_error r' \<noteq> Err_Ok)"
  shows "reads m"
  unfolding reads_def
proof (intro allI impI)
  fix r assume "wf_reader r"
  with assms show "\<exists>x r'. m r = Some (x, r') \<and> advances r r' \<and> (x = None \<longleftrightarrow> r_error r' \<noteq> Err_Ok)"
    by (cases "r_error r = Err_Ok") auto
qed

lemma reads_acts: "reads m \<Longrightarrow> acts m"
  unfolding reads_def acts_def by blast

text \<open>Closure of the contract under \<open>?\<close>.\<close>

lemma reads_try_opt:
  assumes m: "reads m"
    and k: "\<And>v r. wf_reader r \<Longrightarrow> r_error r = Err_Ok \<Longrightarrow>
      \<exists>x r'. k v r = Some (x, r') \<and> advances r r' \<and> (x = None \<longleftrightarrow> r_error r' \<noteq> Err_Ok)"
  shows "reads (\<lambda>r. try_opt (m r) k)"
  unfolding reads_def
proof (intro allI impI)
  fix r assume wf: "wf_reader r"
  obtain x r1 where 1: "m r = Some (x, r1)" "advances r r1" "wf_reader r1"
      "x = None \<longleftrightarrow> r_error r1 \<noteq> Err_Ok"
    using m wf by (rule readsE)
  show "\<exists>x r'. try_opt (m r) k = Some (x, r') \<and> advances r r' \<and> (x = None \<longleftrightarrow> r_error r' \<noteq> Err_Ok)"
  proof (cases x)
    case None
    with 1 show ?thesis by auto
  next
    case (Some v)
    with 1 obtain y r2 where "k v r1 = Some (y, r2)" "advances r1 r2"
        "y = None \<longleftrightarrow> r_error r2 \<noteq> Err_Ok"
      using k [of r1 v] by auto
    with 1 Some show ?thesis by (auto intro: advances_trans)
  qed
qed

lemma reads_continue:
  "\<exists>x r'. Some (Some v, r) = Some (x, r') \<and> advances r r' \<and> (x = None \<longleftrightarrow> r_error r' \<noteq> Err_Ok)"
  if "r_error r = Err_Ok"
  using that by simp

lemma reads_type_error:
  "\<exists>x r'. type_error r = Some (x, r') \<and> advances r r' \<and> (x = None \<longleftrightarrow> r_error r' \<noteq> Err_Ok)"
  by (simp add: type_error_def)

subsection \<open>Sources of tags\<close>

text \<open>
  The interface through which every typed read sees the input: \<open>read_tag\<close> and \<open>peek_tag\<close> provide
  it, the typed reads of the reader and of the expect module are its clients. \<open>move hs\<close> is how far
  an accepted header moves the reader, \<open>skip bs\<close> how far a rejected input does.
\<close>

definition select_read ::
  "(reader \<Rightarrow> (tag option \<times> reader) option) \<Rightarrow> (tag \<Rightarrow> 'a option)
     \<Rightarrow> reader \<Rightarrow> ('a option \<times> reader) option"
where
  "select_read source select r = try_opt (source r) (\<lambda>t r.
     case select t of Some v \<Rightarrow> Some (Some v, r) | None \<Rightarrow> type_error r)"

locale tag_source =
  fixes source :: "reader \<Rightarrow> (tag option \<times> reader) option"
    and move :: "u8 list \<Rightarrow> nat" and skip :: "u8 list \<Rightarrow> nat"
  assumes sticky: "r_error r \<noteq> Err_Ok \<Longrightarrow> source r = Some (None, r)"
    and accept: "r_error r = Err_Ok \<Longrightarrow> header hs t \<Longrightarrow> unread r = hs @ rest \<Longrightarrow>
      source r = Some (Some t, advance (move hs) r)"
    and reject: "r_error r = Err_Ok \<Longrightarrow> \<not> has_header (unread r) \<Longrightarrow>
      source r = Some (None, flag_error Err_Invalid (advance (skip (unread r)) r))"
    and move_le: "move hs \<le> length hs"
    and skip_le: "skip bs \<le> length bs"
begin

lemma source_reads: "reads source"
proof (rule readsI)
  fix r :: reader assume "r_error r = Err_Ok"
  show "\<exists>x r'. source r = Some (x, r') \<and> advances r r' \<and> (x = None \<longleftrightarrow> r_error r' \<noteq> Err_Ok)"
  proof (cases "has_header (unread r)")
    case True
    then obtain hs t rest where h: "header hs t" "unread r = hs @ rest"
      by (auto simp: has_header_def)
    have "move hs \<le> length (unread r)"
      using move_le [of hs] h by simp
    with h \<open>r_error r = Err_Ok\<close> show ?thesis
      by (simp add: accept advances_advance)
  next
    case False
    have "advances r (advance (skip (unread r)) r)"
      using \<open>r_error r = Err_Ok\<close> skip_le by (rule advances_advance)
    then have "advances r (flag_error Err_Invalid (advance (skip (unread r)) r))"
      using advances_flag by (rule advances_trans)
    with False \<open>r_error r = Err_Ok\<close> show ?thesis
      by (simp add: reject)
  qed
qed (rule sticky)

lemma select_reads: "reads (select_read source select)"
  unfolding select_read_def [abs_def]
  by (rule reads_try_opt [OF source_reads]) (auto simp: reads_type_error split: option.splits)

lemma select_value:
  "r_error r = Err_Ok \<Longrightarrow> header hs t \<Longrightarrow> unread r = hs @ rest \<Longrightarrow> select t = Some v \<Longrightarrow>
     select_read source select r = Some (Some v, advance (move hs) r)"
  by (simp add: select_read_def accept)

lemma select_mismatch:
  "r_error r = Err_Ok \<Longrightarrow> header hs t \<Longrightarrow> unread r = hs @ rest \<Longrightarrow> select t = None \<Longrightarrow>
     select_read source select r = Some (None, flag_error Err_Type (advance (move hs) r))"
  by (simp add: select_read_def accept type_error_def)

lemma select_invalid:
  "r_error r = Err_Ok \<Longrightarrow> \<not> has_header (unread r) \<Longrightarrow>
     select_read source select r =
       Some (None, flag_error Err_Invalid (advance (skip (unread r)) r))"
  by (simp add: select_read_def reject)

lemma select_SomeD:
  assumes wf: "wf_reader r" and res: "select_read source select r = Some (Some v, r')"
  obtains hs t rest where "header hs t" and "unread r = hs @ rest" and "select t = Some v"
    and "r' = advance (move hs) r" and "r_error r = Err_Ok"
proof -
  have ok: "r_error r = Err_Ok"
    using res by (cases "r_error r = Err_Ok") (auto simp: select_read_def sticky)
  show thesis
  proof (cases "has_header (unread r)")
    case True
    then obtain hs t rest where h: "header hs t" "unread r = hs @ rest"
      by (auto simp: has_header_def)
    with ok res show thesis
      by (cases "select t") (auto simp: select_value select_mismatch intro: that)
  next
    case False
    with ok res show thesis by (simp add: select_invalid)
  qed
qed

end

interpretation reading: tag_source read_tag length "reject_skip True"
  by unfold_locales
    (auto simp: read_tag_def parse_tag_header parse_tag_reject reject_skip_def split: list.splits)

interpretation peeking: tag_source peek_tag "\<lambda>_. 0" "\<lambda>_. 0"
  by unfold_locales
    (auto simp: peek_tag_def parse_tag_header parse_tag_reject reject_skip_def split: list.splits)

end
