(* ===== verification/Reader_Typed.thy ===== *)
theory Reader_Typed
  imports Reader_Contract Canonical
begin

section \<open>The typed reads and payload reads meet the contract\<close>

text \<open>
  Each typed read is the read of a tag followed by a selection on it (\<open>tag_u64\<close>, \<open>tag_i64\<close>, ...),
  so the interface lemmas of \<open>tag_source\<close> give its result on every input. The payload reads are
  characterised on the unread bytes.
\<close>

subsection \<open>Typed reads are selections\<close>

fun tag_bool :: "tag \<Rightarrow> bool option" where
  "tag_bool (Tag_Bool v) = Some v"
| "tag_bool _ = None"

fun tag_u64 :: "tag \<Rightarrow> u64 option" where
  "tag_u64 (Tag_Uint v) = Some v"
| "tag_u64 (Tag_Int v) = (if 0 \<le> sint v then Some v else None)"
| "tag_u64 _ = None"

fun tag_i64 :: "tag \<Rightarrow> i64 option" where
  "tag_i64 (Tag_Int v) = Some v"
| "tag_i64 (Tag_Uint v) = (if unat v < 2 ^ 63 then Some v else None)"
| "tag_i64 _ = None"

fun tag_f32 :: "tag \<Rightarrow> f32 option" where
  "tag_f32 (Tag_Float v) = Some v"
| "tag_f32 _ = None"

fun tag_f64 :: "tag \<Rightarrow> f64 option" where
  "tag_f64 (Tag_Float v) = Some (f32_to_f64 v)"
| "tag_f64 (Tag_Double v) = Some v"
| "tag_f64 _ = None"

fun tag_str :: "tag \<Rightarrow> u32 option" where
  "tag_str (Tag_Str n) = Some n"
| "tag_str _ = None"

fun tag_bin :: "tag \<Rightarrow> u32 option" where
  "tag_bin (Tag_Bin n) = Some n"
| "tag_bin _ = None"

fun tag_array :: "tag \<Rightarrow> u32 option" where
  "tag_array (Tag_Array n) = Some n"
| "tag_array _ = None"

fun tag_map :: "tag \<Rightarrow> u32 option" where
  "tag_map (Tag_Map n) = Some n"
| "tag_map _ = None"

fun tag_ext :: "tag \<Rightarrow> (i8 \<times> u32) option" where
  "tag_ext (Tag_Ext ty n) = Some (ty, n)"
| "tag_ext _ = None"

text \<open>Two continuations of a tag read that agree on every tag give the same read.\<close>

lemma select_read_eqI:
  assumes "\<And>t r. k t r = (case f t of Some v \<Rightarrow> Some (Some v, r) | None \<Rightarrow> type_error r)"
  shows "try_opt (source r) k = select_read source f r"
proof -
  have "k = (\<lambda>t r. case f t of Some v \<Rightarrow> Some (Some v, r) | None \<Rightarrow> type_error r)"
    using assms by (intro ext)
  then show ?thesis by (simp only: select_read_def)
qed

lemma read_bool_select: "read_bool = select_read read_tag tag_bool"
  unfolding read_bool_def [abs_def] by (rule ext, rule select_read_eqI) (simp split: tag.splits)

lemma read_u64_select: "read_u64 = select_read read_tag tag_u64"
  unfolding read_u64_def [abs_def] by (rule ext, rule select_read_eqI) (simp split: tag.splits)

lemma read_i64_select: "read_i64 = select_read read_tag tag_i64"
  unfolding read_i64_def [abs_def] by (rule ext, rule select_read_eqI) (simp split: tag.splits)

lemma read_f32_select: "read_f32 = select_read read_tag tag_f32"
  unfolding read_f32_def [abs_def] by (rule ext, rule select_read_eqI) (simp split: tag.splits)

lemma read_f64_select: "read_f64 = select_read read_tag tag_f64"
  unfolding read_f64_def [abs_def] by (rule ext, rule select_read_eqI) (simp split: tag.splits)

lemma read_length_select: "read_length select = select_read read_tag select"
  by (rule ext) (simp add: read_length_def select_read_def)

lemma read_header_select:
  "read_str_header = select_read read_tag tag_str" "read_bin_header = select_read read_tag tag_bin"
  "read_array_header = select_read read_tag tag_array" "read_map_header = select_read read_tag tag_map"
proof -
  have "(\<lambda>t. case t of Tag_Str len \<Rightarrow> Some len | _ \<Rightarrow> None) = tag_str"
    "(\<lambda>t. case t of Tag_Bin len \<Rightarrow> Some len | _ \<Rightarrow> None) = tag_bin"
    "(\<lambda>t. case t of Tag_Array len \<Rightarrow> Some len | _ \<Rightarrow> None) = tag_array"
    "(\<lambda>t. case t of Tag_Map len \<Rightarrow> Some len | _ \<Rightarrow> None) = tag_map"
    by (rule ext, simp split: tag.splits)+
  then show "read_str_header = select_read read_tag tag_str"
    "read_bin_header = select_read read_tag tag_bin"
    "read_array_header = select_read read_tag tag_array"
    "read_map_header = select_read read_tag tag_map"
    by (simp_all add: fun_eq_iff read_str_header_def read_bin_header_def read_array_header_def
        read_map_header_def read_length_select)
qed

lemma read_ext_header_select: "read_ext_header = select_read read_tag tag_ext"
  unfolding read_ext_header_def [abs_def] by (rule ext, rule select_read_eqI) (simp split: tag.splits)

lemmas typed_select = read_bool_select read_u64_select read_i64_select read_f32_select
  read_f64_select read_header_select read_ext_header_select

lemma typed_reads [contracts]:
  "reads read_tag" "reads peek_tag" "reads read_bool" "reads read_u64" "reads read_i64"
  "reads read_f32" "reads read_f64" "reads read_str_header" "reads read_bin_header"
  "reads read_array_header" "reads read_map_header" "reads read_ext_header"
  by (simp_all add: typed_select reading.select_reads reading.source_reads peeking.source_reads)

text \<open>The integer a tag stands for; the integer selections in terms of it.\<close>

definition tag_integer :: "tag \<Rightarrow> int option" where
  "tag_integer t = (case t of Tag_Int v \<Rightarrow> Some (sint v) | Tag_Uint v \<Rightarrow> Some (uint v) | _ \<Rightarrow> None)"

lemma sint_uint_nonneg: "0 \<le> sint (v :: 64 word) \<Longrightarrow> sint v = uint v"
  using sint_nonneg_unat [of v] by simp

lemma tag_u64_integer:
  "tag_u64 t = (case tag_integer t of Some k \<Rightarrow> if 0 \<le> k then Some (word_of_int k) else None | None \<Rightarrow> None)"
  by (cases t) (simp_all add: tag_integer_def)

lemma tag_i64_integer:
  "tag_i64 t = (case tag_integer t of Some k \<Rightarrow> if k < 2 ^ 63 then Some (word_of_int k) else None
     | None \<Rightarrow> None)"
proof (cases t)
  case (Tag_Int v)
  have "sint v < 2 ^ 63"
    using sint_lt [of v] by simp
  with Tag_Int show ?thesis by (simp add: tag_integer_def)
next
  case (Tag_Uint v)
  have "unat v < 2 ^ 63 \<longleftrightarrow> uint v < 2 ^ 63"
  proof -
    have "int (unat v) < int (2 ^ 63) \<longleftrightarrow> unat v < 2 ^ 63"
      by (rule of_nat_less_iff)
    then show ?thesis by (simp only: uint_nat) simp
  qed
  with Tag_Uint show ?thesis by (simp add: tag_integer_def)
qed (simp_all add: tag_integer_def)

subsection \<open>Payload reads on the unread bytes\<close>

lemma read_bytes_ok:
  assumes "wf_reader r" and "r_error r = Err_Ok"
  shows "read_bytes n r =
    (if n \<le> length (unread r) then Some (Some (take n (unread r)), advance n r)
     else Some (None, flag_error Err_Invalid r))"
  using assms
  by (auto simp: read_bytes_def require_unread checked length_unread wf_reader_def advance_def
      unread_def)

lemma read_bytes_sticky [simp]: "r_error r \<noteq> Err_Ok \<Longrightarrow> read_bytes n r = Some (None, r)"
  by (simp add: read_bytes_def)

lemma read_bytes_utf8_ok:
  assumes "wf_reader r" and "r_error r = Err_Ok"
  shows "read_bytes_utf8 n r =
    (if n \<le> length (unread r)
     then if check_utf8 (take n (unread r)) then Some (Some (take n (unread r)), advance n r)
          else Some (None, flag_error Err_Type r)
     else Some (None, flag_error Err_Invalid r))"
  using assms
  by (auto simp: read_bytes_utf8_def require_unread checked length_unread wf_reader_def advance_def
      unread_def type_error_def Let_def)

lemma read_bytes_utf8_sticky [simp]: "r_error r \<noteq> Err_Ok \<Longrightarrow> read_bytes_utf8 n r = Some (None, r)"
  by (simp add: read_bytes_utf8_def)

lemma skip_bytes_ok:
  "r_error r = Err_Ok \<Longrightarrow> skip_bytes n r =
     (if n \<le> length (unread r) then (True, advance n r) else (False, flag_error Err_Invalid r))"
  by (auto simp: skip_bytes_def require_unread advance_def)

lemma skip_bytes_sticky [simp]: "r_error r \<noteq> Err_Ok \<Longrightarrow> skip_bytes n r = (False, r)"
  by (simp add: skip_bytes_def)

lemma reads_bytes [contracts]: "reads (read_bytes n)" "reads (read_bytes_utf8 n)"
  by (rule readsI; auto simp: read_bytes_ok read_bytes_utf8_ok advances_advance)+

lemma advances_skip_bytes: "advances r (snd (skip_bytes n r))"
  by (cases "r_error r = Err_Ok") (auto simp: skip_bytes_ok advances_advance)

subsection \<open>Raw bytes\<close>

lemma read_native_u8_ok:
  "r_error r = Err_Ok \<Longrightarrow> read_native_u8 r =
     (case unread r of [] \<Rightarrow> Some (None, flag_error Err_Invalid r)
      | b # _ \<Rightarrow> Some (Some b, advance 1 r))"
  by (auto simp: read_native_u8_def require_unread split: list.splits)

lemma read_native_u16_ok:
  assumes "r_error r = Err_Ok"
  shows "unread r = to_be_bytes w @ rest \<Longrightarrow> read_native_u16 r = Some (Some w, advance 2 r)"
    and "length (unread r) < 2 \<Longrightarrow> read_native_u16 r = Some (None, flag_error Err_Invalid r)"
  using assms by (simp_all add: read_native_u16_def require_unread)

lemma read_native_u32_ok:
  assumes "r_error r = Err_Ok"
  shows "unread r = to_be_bytes w @ rest \<Longrightarrow> read_native_u32 r = Some (Some w, advance 4 r)"
    and "length (unread r) < 4 \<Longrightarrow> read_native_u32 r = Some (None, flag_error Err_Invalid r)"
  using assms by (simp_all add: read_native_u32_def require_unread)

lemma reads_native [contracts]:
  "reads read_native_u8" "reads read_native_u16" "reads read_native_u32"
proof -
  show "reads read_native_u8"
  proof (rule readsI)
    fix r :: reader assume "r_error r = Err_Ok"
    then show "\<exists>x r'. read_native_u8 r = Some (x, r') \<and> advances r r' \<and> (x = None \<longleftrightarrow> r_error r' \<noteq> Err_Ok)"
      by (auto simp: read_native_u8_ok advances_advance split: list.splits)
  qed (simp add: read_native_u8_def)
  show "reads read_native_u16"
  proof (rule readsI)
    fix r :: reader assume ok: "r_error r = Err_Ok"
    show "\<exists>x r'. read_native_u16 r = Some (x, r') \<and> advances r r' \<and> (x = None \<longleftrightarrow> r_error r' \<noteq> Err_Ok)"
    proof (cases "length (unread r) < 2")
      case False
      then obtain w :: u16 and rest where "unread r = to_be_bytes w @ rest"
        by (auto intro: to_be_bytes_prefix [where 'a = 16, of "unread r"])
      with ok show ?thesis by (simp add: read_native_u16_ok advances_advance)
    qed (simp add: read_native_u16_ok ok)
  qed (simp add: read_native_u16_def)
  show "reads read_native_u32"
  proof (rule readsI)
    fix r :: reader assume ok: "r_error r = Err_Ok"
    show "\<exists>x r'. read_native_u32 r = Some (x, r') \<and> advances r r' \<and> (x = None \<longleftrightarrow> r_error r' \<noteq> Err_Ok)"
    proof (cases "length (unread r) < 4")
      case False
      then obtain w :: u32 and rest where "unread r = to_be_bytes w @ rest"
        by (auto intro: to_be_bytes_prefix [where 'a = 32, of "unread r"])
      with ok show ?thesis by (simp add: read_native_u32_ok advances_advance)
    qed (simp add: read_native_u32_ok ok)
  qed (simp add: read_native_u32_def)
qed

subsection \<open>Timestamps\<close>

lemma timestamp_of_bytes_total:
  "sz = 4 \<or> sz = 8 \<or> sz = 12 \<Longrightarrow> length bytes = sz \<Longrightarrow> \<exists>ts. timestamp_of_bytes sz bytes = Some ts"
  by (auto simp: timestamp_of_bytes_def checked)

lemma read_timestamp_ok:
  assumes "wf_reader r" and "r_error r = Err_Ok" and "sz = 4 \<or> sz = 8 \<or> sz = 12"
    and "sz \<le> length (unread r)" and "timestamp_of_bytes sz (take sz (unread r)) = Some ts"
  shows "read_timestamp sz r =
    (if unat (nanoseconds ts) \<le> 999999999 then Some (Some ts, advance sz r)
     else Some (None, flag_error Err_Invalid r))"
  using assms
  by (auto simp: read_timestamp_def require_unread checked length_unread wf_reader_def advance_def
      unread_def timestamp_nanoseconds_max_def not_less)

lemma reads_timestamp [contracts]: "reads (read_timestamp sz)"
proof (rule readsI)
  fix r :: reader assume wf: "wf_reader r" and ok: "r_error r = Err_Ok"
  show "\<exists>x r'. read_timestamp sz r = Some (x, r') \<and> advances r r' \<and> (x = None \<longleftrightarrow> r_error r' \<noteq> Err_Ok)"
  proof (cases "(sz = 4 \<or> sz = 8 \<or> sz = 12) \<and> sz \<le> length (unread r)")
    case True
    then obtain ts where "timestamp_of_bytes sz (take sz (unread r)) = Some ts"
      using timestamp_of_bytes_total [of sz "take sz (unread r)"] by auto
    with True wf ok show ?thesis by (simp add: read_timestamp_ok advances_advance)
  next
    case False
    then show ?thesis using ok by (auto simp: read_timestamp_def require_unread)
  qed
qed (simp add: read_timestamp_def)

end
