(* ===== verification/Timestamps.thy ===== *)
theory Timestamps
  imports Writer_Contract Reader_Typed
begin

section \<open>Timestamps: what the writer emits, the reader reads back\<close>

text \<open>
  The three timestamp layouts. \<open>timestamp_payload\<close> is the payload of the layout the writer
  chooses; it is proved to be what \<open>write_timestamp\<close> emits behind the extension header, and
  \<open>timestamp_of_bytes\<close> to recover the timestamp from it.
\<close>

definition timestamp_payload :: "i64 \<Rightarrow> u32 \<Rightarrow> u8 list" where
  "timestamp_payload secs nanos =
     (if 0 \<le> sint secs \<and> sint secs \<le> 4294967295 \<and> nanos = 0 then to_be_bytes (ucast secs :: u32)
      else if 0 \<le> sint secs \<and> sint secs < 2 ^ 34
      then to_be_bytes (push_bit 34 (ucast nanos :: u64) OR secs)
      else to_be_bytes nanos @ to_be_bytes secs)"

lemma be_bytes_u32:
  "to_be_bytes (x :: u32) = [ucast (drop_bit 24 x), ucast (drop_bit 16 x), ucast (drop_bit 8 x), ucast x]"
proof -
  have "(word_of_nat (unat x div 2 ^ k) :: u8) = ucast (drop_bit k x)" for k
  proof -
    have "unat (drop_bit k x) = unat x div 2 ^ k"
      by (simp only: unsigned_drop_bit_eq)
        (use unat_u32_less [of x] in \<open>simp add: take_bit_nat_eq_self drop_bit_eq_div\<close>)
    then have "(word_of_nat (unat x div 2 ^ k) :: u8) = word_of_nat (unat (drop_bit k x))"
      by (simp only:)
    then show ?thesis by (simp only: of_nat_unat)
  qed
  note byte = this [of 24] this [of 16] this [of 8] this [of 0, simplified]
  have "to_be_bytes x = be_bytes (Suc (Suc (Suc (Suc 0)))) (unat x)"
    unfolding to_be_bytes_def by (rule arg_cong [where f = "\<lambda>n. be_bytes n (unat x)"]) simp
  also have "\<dots> = [word_of_nat (unat x div 256 div 256 div 256), word_of_nat (unat x div 256 div 256),
      word_of_nat (unat x div 256), word_of_nat (unat x)]"
    by (simp only: be_bytes.simps append_Nil append_Cons)
  also have "unat x div 256 div 256 div 256 = unat x div 2 ^ 24"
    by (simp add: div_mult2_eq [symmetric])
  also have "unat x div 256 div 256 = unat x div 2 ^ 16"
    by (simp add: div_mult2_eq [symmetric])
  also have "unat x div 256 = unat x div 2 ^ 8"
    by simp
  finally show ?thesis
    by (simp only: byte of_nat_unat)
qed

lemma low_bytes:
  "[ucast (signed_drop_bit 24 s), ucast (signed_drop_bit 16 s), ucast (signed_drop_bit 8 s), ucast s]
   = to_be_bytes (ucast (s :: i64) :: u32)"
proof -
  have "(ucast (signed_drop_bit 24 s) :: u8) = ucast (drop_bit 24 (ucast s :: u32))"
    "(ucast (signed_drop_bit 16 s) :: u8) = ucast (drop_bit 16 (ucast s :: u32))"
    "(ucast (signed_drop_bit 8 s) :: u8) = ucast (drop_bit 8 (ucast s :: u32))"
    "(ucast s :: u8) = ucast (ucast s :: u32)"
    by (rule bit_word_eqI, simp add: bit_simps)+
  then show ?thesis by (simp only: be_bytes_u32)
qed

lemma take_bit_small_word: "unat (x :: 'a::len word) < 2 ^ k \<Longrightarrow> take_bit k x = x"
  by (intro word_unat_eq_iff [THEN iffD2]) (simp add: unsigned_take_bit_eq take_bit_nat_eq_self)

lemma unpack_34:
  fixes s :: u64 and n :: u32
  assumes "unat s < 2 ^ 34" and "unat n < 2 ^ 30"
  shows "(push_bit 34 (ucast n) OR s) AND (push_bit 34 1 - 1) = s"
    and "ucast (drop_bit 34 (push_bit 34 (ucast n) OR s)) = n"
proof -
  have s: "take_bit 34 s = s" and n: "take_bit 30 n = n"
    using assms by (simp_all only: take_bit_small_word)
  have s': "bit s i \<Longrightarrow> i < 34" for i
    by (subst (asm) s [symmetric]) (simp add: bit_take_bit_iff)
  have n': "bit n i \<Longrightarrow> i < 30" for i
    by (subst (asm) n [symmetric]) (simp add: bit_take_bit_iff)
  have m: "push_bit 34 1 - 1 = (mask 34 :: u64)"
    by (simp only: mask_eq_exp_minus_1 push_bit_of_1)
  have "(push_bit 34 (ucast n) OR s) AND mask 34 = take_bit 34 s"
    by (rule bit_word_eqI) (auto simp: bit_simps)
  then show "(push_bit 34 (ucast n) OR s) AND (push_bit 34 1 - 1) = s"
    by (simp only: m s)
  show "ucast (drop_bit 34 (push_bit 34 (ucast n) OR s)) = n"
    by (rule bit_word_eqI) (auto simp: bit_simps dest: s' n')
qed

lemma write_timestamp_emit [contracts]:
  assumes "wf_writer w" and "unat nanos \<le> 999999999"
  shows "write_timestamp secs nanos w =
    Some (emit (enc_ext 0xff (length (timestamp_payload secs nanos)) @ timestamp_payload secs nanos) w)"
  using assms
  by (simp add: write_timestamp_def timestamp_payload_def contracts enc_ext_def flip: low_bytes)

lemma timestamp_payload_length:
  "length (timestamp_payload secs nanos) \<in> {4, 8, 12}"
  by (simp add: timestamp_payload_def)

lemma timestamp_recovered:
  assumes "unat nanos \<le> 999999999"
  shows "timestamp_of_bytes (length (timestamp_payload secs nanos)) (timestamp_payload secs nanos)
    = Some \<lparr>seconds = secs, nanoseconds = nanos\<rparr>"
proof -
  have small: "unat secs < 2 ^ 32" if "0 \<le> sint secs" "sint secs \<le> 4294967295"
  proof -
    have "unat secs \<le> 4294967295"
      using sint_nonneg_unat [OF that(1)] that(2) by linarith
    then show ?thesis by simp
  qed
  consider (short) "0 \<le> sint secs" "sint secs \<le> 4294967295" "nanos = 0"
    | (packed) "\<not> (0 \<le> sint secs \<and> sint secs \<le> 4294967295 \<and> nanos = 0)" "0 \<le> sint secs" "sint secs < 2 ^ 34"
    | (full) "\<not> (0 \<le> sint secs \<and> sint secs \<le> 4294967295 \<and> nanos = 0)" "\<not> (0 \<le> sint secs \<and> sint secs < 2 ^ 34)"
    by blast
  then show ?thesis
  proof cases
    case short
    then show ?thesis
      using small by (simp add: timestamp_payload_def timestamp_of_bytes_def checked ucast_ucast_small)
  next
    case packed
    let ?p = "push_bit 34 (ucast nanos :: u64) OR secs"
    have s: "unat secs < 2 ^ 34"
    proof -
      have "sint secs < 17179869184"
        using packed(3) by simp
      then have "unat secs < 17179869184"
        using sint_nonneg_unat [OF packed(2)] by linarith
      then show ?thesis by simp
    qed
    have n: "unat nanos < 2 ^ 30"
      using assms by simp
    note unpack_34 [OF s n]
    moreover have "timestamp_payload secs nanos = to_be_bytes ?p"
      unfolding timestamp_payload_def if_not_P [OF packed(1)] using packed(2,3) by (simp only: if_True simp_thms)
    ultimately show ?thesis
      by (simp add: timestamp_of_bytes_def checked)
  next
    case full
    have "timestamp_payload secs nanos = to_be_bytes nanos @ to_be_bytes secs"
      unfolding timestamp_payload_def if_not_P [OF full(1)] if_not_P [OF full(2)] by (rule refl)
    then show ?thesis
      by (simp add: timestamp_of_bytes_def checked)
  qed
qed

end
