(* ===== verification/Value_Format.thy ===== *)
theory Value_Format
  imports Canonical
begin

section \<open>Whole MessagePack values, as a specification\<close>

text \<open>
  A value is a tag, the payload bytes it announces and the values it contains.
  \<open>value_bytes bs v\<close> states that \<open>bs\<close> is an encoding of \<open>v\<close>, whichever of the permitted header
  formats it uses; \<open>enc_value\<close> is the canonical encoding, with every header of least length.
\<close>

datatype mvalue = MValue (value_tag: tag) (value_payload: "u8 list") (value_children: "mvalue list")

inductive value_bytes :: "u8 list \<Rightarrow> mvalue \<Rightarrow> bool"
  and values_bytes :: "u8 list \<Rightarrow> mvalue list \<Rightarrow> bool"
where
  one_value: "header hs t \<Longrightarrow> length pl = payload_len t \<Longrightarrow> length vs = child_count t \<Longrightarrow>
    values_bytes bs vs \<Longrightarrow> value_bytes (hs @ pl @ bs) (MValue t pl vs)"
| no_values: "values_bytes [] []"
| more_values: "value_bytes bs v \<Longrightarrow> values_bytes bs' vs \<Longrightarrow> values_bytes (bs @ bs') (v # vs)"

inductive_cases value_bytesE: "value_bytes bs (MValue t pl vs)"
inductive_cases values_bytes_NilE: "values_bytes bs []"
inductive_cases values_bytes_ConsE: "values_bytes bs (v # vs)"

inductive_simps values_bytes_simps [simp]: "values_bytes bs []" "values_bytes bs (v # vs)"

fun enc_value :: "mvalue \<Rightarrow> u8 list" where
  "enc_value (MValue t pl vs) = enc_tag t @ pl @ concat (map enc_value vs)"

fun wf_value :: "mvalue \<Rightarrow> bool" where
  "wf_value (MValue t pl vs) \<longleftrightarrow>
     length pl = payload_len t \<and> length vs = child_count t \<and> (\<forall>v\<in>set vs. wf_value v)"

fun normal_value :: "mvalue \<Rightarrow> mvalue" where
  "normal_value (MValue t pl vs) = MValue (normal_tag t) pl (map normal_value vs)"

fun height :: "mvalue \<Rightarrow> nat" where
  "height (MValue t pl vs) = Suc (fold max (map height vs) 0)"

subsection \<open>Basic facts\<close>

lemma fold_max_le: "fold max xs (a :: nat) \<le> k \<longleftrightarrow> a \<le> k \<and> (\<forall>x\<in>set xs. x \<le> k)"
  by (induction xs arbitrary: a) auto

lemma height_pos: "0 < height v"
  by (cases v) simp

lemma height_children:
  "height (MValue t pl vs) \<le> Suc k \<longleftrightarrow> (\<forall>v\<in>set vs. height v \<le> k)"
  by (simp add: fold_max_le)

declare height.simps [simp del]

lemma values_bytes_append:
  "values_bytes bs vs \<Longrightarrow> values_bytes bs' vs' \<Longrightarrow> values_bytes (bs @ bs') (vs @ vs')"
proof (induction vs arbitrary: bs)
  case (Cons v vs)
  then obtain b c where "bs = b @ c" "value_bytes b v" "values_bytes c vs"
    by auto
  then have "values_bytes (b @ (c @ bs')) (v # (vs @ vs'))"
    using Cons by (intro more_values) simp_all
  with \<open>bs = b @ c\<close> show ?case
    by (simp del: values_bytes_simps)
qed simp

lemma value_bytes_nonempty: "value_bytes bs v \<Longrightarrow> bs \<noteq> []"
  by (cases v) (auto elim!: value_bytesE dest: header_nonempty)

lemma value_bytes_wf:
  "value_bytes bs v \<Longrightarrow> wf_value v"
  "values_bytes bs vs \<Longrightarrow> \<forall>v\<in>set vs. wf_value v"
  by (induction rule: value_bytes_values_bytes.inducts) auto

lemma value_height:
  "value_bytes bs v \<Longrightarrow> height v \<le> length bs"
  "values_bytes bs vs \<Longrightarrow> \<forall>v\<in>set vs. height v \<le> length bs"
proof (induction rule: value_bytes_values_bytes.inducts)
  case (one_value hs t pl vs bs)
  have "\<forall>v\<in>set vs. height v \<le> length bs"
    using one_value by simp
  moreover have "1 \<le> length hs"
    using header_length [OF one_value(1)] by simp
  ultimately have "height (MValue t pl vs) \<le> Suc (length bs)"
    by (simp only: height_children)
  with \<open>1 \<le> length hs\<close> show ?case by simp
qed auto

text \<open>The number of values is at most the number of bytes.\<close>

lemma values_bytes_length: "values_bytes bs vs \<Longrightarrow> length vs \<le> length bs"
proof (induction vs arbitrary: bs)
  case (Cons v vs)
  then obtain b c where bs: "bs = b @ c" "value_bytes b v" "values_bytes c vs"
    by auto
  have "1 \<le> length b"
    using value_bytes_nonempty [OF bs(2)] by (cases b) auto
  moreover have "length vs \<le> length c"
    using Cons.IH bs(3) .
  ultimately show ?case
    using bs(1) by simp
qed simp

subsection \<open>An encoding determines the value, and no encoding is a prefix of another\<close>

lemma value_bytes_unique:
  "value_bytes bs v \<Longrightarrow> value_bytes bs' v' \<Longrightarrow> bs @ r = bs' @ r' \<Longrightarrow> bs = bs' \<and> v = v' \<and> r = r'"
  "values_bytes bs vs \<Longrightarrow> values_bytes bs' vs' \<Longrightarrow> length vs = length vs' \<Longrightarrow>
     bs @ r = bs' @ r' \<Longrightarrow> bs = bs' \<and> vs = vs' \<and> r = r'"
proof (induction arbitrary: bs' v' r r' and bs' vs' r r' rule: value_bytes_values_bytes.inducts)
  case (one_value hs t pl vs bs)
  obtain t' pl' vs' where v': "v' = MValue t' pl' vs'"
    by (cases v')
  with one_value.prems obtain hs' cs' where h': "bs' = hs' @ pl' @ cs'" "header hs' t'"
      "length pl' = payload_len t'" "length vs' = child_count t'" "values_bytes cs' vs'"
    by (auto elim: value_bytesE)
  have "hs @ (pl @ bs @ r) = hs' @ (pl' @ cs' @ r')"
    using one_value.prems(2) h'(1) by simp
  from header_unique [OF one_value(1) h'(2) this]
  have *: "hs = hs'" "t = t'" "pl @ bs @ r = pl' @ cs' @ r'" by simp_all
  with one_value(2) h'(3) have pl: "pl = pl'" "bs @ r = cs' @ r'" by simp_all
  have "length vs = length vs'"
    using one_value(3) h'(4) *(2) by simp
  from one_value.IH [OF h'(5) this pl(2)] show ?case
    using * pl h'(1) v' by simp
next
  case no_values
  then show ?case by simp
next
  case (more_values bs v bs2 vs)
  obtain w ws where w: "vs' = w # ws"
    using more_values.prems(2) by (cases vs') auto
  with more_values.prems(1) obtain b c where b: "bs' = b @ c" "value_bytes b w" "values_bytes c ws"
    by auto
  have "bs @ (bs2 @ r) = b @ (c @ r')"
    using more_values.prems(3) b(1) by simp
  from more_values.IH(1) [OF b(2) this]
  have *: "bs = b" "v = w" "bs2 @ r = c @ r'" by simp_all
  have "length vs = length ws"
    using more_values.prems(2) w by simp
  from more_values.IH(2) [OF b(3) this *(3)] * b(1) w show ?case by simp
qed

subsection \<open>The canonical encoding\<close>

lemma concat_values_bytes:
  "(\<And>v. v \<in> set vs \<Longrightarrow> value_bytes (f v) (g v)) \<Longrightarrow> values_bytes (concat (map f vs)) (map g vs)"
  by (induction vs) auto

lemma value_bytes_enc: "wf_value v \<Longrightarrow> value_bytes (enc_value v) (normal_value v)"
proof (induction v)
  case (MValue t pl vs)
  have "values_bytes (concat (map enc_value vs)) (map normal_value vs)"
    using MValue by (intro concat_values_bytes) auto
  then show ?case
    using MValue(2) one_value [OF header_enc_tag [of t]] by simp
qed

lemma height_normal [simp]: "height (normal_value v) = height v"
proof (induction v)
  case (MValue t pl vs)
  then have "map (height \<circ> normal_value) vs = map height vs"
    by simp
  then show ?case
    by (simp add: height.simps del: map_eq_conv)
qed

lemma enc_value_shortest:
  "value_bytes bs v \<Longrightarrow> length (enc_value v) \<le> length bs"
  "values_bytes bs vs \<Longrightarrow> length (concat (map enc_value vs)) \<le> length bs"
  by (induction rule: value_bytes_values_bytes.inducts) (auto dest: header_shortest)

end
