(* ===== verification/Utf8_Spec.thy ===== *)
theory Utf8_Spec
  imports Utf8
begin

section \<open>The UTF-8 check accepts exactly the encodings of Unicode scalar values\<close>

text \<open>
  The specification is the encoding direction: \<open>utf8_encode\<close> maps a scalar value to its bytes. The
  check is proved to accept a byte sequence exactly when it is a concatenation of such encodings
  (of non-zero scalars for the variant that rejects NUL).
\<close>

definition scalar :: "nat \<Rightarrow> bool" where
  "scalar c \<longleftrightarrow> c < 0xd800 \<or> (0xe000 \<le> c \<and> c \<le> 0x10ffff)"

definition utf8_encode :: "nat \<Rightarrow> u8 list" where
  "utf8_encode c =
     (if c < 0x80 then [word_of_nat c]
      else if c < 0x800 then [word_of_nat (0xc0 + c div 64), word_of_nat (0x80 + c mod 64)]
      else if c < 0x10000
      then [word_of_nat (0xe0 + c div 4096), word_of_nat (0x80 + c div 64 mod 64),
            word_of_nat (0x80 + c mod 64)]
      else [word_of_nat (0xf0 + c div 262144), word_of_nat (0x80 + c div 4096 mod 64),
            word_of_nat (0x80 + c div 64 mod 64), word_of_nat (0x80 + c mod 64)])"

subsection \<open>Bits of bytes\<close>

lemma unat_and_not_mask: "unat (b AND NOT (mask n) :: u8) = unat b div 2 ^ n * 2 ^ n"
proof -
  have "unat b div 2 ^ n * 2 ^ n < 256"
    using unat_u8_less [of b] by (meson div_times_less_eq_dividend le_less_trans)
  then have "take_bit 8 (push_bit n (drop_bit n (unat b))) = unat b div 2 ^ n * 2 ^ n"
    by (simp add: push_bit_eq_mult drop_bit_eq_div take_bit_nat_eq_self)
  moreover have "b AND NOT (mask n) = push_bit n (drop_bit n b)"
    by (rule bit_eqI) (auto simp: bit_simps)
  ultimately show ?thesis
    using unat_u8_less [of b]
    by (simp add: unsigned_push_bit_eq unsigned_drop_bit_eq take_bit_nat_eq_self)
qed

lemma high_masks:
  "(0xc0 :: u8) = NOT (mask 6)" "(0xe0 :: u8) = NOT (mask 5)" "(0xf0 :: u8) = NOT (mask 4)"
  "(0xf8 :: u8) = NOT (mask 3)"
  by (simp_all add: mask_eq_exp_minus_1)

lemma high_bits:
  "unat (b AND 0xc0 :: u8) = unat b div 64 * 64" "unat (b AND 0xe0 :: u8) = unat b div 32 * 32"
  "unat (b AND 0xf0 :: u8) = unat b div 16 * 16" "unat (b AND 0xf8 :: u8) = unat b div 8 * 8"
  by (simp_all only: high_masks unat_and_not_mask) simp_all

lemma is_cont_iff: "is_cont b \<longleftrightarrow> unat b div 64 = 2"
  by (auto simp: is_cont_def word_unat_eq_iff high_bits)

lemma lead_iff:
  "b AND 0xe0 = 0xc0 \<longleftrightarrow> unat b div 32 = 6" "b AND 0xf0 = 0xe0 \<longleftrightarrow> unat b div 16 = 14"
  "(b :: u8) AND 0xf8 = 0xf0 \<longleftrightarrow> unat b div 8 = 30"
  by (auto simp: word_unat_eq_iff high_bits)

lemma low_bits:
  "unat (b AND NOT 0xc0 :: u8) = unat b mod 64" "unat (b AND NOT 0xe0 :: u8) = unat b mod 32"
  "unat (b AND NOT 0xf0 :: u8) = unat b mod 16" "unat (b AND NOT 0xf8 :: u8) = unat b mod 8"
  by (simp_all only: high_masks bit.double_compl unsigned_take_bit_eq flip: take_bit_eq_mask)
    (simp_all add: take_bit_eq_mod)

subsection \<open>One step of the check\<close>

text \<open>
  The values that two, three and four bytes stand for, and \<open>utf8_step\<close>, which reads one encoded
  scalar off the front of a byte sequence; the check is its iteration.
\<close>

definition value2 :: "u8 \<Rightarrow> u8 \<Rightarrow> nat" where
  "value2 b0 b1 = unat b0 mod 32 * 64 + unat b1 mod 64"

definition value3 :: "u8 \<Rightarrow> u8 \<Rightarrow> u8 \<Rightarrow> nat" where
  "value3 b0 b1 b2 = unat b0 mod 16 * 4096 + (unat b1 mod 64 * 64 + unat b2 mod 64)"

definition value4 :: "u8 \<Rightarrow> u8 \<Rightarrow> u8 \<Rightarrow> u8 \<Rightarrow> nat" where
  "value4 b0 b1 b2 b3 =
     unat b0 mod 8 * 262144 + (unat b1 mod 64 * 4096 + (unat b2 mod 64 * 64 + unat b3 mod 64))"

fun utf8_step :: "u8 list \<Rightarrow> (nat \<times> u8 list) option" where
  "utf8_step (b0 # bs) =
     (if unat b0 \<le> 0x7f then Some (unat b0, bs)
      else if b0 AND 0xe0 = 0xc0 then
        (case bs of
           b1 # rest \<Rightarrow>
             if is_cont b1 \<and> 0x80 \<le> value2 b0 b1 then Some (value2 b0 b1, rest) else None
         | _ \<Rightarrow> None)
      else if b0 AND 0xf0 = 0xe0 then
        (case bs of
           b1 # b2 # rest \<Rightarrow>
             if is_cont b1 \<and> is_cont b2 \<and> 0x800 \<le> value3 b0 b1 b2
                \<and> \<not> (0xd800 \<le> value3 b0 b1 b2 \<and> value3 b0 b1 b2 \<le> 0xdfff)
             then Some (value3 b0 b1 b2, rest) else None
         | _ \<Rightarrow> None)
      else if b0 AND 0xf8 = 0xf0 then
        (case bs of
           b1 # b2 # b3 # rest \<Rightarrow>
             if is_cont b1 \<and> is_cont b2 \<and> is_cont b3
                \<and> 0x10000 \<le> value4 b0 b1 b2 b3 \<and> value4 b0 b1 b2 b3 \<le> 0x10ffff
             then Some (value4 b0 b1 b2 b3, rest) else None
         | _ \<Rightarrow> None)
      else None)"
| "utf8_step [] = None"

lemma word_of_nat_u8_eqI: "n = unat b \<Longrightarrow> word_of_nat n = (b :: u8)"
  by simp

lemma unat_split: "unat (b :: u8) = unat b div k * k + unat b mod k"
  by simp

lemma digit_div_mod:
  fixes x b k :: nat
  assumes "b < k" and "z = x * k + b"
  shows "z div k = x" and "z mod k = b"
  using assms by simp_all

lemma digits2: "c = q * 64 + m \<Longrightarrow> q = p * 64 + n \<Longrightarrow> (c :: nat) = p * 4096 + (n * 64 + m)"
  by simp

lemma digits3:
  "c = q * 4096 + m \<Longrightarrow> q = p * 64 + n \<Longrightarrow> (c :: nat) = p * 262144 + (n * 4096 + m)"
  by simp

lemma encode_2:
  assumes "unat b0 div 32 = 6" and "unat b1 div 64 = 2"
    and z: "z = unat b0 mod 32 * 64 + unat b1 mod 64" and ge: "0x80 \<le> z"
  shows "scalar z \<and> utf8_encode z = [b0, b1]"
proof -
  have "z div 64 = unat b0 mod 32" "z mod 64 = unat b1 mod 64"
    by (simp_all add: z)
  moreover have "z < 0x800"
    using mod_less_divisor [of 32 "unat b0"] mod_less_divisor [of 64 "unat b1"] by (simp add: z)
  ultimately show ?thesis
    using assms(1,2) ge unat_split [of b0 32] unat_split [of b1 64]
    by (simp add: scalar_def utf8_encode_def word_of_nat_u8_eqI del: of_nat_add)
qed

lemma byte_back: "unat (b :: u8) div k = h \<Longrightarrow> word_of_nat (h * k + unat b mod k) = b"
  using unat_split [of b k] by simp

lemma mult_numerals:
  "(14 :: nat) * 16 = 0xe0" "(30 :: nat) * 8 = 0xf0" "(2 :: nat) * 64 = 0x80"
  by simp_all

lemma encode_3_aux:
  "0x800 \<le> z \<Longrightarrow> \<not> (0xd800 \<le> z \<and> z \<le> 0xdfff) \<Longrightarrow> z < 0x10000 \<Longrightarrow>
   scalar z \<and> utf8_encode z = [word_of_nat (0xe0 + z div 4096), word_of_nat (0x80 + z div 64 mod 64),
            word_of_nat (0x80 + z mod 64)]"
  by (auto simp: scalar_def utf8_encode_def)

lemma encode_4_aux:
  "0x10000 \<le> z \<Longrightarrow> z \<le> 0x10ffff \<Longrightarrow>
   scalar z \<and> utf8_encode z = [word_of_nat (0xf0 + z div 262144), word_of_nat (0x80 + z div 4096 mod 64),
            word_of_nat (0x80 + z div 64 mod 64), word_of_nat (0x80 + z mod 64)]"
  by (auto simp: scalar_def utf8_encode_def)

lemma encode_3:
  assumes "unat b0 div 16 = 14" and "unat b1 div 64 = 2" and "unat b2 div 64 = 2"
    and z: "z = unat b0 mod 16 * 4096 + (unat b1 mod 64 * 64 + unat b2 mod 64)"
    and ge: "0x800 \<le> z" and sur: "\<not> (0xd800 \<le> z \<and> z \<le> 0xdfff)"
  shows "scalar z \<and> utf8_encode z = [b0, b1, b2]"
proof -
  have lt: "unat b0 mod 16 < 16" "unat b1 mod 64 < 64" "unat b2 mod 64 < 64"
    by simp_all
  have "z = (unat b0 mod 16 * 64 + unat b1 mod 64) * 64 + unat b2 mod 64"
    by (simp add: z)
  note d = digit_div_mod [OF lt(3) this]
  moreover have "z div 64 mod 64 = unat b1 mod 64"
    by (rule digit_div_mod(2) [OF lt(2) d(1)])
  moreover have "z div 4096 = unat b0 mod 16"
    by (rule digit_div_mod(1) [OF _ z]) (use lt in linarith)
  moreover have "z < 0x10000"
    using lt z by linarith
  note encode_3_aux [OF ge sur this]
  ultimately show ?thesis
    using byte_back [OF assms(1)] byte_back [OF assms(2)] byte_back [OF assms(3)]
    by (simp only: mult_numerals)
qed

lemma encode_4:
  assumes "unat b0 div 8 = 30" and "unat b1 div 64 = 2" and "unat b2 div 64 = 2"
    and "unat b3 div 64 = 2"
    and z: "z = unat b0 mod 8 * 262144 + (unat b1 mod 64 * 4096 + (unat b2 mod 64 * 64 + unat b3 mod 64))"
    and ge: "0x10000 \<le> z" and le: "z \<le> 0x10ffff"
  shows "scalar z \<and> utf8_encode z = [b0, b1, b2, b3]"
proof -
  have lt: "unat b0 mod 8 < 8" "unat b1 mod 64 < 64" "unat b2 mod 64 < 64" "unat b3 mod 64 < 64"
    by simp_all
  have "z = ((unat b0 mod 8 * 64 + unat b1 mod 64) * 64 + unat b2 mod 64) * 64 + unat b3 mod 64"
    by (simp add: z)
  note d = digit_div_mod [OF lt(4) this]
  moreover have "z div 64 mod 64 = unat b2 mod 64"
    by (rule digit_div_mod(2) [OF lt(3) d(1)])
  moreover have "z div 64 div 64 = unat b0 mod 8 * 64 + unat b1 mod 64"
    by (rule digit_div_mod(1) [OF lt(3) d(1)])
  then have e: "z div 4096 = unat b0 mod 8 * 64 + unat b1 mod 64"
    by (simp add: div_mult2_eq [symmetric])
  then have "z div 4096 mod 64 = unat b1 mod 64"
    by (rule digit_div_mod(2) [OF lt(2)])
  moreover have "z div 262144 = unat b0 mod 8"
    by (rule digit_div_mod(1) [OF _ z]) (use lt in linarith)
  ultimately show ?thesis
    using encode_4_aux [OF ge le] byte_back [OF assms(1)] byte_back [OF assms(2)] byte_back [OF assms(3)]
      byte_back [OF assms(4)]
    by (simp only: mult_numerals)
qed

lemma encode_1: "unat b \<le> 0x7f \<Longrightarrow> scalar (unat b) \<and> utf8_encode (unat b) = [b]"
  by (simp add: scalar_def utf8_encode_def)


lemmas step_encodes = encode_1 encode_2 [folded value2_def is_cont_iff lead_iff]
  encode_3 [folded value3_def is_cont_iff lead_iff] encode_4 [folded value4_def is_cont_iff lead_iff]

lemma utf8_step_sound:
  assumes "utf8_step bs = Some (c, rest)"
  shows "scalar c \<and> bs = utf8_encode c @ rest"
  using assms
  by (cases bs rule: utf8_step.cases)
    (auto simp: step_encodes split: if_split_asm list.split_asm)

lemma unat_u8_of_nat: "n < 256 \<Longrightarrow> unat (word_of_nat n :: u8) = n"
  by (rule unat_of_nat_small) simp

lemma cont_byte:
  fixes x :: nat
  assumes "x < 64"
  shows "is_cont (word_of_nat (0x80 + x))" and "unat (word_of_nat (0x80 + x) :: u8) mod 64 = x"
proof -
  have "unat (word_of_nat (0x80 + x) :: u8) = 0x80 + x"
    using assms by (intro unat_u8_of_nat) linarith
  then show "is_cont (word_of_nat (0x80 + x))" "unat (word_of_nat (0x80 + x) :: u8) mod 64 = x"
    using assms digit_div_mod [of x 64 "0x80 + x" 2] by (simp_all add: is_cont_iff)
qed

lemma lead_byte:
  fixes x :: nat
  assumes "x < 2 ^ k" and "k \<le> 8" and "h * 2 ^ k + x < 256"
  shows "unat (word_of_nat (h * 2 ^ k + x) :: u8) div 2 ^ k = h"
    and "unat (word_of_nat (h * 2 ^ k + x) :: u8) mod 2 ^ k = x"
  using digit_div_mod [OF assms(1) refl, of h] unat_u8_of_nat [OF assms(3)] by simp_all

lemma lead2_byte:
  assumes "x < 32"
  shows "\<not> unat (word_of_nat (0xc0 + x) :: u8) \<le> 0x7f"
    and "(word_of_nat (0xc0 + x) :: u8) AND 0xe0 = 0xc0"
    and "unat (word_of_nat (0xc0 + x) :: u8) mod 32 = x"
  using assms lead_byte [of x 5 6] unat_u8_of_nat [of "0xc0 + x"] by (simp_all add: lead_iff)

lemma lead3_byte:
  assumes "x < 16"
  shows "\<not> unat (word_of_nat (0xe0 + x) :: u8) \<le> 0x7f"
    and "(word_of_nat (0xe0 + x) :: u8) AND 0xe0 \<noteq> 0xc0"
    and "(word_of_nat (0xe0 + x) :: u8) AND 0xf0 = 0xe0"
    and "unat (word_of_nat (0xe0 + x) :: u8) mod 16 = x"
proof -
  have u: "unat (word_of_nat (0xe0 + x) :: u8) = 7 * 32 + x"
    using assms unat_u8_of_nat [of "0xe0 + x"] by simp
  then have "unat (word_of_nat (0xe0 + x) :: u8) div 32 = 7"
    by (rule digit_div_mod(1) [rotated]) (use assms in simp)
  then show "(word_of_nat (0xe0 + x) :: u8) AND 0xe0 \<noteq> 0xc0"
    by (simp add: lead_iff)
  show "\<not> unat (word_of_nat (0xe0 + x) :: u8) \<le> 0x7f"
    "(word_of_nat (0xe0 + x) :: u8) AND 0xf0 = 0xe0"
    "unat (word_of_nat (0xe0 + x) :: u8) mod 16 = x"
    using assms lead_byte [of x 4 14] u by (simp_all add: lead_iff)
qed

lemma lead4_byte:
  assumes "x < 8"
  shows "\<not> unat (word_of_nat (0xf0 + x) :: u8) \<le> 0x7f"
    and "(word_of_nat (0xf0 + x) :: u8) AND 0xe0 \<noteq> 0xc0"
    and "(word_of_nat (0xf0 + x) :: u8) AND 0xf0 \<noteq> 0xe0"
    and "(word_of_nat (0xf0 + x) :: u8) AND 0xf8 = 0xf0"
    and "unat (word_of_nat (0xf0 + x) :: u8) mod 8 = x"
proof -
  have u: "unat (word_of_nat (0xf0 + x) :: u8) = 15 * 16 + x"
    using assms unat_u8_of_nat [of "0xf0 + x"] by simp
  then have "unat (word_of_nat (0xf0 + x) :: u8) div 16 = 15"
    by (rule digit_div_mod(1) [rotated]) (use assms in simp)
  then show "(word_of_nat (0xf0 + x) :: u8) AND 0xf0 \<noteq> 0xe0"
    by (simp add: lead_iff)
  have "unat (word_of_nat (0xf0 + x) :: u8) div 32 = 7"
    by (rule digit_div_mod(1) [where b = "16 + x"]) (use assms u in simp_all)
  then show "(word_of_nat (0xf0 + x) :: u8) AND 0xe0 \<noteq> 0xc0"
    by (simp add: lead_iff)
  show "\<not> unat (word_of_nat (0xf0 + x) :: u8) \<le> 0x7f"
    "(word_of_nat (0xf0 + x) :: u8) AND 0xf8 = 0xf0"
    "unat (word_of_nat (0xf0 + x) :: u8) mod 8 = x"
    using assms lead_byte [of x 3 30] u by (simp_all add: lead_iff)
qed

lemma utf8_step_encode:
  assumes "scalar c"
  shows "utf8_step (utf8_encode c @ rest) = Some (c, rest)"
proof -
  have m: "c mod 64 < 64" "c div 64 mod 64 < 64" "c div 4096 mod 64 < 64"
    by simp_all
  have e: "c = c div 64 * 64 + c mod 64"
    "c = c div 4096 * 4096 + (c div 64 mod 64 * 64 + c mod 64)"
    "c = c div 262144 * 262144 + (c div 4096 mod 64 * 4096 + (c div 64 mod 64 * 64 + c mod 64))"
  proof -
    have q: "c div 4096 = c div 64 div 64" "c div 262144 = c div 4096 div 64"
      by (simp_all only: div_mult2_eq [symmetric]) simp_all
    show 1: "c = c div 64 * 64 + c mod 64" by simp
    have "c div 64 = c div 4096 * 64 + c div 64 mod 64"
      unfolding q(1) by (rule div_mult_mod_eq [symmetric])
    from digits2 [OF 1 this] show 2: "c = c div 4096 * 4096 + (c div 64 mod 64 * 64 + c mod 64)" .
    have "c div 4096 = c div 262144 * 64 + c div 4096 mod 64"
      unfolding q(2) by (rule div_mult_mod_eq [symmetric])
    from digits3 [OF 2 this]
    show "c = c div 262144 * 262144
                 + (c div 4096 mod 64 * 4096 + (c div 64 mod 64 * 64 + c mod 64))" .
  qed
  consider "c < 0x80" | "0x80 \<le> c" "c < 0x800" | "0x800 \<le> c" "c < 0x10000" | "0x10000 \<le> c"
    by linarith
  then show ?thesis
  proof cases
    case 1
    then show ?thesis
      using unat_u8_of_nat [of c] by (simp add: utf8_encode_def)
  next
    case 2
    then have "c div 64 < 32" by simp
    from lead2_byte [OF this] show ?thesis
      using 2 cont_byte [OF m(1)] e(1)
      by (simp add: utf8_encode_def value2_def del: of_nat_add)
  next
    case 3
    then have "c div 4096 < 16" by simp
    note l = lead3_byte [OF this]
    have v: "value3 (word_of_nat (0xe0 + c div 4096)) (word_of_nat (0x80 + c div 64 mod 64))
              (word_of_nat (0x80 + c mod 64)) = c"
      unfolding value3_def l(4) cont_byte(2) [OF m(1)] cont_byte(2) [OF m(2)] by (rule e(2) [symmetric])
    have "\<not> (0xd800 \<le> c \<and> c \<le> 0xdfff)"
      using assms unfolding scalar_def by linarith
    then show ?thesis
      using 3 l(1-3) cont_byte(1) [OF m(1)] cont_byte(1) [OF m(2)]
      by (simp add: utf8_encode_def v del: of_nat_add)
  next
    case 4
    then have "c div 262144 < 8" using assms by (simp add: scalar_def)
    note l = lead4_byte [OF this]
    have v: "value4 (word_of_nat (0xf0 + c div 262144)) (word_of_nat (0x80 + c div 4096 mod 64))
              (word_of_nat (0x80 + c div 64 mod 64)) (word_of_nat (0x80 + c mod 64)) = c"
      unfolding value4_def l(5) cont_byte(2) [OF m(1)] cont_byte(2) [OF m(2)] cont_byte(2) [OF m(3)]
      by (rule e(3) [symmetric])
    have "c \<le> 0x10ffff"
      using 4 assms unfolding scalar_def by linarith
    then show ?thesis
      using 4 l(1-4) cont_byte(1) [OF m(1)] cont_byte(1) [OF m(2)] cont_byte(1) [OF m(3)]
      by (simp add: utf8_encode_def v del: of_nat_add)
  qed
qed

subsection \<open>The loop is the iteration of the step\<close>

lemma unat_u8_u32: "unat (ucast (b :: u8) :: u32) = unat b"
  using unat_u8_less [of b] by (simp add: unsigned_ucast_eq take_bit_nat_eq_self)

lemma or_shift2:
  fixes y z :: u32
  assumes "unat y < 64" and "unat z < 64"
  shows "unat (push_bit 6 y OR z) = unat y * 64 + unat z"
  using assms unat_or_shift [of z 6 y] by simp

lemma or_shift3:
  fixes x y z :: u32
  assumes "unat x < 64" and "unat y < 64" and "unat z < 64"
  shows "unat (push_bit 12 x OR push_bit 6 y OR z) = unat x * 4096 + (unat y * 64 + unat z)"
  using assms unat_or_shift [of "push_bit 6 y OR z" 12 x] or_shift2 [of y z] by (simp add: or.assoc)

lemma or_shift4:
  fixes w x y z :: u32
  assumes "unat w < 64" and "unat x < 64" and "unat y < 64" and "unat z < 64"
  shows "unat (push_bit 18 w OR push_bit 12 x OR push_bit 6 y OR z)
         = unat w * 262144 + (unat x * 4096 + (unat y * 64 + unat z))"
  using assms unat_or_shift [of "push_bit 12 x OR push_bit 6 y OR z" 18 w] or_shift3 [of x y z]
  by (simp add: or.assoc)

text \<open>The payload bits of a byte, widened as in the code.\<close>

lemma payload_bits:
  "unat (ucast (b AND NOT 0xc0 :: u8) :: u32) = unat b mod 64"
  "unat (ucast (b AND NOT 0xe0 :: u8) :: u32) = unat b mod 32"
  "unat (ucast (b AND NOT 0xf0 :: u8) :: u32) = unat b mod 16"
  "unat (ucast (b AND NOT 0xf8 :: u8) :: u32) = unat b mod 8"
  unfolding unat_u8_u32 low_bits by (rule refl)+

lemma payload_less:
  "unat (ucast (b AND NOT 0xc0 :: u8) :: u32) < 64" "unat (ucast (b AND NOT 0xe0 :: u8) :: u32) < 64"
  "unat (ucast (b AND NOT 0xf0 :: u8) :: u32) < 64" "unat (ucast (b AND NOT 0xf8 :: u8) :: u32) < 64"
  unfolding payload_bits by (rule mod_less_divisor less_trans [OF mod_less_divisor]; simp)+

lemma code_value2:
  "unat (push_bit 6 (ucast (b0 AND NOT 0xe0)) OR ucast (b1 AND NOT 0xc0) :: u32) = value2 b0 b1"
  unfolding or_shift2 [OF payload_less(2,1)] value2_def payload_bits by (rule refl)

lemma code_value3:
  "unat (push_bit 12 (ucast (b0 AND NOT 0xf0)) OR push_bit 6 (ucast (b1 AND NOT 0xc0))
         OR ucast (b2 AND NOT 0xc0) :: u32) = value3 b0 b1 b2"
  unfolding or_shift3 [OF payload_less(3,1,1)] value3_def payload_bits by (rule refl)

lemma code_value4:
  "unat (push_bit 18 (ucast (b0 AND NOT 0xf8)) OR push_bit 12 (ucast (b1 AND NOT 0xc0))
         OR push_bit 6 (ucast (b2 AND NOT 0xc0)) OR ucast (b3 AND NOT 0xc0) :: u32)
   = value4 b0 b1 b2 b3"
  unfolding or_shift4 [OF payload_less(4,1,1,1)] value4_def payload_bits by (rule refl)

lemma nth_after:
  "(pre @ b0 # t) ! length pre = b0"
  "(pre @ b0 # b1 # t) ! (length pre + 1) = b1"
  "(pre @ b0 # b1 # b2 # t) ! (length pre + 2) = b2"
  "(pre @ b0 # b1 # b2 # b3 # t) ! (length pre + 3) = b3"
  "(pre @ b0 # b1 # t) ! Suc (length pre) = b1"
  "(pre @ b0 # b1 # b2 # t) ! Suc (Suc (length pre)) = b2"
  by (simp_all add: nth_append numeral_2_eq_2 numeral_3_eq_3)

lemma check_utf8_from_step:
  "check_utf8_from allow (pre @ bs) (length pre) \<longleftrightarrow>
     (bs = [] \<or>
      (case utf8_step bs of
         None \<Rightarrow> False
       | Some (c, rest) \<Rightarrow>
           (allow \<or> c \<noteq> 0)
           \<and> check_utf8_from allow (pre @ bs) (length pre + length bs - length rest)))"
proof (cases bs)
  case Nil
  then show ?thesis by (simp add: check_utf8_from.simps)
next
  case (Cons b0 t)
  define C where "C = check_utf8_from allow (pre @ b0 # t)"
  note step = check_utf8_from.simps [of allow "pre @ b0 # t" "length pre",
      folded C_def, unfolded code_value2 code_value3 code_value4 Let_def nth_after]
  consider (ascii) "unat b0 \<le> 0x7f" | (two) "\<not> unat b0 \<le> 0x7f" "b0 AND 0xe0 = 0xc0"
    | (three) "\<not> unat b0 \<le> 0x7f" "b0 AND 0xe0 \<noteq> 0xc0" "b0 AND 0xf0 = 0xe0"
    | (four) "\<not> unat b0 \<le> 0x7f" "b0 AND 0xe0 \<noteq> 0xc0" "b0 AND 0xf0 \<noteq> 0xe0" "b0 AND 0xf8 = 0xf0"
    | (bad) "\<not> unat b0 \<le> 0x7f" "b0 AND 0xe0 \<noteq> 0xc0" "b0 AND 0xf0 \<noteq> 0xe0" "b0 AND 0xf8 \<noteq> 0xf0"
    by blast
  then show ?thesis
  proof cases
    case ascii
    then show ?thesis
      unfolding Cons C_def [symmetric] step by (auto simp: unat_eq_zero)
  next
    case bad
    then show ?thesis
      unfolding Cons C_def [symmetric] step by (simp del: unat_0_iff)
  next
    case two
    note c = two
    from c(1) have nz: "b0 \<noteq> 0" by auto
    show ?thesis
      unfolding Cons C_def [symmetric] step
      by (cases t) (auto simp: c nz nth_after not_le not_less add.commute)
  next
    case three
    note c = three
    from c(1) have nz: "b0 \<noteq> 0" by auto
    consider "t = []" | b1 where "t = [b1]" | b1 b2 rest where "t = b1 # b2 # rest"
      by (metis list.exhaust)
    then show ?thesis
      unfolding Cons C_def [symmetric] step
      by cases (auto simp: c nz nth_after not_le not_less add.commute)
  next
    case four
    note c = four
    from c(1) have nz: "b0 \<noteq> 0" by auto
    consider "t = []" | b1 where "t = [b1]" | b1 b2 where "t = [b1, b2]"
      | b1 b2 b3 rest where "t = b1 # b2 # b3 # rest"
      by (metis list.exhaust)
    then show ?thesis
      unfolding Cons C_def [symmetric] step
      by cases (auto simp: c nz nth_after not_le not_less add.commute)
  qed
qed

subsection \<open>Soundness and completeness\<close>

lemma utf8_step_shorter: "utf8_step bs = Some (c, rest) \<Longrightarrow> length rest < length bs"
  by (auto dest!: utf8_step_sound simp: utf8_encode_def split: if_splits)

definition encoded_text :: "bool \<Rightarrow> u8 list \<Rightarrow> bool" where
  "encoded_text allow bs \<longleftrightarrow>
     (\<exists>cs. (\<forall>c\<in>set cs. scalar c \<and> (allow \<or> c \<noteq> 0)) \<and> bs = concat (map utf8_encode cs))"

lemma encoded_text_Nil: "encoded_text allow []"
  unfolding encoded_text_def by (rule exI [of _ "[]"]) simp

lemma encoded_text_Cons:
  "scalar c \<Longrightarrow> allow \<or> c \<noteq> 0 \<Longrightarrow> encoded_text allow bs \<Longrightarrow> encoded_text allow (utf8_encode c @ bs)"
  unfolding encoded_text_def by (elim exE, rule_tac x = "c # cs" in exI) auto

lemma encoded_text_cases:
  assumes "encoded_text allow bs" and "bs \<noteq> []"
  obtains c rest where "utf8_step bs = Some (c, rest)" "allow \<or> c \<noteq> 0" "encoded_text allow rest"
proof -
  from assms(1) obtain cs where *: "\<forall>c\<in>set cs. scalar c \<and> (allow \<or> c \<noteq> 0)"
      "bs = concat (map utf8_encode cs)"
    unfolding encoded_text_def by blast
  with assms(2) obtain c cs' where "cs = c # cs'" by (cases cs) auto
  with * have "utf8_step bs = Some (c, concat (map utf8_encode cs'))" "allow \<or> c \<noteq> 0"
      "encoded_text allow (concat (map utf8_encode cs'))"
    using utf8_step_encode unfolding encoded_text_def by auto
  then show thesis by (rule that)
qed

lemma encoded_text_step:
  "encoded_text allow bs \<longleftrightarrow>
     (bs = [] \<or>
      (case utf8_step bs of
         None \<Rightarrow> False
       | Some (c, rest) \<Rightarrow> (allow \<or> c \<noteq> 0) \<and> encoded_text allow rest))"
proof (cases "bs = []")
  case True
  then show ?thesis by (simp add: encoded_text_Nil)
next
  case False
  show ?thesis
  proof (rule iffI)
    assume "encoded_text allow bs"
    from this False show "bs = [] \<or> (case utf8_step bs of None \<Rightarrow> False
        | Some (c, rest) \<Rightarrow> (allow \<or> c \<noteq> 0) \<and> encoded_text allow rest)"
      by (rule encoded_text_cases) simp
  next
    assume "bs = [] \<or> (case utf8_step bs of None \<Rightarrow> False
        | Some (c, rest) \<Rightarrow> (allow \<or> c \<noteq> 0) \<and> encoded_text allow rest)"
    then obtain c rest where "utf8_step bs = Some (c, rest)" "allow \<or> c \<noteq> 0" "encoded_text allow rest"
      using False by (auto split: option.split_asm)
    then show "encoded_text allow bs"
      using utf8_step_sound encoded_text_Cons by metis
  qed
qed

lemma check_utf8_from_iff:
  "check_utf8_from allow (pre @ bs) (length pre) \<longleftrightarrow> encoded_text allow bs"
proof (induction bs arbitrary: pre rule: length_induct)
  case (1 bs)
  have IH: "check_utf8_from allow (pre @ bs) (length pre + length bs - length rest) = encoded_text allow rest"
    if p: "utf8_step bs = Some (c, rest)" for c rest
  proof -
    have bs: "bs = utf8_encode c @ rest"
      using utf8_step_sound [OF p] by simp
    have "check_utf8_from allow ((pre @ utf8_encode c) @ rest) (length (pre @ utf8_encode c))
          = encoded_text allow rest"
      using 1 utf8_step_shorter [OF p] by blast
    then show ?thesis
      by (simp add: bs)
  qed
  show ?case
    unfolding check_utf8_from_step encoded_text_step [of allow bs]
    by (cases "utf8_step bs") (simp_all add: IH split: prod.split)
qed

lemma check_utf8_iff: "check_utf8_impl bs allow \<longleftrightarrow> encoded_text allow bs"
  using check_utf8_from_iff [of allow "[]"] by (simp add: check_utf8_impl_def)

end
