(* ===== verification/Writer_Theorems.thy ===== *)
theory Writer_Theorems
  imports Timestamps Value_Format Utf8_Spec
begin

section \<open>What the writers guarantee\<close>

text \<open>
  The properties of \<open>src/writer.rs\<close>'s two byte sinks: canonical headers, what happens when the
  buffer is full, lengths that have no format, and the round trips through the reader.
\<close>

subsection \<open>Writing a tag\<close>

text \<open>The operation of the fixed writer for each tag.\<close>

fun put_tag :: "tag \<Rightarrow> writer \<Rightarrow> writer option" where
  "put_tag Tag_Nil w = write_nil w"
| "put_tag (Tag_Bool b) w = write_bool b w"
| "put_tag (Tag_Int v) w = write_i64 v w"
| "put_tag (Tag_Uint v) w = write_u64 v w"
| "put_tag (Tag_Float f) w = write_f32 f w"
| "put_tag (Tag_Double d) w = write_f64 d w"
| "put_tag (Tag_Str n) w = write_str_header (unat n) w"
| "put_tag (Tag_Bin n) w = write_bin_header (unat n) w"
| "put_tag (Tag_Array n) w = write_array_header (unat n) w"
| "put_tag (Tag_Map n) w = write_map_header (unat n) w"
| "put_tag (Tag_Ext ty n) w = write_ext_header ty (unat n) w"

lemma put_tag_emit: "wf_writer w \<Longrightarrow> put_tag t w = Some (emit (enc_tag t) w)"
  using unat_u32_less by (cases t) (simp_all add: contracts emit_len_def)

lemma emit_new:
  "w_error (emit hs (writer_new buf)) = Err_Ok \<Longrightarrow> emitted (emit hs (writer_new buf)) = hs"
  using emit_fits(1) [of "writer_new buf" hs] emit_too_big [of "writer_new buf" hs]
  by (cases "length hs \<le> room (writer_new buf)") (simp_all add: emitted_new)

lemma unread_new: "unread (reader_new bs) = bs" "r_error (reader_new bs) = Err_Ok"
  by (simp_all add: unread_def reader_new_def)

text \<open>A selecting read of what one operation emitted.\<close>

lemma select_written:
  assumes "header hs t" and "sel t = Some v" and "m = Some (emit hs (writer_new buf))"
  shows "m = Some w \<and> w_error w = Err_Ok \<longrightarrow> select_read read_tag sel (reader_new (emitted w))
    = Some (Some v, advance (length (emitted w)) (reader_new (emitted w)))"
proof (intro impI, elim conjE)
  assume "m = Some w" "w_error w = Err_Ok"
  then have "emitted w = hs"
    using assms(3) emit_new [of hs buf] by simp
  moreover have "unread (reader_new hs) = hs @ []" by (simp add: unread_new)
  from reading.select_value [OF unread_new(2) assms(1) this, of sel v] assms(2)
  have "select_read read_tag sel (reader_new hs) = Some (Some v, advance (length hs) (reader_new hs))"
    by simp
  ultimately show "select_read read_tag sel (reader_new (emitted w))
    = Some (Some v, advance (length (emitted w)) (reader_new (emitted w)))"
    by (simp only:)
qed

text \<open>C2. Whatever header of \<open>t\<close> an encoder might choose, the fixed writer's operation for \<open>t\<close> emits a
  header of the same value that is at most as long; it writes all of it whenever it fits, and
  leaves the buffer contents and position untouched when it does not.\<close>

theorem writer_emits_shortest_header:
  assumes "wf_writer w" and "w_error w = Err_Ok" and "header hs t"
  shows "\<exists>w'. put_tag t w = Some w' \<and> wf_writer w' \<and> header (enc_tag t) (normal_tag t)
    \<and> length (enc_tag t) \<le> length hs
    \<and> (if length (enc_tag t) \<le> room w
       then w_error w' = Err_Ok \<and> emitted w' = emitted w @ enc_tag t
       else w_error w' = Err_TooBig \<and> w_buffer w' = w_buffer w \<and> w_position w' = w_position w)"
  using assms(1,2) header_shortest [OF assms(3)] header_enc_tag [of t] emit_too_big [of w "enc_tag t"]
    emit_fits(1,2) [OF assms(1,2), of "enc_tag t"]
  by (auto simp: put_tag_emit)

theorem writer_emits_shortest_header_witness:
  "\<exists>w'. put_tag (Tag_Uint 7) (writer_new [0, 0]) = Some w' \<and> emitted w' = emitted (writer_new [0, 0]) @ [7]"
proof -
  have "header (0xcf # to_be_bytes (7 :: u64)) (Tag_Uint 7)"
    by (rule uint64)
  from writer_emits_shortest_header [OF wf_writer_new _ this, of "[0, 0]"] show ?thesis
    by (auto simp: emitted_new enc_uint_def)
qed

text \<open>C3. Every scalar the fixed writer has written completely is read back with its exact value (floats
  bit for bit), and the read consumes exactly the bytes written.\<close>

theorem scalar_roundtrip:
  "(write_bool b (writer_new buf) = Some w \<and> w_error w = Err_Ok \<longrightarrow>
      read_bool (reader_new (emitted w)) = Some (Some b, advance (length (emitted w)) (reader_new (emitted w))))
   \<and> (write_u64 v (writer_new buf) = Some w \<and> w_error w = Err_Ok \<longrightarrow>
      read_u64 (reader_new (emitted w)) = Some (Some v, advance (length (emitted w)) (reader_new (emitted w))))
   \<and> (write_i64 v (writer_new buf) = Some w \<and> w_error w = Err_Ok \<longrightarrow>
      read_i64 (reader_new (emitted w)) = Some (Some v, advance (length (emitted w)) (reader_new (emitted w))))
   \<and> (write_f32 f (writer_new buf) = Some w \<and> w_error w = Err_Ok \<longrightarrow>
      read_f32 (reader_new (emitted w)) = Some (Some f, advance (length (emitted w)) (reader_new (emitted w))))
   \<and> (write_f64 d (writer_new buf) = Some w \<and> w_error w = Err_Ok \<longrightarrow>
      read_f64 (reader_new (emitted w)) = Some (Some d, advance (length (emitted w)) (reader_new (emitted w))))"
proof -
  note enc = header_enc_tag [of "Tag_Bool b"] header_enc_tag [of "Tag_Uint v"] header_enc_tag [of "Tag_Int v"]
    header_enc_tag [of "Tag_Float f"] header_enc_tag [of "Tag_Double d"]
  have i: "tag_i64 (normal_tag (Tag_Int v)) = Some v"
  proof -
    have "unat v < 2 ^ 63" if "0 \<le> sint v"
    proof -
      have "sint v < 9223372036854775808" using sint_lt [of v] by simp
      then have "unat v < 9223372036854775808"
        using sint_nonneg_unat [OF that] by linarith
      then show ?thesis by simp
    qed
    then show ?thesis by simp
  qed
  have wf: "wf_writer (writer_new buf)" by simp
  note ops = write_bool_emit [OF wf, of b] write_u64_emit [OF wf, of v] write_i64_emit [OF wf, of v]
    write_f32_emit [OF wf, of f] write_f64_emit [OF wf, of d]
  have sel: "tag_bool (normal_tag (Tag_Bool b)) = Some b" "tag_u64 (normal_tag (Tag_Uint v)) = Some v"
    "tag_f32 (normal_tag (Tag_Float f)) = Some f" "tag_f64 (normal_tag (Tag_Double d)) = Some d"
    by simp_all
  show ?thesis
    unfolding typed_select
    using select_written [where sel = tag_bool and v = b, OF enc(1) sel(1) ops(1), of w]
      select_written [where sel = tag_u64 and v = v, OF enc(2) sel(2) ops(2) [folded enc_tag.simps(4)], of w]
      select_written [where sel = tag_i64 and v = v, OF enc(3) i ops(3) [folded enc_tag.simps(3)], of w]
      select_written [where sel = tag_f32 and v = f, OF enc(4) sel(3) ops(4), of w]
      select_written [where sel = tag_f64 and v = d, OF enc(5) sel(4) ops(5), of w]
    by (intro conjI)
qed

theorem scalar_roundtrip_witness:
  "\<exists>w. write_i64 (- 5) (writer_new [0]) = Some w
     \<and> read_i64 (reader_new (emitted w)) = Some (Some (- 5), advance (length (emitted w)) (reader_new (emitted w)))"
proof -
  have "wf_writer (writer_new [0])" by simp
  then have w: "write_i64 (- 5) (writer_new [0]) = Some (emit (enc_int (- 5)) (writer_new [0]))"
    by (rule write_i64_emit)
  have "w_error (emit (enc_int (- 5)) (writer_new [0])) = Err_Ok"
    by (simp add: enc_int_def emit_def writer_new_def)
  note scalar_roundtrip [THEN conjunct2, THEN conjunct2, THEN conjunct1, rule_format, OF conjI, OF w this]
  with w show ?thesis by (intro exI conjI)
qed

subsection \<open>Payloads\<close>

lemma length_enc_le: "length (enc_str n) \<le> 16" "length (enc_bin n) \<le> 16" "length (enc_ext ty n) \<le> 16"
  by (simp_all add: length_enc)

lemma header_then_bytes:
  assumes wf: "wf_writer w" and ok: "w_error w = Err_Ok"
  shows "\<exists>w'. write_bytes val (emit hs w) = Some w' \<and> wf_writer w'
    \<and> (if length hs + length val \<le> room w
       then w_error w' = Err_Ok \<and> emitted w' = emitted w @ hs @ val
       else w_error w' = Err_TooBig)"
proof (cases "length hs \<le> room w")
  case True
  note e = emit_fits [OF wf ok True]
  note f = emit_bytes_facts [OF wf_emit [OF wf] e(2)]
  show ?thesis
    using f [of val] e True
    by (auto simp: write_bytes_emit [OF wf_emit [OF wf]] le_diff_conv2 add.commute)
next
  case False
  then have e: "emit hs w = w\<lparr>w_error := Err_TooBig\<rparr>"
    using emit_too_big [OF ok] by simp
  have "emit_bytes val (emit hs w) = emit hs w"
    by (simp add: e emit_bytes_def)
  with write_bytes_emit [OF wf_emit [OF wf]] have "write_bytes val (emit hs w) = Some (emit hs w)"
    by simp
  with False show ?thesis
    using wf_emit [OF wf, of hs] by (simp add: e)
qed

text \<open>C29. A string, binary or extension value is written as its shortest header followed by its bytes
  when both fit into the remaining buffer; otherwise the writer ends in \<open>TooBig\<close>, never in a panic
  and never outside the buffer.\<close>

theorem payload_values_written:
  assumes "wf_writer w" and "w_error w = Err_Ok" and "length val < 2 ^ 32"
  shows "\<exists>ws wb we.
      write_str val w = Some ws \<and> write_bin val w = Some wb \<and> write_ext ty val w = Some we
    \<and> wf_writer ws \<and> wf_writer wb \<and> wf_writer we
    \<and> (if length (enc_str (length val)) + length val \<le> room w
       then w_error ws = Err_Ok \<and> emitted ws = emitted w @ enc_str (length val) @ val
       else w_error ws = Err_TooBig)
    \<and> (if length (enc_bin (length val)) + length val \<le> room w
       then w_error wb = Err_Ok \<and> emitted wb = emitted w @ enc_bin (length val) @ val
       else w_error wb = Err_TooBig)
    \<and> (if length (enc_ext ty (length val)) + length val \<le> room w
       then w_error we = Err_Ok \<and> emitted we = emitted w @ enc_ext ty (length val) @ val
       else w_error we = Err_TooBig)"
  using header_then_bytes [OF assms(1,2), of val "enc_str (length val)"]
    header_then_bytes [OF assms(1,2), of val "enc_bin (length val)"]
    header_then_bytes [OF assms(1,2), of val "enc_ext ty (length val)"] assms(3)
  by (simp add: write_str_def write_bin_def write_ext_def contracts assms(1) emit_len_def)

theorem payload_values_written_witness:
  "\<exists>w'. write_str [1, 2] (writer_new [0, 0, 0]) = Some w' \<and> w_error w' = Err_Ok"
  using payload_values_written [of "writer_new [0, 0, 0]" "[1, 2]"]
  by (auto simp: emitted_new enc_str_def)

text \<open>C28. A string that was written completely is read back byte for byte: its header gives the length,
  \<open>read_bytes\<close> gives the bytes, and \<open>read_bytes_utf8\<close> gives them exactly when they are valid UTF-8
  and is a type error otherwise.\<close>

theorem string_roundtrip:
  assumes "length val < 2 ^ 32" and "write_str val (writer_new buf) = Some w" and "w_error w = Err_Ok"
  shows "\<exists>r. read_str_header (reader_new (emitted w)) = Some (Some (word_of_nat (length val)), r)
    \<and> unread r = val
    \<and> (\<exists>r'. read_bytes (length val) r = Some (Some val, r') \<and> unread r' = [])
    \<and> read_bytes_utf8 (length val) r =
        (if encoded_text True val then Some (Some val, advance (length val) r)
         else Some (None, flag_error Err_Type r))"
proof -
  let ?hs = "enc_str (length val)"
  from header_then_bytes [of "writer_new buf" val ?hs] assms
  have e: "emitted w = ?hs @ val"
    by (auto simp: write_str_def contracts emit_len_def emitted_new split: if_splits)
  let ?r = "advance (length ?hs) (reader_new (?hs @ val))"
  have "read_str_header (reader_new (?hs @ val)) = Some (Some (word_of_nat (length val)), ?r)"
    unfolding typed_select
    by (rule reading.select_value [OF unread_new(2) header_enc_lens(1) [OF assms(1)] unread_new(1)]) simp
  moreover have "unread ?r = val" "r_error ?r = Err_Ok" "wf_reader ?r"
    by (simp_all add: unread_new) (simp add: wf_reader_def reader_new_def)
  ultimately show ?thesis
    unfolding e
    by (intro exI [of _ ?r]) (simp add: read_bytes_ok read_bytes_utf8_ok check_utf8_def check_utf8_iff unread_new)
qed

theorem string_roundtrip_witness:
  "\<exists>r. read_str_header (reader_new (emitted (emit [0xa1, 0x41] (writer_new [0, 0])))) = Some (Some 1, r)
     \<and> unread r = [0x41]"
proof -
  have wf: "wf_writer (writer_new [0, 0])" by simp
  have "write_str [0x41] (writer_new [0, 0]) = Some (emit [0xa1, 0x41] (writer_new [0, 0]))"
    by (simp add: write_str_def contracts wf emit_len_def enc_str_def)
      (simp add: emit_def emit_bytes_def writer_new_def room_def)
  moreover have "w_error (emit [0xa1, 0x41] (writer_new [0, 0])) = Err_Ok"
    by (simp add: emit_def writer_new_def)
  ultimately show ?thesis
    using string_roundtrip [of "[0x41]" "[0, 0]"] by auto
qed

end
