(* ===== verification/Write_Tracker.thy ===== *)
theory Write_Tracker
  imports Mpack_Common
begin

section \<open>The compound tracker (\<open>src/writer.rs\<close>, \<open>WriteTracker\<close>)\<close>

text \<open>
  A stack of open compounds and payloads with what is left to write in each. The vector's last
  element, the innermost open item, is the head of the list.
\<close>

datatype track_kind = Kind_Array | Kind_Map | Kind_Str | Kind_Bin | Kind_Ext

record track_element =
  te_kind :: track_kind
  te_left :: nat

type_synonym write_tracker = "track_element list"

definition is_payload :: "track_kind \<Rightarrow> bool" where
  "is_payload k \<longleftrightarrow> k = Kind_Str \<or> k = Kind_Bin \<or> k = Kind_Ext"

definition wt_push :: "track_kind \<Rightarrow> nat \<Rightarrow> write_tracker \<Rightarrow> write_tracker" where
  "wt_push k count stack =
     \<lparr>te_kind = k, te_left = (if k = Kind_Map then sat_mul count 2 else count)\<rparr> # stack"

definition wt_element :: "write_tracker \<Rightarrow> (error + unit) \<times> write_tracker" where
  "wt_element stack =
     (case stack of
        [] \<Rightarrow> (Inr (), stack)
      | item # rest \<Rightarrow>
          if is_payload (te_kind item) \<or> te_left item = 0 then (Inl Err_Bug, stack)
          else (Inr (), item\<lparr>te_left := te_left item - 1\<rparr> # rest))"

definition wt_bytes :: "nat \<Rightarrow> write_tracker \<Rightarrow> (error + unit) \<times> write_tracker" where
  "wt_bytes count stack =
     (case stack of
        [] \<Rightarrow> (Inl Err_Bug, stack)
      | item # rest \<Rightarrow>
          if \<not> is_payload (te_kind item) \<or> count > te_left item then (Inl Err_Bug, stack)
          else (Inr (), item\<lparr>te_left := te_left item - count\<rparr> # rest))"

definition wt_pop :: "track_kind \<Rightarrow> write_tracker \<Rightarrow> (error + unit) \<times> write_tracker" where
  "wt_pop k stack =
     (case stack of
        item # rest \<Rightarrow>
          if te_kind item = k \<and> te_left item = 0 then (Inr (), rest) else (Inl Err_Bug, stack)
      | [] \<Rightarrow> (Inl Err_Bug, stack))"

definition wt_finish :: "write_tracker \<Rightarrow> error + unit" where
  "wt_finish stack = (if stack = [] then Inr () else Inl Err_Bug)"

end
