(* ===== verification/Write_Builder.thy ===== *)
theory Write_Builder
  imports Writer_Growable Write_Tracker
begin

section \<open>The automatic-size builder (\<open>src/writer.rs\<close>, \<open>Builder\<close>)\<close>

text \<open>
  Maps and arrays whose size is counted while their elements are written: a stack of open frames,
  each with the bytes of its elements, and the output of the closed top-level values. The
  vector's last frame, the innermost open one, is the head of the list.
\<close>

record build_frame =
  bf_kind :: track_kind
  bf_elements :: nat
  bf_bytes :: "u8 list"

record builder =
  b_frames :: "build_frame list"
  b_output :: growable

definition builder_new :: builder where
  "builder_new = \<lparr>b_frames = [], b_output = growable_new\<rparr>"

definition build_array :: "builder \<Rightarrow> builder" where
  "build_array b =
     b\<lparr>b_frames := \<lparr>bf_kind = Kind_Array, bf_elements = 0, bf_bytes = []\<rparr> # b_frames b\<rparr>"

definition build_map :: "builder \<Rightarrow> builder" where
  "build_map b =
     b\<lparr>b_frames := \<lparr>bf_kind = Kind_Map, bf_elements = 0, bf_bytes = []\<rparr> # b_frames b\<rparr>"

definition append_value :: "u8 list \<Rightarrow> builder \<Rightarrow> builder" where
  "append_value bytes b =
     (case b_frames b of
        frame # rest \<Rightarrow>
          b\<lparr>b_frames := frame\<lparr>bf_bytes := bf_bytes frame @ bytes,
                              bf_elements := bf_elements frame + 1\<rparr> # rest\<rparr>
      | [] \<Rightarrow> b\<lparr>b_output := growable_append bytes (b_output b)\<rparr>)"

definition write_value :: "(growable \<Rightarrow> growable option) \<Rightarrow> builder \<Rightarrow> builder option" where
  "write_value write b = do {
     encoded \<leftarrow> write growable_new;
     Some (append_value (g_bytes encoded) b)
   }"

definition b_write_nil :: "builder \<Rightarrow> builder option" where
  "b_write_nil b = write_value gw_write_nil b"

definition b_write_bool :: "bool \<Rightarrow> builder \<Rightarrow> builder option" where
  "b_write_bool v b = write_value (gw_write_bool v) b"

definition b_write_u64 :: "u64 \<Rightarrow> builder \<Rightarrow> builder option" where
  "b_write_u64 v b = write_value (gw_write_u64 v) b"

definition b_write_i64 :: "i64 \<Rightarrow> builder \<Rightarrow> builder option" where
  "b_write_i64 v b = write_value (gw_write_i64 v) b"

definition b_write_str :: "u8 list \<Rightarrow> builder \<Rightarrow> builder option" where
  "b_write_str val b = do {
     encoded \<leftarrow> gw_write_str val growable_new;
     Some (append_value (g_bytes encoded) b)
   }"

definition builder_complete :: "track_kind \<Rightarrow> builder \<Rightarrow> ((error + unit) \<times> builder) option" where
  "builder_complete k b =
     (case b_frames b of
        [] \<Rightarrow> Some (Inl Err_Bug, b)
      | frame # rest \<Rightarrow>
          let b = b\<lparr>b_frames := rest\<rparr> in
          if bf_kind frame \<noteq> k \<or> (k = Kind_Map \<and> bf_elements frame mod 2 \<noteq> 0)
          then Some (Inl Err_Bug, b)
          else
            (let count = (if k = Kind_Map then bf_elements frame div 2 else bf_elements frame)
             in do {
               encoded \<leftarrow> (if k = Kind_Map then gw_write_map_header count growable_new
                          else gw_write_array_header count growable_new);
               Some (Inr (), append_value (g_bytes (growable_append (bf_bytes frame) encoded)) b)
             }))"

definition complete_array :: "builder \<Rightarrow> ((error + unit) \<times> builder) option" where
  "complete_array b = builder_complete Kind_Array b"

definition complete_map :: "builder \<Rightarrow> ((error + unit) \<times> builder) option" where
  "complete_map b = builder_complete Kind_Map b"

definition builder_finish :: "builder \<Rightarrow> error + u8 list" where
  "builder_finish b = (if b_frames b = [] then growable_into_vec (b_output b) else Inl Err_Bug)"

end
