(* ===== verification/Compound_Theorems.thy ===== *)
theory Compound_Theorems
  imports Write_Builder Writer_Contract Value_Format
begin

section \<open>What the compound tracker and the builder guarantee\<close>

text \<open>
  \<open>WriteTracker\<close>: a sequence of tracker calls is accepted exactly when it is well-bracketed and
  every compound or payload is filled with exactly what it announced. \<open>Builder\<close>: building a value
  appends its canonical encoding, with the counts computed by the builder.
\<close>

subsection \<open>The tracker accepts exactly the filled, well-bracketed call sequences\<close>

datatype track_call =
    Call_push track_kind nat
  | Call_element
  | Call_bytes nat
  | Call_pop track_kind

fun track_step :: "track_call \<Rightarrow> write_tracker \<Rightarrow> (error + unit) \<times> write_tracker" where
  "track_step (Call_push k n) st = (Inr (), wt_push k n st)"
| "track_step Call_element st = wt_element st"
| "track_step (Call_bytes n) st = wt_bytes n st"
| "track_step (Call_pop k) st = wt_pop k st"

text \<open>A writer that stops at the first call that is refused.\<close>

fun track_run :: "track_call list \<Rightarrow> write_tracker \<Rightarrow> write_tracker option" where
  "track_run [] st = Some st"
| "track_run (c # cs) st =
     (case track_step c st of (Inr _, st') \<Rightarrow> track_run cs st' | (Inl _, _) \<Rightarrow> None)"

definition announced :: "track_kind \<Rightarrow> nat \<Rightarrow> nat" where
  "announced k n = (if k = Kind_Map then sat_mul n 2 else n)"

text \<open>
  \<open>fills k n cs\<close>: the calls \<open>cs\<close> write the \<open>n\<close> elements or bytes that an item of kind \<open>k\<close> still
  lacks. \<open>complete_calls cs\<close>: the calls at top level.
\<close>

inductive fills :: "track_kind \<Rightarrow> nat \<Rightarrow> track_call list \<Rightarrow> bool" where
  filled: "fills k 0 []"
| element: "\<not> is_payload k \<Longrightarrow> fills k n cs \<Longrightarrow> fills k (Suc n) (Call_element # cs)"
| payload_bytes: "is_payload k \<Longrightarrow> fills k n cs \<Longrightarrow> fills k (m + n) (Call_bytes m # cs)"
| nested: "fills k' (announced k' m) body \<Longrightarrow> fills k n cs \<Longrightarrow>
    fills k n (Call_push k' m # body @ Call_pop k' # cs)"

inductive complete_calls :: "track_call list \<Rightarrow> bool" where
  no_calls: "complete_calls []"
| top_element: "complete_calls cs \<Longrightarrow> complete_calls (Call_element # cs)"
| top_nested: "fills k (announced k m) body \<Longrightarrow> complete_calls cs \<Longrightarrow>
    complete_calls (Call_push k m # body @ Call_pop k # cs)"

lemma track_run_append:
  "track_run (cs @ cs') st = (case track_run cs st of None \<Rightarrow> None | Some st' \<Rightarrow> track_run cs' st')"
  by (induction cs arbitrary: st) (auto split: sum.splits prod.splits)

lemma wt_push_announced: "wt_push k n st = \<lparr>te_kind = k, te_left = announced k n\<rparr> # st"
  by (simp add: wt_push_def announced_def)

lemma fills_run:
  "fills k n cs \<Longrightarrow> track_run cs (\<lparr>te_kind = k, te_left = n\<rparr> # st) = Some (\<lparr>te_kind = k, te_left = 0\<rparr> # st)"
proof (induction arbitrary: st rule: fills.induct)
  case (nested k' m body k n cs)
  then show ?case
    by (simp add: track_run_append wt_push_announced wt_pop_def)
qed (simp_all add: wt_element_def wt_bytes_def)

lemma complete_run: "complete_calls cs \<Longrightarrow> track_run cs [] = Some []"
proof (induction rule: complete_calls.induct)
  case (top_nested k m body cs)
  then show ?case
    by (simp add: track_run_append fills_run wt_push_announced wt_pop_def)
qed (simp_all add: wt_element_def)

text \<open>Conversely, an accepted run that closes its innermost item splits at that pop.\<close>

lemma run_fills:
  "track_run cs (\<lparr>te_kind = k, te_left = n\<rparr> # st) = Some [] \<Longrightarrow>
   \<exists>body cs'. cs = body @ Call_pop k # cs' \<and> fills k n body \<and> track_run cs' st = Some []"
proof (induction "length cs" arbitrary: cs k n st rule: less_induct)
  case less
  then obtain c cs1 where cs: "cs = c # cs1" by (cases cs) auto
  show ?case
  proof (cases c)
    case (Call_push k' m)
    with less.prems cs have "track_run cs1 (\<lparr>te_kind = k', te_left = announced k' m\<rparr>
        # \<lparr>te_kind = k, te_left = n\<rparr> # st) = Some []"
      by (simp add: wt_push_announced)
    from less.hyps [OF _ this] cs obtain body cs2 where 1: "cs1 = body @ Call_pop k' # cs2"
        "fills k' (announced k' m) body" "track_run cs2 (\<lparr>te_kind = k, te_left = n\<rparr> # st) = Some []"
      by auto
    from less.hyps [OF _ 1(3)] cs 1(1) obtain body2 cs3 where 2: "cs2 = body2 @ Call_pop k # cs3"
        "fills k n body2" "track_run cs3 st = Some []"
      by auto
    from nested [OF 1(2) 2(2)] have "fills k n (Call_push k' m # body @ Call_pop k' # body2)" .
    with cs Call_push 1(1) 2 show ?thesis
      by (intro exI [of _ "Call_push k' m # body @ Call_pop k' # body2"] exI [of _ cs3]) simp
  next
    case Call_element
    with less.prems cs have p: "\<not> is_payload k" "n \<noteq> 0"
        "track_run cs1 (\<lparr>te_kind = k, te_left = n - 1\<rparr> # st) = Some []"
      by (auto simp: wt_element_def split: if_splits)
    from less.hyps [OF _ p(3)] cs obtain body cs2 where "cs1 = body @ Call_pop k # cs2"
        "fills k (n - 1) body" "track_run cs2 st = Some []"
      by auto
    with element [OF p(1), of "n - 1" body] p(2) cs Call_element show ?thesis
      by (intro exI [of _ "Call_element # body"] exI [of _ cs2]) simp
  next
    case (Call_bytes m)
    with less.prems cs have p: "is_payload k" "m \<le> n"
        "track_run cs1 (\<lparr>te_kind = k, te_left = n - m\<rparr> # st) = Some []"
      by (auto simp: wt_bytes_def split: if_splits)
    from less.hyps [OF _ p(3)] cs obtain body cs2 where "cs1 = body @ Call_pop k # cs2"
        "fills k (n - m) body" "track_run cs2 st = Some []"
      by auto
    with payload_bytes [OF p(1), of "n - m" body m] p(2) cs Call_bytes show ?thesis
      by (intro exI [of _ "Call_bytes m # body"] exI [of _ cs2]) simp
  next
    case (Call_pop k')
    with less.prems cs have "k' = k" "n = 0" "track_run cs1 st = Some []"
      by (auto simp: wt_pop_def split: if_splits)
    with cs Call_pop filled [of k] show ?thesis
      by (intro exI [of _ "[]"] exI [of _ cs1]) simp
  qed
qed

lemma run_complete: "track_run cs [] = Some [] \<Longrightarrow> complete_calls cs"
proof (induction "length cs" arbitrary: cs rule: less_induct)
  case less
  show ?case
  proof (cases cs)
    case Nil
    then show ?thesis by (simp add: no_calls)
  next
    case (Cons c cs1)
    show ?thesis
    proof (cases c)
      case (Call_push k m)
      with less.prems Cons have "track_run cs1 (\<lparr>te_kind = k, te_left = announced k m\<rparr> # []) = Some []"
        by (simp add: wt_push_announced)
      from run_fills [OF this] obtain body cs2 where 1: "cs1 = body @ Call_pop k # cs2"
          "fills k (announced k m) body" "track_run cs2 [] = Some []" by blast
      with less.hyps [of cs2] Cons have "complete_calls cs2" by simp
      with top_nested [OF 1(2)] Cons Call_push 1(1) show ?thesis by simp
    next
      case Call_element
      with less Cons show ?thesis by (auto simp: wt_element_def intro: top_element)
    qed (use less.prems Cons in \<open>auto simp: wt_bytes_def wt_pop_def\<close>)
  qed
qed

text \<open>C26. The tracker accepts a sequence of calls and can finish after it exactly when the sequence is
  well-bracketed and every array, map and payload received exactly the elements or bytes it
  announced (a map of \<open>n\<close> entries \<open>2 * n\<close> elements, saturated at \<open>usize::MAX\<close>).\<close>

theorem tracker_accepts_complete_calls:
  "(\<exists>st. track_run cs [] = Some st \<and> wt_finish st = Inr ()) \<longleftrightarrow> complete_calls cs"
  using complete_run [of cs] run_complete [of cs] by (auto simp: wt_finish_def split: if_splits)

subsection \<open>The builder\<close>

text \<open>The builder's calls for a value made of the scalars, strings and compounds it offers.\<close>

fun build_value :: "mvalue \<Rightarrow> builder \<Rightarrow> builder option"
  and build_values :: "mvalue list \<Rightarrow> builder \<Rightarrow> builder option"
where
  "build_value (MValue t pl vs) b =
     (case t of
        Tag_Nil \<Rightarrow> b_write_nil b
      | Tag_Bool v \<Rightarrow> b_write_bool v b
      | Tag_Uint v \<Rightarrow> b_write_u64 v b
      | Tag_Int v \<Rightarrow> b_write_i64 v b
      | Tag_Str n \<Rightarrow> b_write_str pl b
      | Tag_Array n \<Rightarrow> do {
          b \<leftarrow> build_values vs (build_array b);
          (res, b) \<leftarrow> complete_array b;
          (case res of Inr _ \<Rightarrow> Some b | Inl _ \<Rightarrow> None)
        }
      | Tag_Map n \<Rightarrow> do {
          b \<leftarrow> build_values vs (build_map b);
          (res, b) \<leftarrow> complete_map b;
          (case res of Inr _ \<Rightarrow> Some b | Inl _ \<Rightarrow> None)
        }
      | _ \<Rightarrow> None)"
| "build_values [] b = Some b"
| "build_values (v # vs) b = do { b \<leftarrow> build_value v b; build_values vs b }"

fun buildable :: "mvalue \<Rightarrow> bool" where
  "buildable (MValue t pl vs) \<longleftrightarrow>
     (case t of Tag_Float _ \<Rightarrow> False | Tag_Double _ \<Rightarrow> False | Tag_Bin _ \<Rightarrow> False | Tag_Ext _ _ \<Rightarrow> False
      | _ \<Rightarrow> True) \<and> (\<forall>v\<in>set vs. buildable v)"

definition append_values :: "u8 list \<Rightarrow> nat \<Rightarrow> builder \<Rightarrow> builder" where
  "append_values bs n b =
     (case b_frames b of
        frame # rest \<Rightarrow> b\<lparr>b_frames := frame\<lparr>bf_bytes := bf_bytes frame @ bs,
                              bf_elements := bf_elements frame + n\<rparr> # rest\<rparr>
      | [] \<Rightarrow> b\<lparr>b_output := growable_append bs (b_output b)\<rparr>)"

lemma append_value_values: "append_value bs b = append_values bs 1 b"
  by (simp add: append_value_def append_values_def split: list.split)

lemma append_values_append:
  "append_values bs' n' (append_values bs n b) = append_values (bs @ bs') (n + n') b"
  by (auto simp: append_values_def growable_append_def split: list.split)

lemma append_values_0: "append_values [] 0 b = b"
  by (auto simp: append_values_def growable_append_def split: list.split)

lemma encoded_new: "g_bytes (growable_append hs growable_new) = hs"
  by (simp add: growable_append_def growable_new_def default_error_def)

lemma append_frame:
  "append_values bs n (build_array b) = b\<lparr>b_frames := \<lparr>bf_kind = Kind_Array, bf_elements = n, bf_bytes = bs\<rparr> # b_frames b\<rparr>"
  "append_values bs n (build_map b) = b\<lparr>b_frames := \<lparr>bf_kind = Kind_Map, bf_elements = n, bf_bytes = bs\<rparr> # b_frames b\<rparr>"
  by (simp_all add: append_values_def build_array_def build_map_def)

lemma builder_same: "b\<lparr>b_frames := b_frames b\<rparr> = b"
  by simp

lemma growable_append2: "growable_append c (growable_append bs g) = growable_append (bs @ c) g"
  by (simp add: growable_append_def)

lemma complete_frame:
  "n < 2 ^ 32 \<Longrightarrow> complete_array (append_values bs n (build_array b))
     = Some (Inr (), append_value (enc_array n @ bs) b)"
  "n < 2 ^ 32 \<Longrightarrow> complete_map (append_values bs (2 * n) (build_map b))
     = Some (Inr (), append_value (enc_map n @ bs) b)"
  by (simp_all add: complete_array_def complete_map_def builder_complete_def append_frame contracts
      growable_append2 encoded_new)

lemma build_values_append:
  "wf_value v \<Longrightarrow> buildable v \<Longrightarrow> build_value v b = Some (append_values (enc_value v) 1 b)"
  "\<forall>v\<in>set vs. wf_value v \<and> buildable v \<Longrightarrow>
     build_values vs b = Some (append_values (concat (map enc_value vs)) (length vs) b)"
proof (induction v b and vs b rule: build_value_build_values.induct)
  case (1 t pl vs b)
  have str: "gw_write_str pl growable_new = Some (growable_append (enc_str (length pl) @ pl) growable_new)"
    if "length pl < 2 ^ 32"
    using that
    by (simp add: gw_write_str_def growable_encode_emit contracts length_enc emit_len_def growable_append2)
  have cnt: "unat n < 2 ^ 32" for n :: u32
    using unat_u32_less [of n] by simp
  show ?case
  proof (cases t)
    case (Tag_Array n)
    with 1 show ?thesis
      using complete_frame(1) [OF cnt [of n]] by (simp add: append_value_values)
  next
    case (Tag_Map n)
    with 1 show ?thesis
      using complete_frame(2) [OF cnt [of n]] by (simp add: append_value_values)
  next
    case (Tag_Str n)
    with 1 show ?thesis
      using str cnt [of n] by (simp add: b_write_str_def encoded_new append_value_values)
  qed (use 1 in \<open>simp_all add: b_write_nil_def b_write_bool_def b_write_u64_def b_write_i64_def
      write_value_def contracts encoded_new append_value_values\<close>)
qed (simp_all add: append_values_0 append_values_append)

text \<open>C5. Building any value of nils, booleans, integers, strings, arrays and maps from a fresh builder
  never fails or panics, and finishing gives the canonical encoding of the value: the element
  counts the builder computes are the right ones at every level.\<close>

theorem builder_builds_canonical_encoding:
  assumes "wf_value v" and "buildable v"
  shows "\<exists>b. build_value v builder_new = Some b \<and> builder_finish b = Inr (enc_value v)"
  using build_values_append(1) [OF assms, of builder_new]
  by (simp add: append_values_def builder_new_def builder_finish_def growable_append_def
      growable_into_vec_def growable_new_def default_error_def)

theorem builder_builds_canonical_encoding_witness:
  "\<exists>b. build_value (MValue (Tag_Array 1) [] [MValue Tag_Nil [] []]) builder_new = Some b
     \<and> builder_finish b = Inr [0x91, 0xc0]"
  using builder_builds_canonical_encoding [of "MValue (Tag_Array 1) [] [MValue Tag_Nil [] []]"]
  by (simp add: enc_array_def)

text \<open>A string of \<open>2 ^ 32\<close> bytes or more has no MessagePack format; the builder drops the error of
  its scratch writer, so such a string is counted as an element although no byte of it is
  appended: the map or array completed afterwards announces one element more than it holds.\<close>

theorem builder_drops_string_error:
  assumes "2 ^ 32 \<le> length val"
  shows "b_write_str val (build_array builder_new)
      = Some (append_values [] 1 (build_array builder_new))
    \<and> (\<exists>b. complete_array (append_values [] 1 (build_array builder_new)) = Some (Inr (), b)
         \<and> builder_finish b = Inr [0x91])"
proof -
  have "gw_write_str val growable_new = Some (growable_new\<lparr>g_error := Err_TooBig\<rparr>)"
    using assms
    by (simp add: gw_write_str_def growable_encode_too_big contracts emit_len_def growable_append_def)
      (simp add: growable_new_def default_error_def)
  moreover have "g_bytes (growable_new\<lparr>g_error := Err_TooBig\<rparr>) = []"
    by (simp add: growable_new_def)
  ultimately have "b_write_str val (build_array builder_new)
      = Some (append_values [] 1 (build_array builder_new))"
    by (simp add: b_write_str_def append_value_values)
  moreover have "\<exists>b. complete_array (append_values [] 1 (build_array builder_new)) = Some (Inr (), b)
         \<and> builder_finish b = Inr [0x91]"
    by (simp add: complete_frame append_value_values enc_array_def)
      (simp add: append_values_def builder_new_def builder_finish_def growable_append_def
        growable_into_vec_def growable_new_def default_error_def)
  ultimately show ?thesis ..
qed

theorem builder_drops_string_error_witness:
  "b_write_str (replicate (2 ^ 32) 0) (build_array builder_new)
     = Some (append_values [] 1 (build_array builder_new))"
  using builder_drops_string_error [of "replicate (2 ^ 32) 0"] by (simp only: length_replicate)

end
