(* ===== verification/Reader_Discard.thy ===== *)
theory Reader_Discard
  imports Reader_Typed Value_Format
begin

section \<open>\<open>discard\<close> consumes exactly one value\<close>

text \<open>
  \<open>discard\<close> against the grammar of values: it accepts an input exactly when the input starts with
  the encoding of a value whose nesting fits the call stack, and then it stops right after that
  encoding. A stack deeper than the number of bytes left is always enough.
\<close>

subsection \<open>The loops over the elements\<close>

lemma discard_sticky: "r_error r \<noteq> Err_Ok \<Longrightarrow> discard (Suc d) r = Some r"
  by (simp add: reading.sticky)

lemma discard_pairs_elements: "discard_pairs (discard d) n r = discard_elements (discard d) (2 * n) r"
proof (cases d)
  case 0
  then show ?thesis by (cases n) simp_all
next
  case (Suc d')
  show ?thesis
    unfolding Suc
  proof (induction n arbitrary: r)
    case (Suc n)
    show ?case
    proof (cases "discard (Suc d') r")
      case None
      then show ?thesis by (simp del: discard.simps)
    next
      case (Some r1)
      show ?thesis
      proof (cases "r_error r1 = Err_Ok")
        case False
        then show ?thesis
          using Some discard_sticky [OF False, of d'] by (simp del: discard.simps)
      next
        case True
        then show ?thesis
          using Some Suc by (simp del: discard.simps cong: if_cong)
      qed
    qed
  qed simp
qed

definition skipped :: "nat \<Rightarrow> reader \<Rightarrow> reader option" where
  "skipped n r = Some (snd (skip_bytes n r))"

text \<open>One level of \<open>discard\<close>: the header, the payload, the elements.\<close>

lemma discard_header:
  assumes "r_error r = Err_Ok" and "header hs t" and "unread r = hs @ rest"
  shows "discard (Suc d) r =
    (if payload_len t \<noteq> 0 then skipped (payload_len t) (advance (length hs) r)
     else discard_elements (discard d) (child_count t) (advance (length hs) r))"
proof -
  have "skip_bytes 0 (advance (length hs) r) = (True, advance (length hs) r)"
    using assms by (simp add: skip_bytes_ok)
  then show ?thesis
    using assms by (cases t) (auto simp: reading.accept discard_pairs_elements skipped_def)
qed

lemma discard_reject:
  assumes "r_error r = Err_Ok" and "\<not> has_header (unread r)"
  shows "discard (Suc d) r = Some (flag_error Err_Invalid (advance (reject_skip True (unread r)) r))"
  using assms by (simp add: reading.reject)

lemma payload_or_children: "payload_len t \<noteq> 0 \<Longrightarrow> child_count t = 0"
  by (cases t) auto

declare discard.simps [simp del]

lemma skipped_ok:
  "r_error r = Err_Ok \<Longrightarrow>
     skipped n r = Some (if n \<le> length (unread r) then advance n r else flag_error Err_Invalid r)"
  by (simp add: skipped_def skip_bytes_ok)

subsection \<open>Completeness\<close>

lemma discard_complete_aux:
  "value_bytes bs v \<Longrightarrow> r_error r = Err_Ok \<Longrightarrow> unread r = bs @ rest \<Longrightarrow> height v \<le> d \<Longrightarrow>
     discard d r = Some (advance (length bs) r)"
  "values_bytes bs vs \<Longrightarrow> r_error r = Err_Ok \<Longrightarrow> unread r = bs @ rest \<Longrightarrow> \<forall>v\<in>set vs. height v \<le> d \<Longrightarrow>
     discard_elements (discard d) (length vs) r = Some (advance (length bs) r)"
proof (induction arbitrary: r rest d and r rest d rule: value_bytes_values_bytes.inducts)
  case (one_value hs t pl vs bs)
  obtain d' where d: "d = Suc d'"
    using one_value.prems(3) height_pos [of "MValue t pl vs"] by (cases d) auto
  have vs: "\<forall>v\<in>set vs. height v \<le> d'"
    using one_value.prems(3) by (simp only: d height_children)
  have 1: "discard d r = (if payload_len t \<noteq> 0 then skipped (payload_len t) (advance (length hs) r)
     else discard_elements (discard d') (child_count t) (advance (length hs) r))"
    unfolding d by (rule discard_header [OF one_value.prems(1) one_value(1)])
      (use one_value.prems(2) in simp)
  show ?case
  proof (cases "payload_len t = 0")
    case False
    then have "vs = []" "bs = []"
      using one_value(3,4) payload_or_children [OF False] by auto
    with False 1 one_value show ?thesis by (simp add: skipped_ok)
  next
    case True
    with one_value(2) have "pl = []" by simp
    with one_value.IH [of "advance (length hs) r" rest d'] 1 True one_value(3) one_value.prems vs
    show ?thesis by simp
  qed
next
  case (more_values bs v bs' vs)
  from more_values.IH(1) [of r "bs' @ rest" d] more_values.prems
  have "discard d r = Some (advance (length bs) r)" by simp
  moreover from more_values.IH(2) [of "advance (length bs) r" rest d] more_values.prems
  have "discard_elements (discard d) (length vs) (advance (length bs) r)
        = Some (advance (length bs + length bs') r)" by simp
  ultimately show ?case
    using more_values.prems(1) by simp
qed simp

text \<open>A value that is nested deeper than the call stack makes \<open>discard\<close> abort.\<close>

lemma discard_too_deep:
  "value_bytes bs v \<Longrightarrow> r_error r = Err_Ok \<Longrightarrow> unread r = bs @ rest \<Longrightarrow> d < height v \<Longrightarrow> discard d r = None"
  "values_bytes bs vs \<Longrightarrow> r_error r = Err_Ok \<Longrightarrow> unread r = bs @ rest \<Longrightarrow> \<exists>v\<in>set vs. d < height v \<Longrightarrow>
     discard_elements (discard d) (length vs) r = None"
proof (induction arbitrary: r rest d and r rest d rule: value_bytes_values_bytes.inducts)
  case (one_value hs t pl vs bs)
  show ?case
  proof (cases d)
    case 0
    then show ?thesis by (simp add: discard.simps)
  next
    case (Suc d')
    have deep: "\<exists>v\<in>set vs. d' < height v"
      using one_value.prems(3) height_children [of t pl vs d'] Suc by (auto simp: not_le)
    then have "vs \<noteq> []"
      by auto
    then have "child_count t \<noteq> 0"
      using one_value(3) by (cases vs) auto
    then have "payload_len t = 0"
      using payload_or_children [of t] by (cases "payload_len t = 0") simp_all
    moreover have "discard_elements (discard d') (length vs) (advance (length hs) r) = None"
      by (rule one_value.IH [OF _ _ deep]) (use one_value.prems one_value(2) \<open>payload_len t = 0\<close> in simp_all)
    ultimately show ?thesis
      using discard_header [OF one_value.prems(1) one_value(1), of "pl @ bs @ rest" d'] one_value.prems(2) one_value(3) Suc
      by simp
  qed
next
  case (more_values bs v bs' vs)
  show ?case
  proof (cases "d < height v")
    case True
    with more_values.IH(1) [of r "bs' @ rest" d] more_values.prems show ?thesis by simp
  next
    case False
    then have "discard d r = Some (advance (length bs) r)"
      using discard_complete_aux(1) [OF more_values(1), of r "bs' @ rest" d] more_values.prems by simp
    moreover have "discard_elements (discard d) (length vs) (advance (length bs) r) = None"
      by (rule more_values.IH(2) [of _ rest]) (use more_values.prems False in auto)
    ultimately show ?thesis
      using more_values.prems(1) by simp
  qed
qed simp

subsection \<open>Soundness\<close>

lemma discard_elements_sound:
  assumes one: "\<And>r r'. r_error r = Err_Ok \<Longrightarrow> f r = Some r' \<Longrightarrow> r_error r' = Err_Ok \<Longrightarrow>
      \<exists>bs v rest. value_bytes bs v \<and> unread r = bs @ rest \<and> r' = advance (length bs) r \<and> height v \<le> d"
  shows "r_error r = Err_Ok \<Longrightarrow> discard_elements f n r = Some r' \<Longrightarrow> r_error r' = Err_Ok \<Longrightarrow>
      \<exists>bs vs rest. values_bytes bs vs \<and> length vs = n \<and> unread r = bs @ rest
        \<and> r' = advance (length bs) r \<and> (\<forall>v\<in>set vs. height v \<le> d)"
proof (induction n arbitrary: r)
  case 0
  then show ?case by (auto intro!: exI [of _ "[]"])
next
  case (Suc n)
  from Suc.prems obtain r1 where r1: "f r = Some r1" "r_error r1 = Err_Ok"
      "discard_elements f n r1 = Some r'"
    by (auto simp: bind_eq_Some_conv split: if_splits)
  from one [OF Suc.prems(1) r1(1,2)] obtain bs v rest
    where v: "value_bytes bs v" "unread r = bs @ rest" "r1 = advance (length bs) r" "height v \<le> d"
    by blast
  from Suc.IH [OF r1(2,3) Suc.prems(3)] obtain bs' vs rest'
    where vs: "values_bytes bs' vs" "length vs = n" "unread r1 = bs' @ rest'"
      "r' = advance (length bs') r1" "\<forall>v\<in>set vs. height v \<le> d"
    by blast
  have "values_bytes (bs @ bs') (v # vs)"
    using v(1) vs(1) by (rule more_values)
  moreover have "unread r = (bs @ bs') @ rest'" "r' = advance (length (bs @ bs')) r"
    using v vs by simp_all
  ultimately show ?case
    using vs v by (intro exI [of _ "bs @ bs'"] exI [of _ "v # vs"] exI [of _ rest'])
      (simp del: values_bytes_simps)
qed

lemma discard_sound_aux:
  "r_error r = Err_Ok \<Longrightarrow> discard d r = Some r' \<Longrightarrow> r_error r' = Err_Ok \<Longrightarrow>
    \<exists>bs v rest. value_bytes bs v \<and> unread r = bs @ rest \<and> r' = advance (length bs) r \<and> height v \<le> d"
proof (induction d arbitrary: r r')
  case 0
  then show ?case by (simp add: discard.simps)
next
  case (Suc d)
  show ?case
  proof (cases "has_header (unread r)")
    case False
    with Suc.prems show ?thesis
      using flag_error_bad [of Err_Invalid] by (auto simp: discard_reject)
  next
    case True
    then obtain hs t rest where h: "header hs t" "unread r = hs @ rest"
      by (auto simp: has_header_def)
    note level = discard_header [OF Suc.prems(1) h, of d]
    show ?thesis
    proof (cases "payload_len t = 0")
      case False
      with level Suc.prems have fits: "payload_len t \<le> length rest"
        and r': "r' = advance (length hs + payload_len t) r"
        by (auto simp: skipped_ok h split: if_splits)
      have "value_bytes (hs @ take (payload_len t) rest @ []) (MValue t (take (payload_len t) rest) [])"
        using h(1) fits payload_or_children [OF False] by (intro one_value) simp_all
      then show ?thesis
        using h(2) fits r'
        by (intro exI [of _ "hs @ take (payload_len t) rest"]
            exI [of _ "MValue t (take (payload_len t) rest) []"] exI [of _ "drop (payload_len t) rest"])
          (simp add: height_children)
    next
      case True
      with level Suc.prems(2)
      have run: "discard_elements (discard d) (child_count t) (advance (length hs) r) = Some r'" by simp
      from discard_elements_sound [OF Suc.IH _ run Suc.prems(3)] Suc.prems(1)
      obtain bs vs rest' where vs: "values_bytes bs vs" "length vs = child_count t"
          "unread (advance (length hs) r) = bs @ rest'"
          "r' = advance (length bs) (advance (length hs) r)" "\<forall>v\<in>set vs. height v \<le> d"
        by fastforce
      have "value_bytes (hs @ [] @ bs) (MValue t [] vs)"
        using h(1) True vs by (intro one_value) simp_all
      then show ?thesis
        using h(2) vs
        by (intro exI [of _ "hs @ bs"] exI [of _ "MValue t [] vs"] exI [of _ rest'])
          (simp add: height_children)
    qed
  qed
qed

subsection \<open>Totality and the only error\<close>

lemma discard_elements_total:
  assumes one: "\<And>r. length (unread r) < d \<Longrightarrow> r_error r = Err_Ok \<Longrightarrow>
      \<exists>r'. f r = Some r' \<and> advances r r' \<and> r_error r' \<in> {Err_Ok, Err_Invalid}"
  shows "length (unread r) < d \<Longrightarrow> r_error r = Err_Ok \<Longrightarrow>
      \<exists>r'. discard_elements f n r = Some r' \<and> advances r r' \<and> r_error r' \<in> {Err_Ok, Err_Invalid}"
proof (induction n arbitrary: r)
  case (Suc n)
  from one [OF Suc.prems] obtain r1
    where r1: "f r = Some r1" "advances r r1" "r_error r1 \<in> {Err_Ok, Err_Invalid}"
    by blast
  show ?case
  proof (cases "r_error r1 = Err_Ok")
    case True
    have "length (unread r1) \<le> length (unread r)"
      using r1(2) by (auto simp: advances_def length_unread)
    with Suc.IH [of r1] Suc.prems True obtain r2
      where "discard_elements f n r1 = Some r2" "advances r1 r2" "r_error r2 \<in> {Err_Ok, Err_Invalid}"
      by auto
    with r1 True show ?thesis by (auto intro: advances_trans)
  qed (use r1 in auto)
qed simp

lemma discard_total_aux:
  "length (unread r) < d \<Longrightarrow> r_error r = Err_Ok \<Longrightarrow>
    \<exists>r'. discard d r = Some r' \<and> advances r r' \<and> r_error r' \<in> {Err_Ok, Err_Invalid}"
proof (induction d arbitrary: r)
  case (Suc d)
  show ?case
  proof (cases "has_header (unread r)")
    case False
    have "reject_skip True (unread r) \<le> length (unread r)"
      by (rule reading.skip_le)
    with Suc.prems have "advances r (advance (reject_skip True (unread r)) r)"
      by (simp add: advances_advance)
    then have "advances r (flag_error Err_Invalid (advance (reject_skip True (unread r)) r))"
      using advances_flag by (rule advances_trans)
    with False Suc.prems show ?thesis by (simp add: discard_reject flag_error_error)
  next
    case True
    then obtain hs t rest where h: "header hs t" "unread r = hs @ rest"
      by (auto simp: has_header_def)
    note level = discard_header [OF Suc.prems(2) h, of d]
    let ?r = "advance (length hs) r"
    have adv: "advances r ?r"
      using Suc.prems h by (simp add: advances_advance)
    show ?thesis
    proof (cases "payload_len t = 0")
      case False
      with level Suc.prems adv show ?thesis
        by (auto simp: skipped_ok h flag_error_error advances_advance
            intro: advances_trans [OF adv])
    next
      case True
      have "length (unread ?r) < d"
        using Suc.prems(1) h header_length [OF h(1)] by simp
      with discard_elements_total [OF Suc.IH, where r = ?r and n = "child_count t"] Suc.prems(2)
      obtain r' where "discard_elements (discard d) (child_count t) ?r = Some r'" "advances ?r r'"
          "r_error r' \<in> {Err_Ok, Err_Invalid}"
        by auto
      with True level adv show ?thesis by (auto intro: advances_trans)
    qed
  qed
qed simp

end
