(* ===== verification/Reader_Theorems.thy ===== *)
theory Reader_Theorems
  imports Reader_Discard Utf8_Spec
begin

section \<open>What the reader guarantees\<close>

text \<open>
  The properties of \<open>src/reader.rs\<close>: the tag decoder against the format relation, the contract of
  every read, the integer reads by value, the UTF-8 check, and \<open>discard\<close> against the grammar of
  values.
\<close>

text \<open>C1. \<open>read_tag\<close> accepts exactly the MessagePack headers: it yields the tag \<open>t\<close> when, and only
  when, the unread input starts with a header of \<open>t\<close>, and it moves exactly past that header.\<close>

theorem read_tag_exact:
  assumes "r_error r = Err_Ok"
  shows "read_tag r = Some (Some t, r') \<longleftrightarrow>
    (\<exists>hs rest. header hs t \<and> unread r = hs @ rest \<and> r' = advance (length hs) r)"
proof (cases "has_header (unread r)")
  case True
  then obtain hs t' rest where "header hs t'" "unread r = hs @ rest"
    by (auto simp: has_header_def)
  note h = this
  have run: "read_tag r = Some (Some t', advance (length hs) r)"
    by (rule reading.accept [OF assms h])
  show ?thesis
  proof (rule iffI)
    assume "read_tag r = Some (Some t, r')"
    with run h show "\<exists>hs rest. header hs t \<and> unread r = hs @ rest \<and> r' = advance (length hs) r"
      by (intro exI [of _ hs] exI [of _ rest]) simp
  next
    assume "\<exists>hs rest. header hs t \<and> unread r = hs @ rest \<and> r' = advance (length hs) r"
    then show "read_tag r = Some (Some t, r')"
      using reading.accept [OF assms] by blast
  qed
next
  case False
  with assms show ?thesis
    by (auto simp: reading.reject has_header_def)
qed

theorem read_tag_exact_witness:
  "read_tag (reader_new [0xcd, 1, 2, 7]) = Some (Some (Tag_Uint 258), advance 3 (reader_new [0xcd, 1, 2, 7]))"
proof -
  have "to_be_bytes (258 :: u16) = [1, 2]"
    by code_simp
  then have "header [0xcd, 1, 2] (Tag_Uint 258)"
    using uint16 [of 258] by simp
  moreover have "unread (reader_new [0xcd, 1, 2, 7]) = [0xcd, 1, 2] @ [7]"
    by (simp add: unread_def reader_new_def)
  moreover have "r_error (reader_new [0xcd, 1, 2, 7]) = Err_Ok"
    by (simp add: reader_new_def)
  ultimately have "read_tag (reader_new [0xcd, 1, 2, 7])
    = Some (Some (Tag_Uint 258), advance (length [0xcd, 1, 2 :: u8]) (reader_new [0xcd, 1, 2, 7]))"
    using read_tag_exact by blast
  then show ?thesis by simp
qed

text \<open>C25. Every read of the reader meets the contract \<open>reads\<close>: from a well-formed reader it never
  panics, never changes the input, never moves backwards or past the end, leaves a reader in error
  exactly as it was, and yields a value exactly when no error is set afterwards.\<close>

theorem reader_operations_contract:
  "reads read_tag \<and> reads peek_tag \<and> reads read_bool \<and> reads read_u64 \<and> reads read_i64
   \<and> reads read_f32 \<and> reads read_f64 \<and> reads read_str_header \<and> reads read_bin_header
   \<and> reads read_array_header \<and> reads read_map_header \<and> reads read_ext_header
   \<and> reads (read_bytes n) \<and> reads (read_bytes_utf8 n) \<and> reads read_native_u8
   \<and> reads read_native_u16 \<and> reads read_native_u32 \<and> reads (read_timestamp sz)"
  by (simp add: contracts)

text \<open>The 64-bit integer reads work on the value and not on the format: an integer of either
  signedness is read when it is representable in the requested type, with its mathematical value,
  and is a type error otherwise.\<close>

theorem read_integers_by_value:
  assumes "r_error r = Err_Ok" and "header hs t" and "unread r = hs @ rest"
    and "tag_integer t = Some k"
  shows "read_u64 r =
      (if 0 \<le> k then Some (Some (word_of_int k), advance (length hs) r)
       else Some (None, flag_error Err_Type (advance (length hs) r)))
    \<and> read_i64 r =
      (if k < 2 ^ 63 then Some (Some (word_of_int k), advance (length hs) r)
       else Some (None, flag_error Err_Type (advance (length hs) r)))"
proof -
  note some = reading.select_value [OF assms(1-3)] and none = reading.select_mismatch [OF assms(1-3)]
  show ?thesis
    unfolding typed_select
    using some [of tag_u64 "word_of_int k"] none [of tag_u64]
      some [of tag_i64 "word_of_int k"] none [of tag_i64] assms(4)
    by (simp add: tag_u64_integer tag_i64_integer split: if_split)
qed

theorem read_integers_by_value_witness:
  "read_u64 (reader_new [0xd0, 0x80]) =
     Some (None, flag_error Err_Type (advance 2 (reader_new [0xd0, 0x80])))"
proof -
  have "header [0xd0, 0x80] (Tag_Int (scast (0x80 :: i8)))"
    using int8 [of "0x80"] by simp
  moreover have "tag_integer (Tag_Int (scast (0x80 :: i8))) = Some (- 128)"
    by (simp add: tag_integer_def)
  moreover have "unread (reader_new [0xd0, 0x80]) = [0xd0, 0x80] @ []" "r_error (reader_new [0xd0, 0x80]) = Err_Ok"
    by (simp_all add: unread_def reader_new_def)
  moreover have "advance 2 (reader_new [0xd0, 0x80]) = advance (length [0xd0, 0x80 :: u8]) (reader_new [0xd0, 0x80])"
    by simp
  ultimately show ?thesis
    using read_integers_by_value [of "reader_new [0xd0, 0x80]" "[0xd0, 0x80]" _ "[]" "- 128"]
    by (simp only:) simp
qed

text \<open>C27. The UTF-8 check accepts exactly the byte sequences that are concatenations of encodings of
  Unicode scalar values (no surrogates, no overlong forms, nothing above \<open>0x10ffff\<close>); the variant
  for C strings accepts those without the scalar zero.\<close>

theorem check_utf8_exact:
  "(check_utf8 bs \<longleftrightarrow> (\<exists>cs. (\<forall>c. c \<in> set cs \<longrightarrow> scalar c) \<and> bs = concat (map utf8_encode cs)))
   \<and> (check_utf8_no_null bs \<longleftrightarrow>
        (\<exists>cs. (\<forall>c. c \<in> set cs \<longrightarrow> scalar c \<and> c \<noteq> 0) \<and> bs = concat (map utf8_encode cs)))"
  by (simp add: check_utf8_def check_utf8_no_null_def check_utf8_iff encoded_text_def Ball_def)

theorem check_utf8_exact_witness:
  "\<not> check_utf8 [0xc0, 0x80] \<and> check_utf8 (utf8_encode 0x20ac)"
proof -
  have "check_utf8 (utf8_encode 0x20ac)"
    using check_utf8_exact [of "utf8_encode 0x20ac"]
    by (auto simp: scalar_def intro!: exI [of _ "[0x20ac]"])
  moreover have "\<not> check_utf8 [0xc0, 0x80]"
    by (simp add: check_utf8_def check_utf8_impl_def check_utf8_from.simps is_cont_def Let_def)
  ultimately show ?thesis by simp
qed

text \<open>C4. \<open>discard\<close> succeeds exactly on the inputs that start with the encoding of one whole value
  whose nesting the call stack can hold, and then it stops right after that encoding.\<close>

theorem discard_exact:
  assumes "r_error r = Err_Ok" and "r_error r' = Err_Ok"
  shows "discard depth r = Some r' \<longleftrightarrow>
    (\<exists>bs v rest. value_bytes bs v \<and> height v \<le> depth \<and> unread r = bs @ rest
       \<and> r' = advance (length bs) r)"
  using assms discard_sound_aux [OF assms(1) _ assms(2), of depth] discard_complete_aux(1) [of _ _ r _ depth]
  by blast

theorem discard_exact_witness:
  "discard 2 (reader_new [0x91, 0xc0, 7]) = Some (advance 2 (reader_new [0x91, 0xc0, 7]))"
proof -
  have "value_bytes ([0x91] @ [] @ [0xc0]) (MValue (Tag_Array 1) [] [MValue Tag_Nil [] []])"
    using fixarray [of 1] one_value [OF header.nil, of "[]" "[]" "[]"]
    by (intro one_value) (auto intro!: exI [of _ "[0xc0]"])
  moreover have "height (MValue (Tag_Array 1) [] [MValue Tag_Nil [] []]) \<le> 2"
    by (simp add: height.simps)
  moreover have "r_error (reader_new [0x91, 0xc0, 7]) = Err_Ok"
    "unread (reader_new [0x91, 0xc0, 7]) = [0x91, 0xc0] @ [7]"
    by (simp_all add: reader_new_def unread_def)
  ultimately have "discard 2 (reader_new [0x91, 0xc0, 7])
    = Some (advance (length [0x91, 0xc0 :: u8]) (reader_new [0x91, 0xc0, 7]))"
    using discard_exact [of "reader_new [0x91, 0xc0, 7]" "advance 2 (reader_new [0x91, 0xc0, 7])" 2]
    by (metis advance_fields(2) append_Cons append_Nil discard_exact)
  then show ?thesis by (simp add: numeral_2_eq_2)
qed

text \<open>With a call stack deeper than the number of unread bytes, \<open>discard\<close> always returns, moves
  only forwards and within the input, and the only error it can raise is \<open>Invalid\<close>.\<close>

theorem discard_total:
  assumes "wf_reader r" and "r_error r = Err_Ok" and "length (unread r) < depth"
  shows "\<exists>r'. discard depth r = Some r' \<and> wf_reader r' \<and> r_data r' = r_data r
    \<and> r_position r \<le> r_position r' \<and> (r_error r' = Err_Ok \<or> r_error r' = Err_Invalid)"
  using discard_total_aux [OF assms(3,2)] assms(1) by (auto simp: advances_def)

theorem discard_total_witness:
  "\<exists>r'. discard 4 (reader_new [0x92, 0xc0, 0xd9]) = Some r' \<and> wf_reader r'"
  using discard_total [of "reader_new [0x92, 0xc0, 0xd9]" 4]
  by (auto simp: reader_new_def wf_reader_def unread_def)

text \<open>The recursion of \<open>discard\<close> is as deep as the input nests: a message of \<open>n\<close> one-element
  arrays around a nil exhausts any call stack of at most \<open>n\<close> calls, although the message is valid
  and only \<open>n + 1\<close> bytes long.\<close>

theorem discard_deep_nesting_aborts:
  assumes "depth \<le> n"
  shows "discard depth (reader_new (replicate n 0x91 @ [0xc0])) = None
    \<and> (\<exists>v. value_bytes (replicate n 0x91 @ [0xc0]) v)"
proof -
  have "\<exists>v. value_bytes (replicate n 0x91 @ [0xc0]) v"
  proof (induction n)
    case 0
    show ?case
      using one_value [OF header.nil, of "[]" "[]" "[]"] by auto
  next
    case (Suc n)
    then obtain v where "value_bytes (replicate n 0x91 @ [0xc0]) v" ..
    then have "value_bytes ([0x91] @ [] @ (replicate n 0x91 @ [0xc0])) (MValue (Tag_Array 1) [] [v])"
      using fixarray [of 1] by (intro one_value) (auto intro!: exI [of _ "replicate n 0x91 @ [0xc0]"])
    then show ?case by auto
  qed
  moreover have "discard depth r = None"
    if "r_error r = Err_Ok" "unread r = replicate n 0x91 @ [0xc0]" "depth \<le> n" for r
    using that
  proof (induction depth arbitrary: r n)
    case 0
    then show ?case by (simp add: discard.simps)
  next
    case (Suc depth)
    then obtain m where m: "n = Suc m" by (cases n) auto
    have "discard (Suc depth) r
        = discard_elements (discard depth) 1 (advance 1 r)"
      using discard_header [of r "[0x91]" "Tag_Array 1" "replicate m 0x91 @ [0xc0]" depth] fixarray [of 1]
        Suc.prems m by simp
    also have "\<dots> = None"
      using Suc.IH [of "advance 1 r" m] Suc.prems m by simp
    finally show ?case .
  qed
  ultimately show ?thesis
    using assms by (simp add: reader_new_def unread_def)
qed

theorem discard_deep_nesting_aborts_witness:
  "discard 3 (reader_new [0x91, 0x91, 0x91, 0xc0]) = None"
  using discard_deep_nesting_aborts [of 3 3] by (simp add: numeral_3_eq_3)

end
