(* ===== verification/Expect.thy ===== *)
theory Expect
  imports Reader_Ops
begin

section \<open>Schema-typed reads (\<open>src/expect.rs\<close>)\<close>

text \<open>
  The free functions over \<open>&mut Reader\<close>. The macros \<open>expect_uint!\<close>, \<open>expect_int!\<close> and their range
  variants are definitions over every word length, the functions they generate their instances.
  A function with a second mutable argument (a byte buffer, the \<open>found\<close> flags) works on the pair
  of the reader and that argument; \<open>on_reader\<close> runs a reader operation on such a pair.
\<close>

record expect_compound =
  is_nil :: bool
  compound_len :: u32

definition too_big :: "reader \<Rightarrow> ('a option \<times> reader) option" where
  "too_big r = Some (None, flag_error Err_TooBig r)"

definition fail_bool :: "reader \<Rightarrow> (bool \<times> reader) option" where
  "fail_bool r = Some (False, flag_error Err_Type r)"

definition fail_too_big :: "reader \<Rightarrow> (bool \<times> reader) option" where
  "fail_too_big r = Some (False, flag_error Err_TooBig r)"

subsection \<open>Integers\<close>

definition read_i64_value :: "reader \<Rightarrow> (i64 option \<times> reader) option" where
  "read_i64_value r = try_opt (read_tag r) (\<lambda>t r.
     case t of
       Tag_Int v \<Rightarrow> Some (Some v, r)
     | Tag_Uint v \<Rightarrow> if unat v < 2 ^ 63 then Some (Some v, r) else type_error r
     | _ \<Rightarrow> type_error r)"

definition read_u64_value :: "reader \<Rightarrow> (u64 option \<times> reader) option" where
  "read_u64_value r = try_opt (read_tag r) (\<lambda>t r.
     case t of
       Tag_Uint v \<Rightarrow> Some (Some v, r)
     | Tag_Int v \<Rightarrow> if 0 \<le> sint v then Some (Some v, r) else type_error r
     | _ \<Rightarrow> type_error r)"

definition expect_uint :: "reader \<Rightarrow> ('a::len word option \<times> reader) option" where
  "expect_uint r = try_opt (read_u64_value r) (\<lambda>v r.
     if unat v \<le> 2 ^ LENGTH('a) - 1 then Some (Some (ucast v), r) else type_error r)"

definition expect_int :: "reader \<Rightarrow> ('a::len word option \<times> reader) option" where
  "expect_int r = try_opt (read_i64_value r) (\<lambda>v r.
     if - (2 ^ (LENGTH('a) - 1)) \<le> sint v \<and> sint v \<le> 2 ^ (LENGTH('a) - 1) - 1
     then Some (Some (ucast v), r) else type_error r)"

definition expect_uint_range ::
  "(reader \<Rightarrow> ('a::len word option \<times> reader) option) \<Rightarrow> 'a word \<Rightarrow> 'a word
     \<Rightarrow> reader \<Rightarrow> ('a word option \<times> reader) option"
where
  "expect_uint_range base min_value max_value r = try_opt (base r) (\<lambda>v r.
     if unat min_value \<le> unat v \<and> unat v \<le> unat max_value then Some (Some v, r) else type_error r)"

definition expect_int_range ::
  "(reader \<Rightarrow> ('a::len word option \<times> reader) option) \<Rightarrow> 'a word \<Rightarrow> 'a word
     \<Rightarrow> reader \<Rightarrow> ('a word option \<times> reader) option"
where
  "expect_int_range base min_value max_value r = try_opt (base r) (\<lambda>v r.
     if sint min_value \<le> sint v \<and> sint v \<le> sint max_value then Some (Some v, r) else type_error r)"

definition expect_u8 :: "reader \<Rightarrow> (u8 option \<times> reader) option" where "expect_u8 = expect_uint"
definition expect_u16 :: "reader \<Rightarrow> (u16 option \<times> reader) option" where "expect_u16 = expect_uint"
definition expect_u32 :: "reader \<Rightarrow> (u32 option \<times> reader) option" where "expect_u32 = expect_uint"
definition expect_u64 :: "reader \<Rightarrow> (u64 option \<times> reader) option" where "expect_u64 = expect_uint"
definition expect_i8 :: "reader \<Rightarrow> (i8 option \<times> reader) option" where "expect_i8 = expect_int"
definition expect_i16 :: "reader \<Rightarrow> (i16 option \<times> reader) option" where "expect_i16 = expect_int"
definition expect_i32 :: "reader \<Rightarrow> (i32 option \<times> reader) option" where "expect_i32 = expect_int"
definition expect_i64 :: "reader \<Rightarrow> (i64 option \<times> reader) option" where "expect_i64 = expect_int"

definition expect_u8_range :: "u8 \<Rightarrow> u8 \<Rightarrow> reader \<Rightarrow> (u8 option \<times> reader) option" where
  "expect_u8_range = expect_uint_range expect_u8"
definition expect_u16_range :: "u16 \<Rightarrow> u16 \<Rightarrow> reader \<Rightarrow> (u16 option \<times> reader) option" where
  "expect_u16_range = expect_uint_range expect_u16"
definition expect_u32_range :: "u32 \<Rightarrow> u32 \<Rightarrow> reader \<Rightarrow> (u32 option \<times> reader) option" where
  "expect_u32_range = expect_uint_range expect_u32"
definition expect_u64_range :: "u64 \<Rightarrow> u64 \<Rightarrow> reader \<Rightarrow> (u64 option \<times> reader) option" where
  "expect_u64_range = expect_uint_range expect_u64"
definition expect_i8_range :: "i8 \<Rightarrow> i8 \<Rightarrow> reader \<Rightarrow> (i8 option \<times> reader) option" where
  "expect_i8_range = expect_int_range expect_i8"
definition expect_i16_range :: "i16 \<Rightarrow> i16 \<Rightarrow> reader \<Rightarrow> (i16 option \<times> reader) option" where
  "expect_i16_range = expect_int_range expect_i16"
definition expect_i32_range :: "i32 \<Rightarrow> i32 \<Rightarrow> reader \<Rightarrow> (i32 option \<times> reader) option" where
  "expect_i32_range = expect_int_range expect_i32"
definition expect_i64_range :: "i64 \<Rightarrow> i64 \<Rightarrow> reader \<Rightarrow> (i64 option \<times> reader) option" where
  "expect_i64_range = expect_int_range expect_i64"

subsection \<open>Floats\<close>

definition expect_float :: "reader \<Rightarrow> (f32 option \<times> reader) option" where
  "expect_float r = try_opt (read_tag r) (\<lambda>t r.
     case t of
       Tag_Float v \<Rightarrow> Some (Some v, r)
     | Tag_Double v \<Rightarrow> Some (Some (f64_to_f32 v), r)
     | Tag_Uint v \<Rightarrow> Some (Some (u64_to_f32 v), r)
     | Tag_Int v \<Rightarrow> Some (Some (i64_to_f32 v), r)
     | _ \<Rightarrow> type_error r)"

definition expect_double :: "reader \<Rightarrow> (f64 option \<times> reader) option" where
  "expect_double r = try_opt (read_tag r) (\<lambda>t r.
     case t of
       Tag_Float v \<Rightarrow> Some (Some (f32_to_f64 v), r)
     | Tag_Double v \<Rightarrow> Some (Some v, r)
     | Tag_Uint v \<Rightarrow> Some (Some (u64_to_f64 v), r)
     | Tag_Int v \<Rightarrow> Some (Some (i64_to_f64 v), r)
     | _ \<Rightarrow> type_error r)"

definition expect_float_strict :: "reader \<Rightarrow> (f32 option \<times> reader) option" where
  "expect_float_strict r = try_opt (read_tag r) (\<lambda>t r.
     case t of Tag_Float v \<Rightarrow> Some (Some v, r) | _ \<Rightarrow> type_error r)"

definition expect_double_strict :: "reader \<Rightarrow> (f64 option \<times> reader) option" where
  "expect_double_strict r = try_opt (read_tag r) (\<lambda>t r.
     case t of
       Tag_Float v \<Rightarrow> Some (Some (f32_to_f64 v), r)
     | Tag_Double v \<Rightarrow> Some (Some v, r)
     | _ \<Rightarrow> type_error r)"

definition expect_float_range :: "f32 \<Rightarrow> f32 \<Rightarrow> reader \<Rightarrow> (f32 option \<times> reader) option" where
  "expect_float_range min_value max_value r = try_opt (expect_float r) (\<lambda>v r.
     if f32_less v min_value \<or> f32_less max_value v then type_error r else Some (Some v, r))"

definition expect_double_range :: "f64 \<Rightarrow> f64 \<Rightarrow> reader \<Rightarrow> (f64 option \<times> reader) option" where
  "expect_double_range min_value max_value r = try_opt (expect_double r) (\<lambda>v r.
     if f64_less v min_value \<or> f64_less max_value v then type_error r else Some (Some v, r))"

subsection \<open>Matches, nil and booleans\<close>

definition expect_uint_match :: "u64 \<Rightarrow> reader \<Rightarrow> (bool \<times> reader) option" where
  "expect_uint_match val r = do {
     (got, r) \<leftarrow> expect_u64 r;
     (case got of
        Some v \<Rightarrow> if v = val then Some (True, r) else fail_bool r
      | None \<Rightarrow> Some (False, r))
   }"

definition expect_int_match :: "i64 \<Rightarrow> reader \<Rightarrow> (bool \<times> reader) option" where
  "expect_int_match val r = do {
     (got, r) \<leftarrow> expect_i64 r;
     (case got of
        Some v \<Rightarrow> if v = val then Some (True, r) else fail_bool r
      | None \<Rightarrow> Some (False, r))
   }"

definition expect_nil :: "reader \<Rightarrow> (bool \<times> reader) option" where
  "expect_nil r = do {
     (b, r) \<leftarrow> read_native_u8 r;
     (case b of
        Some v \<Rightarrow> if v = 0xc0 then Some (True, r) else fail_bool r
      | None \<Rightarrow> Some (False, r))
   }"

definition expect_bool :: "reader \<Rightarrow> (bool option \<times> reader) option" where
  "expect_bool r = try_opt (read_native_u8 r) (\<lambda>b r.
     if b AND NOT 1 \<noteq> 0xc2 then type_error r else Some (Some (b AND 1 \<noteq> 0), r))"

definition expect_true :: "reader \<Rightarrow> (bool \<times> reader) option" where
  "expect_true r = do {
     (got, r) \<leftarrow> expect_bool r;
     (case got of
        Some True \<Rightarrow> Some (True, r) | Some False \<Rightarrow> fail_bool r | None \<Rightarrow> Some (False, r))
   }"

definition expect_false :: "reader \<Rightarrow> (bool \<times> reader) option" where
  "expect_false r = do {
     (got, r) \<leftarrow> expect_bool r;
     (case got of
        Some False \<Rightarrow> Some (True, r) | Some True \<Rightarrow> fail_bool r | None \<Rightarrow> Some (False, r))
   }"

subsection \<open>Extensions and timestamps\<close>

definition expect_ext :: "reader \<Rightarrow> ((i8 \<times> u32) option \<times> reader) option" where
  "expect_ext r = try_opt (read_tag r) (\<lambda>t r.
     case t of Tag_Ext ty len \<Rightarrow> Some (Some (ty, len), r) | _ \<Rightarrow> type_error r)"

definition timestamp_ext_type :: i8 where
  "timestamp_ext_type = - 1"

definition expect_timestamp :: "reader \<Rightarrow> (timestamp option \<times> reader) option" where
  "expect_timestamp r = try_opt (expect_ext r) (\<lambda>(ty, len) r.
     if ty \<noteq> timestamp_ext_type then type_error r else read_timestamp (unat len) r)"

definition expect_timestamp_truncate :: "reader \<Rightarrow> (i64 option \<times> reader) option" where
  "expect_timestamp_truncate r = do {
     (ts, r) \<leftarrow> expect_timestamp r;
     Some (map_option seconds ts, r)
   }"

subsection \<open>Maps and arrays\<close>

definition compound_count :: "bool \<Rightarrow> reader \<Rightarrow> (u32 option \<times> reader) option" where
  "compound_count want_map r = try_opt (read_tag r) (\<lambda>t r.
     case t of
       Tag_Map n \<Rightarrow> if want_map then Some (Some n, r) else type_error r
     | Tag_Array n \<Rightarrow> if \<not> want_map then Some (Some n, r) else type_error r
     | _ \<Rightarrow> type_error r)"

definition compound_range :: "bool \<Rightarrow> u32 \<Rightarrow> u32 \<Rightarrow> reader \<Rightarrow> (u32 option \<times> reader) option" where
  "compound_range want_map min_count max_count r = try_opt (compound_count want_map r) (\<lambda>n r.
     if unat min_count \<le> unat n \<and> unat n \<le> unat max_count then Some (Some n, r) else type_error r)"

definition compound_or_nil ::
  "bool \<Rightarrow> u32 option \<Rightarrow> reader \<Rightarrow> (expect_compound option \<times> reader) option"
where
  "compound_or_nil want_map max_count r = try_opt (peek_tag r) (\<lambda>t r.
     let counted = try_opt
           (case max_count of
              Some m \<Rightarrow> compound_range want_map 0 m r | None \<Rightarrow> compound_count want_map r)
           (\<lambda>n r. Some (Some \<lparr>is_nil = False, compound_len = n\<rparr>, r));
         rejected = do { (_, r) \<leftarrow> read_tag r; type_error r }
     in case t of
          Tag_Nil \<Rightarrow> do { (_, r) \<leftarrow> read_tag r; Some (Some \<lparr>is_nil = True, compound_len = 0\<rparr>, r) }
        | Tag_Map _ \<Rightarrow> if want_map then counted else rejected
        | Tag_Array _ \<Rightarrow> if \<not> want_map then counted else rejected
        | _ \<Rightarrow> rejected)"

definition expect_map :: "reader \<Rightarrow> (u32 option \<times> reader) option" where
  "expect_map r = compound_count True r"

definition expect_map_range :: "u32 \<Rightarrow> u32 \<Rightarrow> reader \<Rightarrow> (u32 option \<times> reader) option" where
  "expect_map_range min_count max_count r = compound_range True min_count max_count r"

definition expect_map_match :: "u32 \<Rightarrow> reader \<Rightarrow> (bool \<times> reader) option" where
  "expect_map_match n r = do {
     (got, r) \<leftarrow> expect_map r;
     (case got of
        Some v \<Rightarrow> if v = n then Some (True, r) else fail_bool r
      | None \<Rightarrow> Some (False, r))
   }"

definition expect_map_or_nil :: "reader \<Rightarrow> (expect_compound option \<times> reader) option" where
  "expect_map_or_nil r = compound_or_nil True None r"

definition expect_map_max_or_nil :: "u32 \<Rightarrow> reader \<Rightarrow> (expect_compound option \<times> reader) option" where
  "expect_map_max_or_nil max_count r = compound_or_nil True (Some max_count) r"

definition expect_array :: "reader \<Rightarrow> (u32 option \<times> reader) option" where
  "expect_array r = compound_count False r"

definition expect_array_range :: "u32 \<Rightarrow> u32 \<Rightarrow> reader \<Rightarrow> (u32 option \<times> reader) option" where
  "expect_array_range min_count max_count r = compound_range False min_count max_count r"

definition expect_array_match :: "u32 \<Rightarrow> reader \<Rightarrow> (bool \<times> reader) option" where
  "expect_array_match n r = do {
     (got, r) \<leftarrow> expect_array r;
     (case got of
        Some v \<Rightarrow> if v = n then Some (True, r) else fail_bool r
      | None \<Rightarrow> Some (False, r))
   }"

definition expect_array_or_nil :: "reader \<Rightarrow> (expect_compound option \<times> reader) option" where
  "expect_array_or_nil r = compound_or_nil False None r"

definition expect_array_max_or_nil :: "u32 \<Rightarrow> reader \<Rightarrow> (expect_compound option \<times> reader) option" where
  "expect_array_max_or_nil max_count r = compound_or_nil False (Some max_count) r"

section \<open>Schema-typed reads of bytes and keys (\<open>src/expect.rs\<close>)\<close>

text \<open>
  The strings, binaries and extensions that are copied into a caller's buffer, the comparison of
  tags, and the recognition of map keys. The functions with a second mutable argument work on the
  pair of the reader and the buffer (or the \<open>found\<close> flags).
\<close>

definition on_reader ::
  "(reader \<Rightarrow> ('a \<times> reader) option) \<Rightarrow> reader \<times> 'b \<Rightarrow> ('a \<times> reader \<times> 'b) option"
where
  "on_reader m s = (case s of (r, b) \<Rightarrow> do { (x, r) \<leftarrow> m r; Some (x, r, b) })"

subsection \<open>Strings\<close>

text \<open>The type byte is read on its own, so that a wrong type is seen before a truncation.\<close>

definition expect_str :: "reader \<Rightarrow> (u32 option \<times> reader) option" where
  "expect_str r = try_opt (read_native_u8 r) (\<lambda>type_byte r.
     if drop_bit 5 type_byte = 5 then Some (Some (ucast (type_byte AND NOT 0xe0)), r)
     else if type_byte = 0xd9 then
       try_opt (read_native_u8 r) (\<lambda>n r. Some (Some (ucast n), r))
     else if type_byte = 0xda then
       try_opt (read_native_u16 r) (\<lambda>n r. Some (Some (ucast n), r))
     else if type_byte = 0xdb then read_native_u32 r
     else type_error r)"

definition copy_bytes :: "u8 list \<Rightarrow> u8 list \<Rightarrow> (nat option \<times> u8 list) option" where
  "copy_bytes dst src =
     (if length src > length dst then Some (None, dst)
      else do { dst \<leftarrow> store_at dst 0 src; Some (Some (length src), dst) })"

definition copy_cstr :: "u8 list \<Rightarrow> u8 list \<Rightarrow> (bool \<times> u8 list) option" where
  "copy_cstr dst src =
     (if length src + 1 > length dst then Some (False, dst)
      else do {
        dst \<leftarrow> store_at dst 0 src;
        dst \<leftarrow> store_at dst (length src) [0];
        Some (True, dst)
      })"

definition copy_into :: "u8 list \<Rightarrow> reader \<times> u8 list \<Rightarrow> (nat option \<times> reader \<times> u8 list) option" where
  "copy_into bytes s = (case s of (r, buf) \<Rightarrow> do {
     (written, buf) \<leftarrow> copy_bytes buf bytes;
     Some (written, r, buf)
   })"

definition expect_str_buf :: "reader \<times> u8 list \<Rightarrow> (nat option \<times> reader \<times> u8 list) option" where
  "expect_str_buf s = try_opt (on_reader expect_str s) (\<lambda>len s.
     if unat len > length (snd s) then on_reader too_big s
     else try_opt (on_reader (read_bytes (unat len)) s) (\<lambda>bytes s. copy_into bytes s))"

definition expect_utf8 :: "reader \<times> u8 list \<Rightarrow> (nat option \<times> reader \<times> u8 list) option" where
  "expect_utf8 s = try_opt (on_reader expect_str s) (\<lambda>len s.
     if unat len > length (snd s) then on_reader too_big s
     else try_opt (on_reader (read_bytes (unat len)) s) (\<lambda>bytes s.
       try_opt (copy_into bytes s) (\<lambda>written s. do {
         text \<leftarrow> slice (snd s) 0 written;
         (if \<not> check_utf8 text then Some (None, flag_error Err_Type (fst s), snd s)
          else Some (Some written, s))
       })))"

primrec match_bytes :: "u8 list \<Rightarrow> reader \<Rightarrow> (bool \<times> reader) option" where
  "match_bytes [] r = Some (True, r)"
| "match_bytes (want # rest) r = do {
     (got, r) \<leftarrow> read_native_u8 r;
     (case got of
        Some b \<Rightarrow> if b = want then match_bytes rest r else fail_bool r
      | None \<Rightarrow> Some (False, r))
   }"

definition expect_str_match :: "u8 list \<Rightarrow> reader \<Rightarrow> (bool \<times> reader) option" where
  "expect_str_match expected r = do {
     (len, r) \<leftarrow> expect_str r;
     (case len of
        None \<Rightarrow> Some (False, r)
      | Some len \<Rightarrow>
          if unat len \<noteq> length expected then fail_bool r else match_bytes expected r)
   }"

definition expect_cstr :: "reader \<times> u8 list \<Rightarrow> (bool \<times> reader \<times> u8 list) option" where
  "expect_cstr s = (case s of (r, buf) \<Rightarrow>
     if buf = [] then Some (False, flag_error Err_Bug r, buf)
     else do {
       (len, r) \<leftarrow> expect_str r;
       (case len of
          None \<Rightarrow> Some (False, r, buf[0 := 0])
        | Some len \<Rightarrow>
            if unat len + 1 > length buf then on_reader fail_too_big (r, buf[0 := 0])
            else do {
              (bytes, r) \<leftarrow> read_bytes (unat len) r;
              (case bytes of
                 None \<Rightarrow> Some (False, r, buf[0 := 0])
               | Some bytes \<Rightarrow>
                   if 0 \<in> set bytes then on_reader fail_bool (r, buf[0 := 0])
                   else do {
                     (_, buf) \<leftarrow> copy_cstr buf bytes;
                     Some (True, r, buf)
                   })
            })
     })"

definition expect_utf8_cstr :: "reader \<times> u8 list \<Rightarrow> (bool \<times> reader \<times> u8 list) option" where
  "expect_utf8_cstr s = (case s of (r, buf) \<Rightarrow>
     if buf = [] then Some (False, flag_error Err_Bug r, buf)
     else do {
       (len, r) \<leftarrow> expect_str r;
       (case len of
          None \<Rightarrow> Some (False, r, buf[0 := 0])
        | Some len \<Rightarrow>
            if unat len + 1 > length buf then on_reader fail_too_big (r, buf[0 := 0])
            else do {
              (bytes, r) \<leftarrow> read_bytes (unat len) r;
              (case bytes of
                 None \<Rightarrow> Some (False, r, buf[0 := 0])
               | Some bytes \<Rightarrow>
                   if \<not> check_utf8_no_null bytes then on_reader fail_bool (r, buf[0 := 0])
                   else do {
                     (_, buf) \<leftarrow> copy_cstr buf bytes;
                     Some (True, r, buf)
                   })
            })
     })"

subsection \<open>Binaries and extensions\<close>

definition expect_bin :: "reader \<Rightarrow> (u32 option \<times> reader) option" where
  "expect_bin r = try_opt (read_tag r) (\<lambda>t r.
     case t of Tag_Bin len \<Rightarrow> Some (Some len, r) | _ \<Rightarrow> type_error r)"

definition expect_bin_buf :: "reader \<times> u8 list \<Rightarrow> (nat option \<times> reader \<times> u8 list) option" where
  "expect_bin_buf s = try_opt (on_reader expect_bin s) (\<lambda>len s.
     if unat len > length (snd s) then on_reader too_big s
     else try_opt (on_reader (read_bytes (unat len)) s) (\<lambda>bytes s. copy_into bytes s))"

definition expect_bin_size_buf ::
  "u32 \<Rightarrow> reader \<times> u8 list \<Rightarrow> (bool \<times> reader \<times> u8 list) option"
where
  "expect_bin_size_buf wanted s = do {
     (len, s) \<leftarrow> on_reader expect_bin s;
     (case len of
        None \<Rightarrow> Some (False, s)
      | Some len \<Rightarrow>
          if len \<noteq> wanted then on_reader fail_bool s
          else do {
            (bytes, s) \<leftarrow> on_reader (read_bytes (unat wanted)) s;
            (case bytes of
               None \<Rightarrow> Some (False, s)
             | Some bytes \<Rightarrow> do {
                 (written, s) \<leftarrow> copy_into bytes s;
                 (if written \<noteq> None then Some (True, s) else on_reader fail_bool s)
               })
          })
   }"

definition expect_ext_buf :: "reader \<times> u8 list \<Rightarrow> ((i8 \<times> nat) option \<times> reader \<times> u8 list) option" where
  "expect_ext_buf s = try_opt (on_reader expect_ext s) (\<lambda>(ty, len) s.
     if unat len > length (snd s) then on_reader too_big s
     else try_opt (on_reader (read_bytes (unat len)) s) (\<lambda>bytes s.
       try_opt (copy_into bytes s) (\<lambda>written s. Some (Some (ty, written), s))))"

subsection \<open>Tags\<close>

definition normalize :: "tag \<Rightarrow> tag" where
  "normalize t = (case t of Tag_Int v \<Rightarrow> if 0 \<le> sint v then Tag_Uint v else t | _ \<Rightarrow> t)"

definition tags_equal :: "tag \<Rightarrow> tag \<Rightarrow> bool" where
  "tags_equal l r =
     (case (normalize l, normalize r) of
        (Tag_Nil, Tag_Nil) \<Rightarrow> True
      | (Tag_Bool a, Tag_Bool b) \<Rightarrow> a = b
      | (Tag_Int a, Tag_Int b) \<Rightarrow> a = b
      | (Tag_Uint a, Tag_Uint b) \<Rightarrow> a = b
      | (Tag_Float a, Tag_Float b) \<Rightarrow> a = b
      | (Tag_Double a, Tag_Double b) \<Rightarrow> a = b
      | (Tag_Str a, Tag_Str b) \<Rightarrow> a = b
      | (Tag_Bin a, Tag_Bin b) \<Rightarrow> a = b
      | (Tag_Array a, Tag_Array b) \<Rightarrow> a = b
      | (Tag_Map a, Tag_Map b) \<Rightarrow> a = b
      | (Tag_Ext a_ty a_len, Tag_Ext b_ty b_len) \<Rightarrow> a_ty = b_ty \<and> a_len = b_len
      | _ \<Rightarrow> False)"

lemma tags_equal_normal: "tags_equal a b \<longleftrightarrow> normal_tag a = normal_tag b"
proof -
  have n: "normalize t = normal_tag t" for t
    by (cases t) (simp_all add: normalize_def)
  show ?thesis
    unfolding tags_equal_def n by (cases "normal_tag a"; cases "normal_tag b"; simp)
qed

definition expect_tag :: "tag \<Rightarrow> reader \<Rightarrow> (bool \<times> reader) option" where
  "expect_tag expected r = do {
     (got, r) \<leftarrow> read_tag r;
     (case got of
        Some t \<Rightarrow> if tags_equal t expected then Some (True, r) else fail_bool r
      | None \<Rightarrow> Some (False, r))
   }"

subsection \<open>Map keys\<close>

text \<open>\<open>depth\<close> is the call stack left to \<open>discard\<close>.\<close>

definition expect_key_uint ::
  "nat \<Rightarrow> reader \<times> bool list \<Rightarrow> (nat option \<times> reader \<times> bool list) option"
where
  "expect_key_uint depth s =
     (if snd s = [] then Some (None, flag_error Err_Bug (fst s), snd s)
      else try_opt (on_reader peek_tag s) (\<lambda>t s.
        if (case t of Tag_Uint _ \<Rightarrow> False | _ \<Rightarrow> True) then do {
          r \<leftarrow> discard depth (fst s);
          Some (Some (length (snd s)), r, snd s)
        }
        else try_opt (on_reader expect_u64 s) (\<lambda>key s.
          if unat key \<ge> length (snd s) then Some (Some (length (snd s)), s)
          else do {
            seen \<leftarrow> index (snd s) (unat key);
            (if seen then Some (None, flag_error Err_Invalid (fst s), snd s)
             else Some (Some (unat key), fst s, (snd s)[unat key := True]))
          })))"

primrec find_key ::
  "u8 list \<Rightarrow> u8 list list \<Rightarrow> nat \<Rightarrow> reader \<times> bool list \<Rightarrow> (nat option \<times> reader \<times> bool list) option"
where
  "find_key bytes [] i s = Some (Some i, s)"
| "find_key bytes (key # keys) i s =
     (if key = bytes then do {
        seen \<leftarrow> index (snd s) i;
        (if seen then Some (None, flag_error Err_Invalid (fst s), snd s)
         else Some (Some i, fst s, (snd s)[i := True]))
      }
      else find_key bytes keys (i + 1) s)"

definition expect_key_cstr ::
  "nat \<Rightarrow> u8 list list \<Rightarrow> reader \<times> bool list \<Rightarrow> (nat option \<times> reader \<times> bool list) option"
where
  "expect_key_cstr depth keys s =
     (if keys = [] \<or> length keys \<noteq> length (snd s)
      then Some (None, flag_error Err_Bug (fst s), snd s)
      else try_opt (on_reader peek_tag s) (\<lambda>t s.
        if (case t of Tag_Str _ \<Rightarrow> False | _ \<Rightarrow> True) then do {
          r \<leftarrow> discard depth (fst s);
          Some (Some (length keys), r, snd s)
        }
        else try_opt (on_reader expect_str s) (\<lambda>len s.
          try_opt (on_reader (read_bytes (unat len)) s) (\<lambda>bytes s. find_key bytes keys 0 s))))"

end
