(* ===== verification/Expect_Contract.thy ===== *)
theory Expect_Contract
  imports Expect Reader_Typed
begin

section \<open>The expect functions meet the reader's contract\<close>

text \<open>
  The functions of \<open>expect.rs\<close> as clients of the reader: those that are a tag read followed by a
  selection get their contract and their result from the interface lemmas of \<open>tag_source\<close>; the
  others from the closure of the contract under \<open>?\<close>.
\<close>

subsection \<open>Selections on a tag\<close>

lemma read_value_select:
  "read_u64_value = select_read read_tag tag_u64" "read_i64_value = select_read read_tag tag_i64"
  unfolding read_u64_value_def [abs_def] read_i64_value_def [abs_def]
  by (rule ext, rule select_read_eqI, simp split: tag.splits)+

fun tag_to_float :: "tag \<Rightarrow> f32 option" where
  "tag_to_float (Tag_Float v) = Some v"
| "tag_to_float (Tag_Double v) = Some (f64_to_f32 v)"
| "tag_to_float (Tag_Uint v) = Some (u64_to_f32 v)"
| "tag_to_float (Tag_Int v) = Some (i64_to_f32 v)"
| "tag_to_float _ = None"

fun tag_to_double :: "tag \<Rightarrow> f64 option" where
  "tag_to_double (Tag_Float v) = Some (f32_to_f64 v)"
| "tag_to_double (Tag_Double v) = Some v"
| "tag_to_double (Tag_Uint v) = Some (u64_to_f64 v)"
| "tag_to_double (Tag_Int v) = Some (i64_to_f64 v)"
| "tag_to_double _ = None"

definition tag_compound :: "bool \<Rightarrow> tag \<Rightarrow> u32 option" where
  "tag_compound want_map = (if want_map then tag_map else tag_array)"

lemma expect_select:
  "expect_float = select_read read_tag tag_to_float"
  "expect_double = select_read read_tag tag_to_double"
  "expect_float_strict = select_read read_tag tag_f32"
  "expect_double_strict = select_read read_tag tag_f64"
  "expect_ext = select_read read_tag tag_ext"
  "expect_bin = select_read read_tag tag_bin"
  "compound_count want_map = select_read read_tag (tag_compound want_map)"
  unfolding expect_float_def [abs_def] expect_double_def [abs_def] expect_float_strict_def [abs_def]
    expect_double_strict_def [abs_def] expect_ext_def [abs_def] expect_bin_def [abs_def]
    compound_count_def [abs_def] tag_compound_def
  by (rule ext, rule select_read_eqI, simp split: tag.splits)+

text \<open>A read whose value must pass a further check is a selection too.\<close>

definition and_select :: "('a \<Rightarrow> 'b option) \<Rightarrow> (tag \<Rightarrow> 'a option) \<Rightarrow> tag \<Rightarrow> 'b option" where
  "and_select g f t = Option.bind (f t) g"

lemma try_select:
  assumes "\<And>v r. k v r = (case g v of Some u \<Rightarrow> Some (Some u, r) | None \<Rightarrow> type_error r)"
  shows "try_opt (select_read source f r) k = select_read source (and_select g f) r"
proof -
  have k: "k = (\<lambda>v r. case g v of Some u \<Rightarrow> Some (Some u, r) | None \<Rightarrow> type_error r)"
    using assms by (intro ext)
  show ?thesis
    unfolding select_read_def k and_select_def
    by (cases "source r") (auto simp: type_error_def try_opt_def split: option.splits)
qed

definition fits_uint :: "u64 \<Rightarrow> 'a::len word option" where
  "fits_uint v = (if unat v \<le> 2 ^ LENGTH('a) - 1 then Some (ucast v) else None)"

definition fits_int :: "i64 \<Rightarrow> 'a::len word option" where
  "fits_int v =
     (if - (2 ^ (LENGTH('a) - 1)) \<le> sint v \<and> sint v \<le> 2 ^ (LENGTH('a) - 1) - 1
      then Some (ucast v) else None)"

definition within :: "('a \<Rightarrow> 'b::linorder) \<Rightarrow> 'a \<Rightarrow> 'a \<Rightarrow> 'a \<Rightarrow> 'a option" where
  "within f lo hi v = (if f lo \<le> f v \<and> f v \<le> f hi then Some v else None)"

lemma expect_integer_select:
  "expect_uint = select_read read_tag (and_select fits_uint tag_u64)"
  "expect_int = select_read read_tag (and_select fits_int tag_i64)"
  unfolding expect_uint_def [abs_def] expect_int_def [abs_def] read_value_select
  by (rule ext, rule try_select, simp add: fits_uint_def fits_int_def)+

lemma expect_range_select:
  "expect_uint_range (select_read source f) lo hi = select_read source (and_select (within unat lo hi) f)"
  "expect_int_range (select_read source f) lo hi = select_read source (and_select (within sint lo hi) f)"
  unfolding expect_uint_range_def [abs_def] expect_int_range_def [abs_def]
  by (rule ext, rule try_select, simp add: within_def)+

lemma compound_range_select:
  "compound_range want_map lo hi = select_read read_tag (and_select (within unat lo hi) (tag_compound want_map))"
  unfolding compound_range_def [abs_def] expect_select
  by (rule ext, rule try_select, simp add: within_def)

definition not_outside :: "('a \<Rightarrow> 'a \<Rightarrow> bool) \<Rightarrow> 'a \<Rightarrow> 'a \<Rightarrow> 'a \<Rightarrow> 'a option" where
  "not_outside lt lo hi v = (if lt v lo \<or> lt hi v then None else Some v)"

lemma expect_float_range_select:
  "expect_float_range flo fhi = select_read read_tag (and_select (not_outside f32_less flo fhi) tag_to_float)"
  "expect_double_range dlo dhi = select_read read_tag (and_select (not_outside f64_less dlo dhi) tag_to_double)"
  unfolding expect_float_range_def [abs_def] expect_double_range_def [abs_def] expect_select
  by (rule ext, rule try_select, simp add: not_outside_def)+

lemmas expect_functions = expect_u8_def expect_u16_def expect_u32_def expect_u64_def
  expect_i8_def expect_i16_def expect_i32_def expect_i64_def
  expect_u8_range_def expect_u16_range_def expect_u32_range_def expect_u64_range_def
  expect_i8_range_def expect_i16_range_def expect_i32_range_def expect_i64_range_def
  expect_map_def [abs_def] expect_map_range_def [abs_def] expect_array_def [abs_def] expect_array_range_def [abs_def]

lemmas expect_selections = expect_select expect_integer_select expect_range_select
  compound_range_select expect_float_range_select

lemma expect_reads [contracts]:
  "reads expect_uint" "reads expect_int"
  "reads expect_float" "reads expect_double" "reads expect_float_strict" "reads expect_double_strict"
  "reads (expect_float_range flo fhi)" "reads (expect_double_range dlo dhi)"
  "reads expect_ext" "reads expect_bin" "reads (compound_count want_map)"
  "reads (compound_range want_map nlo nhi)"
  by (simp_all only: expect_selections reading.select_reads)

subsection \<open>Nil and booleans\<close>

text \<open>\<open>checks m\<close>: the contract of an operation that answers with a flag.\<close>

definition checks :: "(reader \<Rightarrow> (bool \<times> reader) option) \<Rightarrow> bool" where
  "checks m \<longleftrightarrow> (\<forall>r. wf_reader r \<longrightarrow> (\<exists>b r'. m r = Some (b, r') \<and> advances r r'
      \<and> (b \<longleftrightarrow> r_error r' = Err_Ok)))"

lemma checks_match:
  assumes m: "reads m"
    and k: "\<And>v r. wf_reader r \<Longrightarrow> r_error r = Err_Ok \<Longrightarrow>
      \<exists>b r'. k v r = Some (b, r') \<and> advances r r' \<and> (b \<longleftrightarrow> r_error r' = Err_Ok)"
  shows "checks (\<lambda>r. m r \<bind> (\<lambda>(x, r). case x of Some v \<Rightarrow> k v r | None \<Rightarrow> Some (False, r)))"
  unfolding checks_def
proof (intro allI impI)
  fix r assume wf: "wf_reader r"
  obtain x r1 where 1: "m r = Some (x, r1)" "advances r r1" "wf_reader r1"
      "x = None \<longleftrightarrow> r_error r1 \<noteq> Err_Ok"
    using m wf by (rule readsE)
  show "\<exists>b r'. (m r \<bind> (\<lambda>(x, r). case x of Some v \<Rightarrow> k v r | None \<Rightarrow> Some (False, r))) = Some (b, r')
      \<and> advances r r' \<and> (b \<longleftrightarrow> r_error r' = Err_Ok)"
  proof (cases x)
    case None
    with 1 show ?thesis by auto
  next
    case (Some v)
    with 1 obtain b r2 where "k v r1 = Some (b, r2)" "advances r1 r2" "b \<longleftrightarrow> r_error r2 = Err_Ok"
      using k [of r1 v] by auto
    with 1 Some show ?thesis by (auto intro: advances_trans)
  qed
qed

lemma fail_bool_ok:
  "\<exists>b r'. fail_bool r = Some (b, r') \<and> advances r r' \<and> (b \<longleftrightarrow> r_error r' = Err_Ok)"
  using flag_error_bad [of Err_Type r] by (auto simp: fail_bool_def)

lemma checks_found:
  "r_error r = Err_Ok \<Longrightarrow>
    \<exists>b r'. (if P then Some (True, r) else fail_bool r) = Some (b, r') \<and> advances r r' \<and> (b \<longleftrightarrow> r_error r' = Err_Ok)"
  using fail_bool_ok [of r] by auto

lemma expect_bool_reads [contracts]: "reads expect_bool"
  unfolding expect_bool_def [abs_def]
  by (rule reads_try_opt [OF reads_native(1)]) (simp add: reads_type_error)

lemma expect_checks [contracts]:
  "checks (expect_uint_match uv)" "checks (expect_int_match iv)" "checks expect_nil"
  "checks expect_true" "checks expect_false"
  "checks (expect_map_match n)" "checks (expect_array_match n)" "checks (expect_tag t)"
proof -
  note m = expect_u64_def expect_i64_def expect_map_def [abs_def] expect_array_def [abs_def]
  show "checks (expect_uint_match uv)" "checks (expect_int_match iv)" "checks expect_nil"
    "checks (expect_map_match n)" "checks (expect_array_match n)" "checks (expect_tag t)"
    unfolding expect_uint_match_def [abs_def] expect_int_match_def [abs_def] expect_nil_def [abs_def]
      expect_map_match_def [abs_def] expect_array_match_def [abs_def] expect_tag_def [abs_def] m
    by (rule checks_match; simp add: contracts checks_found)+
  have "expect_true = (\<lambda>r. expect_bool r \<bind> (\<lambda>(x, r).
      case x of Some v \<Rightarrow> if v = True then Some (True, r) else fail_bool r | None \<Rightarrow> Some (False, r)))"
    "expect_false = (\<lambda>r. expect_bool r \<bind> (\<lambda>(x, r).
      case x of Some v \<Rightarrow> if v = False then Some (True, r) else fail_bool r | None \<Rightarrow> Some (False, r)))"
    unfolding expect_true_def [abs_def] expect_false_def [abs_def]
    by (intro ext bind_option_cong refl; auto split: option.split bool.split)+
  note flags = this
  show "checks expect_true"
    unfolding flags(1) by (rule checks_match [OF expect_bool_reads], erule checks_found)
  show "checks expect_false"
    unfolding flags(2) by (rule checks_match [OF expect_bool_reads], erule checks_found)
qed

subsection \<open>Timestamps, or-nil compounds, strings\<close>

lemma readsD:
  assumes "reads m" and "wf_reader r"
  shows "\<exists>x r'. m r = Some (x, r') \<and> advances r r' \<and> (x = None \<longleftrightarrow> r_error r' \<noteq> Err_Ok)"
  using assms by (simp add: reads_def)

lemma expect_timestamp_reads [contracts]: "reads expect_timestamp"
  unfolding expect_timestamp_def [abs_def]
  by (rule reads_try_opt [OF expect_reads(9)]) (auto simp: reads_type_error readsD contracts)

lemma expect_timestamp_truncate_reads [contracts]: "reads expect_timestamp_truncate"
  unfolding reads_def expect_timestamp_truncate_def
proof (intro allI impI)
  fix r assume "wf_reader r"
  from readsD [OF expect_timestamp_reads this]
  obtain x r' where "expect_timestamp r = Some (x, r')" "advances r r'" "x = None \<longleftrightarrow> r_error r' \<noteq> Err_Ok"
    by blast
  then show "\<exists>y r'. (expect_timestamp r \<bind> (\<lambda>(ts, r). Some (map_option seconds ts, r))) = Some (y, r')
      \<and> advances r r' \<and> (y = None \<longleftrightarrow> r_error r' \<noteq> Err_Ok)"
    by auto
qed

definition allowed :: "u32 option \<Rightarrow> u32 \<Rightarrow> bool" where
  "allowed m n = (case m of Some k \<Rightarrow> unat n \<le> unat k | None \<Rightarrow> True)"

lemma compound_or_nil_header:
  assumes ok: "r_error r = Err_Ok" and h: "header hs t" and u: "unread r = hs @ rest"
  shows "compound_or_nil w m r =
    (let r' = advance (length hs) r in
     if t = Tag_Nil then Some (Some \<lparr>is_nil = True, compound_len = 0\<rparr>, r')
     else case tag_compound w t of
       Some n \<Rightarrow> if allowed m n then Some (Some \<lparr>is_nil = False, compound_len = n\<rparr>, r') else type_error r'
     | None \<Rightarrow> type_error r')"
proof -
  have "peek_tag r = Some (Some t, r)" "read_tag r = Some (Some t, advance (length hs) r)"
    using peeking.accept [OF assms] reading.accept [OF assms] by simp_all
  then show ?thesis
    by (cases t; cases m)
      (simp_all add: compound_or_nil_def Let_def tag_compound_def allowed_def compound_range_def
        compound_count_def type_error_def)
qed

lemma compound_or_nil_reject:
  assumes "r_error r = Err_Ok" and "\<not> has_header (unread r)"
  shows "compound_or_nil w m r = Some (None, flag_error Err_Invalid r)"
  using peeking.reject [OF assms] by (simp add: compound_or_nil_def)

lemma type_error_after:
  "r_error r = Err_Ok \<Longrightarrow> header hs t \<Longrightarrow> unread r = hs @ rest \<Longrightarrow>
   advances r (advance (length hs) r) \<and> advances r (flag_error e (advance (length hs) r))"
  using advances_advance [of r "length hs"] advances_flag [of "advance (length hs) r" e]
  by (auto intro: advances_trans)

lemma compound_or_nil_reads [contracts]: "reads (compound_or_nil w m)"
proof (rule readsI)
  fix r :: reader assume ok: "r_error r = Err_Ok"
  show "\<exists>x r'. compound_or_nil w m r = Some (x, r') \<and> advances r r' \<and> (x = None \<longleftrightarrow> r_error r' \<noteq> Err_Ok)"
  proof (cases "has_header (unread r)")
    case True
    then obtain hs t rest where h: "header hs t" "unread r = hs @ rest"
      by (auto simp: has_header_def)
    show ?thesis
      using type_error_after [OF ok h] ok
      unfolding compound_or_nil_header [OF ok h] Let_def
      by (auto simp: type_error_def split: option.split)
  next
    case False
    then show ?thesis by (simp add: compound_or_nil_reject ok)
  qed
qed (simp add: compound_or_nil_def peeking.sticky)

lemma expect_str_reads [contracts]: "reads expect_str"
  unfolding expect_str_def [abs_def]
  by (rule reads_try_opt [OF reads_native(1)])
    (auto simp: reads_type_error intro!: readsD [OF reads_try_opt] readsD [OF reads_native(3)] contracts)

end
