(* ===== verification/Expect_Buffers.thy ===== *)
theory Expect_Buffers
  imports Expect_Contract Utf8_Spec
begin

section \<open>Strings by the type byte, buffers and keys\<close>

text \<open>
  \<open>expect_str\<close> recognises exactly the string headers; the contract of the functions that also
  write a buffer or the \<open>found\<close> flags: the buffer keeps its length.
\<close>

subsection \<open>\<open>expect_str\<close> is the read of a string header\<close>

inductive_cases header_StrE: "header hs (Tag_Str n)"

lemma fixstr_byte:
  assumes "n < 32"
  shows "drop_bit 5 (word_of_nat (0xa0 + n) :: u8) = 5"
    and "(ucast ((word_of_nat (0xa0 + n) :: u8) AND NOT 0xe0) :: u32) = word_of_nat n"
proof -
  have u: "unat (word_of_nat (0xa0 + n) :: u8) = 5 * 32 + n"
    using assms by (subst unat_of_nat_small) simp_all
  have "unat (drop_bit 5 (word_of_nat (0xa0 + n) :: u8)) = 5"
    using assms u by (simp only: unsigned_drop_bit_eq) (simp add: drop_bit_eq_div take_bit_nat_eq_self)
  then show "drop_bit 5 (word_of_nat (0xa0 + n) :: u8) = 5"
    by (simp only: word_unat_eq_iff) simp
  have "unat ((word_of_nat (0xa0 + n) :: u8) AND NOT 0xe0) = n"
    using assms fix_mod(3) [OF assms] by (simp only: low_bits unat_of_nat_small u) simp
  then show "(ucast ((word_of_nat (0xa0 + n) :: u8) AND NOT 0xe0) :: u32) = word_of_nat n"
    by (metis of_nat_unat)
qed

lemma fixstr_byte_conv:
  assumes "drop_bit 5 (b :: u8) = 5"
  obtains n where "n < 32" and "b = word_of_nat (0xa0 + n)"
proof -
  have "unat (drop_bit 5 b) = 5"
    using assms by simp
  then have "unat b div 32 = 5"
    using unat_u8_less [of b] by (simp only: unsigned_drop_bit_eq) (simp add: drop_bit_eq_div take_bit_nat_eq_self)
  then have "b = word_of_nat (5 * 32 + unat b mod 32)"
    by (metis div_mult_mod_eq of_nat_unat ucast_id)
  then show thesis
    by (intro that [of "unat b mod 32"]) simp_all
qed

lemma read_native_SomeD:
  assumes ok: "r_error r = Err_Ok"
  shows "read_native_u8 r = Some (Some b, r') \<Longrightarrow> \<exists>rest. unread r = b # rest \<and> r' = advance 1 r"
    and "read_native_u16 r = Some (Some w, r') \<Longrightarrow> \<exists>rest. unread r = to_be_bytes w @ rest \<and> r' = advance 2 r"
    and "read_native_u32 r = Some (Some d, r') \<Longrightarrow> \<exists>rest. unread r = to_be_bytes d @ rest \<and> r' = advance 4 r"
proof -
  show "read_native_u8 r = Some (Some b, r') \<Longrightarrow> \<exists>rest. unread r = b # rest \<and> r' = advance 1 r"
    using ok by (auto simp: read_native_u8_ok split: list.splits)
  show "\<exists>rest. unread r = to_be_bytes w @ rest \<and> r' = advance 2 r"
    if res: "read_native_u16 r = Some (Some w, r')"
  proof (cases "length (unread r) < 2")
    case False
    then obtain v :: u16 and rest where "unread r = to_be_bytes v @ rest"
      by (auto intro: to_be_bytes_prefix [where 'a = 16, of "unread r"])
    with res read_native_u16_ok(1) [OF ok this] show ?thesis by simp
  qed (use res ok in \<open>simp add: read_native_u16_ok\<close>)
  show "\<exists>rest. unread r = to_be_bytes d @ rest \<and> r' = advance 4 r"
    if res: "read_native_u32 r = Some (Some d, r')"
  proof (cases "length (unread r) < 4")
    case False
    then obtain v :: u32 and rest where "unread r = to_be_bytes v @ rest"
      by (auto intro: to_be_bytes_prefix [where 'a = 32, of "unread r"])
    with res read_native_u32_ok(1) [OF ok this] show ?thesis by simp
  qed (use res ok in \<open>simp add: read_native_u32_ok\<close>)
qed

lemma not_fixstr: "drop_bit 5 (0xd9 :: u8) \<noteq> 5" "drop_bit 5 (0xda :: u8) \<noteq> 5" "drop_bit 5 (0xdb :: u8) \<noteq> 5"
  by simp_all

lemma expect_str_header:
  assumes ok: "r_error r = Err_Ok" and h: "header hs (Tag_Str n)" and u: "unread r = hs @ rest"
  shows "expect_str r = Some (Some n, advance (length hs) r)"
proof -
  from h consider (fix5) k where "hs = [word_of_nat (0xa0 + k)]" "n = word_of_nat k" "k < 32"
    | (len8) w where "hs = [0xd9, w]" "n = ucast w"
    | (len16) w where "hs = 0xda # to_be_bytes w" "n = ucast (w :: u16)"
    | (len32) "hs = 0xdb # to_be_bytes n"
    by (rule header_StrE) auto
  then show ?thesis
  proof cases
    case (fix5 k)
    define b :: u8 where "b = word_of_nat (0xa0 + k)"
    note byte = fixstr_byte [OF fix5(3), folded b_def fix5(2)]
    have "unread r = b # rest" "length hs = 1"
      using u by (simp_all only: fix5(1) b_def append_Cons append_Nil list.size)
    with ok byte show ?thesis
      by (simp add: expect_str_def read_native_u8_ok)
  next
    case (len8 w)
    have "read_native_u8 r = Some (Some 0xd9, advance 1 r)"
      using ok u len8 by (simp add: read_native_u8_ok)
    moreover have "read_native_u8 (advance 1 r) = Some (Some w, advance (length hs) r)"
      using ok u len8 by (simp add: read_native_u8_ok)
    ultimately show ?thesis
      using len8 by (simp add: expect_str_def)
  next
    case (len16 w)
    have "unread (advance 1 r) = to_be_bytes w @ rest"
      using len16 u by simp
    with ok u len16 read_native_u16_ok(1) [of "advance 1 r" w rest] show ?thesis
      by (simp add: expect_str_def read_native_u8_ok)
  next
    case len32
    have "unread (advance 1 r) = to_be_bytes n @ rest"
      using len32 u by simp
    with ok u len32 read_native_u32_ok(1) [of "advance 1 r" n rest] show ?thesis
      by (simp add: expect_str_def read_native_u8_ok)
  qed
qed

lemma expect_str_SomeD:
  assumes wf: "wf_reader r" and ok: "r_error r = Err_Ok" and res: "expect_str r = Some (Some n, r')"
  shows "\<exists>hs rest. header hs (Tag_Str n) \<and> unread r = hs @ rest \<and> r' = advance (length hs) r"
proof -
  obtain x r1 where r1: "read_native_u8 r = Some (x, r1)" "wf_reader r1"
      "x = None \<longleftrightarrow> r_error r1 \<noteq> Err_Ok"
    using reads_native(1) wf by (rule readsE)
  with res obtain b where b: "read_native_u8 r = Some (Some b, r1)" "r_error r1 = Err_Ok"
    by (cases x) (auto simp: expect_str_def)
  from read_native_SomeD(1) [OF ok b(1)] obtain bs where u: "unread r = b # bs" and r1': "r1 = advance 1 r"
    by blast
  consider "drop_bit 5 b = 5" | "b = 0xd9" | "b = 0xda" | "b = 0xdb"
    using res by (auto simp: expect_str_def b type_error_def split: if_splits)
  then show ?thesis
  proof cases
    case 1
    then obtain k where k: "k < 32" "b = word_of_nat (0xa0 + k)"
      by (rule fixstr_byte_conv)
    with res b 1 fixstr_byte [of k] have "n = word_of_nat k" "r' = r1"
      by (simp_all add: expect_str_def del: of_nat_add)
    with k u r1' fixstr [of k] show ?thesis
      by (intro exI [of _ "[b]"] exI [of _ bs]) simp
  next
    case 2
    from readsD [OF reads_native(1) r1(2)] obtain y r2 where y: "read_native_u8 r1 = Some (y, r2)" by blast
    with res b 2 obtain c where "y = Some c" "n = ucast c" "r' = r2"
      by (cases y) (auto simp: expect_str_def)
    with read_native_SomeD(1) [OF b(2), of c r2] y r1' u 2 str8 [of c] show ?thesis
      by (rule_tac x = "[0xd9, c]" in exI) auto
  next
    case 3
    from readsD [OF reads_native(2) r1(2)] obtain y r2 where y: "read_native_u16 r1 = Some (y, r2)" by blast
    with res b 3 obtain c where "y = Some c" "n = ucast c" "r' = r2"
      by (cases y) (auto simp: expect_str_def)
    with read_native_SomeD(2) [OF b(2), of c r2] y r1' u 3 str16 [of c] show ?thesis
      by (rule_tac x = "0xda # to_be_bytes c" in exI) auto
  next
    case 4
    with res b have "read_native_u32 r1 = Some (Some n, r')"
      by (simp add: expect_str_def)
    with read_native_SomeD(3) [OF b(2), of n r'] r1' u 4 str32 [of n] show ?thesis
      by (rule_tac x = "0xdb # to_be_bytes n" in exI) auto
  qed
qed

subsection \<open>The contract with a second mutable argument\<close>

definition good :: "('a \<Rightarrow> bool) \<Rightarrow> reader \<Rightarrow> 'b list \<Rightarrow> ('a \<times> reader \<times> 'b list) option \<Rightarrow> bool" where
  "good P r b res \<longleftrightarrow>
     (\<exists>x r' b'. res = Some (x, r', b') \<and> advances r r' \<and> length b' = length b
        \<and> (P x \<longleftrightarrow> r_error r' = Err_Ok))"

definition found_value :: "'a option \<Rightarrow> bool" where
  "found_value x \<longleftrightarrow> x \<noteq> None"

lemma found_value_simps [simp]: "found_value (Some v)" "\<not> found_value None"
  by (simp_all add: found_value_def)

definition reads_with :: "(reader \<times> 'b list \<Rightarrow> ('a option \<times> reader \<times> 'b list) option) \<Rightarrow> bool" where
  "reads_with m \<longleftrightarrow> (\<forall>r b. wf_reader r \<longrightarrow> good found_value r b (m (r, b)))"

definition checks_with :: "(reader \<times> 'b list \<Rightarrow> (bool \<times> reader \<times> 'b list) option) \<Rightarrow> bool" where
  "checks_with m \<longleftrightarrow> (\<forall>r b. wf_reader r \<longrightarrow> good (\<lambda>x. x) r b (m (r, b)))"

lemma goodI:
  "res = Some (x, r', b') \<Longrightarrow> advances r r' \<Longrightarrow> length b' = length b \<Longrightarrow>
     (P x \<longleftrightarrow> r_error r' = Err_Ok) \<Longrightarrow> good P r b res"
  by (auto simp: good_def)

lemma goodE:
  assumes "good P r b res"
  obtains x r' b' where "res = Some (x, r', b')" "advances r r'" "length b' = length b"
    "P x \<longleftrightarrow> r_error r' = Err_Ok"
  using assms by (auto simp: good_def)

lemma good_trans:
  assumes "good P r1 b1 res" and "advances r r1" and "length b1 = length b"
  shows "good P r b res"
  using assms by (elim goodE) (auto intro: goodI advances_trans)

lemma reads_with_on_reader: "reads m \<Longrightarrow> reads_with (on_reader m)"
  unfolding reads_with_def on_reader_def
proof (intro allI impI)
  fix r b assume "reads m" and "wf_reader r"
  then obtain x r' where "m r = Some (x, r')" "advances r r'" "x = None \<longleftrightarrow> r_error r' \<noteq> Err_Ok"
    by (blast elim: readsE)
  then show "good found_value r b (case (r, b) of (r, b) \<Rightarrow> m r \<bind> (\<lambda>(x, r). Some (x, r, b)))"
    by (intro goodI) (auto simp: found_value_def)
qed

lemma good_on_flag:
  "e \<noteq> Err_Ok \<Longrightarrow> length b' = length b \<Longrightarrow> good (\<lambda>x. x) r b (Some (False, flag_error e r, b'))"
  "e \<noteq> Err_Ok \<Longrightarrow> length b' = length b \<Longrightarrow> good found_value r b (Some (None, flag_error e r, b'))"
  by (auto simp: good_def)

lemma good_done:
  "r_error r = Err_Ok \<Longrightarrow> length b' = length b \<Longrightarrow> good found_value r b (Some (Some v, r, b'))"
  "r_error r = Err_Ok \<Longrightarrow> length b' = length b \<Longrightarrow> good (\<lambda>x. x) r b (Some (True, r, b'))"
  by (auto simp: good_def)

lemma reads_with_try:
  assumes m: "reads_with m"
    and k: "\<And>v r b. wf_reader r \<Longrightarrow> r_error r = Err_Ok \<Longrightarrow> good found_value r b (k v (r, b))"
  shows "reads_with (\<lambda>s. try_opt (m s) k)"
  unfolding reads_with_def
proof (intro allI impI)
  fix r b assume wf: "wf_reader r"
  then have "good found_value r b (m (r, b))"
    using m by (simp add: reads_with_def)
  then obtain x r' b' where 1: "m (r, b) = Some (x, r', b')" "advances r r'" "length b' = length b"
      "found_value x \<longleftrightarrow> r_error r' = Err_Ok"
    by (rule goodE)
  show "good found_value r b (try_opt (m (r, b)) k)"
  proof (cases x)
    case None
    with 1 show ?thesis by (auto intro: goodI)
  next
    case (Some v)
    with 1 have "good found_value r' b' (k v (r', b'))"
      using k advances_wf [OF 1(2) wf] by simp
    then have "good found_value r b (k v (r', b'))"
      using 1(2,3) by (rule good_trans)
    with 1 Some show ?thesis by simp
  qed
qed

lemma reads_withD: "reads_with m \<Longrightarrow> wf_reader r \<Longrightarrow> good found_value r b (m (r, b))"
  by (simp add: reads_with_def)

lemma copy_into_ok:
  "length bytes \<le> length b \<Longrightarrow>
     copy_into bytes (r, b) = Some (Some (length bytes), r, bytes @ drop (length bytes) b)"
  by (simp add: copy_into_def copy_bytes_def checked)

lemma good_copy:
  assumes "wf_reader r" and "r_error r = Err_Ok" and "n \<le> length b"
    and k: "\<And>bytes r. length bytes = n \<Longrightarrow> wf_reader r \<Longrightarrow> r_error r = Err_Ok \<Longrightarrow>
      good found_value r b (k bytes (r, b))"
  shows "good found_value r b (try_opt (on_reader (read_bytes n) (r, b)) k)"
proof (cases "n \<le> length (unread r)")
  case True
  have adv: "advances r (advance n r)"
    using assms(2) True by (simp add: advances_advance)
  have "good found_value (advance n r) b (k (take n (unread r)) (advance n r, b))"
    using True assms(2) advances_wf [OF adv assms(1)] by (intro k) simp_all
  then have "good found_value r b (k (take n (unread r)) (advance n r, b))"
    by (rule good_trans) (use adv in simp_all)
  then show ?thesis
    using assms True by (simp add: on_reader_def read_bytes_ok)
next
  case False
  then show ?thesis
    using assms by (simp add: on_reader_def read_bytes_ok good_on_flag)
qed

lemma good_copy_into:
  "r_error r = Err_Ok \<Longrightarrow> length bytes = n \<Longrightarrow> n \<le> length b \<Longrightarrow>
     good found_value r b (copy_into bytes (r, b))"
  by (simp add: copy_into_ok good_done)

lemma good_too_big: "good found_value r b (on_reader too_big (r, b))"
  by (simp add: on_reader_def too_big_def good_on_flag)

lemma buffer_reads [contracts]:
  "reads_with expect_str_buf" "reads_with expect_bin_buf" "reads_with expect_ext_buf" "reads_with expect_utf8"
proof -
  show "reads_with expect_str_buf" "reads_with expect_bin_buf"
    unfolding expect_str_buf_def [abs_def] expect_bin_buf_def [abs_def]
    by (rule reads_with_try [OF reads_with_on_reader]; simp add: contracts good_too_big good_copy good_copy_into)+
  show "reads_with expect_ext_buf"
    unfolding expect_ext_buf_def [abs_def]
    by (rule reads_with_try [OF reads_with_on_reader])
      (auto simp: contracts good_too_big copy_into_ok good_done intro!: good_copy)
  show "reads_with expect_utf8"
    unfolding expect_utf8_def [abs_def]
    by (rule reads_with_try [OF reads_with_on_reader])
      (auto simp: contracts good_too_big copy_into_ok good_done good_on_flag checked intro!: good_copy)
qed

lemma match_bytes_ok:
  "wf_reader r \<Longrightarrow> r_error r = Err_Ok \<Longrightarrow>
    \<exists>b r'. match_bytes expected r = Some (b, r') \<and> advances r r' \<and> (b \<longleftrightarrow> r_error r' = Err_Ok)"
proof (induction expected arbitrary: r)
  case (Cons want rest)
  have rec: "\<exists>b r'. (if c = want then match_bytes rest r else fail_bool r) = Some (b, r')
      \<and> advances r r' \<and> (b \<longleftrightarrow> r_error r' = Err_Ok)"
    if "wf_reader r" "r_error r = Err_Ok" for c r
    using Cons.IH [OF that] fail_bool_ok [of r] by auto
  have "checks (\<lambda>r. read_native_u8 r \<bind> (\<lambda>(x, r).
      case x of Some c \<Rightarrow> if c = want then match_bytes rest r else fail_bool r | None \<Rightarrow> Some (False, r)))"
    by (rule checks_match [OF reads_native(1) rec])
  with Cons.prems(1) show ?case
    by (simp add: checks_def)
qed auto

lemma expect_str_match_checks [contracts]: "checks (expect_str_match expected)"
proof -
  have "expect_str_match expected = (\<lambda>r. expect_str r \<bind> (\<lambda>(x, r). case x of
      Some len \<Rightarrow> if unat len \<noteq> length expected then fail_bool r else match_bytes expected r
    | None \<Rightarrow> Some (False, r)))"
    unfolding expect_str_match_def [abs_def]
    by (rule ext, rule arg_cong [where f = "Option.bind _"]) (auto split: option.split)
  then show ?thesis
    by (simp only:) (rule checks_match [OF expect_str_reads], simp only: fail_bool_ok match_bytes_ok simp_thms split: if_split)
qed

text \<open>The two C-string functions differ in the test they put the text to.\<close>

definition cstr_with :: "(u8 list \<Rightarrow> bool) \<Rightarrow> reader \<times> u8 list \<Rightarrow> (bool \<times> reader \<times> u8 list) option" where
  "cstr_with bad s = (case s of (r, buf) \<Rightarrow>
     if buf = [] then Some (False, flag_error Err_Bug r, buf)
     else do {
       (len, r) \<leftarrow> expect_str r;
       (case len of
          None \<Rightarrow> Some (False, r, buf[0 := 0])
        | Some len \<Rightarrow>
            if unat len + 1 > length buf then on_reader fail_too_big (r, buf[0 := 0])
            else do {
              (bytes, r) \<leftarrow> read_bytes (unat len) r;
              (case bytes of
                 None \<Rightarrow> Some (False, r, buf[0 := 0])
               | Some bytes \<Rightarrow>
                   if bad bytes then on_reader fail_bool (r, buf[0 := 0])
                   else do {
                     (_, buf) \<leftarrow> copy_cstr buf bytes;
                     Some (True, r, buf)
                   })
            })
     })"

lemma cstr_with:
  "expect_cstr = cstr_with (\<lambda>bytes. 0 \<in> set bytes)"
  "expect_utf8_cstr = cstr_with (\<lambda>bytes. \<not> check_utf8_no_null bytes)"
  by (simp_all only: fun_eq_iff expect_cstr_def expect_utf8_cstr_def cstr_with_def) simp_all

lemma copy_cstr_ok:
  assumes "length bytes + 1 \<le> length buf"
  shows "copy_cstr buf bytes = Some (True, bytes @ 0 # drop (length bytes + 1) buf)"
  using assms by (simp add: copy_cstr_def checked flip: drop_Suc)

text \<open>What a C-string read does, on a string header and its payload.\<close>

lemma cstr_with_header:
  assumes wf: "wf_reader r" and ok: "r_error r = Err_Ok" and h: "header hs (Tag_Str n)"
    and u: "unread r = hs @ rest" and ne: "buf \<noteq> []"
  shows "cstr_with bad (r, buf) =
    (let r' = advance (length hs) r; val = take (unat n) rest in
     if unat n + 1 > length buf then Some (False, flag_error Err_TooBig r', buf[0 := 0])
     else if length rest < unat n then Some (False, flag_error Err_Invalid r', buf[0 := 0])
     else if bad val then Some (False, flag_error Err_Type (advance (unat n) r'), buf[0 := 0])
     else Some (True, advance (unat n) r', val @ 0 # drop (unat n + 1) buf))"
proof -
  let ?r = "advance (length hs) r"
  have r': "expect_str r = Some (Some n, ?r)" "unread ?r = rest" "r_error ?r = Err_Ok"
    using expect_str_header [OF ok h u] u ok by simp_all
  have "wf_reader ?r"
    using wf advances_advance [OF ok, of "length hs"] u advances_wf by simp
  with r' ne show ?thesis
    by (auto simp: cstr_with_def read_bytes_ok on_reader_def fail_bool_def fail_too_big_def
        copy_cstr_ok Let_def)
qed

lemma cstr_with_checks: "checks_with (cstr_with bad)"
  unfolding checks_with_def
proof (intro allI impI)
  fix r :: reader and buf :: "u8 list"
  assume wf: "wf_reader r"
  show "good (\<lambda>x. x) r buf (cstr_with bad (r, buf))"
  proof (cases "buf = []")
    case True
    then show ?thesis by (simp add: cstr_with_def good_on_flag)
  next
    case ne: False
    obtain x r1 where 1: "expect_str r = Some (x, r1)" "advances r r1" "x = None \<longleftrightarrow> r_error r1 \<noteq> Err_Ok"
      using readsD [OF expect_str_reads wf] by blast
    show ?thesis
    proof (cases x)
      case None
      with 1 ne show ?thesis
        by (intro goodI [of _ False r1 "buf[0 := 0]"]) (simp_all add: cstr_with_def)
    next
      case (Some n)
      have ok: "r_error r = Err_Ok"
        using 1 Some by (auto simp: advances_def)
      from expect_str_SomeD [OF wf ok] 1 Some obtain hs rest
        where h: "header hs (Tag_Str n)" "unread r = hs @ rest" by blast
      have a: "advances r (advance (length hs) r)"
        using ok h by (simp add: advances_advance)
      have b: "unat n \<le> length rest \<Longrightarrow> advances r (advance (length hs + unat n) r)"
        using ok h by (simp add: advances_advance)
      show ?thesis
        unfolding cstr_with_header [OF wf ok h ne] Let_def
        using a b ok
        by (auto simp: good_on_flag advances_trans [OF a] advances_trans [OF b]
            intro!: goodI [OF refl])
    qed
  qed
qed

lemma expect_cstr_checks [contracts]: "checks_with expect_cstr" "checks_with expect_utf8_cstr"
  by (simp_all only: cstr_with cstr_with_checks)

lemma expect_bin_size_buf_checks [contracts]: "checks_with (expect_bin_size_buf wanted)"
  unfolding checks_with_def
proof (intro allI impI)
  fix r :: reader and buf :: "u8 list"
  assume wf: "wf_reader r"
  obtain x r1 where 1: "expect_bin r = Some (x, r1)" "advances r r1" "x = None \<longleftrightarrow> r_error r1 \<noteq> Err_Ok"
    using readsD [OF expect_reads(10) wf] by blast
  have fb: "good (\<lambda>x. x) r buf (on_reader fail_bool (r2, buf))" if "advances r r2" for r2
    using advances_trans [OF that advances_flag [of r2 Err_Type]]
    by (intro goodI [of _ False "flag_error Err_Type r2" buf]) (simp_all add: on_reader_def fail_bool_def)
  show "good (\<lambda>x. x) r buf (expect_bin_size_buf wanted (r, buf))"
  proof (cases x)
    case None
    with 1 show ?thesis
      by (intro goodI [of _ False r1 buf]) (simp_all add: expect_bin_size_buf_def on_reader_def)
  next
    case (Some n)
    have wf1: "wf_reader r1" and ok1: "r_error r1 = Err_Ok"
      using 1 Some wf by (auto simp: advances_def)
    obtain y r2 where 2: "read_bytes (unat wanted) r1 = Some (y, r2)" "advances r1 r2"
        "y = None \<longleftrightarrow> r_error r2 \<noteq> Err_Ok"
      using readsD [OF reads_bytes(1) wf1] by blast
    have adv: "advances r r2"
      using 1(2) 2(2) by (rule advances_trans)
    have run: "expect_bin_size_buf wanted (r, buf) =
      (if n \<noteq> wanted then on_reader fail_bool (r1, buf)
       else case y of None \<Rightarrow> Some (False, r2, buf)
       | Some bytes \<Rightarrow> copy_into bytes (r2, buf) \<bind> (\<lambda>(written, s).
           if written \<noteq> None then Some (True, s) else on_reader fail_bool s))"
      using 1 2 Some by (auto simp: expect_bin_size_buf_def on_reader_def split: option.split)
    show ?thesis
    proof (cases y)
      case None
      with 2 adv show ?thesis
        using fb [OF 1(2)] goodI [of "Some (False, r2, buf)" False r2 buf r buf "\<lambda>x. x"]
        unfolding run by simp
    next
      case (Some bytes)
      show ?thesis
      proof (cases "length bytes \<le> length buf")
        case True
        then have "expect_bin_size_buf wanted (r, buf) =
            (if n \<noteq> wanted then on_reader fail_bool (r1, buf)
             else Some (True, r2, bytes @ drop (length bytes) buf))"
          unfolding run by (simp add: Some copy_into_ok)
        moreover have "good (\<lambda>x. x) r buf (Some (True, r2, bytes @ drop (length bytes) buf))"
          using adv 2 Some True by (intro goodI [OF refl]) simp_all
        ultimately show ?thesis
          using fb [OF 1(2)] by simp
      next
        case False
        then have "copy_into bytes (r2, buf) = Some (None, r2, buf)"
          by (simp add: copy_into_def copy_bytes_def)
        then have "expect_bin_size_buf wanted (r, buf) =
            (if n \<noteq> wanted then on_reader fail_bool (r1, buf) else on_reader fail_bool (r2, buf))"
          unfolding run by (simp add: Some)
        then show ?thesis
          using fb [OF 1(2)] fb [OF adv] by simp
      qed
    qed
  qed
qed

end
