(* ===== verification/Expect_Keys.thy ===== *)
theory Expect_Keys
  imports Expect_Buffers Reader_Discard
begin

section \<open>Map keys: each key is recognised at most once\<close>

text \<open>
  The interface that \<open>key_uint\<close> and \<open>key_cstr\<close> share: a call that reports an index of the table
  found its flag clear and sets it, a call that reports the table's length changes no flag. The
  client is a run of calls, as a caller makes them while it reads a map.
\<close>

inductive key_run ::
  "(reader \<times> bool list \<Rightarrow> (nat option \<times> reader \<times> bool list) option)
     \<Rightarrow> bool list \<Rightarrow> nat list \<Rightarrow> bool list \<Rightarrow> bool"
  for next_key where
  no_key: "key_run next_key found [] found"
| next_call: "next_key (r, found) = Some (Some i, r', found1) \<Longrightarrow>
    key_run next_key found1 is found2 \<Longrightarrow> key_run next_key found (i # is) found2"

locale key_table =
  fixes next_key :: "reader \<times> bool list \<Rightarrow> (nat option \<times> reader \<times> bool list) option"
  assumes report: "next_key (r, found) = Some (Some i, r', found') \<Longrightarrow>
    (i < length found \<and> \<not> found ! i \<and> found' = found[i := True])
    \<or> (i = length found \<and> found' = found)"
begin

lemma run_distinct:
  "key_run next_key found is found' \<Longrightarrow>
    length found' = length found
    \<and> distinct (List.filter (\<lambda>i. i < length found) is)
    \<and> (\<forall>i < length found. found' ! i \<longleftrightarrow> found ! i \<or> i \<in> set is)
    \<and> (\<forall>i \<in> set is. i < length found \<longrightarrow> \<not> found ! i)"
proof (induction rule: key_run.induct)
  case (next_call r found i r' found1 "is" found2)
  show ?case
    using report [OF next_call(1)]
  proof (elim disjE conjE)
    assume i: "i < length found" "\<not> found ! i" "found1 = found[i := True]"
    have "i \<notin> set is"
      using next_call.IH i by auto
    with next_call.IH i show ?case
      by (auto simp: nth_list_update split: if_splits)
  next
    assume "i = length found" "found1 = found"
    with next_call.IH show ?case by auto
  qed
qed simp

end

subsection \<open>\<open>key_uint\<close>\<close>

lemma on_reader_SomeD: "on_reader m (r, b) = Some (x, s) \<Longrightarrow> \<exists>r'. m r = Some (x, r') \<and> s = (r', b)"
  by (auto simp: on_reader_def bind_eq_Some_conv)

lemma expect_key_uint_report:
  assumes "expect_key_uint depth (r, found) = Some (Some i, r', found')"
  shows "(i < length found \<and> \<not> found ! i \<and> found' = found[i := True])
    \<or> (i = length found \<and> found' = found)"
proof -
  from assms have "found \<noteq> []"
    by (auto simp: expect_key_uint_def)
  with assms obtain t s where s: "on_reader peek_tag (r, found) = Some (Some t, s)"
    and rest: "(if (case t of Tag_Uint _ \<Rightarrow> False | _ \<Rightarrow> True)
      then discard depth (fst s) \<bind> (\<lambda>r. Some (Some (length (snd s)), r, snd s))
      else try_opt (on_reader expect_u64 s) (\<lambda>key s.
          if unat key \<ge> length (snd s) then Some (Some (length (snd s)), s)
          else do {
            seen \<leftarrow> index (snd s) (unat key);
            (if seen then Some (None, flag_error Err_Invalid (fst s), snd s)
             else Some (Some (unat key), fst s, (snd s)[unat key := True]))
          })) = Some (Some i, r', found')"
    unfolding expect_key_uint_def by (auto elim: try_opt_SomeE)
  from on_reader_SomeD [OF s] obtain r1 where s1: "s = (r1, found)" by blast
  show ?thesis
  proof (cases "case t of Tag_Uint _ \<Rightarrow> False | _ \<Rightarrow> True")
    case True
    with rest s1 show ?thesis by (auto simp: bind_eq_Some_conv)
  next
    case False
    with rest obtain key s2 where s2: "on_reader expect_u64 (r1, found) = Some (Some key, s2)"
      and res: "(if unat key \<ge> length (snd s2) then Some (Some (length (snd s2)), s2)
          else do {
            seen \<leftarrow> index (snd s2) (unat key);
            (if seen then Some (None, flag_error Err_Invalid (fst s2), snd s2)
             else Some (Some (unat key), fst s2, (snd s2)[unat key := True]))
          }) = Some (Some i, r', found')"
      by (auto simp: s1 elim: try_opt_SomeE)
    from on_reader_SomeD [OF s2] obtain r2 where "s2 = (r2, found)" by blast
    with res show ?thesis
      by (auto simp: index_def split: if_splits)
  qed
qed

interpretation uint_keys: key_table "expect_key_uint depth" for depth
  by unfold_locales (rule expect_key_uint_report)

lemma expect_u64_header:
  assumes "r_error r = Err_Ok" and "header hs (Tag_Uint k)" and "unread r = hs @ rest"
  shows "expect_u64 r = Some (Some k, advance (length hs) r)"
proof -
  have "and_select fits_uint tag_u64 (Tag_Uint k) = Some k"
    using unat_u64_less [of k] by (simp add: and_select_def fits_uint_def)
  then show ?thesis
    using reading.select_value [OF assms] by (simp add: expect_u64_def expect_integer_select)
qed

lemma expect_key_uint_header:
  assumes ok: "r_error r = Err_Ok" and h: "header hs (Tag_Uint k)" and u: "unread r = hs @ rest"
    and "found \<noteq> []"
  shows "expect_key_uint depth (r, found) =
    (let r' = advance (length hs) r in
     if length found \<le> unat k then Some (Some (length found), r', found)
     else if found ! unat k then Some (None, flag_error Err_Invalid r', found)
     else Some (Some (unat k), r', found[unat k := True]))"
  using assms(4) peeking.accept [OF ok h u] expect_u64_header [OF ok h u]
  by (simp add: expect_key_uint_def on_reader_def checked)

lemma expect_key_uint_other:
  assumes ok: "r_error r = Err_Ok" and h: "header hs t" and u: "unread r = hs @ rest"
    and "found \<noteq> []" and "\<And>k. t \<noteq> Tag_Uint k"
  shows "expect_key_uint depth (r, found) =
    (case discard depth r of None \<Rightarrow> None | Some r' \<Rightarrow> Some (Some (length found), r', found))"
  using assms(4,5) peeking.accept [OF ok h u]
  by (auto simp: expect_key_uint_def on_reader_def split: tag.split option.split)

subsection \<open>\<open>key_cstr\<close>\<close>

lemma find_key_report:
  assumes "find_key bytes keys j (r, found) = Some (Some i, r', found')"
    and "j + length keys = length found"
  shows "(i < length found \<and> \<not> found ! i \<and> found' = found[i := True])
    \<or> (i = length found \<and> found' = found)"
  using assms
proof (induction keys arbitrary: j)
  case (Cons key keys)
  then show ?case
    by (auto simp: index_def bind_eq_Some_conv split: if_splits)
qed simp

lemma expect_key_cstr_report:
  assumes "expect_key_cstr depth keys (r, found) = Some (Some i, r', found')"
  shows "(i < length found \<and> \<not> found ! i \<and> found' = found[i := True])
    \<or> (i = length found \<and> found' = found)"
proof -
  from assms have len: "length keys = length found"
    by (auto simp: expect_key_cstr_def split: if_splits)
  from assms have "keys \<noteq> []"
    by (auto simp: expect_key_cstr_def)
  with assms len obtain t s where s: "on_reader peek_tag (r, found) = Some (Some t, s)"
    and rest: "(if (case t of Tag_Str _ \<Rightarrow> False | _ \<Rightarrow> True)
      then discard depth (fst s) \<bind> (\<lambda>r. Some (Some (length keys), r, snd s))
      else try_opt (on_reader expect_str s) (\<lambda>len s.
          try_opt (on_reader (read_bytes (unat len)) s) (\<lambda>bytes s. find_key bytes keys 0 s)))
        = Some (Some i, r', found')"
    unfolding expect_key_cstr_def by (auto elim: try_opt_SomeE)
  from on_reader_SomeD [OF s] obtain r1 where s1: "s = (r1, found)" by blast
  show ?thesis
  proof (cases "case t of Tag_Str _ \<Rightarrow> False | _ \<Rightarrow> True")
    case True
    with rest s1 len show ?thesis by (auto simp: bind_eq_Some_conv)
  next
    case False
    with rest obtain n s2 where s2: "on_reader expect_str (r1, found) = Some (Some n, s2)"
      and r2: "try_opt (on_reader (read_bytes (unat n)) s2) (\<lambda>bytes s. find_key bytes keys 0 s)
        = Some (Some i, r', found')"
      by (auto simp: s1 elim: try_opt_SomeE)
    from on_reader_SomeD [OF s2] obtain r2 where s2': "s2 = (r2, found)" by blast
    from r2 obtain bytes s3 where s3: "on_reader (read_bytes (unat n)) (r2, found) = Some (Some bytes, s3)"
      and res: "find_key bytes keys 0 s3 = Some (Some i, r', found')"
      by (auto simp: s2' elim: try_opt_SomeE)
    from on_reader_SomeD [OF s3] obtain r3 where "s3 = (r3, found)" by blast
    with res find_key_report [of bytes keys 0 r3 found i r' found'] len show ?thesis by simp
  qed
qed

interpretation cstr_keys: key_table "expect_key_cstr depth keys" for depth keys
  by unfold_locales (rule expect_key_cstr_report)

text \<open>The first key equal to the string that was read.\<close>

lemma find_key_first:
  assumes "j + length keys = length found"
  shows "find_key bytes keys j (r, found) =
    (if bytes \<in> set keys
     then let i = j + length (takeWhile (\<lambda>k. k \<noteq> bytes) keys) in
          if found ! i then Some (None, flag_error Err_Invalid r, found)
          else Some (Some i, r, found[i := True])
     else Some (Some (length found), r, found))"
  using assms
proof (induction keys arbitrary: j)
  case (Cons key keys)
  then show ?case
    using Cons.IH [of "j + 1"] by (auto simp: checked Let_def)
qed simp

end
