(* ===== verification/Expect_Theorems.thy ===== *)
theory Expect_Theorems
  imports Expect_Keys Timestamps
begin

section \<open>What the expect module guarantees\<close>

text \<open>
  The properties of \<open>src/expect.rs\<close>: the contract of all its functions, the integer functions by
  value and range, strings and C strings, or-nil compounds, tag equality, map keys, timestamps.
\<close>

lemma tag_integer_bounds:
  "tag_integer t = Some k \<Longrightarrow> - (2 ^ 63) \<le> k \<and> k < 2 ^ 64"
proof (cases t)
  case (Tag_Int v)
  moreover assume "tag_integer t = Some k"
  ultimately show ?thesis
    using sint_ge [of v] sint_lt [of v] by (simp add: tag_integer_def)
next
  case (Tag_Uint v)
  moreover assume "tag_integer t = Some k"
  ultimately have "k = uint v"
    by (simp add: tag_integer_def)
  moreover have "0 \<le> uint v" "uint v < 2 ^ 64"
    using unsigned_less [where 'a = int, of v] by simp_all
  ultimately show ?thesis
    using order_trans [of "- (2 ^ 63)" 0 k] by simp
qed (simp_all add: tag_integer_def)

lemma ucast_word_of_int:
  "LENGTH('a::len) \<le> 64 \<Longrightarrow> (ucast (word_of_int k :: u64) :: 'a word) = word_of_int k"
  by (rule bit_word_eqI) (simp add: bit_simps)

lemma select_uint_integer:
  assumes "tag_integer t = Some k" and "LENGTH('a::len) \<le> 64"
  shows "and_select fits_uint tag_u64 t
    = (if 0 \<le> k \<and> k < 2 ^ LENGTH('a) then Some (word_of_int k :: 'a word) else None)"
proof (cases "0 \<le> k")
  case True
  have u: "int (unat (word_of_int k :: u64)) = k"
    using True tag_integer_bounds [OF assms(1)] by (simp add: unsigned_of_int take_bit_int_eq_self)
  have "unat (word_of_int k :: u64) \<le> 2 ^ LENGTH('a) - 1 \<longleftrightarrow> unat (word_of_int k :: u64) < 2 ^ LENGTH('a)"
    by (simp add: Suc_le_eq [symmetric] le_diff_conv2)
  also have "\<dots> \<longleftrightarrow> int (unat (word_of_int k :: u64)) < int (2 ^ LENGTH('a))"
    by (simp only: of_nat_less_iff)
  also have "\<dots> \<longleftrightarrow> k < 2 ^ LENGTH('a)"
    unfolding u by simp
  finally show ?thesis
    using True assms u by (simp add: and_select_def tag_u64_integer fits_uint_def ucast_word_of_int)
next
  case False
  then show ?thesis by (simp add: and_select_def tag_u64_integer assms)
qed

lemma select_int_integer:
  assumes "tag_integer t = Some k" and "LENGTH('a::len) \<le> 64"
  shows "and_select fits_int tag_i64 t
    = (if - (2 ^ (LENGTH('a) - 1)) \<le> k \<and> k < 2 ^ (LENGTH('a) - 1)
       then Some (word_of_int k :: 'a word) else None)"
proof -
  have le: "(2 :: int) ^ (LENGTH('a) - 1) \<le> 2 ^ 63"
    using assms(2) by (intro power_increasing) simp_all
  show ?thesis
  proof (cases "k < 2 ^ 63")
    case True
    have "sint (word_of_int k :: u64) = k"
      using True tag_integer_bounds [OF assms(1)] by (simp add: signed_of_int signed_take_bit_int_eq_self)
    with True assms show ?thesis
      by (simp add: and_select_def tag_i64_integer fits_int_def ucast_word_of_int zle_diff1_eq)
  next
    case False
    then show ?thesis
      using le by (auto simp: and_select_def tag_i64_integer assms(1))
  qed
qed

text \<open>Every value-returning function of the module meets the reader's contract: no panic, the input
  unchanged, only forward moves within it, an earlier error frozen, and a value exactly when no
  error is set afterwards.\<close>

theorem expect_values_contract:
  "reads expect_u8 \<and> reads expect_u16 \<and> reads expect_u32 \<and> reads expect_u64
   \<and> reads expect_i8 \<and> reads expect_i16 \<and> reads expect_i32 \<and> reads expect_i64
   \<and> reads (expect_u8_range a8 b8) \<and> reads (expect_u16_range a16 b16)
   \<and> reads (expect_u32_range a32 b32) \<and> reads (expect_u64_range a64 b64)
   \<and> reads (expect_i8_range a8 b8) \<and> reads (expect_i16_range a16 b16)
   \<and> reads (expect_i32_range a32 b32) \<and> reads (expect_i64_range a64 b64)
   \<and> reads expect_float \<and> reads expect_double \<and> reads expect_float_strict
   \<and> reads expect_double_strict \<and> reads (expect_float_range a32 b32)
   \<and> reads (expect_double_range a64 b64) \<and> reads expect_bool \<and> reads expect_timestamp
   \<and> reads expect_timestamp_truncate \<and> reads expect_map \<and> reads (expect_map_range a32 b32)
   \<and> reads expect_map_or_nil \<and> reads (expect_map_max_or_nil b32)
   \<and> reads expect_array \<and> reads (expect_array_range a32 b32)
   \<and> reads expect_array_or_nil \<and> reads (expect_array_max_or_nil b32)
   \<and> reads expect_str \<and> reads expect_bin \<and> reads expect_ext
   \<and> reads_with expect_str_buf \<and> reads_with expect_utf8 \<and> reads_with expect_bin_buf
   \<and> reads_with expect_ext_buf"
proof -
  have r: "reads (expect_uint_range expect_uint lo hi)" "reads (expect_int_range expect_int lo hi)" for lo hi
    by (simp_all only: expect_integer_select expect_range_select reading.select_reads)
  have n: "reads expect_map_or_nil" "reads expect_array_or_nil"
    "reads (expect_map_max_or_nil b32)" "reads (expect_array_max_or_nil b32)"
    unfolding expect_map_or_nil_def [abs_def] expect_array_or_nil_def [abs_def]
      expect_map_max_or_nil_def [abs_def] expect_array_max_or_nil_def [abs_def]
    by (rule compound_or_nil_reads)+
  show ?thesis
    unfolding expect_functions by (intro conjI contracts r n)
qed

text \<open>The functions that answer with a flag answer \<open>true\<close> exactly when the reader has no error
  afterwards; they too never panic and never move backwards, and those that fill a buffer keep its
  length.\<close>

theorem expect_flags_contract:
  "checks (expect_uint_match uv) \<and> checks (expect_int_match iv) \<and> checks expect_nil
   \<and> checks expect_true \<and> checks expect_false \<and> checks (expect_map_match n)
   \<and> checks (expect_array_match n) \<and> checks (expect_tag t) \<and> checks (expect_str_match s)
   \<and> checks_with expect_cstr \<and> checks_with expect_utf8_cstr
   \<and> checks_with (expect_bin_size_buf n)"
  by (intro conjI contracts)

text \<open>The integer functions of every width work on the value: an integer of either signedness, in
  any format, is accepted exactly when it is representable in the requested type, and yields that
  value; otherwise the error is \<open>Type\<close>.\<close>

theorem expect_integers_by_value:
  assumes "r_error r = Err_Ok" and "header hs t" and "unread r = hs @ rest"
    and "tag_integer t = Some k" and "LENGTH('a::len) \<le> 64"
  shows "expect_uint r =
      (if 0 \<le> k \<and> k < 2 ^ LENGTH('a) then Some (Some (word_of_int k :: 'a word), advance (length hs) r)
       else Some (None, flag_error Err_Type (advance (length hs) r)))
    \<and> expect_int r =
      (if - (2 ^ (LENGTH('a) - 1)) \<le> k \<and> k < 2 ^ (LENGTH('a) - 1)
       then Some (Some (word_of_int k :: 'a word), advance (length hs) r)
       else Some (None, flag_error Err_Type (advance (length hs) r)))"
proof -
  note some = reading.select_value [OF assms(1-3)] and none = reading.select_mismatch [OF assms(1-3)]
  note u = select_uint_integer [OF assms(4,5)] and i = select_int_integer [OF assms(4,5)]
  show ?thesis
    unfolding expect_integer_select
    using some [of "and_select fits_uint tag_u64" "word_of_int k :: 'a word"]
      none [of "and_select fits_uint tag_u64 :: _ \<Rightarrow> 'a word option"]
      some [of "and_select fits_int tag_i64" "word_of_int k :: 'a word"]
      none [of "and_select fits_int tag_i64 :: _ \<Rightarrow> 'a word option"]
    by (simp add: u i split: if_split)
qed

theorem expect_integers_by_value_witness:
  "\<exists>r. expect_uint (reader_new [0xd1, 1, 0]) = Some (None :: u8 option, r) \<and> r_error r = Err_Type"
proof -
  have "to_be_bytes (256 :: i16) = [1, 0]"
    by code_simp
  then have "header [0xd1, 1, 0] (Tag_Int (scast (256 :: i16)))"
    using int16 [of 256] by simp
  moreover have "tag_integer (Tag_Int (scast (256 :: i16))) = Some 256"
    by (simp add: tag_integer_def)
  moreover have "unread (reader_new [0xd1, 1, 0]) = [0xd1, 1, 0] @ []" "r_error (reader_new [0xd1, 1, 0]) = Err_Ok"
    by (simp_all add: unread_def reader_new_def)
  ultimately show ?thesis
    using expect_integers_by_value [where 'a = 8, of "reader_new [0xd1, 1, 0]" "[0xd1, 1, 0]" _ "[]" 256]
    by (simp add: flag_error_error)
qed

text \<open>The range functions accept exactly the integers that are representable and lie between the
  two bounds, both included, unsigned or signed according to the type.\<close>

theorem expect_ranges_by_value:
  assumes "r_error r = Err_Ok" and "header hs t" and "unread r = hs @ rest"
    and "tag_integer t = Some k" and "LENGTH('a::len) \<le> 64"
  shows "expect_uint_range expect_uint lo hi r =
      (if uint lo \<le> k \<and> k \<le> uint hi then Some (Some (word_of_int k :: 'a word), advance (length hs) r)
       else Some (None, flag_error Err_Type (advance (length hs) r)))
    \<and> expect_int_range expect_int lo hi r =
      (if sint lo \<le> k \<and> k \<le> sint hi then Some (Some (word_of_int k :: 'a word), advance (length hs) r)
       else Some (None, flag_error Err_Type (advance (length hs) r)))"
proof -
  note some = reading.select_value [OF assms(1-3)] and none = reading.select_mismatch [OF assms(1-3)]
  note u = select_uint_integer [OF assms(4,5)] and i = select_int_integer [OF assms(4,5)]
  have ub: "0 \<le> uint lo" "uint hi < 2 ^ LENGTH('a)"
    using unsigned_less [where 'a = int, of hi] by simp_all
  have sb: "- (2 ^ (LENGTH('a) - 1)) \<le> sint lo" "sint hi < 2 ^ (LENGTH('a) - 1)"
    by (rule sint_ge, rule sint_lt)
  have U: "and_select (within unat lo hi) (and_select fits_uint tag_u64) t
      = (if uint lo \<le> k \<and> k \<le> uint hi then Some (word_of_int k) else None)"
  proof (cases "0 \<le> k \<and> k < 2 ^ LENGTH('a)")
    case True
    have "uint (word_of_int k :: 'a word) = k"
      using True by (simp add: unsigned_of_int take_bit_int_eq_self)
    moreover have "unat x \<le> unat y \<longleftrightarrow> uint x \<le> uint y" for x y :: "'a word"
      by (simp only: flip: word_le_nat_alt word_le_def)
    ultimately have "unat lo \<le> unat (word_of_int k :: 'a word) \<longleftrightarrow> uint lo \<le> k"
      "unat (word_of_int k :: 'a word) \<le> unat hi \<longleftrightarrow> k \<le> uint hi"
      by simp_all
    with True show ?thesis by (simp add: and_select_def [of "within unat lo hi"] u within_def)
  next
    case False
    then have "\<not> (uint lo \<le> k \<and> k \<le> uint hi)"
      using ub by linarith
    with False show ?thesis
      unfolding and_select_def [of "within unat lo hi"] u by auto
  qed
  have I: "and_select (within sint lo hi) (and_select fits_int tag_i64) t
      = (if sint lo \<le> k \<and> k \<le> sint hi then Some (word_of_int k) else None)"
  proof (cases "- (2 ^ (LENGTH('a) - 1)) \<le> k \<and> k < 2 ^ (LENGTH('a) - 1)")
    case True
    have "sint (word_of_int k :: 'a word) = k"
      using True by (simp add: signed_of_int signed_take_bit_int_eq_self)
    with True show ?thesis by (simp add: and_select_def [of "within sint lo hi"] i within_def)
  next
    case False
    then show ?thesis
      using sb by (auto simp: and_select_def [of "within sint lo hi"] i)
  qed
  show ?thesis
    unfolding expect_integer_select expect_range_select
    using some [of "and_select (within unat lo hi) (and_select fits_uint tag_u64)" "word_of_int k"]
      none [of "and_select (within unat lo hi) (and_select fits_uint tag_u64)"]
      some [of "and_select (within sint lo hi) (and_select fits_int tag_i64)" "word_of_int k"]
      none [of "and_select (within sint lo hi) (and_select fits_int tag_i64)"]
    by (simp add: U I split: if_split)
qed

theorem expect_ranges_by_value_witness:
  "\<exists>r. expect_int_range expect_int (- 3) 5 (reader_new [4]) = Some (Some (4 :: i8), r)"
proof -
  have "header [4] (Tag_Uint 4)"
    using pos_fixint [of 4] by simp
  moreover have "tag_integer (Tag_Uint 4) = Some 4"
    by (simp add: tag_integer_def)
  moreover have "unread (reader_new [4]) = [4] @ []" "r_error (reader_new [4]) = Err_Ok"
    by (simp_all add: unread_def reader_new_def)
  ultimately show ?thesis
    using expect_ranges_by_value [where 'a = 8, of "reader_new [4]" "[4]" _ "[]" 4 "- 3" 5] by simp
qed

text \<open>\<open>str\<close> reads by type byte, yet it accepts exactly the string headers that \<open>read_tag\<close> accepts,
  with the same length and the same bytes consumed.\<close>

theorem expect_str_exact:
  assumes "wf_reader r" and "r_error r = Err_Ok"
  shows "expect_str r = Some (Some n, r') \<longleftrightarrow>
    (\<exists>hs rest. header hs (Tag_Str n) \<and> unread r = hs @ rest \<and> r' = advance (length hs) r)"
  using expect_str_SomeD [OF assms] expect_str_header [OF assms(2)] by blast

theorem expect_str_exact_witness:
  "\<exists>r. expect_str (reader_new [0xd9, 1, 65]) = Some (Some 1, r)"
proof -
  have "header [0xd9, 1] (Tag_Str 1)"
    using str8 [of 1] by simp
  moreover have "unread (reader_new [0xd9, 1, 65]) = [0xd9, 1] @ [65]" "r_error (reader_new [0xd9, 1, 65]) = Err_Ok"
    by (simp_all add: unread_def reader_new_def)
  ultimately show ?thesis
    using expect_str_exact [OF wf_reader_new, of "[0xd9, 1, 65]" 1] by blast
qed

text \<open>\<open>str_buf\<close> and \<open>utf8\<close> on a string whose payload is present: a string longer than the buffer is
  \<open>TooBig\<close> with nothing of it consumed; otherwise the payload is copied to the front of the buffer,
  the rest of the buffer is untouched, and \<open>utf8\<close> accepts it exactly when it is valid UTF-8.\<close>

theorem expect_string_buffers:
  assumes "wf_reader r" and "r_error r = Err_Ok" and "header hs (Tag_Str n)"
    and "unread r = hs @ val @ rest" and "length val = unat n"
  shows "expect_str_buf (r, buf) =
      (if length buf < unat n then Some (None, flag_error Err_TooBig (advance (length hs) r), buf)
       else Some (Some (unat n), advance (length hs + unat n) r, val @ drop (unat n) buf))
    \<and> expect_utf8 (r, buf) =
      (if length buf < unat n then Some (None, flag_error Err_TooBig (advance (length hs) r), buf)
       else if encoded_text True val
       then Some (Some (unat n), advance (length hs + unat n) r, val @ drop (unat n) buf)
       else Some (None, flag_error Err_Type (advance (length hs + unat n) r), val @ drop (unat n) buf))"
proof -
  let ?r = "advance (length hs) r"
  have u: "unread ?r = val @ rest"
    using assms(4) by simp
  have "wf_reader ?r"
    using assms(1,2,4) advances_wf advances_advance [of r "length hs"] by simp
  then have "read_bytes (unat n) ?r = Some (Some val, advance (length hs + unat n) r)"
    using assms(2,5) u by (simp add: read_bytes_ok)
  with expect_str_header [OF assms(2-4)] assms(5) show ?thesis
    by (simp add: expect_str_buf_def expect_utf8_def on_reader_def too_big_def copy_into_ok checked
        check_utf8_def check_utf8_iff)
qed

theorem expect_string_buffers_witness:
  "expect_str_buf (reader_new [0xa1, 65], [0, 7]) =
     Some (Some 1, advance 2 (reader_new [0xa1, 65]), [65, 7])"
proof -
  have "header [0xa1] (Tag_Str 1)"
    using fixstr [of 1] by simp
  moreover have "unread (reader_new [0xa1, 65]) = [0xa1] @ [65] @ []" "r_error (reader_new [0xa1, 65]) = Err_Ok"
    by (simp_all add: unread_def reader_new_def)
  ultimately show ?thesis
    using expect_string_buffers [OF wf_reader_new, of "[0xa1, 65]" "[0xa1]" 1 "[65]" "[]" "[0, 7]"]
    by (simp add: numeral_2_eq_2)
qed

text \<open>\<open>cstr\<close> on a string with its payload: \<open>true\<close> exactly when the text and a terminator fit and it
  holds no NUL (for \<open>utf8_cstr\<close>: is valid UTF-8 without NUL); the buffer then holds the text and
  the terminator, and otherwise its first byte is cleared, so that it holds the empty string.\<close>

theorem expect_cstr_buffers:
  assumes "wf_reader r" and "r_error r = Err_Ok" and "header hs (Tag_Str n)"
    and "unread r = hs @ val @ rest" and "length val = unat n" and "buf \<noteq> []"
  shows "\<exists>r1 r2.
      expect_cstr (r, buf) =
        (if unat n < length buf \<and> 0 \<notin> set val
         then Some (True, r1, val @ 0 # drop (unat n + 1) buf) else Some (False, r1, buf[0 := 0]))
    \<and> expect_utf8_cstr (r, buf) =
        (if unat n < length buf \<and> encoded_text False val
         then Some (True, r2, val @ 0 # drop (unat n + 1) buf) else Some (False, r2, buf[0 := 0]))"
  using cstr_with_header [OF assms(1-4,6)] assms(5)
  by (simp add: cstr_with Let_def check_utf8_no_null_def check_utf8_iff Suc_le_eq)

theorem expect_cstr_buffers_witness:
  "\<exists>r. expect_cstr (reader_new [0xa1, 65], [9, 9, 9]) = Some (True, r, [65, 0, 9])"
proof -
  have "header [0xa1] (Tag_Str 1)"
    using fixstr [of 1] by simp
  moreover have "unread (reader_new [0xa1, 65]) = [0xa1] @ [65] @ []" "r_error (reader_new [0xa1, 65]) = Err_Ok"
    by (simp_all add: unread_def reader_new_def)
  ultimately show ?thesis
    using expect_cstr_buffers [OF wf_reader_new, of "[0xa1, 65]" "[0xa1]" 1 "[65]" "[]" "[9, 9, 9]"]
    by (auto simp: numeral_3_eq_3)
qed

text \<open>The or-nil compounds: a nil is accepted as such, a map (or array) with its count when the count
  is allowed, and everything else is a type error; in every case exactly the header is consumed.
  On an input with no header nothing is consumed and the error is \<open>Invalid\<close>.\<close>

theorem compound_or_nil_exact:
  assumes "r_error r = Err_Ok"
  shows "(header hs t \<and> unread r = hs @ rest \<longrightarrow> compound_or_nil want_map m r =
      (let r' = advance (length hs) r in
       if t = Tag_Nil then Some (Some \<lparr>is_nil = True, compound_len = 0\<rparr>, r')
       else case (if want_map then tag_map t else tag_array t) of
         Some n \<Rightarrow> if allowed m n then Some (Some \<lparr>is_nil = False, compound_len = n\<rparr>, r')
                   else Some (None, flag_error Err_Type r')
       | None \<Rightarrow> Some (None, flag_error Err_Type r')))
    \<and> (\<not> has_header (unread r) \<longrightarrow>
         compound_or_nil want_map m r = Some (None, flag_error Err_Invalid r))"
  using compound_or_nil_header [OF assms, of hs t rest want_map m] compound_or_nil_reject [OF assms]
  by (auto simp: Let_def tag_compound_def type_error_def split: if_splits option.split)

theorem compound_or_nil_exact_witness:
  "compound_or_nil True None (reader_new [0xc0]) =
     Some (Some \<lparr>is_nil = True, compound_len = 0\<rparr>, advance (length [0xc0 :: u8]) (reader_new [0xc0]))"
proof -
  have "header [0xc0] Tag_Nil" by (rule header.nil)
  moreover have "unread (reader_new [0xc0]) = [0xc0] @ []" "r_error (reader_new [0xc0]) = Err_Ok"
    by (simp_all add: unread_def reader_new_def)
  ultimately show ?thesis
    using compound_or_nil_exact [of "reader_new [0xc0]" "[0xc0]" Tag_Nil "[]" True None] by (simp add: Let_def)
qed

text \<open>\<open>key_uint\<close> on an unsigned key: an index below the table length is reported and flagged the
  first time, is the error \<open>Invalid\<close> the second time, and a larger key is reported as unknown. On
  any other key the whole key is discarded and reported as unknown.\<close>

theorem expect_key_uint_exact:
  assumes "r_error r = Err_Ok" and "header hs t" and "unread r = hs @ rest" and "found \<noteq> []"
  shows "expect_key_uint depth (r, found) =
    (case t of
       Tag_Uint k \<Rightarrow>
         (let r' = advance (length hs) r in
          if length found \<le> unat k then Some (Some (length found), r', found)
          else if found ! unat k then Some (None, flag_error Err_Invalid r', found)
          else Some (Some (unat k), r', found[unat k := True]))
     | _ \<Rightarrow> map_option (\<lambda>r'. (Some (length found), r', found)) (discard depth r))"
proof (cases "\<exists>k. t = Tag_Uint k")
  case True
  then show ?thesis
    using expect_key_uint_header [OF assms(1) _ assms(3,4)] assms(2) by auto
next
  case False
  then show ?thesis
    using expect_key_uint_other [OF assms] by (auto split: tag.split option.split)
qed

theorem expect_key_uint_exact_witness:
  "\<exists>r. expect_key_uint 5 (reader_new [1], [False, False]) = Some (Some 1, r, [False, True])"
proof -
  have "header [1] (Tag_Uint 1)"
    using pos_fixint [of 1] by simp
  moreover have "unread (reader_new [1]) = [1] @ []" "r_error (reader_new [1]) = Err_Ok"
    by (simp_all add: unread_def reader_new_def)
  ultimately show ?thesis
    using expect_key_uint_exact [of "reader_new [1]" "[1]" "Tag_Uint 1" "[]" "[False, False]" 5]
    by (simp add: Let_def)
qed

text \<open>However a caller interleaves its reads, over a run of successful \<open>key_uint\<close> or \<open>key_cstr\<close> calls
  on one table no index is reported twice, and at the end exactly the reported indices and those
  flagged before are flagged.\<close>

theorem keys_reported_once:
  "(key_run (expect_key_uint depth) found is found' \<longrightarrow>
      distinct (List.filter (\<lambda>i. i < length found) is)
      \<and> (\<forall>i < length found. found' ! i \<longleftrightarrow> found ! i \<or> i \<in> set is))
   \<and> (key_run (expect_key_cstr depth keys) found is found' \<longrightarrow>
      distinct (List.filter (\<lambda>i. i < length found) is)
      \<and> (\<forall>i < length found. found' ! i \<longleftrightarrow> found ! i \<or> i \<in> set is))"
  using uint_keys.run_distinct [of depth found "is" found'] cstr_keys.run_distinct [of depth keys found "is" found']
  by simp

theorem keys_reported_once_witness:
  "key_run (expect_key_uint 5) [False] [0] [True]
   \<and> distinct (List.filter (\<lambda>i. i < length [False]) [0])"
proof -
  have h: "header [0] (Tag_Uint 0)"
    using pos_fixint [of 0] by simp
  have u: "unread (reader_new [0]) = [0] @ []" "r_error (reader_new [0]) = Err_Ok"
    by (simp_all add: unread_def reader_new_def)
  have "expect_key_uint 5 (reader_new [0], [False])
      = Some (Some 0, advance (length [0 :: u8]) (reader_new [0]), [False][0 := True])"
    using expect_key_uint_header [OF u(2) h u(1), of "[False]" 5] by (simp add: Let_def)
  then have "key_run (expect_key_uint 5) [False] [0] [True]"
    by (auto intro: key_run.intros)
  with keys_reported_once [of 5 "[False]" "[0]" "[True]"] show ?thesis by simp
qed

text \<open>No bytes that are read as a timestamp are shorter than those of the layout \<open>write_timestamp\<close> chooses.\<close>

lemma ext_header_length:
  assumes "header hs (Tag_Ext ty n)"
  shows "2 \<le> length hs" and "unat n = 12 \<Longrightarrow> 3 \<le> length hs"
  using header_shortest [OF assms] by (auto simp: enc_ext_def split: if_splits)

lemma timestamp_of_bytes_range:
  assumes "timestamp_of_bytes sz bytes = Some ts"
  shows "sz = 4 \<Longrightarrow> nanoseconds ts = 0 \<and> 0 \<le> sint (seconds ts) \<and> sint (seconds ts) \<le> 4294967295"
    and "sz = 8 \<Longrightarrow> 0 \<le> sint (seconds ts) \<and> sint (seconds ts) < 2 ^ 34"
proof -
  have small: "sint (w :: i64) = int (unat w)" if "unat w < 2 ^ 63" for w
  proof -
    have "int (unat w) < int (2 ^ 63)"
      using that by (simp only: of_nat_less_iff)
    then have "uint w < 2 ^ 63"
      by simp
    then have "signed_take_bit 63 (uint w) = uint w"
      by (intro signed_take_bit_int_eq_self) (simp_all add: order.trans [OF _ uint_ge_0])
    then show ?thesis
      by (simp add: sint_uint)
  qed
  have four: "0 \<le> sint (ucast (w :: u32) :: i64) \<and> sint (ucast w :: i64) \<le> 4294967295" for w
    using small [of "ucast w"] unat_u32_less [of w] uint_bounded [of w] by (simp add: unat_ucast_up)
  have eight: "0 \<le> sint (w AND (push_bit 34 1 - 1) :: i64) \<and> sint (w AND (push_bit 34 1 - 1) :: i64) < 2 ^ 34" for w
  proof -
    have "w AND (push_bit 34 1 - 1) = take_bit 34 w"
      by (simp only: push_bit_of_1 take_bit_eq_mask mask_eq_exp_minus_1)
    moreover have u: "unat (take_bit 34 w) < 2 ^ 34"
      unfolding unsigned_take_bit_eq by (rule take_bit_nat_less_exp)
    moreover have "sint (take_bit 34 w) = int (unat (take_bit 34 w))"
      by (rule small) (rule less_trans [OF u], simp)
    ultimately show ?thesis
      by (simp only: of_nat_0_le_iff) (metis of_nat_less_iff of_nat_numeral of_nat_power)
  qed
  show "sz = 4 \<Longrightarrow> nanoseconds ts = 0 \<and> 0 \<le> sint (seconds ts) \<and> sint (seconds ts) \<le> 4294967295"
    using assms four by (auto simp: timestamp_of_bytes_def bind_eq_Some_conv)
  show "sz = 8 \<Longrightarrow> 0 \<le> sint (seconds ts) \<and> sint (seconds ts) < 2 ^ 34"
    using assms eight by (auto simp: timestamp_of_bytes_def bind_eq_Some_conv)
qed

lemma read_timestamp_SomeD:
  assumes "read_timestamp sz r = Some (Some ts, r')"
  shows "sz \<in> {4, 8, 12}" and "r_position r' = r_position r + sz" and "\<exists>bytes. timestamp_of_bytes sz bytes = Some ts"
  using assms
  by (auto simp: read_timestamp_def require_def bind_eq_Some_conv Let_def split: if_splits)

lemma timestamp_layout_length:
  "length (enc_ext 0xff (length (timestamp_payload secs nanos)) @ timestamp_payload secs nanos)
   = (if nanos = 0 \<and> 0 \<le> sint secs \<and> sint secs < 2 ^ 32 then 6 else if 0 \<le> sint secs \<and> sint secs < 2 ^ 34 then 10 else 15)"
  by (auto simp: timestamp_payload_def enc_ext_def)

lemma timestamp_layout_shortest:
  assumes "expect_timestamp (reader_new bs) = Some (Some \<lparr>seconds = secs, nanoseconds = nanos\<rparr>, r)"
  shows "length (enc_ext 0xff (length (timestamp_payload secs nanos)) @ timestamp_payload secs nanos) \<le> r_position r"
proof -
  obtain ty len r1 where ext: "expect_ext (reader_new bs) = Some (Some (ty, len), r1)"
    and ts: "read_timestamp (unat len) r1 = Some (Some \<lparr>seconds = secs, nanoseconds = nanos\<rparr>, r)"
    using assms by (auto simp: expect_timestamp_def type_error_def elim!: try_opt_SomeE split: if_splits)
  obtain hs t rest where h: "header hs t" "tag_ext t = Some (ty, len)" "r1 = advance (length hs) (reader_new bs)"
    using reading.select_SomeD [OF wf_reader_new, of tag_ext bs "(ty, len)" r1] ext
    unfolding expect_select by metis
  have t: "t = Tag_Ext ty len"
    using h(2) by (cases t) auto
  note hs = ext_header_length [OF h(1) [unfolded t]] and read = read_timestamp_SomeD [OF ts]
  obtain bytes where "timestamp_of_bytes (unat len) bytes = Some \<lparr>seconds = secs, nanoseconds = nanos\<rparr>"
    using read(3) by blast
  note range = timestamp_of_bytes_range [OF this]
  have "r_position r = length hs + unat len"
    using read(2) h(3) by (simp add: reader_new_def)
  with read(1) range hs show ?thesis
    unfolding timestamp_layout_length by auto
qed

text \<open>C34. A timestamp the writer has written completely is read back exactly: \<open>write_timestamp\<close> chooses
  the shortest of the three layouts, six, ten or fifteen bytes, and \<open>expect_timestamp\<close> recovers the same
  seconds and nanoseconds from it and consumes exactly what was written. No bytes from which the same timestamp
  is read are shorter.\<close>

theorem timestamp_roundtrip:
  assumes "unat nanos \<le> 999999999" and "write_timestamp secs nanos (writer_new buf) = Some w"
    and "w_error w = Err_Ok"
  shows "(\<exists>r. expect_timestamp (reader_new (emitted w)) = Some (Some \<lparr>seconds = secs, nanoseconds = nanos\<rparr>, r)
    \<and> unread r = [])
    \<and> length (emitted w) = (if nanos = 0 \<and> 0 \<le> sint secs \<and> sint secs < 2 ^ 32 then 6
      else if 0 \<le> sint secs \<and> sint secs < 2 ^ 34 then 10 else 15)
    \<and> (\<forall>bs r. expect_timestamp (reader_new bs) = Some (Some \<lparr>seconds = secs, nanoseconds = nanos\<rparr>, r) \<longrightarrow>
        length (emitted w) \<le> r_position r)"
proof -
  let ?p = "timestamp_payload secs nanos" let ?n = "length ?p" let ?h = "enc_ext 0xff ?n"
  have len: "?n \<in> {4, 8, 12}"
    by (rule timestamp_payload_length)
  then have n32: "?n < 2 ^ 32" by auto
  have w: "w = emit (?h @ ?p) (writer_new buf)"
    using assms(1,2) by (simp add: write_timestamp_emit)
  have em: "?h @ ?p = emitted w"
    using assms(3) emit_fits(1) [of "writer_new buf" "?h @ ?p"] emit_too_big [of "writer_new buf" "?h @ ?p"]
    unfolding w by (cases "length (?h @ ?p) \<le> room (writer_new buf)") (simp_all add: emitted_new)
  have h: "header ?h (Tag_Ext 0xff (word_of_nat ?n))"
    using n32 by (rule header_enc_lens(6))
  have u: "unread (reader_new (?h @ ?p)) = ?h @ ?p" "r_error (reader_new (?h @ ?p)) = Err_Ok"
    by (simp_all add: unread_def reader_new_def)
  let ?r = "advance (length ?h) (reader_new (?h @ ?p))"
  have ext: "expect_ext (reader_new (?h @ ?p)) = Some (Some (0xff, word_of_nat ?n), ?r)"
    unfolding expect_select by (rule reading.select_value [OF u(2) h u(1)]) simp
  have un: "unat (word_of_nat ?n :: u32) = ?n"
    using n32 by (intro unat_of_nat_small) simp
  have "wf_reader ?r"
    by (simp add: wf_reader_def reader_new_def)
  then have "read_timestamp ?n ?r = Some (Some \<lparr>seconds = secs, nanoseconds = nanos\<rparr>, advance ?n ?r)"
    using timestamp_recovered [OF assms(1)] len u assms(1) by (subst read_timestamp_ok) auto
  with ext un have "expect_timestamp (reader_new (?h @ ?p))
      = Some (Some \<lparr>seconds = secs, nanoseconds = nanos\<rparr>, advance ?n ?r)"
    by (simp add: expect_timestamp_def timestamp_ext_type_def)
  moreover have "unread (advance ?n ?r) = []"
    using u by simp
  ultimately show ?thesis
    unfolding em [symmetric] timestamp_layout_length [symmetric]
    using timestamp_layout_shortest by (intro conjI allI impI exI [of _ "advance ?n ?r"]) simp_all
qed

theorem timestamp_roundtrip_witness:
  "\<exists>w. write_timestamp 1 0 (writer_new (replicate 6 0)) = Some w
    \<and> (\<exists>r. expect_timestamp (reader_new (emitted w)) = Some (Some \<lparr>seconds = 1, nanoseconds = 0\<rparr>, r))
    \<and> length (emitted w) = 6"
proof -
  let ?w = "emit (enc_ext 0xff 4 @ to_be_bytes (1 :: u32)) (writer_new (replicate 6 0))"
  have "timestamp_payload 1 0 = to_be_bytes (1 :: u32)"
    by (simp add: timestamp_payload_def)
  then have w: "write_timestamp 1 0 (writer_new (replicate 6 0)) = Some ?w"
    using write_timestamp_emit [of "writer_new (replicate 6 0)" 0 1] by simp
  moreover have "w_error ?w = Err_Ok"
    by (simp add: emit_def writer_new_def enc_ext_def)
  ultimately show ?thesis
    using timestamp_roundtrip [OF _ w] by auto
qed

end
