(* ===== verification/Node_Parse.thy ===== *)
theory Node_Parse
  imports Reader_Typed
begin

section \<open>The tree parser (\<open>src/node.rs\<close>)\<close>

text \<open>
  \<open>Tree::parse\<close>: the node table, the iterative parser with its explicit stack, and the tree it
  builds. The stack's last frame is the head of the list. The loop of \<open>parse_tree\<close> is
  \<open>parse_loop\<close>; \<open>parse_child\<close> is one iteration that reads a node, \<open>Inl\<close> its early returns.
  \<open>reserve\<close> on the vector of children is an allocation and has no effect on the state.
\<close>

record node_data =
  nd_tag :: tag
  nd_payload_off :: nat
  nd_children :: "nat list"

record parse_frame =
  pf_node_index :: nat
  pf_remaining :: u32

record tree =
  t_data :: "u8 list"
  t_nodes :: "node_data list"
  t_root :: "nat option"
  t_error :: error
  t_size :: nat

definition can_add_node :: "node_data list \<Rightarrow> nat option \<Rightarrow> bool" where
  "can_add_node nodes max_nodes = (case max_nodes of Some m \<Rightarrow> length nodes < m | None \<Rightarrow> True)"

definition reserve_children :: "reader \<Rightarrow> u32 \<Rightarrow> (bool \<times> reader) option" where
  "reserve_children r child_nodes =
     (if child_nodes = 0 then Some (True, r)
      else do {
        left \<leftarrow> remaining r;
        (if unat child_nodes > left then Some (False, flag_error Err_Invalid r) else Some (True, r))
      })"

definition compound_remaining :: "tag \<Rightarrow> u32 option" where
  "compound_remaining t =
     (case t of Tag_Array count \<Rightarrow> Some count | Tag_Map count \<Rightarrow> checked_mul count 2 | _ \<Rightarrow> None)"

definition parse_push_node ::
  "nat option \<Rightarrow> reader \<Rightarrow> node_data list \<Rightarrow> (nat option \<times> reader \<times> node_data list) option"
where
  "parse_push_node max_nodes r nodes =
     (if \<not> can_add_node nodes max_nodes then Some (None, flag_error Err_TooBig r, nodes)
      else do {
        (t, r) \<leftarrow> read_tag r;
        (case t of
           None \<Rightarrow> Some (None, r, nodes)
         | Some t \<Rightarrow>
             let payload_off = r_position r;
                 push = (\<lambda>r. Some (Some (length nodes), r,
                   nodes @ [\<lparr>nd_tag = t, nd_payload_off = payload_off, nd_children = []\<rparr>]));
                 payload = (\<lambda>len. case skip_bytes (unat len) r of
                   (False, r) \<Rightarrow> Some (None, r, nodes) | (True, r) \<Rightarrow> push r)
             in case t of
                  Tag_Str len \<Rightarrow> payload len
                | Tag_Bin len \<Rightarrow> payload len
                | Tag_Ext _ len \<Rightarrow> payload len
                | Tag_Map count \<Rightarrow>
                    if checked_mul count 2 = None then Some (None, flag_error Err_Invalid r, nodes)
                    else push r
                | _ \<Rightarrow> push r)
      })"

text \<open>The bookkeeping after a node was pushed: the byte budget of its children and its frame.\<close>

definition open_compound ::
  "nat \<Rightarrow> reader \<Rightarrow> node_data list \<Rightarrow> parse_frame list \<Rightarrow>
     (reader \<times> node_data list + reader \<times> node_data list \<times> parse_frame list) option"
where
  "open_compound i r nodes stack = do {
     node \<leftarrow> index nodes i;
     (case compound_remaining (nd_tag node) of
        None \<Rightarrow> Some (Inr (r, nodes, stack))
      | Some left \<Rightarrow> do {
          (fits, r) \<leftarrow> reserve_children r left;
          (if \<not> fits then Some (Inl (r, nodes))
           else if unat left > 0
           then Some (Inr (r, nodes, \<lparr>pf_node_index = i, pf_remaining = left\<rparr> # stack))
           else Some (Inr (r, nodes, stack)))
        })
   }"

definition parse_child ::
  "nat option \<Rightarrow> reader \<Rightarrow> node_data list \<Rightarrow> parse_frame \<Rightarrow> parse_frame list \<Rightarrow>
     (reader \<times> node_data list + reader \<times> node_data list \<times> parse_frame list) option"
where
  "parse_child max_nodes r nodes frame stack =
     (let frame = frame\<lparr>pf_remaining := pf_remaining frame - 1\<rparr>;
          parent = pf_node_index frame
      in do {
        (child, r, nodes) \<leftarrow> parse_push_node max_nodes r nodes;
        (case child of
           None \<Rightarrow> Some (Inl (r, nodes))
         | Some child \<Rightarrow> do {
             node \<leftarrow> index nodes parent;
             let nodes = nodes[parent := node\<lparr>nd_children := nd_children node @ [child]\<rparr>];
             (if r_error r \<noteq> Err_Ok then Some (Inl (r, nodes))
              else open_compound child r nodes (frame # stack))
           })
      })"

subsection \<open>Every node consumes input, so the loop ends\<close>

lemma read_tag_consumes:
  assumes "read_tag r = Some (Some t, r')"
  shows "length (unread r') < length (unread r)"
proof -
  have ok: "r_error r = Err_Ok"
    using assms reading.sticky [of r] by (cases "r_error r = Err_Ok") auto
  have "has_header (unread r)"
    using assms reading.reject [OF ok] by (cases "has_header (unread r)") auto
  then obtain hs t' rest where h: "header hs t'" "unread r = hs @ rest"
    by (auto simp: has_header_def)
  with assms reading.accept [OF ok h] header_length [OF h(1)] show ?thesis by auto
qed

lemma skip_bytes_unread: "skip_bytes n r = (b, r') \<Longrightarrow> length (unread r') \<le> length (unread r)"
  by (cases "r_error r = Err_Ok") (auto simp: skip_bytes_ok split: if_splits)

lemma parse_push_node_consumes:
  assumes "parse_push_node max_nodes r nodes = Some (Some i, r', nodes')"
  shows "length (unread r') < length (unread r)"
proof -
  from assms obtain t r1 where t: "read_tag r = Some (Some t, r1)"
    by (auto simp: parse_push_node_def bind_eq_Some_conv split: if_splits option.splits)
  have "length (unread r') \<le> length (unread r1)"
    using assms t
    by (cases t) (auto simp: parse_push_node_def Let_def dest: skip_bytes_unread
        split: if_splits prod.splits bool.splits)
  with read_tag_consumes [OF t] show ?thesis by simp
qed

lemma reserve_children_unread:
  "reserve_children r n = Some (b, r') \<Longrightarrow> unread r' = unread r"
  by (auto simp: reserve_children_def remaining_def split: if_splits)

lemma open_compound_stack:
  "open_compound i r nodes stack = Some (Inr (r', nodes', stack')) \<Longrightarrow>
     unread r' = unread r \<and> length stack' \<le> Suc (length stack)"
  by (auto simp: open_compound_def bind_eq_Some_conv dest: reserve_children_unread
      split: option.splits if_splits)

lemma parse_child_measure:
  "parse_child max_nodes r nodes frame stack = Some (Inr (r', nodes', stack')) \<Longrightarrow>
     2 * length (unread r') + length stack' < 2 * length (unread r) + Suc (length stack)"
  by (auto simp: parse_child_def bind_eq_Some_conv Let_def dest!: parse_push_node_consumes open_compound_stack
      split: option.splits if_splits)

function parse_loop ::
  "nat option \<Rightarrow> reader \<Rightarrow> node_data list \<Rightarrow> parse_frame list \<Rightarrow>
     (bool \<times> reader \<times> node_data list) option"
where
  "parse_loop max_nodes r nodes stack =
     (case stack of
        [] \<Rightarrow> Some (True, r, nodes)
      | frame # rest \<Rightarrow>
          if pf_remaining frame = 0 then parse_loop max_nodes r nodes rest
          else
            (case parse_child max_nodes r nodes frame rest of
               None \<Rightarrow> None
             | Some (Inl (r, nodes)) \<Rightarrow> Some (False, r, nodes)
             | Some (Inr (r, nodes, stack)) \<Rightarrow> parse_loop max_nodes r nodes stack))"
  by pat_completeness auto
termination
  by (relation "measure (\<lambda>(_, r, _, stack). 2 * length (unread r) + length stack)")
    (auto dest!: parse_child_measure)

declare parse_loop.simps [simp del]

subsection \<open>The whole parse\<close>

text \<open>\<open>parse_tree\<close> returns the root on success; the caller reads the error off the reader.\<close>

definition parse_tree ::
  "nat option \<Rightarrow> reader \<Rightarrow> (nat option \<times> reader \<times> node_data list) option"
where
  "parse_tree max_nodes r = do {
     left \<leftarrow> remaining r;
     (if left = 0 then Some (None, flag_error Err_Invalid r, [])
      else do {
        (root, r, nodes) \<leftarrow> parse_push_node max_nodes r [];
        (case root of
           None \<Rightarrow> Some (None, r, nodes)
         | Some root \<Rightarrow> do {
             opened \<leftarrow> open_compound root r nodes [];
             (case opened of
                Inl (r, nodes) \<Rightarrow> Some (None, r, nodes)
              | Inr (r, nodes, stack) \<Rightarrow> do {
                  (finished, r, nodes) \<leftarrow> parse_loop max_nodes r nodes stack;
                  (if \<not> finished \<or> r_error r \<noteq> Err_Ok then Some (None, r, nodes)
                   else Some (Some root, r, nodes))
                })
           })
      })
   }"

definition parse_with_limits :: "u8 list \<Rightarrow> nat option \<Rightarrow> tree option" where
  "parse_with_limits data max_nodes = do {
     (root, r, nodes) \<leftarrow> parse_tree max_nodes (reader_new data);
     Some \<lparr>t_data = data, t_nodes = nodes,
           t_root = (if r_error r = Err_Ok then root else None),
           t_error = r_error r,
           t_size = (if r_error r = Err_Ok then r_position r else 0)\<rparr>
   }"

definition tree_parse :: "u8 list \<Rightarrow> tree option" where
  "tree_parse data = parse_with_limits data None"

text \<open>Byte-size gates for loading a whole file; \<open>file_size as usize\<close> of a positive \<open>i64\<close>.\<close>

definition check_file_tree_bytes :: "i64 \<Rightarrow> nat \<Rightarrow> error + nat" where
  "check_file_tree_bytes file_size max_bytes =
     (if sint file_size < 0 then Inl Err_Io
      else if file_size = 0 then Inl Err_Invalid
      else
        (let n = unat file_size
         in if max_bytes \<noteq> 0 \<and> n > max_bytes then Inl Err_TooBig else Inr n))"

end
