(* ===== verification/Node_Tree.thy ===== *)
theory Node_Tree
  imports Node_Parse Reader_Discard
begin

section \<open>The node table is the value that was parsed\<close>

text \<open>
  \<open>represents data nodes i v\<close>: the node at index \<open>i\<close> of the table, with the nodes its child indices
  lead to and the payload bytes its offsets point at, is the value \<open>v\<close>. The parser is proved to
  succeed exactly when the input starts with the encoding of a value that fits the node limit, and
  to build a table whose root represents that value.
\<close>

inductive represents :: "u8 list \<Rightarrow> node_data list \<Rightarrow> nat \<Rightarrow> mvalue \<Rightarrow> bool"
  for data nodes where
  node: "i < length nodes \<Longrightarrow> nd_tag (nodes ! i) = t \<Longrightarrow>
    nd_payload_off (nodes ! i) + payload_len t \<le> length data \<Longrightarrow>
    pl = take (payload_len t) (drop (nd_payload_off (nodes ! i)) data) \<Longrightarrow>
    list_all2 (represents data nodes) (nd_children (nodes ! i)) vs \<Longrightarrow>
    \<forall>c\<in>set (nd_children (nodes ! i)). i < c \<Longrightarrow>
    length vs = child_count t \<Longrightarrow>
    represents data nodes i (MValue t pl vs)"

inductive_cases representsE: "represents data nodes i (MValue t pl vs)"

fun node_count :: "mvalue \<Rightarrow> nat" where
  "node_count (MValue t pl vs) = Suc (sum_list (map node_count vs))"

definition room_for :: "nat option \<Rightarrow> nat \<Rightarrow> bool" where
  "room_for max_nodes n = (case max_nodes of None \<Rightarrow> True | Some m \<Rightarrow> n \<le> m)"

lemma can_add_room: "can_add_node nodes max_nodes \<longleftrightarrow> room_for max_nodes (Suc (length nodes))"
  by (auto simp: can_add_node_def room_for_def split: option.split)

lemma room_for_le: "room_for max_nodes n \<Longrightarrow> m \<le> n \<Longrightarrow> room_for max_nodes m"
  by (auto simp: room_for_def split: option.splits)

definition add_children :: "nat \<Rightarrow> nat list \<Rightarrow> node_data list \<Rightarrow> node_data list" where
  "add_children p cs nodes = nodes[p := (nodes ! p)\<lparr>nd_children := nd_children (nodes ! p) @ cs\<rparr>]"

lemma length_add_children [simp]: "length (add_children p cs nodes) = length nodes"
  by (simp add: add_children_def)

lemma add_children_append:
  "p < length nodes \<Longrightarrow> add_children p cs (nodes @ ns) = add_children p cs nodes @ ns"
  by (simp add: add_children_def nth_append list_update_append1)

lemma add_children_twice:
  "p < length nodes \<Longrightarrow> add_children p ds (add_children p cs nodes) = add_children p (cs @ ds) nodes"
  by (simp add: add_children_def)

lemma add_children_last:
  "add_children (length nodes) cs (nodes @ [nd]) = nodes @ [nd\<lparr>nd_children := nd_children nd @ cs\<rparr>]"
  by (simp add: add_children_def)

subsection \<open>One node\<close>

lemma remaining_unread: "wf_reader r \<Longrightarrow> remaining r = Some (length (unread r))"
  by (simp add: remaining_def wf_reader_def length_unread)

lemma checked_mul_small:
  assumes "2 * unat n < 2 ^ 32"
  shows "\<exists>w. checked_mul (n :: u32) 2 = Some w \<and> unat w = 2 * unat n"
proof -
  have "checked_mul n 2 = Some (n * 2)"
    using assms by (simp add: checked_mul_def)
  with checked_mul_two_unat [OF this] show ?thesis by blast
qed

lemma compound_remaining_Some:
  assumes "child_count t < 2 ^ 32"
  shows "compound_remaining t = None \<and> child_count t = 0
    \<or> (\<exists>w. compound_remaining t = Some w \<and> unat w = child_count t)"
  using assms checked_mul_small by (cases t) (auto simp: compound_remaining_def)

lemma parse_push_node_ok:
  assumes ok: "r_error r = Err_Ok" and h: "header hs t" and u: "unread r = hs @ pl @ rest"
    and pl: "length pl = payload_len t" and cc: "child_count t < 2 ^ 32"
    and room: "room_for max_nodes (Suc (length nodes))"
  shows "parse_push_node max_nodes r nodes
    = Some (Some (length nodes), advance (length hs + length pl) r,
        nodes @ [\<lparr>nd_tag = t, nd_payload_off = r_position r + length hs, nd_children = []\<rparr>])"
  using reading.accept [OF ok h u] ok u pl cc room checked_mul_small
  by (cases t) (auto simp: parse_push_node_def can_add_room skip_bytes_ok Let_def)

lemma open_compound_ok:
  assumes wf: "wf_reader r" and i: "i < length nodes" and t: "nd_tag (nodes ! i) = t"
    and cc: "child_count t < 2 ^ 32"
  shows "child_count t = 0 \<Longrightarrow> open_compound i r nodes stack = Some (Inr (r, nodes, stack))"
    and "0 < child_count t \<Longrightarrow> child_count t \<le> length (unread r) \<Longrightarrow>
      \<exists>w. unat w = child_count t
        \<and> (\<forall>stack. open_compound i r nodes stack = Some (Inr (r, nodes, \<lparr>pf_node_index = i, pf_remaining = w\<rparr> # stack)))"
    and "length (unread r) < child_count t \<Longrightarrow>
      open_compound i r nodes stack = Some (Inl (flag_error Err_Invalid r, nodes))"
  using compound_remaining_Some [OF cc] assms
  by (auto simp: open_compound_def checked reserve_children_def remaining_unread unat_eq_zero)

lemma parse_child_ok:
  assumes "parse_push_node max_nodes r nodes = Some (Some i, r', nodes')" and "p < length nodes'"
    and "r_error r' = Err_Ok"
  shows "parse_child max_nodes r nodes \<lparr>pf_node_index = p, pf_remaining = w\<rparr> stack
    = open_compound i r' (add_children p [i] nodes') (\<lparr>pf_node_index = p, pf_remaining = w - 1\<rparr> # stack)"
  using assms by (simp add: parse_child_def checked Let_def add_children_def)

lemma parse_loop_pop:
  "parse_loop max_nodes r nodes (\<lparr>pf_node_index = p, pf_remaining = 0\<rparr> # stack) = parse_loop max_nodes r nodes stack"
  by (subst parse_loop.simps) simp

lemma unat_pred: "unat (w :: u32) = Suc k \<Longrightarrow> w \<noteq> 0 \<and> unat (w - 1) = k"
  by (metis Suc_eq_plus1 diff_Suc_1 nat.distinct(1) unat_0 unat_minus_one)

subsection \<open>Completeness: a value is parsed into nodes that represent it\<close>

text \<open>\<open>fills\<close>: with \<open>length vs\<close> children of node \<open>p\<close> left to read, the loop reads the encodings \<open>bs\<close>
  of \<open>vs\<close>, appends their nodes and links them to \<open>p\<close>.\<close>

definition fills :: "nat option \<Rightarrow> u8 list \<Rightarrow> mvalue list \<Rightarrow> bool" where
  "fills max_nodes bs vs \<longleftrightarrow> (\<forall>r rest nodes p w k.
     r_error r = Err_Ok \<longrightarrow> wf_reader r \<longrightarrow> unread r = bs @ rest \<longrightarrow> length (unread r) < 2 ^ 32 \<longrightarrow>
     p < length nodes \<longrightarrow> unat w = length vs + k \<longrightarrow>
     room_for max_nodes (length nodes + sum_list (map node_count vs)) \<longrightarrow>
     (\<exists>w' cs ns. unat w' = k
       \<and> (\<forall>stack. parse_loop max_nodes r nodes (\<lparr>pf_node_index = p, pf_remaining = w\<rparr> # stack)
         = parse_loop max_nodes (advance (length bs) r) (add_children p cs nodes @ ns)
             (\<lparr>pf_node_index = p, pf_remaining = w'\<rparr> # stack))
       \<and> length ns = sum_list (map node_count vs)
       \<and> (\<forall>c\<in>set cs. length nodes \<le> c)
       \<and> (\<forall>ctx post. length ctx = length nodes \<longrightarrow>
             list_all2 (represents (r_data r) (ctx @ ns @ post)) cs vs)))"

lemma fillsE:
  assumes "fills max_nodes bs vs" and "r_error r = Err_Ok" and "wf_reader r" and "unread r = bs @ rest"
    and "length (unread r) < 2 ^ 32" and "p < length nodes" and "unat w = length vs + k"
    and "room_for max_nodes (length nodes + sum_list (map node_count vs))"
  obtains w' cs ns where "unat w' = k"
    and "\<And>stack. parse_loop max_nodes r nodes (\<lparr>pf_node_index = p, pf_remaining = w\<rparr> # stack)
         = parse_loop max_nodes (advance (length bs) r) (add_children p cs nodes @ ns)
             (\<lparr>pf_node_index = p, pf_remaining = w'\<rparr> # stack)"
    and "length ns = sum_list (map node_count vs)"
    and "\<forall>c\<in>set cs. length nodes \<le> c"
    and "\<And>ctx post. length ctx = length nodes \<Longrightarrow>
             list_all2 (represents (r_data r) (ctx @ ns @ post)) cs vs"
  using assms unfolding fills_def by blast

text \<open>The node of a whole value, once its header and payload are read.\<close>

lemma fill_node:
  assumes f: "fills max_nodes bs vs" and b: "values_bytes bs vs"
    and ok: "r_error r = Err_Ok" and wf: "wf_reader r"
    and u: "unread r = bs @ rest" and short: "length (unread r) < 2 ^ 32"
    and len: "length vs = child_count t" and nd: "nd_tag nd = t" "nd_children nd = []"
    and room: "room_for max_nodes (Suc (length nodes) + sum_list (map node_count vs))"
  obtains cs ns where "length ns = sum_list (map node_count vs)"
    and "\<forall>c\<in>set cs. length nodes < c"
    and "\<And>ctx post. length ctx = Suc (length nodes) \<Longrightarrow>
      list_all2 (represents (r_data r) (ctx @ ns @ post)) cs vs"
    and "\<And>stack. \<exists>nodes1 stack1.
      open_compound (length nodes) r (nodes @ [nd]) stack = Some (Inr (r, nodes1, stack1))
      \<and> parse_loop max_nodes r nodes1 stack1
        = parse_loop max_nodes (advance (length bs) r) (nodes @ nd\<lparr>nd_children := cs\<rparr> # ns) stack"
proof (cases "vs = []")
  case True
  have "open_compound (length nodes) r (nodes @ [nd]) stack = Some (Inr (r, nodes @ [nd], stack))" for stack
    using open_compound_ok(1) [OF wf, of "length nodes" "nodes @ [nd]" t] True len nd by simp
  moreover have "nd\<lparr>nd_children := []\<rparr> = nd"
    using nd(2) by simp
  ultimately show ?thesis
    using True b by (intro that [of "[]" "[]"]) simp_all
next
  case False
  have cc: "child_count t < 2 ^ 32" "0 < child_count t" "child_count t \<le> length (unread r)"
    using len values_bytes_length [OF b] u short False length_greater_0_conv [of vs] by auto
  have t: "nd_tag ((nodes @ [nd]) ! length nodes) = t"
    using nd by simp
  obtain w where w: "unat w = child_count t" and opened:
    "\<And>stack. open_compound (length nodes) r (nodes @ [nd]) stack
      = Some (Inr (r, nodes @ [nd], \<lparr>pf_node_index = length nodes, pf_remaining = w\<rparr> # stack))"
    using open_compound_ok(2) [OF wf _ t cc] by auto
  from fillsE [OF f ok wf u short, of "length nodes" "nodes @ [nd]" w 0] w len room
  obtain w' cs ns where r: "unat w' = 0"
    "\<And>stack. parse_loop max_nodes r (nodes @ [nd]) (\<lparr>pf_node_index = length nodes, pf_remaining = w\<rparr> # stack)
         = parse_loop max_nodes (advance (length bs) r) (add_children (length nodes) cs (nodes @ [nd]) @ ns)
             (\<lparr>pf_node_index = length nodes, pf_remaining = w'\<rparr> # stack)"
    "length ns = sum_list (map node_count vs)" "\<forall>c\<in>set cs. length (nodes @ [nd]) \<le> c"
    "\<And>ctx post. length ctx = length (nodes @ [nd]) \<Longrightarrow>
             list_all2 (represents (r_data r) (ctx @ ns @ post)) cs vs"
    by auto
  have "w' = 0"
    using r(1) by (simp add: unat_eq_zero)
  with r opened nd(2) show ?thesis
    by (intro that [of ns cs]) (auto simp: parse_loop_pop add_children_last)
qed

lemma fills_append:
  assumes 1: "fills max_nodes bs vs" and 2: "fills max_nodes bs' vs'"
  shows "fills max_nodes (bs @ bs') (vs @ vs')"
  unfolding fills_def
proof (intro allI impI)
  fix r rest and nodes :: "node_data list" and p w k
  assume ok: "r_error r = Err_Ok" and wf: "wf_reader r" and u: "unread r = (bs @ bs') @ rest"
    and short: "length (unread r) < 2 ^ 32" and p: "p < length nodes"
    and w: "unat (w :: u32) = length (vs @ vs') + k"
    and room: "room_for max_nodes (length nodes + sum_list (map node_count (vs @ vs')))"
  have "room_for max_nodes (length nodes + sum_list (map node_count vs))"
    using room by (rule room_for_le) simp
  moreover have "unread r = bs @ bs' @ rest" "unat w = length vs + (length vs' + k)"
    using u w by simp_all
  ultimately obtain w1 cs ns where a: "unat w1 = length vs' + k"
    "\<And>stack. parse_loop max_nodes r nodes (\<lparr>pf_node_index = p, pf_remaining = w\<rparr> # stack)
         = parse_loop max_nodes (advance (length bs) r) (add_children p cs nodes @ ns)
             (\<lparr>pf_node_index = p, pf_remaining = w1\<rparr> # stack)"
    "length ns = sum_list (map node_count vs)" "\<forall>c\<in>set cs. length nodes \<le> c"
    "\<And>ctx post. length ctx = length nodes \<Longrightarrow> list_all2 (represents (r_data r) (ctx @ ns @ post)) cs vs"
    using fillsE [OF 1 ok wf _ short p] by metis
  let ?nodes = "add_children p cs nodes @ ns" and ?r = "advance (length bs) r"
  have wf1: "wf_reader ?r"
    using ok u by (intro advances_wf [OF advances_advance wf]) simp_all
  have "r_error ?r = Err_Ok" "unread ?r = bs' @ rest" "length (unread ?r) < 2 ^ 32"
      "p < length ?nodes" "room_for max_nodes (length ?nodes + sum_list (map node_count vs'))"
    using ok u short p a(3) room by (simp_all add: add.assoc)
  from fillsE [OF 2 this(1) wf1 this(2-4) a(1) this(5)]
  obtain w2 cs' ns' where b: "unat w2 = k"
    "\<And>stack. parse_loop max_nodes ?r ?nodes (\<lparr>pf_node_index = p, pf_remaining = w1\<rparr> # stack)
         = parse_loop max_nodes (advance (length bs') ?r) (add_children p cs' ?nodes @ ns')
             (\<lparr>pf_node_index = p, pf_remaining = w2\<rparr> # stack)"
    "length ns' = sum_list (map node_count vs')" "\<forall>c\<in>set cs'. length ?nodes \<le> c"
    "\<And>ctx post. length ctx = length ?nodes \<Longrightarrow> list_all2 (represents (r_data r) (ctx @ ns' @ post)) cs' vs'"
    by auto
  have all: "list_all2 (represents (r_data r) (ctx @ (ns @ ns') @ post)) (cs @ cs') (vs @ vs')"
    if "length ctx = length nodes" for ctx post
    using a(5) [OF that, of "ns' @ post"] b(5) [of "ctx @ ns" post] that by (simp add: list_all2_appendI)
  have "\<forall>c\<in>set cs'. length nodes \<le> c"
    using b(4) by auto
  with a(1-4) b(1-3) p all show "\<exists>w' cs ns. unat w' = k
       \<and> (\<forall>stack. parse_loop max_nodes r nodes (\<lparr>pf_node_index = p, pf_remaining = w\<rparr> # stack)
         = parse_loop max_nodes (advance (length (bs @ bs')) r) (add_children p cs nodes @ ns)
             (\<lparr>pf_node_index = p, pf_remaining = w'\<rparr> # stack))
       \<and> length ns = sum_list (map node_count (vs @ vs'))
       \<and> (\<forall>c\<in>set cs. length nodes \<le> c)
       \<and> (\<forall>ctx post. length ctx = length nodes \<longrightarrow>
             list_all2 (represents (r_data r) (ctx @ ns @ post)) cs (vs @ vs'))"
    by (intro exI [of _ w2] exI [of _ "cs @ cs'"] exI [of _ "ns @ ns'"])
      (auto simp: add_children_append add_children_twice ball_Un)
qed

lemma parse_fills:
  "value_bytes bs v \<Longrightarrow> fills max_nodes bs [v]"
  "values_bytes bs vs \<Longrightarrow> fills max_nodes bs vs"
proof (induction rule: value_bytes_values_bytes.inducts)
  case (one_value hs t pl vs bs)
  show ?case
    unfolding fills_def
  proof (intro allI impI)
    fix r rest and nodes :: "node_data list" and p w k
    assume ok: "r_error r = Err_Ok" and wf: "wf_reader r" and u: "unread r = (hs @ pl @ bs) @ rest"
      and short: "length (unread r) < 2 ^ 32" and p: "p < length nodes"
      and w: "unat (w :: u32) = length [MValue t pl vs] + k"
      and room: "room_for max_nodes (length nodes + sum_list (map node_count [MValue t pl vs]))"
    let ?r = "advance (length hs + length pl) r"
    let ?nd = "\<lparr>nd_tag = t, nd_payload_off = r_position r + length hs, nd_children = []\<rparr>"
    let ?nodes = "add_children p [length nodes] nodes"
    have cc: "child_count t < 2 ^ 32"
      using one_value(3) values_bytes_length [OF one_value(4)] u short by simp
    have push: "parse_push_node max_nodes r nodes = Some (Some (length nodes), ?r, nodes @ [?nd])"
      using parse_push_node_ok [OF ok one_value(1) _ one_value(2) cc room_for_le [OF room]] u by simp
    have w1: "w \<noteq> 0" "unat (w - 1) = k"
      using unat_pred [of w k] w by simp_all
    have step: "parse_loop max_nodes r nodes (\<lparr>pf_node_index = p, pf_remaining = w\<rparr> # stack) =
      (case open_compound (length ?nodes) ?r (?nodes @ [?nd]) (\<lparr>pf_node_index = p, pf_remaining = w - 1\<rparr> # stack) of
         None \<Rightarrow> None | Some (Inl (r, nodes)) \<Rightarrow> Some (False, r, nodes)
       | Some (Inr (r, nodes, stack)) \<Rightarrow> parse_loop max_nodes r nodes stack)" for stack
      using parse_child_ok [OF push, of p w stack] p ok w1(1)
      by (subst parse_loop.simps) (simp add: add_children_append)
    have wf1: "wf_reader ?r"
      using ok u by (intro advances_wf [OF advances_advance wf]) simp_all
    have "room_for max_nodes (Suc (length ?nodes) + sum_list (map node_count vs))"
      by (rule room_for_le [OF room]) simp
    moreover have "unread ?r = bs @ rest" "length (unread ?r) < 2 ^ 32" "r_error ?r = Err_Ok"
      "nd_tag ?nd = t" "nd_children ?nd = []"
      using u short ok by simp_all
    ultimately obtain cs ns where ns: "length ns = sum_list (map node_count vs)"
      "\<forall>c\<in>set cs. length ?nodes < c"
      "\<And>ctx post. length ctx = Suc (length ?nodes) \<Longrightarrow> list_all2 (represents (r_data ?r) (ctx @ ns @ post)) cs vs"
      "\<And>stack. \<exists>nodes1 stack1.
        open_compound (length ?nodes) ?r (?nodes @ [?nd]) stack = Some (Inr (?r, nodes1, stack1))
        \<and> parse_loop max_nodes ?r nodes1 stack1
          = parse_loop max_nodes (advance (length bs) ?r) (?nodes @ ?nd\<lparr>nd_children := cs\<rparr> # ns) stack"
      by (metis fill_node [OF one_value.IH one_value(4) _ wf1 _ _ one_value(3)])
    have run: "parse_loop max_nodes r nodes (\<lparr>pf_node_index = p, pf_remaining = w\<rparr> # stack)
      = parse_loop max_nodes (advance (length (hs @ pl @ bs)) r) (?nodes @ (?nd\<lparr>nd_children := cs\<rparr> # ns))
          (\<lparr>pf_node_index = p, pf_remaining = w - 1\<rparr> # stack)" for stack
      using ns(4) [of "\<lparr>pf_node_index = p, pf_remaining = w - 1\<rparr> # stack"] step [of stack]
      by (auto simp: add.assoc)
    have rep: "represents (r_data r) (ctx @ (?nd\<lparr>nd_children := cs\<rparr> # ns) @ post) (length nodes) (MValue t pl vs)"
      if "length ctx = length nodes" for ctx post
    proof (rule represents.node)
      show "list_all2 (represents (r_data r) (ctx @ (?nd\<lparr>nd_children := cs\<rparr> # ns) @ post))
        (nd_children ((ctx @ (?nd\<lparr>nd_children := cs\<rparr> # ns) @ post) ! length nodes)) vs"
        using ns(3) [of "ctx @ [?nd\<lparr>nd_children := cs\<rparr>]" post] that by (simp add: nth_append)
      have d: "drop (r_position r) (r_data r) = hs @ pl @ bs @ rest" "r_position r \<le> length (r_data r)"
        using u wf by (simp_all add: unread_def wf_reader_def)
      then have "drop (length hs + r_position r) (r_data r) = pl @ bs @ rest"
        by (simp flip: drop_drop)
      with that show "pl = take (payload_len t)
        (drop (nd_payload_off ((ctx @ (?nd\<lparr>nd_children := cs\<rparr> # ns) @ post) ! length nodes)) (r_data r))"
        using one_value(2) by (simp add: nth_append add.commute)
      have "length (r_data r) = r_position r + length (hs @ pl @ bs @ rest)"
        using d by (metis le_add_diff_inverse length_drop)
      with that show "nd_payload_off ((ctx @ (?nd\<lparr>nd_children := cs\<rparr> # ns) @ post) ! length nodes)
        + payload_len t \<le> length (r_data r)"
        using one_value(2) by (simp add: nth_append)
    qed (use that ns(2) one_value(3) in \<open>simp_all add: nth_append\<close>)
    show "\<exists>w' cs ns. unat w' = k
       \<and> (\<forall>stack. parse_loop max_nodes r nodes (\<lparr>pf_node_index = p, pf_remaining = w\<rparr> # stack)
         = parse_loop max_nodes (advance (length (hs @ pl @ bs)) r) (add_children p cs nodes @ ns)
             (\<lparr>pf_node_index = p, pf_remaining = w'\<rparr> # stack))
       \<and> length ns = sum_list (map node_count [MValue t pl vs])
       \<and> (\<forall>c\<in>set cs. length nodes \<le> c)
       \<and> (\<forall>ctx post. length ctx = length nodes \<longrightarrow>
             list_all2 (represents (r_data r) (ctx @ ns @ post)) cs [MValue t pl vs])"
      using run rep ns(1) w1(2)
      by (intro exI [of _ "w - 1"] exI [of _ "[length nodes]"] exI [of _ "?nd\<lparr>nd_children := cs\<rparr> # ns"]) simp
  qed
next
  case no_values
  show ?case
    unfolding fills_def
  proof (intro allI impI)
    fix r :: reader and nodes :: "node_data list" and p and w :: u32 and k
    assume "unat w = length [] + k" "p < length nodes"
    then show "\<exists>w' cs ns. unat w' = k
       \<and> (\<forall>stack. parse_loop max_nodes r nodes (\<lparr>pf_node_index = p, pf_remaining = w\<rparr> # stack)
         = parse_loop max_nodes (advance (length []) r) (add_children p cs nodes @ ns)
             (\<lparr>pf_node_index = p, pf_remaining = w'\<rparr> # stack))
       \<and> length ns = sum_list (map node_count [])
       \<and> (\<forall>c\<in>set cs. length nodes \<le> c)
       \<and> (\<forall>ctx post. length ctx = length nodes \<longrightarrow>
             list_all2 (represents (r_data r) (ctx @ ns @ post)) cs [])"
      by (intro exI [of _ w] exI [of _ "[]"]) (simp add: add_children_def)
  qed
next
  case (more_values bs v bs' vs)
  show ?case
    using more_values.IH by (rule fills_append [of _ bs "[v]" bs' vs, simplified])
qed

end
