(* ===== verification/Node_Sound.thy ===== *)
theory Node_Sound
  imports Node_Tree
begin

section \<open>What the tree parser accepts, and how it fails\<close>

text \<open>
  Soundness (an accepted input starts with the encoding of a value that fits the node limit), the
  absence of panics, the only two errors, and the comparison of a limited with an unlimited parse.
\<close>

subsection \<open>Soundness\<close>

lemma values_bytes_split:
  "values_bytes bs (vs @ vs') \<Longrightarrow> \<exists>b c. bs = b @ c \<and> values_bytes b vs \<and> values_bytes c vs'"
proof (induction vs arbitrary: bs)
  case (Cons v vs)
  then obtain b c where b: "bs = b @ c" "value_bytes b v" "values_bytes c (vs @ vs')"
    by auto
  with Cons.IH [of c] obtain c1 c2 where c: "c = c1 @ c2" "values_bytes c1 vs" "values_bytes c2 vs'"
    by blast
  have "values_bytes (b @ c1) (v # vs)"
    using b(2) c(2) by (rule more_values)
  with b c show ?case
    by (metis append_assoc)
qed simp

lemma parse_push_node_SomeD:
  assumes ok: "r_error r = Err_Ok" and run: "parse_push_node max_nodes r nodes = Some (Some i, r', nodes')"
  obtains hs t pl rest where "header hs t" and "length pl = payload_len t" and "unread r = hs @ pl @ rest"
    and "r' = advance (length hs + length pl) r" and "child_count t < 2 ^ 32"
    and "room_for max_nodes (Suc (length nodes))" and "i = length nodes"
    and "nodes' = nodes @ [\<lparr>nd_tag = t, nd_payload_off = r_position r + length hs, nd_children = []\<rparr>]"
proof -
  from run have room: "can_add_node nodes max_nodes"
    by (cases "can_add_node nodes max_nodes") (simp_all add: parse_push_node_def)
  have "has_header (unread r)"
    using run reading.reject [OF ok] room by (cases "has_header (unread r)") (auto simp: parse_push_node_def)
  then obtain hs t rest where h: "header hs t" "unread r = hs @ rest"
    by (auto simp: has_header_def)
  define pl where "pl = take (payload_len t) rest"
  have fits: "payload_len t \<le> length rest \<and> r' = advance (length hs + payload_len t) r
      \<and> child_count t < 2 ^ 32 \<and> i = length nodes
      \<and> nodes' = nodes @ [\<lparr>nd_tag = t, nd_payload_off = r_position r + length hs, nd_children = []\<rparr>]"
    using run room ok h reading.accept [OF ok h] unat_u32_less
    by (cases t) (auto simp: parse_push_node_def skip_bytes_ok Let_def dest: checked_mul_two_unat split: if_splits)
  show thesis
    using that [of hs t pl "drop (payload_len t) rest"] h fits room by (simp add: pl_def can_add_room)
qed

definition children_left :: "parse_frame list \<Rightarrow> nat" where
  "children_left stack = sum_list (map (\<lambda>f. unat (pf_remaining f)) stack)"

lemma children_left_simps [simp]:
  "children_left [] = 0"
  "children_left (f # stack) = unat (pf_remaining f) + children_left stack"
  by (simp_all add: children_left_def)

lemma open_compound_SomeD:
  assumes "open_compound i r nodes stack = Some (Inr (r', nodes', stack'))" and "wf_reader r"
    and "nd_tag (nodes ! i) = t" and "child_count t < 2 ^ 32"
  shows "r' = r \<and> nodes' = nodes \<and> children_left stack' = child_count t + children_left stack"
proof -
  from assms(1) have "i < length nodes"
    by (auto simp: open_compound_def index_def bind_eq_Some_conv split: if_splits)
  with assms open_compound_ok [OF assms(2) this assms(3,4)] show ?thesis
    by (cases "child_count t = 0"; cases "child_count t \<le> length (unread r)") auto
qed

lemma parse_child_SomeD:
  assumes run: "parse_child max_nodes r nodes f stack = Some (Inr (r', nodes', stack'))"
    and ok: "r_error r = Err_Ok" and wf: "wf_reader r" and left: "pf_remaining f \<noteq> 0"
  obtains hs t pl rest where "header hs t" and "length pl = payload_len t" and "unread r = hs @ pl @ rest"
    and "r' = advance (length hs + length pl) r" and "room_for max_nodes (Suc (length nodes))"
    and "length nodes' = Suc (length nodes)" and "wf_reader r'"
    and "Suc (children_left stack') = child_count t + children_left (f # stack)"
proof -
  from run obtain i r1 nodes1 where push: "parse_push_node max_nodes r nodes = Some (Some i, r1, nodes1)"
    by (auto simp: parse_child_def Let_def bind_eq_Some_conv split: option.splits)
  from parse_push_node_SomeD [OF ok push] obtain hs t pl rest where h: "header hs t"
      "length pl = payload_len t" "unread r = hs @ pl @ rest" "r1 = advance (length hs + length pl) r"
      "child_count t < 2 ^ 32" "room_for max_nodes (Suc (length nodes))" "i = length nodes"
      "nodes1 = nodes @ [\<lparr>nd_tag = t, nd_payload_off = r_position r + length hs, nd_children = []\<rparr>]" .
  let ?p = "pf_node_index f"
  let ?nodes = "nodes1[?p := (nodes1 ! ?p)\<lparr>nd_children := nd_children (nodes1 ! ?p) @ [i]\<rparr>]"
  from run have opened: "open_compound i r1 ?nodes (f\<lparr>pf_remaining := pf_remaining f - 1\<rparr> # stack)
      = Some (Inr (r', nodes', stack'))"
    by (auto simp: parse_child_def push Let_def bind_eq_Some_conv index_def split: if_splits)
  have wf1: "wf_reader r1"
    unfolding h(4) using ok h(3) by (intro advances_wf [OF advances_advance wf]) simp_all
  have "nd_tag (?nodes ! i) = t"
    by (cases "?p = i") (simp_all add: h(7,8) nth_append)
  from open_compound_SomeD [OF opened wf1 this h(5)]
  have "r' = r1" "nodes' = ?nodes"
    "children_left stack' = child_count t + (unat (pf_remaining f - 1) + children_left stack)"
    by simp_all
  moreover have "Suc (unat (pf_remaining f - 1)) = unat (pf_remaining f)"
    using left by (simp add: unat_minus_one unat_gt_0)
  ultimately show thesis
    using that [OF h(1-3)] h wf1 by simp
qed

text \<open>An accepted run of the loop has read the encodings of all the children that were left.\<close>

lemma parse_loop_sound:
  "parse_loop max_nodes r nodes stack = Some (True, r', nodes') \<Longrightarrow> r_error r = Err_Ok \<Longrightarrow> wf_reader r \<Longrightarrow>
    room_for max_nodes (length nodes) \<Longrightarrow>
    \<exists>bs vs rest. values_bytes bs vs \<and> length vs = children_left stack \<and> unread r = bs @ rest
      \<and> r' = advance (length bs) r \<and> length nodes' = length nodes + sum_list (map node_count vs)
      \<and> room_for max_nodes (length nodes')"
proof (induction max_nodes r nodes stack rule: parse_loop.induct)
  case (1 max_nodes r nodes stack)
  show ?case
  proof (cases stack)
    case Nil
    with 1(3-) show ?thesis
      by (auto simp: parse_loop.simps [of _ _ _ "[]"] intro!: exI [of _ "[]"])
  next
    case (Cons f rest)
    show ?thesis
    proof (cases "pf_remaining f = 0")
      case True
      with 1(3-) Cons 1(1) [OF Cons True] show ?thesis
        by (subst (asm) parse_loop.simps) (simp add: children_left_def)
    next
      case False
      from 1(3) False Cons obtain r1 nodes1 stack1
        where child: "parse_child max_nodes r nodes f rest = Some (Inr (r1, nodes1, stack1))"
        and run: "parse_loop max_nodes r1 nodes1 stack1 = Some (True, r', nodes')"
        by (subst (asm) parse_loop.simps) (auto split: option.splits sum.splits)
      from parse_child_SomeD [OF child 1(4,5) False] obtain hs t pl rest' where h: "header hs t"
        "length pl = payload_len t" "unread r = hs @ pl @ rest'" "r1 = advance (length hs + length pl) r"
        "room_for max_nodes (Suc (length nodes))" "length nodes1 = Suc (length nodes)" "wf_reader r1"
        "Suc (children_left stack1) = child_count t + children_left stack"
        unfolding Cons .
      have "r_error r1 = Err_Ok"
        using h(4) 1(4) by simp
      from 1(2) [OF Cons False child refl refl refl run this h(7)] h(5,6)
      obtain bs vs rest2 where vs: "values_bytes bs vs" "length vs = children_left stack1"
        "unread r1 = bs @ rest2" "r' = advance (length bs) r1"
        "length nodes' = length nodes1 + sum_list (map node_count vs)" "room_for max_nodes (length nodes')"
        by auto
      have "0 < children_left stack"
        using False by (simp add: Cons unat_gt_0)
      then have "length vs = child_count t + (children_left stack - 1)"
        using vs(2) h(8) by simp
      then obtain us ws where ws: "vs = us @ ws" "length us = child_count t" "length ws = children_left stack - 1"
        using that [of "take (child_count t) vs" "drop (child_count t) vs"] by simp
      with vs(1) values_bytes_split obtain b c where bc: "bs = b @ c" "values_bytes b us" "values_bytes c ws"
        by blast
      let ?v = "MValue t pl us"
      have "values_bytes ((hs @ pl @ b) @ c) (?v # ws)"
        using one_value [OF h(1,2) ws(2) bc(2)] bc(3) by (rule more_values)
      moreover have "length (?v # ws) = children_left stack"
        using ws(3) \<open>0 < children_left stack\<close> by simp
      moreover have "unread r = ((hs @ pl @ b) @ c) @ rest2"
        using h(3,4) vs(3) bc(1) 1(4) by simp
      moreover have "r' = advance (length ((hs @ pl @ b) @ c)) r"
        using h(4) vs(4) bc(1) by (simp add: add.assoc)
      moreover have "length nodes' = length nodes + sum_list (map node_count (?v # ws))"
        using vs(5) h(6) ws(1) by simp
      ultimately show ?thesis
        using vs(6) by blast
    qed
  qed
qed

subsection \<open>No panic, and two errors\<close>

definition parse_errors :: "nat option \<Rightarrow> error set" where
  "parse_errors max_nodes = (if max_nodes = None then {Err_Invalid} else {Err_Invalid, Err_TooBig})"

lemma parse_errors_simps [simp]:
  "Err_Invalid \<in> parse_errors max_nodes" "Err_Ok \<notin> parse_errors max_nodes"
  "Err_TooBig \<in> parse_errors max_nodes \<longleftrightarrow> max_nodes \<noteq> None"
  by (simp_all add: parse_errors_def)

lemma parse_push_node_total:
  assumes ok: "r_error r = Err_Ok" and wf: "wf_reader r"
  obtains (failed) r' nodes' where "parse_push_node max_nodes r nodes = Some (None, r', nodes')"
      and "r_error r' \<in> parse_errors max_nodes"
    | (pushed) r' nodes' where "parse_push_node max_nodes r nodes = Some (Some (length nodes), r', nodes')"
      and "r_error r' = Err_Ok" and "wf_reader r'" and "length nodes' = Suc (length nodes)"
proof (cases "can_add_node nodes max_nodes")
  case False
  then have "max_nodes \<noteq> None"
    by (auto simp: can_add_node_def split: option.splits)
  then show thesis
    using failed [of "flag_error Err_TooBig r" nodes] False ok
    by (simp add: parse_push_node_def flag_error_error)
next
  case room: True
  show thesis
  proof (cases "has_header (unread r)")
    case False
    then show thesis
      using failed [of "flag_error Err_Invalid (advance (reject_skip True (unread r)) r)" nodes]
        reading.reject [OF ok False] room ok
      by (simp add: parse_push_node_def flag_error_error)
  next
    case True
    then obtain hs t rest where h: "header hs t" "unread r = hs @ rest"
      by (auto simp: has_header_def)
    have tag: "read_tag r = Some (Some t, advance (length hs) r)"
      using reading.accept [OF ok h] .
    have cases: "(\<exists>r'. parse_push_node max_nodes r nodes = Some (None, r', nodes) \<and> r_error r' = Err_Invalid)
      \<or> (\<exists>nodes'. parse_push_node max_nodes r nodes
            = Some (Some (length nodes), advance (length hs + payload_len t) r, nodes')
          \<and> payload_len t \<le> length rest \<and> length nodes' = Suc (length nodes))"
      using tag room ok h
      by (cases t) (auto simp: parse_push_node_def skip_bytes_ok Let_def flag_error_error)
    then show thesis
    proof (elim disjE exE conjE)
      fix r' assume "parse_push_node max_nodes r nodes = Some (None, r', nodes)" "r_error r' = Err_Invalid"
      then show thesis by (intro failed) (assumption, simp)
    next
      fix nodes' assume *: "parse_push_node max_nodes r nodes
            = Some (Some (length nodes), advance (length hs + payload_len t) r, nodes')"
          "payload_len t \<le> length rest" "length nodes' = Suc (length nodes)"
      have "wf_reader (advance (length hs + payload_len t) r)"
        using *(2) ok h by (intro advances_wf [OF advances_advance wf]) simp_all
      with * ok show thesis by (intro pushed) simp_all
    qed
  qed
qed

lemma open_compound_total:
  assumes ok: "r_error r = Err_Ok" and wf: "wf_reader r" and i: "i < length nodes"
    and st: "\<forall>f\<in>set stack. pf_node_index f < length nodes"
  obtains (failed) r' nodes' where "open_compound i r nodes stack = Some (Inl (r', nodes'))"
      and "r_error r' = Err_Invalid"
    | (opened) stack' where "open_compound i r nodes stack = Some (Inr (r, nodes, stack'))"
      and "\<forall>f\<in>set stack'. pf_node_index f < length nodes"
proof (cases "compound_remaining (nd_tag (nodes ! i))")
  case None
  with i st show thesis by (intro opened) (simp_all add: open_compound_def checked)
next
  case (Some w)
  consider "w = 0" | "w \<noteq> 0" "unat w \<le> length (unread r)" | "w \<noteq> 0" "length (unread r) < unat w"
    by linarith
  then show thesis
  proof cases
    case 1
    with Some i st show thesis
      by (intro opened) (simp_all add: open_compound_def checked reserve_children_def)
  next
    case 2
    with Some i st wf show thesis
      by (intro opened [of "\<lparr>pf_node_index = i, pf_remaining = w\<rparr> # stack"])
        (simp_all add: open_compound_def checked reserve_children_def remaining_unread unat_gt_0)
  next
    case 3
    with Some i ok wf show thesis
      by (intro failed [of "flag_error Err_Invalid r" nodes])
        (simp_all add: open_compound_def checked reserve_children_def remaining_unread flag_error_error)
  qed
qed

lemma parse_child_total:
  assumes ok: "r_error r = Err_Ok" and wf: "wf_reader r"
    and f: "pf_node_index f < length nodes" and st: "\<forall>f\<in>set stack. pf_node_index f < length nodes"
  obtains (failed) r' nodes' where "parse_child max_nodes r nodes f stack = Some (Inl (r', nodes'))"
      and "r_error r' \<in> parse_errors max_nodes"
    | (child) r' nodes' stack' where "parse_child max_nodes r nodes f stack = Some (Inr (r', nodes', stack'))"
      and "r_error r' = Err_Ok" and "wf_reader r'" and "\<forall>f\<in>set stack'. pf_node_index f < length nodes'"
proof (cases rule: parse_push_node_total [OF ok wf, of max_nodes nodes])
  case (1 r1 nodes1)
  then show thesis by (intro failed) (simp_all add: parse_child_def)
next
  case (2 r1 nodes1)
  let ?f = "f\<lparr>pf_remaining := pf_remaining f - 1\<rparr>"
  let ?nodes = "add_children (pf_node_index f) [length nodes] nodes1"
  have eq: "parse_child max_nodes r nodes f stack = open_compound (length nodes) r1 ?nodes (?f # stack)"
    using 2 f by (simp add: parse_child_def checked Let_def add_children_def)
  have *: "length nodes < length ?nodes" "\<forall>g\<in>set (?f # stack). pf_node_index g < length ?nodes"
    using 2 f st by auto
  show thesis
    by (cases rule: open_compound_total [OF 2(2,3) *]) (use 2 eq failed child in auto)
qed

lemma parse_loop_total:
  "r_error r = Err_Ok \<Longrightarrow> wf_reader r \<Longrightarrow> \<forall>f\<in>set stack. pf_node_index f < length nodes \<Longrightarrow>
    \<exists>finished r' nodes'. parse_loop max_nodes r nodes stack = Some (finished, r', nodes')
      \<and> (if finished then r_error r' = Err_Ok else r_error r' \<in> parse_errors max_nodes)"
proof (induction max_nodes r nodes stack rule: parse_loop.induct)
  case (1 max_nodes r nodes stack)
  show ?case
  proof (cases stack)
    case Nil
    with 1(3) show ?thesis by (intro exI [of _ True]) (simp add: parse_loop.simps [of _ _ _ "[]"])
  next
    case (Cons f rest)
    then have f: "pf_node_index f < length nodes" "\<forall>f\<in>set rest. pf_node_index f < length nodes"
      using 1(5) by simp_all
    show ?thesis
    proof (cases "pf_remaining f = 0")
      case True
      with 1(1) [OF Cons True 1(3,4) f(2)] Cons show ?thesis
        by (subst parse_loop.simps) simp
    next
      case False
      show ?thesis
      proof (cases rule: parse_child_total [OF 1(3,4) f, of max_nodes])
        case (1 r1 nodes1)
        with Cons False show ?thesis by (subst parse_loop.simps) auto
      next
        case (2 r1 nodes1 stack1)
        from 1(2) [OF Cons False 2(1) refl refl refl 2(2-4)] 2(1) Cons False show ?thesis
          by (subst parse_loop.simps) simp
      qed
    qed
  qed
qed

subsection \<open>The node limit only cuts a parse short\<close>

definition cut_short :: "(bool \<times> reader \<times> node_data list) option \<Rightarrow> bool" where
  "cut_short res \<longleftrightarrow> (\<exists>r nodes. res = Some (False, r, nodes) \<and> r_error r = Err_TooBig)"

lemma parse_push_node_limit:
  assumes "r_error r = Err_Ok"
  shows "parse_push_node max_nodes r nodes = parse_push_node None r nodes
    \<or> parse_push_node max_nodes r nodes = Some (None, flag_error Err_TooBig r, nodes)"
  by (cases "can_add_node nodes max_nodes") (simp_all add: parse_push_node_def can_add_node_def [of _ None])

lemma parse_loop_limit:
  "r_error r = Err_Ok \<Longrightarrow> wf_reader r \<Longrightarrow> \<forall>f\<in>set stack. pf_node_index f < length nodes \<Longrightarrow>
    parse_loop (Some m) r nodes stack = parse_loop None r nodes stack
    \<or> cut_short (parse_loop (Some m) r nodes stack)"
proof (induction "Some m" r nodes stack rule: parse_loop.induct)
  case (1 r nodes stack)
  show ?case
  proof (cases stack)
    case Nil
    then show ?thesis by (simp add: parse_loop.simps [of _ _ _ "[]"])
  next
    case (Cons f rest)
    then have f: "pf_node_index f < length nodes" "\<forall>f\<in>set rest. pf_node_index f < length nodes"
      using 1(5) by simp_all
    show ?thesis
    proof (cases "pf_remaining f = 0")
      case True
      with 1(1) [OF Cons True 1(3,4) f(2)] Cons show ?thesis
        by (simp add: parse_loop.simps [of _ _ _ "f # rest"])
    next
      case False
      consider "parse_push_node (Some m) r nodes = parse_push_node None r nodes"
        | "parse_push_node (Some m) r nodes = Some (None, flag_error Err_TooBig r, nodes)"
        using parse_push_node_limit [OF 1(3)] by blast
      then show ?thesis
      proof cases
        case 1
        then have eq: "parse_child None r nodes f rest = parse_child (Some m) r nodes f rest"
          by (simp add: parse_child_def)
        show ?thesis
        proof (cases rule: parse_child_total [OF \<open>r_error r = Err_Ok\<close> \<open>wf_reader r\<close> f, of "Some m"])
          case (1 r1 nodes1)
          with eq Cons False show ?thesis by (simp add: parse_loop.simps [of _ _ _ "f # rest"])
        next
          case (2 r1 nodes1 stack1)
          from "1.hyps"(2) [OF Cons False 2(1) refl refl refl 2(2-4)] 2(1) eq Cons False show ?thesis
            by (simp add: parse_loop.simps [of _ _ _ "f # rest"])
        qed
      next
        case 2
        then have "parse_child (Some m) r nodes f rest = Some (Inl (flag_error Err_TooBig r, nodes))"
          by (simp add: parse_child_def)
        with Cons False 1(3) have "cut_short (parse_loop (Some m) r nodes stack)"
          by (simp add: parse_loop.simps [of _ _ _ "f # rest"] cut_short_def flag_error_error)
        then show ?thesis ..
      qed
    qed
  qed
qed

end
