(* ===== verification/Node_Access.thy ===== *)
theory Node_Access
  imports Node_Parse
begin

section \<open>The node accessors (\<open>src/node.rs\<close>)\<close>

text \<open>
  A \<open>Node\<close> is an index into its tree. The tree's error is a \<open>Cell\<close>, so every accessor is a
  function \<open>nat \<Rightarrow> tree \<Rightarrow> 'a \<times> tree\<close> that returns the tree with the error it may have flagged; an
  accessor whose indexing could panic returns an \<open>option\<close>. The slice of the data that \<open>get\<close>
  returns is \<open>slice\<close>, and \<open>nodes.get\<close> is \<open>index\<close>, used as values and not as panics.
\<close>

definition tree_flag_error :: "error \<Rightarrow> tree \<Rightarrow> tree" where
  "tree_flag_error e t = (if t_error t = Err_Ok \<and> e \<noteq> Err_Ok then t\<lparr>t_error := e\<rparr> else t)"

definition tree_root :: "tree \<Rightarrow> nat option" where
  "tree_root t = (if t_error t \<noteq> Err_Ok then None else t_root t)"

definition node_tag :: "nat \<Rightarrow> tree \<Rightarrow> tag \<times> tree" where
  "node_tag n t =
     (case index (t_nodes t) n of
        Some node \<Rightarrow> (nd_tag node, t) | None \<Rightarrow> (Tag_Nil, tree_flag_error Err_Bug t))"

definition node_type :: "nat \<Rightarrow> tree \<Rightarrow> mtype \<times> tree" where
  "node_type n t = (case node_tag n t of (tg, t) \<Rightarrow> (kind tg, t))"

definition node_is_nil :: "nat \<Rightarrow> tree \<Rightarrow> bool \<times> tree" where
  "node_is_nil n t = (case node_tag n t of (tg, t) \<Rightarrow> (tg = Tag_Nil, t))"

definition node_mismatch :: "tree \<Rightarrow> 'a option \<times> tree" where
  "node_mismatch t = (None, tree_flag_error Err_Type t)"

subsection \<open>Scalars\<close>

definition as_bool :: "nat \<Rightarrow> tree \<Rightarrow> bool option \<times> tree" where
  "as_bool n t =
     (if t_error t \<noteq> Err_Ok then (None, t)
      else case node_tag n t of (tg, t) \<Rightarrow>
        (case tg of Tag_Bool v \<Rightarrow> (Some v, t) | _ \<Rightarrow> node_mismatch t))"

definition as_u64 :: "nat \<Rightarrow> tree \<Rightarrow> u64 option \<times> tree" where
  "as_u64 n t =
     (if t_error t \<noteq> Err_Ok then (None, t)
      else case node_tag n t of (tg, t) \<Rightarrow>
        (case tg of
           Tag_Uint v \<Rightarrow> (Some v, t)
         | Tag_Int v \<Rightarrow> if 0 \<le> sint v then (Some v, t) else node_mismatch t
         | _ \<Rightarrow> node_mismatch t))"

definition as_i64 :: "nat \<Rightarrow> tree \<Rightarrow> i64 option \<times> tree" where
  "as_i64 n t =
     (if t_error t \<noteq> Err_Ok then (None, t)
      else case node_tag n t of (tg, t) \<Rightarrow>
        (case tg of
           Tag_Int v \<Rightarrow> (Some v, t)
         | Tag_Uint v \<Rightarrow> if unat v < 2 ^ 63 then (Some v, t) else node_mismatch t
         | _ \<Rightarrow> node_mismatch t))"

definition as_f32 :: "nat \<Rightarrow> tree \<Rightarrow> f32 option \<times> tree" where
  "as_f32 n t =
     (if t_error t \<noteq> Err_Ok then (None, t)
      else case node_tag n t of (tg, t) \<Rightarrow>
        (case tg of Tag_Float v \<Rightarrow> (Some v, t) | _ \<Rightarrow> node_mismatch t))"

definition as_f64 :: "nat \<Rightarrow> tree \<Rightarrow> f64 option \<times> tree" where
  "as_f64 n t =
     (if t_error t \<noteq> Err_Ok then (None, t)
      else case node_tag n t of (tg, t) \<Rightarrow>
        (case tg of
           Tag_Float v \<Rightarrow> (Some (f32_to_f64 v), t)
         | Tag_Double v \<Rightarrow> (Some v, t)
         | _ \<Rightarrow> node_mismatch t))"

subsection \<open>Payloads\<close>

text \<open>\<open>self.tree.data.get(start..end).or_else(...)\<close>.\<close>

definition payload_slice :: "node_data \<Rightarrow> u32 \<Rightarrow> tree \<Rightarrow> u8 list option \<times> tree" where
  "payload_slice node len t =
     (let start = nd_payload_off node; end = sat_add start (unat len)
      in case slice (t_data t) start end of
           Some bytes \<Rightarrow> (Some bytes, t) | None \<Rightarrow> (None, tree_flag_error Err_Bug t))"

definition node_str_bytes :: "nat \<Rightarrow> tree \<Rightarrow> u8 list option \<times> tree" where
  "node_str_bytes n t =
     (if t_error t \<noteq> Err_Ok then (None, t)
      else case node_tag n t of (tg, t) \<Rightarrow>
        (case tg of
           Tag_Str len \<Rightarrow>
             (case index (t_nodes t) n of
                None \<Rightarrow> (None, t) | Some node \<Rightarrow> payload_slice node len t)
         | _ \<Rightarrow> node_mismatch t))"

definition node_bin_bytes :: "nat \<Rightarrow> tree \<Rightarrow> u8 list option \<times> tree" where
  "node_bin_bytes n t =
     (if t_error t \<noteq> Err_Ok then (None, t)
      else case node_tag n t of (tg, t) \<Rightarrow>
        (case tg of
           Tag_Bin len \<Rightarrow>
             (case index (t_nodes t) n of
                None \<Rightarrow> (None, t) | Some node \<Rightarrow> payload_slice node len t)
         | _ \<Rightarrow> node_mismatch t))"

definition node_ext :: "nat \<Rightarrow> tree \<Rightarrow> (i8 \<times> u8 list) option \<times> tree" where
  "node_ext n t =
     (if t_error t \<noteq> Err_Ok then (None, t)
      else case node_tag n t of (tg, t) \<Rightarrow>
        (case tg of
           Tag_Ext ty len \<Rightarrow>
             (case index (t_nodes t) n of
                None \<Rightarrow> (None, t)
              | Some node \<Rightarrow>
                  (case payload_slice node len t of
                     (bytes, t) \<Rightarrow> (map_option (\<lambda>bs. (ty, bs)) bytes, t)))
         | _ \<Rightarrow> node_mismatch t))"

subsection \<open>Arrays and maps by position\<close>

definition child_at :: "node_data \<Rightarrow> nat \<Rightarrow> tree \<Rightarrow> nat option \<times> tree" where
  "child_at node k t =
     (case index (nd_children node) k of
        Some i \<Rightarrow> (Some i, t) | None \<Rightarrow> (None, tree_flag_error Err_Data t))"

definition node_array_len :: "nat \<Rightarrow> tree \<Rightarrow> nat option \<times> tree" where
  "node_array_len n t =
     (if t_error t \<noteq> Err_Ok then (None, t)
      else case node_tag n t of (tg, t) \<Rightarrow>
        (case tg of
           Tag_Array _ \<Rightarrow> (map_option (\<lambda>node. length (nd_children node)) (index (t_nodes t) n), t)
         | _ \<Rightarrow> node_mismatch t))"

definition node_array_at :: "nat \<Rightarrow> nat \<Rightarrow> tree \<Rightarrow> nat option \<times> tree" where
  "node_array_at n k t =
     (if t_error t \<noteq> Err_Ok then (None, t)
      else case node_tag n t of (tg, t) \<Rightarrow>
        (case tg of
           Tag_Array _ \<Rightarrow>
             (case index (t_nodes t) n of None \<Rightarrow> (None, t) | Some node \<Rightarrow> child_at node k t)
         | _ \<Rightarrow> node_mismatch t))"

definition node_map_count :: "nat \<Rightarrow> tree \<Rightarrow> nat option \<times> tree" where
  "node_map_count n t =
     (if t_error t \<noteq> Err_Ok then (None, t)
      else case node_tag n t of (tg, t) \<Rightarrow>
        (case tg of
           Tag_Map _ \<Rightarrow> (map_option (\<lambda>node. length (nd_children node) div 2) (index (t_nodes t) n), t)
         | _ \<Rightarrow> node_mismatch t))"

definition node_map_key_at :: "nat \<Rightarrow> nat \<Rightarrow> tree \<Rightarrow> nat option \<times> tree" where
  "node_map_key_at n k t =
     (if t_error t \<noteq> Err_Ok then (None, t)
      else case node_tag n t of (tg, t) \<Rightarrow>
        (case tg of
           Tag_Map _ \<Rightarrow>
             (case index (t_nodes t) n of
                None \<Rightarrow> (None, t) | Some node \<Rightarrow> child_at node (sat_mul k 2) t)
         | _ \<Rightarrow> node_mismatch t))"

definition node_map_value_at :: "nat \<Rightarrow> nat \<Rightarrow> tree \<Rightarrow> nat option \<times> tree" where
  "node_map_value_at n k t =
     (if t_error t \<noteq> Err_Ok then (None, t)
      else case node_tag n t of (tg, t) \<Rightarrow>
        (case tg of
           Tag_Map _ \<Rightarrow>
             (case index (t_nodes t) n of
                None \<Rightarrow> (None, t) | Some node \<Rightarrow> child_at node (sat_add (sat_mul k 2) 1) t)
         | _ \<Rightarrow> node_mismatch t))"

subsection \<open>Maps by key\<close>

datatype map_key = Key_Int i64 | Key_Uint u64 | Key_Str "u8 list"

definition key_matches :: "tree \<Rightarrow> nat \<Rightarrow> map_key \<Rightarrow> bool" where
  "key_matches t key_index key =
     (case index (t_nodes t) key_index of
        None \<Rightarrow> False
      | Some key_node \<Rightarrow>
          (case key of
             Key_Int want \<Rightarrow>
               (case nd_tag key_node of
                  Tag_Int v \<Rightarrow> v = want
                | Tag_Uint v \<Rightarrow> 0 \<le> sint want \<and> v = want
                | _ \<Rightarrow> False)
           | Key_Uint want \<Rightarrow>
               (case nd_tag key_node of
                  Tag_Uint v \<Rightarrow> v = want
                | Tag_Int v \<Rightarrow> if 0 \<le> sint v then v = want else False
                | _ \<Rightarrow> False)
           | Key_Str want \<Rightarrow>
               (case nd_tag key_node of
                  Tag_Str len \<Rightarrow>
                    (let start = nd_payload_off key_node; end = sat_add start (unat len)
                     in slice (t_data t) start end = Some want)
                | _ \<Rightarrow> False)))"

text \<open>
  The loop over the entries \<open>i, i + 1, ...\<close> (\<open>k\<close> of them are left). The inner result is \<open>None\<close> for
  the early return on a duplicate, the outer one for a panic.
\<close>

primrec lookup_entries ::
  "nat \<Rightarrow> tree \<Rightarrow> nat list \<Rightarrow> map_key \<Rightarrow> nat \<Rightarrow> nat option \<Rightarrow> nat option option option"
where
  "lookup_entries 0 t children key i found = Some (Some found)"
| "lookup_entries (Suc k) t children key i found = do {
     key_index \<leftarrow> index children (i * 2);
     value_index \<leftarrow> index children (i * 2 + 1);
     (if \<not> key_matches t key_index key then lookup_entries k t children key (i + 1) found
      else if found \<noteq> None then Some None
      else lookup_entries k t children key (i + 1) (Some value_index))
   }"

definition map_lookup :: "map_key \<Rightarrow> bool \<Rightarrow> nat \<Rightarrow> tree \<Rightarrow> (nat option \<times> tree) option" where
  "map_lookup key required n t =
     (if t_error t \<noteq> Err_Ok then Some (None, t)
      else case node_tag n t of (tg, t) \<Rightarrow>
        (case tg of
           Tag_Map _ \<Rightarrow>
             (case index (t_nodes t) n of
                None \<Rightarrow> Some (None, t)
              | Some node \<Rightarrow> do {
                  res \<leftarrow> lookup_entries (length (nd_children node) div 2) t (nd_children node) key 0 None;
                  (case res of
                     None \<Rightarrow> Some (None, tree_flag_error Err_Data t)
                   | Some (Some i) \<Rightarrow> Some (Some i, t)
                   | Some None \<Rightarrow> Some (None, if required then tree_flag_error Err_Data t else t))
                })
         | _ \<Rightarrow> Some (node_mismatch t)))"

definition node_map_int :: "i64 \<Rightarrow> nat \<Rightarrow> tree \<Rightarrow> (nat option \<times> tree) option" where
  "node_map_int key n t = map_lookup (Key_Int key) True n t"

definition node_map_int_optional :: "i64 \<Rightarrow> nat \<Rightarrow> tree \<Rightarrow> (nat option \<times> tree) option" where
  "node_map_int_optional key n t = map_lookup (Key_Int key) False n t"

definition node_map_uint :: "u64 \<Rightarrow> nat \<Rightarrow> tree \<Rightarrow> (nat option \<times> tree) option" where
  "node_map_uint key n t = map_lookup (Key_Uint key) True n t"

definition node_map_uint_optional :: "u64 \<Rightarrow> nat \<Rightarrow> tree \<Rightarrow> (nat option \<times> tree) option" where
  "node_map_uint_optional key n t = map_lookup (Key_Uint key) False n t"

definition node_map_str :: "u8 list \<Rightarrow> nat \<Rightarrow> tree \<Rightarrow> (nat option \<times> tree) option" where
  "node_map_str key n t = map_lookup (Key_Str key) True n t"

definition node_map_str_optional :: "u8 list \<Rightarrow> nat \<Rightarrow> tree \<Rightarrow> (nat option \<times> tree) option" where
  "node_map_str_optional key n t = map_lookup (Key_Str key) False n t"

text \<open>\<open>self.map_lookup(key, false).is_some() && self.tree.error.get() == Error::Ok\<close>.\<close>

definition map_contains :: "map_key \<Rightarrow> nat \<Rightarrow> tree \<Rightarrow> (bool \<times> tree) option" where
  "map_contains key n t = do {
     (res, t) \<leftarrow> map_lookup key False n t;
     Some (res \<noteq> None \<and> t_error t = Err_Ok, t)
   }"

definition node_map_contains_int :: "i64 \<Rightarrow> nat \<Rightarrow> tree \<Rightarrow> (bool \<times> tree) option" where
  "node_map_contains_int key n t = map_contains (Key_Int key) n t"

definition node_map_contains_uint :: "u64 \<Rightarrow> nat \<Rightarrow> tree \<Rightarrow> (bool \<times> tree) option" where
  "node_map_contains_uint key n t = map_contains (Key_Uint key) n t"

definition node_map_contains_str :: "u8 list \<Rightarrow> nat \<Rightarrow> tree \<Rightarrow> (bool \<times> tree) option" where
  "node_map_contains_str key n t = map_contains (Key_Str key) n t"

subsection \<open>Enumerations\<close>

primrec find_string :: "u8 list \<Rightarrow> u8 list list \<Rightarrow> nat \<Rightarrow> nat option" where
  "find_string bytes [] i = None"
| "find_string bytes (candidate # rest) i =
     (if candidate = bytes then Some i else find_string bytes rest (i + 1))"

definition enum_str :: "u8 list list \<Rightarrow> bool \<Rightarrow> nat \<Rightarrow> tree \<Rightarrow> nat \<times> tree" where
  "enum_str strings optional n t =
     (let count = length strings in
      if t_error t \<noteq> Err_Ok then (count, t)
      else case node_tag n t of (tg, t) \<Rightarrow>
        (case tg of
           Tag_Str len \<Rightarrow>
             (case index (t_nodes t) n of
                None \<Rightarrow> (count, tree_flag_error Err_Bug t)
              | Some node \<Rightarrow>
                  (let start = nd_payload_off node; end = sat_add start (unat len)
                   in case slice (t_data t) start end of
                        None \<Rightarrow> (count, tree_flag_error Err_Bug t)
                      | Some bytes \<Rightarrow>
                          (case find_string bytes strings 0 of
                             Some i \<Rightarrow> (i, t)
                           | None \<Rightarrow> (count, if \<not> optional then tree_flag_error Err_Type t else t))))
         | _ \<Rightarrow> (count, if \<not> optional then tree_flag_error Err_Type t else t)))"

end
