(* ===== verification/Node_Theorems.thy ===== *)
theory Node_Theorems
  imports Node_Sound Node_Access
begin

section \<open>What the tree parser guarantees\<close>

text \<open>
  The properties of \<open>Tree::parse\<close>: on an input that starts with a value it builds the table of that
  value, on every other input it reports an error; it agrees with \<open>Reader::discard\<close> on what a
  value is.
\<close>

lemma parse_tree_value:
  assumes v: "value_bytes bs v" and u: "data = bs @ rest" and short: "length data < 2 ^ 32"
    and room: "room_for max_nodes (node_count v)"
  obtains nodes where "parse_tree max_nodes (reader_new data)
      = Some (Some 0, advance (length bs) (reader_new data), nodes)"
    and "length nodes = node_count v" and "represents data nodes 0 v"
proof -
  let ?start = "reader_new data"
  have r0: "r_error ?start = Err_Ok" "unread ?start = data" "r_data ?start = data" "r_position ?start = 0"
    by (simp_all add: reader_new_def unread_def)
  obtain t pl vs where "v = MValue t pl vs"
    by (cases v)
  with v obtain hs cs where h: "v = MValue t pl vs" "bs = hs @ pl @ cs" "header hs t" "length pl = payload_len t"
      "length vs = child_count t" "values_bytes cs vs"
    by (auto elim: value_bytesE)
  let ?r = "advance (length hs + length pl) ?start"
  let ?nd = "\<lparr>nd_tag = t, nd_payload_off = r_position ?start + length hs, nd_children = []\<rparr>"
  have cc: "child_count t < 2 ^ 32"
    using h(5) values_bytes_length [OF h(6)] u short h(2) by simp
  have u0: "unread ?start = hs @ pl @ cs @ rest"
    unfolding r0(2) using u h(2) by simp
  have push: "parse_push_node max_nodes ?start [] = Some (Some 0, ?r, [?nd])"
    using parse_push_node_ok [OF r0(1) h(3) u0 h(4) cc, of max_nodes "[]"] room_for_le [OF room, of 1] h(1)
    by simp
  have facts: "r_error ?r = Err_Ok" "unread ?r = cs @ rest" "length (unread ?r) < 2 ^ 32"
      "nd_tag ?nd = t" "nd_children ?nd = []"
      "room_for max_nodes (Suc (length ([] :: node_data list)) + sum_list (map node_count vs))"
    using u0 short r0 room h(1) by simp_all
  have "length hs + length pl \<le> length (unread ?start)"
    unfolding u0 by simp
  then have wf: "wf_reader ?r"
    using r0(1) by (intro advances_wf [OF advances_advance wf_reader_new])
  obtain ks ns where ns: "length ns = sum_list (map node_count vs)" "\<forall>c\<in>set ks. length ([] :: node_data list) < c"
      "\<And>ctx post. length ctx = Suc (length ([] :: node_data list)) \<Longrightarrow> list_all2 (represents (r_data ?r) (ctx @ ns @ post)) ks vs"
      "\<And>stack. \<exists>nodes1 stack1. open_compound (length ([] :: node_data list)) ?r ([] @ [?nd]) stack = Some (Inr (?r, nodes1, stack1))
        \<and> parse_loop max_nodes ?r nodes1 stack1
          = parse_loop max_nodes (advance (length cs) ?r) ([] @ ?nd\<lparr>nd_children := ks\<rparr> # ns) stack"
    by (rule fill_node [OF parse_fills(2) [OF h(6), of max_nodes] h(6) facts(1) wf facts(2,3) h(5) facts(4,5,6)])
      (rule that; assumption)
  let ?nodes = "?nd\<lparr>nd_children := ks\<rparr> # ns"
  from ns(4) [of "[]"] obtain nodes1 stack1 where
    opened: "open_compound 0 ?r [?nd] [] = Some (Inr (?r, nodes1, stack1))"
    and run: "parse_loop max_nodes ?r nodes1 stack1 = Some (True, advance (length bs) ?start, ?nodes)"
    by (auto simp: parse_loop.simps [of _ _ _ "[]"] h(2) add.assoc)
  have "remaining ?start = Some (length bs + length rest)" "bs \<noteq> []"
    using value_bytes_nonempty [OF v] remaining_unread [OF wf_reader_new, of data]
    by (simp_all add: r0(2)) (simp add: u)
  then have 1: "parse_tree max_nodes ?start = Some (Some 0, advance (length bs) ?start, ?nodes)"
    using push opened run r0 by (simp add: parse_tree_def)
  have 2: "represents data ?nodes 0 v"
    unfolding h(1)
  proof (rule represents.node)
    show "list_all2 (represents data ?nodes) (nd_children (?nodes ! 0)) vs"
      using ns(3) [of "[?nd\<lparr>nd_children := ks\<rparr>]" "[]"] r0 by simp
  qed (use u h r0 ns in simp_all)
  show thesis
    using that [OF 1 _ 2] ns(1) h(1) by simp
qed

lemma parse_tree_cases:
  obtains (failed) r nodes where "parse_tree max_nodes (reader_new data) = Some (None, r, nodes)"
      and "r_error r \<in> parse_errors max_nodes"
    | (parsed) bs v rest nodes where "value_bytes bs v" and "data = bs @ rest"
      and "room_for max_nodes (node_count v)"
      and "parse_tree max_nodes (reader_new data) = Some (Some 0, advance (length bs) (reader_new data), nodes)"
proof -
  let ?start = "reader_new data"
  have r0: "r_error ?start = Err_Ok" "unread ?start = data" "wf_reader ?start"
    by (simp_all add: reader_new_def unread_def wf_reader_def)
  show thesis
  proof (cases "data = []")
    case True
    have "remaining ?start = Some 0"
      using remaining_unread [OF r0(3)] r0(2) True by simp
    then show thesis
      using r0(1) by (intro failed [of "flag_error Err_Invalid ?start" "[]"])
        (simp_all add: parse_tree_def flag_error_error)
  next
    case False
    have left: "remaining ?start = Some (length data)" "length data \<noteq> 0"
      using remaining_unread [OF r0(3)] r0(2) False by simp_all
    show thesis
    proof (cases rule: parse_push_node_total [OF r0(1,3), of max_nodes "[]"])
      case (1 r nodes)
      then show thesis using left by (intro failed [of r nodes]) (simp_all add: parse_tree_def)
    next
      case (2 r nodes)
      then have push: "parse_push_node max_nodes ?start [] = Some (Some 0, r, nodes)" "0 < length nodes"
        by simp_all
      from parse_push_node_SomeD [OF r0(1) push(1)] obtain hs t pl rest where h: "header hs t"
          "length pl = payload_len t" "unread ?start = hs @ pl @ rest" "r = advance (length hs + length pl) ?start"
          "child_count t < 2 ^ 32" "room_for max_nodes (Suc (length ([] :: node_data list)))"
          "nodes = [] @ [\<lparr>nd_tag = t, nd_payload_off = r_position ?start + length hs, nd_children = []\<rparr>]" .
      show thesis
      proof (cases rule: open_compound_total [OF 2(2,3) push(2), of "[]", simplified])
        case (1 r1 nodes1)
        then show thesis
          using left push by (intro failed [of r1 nodes1]) (simp_all add: parse_tree_def)
      next
        case (2 stack)
        note opened = this
        from parse_loop_total [OF \<open>r_error r = Err_Ok\<close> \<open>wf_reader r\<close> opened(2), of max_nodes]
        obtain finished r2 nodes2 where
          run: "parse_loop max_nodes r nodes stack = Some (finished, r2, nodes2)"
            "if finished then r_error r2 = Err_Ok else r_error r2 \<in> parse_errors max_nodes"
          by blast
        show thesis
        proof (cases finished)
          case False
          with run left push opened show thesis
            by (intro failed [of r2 nodes2]) (simp_all add: parse_tree_def)
        next
          case True
          have count: "children_left stack = child_count t"
            using open_compound_SomeD [OF opened(1) \<open>wf_reader r\<close> _ h(5)] h(7) by simp
          have fin: "parse_loop max_nodes r nodes stack = Some (True, r2, nodes2)"
            using run(1) True by simp
          from parse_loop_sound [OF fin \<open>r_error r = Err_Ok\<close> \<open>wf_reader r\<close>]
            h(6,7)
          obtain bs vs rest' where vs: "values_bytes bs vs" "length vs = child_count t"
              "unread r = bs @ rest'" "r2 = advance (length bs) r"
              "length nodes2 = Suc (sum_list (map node_count vs))" "room_for max_nodes (length nodes2)"
            by (auto simp: count)
          have "value_bytes (hs @ pl @ bs) (MValue t pl vs)"
            using h(1,2) vs(2,1) by (rule one_value)
          moreover have "data = (hs @ pl @ bs) @ rest'"
            using h(3,4) vs(3) r0 by simp
          moreover have "room_for max_nodes (node_count (MValue t pl vs))"
            using vs(5,6) by simp
          moreover have "parse_tree max_nodes ?start = Some (Some 0, advance (length (hs @ pl @ bs)) ?start, nodes2)"
            using left push opened run True vs(4) h(4) by (simp add: parse_tree_def add.assoc)
          ultimately show thesis by (rule parsed)
        qed
      qed
    qed
  qed
qed

lemma parse_tree_limit:
  "parse_tree (Some m) (reader_new data) = parse_tree None (reader_new data)
    \<or> (\<exists>r nodes. parse_tree (Some m) (reader_new data) = Some (None, r, nodes) \<and> r_error r = Err_TooBig)"
proof -
  let ?start = "reader_new data"
  have start: "r_error ?start = Err_Ok" "wf_reader ?start"
    by (simp_all add: reader_new_def wf_reader_def)
  note left = remaining_unread [OF start(2)]
  show ?thesis
  proof (cases "unread ?start = []")
    case True
    with left show ?thesis by (simp add: parse_tree_def)
  next
    case False
    consider "parse_push_node (Some m) ?start [] = parse_push_node None ?start []"
      | "parse_push_node (Some m) ?start [] = Some (None, flag_error Err_TooBig ?start, [])"
      using parse_push_node_limit [OF start(1)] by blast
    then show ?thesis
    proof cases
      case 2
      with left False start(1) have "parse_tree (Some m) ?start = Some (None, flag_error Err_TooBig ?start, [])"
        "r_error (flag_error Err_TooBig ?start) = Err_TooBig"
        by (simp_all add: parse_tree_def flag_error_error)
      then show ?thesis by blast
    next
      case 1
      show ?thesis
      proof (cases rule: parse_push_node_total [OF start, of None "[]"])
        case (1 r nodes)
        with left False \<open>parse_push_node (Some m) ?start [] = _\<close> show ?thesis by (simp add: parse_tree_def)
      next
        case (2 r nodes)
        then have "0 < length nodes" by simp
        show ?thesis
        proof (cases rule: open_compound_total [OF 2(2,3) \<open>0 < length nodes\<close>, of "[]", simplified])
          case (1 r1 nodes1)
          with 2 left False \<open>parse_push_node (Some m) ?start [] = _\<close> show ?thesis by (simp add: parse_tree_def)
        next
          case opened: (2 stack)
          from parse_loop_limit [OF 2(2,3) opened(2), of m] show ?thesis
          proof
            assume "parse_loop (Some m) r nodes stack = parse_loop None r nodes stack"
            with 2 opened left False \<open>parse_push_node (Some m) ?start [] = _\<close> show ?thesis by (simp add: parse_tree_def)
          next
            assume "cut_short (parse_loop (Some m) r nodes stack)"
            then obtain r2 nodes2 where "parse_loop (Some m) r nodes stack = Some (False, r2, nodes2)"
                "r_error r2 = Err_TooBig"
              by (auto simp: cut_short_def)
            with 2 opened left False \<open>parse_push_node (Some m) ?start [] = _\<close>
            have "parse_tree (Some m) ?start = Some (None, r2, nodes2) \<and> r_error r2 = Err_TooBig"
              by (simp add: parse_tree_def)
            then show ?thesis by blast
          qed
        qed
      qed
    qed
  qed
qed

text \<open>C30. On an input that starts with the encoding of a value, whatever formats its headers use, the
  parse succeeds if the value has at most \<open>max_nodes\<close> nodes: the tree's root is the node \<open>0\<close>, the
  table has one node per value, the size is the length of the encoding, and the root with the
  nodes its child indices lead to represents the value. With a smaller limit the tree has the error
  \<open>TooBig\<close>, no root and size 0.\<close>

theorem parse_builds_the_value:
  assumes "value_bytes bs v" and "data = bs @ rest" and "length data < 2 ^ 32"
  shows "\<exists>t. parse_with_limits data max_nodes = Some t \<and> t_data t = data
    \<and> (if room_for max_nodes (node_count v)
       then t_error t = Err_Ok \<and> t_root t = Some 0 \<and> t_size t = length bs
         \<and> length (t_nodes t) = node_count v \<and> represents data (t_nodes t) 0 v
       else t_error t = Err_TooBig \<and> t_root t = None \<and> t_size t = 0)"
proof (cases "room_for max_nodes (node_count v)")
  case True
  then obtain nodes where "parse_tree max_nodes (reader_new data)
      = Some (Some 0, advance (length bs) (reader_new data), nodes)"
      "length nodes = node_count v" "represents data nodes 0 v"
    using parse_tree_value [OF assms] by blast
  with True show ?thesis
    by (simp add: parse_with_limits_def reader_new_def)
next
  case False
  then obtain m where m: "max_nodes = Some m"
    by (cases max_nodes) (simp_all add: room_for_def)
  show ?thesis
  proof (cases rule: parse_tree_cases [of max_nodes data])
    case (failed r nodes)
    have "room_for None (node_count v)"
      by (simp add: room_for_def)
    then obtain nodes' where "parse_tree None (reader_new data)
        = Some (Some 0, advance (length bs) (reader_new data), nodes')"
      using parse_tree_value [OF assms] by metis
    with failed(1) parse_tree_limit [of m data] have "r_error r = Err_TooBig"
      by (auto simp: m)
    with failed False show ?thesis by (simp add: parse_with_limits_def)
  next
    case (parsed bs' v' rest')
    then have "v' = v"
      using value_bytes_unique(1) [OF assms(1) parsed(1), of rest rest'] assms(2) by simp
    with parsed(3) False show ?thesis by simp
  qed
qed

theorem parse_builds_the_value_witness:
  "\<exists>t. parse_with_limits [0x91, 0xc0, 7] (Some 2) = Some t \<and> t_size t = 2 \<and> t_root t = Some 0
    \<and> represents [0x91, 0xc0, 7] (t_nodes t) 0 (MValue (Tag_Array 1) [] [MValue Tag_Nil [] []])"
proof -
  have "value_bytes ([0x91] @ [] @ [0xc0]) (MValue (Tag_Array 1) [] [MValue Tag_Nil [] []])"
    using fixarray [of 1] one_value [OF header.nil, of "[]" "[]" "[]"]
    by (intro one_value) (auto intro!: exI [of _ "[0xc0]"])
  then have "value_bytes [0x91, 0xc0] (MValue (Tag_Array 1) [] [MValue Tag_Nil [] []])"
    by simp
  from parse_builds_the_value [OF this, of "[0x91, 0xc0, 7]" "[7]" "Some 2"] show ?thesis
    by (auto simp: room_for_def)
qed

lemma parse_cases_unlimited:
  "\<exists>t. tree_parse data = Some t \<and> t_data t = data
    \<and> (if t_error t = Err_Ok
       then \<exists>bs v rest. value_bytes bs v \<and> data = bs @ rest \<and> t_size t = length bs
       else t_size t = 0 \<and> t_error t = Err_Invalid)"
proof (cases rule: parse_tree_cases [of None data])
  case (failed r nodes)
  then show ?thesis by (simp add: tree_parse_def parse_with_limits_def parse_errors_def)
next
  case (parsed bs v rest nodes)
  then show ?thesis
    by (simp add: tree_parse_def parse_with_limits_def reader_new_def) blast
qed

text \<open>A parse never panics. If it succeeds, the input starts with the encoding of a value that fits
  the node limit, and the size is the length of that encoding; otherwise there is no root, the size
  is 0 and the error is \<open>Invalid\<close>, or \<open>TooBig\<close> when there is a limit.\<close>

theorem parse_accepts_only_values:
  "\<exists>t. parse_with_limits data max_nodes = Some t \<and> t_data t = data
    \<and> (if t_error t = Err_Ok
       then t_root t = Some 0
         \<and> (\<exists>bs v rest. value_bytes bs v \<and> data = bs @ rest \<and> t_size t = length bs
              \<and> room_for max_nodes (node_count v))
       else t_root t = None \<and> t_size t = 0 \<and> t_error t \<in> parse_errors max_nodes)"
proof (cases rule: parse_tree_cases [of max_nodes data])
  case (failed r nodes)
  then have "r_error r \<noteq> Err_Ok"
    by (metis parse_errors_simps(2))
  with failed show ?thesis by (simp add: parse_with_limits_def)
next
  case (parsed bs v rest nodes)
  then show ?thesis
    by (simp add: parse_with_limits_def reader_new_def) blast
qed

text \<open>C32. The iterative parser and the recursive \<open>discard\<close> agree on every input below 4 GiB. Where the parser accepts,
  \<open>discard\<close> stops without an error at the parsed size, provided the call stack holds as many calls as the value is
  nested deep; with fewer it aborts, on a value the parser accepts. Where the parser refuses the input with
  \<open>Invalid\<close>, \<open>discard\<close> accepts it with no call stack, and with one deeper than the input is long it raises the same
  error.\<close>

theorem parse_agrees_with_discard:
  assumes "length data < 2 ^ 32"
  shows "\<exists>t. tree_parse data = Some t
    \<and> (if t_error t = Err_Ok
       then \<exists>bs v rest. value_bytes bs v \<and> data = bs @ rest \<and> t_size t = length bs
         \<and> discard depth (reader_new data)
           = (if height v \<le> depth then Some (advance (t_size t) (reader_new data)) else None)
       else t_size t = 0 \<and> t_error t = Err_Invalid
         \<and> (\<forall>r. discard depth (reader_new data) = Some r \<longrightarrow> r_error r \<noteq> Err_Ok)
         \<and> (length data < depth \<longrightarrow> (\<exists>r. discard depth (reader_new data) = Some r \<and> r_error r = Err_Invalid)))"
proof -
  have start: "r_error (reader_new data) = Err_Ok" "unread (reader_new data) = data"
    by (simp_all add: reader_new_def unread_def)
  obtain t where t: "tree_parse data = Some t"
    "if t_error t = Err_Ok
     then \<exists>bs v rest. value_bytes bs v \<and> data = bs @ rest \<and> t_size t = length bs
     else t_size t = 0 \<and> t_error t = Err_Invalid"
    using parse_cases_unlimited [of data] by blast
  have accepted: "t_error t = Err_Ok" if "discard depth (reader_new data) = Some r" "r_error r = Err_Ok" for r
  proof -
    from discard_sound_aux [OF start(1) that] obtain bs v rest where v: "value_bytes bs v" "data = bs @ rest"
      by (auto simp: start(2))
    have "room_for None (node_count v)"
      by (simp add: room_for_def)
    then obtain nodes where "parse_tree None (reader_new data)
        = Some (Some 0, advance (length bs) (reader_new data), nodes)"
      using parse_tree_value [OF v assms] by metis
    with t(1) show ?thesis
      by (auto simp: tree_parse_def parse_with_limits_def reader_new_def)
  qed
  show ?thesis
  proof (cases "t_error t = Err_Ok")
    case True
    with t(2) obtain bs v rest where v: "value_bytes bs v" "data = bs @ rest" "t_size t = length bs"
      by auto
    have "unread (reader_new data) = bs @ rest"
      using start(2) v(2) by simp
    then have "discard depth (reader_new data)
        = (if height v \<le> depth then Some (advance (t_size t) (reader_new data)) else None)"
      using discard_complete_aux(1) [OF v(1) start(1)] discard_too_deep(1) [OF v(1) start(1)] v(3) by auto
    with True t(1) v show ?thesis by auto
  next
    case False
    have "\<exists>r. discard depth (reader_new data) = Some r \<and> r_error r = Err_Invalid" if "length data < depth"
      using discard_total_aux [of "reader_new data" depth] start that accepted False by auto
    with t False accepted show ?thesis by auto
  qed
qed

theorem parse_agrees_with_discard_witness:
  "\<exists>t. tree_parse [0x91, 0x91, 0xc0] = Some t \<and> t_error t = Err_Ok
    \<and> discard 3 (reader_new [0x91, 0x91, 0xc0]) = Some (advance (t_size t) (reader_new [0x91, 0x91, 0xc0]))
    \<and> discard 2 (reader_new [0x91, 0x91, 0xc0]) = None"
proof -
  let ?data = "[0x91, 0x91, 0xc0] :: u8 list"
  let ?v = "MValue (Tag_Array 1) [] [MValue (Tag_Array 1) [] [MValue Tag_Nil [] []]]"
  have array: "value_bytes ([0x91] @ [] @ bs) (MValue (Tag_Array 1) [] [v])" if "value_bytes bs v" for bs v
    using that fixarray [of 1] by (intro one_value) (auto intro!: exI [of _ bs])
  have v: "value_bytes ?data ?v"
    using array [OF array [OF one_value [OF header.nil, of "[]" "[]" "[]"]]] by simp
  have start: "r_error (reader_new ?data) = Err_Ok" "unread (reader_new ?data) = ?data @ []"
    by (simp_all add: reader_new_def unread_def)
  have height: "height ?v = 3"
    by (simp add: height.simps)
  have three: "discard 3 (reader_new ?data) = Some (advance 3 (reader_new ?data))"
    using discard_complete_aux(1) [OF v start, of 3] height by simp
  obtain t where t: "tree_parse ?data = Some t" "t_error t = Err_Ok"
      "discard 3 (reader_new ?data) = Some (advance (t_size t) (reader_new ?data))"
    using parse_agrees_with_discard [of ?data 3] three start(1) by (auto split: if_splits)
  moreover have "discard 2 (reader_new ?data) = None"
    using discard_too_deep(1) [OF v start, of 2] height by simp
  ultimately show ?thesis by blast
qed

end
