(* ===== verification/Node_Values.thy ===== *)
theory Node_Values
  imports Node_Theorems
begin

section \<open>The node accessors read the value back\<close>

text \<open>
  \<open>node_is t n v\<close>: the tree has no error and its node \<open>n\<close> represents the value \<open>v\<close>, as the root of
  a successful parse does. The accessors are characterised on such nodes by the value alone.
\<close>

definition node_is :: "tree \<Rightarrow> nat \<Rightarrow> mvalue \<Rightarrow> bool" where
  "node_is t n v \<longleftrightarrow> t_error t = Err_Ok \<and> length (t_data t) \<le> usize_max
     \<and> represents (t_data t) (t_nodes t) n v"

lemma node_isE:
  assumes "node_is t n (MValue tg pl vs)"
  obtains nd where "t_error t = Err_Ok" and "index (t_nodes t) n = Some nd" and "nd_tag nd = tg"
    and "\<And>len. unat len = payload_len tg \<Longrightarrow> slice (t_data t) (nd_payload_off nd)
        (sat_add (nd_payload_off nd) (unat (len :: u32))) = Some pl"
    and "list_all2 (node_is t) (nd_children nd) vs" and "length vs = child_count tg"
proof -
  from assms have 1: "t_error t = Err_Ok" "length (t_data t) \<le> usize_max"
      "represents (t_data t) (t_nodes t) n (MValue tg pl vs)"
    by (simp_all add: node_is_def)
  from 1(3) have 2: "n < length (t_nodes t)" "nd_tag (t_nodes t ! n) = tg"
      "nd_payload_off (t_nodes t ! n) + payload_len tg \<le> length (t_data t)"
      "pl = take (payload_len tg) (drop (nd_payload_off (t_nodes t ! n)) (t_data t))"
      "list_all2 (represents (t_data t) (t_nodes t)) (nd_children (t_nodes t ! n)) vs"
      "length vs = child_count tg"
    by (auto elim: representsE)
  have "list_all2 (node_is t) (nd_children (t_nodes t ! n)) vs"
    by (rule list_all2_mono [OF 2(5)]) (simp add: node_is_def 1)
  moreover have "slice (t_data t) (nd_payload_off (t_nodes t ! n))
      (sat_add (nd_payload_off (t_nodes t ! n)) (unat len)) = Some pl"
    if "unat len = payload_len tg" for len :: u32
    using 1(2) 2(3,4) that by (simp add: slice_def sat_add_def)
  ultimately show thesis
    using that [of "t_nodes t ! n"] 1 2 by (simp add: index_def)
qed

lemma node_is_tag: "node_is t n (MValue tg pl vs) \<Longrightarrow> node_tag n t = (tg, t) \<and> t_error t = Err_Ok"
  by (auto elim!: node_isE simp: node_tag_def)

subsection \<open>Scalars and payloads\<close>

definition node_select :: "(tag \<Rightarrow> 'a option) \<Rightarrow> tag \<Rightarrow> tree \<Rightarrow> 'a option \<times> tree" where
  "node_select select tg t = (case select tg of Some x \<Rightarrow> (Some x, t) | None \<Rightarrow> node_mismatch t)"

lemma scalar_select:
  assumes "node_is t n (MValue tg pl vs)"
  shows "as_bool n t = node_select tag_bool tg t" "as_u64 n t = node_select tag_u64 tg t"
    "as_i64 n t = node_select tag_i64 tg t" "as_f32 n t = node_select tag_f32 tg t"
    "as_f64 n t = node_select tag_f64 tg t"
  using node_is_tag [OF assms]
  by (cases tg; simp add: as_bool_def as_u64_def as_i64_def as_f32_def as_f64_def node_select_def)+

lemma payload_select:
  assumes "node_is t n (MValue tg pl vs)"
  shows "node_str_bytes n t = (if tag_str tg = None then node_mismatch t else (Some pl, t))"
    "node_bin_bytes n t = (if tag_bin tg = None then node_mismatch t else (Some pl, t))"
    "node_ext n t = (case tag_ext tg of None \<Rightarrow> node_mismatch t | Some (ty, len) \<Rightarrow> (Some (ty, pl), t))"
proof -
  note tag = node_is_tag [OF assms]
  from assms obtain nd where nd: "index (t_nodes t) n = Some nd"
    and sl: "\<And>len. unat len = payload_len tg \<Longrightarrow> slice (t_data t) (nd_payload_off nd)
        (sat_add (nd_payload_off nd) (unat (len :: u32))) = Some pl"
    by (rule node_isE) (rule that; assumption)
  show "node_str_bytes n t = (if tag_str tg = None then node_mismatch t else (Some pl, t))"
    using tag nd sl by (cases tg) (simp_all add: node_str_bytes_def payload_slice_def Let_def)
  show "node_bin_bytes n t = (if tag_bin tg = None then node_mismatch t else (Some pl, t))"
    using tag nd sl by (cases tg) (simp_all add: node_bin_bytes_def payload_slice_def Let_def)
  show "node_ext n t = (case tag_ext tg of None \<Rightarrow> node_mismatch t | Some (ty, len) \<Rightarrow> (Some (ty, pl), t))"
    using tag nd sl by (cases tg) (simp_all add: node_ext_def payload_slice_def Let_def)
qed

text \<open>The root of a successful parse is such a node; a message for the witnesses.\<close>

lemma parsed_node_is:
  assumes "value_bytes bs v" and "data = bs @ rest" and "length data < 2 ^ 32"
  shows "\<exists>t. tree_parse data = Some t \<and> node_is t 0 v"
proof -
  have "room_for None (node_count v)"
    by (simp add: room_for_def)
  then obtain nodes where "parse_tree None (reader_new data)
      = Some (Some 0, advance (length bs) (reader_new data), nodes)" "represents data nodes 0 v"
    using parse_tree_value [OF assms] by metis
  then show ?thesis
    using assms(3) by (simp add: tree_parse_def parse_with_limits_def node_is_def reader_new_def usize_max_def)
qed

abbreviation sample_map :: mvalue where
  "sample_map \<equiv> MValue (Tag_Map 1) [] [MValue (Tag_Str 1) [0x61] [], MValue (Tag_Uint 5) [] []]"

lemma sample_map_bytes: "value_bytes [0x81, 0xa1, 0x61, 5] sample_map"
proof -
  have s: "value_bytes ([0xa1] @ [0x61] @ []) (MValue (Tag_Str 1) [0x61] [])"
    using fixstr [of 1] by (intro one_value) simp_all
  have n: "value_bytes ([5] @ [] @ []) (MValue (Tag_Uint 5) [] [])"
    using pos_fixint [of 5] by (intro one_value) simp_all
  have "values_bytes (([0xa1] @ [0x61] @ []) @ (([5] @ [] @ []) @ []))
      [MValue (Tag_Str 1) [0x61] [], MValue (Tag_Uint 5) [] []]"
    by (intro more_values s n no_values)
  then have "value_bytes ([0x81] @ [] @ (([0xa1] @ [0x61] @ []) @ (([5] @ [] @ []) @ []))) sample_map"
    using fixmap [of 1] by (intro one_value) simp_all
  then show ?thesis by simp
qed

lemma sample_map_node: "\<exists>t. tree_parse [0x81, 0xa1, 0x61, 5] = Some t \<and> node_is t 0 sample_map"
  using parsed_node_is [OF sample_map_bytes, of "[0x81, 0xa1, 0x61, 5]" "[]"] by simp

lemma sample_str_node:
  "\<exists>t. tree_parse [0xa1, 0x61] = Some t \<and> node_is t 0 (MValue (Tag_Str 1) [0x61] [])"
proof -
  have "value_bytes ([0xa1] @ [0x61] @ []) (MValue (Tag_Str 1) [0x61] [])"
    using fixstr [of 1] by (intro one_value) simp_all
  from parsed_node_is [OF this, of "[0xa1, 0x61]" "[]"] show ?thesis by simp
qed

text \<open>\<open>agrees\<close>: an accessor of the tree and a read of the reader give the same value, or raise the
  same error.\<close>

definition agrees :: "'a option \<times> tree \<Rightarrow> ('a option \<times> reader) option \<Rightarrow> bool" where
  "agrees a m = (case m of None \<Rightarrow> False | Some (x, r) \<Rightarrow> x = fst a \<and> r_error r = t_error (snd a))"

lemma node_mismatch_simps [simp]:
  "fst (node_mismatch t) = None" "t_error t = Err_Ok \<Longrightarrow> t_error (snd (node_mismatch t)) = Err_Type"
  by (simp_all add: node_mismatch_def tree_flag_error_def)

lemma agrees_select:
  assumes "t_error t = Err_Ok" and "r_error r = Err_Ok" and "header hs tg" and "unread r = hs @ rest"
  shows "agrees (node_select select tg t) (select_read read_tag select r)"
proof (cases "select tg")
  case None
  with reading.select_mismatch [OF assms(2-4), of select] assms(1,2) show ?thesis
    by (simp add: agrees_def node_select_def flag_error_error)
next
  case (Some x)
  with reading.select_value [OF assms(2-4), of select] assms(1,2) show ?thesis
    by (simp add: agrees_def node_select_def)
qed

lemma agrees_payload:
  assumes "t_error t = Err_Ok" and "r_error r = Err_Ok" and "wf_reader r" and "header hs tg"
    and "unread r = hs @ pl @ rest" and sel: "\<And>len. select tg = Some len \<Longrightarrow> unat len = length pl"
  shows "agrees (if select tg = None then node_mismatch t else (Some pl, t))
    (try_opt (select_read read_tag select r) (\<lambda>len. read_bytes (unat (len :: u32))))"
proof (cases "select tg")
  case None
  with reading.select_mismatch [OF assms(2,4,5), of select] assms(1,2) show ?thesis
    by (simp add: agrees_def flag_error_error)
next
  case (Some len)
  have "wf_reader (advance (length hs) r)"
    using assms(2,5) by (intro advances_wf [OF advances_advance assms(3)]) simp_all
  with reading.select_value [OF assms(2,4,5), of select] sel [OF Some] assms(1,2,5) Some show ?thesis
    by (simp add: agrees_def read_bytes_ok)
qed

text \<open>What \<open>node_ext\<close> is compared with: the header of an extension and then its payload.\<close>

definition read_ext_payload :: "reader \<Rightarrow> ((i8 \<times> u8 list) option \<times> reader) option" where
  "read_ext_payload r = try_opt (read_ext_header r) (\<lambda>(ty, len) r.
     try_opt (read_bytes (unat len) r) (\<lambda>bytes r. Some (Some (ty, bytes), r)))"

lemma agrees_ext:
  assumes "t_error t = Err_Ok" and "r_error r = Err_Ok" and "wf_reader r" and "header hs tg"
    and "unread r = hs @ pl @ rest" and len: "length pl = payload_len tg"
  shows "agrees (case tag_ext tg of None \<Rightarrow> node_mismatch t | Some (ty, len) \<Rightarrow> (Some (ty, pl), t)) (read_ext_payload r)"
proof (cases "tag_ext tg")
  case None
  with reading.select_mismatch [OF assms(2,4,5), of tag_ext] assms(1,2) show ?thesis
    by (simp add: agrees_def flag_error_error read_ext_payload_def read_ext_header_select)
next
  case (Some e)
  then obtain ty n where e: "e = (ty, n)" "tg = Tag_Ext ty n"
    by (cases tg) auto
  have "wf_reader (advance (length hs) r)"
    using assms(2,5) by (intro advances_wf [OF advances_advance assms(3)]) simp_all
  with reading.select_value [OF assms(2,4,5), of tag_ext] Some e len assms(1,2,5) show ?thesis
    by (simp add: agrees_def read_bytes_ok read_ext_payload_def read_ext_header_select)
qed

text \<open>C33. The tree and the reader see the same message: on a node that represents a value, every scalar
  accessor and the accessors of strings, binaries and extensions agree with the typed reads of a reader that
  stands at any encoding of that value.\<close>

theorem node_agrees_with_reader:
  assumes "node_is t n v" and "value_bytes bs v" and "r_error r = Err_Ok" and "wf_reader r"
    and "unread r = bs @ rest"
  shows "agrees (as_bool n t) (read_bool r) \<and> agrees (as_u64 n t) (read_u64 r)
    \<and> agrees (as_i64 n t) (read_i64 r) \<and> agrees (as_f32 n t) (read_f32 r) \<and> agrees (as_f64 n t) (read_f64 r)
    \<and> agrees (node_str_bytes n t) (try_opt (read_str_header r) (\<lambda>len. read_bytes (unat len)))
    \<and> agrees (node_bin_bytes n t) (try_opt (read_bin_header r) (\<lambda>len. read_bytes (unat len)))
    \<and> agrees (node_ext n t) (read_ext_payload r)"
proof -
  obtain tg pl vs where v: "v = MValue tg pl vs"
    by (cases v)
  with assms(2) obtain hs cs where h: "bs = hs @ pl @ cs" "header hs tg" "length pl = payload_len tg"
    by (auto elim: value_bytesE)
  have u: "unread r = hs @ pl @ (cs @ rest)"
    using assms(5) h(1) by simp
  have ok: "t_error t = Err_Ok"
    using assms(1) by (simp add: node_is_def)
  have len: "\<And>len. tag_str tg = Some len \<Longrightarrow> unat len = length pl" "\<And>len. tag_bin tg = Some len \<Longrightarrow> unat len = length pl"
    using h(3) by (cases tg; simp)+
  note node = assms(1) [unfolded v]
  show ?thesis
    unfolding scalar_select [OF node] payload_select [OF node] typed_select
    by (intro conjI; rule agrees_select [OF ok assms(3) h(2) u] agrees_ext [OF ok assms(3,4) h(2) u h(3)]
        agrees_payload [OF ok assms(3,4) h(2) u len(1)] agrees_payload [OF ok assms(3,4) h(2) u len(2)])
qed

theorem node_agrees_with_reader_witness:
  "\<exists>t. tree_parse [0x81, 0xa1, 0x61, 5] = Some t
    \<and> agrees (as_u64 0 t) (read_u64 (reader_new [0x81, 0xa1, 0x61, 5]))"
proof -
  obtain t where t: "tree_parse [0x81, 0xa1, 0x61, 5] = Some t" "node_is t 0 sample_map"
    using sample_map_node by blast
  have "r_error (reader_new [0x81, 0xa1, 0x61, 5]) = Err_Ok"
    "unread (reader_new [0x81, 0xa1, 0x61, 5]) = [0x81, 0xa1, 0x61, 5] @ []"
    by (simp_all add: reader_new_def unread_def)
  from node_agrees_with_reader [OF t(2) sample_map_bytes this(1) wf_reader_new this(2)] t(1)
  show ?thesis by blast
qed

subsection \<open>Children by position\<close>

lemma child_at_represents:
  assumes "list_all2 (node_is t) (nd_children nd) vs"
  shows "k < length vs \<Longrightarrow> \<exists>i. child_at nd k t = (Some i, t) \<and> node_is t i (vs ! k)"
    and "length vs \<le> k \<Longrightarrow> child_at nd k t = (None, tree_flag_error Err_Data t)"
  using list_all2_lengthD [OF assms] list_all2_nthD2 [OF assms, of k]
  by (auto simp: child_at_def index_def)

lemma child_count_small: "child_count tg < 2 ^ 33"
proof -
  have "unat c < 2 ^ 33 \<and> 2 * unat c < 2 ^ 33" for c :: u32
    using unat_u32_less [of c] by simp
  then show ?thesis by (cases tg) simp_all
qed

lemma sat_double:
  assumes "length vs < 2 ^ 33"
  shows "sat_mul k 2 < length vs \<longleftrightarrow> 2 * k < length vs"
    and "sat_add (sat_mul k 2) 1 < length vs \<longleftrightarrow> 2 * k + 1 < length vs"
    and "2 * k < length vs \<Longrightarrow> sat_mul k 2 = 2 * k"
    and "2 * k + 1 < length vs \<Longrightarrow> sat_add (sat_mul k 2) 1 = 2 * k + 1"
  using assms by (auto simp: sat_mul_def sat_add_def usize_max_def min_def)

lemma child_or_data:
  assumes "list_all2 (node_is t) (nd_children nd) vs"
  shows "if k < length vs then \<exists>i. child_at nd k t = (Some i, t) \<and> node_is t i (vs ! k)
    else child_at nd k t = (None, tree_flag_error Err_Data t)"
  using child_at_represents [OF assms] by simp

text \<open>On a node that represents an array, \<open>array_len\<close> is the number of elements and \<open>array_at\<close> leads to
  a node that represents the element, or flags \<open>Data\<close> past the end; on a map, \<open>map_count\<close> is the
  number of entries and \<open>map_key_at\<close> and \<open>map_value_at\<close> lead to the key and the value of the entry,
  whatever the index, although its double saturates.\<close>

theorem node_children_by_position:
  assumes "node_is t n (MValue tg pl vs)"
  shows "case tg of
      Tag_Array c \<Rightarrow> node_array_len n t = (Some (unat c), t)
        \<and> (if k < unat c then \<exists>i. node_array_at n k t = (Some i, t) \<and> node_is t i (vs ! k)
           else node_array_at n k t = (None, tree_flag_error Err_Data t))
    | Tag_Map c \<Rightarrow> node_map_count n t = (Some (unat c), t)
        \<and> (if k < unat c
           then (\<exists>i. node_map_key_at n k t = (Some i, t) \<and> node_is t i (vs ! (2 * k)))
             \<and> (\<exists>i. node_map_value_at n k t = (Some i, t) \<and> node_is t i (vs ! (2 * k + 1)))
           else node_map_key_at n k t = (None, tree_flag_error Err_Data t)
             \<and> node_map_value_at n k t = (None, tree_flag_error Err_Data t))
    | _ \<Rightarrow> node_array_at n k t = (None, tree_flag_error Err_Type t)
        \<and> node_map_key_at n k t = (None, tree_flag_error Err_Type t)
        \<and> node_map_value_at n k t = (None, tree_flag_error Err_Type t)"
proof -
  note tag = node_is_tag [OF assms]
  from assms obtain nd where nd: "index (t_nodes t) n = Some nd"
    and cs: "list_all2 (node_is t) (nd_children nd) vs" and len: "length vs = child_count tg"
    by (rule node_isE) (rule that; assumption)
  have small: "length vs < 2 ^ 33"
    using len child_count_small by simp
  note at = child_or_data [OF cs] and n = list_all2_lengthD [OF cs]
  note double = sat_double [OF small, of k]
  show ?thesis
  proof (cases tg)
    case (Tag_Array c)
    with tag nd len n at [of k] show ?thesis
      by (simp add: node_array_len_def node_array_at_def)
  next
    case (Tag_Map c)
    with len have c: "length vs = 2 * unat c" by simp
    have 1: "if k < unat c then \<exists>i. child_at nd (sat_mul k 2) t = (Some i, t) \<and> node_is t i (vs ! (2 * k))
        else child_at nd (sat_mul k 2) t = (None, tree_flag_error Err_Data t)"
      using at [of "sat_mul k 2"] double(1,3) c by (simp split: if_splits)
    have 2: "if k < unat c
        then \<exists>i. child_at nd (sat_add (sat_mul k 2) 1) t = (Some i, t) \<and> node_is t i (vs ! (2 * k + 1))
        else child_at nd (sat_add (sat_mul k 2) 1) t = (None, tree_flag_error Err_Data t)"
      using at [of "sat_add (sat_mul k 2) 1"] double(2,4) c by (simp split: if_splits)
    from Tag_Map tag nd n c 1 2 show ?thesis
      by (simp add: node_map_count_def node_map_key_at_def node_map_value_at_def split: if_splits)
  qed (use tag in \<open>simp_all add: node_array_at_def node_map_key_at_def node_map_value_at_def node_mismatch_def\<close>)
qed

theorem node_children_by_position_witness:
  "\<exists>t i. tree_parse [0x81, 0xa1, 0x61, 5] = Some t \<and> node_map_value_at 0 0 t = (Some i, t)
    \<and> node_is t i (MValue (Tag_Uint 5) [] [])"
proof -
  obtain t where t: "tree_parse [0x81, 0xa1, 0x61, 5] = Some t" "node_is t 0 sample_map"
    using sample_map_node by blast
  from node_children_by_position [OF t(2), of 0] t(1) show ?thesis by auto
qed

subsection \<open>Maps by key\<close>

fun pairs :: "'a list \<Rightarrow> ('a \<times> 'a) list" where
  "pairs (k # v # rest) = (k, v) # pairs rest"
| "pairs _ = []"

definition matching :: "('a \<Rightarrow> bool) \<Rightarrow> 'a list \<Rightarrow> 'a list" where
  "matching P xs = map snd (List.filter (\<lambda>(k, _). P k) (pairs xs))"

lemma matching_simps [simp]:
  "matching P [] = []"
  "matching P (k # v # rest) = (if P k then v # matching P rest else matching P rest)"
  by (simp_all add: matching_def)

text \<open>The loop visits the entries from \<open>i\<close> on, and stops at the second match.\<close>

lemma lookup_entries_matching:
  "length cs = 2 * (i + k) \<Longrightarrow>
    lookup_entries k t cs key i found =
      (case (found, matching (\<lambda>c. key_matches t c key) (drop (2 * i) cs)) of
         (_, []) \<Rightarrow> Some (Some found) | (None, [v]) \<Rightarrow> Some (Some (Some v)) | _ \<Rightarrow> Some None)"
proof (induction k arbitrary: i found)
  case 0
  then show ?case by (simp split: option.split)
next
  case (Suc k)
  then have i: "2 * i < length cs" "Suc (2 * i) < length cs"
    by simp_all
  then have d: "drop (2 * i) cs = cs ! (2 * i) # cs ! Suc (2 * i) # drop (2 * (i + 1)) cs"
    by (simp add: Cons_nth_drop_Suc)
  have "length cs = 2 * ((i + 1) + k)"
    using Suc.prems by simp
  note IH = Suc.IH [OF this, simplified]
  show ?case
    using i d by (cases found) (simp_all add: checked mult.commute [of i] IH split: list.split)
qed

definition key_value_matches :: "map_key \<Rightarrow> mvalue \<Rightarrow> bool" where
  "key_value_matches key v = (case key of
     Key_Int want \<Rightarrow> tag_integer (value_tag v) = Some (sint want)
   | Key_Uint want \<Rightarrow> tag_integer (value_tag v) = Some (uint want)
   | Key_Str want \<Rightarrow> kind (value_tag v) = Type_Str \<and> value_payload v = want)"

lemma sint_eq_uint_iff: "sint (w :: 64 word) = uint v \<longleftrightarrow> 0 \<le> sint w \<and> v = w"
  using sint_uint_nonneg [of w] by (metis uint_ge_0 word_uint_eq_iff)

lemma key_matches_value:
  assumes "node_is t c v"
  shows "key_matches t c key = key_value_matches key v"
proof -
  obtain tg pl vs where v: "v = MValue tg pl vs"
    by (cases v)
  from assms [unfolded v] obtain nd where nd: "index (t_nodes t) c = Some nd" "nd_tag nd = tg"
    and sl: "\<And>len. unat len = payload_len tg \<Longrightarrow> slice (t_data t) (nd_payload_off nd)
        (sat_add (nd_payload_off nd) (unat (len :: u32))) = Some pl"
    by (rule node_isE) (rule that; assumption)
  show ?thesis
  proof (cases key)
    case (Key_Int want)
    with nd v show ?thesis
      using sint_eq_uint_iff [of want]
      by (cases tg) (auto simp: key_matches_def key_value_matches_def tag_integer_def signed_word_eqI
          eq_commute [of "uint _"])
  next
    case (Key_Uint want)
    with nd v show ?thesis
      using sint_eq_uint_iff
      by (cases tg) (auto simp: key_matches_def key_value_matches_def tag_integer_def word_uint_eq_iff)
  next
    case (Key_Str want)
    with nd v sl show ?thesis
      by (cases tg) (auto simp: key_matches_def key_value_matches_def Let_def)
  qed
qed

lemma matching_rel:
  "list_all2 R xs ys \<Longrightarrow> (\<And>x y. R x y \<Longrightarrow> P x = Q y) \<Longrightarrow> list_all2 R (matching P xs) (matching Q ys)"
proof (induction xs arbitrary: ys rule: pairs.induct)
  case (1 k v rest)
  then obtain k' v' rest' where ys: "ys = k' # v' # rest'" and R: "R k k'" "R v v'" "list_all2 R rest rest'"
    by (auto simp: list_all2_Cons1)
  have "list_all2 R (matching P rest) (matching Q rest')" "P k = Q k'"
    using 1 R by simp_all
  with ys R(2) show ?case by simp
qed (auto simp: list_all2_Cons1 matching_def)

lemma map_lookup_value:
  assumes "node_is t n (MValue (Tag_Map c) pl vs)"
  shows "case matching (key_value_matches key) vs of
      [] \<Rightarrow> map_lookup key required n t = Some (None, if required then tree_flag_error Err_Data t else t)
    | [v] \<Rightarrow> (\<exists>i. map_lookup key required n t = Some (Some i, t) \<and> node_is t i v)
    | _ \<Rightarrow> map_lookup key required n t = Some (None, tree_flag_error Err_Data t)"
proof -
  note tag = node_is_tag [OF assms]
  from assms obtain nd where nd: "index (t_nodes t) n = Some nd"
    and cs: "list_all2 (node_is t) (nd_children nd) vs" and len: "length vs = 2 * unat c"
    by (rule node_isE) (rule that; simp)
  let ?ms = "matching (\<lambda>i. key_matches t i key) (nd_children nd)"
  have ms: "list_all2 (node_is t) ?ms (matching (key_value_matches key) vs)"
    using cs key_matches_value by (rule matching_rel)
  have "lookup_entries (length (nd_children nd) div 2) t (nd_children nd) key 0 None =
      (case (None, ?ms) of
         (_, []) \<Rightarrow> Some (Some None) | (None, [v]) \<Rightarrow> Some (Some (Some v)) | _ \<Rightarrow> Some None)"
    using lookup_entries_matching [of "nd_children nd" 0 "unat c" t key None] list_all2_lengthD [OF cs] len
    by simp
  with ms tag nd show ?thesis
    by (cases ?ms rule: remdups_adj.cases)
      (auto simp: map_lookup_def list_all2_Cons1)
qed

text \<open>C31. A lookup in a map works on the values: when exactly one key equals the wanted one (integers of
  either signedness compare as numbers, strings by their bytes) it leads to a node that represents
  the entry's value; two equal keys flag \<open>Data\<close>; a missing key flags \<open>Data\<close> only when it is required.
  The lookup never panics.\<close>

theorem map_lookup_by_value:
  assumes "node_is t n (MValue (Tag_Map c) pl vs)"
  shows "case matching (key_value_matches key) vs of
      [] \<Rightarrow> map_lookup key required n t = Some (None, if required then tree_flag_error Err_Data t else t)
    | [v] \<Rightarrow> (\<exists>i. map_lookup key required n t = Some (Some i, t) \<and> node_is t i v)
    | _ \<Rightarrow> map_lookup key required n t = Some (None, tree_flag_error Err_Data t)"
  by (rule map_lookup_value [OF assms])

theorem map_lookup_by_value_witness:
  "\<exists>t i. tree_parse [0x81, 0xa1, 0x61, 5] = Some t \<and> map_lookup (Key_Str [0x61]) True 0 t = Some (Some i, t)
    \<and> node_is t i (MValue (Tag_Uint 5) [] [])"
proof -
  obtain t where t: "tree_parse [0x81, 0xa1, 0x61, 5] = Some t" "node_is t 0 sample_map"
    using sample_map_node by blast
  from map_lookup_by_value [OF t(2), of "Key_Str [0x61]" True] t(1) show ?thesis
    by (auto simp: key_value_matches_def)
qed

subsection \<open>Enumerations\<close>

lemma find_string_first:
  "find_string bs strings i =
     (if bs \<in> set strings then Some (i + length (takeWhile (\<lambda>s. s \<noteq> bs) strings)) else None)"
  by (induction strings arbitrary: i) auto

text \<open>\<open>enum_str\<close> answers with the position of the first string equal to the node's; on any other
  string, or another type, it answers with the number of strings and flags \<open>Type\<close> unless optional.\<close>

theorem enum_str_by_value:
  assumes "node_is t n (MValue tg pl vs)"
  shows "enum_str strings optional n t =
    (if kind tg = Type_Str \<and> pl \<in> set strings then (length (takeWhile (\<lambda>s. s \<noteq> pl) strings), t)
     else (length strings, if optional then t else tree_flag_error Err_Type t))"
proof -
  note tag = node_is_tag [OF assms]
  from assms obtain nd where nd: "index (t_nodes t) n = Some nd"
    and sl: "\<And>len. unat len = payload_len tg \<Longrightarrow> slice (t_data t) (nd_payload_off nd)
        (sat_add (nd_payload_off nd) (unat (len :: u32))) = Some pl"
    by (rule node_isE) (rule that; assumption)
  with tag show ?thesis
    by (cases tg) (simp_all add: enum_str_def Let_def find_string_first)
qed

theorem enum_str_by_value_witness:
  "\<exists>t. tree_parse [0xa1, 0x61] = Some t \<and> enum_str [[], [0x61]] False 0 t = (1, t)"
proof -
  obtain t where t: "tree_parse [0xa1, 0x61] = Some t" "node_is t 0 (MValue (Tag_Str 1) [0x61] [])"
    using sample_str_node by blast
  from enum_str_by_value [OF t(2), of "[[], [0x61]]" False] t(1) show ?thesis by simp
qed

subsection \<open>The contract of all accessors\<close>

text \<open>Whatever the node index, an accessor answers nothing on a tree with an error and leaves it as it
  is; otherwise it changes at most the error, and a tree that it has changed gave no answer.\<close>

definition accessor :: "(tree \<Rightarrow> 'a option \<times> tree) \<Rightarrow> bool" where
  "accessor a \<longleftrightarrow> (\<forall>t. (t_error t \<noteq> Err_Ok \<longrightarrow> a t = (None, t))
     \<and> (\<exists>e. snd (a t) = tree_flag_error e t) \<and> (fst (a t) \<noteq> None \<longrightarrow> snd (a t) = t))"

lemma accessorI:
  assumes "\<And>t. t_error t \<noteq> Err_Ok \<Longrightarrow> a t = (None, t)"
    and "\<And>t. t_error t = Err_Ok \<Longrightarrow> (\<exists>e. a t = (None, tree_flag_error e t)) \<or> (\<exists>x. a t = (Some x, t))"
  shows "accessor a"
  unfolding accessor_def
proof (intro allI conjI)
  fix t :: tree
  have same: "tree_flag_error Err_Ok t = t"
    by (simp add: tree_flag_error_def)
  show "t_error t \<noteq> Err_Ok \<longrightarrow> a t = (None, t)"
    using assms(1) by blast
  show "\<exists>e. snd (a t) = tree_flag_error e t"
    using assms [of t] same by (metis snd_conv)
  show "fst (a t) \<noteq> None \<longrightarrow> snd (a t) = t"
    using assms [of t] by (metis fst_conv snd_conv)
qed

lemma node_tag_cases:
  "(\<exists>tg nd. node_tag n t = (tg, t) \<and> index (t_nodes t) n = Some nd)
   \<or> (node_tag n t = (Tag_Nil, tree_flag_error Err_Bug t) \<and> index (t_nodes t) n = None)"
  by (cases "index (t_nodes t) n") (simp_all add: node_tag_def)

lemma flag_twice: "e \<noteq> Err_Ok \<Longrightarrow> tree_flag_error e' (tree_flag_error e t) = tree_flag_error e t"
  by (simp add: tree_flag_error_def)

lemma accessor_on_tag:
  assumes nil: "\<And>t. k Tag_Nil t = node_mismatch t"
    and node: "\<And>t tg nd. index (t_nodes t) n = Some nd \<Longrightarrow>
      (\<exists>e. k tg t = (None, tree_flag_error e t)) \<or> (\<exists>x. k tg t = (Some x, t))"
  shows "accessor (\<lambda>t. if t_error t \<noteq> Err_Ok then (None, t) else case node_tag n t of (tg, t) \<Rightarrow> k tg t)"
proof (rule accessorI)
  fix t :: tree assume ok: "t_error t = Err_Ok"
  from node_tag_cases [of n t]
  show "(\<exists>e. (if t_error t \<noteq> Err_Ok then (None, t) else case node_tag n t of (tg, t) \<Rightarrow> k tg t)
        = (None, tree_flag_error e t))
    \<or> (\<exists>x. (if t_error t \<noteq> Err_Ok then (None, t) else case node_tag n t of (tg, t) \<Rightarrow> k tg t) = (Some x, t))"
  proof (elim disjE exE conjE)
    fix tg nd assume "node_tag n t = (tg, t)" "index (t_nodes t) n = Some nd"
    with ok node [of t nd tg] show ?thesis by simp
  next
    assume "node_tag n t = (Tag_Nil, tree_flag_error Err_Bug t)"
    with ok nil have "(if t_error t \<noteq> Err_Ok then (None, t) else case node_tag n t of (tg, t) \<Rightarrow> k tg t)
        = (None, tree_flag_error Err_Bug t)"
      by (simp add: node_mismatch_def flag_twice)
    then show ?thesis by blast
  qed
qed simp

lemma slice_cases:
  "(\<exists>e. payload_slice nd len t = (None, tree_flag_error e t)) \<or> (\<exists>x. payload_slice nd len t = (Some x, t))"
  by (cases "slice (t_data t) (nd_payload_off nd) (sat_add (nd_payload_off nd) (unat len))")
    (auto simp: payload_slice_def Let_def)

lemma child_cases:
  "(\<exists>e. child_at nd k t = (None, tree_flag_error e t)) \<or> (\<exists>x. child_at nd k t = (Some x, t))"
  by (cases "index (nd_children nd) k") (auto simp: child_at_def)

lemma mismatch_cases: "\<exists>e. node_mismatch t = (None, tree_flag_error e t)"
  by (auto simp: node_mismatch_def)

lemma flag_ok: "(a, t) = (None, tree_flag_error Err_Ok t) \<longleftrightarrow> a = None"
  by (simp add: tree_flag_error_def)

lemma lookup_entries_total: "2 * (i + k) \<le> length cs \<Longrightarrow> lookup_entries k t cs key i found \<noteq> None"
  by (induction k arbitrary: i found) (simp_all add: index_def)

lemma map_lookup_total:
  "map_lookup key required n = Some \<circ> (\<lambda>t. if t_error t \<noteq> Err_Ok then (None, t)
     else case node_tag n t of (tg, t) \<Rightarrow>
       (case tg of
          Tag_Map _ \<Rightarrow>
            (case index (t_nodes t) n of
               None \<Rightarrow> (None, t)
             | Some nd \<Rightarrow>
                 (case the (lookup_entries (length (nd_children nd) div 2) t (nd_children nd) key 0 None) of
                    None \<Rightarrow> (None, tree_flag_error Err_Data t)
                  | Some (Some i) \<Rightarrow> (Some i, t)
                  | Some None \<Rightarrow> (None, if required then tree_flag_error Err_Data t else t)))
        | _ \<Rightarrow> node_mismatch t))"
proof -
  have res: "lookup_entries (length cs div 2) t cs key 0 None
      = Some (the (lookup_entries (length cs div 2) t cs key 0 None))" for cs t
    using lookup_entries_total [of 0 "length cs div 2" cs t key None] by simp
  show ?thesis
    unfolding map_lookup_def fun_eq_iff comp_def
    by (auto split: tag.split option.split prod.split) (subst res, simp split: option.split)+
qed

text \<open>The contract of the accessors, for every tree and every node index: on a tree with an error
  nothing is answered and nothing changes; otherwise the node table, the data and the root stay,
  at most an error is set, and then there is no answer. No accessor panics, and a lookup by key
  does not either.\<close>

theorem node_accessors_contract:
  "accessor (as_bool n) \<and> accessor (as_u64 n) \<and> accessor (as_i64 n) \<and> accessor (as_f32 n)
   \<and> accessor (as_f64 n) \<and> accessor (node_str_bytes n) \<and> accessor (node_bin_bytes n)
   \<and> accessor (node_ext n) \<and> accessor (node_array_len n) \<and> accessor (node_array_at n k)
   \<and> accessor (node_map_count n) \<and> accessor (node_map_key_at n k) \<and> accessor (node_map_value_at n k)
   \<and> (\<exists>a. accessor a \<and> map_lookup key required n = Some \<circ> a)"
proof (intro conjI)
  show "accessor (as_bool n)"
    unfolding as_bool_def [abs_def] by (rule accessor_on_tag) (auto simp: mismatch_cases split: tag.splits)
  show "accessor (as_u64 n)"
    unfolding as_u64_def [abs_def] by (rule accessor_on_tag) (auto simp: mismatch_cases split: tag.splits)
  show "accessor (as_i64 n)"
    unfolding as_i64_def [abs_def] by (rule accessor_on_tag) (auto simp: mismatch_cases split: tag.splits)
  show "accessor (as_f32 n)"
    unfolding as_f32_def [abs_def] by (rule accessor_on_tag) (auto simp: mismatch_cases split: tag.splits)
  show "accessor (as_f64 n)"
    unfolding as_f64_def [abs_def] by (rule accessor_on_tag) (auto simp: mismatch_cases split: tag.splits)
  show "accessor (node_str_bytes n)"
    unfolding node_str_bytes_def [abs_def]
    by (rule accessor_on_tag) (auto simp: mismatch_cases slice_cases split: tag.splits)
  show "accessor (node_bin_bytes n)"
    unfolding node_bin_bytes_def [abs_def]
    by (rule accessor_on_tag) (auto simp: mismatch_cases slice_cases split: tag.splits)
  show "accessor (node_ext n)"
    unfolding node_ext_def [abs_def]
    by (rule accessor_on_tag) (auto simp: mismatch_cases payload_slice_def Let_def split: tag.splits option.splits)
  show "accessor (node_array_len n)"
    unfolding node_array_len_def [abs_def]
    by (rule accessor_on_tag) (auto simp: mismatch_cases split: tag.splits)
  show "accessor (node_array_at n k)"
    unfolding node_array_at_def [abs_def]
    by (rule accessor_on_tag) (auto simp: mismatch_cases child_cases split: tag.splits)
  show "accessor (node_map_count n)"
    unfolding node_map_count_def [abs_def]
    by (rule accessor_on_tag) (auto simp: mismatch_cases split: tag.splits)
  show "accessor (node_map_key_at n k)"
    unfolding node_map_key_at_def [abs_def]
    by (rule accessor_on_tag) (auto simp: mismatch_cases child_cases split: tag.splits)
  show "accessor (node_map_value_at n k)"
    unfolding node_map_value_at_def [abs_def]
    by (rule accessor_on_tag) (auto simp: mismatch_cases child_cases split: tag.splits)
  have same: "\<exists>e. t = tree_flag_error e t" for t :: tree
    by (rule exI [of _ Err_Ok]) (simp add: tree_flag_error_def)
  show "\<exists>a. accessor a \<and> map_lookup key required n = Some \<circ> a"
    unfolding map_lookup_total
    by (rule exI, rule conjI [OF accessor_on_tag refl])
      (auto simp: mismatch_cases same split: tag.splits option.splits)
qed

end
