(* ===== verification/Ffi_Types.thy ===== *)
theory Ffi_Types
  imports Mpack_Common
begin

section \<open>C error and type codes (\<open>src/ffi/types.rs\<close>, \<open>src/ffi/suite_libc.rs\<close>)\<close>

text \<open>
  The C interface in the configuration \<open>full-suite-abi\<close>: error and type codes are \<open>c_int\<close> values.
  The allocator is code outside the crate. It is a parameter \<open>malloc\<close> of every operation that
  allocates: the contents of a new block of the requested size, or \<open>None\<close> for a null pointer.
\<close>

type_synonym c_int = "32 word"
type_synonym allocator = "nat \<Rightarrow> u8 list option"

definition MPACK_OK :: c_int where "MPACK_OK = 0"
definition MPACK_ERROR_IO :: c_int where "MPACK_ERROR_IO = 2"
definition MPACK_ERROR_INVALID :: c_int where "MPACK_ERROR_INVALID = 3"
definition MPACK_ERROR_UNSUPPORTED :: c_int where "MPACK_ERROR_UNSUPPORTED = 4"
definition MPACK_ERROR_TYPE :: c_int where "MPACK_ERROR_TYPE = 5"
definition MPACK_ERROR_TOO_BIG :: c_int where "MPACK_ERROR_TOO_BIG = 6"
definition MPACK_ERROR_MEMORY :: c_int where "MPACK_ERROR_MEMORY = 7"
definition MPACK_ERROR_BUG :: c_int where "MPACK_ERROR_BUG = 8"
definition MPACK_ERROR_DATA :: c_int where "MPACK_ERROR_DATA = 9"
definition MPACK_ERROR_EOF :: c_int where "MPACK_ERROR_EOF = 10"

fun core_error_to_abi :: "error \<Rightarrow> c_int" where
  "core_error_to_abi Err_Ok = MPACK_OK"
| "core_error_to_abi Err_Io = MPACK_ERROR_IO"
| "core_error_to_abi Err_Invalid = MPACK_ERROR_INVALID"
| "core_error_to_abi Err_Unsupported = MPACK_ERROR_UNSUPPORTED"
| "core_error_to_abi Err_Type = MPACK_ERROR_TYPE"
| "core_error_to_abi Err_TooBig = MPACK_ERROR_TOO_BIG"
| "core_error_to_abi Err_Memory = MPACK_ERROR_MEMORY"
| "core_error_to_abi Err_Bug = MPACK_ERROR_BUG"
| "core_error_to_abi Err_Data = MPACK_ERROR_DATA"
| "core_error_to_abi Err_Eof = MPACK_ERROR_EOF"

lemmas c_codes = MPACK_OK_def MPACK_ERROR_IO_def MPACK_ERROR_INVALID_def MPACK_ERROR_UNSUPPORTED_def
  MPACK_ERROR_TYPE_def MPACK_ERROR_TOO_BIG_def MPACK_ERROR_MEMORY_def MPACK_ERROR_BUG_def
  MPACK_ERROR_DATA_def MPACK_ERROR_EOF_def

lemma c_error_distinct [simp]:
  "MPACK_ERROR_IO \<noteq> MPACK_OK" "MPACK_ERROR_INVALID \<noteq> MPACK_OK" "MPACK_ERROR_TOO_BIG \<noteq> MPACK_OK"
  "MPACK_ERROR_MEMORY \<noteq> MPACK_OK" "MPACK_ERROR_BUG \<noteq> MPACK_OK" "MPACK_OK \<noteq> MPACK_ERROR_BUG"
  "MPACK_OK \<noteq> MPACK_ERROR_MEMORY" "MPACK_OK \<noteq> MPACK_ERROR_TOO_BIG" "MPACK_ERROR_MEMORY \<noteq> MPACK_ERROR_BUG"
  "MPACK_ERROR_BUG \<noteq> MPACK_ERROR_TOO_BIG" "MPACK_ERROR_TOO_BIG \<noteq> MPACK_ERROR_BUG"
  by (simp_all add: c_codes)

lemma core_error_to_abi_ok [simp]: "core_error_to_abi e = MPACK_OK \<longleftrightarrow> e = Err_Ok"
  by (cases e) (simp_all add: c_codes)

lemma core_error_to_abi_inject: "core_error_to_abi e = core_error_to_abi e' \<longleftrightarrow> e = e'"
  by (cases e; cases e') (simp_all add: c_codes)

definition TYPE_MISSING :: c_int where "TYPE_MISSING = 0"
definition TYPE_NIL :: c_int where "TYPE_NIL = 1"
definition TYPE_BOOL :: c_int where "TYPE_BOOL = 2"
definition TYPE_INT :: c_int where "TYPE_INT = 3"
definition TYPE_UINT :: c_int where "TYPE_UINT = 4"
definition TYPE_FLOAT :: c_int where "TYPE_FLOAT = 5"
definition TYPE_DOUBLE :: c_int where "TYPE_DOUBLE = 6"
definition TYPE_STR :: c_int where "TYPE_STR = 7"
definition TYPE_BIN :: c_int where "TYPE_BIN = 8"
definition TYPE_ARRAY :: c_int where "TYPE_ARRAY = 9"
definition TYPE_MAP :: c_int where "TYPE_MAP = 10"
definition TYPE_EXT :: c_int where "TYPE_EXT = 11"

lemmas c_types = TYPE_MISSING_def TYPE_NIL_def TYPE_BOOL_def TYPE_INT_def TYPE_UINT_def TYPE_FLOAT_def TYPE_DOUBLE_def TYPE_STR_def TYPE_BIN_def TYPE_ARRAY_def TYPE_MAP_def TYPE_EXT_def

text \<open>A tag of the C interface, and the conversion from a tag of the core (\<open>src/ffi/reader.rs\<close>).\<close>

record mpack_tag =
  mt_type :: c_int
  mt_exttype :: i8
  mt_value :: u64

definition mpack_tag_zero :: mpack_tag where
  "mpack_tag_zero = \<lparr>mt_type = 0, mt_exttype = 0, mt_value = 0\<rparr>"

definition mpack_tag_nil :: mpack_tag where
  "mpack_tag_nil = \<lparr>mt_type = 1, mt_exttype = 0, mt_value = 0\<rparr>"

fun tag_to_abi :: "tag \<Rightarrow> mpack_tag" where
  "tag_to_abi Tag_Nil = mpack_tag_nil"
| "tag_to_abi (Tag_Bool v) = \<lparr>mt_type = TYPE_BOOL, mt_exttype = 0, mt_value = of_bool v\<rparr>"
| "tag_to_abi (Tag_Int v) = \<lparr>mt_type = TYPE_INT, mt_exttype = 0, mt_value = v\<rparr>"
| "tag_to_abi (Tag_Uint v) = \<lparr>mt_type = TYPE_UINT, mt_exttype = 0, mt_value = v\<rparr>"
| "tag_to_abi (Tag_Float v) = \<lparr>mt_type = TYPE_FLOAT, mt_exttype = 0, mt_value = ucast v\<rparr>"
| "tag_to_abi (Tag_Double v) = \<lparr>mt_type = TYPE_DOUBLE, mt_exttype = 0, mt_value = v\<rparr>"
| "tag_to_abi (Tag_Str n) = \<lparr>mt_type = TYPE_STR, mt_exttype = 0, mt_value = ucast n\<rparr>"
| "tag_to_abi (Tag_Bin n) = \<lparr>mt_type = TYPE_BIN, mt_exttype = 0, mt_value = ucast n\<rparr>"
| "tag_to_abi (Tag_Array n) = \<lparr>mt_type = TYPE_ARRAY, mt_exttype = 0, mt_value = ucast n\<rparr>"
| "tag_to_abi (Tag_Map n) = \<lparr>mt_type = TYPE_MAP, mt_exttype = 0, mt_value = ucast n\<rparr>"
| "tag_to_abi (Tag_Ext ty n) = \<lparr>mt_type = TYPE_EXT, mt_exttype = ty, mt_value = ucast n\<rparr>"

text \<open>\<open>isize::MAX\<close> of a 64-bit target: no object, and no allocation of a \<open>Vec\<close>, is larger.\<close>

definition isize_max :: nat where
  "isize_max = 2 ^ 63 - 1"

text \<open>The configuration's capacities: \<open>full-suite-abi\<close> outside the frozen link.\<close>

definition OWNED_BUFFER_CAPACITY :: nat where "OWNED_BUFFER_CAPACITY = 4096"
definition TRACKING_INITIAL_CAPACITY :: nat where "TRACKING_INITIAL_CAPACITY = 3"

end
