(* ===== verification/Ffi_Track.thy ===== *)
theory Ffi_Track
  imports Ffi_Types
begin

section \<open>The C tracker of open compounds (\<open>src/ffi/stubs/track.rs\<close>)\<close>

text \<open>
  The tracker is a growable array behind a raw pointer. The allocation is a list of slots, as many as the block
  that was allocated has room for, \<open>None\<close> a slot that was never written; a null pointer is \<open>None\<close>. An access to a slot outside the
  allocation, or a read of a slot that was never written, is undefined behaviour and the value
  \<open>None\<close> of the operation; the theory \<open>Ffi_Track_Theorems\<close> proves that it does not happen. The
  debug hook \<open>mpack_break_hit\<close> is code of the C side that reports and returns; it has no effect on
  the tracker. \<open>force_fail\<close> is the value of the test hook \<open>FORCE_TRACK_INIT_FAIL\<close>.
\<close>

record track_elem =
  ft_type :: c_int
  ft_left :: u32
  ft_key_needs_value :: bool
  ft_builder :: bool

record ffi_track =
  tk_count :: nat
  tk_capacity :: nat
  tk_elements :: "track_elem option list option"

definition track_elem_size :: nat where
  "track_elem_size = 12"

text \<open>The slots a new block has room for; its bytes are no elements yet.\<close>

definition block_slots :: "u8 list \<Rightarrow> track_elem option list" where
  "block_slots block = replicate (length block div track_elem_size) None"

definition track_empty :: ffi_track where
  "track_empty = \<lparr>tk_count = 0, tk_capacity = 0, tk_elements = None\<rparr>"

definition track_init :: "bool \<Rightarrow> allocator \<Rightarrow> ffi_track \<Rightarrow> c_int \<times> ffi_track" where
  "track_init force_fail malloc track =
     (let track = track\<lparr>tk_count := 0\<rparr> in
      if force_fail then (MPACK_ERROR_MEMORY, track\<lparr>tk_capacity := 0, tk_elements := None\<rparr>)
      else
        (let track = track\<lparr>tk_capacity := TRACKING_INITIAL_CAPACITY\<rparr>;
             bytes = sat_mul TRACKING_INITIAL_CAPACITY track_elem_size
         in case malloc (max bytes 1) of
              None \<Rightarrow> (MPACK_ERROR_MEMORY, track\<lparr>tk_capacity := 0, tk_elements := None\<rparr>)
            | Some block \<Rightarrow> (MPACK_OK, track\<lparr>tk_elements := Some (block_slots block)\<rparr>)))"

text \<open>\<open>suite_realloc\<close> copies the \<open>old_capacity\<close> first elements of the old block to the front of the new one; the
  copy is undefined when one of the two blocks is too small for it.\<close>

definition track_grow :: "allocator \<Rightarrow> ffi_track \<Rightarrow> (c_int \<times> ffi_track) option" where
  "track_grow malloc track =
     (let old_capacity = tk_capacity track;
          new_capacity = max (sat_mul old_capacity 2) TRACKING_INITIAL_CAPACITY;
          new_bytes = sat_mul new_capacity track_elem_size
      in case malloc (max new_bytes 1) of
           None \<Rightarrow> Some (MPACK_ERROR_MEMORY, track)
         | Some block \<Rightarrow> do {
             used \<leftarrow> (case tk_elements track of None \<Rightarrow> Some [] | Some slots \<Rightarrow> slice slots 0 old_capacity);
             slots \<leftarrow> store_at (block_slots block) 0 used;
             Some (MPACK_OK, track\<lparr>tk_elements := Some slots, tk_capacity := new_capacity\<rparr>)
           })"

definition track_push_impl ::
  "allocator \<Rightarrow> c_int \<Rightarrow> u32 \<Rightarrow> bool \<Rightarrow> ffi_track \<Rightarrow> (c_int \<times> ffi_track) option"
where
  "track_push_impl malloc ty count builder track =
     (if tk_elements track = None then Some (MPACK_ERROR_BUG, track)
      else do {
        (err, track) \<leftarrow>
          (if tk_count track = tk_capacity track then track_grow malloc track else Some (MPACK_OK, track));
        (if err \<noteq> MPACK_OK then Some (err, track)
         else do {
           slots \<leftarrow> tk_elements track;
           slots \<leftarrow> store_at slots (tk_count track)
             [Some \<lparr>ft_type = ty, ft_left = count, ft_key_needs_value = False, ft_builder = builder\<rparr>];
           Some (MPACK_OK, track\<lparr>tk_elements := Some slots, tk_count := tk_count track + 1\<rparr>)
         })
      })"

definition track_push :: "allocator \<Rightarrow> c_int \<Rightarrow> u32 \<Rightarrow> ffi_track \<Rightarrow> (c_int \<times> ffi_track) option" where
  "track_push malloc ty count track = track_push_impl malloc ty count False track"

definition track_push_builder :: "allocator \<Rightarrow> c_int \<Rightarrow> ffi_track \<Rightarrow> (c_int \<times> ffi_track) option" where
  "track_push_builder malloc ty track = track_push_impl malloc ty 0 True track"

text \<open>\<open>&mut *track.elements.add(track.count - 1)\<close>, and the same element written back.\<close>

definition top_elem :: "ffi_track \<Rightarrow> track_elem option" where
  "top_elem track = do {
     slots \<leftarrow> tk_elements track;
     slot \<leftarrow> index slots (tk_count track - 1);
     slot
   }"

definition set_top :: "track_elem \<Rightarrow> ffi_track \<Rightarrow> ffi_track" where
  "set_top e track = track\<lparr>tk_elements :=
     map_option (\<lambda>slots. slots[tk_count track - 1 := Some e]) (tk_elements track)\<rparr>"

definition track_pop_impl :: "c_int \<Rightarrow> bool \<Rightarrow> ffi_track \<Rightarrow> (c_int \<times> ffi_track) option" where
  "track_pop_impl ty builder track =
     (if tk_elements track = None then Some (MPACK_ERROR_BUG, track)
      else if tk_count track = 0 then Some (MPACK_ERROR_BUG, track)
      else do {
        e \<leftarrow> top_elem track;
        (if ft_type e \<noteq> ty then Some (MPACK_ERROR_BUG, track)
         else if ft_key_needs_value e then Some (MPACK_ERROR_BUG, track)
         else if ft_left e \<noteq> 0 then Some (MPACK_ERROR_BUG, track)
         else if ft_builder e \<noteq> builder then Some (MPACK_ERROR_BUG, track)
         else Some (MPACK_OK, track\<lparr>tk_count := tk_count track - 1\<rparr>))
      })"

definition track_pop :: "c_int \<Rightarrow> ffi_track \<Rightarrow> (c_int \<times> ffi_track) option" where
  "track_pop ty track = track_pop_impl ty False track"

definition track_pop_builder :: "c_int \<Rightarrow> ffi_track \<Rightarrow> (c_int \<times> ffi_track) option" where
  "track_pop_builder ty track = track_pop_impl ty True track"

definition track_peek_element_impl :: "ffi_track \<Rightarrow> c_int option" where
  "track_peek_element_impl track =
     (if tk_elements track = None then Some MPACK_ERROR_BUG
      else if tk_count track = 0 then Some MPACK_OK
      else do {
        e \<leftarrow> top_elem track;
        (if ft_type e \<noteq> TYPE_MAP \<and> ft_type e \<noteq> TYPE_ARRAY then Some MPACK_ERROR_BUG
         else if \<not> ft_builder e \<and> ft_left e = 0 \<and> \<not> ft_key_needs_value e then Some MPACK_ERROR_BUG
         else Some MPACK_OK)
      })"

text \<open>\<open>element.left.saturating_sub(1)\<close>.\<close>

definition sat_pred :: "u32 \<Rightarrow> u32" where
  "sat_pred n = (if n = 0 then 0 else n - 1)"

definition track_element_impl :: "ffi_track \<Rightarrow> (c_int \<times> ffi_track) option" where
  "track_element_impl track = do {
     err \<leftarrow> track_peek_element_impl track;
     (if tk_count track = 0 \<or> err \<noteq> MPACK_OK then Some (err, track)
      else do {
        e \<leftarrow> top_elem track;
        (if ft_type e = TYPE_MAP \<and> \<not> ft_key_needs_value e
         then Some (MPACK_OK, set_top (e\<lparr>ft_key_needs_value := True\<rparr>) track)
         else
           (let e = (if ft_type e = TYPE_MAP then e\<lparr>ft_key_needs_value := False\<rparr> else e);
                e = (if \<not> ft_builder e then e\<lparr>ft_left := sat_pred (ft_left e)\<rparr> else e)
            in Some (MPACK_OK, set_top e track)))
      })
   }"

definition track_bytes_impl :: "nat \<Rightarrow> ffi_track \<Rightarrow> (c_int \<times> ffi_track) option" where
  "track_bytes_impl count track =
     (if tk_elements track = None then Some (MPACK_ERROR_BUG, track)
      else if count > 2 ^ 32 - 1 then Some (MPACK_ERROR_BUG, track)
      else if tk_count track = 0 then Some (MPACK_ERROR_BUG, track)
      else do {
        e \<leftarrow> top_elem track;
        (if ft_type e = TYPE_MAP \<or> ft_type e = TYPE_ARRAY then Some (MPACK_ERROR_BUG, track)
         else if unat (ft_left e) < count then Some (MPACK_ERROR_BUG, track)
         else Some (MPACK_OK, set_top (e\<lparr>ft_left := ft_left e - word_of_nat count\<rparr>) track))
      })"

definition track_str_bytes_all_impl :: "nat \<Rightarrow> ffi_track \<Rightarrow> (c_int \<times> ffi_track) option" where
  "track_str_bytes_all_impl count track = do {
     (err, track) \<leftarrow> track_bytes_impl count track;
     (if err \<noteq> MPACK_OK then Some (err, track)
      else do {
        e \<leftarrow> top_elem track;
        (if ft_type e \<noteq> TYPE_STR then Some (MPACK_ERROR_BUG, track)
         else if ft_left e \<noteq> 0 then Some (MPACK_ERROR_BUG, track)
         else Some (MPACK_OK, track))
      })
   }"

definition track_check_empty :: "ffi_track \<Rightarrow> c_int" where
  "track_check_empty track = (if tk_count track \<noteq> 0 then MPACK_ERROR_BUG else MPACK_OK)"

definition track_destroy :: "bool \<Rightarrow> ffi_track \<Rightarrow> c_int \<times> ffi_track" where
  "track_destroy cancel track =
     (let err = (if cancel then MPACK_OK else track_check_empty track)
      in (err, track\<lparr>tk_elements := None, tk_count := 0, tk_capacity := 0\<rparr>))"

definition track_element :: "ffi_track \<Rightarrow> (c_int \<times> ffi_track) option" where
  "track_element track = track_element_impl track"

definition track_peek_element :: "ffi_track \<Rightarrow> c_int option" where
  "track_peek_element track = track_peek_element_impl track"

definition track_bytes :: "nat \<Rightarrow> ffi_track \<Rightarrow> (c_int \<times> ffi_track) option" where
  "track_bytes count track = track_bytes_impl count track"

definition track_str_bytes_all :: "nat \<Rightarrow> ffi_track \<Rightarrow> (c_int \<times> ffi_track) option" where
  "track_str_bytes_all count track = track_str_bytes_all_impl count track"

definition track_push_for_tag ::
  "allocator \<Rightarrow> c_int \<Rightarrow> u32 \<Rightarrow> ffi_track \<Rightarrow> (c_int \<times> ffi_track) option"
where
  "track_push_for_tag malloc ty count track =
     (if ty \<in> {TYPE_MAP, TYPE_ARRAY, TYPE_STR, TYPE_BIN, TYPE_EXT} then track_push malloc ty count track
      else Some (MPACK_OK, track))"

text \<open>The exported functions; a null pointer is \<open>None\<close>.\<close>

definition mpack_track_bytes :: "nat \<Rightarrow> ffi_track option \<Rightarrow> (c_int \<times> ffi_track option) option" where
  "mpack_track_bytes count track =
     (case track of None \<Rightarrow> Some (MPACK_ERROR_BUG, None)
      | Some t \<Rightarrow> do { (err, t) \<leftarrow> track_bytes_impl count t; Some (err, Some t) })"

definition mpack_track_element :: "ffi_track option \<Rightarrow> (c_int \<times> ffi_track option) option" where
  "mpack_track_element track =
     (case track of None \<Rightarrow> Some (MPACK_ERROR_BUG, None)
      | Some t \<Rightarrow> do { (err, t) \<leftarrow> track_element_impl t; Some (err, Some t) })"

definition mpack_track_peek_element :: "ffi_track option \<Rightarrow> c_int option" where
  "mpack_track_peek_element track =
     (case track of None \<Rightarrow> Some MPACK_ERROR_BUG | Some t \<Rightarrow> track_peek_element_impl t)"

definition mpack_track_str_bytes_all :: "nat \<Rightarrow> ffi_track option \<Rightarrow> (c_int \<times> ffi_track option) option" where
  "mpack_track_str_bytes_all count track =
     (case track of None \<Rightarrow> Some (MPACK_ERROR_BUG, None)
      | Some t \<Rightarrow> do { (err, t) \<leftarrow> track_str_bytes_all_impl count t; Some (err, Some t) })"

end
