(* ===== verification/Ffi_Track_Theorems.thy ===== *)
theory Ffi_Track_Theorems
  imports Ffi_Track Compound_Theorems
begin

section \<open>What the C tracker guarantees\<close>

text \<open>
  \<open>track_rep t es\<close>: the allocation of \<open>t\<close> holds the open items \<open>es\<close>, the innermost first. Every
  operation is characterised on this list; from there the tracker refines the \<open>WriteTracker\<close> of
  \<open>src/writer.rs\<close>, whose accepted call sequences are known.
\<close>

subsection \<open>The representation\<close>

text \<open>What the C standard promises of an allocation: it has the requested size, and no object is
  larger than \<open>PTRDIFF_MAX\<close>.\<close>

definition allocator_ok :: "allocator \<Rightarrow> bool" where
  "allocator_ok malloc \<longleftrightarrow> (\<forall>n bs. malloc n = Some bs \<longrightarrow> length bs = n \<and> n \<le> isize_max)"

definition track_rep :: "ffi_track \<Rightarrow> track_elem list \<Rightarrow> bool" where
  "track_rep t es \<longleftrightarrow> (\<exists>slots. tk_elements t = Some slots \<and> length slots = tk_capacity t
     \<and> tk_capacity t * track_elem_size \<le> isize_max
     \<and> tk_count t = length es \<and> tk_count t \<le> tk_capacity t
     \<and> take (tk_count t) slots = map Some (rev es))"

lemma track_repE:
  assumes "track_rep t es"
  obtains rest where "tk_elements t = Some (map Some (rev es) @ rest)" and "tk_count t = length es"
    and "tk_capacity t = length es + length rest" and "tk_capacity t * track_elem_size \<le> isize_max"
proof -
  from assms obtain slots where s: "tk_elements t = Some slots" "length slots = tk_capacity t"
      "tk_capacity t * track_elem_size \<le> isize_max" "tk_count t = length es" "tk_count t \<le> tk_capacity t"
      "take (tk_count t) slots = map Some (rev es)"
    by (auto simp: track_rep_def)
  have "slots = map Some (rev es) @ drop (tk_count t) slots"
    using s(6) append_take_drop_id [of "tk_count t" slots] by simp
  with s show thesis
    by (intro that [of "drop (tk_count t) slots"]) simp_all
qed

lemma track_repI:
  "tk_elements t = Some (map Some (rev es) @ rest) \<Longrightarrow> tk_count t = length es \<Longrightarrow>
    tk_capacity t = length es + length rest \<Longrightarrow> tk_capacity t * track_elem_size \<le> isize_max \<Longrightarrow> track_rep t es"
  by (simp add: track_rep_def)

lemma track_rep_not_null: "track_rep t es \<Longrightarrow> tk_elements t \<noteq> None"
  by (auto simp: track_rep_def)

lemma track_rep_count: "track_rep t es \<Longrightarrow> tk_count t = length es"
  by (auto simp: track_rep_def)

lemma top_elem_rep: "track_rep t (e # es) \<Longrightarrow> top_elem t = Some e"
  by (erule track_repE) (simp add: top_elem_def index_def nth_append)

lemma set_top_rep: "track_rep t (e # es) \<Longrightarrow> track_rep (set_top e' t) (e' # es)"
  by (erule track_repE, rule track_repI) (simp_all add: set_top_def list_update_append)

lemma pop_rep: "track_rep t (e # es) \<Longrightarrow> track_rep (t\<lparr>tk_count := tk_count t - 1\<rparr>) es"
  by (erule track_repE, rule track_repI [where rest = "Some e # rest" for rest]) simp_all

lemma rep_after:
  "track_rep t es \<Longrightarrow> es \<noteq> [] \<Longrightarrow> \<exists>es'. track_rep (t\<lparr>tk_count := tk_count t - Suc 0\<rparr>) es'"
  "track_rep t es \<Longrightarrow> es \<noteq> [] \<Longrightarrow> \<exists>es'. track_rep (set_top e t) es'"
  using pop_rep [of t "hd es" "tl es"] set_top_rep [of t "hd es" "tl es" e] by auto

text \<open>A block of the requested size has a slot for every element of the capacity.\<close>

lemma track_init_rep:
  assumes "malloc 36 \<noteq> None" and "allocator_ok malloc"
  shows "\<exists>t'. track_init False malloc t = (MPACK_OK, t') \<and> track_rep t' []"
  using assms
  by (auto simp: track_init_def track_rep_def sat_mul_def usize_max_def isize_max_def track_elem_size_def
      TRACKING_INITIAL_CAPACITY_def allocator_ok_def block_slots_def)

definition new_elem :: "c_int \<Rightarrow> u32 \<Rightarrow> bool \<Rightarrow> track_elem" where
  "new_elem ty count builder =
     \<lparr>ft_type = ty, ft_left = count, ft_key_needs_value = False, ft_builder = builder\<rparr>"

lemma track_push_rep:
  assumes rep: "track_rep t es" and alloc: "allocator_ok malloc"
  obtains (memory) "track_push_impl malloc ty n b t = Some (MPACK_ERROR_MEMORY, t)"
      and "tk_capacity t = length es" and "malloc (max (sat_mul (max (sat_mul (length es) 2) 3) 12) 1) = None"
    | (pushed) t' where "track_push_impl malloc ty n b t = Some (MPACK_OK, t')"
      and "track_rep t' (new_elem ty n b # es)"
proof -
  from rep obtain rest where r: "tk_elements t = Some (map Some (rev es) @ rest)" "tk_count t = length es"
      "tk_capacity t = length es + length rest" "tk_capacity t * track_elem_size \<le> isize_max"
    by (rule track_repE)
  show thesis
  proof (cases "rest = []")
    case False
    then obtain s rest' where rest: "rest = s # rest'"
      by (cases rest) auto
    let ?t = "t\<lparr>tk_elements := Some (map Some (rev es) @ Some (new_elem ty n b) # rest'), tk_count := tk_count t + 1\<rparr>"
    have "track_push_impl malloc ty n b t = Some (MPACK_OK, ?t)"
      using r rest by (simp add: track_push_impl_def store_at_def new_elem_def)
    moreover have "track_rep ?t (new_elem ty n b # es)"
      using r rest by (intro track_repI [of _ _ rest']) simp_all
    ultimately show thesis by (rule pushed)
  next
    case True
    then have full: "tk_count t = tk_capacity t" "tk_elements t = Some (map Some (rev es))"
      using r by simp_all
    let ?cap = "max (sat_mul (tk_capacity t) 2) 3"
    show thesis
    proof (cases "malloc (max (sat_mul ?cap 12) 1)")
      case None
      then show thesis
        using full r(2) by (intro memory)
          (simp_all add: track_push_impl_def track_grow_def track_elem_size_def TRACKING_INITIAL_CAPACITY_def)
    next
      case (Some block)
      have small: "tk_capacity t * 12 \<le> 2 ^ 63 - 1"
        using r(4) by (simp add: track_elem_size_def isize_max_def)
      then have dbl: "sat_mul (tk_capacity t) 2 = tk_capacity t * 2"
        by (simp add: sat_mul_def usize_max_def)
      with small have bytes12: "sat_mul ?cap 12 = ?cap * 12"
        by (simp add: sat_mul_def usize_max_def max_def)
      have "max (sat_mul ?cap 12) 1 \<le> isize_max"
        using alloc Some unfolding allocator_ok_def by blast
      with bytes12 have bytes: "?cap * track_elem_size \<le> isize_max"
        by (simp add: track_elem_size_def)
      have more: "length es < ?cap"
        using full r(2) dbl by (simp add: max_def)
      have block: "length block = ?cap * 12"
      proof -
        have "length block = max (sat_mul ?cap 12) 1"
          using alloc Some unfolding allocator_ok_def by blast
        also have "\<dots> = ?cap * 12"
          unfolding bytes12 by (simp add: max_def)
        finally show ?thesis .
      qed
      have "slice (map Some (rev es)) 0 (tk_capacity t) = Some (map Some (rev es))"
        using full r(2) by (simp add: slice_def)
      moreover have "store_at (block_slots block) 0 (map Some (rev es))
          = Some (map Some (rev es) @ replicate (?cap - length es) None)"
        using block more by (simp add: block_slots_def track_elem_size_def store_at_def)
      ultimately have grown: "track_grow malloc t = Some (MPACK_OK, t\<lparr>tk_elements := Some (map Some (rev es)
          @ replicate (?cap - length es) None), tk_capacity := ?cap\<rparr>)"
        using Some full(2) by (simp add: track_grow_def track_elem_size_def TRACKING_INITIAL_CAPACITY_def Let_def)
      from more obtain k where k: "?cap - length es = Suc k"
        by (metis Suc_diff_Suc)
      let ?t = "t\<lparr>tk_elements := Some (map Some (rev es) @ Some (new_elem ty n b) # replicate k None),
        tk_capacity := ?cap, tk_count := tk_count t + 1\<rparr>"
      have "track_push_impl malloc ty n b t = Some (MPACK_OK, ?t)"
        using full grown r(2) k by (simp add: track_push_impl_def store_at_def new_elem_def)
      moreover have "track_rep ?t (new_elem ty n b # es)"
        using r(2) k more bytes by (intro track_repI [of _ _ "replicate k None"]) simp_all
      ultimately show thesis by (rule pushed)
    qed
  qed
qed

subsection \<open>The operations on the open items\<close>

lemma track_pop_rep:
  assumes "track_rep t es"
  shows "track_pop_impl ty b t = (case es of
      [] \<Rightarrow> Some (MPACK_ERROR_BUG, t)
    | e # _ \<Rightarrow>
        if ft_type e = ty \<and> \<not> ft_key_needs_value e \<and> ft_left e = 0 \<and> ft_builder e = b
        then Some (MPACK_OK, t\<lparr>tk_count := tk_count t - 1\<rparr>) else Some (MPACK_ERROR_BUG, t))"
  using track_rep_not_null [OF assms] track_rep_count [OF assms] assms
  by (cases es) (auto simp: track_pop_impl_def top_elem_rep)

lemma track_peek_rep:
  assumes "track_rep t es"
  shows "track_peek_element_impl t = Some (case es of
      [] \<Rightarrow> MPACK_OK
    | e # _ \<Rightarrow>
        if (ft_type e = TYPE_MAP \<or> ft_type e = TYPE_ARRAY)
          \<and> (ft_builder e \<or> ft_left e \<noteq> 0 \<or> ft_key_needs_value e)
        then MPACK_OK else MPACK_ERROR_BUG)"
  using track_rep_not_null [OF assms] track_rep_count [OF assms] assms
  by (cases es) (auto simp: track_peek_element_impl_def top_elem_rep)

definition count_element :: "track_elem \<Rightarrow> track_elem" where
  "count_element e =
     (if ft_type e = TYPE_MAP \<and> \<not> ft_key_needs_value e then e\<lparr>ft_key_needs_value := True\<rparr>
      else (let e = (if ft_type e = TYPE_MAP then e\<lparr>ft_key_needs_value := False\<rparr> else e)
            in if \<not> ft_builder e then e\<lparr>ft_left := sat_pred (ft_left e)\<rparr> else e))"

lemma track_element_rep:
  assumes "track_rep t es"
  shows "track_element_impl t = Some (case es of
      [] \<Rightarrow> (MPACK_OK, t)
    | e # _ \<Rightarrow>
        if (ft_type e = TYPE_MAP \<or> ft_type e = TYPE_ARRAY)
          \<and> (ft_builder e \<or> ft_left e \<noteq> 0 \<or> ft_key_needs_value e)
        then (MPACK_OK, set_top (count_element e) t) else (MPACK_ERROR_BUG, t))"
  using track_peek_rep [OF assms] track_rep_count [OF assms] assms
  by (cases es) (simp_all add: track_element_impl_def top_elem_rep count_element_def Let_def)

lemma track_bytes_rep:
  assumes "track_rep t es"
  shows "track_bytes_impl n t = Some (case es of
      [] \<Rightarrow> (MPACK_ERROR_BUG, t)
    | e # _ \<Rightarrow>
        if ft_type e \<noteq> TYPE_MAP \<and> ft_type e \<noteq> TYPE_ARRAY \<and> n \<le> unat (ft_left e)
        then (MPACK_OK, set_top (e\<lparr>ft_left := ft_left e - word_of_nat n\<rparr>) t) else (MPACK_ERROR_BUG, t))"
proof (cases es)
  case (Cons e es')
  have "unat (ft_left e) \<le> 2 ^ 32 - 1"
    using unat_u32_less [of "ft_left e"] by simp
  with Cons assms track_rep_not_null [OF assms] track_rep_count [OF assms] show ?thesis
    by (auto simp: track_bytes_impl_def top_elem_rep)
qed (use track_rep_not_null [OF assms] track_rep_count [OF assms] in \<open>simp add: track_bytes_impl_def\<close>)

lemma track_str_bytes_all_rep:
  assumes "track_rep t es"
  shows "\<exists>err t' es'. track_str_bytes_all_impl n t = Some (err, t') \<and> err \<in> {MPACK_OK, MPACK_ERROR_BUG}
    \<and> track_rep t' es'"
proof (cases es)
  case Nil
  with track_bytes_rep [OF assms, of n] assms show ?thesis
    by (auto simp: track_str_bytes_all_impl_def)
next
  case (Cons e es')
  with track_bytes_rep [OF assms, of n] assms show ?thesis
    using set_top_rep [of t e es' "e\<lparr>ft_left := ft_left e - word_of_nat n\<rparr>"]
    by (auto simp: track_str_bytes_all_impl_def top_elem_rep)
qed

subsection \<open>No access outside the allocation\<close>

text \<open>The runs of the C tracker: it is initialised, and then any operations are called on it, with any
  arguments, and with an allocator that may answer with a null pointer at any time.\<close>

datatype c_track_op =
    C_push allocator c_int u32
  | C_push_builder allocator c_int
  | C_pop c_int
  | C_pop_builder c_int
  | C_element
  | C_bytes nat
  | C_str_bytes_all nat

fun c_track_step :: "c_track_op \<Rightarrow> ffi_track \<Rightarrow> (c_int \<times> ffi_track) option" where
  "c_track_step (C_push malloc ty n) t = track_push malloc ty n t"
| "c_track_step (C_push_builder malloc ty) t = track_push_builder malloc ty t"
| "c_track_step (C_pop ty) t = track_pop ty t"
| "c_track_step (C_pop_builder ty) t = track_pop_builder ty t"
| "c_track_step C_element t = track_element t"
| "c_track_step (C_bytes n) t = track_bytes n t"
| "c_track_step (C_str_bytes_all n) t = track_str_bytes_all n t"

fun op_allocator_ok :: "c_track_op \<Rightarrow> bool" where
  "op_allocator_ok (C_push malloc _ _) \<longleftrightarrow> allocator_ok malloc"
| "op_allocator_ok (C_push_builder malloc _) \<longleftrightarrow> allocator_ok malloc"
| "op_allocator_ok _ \<longleftrightarrow> True"

inductive track_reachable :: "ffi_track \<Rightarrow> bool" where
  initialised: "allocator_ok malloc \<Longrightarrow> track_init False malloc t0 = (MPACK_OK, t) \<Longrightarrow> track_reachable t"
| called: "track_reachable t \<Longrightarrow> op_allocator_ok op \<Longrightarrow> c_track_step op t = Some (err, t') \<Longrightarrow>
    track_reachable t'"

lemma c_track_step_rep:
  assumes rep: "track_rep t es" and alloc: "op_allocator_ok op"
  shows "\<exists>err t' es'. c_track_step op t = Some (err, t') \<and> track_rep t' es'
    \<and> err \<in> {MPACK_OK, MPACK_ERROR_BUG, MPACK_ERROR_MEMORY}"
proof (cases op)
  case (C_push malloc ty n)
  with alloc have "allocator_ok malloc" by simp
  from rep this show ?thesis
    by (cases rule: track_push_rep [of t es malloc ty n False]) (use C_push rep in \<open>auto simp: track_push_def\<close>)
next
  case (C_push_builder malloc ty)
  with alloc have "allocator_ok malloc" by simp
  from rep this show ?thesis
    by (cases rule: track_push_rep [of t es malloc ty 0 True])
      (use C_push_builder rep in \<open>auto simp: track_push_builder_def\<close>)
next
  case (C_pop ty)
  with track_pop_rep [OF rep] rep rep_after(1) [OF rep] show ?thesis
    by (cases es) (auto simp: track_pop_def)
next
  case (C_pop_builder ty)
  with track_pop_rep [OF rep] rep rep_after(1) [OF rep] show ?thesis
    by (cases es) (auto simp: track_pop_builder_def)
next
  case C_element
  with track_element_rep [OF rep] rep rep_after(2) [OF rep] show ?thesis
    by (cases es) (auto simp: track_element_def)
next
  case (C_bytes n)
  with track_bytes_rep [OF rep] rep rep_after(2) [OF rep] show ?thesis
    by (cases es) (auto simp: track_bytes_def)
next
  case (C_str_bytes_all n)
  with track_str_bytes_all_rep [OF rep, of n] show ?thesis
    by (auto simp: track_str_bytes_all_def)
qed

lemma track_reachable_rep: "track_reachable t \<Longrightarrow> \<exists>es. track_rep t es"
proof (induction rule: track_reachable.induct)
  case (initialised malloc t0 t)
  then have "malloc 36 \<noteq> None"
    by (cases "malloc 36")
      (auto simp: track_init_def sat_mul_def usize_max_def track_elem_size_def TRACKING_INITIAL_CAPACITY_def Let_def)
  with track_init_rep [of malloc t0] initialised show ?case by auto
next
  case (called t op err t')
  with c_track_step_rep [of t _ op] show ?case by fastforce
qed

text \<open>C39. Whatever sequence of calls is made on an initialised C tracker, no operation ever reads a slot
  that was not written or touches memory outside its allocation, also across the growth of the
  allocation and after an allocation that failed; each returns ok, a bug or a memory error.\<close>

theorem track_memory_safe:
  assumes "track_reachable t" and "op_allocator_ok op"
  shows "\<exists>err t'. c_track_step op t = Some (err, t') \<and> err \<in> {MPACK_OK, MPACK_ERROR_BUG, MPACK_ERROR_MEMORY}"
  using track_reachable_rep [OF assms(1)] c_track_step_rep [OF _ assms(2)] by blast

theorem track_memory_safe_witness:
  "\<exists>t err t'. track_init False (\<lambda>n. if n \<le> 36 then Some (replicate n 0) else None) track_empty = (MPACK_OK, t)
     \<and> c_track_step (C_push (\<lambda>n. None) TYPE_ARRAY 2) t = Some (err, t')"
proof -
  let ?malloc = "\<lambda>n. if n \<le> 36 then Some (replicate n (0 :: u8)) else None"
  have ok: "allocator_ok ?malloc"
    by (auto simp: allocator_ok_def isize_max_def)
  obtain t where t: "track_init False ?malloc track_empty = (MPACK_OK, t)"
    using track_init_rep [of ?malloc track_empty] ok by auto
  have "track_reachable t"
    using ok t by (rule initialised)
  from track_memory_safe [OF this, of "C_push (\<lambda>n. None) TYPE_ARRAY 2"] t show ?thesis
    by (auto simp: allocator_ok_def)
qed

subsection \<open>The C tracker refines \<open>WriteTracker\<close>\<close>

text \<open>
  The interface of a tracker: its states stand for states of \<open>WriteTracker\<close>, and a call is accepted
  exactly when \<open>WriteTracker\<close> accepts it, unless it gives up for want of memory.
\<close>

datatype 's outcome = Accepted 's | Refused | Gave_up

fun run_calls :: "(track_call \<Rightarrow> 's \<Rightarrow> 's outcome) \<Rightarrow> track_call list \<Rightarrow> 's \<Rightarrow> 's outcome" where
  "run_calls f [] s = Accepted s"
| "run_calls f (c # cs) s = (case f c s of Accepted s' \<Rightarrow> run_calls f cs s' | other \<Rightarrow> other)"

locale tracker_model =
  fixes rep :: "'s \<Rightarrow> write_tracker \<Rightarrow> bool"
    and call :: "track_call \<Rightarrow> 's \<Rightarrow> 's outcome"
    and fits :: "track_call \<Rightarrow> bool"
    and starved :: "track_call \<Rightarrow> 's \<Rightarrow> bool"
  assumes accepted: "rep s st \<Longrightarrow> fits c \<Longrightarrow> call c s = Accepted s' \<Longrightarrow>
      \<exists>st'. track_step c st = (Inr (), st') \<and> rep s' st'"
    and refused: "rep s st \<Longrightarrow> fits c \<Longrightarrow> call c s = Refused \<Longrightarrow> \<exists>e st'. track_step c st = (Inl e, st')"
    and gave_up: "rep s st \<Longrightarrow> fits c \<Longrightarrow> call c s = Gave_up \<Longrightarrow> starved c s"
begin

lemma run_accepted:
  "rep s st \<Longrightarrow> list_all fits cs \<Longrightarrow> run_calls call cs s = Accepted s' \<Longrightarrow>
    \<exists>st'. track_run cs st = Some st' \<and> rep s' st'"
proof (induction cs arbitrary: s st)
  case (Cons c cs)
  then obtain s1 where 1: "call c s = Accepted s1" "run_calls call cs s1 = Accepted s'"
    by (auto split: outcome.splits)
  from accepted [OF Cons.prems(1) _ 1(1)] Cons.prems(2) obtain st1
    where "track_step c st = (Inr (), st1)" "rep s1 st1"
    by auto
  with Cons.IH [OF _ _ 1(2)] Cons.prems(2) show ?case by simp
qed simp

lemma run_refused:
  "rep s st \<Longrightarrow> list_all fits cs \<Longrightarrow> run_calls call cs s = Refused \<Longrightarrow> track_run cs st = None"
proof (induction cs arbitrary: s st)
  case (Cons c cs)
  show ?case
  proof (cases "call c s")
    case (Accepted s1)
    with accepted [OF Cons.prems(1) _ this] Cons.prems(2) obtain st1
      where "track_step c st = (Inr (), st1)" "rep s1 st1"
      by auto
    with Cons.IH [of s1 st1] Cons.prems Accepted show ?thesis by simp
  next
    case Refused
    with refused [OF Cons.prems(1) _ this] Cons.prems(2) show ?thesis by auto
  qed (use Cons.prems in simp)
qed simp

lemma run_gave_up:
  "rep s st \<Longrightarrow> list_all fits cs \<Longrightarrow> run_calls call cs s = Gave_up \<Longrightarrow>
    \<exists>before c after s1. cs = before @ c # after \<and> run_calls call before s = Accepted s1 \<and> starved c s1"
proof (induction cs arbitrary: s st)
  case (Cons c cs)
  show ?case
  proof (cases "call c s")
    case (Accepted s1)
    with accepted [OF Cons.prems(1) _ this] Cons.prems(2) obtain st1
      where "track_step c st = (Inr (), st1)" "rep s1 st1"
      by auto
    with Cons.IH [of s1 st1] Cons.prems Accepted obtain before c' after s2
      where "cs = before @ c' # after" "run_calls call before s1 = Accepted s2" "starved c' s2"
      by auto
    with Accepted show ?thesis
      by (intro exI [of _ "c # before"] exI [of _ c'] exI [of _ after] exI [of _ s2]) simp
  next
    case Gave_up
    with gave_up [OF Cons.prems(1) _ this] Cons.prems(2) show ?thesis
      by (intro exI [of _ "[]"] exI [of _ c] exI [of _ cs] exI [of _ s]) simp
  qed (use Cons.prems in simp)
qed simp

text \<open>From the empty tracker, the accepted and finished runs are the complete call sequences.\<close>

lemma runs_complete:
  assumes "rep s []" and "list_all fits cs"
  shows "case run_calls call cs s of
      Accepted s' \<Rightarrow> \<exists>st. rep s' st \<and> (st = [] \<longleftrightarrow> complete_calls cs)
    | Refused \<Rightarrow> \<not> complete_calls cs
    | Gave_up \<Rightarrow> \<exists>before c after s1. cs = before @ c # after \<and> run_calls call before s = Accepted s1 \<and> starved c s1"
proof (cases "run_calls call cs s")
  case (Accepted s')
  from run_accepted [OF assms Accepted] obtain st where "track_run cs [] = Some st" "rep s' st"
    by blast
  with Accepted complete_run [of cs] run_complete [of cs] show ?thesis by auto
next
  case Refused
  from run_refused [OF assms Refused] complete_run [of cs] Refused show ?thesis by auto
next
  case Gave_up
  with run_gave_up [OF assms Gave_up] show ?thesis by simp
qed

end

text \<open>\<open>WriteTracker\<close> itself is such a tracker, one that never gives up.\<close>

definition safe_call :: "track_call \<Rightarrow> write_tracker \<Rightarrow> write_tracker outcome" where
  "safe_call c st = (case track_step c st of (Inr _, st') \<Rightarrow> Accepted st' | (Inl _, _) \<Rightarrow> Refused)"

interpretation safe_tracker: tracker_model "(=)" safe_call "\<lambda>_. True" "\<lambda>_ _. False"
  by unfold_locales (auto simp: safe_call_def split: prod.splits sum.splits)


fun kind_code :: "track_kind \<Rightarrow> c_int" where
  "kind_code Kind_Array = TYPE_ARRAY"
| "kind_code Kind_Map = TYPE_MAP"
| "kind_code Kind_Str = TYPE_STR"
| "kind_code Kind_Bin = TYPE_BIN"
| "kind_code Kind_Ext = TYPE_EXT"

lemma kind_code_inject [simp]: "kind_code k = kind_code k' \<longleftrightarrow> k = k'"
  by (cases k; cases k') (simp_all add: c_types)

lemma kind_code_simps [simp]:
  "kind_code k = TYPE_MAP \<longleftrightarrow> k = Kind_Map" "kind_code k = TYPE_ARRAY \<longleftrightarrow> k = Kind_Array"
  "TYPE_MAP = kind_code k \<longleftrightarrow> k = Kind_Map" "TYPE_ARRAY = kind_code k \<longleftrightarrow> k = Kind_Array"
  by (cases k; simp add: c_types)+

lemma odd_pos: "Suc a = 2 * b \<Longrightarrow> 0 < a"
  by presburger

text \<open>An open item of a plain (not builder) compound or payload and what \<open>WriteTracker\<close> has for it: the
  C tracker counts map entries and remembers that a key was written, \<open>WriteTracker\<close> counts the values.\<close>

definition elem_rep :: "track_elem \<Rightarrow> track_element \<Rightarrow> bool" where
  "elem_rep e item \<longleftrightarrow> \<not> ft_builder e \<and> ft_type e = kind_code (te_kind item)
     \<and> (if te_kind item = Kind_Map
        then (if ft_key_needs_value e then te_left item + 1 = 2 * unat (ft_left e)
              else te_left item = 2 * unat (ft_left e))
        else \<not> ft_key_needs_value e \<and> te_left item = unat (ft_left e))"

definition c_rep :: "ffi_track \<Rightarrow> write_tracker \<Rightarrow> bool" where
  "c_rep t st \<longleftrightarrow> (\<exists>es. track_rep t es \<and> list_all2 elem_rep es st)"

definition c_run :: "allocator \<Rightarrow> track_call \<Rightarrow> ffi_track \<Rightarrow> (c_int \<times> ffi_track) option" where
  "c_run malloc c t =
     (case c of
        Call_push k n \<Rightarrow> track_push malloc (kind_code k) (word_of_nat n) t
      | Call_element \<Rightarrow> track_element t
      | Call_bytes n \<Rightarrow> track_bytes n t
      | Call_pop k \<Rightarrow> track_pop (kind_code k) t)"

definition c_call :: "allocator \<Rightarrow> track_call \<Rightarrow> ffi_track \<Rightarrow> ffi_track outcome" where
  "c_call malloc c t =
     (case c_run malloc c t of
        None \<Rightarrow> Gave_up
      | Some (err, t) \<Rightarrow>
          if err = MPACK_OK then Accepted t else if err = MPACK_ERROR_BUG then Refused else Gave_up)"

fun c_fits :: "track_call \<Rightarrow> bool" where
  "c_fits (Call_push _ n) \<longleftrightarrow> n < 2 ^ 32"
| "c_fits _ \<longleftrightarrow> True"

lemma elem_rep_new:
  assumes "n < 2 ^ 32"
  shows "elem_rep (new_elem (kind_code k) (word_of_nat n) False) \<lparr>te_kind = k, te_left = announced k n\<rparr>"
  using assms unat_of_nat_small [of n, where 'a = 32]
  by (simp add: elem_rep_def new_elem_def announced_def sat_mul_def usize_max_def)

lemma elem_rep_element:
  assumes "elem_rep e item"
  shows "is_payload (te_kind item) \<or> te_left item = 0 \<longleftrightarrow>
      \<not> ((ft_type e = TYPE_MAP \<or> ft_type e = TYPE_ARRAY) \<and> (ft_builder e \<or> ft_left e \<noteq> 0 \<or> ft_key_needs_value e))"
    and "\<not> is_payload (te_kind item) \<Longrightarrow> te_left item \<noteq> 0 \<Longrightarrow>
      elem_rep (count_element e) (item\<lparr>te_left := te_left item - 1\<rparr>)"
proof -
  have zero: "unat (ft_left e) = 0 \<longleftrightarrow> ft_left e = 0"
    by (rule unat_eq_zero)
  have pred: "ft_left e \<noteq> 0 \<Longrightarrow> unat (ft_left e - 1) = unat (ft_left e) - 1"
    by (simp add: unat_minus_one)
  show "is_payload (te_kind item) \<or> te_left item = 0 \<longleftrightarrow>
      \<not> ((ft_type e = TYPE_MAP \<or> ft_type e = TYPE_ARRAY) \<and> (ft_builder e \<or> ft_left e \<noteq> 0 \<or> ft_key_needs_value e))"
    using assms zero by (cases "te_kind item") (auto simp: elem_rep_def is_payload_def c_types dest: odd_pos split: if_splits)
  show "elem_rep (count_element e) (item\<lparr>te_left := te_left item - 1\<rparr>)"
    if "\<not> is_payload (te_kind item)" "te_left item \<noteq> 0"
    using assms that zero pred
    by (cases "te_kind item") (auto simp: elem_rep_def is_payload_def count_element_def sat_pred_def c_types split: if_splits)
qed

lemma elem_rep_bytes:
  assumes "elem_rep e item"
  shows "\<not> is_payload (te_kind item) \<or> n > te_left item \<longleftrightarrow>
      \<not> (ft_type e \<noteq> TYPE_MAP \<and> ft_type e \<noteq> TYPE_ARRAY \<and> n \<le> unat (ft_left e))"
    and "is_payload (te_kind item) \<Longrightarrow> n \<le> te_left item \<Longrightarrow>
      elem_rep (e\<lparr>ft_left := ft_left e - word_of_nat n\<rparr>) (item\<lparr>te_left := te_left item - n\<rparr>)"
proof -
  show "\<not> is_payload (te_kind item) \<or> n > te_left item \<longleftrightarrow>
      \<not> (ft_type e \<noteq> TYPE_MAP \<and> ft_type e \<noteq> TYPE_ARRAY \<and> n \<le> unat (ft_left e))"
    using assms by (cases "te_kind item") (auto simp: elem_rep_def is_payload_def c_types)
  show "elem_rep (e\<lparr>ft_left := ft_left e - word_of_nat n\<rparr>) (item\<lparr>te_left := te_left item - n\<rparr>)"
    if "is_payload (te_kind item)" "n \<le> te_left item"
  proof -
    from that assms have n: "n \<le> unat (ft_left e)" "te_kind item \<noteq> Kind_Map"
      by (auto simp: elem_rep_def is_payload_def)
    have u: "unat (word_of_nat n :: u32) = n"
      using n(1) unat_u32_less [of "ft_left e"] by (intro unat_of_nat_small) simp
    have "unat (ft_left e - word_of_nat n) = unat (ft_left e) - n"
      using unat_sub [of "word_of_nat n" "ft_left e"] n(1) by (simp add: word_le_nat_alt u)
    with assms n show ?thesis by (simp add: elem_rep_def)
  qed
qed

lemma elem_rep_pop:
  assumes "elem_rep e item"
  shows "te_kind item = k \<and> te_left item = 0 \<longleftrightarrow>
    ft_type e = kind_code k \<and> \<not> ft_key_needs_value e \<and> ft_left e = 0 \<and> ft_builder e = False"
proof -
  have "unat (ft_left e) = 0 \<longleftrightarrow> ft_left e = 0"
    by (rule unat_eq_zero)
  with assms show ?thesis
    by (cases "te_kind item = Kind_Map") (auto simp: elem_rep_def dest: odd_pos split: if_splits)
qed

lemma c_call_refines:
  assumes rep: "c_rep t st" and fits: "c_fits c" and alloc: "allocator_ok malloc"
  shows "case c_call malloc c t of
      Accepted t' \<Rightarrow> \<exists>st'. track_step c st = (Inr (), st') \<and> c_rep t' st'
    | Refused \<Rightarrow> \<exists>e st'. track_step c st = (Inl e, st')
    | Gave_up \<Rightarrow> (\<exists>err t'. c_run malloc c t = Some (err, t') \<and> err \<noteq> MPACK_OK) \<and> (\<exists>n\<le>24 * length st + 36. malloc n = None)"
proof -
  from rep obtain es where es: "track_rep t es" "list_all2 elem_rep es st"
    by (auto simp: c_rep_def)
  show ?thesis
  proof (cases c)
    case (Call_push k n)
    have new: "elem_rep (new_elem (kind_code k) (word_of_nat n) False) \<lparr>te_kind = k, te_left = announced k n\<rparr>"
      using fits Call_push by (intro elem_rep_new) simp
    let ?size = "max (sat_mul (max (sat_mul (length es) 2) 3) 12) 1"
    have size: "?size \<le> 24 * length st + 36"
      using list_all2_lengthD [OF es(2)] by (auto simp: sat_mul_def)
    from es(1) alloc show ?thesis
    proof (cases rule: track_push_rep [of t es malloc "kind_code k" "word_of_nat n" False])
      case memory
      then have "\<exists>n\<le>24 * length st + 36. malloc n = None"
        using size by blast
      with Call_push memory(1) show ?thesis
        by (simp add: c_call_def c_run_def track_push_def)
    next
      case (pushed t')
      with new es Call_push show ?thesis
        by (auto simp: c_call_def c_run_def track_push_def c_rep_def wt_push_announced)
    qed
  next
    case Call_element
    show ?thesis
    proof (cases es)
      case Nil
      with es Call_element track_element_rep [OF es(1)] show ?thesis
        by (auto simp: c_call_def c_run_def track_element_def wt_element_def c_rep_def)
    next
      case (Cons e es')
      with es(2) obtain item st' where st: "st = item # st'" "elem_rep e item" "list_all2 elem_rep es' st'"
        by (auto simp: list_all2_Cons1)
      note cond = elem_rep_element(1) [OF st(2)] and run = track_element_rep [OF es(1), unfolded Cons]
      show ?thesis
      proof (cases "is_payload (te_kind item) \<or> te_left item = 0")
        case True
        with cond run Call_element st(1) show ?thesis
          by (auto simp: c_call_def c_run_def track_element_def wt_element_def)
      next
        case False
        have "track_rep (set_top (count_element e) t) (count_element e # es')"
          using es(1) Cons by (simp add: set_top_rep)
        moreover have "list_all2 elem_rep (count_element e # es') (item\<lparr>te_left := te_left item - 1\<rparr> # st')"
          using elem_rep_element(2) [OF st(2)] False st(3) by simp
        ultimately have "c_rep (set_top (count_element e) t) (item\<lparr>te_left := te_left item - 1\<rparr> # st')"
          unfolding c_rep_def by blast
        with False cond run Call_element st(1) show ?thesis
          by (simp add: c_call_def c_run_def track_element_def wt_element_def)
      qed
    qed
  next
    case (Call_bytes n)
    show ?thesis
    proof (cases es)
      case Nil
      with es Call_bytes track_bytes_rep [OF es(1)] show ?thesis
        by (auto simp: c_call_def c_run_def track_bytes_def wt_bytes_def)
    next
      case (Cons e es')
      with es(2) obtain item st' where st: "st = item # st'" "elem_rep e item" "list_all2 elem_rep es' st'"
        by (auto simp: list_all2_Cons1)
      let ?e = "e\<lparr>ft_left := ft_left e - word_of_nat n\<rparr>"
      note cond = elem_rep_bytes(1) [OF st(2), of n] and run = track_bytes_rep [OF es(1), of n, unfolded Cons]
      show ?thesis
      proof (cases "\<not> is_payload (te_kind item) \<or> n > te_left item")
        case True
        with cond run Call_bytes st(1) show ?thesis
          by (auto simp: c_call_def c_run_def track_bytes_def wt_bytes_def)
      next
        case False
        have "track_rep (set_top ?e t) (?e # es')"
          using es(1) Cons by (simp add: set_top_rep)
        moreover have "list_all2 elem_rep (?e # es') (item\<lparr>te_left := te_left item - n\<rparr> # st')"
          using elem_rep_bytes(2) [OF st(2)] False st(3) by simp
        ultimately have "c_rep (set_top ?e t) (item\<lparr>te_left := te_left item - n\<rparr> # st')"
          unfolding c_rep_def by blast
        with False cond run Call_bytes st(1) show ?thesis
          by (simp add: c_call_def c_run_def track_bytes_def wt_bytes_def)
      qed
    qed
  next
    case (Call_pop k)
    show ?thesis
    proof (cases es)
      case Nil
      with es Call_pop track_pop_rep [OF es(1)] show ?thesis
        by (auto simp: c_call_def c_run_def track_pop_def wt_pop_def)
    next
      case (Cons e es')
      with es(2) obtain item st' where st: "st = item # st'" "elem_rep e item" "list_all2 elem_rep es' st'"
        by (auto simp: list_all2_Cons1)
      note cond = elem_rep_pop [OF st(2), of k] and run = track_pop_rep [OF es(1), unfolded Cons]
      show ?thesis
      proof (cases "te_kind item = k \<and> te_left item = 0")
        case False
        with cond run Call_pop st(1) show ?thesis
          by (auto simp: c_call_def c_run_def track_pop_def wt_pop_def)
      next
        case True
        have "c_rep (t\<lparr>tk_count := tk_count t - 1\<rparr>) st'"
          using pop_rep [of t e es'] es(1) Cons st(3) by (auto simp: c_rep_def)
        with True cond run Call_pop st(1) show ?thesis
          by (simp add: c_call_def c_run_def track_pop_def wt_pop_def)
      qed
    qed
  qed
qed

text \<open>The only reason to give up: a push onto a full array, and no block of the size the growth asks for.\<close>

definition starved :: "allocator \<Rightarrow> track_call \<Rightarrow> ffi_track \<Rightarrow> bool" where
  "starved malloc c t \<longleftrightarrow> (\<exists>k n. c = Call_push k n) \<and> tk_count t = tk_capacity t
     \<and> c_run malloc c t = Some (MPACK_ERROR_MEMORY, t)
     \<and> malloc (track_elem_size * max (2 * tk_capacity t) TRACKING_INITIAL_CAPACITY) = None"

lemma c_call_starved:
  assumes rep: "c_rep t st" and alloc: "allocator_ok malloc" and gave_up: "c_call malloc c t = Gave_up"
  shows "starved malloc c t"
proof -
  from rep obtain es where es: "track_rep t es"
    by (auto simp: c_rep_def)
  show ?thesis
  proof (cases c)
    case (Call_push k n)
    from es alloc show ?thesis
    proof (cases rule: track_push_rep [of t es malloc "kind_code k" "word_of_nat n" False])
      case memory
      have "tk_capacity t * 12 \<le> isize_max"
        using es by (auto simp: track_rep_def track_elem_size_def)
      then have "max (sat_mul (max (sat_mul (tk_capacity t) 2) 3) 12) 1 = 12 * max (2 * tk_capacity t) 3"
        by (simp add: sat_mul_def usize_max_def isize_max_def max_def)
      with memory Call_push track_rep_count [OF es] show ?thesis
        by (simp add: starved_def c_run_def track_push_def track_elem_size_def TRACKING_INITIAL_CAPACITY_def)
    next
      case (pushed t')
      with gave_up Call_push show ?thesis
        by (simp add: c_call_def c_run_def track_push_def)
    qed
  next
    case Call_element
    with gave_up track_element_rep [OF es] show ?thesis
      by (simp add: c_call_def c_run_def track_element_def split: list.splits if_splits)
  next
    case (Call_bytes n)
    with gave_up track_bytes_rep [OF es, of n] show ?thesis
      by (simp add: c_call_def c_run_def track_bytes_def split: list.splits if_splits)
  next
    case (Call_pop k)
    with gave_up track_pop_rep [OF es, of "kind_code k" False] show ?thesis
      by (simp add: c_call_def c_run_def track_pop_def split: list.splits if_splits)
  qed
qed

interpretation c_tracker: tracker_model c_rep "c_call malloc" "\<lambda>c. c_fits c \<and> allocator_ok malloc" "starved malloc"
  for malloc
proof unfold_locales
  fix s st c s'
  assume *: "c_rep s st" "c_fits c \<and> allocator_ok malloc"
  note sim = c_call_refines [OF *(1) conjunct1 [OF *(2)] conjunct2 [OF *(2)]]
  show "\<exists>st'. track_step c st = (Inr (), st') \<and> c_rep s' st'" if "c_call malloc c s = Accepted s'"
    using sim that by simp
  show "\<exists>e st'. track_step c st = (Inl e, st')" if "c_call malloc c s = Refused"
    using sim that by simp
  show "starved malloc c s" if "c_call malloc c s = Gave_up"
    using *(1) conjunct2 [OF *(2)] that by (rule c_call_starved)
qed

text \<open>C40. The C tracker and the safe \<open>WriteTracker\<close> accept the same call sequences, although the one counts
  map entries with a flag for a pending value and the other counts values: a run on a fresh C tracker
  goes through and leaves it empty exactly when the sequence is well-bracketed and fills every
  compound and payload. It gives up on one call only: a push that finds the array full when the allocator has no
  block of the doubled size, and then with a memory error and the tracker unchanged.\<close>

theorem c_tracker_accepts_complete_calls:
  assumes "allocator_ok malloc" and "list_all c_fits cs" and "track_init False malloc t0 = (MPACK_OK, t)"
  shows "case run_calls (c_call malloc) cs t of
      Accepted t' \<Rightarrow> track_check_empty t' = MPACK_OK \<longleftrightarrow> complete_calls cs
    | Refused \<Rightarrow> \<not> complete_calls cs
    | Gave_up \<Rightarrow> \<exists>before c after t'. cs = before @ c # after \<and> run_calls (c_call malloc) before t = Accepted t'
        \<and> starved malloc c t'"
proof -
  from assms(3) have "malloc 36 \<noteq> None"
    by (cases "malloc 36")
      (auto simp: track_init_def sat_mul_def usize_max_def track_elem_size_def TRACKING_INITIAL_CAPACITY_def Let_def)
  then have "track_rep t []"
    using track_init_rep [of malloc t0] assms(1,3) by auto
  then have start: "c_rep t []"
    by (auto simp: c_rep_def)
  have empty: "track_check_empty t' = MPACK_OK \<longleftrightarrow> st = []" if "c_rep t' st" for t' st
    using that by (auto simp: c_rep_def track_check_empty_def dest!: track_rep_count list_all2_lengthD)
  have "list_all (\<lambda>c. c_fits c \<and> allocator_ok malloc) cs"
    using assms(1,2) by (simp add: list_all_iff)
  from c_tracker.runs_complete [OF start this] empty show ?thesis
    by (auto split: outcome.splits)
qed

theorem c_tracker_accepts_complete_calls_witness:
  "\<exists>t'. run_calls (c_call (\<lambda>n. if n \<le> 1000 then Some (replicate n 0) else None))
      [Call_push Kind_Map 1, Call_element, Call_element, Call_pop Kind_Map]
      (snd (track_init False (\<lambda>n. if n \<le> 1000 then Some (replicate n 0) else None) track_empty)) = Accepted t'
    \<and> track_check_empty t' = MPACK_OK"
proof -
  let ?malloc = "\<lambda>n. if n \<le> 1000 then Some (replicate n (0 :: u8)) else None"
  let ?cs = "[Call_push Kind_Map 1, Call_element, Call_element, Call_pop Kind_Map]"
  have ok: "allocator_ok ?malloc"
    by (auto simp: allocator_ok_def isize_max_def split: if_splits)
  obtain t where t: "track_init False ?malloc track_empty = (MPACK_OK, t)"
    using track_init_rep [of ?malloc track_empty] ok by auto
  have fits: "list_all c_fits ?cs"
    by simp
  have n: "announced Kind_Map 1 = Suc (Suc 0)"
    by (simp add: announced_def sat_mul_def usize_max_def)
  have "fills Kind_Map (Suc (Suc 0)) [Call_element, Call_element]"
    by (intro element filled) (simp_all add: is_payload_def)
  then have complete: "complete_calls (Call_push Kind_Map 1 # [Call_element, Call_element] @ Call_pop Kind_Map # [])"
    unfolding n [symmetric] by (intro top_nested no_calls)
  have "replicate 3 (None :: track_elem option) = [None, None, None]"
    by (simp add: eval_nat_numeral)
  then have start: "t = \<lparr>tk_count = 0, tk_capacity = 3, tk_elements = Some [None, None, None]\<rparr>"
    using t by (simp add: track_init_def block_slots_def track_elem_size_def TRACKING_INITIAL_CAPACITY_def sat_mul_def
        usize_max_def track_empty_def)
  have "run_calls (c_call ?malloc) ?cs t \<noteq> Gave_up"
    unfolding start by code_simp
  with c_tracker_accepts_complete_calls [OF ok fits t] t complete show ?thesis
    by (auto split: outcome.splits)
qed

end
