(* ===== verification/Ffi_Common.thy ===== *)
theory Ffi_Common
  imports Ffi_Types Utf8_Spec Expect "HOL-Library.Product_Lexorder"
begin

section \<open>The C helpers on tags, codes and text (\<open>src/ffi/common.rs\<close>)\<close>

text \<open>
  The configuration \<open>full-suite-abi\<close>. The assertion hook \<open>mpack_assert_fail\<close> is code of the C side
  that reports and returns. A C string is its characters, a null pointer \<open>None\<close>.
\<close>

subsection \<open>Comparing tags\<close>

definition compare_unsigned :: "u64 \<Rightarrow> u64 \<Rightarrow> i32" where
  "compare_unsigned l r = (if l = r then 0 else if l < r then -1 else 1)"

definition compare_signed :: "i64 \<Rightarrow> i64 \<Rightarrow> i32" where
  "compare_signed l r = (if l = r then 0 else if sint l < sint r then -1 else 1)"

definition mpack_tag_cmp :: "mpack_tag \<Rightarrow> mpack_tag \<Rightarrow> i32" where
  "mpack_tag_cmp l r =
     (let l = (if mt_type l = TYPE_INT \<and> 0 \<le> sint (mt_value l) then l\<lparr>mt_type := TYPE_UINT\<rparr> else l);
          r = (if mt_type r = TYPE_INT \<and> 0 \<le> sint (mt_value r) then r\<lparr>mt_type := TYPE_UINT\<rparr> else r)
      in if mt_type l \<noteq> mt_type r
         then (if sint (mt_type l) < sint (mt_type r) then -1 else 1)
         else if mt_type l \<in> {TYPE_MISSING, TYPE_NIL} then 0
         else if mt_type l = TYPE_BOOL
         then compare_unsigned (mt_value l AND 0xff) (mt_value r AND 0xff)
         else if mt_type l \<in> {TYPE_FLOAT, TYPE_STR, TYPE_BIN, TYPE_ARRAY, TYPE_MAP}
         then compare_unsigned (mt_value l AND 0xffffffff) (mt_value r AND 0xffffffff)
         else if mt_type l = TYPE_DOUBLE then compare_unsigned (mt_value l) (mt_value r)
         else if mt_type l = TYPE_INT then compare_signed (mt_value l) (mt_value r)
         else if mt_type l = TYPE_UINT then compare_unsigned (mt_value l) (mt_value r)
         else if mt_type l = TYPE_EXT
         then (if mt_exttype l = mt_exttype r
               then compare_unsigned (mt_value l AND 0xffffffff) (mt_value r AND 0xffffffff)
               else scast (mt_exttype l) - scast (mt_exttype r))
         else 1)"

subsection \<open>Names of codes\<close>

definition mpack_error_to_string :: "c_int \<Rightarrow> string" where
  "mpack_error_to_string err =
     (if err = 0 then ''mpack_ok''
      else if err = 2 then ''mpack_error_io''
      else if err = 3 then ''mpack_error_invalid''
      else if err = 4 then ''mpack_error_unsupported''
      else if err = 5 then ''mpack_error_type''
      else if err = 6 then ''mpack_error_too_big''
      else if err = 7 then ''mpack_error_memory''
      else if err = 8 then ''mpack_error_bug''
      else if err = 9 then ''mpack_error_data''
      else if err = 10 then ''mpack_error_eof''
      else ''(unknown mpack_error_t)'')"

definition mpack_type_to_string :: "c_int \<Rightarrow> string" where
  "mpack_type_to_string ty =
     (if ty = TYPE_MISSING then ''mpack_type_missing''
      else if ty = TYPE_NIL then ''mpack_type_nil''
      else if ty = TYPE_BOOL then ''mpack_type_bool''
      else if ty = TYPE_FLOAT then ''mpack_type_float''
      else if ty = TYPE_DOUBLE then ''mpack_type_double''
      else if ty = TYPE_INT then ''mpack_type_int''
      else if ty = TYPE_UINT then ''mpack_type_uint''
      else if ty = TYPE_STR then ''mpack_type_str''
      else if ty = TYPE_BIN then ''mpack_type_bin''
      else if ty = TYPE_ARRAY then ''mpack_type_array''
      else if ty = TYPE_MAP then ''mpack_type_map''
      else if ty = TYPE_EXT then ''mpack_type_ext''
      else ''(unknown mpack_type_t)'')"

subsection \<open>Text\<close>

text \<open>\<open>std::str::from_utf8(bytes).is_ok()\<close>: one encoded scalar value after another.\<close>

function str_from_utf8 :: "u8 list \<Rightarrow> bool" where
  "str_from_utf8 bytes =
     (bytes = [] \<or> (case utf8_step bytes of None \<Rightarrow> False | Some (_, rest) \<Rightarrow> str_from_utf8 rest))"
  by pat_completeness auto
termination
  by (relation "measure length") (auto dest: utf8_step_shorter)

declare str_from_utf8.simps [simp del]

text \<open>\<open>data\<close> is what the pointer refers to, at least \<open>count\<close> readable bytes.\<close>

definition ffi_check_utf8 :: "u8 list option \<Rightarrow> nat \<Rightarrow> bool \<Rightarrow> bool" where
  "ffi_check_utf8 data count reject_null =
     (if count = 0 then True
      else case data of
        None \<Rightarrow> False
      | Some bytes \<Rightarrow>
          (let bytes = take count bytes
           in str_from_utf8 bytes \<and> (\<not> reject_null \<or> 0 \<notin> set bytes)))"

definition mpack_utf8_check :: "u8 list option \<Rightarrow> nat \<Rightarrow> bool" where
  "mpack_utf8_check data count = ffi_check_utf8 data count False"

definition mpack_utf8_check_no_null :: "u8 list option \<Rightarrow> nat \<Rightarrow> bool" where
  "mpack_utf8_check_no_null data count = ffi_check_utf8 data count True"

lemma utf8_encode_zero: "scalar c \<Longrightarrow> 0 \<in> set (utf8_encode c) \<longleftrightarrow> c = 0"
proof -
  have nz: "(word_of_nat n :: u8) = 0 \<longleftrightarrow> n = 0" if "n < 256" for n
    using that unat_of_nat_small [of n, where 'a = 8] by (auto simp: unat_eq_zero [symmetric])
  have nz2: "(0 :: u8) = word_of_nat n \<longleftrightarrow> n = 0" if "n < 256" for n
    using nz [OF that] by auto
  have nz3: "(numeral k + word_of_nat n :: u8) \<noteq> 0" if "numeral k + n < (256 :: nat)" for k n
    using nz [OF that] by simp
  have "c mod 64 < 64" "c div 64 mod 64 < 64" "c div 4096 mod 64 < 64"
    by simp_all
  moreover assume "scalar c"
  ultimately show ?thesis
    by (auto simp: utf8_encode_def scalar_def nz2 nz3 div_less_iff_less_mult)
qed

lemma text_without_zero: "encoded_text True bs \<and> 0 \<notin> set bs \<longleftrightarrow> encoded_text False bs"
proof (induction bs rule: length_induct)
  case (1 bs)
  show ?case
  proof (cases "utf8_step bs")
    case None
    then show ?thesis
      using encoded_text_step [of _ bs] by (auto simp: encoded_text_Nil)
  next
    case (Some p)
    obtain c rest where p: "p = (c, rest)" by (cases p)
    with Some have bs: "bs = utf8_encode c @ rest" "scalar c"
      using utf8_step_sound by auto
    have "encoded_text True rest \<and> 0 \<notin> set rest \<longleftrightarrow> encoded_text False rest"
      using 1 utf8_step_shorter Some p by blast
    moreover have "0 \<in> set bs \<longleftrightarrow> c = 0 \<or> 0 \<in> set rest"
      using utf8_encode_zero [OF bs(2)] by (simp add: bs(1))
    moreover have "bs \<noteq> []"
      using Some by (cases bs) auto
    ultimately show ?thesis
      using encoded_text_step [of True bs] encoded_text_step [of False bs] Some p by auto
  qed
qed

subsection \<open>The order of tags\<close>

fun tag_rank :: "tag \<Rightarrow> int \<times> int \<times> int" where
  "tag_rank Tag_Nil = (1, 0, 0)"
| "tag_rank (Tag_Bool v) = (2, 0, of_bool v)"
| "tag_rank (Tag_Int v) = (3, 0, sint v)"
| "tag_rank (Tag_Uint v) = (4, 0, uint v)"
| "tag_rank (Tag_Float v) = (5, 0, uint v)"
| "tag_rank (Tag_Double v) = (6, 0, uint v)"
| "tag_rank (Tag_Str n) = (7, 0, uint n)"
| "tag_rank (Tag_Bin n) = (8, 0, uint n)"
| "tag_rank (Tag_Array n) = (9, 0, uint n)"
| "tag_rank (Tag_Map n) = (10, 0, uint n)"
| "tag_rank (Tag_Ext ty n) = (11, sint ty, uint n)"

definition compared :: "'a::linorder \<Rightarrow> 'a \<Rightarrow> int" where
  "compared a b = (if a = b then 0 else if a < b then -1 else 1)"

lemma sint_inject: "sint a = sint b \<longleftrightarrow> a = b"
  by (auto intro: signed_word_eqI)

lemma tag_rank_inject: "tag_rank a = tag_rank b \<longleftrightarrow> a = b"
  by (cases a; cases b) (simp_all add: word_eq_iff_unsigned [where 'a = int] sint_inject)

lemma masked_ucast: "(ucast (n :: 32 word) :: u64) AND 0xffffffff = ucast n"
proof -
  have "(ucast n :: u64) AND mask 32 = ucast n"
    by (rule bit_word_eqI) (auto simp: bit_simps dest: bit_imp_le_length)
  then show ?thesis
    by (simp add: mask_eq_exp_minus_1)
qed

lemma masked_bool: "(of_bool v :: u64) AND 0xff = of_bool v"
  by (cases v) simp_all

lemma uint_ucast: "uint (ucast (a :: 32 word) :: u64) = uint a"
  by (rule uint_up_ucast) (simp add: is_up)

lemma ucast_less_ucast: "(ucast (a :: 32 word) :: u64) < ucast (b :: 32 word) \<longleftrightarrow> uint a < uint b"
  by (simp add: word_less_iff_unsigned [where 'a = int] uint_ucast)

lemma ucast_eq_ucast: "(ucast (a :: 32 word) :: u64) = ucast (b :: 32 word) \<longleftrightarrow> uint a = uint b"
  by (simp add: word_eq_iff_unsigned [where 'a = int] uint_ucast)

lemmas ucast_compares = masked_ucast masked_bool ucast_less_ucast ucast_eq_ucast

lemma sint_scast_diff: "sint (scast (a :: i8) - scast (b :: i8) :: i32) = sint a - sint b"
proof -
  have "- 128 \<le> sint a" "sint a < 128" "- 128 \<le> sint b" "sint b < 128"
    using sint_range_size [of a] sint_range_size [of b] by (simp_all add: word_size)
  then show ?thesis
    by (simp add: sint_word_ariths signed_scast_eq signed_take_bit_int_eq_self)
qed

lemma signs [simp]: "sint (- 1 :: i32) = - 1" "sint (1 :: i32) = 1" "sint (0 :: i32) = 0"
  by simp_all

lemma unsigned_compares: "sgn (sint (compare_unsigned a b)) = compared (uint a) (uint b)"
  by (simp add: compare_unsigned_def compared_def word_less_iff_unsigned [where 'a = int]
      word_eq_iff_unsigned [where 'a = int])

lemma signed_compares: "sgn (sint (compare_signed a b)) = compared (sint a) (sint b)"
  by (simp add: compare_signed_def compared_def sint_inject)

lemma compared_snd [simp]: "compared (a, x) (a, y) = compared x y"
  by (auto simp: compared_def less_prod_def)

lemma compared_fst: "a \<noteq> b \<Longrightarrow> compared (a, x) (b, y) = compared a b"
  by (auto simp: compared_def less_prod_def)

lemma tag_cmp_normal:
  "mpack_tag_cmp (tag_to_abi a) (tag_to_abi b) = mpack_tag_cmp (tag_to_abi (normal_tag a)) (tag_to_abi (normal_tag b))"
proof -
  have n: "(if mt_type (tag_to_abi t) = TYPE_INT \<and> 0 \<le> sint (mt_value (tag_to_abi t))
        then tag_to_abi t\<lparr>mt_type := TYPE_UINT\<rparr> else tag_to_abi t) =
      (if mt_type (tag_to_abi (normal_tag t)) = TYPE_INT \<and> 0 \<le> sint (mt_value (tag_to_abi (normal_tag t)))
        then tag_to_abi (normal_tag t)\<lparr>mt_type := TYPE_UINT\<rparr> else tag_to_abi (normal_tag t))" for t
    by (cases t) (simp_all add: c_types mpack_tag_nil_def)
  show ?thesis
    by (simp only: mpack_tag_cmp_def n [of a] n [of b])
qed

lemma type_code: "sint (mt_type (tag_to_abi t)) = fst (tag_rank t)"
  by (cases t) (simp_all add: c_types mpack_tag_nil_def)

lemma tag_cmp_other_type:
  assumes "normal_tag a = a" and "normal_tag b = b" and "fst (tag_rank a) \<noteq> fst (tag_rank b)"
  shows "sgn (sint (mpack_tag_cmp (tag_to_abi a) (tag_to_abi b))) = compared (tag_rank a) (tag_rank b)"
proof -
  have n: "\<not> (mt_type (tag_to_abi t) = TYPE_INT \<and> 0 \<le> sint (mt_value (tag_to_abi t)))"
    if "normal_tag t = t" for t
    using that by (cases t) (auto simp: c_types mpack_tag_nil_def split: if_splits)
  have ne: "mt_type (tag_to_abi a) \<noteq> mt_type (tag_to_abi b)"
    using assms(3) type_code [of a] type_code [of b] by auto
  have "mpack_tag_cmp (tag_to_abi a) (tag_to_abi b) =
      (if fst (tag_rank a) < fst (tag_rank b) then -1 else 1)"
    unfolding mpack_tag_cmp_def Let_def if_not_P [OF n [OF assms(1)]] if_not_P [OF n [OF assms(2)]]
      if_P [OF ne] type_code ..
  then show ?thesis
    using assms(3) by (cases "tag_rank a"; cases "tag_rank b") (simp add: compared_fst, simp add: compared_def)
qed

lemma tag_cmp_same_type:
  assumes "normal_tag a = a" and "normal_tag b = b" and "fst (tag_rank a) = fst (tag_rank b)"
  shows "sgn (sint (mpack_tag_cmp (tag_to_abi a) (tag_to_abi b))) = compared (tag_rank a) (tag_rank b)"
proof -
  have ext: "sgn (sint x - sint y) = (if sint x < sint y then -1 else 1)" if "x \<noteq> y" for x y :: i8
    using that sint_inject [of x y] by (auto simp: sgn_if)
  show ?thesis
    using assms
    by (cases a; cases b)
      (auto simp: mpack_tag_cmp_def mpack_tag_nil_def c_types Let_def unsigned_compares signed_compares
        ucast_compares uint_ucast sint_scast_diff ext compared_def sint_inject
        split: if_splits)
qed

text \<open>\<open>mpack_tag_cmp\<close> orders the tags: its sign is the order of the tags by type, extension type and
  value (signed integers by their signed value, a non-negative signed integer as the unsigned one), and
  it answers zero exactly for the tags that \<open>tags_equal\<close> of the expect module identifies.\<close>

theorem tag_cmp_orders_tags:
  "sgn (sint (mpack_tag_cmp (tag_to_abi a) (tag_to_abi b))) =
     compared (tag_rank (normal_tag a)) (tag_rank (normal_tag b))
   \<and> (mpack_tag_cmp (tag_to_abi a) (tag_to_abi b) = 0 \<longleftrightarrow> tags_equal a b)"
proof (rule conjI)
  show 1: "sgn (sint (mpack_tag_cmp (tag_to_abi a) (tag_to_abi b))) =
      compared (tag_rank (normal_tag a)) (tag_rank (normal_tag b))"
    using tag_cmp_other_type [of "normal_tag a" "normal_tag b"]
      tag_cmp_same_type [of "normal_tag a" "normal_tag b"]
    by (subst tag_cmp_normal) (cases "fst (tag_rank (normal_tag a)) = fst (tag_rank (normal_tag b))", simp_all)
  have "tags_equal a b \<longleftrightarrow> normal_tag a = normal_tag b"
    by (rule tags_equal_normal)
  moreover have "sint (mpack_tag_cmp (tag_to_abi a) (tag_to_abi b)) = 0 \<longleftrightarrow> normal_tag a = normal_tag b"
    using 1 tag_rank_inject [of "normal_tag a" "normal_tag b"]
    by (auto simp: compared_def sgn_0_0 split: if_splits)
  ultimately show "mpack_tag_cmp (tag_to_abi a) (tag_to_abi b) = 0 \<longleftrightarrow> tags_equal a b"
    using sint_inject [of _ "0 :: i32"] by auto
qed

text \<open>The C check of UTF-8 text accepts exactly what the check of the safe core accepts (an empty
  text even behind a null pointer), and so does its variant for text without zero bytes.\<close>

theorem c_utf8_check_agrees:
  "mpack_utf8_check (Some bytes) (length bytes) = check_utf8 bytes
   \<and> mpack_utf8_check_no_null (Some bytes) (length bytes) = check_utf8_no_null bytes
   \<and> mpack_utf8_check None n = (n = 0)"
proof -
  have utf8: "str_from_utf8 bs \<longleftrightarrow> encoded_text True bs" for bs
  proof (induction bs rule: str_from_utf8.induct)
    case (1 bs)
    then show ?case
      by (subst str_from_utf8.simps, subst encoded_text_step) (auto split: option.splits)
  qed
  have "check_utf8 bytes = encoded_text True bytes"
    "check_utf8_no_null bytes = (encoded_text True bytes \<and> 0 \<notin> set bytes)"
    by (simp_all only: check_utf8_def check_utf8_no_null_def check_utf8_iff text_without_zero)
  moreover have "bytes = [] \<Longrightarrow> encoded_text True bytes"
    by (simp add: encoded_text_Nil)
  ultimately show ?thesis
    by (cases "bytes = []")
      (simp_all add: mpack_utf8_check_def mpack_utf8_check_no_null_def ffi_check_utf8_def utf8)
qed

end
