(* ===== verification/Ffi_Writer.thy ===== *)
theory Ffi_Writer
  imports Ffi_Common Ffi_Track Writer_Fixed
begin

section \<open>The C writer (\<open>src/ffi/writer.rs\<close>)\<close>

text \<open>
  The writer of the C interface, in the configuration \<open>full-suite-abi\<close>. It buffers its output in
  \<open>buffer..end\<close> and hands it on through a flush callback: the one of a growable writer enlarges the
  buffer, the one of a file writer calls \<open>fwrite\<close>, and a C program may install its own.

  \<^item> The pointers \<open>buffer\<close>, \<open>position\<close> and \<open>end\<close> are the contents of \<open>buffer..end\<close> (\<open>None\<close> for null) and
    the offset of \<open>position\<close> in it.
  \<^item> Code outside the crate is the record \<open>ffi_env\<close>: the allocator, \<open>fwrite\<close> as the number of bytes it
    accepts given what the file holds and the data, the result of \<open>fclose\<close>, whether \<open>fopen\<close> succeeds,
    and the callbacks of the C program. \<open>fw_file\<close> is what has been written to the file, \<open>fw_target\<close>
    the contents of the result pointers of a growable writer. The error handler of the C program is
    told each first error; \<open>fw_reports\<close> is what it was told.
  \<^item> \<open>fw_frames\<close> is the entry of this writer in the side table of open builders, \<open>None\<close> for no entry. The
    atomic counter of writers with open builders only saves a look into the table and is left out.
  \<^item> \<open>None\<close> as the value of an operation is undefined behaviour, a panic, or a loop that never ends. The
    exported functions turn a panic into \<open>MPACK_ERROR_BUG\<close>; as no panic is reachable this is not modelled.
    The pointer to the writer itself is not null.
\<close>

subsection \<open>State\<close>

datatype build_kind = Build_Array | Build_Map

record ffi_build_frame =
  bf_kind :: build_kind
  bf_start :: nat
  bf_elements :: nat
  bf_known_compounds :: "nat list"

datatype flush_fn = Growable_Flush | File_Flush | User_Flush
datatype teardown_fn = Growable_Teardown | File_Teardown bool | User_Teardown

record ffi_writer =
  fw_version :: c_int
  fw_flush :: "flush_fn option"
  fw_error_fn :: bool
  fw_teardown :: "teardown_fn option"
  fw_buffer :: "u8 list option"
  fw_position :: nat
  fw_error :: c_int
  fw_track :: ffi_track
  fw_frames :: "ffi_build_frame list option"
  fw_target :: "u8 list option \<times> nat"
  fw_file :: "u8 list"
  fw_reports :: "c_int list"

record ffi_env =
  env_malloc :: allocator
  env_force_fail :: bool
  env_fwrite :: "u8 list \<Rightarrow> u8 list \<Rightarrow> nat"
  env_fclose :: c_int
  env_fopen :: "string \<Rightarrow> bool"
  env_flush :: "bool \<Rightarrow> u8 list \<Rightarrow> ffi_writer \<Rightarrow> ffi_writer"
  env_teardown :: "ffi_writer \<Rightarrow> ffi_writer"

definition MPACK_VERSION_CURRENT :: c_int where "MPACK_VERSION_CURRENT = 5"

text \<open>\<open>w\<close> is the storage of the writer before it is initialised; only what lies outside the record of the
  code is kept: the side table and the environment.\<close>

definition fixed_buffer :: "u8 list option \<Rightarrow> ffi_writer \<Rightarrow> ffi_writer" where
  "fixed_buffer buffer w =
     w\<lparr>fw_version := MPACK_VERSION_CURRENT, fw_flush := None, fw_error_fn := False, fw_teardown := None,
       fw_buffer := buffer, fw_position := 0,
       fw_error := (if buffer = None then MPACK_ERROR_BUG else MPACK_OK), fw_track := track_empty\<rparr>"

definition error_state :: "c_int \<Rightarrow> ffi_writer \<Rightarrow> ffi_writer" where
  "error_state err w =
     w\<lparr>fw_version := MPACK_VERSION_CURRENT, fw_flush := None, fw_error_fn := False, fw_teardown := None,
       fw_buffer := None, fw_position := 0, fw_error := err, fw_track := track_empty\<rparr>"

subsection \<open>Errors\<close>

definition ffi_flag_error :: "c_int \<Rightarrow> ffi_writer \<Rightarrow> ffi_writer" where
  "ffi_flag_error err w =
     (if fw_error w \<noteq> MPACK_OK then w
      else let w = w\<lparr>fw_error := err\<rparr>
           in if fw_error_fn w then w\<lparr>fw_reports := fw_reports w @ [err]\<rparr> else w)"

definition ffi_flag_bug :: "ffi_writer \<Rightarrow> ffi_writer" where
  "ffi_flag_bug w = w\<lparr>fw_error := MPACK_ERROR_BUG\<rparr>"

definition initialize_as_bug :: "ffi_writer \<Rightarrow> ffi_writer" where
  "initialize_as_bug w = error_state MPACK_ERROR_BUG w"

definition writer_remaining :: "ffi_writer \<Rightarrow> nat option" where
  "writer_remaining w =
     (case fw_buffer w of
        None \<Rightarrow> None
      | Some buffer \<Rightarrow>
          if fw_position w > length buffer then None
          else let left = length buffer - fw_position w
               in if left \<le> 2 ^ 63 - 1 then Some left else None)"

subsection \<open>Tracking\<close>

definition initialize_writer_tracking :: "ffi_env \<Rightarrow> ffi_writer \<Rightarrow> ffi_writer" where
  "initialize_writer_tracking env w =
     (case track_init (env_force_fail env) (env_malloc env) (fw_track w) of
        (err, track) \<Rightarrow>
          let w = w\<lparr>fw_track := track\<rparr> in if err \<noteq> MPACK_OK then w\<lparr>fw_error := err\<rparr> else w)"

text \<open>The shape of every call to the tracker: only without an error, and its error is flagged.\<close>

definition tracked :: "(ffi_track \<Rightarrow> (c_int \<times> ffi_track) option) \<Rightarrow> ffi_writer \<Rightarrow> ffi_writer option" where
  "tracked f w =
     (if fw_error w = MPACK_OK then do {
        (err, track) \<leftarrow> f (fw_track w);
        (let w = w\<lparr>fw_track := track\<rparr>
         in Some (if err \<noteq> MPACK_OK then ffi_flag_error err w else w))
      } else Some w)"

definition writer_track_element :: "ffi_writer \<Rightarrow> ffi_writer option" where
  "writer_track_element w = tracked Ffi_Track.track_element w"

definition mpack_writer_track_push :: "ffi_env \<Rightarrow> c_int \<Rightarrow> u32 \<Rightarrow> ffi_writer \<Rightarrow> ffi_writer option" where
  "mpack_writer_track_push env ty count w = tracked (track_push (env_malloc env) ty count) w"

definition mpack_writer_track_push_builder :: "ffi_env \<Rightarrow> c_int \<Rightarrow> ffi_writer \<Rightarrow> ffi_writer option" where
  "mpack_writer_track_push_builder env ty w = tracked (track_push_builder (env_malloc env) ty) w"

definition mpack_writer_track_pop :: "c_int \<Rightarrow> ffi_writer \<Rightarrow> ffi_writer option" where
  "mpack_writer_track_pop ty w = tracked (track_pop ty) w"

definition mpack_writer_track_pop_builder :: "c_int \<Rightarrow> ffi_writer \<Rightarrow> ffi_writer option" where
  "mpack_writer_track_pop_builder ty w = tracked (track_pop_builder ty) w"

definition mpack_writer_track_bytes :: "nat \<Rightarrow> ffi_writer \<Rightarrow> ffi_writer option" where
  "mpack_writer_track_bytes count w = tracked (track_bytes count) w"

subsection \<open>Flushing\<close>

text \<open>\<open>let mut capacity = old_capacity.max(1)\<close> and the loop that doubles it; \<open>None\<close> when it would overflow.\<close>

function grow_capacity :: "nat \<Rightarrow> nat \<Rightarrow> nat option" where
  "grow_capacity wanted capacity =
     (let capacity = max capacity 1
      in if wanted \<le> capacity then Some capacity
         else if capacity * 2 > usize_max then None
         else grow_capacity wanted (capacity * 2))"
  by pat_completeness auto
termination
  by (relation "measure (\<lambda>(wanted, capacity). wanted - capacity)") (auto simp: max_def)

declare grow_capacity.simps [simp del]

text \<open>The data of a flush is either the front of the writer's own buffer (\<open>own\<close>) or external.\<close>

definition growable_flush :: "ffi_env \<Rightarrow> bool \<Rightarrow> u8 list \<Rightarrow> ffi_writer \<Rightarrow> ffi_writer option" where
  "growable_flush env own data w = do {
     buffer \<leftarrow> fw_buffer w;
     (let current_used = fw_position w
      in if own \<and> current_used = length data then Some w
         else
           (let external_data = (\<not> own);
                buffered = (if external_data then current_used else length data);
                required = buffered + (if external_data then length data else 0)
            in if required > usize_max then Some (ffi_flag_error MPACK_ERROR_TOO_BIG w)
               else
                 (let old_capacity = length buffer
                  in case grow_capacity (max required (sat_add old_capacity 1)) old_capacity of
                       None \<Rightarrow> Some (ffi_flag_error MPACK_ERROR_TOO_BIG w)
                     | Some capacity \<Rightarrow>
                         (case env_malloc env capacity of
                            None \<Rightarrow> Some (ffi_flag_error MPACK_ERROR_MEMORY w)
                          | Some block \<Rightarrow> do {
                              old \<leftarrow> slice buffer 0 buffered;
                              new_buffer \<leftarrow> store_at block 0 old;
                              (if external_data \<and> data \<noteq> [] then do {
                                 new_buffer \<leftarrow> store_at new_buffer buffered data;
                                 Some (w\<lparr>fw_buffer := Some new_buffer,
                                         fw_position := buffered + length data\<rparr>)
                               } else Some (w\<lparr>fw_buffer := Some new_buffer, fw_position := buffered\<rparr>))
                            }))))
   }"

definition file_flush :: "ffi_env \<Rightarrow> u8 list \<Rightarrow> ffi_writer \<Rightarrow> ffi_writer" where
  "file_flush env data w =
     (let count = env_fwrite env (fw_file w) data;
          w = w\<lparr>fw_file := fw_file w @ take count data\<rparr>
      in if count \<noteq> length data then ffi_flag_error MPACK_ERROR_IO w else w)"

definition call_flush :: "ffi_env \<Rightarrow> flush_fn \<Rightarrow> bool \<Rightarrow> u8 list \<Rightarrow> ffi_writer \<Rightarrow> ffi_writer option" where
  "call_flush env flush own data w =
     (case flush of
        Growable_Flush \<Rightarrow> growable_flush env own data w
      | File_Flush \<Rightarrow> Some (file_flush env data w)
      | User_Flush \<Rightarrow> Some (env_flush env own data w))"

definition flush_buffer :: "ffi_env \<Rightarrow> ffi_writer \<Rightarrow> (bool \<times> ffi_writer) option" where
  "flush_buffer env w =
     (case fw_flush w of
        None \<Rightarrow> Some (False, w)
      | Some flush \<Rightarrow> do {
          buffer \<leftarrow> fw_buffer w;
          data \<leftarrow> slice buffer 0 (fw_position w);
          w \<leftarrow> call_flush env flush True data (w\<lparr>fw_position := 0\<rparr>);
          Some (fw_error w = MPACK_OK \<and> writer_remaining w \<noteq> None, w)
        })"

text \<open>Bytes written to \<open>position..end\<close>, after the check that they fit.\<close>

definition put_raw :: "u8 list \<Rightarrow> ffi_writer \<Rightarrow> ffi_writer option" where
  "put_raw bytes w = do {
     buffer \<leftarrow> fw_buffer w;
     buffer \<leftarrow> store_at buffer (fw_position w) bytes;
     Some (w\<lparr>fw_buffer := Some buffer, fw_position := fw_position w + length bytes\<rparr>)
   }"

definition write_raw_buffered :: "ffi_env \<Rightarrow> u8 list \<Rightarrow> ffi_writer \<Rightarrow> ffi_writer option" where
  "write_raw_buffered env bytes w =
     (if fw_error w \<noteq> MPACK_OK \<or> bytes = [] then Some w
      else case writer_remaining w of
        None \<Rightarrow> Some (ffi_flag_error MPACK_ERROR_BUG w)
      | Some left \<Rightarrow>
          if length bytes \<le> left then put_raw bytes w
          else (case fw_flush w of
              None \<Rightarrow> Some (ffi_flag_error MPACK_ERROR_TOO_BIG w)
            | Some flush \<Rightarrow> do {
                (ok, w) \<leftarrow> flush_buffer env w;
                (if \<not> ok then Some w
                 else case writer_remaining w of
                   None \<Rightarrow> Some (ffi_flag_error MPACK_ERROR_BUG w)
                 | Some left \<Rightarrow>
                     if length bytes > left then call_flush env flush False bytes w
                     else put_raw bytes w)
              }))"

subsection \<open>Builders: what every value does\<close>

text \<open>The innermost frame is the last; \<open>with_last\<close> changes it.\<close>

definition with_last :: "(ffi_build_frame \<Rightarrow> ffi_build_frame) \<Rightarrow> ffi_writer \<Rightarrow> ffi_writer" where
  "with_last f w =
     (case fw_frames w of
        None \<Rightarrow> w
      | Some frames \<Rightarrow>
          if frames = [] then w else w\<lparr>fw_frames := Some (butlast frames @ [f (last frames)])\<rparr>)"

fun pop_zeros :: "nat list \<Rightarrow> nat list" where
  "pop_zeros ks = rev (dropWhile (\<lambda>k. k = 0) (rev ks))"

definition count_value :: "ffi_build_frame \<Rightarrow> ffi_build_frame" where
  "count_value f =
     (let known = pop_zeros (bf_known_compounds f)
      in if known \<noteq> [] then f\<lparr>bf_known_compounds := butlast known @ [last known - 1]\<rparr>
         else f\<lparr>bf_known_compounds := known, bf_elements := sat_add (bf_elements f) 1\<rparr>)"

definition builder_record_value :: "ffi_writer \<Rightarrow> ffi_writer" where
  "builder_record_value w = with_last count_value w"

definition builder_start_known :: "nat \<Rightarrow> ffi_writer \<Rightarrow> ffi_writer" where
  "builder_start_known elements w =
     (if elements = 0 then w
      else with_last (\<lambda>f. f\<lparr>bf_known_compounds := bf_known_compounds f @ [elements]\<rparr>) w)"

definition clear_builder_state :: "ffi_writer \<Rightarrow> ffi_writer" where
  "clear_builder_state w = w\<lparr>fw_frames := None\<rparr>"

definition builder_is_open :: "ffi_writer \<Rightarrow> bool" where
  "builder_is_open w = (case fw_frames w of None \<Rightarrow> False | Some frames \<Rightarrow> frames \<noteq> [])"

subsection \<open>Writing through the safe core\<close>

text \<open>The core writer runs on \<open>position..end\<close>. The loop ends when the core succeeds, and goes round again
  when the output did not fit and flushing made room; nothing bounds the number of rounds.\<close>

partial_function (option) write_core_loop ::
  "ffi_env \<Rightarrow> (writer \<Rightarrow> writer option) \<Rightarrow> ffi_writer \<Rightarrow> ffi_writer option"
where
  "write_core_loop env write w =
     (if fw_error w \<noteq> MPACK_OK then Some w
      else case writer_remaining w of
        None \<Rightarrow> Some (ffi_flag_error MPACK_ERROR_BUG w)
      | Some _ \<Rightarrow> Option.bind (fw_buffer w) (\<lambda>buffer.
          Option.bind (write (writer_new (drop (fw_position w) buffer))) (\<lambda>core.
            let w = w\<lparr>fw_buffer := Some (take (fw_position w) buffer @ w_buffer core),
                      fw_position := fw_position w + w_position core\<rparr>;
                err = core_error_to_abi (w_error core)
            in if err = MPACK_OK then Some w
               else if err \<noteq> MPACK_ERROR_TOO_BIG \<or> w_position core \<noteq> 0 \<or> fw_flush w = None
               then Some (ffi_flag_error err w)
               else Option.bind (flush_buffer env w) (\<lambda>(ok, w).
                 if \<not> ok then Some (ffi_flag_error err w) else write_core_loop env write w))))"

definition write_with_core :: "ffi_env \<Rightarrow> (writer \<Rightarrow> writer option) \<Rightarrow> ffi_writer \<Rightarrow> ffi_writer option" where
  "write_with_core env write w = do {
     w \<leftarrow> writer_track_element (builder_record_value w);
     write_core_loop env write w
   }"

definition writer_uses_v4 :: "ffi_writer \<Rightarrow> bool" where
  "writer_uses_v4 w = (sint (fw_version w) \<le> 4)"

definition write_string_header :: "ffi_env \<Rightarrow> nat \<Rightarrow> bool \<Rightarrow> ffi_writer \<Rightarrow> ffi_writer option" where
  "write_string_header env len binary w =
     write_with_core env
       (if writer_uses_v4 w then write_str_header_v4 len
        else if binary then write_bin_header len else write_str_header len) w"

end
