(* ===== verification/Ffi_Writer_Api.thy ===== *)
theory Ffi_Writer_Api
  imports Ffi_Writer
begin

section \<open>The exported functions of the C writer (\<open>src/ffi/writer.rs\<close>)\<close>

text \<open>
  One definition per exported function. A C string or a byte buffer is the list of the bytes behind the
  pointer, \<open>None\<close> for a null pointer; a count says how many of them are used.
\<close>

subsection \<open>Initialisation\<close>

definition mpack_writer_init :: "ffi_env \<Rightarrow> u8 list option \<Rightarrow> ffi_writer \<Rightarrow> ffi_writer" where
  "mpack_writer_init env buffer w =
     initialize_writer_tracking env (fixed_buffer buffer (clear_builder_state w))"

definition mpack_writer_init_error :: "c_int \<Rightarrow> ffi_writer \<Rightarrow> ffi_writer" where
  "mpack_writer_init_error err w = error_state err w"

definition mpack_writer_init_growable :: "ffi_env \<Rightarrow> bool \<Rightarrow> ffi_writer \<Rightarrow> ffi_writer" where
  "mpack_writer_init_growable env target_null w =
     (if target_null then initialize_as_bug w
      else
        (let w = w\<lparr>fw_target := (None, 0)\<rparr>
         in case env_malloc env OWNED_BUFFER_CAPACITY of
              None \<Rightarrow> error_state MPACK_ERROR_MEMORY w
            | Some buffer \<Rightarrow>
                (initialize_writer_tracking env (fixed_buffer (Some buffer) w))
                  \<lparr>fw_flush := Some Growable_Flush, fw_teardown := Some Growable_Teardown\<rparr>))"

definition init_file_writer :: "ffi_env \<Rightarrow> bool \<Rightarrow> ffi_writer \<Rightarrow> ffi_writer" where
  "init_file_writer env close_when_done w =
     (case env_malloc env OWNED_BUFFER_CAPACITY of
        None \<Rightarrow> error_state MPACK_ERROR_MEMORY w
      | Some buffer \<Rightarrow>
          (initialize_writer_tracking env (fixed_buffer (Some buffer) w))
            \<lparr>fw_flush := Some File_Flush, fw_teardown := Some (File_Teardown close_when_done)\<rparr>)"

definition mpack_writer_init_stdfile :: "ffi_env \<Rightarrow> bool \<Rightarrow> bool \<Rightarrow> ffi_writer \<Rightarrow> ffi_writer" where
  "mpack_writer_init_stdfile env file_null close_when_done w =
     (if file_null then initialize_as_bug w else init_file_writer env close_when_done w)"

text \<open>Mode \<open>wb\<close> empties the file.\<close>

definition mpack_writer_init_filename :: "ffi_env \<Rightarrow> string option \<Rightarrow> ffi_writer \<Rightarrow> ffi_writer" where
  "mpack_writer_init_filename env filename w =
     (case filename of
        None \<Rightarrow> initialize_as_bug w
      | Some filename \<Rightarrow>
          if \<not> env_fopen env filename then error_state MPACK_ERROR_IO w
          else init_file_writer env True (w\<lparr>fw_file := []\<rparr>))"

definition mpack_writer_flag_error :: "c_int \<Rightarrow> ffi_writer \<Rightarrow> ffi_writer" where
  "mpack_writer_flag_error err w = ffi_flag_error err w"

definition mpack_writer_set_flush :: "flush_fn option \<Rightarrow> ffi_writer \<Rightarrow> ffi_writer" where
  "mpack_writer_set_flush flush w = w\<lparr>fw_flush := flush\<rparr>"

definition mpack_writer_set_error_handler :: "bool \<Rightarrow> ffi_writer \<Rightarrow> ffi_writer" where
  "mpack_writer_set_error_handler error_fn w = w\<lparr>fw_error_fn := error_fn\<rparr>"

definition mpack_writer_set_teardown :: "teardown_fn option \<Rightarrow> ffi_writer \<Rightarrow> ffi_writer" where
  "mpack_writer_set_teardown teardown w = w\<lparr>fw_teardown := teardown\<rparr>"

subsection \<open>Teardown\<close>

definition growable_teardown :: "ffi_env \<Rightarrow> ffi_writer \<Rightarrow> ffi_writer option" where
  "growable_teardown env w =
     (let used = fw_position w
      in if fw_error w = MPACK_OK then do {
           buffer \<leftarrow> fw_buffer w;
           (let capacity = length buffer
            in if used < capacity div 2 then
                 (let wanted = max used 1
                  in case env_malloc env wanted of
                       None \<Rightarrow> Some (ffi_flag_error MPACK_ERROR_MEMORY (w\<lparr>fw_buffer := None\<rparr>))
                     | Some block \<Rightarrow> do {
                         old \<leftarrow> slice buffer 0 used;
                         resized \<leftarrow> store_at block 0 old;
                         Some (w\<lparr>fw_target := (Some resized, used), fw_buffer := None\<rparr>)
                       })
               else Some (w\<lparr>fw_target := (Some buffer, used), fw_buffer := None\<rparr>))
         } else Some (w\<lparr>fw_buffer := None\<rparr>))"

definition file_teardown :: "ffi_env \<Rightarrow> bool \<Rightarrow> ffi_writer \<Rightarrow> ffi_writer" where
  "file_teardown env close_when_done w =
     (let w = (if close_when_done \<and> env_fclose env \<noteq> 0 then ffi_flag_error MPACK_ERROR_IO w else w)
      in w\<lparr>fw_buffer := None\<rparr>)"

definition call_teardown :: "ffi_env \<Rightarrow> teardown_fn \<Rightarrow> ffi_writer \<Rightarrow> ffi_writer option" where
  "call_teardown env teardown w =
     (case teardown of
        Growable_Teardown \<Rightarrow> growable_teardown env w
      | File_Teardown close_when_done \<Rightarrow> Some (file_teardown env close_when_done w)
      | User_Teardown \<Rightarrow> Some (env_teardown env w))"

definition mpack_writer_destroy :: "ffi_env \<Rightarrow> ffi_writer \<Rightarrow> (c_int \<times> ffi_writer) option" where
  "mpack_writer_destroy env w =
     (let w = (if builder_is_open w then ffi_flag_error MPACK_ERROR_BUG w else w);
          cancel = (fw_error w \<noteq> MPACK_OK)
      in case track_destroy cancel (fw_track w) of
           (track_error, track) \<Rightarrow>
             (let w = w\<lparr>fw_track := track\<rparr>;
                  w = (if fw_error w = MPACK_OK \<and> track_error \<noteq> MPACK_OK
                       then ffi_flag_error track_error w else w)
              in do {
                w \<leftarrow> (if fw_error w = MPACK_OK \<and> fw_position w \<noteq> 0
                      then (case fw_flush w of
                          None \<Rightarrow> Some w
                        | Some flush \<Rightarrow> do {
                            buffer \<leftarrow> fw_buffer w;
                            data \<leftarrow> slice buffer 0 (fw_position w);
                            call_flush env flush True data (w\<lparr>fw_flush := None\<rparr>)
                          })
                      else Some w);
                w \<leftarrow> (case fw_teardown w of
                        None \<Rightarrow> Some w
                      | Some teardown \<Rightarrow> call_teardown env teardown (w\<lparr>fw_teardown := None\<rparr>));
                (let w = clear_builder_state w in Some (fw_error w, w))
              }))"

definition mpack_writer_flush_message :: "ffi_env \<Rightarrow> ffi_writer \<Rightarrow> ffi_writer option" where
  "mpack_writer_flush_message env w =
     (if fw_error w \<noteq> MPACK_OK then Some w
      else
        (let track_error = track_check_empty (fw_track w)
         in if track_error \<noteq> MPACK_OK then Some (ffi_flag_error track_error w)
            else case fw_flush w of
              None \<Rightarrow> Some (ffi_flag_error MPACK_ERROR_BUG w)
            | Some flush \<Rightarrow>
                (let used = fw_position w
                 in if used = 0 then Some w
                    else do {
                      buffer \<leftarrow> fw_buffer w;
                      data \<leftarrow> slice buffer 0 used;
                      call_flush env flush True data (w\<lparr>fw_position := 0\<rparr>)
                    })))"

subsection \<open>Scalars\<close>

definition mpack_write_nil :: "ffi_env \<Rightarrow> ffi_writer \<Rightarrow> ffi_writer option" where
  "mpack_write_nil env w = write_with_core env write_nil w"

definition mpack_write_bool :: "ffi_env \<Rightarrow> bool \<Rightarrow> ffi_writer \<Rightarrow> ffi_writer option" where
  "mpack_write_bool env v w = write_with_core env (write_bool v) w"

definition mpack_write_u8 :: "ffi_env \<Rightarrow> u8 \<Rightarrow> ffi_writer \<Rightarrow> ffi_writer option" where
  "mpack_write_u8 env v w = write_with_core env (write_u8 v) w"

definition mpack_write_u16 :: "ffi_env \<Rightarrow> u16 \<Rightarrow> ffi_writer \<Rightarrow> ffi_writer option" where
  "mpack_write_u16 env v w = write_with_core env (write_u16 v) w"

definition mpack_write_u32 :: "ffi_env \<Rightarrow> u32 \<Rightarrow> ffi_writer \<Rightarrow> ffi_writer option" where
  "mpack_write_u32 env v w = write_with_core env (write_u32 v) w"

definition mpack_write_u64 :: "ffi_env \<Rightarrow> u64 \<Rightarrow> ffi_writer \<Rightarrow> ffi_writer option" where
  "mpack_write_u64 env v w = write_with_core env (write_u64 v) w"

definition mpack_write_i8 :: "ffi_env \<Rightarrow> i8 \<Rightarrow> ffi_writer \<Rightarrow> ffi_writer option" where
  "mpack_write_i8 env v w = write_with_core env (write_i8 v) w"

definition mpack_write_i16 :: "ffi_env \<Rightarrow> i16 \<Rightarrow> ffi_writer \<Rightarrow> ffi_writer option" where
  "mpack_write_i16 env v w = write_with_core env (write_i16 v) w"

definition mpack_write_i32 :: "ffi_env \<Rightarrow> i32 \<Rightarrow> ffi_writer \<Rightarrow> ffi_writer option" where
  "mpack_write_i32 env v w = write_with_core env (write_i32 v) w"

definition mpack_write_i64 :: "ffi_env \<Rightarrow> i64 \<Rightarrow> ffi_writer \<Rightarrow> ffi_writer option" where
  "mpack_write_i64 env v w = write_with_core env (write_i64 v) w"

definition mpack_write_float :: "ffi_env \<Rightarrow> f32 \<Rightarrow> ffi_writer \<Rightarrow> ffi_writer option" where
  "mpack_write_float env v w = write_with_core env (write_f32 v) w"

definition mpack_write_double :: "ffi_env \<Rightarrow> f64 \<Rightarrow> ffi_writer \<Rightarrow> ffi_writer option" where
  "mpack_write_double env v w = write_with_core env (write_f64 v) w"

definition mpack_write_raw_float :: "ffi_env \<Rightarrow> u32 \<Rightarrow> ffi_writer \<Rightarrow> ffi_writer option" where
  "mpack_write_raw_float env v w = write_with_core env (write_f32_bits v) w"

definition mpack_write_raw_double :: "ffi_env \<Rightarrow> u64 \<Rightarrow> ffi_writer \<Rightarrow> ffi_writer option" where
  "mpack_write_raw_double env v w = write_with_core env (write_f64_bits v) w"

definition mpack_write_true :: "ffi_env \<Rightarrow> ffi_writer \<Rightarrow> ffi_writer option" where
  "mpack_write_true env w = mpack_write_bool env True w"

definition mpack_write_false :: "ffi_env \<Rightarrow> ffi_writer \<Rightarrow> ffi_writer option" where
  "mpack_write_false env w = mpack_write_bool env False w"

subsection \<open>Opening payloads and compounds\<close>

definition mpack_start_str :: "ffi_env \<Rightarrow> u32 \<Rightarrow> ffi_writer \<Rightarrow> ffi_writer option" where
  "mpack_start_str env count w = do {
     w \<leftarrow> write_string_header env (unat count) False w;
     mpack_writer_track_push env 7 count w
   }"

definition mpack_start_bin :: "ffi_env \<Rightarrow> u32 \<Rightarrow> ffi_writer \<Rightarrow> ffi_writer option" where
  "mpack_start_bin env count w = do {
     w \<leftarrow> write_string_header env (unat count) True w;
     mpack_writer_track_push env 8 count w
   }"

definition mpack_start_array :: "ffi_env \<Rightarrow> u32 \<Rightarrow> ffi_writer \<Rightarrow> ffi_writer option" where
  "mpack_start_array env count w = do {
     w \<leftarrow> write_with_core env (write_array_header (unat count)) w;
     w \<leftarrow> mpack_writer_track_push env 9 count w;
     Some (builder_start_known (unat count) w)
   }"

definition mpack_start_map :: "ffi_env \<Rightarrow> u32 \<Rightarrow> ffi_writer \<Rightarrow> ffi_writer option" where
  "mpack_start_map env count w = do {
     w \<leftarrow> write_with_core env (write_map_header (unat count)) w;
     w \<leftarrow> mpack_writer_track_push env 10 count w;
     Some (builder_start_known (sat_mul (unat count) 2) w)
   }"

definition mpack_start_ext :: "ffi_env \<Rightarrow> i8 \<Rightarrow> u32 \<Rightarrow> ffi_writer \<Rightarrow> ffi_writer option" where
  "mpack_start_ext env ext_type count w =
     (if writer_uses_v4 w then Some (ffi_flag_bug w)
      else do {
        w \<leftarrow> write_with_core env (write_ext_header ext_type (unat count)) w;
        mpack_writer_track_push env 11 count w
      })"

subsection \<open>Payload bytes and whole values\<close>

definition write_c_bytes ::
  "(u8 list \<Rightarrow> ffi_writer \<Rightarrow> ffi_writer option) \<Rightarrow> u8 list option \<Rightarrow> nat \<Rightarrow> ffi_writer \<Rightarrow> ffi_writer option"
where
  "write_c_bytes write data count w =
     (if data = None \<and> count \<noteq> 0 then Some (ffi_flag_bug w)
      else do {
        bytes \<leftarrow> (if count = 0 then Some [] else do { bytes \<leftarrow> data; slice bytes 0 count });
        write bytes w
      })"

definition mpack_write_bytes :: "ffi_env \<Rightarrow> u8 list option \<Rightarrow> nat \<Rightarrow> ffi_writer \<Rightarrow> ffi_writer option" where
  "mpack_write_bytes env =
     write_c_bytes (\<lambda>bytes w. do {
       w \<leftarrow> mpack_writer_track_bytes (length bytes) w;
       write_raw_buffered env bytes w
     })"

definition mpack_write_str :: "ffi_env \<Rightarrow> u8 list option \<Rightarrow> u32 \<Rightarrow> ffi_writer \<Rightarrow> ffi_writer option" where
  "mpack_write_str env data count =
     write_c_bytes (\<lambda>bytes w. do {
       w \<leftarrow> write_string_header env (length bytes) False w;
       write_raw_buffered env bytes w
     }) data (unat count)"

definition mpack_write_bin :: "ffi_env \<Rightarrow> u8 list option \<Rightarrow> u32 \<Rightarrow> ffi_writer \<Rightarrow> ffi_writer option" where
  "mpack_write_bin env data count w = do {
     w \<leftarrow> mpack_start_bin env count w;
     w \<leftarrow> mpack_write_bytes env data (unat count) w;
     mpack_writer_track_pop 8 w
   }"

definition mpack_write_ext :: "ffi_env \<Rightarrow> i8 \<Rightarrow> u8 list option \<Rightarrow> u32 \<Rightarrow> ffi_writer \<Rightarrow> ffi_writer option" where
  "mpack_write_ext env ext_type data count w = do {
     w \<leftarrow> mpack_start_ext env ext_type count w;
     w \<leftarrow> mpack_write_bytes env data (unat count) w;
     mpack_writer_track_pop 11 w
   }"

definition mpack_write_object_bytes :: "ffi_env \<Rightarrow> u8 list option \<Rightarrow> nat \<Rightarrow> ffi_writer \<Rightarrow> ffi_writer option" where
  "mpack_write_object_bytes env =
     write_c_bytes (\<lambda>bytes w. do {
       w \<leftarrow> writer_track_element (builder_record_value w);
       write_raw_buffered env bytes w
     })"

definition mpack_write_timestamp :: "ffi_env \<Rightarrow> i64 \<Rightarrow> u32 \<Rightarrow> ffi_writer \<Rightarrow> ffi_writer option" where
  "mpack_write_timestamp env secs nanos w =
     (if writer_uses_v4 w then Some (ffi_flag_bug w)
      else if unat nanos > 999999999 then Some (ffi_flag_bug w)
      else write_with_core env (write_timestamp secs nanos) w)"

text \<open>The core operation \<open>mpack_write_tag\<close> chooses, and its last arm, which flags the error in the writer
  behind the back of the core; the core itself then does nothing and succeeds.\<close>

definition tag_operation :: "ffi_writer \<Rightarrow> mpack_tag \<Rightarrow> (writer \<Rightarrow> writer option) option" where
  "tag_operation w tag =
     (let value = mt_value tag
      in if mt_type tag = 1 then Some write_nil
         else if mt_type tag = 2 then Some (write_bool (value AND 0xff \<noteq> 0))
         else if mt_type tag = 3 then Some (write_i64 value)
         else if mt_type tag = 4 then Some (write_u64 value)
         else if mt_type tag = 5 then Some (write_f32_bits (ucast value))
         else if mt_type tag = 6 then Some (write_f64_bits value)
         else if mt_type tag = 7
         then Some (if writer_uses_v4 w then write_str_header_v4 (unat value) else write_str_header (unat value))
         else if mt_type tag = 8
         then Some (if writer_uses_v4 w then write_str_header_v4 (unat value) else write_bin_header (unat value))
         else if mt_type tag = 9 then Some (write_array_header (unat value))
         else if mt_type tag = 10 then Some (write_map_header (unat value))
         else if mt_type tag = 11 then Some (write_ext_header (mt_exttype tag) (unat value))
         else None)"

definition mpack_write_tag :: "ffi_env \<Rightarrow> mpack_tag \<Rightarrow> ffi_writer \<Rightarrow> ffi_writer option" where
  "mpack_write_tag env tag w = do {
     w \<leftarrow> (case tag_operation w tag of
             Some write \<Rightarrow> write_with_core env write w
           | None \<Rightarrow> do {
               w \<leftarrow> write_with_core env Some w;
               Some (if fw_error w = MPACK_OK then ffi_flag_bug w else w)
             });
     (if mt_type tag \<in> {7, 8, 9, 10, 11}
      then mpack_writer_track_push env (mt_type tag) (ucast (mt_value tag)) w else Some w)
   }"

subsection \<open>C strings\<close>

definition mpack_write_cstr :: "ffi_env \<Rightarrow> u8 list option \<Rightarrow> ffi_writer \<Rightarrow> ffi_writer option" where
  "mpack_write_cstr env cstr w =
     (case cstr of
        None \<Rightarrow> Some (ffi_flag_bug w)
      | Some bytes \<Rightarrow>
          if length bytes > 2 ^ 32 - 1 then Some (ffi_flag_error MPACK_ERROR_INVALID w)
          else do {
            w \<leftarrow> write_string_header env (length bytes) False w;
            write_raw_buffered env bytes w
          })"

definition mpack_write_cstr_or_nil :: "ffi_env \<Rightarrow> u8 list option \<Rightarrow> ffi_writer \<Rightarrow> ffi_writer option" where
  "mpack_write_cstr_or_nil env cstr w =
     (if cstr = None then mpack_write_nil env w else mpack_write_cstr env cstr w)"

definition mpack_write_utf8 :: "ffi_env \<Rightarrow> u8 list option \<Rightarrow> u32 \<Rightarrow> ffi_writer \<Rightarrow> ffi_writer option" where
  "mpack_write_utf8 env data count w =
     (if data = None \<and> count \<noteq> 0 then Some (ffi_flag_bug w)
      else do {
        bytes \<leftarrow> (if count = 0 then Some [] else do { bytes \<leftarrow> data; slice bytes 0 (unat count) });
        (if str_from_utf8 bytes then do {
           w \<leftarrow> write_with_core env (write_str_header (length bytes)) w;
           write_raw_buffered env bytes w
         } else Some (ffi_flag_error MPACK_ERROR_INVALID w))
      })"

definition mpack_write_utf8_cstr :: "ffi_env \<Rightarrow> u8 list option \<Rightarrow> ffi_writer \<Rightarrow> ffi_writer option" where
  "mpack_write_utf8_cstr env cstr w =
     (case cstr of
        None \<Rightarrow> Some (ffi_flag_bug w)
      | Some bytes \<Rightarrow>
          if length bytes > 2 ^ 32 - 1 then Some (ffi_flag_error MPACK_ERROR_INVALID w)
          else mpack_write_utf8 env cstr (word_of_nat (length bytes)) w)"

definition mpack_write_utf8_cstr_or_nil :: "ffi_env \<Rightarrow> u8 list option \<Rightarrow> ffi_writer \<Rightarrow> ffi_writer option" where
  "mpack_write_utf8_cstr_or_nil env cstr w =
     (if cstr = None then mpack_write_nil env w else mpack_write_utf8_cstr env cstr w)"

subsection \<open>Builders\<close>

fun build_code :: "build_kind \<Rightarrow> c_int" where
  "build_code Build_Array = 9"
| "build_code Build_Map = 10"

definition builder_start :: "ffi_env \<Rightarrow> build_kind \<Rightarrow> ffi_writer \<Rightarrow> ffi_writer option" where
  "builder_start env kd w = do {
     w \<leftarrow> writer_track_element (builder_record_value w);
     w \<leftarrow> mpack_writer_track_push_builder env (build_code kd) w;
     (if fw_error w \<noteq> MPACK_OK then Some w
      else case writer_remaining w of
        None \<Rightarrow> Some (ffi_flag_error MPACK_ERROR_BUG w)
      | Some left \<Rightarrow> do {
          (ok, w) \<leftarrow> (if left < 5 then flush_buffer env w else Some (True, w));
          (if \<not> ok then Some (ffi_flag_error MPACK_ERROR_TOO_BIG w)
           else case writer_remaining w of
             None \<Rightarrow> Some (ffi_flag_error MPACK_ERROR_BUG w)
           | Some left \<Rightarrow>
               if left < 5 then Some (ffi_flag_error MPACK_ERROR_TOO_BIG w)
               else
                 (let start = fw_position w
                  in do {
                    w \<leftarrow> put_raw (replicate 5 0) w;
                    (let frames = (case fw_frames w of None \<Rightarrow> [] | Some frames \<Rightarrow> frames);
                         frame = \<lparr>bf_kind = kd, bf_start = start, bf_elements = 0,
                                  bf_known_compounds = []\<rparr>
                     in Some (w\<lparr>fw_frames := Some (frames @ [frame])\<rparr>))
                  }))
        })
   }"

text \<open>\<open>Writer::new(&mut header_storage)\<close> over five zero bytes.\<close>

definition ffi_builder_complete :: "ffi_env \<Rightarrow> build_kind \<Rightarrow> ffi_writer \<Rightarrow> ffi_writer option" where
  "ffi_builder_complete env kd w = do {
     w \<leftarrow> mpack_writer_track_pop_builder (build_code kd) w;
     (if fw_error w \<noteq> MPACK_OK then Some w
      else case fw_frames w of
        None \<Rightarrow> Some (ffi_flag_error MPACK_ERROR_BUG w)
      | Some frames \<Rightarrow>
          if frames = [] then Some (ffi_flag_error MPACK_ERROR_BUG w)
          else
            (let frame = last frames;
                 frames = butlast frames;
                 w = w\<lparr>fw_frames := (if frames = [] then None else Some frames)\<rparr>
             in if bf_kind frame \<noteq> kd
                   \<or> (\<exists>left\<in>set (bf_known_compounds frame). left \<noteq> 0)
                   \<or> (kd = Build_Map \<and> bf_elements frame mod 2 \<noteq> 0)
                then Some (ffi_flag_error MPACK_ERROR_BUG w)
                else
                  (let count = (if kd = Build_Map then bf_elements frame div 2 else bf_elements frame)
                   in if count > 2 ^ 32 - 1 then Some (ffi_flag_error MPACK_ERROR_TOO_BIG w)
                      else do {
                        core \<leftarrow> (if kd = Build_Map then write_map_header count (writer_new (replicate 5 0))
                                else write_array_header count (writer_new (replicate 5 0)));
                        (if w_error core \<noteq> Err_Ok
                         then Some (ffi_flag_error (core_error_to_abi (w_error core)) w)
                         else
                           (let header_len = w_position core;
                                used = fw_position w
                            in if bf_start frame + 5 > usize_max \<or> bf_start frame + 5 > used
                               then Some (ffi_flag_error MPACK_ERROR_BUG w)
                               else
                                 (let payload_start = bf_start frame + 5
                                  in do {
                                    buffer \<leftarrow> fw_buffer w;
                                    payload \<leftarrow> slice buffer payload_start used;
                                    buffer \<leftarrow> store_at buffer (bf_start frame + header_len) payload;
                                    hdr \<leftarrow> written core;
                                    buffer \<leftarrow> store_at buffer (bf_start frame) hdr;
                                    Some (w\<lparr>fw_buffer := Some buffer,
                                       fw_position := bf_start frame + header_len + length payload\<rparr>)
                                  })))
                      })))
   }"

definition mpack_build_array :: "ffi_env \<Rightarrow> ffi_writer \<Rightarrow> ffi_writer option" where
  "mpack_build_array env w = builder_start env Build_Array w"

definition mpack_build_map :: "ffi_env \<Rightarrow> ffi_writer \<Rightarrow> ffi_writer option" where
  "mpack_build_map env w = builder_start env Build_Map w"

definition mpack_complete_array :: "ffi_env \<Rightarrow> ffi_writer \<Rightarrow> ffi_writer option" where
  "mpack_complete_array env w = ffi_builder_complete env Build_Array w"

definition mpack_complete_map :: "ffi_env \<Rightarrow> ffi_writer \<Rightarrow> ffi_writer option" where
  "mpack_complete_map env w = ffi_builder_complete env Build_Map w"

end
