(* ===== verification/Ffi_Writer_Run.thy ===== *)
theory Ffi_Writer_Run
  imports Ffi_Writer_Api Ffi_Track_Theorems Writer_Contract Value_Format
begin

section \<open>What the C writer emits\<close>

text \<open>
  The interface \<open>flush_sink\<close> states what the flush callback of a C writer promises: flushing the writer's
  own buffer keeps what was written and makes room for a header, and external data is taken over as a
  whole, or else the writer ends with an error. Over it every operation of the writer is proved to
  append its bytes. The growable and the file writer provide it.
\<close>

subsection \<open>The state of a working writer\<close>

definition cw_out :: "ffi_writer \<Rightarrow> u8 list" where
  "cw_out w = fw_file w @ (case fw_buffer w of None \<Rightarrow> [] | Some buf \<Rightarrow> take (fw_position w) buf)"

definition cw_room :: "ffi_writer \<Rightarrow> nat" where
  "cw_room w = (case fw_buffer w of None \<Rightarrow> 0 | Some buf \<Rightarrow> length buf - fw_position w)"

text \<open>\<open>limit\<close> bounds the output. The buffer of a growable writer is never larger than twice that.\<close>

definition cw_buffer_ok :: "nat \<Rightarrow> ffi_writer \<Rightarrow> bool" where
  "cw_buffer_ok limit w \<longleftrightarrow> (\<exists>buf. fw_buffer w = Some buf \<and> fw_position w \<le> length buf
     \<and> 16 \<le> length buf \<and> length buf \<le> max 4096 (2 * (limit + 16)))"

definition cw :: "flush_fn \<Rightarrow> teardown_fn \<Rightarrow> nat \<Rightarrow> write_tracker \<Rightarrow> ffi_writer \<Rightarrow> bool" where
  "cw flush td limit st w \<longleftrightarrow>
     fw_error w = MPACK_OK \<and> cw_buffer_ok limit w \<and> fw_flush w = Some flush \<and> fw_teardown w = Some td
     \<and> fw_version w = MPACK_VERSION_CURRENT \<and> fw_frames w = None \<and> fw_target w = (None, 0)
     \<and> (flush = Growable_Flush \<longrightarrow> fw_file w = [])
     \<and> c_rep (fw_track w) st \<and> length st \<le> length (cw_out w)"

text \<open>\<open>dead w\<close>: an error, and no builder is open. Every operation leaves such a writer as it is.\<close>

definition dead :: "ffi_writer \<Rightarrow> bool" where
  "dead w \<longleftrightarrow> fw_error w \<noteq> MPACK_OK \<and> fw_frames w = None \<and> fw_version w = MPACK_VERSION_CURRENT
     \<and> fw_teardown w \<noteq> Some User_Teardown \<and> fw_target w = (None, 0)"

text \<open>A writer that gave up: the reason lies outside, and a file holds only bytes that belong there.\<close>

definition cw_broken :: "bool \<Rightarrow> u8 list \<Rightarrow> ffi_writer \<Rightarrow> bool" where
  "cw_broken may_fail bs w \<longleftrightarrow>
     dead w \<and> may_fail \<and> (\<exists>k. fw_file w = take k bs)"

definition cw_step ::
  "flush_fn \<Rightarrow> teardown_fn \<Rightarrow> nat \<Rightarrow> bool \<Rightarrow> ffi_writer \<Rightarrow> u8 list \<Rightarrow> write_tracker \<Rightarrow> ffi_writer option \<Rightarrow> bool"
where
  "cw_step flush td limit may_fail w hs st res \<longleftrightarrow>
     (\<exists>w'. res = Some w' \<and>
        (cw flush td limit st w' \<and> cw_out w' = cw_out w @ hs \<or> cw_broken may_fail (cw_out w @ hs) w'))"

lemma cw_stepI: "cw flush td limit st w' \<Longrightarrow> cw_out w' = cw_out w @ hs \<Longrightarrow>
    cw_step flush td limit may_fail w hs st (Some w')"
  by (simp add: cw_step_def)

lemma cw_step_broken: "cw_broken may_fail (cw_out w @ hs) w' \<Longrightarrow>
    cw_step flush td limit may_fail w hs st (Some w')"
  by (simp add: cw_step_def)

lemma cw_stepE:
  assumes "cw_step flush td limit may_fail w hs st res"
  obtains (ok) w' where "res = Some w'" "cw flush td limit st w'" "cw_out w' = cw_out w @ hs"
    | (broken) w' where "res = Some w'" "cw_broken may_fail (cw_out w @ hs) w'"
  using assms unfolding cw_step_def by blast

text \<open>Steps compose, when an operation does nothing on a broken writer.\<close>

lemma broken_more: "cw_broken may_fail bs w \<Longrightarrow> cw_broken may_fail (bs @ gs) w"
proof -
  assume b: "cw_broken may_fail bs w"
  then obtain k where k: "fw_file w = take k bs"
    by (auto simp: cw_broken_def)
  then have "fw_file w = take (min k (length bs)) (bs @ gs)"
    by (simp add: min_def)
  with b show ?thesis
    unfolding cw_broken_def by blast
qed

lemma cw_step_seq:
  assumes f: "cw_step flush td limit may_fail w hs st res"
    and g: "\<And>w'. cw flush td limit st w' \<Longrightarrow> cw_out w' = cw_out w @ hs \<Longrightarrow>
      cw_step flush td limit may_fail w' gs st' (g w')"
    and sticky: "\<And>w'. dead w' \<Longrightarrow> g w' = Some w'"
  shows "cw_step flush td limit may_fail w (hs @ gs) st' (res \<bind> g)"
  using f
proof (cases rule: cw_stepE)
  case (ok w')
  from g [OF ok(2,3)] ok(1,3) show ?thesis
    by (simp add: cw_step_def)
next
  case (broken w')
  then have "g w' = Some w'"
    by (intro sticky) (simp_all add: cw_broken_def)
  with broken broken_more [OF broken(2), of gs] show ?thesis
    by (simp add: cw_step_def)
qed

subsection \<open>An error is sticky\<close>

lemma flag_simps [simp]:
  "fw_frames (ffi_flag_error e w) = fw_frames w" "fw_version (ffi_flag_error e w) = fw_version w"
  "fw_teardown (ffi_flag_error e w) = fw_teardown w" "fw_target (ffi_flag_error e w) = fw_target w"
  "fw_file (ffi_flag_error e w) = fw_file w" "fw_buffer (ffi_flag_error e w) = fw_buffer w"
  "fw_position (ffi_flag_error e w) = fw_position w" "fw_track (ffi_flag_error e w) = fw_track w"
  "fw_flush (ffi_flag_error e w) = fw_flush w"
  "fw_error (ffi_flag_error e w) = (if fw_error w = MPACK_OK then e else fw_error w)"
  by (simp_all add: ffi_flag_error_def Let_def)

lemma no_frames [simp]: "fw_frames w = None \<Longrightarrow> builder_record_value w = w"
  "fw_frames w = None \<Longrightarrow> builder_start_known n w = w"
  by (simp_all add: builder_record_value_def builder_start_known_def with_last_def)

lemma tracked_dead [simp]: "fw_error w \<noteq> MPACK_OK \<Longrightarrow> tracked f w = Some w"
  by (simp add: tracked_def)

lemma loop_dead [simp]: "fw_error w \<noteq> MPACK_OK \<Longrightarrow> write_core_loop env f w = Some w"
  by (subst write_core_loop.simps) simp

lemma core_dead [simp]: "dead w \<Longrightarrow> write_with_core env f w = Some w"
  by (simp add: dead_def write_with_core_def writer_track_element_def)

lemma raw_dead [simp]: "fw_error w \<noteq> MPACK_OK \<Longrightarrow> write_raw_buffered env bs w = Some w"
  by (simp add: write_raw_buffered_def)

subsection \<open>Output that fits\<close>

definition cw_put :: "u8 list \<Rightarrow> ffi_writer \<Rightarrow> ffi_writer" where
  "cw_put hs w =
     (case fw_buffer w of
        None \<Rightarrow> w
      | Some buf \<Rightarrow> w\<lparr>fw_buffer := Some (take (fw_position w) buf @ hs @ drop (fw_position w + length hs) buf),
                      fw_position := fw_position w + length hs\<rparr>)"

lemma cw_bufferE:
  assumes "cw flush td limit st w"
  obtains buf where "fw_buffer w = Some buf" and "fw_position w \<le> length buf" and "16 \<le> length buf"
    and "length buf \<le> max 4096 (2 * (limit + 16))"
    and "cw_out w = fw_file w @ take (fw_position w) buf" and "cw_room w = length buf - fw_position w"
  using assms by (auto simp: cw_def cw_buffer_ok_def cw_out_def cw_room_def)

lemma cw_put:
  assumes "cw flush td limit st w" and "length hs \<le> cw_room w"
  shows "cw flush td limit st (cw_put hs w)" and "cw_out (cw_put hs w) = cw_out w @ hs"
proof -
  obtain buf where b: "fw_buffer w = Some buf" "fw_position w \<le> length buf" "16 \<le> length buf"
      "length buf \<le> max 4096 (2 * (limit + 16))" "cw_out w = fw_file w @ take (fw_position w) buf"
      "cw_room w = length buf - fw_position w"
    using assms(1) by (rule cw_bufferE)
  then have len: "length (take (fw_position w) buf @ hs @ drop (fw_position w + length hs) buf) = length buf"
    using assms(2) by simp
  show out: "cw_out (cw_put hs w) = cw_out w @ hs"
    using b by (simp add: cw_put_def cw_out_def)
  have "cw_buffer_ok limit (cw_put hs w)"
    unfolding cw_buffer_ok_def
    by (rule exI [of _ "take (fw_position w) buf @ hs @ drop (fw_position w + length hs) buf"])
      (use b assms(2) len in \<open>simp add: cw_put_def\<close>)
  with assms(1) out show "cw flush td limit st (cw_put hs w)"
    by (auto simp: cw_def cw_put_def b)
qed

lemma put_raw_put:
  assumes "cw flush td limit st w" and "length hs \<le> cw_room w"
  shows "put_raw hs w = Some (cw_put hs w)"
  using assms(1)
proof (rule cw_bufferE)
  fix buf assume "fw_buffer w = Some buf" "fw_position w \<le> length buf"
    and "cw_room w = length buf - fw_position w"
  with assms(2) show ?thesis
    by (simp add: put_raw_def cw_put_def store_at_ok)
qed

text \<open>A core operation that emits one header.\<close>

definition emits_header :: "(writer \<Rightarrow> writer option) \<Rightarrow> u8 list \<Rightarrow> bool" where
  "emits_header f hs \<longleftrightarrow> 1 \<le> length hs \<and> length hs \<le> 16 \<and> (\<forall>w. wf_writer w \<longrightarrow> f w = Some (emit hs w))"

lemma emits_header_new:
  "emits_header f hs \<Longrightarrow> f (writer_new b) =
    Some (if length b < length hs then (writer_new b)\<lparr>w_error := Err_TooBig\<rparr>
          else (writer_new b)\<lparr>w_buffer := hs @ drop (length hs) b, w_position := length hs\<rparr>)"
  by (simp add: emits_header_def) (simp add: emit_def writer_new_def)

lemma writer_new_simps: "w_buffer (writer_new b) = b" "w_position (writer_new b) = 0" "w_error (writer_new b) = Err_Ok"
  by (simp_all add: writer_new_def)

lemma loop_fits:
  assumes "cw flush td limit st w" and "writer_remaining w = Some n" and "emits_header f hs" and "length hs \<le> cw_room w"
  shows "write_core_loop env f w = Some (cw_put hs w)"
proof -
  obtain buf where b: "fw_buffer w = Some buf" "fw_position w \<le> length buf"
      "cw_room w = length buf - fw_position w"
    using assms(1) by (rule cw_bufferE)
  with assms show ?thesis
    by (subst write_core_loop.simps)
      (simp add: cw_def emits_header_new writer_new_simps cw_put_def Let_def add.commute)
qed

lemma loop_full:
  assumes "cw flush td limit st w" and "writer_remaining w = Some n" and "emits_header f hs" and "cw_room w < length hs"
  shows "write_core_loop env f w = flush_buffer env w \<bind> (\<lambda>(ok, w).
    if \<not> ok then Some (ffi_flag_error MPACK_ERROR_TOO_BIG w) else write_core_loop env f w)"
proof -
  obtain buf where b: "fw_buffer w = Some buf" "fw_position w \<le> length buf"
      "cw_room w = length buf - fw_position w"
    using assms(1) by (rule cw_bufferE)
  have same: "w\<lparr>fw_buffer := Some buf, fw_position := fw_position w\<rparr> = w"
    using b(1) by simp
  from b assms show ?thesis
    by (subst write_core_loop.simps)
      (simp add: cw_def emits_header_new writer_new_simps Let_def same cong: if_cong)
qed

subsection \<open>The interface of a flush callback\<close>

locale flush_sink =
  fixes env :: ffi_env and flush :: flush_fn and td :: teardown_fn and limit :: nat and may_fail :: bool
  assumes teardown: "td \<noteq> User_Teardown"
    and alloc: "allocator_ok (env_malloc env)"
    and memory: "n \<le> 24 * (limit + 4096) \<Longrightarrow> env_malloc env n = None \<Longrightarrow> may_fail"
    and small: "24 * (limit + 4096) \<le> isize_max"
    and flush_own: "cw flush td limit st w \<Longrightarrow> fw_buffer w = Some buf \<Longrightarrow> length buf \<le> limit + 16 \<Longrightarrow>
      cw_step flush td limit may_fail w [] st
        (call_flush env flush True (take (fw_position w) buf) (w\<lparr>fw_position := 0\<rparr>))"
    and flush_room: "cw flush td limit st w \<Longrightarrow> fw_buffer w = Some buf \<Longrightarrow> length buf \<le> limit + 16 \<Longrightarrow>
      call_flush env flush True (take (fw_position w) buf) (w\<lparr>fw_position := 0\<rparr>) = Some w' \<Longrightarrow>
      fw_error w' = MPACK_OK \<Longrightarrow> 16 \<le> cw_room w'"
    and flush_external: "cw flush td limit st w0 \<Longrightarrow> fw_buffer w0 = Some buf \<Longrightarrow>
      call_flush env flush True (take (fw_position w0) buf) (w0\<lparr>fw_position := 0\<rparr>) = Some w \<Longrightarrow>
      cw flush td limit st w \<Longrightarrow> cw_room w < length bs \<Longrightarrow> length (cw_out w @ bs) \<le> limit \<Longrightarrow>
      cw_step flush td limit may_fail w bs st (call_flush env flush False bs w)"
begin

lemma room_known: "cw flush td limit st w \<Longrightarrow> writer_remaining w = Some (cw_room w)"
proof (erule cw_bufferE)
  fix buf assume *: "fw_buffer w = Some buf" "fw_position w \<le> length buf" "length buf \<le> max 4096 (2 * (limit + 16))"
    "cw_room w = length buf - fw_position w"
  then have "cw_room w \<le> 2 ^ 63 - 1"
    using small unfolding isize_max_def by simp
  with * show ?thesis
    by (simp add: writer_remaining_def)
qed

text \<open>Flushing the own buffer keeps what was written and makes room for a header.\<close>

lemma flush_buffer_cases:
  assumes w: "cw flush td limit st w" and len: "length (the (fw_buffer w)) \<le> limit + 16"
  obtains (ok) w' where "flush_buffer env w = Some (True, w')" "cw flush td limit st w'" "cw_out w' = cw_out w" "16 \<le> cw_room w'"
      "call_flush env flush True (take (fw_position w) (the (fw_buffer w))) (w\<lparr>fw_position := 0\<rparr>) = Some w'"
    | (broken) w' where "flush_buffer env w = Some (False, w')" "cw_broken may_fail (cw_out w) w'"
proof -
  obtain buf where b: "fw_buffer w = Some buf" "fw_position w \<le> length buf"
    using w by (rule cw_bufferE)
  have fl: "fw_flush w = Some flush"
    using w by (simp add: cw_def)
  let ?res = "call_flush env flush True (take (fw_position w) buf) (w\<lparr>fw_position := 0\<rparr>)"
  have run: "flush_buffer env w = ?res \<bind> (\<lambda>w. Some (fw_error w = MPACK_OK \<and> writer_remaining w \<noteq> None, w))"
    using b fl by (simp add: flush_buffer_def slice_ok)
  have "cw_step flush td limit may_fail w [] st ?res"
    using w b len by (intro flush_own) simp_all
  then show thesis
  proof (cases rule: cw_stepE)
    case (ok w')
    with flush_room [OF w b(1) _ ok(1)] room_known [OF ok(2)] b(1) len show thesis
      by (intro that(1) [of w']) (simp_all add: run cw_def b)
  next
    case (broken w')
    then show thesis
      by (intro that(2) [of w']) (simp_all add: run cw_broken_def dead_def)
  qed
qed

lemma buffer_small: "cw flush td limit st w \<Longrightarrow> cw_room w < n \<Longrightarrow> n \<le> 16 \<or> length (cw_out w) + n \<le> limit \<Longrightarrow>
    length (cw_out w) \<le> limit \<Longrightarrow> length (the (fw_buffer w)) \<le> limit + 16"
  by (erule cw_bufferE) auto

lemma broken_flagged: "cw_broken may_fail bs w \<Longrightarrow> cw_broken may_fail bs (ffi_flag_error e w)"
  by (auto simp: cw_broken_def dead_def ffi_flag_error_def)

text \<open>A header of at most sixteen bytes is appended, after at most one flush.\<close>

lemma loop_emits:
  assumes w: "cw flush td limit st w" and f: "emits_header f hs" and len: "length (cw_out w) \<le> limit"
  shows "cw_step flush td limit may_fail w hs st (write_core_loop env f w)"
proof (cases "length hs \<le> cw_room w")
  case True
  with loop_fits [OF w room_known [OF w] f] cw_put [OF w True] show ?thesis
    by (simp add: cw_stepI)
next
  case False
  then have run: "write_core_loop env f w = flush_buffer env w \<bind> (\<lambda>(ok, w).
      if \<not> ok then Some (ffi_flag_error MPACK_ERROR_TOO_BIG w) else write_core_loop env f w)"
    by (intro loop_full [OF w room_known [OF w] f]) simp
  have hs: "length hs \<le> 16"
    using f by (simp add: emits_header_def)
  have "length (the (fw_buffer w)) \<le> limit + 16"
    using w False hs len by (intro buffer_small [of _ _ "length hs"]) simp_all
  with w show ?thesis
  proof (cases rule: flush_buffer_cases)
    case (ok w')
    then have fits: "length hs \<le> cw_room w'"
      using hs by simp
    with loop_fits [OF ok(2) room_known [OF ok(2)] f fits] cw_put [OF ok(2) fits] run ok show ?thesis
      by (simp add: cw_stepI)
  next
    case (broken w')
    with run broken_flagged [OF broken_more [OF broken(2), of hs]] show ?thesis
      by (simp add: cw_step_broken)
  qed
qed

text \<open>Payload bytes of any length are appended.\<close>

lemma raw_emits:
  assumes w: "cw flush td limit st w" and len: "length (cw_out w @ bs) \<le> limit"
  shows "cw_step flush td limit may_fail w bs st (write_raw_buffered env bs w)"
proof (cases "bs = [] \<or> length bs \<le> cw_room w")
  case True
  then show ?thesis
    using w room_known [OF w] put_raw_put [OF w, of bs] cw_put [OF w, of bs]
    by (auto simp: write_raw_buffered_def cw_def intro!: cw_stepI)
next
  case False
  then have sm: "length (the (fw_buffer w)) \<le> limit + 16"
    using w len by (intro buffer_small [of _ _ "length bs"]) simp_all
  have fl: "fw_flush w = Some flush" "fw_error w = MPACK_OK"
    using w by (simp_all add: cw_def)
  obtain buf where buf: "fw_buffer w = Some buf"
    using w by (rule cw_bufferE)
  note run = False fl room_known [OF w]
  from w sm show ?thesis
  proof (cases rule: flush_buffer_cases)
    case (ok w')
    show ?thesis
    proof (cases "length bs \<le> cw_room w'")
      case True
      with run ok room_known [OF ok(2)] put_raw_put [OF ok(2) True] cw_put [OF ok(2) True] show ?thesis
        by (simp add: write_raw_buffered_def cw_stepI)
    next
      case more: False
      have "cw_step flush td limit may_fail w' bs st (call_flush env flush False bs w')"
        using ok more len buf by (intro flush_external [OF w buf]) simp_all
      with run ok more room_known [OF ok(2)] show ?thesis
        by (simp add: write_raw_buffered_def cw_step_def)
    qed
  next
    case (broken w')
    with run broken_more [OF broken(2), of bs] show ?thesis
      by (simp add: write_raw_buffered_def cw_step_broken)
  qed
qed

text \<open>A call of the tracker that \<open>WriteTracker\<close> accepts goes through, unless memory runs out.\<close>

lemma tracked_steps:
  assumes w: "cw flush td limit st w" and acc: "track_step c st = (Inr (), st')" and fits: "c_fits c"
    and open_items: "length st' \<le> length (cw_out w)" and len: "length (cw_out w) \<le> limit"
  shows "cw_step flush td limit may_fail w [] st' (tracked (c_run (env_malloc env) c) w)"
proof -
  have rep: "c_rep (fw_track w) st" and depth: "length st \<le> length (cw_out w)" and ok: "fw_error w = MPACK_OK"
    using w by (simp_all add: cw_def)
  note sim = c_call_refines [OF rep fits alloc]
  have out: "cw_out (w\<lparr>fw_track := t, fw_error := e, fw_reports := rs\<rparr>) = cw_out w"
    "cw_out (w\<lparr>fw_track := t\<rparr>) = cw_out w" for t e rs
    by (simp_all add: cw_out_def split: option.split)
  show ?thesis
  proof (cases "c_call (env_malloc env) c (fw_track w)")
    case (Accepted t')
    then have run: "c_run (env_malloc env) c (fw_track w) = Some (MPACK_OK, t')"
      by (auto simp: c_call_def split: option.splits if_splits)
    have "c_rep t' st'"
      using sim Accepted acc by simp
    then have "cw flush td limit st' (w\<lparr>fw_track := t'\<rparr>)"
      using w open_items by (simp add: cw_def out) (simp add: cw_buffer_ok_def)
    with run ok out(2) show ?thesis
      by (simp add: tracked_def Let_def cw_stepI)
  next
    case Refused
    with sim acc show ?thesis by simp
  next
    case Gave_up
    with sim obtain e t' n where g: "c_run (env_malloc env) c (fw_track w) = Some (e, t')" "e \<noteq> MPACK_OK"
        "n \<le> 24 * length st + 36" "env_malloc env n = None"
      by auto
    then have may_fail
      using depth len by (intro memory [of n]) simp_all
    moreover have "\<exists>k. fw_file w = take k (cw_out w)"
      by (rule exI [of _ "length (fw_file w)"]) (simp add: cw_out_def)
    ultimately show ?thesis
      using g(1,2) ok w teardown
      by (auto simp: tracked_def Let_def cw_broken_def dead_def cw_def intro!: cw_step_broken)
  qed
qed

end

end
