(* ===== verification/Ffi_Writer_Values.thy ===== *)
theory Ffi_Writer_Values
  imports Ffi_Writer_Run
begin

section \<open>Writing whole values through the C interface\<close>

text \<open>
  \<open>c_write_value\<close> is how a C program writes a value: scalars by their functions, payloads by the
  functions for strings, binaries and extensions, compounds by opening them, writing the children and
  finishing them (\<open>mpack_finish_array\<close> of the C header is \<open>mpack_writer_track_pop\<close>).
\<close>

function c_write_value :: "ffi_env \<Rightarrow> mvalue \<Rightarrow> ffi_writer \<Rightarrow> ffi_writer option"
  and c_write_values :: "ffi_env \<Rightarrow> mvalue list \<Rightarrow> ffi_writer \<Rightarrow> ffi_writer option"
where
  "c_write_value env (MValue t pl vs) w =
     (case t of
        Tag_Nil \<Rightarrow> mpack_write_nil env w
      | Tag_Bool b \<Rightarrow> mpack_write_bool env b w
      | Tag_Int i \<Rightarrow> mpack_write_i64 env i w
      | Tag_Uint v \<Rightarrow> mpack_write_u64 env v w
      | Tag_Float f \<Rightarrow> mpack_write_float env f w
      | Tag_Double d \<Rightarrow> mpack_write_double env d w
      | Tag_Str n \<Rightarrow> mpack_write_str env (Some pl) n w
      | Tag_Bin n \<Rightarrow> mpack_write_bin env (Some pl) n w
      | Tag_Ext ty n \<Rightarrow> mpack_write_ext env ty (Some pl) n w
      | Tag_Array n \<Rightarrow> do {
          w \<leftarrow> mpack_start_array env n w;
          w \<leftarrow> c_write_values env vs w;
          mpack_writer_track_pop TYPE_ARRAY w
        }
      | Tag_Map n \<Rightarrow> do {
          w \<leftarrow> mpack_start_map env n w;
          w \<leftarrow> c_write_values env vs w;
          mpack_writer_track_pop TYPE_MAP w
        })"
| "c_write_values env [] w = Some w"
| "c_write_values env (v # vs) w = c_write_value env v w \<bind> c_write_values env vs"
  by pat_completeness auto
termination
  by (relation "measure (\<lambda>x. case x of Inl (env, v, w) \<Rightarrow> size v | Inr (env, vs, w) \<Rightarrow> size_list size vs)") auto

subsection \<open>Headers of the core\<close>

lemma enc_nonempty:
  "Suc 0 \<le> length (enc_uint v)" "Suc 0 \<le> length (enc_int i)" "Suc 0 \<le> length (enc_array n)"
  "Suc 0 \<le> length (enc_map n)" "Suc 0 \<le> length (enc_str n)" "Suc 0 \<le> length (enc_bin n)"
  "Suc 0 \<le> length (enc_ext ty n)"
  by (simp_all add: enc_int_def enc_uint_def enc_array_def enc_map_def enc_str_def enc_bin_def enc_ext_def)

lemma headers [simp]:
  "emits_header write_nil [0xc0]"
  "emits_header (write_bool b) [if b then 0xc3 else 0xc2]"
  "emits_header (write_i64 i) (enc_int i)"
  "emits_header (write_u64 v) (enc_uint v)"
  "emits_header (write_f32 f) (0xca # to_be_bytes f)"
  "emits_header (write_f64 d) (0xcb # to_be_bytes d)"
  by (simp_all add: emits_header_def contracts enc_nonempty length_enc)

lemma length_headers [simp]:
  "emits_header (write_array_header (unat (n :: u32))) (enc_array (unat n))"
  "emits_header (write_map_header (unat n)) (enc_map (unat n))"
  "emits_header (write_str_header (unat n)) (enc_str (unat n))"
  "emits_header (write_bin_header (unat n)) (enc_bin (unat n))"
  "emits_header (write_ext_header ty (unat n)) (enc_ext ty (unat n))"
  using unat_u32_less [of n]
  by (simp_all add: emits_header_def contracts emit_len_def enc_nonempty length_enc)

subsection \<open>A dead writer stays as it is\<close>

lemma not_v4 [simp]: "fw_version w = MPACK_VERSION_CURRENT \<Longrightarrow> \<not> writer_uses_v4 w"
  by (simp add: writer_uses_v4_def MPACK_VERSION_CURRENT_def)

lemma dead_facts: "dead w \<Longrightarrow> fw_error w \<noteq> MPACK_OK" "dead w \<Longrightarrow> \<not> writer_uses_v4 w"
  "dead w \<Longrightarrow> fw_frames w = None"
  by (simp_all add: dead_def)

lemma dead_calls [simp]:
  assumes "dead w"
  shows "write_string_header env n b w = Some w" "mpack_writer_track_push env ty n' w = Some w"
    "mpack_writer_track_pop ty w = Some w" "mpack_writer_track_bytes m w = Some w"
    "length pl = m \<Longrightarrow> mpack_write_bytes env (Some pl) m w = Some w"
    "mpack_start_array env n' w = Some w" "mpack_start_map env n' w = Some w"
  using assms dead_facts [OF assms]
  by (simp_all add: write_string_header_def mpack_writer_track_push_def mpack_writer_track_pop_def
      mpack_writer_track_bytes_def mpack_write_bytes_def write_c_bytes_def mpack_start_array_def
      mpack_start_map_def slice_def)

lemma dead_value: "dead w \<Longrightarrow> wf_value v \<Longrightarrow> c_write_value env v w = Some w"
  and dead_values: "dead w \<Longrightarrow> \<forall>v\<in>set vs. wf_value v \<Longrightarrow> c_write_values env vs w = Some w"
proof (induction env v w and env vs w rule: c_write_value_c_write_values.induct)
  case (1 env t pl vs w)
  then show ?case
    using dead_facts [of w]
    by (cases t) (simp_all add: mpack_write_nil_def mpack_write_bool_def mpack_write_i64_def mpack_write_u64_def
        mpack_write_float_def mpack_write_double_def mpack_write_str_def mpack_write_bin_def mpack_write_ext_def
        mpack_start_bin_def mpack_start_ext_def write_c_bytes_def slice_def)
qed simp_all

subsection \<open>Every value is appended\<close>

context flush_sink begin

lemma header_emits:
  assumes w: "cw flush td limit st w" and el: "wt_element st = (Inr (), st')" and f: "emits_header f hs"
    and len: "length (cw_out w) \<le> limit"
  shows "cw_step flush td limit may_fail w hs st' (write_with_core env f w)"
proof -
  have "length st' = length st"
    using el by (auto simp: wt_element_def split: list.splits if_splits)
  with w have "length st' \<le> length (cw_out w)"
    by (simp add: cw_def)
  then have "cw_step flush td limit may_fail w [] st' (tracked (c_run (env_malloc env) Call_element) w)"
    using w el len by (intro tracked_steps) simp_all
  then have "cw_step flush td limit may_fail w ([] @ hs) st'
      (tracked (c_run (env_malloc env) Call_element) w \<bind> write_core_loop env f)"
  proof (rule cw_step_seq)
    fix w' assume "cw flush td limit st' w'" and "cw_out w' = cw_out w @ []"
    with f len show "cw_step flush td limit may_fail w' hs st' (write_core_loop env f w')"
      by (intro loop_emits) simp_all
  qed (simp add: dead_def)
  moreover have "fw_frames w = None"
    using w by (simp add: cw_def)
  moreover have "c_run (env_malloc env) Call_element = Ffi_Track.track_element"
    by (simp add: c_run_def fun_eq_iff)
  ultimately show ?thesis
    by (simp add: write_with_core_def writer_track_element_def)
qed

lemma push_steps:
  assumes "cw flush td limit st w" and "length (cw_out w) \<le> limit" and "length st < length (cw_out w)"
  shows "cw_step flush td limit may_fail w [] (\<lparr>te_kind = k, te_left = announced k (unat n)\<rparr> # st)
    (mpack_writer_track_push env (kind_code k) n w)"
proof -
  have "cw_step flush td limit may_fail w [] (\<lparr>te_kind = k, te_left = announced k (unat n)\<rparr> # st)
      (tracked (c_run (env_malloc env) (Call_push k (unat n))) w)"
    using assms unat_u32_less [of n] by (intro tracked_steps) (simp_all add: wt_push_announced)
  moreover have "c_run (env_malloc env) (Call_push k (unat n)) = track_push (env_malloc env) (kind_code k) n"
    by (simp add: c_run_def fun_eq_iff)
  ultimately show ?thesis
    by (simp add: mpack_writer_track_push_def)
qed

lemma pop_steps:
  assumes "cw flush td limit (\<lparr>te_kind = k, te_left = 0\<rparr> # st) w" and "length (cw_out w) \<le> limit"
  shows "cw_step flush td limit may_fail w [] st (mpack_writer_track_pop (kind_code k) w)"
proof -
  have pops: "wt_pop k (\<lparr>te_kind = k, te_left = 0\<rparr> # st) = (Inr (), st)"
    by (simp add: wt_pop_def)
  have "length st \<le> length (cw_out w)"
    using assms(1) by (simp add: cw_def)
  with assms have "cw_step flush td limit may_fail w [] st (tracked (c_run (env_malloc env) (Call_pop k)) w)"
    by (intro tracked_steps [OF assms(1)]) (simp_all add: pops)
  moreover have "c_run (env_malloc env) (Call_pop k) = track_pop (kind_code k)"
    by (simp add: c_run_def fun_eq_iff)
  ultimately show ?thesis
    by (simp add: mpack_writer_track_pop_def)
qed

text \<open>A header that opens a payload or a compound.\<close>

lemma open_steps:
  assumes w: "cw flush td limit st w" and el: "wt_element st = (Inr (), st')" and f: "emits_header f hs"
    and len: "length (cw_out w @ hs) \<le> limit"
  shows "cw_step flush td limit may_fail w hs (\<lparr>te_kind = k, te_left = announced k (unat n)\<rparr> # st')
    (write_with_core env f w \<bind> mpack_writer_track_push env (kind_code k) n)"
proof -
  have "cw_step flush td limit may_fail w hs st' (write_with_core env f w)"
    using w el f len by (intro header_emits) simp_all
  then have "cw_step flush td limit may_fail w (hs @ []) (\<lparr>te_kind = k, te_left = announced k (unat n)\<rparr> # st')
      (write_with_core env f w \<bind> mpack_writer_track_push env (kind_code k) n)"
  proof (rule cw_step_seq)
    fix w' assume w': "cw flush td limit st' w'" "cw_out w' = cw_out w @ hs"
    have "length st' = length st" "length st \<le> length (cw_out w)"
      using el w by (auto simp: wt_element_def cw_def split: list.splits if_splits)
    with w' len f show "cw_step flush td limit may_fail w' [] (\<lparr>te_kind = k, te_left = announced k (unat n)\<rparr> # st')
        (mpack_writer_track_push env (kind_code k) n w')"
      by (intro push_steps) (auto simp: emits_header_def)
  qed simp
  then show ?thesis by simp
qed

text \<open>The payload of an open binary or extension, and its end.\<close>

lemma payload_steps:
  assumes w: "cw flush td limit (\<lparr>te_kind = k, te_left = length pl\<rparr> # st) w" and k: "is_payload k"
    and len: "length (cw_out w @ pl) \<le> limit"
  shows "cw_step flush td limit may_fail w pl st
    (mpack_write_bytes env (Some pl) (length pl) w \<bind> mpack_writer_track_pop (kind_code k))"
proof -
  let ?st = "\<lparr>te_kind = k, te_left = 0\<rparr> # st"
  have "c_run (env_malloc env) (Call_bytes (length pl)) = track_bytes (length pl)"
    by (simp add: c_run_def fun_eq_iff)
  then have bytes: "mpack_write_bytes env (Some pl) (length pl) w =
      tracked (c_run (env_malloc env) (Call_bytes (length pl))) w \<bind> write_raw_buffered env pl"
    by (simp add: mpack_write_bytes_def write_c_bytes_def slice_def mpack_writer_track_bytes_def)
  have "length st < length (cw_out w)"
    using w by (simp add: cw_def)
  then have "cw_step flush td limit may_fail w [] ?st
      (tracked (c_run (env_malloc env) (Call_bytes (length pl))) w)"
    using k len by (intro tracked_steps [OF w]) (simp_all add: wt_bytes_def)
  then have "cw_step flush td limit may_fail w ([] @ pl) ?st
      (tracked (c_run (env_malloc env) (Call_bytes (length pl))) w \<bind> write_raw_buffered env pl)"
  proof (rule cw_step_seq)
    fix w' assume "cw flush td limit ?st w'" "cw_out w' = cw_out w @ []"
    with len show "cw_step flush td limit may_fail w' pl ?st (write_raw_buffered env pl w')"
      by (intro raw_emits) simp_all
  qed (simp add: dead_def)
  then have "cw_step flush td limit may_fail w (pl @ []) st
      (mpack_write_bytes env (Some pl) (length pl) w \<bind> mpack_writer_track_pop (kind_code k))"
    unfolding bytes append_Nil
  proof (rule cw_step_seq)
    fix w' assume "cw flush td limit ?st w'" "cw_out w' = cw_out w @ pl"
    with len show "cw_step flush td limit may_fail w' [] st (mpack_writer_track_pop (kind_code k) w')"
      by (intro pop_steps) simp_all
  qed simp
  then show ?thesis by simp
qed

lemma no_step: "cw flush td limit st w \<Longrightarrow> cw_step flush td limit may_fail w [] st (Some w)"
  by (simp add: cw_stepI)

text \<open>Opening a compound, its children, and its end.\<close>

lemma start_compound:
  assumes w: "cw flush td limit st w" and el: "wt_element st = (Inr (), st')" and f: "emits_header f hs"
    and len: "length (cw_out w @ hs) \<le> limit"
  shows "cw_step flush td limit may_fail w hs (\<lparr>te_kind = k, te_left = announced k (unat n)\<rparr> # st')
    (write_with_core env f w \<bind> mpack_writer_track_push env (kind_code k) n \<bind> (\<lambda>w. Some (builder_start_known m w)))"
proof -
  let ?st = "\<lparr>te_kind = k, te_left = announced k (unat n)\<rparr> # st'"
  have "cw_step flush td limit may_fail w (hs @ []) ?st
      (write_with_core env f w \<bind> mpack_writer_track_push env (kind_code k) n \<bind> (\<lambda>w. Some (builder_start_known m w)))"
    using open_steps [OF assms, of k n]
  proof (rule cw_step_seq)
    fix w' assume "cw flush td limit ?st w'"
    moreover then have "fw_frames w' = None"
      by (simp add: cw_def)
    ultimately show "cw_step flush td limit may_fail w' [] ?st (Some (builder_start_known m w'))"
      by (simp add: no_step)
  qed (simp add: dead_def)
  then show ?thesis by simp
qed

lemma values_emit:
  assumes each: "\<And>v w st st'. v \<in> set vs \<Longrightarrow> cw flush td limit st w \<Longrightarrow> wt_element st = (Inr (), st') \<Longrightarrow>
      wf_value v \<Longrightarrow> length (cw_out w @ enc_value v) \<le> limit \<Longrightarrow>
      cw_step flush td limit may_fail w (enc_value v) st' (c_write_value env v w)"
    and k: "\<not> is_payload k" and wf: "\<forall>v\<in>set vs. wf_value v"
    and w: "cw flush td limit (\<lparr>te_kind = k, te_left = length vs\<rparr> # st) w"
    and len: "length (cw_out w @ concat (map enc_value vs)) \<le> limit"
  shows "cw_step flush td limit may_fail w (concat (map enc_value vs)) (\<lparr>te_kind = k, te_left = 0\<rparr> # st)
    (c_write_values env vs w)"
  using each wf w len
proof (induction vs arbitrary: w)
  case Nil
  then show ?case
    by (simp add: no_step)
next
  case (Cons v vs)
  let ?rest = "\<lparr>te_kind = k, te_left = length vs\<rparr> # st"
  have "cw_step flush td limit may_fail w (enc_value v) ?rest (c_write_value env v w)"
    using Cons.prems(2,4) k by (intro Cons.prems(1) [OF _ Cons.prems(3)]) (simp_all add: wt_element_def)
  then have "cw_step flush td limit may_fail w (enc_value v @ concat (map enc_value vs))
      (\<lparr>te_kind = k, te_left = 0\<rparr> # st) (c_write_value env v w \<bind> c_write_values env vs)"
  proof (rule cw_step_seq)
    fix w' assume w': "cw flush td limit ?rest w'" "cw_out w' = cw_out w @ enc_value v"
    show "cw_step flush td limit may_fail w' (concat (map enc_value vs)) (\<lparr>te_kind = k, te_left = 0\<rparr> # st)
        (c_write_values env vs w')"
    proof (rule Cons.IH [OF _ _ w'(1)])
      show "cw_step flush td limit may_fail u (enc_value x) st2 (c_write_value env x u)"
        if "x \<in> set vs" "cw flush td limit st1 u" "wt_element st1 = (Inr (), st2)" "wf_value x"
          "length (cw_out u @ enc_value x) \<le> limit" for x u st1 st2
        using Cons.prems(1) [of x st1 u st2] that by simp
    qed (use Cons.prems w' in simp_all)
  next
    fix u assume "dead u"
    then show "c_write_values env vs u = Some u"
      using Cons.prems(2) by (intro dead_values) simp_all
  qed
  then show ?case by simp
qed

lemma compound_emits:
  assumes w: "cw flush td limit st w" and el: "wt_element st = (Inr (), st')" and f: "emits_header f hs"
    and n: "announced k (unat n) = length vs" and k: "\<not> is_payload k" and wf: "\<forall>v\<in>set vs. wf_value v"
    and each: "\<And>v w st st'. v \<in> set vs \<Longrightarrow> cw flush td limit st w \<Longrightarrow> wt_element st = (Inr (), st') \<Longrightarrow>
      wf_value v \<Longrightarrow> length (cw_out w @ enc_value v) \<le> limit \<Longrightarrow>
      cw_step flush td limit may_fail w (enc_value v) st' (c_write_value env v w)"
    and len: "length (cw_out w @ hs @ concat (map enc_value vs)) \<le> limit"
  shows "cw_step flush td limit may_fail w (hs @ concat (map enc_value vs)) st'
    (write_with_core env f w \<bind> mpack_writer_track_push env (kind_code k) n \<bind> (\<lambda>w. Some (builder_start_known m w))
       \<bind> c_write_values env vs \<bind> mpack_writer_track_pop (kind_code k))"
proof -
  let ?open = "\<lparr>te_kind = k, te_left = length vs\<rparr> # st'"
  let ?closed = "\<lparr>te_kind = k, te_left = 0\<rparr> # st'"
  have "cw_step flush td limit may_fail w hs ?open
      (write_with_core env f w \<bind> mpack_writer_track_push env (kind_code k) n \<bind> (\<lambda>w. Some (builder_start_known m w)))"
    using start_compound [OF w el f, of k n] len n by simp
  then have "cw_step flush td limit may_fail w (hs @ concat (map enc_value vs)) ?closed
      (write_with_core env f w \<bind> mpack_writer_track_push env (kind_code k) n \<bind> (\<lambda>w. Some (builder_start_known m w))
         \<bind> c_write_values env vs)"
  proof (rule cw_step_seq)
    fix w' assume "cw flush td limit ?open w'" "cw_out w' = cw_out w @ hs"
    with len show "cw_step flush td limit may_fail w' (concat (map enc_value vs)) ?closed (c_write_values env vs w')"
      by (intro values_emit [OF each k wf]) simp_all
  qed (use wf in \<open>simp add: dead_values\<close>)
  then have "cw_step flush td limit may_fail w ((hs @ concat (map enc_value vs)) @ []) st'
      (write_with_core env f w \<bind> mpack_writer_track_push env (kind_code k) n \<bind> (\<lambda>w. Some (builder_start_known m w))
         \<bind> c_write_values env vs \<bind> mpack_writer_track_pop (kind_code k))"
  proof (rule cw_step_seq)
    fix w' assume "cw flush td limit ?closed w'" "cw_out w' = cw_out w @ hs @ concat (map enc_value vs)"
    with len show "cw_step flush td limit may_fail w' [] st' (mpack_writer_track_pop (kind_code k) w')"
      by (intro pop_steps) simp_all
  qed simp
  then show ?thesis by simp
qed

lemma payload_emits:
  assumes w: "cw flush td limit st w" and el: "wt_element st = (Inr (), st')" and f: "emits_header f hs"
    and n: "unat n = length pl" and k: "is_payload k" and len: "length (cw_out w @ hs @ pl) \<le> limit"
  shows "cw_step flush td limit may_fail w (hs @ pl) st'
    (write_with_core env f w \<bind> mpack_writer_track_push env (kind_code k) n
       \<bind> (\<lambda>w. mpack_write_bytes env (Some pl) (unat n) w \<bind> mpack_writer_track_pop (kind_code k)))"
  using open_steps [OF w el f, of k n]
proof (rule cw_step_seq)
  show "length (cw_out w @ hs) \<le> limit"
    using len by simp
next
  fix w' assume w': "cw flush td limit (\<lparr>te_kind = k, te_left = announced k (unat n)\<rparr> # st') w'" "cw_out w' = cw_out w @ hs"
  have "announced k (unat n) = length pl"
    using k n by (auto simp: announced_def is_payload_def)
  with w' len k show "cw_step flush td limit may_fail w' pl st'
      (mpack_write_bytes env (Some pl) (unat n) w' \<bind> mpack_writer_track_pop (kind_code k))"
    unfolding n by (intro payload_steps) simp_all
qed (use n in simp)

text \<open>A string is not opened; its bytes follow at once.\<close>

lemma str_emits:
  assumes w: "cw flush td limit st w" and el: "wt_element st = (Inr (), st')" and n: "unat n = length pl"
    and len: "length (cw_out w @ enc_str (unat n) @ pl) \<le> limit"
  shows "cw_step flush td limit may_fail w (enc_str (unat n) @ pl) st' (mpack_write_str env (Some pl) n w)"
proof -
  have "\<not> writer_uses_v4 w"
    using w by (simp add: cw_def)
  then have run: "mpack_write_str env (Some pl) n w =
      write_with_core env (write_str_header (unat n)) w \<bind> write_raw_buffered env pl"
    using n by (simp add: mpack_write_str_def write_c_bytes_def slice_def write_string_header_def)
  have "cw_step flush td limit may_fail w (enc_str (unat n)) st' (write_with_core env (write_str_header (unat n)) w)"
    using w el len by (intro header_emits) simp_all
  then show ?thesis
    unfolding run
  proof (rule cw_step_seq)
    fix w' assume "cw flush td limit st' w'" "cw_out w' = cw_out w @ enc_str (unat n)"
    with len show "cw_step flush td limit may_fail w' pl st' (write_raw_buffered env pl w')"
      by (intro raw_emits) simp_all
  qed (simp add: dead_def)
qed

text \<open>A whole value is appended in its canonical encoding, and counts as one element.\<close>

lemma value_emits:
  "cw flush td limit st w \<Longrightarrow> wt_element st = (Inr (), st') \<Longrightarrow> wf_value v \<Longrightarrow>
    length (cw_out w @ enc_value v) \<le> limit \<Longrightarrow>
    cw_step flush td limit may_fail w (enc_value v) st' (c_write_value env v w)"
proof (induction v arbitrary: w st st')
  case (MValue t pl vs)
  note w = MValue.prems(1) and el = MValue.prems(2)
  have v5: "\<not> writer_uses_v4 w"
    using w by (simp add: cw_def)
  have wf: "length pl = payload_len t" "length vs = child_count t" "\<forall>v\<in>set vs. wf_value v"
    using MValue.prems(3) by simp_all
  have len: "length (cw_out w @ enc_tag t @ pl @ concat (map enc_value vs)) \<le> limit"
    using MValue.prems(4) by simp
  have hdr: "cw_step flush td limit may_fail w hs st' (write_with_core env f w)"
    if "emits_header f hs" for f hs
    using header_emits [OF w el that] len by simp
  show ?case
  proof (cases t)
    case (Tag_Str n)
    with str_emits [OF w el, of n pl] wf len show ?thesis by simp
  next
    case (Tag_Bin n)
    have "cw_step flush td limit may_fail w (enc_bin (unat n) @ pl) st'
        (write_with_core env (write_bin_header (unat n)) w \<bind> mpack_writer_track_push env (kind_code Kind_Bin) n
           \<bind> (\<lambda>w. mpack_write_bytes env (Some pl) (unat n) w \<bind> mpack_writer_track_pop (kind_code Kind_Bin)))"
      by (rule payload_emits [OF w el]) (use wf len Tag_Bin in \<open>simp_all add: is_payload_def\<close>)
    moreover have "vs = []"
      using wf(2) Tag_Bin by simp
    ultimately show ?thesis
      using Tag_Bin v5 by (simp add: mpack_write_bin_def mpack_start_bin_def write_string_header_def TYPE_BIN_def)
  next
    case (Tag_Ext ty n)
    have "cw_step flush td limit may_fail w (enc_ext ty (unat n) @ pl) st'
        (write_with_core env (write_ext_header ty (unat n)) w \<bind> mpack_writer_track_push env (kind_code Kind_Ext) n
           \<bind> (\<lambda>w. mpack_write_bytes env (Some pl) (unat n) w \<bind> mpack_writer_track_pop (kind_code Kind_Ext)))"
      by (rule payload_emits [OF w el]) (use wf len Tag_Ext in \<open>simp_all add: is_payload_def\<close>)
    moreover have "vs = []"
      using wf(2) Tag_Ext by simp
    ultimately show ?thesis
      using Tag_Ext v5 by (simp add: mpack_write_ext_def mpack_start_ext_def TYPE_EXT_def)
  next
    case (Tag_Array n)
    have "cw_step flush td limit may_fail w (enc_array (unat n) @ concat (map enc_value vs)) st'
        (write_with_core env (write_array_header (unat n)) w \<bind> mpack_writer_track_push env (kind_code Kind_Array) n
           \<bind> (\<lambda>w. Some (builder_start_known (unat n) w)) \<bind> c_write_values env vs
           \<bind> mpack_writer_track_pop (kind_code Kind_Array))"
      by (rule compound_emits [OF w el _ _ _ wf(3) MValue.IH])
        (use wf len Tag_Array in \<open>simp_all add: announced_def is_payload_def\<close>)
    then show ?thesis
      using Tag_Array wf(1) by (simp add: mpack_start_array_def TYPE_ARRAY_def)
  next
    case (Tag_Map n)
    have "sat_mul (unat n) 2 = 2 * unat n"
      using unat_u32_less [of n] by (simp add: sat_mul_def usize_max_def)
    then have "cw_step flush td limit may_fail w (enc_map (unat n) @ concat (map enc_value vs)) st'
        (write_with_core env (write_map_header (unat n)) w \<bind> mpack_writer_track_push env (kind_code Kind_Map) n
           \<bind> (\<lambda>w. Some (builder_start_known (sat_mul (unat n) 2) w)) \<bind> c_write_values env vs
           \<bind> mpack_writer_track_pop (kind_code Kind_Map))"
      by (intro compound_emits [OF w el _ _ _ wf(3) MValue.IH])
        (use wf len Tag_Map in \<open>simp_all add: announced_def is_payload_def\<close>)
    then show ?thesis
      using Tag_Map wf(1) by (simp add: mpack_start_map_def TYPE_MAP_def)
  qed (use wf hdr in \<open>simp_all add: mpack_write_nil_def mpack_write_bool_def mpack_write_i64_def
        mpack_write_u64_def mpack_write_float_def mpack_write_double_def\<close>)
qed

text \<open>A sequence of values at top level.\<close>

lemma stream_emits:
  "cw flush td limit [] w \<Longrightarrow> \<forall>v\<in>set vs. wf_value v \<Longrightarrow>
    length (cw_out w @ concat (map enc_value vs)) \<le> limit \<Longrightarrow>
    cw_step flush td limit may_fail w (concat (map enc_value vs)) [] (c_write_values env vs w)"
proof (induction vs arbitrary: w)
  case (Cons v vs)
  have "cw_step flush td limit may_fail w (enc_value v) [] (c_write_value env v w)"
    using Cons.prems by (intro value_emits [OF Cons.prems(1)]) (simp_all add: wt_element_def)
  then have "cw_step flush td limit may_fail w (enc_value v @ concat (map enc_value vs)) []
      (c_write_value env v w \<bind> c_write_values env vs)"
  proof (rule cw_step_seq)
    fix w' assume "cw flush td limit [] w'" "cw_out w' = cw_out w @ enc_value v"
    then show "cw_step flush td limit may_fail w' (concat (map enc_value vs)) [] (c_write_values env vs w')"
      using Cons.prems by (intro Cons.IH) simp_all
  next
    fix u assume "dead u"
    then show "c_write_values env vs u = Some u"
      using Cons.prems(2) by (intro dead_values) simp_all
  qed
  then show ?case by simp
qed (simp add: no_step)

end

end
