(* ===== verification/Ffi_Writer_Theorems.thy ===== *)
theory Ffi_Writer_Theorems
  imports Ffi_Writer_Values
begin

section \<open>What the C writer guarantees\<close>

subsection \<open>Growing a capacity\<close>

lemma grow_capacity_enough:
  assumes "0 < capacity" and "capacity < wanted" and "2 * wanted \<le> usize_max"
  shows "\<exists>c. grow_capacity wanted capacity = Some c \<and> wanted \<le> c \<and> c < 2 * wanted"
  using assms
proof (induction wanted capacity rule: grow_capacity.induct)
  case (1 wanted capacity)
  show ?case
  proof (cases "wanted \<le> capacity * 2")
    case True
    with 1(2-4) show ?thesis
      by (subst grow_capacity.simps, subst grow_capacity.simps) (auto simp: Let_def max_def)
  next
    case False
    have m: "max capacity 1 = capacity"
      using 1(2) by simp
    have "\<exists>c. grow_capacity wanted (capacity * 2) = Some c \<and> wanted \<le> c \<and> c < 2 * wanted"
      using 1(2-4) False by (intro 1(1) [of capacity, OF m [symmetric]]) auto
    with 1(2-4) False show ?thesis
      by (subst grow_capacity.simps) (simp add: m)
  qed
qed

lemma grow_capacity_double:
  assumes "0 < capacity" and "2 * capacity \<le> usize_max"
  shows "grow_capacity (Suc capacity) capacity = Some (2 * capacity)"
  using assms by (subst grow_capacity.simps, subst grow_capacity.simps) (auto simp: Let_def max_def)

subsection \<open>The growable writer provides the interface\<close>

text \<open>The interface is about an allocator that keeps the C standard; \<open>sane_env\<close> puts one that never
  succeeds in the place of one that does not. \<open>max_output\<close> is the largest output considered.\<close>

definition sane_env :: "ffi_env \<Rightarrow> ffi_env" where
  "sane_env env = (if allocator_ok (env_malloc env) then env else env\<lparr>env_malloc := (\<lambda>_. None)\<rparr>)"

definition max_output :: nat where
  "max_output = 2 ^ 58"

lemma sane_alloc: "allocator_ok (env_malloc (sane_env env))"
  by (simp add: sane_env_def) (simp add: allocator_ok_def)

lemma sane [simp]: "allocator_ok (env_malloc env) \<Longrightarrow> sane_env env = env"
  by (simp add: sane_env_def)

lemma output_small: "24 * (min limit max_output + 4096) \<le> isize_max"
  by (simp add: max_output_def isize_max_def min_def)

definition memory_out :: "ffi_env \<Rightarrow> nat \<Rightarrow> bool" where
  "memory_out env limit \<longleftrightarrow> (\<exists>n\<le>24 * (limit + 4096). env_malloc env n = None)"

lemma cw_replace:
  assumes "cw flush td limit st w" and "length buf = cap" and "pos \<le> cap" and "16 \<le> cap"
    and "cap \<le> max 4096 (2 * (limit + 16))" and "flush = Growable_Flush \<longrightarrow> file = []"
    and "length (cw_out w) \<le> length (file @ take pos buf)"
  shows "cw flush td limit st (w\<lparr>fw_buffer := Some buf, fw_position := pos, fw_file := file\<rparr>)"
  using assms by (auto simp: cw_def cw_buffer_ok_def cw_out_def)

lemma growable_own_run:
  assumes "fw_buffer w = Some buf" and "fw_position w \<noteq> length data" and "length data \<le> usize_max"
    and "length data \<le> length buf"
    and "grow_capacity (max (length data) (sat_add (length buf) 1)) (length buf) = Some c"
  shows "growable_flush env True data w =
    (case env_malloc env c of
       None \<Rightarrow> Some (ffi_flag_error MPACK_ERROR_MEMORY w)
     | Some block \<Rightarrow> store_at block 0 (take (length data) buf) \<bind>
         (\<lambda>new. Some (w\<lparr>fw_buffer := Some new, fw_position := length data\<rparr>)))"
  using assms by (simp add: growable_flush_def Let_def slice_def split: option.split)

lemma growable_own:
  assumes alloc: "allocator_ok (env_malloc env)" and small: "24 * (limit + 4096) \<le> isize_max"
    and w: "cw Growable_Flush Growable_Teardown limit st w" and buf: "fw_buffer w = Some buf"
    and len: "length buf \<le> limit + 16"
  obtains (empty) "growable_flush env True (take (fw_position w) buf) (w\<lparr>fw_position := 0\<rparr>) = Some w"
      and "fw_position w = 0"
    | (memory) "growable_flush env True (take (fw_position w) buf) (w\<lparr>fw_position := 0\<rparr>) =
        Some (ffi_flag_error MPACK_ERROR_MEMORY (w\<lparr>fw_position := 0\<rparr>))" and "memory_out env limit"
    | (grown) block where "growable_flush env True (take (fw_position w) buf) (w\<lparr>fw_position := 0\<rparr>) =
        Some (w\<lparr>fw_buffer := Some (take (fw_position w) buf @ drop (fw_position w) block),
                fw_position := fw_position w, fw_file := fw_file w\<rparr>)"
      and "length block = 2 * length buf"
proof (cases "fw_position w = 0")
  case True
  then have same: "w\<lparr>fw_position := 0\<rparr> = w" by simp
  show thesis
    by (rule empty) (use True same buf in \<open>simp_all add: growable_flush_def\<close>)
next
  case False
  have b: "fw_position w \<le> length buf" "16 \<le> length buf"
    using w buf by (auto elim: cw_bufferE)
  have usize: "2 * length buf \<le> usize_max" "length buf < usize_max"
    using len small by (simp_all add: isize_max_def usize_max_def)
  let ?data = "take (fw_position w) buf"
  have data: "length ?data = fw_position w"
    using b by simp
  have "max (length ?data) (sat_add (length buf) 1) = Suc (length buf)"
    using b(1) usize(2) by (simp add: sat_add_def)
  moreover have "grow_capacity (Suc (length buf)) (length buf) = Some (2 * length buf)"
    using b(2) usize(1) by (intro grow_capacity_double) auto
  ultimately have run: "growable_flush env True ?data (w\<lparr>fw_position := 0\<rparr>) =
    (case env_malloc env (2 * length buf) of
       None \<Rightarrow> Some (ffi_flag_error MPACK_ERROR_MEMORY (w\<lparr>fw_position := 0\<rparr>))
     | Some block \<Rightarrow> store_at block 0 (take (length ?data) buf) \<bind>
         (\<lambda>new. Some (w\<lparr>fw_position := 0, fw_buffer := Some new, fw_position := length ?data\<rparr>)))"
    using False b usize buf data by (intro growable_own_run) simp_all
  show thesis
  proof (cases "env_malloc env (2 * length buf)")
    case None
    moreover have "2 * length buf \<le> 24 * (limit + 4096)"
      using len by simp
    ultimately have "memory_out env limit"
      unfolding memory_out_def by blast
    with run None show thesis
      by (intro memory) simp_all
  next
    case (Some block)
    then have "length block = 2 * length buf"
      using alloc by (simp add: allocator_ok_def)
    with run Some b data show thesis
      by (intro grown [of block]) (simp_all add: store_at_def)
  qed
qed

lemma growable_own_step:
  assumes "allocator_ok (env_malloc env)" and "24 * (limit + 4096) \<le> isize_max"
    and w: "cw Growable_Flush Growable_Teardown limit st w" and buf: "fw_buffer w = Some buf"
    and len: "length buf \<le> limit + 16"
  shows "cw_step Growable_Flush Growable_Teardown limit (memory_out env limit) w [] st
    (growable_flush env True (take (fw_position w) buf) (w\<lparr>fw_position := 0\<rparr>))"
  using assms
proof (cases rule: growable_own)
  case empty
  with w show ?thesis
    by (simp add: cw_stepI)
next
  case memory
  have "\<exists>k. fw_file w = take k (cw_out w)"
    by (rule exI [of _ "length (fw_file w)"]) (simp add: cw_out_def)
  with memory w show ?thesis
    by (auto simp: cw_broken_def dead_def cw_def intro!: cw_step_broken)
next
  case (grown block)
  have b: "fw_position w \<le> length buf" "16 \<le> length buf"
    using w buf by (auto elim: cw_bufferE)
  show ?thesis
    unfolding grown(1)
  proof (rule cw_stepI [OF cw_replace [OF w]])
    show "length (take (fw_position w) buf @ drop (fw_position w) block) = 2 * length buf"
      using b grown by simp
  qed (use w b grown len buf in \<open>auto simp: cw_def cw_out_def\<close>)
qed

lemma growable_own_room:
  assumes "allocator_ok (env_malloc env)" and "24 * (limit + 4096) \<le> isize_max"
    and w: "cw Growable_Flush Growable_Teardown limit st w" and buf: "fw_buffer w = Some buf"
    and len: "length buf \<le> limit + 16"
    and run: "growable_flush env True (take (fw_position w) buf) (w\<lparr>fw_position := 0\<rparr>) = Some w'"
    and ok: "fw_error w' = MPACK_OK"
  shows "16 \<le> cw_room w'"
  using assms(1-5)
proof (cases rule: growable_own)
  case empty
  with run w buf show ?thesis
    by (auto simp: cw_room_def elim: cw_bufferE)
next
  case memory
  with run ok w show ?thesis
    by (auto simp: cw_def Let_def split: if_splits)
next
  case (grown block)
  have b: "fw_position w \<le> length buf" "16 \<le> length buf"
    using w buf by (auto elim: cw_bufferE)
  with grown run show ?thesis
    by (auto simp: cw_room_def)
qed

lemma growable_external:
  assumes alloc: "allocator_ok (env_malloc env)" and small: "24 * (limit + 4096) \<le> isize_max"
    and w: "cw Growable_Flush Growable_Teardown limit st w" and room: "cw_room w < length bs"
    and len: "length (cw_out w @ bs) \<le> limit"
  shows "cw_step Growable_Flush Growable_Teardown limit (memory_out env limit) w bs st
    (growable_flush env False bs w)"
proof -
  obtain buf where b: "fw_buffer w = Some buf" "fw_position w \<le> length buf" "16 \<le> length buf"
      "cw_out w = fw_file w @ take (fw_position w) buf" "cw_room w = length buf - fw_position w"
    using w by (rule cw_bufferE)
  have empty: "fw_file w = []"
    using w by (simp add: cw_def)
  let ?need = "fw_position w + length bs"
  have need: "length buf < ?need" "?need \<le> limit" "2 * ?need \<le> usize_max"
    using b empty room len small by (auto simp: isize_max_def usize_max_def)
  have "0 < length buf"
    using b(3) by linarith
  from grow_capacity_enough [OF this need(1,3)]
  obtain c where c: "grow_capacity ?need (length buf) = Some c" "?need \<le> c" "c < 2 * ?need"
    by blast
  have wanted: "max ?need (sat_add (length buf) 1) = ?need"
    using need by (simp add: sat_add_def)
  show ?thesis
  proof (cases "env_malloc env c")
    case None
    moreover have "c \<le> 24 * (limit + 4096)"
      using c need by simp
    ultimately have "memory_out env limit"
      unfolding memory_out_def by blast
    then have "cw_broken (memory_out env limit) (cw_out w @ bs) (ffi_flag_error MPACK_ERROR_MEMORY w)"
      unfolding cw_broken_def using w empty by (intro conjI exI [of _ 0]) (auto simp: dead_def cw_def)
    moreover have "growable_flush env False bs w = Some (ffi_flag_error MPACK_ERROR_MEMORY w)"
      using b c need wanted None by (simp add: growable_flush_def Let_def)
    ultimately show ?thesis
      by (simp add: cw_step_broken)
  next
    case (Some block)
    then have block: "length block = c"
      using alloc by (simp add: allocator_ok_def)
    let ?buf = "take (fw_position w) buf @ bs @ drop ?need block"
    have "bs \<noteq> []"
      using room by auto
    then have run: "growable_flush env False bs w =
        Some (w\<lparr>fw_buffer := Some ?buf, fw_position := ?need, fw_file := fw_file w\<rparr>)"
      using b c need wanted Some block
      by (simp add: growable_flush_def Let_def slice_def store_at_def min_def add.commute)
    show ?thesis
      unfolding run
    proof (rule cw_stepI [OF cw_replace [OF w]])
      show "length ?buf = c"
        using b c block by simp
      show "c \<le> max 4096 (2 * (limit + 16))" "16 \<le> c"
        using b c need by simp_all
    qed (use empty b c in \<open>simp_all add: cw_out_def\<close>)
  qed
qed

lemma take_all_taken: "take (min (length (take n xs)) n) xs = take n xs"
  by (simp add: min_def)

lemma file_own_step:
  assumes w: "cw File_Flush (File_Teardown close_it) limit st w" and buf: "fw_buffer w = Some buf"
    and fail: "\<And>written data. env_fwrite env written data \<noteq> length data \<Longrightarrow> may_fail"
  shows "cw_step File_Flush (File_Teardown close_it) limit may_fail w [] st
    (Some (file_flush env (take (fw_position w) buf) (w\<lparr>fw_position := 0\<rparr>)))"
proof -
  have b: "fw_position w \<le> length buf" "16 \<le> length buf" "length buf \<le> max 4096 (2 * (limit + 16))"
    using w buf by (auto elim: cw_bufferE)
  let ?data = "take (fw_position w) buf" and ?n = "env_fwrite env (fw_file w) (take (fw_position w) buf)"
  have out: "cw_out w = fw_file w @ ?data"
    using buf by (simp add: cw_out_def)
  show ?thesis
  proof (cases "?n = length ?data")
    case True
    then have run: "file_flush env ?data (w\<lparr>fw_position := 0\<rparr>) =
        w\<lparr>fw_buffer := Some buf, fw_position := 0, fw_file := fw_file w @ ?data\<rparr>"
      using buf by (cases w) (simp add: file_flush_def Let_def take_all_taken del: length_take)
    show ?thesis
      unfolding run by (rule cw_stepI [OF cw_replace [OF w]]) (use b out in \<open>simp_all add: cw_out_def\<close>)
  next
    case False
    then have may_fail
      using fail by blast
    moreover have "fw_file (file_flush env ?data (w\<lparr>fw_position := 0\<rparr>)) =
        take (length (fw_file w) + ?n) (cw_out w @ [])"
      by (simp add: file_flush_def Let_def out)
    moreover have "dead (file_flush env ?data (w\<lparr>fw_position := 0\<rparr>))"
      using False w by (simp add: file_flush_def Let_def dead_def cw_def del: length_take)
    ultimately have "cw_broken may_fail (cw_out w @ []) (file_flush env ?data (w\<lparr>fw_position := 0\<rparr>))"
      unfolding cw_broken_def by blast
    then show ?thesis
      by (rule cw_step_broken)
  qed
qed

lemma file_external_step:
  assumes w: "cw File_Flush (File_Teardown close_it) limit st w" and empty: "fw_position w = 0"
    and fail: "\<And>written data. env_fwrite env written data \<noteq> length data \<Longrightarrow> may_fail"
  shows "cw_step File_Flush (File_Teardown close_it) limit may_fail w bs st (Some (file_flush env bs w))"
proof -
  obtain buf where b: "fw_buffer w = Some buf" "16 \<le> length buf" "length buf \<le> max 4096 (2 * (limit + 16))"
    using w by (rule cw_bufferE)
  let ?n = "env_fwrite env (fw_file w) bs"
  have out: "cw_out w = fw_file w"
    using b empty by (simp add: cw_out_def)
  show ?thesis
  proof (cases "?n = length bs")
    case True
    then have run: "file_flush env bs w = w\<lparr>fw_buffer := Some buf, fw_position := 0, fw_file := fw_file w @ bs\<rparr>"
      using b empty by (cases w) (simp add: file_flush_def Let_def)
    show ?thesis
      unfolding run by (rule cw_stepI [OF cw_replace [OF w]]) (use b out empty in \<open>simp_all add: cw_out_def\<close>)
  next
    case False
    have "\<exists>k. fw_file w @ take ?n bs = take k (fw_file w @ bs)"
      by (rule exI [of _ "length (fw_file w) + ?n"]) simp
    with False w fail out show ?thesis
      by (auto simp: file_flush_def Let_def cw_broken_def dead_def cw_def intro!: cw_step_broken)
  qed
qed

lemma file_flush_position: "fw_position (file_flush env data w) = fw_position w"
  by (simp add: file_flush_def Let_def)

definition file_fails :: "ffi_env \<Rightarrow> nat \<Rightarrow> bool" where
  "file_fails env limit \<longleftrightarrow>
     memory_out env limit \<or> (\<exists>written data. env_fwrite env written data \<noteq> length data)"

interpretation growable_sink: flush_sink "sane_env env" Growable_Flush Growable_Teardown "min limit max_output"
  "memory_out (sane_env env) (min limit max_output)" for env limit
proof unfold_locales
  fix w st buf w'
  assume w: "cw Growable_Flush Growable_Teardown (min limit max_output) st w" and buf: "fw_buffer w = Some buf"
    and len: "length buf \<le> min limit max_output + 16"
  show "cw_step Growable_Flush Growable_Teardown (min limit max_output) (memory_out (sane_env env) (min limit max_output))
      w [] st (call_flush (sane_env env) Growable_Flush True (take (fw_position w) buf) (w\<lparr>fw_position := 0\<rparr>))"
    using growable_own_step [OF sane_alloc output_small w buf len] by (simp add: call_flush_def)
  show "16 \<le> cw_room w'"
    if "call_flush (sane_env env) Growable_Flush True (take (fw_position w) buf) (w\<lparr>fw_position := 0\<rparr>) = Some w'"
      "fw_error w' = MPACK_OK"
    using growable_own_room [OF sane_alloc output_small w buf len] that by (simp add: call_flush_def)
next
  fix w st bs
  assume "cw Growable_Flush Growable_Teardown (min limit max_output) st w" and "cw_room w < length bs"
    and "length (cw_out w @ bs) \<le> min limit max_output"
  from growable_external [OF sane_alloc output_small this]
  show "cw_step Growable_Flush Growable_Teardown (min limit max_output) (memory_out (sane_env env) (min limit max_output))
      w bs st (call_flush (sane_env env) Growable_Flush False bs w)"
    by (simp add: call_flush_def)
qed (use sane_alloc output_small in \<open>auto simp: memory_out_def\<close>)

interpretation file_sink: flush_sink "sane_env env" File_Flush "File_Teardown close_it" "min limit max_output"
  "file_fails (sane_env env) (min limit max_output)" for env close_it limit
proof unfold_locales
  fix w st buf
  assume "cw File_Flush (File_Teardown close_it) (min limit max_output) st w" and "fw_buffer w = Some buf"
  then show "cw_step File_Flush (File_Teardown close_it) (min limit max_output) (file_fails (sane_env env) (min limit max_output))
      w [] st (call_flush (sane_env env) File_Flush True (take (fw_position w) buf) (w\<lparr>fw_position := 0\<rparr>))"
    unfolding call_flush_def flush_fn.case by (rule file_own_step) (auto simp: file_fails_def)
next
  fix w st buf w'
  assume "cw File_Flush (File_Teardown close_it) (min limit max_output) st w" and "fw_buffer w = Some buf"
    and "call_flush (sane_env env) File_Flush True (take (fw_position w) buf) (w\<lparr>fw_position := 0\<rparr>) = Some w'"
  then show "16 \<le> cw_room w'"
    by (auto simp: call_flush_def file_flush_def Let_def cw_room_def elim: cw_bufferE)
next
  fix w0 st buf w bs
  assume w: "cw File_Flush (File_Teardown close_it) (min limit max_output) st w"
    and run: "call_flush (sane_env env) File_Flush True (take (fw_position w0) buf) (w0\<lparr>fw_position := 0\<rparr>) = Some w"
  have "fw_position w = 0"
    using run by (auto simp: call_flush_def file_flush_position)
  with w show "cw_step File_Flush (File_Teardown close_it) (min limit max_output) (file_fails (sane_env env) (min limit max_output))
      w bs st (call_flush (sane_env env) File_Flush False bs w)"
    unfolding call_flush_def flush_fn.case by (rule file_external_step) (auto simp: file_fails_def)
qed (use sane_alloc output_small in \<open>auto simp: file_fails_def memory_out_def\<close>)

subsection \<open>From initialisation to teardown\<close>

lemma block_tracked:
  assumes alloc: "allocator_ok (env_malloc env)" and off: "\<not> env_force_fail env"
    and block: "env_malloc env OWNED_BUFFER_CAPACITY = Some block" and frames: "fw_frames w = None"
    and target: "fw_target w = (None, 0)" and td: "td \<noteq> User_Teardown"
    and fresh: "flush = Growable_Flush \<longrightarrow> fw_file w = []" and mem: "memory_out env limit \<Longrightarrow> may_fail"
  shows "cw_step flush td limit may_fail (w\<lparr>fw_buffer := None\<rparr>) [] []
    (Some ((initialize_writer_tracking env (fixed_buffer (Some block) w))
       \<lparr>fw_flush := Some flush, fw_teardown := Some td\<rparr>))"
proof -
  have len: "length block = 4096"
    using alloc block by (simp add: allocator_ok_def OWNED_BUFFER_CAPACITY_def)
  have out: "cw_out (w\<lparr>fw_buffer := None\<rparr>) = fw_file w"
    by (simp add: cw_out_def)
  show ?thesis
  proof (cases "env_malloc env 36")
    case None
    then have "memory_out env limit"
      unfolding memory_out_def by (intro exI [of _ 36]) simp
    then have may_fail
      by (rule mem)
    moreover have "\<exists>k. fw_file w = take k (fw_file w)"
      by (rule exI [of _ "length (fw_file w)"]) simp
    ultimately show ?thesis
      using None off frames target td out
      by (intro cw_step_broken)
        (simp add: cw_broken_def dead_def initialize_writer_tracking_def fixed_buffer_def track_init_def
          sat_mul_def usize_max_def track_elem_size_def TRACKING_INITIAL_CAPACITY_def Let_def)
  next
    case (Some b)
    then obtain t where t: "track_init False (env_malloc env) track_empty = (MPACK_OK, t)" "track_rep t []"
      using track_init_rep [of "env_malloc env" track_empty] alloc by auto
    then have "c_rep t []"
      by (auto simp: c_rep_def)
    with t off frames target fresh out len show ?thesis
      by (intro cw_stepI)
        (auto simp: cw_def cw_buffer_ok_def cw_out_def initialize_writer_tracking_def fixed_buffer_def Let_def)
  qed
qed

lemma destroy_dead:
  assumes "dead w"
  shows "\<exists>w'. mpack_writer_destroy env w = Some (fw_error w, w') \<and> fw_file w' = fw_file w \<and> fw_target w' = (None, 0)"
proof -
  have "\<not> builder_is_open w"
    using assms by (simp add: builder_is_open_def dead_def)
  then show ?thesis
    using assms
    by (cases "fw_teardown w"; cases "the (fw_teardown w)")
      (simp_all add: mpack_writer_destroy_def dead_def track_destroy_def Let_def call_teardown_def
        growable_teardown_def file_teardown_def clear_builder_state_def)
qed

lemma closed_tracker: "c_rep t [] \<Longrightarrow> track_check_empty t = MPACK_OK"
  by (auto simp: c_rep_def track_check_empty_def dest!: track_rep_count)

lemma destroy_growable:
  assumes alloc: "allocator_ok (env_malloc env)" and w: "cw Growable_Flush Growable_Teardown limit [] w"
    and len: "length (cw_out w) \<le> limit"
  shows "\<exists>err w'. mpack_writer_destroy env w = Some (err, w')
    \<and> (if err = MPACK_OK
       then \<exists>buf. fw_target w' = (Some buf, length (cw_out w)) \<and> take (length (cw_out w)) buf = cw_out w
       else fw_target w' = (None, 0) \<and> memory_out env limit)"
proof -
  obtain buf where b: "fw_buffer w = Some buf" "fw_position w \<le> length buf" "16 \<le> length buf"
      "cw_out w = take (fw_position w) buf"
    using w by (rule cw_bufferE) (use w in \<open>simp add: cw_def\<close>)
  have facts: "fw_error w = MPACK_OK" "fw_flush w = Some Growable_Flush" "fw_teardown w = Some Growable_Teardown"
      "fw_frames w = None" "fw_target w = (None, 0)" "track_check_empty (fw_track w) = MPACK_OK"
    using w by (simp_all add: cw_def closed_tracker)
  let ?final = "\<lambda>w. let w = clear_builder_state w in Some (fw_error w, w)"
  let ?track = "snd (track_destroy False (fw_track w))"
  have "\<exists>u. mpack_writer_destroy env w = growable_teardown env u \<bind> ?final
      \<and> fw_error u = MPACK_OK \<and> fw_buffer u = Some buf \<and> fw_position u = fw_position w \<and> fw_target u = (None, 0)"
  proof (cases "fw_position w = 0")
    case True
    with facts b show ?thesis
      by (intro exI [of _ "w\<lparr>fw_track := ?track, fw_teardown := None\<rparr>"])
        (simp add: mpack_writer_destroy_def builder_is_open_def track_destroy_def Let_def call_teardown_def)
  next
    case False
    with facts b show ?thesis
      by (intro exI [of _ "w\<lparr>fw_track := ?track, fw_flush := None, fw_teardown := None\<rparr>"])
        (simp add: mpack_writer_destroy_def builder_is_open_def track_destroy_def Let_def call_teardown_def
          call_flush_def growable_flush_def slice_def cong: option.case_cong)
  qed
  then obtain u where run: "mpack_writer_destroy env w = growable_teardown env u \<bind> ?final"
    and u: "fw_error u = MPACK_OK" "fw_buffer u = Some buf" "fw_position u = fw_position w" "fw_target u = (None, 0)"
    by blast
  show ?thesis
  proof (cases "fw_position w < length buf div 2")
    case False
    with run u b show ?thesis
      by (simp add: growable_teardown_def Let_def clear_builder_state_def)
  next
    case True
    show ?thesis
    proof (cases "env_malloc env (max (fw_position w) 1)")
      case None
      moreover have "max (fw_position w) 1 \<le> 24 * (limit + 4096)"
        using len b by simp
      ultimately have "memory_out env limit"
        unfolding memory_out_def by blast
      with True None run u b show ?thesis
        by (simp add: growable_teardown_def Let_def clear_builder_state_def)
    next
      case (Some block)
      then have "length block = max (fw_position w) 1"
        using alloc by (simp add: allocator_ok_def)
      with True Some run u b show ?thesis
        by (simp add: growable_teardown_def Let_def clear_builder_state_def slice_def store_at_def)
    qed
  qed
qed

text \<open>C35. A growable C writer: write any values through the C functions, nested as they may be, and destroy the
  writer. If that returns ok, the result pointers hold exactly the canonical encodings of the values,
  one after the other; otherwise an allocation failed and the result pointers are null. The header loop,
  the growth of the buffer and the tracker never fail for another reason, and nothing reads or writes
  outside the buffer.\<close>

theorem growable_writer_encodes:
  assumes "allocator_ok (env_malloc env)" and "\<not> env_force_fail env" and "\<forall>v\<in>set vs. wf_value v"
    and "length (concat (map enc_value vs)) \<le> max_output" and "fw_frames w0 = None" and "fw_file w0 = []"
  shows "\<exists>w err w'. c_write_values env vs (mpack_writer_init_growable env False w0) = Some w
    \<and> mpack_writer_destroy env w = Some (err, w')
    \<and> (let bs = concat (map enc_value vs)
       in if err = MPACK_OK then \<exists>buf. fw_target w' = (Some buf, length bs) \<and> take (length bs) buf = bs
          else fw_target w' = (None, 0) \<and> memory_out env (length bs))"
proof -
  let ?bs = "concat (map enc_value vs)" and ?w0 = "w0\<lparr>fw_target := (None, 0)\<rparr>"
  let ?limit = "length ?bs"
  have lim: "min ?limit max_output = ?limit"
    using assms(4) by simp
  note emits = growable_sink.stream_emits [where env = env and limit = ?limit, unfolded lim sane [OF assms(1)]]
  have start: "cw_step Growable_Flush Growable_Teardown ?limit (memory_out env ?limit) (?w0\<lparr>fw_buffer := None\<rparr>) [] []
      (Some (mpack_writer_init_growable env False w0))"
  proof (cases "env_malloc env OWNED_BUFFER_CAPACITY")
    case None
    then have "memory_out env ?limit"
      unfolding memory_out_def OWNED_BUFFER_CAPACITY_def by (intro exI [of _ 4096]) simp
    with None assms(5,6) show ?thesis
      by (intro cw_step_broken)
        (simp add: mpack_writer_init_growable_def cw_broken_def dead_def error_state_def)
  next
    case (Some block)
    with block_tracked [OF assms(1,2) Some, of ?w0 Growable_Teardown Growable_Flush ?limit] assms(5,6)
    show ?thesis
      by (simp add: mpack_writer_init_growable_def)
  qed
  have base: "cw_out (?w0\<lparr>fw_buffer := None\<rparr>) = []"
    using assms(6) by (simp add: cw_out_def)
  have "cw_step Growable_Flush Growable_Teardown ?limit (memory_out env ?limit) (?w0\<lparr>fw_buffer := None\<rparr>) ([] @ ?bs) []
      (Some (mpack_writer_init_growable env False w0) \<bind> c_write_values env vs)"
    using start
  proof (rule cw_step_seq)
    fix w' assume "cw Growable_Flush Growable_Teardown ?limit [] w'" "cw_out w' = cw_out (?w0\<lparr>fw_buffer := None\<rparr>) @ []"
    with base assms(3) show "cw_step Growable_Flush Growable_Teardown ?limit (memory_out env ?limit) w' ?bs []
        (c_write_values env vs w')"
      by (intro emits) simp_all
  qed (use assms(3) in \<open>simp add: dead_values\<close>)
  then have "cw_step Growable_Flush Growable_Teardown ?limit (memory_out env ?limit) (?w0\<lparr>fw_buffer := None\<rparr>) ?bs []
      (c_write_values env vs (mpack_writer_init_growable env False w0))"
    by simp
  then show ?thesis
  proof (cases rule: cw_stepE)
    case (ok w')
    then have out: "cw_out w' = ?bs"
      using base by simp
    from destroy_growable [OF assms(1) ok(2), unfolded out] obtain err w2
      where "mpack_writer_destroy env w' = Some (err, w2)"
        and "if err = MPACK_OK then \<exists>buf. fw_target w2 = (Some buf, ?limit) \<and> take ?limit buf = ?bs
          else fw_target w2 = (None, 0) \<and> memory_out env ?limit"
      by blast
    with ok(1) show ?thesis
      unfolding Let_def by blast
  next
    case (broken w')
    then have "dead w'" "memory_out env ?limit"
      by (simp_all add: cw_broken_def)
    with destroy_dead [OF this(1), of env] broken show ?thesis
      by (auto simp: Let_def dead_def)
  qed
qed

text \<open>The memory that suffices: an allocator that serves every request of up to 24 times the output and
  98304 bytes more cannot make a growable writer fail.\<close>

lemma enough_memory: "\<forall>n\<le>24 * (limit + 4096). env_malloc env n \<noteq> None \<Longrightarrow> \<not> memory_out env limit"
  by (auto simp: memory_out_def)

text \<open>An environment whose allocator serves requests of up to \<open>n\<close> bytes and whose file takes everything, and
  the storage of a writer before its initialisation.\<close>

definition roomy_env :: "nat \<Rightarrow> ffi_env" where
  "roomy_env n = \<lparr>env_malloc = (\<lambda>k. if k \<le> n then Some (replicate k 0) else None), env_force_fail = False,
     env_fwrite = (\<lambda>_ data. length data), env_fclose = 0, env_fopen = (\<lambda>_. True),
     env_flush = (\<lambda>_ _ w. w), env_teardown = (\<lambda>w. w)\<rparr>"

definition blank_storage :: "u8 list \<Rightarrow> ffi_writer" where
  "blank_storage file_bytes = \<lparr>fw_version = 0, fw_flush = None, fw_error_fn = False, fw_teardown = None,
     fw_buffer = None, fw_position = 0, fw_error = 0, fw_track = track_empty, fw_frames = None,
     fw_target = (None, 0), fw_file = file_bytes, fw_reports = []\<rparr>"

lemma roomy_alloc: "n \<le> isize_max \<Longrightarrow> allocator_ok (env_malloc (roomy_env n))"
  by (auto simp: roomy_env_def allocator_ok_def split: if_splits)

lemma roomy_memory: "24 * (limit + 4096) \<le> n \<Longrightarrow> \<not> memory_out (roomy_env n) limit"
  by (rule enough_memory) (simp add: roomy_env_def)

lemma blank_fields [simp]: "fw_frames (blank_storage bs) = None" "fw_file (blank_storage bs) = bs"
  "fw_target (blank_storage bs) = (None, 0)"
  by (simp_all add: blank_storage_def)

definition two_values :: "mvalue list" where
  "two_values = [MValue (Tag_Array 1) [] [MValue Tag_Nil [] []], MValue (Tag_Str 1) [65] []]"

lemma two_values: "concat (map enc_value two_values) = [0x91, 0xc0, 0xa1, 65]" "\<forall>v\<in>set two_values. wf_value v"
  by (simp_all add: two_values_def enc_array_def enc_str_def)

theorem growable_writer_encodes_witness:
  "\<exists>w w' buf. c_write_values (roomy_env 100000) two_values
        (mpack_writer_init_growable (roomy_env 100000) False (blank_storage [])) = Some w
    \<and> mpack_writer_destroy (roomy_env 100000) w = Some (MPACK_OK, w')
    \<and> fw_target w' = (Some buf, 4) \<and> take 4 buf = [0x91, 0xc0, 0xa1, 65]"
proof -
  have alloc: "allocator_ok (env_malloc (roomy_env 100000))"
    by (rule roomy_alloc) (simp add: isize_max_def)
  have off: "\<not> env_force_fail (roomy_env 100000)"
    by (simp add: roomy_env_def)
  have fits: "length (concat (map enc_value two_values)) \<le> max_output"
    by (simp add: two_values max_output_def)
  have four: "(4 :: nat) = Suc (Suc (Suc (Suc 0)))"
    by simp
  have "\<not> memory_out (roomy_env 100000) 4"
    by (rule roomy_memory) simp
  with growable_writer_encodes [OF alloc off two_values(2) fits, of "blank_storage []"] show ?thesis
    unfolding four by (auto simp: two_values(1) Let_def split: if_splits)
qed

subsection \<open>The file writer\<close>

lemma destroy_file:
  assumes w: "cw File_Flush (File_Teardown close_it) limit [] w"
  shows "\<exists>err w' k. mpack_writer_destroy env w = Some (err, w')
    \<and> (if err = MPACK_OK then fw_file w' = cw_out w
       else fw_file w' = take k (cw_out w) \<and> (file_fails env limit \<or> env_fclose env \<noteq> 0))"
proof -
  obtain buf where b: "fw_buffer w = Some buf" "fw_position w \<le> length buf"
      "cw_out w = fw_file w @ take (fw_position w) buf"
    using w by (rule cw_bufferE)
  have facts: "fw_error w = MPACK_OK" "fw_flush w = Some File_Flush" "fw_teardown w = Some (File_Teardown close_it)"
      "fw_frames w = None" "track_check_empty (fw_track w) = MPACK_OK"
    using w by (simp_all add: cw_def closed_tracker)
  let ?final = "\<lambda>w. let w = clear_builder_state w in Some (fw_error w, w)"
  let ?track = "snd (track_destroy False (fw_track w))"
  have "\<exists>u k. mpack_writer_destroy env w = Some (file_teardown env close_it u) \<bind> ?final
      \<and> (if fw_error u = MPACK_OK then fw_file u = cw_out w else fw_file u = take k (cw_out w) \<and> file_fails env limit)"
  proof (cases "fw_position w = 0")
    case True
    with facts b show ?thesis
      by (intro exI [of _ "w\<lparr>fw_track := ?track, fw_teardown := None\<rparr>"])
        (simp add: mpack_writer_destroy_def builder_is_open_def track_destroy_def Let_def call_teardown_def)
  next
    case False
    let ?data = "take (fw_position w) buf" and ?n = "env_fwrite env (fw_file w) (take (fw_position w) buf)"
    let ?u = "(file_flush env ?data (w\<lparr>fw_track := ?track, fw_flush := None\<rparr>))\<lparr>fw_teardown := None\<rparr>"
    have td: "fw_teardown (file_flush env ?data (w\<lparr>fw_track := ?track, fw_flush := None\<rparr>)) = Some (File_Teardown close_it)"
      using facts by (simp add: file_flush_def Let_def)
    have run: "mpack_writer_destroy env w = Some (file_teardown env close_it ?u) \<bind> ?final"
      using facts b False td
      by (simp add: mpack_writer_destroy_def builder_is_open_def track_destroy_def Let_def call_teardown_def
          call_flush_def slice_def)
    have "if fw_error ?u = MPACK_OK then fw_file ?u = cw_out w
        else fw_file ?u = take (length (fw_file w) + ?n) (cw_out w) \<and> file_fails env limit"
    proof (cases "?n = length ?data")
      case True
      with facts b show ?thesis
        by (simp add: file_flush_def Let_def take_all_taken del: length_take)
    next
      case False
      then have "file_fails env limit"
        unfolding file_fails_def by blast
      with False facts b show ?thesis
        by (simp add: file_flush_def Let_def del: length_take)
    qed
    with run show ?thesis by blast
  qed
  then obtain u k where run: "mpack_writer_destroy env w = Some (file_teardown env close_it u) \<bind> ?final"
    and u: "if fw_error u = MPACK_OK then fw_file u = cw_out w else fw_file u = take k (cw_out w) \<and> file_fails env limit"
    by blast
  have "\<exists>k. cw_out w = take k (cw_out w)"
    by (rule exI [of _ "length (cw_out w)"]) simp
  with run u show ?thesis
    by (auto simp: file_teardown_def Let_def clear_builder_state_def split: if_splits)
qed

lemma file_contents:
  assumes "allocator_ok (env_malloc env)" and "\<not> env_force_fail env" and "\<forall>v\<in>set vs. wf_value v"
    and "length (fw_file w0 @ concat (map enc_value vs)) \<le> max_output" and "fw_frames w0 = None"
    and "fw_target w0 = (None, 0)"
  shows "\<exists>w err w' k. c_write_values env vs (mpack_writer_init_stdfile env False close_it w0) = Some w
    \<and> mpack_writer_destroy env w = Some (err, w')
    \<and> (let bs = fw_file w0 @ concat (map enc_value vs)
       in if err = MPACK_OK then fw_file w' = bs
          else fw_file w' = take k bs \<and> (file_fails env (length bs) \<or> env_fclose env \<noteq> 0))"
proof -
  let ?bs = "concat (map enc_value vs)" and ?td = "File_Teardown close_it"
  let ?limit = "length (fw_file w0 @ ?bs)"
  have lim: "min ?limit max_output = ?limit"
    using assms(4) by simp
  note emits = file_sink.stream_emits [where env = env and limit = ?limit and close_it = close_it,
      unfolded lim sane [OF assms(1)]]
  have start: "cw_step File_Flush ?td ?limit (file_fails env ?limit) (w0\<lparr>fw_buffer := None\<rparr>) [] []
      (Some (mpack_writer_init_stdfile env False close_it w0))"
  proof (cases "env_malloc env OWNED_BUFFER_CAPACITY")
    case None
    then have "memory_out env ?limit"
      unfolding memory_out_def OWNED_BUFFER_CAPACITY_def by (intro exI [of _ 4096]) simp
    then have "file_fails env ?limit"
      by (simp add: file_fails_def)
    moreover have "\<exists>k. fw_file w0 = take k (fw_file w0)"
      by (rule exI [of _ "length (fw_file w0)"]) simp
    ultimately show ?thesis
      using None assms(5,6)
      by (intro cw_step_broken)
        (simp add: mpack_writer_init_stdfile_def init_file_writer_def cw_broken_def dead_def error_state_def cw_out_def)
  next
    case (Some block)
    with block_tracked [OF assms(1,2) Some assms(5,6), of ?td File_Flush ?limit "file_fails env ?limit"]
    show ?thesis
      by (simp add: mpack_writer_init_stdfile_def init_file_writer_def file_fails_def)
  qed
  have base: "cw_out (w0\<lparr>fw_buffer := None\<rparr>) = fw_file w0"
    by (simp add: cw_out_def)
  have "cw_step File_Flush ?td ?limit (file_fails env ?limit) (w0\<lparr>fw_buffer := None\<rparr>) ([] @ ?bs) []
      (Some (mpack_writer_init_stdfile env False close_it w0) \<bind> c_write_values env vs)"
    using start
  proof (rule cw_step_seq)
    fix w' assume "cw File_Flush ?td ?limit [] w'" "cw_out w' = cw_out (w0\<lparr>fw_buffer := None\<rparr>) @ []"
    with base assms(3) show "cw_step File_Flush ?td ?limit (file_fails env ?limit) w' ?bs [] (c_write_values env vs w')"
      by (intro emits) simp_all
  qed (use assms(3) in \<open>simp add: dead_values\<close>)
  then have "cw_step File_Flush ?td ?limit (file_fails env ?limit) (w0\<lparr>fw_buffer := None\<rparr>) ?bs []
      (c_write_values env vs (mpack_writer_init_stdfile env False close_it w0))"
    by simp
  then show ?thesis
  proof (cases rule: cw_stepE)
    case (ok w')
    then have out: "cw_out w' = fw_file w0 @ ?bs"
      using base by simp
    from destroy_file [OF ok(2), unfolded out, of env] ok(1) show ?thesis
      unfolding Let_def by blast
  next
    case (broken w')
    then have d: "dead w'" "file_fails env ?limit" "\<exists>k. fw_file w' = take k (fw_file w0 @ ?bs)"
      using base by (simp_all add: cw_broken_def)
    with destroy_dead [OF d(1), of env] broken(1) show ?thesis
      by (auto simp: Let_def dead_def)
  qed
qed

text \<open>C36. A C writer to a file: write any values through the C functions and destroy the writer. If that
  returns ok, the file has grown by exactly the canonical encodings of the values; otherwise an
  allocation, a write or the closing failed, and the file has grown by a prefix of them.\<close>

theorem file_writer_encodes:
  assumes "allocator_ok (env_malloc env)" and "\<not> env_force_fail env" and "\<forall>v\<in>set vs. wf_value v"
    and "length (fw_file w0 @ concat (map enc_value vs)) \<le> max_output" and "fw_frames w0 = None"
    and "fw_target w0 = (None, 0)"
  shows "\<exists>w err w' k. c_write_values env vs (mpack_writer_init_stdfile env False close_it w0) = Some w
    \<and> mpack_writer_destroy env w = Some (err, w')
    \<and> (let bs = fw_file w0 @ concat (map enc_value vs)
       in if err = MPACK_OK then fw_file w' = bs
          else fw_file w' = take k bs \<and> (file_fails env (length bs) \<or> env_fclose env \<noteq> 0))"
  by (rule file_contents [OF assms])

theorem file_writer_encodes_witness:
  "\<exists>w w'. c_write_values (roomy_env 100000) two_values
        (mpack_writer_init_stdfile (roomy_env 100000) False True (blank_storage [7])) = Some w
    \<and> mpack_writer_destroy (roomy_env 100000) w = Some (MPACK_OK, w')
    \<and> fw_file w' = [7, 0x91, 0xc0, 0xa1, 65]"
proof -
  have alloc: "allocator_ok (env_malloc (roomy_env 100000))"
    by (rule roomy_alloc) (simp add: isize_max_def)
  have off: "\<not> env_force_fail (roomy_env 100000)"
    by (simp add: roomy_env_def)
  have fits: "length (fw_file (blank_storage [7]) @ concat (map enc_value two_values)) \<le> max_output"
    by (simp add: two_values max_output_def)
  have "\<not> memory_out (roomy_env 100000) (Suc (Suc (Suc (Suc (Suc 0)))))"
    by (rule roomy_memory) simp
  then have "\<not> file_fails (roomy_env 100000) (Suc (Suc (Suc (Suc (Suc 0)))))" "env_fclose (roomy_env 100000) = 0"
    by (simp_all add: file_fails_def) (simp_all add: roomy_env_def)
  with file_writer_encodes [OF alloc off two_values(2) fits, of True] show ?thesis
    by (auto simp: two_values(1) Let_def split: if_splits)
qed

subsection \<open>A buffer smaller than a header\<close>

text \<open>C38. The header loop has no bound on its rounds: if a C program installs a flush callback that takes the
  data, on a writer whose buffer is smaller than the header to be written (\<open>mpack_writer_set_flush\<close> accepts
  any buffer), then flushing succeeds and leaves the writer as it was, and the call never returns.\<close>

theorem header_loop_never_returns:
  assumes "fw_error w = MPACK_OK" and "fw_flush w = Some User_Flush" and "fw_buffer w = Some buf"
    and "fw_position w = 0" and "emits_header f hs" and "length buf < length hs" and "length buf < 2 ^ 63"
    and "\<And>own data u. env_flush env own data u = u"
  shows "flush_buffer env w = Some (True, w) \<and> write_core_loop env f w = None"
proof -
  have same: "w\<lparr>fw_position := 0\<rparr> = w"
    using assms(4) by simp
  have known: "writer_remaining w = Some (length buf)"
    using assms by (simp add: writer_remaining_def)
  then have fl: "flush_buffer env w = Some (True, w)"
    using assms by (simp add: flush_buffer_def call_flush_def slice_def same)
  have same_buf: "w\<lparr>fw_buffer := Some buf, fw_position := 0\<rparr> = w"
    using assms(3,4) by simp
  have never: "\<not> (env' = env \<and> f' = f \<and> w' = w)" if "write_core_loop env' f' w' = Some y" for env' f' w' y
  proof (rule write_core_loop.raw_induct [where P = "\<lambda>env' f' w' y. \<not> (env' = env \<and> f' = f \<and> w' = w)", OF _ that], rule notI)
    fix loop :: "ffi_env \<Rightarrow> (writer \<Rightarrow> writer option) \<Rightarrow> ffi_writer \<Rightarrow> ffi_writer option" and env' f' w' y
    assume IH: "\<And>env' f' w' y. loop env' f' w' = Some y \<Longrightarrow> \<not> (env' = env \<and> f' = f \<and> w' = w)"
      and eq: "env' = env \<and> f' = f \<and> w' = w"
    assume "(if fw_error w' \<noteq> MPACK_OK then Some w'
      else case writer_remaining w' of None \<Rightarrow> Some (ffi_flag_error MPACK_ERROR_BUG w')
      | Some _ \<Rightarrow> fw_buffer w' \<bind> (\<lambda>buffer. f' (writer_new (drop (fw_position w') buffer)) \<bind> (\<lambda>core.
          let w = w'\<lparr>fw_buffer := Some (take (fw_position w') buffer @ w_buffer core),
                    fw_position := fw_position w' + w_position core\<rparr>;
              err = core_error_to_abi (w_error core)
          in if err = MPACK_OK then Some w
             else if err \<noteq> MPACK_ERROR_TOO_BIG \<or> w_position core \<noteq> 0 \<or> fw_flush w = None
             then Some (ffi_flag_error err w)
             else flush_buffer env' w \<bind> (\<lambda>(ok, w).
               if \<not> ok then Some (ffi_flag_error err w) else loop env' f' w)))) = Some y"
    then have "loop env f w = Some y"
      using assms(1-6) known fl same_buf eq
      by (simp add: emits_header_new writer_new_simps Let_def cong: if_cong)
    with IH show False by blast
  qed
  have "write_core_loop env f w = None"
    using never [of env f w] by (cases "write_core_loop env f w") auto
  with fl show ?thesis ..
qed

theorem header_loop_never_returns_witness:
  "write_core_loop (roomy_env 0) (write_u64 200)
     ((blank_storage [])\<lparr>fw_flush := Some User_Flush, fw_buffer := Some [0]\<rparr>) = None"
proof -
  let ?w = "(blank_storage [])\<lparr>fw_flush := Some User_Flush, fw_buffer := Some [0]\<rparr>"
  have w: "fw_error ?w = MPACK_OK" "fw_flush ?w = Some User_Flush" "fw_buffer ?w = Some [0]" "fw_position ?w = 0"
    by (simp_all add: blank_storage_def MPACK_OK_def)
  have u64: "emits_header (write_u64 200) (enc_uint 200)"
    by simp
  have small: "length [0 :: u8] < length (enc_uint 200)" "length [0 :: u8] < 2 ^ 63"
    by (simp_all add: enc_uint_def)
  have id: "env_flush (roomy_env 0) own data u = u" for own data u
    by (simp add: roomy_env_def)
  show ?thesis
    using header_loop_never_returns [OF w u64 small id] by (rule conjunct2)
qed

end
