(* ===== verification/Ffi_Reader.thy ===== *)
theory Ffi_Reader
  imports Ffi_Common Ffi_Track Reader_Ops
begin

section \<open>The C reader (\<open>src/ffi/reader.rs\<close>)\<close>

text \<open>
  The reader of the C interface, in the configuration \<open>full-suite-abi\<close>. It reads from \<open>data..end\<close>, which
  lies in its buffer or in data of the C program, and gets more input through a fill callback: the
  one of a file reader calls \<open>fread\<close>, and a C program may install its own.

  \<^item> \<open>fr_window\<close> is the memory \<open>data\<close> and \<open>end\<close> point into (\<open>None\<close> for null pointers), \<open>fr_data\<close> and \<open>fr_end\<close> are
    offsets in it. \<open>fr_has_buffer\<close>: the pointer \<open>buffer\<close> is not null, and then that memory is the buffer.
  \<^item> Code outside the crate is the record \<open>reader_env\<close>: the allocator, the file functions, and the
    callbacks of the C program. \<open>c_stream\<close> is a file: what is left to read, and the end-of-file indicator;
    \<open>fr_context\<close> is the file behind the pointer \<open>context\<close>. A fill callback returns the bytes it has stored
    at the destination, \<open>None\<close> for the return value \<open>usize::MAX\<close>. The error handler of the C program is told
    each first error; \<open>fr_reports\<close> is what it was told.
  \<^item> A destination in the memory of the C program is the list of its bytes, \<open>None\<close> for a null pointer; the
    operation returns the list as it is afterwards.
  \<^item> \<open>None\<close> as the value of an operation is undefined behaviour, a panic, or a loop that never ends. The
    pointer to the reader itself is not null.
\<close>

subsection \<open>State\<close>

record c_stream =
  cs_rest :: "u8 list"
  cs_eof :: bool

datatype fill_fn = File_Reader_Fill | User_Fill
datatype skip_fn = File_Reader_Skip | User_Skip
datatype reader_teardown_fn = File_Reader_Teardown | File_Reader_Teardown_Close | User_Reader_Teardown

record ffi_reader =
  fr_context :: "c_stream option"
  fr_fill :: "fill_fn option"
  fr_error_fn :: bool
  fr_teardown :: "reader_teardown_fn option"
  fr_skip :: "skip_fn option"
  fr_window :: "u8 list option"
  fr_has_buffer :: bool
  fr_size :: nat
  fr_data :: nat
  fr_end :: nat
  fr_error :: c_int
  fr_track :: ffi_track
  fr_reports :: "c_int list"

record reader_env =
  re_malloc :: allocator
  re_force_fail :: bool
  re_fopen :: "string \<Rightarrow> c_stream option"
  re_fclose :: c_int
  re_fread :: "nat \<Rightarrow> c_stream \<Rightarrow> u8 list \<times> c_stream"
  re_ftell :: "c_stream \<Rightarrow> int"
  re_fseek :: "int \<Rightarrow> c_stream \<Rightarrow> c_int \<times> c_stream"
  re_ferror :: "c_stream \<Rightarrow> bool"
  re_fill :: "nat \<Rightarrow> ffi_reader \<Rightarrow> u8 list option \<times> ffi_reader"
  re_skip :: "nat \<Rightarrow> ffi_reader \<Rightarrow> ffi_reader"
  re_teardown :: "ffi_reader \<Rightarrow> ffi_reader"

definition READER_MINIMUM_BUFFER_SIZE :: nat where "READER_MINIMUM_BUFFER_SIZE = 32"
definition MAXIMUM_TAG_SIZE :: nat where "MAXIMUM_TAG_SIZE = 9"

definition empty_reader :: ffi_reader where
  "empty_reader =
     \<lparr>fr_context = None, fr_fill = None, fr_error_fn = False, fr_teardown = None, fr_skip = None,
      fr_window = None, fr_has_buffer = False, fr_size = 0, fr_data = 0, fr_end = 0,
      fr_error = MPACK_OK, fr_track = track_empty, fr_reports = []\<rparr>"

definition tag_length :: "mpack_tag \<Rightarrow> u32" where
  "tag_length tag = ucast (mt_value tag AND 0xffffffff)"

subsection \<open>The cursor and the sticky error\<close>

definition remaining_of :: "ffi_reader \<Rightarrow> nat option" where
  "remaining_of r =
     (if fr_window r = None then Some 0
      else if fr_end r < fr_data r then None
      else Some (fr_end r - fr_data r))"

definition data_slice :: "ffi_reader \<Rightarrow> u8 list option option" where
  "data_slice r =
     (case remaining_of r of
        None \<Rightarrow> Some None
      | Some left \<Rightarrow>
          if left = 0 then Some (Some [])
          else do {
            w \<leftarrow> fr_window r;
            bytes \<leftarrow> slice w (fr_data r) (fr_data r + left);
            Some (Some bytes)
          })"

definition advance_cursor :: "nat \<Rightarrow> ffi_reader \<Rightarrow> ffi_reader" where
  "advance_cursor count r = r\<lparr>fr_data := fr_data r + count\<rparr>"

definition flag_error_on :: "c_int \<Rightarrow> ffi_reader \<Rightarrow> ffi_reader" where
  "flag_error_on err r =
     (if err = MPACK_OK \<or> fr_error r \<noteq> MPACK_OK then r
      else
        (let r = r\<lparr>fr_error := err, fr_end := fr_data r\<rparr>
         in if fr_error_fn r then r\<lparr>fr_reports := fr_reports r @ [err]\<rparr> else r))"

definition flag_error_impl :: "c_int \<Rightarrow> ffi_reader \<Rightarrow> ffi_reader" where
  "flag_error_impl err r = (if err = MPACK_OK then r else flag_error_on err r)"

definition flag_bug :: "ffi_reader \<Rightarrow> ffi_reader" where
  "flag_bug r = r\<lparr>fr_error := MPACK_ERROR_BUG, fr_end := fr_data r\<rparr>"

text \<open>A call to the tracker whose error is flagged; whether it accepted.\<close>

definition track_call ::
  "(ffi_track \<Rightarrow> (c_int \<times> ffi_track) option) \<Rightarrow> ffi_reader \<Rightarrow> (bool \<times> ffi_reader) option"
where
  "track_call f r = do {
     (err, track) \<leftarrow> f (fr_track r);
     (let r = r\<lparr>fr_track := track\<rparr>
      in if err \<noteq> MPACK_OK then Some (False, flag_error_on err r) else Some (True, r))
   }"

text \<open>Accesses to the buffer and to a destination of the C program; writing no bytes is always allowed.\<close>

definition store_buffer :: "nat \<Rightarrow> u8 list \<Rightarrow> ffi_reader \<Rightarrow> ffi_reader option" where
  "store_buffer offset bytes r =
     (if bytes = [] then Some r
      else if \<not> fr_has_buffer r then None
      else do {
        w \<leftarrow> fr_window r;
        w \<leftarrow> store_at w offset bytes;
        Some (r\<lparr>fr_window := Some w\<rparr>)
      })"

definition load_buffer :: "nat \<Rightarrow> nat \<Rightarrow> ffi_reader \<Rightarrow> u8 list option" where
  "load_buffer offset count r =
     (if count = 0 then Some [] else do { w \<leftarrow> fr_window r; slice w offset (offset + count) })"

definition poke :: "u8 list option \<Rightarrow> nat \<Rightarrow> u8 list \<Rightarrow> u8 list option option" where
  "poke p offset bytes =
     (if bytes = [] then Some p
      else do {
        m \<leftarrow> p;
        m \<leftarrow> store_at m offset bytes;
        Some (Some m)
      })"

definition peek_bytes :: "u8 list option \<Rightarrow> nat \<Rightarrow> u8 list option" where
  "peek_bytes p count = do { m \<leftarrow> p; slice m 0 count }"

subsection \<open>Filling\<close>

definition file_reader_fill ::
  "reader_env \<Rightarrow> nat \<Rightarrow> ffi_reader \<Rightarrow> (u8 list option \<times> ffi_reader) option"
where
  "file_reader_fill env count r = do {
     stream \<leftarrow> fr_context r;
     (if cs_eof stream then Some (Some [], flag_error_impl MPACK_ERROR_EOF r)
      else case re_fread env count stream of
        (bytes, stream) \<Rightarrow> Some (Some bytes, r\<lparr>fr_context := Some stream\<rparr>))
   }"

definition call_fill ::
  "reader_env \<Rightarrow> fill_fn \<Rightarrow> nat \<Rightarrow> ffi_reader \<Rightarrow> (u8 list option \<times> ffi_reader) option"
where
  "call_fill env fill count r =
     (case fill of
        File_Reader_Fill \<Rightarrow> file_reader_fill env count r
      | User_Fill \<Rightarrow> Some (re_fill env count r))"

text \<open>The loop of \<open>fill_range\<close>; \<open>got\<close> is what is at the destination so far, \<open>count\<close> its length. The result is
  the return value, what was stored at the destination, and the reader.\<close>

function fill_loop ::
  "reader_env \<Rightarrow> fill_fn \<Rightarrow> nat \<Rightarrow> nat \<Rightarrow> u8 list \<Rightarrow> ffi_reader \<Rightarrow> (nat \<times> u8 list \<times> ffi_reader) option"
where
  "fill_loop env fill min_bytes max_bytes got r =
     (if length got < min_bytes then
        (case call_fill env fill (max_bytes - length got) r of
           None \<Rightarrow> None
         | Some (read, r) \<Rightarrow>
             if fr_error r \<noteq> MPACK_OK
             then Some (0, got @ (case read of None \<Rightarrow> [] | Some bytes \<Rightarrow> bytes), r)
             else case read of
                 None \<Rightarrow> Some (0, got, flag_error_on MPACK_ERROR_IO r)
               | Some bytes \<Rightarrow>
                   if bytes = [] then Some (0, got, flag_error_on MPACK_ERROR_IO r)
                   else fill_loop env fill min_bytes max_bytes (got @ bytes) r)
      else Some (length got, got, r))"
  by pat_completeness auto
termination
  by (relation "measure (\<lambda>(env, fill, min_bytes, max_bytes, got, r). min_bytes - length got)")
    (auto intro!: diff_less_mono2)

declare fill_loop.simps [simp del]

definition fill_range ::
  "reader_env \<Rightarrow> nat \<Rightarrow> nat \<Rightarrow> ffi_reader \<Rightarrow> (nat \<times> u8 list \<times> ffi_reader) option"
where
  "fill_range env min_bytes max_bytes r =
     (case fr_fill r of
        None \<Rightarrow> Some (0, [], flag_error_on MPACK_ERROR_BUG r)
      | Some fill \<Rightarrow>
          if min_bytes = 0 \<or> max_bytes < min_bytes
          then Some (0, [], flag_error_on MPACK_ERROR_BUG r)
          else fill_loop env fill min_bytes max_bytes [] r)"

text \<open>\<open>fill_range\<close> into the buffer.\<close>

definition fill_buffer ::
  "reader_env \<Rightarrow> nat \<Rightarrow> nat \<Rightarrow> nat \<Rightarrow> ffi_reader \<Rightarrow> (nat \<times> ffi_reader) option"
where
  "fill_buffer env offset min_bytes max_bytes r = do {
     (read, bytes, r) \<leftarrow> fill_range env min_bytes max_bytes r;
     r \<leftarrow> store_buffer offset bytes r;
     Some (read, r)
   }"

definition ensure_straddle_impl :: "reader_env \<Rightarrow> nat \<Rightarrow> ffi_reader \<Rightarrow> (bool \<times> ffi_reader) option" where
  "ensure_straddle_impl env count r =
     (if fr_error r \<noteq> MPACK_OK \<or> count = 0 then Some (False, r)
      else case remaining_of r of
        None \<Rightarrow> Some (False, flag_error_on MPACK_ERROR_BUG r)
      | Some left \<Rightarrow>
          if count \<le> left then Some (True, r)
          else if fr_fill r = None then Some (False, flag_error_on MPACK_ERROR_INVALID r)
          else if count > fr_size r then Some (False, flag_error_on MPACK_ERROR_TOO_BIG r)
          else if \<not> fr_has_buffer r then Some (False, flag_error_on MPACK_ERROR_BUG r)
          else do {
            bytes \<leftarrow> load_buffer (fr_data r) left r;
            r \<leftarrow> store_buffer 0 bytes r;
            (let r = r\<lparr>fr_data := 0, fr_end := left\<rparr>
             in do {
               (read, r) \<leftarrow> fill_buffer env left (count - left) (fr_size r - left) r;
               (if fr_error r \<noteq> MPACK_OK then Some (False, r)
                else Some (True, r\<lparr>fr_end := fr_end r + read\<rparr>))
             })
          })"

definition ensure_impl :: "reader_env \<Rightarrow> nat \<Rightarrow> ffi_reader \<Rightarrow> (bool \<times> ffi_reader) option" where
  "ensure_impl env count r =
     (if fr_error r \<noteq> MPACK_OK then Some (False, r)
      else case remaining_of r of
        None \<Rightarrow> Some (False, flag_error_on MPACK_ERROR_BUG r)
      | Some left \<Rightarrow> if count \<le> left then Some (True, r) else ensure_straddle_impl env count r)"

definition header_size_for_marker :: "u8 \<Rightarrow> nat" where
  "header_size_for_marker marker =
     (let m = unat marker;
          base = (if m \<le> 0xbf \<or> (0xc0 \<le> m \<and> m \<le> 0xc3) \<or> (0xd4 \<le> m \<and> m \<le> 0xd8) \<or> 0xe0 \<le> m then 1
            else if m \<in> {0xc4, 0xc7, 0xcc, 0xd0, 0xd9} then 2
            else if m \<in> {0xc5, 0xc8, 0xcd, 0xd1, 0xda, 0xdc, 0xde} then 3
            else if m \<in> {0xc6, 0xc9, 0xce, 0xd2, 0xdb, 0xdd, 0xdf} then 5
            else if m = 0xca then 5
            else 9)
      in base + (if (0xc7 \<le> m \<and> m \<le> 0xc9) \<or> (0xd4 \<le> m \<and> m \<le> 0xd8) then 1 else 0))"

definition ensure_tag_header :: "reader_env \<Rightarrow> ffi_reader \<Rightarrow> (bool \<times> ffi_reader) option" where
  "ensure_tag_header env r = do {
     (ok, r) \<leftarrow> ensure_impl env 1 r;
     (if \<not> ok then Some (False, r)
      else do {
        w \<leftarrow> fr_window r;
        marker \<leftarrow> index w (fr_data r);
        ensure_impl env (min (header_size_for_marker marker) (MAXIMUM_TAG_SIZE + 1)) r
      })
   }"

subsection \<open>Reading through the safe core\<close>

text \<open>The core reader runs on \<open>data..end\<close>; \<open>fallback\<close> is the result on an error.\<close>

definition read_with_core ::
  "(reader \<Rightarrow> ('a \<times> reader) option) \<Rightarrow> 'a \<Rightarrow> ffi_reader \<Rightarrow> ('a \<times> ffi_reader) option"
where
  "read_with_core op fallback r =
     (if fr_error r \<noteq> MPACK_OK then Some (fallback, r)
      else case remaining_of r of
        None \<Rightarrow> Some (fallback, flag_error_on MPACK_ERROR_BUG r)
      | Some left \<Rightarrow> do {
          input \<leftarrow> load_buffer (fr_data r) left r;
          (result, core) \<leftarrow> op (reader_new input);
          (let used = r_position core;
               err = core_error_to_abi (r_error core)
           in if used > left then Some (fallback, flag_error_on MPACK_ERROR_BUG r)
              else
                (let r = advance_cursor used r
                 in if err \<noteq> MPACK_OK then Some (fallback, flag_error_on err r) else Some (result, r)))
        })"

text \<open>The closure \<open>read_tag_impl\<close> passes to the core.\<close>

definition core_read_tag :: "reader \<Rightarrow> (mpack_tag \<times> reader) option" where
  "core_read_tag core = do {
     (t, core) \<leftarrow> read_tag core;
     Some (case t of None \<Rightarrow> mpack_tag_nil | Some t \<Rightarrow> tag_to_abi t, core)
   }"

definition read_tag_impl :: "reader_env \<Rightarrow> ffi_reader \<Rightarrow> (mpack_tag \<times> ffi_reader) option" where
  "read_tag_impl env r =
     (if fr_error r \<noteq> MPACK_OK then Some (mpack_tag_nil, r)
      else do {
        (ok, r) \<leftarrow> track_call Ffi_Track.track_element r;
        (if \<not> ok then Some (mpack_tag_nil, r)
         else do {
           (ok, r) \<leftarrow> ensure_tag_header env r;
           (if \<not> ok then Some (mpack_tag_nil, r)
            else do {
              (tag, r) \<leftarrow> read_with_core core_read_tag mpack_tag_nil r;
              (if fr_error r \<noteq> MPACK_OK then Some (tag, r)
               else do {
                 (ok, r) \<leftarrow> track_call (track_push_for_tag (re_malloc env) (mt_type tag) (tag_length tag)) r;
                 Some (if ok then tag else mpack_tag_nil, r)
               })
            })
         })
      })"

definition peek_tag_impl :: "reader_env \<Rightarrow> ffi_reader \<Rightarrow> (mpack_tag \<times> ffi_reader) option" where
  "peek_tag_impl env r =
     (if fr_error r \<noteq> MPACK_OK then Some (mpack_tag_nil, r)
      else do {
        track_error \<leftarrow> track_peek_element (fr_track r);
        (if track_error \<noteq> MPACK_OK then Some (mpack_tag_nil, flag_error_on track_error r)
         else do {
           (ok, r) \<leftarrow> ensure_tag_header env r;
           (if \<not> ok then Some (mpack_tag_nil, r)
            else do {
              input \<leftarrow> data_slice r;
              (case input of
                 None \<Rightarrow> Some (mpack_tag_nil, flag_error_on MPACK_ERROR_BUG r)
               | Some input \<Rightarrow> do {
                   (t, core) \<leftarrow> peek_tag (reader_new input);
                   (let err = core_error_to_abi (r_error core)
                    in if err \<noteq> MPACK_OK then Some (mpack_tag_nil, flag_error_on err r)
                       else Some (case t of None \<Rightarrow> mpack_tag_nil | Some t \<Rightarrow> tag_to_abi t, r))
                 })
            })
         })
      })"

definition done_type_impl :: "c_int \<Rightarrow> ffi_reader \<Rightarrow> ffi_reader option" where
  "done_type_impl ty r =
     (if fr_error r \<noteq> MPACK_OK then Some r
      else do {
        (ok, r) \<leftarrow> track_call (track_pop ty) r;
        Some r
      })"

end
