(* ===== verification/Ffi_Reader_Api.thy ===== *)
theory Ffi_Reader_Api
  imports Ffi_Reader
begin

section \<open>Payload bytes, skipping, and the exported functions of the C reader (\<open>src/ffi/reader.rs\<close>)\<close>

subsection \<open>Skipping\<close>

text \<open>The loop that fills the whole buffer again and again, and what follows it. The buffer is not empty here;
  the code returns before the loop when it is.\<close>

function skip_fill_loop :: "reader_env \<Rightarrow> nat \<Rightarrow> nat \<Rightarrow> ffi_reader \<Rightarrow> ffi_reader option" where
  "skip_fill_loop env buffer_size count r =
     (if buffer_size > 0 \<and> count > buffer_size then
        (case fill_buffer env 0 buffer_size buffer_size r of
           None \<Rightarrow> None
         | Some (read, r) \<Rightarrow>
             if read < buffer_size then Some r
             else skip_fill_loop env buffer_size (count - buffer_size) r)
      else
        (case fill_buffer env 0 count buffer_size (r\<lparr>fr_data := 0\<rparr>) of
           None \<Rightarrow> None
         | Some (read, r) \<Rightarrow>
             if fr_error r \<noteq> MPACK_OK then Some r
             else if read < count then Some (flag_error_on MPACK_ERROR_IO r)
             else Some (r\<lparr>fr_end := read, fr_data := count\<rparr>)))"
  by pat_completeness auto
termination
  by (relation "measure (\<lambda>(env, buffer_size, count, r). count)") auto

declare skip_fill_loop.simps [simp del]

definition skip_using_fill :: "reader_env \<Rightarrow> nat \<Rightarrow> ffi_reader \<Rightarrow> ffi_reader option" where
  "skip_using_fill env count r =
     (if fr_fill r = None then Some (flag_error_on MPACK_ERROR_INVALID r)
      else if fr_size r = 0 then Some (flag_error_on MPACK_ERROR_IO r)
      else skip_fill_loop env (fr_size r) count r)"

text \<open>\<open>count as c_long\<close> is the signed reading of the 64 bits.\<close>

definition file_reader_skip :: "reader_env \<Rightarrow> nat \<Rightarrow> ffi_reader \<Rightarrow> ffi_reader option" where
  "file_reader_skip env count r =
     (if fr_error r \<noteq> MPACK_OK then Some r
      else do {
        stream \<leftarrow> fr_context r;
        (if re_ftell env stream \<ge> 0 then
           (case re_fseek env (sint (word_of_nat count :: i64)) stream of
              (result, stream) \<Rightarrow>
                (let r = r\<lparr>fr_context := Some stream\<rparr>
                 in if result = 0 then Some r
                    else if re_ferror env stream then Some (flag_error_impl MPACK_ERROR_IO r)
                    else skip_using_fill env count r))
         else skip_using_fill env count r)
      })"

definition call_skip :: "reader_env \<Rightarrow> skip_fn \<Rightarrow> nat \<Rightarrow> ffi_reader \<Rightarrow> ffi_reader option" where
  "call_skip env skip count r =
     (case skip of File_Reader_Skip \<Rightarrow> file_reader_skip env count r | User_Skip \<Rightarrow> Some (re_skip env count r))"

definition skip_bytes_straddle :: "reader_env \<Rightarrow> nat \<Rightarrow> ffi_reader \<Rightarrow> ffi_reader option" where
  "skip_bytes_straddle env count r =
     (if fr_fill r = None then Some (flag_error_on MPACK_ERROR_INVALID r)
      else
        (let left = (case remaining_of r of None \<Rightarrow> 0 | Some left \<Rightarrow> left)
         in if left > count then Some (flag_error_on MPACK_ERROR_BUG r)
            else
              (let remaining = count - left;
                   r = r\<lparr>fr_data := fr_end r\<rparr>
               in case fr_skip r of
                    None \<Rightarrow> skip_using_fill env remaining r
                  | Some skip \<Rightarrow>
                      if fr_size r > 0 \<and> remaining > fr_size r div 16 then call_skip env skip remaining r
                      else skip_using_fill env remaining r)))"

definition skip_bytes_impl :: "reader_env \<Rightarrow> nat \<Rightarrow> ffi_reader \<Rightarrow> ffi_reader option" where
  "skip_bytes_impl env count r =
     (if fr_error r \<noteq> MPACK_OK then Some r
      else case remaining_of r of
        None \<Rightarrow> Some (flag_error_on MPACK_ERROR_BUG r)
      | Some left \<Rightarrow>
          if left \<ge> count then Some (advance_cursor count r) else skip_bytes_straddle env count r)"

subsection \<open>Copying payload bytes\<close>

definition zero_fill :: "u8 list option \<Rightarrow> nat \<Rightarrow> u8 list option option" where
  "zero_fill p count = poke p 0 (replicate count 0)"

definition zero_and_flag ::
  "u8 list option \<Rightarrow> nat \<Rightarrow> c_int \<Rightarrow> ffi_reader \<Rightarrow> (u8 list option \<times> ffi_reader) option"
where
  "zero_and_flag p count err r = do {
     p \<leftarrow> zero_fill p count;
     Some (p, flag_error_on err r)
   }"

definition read_native_straddle_impl ::
  "reader_env \<Rightarrow> u8 list option \<Rightarrow> nat \<Rightarrow> ffi_reader \<Rightarrow> (u8 list option \<times> ffi_reader) option"
where
  "read_native_straddle_impl env p count r =
     (if count = 0 then Some (p, r)
      else if p = None then Some (p, flag_error_impl MPACK_ERROR_BUG r)
      else if fr_error r \<noteq> MPACK_OK then do { p \<leftarrow> zero_fill p count; Some (p, r) }
      else case remaining_of r of
        None \<Rightarrow> zero_and_flag p count MPACK_ERROR_BUG r
      | Some left \<Rightarrow>
          if count \<le> left then zero_and_flag p count MPACK_ERROR_BUG r
          else if fr_fill r = None then zero_and_flag p count MPACK_ERROR_INVALID r
          else if fr_size r = 0 then zero_and_flag p count MPACK_ERROR_IO r
          else do {
            bytes \<leftarrow> load_buffer (fr_data r) left r;
            p \<leftarrow> poke p 0 bytes;
            (let needed = count - left;
                 r = advance_cursor left r
             in if needed \<le> fr_size r div 32 then do {
                  (read, r) \<leftarrow> fill_buffer env 0 needed (fr_size r) r;
                  (if fr_error r \<noteq> MPACK_OK then Some (p, r)
                   else do {
                     bytes \<leftarrow> load_buffer 0 needed r;
                     p \<leftarrow> poke p left bytes;
                     Some (p, r\<lparr>fr_data := needed, fr_end := read\<rparr>)
                   })
                } else do {
                  (read, bytes, r) \<leftarrow> fill_range env needed needed r;
                  (if length bytes \<le> needed then do { p \<leftarrow> poke p left bytes; Some (p, r) } else None)
                })
          })"

definition read_native ::
  "reader_env \<Rightarrow> u8 list option \<Rightarrow> nat \<Rightarrow> ffi_reader \<Rightarrow> (u8 list option \<times> ffi_reader) option"
where
  "read_native env p count r =
     (if count = 0 then Some (p, r)
      else if fr_error r \<noteq> MPACK_OK then do { p \<leftarrow> zero_fill p count; Some (p, r) }
      else case remaining_of r of
        None \<Rightarrow> zero_and_flag p count MPACK_ERROR_BUG r
      | Some left \<Rightarrow>
          if count \<le> left then do {
            bytes \<leftarrow> load_buffer (fr_data r) count r;
            p \<leftarrow> poke p 0 bytes;
            Some (p, advance_cursor count r)
          } else read_native_straddle_impl env p count r)"

text \<open>A pointer into the window is the \<open>count\<close> bytes behind it, \<open>None\<close> for null.\<close>

definition pointer_at :: "nat \<Rightarrow> ffi_reader \<Rightarrow> u8 list option option" where
  "pointer_at count r =
     (case fr_window r of
        None \<Rightarrow> Some None
      | Some w \<Rightarrow> do { bytes \<leftarrow> slice w (fr_data r) (fr_data r + count); Some (Some bytes) })"

definition read_bytes_inplace_notrack ::
  "reader_env \<Rightarrow> nat \<Rightarrow> ffi_reader \<Rightarrow> (u8 list option \<times> ffi_reader) option"
where
  "read_bytes_inplace_notrack env count r =
     (if fr_error r \<noteq> MPACK_OK then Some (None, r)
      else case remaining_of r of
        None \<Rightarrow> Some (None, flag_error_on MPACK_ERROR_BUG r)
      | Some left \<Rightarrow>
          if left \<ge> count then do {
            bytes \<leftarrow> pointer_at count r;
            Some (bytes, advance_cursor count r)
          } else do {
            (ok, r) \<leftarrow> ensure_impl env count r;
            (if \<not> ok then Some (None, r)
             else do {
               bytes \<leftarrow> pointer_at count r;
               Some (bytes, advance_cursor count r)
             })
          })"

subsection \<open>Initialisation\<close>

definition reader_error_state :: "c_int \<Rightarrow> ffi_reader" where
  "reader_error_state err = empty_reader\<lparr>fr_error := err\<rparr>"

definition reader_initialize_as_bug :: ffi_reader where
  "reader_initialize_as_bug = empty_reader\<lparr>fr_error := MPACK_ERROR_BUG\<rparr>"

definition reader_track_init :: "reader_env \<Rightarrow> ffi_reader \<Rightarrow> ffi_reader" where
  "reader_track_init env r =
     (case track_init (re_force_fail env) (re_malloc env) (fr_track r) of
        (err, track) \<Rightarrow>
          let r = r\<lparr>fr_track := track\<rparr> in if err \<noteq> MPACK_OK then r\<lparr>fr_error := err\<rparr> else r)"

definition mpack_reader_init :: "reader_env \<Rightarrow> u8 list option \<Rightarrow> nat \<Rightarrow> nat \<Rightarrow> ffi_reader" where
  "mpack_reader_init env buffer sz count =
     (if buffer = None then reader_error_state MPACK_ERROR_BUG
      else reader_track_init env
        (empty_reader\<lparr>fr_window := buffer, fr_has_buffer := True, fr_size := sz, fr_data := 0, fr_end := count\<rparr>))"

definition mpack_reader_init_error :: "c_int \<Rightarrow> ffi_reader" where
  "mpack_reader_init_error err = reader_error_state err"

definition mpack_reader_init_data :: "reader_env \<Rightarrow> u8 list option \<Rightarrow> nat \<Rightarrow> ffi_reader" where
  "mpack_reader_init_data env data count =
     reader_track_init env
       (empty_reader\<lparr>fr_window := data, fr_data := 0, fr_end := (if data = None then 0 else count)\<rparr>)"

definition init_stdfile_impl :: "reader_env \<Rightarrow> c_stream \<Rightarrow> bool \<Rightarrow> ffi_reader" where
  "init_stdfile_impl env stream close_when_done =
     (case re_malloc env OWNED_BUFFER_CAPACITY of
        None \<Rightarrow> reader_error_state MPACK_ERROR_MEMORY
      | Some buffer \<Rightarrow>
          reader_track_init env
            (empty_reader\<lparr>fr_window := Some buffer, fr_has_buffer := True, fr_size := OWNED_BUFFER_CAPACITY,
               fr_data := 0, fr_end := 0, fr_context := Some stream, fr_fill := Some File_Reader_Fill,
               fr_skip := Some File_Reader_Skip,
               fr_teardown := Some (if close_when_done then File_Reader_Teardown_Close
                                    else File_Reader_Teardown)\<rparr>))"

definition mpack_reader_init_filename :: "reader_env \<Rightarrow> string option \<Rightarrow> ffi_reader" where
  "mpack_reader_init_filename env filename =
     (case filename of
        None \<Rightarrow> reader_error_state MPACK_ERROR_BUG
      | Some filename \<Rightarrow>
          (case re_fopen env filename of
             None \<Rightarrow> reader_error_state MPACK_ERROR_IO
           | Some stream \<Rightarrow> init_stdfile_impl env stream True))"

definition mpack_reader_init_stdfile :: "reader_env \<Rightarrow> c_stream option \<Rightarrow> bool \<Rightarrow> ffi_reader" where
  "mpack_reader_init_stdfile env stdfile close_when_done =
     (case stdfile of
        None \<Rightarrow> reader_error_state MPACK_ERROR_BUG
      | Some stream \<Rightarrow> init_stdfile_impl env stream close_when_done)"

definition file_reader_teardown :: "ffi_reader \<Rightarrow> ffi_reader" where
  "file_reader_teardown r =
     r\<lparr>fr_window := (if fr_has_buffer r then None else fr_window r), fr_has_buffer := False,
       fr_context := None, fr_size := 0, fr_fill := None, fr_skip := None, fr_teardown := None\<rparr>"

definition file_reader_teardown_close :: "reader_env \<Rightarrow> ffi_reader \<Rightarrow> ffi_reader option" where
  "file_reader_teardown_close env r = do {
     stream \<leftarrow> fr_context r;
     (let close_result = re_fclose env;
          r = file_reader_teardown r
      in Some (if close_result \<noteq> 0 then flag_error_impl MPACK_ERROR_IO r else r))
   }"

definition call_reader_teardown :: "reader_env \<Rightarrow> reader_teardown_fn \<Rightarrow> ffi_reader \<Rightarrow> ffi_reader option" where
  "call_reader_teardown env teardown r =
     (case teardown of
        File_Reader_Teardown \<Rightarrow> Some (file_reader_teardown r)
      | File_Reader_Teardown_Close \<Rightarrow> file_reader_teardown_close env r
      | User_Reader_Teardown \<Rightarrow> Some (re_teardown env r))"

definition mpack_reader_destroy :: "reader_env \<Rightarrow> ffi_reader \<Rightarrow> (c_int \<times> ffi_reader) option" where
  "mpack_reader_destroy env r =
     (let cancel = (fr_error r \<noteq> MPACK_OK)
      in case track_destroy cancel (fr_track r) of
           (track_error, track) \<Rightarrow>
             (let r = r\<lparr>fr_track := track\<rparr>;
                  r = (if track_error \<noteq> MPACK_OK \<and> fr_error r = MPACK_OK then r\<lparr>fr_error := track_error\<rparr> else r)
              in do {
                r \<leftarrow> (case fr_teardown r of
                        None \<Rightarrow> Some r
                      | Some teardown \<Rightarrow> call_reader_teardown env teardown (r\<lparr>fr_teardown := None\<rparr>));
                Some (fr_error r, r)
              }))"

definition mpack_reader_set_fill :: "fill_fn option \<Rightarrow> ffi_reader \<Rightarrow> ffi_reader" where
  "mpack_reader_set_fill fill r =
     (if fr_size r = 0 then flag_error_impl MPACK_ERROR_BUG r
      else if fr_size r < READER_MINIMUM_BUFFER_SIZE then flag_error_impl MPACK_ERROR_BUG r
      else r\<lparr>fr_fill := fill\<rparr>)"

definition mpack_reader_set_skip :: "skip_fn option \<Rightarrow> ffi_reader \<Rightarrow> ffi_reader" where
  "mpack_reader_set_skip skip r =
     (if fr_size r = 0 then flag_error_impl MPACK_ERROR_BUG r else r\<lparr>fr_skip := skip\<rparr>)"

definition mpack_reader_flag_error :: "c_int \<Rightarrow> ffi_reader \<Rightarrow> ffi_reader" where
  "mpack_reader_flag_error err r = flag_error_impl err r"

text \<open>The second result is what \<open>*data\<close> points to.\<close>

definition mpack_reader_remaining :: "ffi_reader \<Rightarrow> (nat \<times> u8 list option \<times> ffi_reader) option" where
  "mpack_reader_remaining r =
     (if fr_error r \<noteq> MPACK_OK then Some (0, None, r)
      else
        (let track_error = track_check_empty (fr_track r)
         in if track_error \<noteq> MPACK_OK then Some (0, None, flag_error_on track_error r)
            else case remaining_of r of
              None \<Rightarrow> Some (0, None, flag_error_impl MPACK_ERROR_BUG r)
            | Some left \<Rightarrow> do {
                bytes \<leftarrow> pointer_at left r;
                Some (left, bytes, r)
              }))"

subsection \<open>Tags and payload bytes\<close>

definition mpack_read_tag :: "reader_env \<Rightarrow> ffi_reader \<Rightarrow> (mpack_tag \<times> ffi_reader) option" where
  "mpack_read_tag env r = read_tag_impl env r"

definition mpack_peek_tag :: "reader_env \<Rightarrow> ffi_reader \<Rightarrow> (mpack_tag \<times> ffi_reader) option" where
  "mpack_peek_tag env r = peek_tag_impl env r"

text \<open>\<open>track_bytes\<close> when the reader has no error; whether the operation goes on.\<close>

definition track_bytes_first :: "nat \<Rightarrow> ffi_reader \<Rightarrow> (bool \<times> ffi_reader) option" where
  "track_bytes_first count r =
     (if fr_error r = MPACK_OK then track_call (Ffi_Track.track_bytes count) r else Some (True, r))"

definition mpack_read_bytes ::
  "reader_env \<Rightarrow> u8 list option \<Rightarrow> nat \<Rightarrow> ffi_reader \<Rightarrow> (u8 list option \<times> ffi_reader) option"
where
  "mpack_read_bytes env p count r =
     (if p = None \<and> count \<noteq> 0 then Some (p, flag_error_impl MPACK_ERROR_BUG r)
      else do {
        (ok, r) \<leftarrow> track_bytes_first count r;
        (if \<not> ok then Some (p, r) else read_native env p count r)
      })"

definition mpack_skip_bytes :: "reader_env \<Rightarrow> nat \<Rightarrow> ffi_reader \<Rightarrow> ffi_reader option" where
  "mpack_skip_bytes env count r = do {
     (ok, r) \<leftarrow> track_bytes_first count r;
     (if \<not> ok then Some r else skip_bytes_impl env count r)
   }"

definition mpack_read_bytes_inplace ::
  "reader_env \<Rightarrow> nat \<Rightarrow> ffi_reader \<Rightarrow> (u8 list option \<times> ffi_reader) option"
where
  "mpack_read_bytes_inplace env count r = do {
     (ok, r) \<leftarrow> track_bytes_first count r;
     (if \<not> ok then Some (None, r) else read_bytes_inplace_notrack env count r)
   }"

definition mpack_read_utf8_inplace ::
  "reader_env \<Rightarrow> nat \<Rightarrow> ffi_reader \<Rightarrow> (u8 list option \<times> ffi_reader) option"
where
  "mpack_read_utf8_inplace env count r = do {
     (pointer, r) \<leftarrow> read_bytes_inplace_notrack env count r;
     (case pointer of
        None \<Rightarrow> Some (None, r)
      | Some bytes \<Rightarrow>
          if \<not> check_utf8 bytes then Some (None, flag_error_impl MPACK_ERROR_TYPE r)
          else Some (Some bytes, r))
   }"

text \<open>\<open>slice::from_raw_parts\<close> of a null pointer is undefined behaviour, also for no bytes.\<close>

definition mpack_read_utf8 ::
  "reader_env \<Rightarrow> u8 list option \<Rightarrow> nat \<Rightarrow> ffi_reader \<Rightarrow> (u8 list option \<times> ffi_reader) option"
where
  "mpack_read_utf8 env p byte_count r =
     (if p = None \<and> byte_count \<noteq> 0 then Some (p, flag_error_impl MPACK_ERROR_BUG r)
      else do {
        (p, r) \<leftarrow> read_native env p byte_count r;
        (if fr_error r \<noteq> MPACK_OK then Some (p, r)
         else do {
           bytes \<leftarrow> peek_bytes p byte_count;
           Some (p, if \<not> check_utf8 bytes then flag_error_impl MPACK_ERROR_TYPE r else r)
         })
      })"

subsection \<open>C strings\<close>

definition clear_cstr :: "u8 list option \<Rightarrow> ffi_reader \<Rightarrow> (u8 list option \<times> ffi_reader) option" where
  "clear_cstr buf r = do { buf \<leftarrow> poke buf 0 [0]; Some (buf, r) }"

definition read_cstr_unchecked ::
  "reader_env \<Rightarrow> u8 list option \<Rightarrow> nat \<Rightarrow> nat \<Rightarrow> ffi_reader \<Rightarrow> (u8 list option \<times> ffi_reader) option"
where
  "read_cstr_unchecked env buf buffer_size byte_count r =
     (if buf = None \<or> buffer_size = 0 then Some (buf, flag_error_impl MPACK_ERROR_BUG r)
      else if fr_error r \<noteq> MPACK_OK then clear_cstr buf r
      else if byte_count > buffer_size - 1 then clear_cstr buf (flag_error_impl MPACK_ERROR_TOO_BIG r)
      else do {
        (ok, r) \<leftarrow> track_call (Ffi_Track.track_str_bytes_all byte_count) r;
        (if \<not> ok then clear_cstr buf r
         else do {
           (buf, r) \<leftarrow> read_native env buf byte_count r;
           buf \<leftarrow> poke buf byte_count [0];
           Some (buf, r)
         })
      })"

definition checked_cstr ::
  "(u8 list \<Rightarrow> bool) \<Rightarrow> reader_env \<Rightarrow> u8 list option \<Rightarrow> nat \<Rightarrow> nat \<Rightarrow> ffi_reader
    \<Rightarrow> (u8 list option \<times> ffi_reader) option"
where
  "checked_cstr good env buf buffer_size byte_count r = do {
     (buf, r) \<leftarrow> read_cstr_unchecked env buf buffer_size byte_count r;
     (if fr_error r \<noteq> MPACK_OK then Some (buf, r)
      else do {
        bytes \<leftarrow> peek_bytes buf byte_count;
        (if \<not> good bytes then clear_cstr buf (flag_error_impl MPACK_ERROR_TYPE r) else Some (buf, r))
      })
   }"

definition mpack_read_cstr ::
  "reader_env \<Rightarrow> u8 list option \<Rightarrow> nat \<Rightarrow> nat \<Rightarrow> ffi_reader \<Rightarrow> (u8 list option \<times> ffi_reader) option"
where
  "mpack_read_cstr = checked_cstr (\<lambda>bytes. 0 \<notin> set bytes)"

definition mpack_read_utf8_cstr ::
  "reader_env \<Rightarrow> u8 list option \<Rightarrow> nat \<Rightarrow> nat \<Rightarrow> ffi_reader \<Rightarrow> (u8 list option \<times> ffi_reader) option"
where
  "mpack_read_utf8_cstr = checked_cstr check_utf8_no_null"

definition mpack_read_bytes_alloc_impl ::
  "reader_env \<Rightarrow> nat \<Rightarrow> bool \<Rightarrow> ffi_reader \<Rightarrow> (u8 list option \<times> ffi_reader) option"
where
  "mpack_read_bytes_alloc_impl env count null_terminated r =
     (if fr_error r \<noteq> MPACK_OK then Some (None, r)
      else if count = 0 \<and> \<not> null_terminated then Some (None, r)
      else if count + of_bool null_terminated > usize_max
      then Some (None, flag_error_impl MPACK_ERROR_TOO_BIG r)
      else
        (let sz = count + of_bool null_terminated
         in do {
           (ok, r) \<leftarrow> track_call (Ffi_Track.track_bytes count) r;
           (if \<not> ok then Some (None, r)
            else case re_malloc env (max sz 1) of
              None \<Rightarrow> Some (None, flag_error_impl MPACK_ERROR_MEMORY r)
            | Some block \<Rightarrow>
                (let error_fn = fr_error_fn r
                 in do {
                   (p, r) \<leftarrow> read_native env (Some block) count (r\<lparr>fr_error_fn := False\<rparr>);
                   (let r = r\<lparr>fr_error_fn := error_fn\<rparr>
                    in if fr_error r \<noteq> MPACK_OK
                       then Some (None, if error_fn then r\<lparr>fr_reports := fr_reports r @ [fr_error r]\<rparr> else r)
                       else if null_terminated then do { p \<leftarrow> poke p count [0]; Some (p, r) }
                       else Some (p, r))
                 }))
         }))"

definition mpack_done_type :: "c_int \<Rightarrow> ffi_reader \<Rightarrow> ffi_reader option" where
  "mpack_done_type ty r = done_type_impl ty r"

subsection \<open>Discarding a value\<close>

datatype discard_frame =
    Frame_Array u32
  | Frame_Map u32 bool

text \<open>The inner loop: it closes the compounds that are complete. The innermost frame is the first; no frames
  as the result is the \<open>return\<close>.\<close>

fun finish_frames :: "discard_frame list \<Rightarrow> ffi_reader \<Rightarrow> (discard_frame list \<times> ffi_reader) option" where
  "finish_frames [] r = Some ([], r)"
| "finish_frames (Frame_Array left # stack) r =
     (let left = left - 1
      in if left = 0 then do { r \<leftarrow> done_type_impl TYPE_ARRAY r; finish_frames stack r }
         else Some (Frame_Array left # stack, r))"
| "finish_frames (Frame_Map left need_value # stack) r =
     (if \<not> need_value then Some (Frame_Map left True # stack, r)
      else
        (let left = left - 1
         in if left = 0 then do { r \<leftarrow> done_type_impl TYPE_MAP r; finish_frames stack r }
            else Some (Frame_Map left False # stack, r)))"

text \<open>What the outer loop does with one tag: the frames it goes on with, \<open>None\<close> for the \<open>return\<close> on an error.\<close>

definition discard_tag ::
  "reader_env \<Rightarrow> mpack_tag \<Rightarrow> discard_frame list \<Rightarrow> ffi_reader \<Rightarrow> (discard_frame list option \<times> ffi_reader) option"
where
  "discard_tag env tag stack r =
     (if mt_type tag = TYPE_STR \<or> mt_type tag = TYPE_BIN \<or> mt_type tag = TYPE_EXT then
        (let len = unat (tag_length tag)
         in do {
           (ok, r) \<leftarrow> track_call (Ffi_Track.track_bytes len) r;
           (if \<not> ok then Some (None, r)
            else do {
              r \<leftarrow> skip_bytes_impl env len r;
              (if fr_error r \<noteq> MPACK_OK then Some (None, r)
               else do {
                 r \<leftarrow> done_type_impl (mt_type tag) r;
                 (stack, r) \<leftarrow> finish_frames stack r;
                 Some (Some stack, r)
               })
            })
         })
      else if mt_type tag = TYPE_ARRAY \<and> tag_length tag > 0
      then Some (Some (Frame_Array (tag_length tag) # stack), r)
      else if mt_type tag = TYPE_MAP \<and> tag_length tag > 0
      then Some (Some (Frame_Map (tag_length tag) False # stack), r)
      else do {
        r \<leftarrow> (if mt_type tag = TYPE_ARRAY \<or> mt_type tag = TYPE_MAP then done_type_impl (mt_type tag) r
              else Some r);
        (stack, r) \<leftarrow> finish_frames stack r;
        Some (Some stack, r)
      })"

partial_function (option) discard_loop ::
  "reader_env \<Rightarrow> discard_frame list \<Rightarrow> ffi_reader \<Rightarrow> ffi_reader option"
where
  "discard_loop env stack r =
     Option.bind (read_tag_impl env r) (\<lambda>(tag, r).
       if fr_error r \<noteq> MPACK_OK then Some r
       else Option.bind (discard_tag env tag stack r) (\<lambda>(next, r).
         case next of
           None \<Rightarrow> Some r
         | Some stack \<Rightarrow> if stack = [] then Some r else discard_loop env stack r))"

definition discard_impl :: "reader_env \<Rightarrow> ffi_reader \<Rightarrow> ffi_reader option" where
  "discard_impl env r = discard_loop env [] r"

definition mpack_discard :: "reader_env \<Rightarrow> ffi_reader \<Rightarrow> ffi_reader option" where
  "mpack_discard env r = discard_impl env r"

subsection \<open>Timestamps\<close>

definition decode_timestamp_payload :: "u8 list \<Rightarrow> timestamp option" where
  "decode_timestamp_payload bytes =
     (if length bytes = 4 then
        (let secs = word_of_nat (from_be bytes) :: u32
         in Some \<lparr>seconds = ucast secs, nanoseconds = 0\<rparr>)
      else if length bytes = 8 then
        (let packed = word_of_nat (from_be bytes) :: u64;
             nanos = ucast (drop_bit 34 packed) :: u32;
             secs = packed AND (push_bit 34 1 - 1)
         in if nanos > 999999999 then None else Some \<lparr>seconds = secs, nanoseconds = nanos\<rparr>)
      else if length bytes = 12 then
        (let nanos = word_of_nat (from_be (take 4 bytes)) :: u32;
             secs = word_of_nat (from_be (drop 4 bytes)) :: i64
         in if nanos > 999999999 then None else Some \<lparr>seconds = secs, nanoseconds = nanos\<rparr>)
      else None)"

definition timestamp_zero :: timestamp where
  "timestamp_zero = \<lparr>seconds = 0, nanoseconds = 0\<rparr>"

definition mpack_read_timestamp :: "reader_env \<Rightarrow> nat \<Rightarrow> ffi_reader \<Rightarrow> (timestamp \<times> ffi_reader) option" where
  "mpack_read_timestamp env sz r =
     (if sz \<noteq> 4 \<and> sz \<noteq> 8 \<and> sz \<noteq> 12 then Some (timestamp_zero, flag_error_impl MPACK_ERROR_INVALID r)
      else do {
        (buf, r) \<leftarrow> read_native env (Some (replicate 12 0)) sz r;
        r \<leftarrow> mpack_done_type TYPE_EXT r;
        (if fr_error r \<noteq> MPACK_OK then Some (timestamp_zero, r)
         else do {
           bytes \<leftarrow> peek_bytes buf sz;
           (case decode_timestamp_payload bytes of
              Some ts \<Rightarrow> Some (ts, r)
            | None \<Rightarrow> Some (timestamp_zero, flag_error_impl MPACK_ERROR_INVALID r))
         })
      })"

definition mpack_reader_ensure_straddle :: "reader_env \<Rightarrow> nat \<Rightarrow> ffi_reader \<Rightarrow> (bool \<times> ffi_reader) option" where
  "mpack_reader_ensure_straddle env count r = ensure_straddle_impl env count r"

definition mpack_read_native_straddle ::
  "reader_env \<Rightarrow> u8 list option \<Rightarrow> nat \<Rightarrow> ffi_reader \<Rightarrow> (u8 list option \<times> ffi_reader) option"
where
  "mpack_read_native_straddle env p count r = read_native_straddle_impl env p count r"

end
