(* ===== verification/Ffi_Reader_Run.thy ===== *)
theory Ffi_Reader_Run
  imports Ffi_Reader_Api Reader_Typed
begin

section \<open>What the C reader sees of its input\<close>

text \<open>
  The interface \<open>fill_source\<close> states what the fill callback of a C reader promises: as long as there is
  input it delivers some of it, in order, and no more than asked for; at the end it delivers nothing.
  The interface \<open>skip_source\<close> adds the skip callback. Over them every operation of the reader is proved
  to see one sequence of bytes, \<open>input\<close>: what is in the window and what the callback will still deliver,
  however the input is cut into pieces.
\<close>

subsection \<open>The state of a working reader\<close>

definition ahead :: "ffi_reader \<Rightarrow> u8 list" where
  "ahead r = (case fr_window r of None \<Rightarrow> [] | Some w \<Rightarrow> take (fr_end r - fr_data r) (drop (fr_data r) w))"

definition cursor_ok :: "ffi_reader \<Rightarrow> bool" where
  "cursor_ok r \<longleftrightarrow> (case fr_window r of None \<Rightarrow> True | Some w \<Rightarrow> fr_data r \<le> fr_end r \<and> fr_end r \<le> length w)"

definition buffer_ok :: "ffi_reader \<Rightarrow> bool" where
  "buffer_ok r \<longleftrightarrow> fr_has_buffer r \<and> 32 \<le> fr_size r \<and> (\<exists>w. fr_window r = Some w \<and> fr_size r \<le> length w)"

definition live ::
  "fill_fn option \<Rightarrow> skip_fn option \<Rightarrow> (c_stream option \<Rightarrow> bool) \<Rightarrow> ffi_reader \<Rightarrow> bool"
where
  "live fill skip good r \<longleftrightarrow> fr_error r = MPACK_OK \<and> fr_fill r = fill \<and> fr_skip r = skip \<and> cursor_ok r
     \<and> (fill \<noteq> None \<longrightarrow> buffer_ok r \<and> good (fr_context r))"

definition input :: "(c_stream option \<Rightarrow> u8 list) \<Rightarrow> ffi_reader \<Rightarrow> u8 list" where
  "input rest r = ahead r @ rest (fr_context r)"

text \<open>What reading bytes leaves alone.\<close>

definition same_setup :: "ffi_reader \<Rightarrow> ffi_reader \<Rightarrow> bool" where
  "same_setup r r' \<longleftrightarrow> fr_size r' = fr_size r \<and> fr_has_buffer r' = fr_has_buffer r \<and> fr_track r' = fr_track r
     \<and> fr_error_fn r' = fr_error_fn r \<and> fr_teardown r' = fr_teardown r \<and> fr_reports r' = fr_reports r"

lemma same_setup_refl [simp]: "same_setup r r"
  by (simp add: same_setup_def)

lemma same_setup_trans [trans]: "same_setup r r' \<Longrightarrow> same_setup r' r'' \<Longrightarrow> same_setup r r''"
  by (simp add: same_setup_def)

lemma same_setup_updates [simp]:
  "same_setup r (r'\<lparr>fr_data := d\<rparr>) = same_setup r r'" "same_setup r (r'\<lparr>fr_end := d\<rparr>) = same_setup r r'"
  "same_setup r (r'\<lparr>fr_window := w\<rparr>) = same_setup r r'" "same_setup r (r'\<lparr>fr_context := c\<rparr>) = same_setup r r'"
  "same_setup (r\<lparr>fr_data := d\<rparr>) r' = same_setup r r'" "same_setup (r\<lparr>fr_end := d\<rparr>) r' = same_setup r r'"
  "same_setup (r\<lparr>fr_window := w\<rparr>) r' = same_setup r r'" "same_setup (r\<lparr>fr_context := c\<rparr>) r' = same_setup r r'"
  by (simp_all add: same_setup_def)

lemma flag_fields [simp]:
  "fr_error (flag_error_on e r) = (if fr_error r = MPACK_OK then e else fr_error r)"
  "fr_window (flag_error_on e r) = fr_window r" "fr_has_buffer (flag_error_on e r) = fr_has_buffer r"
  "fr_size (flag_error_on e r) = fr_size r" "fr_fill (flag_error_on e r) = fr_fill r"
  "fr_context (flag_error_on e r) = fr_context r" "fr_track (flag_error_on e r) = fr_track r"
  by (auto simp: flag_error_on_def Let_def)

lemma flag_impl_on [simp]: "flag_error_impl e r = flag_error_on e r"
  by (simp add: flag_error_impl_def flag_error_on_def)

lemma remaining_ahead: "cursor_ok r \<Longrightarrow> remaining_of r = Some (length (ahead r))"
  by (auto simp: remaining_of_def cursor_ok_def ahead_def split: option.splits)

lemma liveD:
  assumes "live fill skip good r"
  shows "fr_error r = MPACK_OK" "fr_fill r = fill" "fr_skip r = skip" "cursor_ok r"
    "remaining_of r = Some (length (ahead r))"
    "fill \<noteq> None \<Longrightarrow> buffer_ok r" "fill \<noteq> None \<Longrightarrow> good (fr_context r)"
  using assms by (auto simp: live_def remaining_ahead)

lemma aheadE:
  assumes "cursor_ok r"
  obtains (null) "fr_window r = None" and "ahead r = []"
    | (window) w where "fr_window r = Some w" and "fr_data r \<le> fr_end r" and "fr_end r \<le> length w"
      and "ahead r = take (fr_end r - fr_data r) (drop (fr_data r) w)" and "length (ahead r) = fr_end r - fr_data r"
  using assms by (cases "fr_window r") (auto simp: cursor_ok_def ahead_def)

lemma load_ahead:
  assumes "cursor_ok r" and "n \<le> length (ahead r)"
  shows "load_buffer (fr_data r) n r = Some (take n (ahead r))"
  using assms(1)
proof (cases rule: aheadE)
  case (window w)
  with assms(2) show ?thesis
    by (simp add: load_buffer_def slice_def min_def)
qed (use assms(2) in \<open>simp add: load_buffer_def\<close>)

lemma ahead_advance: "ahead (advance_cursor n r) = drop n (ahead r)"
  by (simp add: ahead_def advance_cursor_def drop_take add.commute split: option.splits)

lemma cursor_advance: "cursor_ok r \<Longrightarrow> n \<le> length (ahead r) \<Longrightarrow> cursor_ok (advance_cursor n r)"
  by (auto simp: cursor_ok_def ahead_def advance_cursor_def split: option.splits)

lemma live_advance: "live fill skip good r \<Longrightarrow> n \<le> length (ahead r) \<Longrightarrow> live fill skip good (advance_cursor n r)"
  by (auto simp: live_def cursor_advance) (auto simp: advance_cursor_def buffer_ok_def)

lemma advance_same [simp]: "same_setup r (advance_cursor n r)"
  by (simp add: advance_cursor_def)

lemma input_advance: "n \<le> length (ahead r) \<Longrightarrow> input rest (advance_cursor n r) = drop n (input rest r)"
  by (simp add: input_def ahead_advance) (simp add: advance_cursor_def)

lemma index_ahead:
  assumes "cursor_ok r" and "ahead r = b # bs"
  shows "\<exists>w. fr_window r = Some w \<and> index w (fr_data r) = Some b"
  using assms(1)
proof (cases rule: aheadE)
  case (window w)
  with assms(2) have "fr_data r < length w"
    by (cases "fr_end r - fr_data r") auto
  moreover from this have "w ! fr_data r = ahead r ! 0"
    using window assms(2) by (cases "fr_end r - fr_data r") auto
  moreover have "ahead r ! 0 = b"
    using assms(2) by simp
  ultimately have "index w (fr_data r) = Some b"
    by (simp add: index_def)
  with window show ?thesis by simp
qed (use assms(2) in simp)

text \<open>A reader that ran out of input: how it says so, and that the tracker is as before.\<close>

definition ran_out :: "ffi_reader \<Rightarrow> ffi_reader \<Rightarrow> bool" where
  "ran_out r r' \<longleftrightarrow>
     fr_error r' \<in> {MPACK_ERROR_INVALID, MPACK_ERROR_TOO_BIG, MPACK_ERROR_IO, MPACK_ERROR_EOF} \<and> fr_track r' = fr_track r"

lemma ran_out_error: "ran_out r r' \<Longrightarrow> fr_error r' \<noteq> MPACK_OK"
  by (auto simp: ran_out_def c_codes)

lemma header_size_for_marker: "header_size_for_marker m = header_size (unat m)"
  by (simp add: header_size_for_marker_def header_size_def Let_def)

lemma fresh_reader [simp]: "unread (reader_new bs) = bs" "r_error (reader_new bs) = Err_Ok" "r_position (reader_new bs) = 0"
  by (simp_all add: unread_def reader_new_def)

lemma core_tag_header:
  assumes "fr_error r = MPACK_OK" and "cursor_ok r" and "header hs t" and "ahead r = hs @ after"
  shows "read_with_core core_read_tag mpack_tag_nil r = Some (tag_to_abi t, advance_cursor (length hs) r)"
  using assms load_ahead [OF assms(2), of "length (ahead r)"] reading.accept [OF _ assms(3), of "reader_new (ahead r)" after]
  by (simp add: read_with_core_def remaining_ahead core_read_tag_def)

lemma core_tag_reject:
  assumes "fr_error r = MPACK_OK" and "cursor_ok r" and "\<not> has_header (ahead r)"
  shows "\<exists>k\<le>length (ahead r). read_with_core core_read_tag mpack_tag_nil r
    = Some (mpack_tag_nil, flag_error_on MPACK_ERROR_INVALID (advance_cursor k r))"
proof -
  have "reject_skip True (ahead r) \<le> length (ahead r)"
    using reading.skip_le [of "ahead r"] .
  then show ?thesis
    using assms load_ahead [OF assms(2), of "length (ahead r)"] reading.reject [of "reader_new (ahead r)"]
    by (auto simp: read_with_core_def remaining_ahead core_read_tag_def flag_error_error)
qed

lemma track_update [simp]:
  "live fill skip good (r\<lparr>fr_track := t\<rparr>) = live fill skip good r" "input rest (r\<lparr>fr_track := t\<rparr>) = input rest r"
  "ahead (r\<lparr>fr_track := t\<rparr>) = ahead r" "cursor_ok (r\<lparr>fr_track := t\<rparr>) = cursor_ok r"
  by (simp_all add: live_def input_def ahead_def cursor_ok_def buffer_ok_def cong: option.case_cong)

lemma prefix_split:
  "xs @ ys = hs @ after \<Longrightarrow> length hs \<le> length xs \<Longrightarrow> \<exists>as. xs = hs @ as \<and> after = as @ ys"
  by (auto simp: append_eq_append_conv2)

lemma has_header_append: "has_header bs \<Longrightarrow> has_header (bs @ cs)"
  unfolding has_header_def by (metis append.assoc)

subsection \<open>The interface of a source of input\<close>

locale fill_source =
  fixes env :: reader_env
    and fill :: "fill_fn option"
    and rest :: "c_stream option \<Rightarrow> u8 list"
    and good :: "c_stream option \<Rightarrow> bool"
  assumes no_fill: "fill = None \<Longrightarrow> rest c = []"
    and delivers: "fill = Some f \<Longrightarrow> fr_error r = MPACK_OK \<Longrightarrow> good (fr_context r) \<Longrightarrow> 0 < n \<Longrightarrow>
      rest (fr_context r) \<noteq> [] \<Longrightarrow>
      \<exists>bs c. call_fill env f n r = Some (Some bs, r\<lparr>fr_context := c\<rparr>) \<and> bs \<noteq> [] \<and> length bs \<le> n
        \<and> rest (fr_context r) = bs @ rest c \<and> good c"
    and ends: "fill = Some f \<Longrightarrow> fr_error r = MPACK_OK \<Longrightarrow> good (fr_context r) \<Longrightarrow> 0 < n \<Longrightarrow>
      rest (fr_context r) = [] \<Longrightarrow>
      \<exists>c e. call_fill env f n r = Some (Some [], flag_error_on e (r\<lparr>fr_context := c\<rparr>))
        \<and> e \<in> {MPACK_OK, MPACK_ERROR_IO, MPACK_ERROR_EOF}"
begin

lemma fill_loop_enough:
  "fill = Some f \<Longrightarrow> fr_error r = MPACK_OK \<Longrightarrow> good (fr_context r) \<Longrightarrow> length got \<le> max_bytes \<Longrightarrow>
    min_bytes \<le> max_bytes \<Longrightarrow> min_bytes \<le> length got + length (rest (fr_context r)) \<Longrightarrow>
    \<exists>bs c. fill_loop env f min_bytes max_bytes got r = Some (length (got @ bs), got @ bs, r\<lparr>fr_context := c\<rparr>)
      \<and> min_bytes \<le> length (got @ bs) \<and> length (got @ bs) \<le> max_bytes
      \<and> rest (fr_context r) = bs @ rest c \<and> good c"
proof (induction "min_bytes - length got" arbitrary: got r rule: less_induct)
  case less
  show ?case
  proof (cases "length got < min_bytes")
    case False
    with less.prems show ?thesis
      by (subst fill_loop.simps) (auto intro!: exI [of _ "fr_context r"])
  next
    case True
    with less.prems obtain bs c where c: "call_fill env f (max_bytes - length got) r = Some (Some bs, r\<lparr>fr_context := c\<rparr>)"
        "bs \<noteq> []" "length bs \<le> max_bytes - length got" "rest (fr_context r) = bs @ rest c" "good c"
      using delivers [of f r "max_bytes - length got"] by fastforce
    let ?r = "r\<lparr>fr_context := c\<rparr>"
    have "min_bytes - length (got @ bs) < min_bytes - length got"
      using True c(2) by (auto intro: diff_less_mono2)
    with less.hyps [of "got @ bs" ?r] less.prems c obtain bs' c' where
      "fill_loop env f min_bytes max_bytes (got @ bs) ?r
         = Some (length ((got @ bs) @ bs'), (got @ bs) @ bs', ?r\<lparr>fr_context := c'\<rparr>)"
      "min_bytes \<le> length ((got @ bs) @ bs')" "length ((got @ bs) @ bs') \<le> max_bytes"
      "rest c = bs' @ rest c'" "good c'"
      by fastforce
    with True c less.prems(2) show ?thesis
      by (subst fill_loop.simps) (auto intro!: exI [of _ "bs @ bs'"] exI [of _ c'])
  qed
qed

lemma fill_loop_short:
  "fill = Some f \<Longrightarrow> fr_error r = MPACK_OK \<Longrightarrow> good (fr_context r) \<Longrightarrow> length got \<le> max_bytes \<Longrightarrow>
    min_bytes \<le> max_bytes \<Longrightarrow> length got + length (rest (fr_context r)) < min_bytes \<Longrightarrow>
    \<exists>bs c e. fill_loop env f min_bytes max_bytes got r = Some (0, bs, flag_error_on e (r\<lparr>fr_context := c\<rparr>))
      \<and> length bs \<le> max_bytes \<and> e \<in> {MPACK_ERROR_IO, MPACK_ERROR_EOF}"
proof (induction "min_bytes - length got" arbitrary: got r rule: less_induct)
  case less
  from less.prems have more: "length got < min_bytes" by simp
  show ?case
  proof (cases "rest (fr_context r) = []")
    case True
    with less.prems obtain c e where c: "call_fill env f (max_bytes - length got) r
        = Some (Some [], flag_error_on e (r\<lparr>fr_context := c\<rparr>))" "e \<in> {MPACK_OK, MPACK_ERROR_IO, MPACK_ERROR_EOF}"
      using ends [of f r "max_bytes - length got"] by fastforce
    have "e = MPACK_OK \<Longrightarrow> flag_error_on e (r\<lparr>fr_context := c\<rparr>) = r\<lparr>fr_context := c\<rparr>"
      by (simp add: flag_error_on_def)
    with c more less.prems(2,4) show ?thesis
      by (subst fill_loop.simps) (auto simp: c_codes)
  next
    case False
    with less.prems obtain bs c where c: "call_fill env f (max_bytes - length got) r = Some (Some bs, r\<lparr>fr_context := c\<rparr>)"
        "bs \<noteq> []" "length bs \<le> max_bytes - length got" "rest (fr_context r) = bs @ rest c" "good c"
      using delivers [of f r "max_bytes - length got"] by fastforce
    let ?r = "r\<lparr>fr_context := c\<rparr>"
    have "min_bytes - length (got @ bs) < min_bytes - length got"
      using more c(2) by (auto intro: diff_less_mono2)
    with less.hyps [of "got @ bs" ?r] less.prems c more show ?thesis
      by (subst fill_loop.simps) fastforce
  qed
qed

lemma fill_range_enough:
  assumes "fr_fill r = fill" and "fill = Some f" and "fr_error r = MPACK_OK" and "good (fr_context r)"
    and "0 < min_bytes" and "min_bytes \<le> max_bytes" and "min_bytes \<le> length (rest (fr_context r))"
  obtains bs c where "fill_range env min_bytes max_bytes r = Some (length bs, bs, r\<lparr>fr_context := c\<rparr>)"
    and "min_bytes \<le> length bs" and "length bs \<le> max_bytes" and "rest (fr_context r) = bs @ rest c" and "good c"
  using fill_loop_enough [of f r "[]" max_bytes min_bytes] assms by (auto simp: fill_range_def)

lemma fill_range_short:
  assumes "fr_fill r = fill" and "fill = Some f" and "fr_error r = MPACK_OK" and "good (fr_context r)"
    and "0 < min_bytes" and "min_bytes \<le> max_bytes" and "length (rest (fr_context r)) < min_bytes"
  obtains bs c e where "fill_range env min_bytes max_bytes r = Some (0, bs, flag_error_on e (r\<lparr>fr_context := c\<rparr>))"
    and "length bs \<le> max_bytes" and "e \<in> {MPACK_ERROR_IO, MPACK_ERROR_EOF}"
  using fill_loop_short [of f r "[]" max_bytes min_bytes] assms by (auto simp: fill_range_def)

lemma fill_buffer_enough:
  assumes "fr_fill r = fill" and "fill = Some f" and "fr_error r = MPACK_OK" and "good (fr_context r)"
    and b: "buffer_ok r" and "0 < min_bytes" and "min_bytes \<le> max_bytes" and fits: "offset + max_bytes \<le> fr_size r"
    and "min_bytes \<le> length (rest (fr_context r))"
  obtains w bs c where "fr_window r = Some w" and "fr_size r \<le> length w"
    and "fill_buffer env offset min_bytes max_bytes r = Some (length bs,
      r\<lparr>fr_context := c, fr_window := Some (take offset w @ bs @ drop (offset + length bs) w)\<rparr>)"
    and "min_bytes \<le> length bs" and "length bs \<le> max_bytes" and "rest (fr_context r) = bs @ rest c" and "good c"
proof -
  from b obtain w where w: "fr_has_buffer r" "fr_window r = Some w" "fr_size r \<le> length w"
    by (auto simp: buffer_ok_def)
  obtain bs c where run: "fill_range env min_bytes max_bytes r = Some (length bs, bs, r\<lparr>fr_context := c\<rparr>)"
    and len: "min_bytes \<le> length bs" "length bs \<le> max_bytes" "rest (fr_context r) = bs @ rest c" "good c"
    by (rule fill_range_enough [OF assms(1-4,6,7,9)])
  then have "store_at w offset bs = Some (take offset w @ bs @ drop (offset + length bs) w)" "bs \<noteq> []"
    using w fits assms(6) by (auto simp: store_at_def)
  with run w have "fill_buffer env offset min_bytes max_bytes r = Some (length bs,
      r\<lparr>fr_context := c, fr_window := Some (take offset w @ bs @ drop (offset + length bs) w)\<rparr>)"
    by (simp add: fill_buffer_def store_buffer_def)
  from that [OF w(2,3) this len] show thesis .
qed

lemma fill_buffer_short:
  assumes "fr_fill r = fill" and "fill = Some f" and "fr_error r = MPACK_OK" and "good (fr_context r)"
    and b: "buffer_ok r" and "0 < min_bytes" and "min_bytes \<le> max_bytes" and fits: "offset + max_bytes \<le> fr_size r"
    and "length (rest (fr_context r)) < min_bytes"
  obtains r' where "fill_buffer env offset min_bytes max_bytes r = Some (0, r')" and "ran_out r r'"
proof -
  from b obtain w where w: "fr_has_buffer r" "fr_window r = Some w" "fr_size r \<le> length w"
    by (auto simp: buffer_ok_def)
  obtain bs c e where run: "fill_range env min_bytes max_bytes r = Some (0, bs, flag_error_on e (r\<lparr>fr_context := c\<rparr>))"
    and e: "length bs \<le> max_bytes" "e \<in> {MPACK_ERROR_IO, MPACK_ERROR_EOF}"
    by (rule fill_range_short [OF assms(1-4,6,7,9)])
  let ?r = "flag_error_on e (r\<lparr>fr_context := c\<rparr>)"
  have "\<exists>w'. store_buffer offset bs ?r = Some (?r\<lparr>fr_window := w'\<rparr>)"
  proof (cases "bs = []")
    case True
    then show ?thesis
      by (intro exI [of _ "fr_window ?r"]) (simp add: store_buffer_def del: flag_fields)
  next
    case False
    with w e fits show ?thesis
      by (intro exI [of _ "Some (take offset w @ bs @ drop (offset + length bs) w)"])
        (simp add: store_buffer_def store_at_def)
  qed
  then obtain w' where "fill_buffer env offset min_bytes max_bytes r = Some (0, ?r\<lparr>fr_window := w'\<rparr>)"
    using run by (auto simp: fill_buffer_def)
  moreover have "ran_out r (?r\<lparr>fr_window := w'\<rparr>)"
    using e assms(3) by (auto simp: ran_out_def)
  ultimately show thesis by (rule that)
qed

subsection \<open>Making sure of bytes in the window\<close>

text \<open>What is left in the window moves to its front, and the rest is filled up behind it.\<close>

lemma shift_window:
  assumes "cursor_ok r" and "buffer_ok r" and "length (ahead r) \<le> fr_size r"
  obtains w where "store_buffer 0 (ahead r) r = Some (r\<lparr>fr_window := Some w\<rparr>)"
    and "take (length (ahead r)) w = ahead r" and "fr_size r \<le> length w"
proof -
  obtain v where v: "fr_has_buffer r" "fr_window r = Some v" "fr_size r \<le> length v"
    using assms(2) by (auto simp: buffer_ok_def)
  show thesis
  proof (cases "ahead r = []")
    case True
    then have "store_buffer 0 (ahead r) r = Some (r\<lparr>fr_window := Some v\<rparr>)"
      using v(2) by (simp add: store_buffer_def)
    with True v(3) show thesis by (intro that) simp_all
  next
    case False
    with v assms(3) show thesis
      by (intro that [of "ahead r @ drop (length (ahead r)) v"]) (simp_all add: store_buffer_def store_at_def)
  qed
qed

lemma ensure_straddle_enough:
  assumes r: "live fill skip good r" and more: "length (ahead r) < n" and n: "n \<le> length (input rest r)" "n \<le> fr_size r"
  obtains r' where "ensure_straddle_impl env n r = Some (True, r')" and "live fill skip good r'"
    and "input rest r' = input rest r" and "n \<le> length (ahead r')" and "same_setup r r'"
proof -
  obtain f where f: "fill = Some f"
    using n(1) more no_fill by (cases fill) (auto simp: input_def)
  note facts = liveD [OF r]
  have b: "buffer_ok r" "good (fr_context r)"
    using facts f by simp_all
  let ?k = "length (ahead r)"
  obtain w where w: "store_buffer 0 (ahead r) r = Some (r\<lparr>fr_window := Some w\<rparr>)"
      "take ?k w = ahead r" "fr_size r \<le> length w"
    by (rule shift_window [OF facts(4) b(1)]) (use more n in simp)
  let ?r = "r\<lparr>fr_window := Some w, fr_data := 0, fr_end := ?k\<rparr>"
  have pre: "fr_fill ?r = fill" "fr_error ?r = MPACK_OK" "good (fr_context ?r)" "buffer_ok ?r"
      "0 < n - ?k" "n - ?k \<le> fr_size r - ?k" "?k + (fr_size r - ?k) \<le> fr_size ?r"
      "n - ?k \<le> length (rest (fr_context ?r))"
    using facts b w(3) more n by (auto simp: buffer_ok_def input_def)
  obtain w0 bs c where run: "fr_window ?r = Some w0" "fill_buffer env ?k (n - ?k) (fr_size r - ?k) ?r = Some (length bs,
      ?r\<lparr>fr_context := c, fr_window := Some (take ?k w0 @ bs @ drop (?k + length bs) w0)\<rparr>)"
    and bs: "n - ?k \<le> length bs" "length bs \<le> fr_size r - ?k" "rest (fr_context ?r) = bs @ rest c" "good c"
    by (rule fill_buffer_enough [OF pre(1) f pre(2-8)])
  have w0: "w0 = w"
    using run(1) by simp
  let ?w = "take ?k w @ bs @ drop (?k + length bs) w"
  let ?r' = "r\<lparr>fr_window := Some ?w, fr_data := 0, fr_context := c, fr_end := ?k + length bs\<rparr>"
  have "take (?k + length bs) ?w = ahead r @ bs"
    using w(2) by simp
  then have ahead': "ahead ?r' = ahead r @ bs"
    by (simp add: ahead_def)
  have "ensure_straddle_impl env n r = Some (True, ?r')"
    using facts f b more n(2) w(1) run(2) load_ahead [OF facts(4), of ?k]
    by (simp add: ensure_straddle_impl_def w0 Let_def buffer_ok_def)
  moreover have "length ?w = length w"
    using w bs(2) more n by simp
  then have "live fill skip good ?r'"
    using facts b bs w(3) more n unfolding live_def cursor_ok_def buffer_ok_def by simp
  moreover have "input rest ?r' = input rest r"
    using bs(3) by (simp only: input_def ahead') simp
  moreover have "n \<le> length (ahead ?r')"
    using bs(1) by (simp only: ahead' length_append)
  moreover have "same_setup r ?r'"
    by simp
  ultimately show thesis by (rule that)
qed

lemma ensure_straddle_short:
  assumes r: "live fill skip good r" and n: "length (input rest r) < n"
  obtains r' where "ensure_straddle_impl env n r = Some (False, r')" and "ran_out r r'"
proof -
  note facts = liveD [OF r]
  let ?k = "length (ahead r)"
  have k: "?k < n"
    using n by (simp add: input_def)
  show thesis
  proof (cases "fill = None \<or> fr_size r < n")
    case True
    with facts k show thesis
      by (intro that [of "flag_error_on (if fill = None then MPACK_ERROR_INVALID else MPACK_ERROR_TOO_BIG) r"])
        (auto simp: ensure_straddle_impl_def ran_out_def)
  next
    case False
    then obtain f where f: "fill = Some f" "n \<le> fr_size r" by auto
    have b: "buffer_ok r" "good (fr_context r)"
      using facts f by simp_all
    obtain w where w: "store_buffer 0 (ahead r) r = Some (r\<lparr>fr_window := Some w\<rparr>)" "fr_size r \<le> length w"
      by (rule shift_window [OF facts(4) b(1)]) (use k f in simp)
    let ?r = "r\<lparr>fr_window := Some w, fr_data := 0, fr_end := ?k\<rparr>"
    have pre: "fr_fill ?r = fill" "fr_error ?r = MPACK_OK" "good (fr_context ?r)" "buffer_ok ?r"
        "0 < n - ?k" "n - ?k \<le> fr_size r - ?k" "?k + (fr_size r - ?k) \<le> fr_size ?r"
        "length (rest (fr_context ?r)) < n - ?k"
      using facts b w(2) k f n by (auto simp: buffer_ok_def input_def)
    obtain r' where run: "fill_buffer env ?k (n - ?k) (fr_size r - ?k) ?r = Some (0, r')" "ran_out ?r r'"
      by (rule fill_buffer_short [OF pre(1) f(1) pre(2-8)])
    have "ensure_straddle_impl env n r = Some (False, r')"
      using facts f b k w(1) run ran_out_error [OF run(2)] load_ahead [OF facts(4), of ?k]
      by (simp add: ensure_straddle_impl_def Let_def buffer_ok_def)
    with run(2) show thesis
      by (intro that [of r']) (simp_all add: ran_out_def)
  qed
qed

lemma ensure_enough:
  assumes r: "live fill skip good r" and n: "n \<le> length (input rest r)" "n \<le> fr_size r \<or> n \<le> length (ahead r)"
  obtains r' where "ensure_impl env n r = Some (True, r')" and "live fill skip good r'"
    and "input rest r' = input rest r" and "n \<le> length (ahead r')" and "same_setup r r'"
proof (cases "n \<le> length (ahead r)")
  case True
  with liveD [OF r] r show thesis
    by (intro that [of r]) (simp_all add: ensure_impl_def)
next
  case False
  then have "length (ahead r) < n" "n \<le> fr_size r"
    using n(2) by simp_all
  from ensure_straddle_enough [OF r this(1) n(1) this(2)] obtain r'
    where "ensure_straddle_impl env n r = Some (True, r')" "live fill skip good r'"
      "input rest r' = input rest r" "n \<le> length (ahead r')" "same_setup r r'" .
  with False liveD [OF r] show thesis
    by (intro that [of r']) (simp_all add: ensure_impl_def)
qed

lemma ensure_short:
  assumes r: "live fill skip good r" and n: "length (input rest r) < n"
  obtains r' where "ensure_impl env n r = Some (False, r')" and "ran_out r r'"
proof -
  obtain r' where "ensure_straddle_impl env n r = Some (False, r')" "ran_out r r'"
    by (rule ensure_straddle_short [OF assms])
  moreover have "\<not> n \<le> length (ahead r)"
    using n by (simp add: input_def)
  ultimately show thesis
    using liveD [OF r] by (intro that [of r']) (simp_all add: ensure_impl_def)
qed

subsection \<open>Tags\<close>

lemma small_fits:
  "live fill skip good r \<Longrightarrow> n \<le> 32 \<Longrightarrow> n \<le> length (input rest r) \<Longrightarrow> n \<le> fr_size r \<or> n \<le> length (ahead r)"
  using no_fill by (cases fill) (auto simp: live_def buffer_ok_def input_def)

lemma marker_at:
  assumes "live fill skip good r" and "input rest r = m # bs" and "1 \<le> length (ahead r)"
  shows "\<exists>w. fr_window r = Some w \<and> index w (fr_data r) = Some m"
proof (cases "ahead r")
  case (Cons a as)
  with assms(2) have "a = m"
    by (simp add: input_def)
  with Cons index_ahead [OF liveD(4) [OF assms(1)], of m as] show ?thesis by simp
qed (use assms(3) in simp)

lemma tag_header_ensured:
  assumes r: "live fill skip good r" and "input rest r = m # bs" and "header_size (unat m) \<le> Suc (length bs)"
  obtains r' where "ensure_tag_header env r = Some (True, r')" and "live fill skip good r'"
    and "input rest r' = input rest r" and "header_size (unat m) \<le> length (ahead r')" and "same_setup r r'"
proof -
  have "1 \<le> length (input rest r)"
    using assms(2) by simp
  from ensure_enough [OF r this small_fits [OF r _ this]] obtain r1
    where r1: "ensure_impl env 1 r = Some (True, r1)" "live fill skip good r1" "input rest r1 = input rest r"
      "1 \<le> length (ahead r1)" "same_setup r r1"
    by auto
  have sz: "header_size (unat m) \<le> 10"
    by (simp add: header_size_def)
  have fits: "header_size (unat m) \<le> length (input rest r1)"
    using assms(2,3) r1(3) by simp
  from ensure_enough [OF r1(2) this small_fits [OF r1(2) _ this]] sz obtain r2
    where r2: "ensure_impl env (header_size (unat m)) r1 = Some (True, r2)" "live fill skip good r2"
      "input rest r2 = input rest r1" "header_size (unat m) \<le> length (ahead r2)" "same_setup r1 r2"
    by auto
  obtain w where w: "fr_window r1 = Some w" "index w (fr_data r1) = Some m"
    using marker_at [OF r1(2) _ r1(4)] r1(3) assms(2) by auto
  have "ensure_tag_header env r = Some (True, r2)"
    using r1(1) w r2(1) sz
    by (simp add: ensure_tag_header_def header_size_for_marker MAXIMUM_TAG_SIZE_def min_def)
  with r1 r2 show thesis
    by (intro that [of r2]) (auto intro: same_setup_trans)
qed

lemma tag_header_short:
  assumes r: "live fill skip good r" and short: "input rest r = [] \<or> length (input rest r) < header_size (unat (hd (input rest r)))"
  obtains r' where "ensure_tag_header env r = Some (False, r')" and "ran_out r r'"
proof (cases "input rest r")
  case Nil
  then have "length (input rest r) < 1" by simp
  from ensure_short [OF r this] obtain r' where "ensure_impl env 1 r = Some (False, r')" "ran_out r r'" .
  then show thesis
    by (intro that [of r']) (simp_all add: ensure_tag_header_def)
next
  case (Cons m bs)
  then have "1 \<le> length (input rest r)" by simp
  from ensure_enough [OF r this small_fits [OF r _ this]] obtain r1
    where r1: "ensure_impl env 1 r = Some (True, r1)" "live fill skip good r1" "input rest r1 = input rest r"
      "1 \<le> length (ahead r1)" "same_setup r r1"
    by auto
  have sz: "header_size (unat m) \<le> 10"
    by (simp add: header_size_def)
  have "length (input rest r1) < header_size (unat m)"
    using short Cons r1(3) by simp
  from ensure_short [OF r1(2) this] obtain r2
    where r2: "ensure_impl env (header_size (unat m)) r1 = Some (False, r2)" "ran_out r1 r2" .
  obtain w where w: "fr_window r1 = Some w" "index w (fr_data r1) = Some m"
    using marker_at [OF r1(2) _ r1(4)] r1(3) Cons by auto
  have "ensure_tag_header env r = Some (False, r2)"
    using r1(1) w r2(1) sz
    by (simp add: ensure_tag_header_def header_size_for_marker MAXIMUM_TAG_SIZE_def min_def)
  with r1(5) r2(2) show thesis
    by (intro that [of r2]) (simp_all add: ran_out_def same_setup_def)
qed

lemma read_tag_ok:
  assumes r: "live fill skip good r" and el: "Ffi_Track.track_element (fr_track r) = Some (MPACK_OK, t1)"
    and h: "header hs t" and i: "input rest r = hs @ after"
    and push: "track_push_for_tag (re_malloc env) (mt_type (tag_to_abi t)) (tag_length (tag_to_abi t)) t1 = Some (MPACK_OK, t2)"
  obtains r' where "read_tag_impl env r = Some (tag_to_abi t, r')" and "live fill skip good r'"
    and "input rest r' = after" and "same_setup (r\<lparr>fr_track := t2\<rparr>) r'"
proof -
  obtain m hs' where hs: "hs = m # hs'"
    using header_nonempty [OF h] by (cases hs) auto
  have sz: "header_size (unat m) = length hs"
    using header_size_header [of m hs' t] h hs by simp
  let ?r = "r\<lparr>fr_track := t1\<rparr>"
  have "live fill skip good ?r" "input rest ?r = m # hs' @ after" "header_size (unat m) \<le> Suc (length (hs' @ after))"
    using r i hs sz by simp_all
  from tag_header_ensured [OF this] obtain r1
    where r1: "ensure_tag_header env ?r = Some (True, r1)" "live fill skip good r1" "input rest r1 = hs @ after"
      "length hs \<le> length (ahead r1)" "same_setup ?r r1"
    using sz i hs by auto
  obtain as where as: "ahead r1 = hs @ as" "after = as @ rest (fr_context r1)"
    using prefix_split [OF _ r1(4)] r1(3) by (auto simp: input_def)
  let ?r2 = "advance_cursor (length hs) r1"
  have core: "read_with_core core_read_tag mpack_tag_nil r1 = Some (tag_to_abi t, ?r2)"
    using liveD [OF r1(2)] by (intro core_tag_header [OF _ _ h as(1)])
  have r2: "live fill skip good ?r2" "input rest ?r2 = after"
    using live_advance [OF r1(2,4)] input_advance [OF r1(4)] r1(3) by simp_all
  have tr: "fr_track ?r2 = t1"
    using r1(5) by (simp add: same_setup_def advance_cursor_def)
  have "read_tag_impl env r = Some (tag_to_abi t, ?r2\<lparr>fr_track := t2\<rparr>)"
    using liveD(1) [OF r] el r1(1) core liveD(1) [OF r2(1)] push tr
    by (simp add: read_tag_impl_def track_call_def)
  moreover have "same_setup (r\<lparr>fr_track := t2\<rparr>) (?r2\<lparr>fr_track := t2\<rparr>)"
    using r1(5) by (simp add: same_setup_def advance_cursor_def)
  ultimately show thesis
    using r2 by (intro that) simp_all
qed

lemma read_tag_bad:
  assumes r: "live fill skip good r" and el: "Ffi_Track.track_element (fr_track r) = Some (MPACK_OK, t1)"
    and no: "\<not> has_header (input rest r)"
  obtains r' where "read_tag_impl env r = Some (mpack_tag_nil, r')" and "ran_out (r\<lparr>fr_track := t1\<rparr>) r'"
proof -
  let ?r = "r\<lparr>fr_track := t1\<rparr>"
  have r': "live fill skip good ?r" "input rest ?r = input rest r"
    using r by simp_all
  show thesis
  proof (cases "input rest r = [] \<or> length (input rest r) < header_size (unat (hd (input rest r)))")
    case True
    then obtain r1 where r1: "ensure_tag_header env ?r = Some (False, r1)" "ran_out ?r r1"
      using tag_header_short [OF r'(1)] by auto
    then have "read_tag_impl env r = Some (mpack_tag_nil, r1)"
      using liveD(1) [OF r] el by (simp add: read_tag_impl_def track_call_def)
    then show thesis
      using r1(2) by (rule that)
  next
    case False
    then obtain m bs where i: "input rest r = m # bs" "header_size (unat m) \<le> Suc (length bs)"
      by (cases "input rest r") auto
    with r'(2) have i': "input rest ?r = m # bs" by simp
    obtain r1 where r1: "ensure_tag_header env ?r = Some (True, r1)" "live fill skip good r1"
        "input rest r1 = input rest ?r" "header_size (unat m) \<le> length (ahead r1)" "same_setup ?r r1"
      by (rule tag_header_ensured [OF r'(1) i' i(2)])
    have "\<not> has_header (ahead r1)"
      using no r1(3) has_header_append [of "ahead r1" "rest (fr_context r1)"] by (auto simp: input_def)
    then obtain k where k: "read_with_core core_read_tag mpack_tag_nil r1
        = Some (mpack_tag_nil, flag_error_on MPACK_ERROR_INVALID (advance_cursor k r1))"
      using core_tag_reject [of r1] liveD [OF r1(2)] by auto
    let ?r2 = "flag_error_on MPACK_ERROR_INVALID (advance_cursor k r1)"
    have err: "fr_error ?r2 = MPACK_ERROR_INVALID"
      using liveD(1) [OF r1(2)] by (simp add: advance_cursor_def)
    then have "read_tag_impl env r = Some (mpack_tag_nil, ?r2)"
      using liveD(1) [OF r] el r1(1) k
      by (simp add: read_tag_impl_def track_call_def del: flag_fields)
    moreover have "ran_out ?r ?r2"
      using err r1(5) by (simp add: ran_out_def same_setup_def) (simp add: advance_cursor_def)
    ultimately show thesis by (rule that)
  qed
qed

end

end
