(* ===== verification/Ffi_Reader_Payload.thy ===== *)
theory Ffi_Reader_Payload
  imports Ffi_Reader_Run
begin

section \<open>Payload bytes and skipping over a source of input\<close>

text \<open>
  Copying, skipping and pointing at payload bytes, through the interface \<open>fill_source\<close>, and the interface
  \<open>skip_source\<close> of a source with a skip callback.
\<close>

lemma poke_at: "m = xs @ ys \<Longrightarrow> length bs \<le> length ys \<Longrightarrow>
    poke (Some m) (length xs) bs = Some (Some (xs @ bs @ drop (length bs) ys))"
  by (simp add: poke_def store_at_def)

lemma poke_front: "length bs \<le> length m \<Longrightarrow> poke (Some m) 0 bs = Some (Some (bs @ drop (length bs) m))"
  by (simp add: poke_def store_at_def)

lemma ahead_window: "fr_window r = Some w \<Longrightarrow> ahead r = take (fr_end r - fr_data r) (drop (fr_data r) w)"
  by (simp add: ahead_def)

lemma zero_filled: "n \<le> length m \<Longrightarrow> zero_fill (Some m) n = Some (Some (replicate n 0 @ drop n m))"
  by (simp add: zero_fill_def poke_front)

text \<open>What holds when a skip through the fill callback starts: there is a buffer, whatever is in it.\<close>

definition ready ::
  "fill_fn option \<Rightarrow> skip_fn option \<Rightarrow> (c_stream option \<Rightarrow> bool) \<Rightarrow> ffi_reader \<Rightarrow> bool"
where
  "ready fill skip good r \<longleftrightarrow>
     fr_error r = MPACK_OK \<and> fr_fill r = fill \<and> fr_skip r = skip \<and> buffer_ok r \<and> good (fr_context r)"

context fill_source begin

lemma fill_known: "live fill skip good r \<Longrightarrow> length (ahead r) < length (input rest r) \<Longrightarrow> \<exists>f. fill = Some f"
  using no_fill by (cases fill) (auto simp: input_def)

text \<open>What is left in the window has been consumed, and the rest of the payload comes through the callback.\<close>

lemma straddle_small:
  assumes r: "live fill skip good r" and f: "fill = Some f" and a: "ahead r = []"
    and n: "0 < n" "n \<le> fr_size r" "n \<le> length (rest (fr_context r))"
  obtains read r1 where "fill_buffer env 0 n (fr_size r) r = Some (read, r1)" and "fr_error r1 = MPACK_OK"
    and "load_buffer 0 n r1 = Some (take n (rest (fr_context r)))"
    and "live fill skip good (r1\<lparr>fr_data := n, fr_end := read\<rparr>)"
    and "input rest (r1\<lparr>fr_data := n, fr_end := read\<rparr>) = drop n (rest (fr_context r))" and "same_setup r r1"
proof -
  note facts = liveD [OF r]
  have b: "buffer_ok r" "good (fr_context r)"
    using facts f by simp_all
  obtain w bs c where run: "fr_window r = Some w" "fr_size r \<le> length w"
      "fill_buffer env 0 n (fr_size r) r = Some (length bs,
        r\<lparr>fr_context := c, fr_window := Some (take 0 w @ bs @ drop (0 + length bs) w)\<rparr>)"
    and bs: "n \<le> length bs" "length bs \<le> fr_size r" "rest (fr_context r) = bs @ rest c" "good c"
    by (rule fill_buffer_enough [OF facts(2) f facts(1) b(2,1), of n "fr_size r" 0]) (use n in simp_all)
  let ?r1 = "r\<lparr>fr_context := c, fr_window := Some (take 0 w @ bs @ drop (0 + length bs) w)\<rparr>"
  let ?r2 = "?r1\<lparr>fr_data := n, fr_end := length bs\<rparr>"
  have ahead2: "ahead ?r2 = drop n bs"
    using bs(1) by (simp add: ahead_def)
  show thesis
  proof (rule that [OF run(3)])
    show "fr_error ?r1 = MPACK_OK"
      using facts by simp
    show "load_buffer 0 n ?r1 = Some (take n (rest (fr_context r)))"
      using bs run(2) n by (simp add: load_buffer_def slice_def)
    show "live fill skip good ?r2"
      using facts b bs run(2) n unfolding live_def cursor_ok_def buffer_ok_def by simp
    show "input rest ?r2 = drop n (rest (fr_context r))"
      using bs by (simp only: input_def ahead2) simp
    show "same_setup r ?r1" by simp
  qed
qed

lemma straddle_large:
  assumes r: "live fill skip good r" and f: "fill = Some f" and a: "ahead r = []"
    and n: "0 < n" "n \<le> length (rest (fr_context r))"
  obtains r1 where "fill_range env n n r = Some (n, take n (rest (fr_context r)), r1)"
    and "live fill skip good r1" and "input rest r1 = drop n (rest (fr_context r))" and "same_setup r r1"
proof -
  note facts = liveD [OF r]
  have b: "buffer_ok r" "good (fr_context r)"
    using facts f by simp_all
  obtain bs c where run: "fill_range env n n r = Some (length bs, bs, r\<lparr>fr_context := c\<rparr>)"
    and bs: "n \<le> length bs" "length bs \<le> n" "rest (fr_context r) = bs @ rest c" "good c"
    by (rule fill_range_enough [OF facts(2) f facts(1) b(2), of n n]) (use n in simp_all)
  show thesis
  proof (rule that)
    show "fill_range env n n r = Some (n, take n (rest (fr_context r)), r\<lparr>fr_context := c\<rparr>)"
      using run bs by simp
    show "live fill skip good (r\<lparr>fr_context := c\<rparr>)"
      using r bs(4) by (simp add: live_def cursor_ok_def buffer_ok_def cong: option.case_cong)
    show "input rest (r\<lparr>fr_context := c\<rparr>) = drop n (rest (fr_context r))"
      using a bs by (simp add: input_def ahead_def cong: option.case_cong)
    show "same_setup r (r\<lparr>fr_context := c\<rparr>)" by simp
  qed
qed

text \<open>The start of \<open>read_native_straddle_impl\<close>: it copies what is left in the window.\<close>

lemma straddle_start:
  assumes r: "live fill skip good r" and f: "fill = Some f" and more: "length (ahead r) < n" and p: "n \<le> length m"
  defines "k \<equiv> length (ahead r)"
  shows "read_native_straddle_impl env (Some m) n r =
    (let p = Some (ahead r @ drop k m); r = advance_cursor k r
     in if n - k \<le> fr_size r div 32 then do {
          (read, r) \<leftarrow> fill_buffer env 0 (n - k) (fr_size r) r;
          (if fr_error r \<noteq> MPACK_OK then Some (p, r)
           else do {
             bytes \<leftarrow> load_buffer 0 (n - k) r;
             p \<leftarrow> poke p k bytes;
             Some (p, r\<lparr>fr_data := n - k, fr_end := read\<rparr>)
           })
        } else do {
          (read, bytes, r) \<leftarrow> fill_range env (n - k) (n - k) r;
          (if length bytes \<le> n - k then do { p \<leftarrow> poke p k bytes; Some (p, r) } else None)
        })"
proof -
  note facts = liveD [OF r]
  have "load_buffer (fr_data r) (length (ahead r)) r = Some (ahead r)"
    using load_ahead [OF facts(4), of "length (ahead r)"] by simp
  moreover have "poke (Some m) 0 (ahead r) = Some (Some (ahead r @ drop k m))"
    using more p by (simp add: poke_front k_def)
  moreover have "0 < fr_size r"
    using facts(6) f by (simp add: buffer_ok_def)
  ultimately show ?thesis
    using facts f more unfolding k_def by (simp add: read_native_straddle_impl_def Let_def)
qed

lemma read_native_ok:
  assumes r: "live fill skip good r" and n: "n \<le> length (input rest r)" and p: "n \<le> length m"
  obtains r' where "read_native env (Some m) n r = Some (Some (take n (input rest r) @ drop n m), r')"
    and "live fill skip good r'" and "input rest r' = drop n (input rest r)" and "same_setup r r'"
proof -
  note facts = liveD [OF r]
  let ?k = "length (ahead r)"
  consider "n = 0" | "0 < n" "n \<le> ?k" | "?k < n"
    by linarith
  then show thesis
  proof cases
    case 1
    with r show thesis
      by (intro that [of r]) (simp_all add: read_native_def)
  next
    case 2
    then have "read_native env (Some m) n r = Some (Some (take n (ahead r) @ drop n m), advance_cursor n r)"
      using facts p load_ahead [OF facts(4), of n] by (simp add: read_native_def poke_front)
    moreover have "take n (input rest r) = take n (ahead r)"
      using 2 by (simp add: input_def)
    ultimately show thesis
      using live_advance [OF r 2(2)] input_advance [OF 2(2), of rest] by (intro that [OF _ _ _ advance_same]) simp_all
  next
    case 3
    obtain f where f: "fill = Some f"
      using fill_known [OF r] 3 n by auto
    let ?r = "advance_cursor ?k r"
    have k: "live fill skip good ?r" "ahead ?r = []" "fr_size ?r = fr_size r" "same_setup r ?r"
        "fr_context ?r = fr_context r"
      using live_advance [OF r, of ?k] by (simp_all add: ahead_advance) (simp_all add: advance_cursor_def)
    have len: "0 < n - ?k" "n - ?k \<le> length (rest (fr_context ?r))"
      using 3 n k(5) by (simp_all add: input_def)
    have straddle: "read_native env (Some m) n r = read_native_straddle_impl env (Some m) n r"
      using facts 3 by (simp add: read_native_def)
    have got: "take n (input rest r) = ahead r @ take (n - ?k) (rest (fr_context ?r))"
      using 3 k(5) by (simp add: input_def)
    have left: "drop n (input rest r) = drop (n - ?k) (rest (fr_context ?r))"
      using 3 k(5) by (simp add: input_def)
    have poked: "poke (Some (ahead r @ drop ?k m)) ?k (take (n - ?k) (rest (fr_context ?r)))
        = Some (Some (take n (input rest r) @ drop n m))"
      using poke_at [OF refl, of "take (n - ?k) (rest (fr_context ?r))" "drop ?k m" "ahead r"] 3 p len
      unfolding got by simp
    note start = straddle_start [OF r f 3 p]
    show thesis
    proof (cases "n - ?k \<le> fr_size r div 32")
      case True
      then have "n - ?k \<le> fr_size ?r"
        using k(3) div_le_dividend [of "fr_size r" 32] by linarith
      from straddle_small [OF k(1) f k(2) len(1) this len(2)] obtain read r1
        where "fill_buffer env 0 (n - ?k) (fr_size ?r) ?r = Some (read, r1)" "fr_error r1 = MPACK_OK"
          "load_buffer 0 (n - ?k) r1 = Some (take (n - ?k) (rest (fr_context ?r)))"
          "live fill skip good (r1\<lparr>fr_data := n - ?k, fr_end := read\<rparr>)"
          "input rest (r1\<lparr>fr_data := n - ?k, fr_end := read\<rparr>) = drop (n - ?k) (rest (fr_context ?r))"
          "same_setup ?r r1" .
      with True start poked k(3) left straddle same_setup_trans [OF k(4)] show thesis
        by (intro that [of "r1\<lparr>fr_data := n - ?k, fr_end := read\<rparr>"]) (simp_all add: Let_def)
    next
      case False
      from straddle_large [OF k(1) f k(2) len] obtain r1
        where "fill_range env (n - ?k) (n - ?k) ?r = Some (n - ?k, take (n - ?k) (rest (fr_context ?r)), r1)"
          "live fill skip good r1" "input rest r1 = drop (n - ?k) (rest (fr_context ?r))" "same_setup ?r r1" .
      with False start poked k(3) left straddle same_setup_trans [OF k(4)] show thesis
        by (intro that [of r1]) (simp_all add: Let_def)
    qed
  qed
qed

text \<open>An input that is too short: the reader ends with an error, and the destination keeps its length.\<close>

lemma read_native_short:
  assumes r: "live fill skip good r" and n: "length (input rest r) < n" and p: "n \<le> length m"
  obtains p' r' where "read_native env (Some m) n r = Some (Some p', r')" and "length p' = length m" and "ran_out r r'"
proof -
  note facts = liveD [OF r]
  let ?k = "length (ahead r)"
  have k: "?k < n"
    using n by (simp add: input_def)
  have straddle: "read_native env (Some m) n r = read_native_straddle_impl env (Some m) n r"
    using facts k by (simp add: read_native_def)
  show thesis
  proof (cases fill)
    case None
    with facts k p straddle show thesis
      by (intro that [of "replicate n 0 @ drop n m" "flag_error_on MPACK_ERROR_INVALID r"])
        (simp_all add: read_native_straddle_impl_def zero_and_flag_def zero_filled ran_out_def)
  next
    case (Some f)
    let ?r = "advance_cursor ?k r"
    have live: "live fill skip good ?r" "fr_size ?r = fr_size r" "same_setup r ?r" "fr_context ?r = fr_context r"
      using live_advance [OF r, of ?k] advance_same by simp_all (simp_all add: advance_cursor_def)
    have len: "0 < n - ?k" "length (rest (fr_context ?r)) < n - ?k"
      using n k live(4) by (simp_all add: input_def)
    note start = straddle_start [OF r Some k p] and f' = liveD [OF live(1)]
    have b: "buffer_ok ?r" "good (fr_context ?r)"
      using f' Some by simp_all
    show thesis
    proof (cases "n - ?k \<le> fr_size r div 32")
      case True
      then have "n - ?k \<le> fr_size ?r"
        using live(2) div_le_dividend [of "fr_size r" 32] by linarith
      then obtain r1 where r1: "fill_buffer env 0 (n - ?k) (fr_size ?r) ?r = Some (0, r1)" "ran_out ?r r1"
        using fill_buffer_short [OF f'(2) Some f'(1) b(2,1) len(1) _ _ len(2), of "fr_size ?r" 0] by auto
      with True start live straddle k p ran_out_error [OF r1(2)] show thesis
        by (intro that [of "ahead r @ drop ?k m" r1]) (simp_all add: Let_def ran_out_def same_setup_def)
    next
      case False
      obtain bs c e where run: "fill_range env (n - ?k) (n - ?k) ?r = Some (0, bs, flag_error_on e (?r\<lparr>fr_context := c\<rparr>))"
          "length bs \<le> n - ?k" "e \<in> {MPACK_ERROR_IO, MPACK_ERROR_EOF}"
        by (rule fill_range_short [OF f'(2) Some f'(1) b(2) len(1) order_refl len(2)])
      have "poke (Some (ahead r @ drop ?k m)) ?k bs = Some (Some (ahead r @ bs @ drop (length bs) (drop ?k m)))"
        using poke_at [OF refl, of bs "drop ?k m" "ahead r"] run(2) p k by simp
      moreover have "length (ahead r @ bs @ drop (length bs) (drop ?k m)) = length m"
        using run(2) p k by simp
      moreover have "ran_out r (flag_error_on e (?r\<lparr>fr_context := c\<rparr>))"
        using run(3) live(3) f'(1) by (auto simp: ran_out_def same_setup_def)
      ultimately show thesis
        using False start live(2) straddle run(1,2)
        by (intro that [of "ahead r @ bs @ drop (length bs) (drop ?k m)"]) (simp_all add: Let_def)
    qed
  qed
qed

subsection \<open>Pointers into the window\<close>

lemma inplace_ok:
  assumes r: "live fill skip good r" and n: "n \<le> length (input rest r)" and fits: "n \<le> fr_size r \<or> n \<le> length (ahead r)"
    and w: "fr_window r \<noteq> None"
  obtains r' where "read_bytes_inplace_notrack env n r = Some (Some (take n (input rest r)), r')"
    and "live fill skip good r'" and "input rest r' = drop n (input rest r)" and "same_setup r r'"
proof -
  have here: "pointer_at n r' = Some (Some (take n (input rest r')))"
    if "live fill skip good r'" "n \<le> length (ahead r')" "fr_window r' \<noteq> None" for r'
    using liveD(4) [OF that(1)]
  proof (cases rule: aheadE)
    case (window w)
    with that(2) show ?thesis
      by (simp add: pointer_at_def slice_def input_def min_def)
  qed (use that in simp)
  note facts = liveD [OF r]
  show thesis
  proof (cases "n \<le> length (ahead r)")
    case True
    with facts here [OF r True w] have "read_bytes_inplace_notrack env n r = Some (Some (take n (input rest r)), advance_cursor n r)"
      by (simp add: read_bytes_inplace_notrack_def)
    then show thesis
      using live_advance [OF r True] input_advance [OF True, of rest] by (intro that [OF _ _ _ advance_same]) simp_all
  next
    case False
    with fill_known [OF r] n obtain f where f: "fill = Some f"
      by auto
    from ensure_enough [OF r n fits] obtain r1 where r1: "ensure_impl env n r = Some (True, r1)" "live fill skip good r1"
        "input rest r1 = input rest r" "n \<le> length (ahead r1)" "same_setup r r1" .
    have "fr_window r1 \<noteq> None"
      using liveD(6) [OF r1(2)] f by (auto simp: buffer_ok_def)
    with facts here [OF r1(2,4)] False r1(1,3)
    have "read_bytes_inplace_notrack env n r = Some (Some (take n (input rest r)), advance_cursor n r1)"
      by (simp add: read_bytes_inplace_notrack_def)
    then show thesis
      using live_advance [OF r1(2,4)] input_advance [OF r1(4), of rest] r1(3) same_setup_trans [OF r1(5) advance_same]
      by (intro that) simp_all
  qed
qed

subsection \<open>Skipping through the fill callback\<close>

lemma skip_fill_loop_ok:
  assumes f: "fill = Some f"
  shows "ready fill skip good r \<Longrightarrow> 0 < n \<Longrightarrow> n \<le> length (rest (fr_context r)) \<Longrightarrow>
    \<exists>r'. skip_fill_loop env (fr_size r) n r = Some r' \<and> live fill skip good r'
      \<and> input rest r' = drop n (rest (fr_context r)) \<and> same_setup r r'"
proof (induction n arbitrary: r rule: less_induct)
  case (less n)
  let ?size = "fr_size r"
  have facts: "fr_error r = MPACK_OK" "fr_fill r = fill" "fr_skip r = skip" "buffer_ok r" "good (fr_context r)"
    using less.prems(1) by (simp_all add: ready_def)
  have size: "32 \<le> ?size"
    using facts(4) by (simp add: buffer_ok_def)
  show ?case
  proof (cases "?size < n")
    case True
    obtain w bs c where run: "fr_window r = Some w" "?size \<le> length w"
        "fill_buffer env 0 ?size ?size r = Some (length bs,
          r\<lparr>fr_context := c, fr_window := Some (take 0 w @ bs @ drop (0 + length bs) w)\<rparr>)"
      and bs: "?size \<le> length bs" "length bs \<le> ?size" "rest (fr_context r) = bs @ rest c" "good c"
      by (rule fill_buffer_enough [OF facts(2) f facts(1,5,4), of ?size ?size 0]) (use size less.prems True in simp_all)
    let ?r = "r\<lparr>fr_context := c, fr_window := Some (take 0 w @ bs @ drop (0 + length bs) w)\<rparr>"
    have "ready fill skip good ?r"
      using facts bs run(2) unfolding ready_def buffer_ok_def by simp
    moreover have "n - ?size < n" "0 < n - ?size" "n - ?size \<le> length (rest (fr_context ?r))"
      using True size less.prems(3) bs by simp_all
    ultimately obtain r' where r': "skip_fill_loop env (fr_size ?r) (n - ?size) ?r = Some r'" "live fill skip good r'"
        "input rest r' = drop (n - ?size) (rest (fr_context ?r))" "same_setup ?r r'"
      using less.IH by blast
    have "skip_fill_loop env ?size n r = Some r'"
      using True size run(3) bs r'(1) by (subst skip_fill_loop.simps) auto
    moreover have "drop (n - ?size) (rest c) = drop n (rest (fr_context r))"
      using True bs by simp
    ultimately show ?thesis
      using r'(2-4) by simp
  next
    case False
    let ?r0 = "r\<lparr>fr_data := 0\<rparr>"
    have pre: "fr_fill ?r0 = fill" "fr_error ?r0 = MPACK_OK" "good (fr_context ?r0)" "buffer_ok ?r0"
      using facts by (simp_all add: buffer_ok_def)
    obtain w bs c where run: "fr_window ?r0 = Some w" "fr_size ?r0 \<le> length w"
        "fill_buffer env 0 n ?size ?r0 = Some (length bs,
          ?r0\<lparr>fr_context := c, fr_window := Some (take 0 w @ bs @ drop (0 + length bs) w)\<rparr>)"
      and bs: "n \<le> length bs" "length bs \<le> ?size" "rest (fr_context ?r0) = bs @ rest c" "good c"
      by (rule fill_buffer_enough [OF pre(1) f pre(2-4), of n ?size 0]) (use False less.prems in simp_all)
    let ?r = "?r0\<lparr>fr_context := c, fr_window := Some (take 0 w @ bs @ drop (0 + length bs) w),
      fr_end := length bs, fr_data := n\<rparr>"
    have "skip_fill_loop env ?size n r = Some ?r"
      using False facts run(3) bs by (subst skip_fill_loop.simps) simp
    moreover have "live fill skip good ?r"
      using facts bs run(2) unfolding live_def cursor_ok_def buffer_ok_def by simp
    moreover have "ahead ?r = drop n bs"
      using bs(1) by (simp add: ahead_def)
    then have "input rest ?r = drop n (rest (fr_context r))"
      using bs by (simp only: input_def) simp
    ultimately show ?thesis
      by (intro exI [of _ ?r]) simp
  qed
qed

lemma skip_fill_loop_short:
  assumes f: "fill = Some f"
  shows "ready fill skip good r \<Longrightarrow> length (rest (fr_context r)) < n \<Longrightarrow>
    \<exists>r'. skip_fill_loop env (fr_size r) n r = Some r' \<and> ran_out r r'"
proof (induction n arbitrary: r rule: less_induct)
  case (less n)
  let ?size = "fr_size r"
  have facts: "fr_error r = MPACK_OK" "fr_fill r = fill" "fr_skip r = skip" "buffer_ok r" "good (fr_context r)"
    using less.prems(1) by (simp_all add: ready_def)
  have size: "32 \<le> ?size"
    using facts(4) by (simp add: buffer_ok_def)
  show ?case
  proof (cases "?size < n")
    case more: True
    show ?thesis
    proof (cases "?size \<le> length (rest (fr_context r))")
      case True
      obtain w bs c where run: "fr_window r = Some w" "?size \<le> length w"
          "fill_buffer env 0 ?size ?size r = Some (length bs,
            r\<lparr>fr_context := c, fr_window := Some (take 0 w @ bs @ drop (0 + length bs) w)\<rparr>)"
        and bs: "?size \<le> length bs" "length bs \<le> ?size" "rest (fr_context r) = bs @ rest c" "good c"
        by (rule fill_buffer_enough [OF facts(2) f facts(1,5,4), of ?size ?size 0]) (use size True in simp_all)
      let ?r = "r\<lparr>fr_context := c, fr_window := Some (take 0 w @ bs @ drop (0 + length bs) w)\<rparr>"
      have "ready fill skip good ?r"
        using facts bs run(2) unfolding ready_def buffer_ok_def by simp
      moreover have "n - ?size < n" "length (rest (fr_context ?r)) < n - ?size"
        using more size less.prems(2) bs by simp_all
      ultimately obtain r' where r': "skip_fill_loop env (fr_size ?r) (n - ?size) ?r = Some r'" "ran_out ?r r'"
        using less.IH by blast
      have "skip_fill_loop env ?size n r = Some r'"
        using more size run(3) bs r'(1) by (subst skip_fill_loop.simps) auto
      with r'(2) show ?thesis by (simp add: ran_out_def)
    next
      case False
      obtain r' where r': "fill_buffer env 0 ?size ?size r = Some (0, r')" "ran_out r r'"
        by (rule fill_buffer_short [OF facts(2) f facts(1,5,4), of ?size ?size 0]) (use size False in simp_all)
      then show ?thesis
        using more size by (subst skip_fill_loop.simps) simp
    qed
  next
    case False
    let ?r0 = "r\<lparr>fr_data := 0\<rparr>"
    have pre: "fr_fill ?r0 = fill" "fr_error ?r0 = MPACK_OK" "good (fr_context ?r0)" "buffer_ok ?r0"
      using facts by (simp_all add: buffer_ok_def)
    obtain r' where r': "fill_buffer env 0 n ?size ?r0 = Some (0, r')" "ran_out ?r0 r'"
      by (rule fill_buffer_short [OF pre(1) f pre(2-4), of n ?size 0]) (use False less.prems in simp_all)
    with ran_out_error [OF r'(2)] have "skip_fill_loop env ?size n r = Some r'"
      using False by (subst skip_fill_loop.simps) simp
    with r'(2) show ?thesis by (simp add: ran_out_def)
  qed
qed

lemma skip_using_fill_ok:
  assumes "fill = Some f" and r: "ready fill skip good r" and "0 < n" and "n \<le> length (rest (fr_context r))"
  obtains r' where "skip_using_fill env n r = Some r'" and "live fill skip good r'"
    and "input rest r' = drop n (rest (fr_context r))" and "same_setup r r'"
proof -
  have "fr_fill r \<noteq> None" "fr_size r \<noteq> 0"
    using r assms(1) by (auto simp: ready_def buffer_ok_def)
  with skip_fill_loop_ok [OF assms] show thesis
    by (auto simp: skip_using_fill_def intro: that)
qed

lemma skip_using_fill_short:
  assumes "fill = Some f" and r: "ready fill skip good r" and "length (rest (fr_context r)) < n"
  obtains r' where "skip_using_fill env n r = Some r'" and "ran_out r r'"
proof -
  have "fr_fill r \<noteq> None" "fr_size r \<noteq> 0"
    using r assms(1) by (auto simp: ready_def buffer_ok_def)
  with skip_fill_loop_short [OF assms] show thesis
    by (auto simp: skip_using_fill_def intro: that)
qed

end

subsection \<open>The interface of a source that can skip\<close>

locale skip_source = fill_source +
  fixes skip :: "skip_fn option"
  assumes skips: "skip = Some s \<Longrightarrow> fill = Some f \<Longrightarrow> live fill skip good r \<Longrightarrow> ahead r = [] \<Longrightarrow> 0 < n \<Longrightarrow>
      n \<le> length (rest (fr_context r)) \<Longrightarrow>
      \<exists>r'. call_skip env s n r = Some r' \<and> live fill skip good r' \<and> same_setup r r'
        \<and> input rest r' = drop n (rest (fr_context r))"
begin

text \<open>A skip within the input leaves exactly the bytes behind it, whichever way it goes.\<close>

lemma skips_ok:
  assumes r: "live fill skip good r" and n: "n \<le> length (input rest r)"
  obtains r' where "skip_bytes_impl env n r = Some r'" and "live fill skip good r'"
    and "input rest r' = drop n (input rest r)" and "same_setup r r'"
proof -
  note facts = liveD [OF r]
  let ?k = "length (ahead r)"
  show thesis
  proof (cases "n \<le> ?k")
    case True
    with facts have "skip_bytes_impl env n r = Some (advance_cursor n r)"
      by (simp add: skip_bytes_impl_def)
    then show thesis
      using live_advance [OF r True] input_advance [OF True, of rest] by (intro that [OF _ _ _ advance_same]) simp_all
  next
    case False
    with fill_known [OF r] n obtain f where f: "fill = Some f"
      by auto
    let ?r = "r\<lparr>fr_data := fr_end r\<rparr>" and ?n = "n - ?k"
    have b: "buffer_ok r"
      using facts(6) f by simp
    then obtain w where w: "fr_window r = Some w"
      by (auto simp: buffer_ok_def)
    have live: "live fill skip good ?r"
      using r w by (simp add: live_def cursor_ok_def buffer_ok_def)
    have empty: "ahead ?r = []"
      using w by (simp add: ahead_def)
    have len: "0 < ?n" "?n \<le> length (rest (fr_context ?r))" "drop n (input rest r) = drop ?n (rest (fr_context ?r))"
      using False n by (simp_all add: input_def)
    have ready: "ready fill skip good ?r"
      using liveD [OF live] f by (simp add: ready_def)
    have same: "same_setup ?r r' \<Longrightarrow> same_setup r r'" for r'
      by simp
    from skip_using_fill_ok [OF f ready len(1,2)] obtain r1
      where r1: "skip_using_fill env ?n ?r = Some r1" "live fill skip good r1"
        "input rest r1 = drop ?n (rest (fr_context ?r))" "same_setup ?r r1" .
    have start: "skip_bytes_impl env n r = skip_bytes_straddle env n r"
      using facts False by (simp add: skip_bytes_impl_def)
    show thesis
    proof (cases "\<exists>s. skip = Some s \<and> ?n > fr_size r div 16")
      case True
      then obtain s where s: "skip = Some s" "?n > fr_size r div 16"
        by blast
      from skips [OF s(1) f live empty len(1,2)] obtain r2 where r2: "call_skip env s ?n ?r = Some r2"
          "live fill skip good r2" "input rest r2 = drop ?n (rest (fr_context ?r))" "same_setup ?r r2"
        by blast
      have "skip_bytes_straddle env n r = Some r2"
        using facts f False s b r2(1) by (simp add: skip_bytes_straddle_def buffer_ok_def)
      with start r2 len(3) same show thesis
        by (intro that [of r2]) simp_all
    next
      case no: False
      have "skip_bytes_straddle env n r = Some r1"
        using facts f False no r1(1) by (cases skip) (simp_all add: skip_bytes_straddle_def)
      with start r1 len(3) same show thesis
        by (intro that [of r1]) simp_all
    qed
  qed
qed

text \<open>Without a skip callback, a skip beyond the input is an error.\<close>

lemma skip_bytes_short:
  assumes r: "live fill skip good r" and n: "length (input rest r) < n" and no: "skip = None"
  obtains r' where "skip_bytes_impl env n r = Some r'" and "ran_out r r'"
proof -
  note facts = liveD [OF r]
  let ?k = "length (ahead r)"
  have k: "?k < n"
    using n by (simp add: input_def)
  have start: "skip_bytes_impl env n r = skip_bytes_straddle env n r"
    using facts k by (simp add: skip_bytes_impl_def)
  show thesis
  proof (cases fill)
    case None
    with start facts show thesis
      by (intro that [of "flag_error_on MPACK_ERROR_INVALID r"]) (simp_all add: skip_bytes_straddle_def ran_out_def)
  next
    case (Some f)
    let ?r = "r\<lparr>fr_data := fr_end r\<rparr>"
    have "ready fill skip good ?r"
      using facts Some by (simp add: ready_def buffer_ok_def)
    moreover have "length (rest (fr_context ?r)) < n - ?k"
      using n by (simp add: input_def)
    ultimately obtain r' where "skip_using_fill env (n - ?k) ?r = Some r'" "ran_out ?r r'"
      using skip_using_fill_short [OF Some] by blast
    with start facts Some k no show thesis
      by (intro that [of r']) (simp_all add: skip_bytes_straddle_def ran_out_def)
  qed
qed

end

end
