(* ===== verification/Ffi_Reader_Values.thy ===== *)
theory Ffi_Reader_Values
  imports Ffi_Reader_Payload Ffi_Track_Theorems Value_Format
begin

section \<open>Reading and discarding whole values through the C interface\<close>

text \<open>
  \<open>c_read_value\<close> is how a C program reads a value: a tag, then the payload bytes or the children, then
  \<open>mpack_done_type\<close>. It and \<open>mpack_discard\<close> are followed here over a source of input, with the tracker.
\<close>

datatype cvalue = CValue (cvalue_tag: mpack_tag) (cvalue_payload: "u8 list") (cvalue_children: "cvalue list")

primrec c_read_elements ::
  "(ffi_reader \<Rightarrow> (cvalue \<times> ffi_reader) option) \<Rightarrow> nat \<Rightarrow> ffi_reader \<Rightarrow> (cvalue list \<times> ffi_reader) option"
where
  "c_read_elements one 0 r = Some ([], r)"
| "c_read_elements one (Suc n) r = do {
     (v, r) \<leftarrow> one r;
     (if fr_error r \<noteq> MPACK_OK then Some ([v], r)
      else do {
        (vs, r) \<leftarrow> c_read_elements one n r;
        Some (v # vs, r)
      })
   }"

primrec c_read_value :: "reader_env \<Rightarrow> nat \<Rightarrow> ffi_reader \<Rightarrow> (cvalue \<times> ffi_reader) option" where
  "c_read_value env 0 r = None"
| "c_read_value env (Suc d) r = do {
     (tag, r) \<leftarrow> mpack_read_tag env r;
     (let n = unat (tag_length tag); ty = mt_type tag
      in if fr_error r \<noteq> MPACK_OK then Some (CValue tag [] [], r)
         else if ty = TYPE_STR \<or> ty = TYPE_BIN \<or> ty = TYPE_EXT then do {
           (p, r) \<leftarrow> mpack_read_bytes env (Some (replicate n 0)) n r;
           r \<leftarrow> mpack_done_type ty r;
           pl \<leftarrow> p;
           Some (CValue tag pl [], r)
         }
         else if ty = TYPE_ARRAY \<or> ty = TYPE_MAP then do {
           (vs, r) \<leftarrow> c_read_elements (c_read_value env d) (if ty = TYPE_MAP then 2 * n else n) r;
           r \<leftarrow> mpack_done_type ty r;
           Some (CValue tag [] vs, r)
         }
         else Some (CValue tag [] [], r))
   }"

fun abi_value :: "mvalue \<Rightarrow> cvalue" where
  "abi_value (MValue t pl vs) = CValue (tag_to_abi t) pl (map abi_value vs)"

declare c_read_value.simps [simp del]

subsection \<open>The tracker\<close>

definition tracks_up_to :: "reader_env \<Rightarrow> nat \<Rightarrow> bool" where
  "tracks_up_to env d \<longleftrightarrow> allocator_ok (re_malloc env) \<and> (\<forall>n\<le>24 * d + 36. re_malloc env n \<noteq> None)"

lemma c_run_ok:
  assumes rep: "c_rep t st" and fits: "c_fits c" and env: "tracks_up_to env d" and depth: "length st \<le> d"
    and step: "track_step c st = (Inr (), st')"
  obtains t' where "c_run (re_malloc env) c t = Some (MPACK_OK, t')" and "c_rep t' st'"
proof -
  have alloc: "allocator_ok (re_malloc env)" "\<And>n. n \<le> 24 * length st + 36 \<Longrightarrow> re_malloc env n \<noteq> None"
    using env depth by (auto simp: tracks_up_to_def)
  note sim = c_call_refines [OF rep fits alloc(1)]
  show thesis
  proof (cases "c_call (re_malloc env) c t")
    case (Accepted t')
    then have "c_run (re_malloc env) c t = Some (MPACK_OK, t')"
      by (auto simp: c_call_def split: option.splits if_splits)
    with sim step Accepted show thesis
      by (intro that) auto
  next
    case Refused
    with sim step show thesis by auto
  next
    case Gave_up
    with sim alloc(2) show thesis by fastforce
  qed
qed

lemma types_distinct:
  "TYPE_MAP \<noteq> TYPE_ARRAY" "TYPE_MAP \<noteq> TYPE_STR" "TYPE_MAP \<noteq> TYPE_BIN" "TYPE_MAP \<noteq> TYPE_EXT" "TYPE_ARRAY \<noteq> TYPE_MAP" "TYPE_ARRAY \<noteq> TYPE_STR" "TYPE_ARRAY \<noteq> TYPE_BIN" "TYPE_ARRAY \<noteq> TYPE_EXT"
  "TYPE_STR \<noteq> TYPE_MAP" "TYPE_STR \<noteq> TYPE_ARRAY" "TYPE_STR \<noteq> TYPE_BIN" "TYPE_STR \<noteq> TYPE_EXT" "TYPE_BIN \<noteq> TYPE_MAP" "TYPE_BIN \<noteq> TYPE_ARRAY" "TYPE_BIN \<noteq> TYPE_STR" "TYPE_BIN \<noteq> TYPE_EXT" "TYPE_EXT \<noteq> TYPE_MAP" "TYPE_EXT \<noteq> TYPE_ARRAY" "TYPE_EXT \<noteq> TYPE_STR" "TYPE_EXT \<noteq> TYPE_BIN"
  by (simp_all add: c_types)

text \<open>The kind and the count a tag of a payload or a compound opens.\<close>

fun opens :: "tag \<Rightarrow> track_kind option" where
  "opens (Tag_Str _) = Some Kind_Str"
| "opens (Tag_Bin _) = Some Kind_Bin"
| "opens (Tag_Ext _ _) = Some Kind_Ext"
| "opens (Tag_Array _) = Some Kind_Array"
| "opens (Tag_Map _) = Some Kind_Map"
| "opens _ = None"

fun tag_len :: "tag \<Rightarrow> u32" where
  "tag_len (Tag_Str n) = n"
| "tag_len (Tag_Bin n) = n"
| "tag_len (Tag_Ext _ n) = n"
| "tag_len (Tag_Array n) = n"
| "tag_len (Tag_Map n) = n"
| "tag_len _ = 0"

definition opened :: "tag \<Rightarrow> write_tracker \<Rightarrow> write_tracker" where
  "opened t st = (case opens t of None \<Rightarrow> st
     | Some k \<Rightarrow> \<lparr>te_kind = k, te_left = payload_len t + child_count t\<rparr> # st)"

lemma ucast_len: "tag_length \<lparr>mt_type = ty, mt_exttype = ety, mt_value = ucast (n :: u32)\<rparr> = n"
proof (rule bit_word_eqI)
  have m: "(4294967295 :: u64) = mask 32"
    by (simp add: mask_eq_exp_minus_1)
  fix i assume "i < LENGTH(32)"
  then show "bit (tag_length \<lparr>mt_type = ty, mt_exttype = ety, mt_value = ucast n\<rparr>) i = bit n i"
    by (simp add: tag_length_def m bit_simps)
qed

lemma abi_type:
  "mt_type (tag_to_abi t) = (case opens t of Some k \<Rightarrow> kind_code k | None \<Rightarrow> mt_type (tag_to_abi t))"
  "opens t \<noteq> None \<Longrightarrow> tag_length (tag_to_abi t) = tag_len t"
  "opens t = None \<Longrightarrow> mt_type (tag_to_abi t) \<notin> {TYPE_MAP, TYPE_ARRAY, TYPE_STR, TYPE_BIN, TYPE_EXT}"
  by (cases t; simp add: ucast_len c_types mpack_tag_nil_def)+

lemma tag_len_counts:
  "opens t = Some k \<Longrightarrow> announced k (unat (tag_len t)) = payload_len t + child_count t"
  using unat_u32_less [of "tag_len t"] by (cases t) (auto simp: announced_def sat_mul_def usize_max_def)

lemma push_tracked:
  assumes rep: "c_rep t1 st" and env: "tracks_up_to env d" and depth: "length st \<le> d"
  obtains t2 where "track_push_for_tag (re_malloc env) (mt_type (tag_to_abi t)) (tag_length (tag_to_abi t)) t1
      = Some (MPACK_OK, t2)" and "c_rep t2 (opened t st)"
proof (cases "opens t")
  case None
  with abi_type(3) [of t] rep show thesis
    by (intro that [of t1]) (simp_all add: track_push_for_tag_def opened_def)
next
  case (Some k)
  have "track_step (Call_push k (unat (tag_len t))) st = (Inr (), opened t st)"
    using Some by (simp add: wt_push_announced tag_len_counts opened_def)
  moreover have "c_fits (Call_push k (unat (tag_len t)))"
    using unat_u32_less [of "tag_len t"] by simp
  ultimately obtain t2 where t2: "c_run (re_malloc env) (Call_push k (unat (tag_len t))) t1 = Some (MPACK_OK, t2)"
      "c_rep t2 (opened t st)"
    using c_run_ok [OF rep _ env depth] by blast
  have ty: "mt_type (tag_to_abi t) = kind_code k"
    using Some abi_type(1) [of t] by simp
  have "kind_code k \<in> {TYPE_MAP, TYPE_ARRAY, TYPE_STR, TYPE_BIN, TYPE_EXT}"
    by (cases k) simp_all
  with t2 ty Some abi_type(2) [of t] show thesis
    by (intro that [of t2]) (simp_all add: track_push_for_tag_def c_run_def)
qed

lemma done_tracked:
  assumes rep: "c_rep (fr_track r) (\<lparr>te_kind = k, te_left = 0\<rparr> # st)" and ok: "fr_error r = MPACK_OK"
    and env: "tracks_up_to env d" and depth: "length st < d"
  obtains t' where "done_type_impl (kind_code k) r = Some (r\<lparr>fr_track := t'\<rparr>)" and "c_rep t' st"
proof -
  have "track_step (Call_pop k) (\<lparr>te_kind = k, te_left = 0\<rparr> # st) = (Inr (), st)"
    by (simp add: wt_pop_def)
  then obtain t' where "c_run (re_malloc env) (Call_pop k) (fr_track r) = Some (MPACK_OK, t')" "c_rep t' st"
    using c_run_ok [OF rep _ env, of "Call_pop k"] depth by auto
  with ok show thesis
    by (intro that [of t']) (simp_all add: done_type_impl_def track_call_def c_run_def)
qed

lemma bytes_tracked:
  assumes rep: "c_rep (fr_track r) (\<lparr>te_kind = k, te_left = n\<rparr> # st)" and k: "is_payload k"
    and env: "tracks_up_to env d" and depth: "length st < d"
  obtains t' where "track_call (Ffi_Track.track_bytes n) r = Some (True, r\<lparr>fr_track := t'\<rparr>)"
    and "c_rep t' (\<lparr>te_kind = k, te_left = 0\<rparr> # st)"
proof -
  have "track_step (Call_bytes n) (\<lparr>te_kind = k, te_left = n\<rparr> # st) = (Inr (), \<lparr>te_kind = k, te_left = 0\<rparr> # st)"
    using k by (simp add: wt_bytes_def)
  then obtain t' where "c_run (re_malloc env) (Call_bytes n) (fr_track r) = Some (MPACK_OK, t')"
      "c_rep t' (\<lparr>te_kind = k, te_left = 0\<rparr> # st)"
    using c_run_ok [OF rep _ env, of "Call_bytes n"] depth by auto
  then show thesis
    by (intro that [of t']) (simp_all add: track_call_def c_run_def)
qed

subsection \<open>Steps of a reader whose tracker is known\<close>

definition tracked_reader ::
  "fill_fn option \<Rightarrow> skip_fn option \<Rightarrow> (c_stream option \<Rightarrow> bool) \<Rightarrow> write_tracker \<Rightarrow> ffi_reader \<Rightarrow> bool"
where
  "tracked_reader fill skip good st r \<longleftrightarrow> live fill skip good r \<and> c_rep (fr_track r) st"

text \<open>Everything but the cursor, the source and the tracker is as before.\<close>

definition same_frame :: "ffi_reader \<Rightarrow> ffi_reader \<Rightarrow> bool" where
  "same_frame r r' \<longleftrightarrow> same_setup (r\<lparr>fr_track := fr_track r'\<rparr>) r'"

lemma same_frame_refl [simp]: "same_frame r r"
  by (simp add: same_frame_def same_setup_def)

lemma same_frame_trans [trans]: "same_frame r r' \<Longrightarrow> same_frame r' r'' \<Longrightarrow> same_frame r r''"
  by (simp add: same_frame_def same_setup_def)

lemma same_frame_track [simp]: "same_frame r (r'\<lparr>fr_track := t\<rparr>) = same_frame r r'"
  by (simp add: same_frame_def same_setup_def)

lemma same_setup_frame: "same_setup (r\<lparr>fr_track := t\<rparr>) r' \<Longrightarrow> same_frame r r' \<and> fr_track r' = t"
  by (simp add: same_frame_def same_setup_def)

lemma tracked_live: "tracked_reader fill skip good st r \<Longrightarrow> live fill skip good r"
  by (simp add: tracked_reader_def)

lemma done_step:
  assumes r: "tracked_reader fill skip good (\<lparr>te_kind = k, te_left = 0\<rparr> # st) r"
    and env: "tracks_up_to env d" and depth: "length st < d"
  obtains r' where "done_type_impl (kind_code k) r = Some r'" and "tracked_reader fill skip good st r'"
    and "input rest r' = input rest r" and "same_frame r r'"
proof -
  have rep: "c_rep (fr_track r) (\<lparr>te_kind = k, te_left = 0\<rparr> # st)" and l: "live fill skip good r"
    using r by (simp_all add: tracked_reader_def)
  obtain t' where "done_type_impl (kind_code k) r = Some (r\<lparr>fr_track := t'\<rparr>)" "c_rep t' st"
    by (rule done_tracked [OF rep liveD(1) [OF l] env depth])
  with l show thesis
    by (intro that [of "r\<lparr>fr_track := t'\<rparr>"]) (simp_all add: tracked_reader_def)
qed

context fill_source begin

lemma tag_step:
  assumes r: "tracked_reader fill skip good st r" and el: "wt_element st = (Inr (), st')"
    and h: "header hs t" and i: "input rest r = hs @ after"
    and env: "tracks_up_to env d" and depth: "length st \<le> d"
  obtains r' where "read_tag_impl env r = Some (tag_to_abi t, r')" and "tracked_reader fill skip good (opened t st') r'"
    and "input rest r' = after" and "same_frame r r'"
proof -
  have rep: "c_rep (fr_track r) st"
    using r by (simp add: tracked_reader_def)
  obtain t1 where t1: "c_run (re_malloc env) Call_element (fr_track r) = Some (MPACK_OK, t1)" "c_rep t1 st'"
    using c_run_ok [OF rep _ env depth, of Call_element] el by auto
  then have elem: "Ffi_Track.track_element (fr_track r) = Some (MPACK_OK, t1)"
    by (simp add: c_run_def)
  have "length st' = length st"
    using el by (auto simp: wt_element_def split: list.splits if_splits)
  with depth obtain t2 where t2: "track_push_for_tag (re_malloc env) (mt_type (tag_to_abi t))
      (tag_length (tag_to_abi t)) t1 = Some (MPACK_OK, t2)" "c_rep t2 (opened t st')"
    using push_tracked [OF t1(2) env, of t] by auto
  obtain r' where r': "read_tag_impl env r = Some (tag_to_abi t, r')" "live fill skip good r'"
      "input rest r' = after" "same_setup (r\<lparr>fr_track := t2\<rparr>) r'"
    by (rule read_tag_ok [OF tracked_live [OF r] elem h i t2(1)])
  with t2(2) same_setup_frame [OF r'(4)] show thesis
    by (intro that [of r']) (simp_all add: tracked_reader_def)
qed

lemma payload_into:
  assumes r: "tracked_reader fill skip good (\<lparr>te_kind = k, te_left = n\<rparr> # st) r" and k: "is_payload k"
    and n: "n \<le> length (input rest r)" and m: "n \<le> length m" and env: "tracks_up_to env d" and depth: "length st < d"
  obtains r' where "mpack_read_bytes env (Some m) n r = Some (Some (take n (input rest r) @ drop n m), r')"
    and "tracked_reader fill skip good (\<lparr>te_kind = k, te_left = 0\<rparr> # st) r'"
    and "input rest r' = drop n (input rest r)" and "same_frame r r'"
proof -
  have rep: "c_rep (fr_track r) (\<lparr>te_kind = k, te_left = n\<rparr> # st)" and l: "live fill skip good r"
    using r by (simp_all add: tracked_reader_def)
  obtain t' where t': "track_call (Ffi_Track.track_bytes n) r = Some (True, r\<lparr>fr_track := t'\<rparr>)"
      "c_rep t' (\<lparr>te_kind = k, te_left = 0\<rparr> # st)"
    by (rule bytes_tracked [OF rep k env depth])
  have l': "live fill skip good (r\<lparr>fr_track := t'\<rparr>)" "n \<le> length (input rest (r\<lparr>fr_track := t'\<rparr>))"
    using l n by simp_all
  obtain r' where r': "read_native env (Some m) n (r\<lparr>fr_track := t'\<rparr>)
        = Some (Some (take n (input rest (r\<lparr>fr_track := t'\<rparr>)) @ drop n m), r')"
      "live fill skip good r'" "input rest r' = drop n (input rest (r\<lparr>fr_track := t'\<rparr>))"
      "same_setup (r\<lparr>fr_track := t'\<rparr>) r'"
    by (rule read_native_ok [OF l' m])
  have "mpack_read_bytes env (Some m) n r = Some (Some (take n (input rest r) @ drop n m), r')"
    using t'(1) r'(1) liveD(1) [OF l] by (simp add: mpack_read_bytes_def track_bytes_first_def)
  with r' t'(2) same_setup_frame [OF r'(4)] show thesis
    by (intro that [of r']) (simp_all add: tracked_reader_def)
qed

lemma payload_step:
  assumes r: "tracked_reader fill skip good (\<lparr>te_kind = k, te_left = n\<rparr> # st) r" and k: "is_payload k"
    and n: "n \<le> length (input rest r)" and env: "tracks_up_to env d" and depth: "length st < d"
  obtains r' where "mpack_read_bytes env (Some (replicate n 0)) n r = Some (Some (take n (input rest r)), r')"
    and "tracked_reader fill skip good (\<lparr>te_kind = k, te_left = 0\<rparr> # st) r'"
    and "input rest r' = drop n (input rest r)" and "same_frame r r'"
  using payload_into [OF r k n _ env depth, of "replicate n 0"] by auto

subsection \<open>Reading\<close>

lemma abi_cases:
  assumes "opens t = Some k"
  shows "is_payload k \<Longrightarrow> mt_type (tag_to_abi t) = TYPE_STR \<or> mt_type (tag_to_abi t) = TYPE_BIN \<or> mt_type (tag_to_abi t) = TYPE_EXT"
    and "\<not> is_payload k \<Longrightarrow> mt_type (tag_to_abi t) \<noteq> TYPE_STR \<and> mt_type (tag_to_abi t) \<noteq> TYPE_BIN \<and> mt_type (tag_to_abi t) \<noteq> TYPE_EXT
      \<and> (mt_type (tag_to_abi t) = TYPE_ARRAY \<or> mt_type (tag_to_abi t) = TYPE_MAP)"
    and "is_payload k \<Longrightarrow> unat (tag_len t) = payload_len t \<and> child_count t = 0"
    and "\<not> is_payload k \<Longrightarrow> payload_len t = 0
      \<and> (if mt_type (tag_to_abi t) = TYPE_MAP then 2 * unat (tag_len t) else unat (tag_len t)) = child_count t"
  using assms by (cases t; auto simp: is_payload_def c_types)+

lemma read_value_ok:
  "value_bytes bs v \<Longrightarrow> tracked_reader fill skip good st r \<Longrightarrow> wt_element st = (Inr (), st') \<Longrightarrow>
    input rest r = bs @ after \<Longrightarrow> tracks_up_to env d \<Longrightarrow> length st + height v \<le> d \<Longrightarrow> height v \<le> e \<Longrightarrow>
    \<exists>r'. c_read_value env e r = Some (abi_value v, r') \<and> tracked_reader fill skip good st' r'
      \<and> input rest r' = after \<and> same_frame r r'"
  "values_bytes bs vs \<Longrightarrow> tracked_reader fill skip good (\<lparr>te_kind = k, te_left = length vs\<rparr> # st) r \<Longrightarrow>
    \<not> is_payload k \<Longrightarrow> input rest r = bs @ after \<Longrightarrow> tracks_up_to env d \<Longrightarrow>
    \<forall>v\<in>set vs. length st + height v < d \<and> height v \<le> e \<Longrightarrow>
    \<exists>r'. c_read_elements (c_read_value env e) (length vs) r = Some (map abi_value vs, r')
      \<and> tracked_reader fill skip good (\<lparr>te_kind = k, te_left = 0\<rparr> # st) r' \<and> input rest r' = after \<and> same_frame r r'"
proof (induction arbitrary: r st st' after e and r st after e k rule: value_bytes_values_bytes.inducts)
  case (one_value hs t pl vs bs)
  obtain e' where e: "e = Suc e'"
    using one_value.prems(6) height_pos [of "MValue t pl vs"] by (cases e) auto
  have depth: "length st \<le> d" "length st < d"
    using one_value.prems(5) height_pos [of "MValue t pl vs"] by linarith+
  have len: "length st' = length st"
    using one_value.prems(2) by (auto simp: wt_element_def split: list.splits if_splits)
  have i: "input rest r = hs @ (pl @ bs @ after)"
    using one_value.prems(3) by simp
  obtain r1 where r1: "read_tag_impl env r = Some (tag_to_abi t, r1)" "tracked_reader fill skip good (opened t st') r1"
      "input rest r1 = pl @ bs @ after" "same_frame r r1"
    by (rule tag_step [OF one_value.prems(1,2) one_value(1) i one_value.prems(4) depth(1)])
  have ok1: "fr_error r1 = MPACK_OK"
    using liveD(1) [OF tracked_live [OF r1(2)]] .
  show ?case
  proof (cases "opens t")
    case None
    then have "pl = []" "vs = []" "payload_len t = 0"
      using one_value(2,3) by (cases t; simp)+
    moreover from this have "bs = []"
      using one_value(4) by simp
    ultimately show ?thesis
      using r1 ok1 None abi_type(3) [OF None]
      by (intro exI [of _ r1]) (simp add: e c_read_value.simps mpack_read_tag_def opened_def Let_def)
  next
    case (Some k)
    have ty: "mt_type (tag_to_abi t) = kind_code k" and n: "tag_length (tag_to_abi t) = tag_len t"
      using Some abi_type(1,2) [of t] by simp_all
    note kinds = abi_cases [OF Some]
    show ?thesis
    proof (cases "is_payload k")
      case True
      then have sizes: "unat (tag_len t) = length pl" "vs = []" "bs = []"
        using kinds(3) one_value(2-4) by auto
      have r1': "tracked_reader fill skip good (\<lparr>te_kind = k, te_left = length pl\<rparr> # st') r1"
        using r1(2) Some kinds(3) [OF True] one_value(2) by (simp add: opened_def)
      have depth': "length st' < d" "length pl \<le> length (input rest r1)"
        using len depth(2) r1(3) by simp_all
      obtain r2 where r2: "mpack_read_bytes env (Some (replicate (length pl) 0)) (length pl) r1
            = Some (Some (take (length pl) (input rest r1)), r2)"
          "tracked_reader fill skip good (\<lparr>te_kind = k, te_left = 0\<rparr> # st') r2"
          "input rest r2 = drop (length pl) (input rest r1)" "same_frame r1 r2"
        by (rule payload_step [OF r1' True depth'(2) one_value.prems(4) depth'(1)])
      obtain r3 where r3: "done_type_impl (kind_code k) r2 = Some r3" "tracked_reader fill skip good st' r3"
          "input rest r3 = input rest r2" "same_frame r2 r3"
        by (rule done_step [OF r2(2) one_value.prems(4) depth'(1)])
      have "c_read_value env e r = Some (CValue (tag_to_abi t) pl [], r3)"
        using r1(1,3) ok1 kinds(1) [OF True] n sizes r2(1) r3(1) ty
        by (simp add: e c_read_value.simps mpack_read_tag_def mpack_done_type_def Let_def)
      with sizes r3 r2(3) r1(3) same_frame_trans [OF r1(4) same_frame_trans [OF r2(4) r3(4)]] show ?thesis
        by (intro exI [of _ r3]) simp
    next
      case False
      have sizes: "pl = []" "length vs = child_count t" "payload_len t = 0"
        using kinds(4) [OF False] one_value(2,3) by auto
      have r1': "tracked_reader fill skip good (\<lparr>te_kind = k, te_left = length vs\<rparr> # st') r1"
        using r1(2) Some sizes by (simp add: opened_def)
      have i1: "input rest r1 = bs @ after"
        using r1(3) sizes(1) by simp
      have "\<forall>v\<in>set vs. height v \<le> e'" "\<forall>v\<in>set vs. Suc (length st + height v) \<le> d"
        using one_value.prems(5,6) height_children [of t pl vs e'] height_children [of t pl vs "d - Suc (length st)"] depth
        by (auto simp: e)
      then have below: "\<forall>v\<in>set vs. length st' + height v < d \<and> height v \<le> e'"
        using len by auto
      from one_value.IH [OF r1' False i1 one_value.prems(4) below] obtain r2
        where r2: "c_read_elements (c_read_value env e') (length vs) r1 = Some (map abi_value vs, r2)"
          "tracked_reader fill skip good (\<lparr>te_kind = k, te_left = 0\<rparr> # st') r2" "input rest r2 = after" "same_frame r1 r2"
        by blast
      have depth': "length st' < d"
        using len depth(2) by simp
      obtain r3 where r3: "done_type_impl (kind_code k) r2 = Some r3" "tracked_reader fill skip good st' r3"
          "input rest r3 = input rest r2" "same_frame r2 r3"
        by (rule done_step [OF r2(2) one_value.prems(4) depth'])
      have "c_read_value env e r = Some (CValue (tag_to_abi t) [] (map abi_value vs), r3)"
        using r1(1) ok1 kinds(2,4) [OF False] n sizes r2(1) r3(1) ty
        by (cases "k = Kind_Map") (simp_all add: e types_distinct c_read_value.simps mpack_read_tag_def mpack_done_type_def Let_def)
      with sizes r3 r2(3) same_frame_trans [OF r1(4) same_frame_trans [OF r2(4) r3(4)]] show ?thesis
        by (intro exI [of _ r3]) simp
    qed
  qed
next
  case no_values
  then show ?case
    by (intro exI [of _ r]) simp
next
  case (more_values bs v bs' vs)
  let ?top = "\<lparr>te_kind = k, te_left = Suc (length vs)\<rparr> # st"
  have el: "wt_element ?top = (Inr (), \<lparr>te_kind = k, te_left = length vs\<rparr> # st)"
    using more_values.prems(2) by (simp add: wt_element_def)
  from more_values.IH(1) [of ?top r _ "bs' @ after" e] el more_values.prems obtain r1
    where r1: "c_read_value env e r = Some (abi_value v, r1)"
      "tracked_reader fill skip good (\<lparr>te_kind = k, te_left = length vs\<rparr> # st) r1"
      "input rest r1 = bs' @ after" "same_frame r r1"
    by (auto simp: Suc_le_eq)
  from more_values.IH(2) [OF r1(2) more_values.prems(2) r1(3) more_values.prems(4), of e] more_values.prems(5) obtain r2
    where r2: "c_read_elements (c_read_value env e) (length vs) r1 = Some (map abi_value vs, r2)"
      "tracked_reader fill skip good (\<lparr>te_kind = k, te_left = 0\<rparr> # st) r2" "input rest r2 = after" "same_frame r1 r2"
    by auto
  with r1 liveD(1) [OF tracked_live [OF r1(2)]] same_frame_trans [OF r1(4) r2(4)] show ?case
    by (intro exI [of _ r2]) simp
qed

end

end
