(* ===== verification/Ffi_Reader_Discard.thy ===== *)
theory Ffi_Reader_Discard
  imports Ffi_Reader_Values
begin

section \<open>\<open>mpack_discard\<close> over a source of input\<close>

text \<open>
  The loop of \<open>discard_impl\<close> with its own stack of frames, against the grammar of values: from any stack it
  passes over one value and goes on with the stack, as if the value had been one element of it.
\<close>

definition carry_on :: "reader_env \<Rightarrow> discard_frame list \<Rightarrow> ffi_reader \<Rightarrow> ffi_reader option" where
  "carry_on env stack r = do {
     (stack, r) \<leftarrow> finish_frames stack r;
     (if stack = [] then Some r else discard_loop env stack r)
   }"

text \<open>How many values a frame still waits for, the one under way included.\<close>

fun frame_left :: "discard_frame \<Rightarrow> nat" where
  "frame_left (Frame_Array n) = unat n"
| "frame_left (Frame_Map n need_value) = 2 * unat n - of_bool need_value"

fun frame_kind :: "discard_frame \<Rightarrow> track_kind" where
  "frame_kind (Frame_Array _) = Kind_Array"
| "frame_kind (Frame_Map _ _) = Kind_Map"

lemma unat_word_pred: "0 < unat (n :: u32) \<Longrightarrow> unat (n - 1) = unat n - 1"
  by (metis gr_implies_not0 unat_minus_one unsigned_0)

lemma word_is_one: "n = 1 \<longleftrightarrow> unat (n :: u32) = 1"
  by (simp add: word_unat_eq_iff)

lemma finish_last:
  "frame_left f = 1 \<Longrightarrow> finish_frames (f # stack) r = done_type_impl (kind_code (frame_kind f)) r \<bind> finish_frames stack"
  by (cases f; cases "case f of Frame_Array _ \<Rightarrow> True | Frame_Map _ b \<Rightarrow> b") (auto simp: word_is_one Let_def)

lemma finish_more:
  assumes "frame_left f = Suc (Suc m)"
  shows "\<exists>f'. finish_frames (f # stack) r = Some (f' # stack, r) \<and> frame_left f' = Suc m \<and> frame_kind f' = frame_kind f"
proof (cases f)
  case (Frame_Array n)
  with assms show ?thesis
    by (intro exI [of _ "Frame_Array (n - 1)"]) (simp add: word_is_one unat_word_pred)
next
  case (Frame_Map n b)
  show ?thesis
  proof (cases b)
    case True
    with assms Frame_Map show ?thesis
      by (intro exI [of _ "Frame_Map (n - 1) False"]) (simp add: word_is_one unat_word_pred, arith)
  next
    case False
    with assms Frame_Map show ?thesis
      by (intro exI [of _ "Frame_Map n True"]) simp
  qed
qed

lemma discard_loop_tag:
  assumes "read_tag_impl env r = Some (tag, r1)" and "fr_error r1 = MPACK_OK"
    and "discard_tag env tag stack r1 = finish_frames stack r2 \<bind> (\<lambda>(stack, r). Some (Some stack, r))"
  shows "discard_loop env stack r = carry_on env stack r2"
  using assms by (subst discard_loop.simps) (simp add: carry_on_def split: option.splits prod.splits bind_splits)

lemma discard_loop_open:
  assumes "read_tag_impl env r = Some (tag, r1)" and "fr_error r1 = MPACK_OK"
    and "discard_tag env tag stack r1 = Some (Some (f # stack), r1)"
  shows "discard_loop env stack r = discard_loop env (f # stack) r1"
  using assms by (subst discard_loop.simps) simp

context skip_source begin

lemma skip_step:
  assumes r: "tracked_reader fill skip good (\<lparr>te_kind = k, te_left = n\<rparr> # st) r" and k: "is_payload k"
    and n: "n \<le> length (input rest r)" and env: "tracks_up_to env d" and depth: "length st < d"
  obtains t r' where "track_call (Ffi_Track.track_bytes n) r = Some (True, r\<lparr>fr_track := t\<rparr>)"
    and "skip_bytes_impl env n (r\<lparr>fr_track := t\<rparr>) = Some r'"
    and "tracked_reader fill skip good (\<lparr>te_kind = k, te_left = 0\<rparr> # st) r'"
    and "input rest r' = drop n (input rest r)" and "same_frame r r'"
proof -
  have rep: "c_rep (fr_track r) (\<lparr>te_kind = k, te_left = n\<rparr> # st)" and l: "live fill skip good r"
    using r by (simp_all add: tracked_reader_def)
  obtain t where t: "track_call (Ffi_Track.track_bytes n) r = Some (True, r\<lparr>fr_track := t\<rparr>)"
      "c_rep t (\<lparr>te_kind = k, te_left = 0\<rparr> # st)"
    by (rule bytes_tracked [OF rep k env depth])
  have l': "live fill skip good (r\<lparr>fr_track := t\<rparr>)" "n \<le> length (input rest (r\<lparr>fr_track := t\<rparr>))"
    using l n by simp_all
  obtain r' where r': "skip_bytes_impl env n (r\<lparr>fr_track := t\<rparr>) = Some r'" "live fill skip good r'"
      "input rest r' = drop n (input rest (r\<lparr>fr_track := t\<rparr>))" "same_setup (r\<lparr>fr_track := t\<rparr>) r'"
    by (rule skips_ok [OF l'])
  with t same_setup_frame [OF r'(4)] show thesis
    by (intro that [of t r']) (simp_all add: tracked_reader_def)
qed

lemma discard_loop_ok:
  "value_bytes bs v \<Longrightarrow> tracked_reader fill skip good st r \<Longrightarrow> wt_element st = (Inr (), st') \<Longrightarrow>
    input rest r = bs @ after \<Longrightarrow> tracks_up_to env d \<Longrightarrow> length st + height v \<le> d \<Longrightarrow>
    \<exists>r'. discard_loop env stack r = carry_on env stack r' \<and> tracked_reader fill skip good st' r'
      \<and> input rest r' = after \<and> same_frame r r'"
  "values_bytes bs vs \<Longrightarrow> tracked_reader fill skip good (\<lparr>te_kind = frame_kind f, te_left = length vs\<rparr> # st) r \<Longrightarrow>
    vs \<noteq> [] \<Longrightarrow> frame_left f = length vs \<Longrightarrow> input rest r = bs @ after \<Longrightarrow> tracks_up_to env d \<Longrightarrow>
    \<forall>v\<in>set vs. length st + height v < d \<Longrightarrow>
    \<exists>r'. discard_loop env (f # stack) r = carry_on env stack r' \<and> tracked_reader fill skip good st r'
      \<and> input rest r' = after \<and> same_frame r r'"
proof (induction arbitrary: r st st' after stack and r st after stack f rule: value_bytes_values_bytes.inducts)
  case (one_value hs t pl vs bs)
  have depth: "length st \<le> d" "length st < d"
    using one_value.prems(5) height_pos [of "MValue t pl vs"] by linarith+
  have len: "length st' = length st"
    using one_value.prems(2) by (auto simp: wt_element_def split: list.splits if_splits)
  then have depth': "length st' < d"
    using depth(2) by simp
  have i: "input rest r = hs @ (pl @ bs @ after)"
    using one_value.prems(3) by simp
  obtain r1 where r1: "read_tag_impl env r = Some (tag_to_abi t, r1)" "tracked_reader fill skip good (opened t st') r1"
      "input rest r1 = pl @ bs @ after" "same_frame r r1"
    by (rule tag_step [OF one_value.prems(1,2) one_value(1) i one_value.prems(4) depth(1)])
  have ok1: "fr_error r1 = MPACK_OK"
    using liveD(1) [OF tracked_live [OF r1(2)]] .
  note on_tag = discard_loop_tag [OF r1(1) ok1, of stack] and on_open = discard_loop_open [OF r1(1) ok1, of stack]
  show ?case
  proof (cases "opens t")
    case None
    then have "pl = []" "vs = []" "payload_len t = 0"
      using one_value(2,3) by (cases t; simp)+
    moreover from this have "bs = []"
      using one_value(4) by simp
    moreover have "discard_tag env (tag_to_abi t) stack r1 = finish_frames stack r1 \<bind> (\<lambda>(stack, r). Some (Some stack, r))"
      using abi_type(3) [OF None] by (simp add: discard_tag_def)
    ultimately show ?thesis
      using r1 None on_tag [of r1] by (intro exI [of _ r1]) (simp add: opened_def)
  next
    case (Some k)
    have ty: "mt_type (tag_to_abi t) = kind_code k" and n: "tag_length (tag_to_abi t) = tag_len t"
      using Some abi_type(1,2) [of t] by simp_all
    note kinds = abi_cases [OF Some]
    show ?thesis
    proof (cases "is_payload k")
      case True
      then have sizes: "unat (tag_len t) = length pl" "vs = []" "bs = []"
        using kinds(3) one_value(2-4) by auto
      have r1': "tracked_reader fill skip good (\<lparr>te_kind = k, te_left = length pl\<rparr> # st') r1"
        using r1(2) Some kinds(3) [OF True] one_value(2) by (simp add: opened_def)
      have n1: "length pl \<le> length (input rest r1)"
        using r1(3) by simp
      obtain t2 r2 where r2: "track_call (Ffi_Track.track_bytes (length pl)) r1 = Some (True, r1\<lparr>fr_track := t2\<rparr>)"
          "skip_bytes_impl env (length pl) (r1\<lparr>fr_track := t2\<rparr>) = Some r2"
          "tracked_reader fill skip good (\<lparr>te_kind = k, te_left = 0\<rparr> # st') r2"
          "input rest r2 = drop (length pl) (input rest r1)" "same_frame r1 r2"
        by (rule skip_step [OF r1' True n1 one_value.prems(4) depth'])
      obtain r3 where r3: "done_type_impl (kind_code k) r2 = Some r3" "tracked_reader fill skip good st' r3"
          "input rest r3 = input rest r2" "same_frame r2 r3"
        by (rule done_step [OF r2(3) one_value.prems(4) depth'])
      have "discard_tag env (tag_to_abi t) stack r1 = finish_frames stack r3 \<bind> (\<lambda>(stack, r). Some (Some stack, r))"
        using kinds(1) [OF True] n sizes r2(1,2) liveD(1) [OF tracked_live [OF r2(3)]] r3(1) ty
        by (simp add: discard_tag_def Let_def)
      with sizes r3 r2(4) r1(3) on_tag [of r3] same_frame_trans [OF r1(4) same_frame_trans [OF r2(5) r3(4)]]
      show ?thesis
        by (intro exI [of _ r3]) simp
    next
      case False
      have sizes: "pl = []" "length vs = child_count t" "payload_len t = 0"
        using kinds(4) [OF False] one_value(2,3) by auto
      have r1': "tracked_reader fill skip good (\<lparr>te_kind = k, te_left = length vs\<rparr> # st') r1"
        using r1(2) Some sizes by (simp add: opened_def)
      have i1: "input rest r1 = bs @ after"
        using r1(3) sizes(1) by simp
      show ?thesis
      proof (cases "vs = []")
        case True
        then have "bs = []" "tag_len t = 0"
          using one_value(4) sizes(2) kinds(4) [OF False] by (auto simp: unat_eq_zero split: if_splits)
        obtain r3 where r3: "done_type_impl (kind_code k) r1 = Some r3" "tracked_reader fill skip good st' r3"
            "input rest r3 = input rest r1" "same_frame r1 r3"
          by (rule done_step [of fill skip good k st' r1]) (use r1' True one_value.prems(4) depth' in simp_all)
        have "discard_tag env (tag_to_abi t) stack r1 = finish_frames stack r3 \<bind> (\<lambda>(stack, r). Some (Some stack, r))"
          using kinds(2) [OF False] n \<open>tag_len t = 0\<close> r3(1) ty by (simp add: discard_tag_def)
        with r3 i1 \<open>bs = []\<close> on_tag [of r3] same_frame_trans [OF r1(4) r3(4)] show ?thesis
          by (intro exI [of _ r3]) simp
      next
        case more: False
        let ?f = "if k = Kind_Map then Frame_Map (tag_len t) False else Frame_Array (tag_len t)"
        have pos: "0 < tag_len t"
          using more sizes(2) kinds(4) [OF False] by (auto simp: word_neq_0_conv [symmetric] split: if_splits)
        have f: "frame_kind ?f = k" "frame_left ?f = length vs"
          using kinds(2,4) [OF False] ty sizes(2) by auto
        have "discard_tag env (tag_to_abi t) stack r1 = Some (Some (?f # stack), r1)"
          using kinds(2) [OF False] n pos ty by (auto simp: discard_tag_def types_distinct)
        then have run: "discard_loop env stack r = discard_loop env (?f # stack) r1"
          by (rule on_open)
        have "\<forall>v\<in>set vs. Suc (length st + height v) \<le> d"
          using one_value.prems(5) height_children [of t pl vs "d - Suc (length st)"] depth by auto
        then have below: "\<forall>v\<in>set vs. length st' + height v < d"
          using len by auto
        have "\<exists>r'. discard_loop env (?f # stack) r1 = carry_on env stack r' \<and> tracked_reader fill skip good st' r'
            \<and> input rest r' = after \<and> same_frame r1 r'"
          using r1' f by (intro one_value.IH [OF _ more f(2) i1 one_value.prems(4) below]) simp
        with run same_frame_trans [OF r1(4)] show ?thesis
          by auto
      qed
    qed
  qed
next
  case no_values
  then show ?case by simp
next
  case (more_values bs v bs' vs)
  let ?top = "\<lparr>te_kind = frame_kind f, te_left = Suc (length vs)\<rparr> # st"
  have el: "wt_element ?top = (Inr (), \<lparr>te_kind = frame_kind f, te_left = length vs\<rparr> # st)"
    by (cases f) (simp_all add: wt_element_def is_payload_def)
  from more_values.IH(1) [of ?top r _ "bs' @ after" "f # stack"] el more_values.prems obtain r1
    where r1: "discard_loop env (f # stack) r = carry_on env (f # stack) r1"
      "tracked_reader fill skip good (\<lparr>te_kind = frame_kind f, te_left = length vs\<rparr> # st) r1"
      "input rest r1 = bs' @ after" "same_frame r r1"
    by (auto simp: Suc_le_eq)
  show ?case
  proof (cases vs)
    case Nil
    have "length st < d"
      using more_values.prems(6) by auto
    obtain r2 where r2: "done_type_impl (kind_code (frame_kind f)) r1 = Some r2" "tracked_reader fill skip good st r2"
        "input rest r2 = input rest r1" "same_frame r1 r2"
      by (rule done_step [of fill skip good "frame_kind f" st r1 env d])
        (use r1(2) Nil more_values.prems(5) \<open>length st < d\<close> in simp_all)
    have "carry_on env (f # stack) r1 = carry_on env stack r2"
      using finish_last [of f stack r1] more_values.prems(3) Nil r2(1) by (simp add: carry_on_def)
    with r1 r2 Nil more_values(2) same_frame_trans [OF r1(4) r2(4)] show ?thesis
      by (intro exI [of _ r2]) simp
  next
    case (Cons w ws)
    obtain f' where f': "finish_frames (f # stack) r1 = Some (f' # stack, r1)" "frame_left f' = length vs"
        "frame_kind f' = frame_kind f"
      using finish_more [of f "length ws"] more_values.prems(3) Cons by auto
    then have "carry_on env (f # stack) r1 = discard_loop env (f' # stack) r1"
      by (simp add: carry_on_def)
    moreover have "\<exists>r'. discard_loop env (f' # stack) r1 = carry_on env stack r' \<and> tracked_reader fill skip good st r'
        \<and> input rest r' = after \<and> same_frame r1 r'"
      using r1(2) f'(3) Cons more_values.prems(6)
      by (intro more_values.IH(2) [OF _ _ f'(2) r1(3) more_values.prems(5)]) simp_all
    ultimately show ?thesis
      using r1(1) same_frame_trans [OF r1(4)] by auto
  qed
qed

lemma discard_ok:
  assumes "value_bytes bs v" and "tracked_reader fill skip good st r" and "wt_element st = (Inr (), st')"
    and "input rest r = bs @ after" and "tracks_up_to env d" and "length st + height v \<le> d"
  obtains r' where "mpack_discard env r = Some r'" and "tracked_reader fill skip good st' r'"
    and "input rest r' = after" and "same_frame r r'"
  using discard_loop_ok(1) [OF assms, of "[]"]
  by (auto simp: mpack_discard_def discard_impl_def carry_on_def)

end

end
