(* ===== verification/Ffi_Reader_Sound.thy ===== *)
theory Ffi_Reader_Sound
  imports Ffi_Reader_Discard
begin

section \<open>A value that was read without an error was there\<close>

text \<open>
  The converse of \<open>read_value_ok\<close>: whenever \<open>c_read_value\<close> ends without an error, the input began with an
  encoding of the value it returns. An input that ends inside a value, or holds a byte that starts no
  value, leads to an error, wherever the fill callback cuts it.
\<close>

lemma element_length: "wt_element st = (Inr (), st') \<Longrightarrow> length st' = length st"
  by (auto simp: wt_element_def split: list.splits if_splits)

lemma done_broken: "fr_error r \<noteq> MPACK_OK \<Longrightarrow> mpack_done_type ty r = Some r"
  by (simp add: mpack_done_type_def done_type_impl_def)

context fill_source begin

lemma tag_none:
  assumes r: "tracked_reader fill skip good st r" and el: "wt_element st = (Inr (), st')"
    and no: "\<not> has_header (input rest r)" and env: "tracks_up_to env d" and depth: "length st \<le> d"
  obtains r' where "read_tag_impl env r = Some (mpack_tag_nil, r')" and "fr_error r' \<noteq> MPACK_OK"
proof -
  have rep: "c_rep (fr_track r) st"
    using r by (simp add: tracked_reader_def)
  obtain t1 where t1: "c_run (re_malloc env) Call_element (fr_track r) = Some (MPACK_OK, t1)"
    using c_run_ok [OF rep _ env depth, of Call_element] el by auto
  then have elem: "Ffi_Track.track_element (fr_track r) = Some (MPACK_OK, t1)"
    by (simp add: c_run_def)
  from read_tag_bad [OF tracked_live [OF r] elem no] show thesis
    using that ran_out_error by blast
qed

lemma payload_missing:
  assumes r: "tracked_reader fill skip good (\<lparr>te_kind = k, te_left = n\<rparr> # st) r" and k: "is_payload k"
    and n: "length (input rest r) < n" and env: "tracks_up_to env d" and depth: "length st < d"
  obtains p r' where "mpack_read_bytes env (Some (replicate n 0)) n r = Some (Some p, r')" and "fr_error r' \<noteq> MPACK_OK"
proof -
  have rep: "c_rep (fr_track r) (\<lparr>te_kind = k, te_left = n\<rparr> # st)" and l: "live fill skip good r"
    using r by (simp_all add: tracked_reader_def)
  obtain t' where t': "track_call (Ffi_Track.track_bytes n) r = Some (True, r\<lparr>fr_track := t'\<rparr>)"
    by (rule bytes_tracked [OF rep k env depth])
  have l': "live fill skip good (r\<lparr>fr_track := t'\<rparr>)" "length (input rest (r\<lparr>fr_track := t'\<rparr>)) < n"
      "n \<le> length (replicate n (0 :: u8))"
    using l n by simp_all
  obtain p r' where r': "read_native env (Some (replicate n 0)) n (r\<lparr>fr_track := t'\<rparr>) = Some (Some p, r')"
      "ran_out (r\<lparr>fr_track := t'\<rparr>) r'"
    by (rule read_native_short [OF l'])
  have "mpack_read_bytes env (Some (replicate n 0)) n r = Some (Some p, r')"
    using t' r'(1) liveD(1) [OF l] by (simp add: mpack_read_bytes_def track_bytes_first_def)
  with ran_out_error [OF r'(2)] show thesis
    by (intro that) simp_all
qed

text \<open>What a sound way of reading one value gives, used for the elements below it.\<close>

definition sound_read ::
  "nat \<Rightarrow> skip_fn option \<Rightarrow> (ffi_reader \<Rightarrow> (cvalue \<times> ffi_reader) option) \<Rightarrow> nat \<Rightarrow> bool"
where
  "sound_read d skip one e \<longleftrightarrow> (\<forall>st st' r cv r'. tracked_reader fill skip good st r \<longrightarrow> wt_element st = (Inr (), st') \<longrightarrow>
     length st + e \<le> d \<longrightarrow> one r = Some (cv, r') \<longrightarrow> fr_error r' = MPACK_OK \<longrightarrow>
     (\<exists>bs v. value_bytes bs v \<and> cv = abi_value v \<and> height v \<le> e \<and> input rest r = bs @ input rest r'
        \<and> tracked_reader fill skip good st' r' \<and> same_frame r r'))"

lemma elements_sound:
  assumes one: "sound_read d skip one e" and k: "\<not> is_payload k" and depth: "Suc (length st) + e \<le> d"
  shows "tracked_reader fill skip good (\<lparr>te_kind = k, te_left = n\<rparr> # st) r \<Longrightarrow>
    c_read_elements one n r = Some (cvs, r') \<Longrightarrow> fr_error r' = MPACK_OK \<Longrightarrow>
    \<exists>bs vs. values_bytes bs vs \<and> length vs = n \<and> cvs = map abi_value vs \<and> (\<forall>v\<in>set vs. height v \<le> e)
      \<and> input rest r = bs @ input rest r' \<and> tracked_reader fill skip good (\<lparr>te_kind = k, te_left = 0\<rparr> # st) r'
      \<and> same_frame r r'"
proof (induction n arbitrary: r cvs)
  case 0
  then show ?case
    by (auto intro!: exI [of _ "[]"])
next
  case (Suc n)
  obtain cv r1 where 1: "one r = Some (cv, r1)"
    using Suc.prems(2) by (cases "one r") auto
  have ok: "fr_error r1 = MPACK_OK"
    using Suc.prems(2,3) 1 by (auto split: if_splits)
  obtain cvs' where 2: "c_read_elements one n r1 = Some (cvs', r')" "cvs = cv # cvs'"
    using Suc.prems(2) 1 ok by (auto simp: bind_eq_Some_conv)
  have el: "wt_element (\<lparr>te_kind = k, te_left = Suc n\<rparr> # st) = (Inr (), \<lparr>te_kind = k, te_left = n\<rparr> # st)"
    using k by (simp add: wt_element_def)
  have "length (\<lparr>te_kind = k, te_left = Suc n\<rparr> # st) + e \<le> d"
    using depth by simp
  with one Suc.prems(1) el 1 ok obtain b v where v: "value_bytes b v" "cv = abi_value v" "height v \<le> e"
      "input rest r = b @ input rest r1" "tracked_reader fill skip good (\<lparr>te_kind = k, te_left = n\<rparr> # st) r1" "same_frame r r1"
    unfolding sound_read_def by blast
  from Suc.IH [OF v(5) 2(1) Suc.prems(3)] obtain bs vs where vs: "values_bytes bs vs" "length vs = n"
      "cvs' = map abi_value vs" "\<forall>v\<in>set vs. height v \<le> e" "input rest r1 = bs @ input rest r'"
      "tracked_reader fill skip good (\<lparr>te_kind = k, te_left = 0\<rparr> # st) r'" "same_frame r1 r'"
    by blast
  have "values_bytes (b @ bs) (v # vs)"
    using v(1) vs(1) by (rule more_values)
  with v vs 2(2) same_frame_trans [OF v(6) vs(7)] show ?case
    by (intro exI [of _ "b @ bs"] exI [of _ "v # vs"]) (simp del: values_bytes_simps)
qed

lemma read_value_sound: "tracks_up_to env d \<Longrightarrow> sound_read d skip (c_read_value env e) e"
proof (induction e)
  case 0
  then show ?case
    by (simp add: sound_read_def c_read_value.simps)
next
  case (Suc e)
  note env = Suc.prems and one = Suc.IH [OF Suc.prems]
  show ?case
    unfolding sound_read_def
  proof (intro allI impI)
    fix st st' r cv r'
    assume r: "tracked_reader fill skip good st r" and el: "wt_element st = (Inr (), st')" and depth: "length st + Suc e \<le> d"
      and run: "c_read_value env (Suc e) r = Some (cv, r')" and ok: "fr_error r' = MPACK_OK"
    have d: "length st \<le> d" "length st' < d"
      using depth element_length [OF el] by simp_all
    have "has_header (input rest r)"
    proof (rule ccontr)
      assume "\<not> has_header (input rest r)"
      from tag_none [OF r el this env d(1)] obtain r1
        where "read_tag_impl env r = Some (mpack_tag_nil, r1)" "fr_error r1 \<noteq> MPACK_OK" .
      with run ok show False
        by (simp add: c_read_value.simps mpack_read_tag_def Let_def)
    qed
    then obtain hs t after where h: "header hs t" "input rest r = hs @ after"
      by (auto simp: has_header_def)
    obtain r1 where r1: "read_tag_impl env r = Some (tag_to_abi t, r1)" "tracked_reader fill skip good (opened t st') r1"
        "input rest r1 = after" "same_frame r r1"
      by (rule tag_step [OF r el h env d(1)])
    have ok1: "fr_error r1 = MPACK_OK"
      using liveD(1) [OF tracked_live [OF r1(2)]] .
    note start = run [unfolded c_read_value.simps mpack_read_tag_def r1(1)]
    show "\<exists>bs v. value_bytes bs v \<and> cv = abi_value v \<and> height v \<le> Suc e \<and> input rest r = bs @ input rest r'
        \<and> tracked_reader fill skip good st' r' \<and> same_frame r r'"
    proof (cases "opens t")
      case None
      then have "payload_len t = 0" "child_count t = 0"
        by (cases t; simp)+
      then have "value_bytes (hs @ [] @ []) (MValue t [] [])"
        using h(1) by (intro one_value) simp_all
      moreover have "height (MValue t [] []) \<le> Suc e"
        by (simp add: height_children)
      moreover have "cv = CValue (tag_to_abi t) [] []" "r' = r1"
        using start abi_type(3) [OF None] ok1 by (simp_all add: Let_def)
      ultimately show ?thesis
        using h(2) r1 None by (intro exI [of _ hs] exI [of _ "MValue t [] []"]) (simp add: opened_def)
    next
      case (Some k)
      have ty: "mt_type (tag_to_abi t) = kind_code k" and n: "tag_length (tag_to_abi t) = tag_len t"
        using Some abi_type(1,2) [of t] by simp_all
      note kinds = abi_cases [OF Some]
      show ?thesis
      proof (cases "is_payload k")
        case True
        let ?n = "payload_len t"
        have sizes: "unat (tag_len t) = ?n" "child_count t = 0"
          using kinds(3) [OF True] by simp_all
        have r1': "tracked_reader fill skip good (\<lparr>te_kind = k, te_left = ?n\<rparr> # st') r1"
          using r1(2) Some sizes by (simp add: opened_def)
        have fits: "?n \<le> length (input rest r1)"
        proof (rule ccontr)
          assume "\<not> ?n \<le> length (input rest r1)"
          then have "length (input rest r1) < ?n" by simp
          from payload_missing [OF r1' True this env d(2)] obtain p r2
            where "mpack_read_bytes env (Some (replicate ?n 0)) ?n r1 = Some (Some p, r2)" "fr_error r2 \<noteq> MPACK_OK" .
          with start ok ok1 kinds(1) [OF True] n sizes show False
            by (simp add: Let_def done_broken)
        qed
        obtain r2 where r2: "mpack_read_bytes env (Some (replicate ?n 0)) ?n r1 = Some (Some (take ?n (input rest r1)), r2)"
            "tracked_reader fill skip good (\<lparr>te_kind = k, te_left = 0\<rparr> # st') r2"
            "input rest r2 = drop ?n (input rest r1)" "same_frame r1 r2"
          by (rule payload_step [OF r1' True fits env d(2)])
        obtain r3 where r3: "done_type_impl (kind_code k) r2 = Some r3" "tracked_reader fill skip good st' r3"
            "input rest r3 = input rest r2" "same_frame r2 r3"
          by (rule done_step [OF r2(2) env d(2)])
        let ?pl = "take ?n after"
        have "value_bytes (hs @ ?pl @ []) (MValue t ?pl [])"
          using h(1) fits sizes r1(3) by (intro one_value) simp_all
        moreover have "height (MValue t ?pl []) \<le> Suc e"
          by (simp add: height_children)
        moreover have "cv = CValue (tag_to_abi t) ?pl []" "r' = r3"
          using start ok1 kinds(1) [OF True] n sizes r2(1) r3(1) ty r1(3) by (simp_all add: Let_def mpack_done_type_def)
        ultimately show ?thesis
          using h(2) r1(3) r2(3) r3 same_frame_trans [OF r1(4) same_frame_trans [OF r2(4) r3(4)]]
          by (intro exI [of _ "hs @ ?pl"] exI [of _ "MValue t ?pl []"]) simp
      next
        case False
        let ?n = "child_count t"
        have sizes: "payload_len t = 0" "(if kind_code k = TYPE_MAP then 2 * unat (tag_len t) else unat (tag_len t)) = ?n"
          using kinds(4) [OF False] ty by simp_all
        have r1': "tracked_reader fill skip good (\<lparr>te_kind = k, te_left = ?n\<rparr> # st') r1"
          using r1(2) Some sizes(1) by (simp add: opened_def)
        obtain cvs r2 where run2: "c_read_elements (c_read_value env e) ?n r1 = Some (cvs, r2)"
          and cv: "mpack_done_type (kind_code k) r2 = Some r'" "cv = CValue (tag_to_abi t) [] cvs"
          using start ok1 kinds(2) [OF False] n sizes(2) ty
          by (cases "c_read_elements (c_read_value env e) ?n r1"; cases "k = Kind_Map")
            (auto simp: Let_def types_distinct bind_eq_Some_conv)
        have ok2: "fr_error r2 = MPACK_OK"
          using cv(1) ok done_broken [of r2 "kind_code k"] by auto
        have "Suc (length st') + e \<le> d"
          using depth element_length [OF el] by simp
        from elements_sound [OF one False this r1' run2 ok2] obtain bs vs
          where vs: "values_bytes bs vs" "length vs = ?n" "cvs = map abi_value vs" "\<forall>v\<in>set vs. height v \<le> e"
            "input rest r1 = bs @ input rest r2" "tracked_reader fill skip good (\<lparr>te_kind = k, te_left = 0\<rparr> # st') r2"
            "same_frame r1 r2"
          by blast
        obtain r3 where r3: "done_type_impl (kind_code k) r2 = Some r3" "tracked_reader fill skip good st' r3"
            "input rest r3 = input rest r2" "same_frame r2 r3"
          by (rule done_step [OF vs(6) env d(2)])
        have "value_bytes (hs @ [] @ bs) (MValue t [] vs)"
          using h(1) sizes(1) vs(1,2) by (intro one_value) simp_all
        moreover have "height (MValue t [] vs) \<le> Suc e"
          using vs(4) by (simp only: height_children)
        moreover have "r' = r3"
          using cv(1) r3(1) by (simp add: mpack_done_type_def)
        ultimately show ?thesis
          using h(2) r1(3) cv(2) vs(3,5) r3 same_frame_trans [OF r1(4) same_frame_trans [OF vs(7) r3(4)]]
          by (intro exI [of _ "hs @ bs"] exI [of _ "MValue t [] vs"]) simp
      qed
    qed
  qed
qed

end

context fill_source begin

text \<open>Reading a value always comes to an end, with a value or an error: each nested value is shorter.\<close>

definition total_read ::
  "nat \<Rightarrow> skip_fn option \<Rightarrow> (ffi_reader \<Rightarrow> (cvalue \<times> ffi_reader) option) \<Rightarrow> nat \<Rightarrow> bool"
where
  "total_read d skip one e \<longleftrightarrow> (\<forall>st st' r. tracked_reader fill skip good st r \<longrightarrow> wt_element st = (Inr (), st') \<longrightarrow>
     length st + e \<le> d \<longrightarrow> length (input rest r) < e \<longrightarrow> (\<exists>cv r'. one r = Some (cv, r')))"

lemma elements_total:
  assumes total: "total_read d skip one e" and sound: "sound_read d skip one e" and k: "\<not> is_payload k"
    and depth: "Suc (length st) + e \<le> d"
  shows "tracked_reader fill skip good (\<lparr>te_kind = k, te_left = n\<rparr> # st) r \<Longrightarrow> length (input rest r) < e \<Longrightarrow>
    \<exists>cvs r'. c_read_elements one n r = Some (cvs, r')"
proof (induction n arbitrary: r)
  case (Suc n)
  have el: "wt_element (\<lparr>te_kind = k, te_left = Suc n\<rparr> # st) = (Inr (), \<lparr>te_kind = k, te_left = n\<rparr> # st)"
    using k by (simp add: wt_element_def)
  have d: "length (\<lparr>te_kind = k, te_left = Suc n\<rparr> # st) + e \<le> d"
    using depth by simp
  obtain cv r1 where 1: "one r = Some (cv, r1)"
    using total Suc.prems el d unfolding total_read_def by blast
  show ?case
  proof (cases "fr_error r1 = MPACK_OK")
    case True
    with sound Suc.prems(1) el d 1 obtain b v where v: "input rest r = b @ input rest r1"
        "tracked_reader fill skip good (\<lparr>te_kind = k, te_left = n\<rparr> # st) r1"
      unfolding sound_read_def by blast
    have "length (input rest r1) < e"
      using Suc.prems(2) v(1) by simp
    from Suc.IH [OF v(2) this] 1 True show ?thesis by auto
  qed (use 1 in simp)
qed simp

lemma read_value_total: "tracks_up_to env d \<Longrightarrow> total_read d skip (c_read_value env e) e"
proof (induction e)
  case 0
  then show ?case
    by (simp add: total_read_def)
next
  case (Suc e)
  note env = Suc.prems and one = Suc.IH [OF Suc.prems] read_value_sound [OF Suc.prems]
  show ?case
    unfolding total_read_def
  proof (intro allI impI)
    fix st st' r
    assume r: "tracked_reader fill skip good st r" and el: "wt_element st = (Inr (), st')" and depth: "length st + Suc e \<le> d"
      and short: "length (input rest r) < Suc e"
    have d: "length st \<le> d" "length st' < d" "Suc (length st') + e \<le> d"
      using depth element_length [OF el] by simp_all
    show "\<exists>cv r'. c_read_value env (Suc e) r = Some (cv, r')"
    proof (cases "has_header (input rest r)")
      case False
      from tag_none [OF r el this env d(1)] obtain r1
        where "read_tag_impl env r = Some (mpack_tag_nil, r1)" "fr_error r1 \<noteq> MPACK_OK" .
      then show ?thesis
        by (simp add: c_read_value.simps mpack_read_tag_def Let_def)
    next
      case True
      then obtain hs t after where h: "header hs t" "input rest r = hs @ after"
        by (auto simp: has_header_def)
      obtain r1 where r1: "read_tag_impl env r = Some (tag_to_abi t, r1)" "tracked_reader fill skip good (opened t st') r1"
          "input rest r1 = after" "same_frame r r1"
        by (rule tag_step [OF r el h env d(1)])
      have ok1: "fr_error r1 = MPACK_OK"
        using liveD(1) [OF tracked_live [OF r1(2)]] .
      have short1: "length (input rest r1) < e"
        using short h(2) r1(3) header_nonempty [OF h(1)] by (cases hs) simp_all
      show ?thesis
      proof (cases "opens t")
        case None
        with r1(1) ok1 abi_type(3) [OF None] show ?thesis
          by (simp add: c_read_value.simps mpack_read_tag_def Let_def)
      next
        case (Some k)
        have ty: "mt_type (tag_to_abi t) = kind_code k" and n: "tag_length (tag_to_abi t) = tag_len t"
          using Some abi_type(1,2) [of t] by simp_all
        note kinds = abi_cases [OF Some]
        show ?thesis
        proof (cases "is_payload k")
          case True
          let ?n = "payload_len t"
          have sizes: "unat (tag_len t) = ?n" "child_count t = 0"
            using kinds(3) [OF True] by simp_all
          have r1': "tracked_reader fill skip good (\<lparr>te_kind = k, te_left = ?n\<rparr> # st') r1"
            using r1(2) Some sizes by (simp add: opened_def)
          obtain p r2 r3 where r2: "mpack_read_bytes env (Some (replicate ?n 0)) ?n r1 = Some (Some p, r2)"
              "mpack_done_type (kind_code k) r2 = Some r3"
          proof (cases "?n \<le> length (input rest r1)")
            case True
            obtain r2 where r2: "mpack_read_bytes env (Some (replicate ?n 0)) ?n r1 = Some (Some (take ?n (input rest r1)), r2)"
                "tracked_reader fill skip good (\<lparr>te_kind = k, te_left = 0\<rparr> # st') r2"
              by (rule payload_step [OF r1' \<open>is_payload k\<close> True env d(2)])
            obtain r3 where "done_type_impl (kind_code k) r2 = Some r3"
              by (rule done_step [OF r2(2) env d(2)])
            with r2(1) show thesis
              by (intro that) (simp_all add: mpack_done_type_def)
          next
            case False
            then have "length (input rest r1) < ?n" by simp
            from payload_missing [OF r1' \<open>is_payload k\<close> this env d(2)] obtain p r2
              where "mpack_read_bytes env (Some (replicate ?n 0)) ?n r1 = Some (Some p, r2)" "fr_error r2 \<noteq> MPACK_OK" .
            then show thesis
              by (intro that [of p r2 r2]) (simp_all add: done_broken)
          qed
          with r1(1) ok1 kinds(1) [OF True] n sizes ty show ?thesis
            by (simp add: c_read_value.simps mpack_read_tag_def Let_def)
        next
          case False
          let ?n = "child_count t"
          have sizes: "payload_len t = 0" "(if kind_code k = TYPE_MAP then 2 * unat (tag_len t) else unat (tag_len t)) = ?n"
            using kinds(4) [OF False] ty by simp_all
          have r1': "tracked_reader fill skip good (\<lparr>te_kind = k, te_left = ?n\<rparr> # st') r1"
            using r1(2) Some sizes(1) by (simp add: opened_def)
          obtain cvs r2 where r2: "c_read_elements (c_read_value env e) ?n r1 = Some (cvs, r2)"
            using elements_total [OF one False d(3) r1' short1] by blast
          obtain r3 where "mpack_done_type (kind_code k) r2 = Some r3"
          proof (cases "fr_error r2 = MPACK_OK")
            case True
            from elements_sound [OF one(2) False d(3) r1' r2 this]
            have "tracked_reader fill skip good (\<lparr>te_kind = k, te_left = 0\<rparr> # st') r2" by blast
            then obtain r3 where "done_type_impl (kind_code k) r2 = Some r3"
              by (rule done_step [OF _ env d(2)])
            then show thesis
              by (intro that) (simp add: mpack_done_type_def)
          qed (use that [of r2] in \<open>simp add: done_broken\<close>)
          with r1(1) ok1 kinds(2) [OF False] n sizes ty r2 show ?thesis
            by (cases "k = Kind_Map") (simp_all add: types_distinct c_read_value.simps mpack_read_tag_def Let_def)
        qed
      qed
    qed
  qed
qed

text \<open>Together: a value is read without an error exactly when the input begins with one.\<close>

lemma read_value_exact:
  assumes r: "tracked_reader fill skip good st r" and el: "wt_element st = (Inr (), st')"
    and env: "tracks_up_to env d" and depth: "length st + e \<le> d" and e: "length (input rest r) < e"
  obtains cv r' where "c_read_value env e r = Some (cv, r')"
    and "fr_error r' = MPACK_OK \<longleftrightarrow> (\<exists>bs v after. value_bytes bs v \<and> input rest r = bs @ after)"
    and "\<forall>bs v after. value_bytes bs v \<and> input rest r = bs @ after \<longrightarrow>
      cv = abi_value v \<and> input rest r' = after \<and> tracked_reader fill skip good st' r'"
proof -
  obtain cv r' where run: "c_read_value env e r = Some (cv, r')"
    using read_value_total [OF env] r el depth e unfolding total_read_def by blast
  have good: "cv = abi_value v \<and> input rest r' = after \<and> tracked_reader fill skip good st' r'"
    if v: "value_bytes bs v" and i: "input rest r = bs @ after" for bs v after
  proof -
    have "height v \<le> e"
      using value_height(1) [OF v] i e by simp
    then have "length st + height v \<le> d" "height v \<le> e"
      using depth by simp_all
    from read_value_ok(1) [OF v r el i env this] run show ?thesis by auto
  qed
  have "fr_error r' = MPACK_OK \<longleftrightarrow> (\<exists>bs v after. value_bytes bs v \<and> input rest r = bs @ after)"
  proof
    assume ok: "fr_error r' = MPACK_OK"
    from read_value_sound [OF env] r el depth run ok show "\<exists>bs v after. value_bytes bs v \<and> input rest r = bs @ after"
      unfolding sound_read_def by blast
  next
    assume "\<exists>bs v after. value_bytes bs v \<and> input rest r = bs @ after"
    with good liveD(1) [OF tracked_live] show "fr_error r' = MPACK_OK" by blast
  qed
  with run good show thesis
    by (intro that) blast+
qed

text \<open>A sequence of values at the top level.\<close>

lemma stream_read:
  "values_bytes bs vs \<Longrightarrow> tracked_reader fill skip good [] r \<Longrightarrow> input rest r = bs @ after \<Longrightarrow> tracks_up_to env d \<Longrightarrow>
    \<forall>v\<in>set vs. height v \<le> d \<Longrightarrow>
    \<exists>r'. c_read_elements (c_read_value env d) (length vs) r = Some (map abi_value vs, r')
      \<and> tracked_reader fill skip good [] r' \<and> input rest r' = after \<and> same_frame r r'"
proof (induction vs arbitrary: bs r)
  case Nil
  then show ?case
    by (intro exI [of _ r]) simp
next
  case (Cons v vs)
  then obtain b bs' where b: "bs = b @ bs'" "value_bytes b v" "values_bytes bs' vs"
    by auto
  have el: "wt_element [] = (Inr (), [])"
    by (simp add: wt_element_def)
  have h: "length ([] :: write_tracker) + height v \<le> d" "height v \<le> d"
    using Cons.prems(5) by simp_all
  have i: "input rest r = b @ (bs' @ after)"
    using Cons.prems(3) b(1) by simp
  from read_value_ok(1) [OF b(2) Cons.prems(2) el i Cons.prems(4) h] obtain r1
    where r1: "c_read_value env d r = Some (abi_value v, r1)" "tracked_reader fill skip good [] r1"
      "input rest r1 = bs' @ after" "same_frame r r1"
    by blast
  from Cons.IH [OF b(3) r1(2,3) Cons.prems(4)] Cons.prems(5) obtain r2
    where "c_read_elements (c_read_value env d) (length vs) r1 = Some (map abi_value vs, r2)"
      "tracked_reader fill skip good [] r2" "input rest r2 = after" "same_frame r1 r2"
    by auto
  with r1 liveD(1) [OF tracked_live [OF r1(2)]] same_frame_trans [OF r1(4)] show ?case
    by (intro exI [of _ r2]) simp
qed

end

end
