(* ===== verification/Ffi_Reader_Sources.thy ===== *)
theory Ffi_Reader_Sources
  imports Ffi_Reader_Discard Ffi_Reader_Sound
begin

section \<open>The sources of the C reader\<close>

text \<open>
  The three places a C reader gets its input from provide the interfaces \<open>fill_source\<close> and \<open>skip_source\<close>: data in
  memory (no fill callback at all), a file (\<open>file_reader_fill\<close> and \<open>file_reader_skip\<close> of the crate), and a fill
  callback of the C program. What the C standard or the header of MPack promise of the code outside is
  \<open>regular_file\<close> and \<open>delivering\<close>; \<open>file_env\<close> and \<open>callback_env\<close> put an environment that keeps it in the place
  of one that does not, so that the interpretations hold for every environment.
\<close>

definition stream_rest :: "c_stream option \<Rightarrow> u8 list" where
  "stream_rest c = (case c of None \<Rightarrow> [] | Some s \<Rightarrow> cs_rest s)"

definition stream_good :: "c_stream option \<Rightarrow> bool" where
  "stream_good c \<longleftrightarrow> (\<exists>s. c = Some s \<and> (cs_eof s \<longrightarrow> cs_rest s = []) \<and> length (cs_rest s) < 2 ^ 63)"

text \<open>A regular file without read errors: \<open>fread\<close> gives some of what is left unless nothing is left, and the
  end-of-file indicator is set only at the end; \<open>fseek\<close> within the file moves the position, or fails and
  leaves it.\<close>

definition reads_file :: "reader_env \<Rightarrow> bool" where
  "reads_file env \<longleftrightarrow> (\<forall>n s bs s'. re_fread env n s = (bs, s') \<longrightarrow>
     cs_rest s = bs @ cs_rest s' \<and> length bs \<le> n \<and> (0 < n \<and> cs_rest s \<noteq> [] \<longrightarrow> bs \<noteq> [])
     \<and> (cs_eof s' \<longrightarrow> cs_rest s' = []))"

definition seeks_file :: "reader_env \<Rightarrow> bool" where
  "seeks_file env \<longleftrightarrow> (\<forall>n s res s'. n \<le> length (cs_rest s) \<longrightarrow> re_fseek env (int n) s = (res, s') \<longrightarrow>
     (if res = 0 then cs_rest s' = drop n (cs_rest s) \<and> \<not> cs_eof s'
      else s' = s \<and> \<not> re_ferror env s'))"

definition regular_file :: "reader_env \<Rightarrow> bool" where
  "regular_file env \<longleftrightarrow> reads_file env \<and> seeks_file env"

text \<open>A fill callback of a C program as \<open>mpack-reader.h\<close> asks for it, over a stream of its own.\<close>

definition delivering :: "reader_env \<Rightarrow> bool" where
  "delivering env \<longleftrightarrow> (\<forall>n r s. 0 < n \<and> fr_context r = Some s \<longrightarrow>
     (\<exists>bs s'. re_fill env n r = (Some bs, r\<lparr>fr_context := Some s'\<rparr>) \<and> cs_rest s = bs @ cs_rest s'
        \<and> length bs \<le> n \<and> (cs_rest s \<noteq> [] \<longrightarrow> bs \<noteq> [])))"

definition plain_env :: reader_env where
  "plain_env = \<lparr>re_malloc = (\<lambda>n. if n \<le> 100000 then Some (replicate n 0) else None), re_force_fail = False,
     re_fopen = (\<lambda>_. None), re_fclose = 0,
     re_fread = (\<lambda>n s. (take n (cs_rest s), \<lparr>cs_rest = drop n (cs_rest s), cs_eof = length (cs_rest s) < n\<rparr>)),
     re_ftell = (\<lambda>_. 0), re_fseek = (\<lambda>k s. (0, \<lparr>cs_rest = drop (nat k) (cs_rest s), cs_eof = False\<rparr>)),
     re_ferror = (\<lambda>_. False),
     re_fill = (\<lambda>n r. case fr_context r of None \<Rightarrow> (Some [], r)
       | Some s \<Rightarrow> (Some (take 1 (cs_rest s)), r\<lparr>fr_context := Some (s\<lparr>cs_rest := drop 1 (cs_rest s)\<rparr>)\<rparr>)),
     re_skip = (\<lambda>_ r. r), re_teardown = (\<lambda>r. r)\<rparr>"

lemma plain_env: "regular_file plain_env" "delivering plain_env"
  by (auto simp: plain_env_def regular_file_def reads_file_def seeks_file_def delivering_def)

definition file_env :: "reader_env \<Rightarrow> reader_env" where
  "file_env env = (if regular_file env then env else plain_env)"

definition callback_env :: "reader_env \<Rightarrow> reader_env" where
  "callback_env env = (if delivering env then env else plain_env)"

lemma file_env [simp]: "regular_file (file_env env)" "regular_file env \<Longrightarrow> file_env env = env"
  by (simp_all add: file_env_def plain_env)

lemma callback_env [simp]: "delivering (callback_env env)" "delivering env \<Longrightarrow> callback_env env = env"
  by (simp_all add: callback_env_def plain_env)

subsection \<open>Data in memory\<close>

interpretation memory_source: skip_source env None "\<lambda>_. []" "\<lambda>_. True" None for env
  by unfold_locales simp_all

subsection \<open>A callback of the C program\<close>

definition some_context :: "c_stream option \<Rightarrow> bool" where
  "some_context c \<longleftrightarrow> c \<noteq> None"

interpretation callback_source: skip_source "callback_env env" "Some User_Fill" stream_rest some_context None for env
proof unfold_locales
  fix f n and r :: ffi_reader
  assume *: "Some User_Fill = Some f" "some_context (fr_context r)" "0 < (n :: nat)"
  then obtain s where s: "fr_context r = Some s"
    by (auto simp: some_context_def)
  with *(3) callback_env(1) [of env] obtain bs s' where fill: "re_fill (callback_env env) n r = (Some bs, r\<lparr>fr_context := Some s'\<rparr>)"
      "cs_rest s = bs @ cs_rest s'" "length bs \<le> n" "cs_rest s \<noteq> [] \<longrightarrow> bs \<noteq> []"
    unfolding delivering_def by blast
  show "\<exists>bs c. call_fill (callback_env env) f n r = Some (Some bs, r\<lparr>fr_context := c\<rparr>) \<and> bs \<noteq> [] \<and> length bs \<le> n
      \<and> stream_rest (fr_context r) = bs @ stream_rest c \<and> some_context c" if "stream_rest (fr_context r) \<noteq> []"
    using *(1) s fill that
    by (intro exI [of _ bs] exI [of _ "Some s'"]) (simp add: call_fill_def stream_rest_def some_context_def)
  show "\<exists>c e. call_fill (callback_env env) f n r = Some (Some [], flag_error_on e (r\<lparr>fr_context := c\<rparr>))
      \<and> e \<in> {MPACK_OK, MPACK_ERROR_IO, MPACK_ERROR_EOF}" if "stream_rest (fr_context r) = []"
    using *(1) s fill that
    by (intro exI [of _ "Some s'"] exI [of _ MPACK_OK]) (simp add: call_fill_def stream_rest_def flag_error_on_def)
qed simp_all

subsection \<open>A file\<close>

lemma file_fill_step:
  assumes "reads_file env" and "stream_good (fr_context r)" and "0 < n"
  shows "\<exists>bs s'. (if stream_rest (fr_context r) = []
      then \<exists>e. call_fill env File_Reader_Fill n r = Some (Some [], flag_error_on e (r\<lparr>fr_context := Some s'\<rparr>))
        \<and> e \<in> {MPACK_OK, MPACK_ERROR_IO, MPACK_ERROR_EOF}
      else call_fill env File_Reader_Fill n r = Some (Some bs, r\<lparr>fr_context := Some s'\<rparr>) \<and> bs \<noteq> [] \<and> length bs \<le> n
        \<and> stream_rest (fr_context r) = bs @ stream_rest (Some s') \<and> stream_good (Some s'))"
proof -
  obtain s where s: "fr_context r = Some s" "cs_eof s \<longrightarrow> cs_rest s = []" "length (cs_rest s) < 2 ^ 63"
    using assms(2) by (auto simp: stream_good_def)
  obtain bs s' where read: "re_fread env n s = (bs, s')"
    by fastforce
  with assms(1) have f: "cs_rest s = bs @ cs_rest s'" "length bs \<le> n" "0 < n \<and> cs_rest s \<noteq> [] \<longrightarrow> bs \<noteq> []"
      "cs_eof s' \<longrightarrow> cs_rest s' = []"
    unfolding reads_file_def by blast+
  show ?thesis
  proof (cases "cs_eof s")
    case True
    have same: "r\<lparr>fr_context := Some s\<rparr> = r"
      using s(1) by simp
    have "call_fill env File_Reader_Fill n r = Some (Some [], flag_error_on MPACK_ERROR_EOF (r\<lparr>fr_context := Some s\<rparr>))"
      unfolding same using True s by (simp add: call_fill_def file_reader_fill_def)
    moreover have "stream_rest (fr_context r) = []"
      using True s by (simp add: stream_rest_def)
    ultimately show ?thesis by auto
  next
    case False
    have same: "flag_error_on MPACK_OK u = u" for u
      by (simp add: flag_error_on_def)
    show ?thesis
    proof (cases "cs_rest s = []")
      case True
      then have "bs = []"
        using f(1) by simp
      then have "call_fill env File_Reader_Fill n r = Some (Some [], flag_error_on MPACK_OK (r\<lparr>fr_context := Some s'\<rparr>))"
        unfolding same using \<open>\<not> cs_eof s\<close> s(1) read by (simp add: call_fill_def file_reader_fill_def)
      moreover have "stream_rest (fr_context r) = []"
        using True s(1) by (simp add: stream_rest_def)
      ultimately show ?thesis by auto
    next
      case False
      have "call_fill env File_Reader_Fill n r = Some (Some bs, r\<lparr>fr_context := Some s'\<rparr>)"
        using \<open>\<not> cs_eof s\<close> s(1) read by (simp add: call_fill_def file_reader_fill_def)
      moreover have "length (cs_rest s') < 2 ^ 63"
        using s(3) f(1) by simp
      then have "stream_good (Some s')"
        using f(4) by (simp add: stream_good_def)
      moreover have "stream_rest (fr_context r) = bs @ stream_rest (Some s')" "stream_rest (fr_context r) \<noteq> []"
        using s(1) f(1) False by (simp_all add: stream_rest_def)
      moreover have "bs \<noteq> []"
        using f(3) False assms(3) by blast
      ultimately show ?thesis
        using f(2) by (intro exI [of _ bs] exI [of _ s']) (simp only: if_False simp_thms)
    qed
  qed
qed

interpretation file_fill: fill_source "file_env env" "Some File_Reader_Fill" stream_rest stream_good for env
proof unfold_locales
  fix f n and r :: ffi_reader
  assume *: "Some File_Reader_Fill = Some f" "stream_good (fr_context r)" "0 < (n :: nat)"
  have "reads_file (file_env env)"
    using file_env(1) [of env] by (simp add: regular_file_def)
  note step = file_fill_step [OF this *(2,3)]
  show "\<exists>bs c. call_fill (file_env env) f n r = Some (Some bs, r\<lparr>fr_context := c\<rparr>) \<and> bs \<noteq> [] \<and> length bs \<le> n
      \<and> stream_rest (fr_context r) = bs @ stream_rest c \<and> stream_good c" if "stream_rest (fr_context r) \<noteq> []"
    using step *(1) that by auto
  show "\<exists>c e. call_fill (file_env env) f n r = Some (Some [], flag_error_on e (r\<lparr>fr_context := c\<rparr>))
      \<and> e \<in> {MPACK_OK, MPACK_ERROR_IO, MPACK_ERROR_EOF}" if "stream_rest (fr_context r) = []"
    using step *(1) that by auto
qed simp_all

interpretation file_source: skip_source "file_env env" "Some File_Reader_Fill" stream_rest stream_good "Some File_Reader_Skip" for env
proof unfold_locales
  fix s f n and r :: ffi_reader
  assume *: "Some File_Reader_Skip = Some s" "live (Some File_Reader_Fill) (Some File_Reader_Skip) stream_good r"
      "ahead r = []" "0 < (n :: nat)" "n \<le> length (stream_rest (fr_context r))"
  let ?goal = "\<lambda>r'. live (Some File_Reader_Fill) (Some File_Reader_Skip) stream_good r' \<and> same_setup r r'
    \<and> input stream_rest r' = drop n (stream_rest (fr_context r))"
  note facts = liveD [OF *(2)]
  obtain st where st: "fr_context r = Some st" "cs_eof st \<longrightarrow> cs_rest st = []" "length (cs_rest st) < 2 ^ 63"
    using facts(7) by (auto simp: stream_good_def)
  have small: "n \<le> length (cs_rest st)" "n < 2 ^ 63"
    using *(5) st by (simp_all add: stream_rest_def)
  have "sint (word_of_int (int n) :: i64) = int n"
    by (simp only: signed_of_int) (use small(2) in \<open>simp add: signed_take_bit_int_eq_self_iff\<close>)
  then have n: "sint (word_of_nat n :: i64) = int n"
    by simp
  have "ready (Some File_Reader_Fill) (Some File_Reader_Skip) stream_good r"
    using facts by (simp add: ready_def)
  from file_fill.skip_using_fill_ok [OF refl this *(4,5), of env] obtain r1
    where r1: "skip_using_fill (file_env env) n r = Some r1" "?goal r1" by blast
  have "\<exists>r'. file_reader_skip (file_env env) n r = Some r' \<and> ?goal r'"
  proof (cases "re_ftell (file_env env) st \<ge> 0")
    case False
    with r1 facts(1) st(1) show ?thesis
      by (simp add: file_reader_skip_def)
  next
    case True
    obtain res st' where seek: "re_fseek (file_env env) (int n) st = (res, st')"
      by fastforce
    have "seeks_file (file_env env)"
      using file_env(1) [of env] by (simp add: regular_file_def)
    then have ok: "if res = 0 then cs_rest st' = drop n (cs_rest st) \<and> \<not> cs_eof st'
        else st' = st \<and> \<not> re_ferror (file_env env) st'"
      using small(1) seek unfolding seeks_file_def by blast
    show ?thesis
    proof (cases "res = 0")
      case True
      have "file_reader_skip (file_env env) n r = Some (r\<lparr>fr_context := Some st'\<rparr>)"
        using True \<open>re_ftell (file_env env) st \<ge> 0\<close> facts(1) st(1) seek n by (simp add: file_reader_skip_def)
      moreover have "stream_good (Some st')"
        using ok True st(3) by (auto simp: stream_good_def)
      then have "?goal (r\<lparr>fr_context := Some st'\<rparr>)"
        using *(2,3) ok True st
        by (simp add: live_def cursor_ok_def buffer_ok_def input_def ahead_def stream_rest_def
            cong: option.case_cong)
      ultimately show ?thesis by blast
    next
      case False
      have same: "r\<lparr>fr_context := Some st\<rparr> = r"
        using st(1) by simp
      have "skip_using_fill (file_env env) n (r\<lparr>fr_context := Some st\<rparr>) = Some r1"
        by (simp only: same r1(1))
      moreover have "st' = st" "\<not> re_ferror (file_env env) st"
        using ok False by auto
      ultimately show ?thesis
        using False True facts(1) st(1) seek n r1(2) by (simp add: file_reader_skip_def Let_def)
    qed
  qed
  with *(1) show "\<exists>r'. call_skip (file_env env) s n r = Some r' \<and> live (Some File_Reader_Fill) (Some File_Reader_Skip) stream_good r'
      \<and> same_setup r r' \<and> input stream_rest r' = drop n (stream_rest (fr_context r))"
    by (auto simp: call_skip_def)
qed

end
