(* ===== verification/Ffi_Reader_Theorems.thy ===== *)
theory Ffi_Reader_Theorems
  imports Ffi_Reader_Sources Ffi_Writer_Theorems
begin

section \<open>Properties of the C reader\<close>

subsection \<open>From initialisation to teardown\<close>

lemma reader_tracked:
  assumes "tracks_up_to env d" and "\<not> re_force_fail env"
  obtains t where "reader_track_init env r = r\<lparr>fr_track := t\<rparr>" and "c_rep t []"
proof -
  have "re_malloc env 36 \<noteq> None" "allocator_ok (re_malloc env)"
    using assms(1) by (simp_all add: tracks_up_to_def)
  from track_init_rep [of "re_malloc env", OF this] obtain t where "track_init False (re_malloc env) (fr_track r) = (MPACK_OK, t)" "track_rep t []"
    by blast
  with assms(2) show thesis
    by (intro that [of t]) (simp_all add: reader_track_init_def c_rep_def)
qed

lemma start_data:
  fixes bs :: "u8 list"
  assumes "tracks_up_to env d" and "\<not> re_force_fail env"
  defines "r \<equiv> mpack_reader_init_data env (Some bs) (length bs)"
  shows "tracked_reader None None (\<lambda>_. True) [] r" and "input (\<lambda>_. []) r = bs"
proof -
  let ?r = "empty_reader\<lparr>fr_window := Some bs, fr_data := 0, fr_end := length bs\<rparr>"
  obtain t where "reader_track_init env ?r = ?r\<lparr>fr_track := t\<rparr>" "c_rep t []"
    using reader_tracked [OF assms(1,2)] .
  then show "tracked_reader None None (\<lambda>_. True) [] r" "input (\<lambda>_. []) r = bs"
    by (simp_all add: r_def mpack_reader_init_data_def tracked_reader_def live_def cursor_ok_def empty_reader_def
        input_def ahead_def)
qed

lemma start_callback:
  fixes s :: c_stream
  assumes "tracks_up_to env d" and "\<not> re_force_fail env" and "32 \<le> sz" and "sz \<le> length buf"
  defines "r \<equiv> (mpack_reader_set_fill (Some User_Fill) (mpack_reader_init env (Some buf) sz 0))\<lparr>fr_context := Some s\<rparr>"
  shows "tracked_reader (Some User_Fill) None some_context [] r" and "input stream_rest r = cs_rest s"
proof -
  let ?r = "empty_reader\<lparr>fr_window := Some buf, fr_has_buffer := True, fr_size := sz, fr_data := 0, fr_end := 0\<rparr>"
  obtain t where "reader_track_init env ?r = ?r\<lparr>fr_track := t\<rparr>" "c_rep t []"
    using reader_tracked [OF assms(1,2)] .
  with assms(3,4) show "tracked_reader (Some User_Fill) None some_context [] r" "input stream_rest r = cs_rest s"
    by (simp_all add: r_def mpack_reader_init_def mpack_reader_set_fill_def READER_MINIMUM_BUFFER_SIZE_def tracked_reader_def
        live_def cursor_ok_def buffer_ok_def some_context_def empty_reader_def input_def ahead_def stream_rest_def)
qed

lemma start_file:
  fixes close_it :: bool
  assumes "tracks_up_to env d" and "\<not> re_force_fail env" and "re_malloc env OWNED_BUFFER_CAPACITY \<noteq> None"
    and "stream_good (Some s)"
  defines "r \<equiv> mpack_reader_init_stdfile env (Some s) close_it"
  shows "tracked_reader (Some File_Reader_Fill) (Some File_Reader_Skip) stream_good [] r"
    and "input stream_rest r = cs_rest s"
    and "fr_teardown r = Some (if close_it then File_Reader_Teardown_Close else File_Reader_Teardown)"
proof -
  obtain buf where buf: "re_malloc env OWNED_BUFFER_CAPACITY = Some buf" "length buf = OWNED_BUFFER_CAPACITY"
    using assms(1,3) by (auto simp: tracks_up_to_def allocator_ok_def)
  let ?r = "empty_reader\<lparr>fr_window := Some buf, fr_has_buffer := True, fr_size := OWNED_BUFFER_CAPACITY, fr_data := 0,
    fr_end := 0, fr_context := Some s, fr_fill := Some File_Reader_Fill, fr_skip := Some File_Reader_Skip,
    fr_teardown := Some (if close_it then File_Reader_Teardown_Close else File_Reader_Teardown)\<rparr>"
  obtain t where t: "reader_track_init env ?r = ?r\<lparr>fr_track := t\<rparr>" "c_rep t []"
    using reader_tracked [OF assms(1,2)] .
  then have r: "r = ?r\<lparr>fr_track := t\<rparr>"
    using buf(1) by (simp add: r_def mpack_reader_init_stdfile_def init_stdfile_impl_def)
  show "tracked_reader (Some File_Reader_Fill) (Some File_Reader_Skip) stream_good [] r"
      "input stream_rest r = cs_rest s"
    unfolding r using t(2) buf(2) assms(4)
    by (simp_all add: tracked_reader_def live_def cursor_ok_def buffer_ok_def OWNED_BUFFER_CAPACITY_def empty_reader_def
        input_def ahead_def stream_rest_def)
  show "fr_teardown r = Some (if close_it then File_Reader_Teardown_Close else File_Reader_Teardown)"
    unfolding r by simp
qed

lemma same_frame_teardown: "same_frame r r' \<Longrightarrow> fr_teardown r' = fr_teardown r"
  by (simp add: same_frame_def same_setup_def)

text \<open>The outcome of closing a file.\<close>

definition close_outcome :: "reader_env \<Rightarrow> bool \<Rightarrow> c_int" where
  "close_outcome env close_it = (if close_it \<and> re_fclose env \<noteq> 0 then MPACK_ERROR_IO else MPACK_OK)"

lemma destroy_file_reader:
  assumes r: "tracked_reader (Some File_Reader_Fill) (Some File_Reader_Skip) stream_good [] r"
    and td: "fr_teardown r = Some (if close_it then File_Reader_Teardown_Close else File_Reader_Teardown)"
  shows "\<exists>r'. mpack_reader_destroy env r = Some (close_outcome env close_it, r')"
proof -
  have l: "live (Some File_Reader_Fill) (Some File_Reader_Skip) stream_good r" "track_check_empty (fr_track r) = MPACK_OK"
    using r by (simp_all add: tracked_reader_def closed_tracker)
  obtain s where "fr_context r = Some s"
    using liveD(7) [OF l(1)] by (auto simp: stream_good_def)
  with l(2) liveD(1) [OF l(1)] td show ?thesis
    by (simp add: mpack_reader_destroy_def track_destroy_def Let_def call_reader_teardown_def file_reader_teardown_def
        file_reader_teardown_close_def close_outcome_def)
qed

lemma tracks_plain: "24 * d + 36 \<le> 100000 \<Longrightarrow> tracks_up_to plain_env d"
  by (auto simp: tracks_up_to_def allocator_ok_def plain_env_def isize_max_def)

lemma no_force_plain: "\<not> re_force_fail plain_env"
  by (simp add: plain_env_def)

lemma wt_element_top: "wt_element [] = (Inr (), [])"
  by (simp add: wt_element_def)

subsection \<open>Reading values\<close>

lemma file_reads:
  fixes close_it :: bool
  assumes "regular_file env" and "tracks_up_to env d" and "\<not> re_force_fail env"
    and "re_malloc env OWNED_BUFFER_CAPACITY \<noteq> None" and "stream_good (Some s)"
    and "values_bytes bs vs" and "\<forall>v\<in>set vs. height v \<le> d" and "cs_rest s = bs @ after"
  obtains r r' where "c_read_elements (c_read_value env d) (length vs) (mpack_reader_init_stdfile env (Some s) close_it)
      = Some (map abi_value vs, r)"
    and "fr_error r = MPACK_OK" and "input stream_rest r = after"
    and "mpack_reader_destroy env r = Some (close_outcome env close_it, r')"
proof -
  note start = start_file [OF assms(2-5), of close_it]
  have i: "input stream_rest (mpack_reader_init_stdfile env (Some s) close_it) = bs @ after"
    using start(2) assms(8) by simp
  from file_fill.stream_read [where env = env, unfolded file_env(2) [OF assms(1)], OF assms(6) start(1) i assms(2,7)]
  obtain r where r: "c_read_elements (c_read_value env d) (length vs) (mpack_reader_init_stdfile env (Some s) close_it)
        = Some (map abi_value vs, r)"
      "tracked_reader (Some File_Reader_Fill) (Some File_Reader_Skip) stream_good [] r" "input stream_rest r = after"
      "same_frame (mpack_reader_init_stdfile env (Some s) close_it) r"
    by blast
  have td: "fr_teardown r = Some (if close_it then File_Reader_Teardown_Close else File_Reader_Teardown)"
    using same_frame_teardown [OF r(4)] start(3) by simp
  obtain r' where "mpack_reader_destroy env r = Some (close_outcome env close_it, r')"
    using destroy_file_reader [OF r(2) td] by blast
  with r(1,3) liveD(1) [OF tracked_live [OF r(2)]] show thesis
    by (intro that [of r r'])
qed

text \<open>A reader over a fill callback of the C program, the way a C program sets it up.\<close>

definition callback_reader :: "reader_env \<Rightarrow> u8 list \<Rightarrow> nat \<Rightarrow> c_stream \<Rightarrow> ffi_reader" where
  "callback_reader env buf sz s =
     (mpack_reader_set_fill (Some User_Fill) (mpack_reader_init env (Some buf) sz 0))\<lparr>fr_context := Some s\<rparr>"

text \<open>C20. A C program that reads a value through a fill callback gets the value without an error exactly when
  what the callback delivers begins with an encoding of a value; it gets that value, and the bytes behind it
  are what is left. How the callback cuts the input, and how large the buffer is, makes no difference. The
  reading always ends, with a value or with an error, and is never undefined behaviour.\<close>

theorem callback_reader_reads_exactly:
  assumes "delivering env" and "tracks_up_to env d" and "\<not> re_force_fail env" and "32 \<le> sz" and "sz \<le> length buf"
    and "length (cs_rest s) < d"
  shows "\<exists>cv r. c_read_value env d (callback_reader env buf sz s) = Some (cv, r)
    \<and> (fr_error r = MPACK_OK \<longleftrightarrow> (\<exists>bs v after. value_bytes bs v \<and> cs_rest s = bs @ after))
    \<and> (\<forall>bs v after. value_bytes bs v \<and> cs_rest s = bs @ after \<longrightarrow> cv = abi_value v \<and> input stream_rest r = after)"
proof -
  note start = start_callback [OF assms(2-5), where s = s, folded callback_reader_def]
  have "length ([] :: write_tracker) + d \<le> d" "length (input stream_rest (callback_reader env buf sz s)) < d"
    using assms(6) start(2) by simp_all
  from callback_source.read_value_exact [where env = env, unfolded callback_env(2) [OF assms(1)],
      OF start(1) wt_element_top assms(2) this, unfolded start(2)]
  obtain cv r where 1: "c_read_value env d (callback_reader env buf sz s) = Some (cv, r)"
      "fr_error r = MPACK_OK \<longleftrightarrow> (\<exists>bs v after. value_bytes bs v \<and> cs_rest s = bs @ after)"
    and 2: "\<forall>bs v after. value_bytes bs v \<and> cs_rest s = bs @ after \<longrightarrow> cv = abi_value v \<and> input stream_rest r = after
      \<and> tracked_reader (Some User_Fill) None some_context [] r" .
  from 2 have "\<forall>bs v after. value_bytes bs v \<and> cs_rest s = bs @ after \<longrightarrow> cv = abi_value v \<and> input stream_rest r = after"
    by blast
  with 1 show ?thesis by (intro exI conjI)
qed

theorem callback_reader_reads_exactly_witness:
  "\<exists>cv r. c_read_value plain_env 10 (callback_reader plain_env (replicate 40 7) 40 \<lparr>cs_rest = [0x92, 0xa1, 65, 0xc0, 0xc0], cs_eof = False\<rparr>)
     = Some (cv, r) \<and> fr_error r = MPACK_OK
   \<and> cv = CValue (tag_to_abi (Tag_Array 2)) [] [CValue (tag_to_abi (Tag_Str 1)) [65] [], CValue (tag_to_abi Tag_Nil) [] []]
   \<and> input stream_rest r = [0xc0]"
proof -
  let ?v = "MValue (Tag_Array 2) [] [MValue (Tag_Str 1) [65] [], MValue Tag_Nil [] []]"
  let ?s = "\<lparr>cs_rest = [0x92, 0xa1, 65, 0xc0, 0xc0], cs_eof = False\<rparr>"
  have "enc_value ?v = [0x92, 0xa1, 65, 0xc0]"
    by (simp add: enc_array_def enc_str_def enc_uint_def)
  moreover have "value_bytes (enc_value ?v) (normal_value ?v)"
    by (rule value_bytes_enc) simp
  ultimately have v: "value_bytes [0x92, 0xa1, 65, 0xc0] ?v"
    by (simp only:) simp
  have env: "tracks_up_to plain_env 10" "32 \<le> (40 :: nat)" "40 \<le> length (replicate 40 (7 :: u8))" "length (cs_rest ?s) < 10"
    by (simp_all add: tracks_plain)
  from callback_reader_reads_exactly [OF plain_env(2) env(1) no_force_plain env(2-4)]
  obtain cv r where r: "c_read_value plain_env 10 (callback_reader plain_env (replicate 40 7) 40 ?s) = Some (cv, r)"
      "fr_error r = MPACK_OK \<longleftrightarrow> (\<exists>bs v after. value_bytes bs v \<and> cs_rest ?s = bs @ after)"
      "\<And>bs v after. value_bytes bs v \<and> cs_rest ?s = bs @ after \<Longrightarrow> cv = abi_value v \<and> input stream_rest r = after"
    by blast
  have i: "value_bytes [0x92, 0xa1, 65, 0xc0] ?v \<and> cs_rest ?s = [0x92, 0xa1, 65, 0xc0] @ [0xc0]"
    using v by simp
  have "fr_error r = MPACK_OK"
    using r(2) i by blast
  with r(1) r(3) [OF i] show ?thesis
    by (intro exI [of _ cv] exI [of _ r]) simp
qed

text \<open>C21. A C reader on a file whose contents go on with the encodings of some values reads exactly these values,
  in any of the encodings the format allows; it leaves the rest of the file unread, and the reader can be
  destroyed without an error unless closing the file fails.\<close>

theorem file_reader_reads_values:
  assumes "regular_file env" and "tracks_up_to env d" and "\<not> re_force_fail env"
    and "re_malloc env OWNED_BUFFER_CAPACITY \<noteq> None" and "stream_good (Some s)"
    and "values_bytes bs vs" and "\<forall>v\<in>set vs. height v \<le> d" and "cs_rest s = bs @ after"
  shows "\<exists>r r'. c_read_elements (c_read_value env d) (length vs) (mpack_reader_init_stdfile env (Some s) close_it)
      = Some (map abi_value vs, r)
    \<and> fr_error r = MPACK_OK \<and> input stream_rest r = after
    \<and> mpack_reader_destroy env r = Some (close_outcome env close_it, r')"
  using file_reads [OF assms] by blast

theorem file_reader_reads_values_witness:
  "\<exists>r r'. c_read_elements (c_read_value plain_env 3) 2
       (mpack_reader_init_stdfile plain_env (Some \<lparr>cs_rest = [0xdc, 0, 1, 0xc0, 0xa1, 65, 7], cs_eof = False\<rparr>) True)
      = Some (map abi_value two_values, r)
    \<and> input stream_rest r = [7] \<and> mpack_reader_destroy plain_env r = Some (MPACK_OK, r')"
proof -
  let ?s = "\<lparr>cs_rest = [0xdc, 0, 1, 0xc0, 0xa1, 65, 7], cs_eof = False\<rparr>"
  have h: "header [0xdc, 0, 1] (Tag_Array 1)" "header [0xc0] Tag_Nil" "header [0xa1] (Tag_Str 1)"
    using array16 [of 1] fixstr [of 1] by (simp_all add: to_be_bytes_def numeral_2_eq_2 header.nil)
  have "value_bytes ([0xc0] @ [] @ []) (MValue Tag_Nil [] [])"
    using h(2) by (intro one_value) simp_all
  then have "values_bytes ([0xc0] @ []) [MValue Tag_Nil [] []]"
    by (intro more_values) simp_all
  then have "value_bytes ([0xdc, 0, 1] @ [] @ [0xc0]) (MValue (Tag_Array 1) [] [MValue Tag_Nil [] []])"
    using h(1) by (intro one_value) simp_all
  moreover have "value_bytes ([0xa1] @ [65] @ []) (MValue (Tag_Str 1) [65] [])"
    using h(3) by (intro one_value) simp_all
  ultimately have "values_bytes (([0xdc, 0, 1] @ [] @ [0xc0]) @ ([0xa1] @ [65] @ []) @ []) two_values"
    unfolding two_values_def by (intro more_values no_values)
  then have vs: "values_bytes [0xdc, 0, 1, 0xc0, 0xa1, 65] two_values"
    by (simp del: values_bytes_simps)
  have "\<forall>v\<in>set two_values. height v \<le> 3"
    by (simp add: two_values_def height.simps)
  moreover have "re_malloc plain_env OWNED_BUFFER_CAPACITY \<noteq> None" "stream_good (Some ?s)"
      "cs_rest ?s = [0xdc, 0, 1, 0xc0, 0xa1, 65] @ [7]"
    by (simp_all add: plain_env_def OWNED_BUFFER_CAPACITY_def stream_good_def)
  moreover have "length two_values = 2"
    by (simp add: two_values_def)
  moreover have "close_outcome plain_env True = MPACK_OK"
    by (simp add: close_outcome_def plain_env_def)
  ultimately show ?thesis
    using file_reader_reads_values [OF plain_env(1) tracks_plain no_force_plain _ _ vs, of 3 ?s "[7]" True]
    by auto
qed

text \<open>C22. From a C writer to a C reader through a file: if destroying the writer reports no error, then a reader on
  the file it has written reads the same values back, nested as they may be, up to the sign type of integers that
  are not negative, and reaches the end of the file without an error.\<close>

theorem file_roundtrip:
  assumes "allocator_ok (env_malloc wenv)" and "\<not> env_force_fail wenv" and "\<forall>v\<in>set vs. wf_value v"
    and "length (concat (map enc_value vs)) \<le> max_output"
    and "fw_frames w0 = None" and "fw_target w0 = (None, 0)" and "fw_file w0 = []"
    and "c_write_values wenv vs (mpack_writer_init_stdfile wenv False close_w w0) = Some w"
    and "mpack_writer_destroy wenv w = Some (MPACK_OK, w')"
    and "regular_file env" and "tracks_up_to env d" and "\<not> re_force_fail env"
    and "re_malloc env OWNED_BUFFER_CAPACITY \<noteq> None" and "\<forall>v\<in>set vs. height v \<le> d"
  shows "\<exists>r r'. c_read_elements (c_read_value env d) (length vs)
      (mpack_reader_init_stdfile env (Some \<lparr>cs_rest = fw_file w', cs_eof = False\<rparr>) close_r)
      = Some (map (\<lambda>v. abi_value (normal_value v)) vs, r)
    \<and> fr_error r = MPACK_OK \<and> input stream_rest r = []
    \<and> mpack_reader_destroy env r = Some (close_outcome env close_r, r')"
proof -
  let ?bs = "concat (map enc_value vs)" and ?vs = "map normal_value vs"
  have "length (fw_file w0 @ concat (map enc_value vs)) \<le> max_output"
    using assms(4,7) by simp
  from file_contents [OF assms(1-3) this assms(5,6), of close_w] assms(7-9) have content: "fw_file w' = ?bs"
    by (auto simp: Let_def)
  have "values_bytes ?bs ?vs"
    using assms(3) by (intro concat_values_bytes value_bytes_enc) simp
  moreover have "\<forall>v\<in>set ?vs. height v \<le> d"
    using assms(14) by simp
  moreover have "stream_good (Some \<lparr>cs_rest = fw_file w', cs_eof = False\<rparr>)"
    using assms(4) content by (simp add: stream_good_def max_output_def)
  moreover have "cs_rest \<lparr>cs_rest = fw_file w', cs_eof = False\<rparr> = ?bs @ []"
    using content by simp
  ultimately obtain r r' where "c_read_elements (c_read_value env d) (length ?vs)
      (mpack_reader_init_stdfile env (Some \<lparr>cs_rest = fw_file w', cs_eof = False\<rparr>) close_r) = Some (map abi_value ?vs, r)"
      "fr_error r = MPACK_OK" "input stream_rest r = []"
      "mpack_reader_destroy env r = Some (close_outcome env close_r, r')"
    using file_reads [OF assms(10-13)] by metis
  then show ?thesis
    by (intro exI [of _ r] exI [of _ r']) (simp add: comp_def)
qed


theorem file_roundtrip_witness:
  "\<exists>w w' r r'. c_write_values (roomy_env 100000) two_values
        (mpack_writer_init_stdfile (roomy_env 100000) False True (blank_storage [])) = Some w
    \<and> mpack_writer_destroy (roomy_env 100000) w = Some (MPACK_OK, w')
    \<and> c_read_elements (c_read_value plain_env 3) 2
        (mpack_reader_init_stdfile plain_env (Some \<lparr>cs_rest = fw_file w', cs_eof = False\<rparr>) False)
      = Some (map (\<lambda>v. abi_value (normal_value v)) two_values, r)
    \<and> input stream_rest r = [] \<and> mpack_reader_destroy plain_env r = Some (MPACK_OK, r')"
proof -
  have alloc: "allocator_ok (env_malloc (roomy_env 100000))"
    by (rule roomy_alloc) (simp add: isize_max_def)
  have off: "\<not> env_force_fail (roomy_env 100000)"
    by (simp add: roomy_env_def)
  have fits: "length (concat (map enc_value two_values)) \<le> max_output"
      "length (fw_file (blank_storage []) @ concat (map enc_value two_values)) \<le> max_output"
    by (simp_all add: two_values max_output_def)
  have "\<not> memory_out (roomy_env 100000) (Suc (Suc (Suc (Suc 0))))"
    by (rule roomy_memory) simp
  then have "\<not> file_fails (roomy_env 100000) (Suc (Suc (Suc (Suc 0))))" "env_fclose (roomy_env 100000) = 0"
    by (simp_all add: file_fails_def) (simp_all add: roomy_env_def)
  with file_contents [OF alloc off two_values(2) fits(2) blank_fields(1,3), of True] obtain w w'
    where w: "c_write_values (roomy_env 100000) two_values
        (mpack_writer_init_stdfile (roomy_env 100000) False True (blank_storage [])) = Some w"
      "mpack_writer_destroy (roomy_env 100000) w = Some (MPACK_OK, w')"
    by (auto simp: two_values(1) Let_def split: if_splits)
  have tracks: "tracks_up_to plain_env 3"
    by (simp add: tracks_plain)
  have env: "re_malloc plain_env OWNED_BUFFER_CAPACITY \<noteq> None" "\<forall>v\<in>set two_values. height v \<le> 3"
      "length two_values = 2" "close_outcome plain_env False = MPACK_OK"
    by (simp_all add: plain_env_def OWNED_BUFFER_CAPACITY_def two_values_def height.simps close_outcome_def)
  from file_roundtrip [OF alloc off two_values(2) fits(1) blank_fields(1,3,2) w plain_env(1) tracks no_force_plain env(1,2),
      of False, unfolded env(3,4)] w
  show ?thesis by blast
qed


subsection \<open>Discarding\<close>

text \<open>C23. Wherever a C reader on a file stands inside nested compounds, if the input goes on with an encoding of a
  value, then \<open>mpack_discard\<close> comes to an end without an error right behind that value, whether it seeks in
  the file or reads through it, and the tracker has counted one element: reading goes on as if the value
  had been read.\<close>

theorem mpack_discard_skips_one_value:
  assumes "regular_file env" and "tracks_up_to env d"
    and "tracked_reader (Some File_Reader_Fill) (Some File_Reader_Skip) stream_good st r"
    and "wt_element st = (Inr (), st')" and "value_bytes bs v" and "input stream_rest r = bs @ after"
    and "length st + height v \<le> d"
  shows "\<exists>r'. mpack_discard env r = Some r' \<and> input stream_rest r' = after \<and> fr_error r' = MPACK_OK
    \<and> tracked_reader (Some File_Reader_Fill) (Some File_Reader_Skip) stream_good st' r'"
proof -
  from file_source.discard_ok [where env = env, unfolded file_env(2) [OF assms(1)], OF assms(5,3,4,6,2,7)]
  obtain r' where r': "mpack_discard env r = Some r'" "input stream_rest r' = after"
      "tracked_reader (Some File_Reader_Fill) (Some File_Reader_Skip) stream_good st' r'" .
  with liveD(1) [OF tracked_live [OF r'(3)]] show ?thesis by blast
qed

theorem mpack_discard_skips_one_value_witness:
  "\<exists>r. mpack_discard plain_env
       (mpack_reader_init_stdfile plain_env (Some \<lparr>cs_rest = [0x91, 0xc0, 0xa1, 65], cs_eof = False\<rparr>) True) = Some r
     \<and> input stream_rest r = [0xa1, 65] \<and> fr_error r = MPACK_OK"
proof -
  let ?s = "\<lparr>cs_rest = [0x91, 0xc0, 0xa1, 65], cs_eof = False\<rparr>" and ?v = "MValue (Tag_Array 1) [] [MValue Tag_Nil [] []]"
  have "enc_value ?v = [0x91, 0xc0]"
    by (simp add: enc_array_def)
  moreover have "value_bytes (enc_value ?v) (normal_value ?v)"
    by (rule value_bytes_enc) simp
  ultimately have v: "value_bytes [0x91, 0xc0] ?v"
    by (simp only:) simp
  have tracks: "tracks_up_to plain_env 3"
    by (simp add: tracks_plain)
  have env: "re_malloc plain_env OWNED_BUFFER_CAPACITY \<noteq> None" "stream_good (Some ?s)"
      "length ([] :: write_tracker) + height ?v \<le> 3"
    by (simp_all add: plain_env_def OWNED_BUFFER_CAPACITY_def stream_good_def height.simps)
  note start = start_file [OF tracks no_force_plain env(1,2), of True]
  have i: "input stream_rest (mpack_reader_init_stdfile plain_env (Some ?s) True) = [0x91, 0xc0] @ [0xa1, 65]"
    using start(2) by simp
  from mpack_discard_skips_one_value [OF plain_env(1) tracks start(1) wt_element_top v i env(3)] show ?thesis
    by blast
qed


subsection \<open>Reads the tracker does not see\<close>

lemma done_too_early:
  assumes r: "tracked_reader fill skip good (\<lparr>te_kind = k, te_left = n\<rparr> # st) r" and n: "n \<noteq> 0"
    and env: "tracks_up_to env d" and depth: "length st < d"
  obtains r' where "done_type_impl (kind_code k) r = Some r'" and "fr_error r' = MPACK_ERROR_BUG"
proof -
  let ?top = "\<lparr>te_kind = k, te_left = n\<rparr> # st"
  have rep: "c_rep (fr_track r) ?top" and ok: "fr_error r = MPACK_OK"
    using r liveD(1) [OF tracked_live [OF r]] by (simp_all add: tracked_reader_def)
  have step: "track_step (Call_pop k) ?top \<noteq> (Inr (), st')" for st'
    using n by (simp add: wt_pop_def)
  have alloc: "allocator_ok (re_malloc env)" "\<And>m. m \<le> 24 * length ?top + 36 \<Longrightarrow> re_malloc env m \<noteq> None"
    using env depth by (auto simp: tracks_up_to_def)
  note sim = c_call_refines [OF rep _ alloc(1), of "Call_pop k"]
  have "c_call (re_malloc env) (Call_pop k) (fr_track r) = Refused"
  proof (cases "c_call (re_malloc env) (Call_pop k) (fr_track r)")
    case (Accepted t)
    with sim step show ?thesis by auto
  next
    case Gave_up
    with sim obtain m where "m \<le> 24 * length ?top + 36" "re_malloc env m = None"
      by auto
    with alloc(2) show ?thesis by blast
  qed
  then obtain t where "track_pop (kind_code k) (fr_track r) = Some (MPACK_ERROR_BUG, t)"
    by (auto simp: c_call_def c_run_def split: option.splits if_splits)
  with ok show thesis
    by (intro that [of "flag_error_on MPACK_ERROR_BUG (r\<lparr>fr_track := t\<rparr>)"])
      (simp_all add: done_type_impl_def track_call_def)
qed

text \<open>The first tag of data in memory.\<close>

lemma first_tag:
  assumes env: "tracks_up_to env d" and "\<not> re_force_fail env" and h: "header hs t"
  obtains r where "mpack_read_tag env (mpack_reader_init_data env (Some (hs @ after)) (length (hs @ after))) = Some (tag_to_abi t, r)"
    and "tracked_reader None None (\<lambda>_. True) (opened t []) r" and "input (\<lambda>_. []) r = after"
proof -
  note start = start_data [OF assms(1,2), of "hs @ after"]
  have depth: "length ([] :: write_tracker) \<le> d" by simp
  from memory_source.tag_step [OF start(1) wt_element_top h start(2) env depth] show thesis
    using that unfolding mpack_read_tag_def by blast
qed

lemma memory_native:
  assumes r: "tracked_reader None None (\<lambda>_. True) st r" and n: "n \<le> length (input (\<lambda>_. []) r)" and m: "n \<le> length m"
  obtains r' where "read_native env (Some m) n r = Some (Some (take n (input (\<lambda>_. []) r) @ drop n m), r')"
    and "tracked_reader None None (\<lambda>_. True) st r'"
proof -
  from memory_source.read_native_ok [OF tracked_live [OF r] n m] obtain r'
    where "read_native env (Some m) n r = Some (Some (take n (input (\<lambda>_. []) r) @ drop n m), r')"
      "live None None (\<lambda>_. True) r'" "same_setup r r'" .
  with r show thesis
    by (intro that [of r']) (simp_all add: tracked_reader_def same_setup_def)
qed

text \<open>\<open>mpack_read_timestamp\<close>, called on an extension that \<open>mpack_read_tag\<close> has opened, as the header asks for, never
  gives the timestamp: it reads the payload without telling the tracker, so closing the extension finds bytes
  left over, and the result is zero with the error for a bug of the program.\<close>

theorem timestamp_read_flags_bug:
  assumes "tracks_up_to env d" and "\<not> re_force_fail env" and "0 < d" and "header hs (Tag_Ext ty n)"
    and "unat n = 4 \<or> unat n = 8 \<or> unat n = 12" and "length pl = unat n"
  shows "\<exists>r r'. mpack_read_tag env (mpack_reader_init_data env (Some (hs @ pl @ after)) (length (hs @ pl @ after)))
      = Some (tag_to_abi (Tag_Ext ty n), r)
    \<and> fr_error r = MPACK_OK \<and> mpack_read_timestamp env (unat n) r = Some (timestamp_zero, r')
    \<and> fr_error r' = MPACK_ERROR_BUG"
proof -
  obtain r where r: "mpack_read_tag env (mpack_reader_init_data env (Some (hs @ pl @ after)) (length (hs @ pl @ after)))
        = Some (tag_to_abi (Tag_Ext ty n), r)"
      "tracked_reader None None (\<lambda>_. True) (opened (Tag_Ext ty n) []) r" "input (\<lambda>_. []) r = pl @ after"
    by (rule first_tag [OF assms(1,2,4)])
  have nz: "unat n \<noteq> 0" "length ([] :: write_tracker) < d"
    using assms(3,5) by auto
  have n: "unat n \<le> length (input (\<lambda>_. []) r)" "unat n \<le> length (replicate 12 (0 :: u8))"
    using assms(5,6) r(3) by auto
  obtain p r1 where r1: "read_native env (Some (replicate 12 0)) (unat n) r = Some (p, r1)"
      "tracked_reader None None (\<lambda>_. True) (opened (Tag_Ext ty n) []) r1"
    using memory_native [OF r(2) n] by metis
  have "tracked_reader None None (\<lambda>_. True) (\<lparr>te_kind = Kind_Ext, te_left = unat n\<rparr> # []) r1"
    using r1(2) by (simp add: opened_def)
  from done_too_early [OF this nz(1) assms(1) nz(2)] obtain r2
    where "done_type_impl TYPE_EXT r1 = Some r2" "fr_error r2 = MPACK_ERROR_BUG"
    unfolding kind_code.simps .
  then have "mpack_read_timestamp env (unat n) r = Some (timestamp_zero, r2)"
    using assms(5) r1(1) by (auto simp: mpack_read_timestamp_def mpack_done_type_def MPACK_ERROR_BUG_def MPACK_OK_def)
  with \<open>fr_error r2 = MPACK_ERROR_BUG\<close> r(1) liveD(1) [OF tracked_live [OF r(2)]] show ?thesis
    by blast
qed

theorem timestamp_read_flags_bug_witness:
  "\<exists>r r'. mpack_read_tag plain_env (mpack_reader_init_data plain_env (Some [0xd6, 0xff, 0, 0, 0, 9]) 6)
      = Some (tag_to_abi (Tag_Ext 0xff 4), r)
    \<and> mpack_read_timestamp plain_env 4 r = Some (timestamp_zero, r') \<and> fr_error r' = MPACK_ERROR_BUG"
proof -
  have tracks: "tracks_up_to plain_env 1"
    by (simp add: tracks_plain)
  have h: "header [0xd6, 0xff] (Tag_Ext 0xff 4)"
    by (rule header.fixext4)
  have n: "unat (4 :: u32) = 4 \<or> unat (4 :: u32) = 8 \<or> unat (4 :: u32) = 12" "length [0, 0, 0, 9 :: u8] = unat (4 :: u32)"
    by simp_all
  have six: "length ([0xd6, 0xff] @ [0, 0, 0, 9] @ [] :: u8 list) = 6"
    by simp
  from timestamp_read_flags_bug [OF tracks no_force_plain zero_less_one h n, of "[]", unfolded six] show ?thesis
    by simp blast
qed

text \<open>\<open>mpack_read_utf8\<close>, called on a string that \<open>mpack_read_tag\<close> has opened, copies it and checks it, but does not
  tell the tracker either: closing the string afterwards with \<open>mpack_done_str\<close> flags a bug of the program.\<close>

theorem utf8_read_leaves_string_open:
  assumes "tracks_up_to env d" and "\<not> re_force_fail env" and "0 < d" and "header hs (Tag_Str n)"
    and "0 < unat n" and "length pl = unat n" and "check_utf8 pl" and "length m = unat n"
  shows "\<exists>r r' r''. mpack_read_tag env (mpack_reader_init_data env (Some (hs @ pl @ after)) (length (hs @ pl @ after)))
      = Some (tag_to_abi (Tag_Str n), r)
    \<and> mpack_read_utf8 env (Some m) (unat n) r = Some (Some pl, r') \<and> fr_error r' = MPACK_OK
    \<and> mpack_done_type TYPE_STR r' = Some r'' \<and> fr_error r'' = MPACK_ERROR_BUG"
proof -
  obtain r where r: "mpack_read_tag env (mpack_reader_init_data env (Some (hs @ pl @ after)) (length (hs @ pl @ after)))
        = Some (tag_to_abi (Tag_Str n), r)"
      "tracked_reader None None (\<lambda>_. True) (opened (Tag_Str n) []) r" "input (\<lambda>_. []) r = pl @ after"
    by (rule first_tag [OF assms(1,2,4)])
  have nz: "unat n \<noteq> 0" "length ([] :: write_tracker) < d"
    using assms(3,5) by auto
  have n: "unat n \<le> length (input (\<lambda>_. []) r)" "unat n \<le> length m"
    using assms(6,8) r(3) by simp_all
  obtain r1 where r1: "read_native env (Some m) (unat n) r = Some (Some pl, r1)"
      "tracked_reader None None (\<lambda>_. True) (opened (Tag_Str n) []) r1"
    using memory_native [OF r(2) n] r(3) assms(6,8) by (metis append.right_neutral append_eq_conv_conj drop_all order_refl)
  have ok: "fr_error r1 = MPACK_OK"
    using liveD(1) [OF tracked_live [OF r1(2)]] .
  have "mpack_read_utf8 env (Some m) (unat n) r = Some (Some pl, r1)"
    using r1(1) ok assms(6,7) by (simp add: mpack_read_utf8_def peek_bytes_def slice_def)
  moreover have "tracked_reader None None (\<lambda>_. True) (\<lparr>te_kind = Kind_Str, te_left = unat n\<rparr> # []) r1"
    using r1(2) by (simp add: opened_def)
  from done_too_early [OF this nz(1) assms(1) nz(2)] obtain r2
    where "done_type_impl TYPE_STR r1 = Some r2" "fr_error r2 = MPACK_ERROR_BUG"
    unfolding kind_code.simps .
  ultimately show ?thesis
    using r(1) ok unfolding mpack_done_type_def by blast
qed

theorem utf8_read_leaves_string_open_witness:
  "\<exists>r r' r''. mpack_read_tag plain_env (mpack_reader_init_data plain_env (Some [0xa2, 72, 105]) 3)
      = Some (tag_to_abi (Tag_Str 2), r)
    \<and> mpack_read_utf8 plain_env (Some [0, 0]) 2 r = Some (Some [72, 105], r')
    \<and> mpack_done_type TYPE_STR r' = Some r'' \<and> fr_error r'' = MPACK_ERROR_BUG"
proof -
  have tracks: "tracks_up_to plain_env 1"
    by (simp add: tracks_plain)
  have h: "header [0xa2] (Tag_Str 2)"
    using fixstr [of 2] by simp
  have n: "0 < unat (2 :: u32)" "length [72, 105 :: u8] = unat (2 :: u32)" "check_utf8 [72, 105]"
      "length [0, 0 :: u8] = unat (2 :: u32)"
    by (simp_all, code_simp)
  have three: "length ([0xa2] @ [72, 105] @ [] :: u8 list) = 3"
    by simp
  from utf8_read_leaves_string_open [OF tracks no_force_plain zero_less_one h n, of "[]", unfolded three] show ?thesis
    by simp blast
qed

subsection \<open>The tags a C program sees\<close>

text \<open>A C tag whose type code is one of the codes, and whose value fits the type: what a C program may rely on when
  it switches over the type and reads the member of the union.\<close>

definition well_typed_tag :: "mpack_tag \<Rightarrow> bool" where
  "well_typed_tag tag \<longleftrightarrow>
     (mt_exttype tag \<noteq> 0 \<longrightarrow> mt_type tag = TYPE_EXT)
     \<and> (if mt_type tag = TYPE_NIL then mt_value tag = 0
        else if mt_type tag = TYPE_BOOL then mt_value tag = 0 \<or> mt_value tag = 1
        else if mt_type tag \<in> {TYPE_INT, TYPE_UINT, TYPE_DOUBLE} then True
        else mt_type tag \<in> {TYPE_FLOAT, TYPE_STR, TYPE_BIN, TYPE_ARRAY, TYPE_MAP, TYPE_EXT} \<and> unat (mt_value tag) < 2 ^ 32)"

lemma abi_well_typed: "well_typed_tag (tag_to_abi t)" "well_typed_tag mpack_tag_nil"
proof -
  have "unat (ucast (n :: u32) :: u64) < 4294967296" for n
    using unat_u32_less [of n] by (simp add: unat_ucast_up)
  then show "well_typed_tag (tag_to_abi t)"
    by (cases t) (simp_all add: well_typed_tag_def c_types mpack_tag_nil_def)
  show "well_typed_tag mpack_tag_nil"
    by (simp add: well_typed_tag_def c_types mpack_tag_nil_def)
qed

lemma core_well_typed:
  assumes "read_with_core core_read_tag mpack_tag_nil r = Some (tag, r')"
  shows "well_typed_tag tag \<and> (tag \<noteq> mpack_tag_nil \<longrightarrow> fr_error r' = MPACK_OK)"
  using assms abi_well_typed
  by (auto simp: read_with_core_def core_read_tag_def bind_eq_Some_conv Let_def advance_cursor_def
      split: if_splits option.splits)

text \<open>C37. Whatever the input and the state of the reader: the tags that \<open>mpack_read_tag\<close> and \<open>mpack_peek_tag\<close> return
  are well typed, and a tag other than nil is returned only without an error.\<close>

theorem c_tags_well_typed:
  "(case mpack_read_tag env r of None \<Rightarrow> True
    | Some (tag, r') \<Rightarrow> well_typed_tag tag \<and> (tag = mpack_tag_nil \<or> fr_error r' = MPACK_OK))
   \<and> (case mpack_peek_tag env r of None \<Rightarrow> True | Some (tag, r') \<Rightarrow> well_typed_tag tag)"
proof
  have "well_typed_tag tag \<and> (tag = mpack_tag_nil \<or> fr_error r' = MPACK_OK)"
    if "mpack_read_tag env r = Some (tag, r')" for tag r'
    using that core_well_typed abi_well_typed(2)
    by (auto simp: mpack_read_tag_def read_tag_impl_def bind_eq_Some_conv track_call_def Let_def split: if_splits)
  then show "case mpack_read_tag env r of None \<Rightarrow> True
    | Some (tag, r') \<Rightarrow> well_typed_tag tag \<and> (tag = mpack_tag_nil \<or> fr_error r' = MPACK_OK)"
    by (auto split: option.split)
  have "well_typed_tag tag" if "mpack_peek_tag env r = Some (tag, r')" for tag r'
    using that abi_well_typed
    by (auto simp: mpack_peek_tag_def peek_tag_impl_def bind_eq_Some_conv split: if_splits option.splits)
  then show "case mpack_peek_tag env r of None \<Rightarrow> True | Some (tag, r') \<Rightarrow> well_typed_tag tag"
    by (auto split: option.split)
qed

end
