(* ===== verification/Ffi_Expect.thy ===== *)
theory Ffi_Expect
  imports Ffi_Reader_Api
begin

section \<open>The C twins of the expect module (\<open>src/ffi/expect.rs\<close>)\<close>

text \<open>
  The exported \<open>mpack_expect_*\<close> functions over a C reader: they tell the tracker of the element, make sure that
  the header is in the window, and run the function of the safe expect module on the window. \<open>None\<close> as the
  value of an operation is undefined behaviour, a panic, or a loop that never ends; the pointer to the reader
  is not null, so \<open>expect_entry\<close> is its body. An out-parameter is its old value, \<open>None\<close> for a null pointer, and
  the operation returns it as it is afterwards. The hooks \<open>mpack_assert_fail\<close> and \<open>mpack_break_hit\<close> are code of
  the C side that reports and returns; \<open>test_free\<close> changes nothing the reader sees.
\<close>

subsection \<open>Shared helpers\<close>

definition write_out :: "'a \<Rightarrow> 'a option \<Rightarrow> 'a option" where
  "write_out v p = map_option (\<lambda>_. v) p"

definition track_element_or_flag :: "ffi_reader \<Rightarrow> (bool \<times> ffi_reader) option" where
  "track_element_or_flag r =
     (if fr_error r \<noteq> MPACK_OK then Some (False, r) else track_call Ffi_Track.track_element r)"

definition push_type :: "reader_env \<Rightarrow> c_int \<Rightarrow> u32 \<Rightarrow> ffi_reader \<Rightarrow> ffi_reader option" where
  "push_type env ty count r =
     (if fr_error r \<noteq> MPACK_OK then Some r
      else do {
        (ok, r) \<leftarrow> track_call (track_push (re_malloc env) ty count) r;
        Some r
      })"

definition prepare_scalar :: "reader_env \<Rightarrow> ffi_reader \<Rightarrow> (bool \<times> ffi_reader) option" where
  "prepare_scalar env r = do {
     (ok, r) \<leftarrow> track_element_or_flag r;
     (if ok then ensure_tag_header env r else Some (False, r))
   }"

text \<open>The closure \<open>|core| op(core).unwrap_or(zero)\<close>.\<close>

definition unwrap_or ::
  "'a \<Rightarrow> (reader \<Rightarrow> ('a option \<times> reader) option) \<Rightarrow> reader \<Rightarrow> ('a \<times> reader) option"
where
  "unwrap_or zero op core = do {
     (v, core) \<leftarrow> op core;
     Some (case v of None \<Rightarrow> zero | Some v \<Rightarrow> v, core)
   }"

definition expect_option ::
  "reader_env \<Rightarrow> 'a \<Rightarrow> (reader \<Rightarrow> ('a option \<times> reader) option) \<Rightarrow> ffi_reader \<Rightarrow> ('a \<times> ffi_reader) option"
where
  "expect_option env zero op r = do {
     (ok, r) \<leftarrow> prepare_scalar env r;
     (if \<not> ok then Some (zero, r) else read_with_core (unwrap_or zero op) zero r)
   }"

definition expect_void ::
  "reader_env \<Rightarrow> (reader \<Rightarrow> (bool \<times> reader) option) \<Rightarrow> ffi_reader \<Rightarrow> ffi_reader option"
where
  "expect_void env op r = do {
     (ok, r) \<leftarrow> prepare_scalar env r;
     (if \<not> ok then Some r
      else do {
        (_, r) \<leftarrow> read_with_core op False r;
        Some r
      })
   }"

definition compound_open ::
  "reader_env \<Rightarrow> c_int \<Rightarrow> (reader \<Rightarrow> (u32 option \<times> reader) option) \<Rightarrow> ffi_reader \<Rightarrow> (u32 \<times> ffi_reader) option"
where
  "compound_open env ty op r = do {
     (ok, r) \<leftarrow> prepare_scalar env r;
     (if \<not> ok then Some (0, r)
      else do {
        (count, r) \<leftarrow> read_with_core (unwrap_or 0 op) 0 r;
        r \<leftarrow> (if fr_error r = MPACK_OK then push_type env ty count r else Some r);
        Some (count, r)
      })
   }"

definition nil_compound :: expect_compound where
  "nil_compound = \<lparr>is_nil = True, compound_len = 0\<rparr>"

definition compound_or_nil_open ::
  "reader_env \<Rightarrow> c_int \<Rightarrow> u32 option \<Rightarrow> (reader \<Rightarrow> (expect_compound option \<times> reader) option)
    \<Rightarrow> ffi_reader \<Rightarrow> (bool \<times> u32 option \<times> ffi_reader) option"
where
  "compound_or_nil_open env ty count_out op r = do {
     (ok, r) \<leftarrow> prepare_scalar env r;
     (if \<not> ok then Some (False, write_out 0 count_out, r)
      else do {
        (result, r) \<leftarrow> read_with_core (unwrap_or nil_compound op) nil_compound r;
        (let count_out = write_out (compound_len result) count_out
         in if fr_error r \<noteq> MPACK_OK then Some (False, count_out, r)
            else if is_nil result then Some (False, count_out, r)
            else do {
              r \<leftarrow> push_type env ty (compound_len result) r;
              Some (True, count_out, r)
            })
      })
   }"

text \<open>Bytes, C strings and tables of the C program: \<open>None\<close> inside is a null pointer, \<open>None\<close> outside an access
  beyond the memory.\<close>

definition c_bytes :: "u8 list option \<Rightarrow> nat \<Rightarrow> u8 list option option" where
  "c_bytes data count =
     (if count = 0 then Some (Some [])
      else case data of
        None \<Rightarrow> Some None
      | Some mem \<Rightarrow> do { bytes \<leftarrow> slice mem 0 count; Some (Some bytes) })"

definition cstr_bytes :: "u8 list option \<Rightarrow> u8 list option option" where
  "cstr_bytes pointer =
     (case pointer of
        None \<Rightarrow> Some None
      | Some mem \<Rightarrow> if 0 \<in> set mem then Some (Some (takeWhile (\<lambda>b. b \<noteq> 0) mem)) else None)"

primrec key_table_loop ::
  "u8 list option list \<Rightarrow> nat \<Rightarrow> nat \<Rightarrow> u8 list list \<Rightarrow> u8 list list option option"
where
  "key_table_loop keys i 0 out = Some (Some out)"
| "key_table_loop keys i (Suc n) out = do {
     pointer \<leftarrow> index keys i;
     bytes \<leftarrow> cstr_bytes pointer;
     (case bytes of
        None \<Rightarrow> Some None
      | Some bytes \<Rightarrow>
          if str_from_utf8 bytes then key_table_loop keys (i + 1) n (out @ [bytes]) else Some None)
   }"

definition key_cstr_table :: "u8 list option list option \<Rightarrow> nat \<Rightarrow> u8 list list option option" where
  "key_cstr_table keys count =
     (if count = 0 then Some (Some [])
      else case keys of
        None \<Rightarrow> Some None
      | Some keys \<Rightarrow> key_table_loop keys 0 count [])"

text \<open>The flags the slice covers.\<close>

definition found_slice :: "bool list option \<Rightarrow> nat \<Rightarrow> bool list option option" where
  "found_slice found count =
     (if count = 0 then Some (Some [])
      else case found of
        None \<Rightarrow> Some None
      | Some flags \<Rightarrow> do { flags \<leftarrow> slice flags 0 count; Some (Some flags) })"

text \<open>A write through the slice.\<close>

definition set_found :: "nat \<Rightarrow> bool list option \<Rightarrow> bool list option" where
  "set_found i found = map_option (\<lambda>flags. flags[i := True]) found"

definition suite_alloc :: "reader_env \<Rightarrow> nat \<Rightarrow> u8 list option" where
  "suite_alloc env n = re_malloc env (max n 1)"

definition expect_str_impl :: "reader_env \<Rightarrow> ffi_reader \<Rightarrow> (u32 \<times> ffi_reader) option" where
  "expect_str_impl env r = compound_open env TYPE_STR expect_str r"

definition expect_bin_impl :: "reader_env \<Rightarrow> ffi_reader \<Rightarrow> (u32 \<times> ffi_reader) option" where
  "expect_bin_impl env r = compound_open env TYPE_BIN expect_bin r"

definition expect_array_max_or_nil_impl ::
  "reader_env \<Rightarrow> u32 \<Rightarrow> u32 option \<Rightarrow> ffi_reader \<Rightarrow> (bool \<times> u32 option \<times> ffi_reader) option"
where
  "expect_array_max_or_nil_impl env max_value count r =
     compound_or_nil_open env TYPE_ARRAY count (expect_array_max_or_nil max_value) r"

subsection \<open>Scalars\<close>

text \<open>The body of \<open>expect_range_op!\<close>; \<open>gt\<close> is the \<open>>\<close> of the type.\<close>

definition expect_range_op ::
  "reader_env \<Rightarrow> ('a \<Rightarrow> 'a \<Rightarrow> bool) \<Rightarrow> ('a \<Rightarrow> 'a \<Rightarrow> reader \<Rightarrow> ('a option \<times> reader) option)
    \<Rightarrow> 'a \<Rightarrow> 'a \<Rightarrow> ffi_reader \<Rightarrow> ('a \<times> ffi_reader) option"
where
  "expect_range_op env gt op min_value max_value r =
     (if gt min_value max_value then Some (min_value, flag_error_impl MPACK_ERROR_BUG r)
      else expect_option env min_value (op min_value max_value) r)"

definition unsigned_greater :: "'a::len word \<Rightarrow> 'a word \<Rightarrow> bool" where
  "unsigned_greater a b \<longleftrightarrow> unat b < unat a"

definition signed_greater :: "'a::len word \<Rightarrow> 'a word \<Rightarrow> bool" where
  "signed_greater a b \<longleftrightarrow> sint b < sint a"

definition mpack_expect_u8 :: "reader_env \<Rightarrow> ffi_reader \<Rightarrow> (u8 \<times> ffi_reader) option" where
  "mpack_expect_u8 env = expect_option env 0 expect_u8"
definition mpack_expect_u16 :: "reader_env \<Rightarrow> ffi_reader \<Rightarrow> (u16 \<times> ffi_reader) option" where
  "mpack_expect_u16 env = expect_option env 0 expect_u16"
definition mpack_expect_u32 :: "reader_env \<Rightarrow> ffi_reader \<Rightarrow> (u32 \<times> ffi_reader) option" where
  "mpack_expect_u32 env = expect_option env 0 expect_u32"
definition mpack_expect_u64 :: "reader_env \<Rightarrow> ffi_reader \<Rightarrow> (u64 \<times> ffi_reader) option" where
  "mpack_expect_u64 env = expect_option env 0 expect_u64"
definition mpack_expect_i8 :: "reader_env \<Rightarrow> ffi_reader \<Rightarrow> (i8 \<times> ffi_reader) option" where
  "mpack_expect_i8 env = expect_option env 0 expect_i8"
definition mpack_expect_i16 :: "reader_env \<Rightarrow> ffi_reader \<Rightarrow> (i16 \<times> ffi_reader) option" where
  "mpack_expect_i16 env = expect_option env 0 expect_i16"
definition mpack_expect_i32 :: "reader_env \<Rightarrow> ffi_reader \<Rightarrow> (i32 \<times> ffi_reader) option" where
  "mpack_expect_i32 env = expect_option env 0 expect_i32"
definition mpack_expect_i64 :: "reader_env \<Rightarrow> ffi_reader \<Rightarrow> (i64 \<times> ffi_reader) option" where
  "mpack_expect_i64 env = expect_option env 0 expect_i64"

definition mpack_expect_u8_range :: "reader_env \<Rightarrow> u8 \<Rightarrow> u8 \<Rightarrow> ffi_reader \<Rightarrow> (u8 \<times> ffi_reader) option" where
  "mpack_expect_u8_range env = expect_range_op env unsigned_greater expect_u8_range"
definition mpack_expect_u16_range :: "reader_env \<Rightarrow> u16 \<Rightarrow> u16 \<Rightarrow> ffi_reader \<Rightarrow> (u16 \<times> ffi_reader) option" where
  "mpack_expect_u16_range env = expect_range_op env unsigned_greater expect_u16_range"
definition mpack_expect_u32_range :: "reader_env \<Rightarrow> u32 \<Rightarrow> u32 \<Rightarrow> ffi_reader \<Rightarrow> (u32 \<times> ffi_reader) option" where
  "mpack_expect_u32_range env = expect_range_op env unsigned_greater expect_u32_range"
definition mpack_expect_u64_range :: "reader_env \<Rightarrow> u64 \<Rightarrow> u64 \<Rightarrow> ffi_reader \<Rightarrow> (u64 \<times> ffi_reader) option" where
  "mpack_expect_u64_range env = expect_range_op env unsigned_greater expect_u64_range"
definition mpack_expect_i8_range :: "reader_env \<Rightarrow> i8 \<Rightarrow> i8 \<Rightarrow> ffi_reader \<Rightarrow> (i8 \<times> ffi_reader) option" where
  "mpack_expect_i8_range env = expect_range_op env signed_greater expect_i8_range"
definition mpack_expect_i16_range :: "reader_env \<Rightarrow> i16 \<Rightarrow> i16 \<Rightarrow> ffi_reader \<Rightarrow> (i16 \<times> ffi_reader) option" where
  "mpack_expect_i16_range env = expect_range_op env signed_greater expect_i16_range"
definition mpack_expect_i32_range :: "reader_env \<Rightarrow> i32 \<Rightarrow> i32 \<Rightarrow> ffi_reader \<Rightarrow> (i32 \<times> ffi_reader) option" where
  "mpack_expect_i32_range env = expect_range_op env signed_greater expect_i32_range"
definition mpack_expect_i64_range :: "reader_env \<Rightarrow> i64 \<Rightarrow> i64 \<Rightarrow> ffi_reader \<Rightarrow> (i64 \<times> ffi_reader) option" where
  "mpack_expect_i64_range env = expect_range_op env signed_greater expect_i64_range"

definition mpack_expect_float :: "reader_env \<Rightarrow> ffi_reader \<Rightarrow> (f32 \<times> ffi_reader) option" where
  "mpack_expect_float env = expect_option env 0 expect_float"
definition mpack_expect_double :: "reader_env \<Rightarrow> ffi_reader \<Rightarrow> (f64 \<times> ffi_reader) option" where
  "mpack_expect_double env = expect_option env 0 expect_double"
definition mpack_expect_float_strict :: "reader_env \<Rightarrow> ffi_reader \<Rightarrow> (f32 \<times> ffi_reader) option" where
  "mpack_expect_float_strict env = expect_option env 0 expect_float_strict"
definition mpack_expect_double_strict :: "reader_env \<Rightarrow> ffi_reader \<Rightarrow> (f64 \<times> ffi_reader) option" where
  "mpack_expect_double_strict env = expect_option env 0 expect_double_strict"
definition mpack_expect_float_range :: "reader_env \<Rightarrow> f32 \<Rightarrow> f32 \<Rightarrow> ffi_reader \<Rightarrow> (f32 \<times> ffi_reader) option" where
  "mpack_expect_float_range env = expect_range_op env (\<lambda>a b. f32_less b a) expect_float_range"
definition mpack_expect_double_range :: "reader_env \<Rightarrow> f64 \<Rightarrow> f64 \<Rightarrow> ffi_reader \<Rightarrow> (f64 \<times> ffi_reader) option" where
  "mpack_expect_double_range env = expect_range_op env (\<lambda>a b. f64_less b a) expect_double_range"

definition mpack_expect_uint_match :: "reader_env \<Rightarrow> u64 \<Rightarrow> ffi_reader \<Rightarrow> ffi_reader option" where
  "mpack_expect_uint_match env v r = expect_void env (expect_uint_match v) r"

definition mpack_expect_int_match :: "reader_env \<Rightarrow> i64 \<Rightarrow> ffi_reader \<Rightarrow> ffi_reader option" where
  "mpack_expect_int_match env v r = expect_void env (expect_int_match v) r"

definition mpack_expect_nil :: "reader_env \<Rightarrow> ffi_reader \<Rightarrow> ffi_reader option" where
  "mpack_expect_nil env r = expect_void env expect_nil r"

definition mpack_expect_bool :: "reader_env \<Rightarrow> ffi_reader \<Rightarrow> (bool \<times> ffi_reader) option" where
  "mpack_expect_bool env r = expect_option env False expect_bool r"

definition mpack_expect_true :: "reader_env \<Rightarrow> ffi_reader \<Rightarrow> ffi_reader option" where
  "mpack_expect_true env r = expect_void env expect_true r"

definition mpack_expect_false :: "reader_env \<Rightarrow> ffi_reader \<Rightarrow> ffi_reader option" where
  "mpack_expect_false env r = expect_void env expect_false r"

definition mpack_expect_timestamp :: "reader_env \<Rightarrow> ffi_reader \<Rightarrow> (timestamp \<times> ffi_reader) option" where
  "mpack_expect_timestamp env r = do {
     (ok, r) \<leftarrow> prepare_scalar env r;
     (if \<not> ok then Some (timestamp_zero, r)
      else read_with_core (unwrap_or timestamp_zero expect_timestamp) timestamp_zero r)
   }"

definition mpack_expect_timestamp_truncate :: "reader_env \<Rightarrow> ffi_reader \<Rightarrow> (i64 \<times> ffi_reader) option" where
  "mpack_expect_timestamp_truncate env r = expect_option env 0 expect_timestamp_truncate r"

subsection \<open>Maps and arrays\<close>

definition mpack_expect_map :: "reader_env \<Rightarrow> ffi_reader \<Rightarrow> (u32 \<times> ffi_reader) option" where
  "mpack_expect_map env r = compound_open env TYPE_MAP expect_map r"

definition mpack_expect_map_range :: "reader_env \<Rightarrow> u32 \<Rightarrow> u32 \<Rightarrow> ffi_reader \<Rightarrow> (u32 \<times> ffi_reader) option" where
  "mpack_expect_map_range env min_value max_value r =
     (if min_value > max_value then Some (min_value, flag_error_impl MPACK_ERROR_BUG r)
      else do {
        (ok, r) \<leftarrow> prepare_scalar env r;
        (if \<not> ok then Some (min_value, r)
         else do {
           (count, r) \<leftarrow> read_with_core (unwrap_or min_value (expect_map_range min_value max_value)) min_value r;
           r \<leftarrow> (if fr_error r = MPACK_OK then push_type env TYPE_MAP count r else Some r);
           Some (count, r)
         })
      })"

definition mpack_expect_map_match :: "reader_env \<Rightarrow> u32 \<Rightarrow> ffi_reader \<Rightarrow> ffi_reader option" where
  "mpack_expect_map_match env count r = do {
     (ok, r) \<leftarrow> prepare_scalar env r;
     (if \<not> ok then Some r
      else do {
        (matched, r) \<leftarrow> read_with_core (expect_map_match count) False r;
        (if matched \<and> fr_error r = MPACK_OK then push_type env TYPE_MAP count r else Some r)
      })
   }"

definition mpack_expect_map_or_nil ::
  "reader_env \<Rightarrow> u32 option \<Rightarrow> ffi_reader \<Rightarrow> (bool \<times> u32 option \<times> ffi_reader) option"
where
  "mpack_expect_map_or_nil env count r = compound_or_nil_open env TYPE_MAP count expect_map_or_nil r"

definition mpack_expect_map_max_or_nil ::
  "reader_env \<Rightarrow> u32 \<Rightarrow> u32 option \<Rightarrow> ffi_reader \<Rightarrow> (bool \<times> u32 option \<times> ffi_reader) option"
where
  "mpack_expect_map_max_or_nil env max_value count r =
     compound_or_nil_open env TYPE_MAP count (expect_map_max_or_nil max_value) r"

definition mpack_expect_array :: "reader_env \<Rightarrow> ffi_reader \<Rightarrow> (u32 \<times> ffi_reader) option" where
  "mpack_expect_array env r = compound_open env TYPE_ARRAY expect_array r"

definition mpack_expect_array_range :: "reader_env \<Rightarrow> u32 \<Rightarrow> u32 \<Rightarrow> ffi_reader \<Rightarrow> (u32 \<times> ffi_reader) option" where
  "mpack_expect_array_range env min_value max_value r =
     (if min_value > max_value then Some (min_value, flag_error_impl MPACK_ERROR_BUG r)
      else do {
        (ok, r) \<leftarrow> prepare_scalar env r;
        (if \<not> ok then Some (min_value, r)
         else do {
           (count, r) \<leftarrow> read_with_core (unwrap_or min_value (expect_array_range min_value max_value)) min_value r;
           r \<leftarrow> (if fr_error r = MPACK_OK then push_type env TYPE_ARRAY count r else Some r);
           Some (count, r)
         })
      })"

definition mpack_expect_array_match :: "reader_env \<Rightarrow> u32 \<Rightarrow> ffi_reader \<Rightarrow> ffi_reader option" where
  "mpack_expect_array_match env count r = do {
     (ok, r) \<leftarrow> prepare_scalar env r;
     (if \<not> ok then Some r
      else do {
        (matched, r) \<leftarrow> read_with_core (expect_array_match count) False r;
        (if matched \<and> fr_error r = MPACK_OK then push_type env TYPE_ARRAY count r else Some r)
      })
   }"

definition mpack_expect_array_or_nil ::
  "reader_env \<Rightarrow> u32 option \<Rightarrow> ffi_reader \<Rightarrow> (bool \<times> u32 option \<times> ffi_reader) option"
where
  "mpack_expect_array_or_nil env count r = compound_or_nil_open env TYPE_ARRAY count expect_array_or_nil r"

definition mpack_expect_array_max_or_nil ::
  "reader_env \<Rightarrow> u32 \<Rightarrow> u32 option \<Rightarrow> ffi_reader \<Rightarrow> (bool \<times> u32 option \<times> ffi_reader) option"
where
  "mpack_expect_array_max_or_nil env max_value count r = expect_array_max_or_nil_impl env max_value count r"

text \<open>The result is the pointer to the new block with the elements, zeroed.\<close>

definition alloc_elements ::
  "reader_env \<Rightarrow> nat \<Rightarrow> u32 \<Rightarrow> u32 option \<Rightarrow> ffi_reader \<Rightarrow> (u8 list option \<times> u32 option \<times> ffi_reader) option"
where
  "alloc_elements env element_size count out_count r =
     (if element_size * unat count > usize_max
      then Some (None, out_count, flag_error_impl MPACK_ERROR_TOO_BIG r)
      else
        (let bytes = element_size * unat count
         in case suite_alloc env bytes of
              None \<Rightarrow> Some (None, out_count, flag_error_impl MPACK_ERROR_MEMORY r)
            | Some block \<Rightarrow> do {
                pointer \<leftarrow> poke (Some block) 0 (replicate bytes 0);
                Some (pointer, write_out count out_count, r)
              }))"

definition mpack_expect_array_alloc_impl ::
  "reader_env \<Rightarrow> nat \<Rightarrow> u32 \<Rightarrow> u32 option \<Rightarrow> bool \<Rightarrow> ffi_reader
    \<Rightarrow> (u8 list option \<times> u32 option \<times> ffi_reader) option"
where
  "mpack_expect_array_alloc_impl env element_size max_count out_count allow_nil r =
     (let out_count = write_out 0 out_count
      in if out_count = None then Some (None, out_count, flag_error_impl MPACK_ERROR_BUG r)
         else do {
           (has_array, count, r) \<leftarrow>
             (if allow_nil
              then do {
                (has_array, count, r) \<leftarrow> expect_array_max_or_nil_impl env max_count (Some 0) r;
                Some (has_array, the count, r)
              }
              else do {
                (count, r) \<leftarrow> compound_open env TYPE_ARRAY (expect_array_range 0 max_count) r;
                Some (fr_error r = MPACK_OK, count, r)
              });
           (if fr_error r \<noteq> MPACK_OK then Some (None, out_count, r)
            else if count = 0 then do {
              r \<leftarrow> (if allow_nil \<and> has_array then done_type_impl TYPE_ARRAY r else Some r);
              Some (None, out_count, r)
            }
            else alloc_elements env element_size count out_count r)
         })"

end
