(* ===== verification/Ffi_Expect_Bytes.thy ===== *)
theory Ffi_Expect_Bytes
  imports Ffi_Expect
begin

section \<open>Strings, binaries, extensions and keys through the C interface (\<open>src/ffi/expect.rs\<close>)\<close>

text \<open>
  A destination of the C program is the list of its bytes, \<open>None\<close> for a null pointer, returned as it is
  afterwards. A pointer that is returned is the contents of the new block.
\<close>

subsection \<open>Strings\<close>

definition mpack_expect_str :: "reader_env \<Rightarrow> ffi_reader \<Rightarrow> (u32 \<times> ffi_reader) option" where
  "mpack_expect_str env r = expect_str_impl env r"

text \<open>What \<open>mpack_expect_str_buf\<close>, \<open>mpack_expect_utf8\<close> and \<open>mpack_expect_bin_buf\<close> have in common: the payload
  of \<open>len\<close> bytes into the buffer, and the end of the value. Whether it succeeded is the first result.\<close>

definition read_into_buf ::
  "reader_env \<Rightarrow> c_int \<Rightarrow> u8 list option \<Rightarrow> nat \<Rightarrow> nat \<Rightarrow> ffi_reader \<Rightarrow> (bool \<times> u8 list option \<times> ffi_reader) option"
where
  "read_into_buf env ty buf bufsize len r =
     (if fr_error r \<noteq> MPACK_OK then Some (False, buf, r)
      else if len > bufsize then Some (False, buf, flag_error_impl MPACK_ERROR_TOO_BIG r)
      else if len > 0 \<and> buf = None then Some (False, buf, flag_error_impl MPACK_ERROR_BUG r)
      else do {
        (buf, r) \<leftarrow> mpack_read_bytes env buf len r;
        (if fr_error r \<noteq> MPACK_OK then Some (False, buf, r)
         else do {
           r \<leftarrow> done_type_impl ty r;
           Some (True, buf, r)
         })
      })"

definition mpack_expect_str_buf ::
  "reader_env \<Rightarrow> u8 list option \<Rightarrow> nat \<Rightarrow> ffi_reader \<Rightarrow> (nat \<times> u8 list option \<times> ffi_reader) option"
where
  "mpack_expect_str_buf env buf bufsize r = do {
     (len, r) \<leftarrow> expect_str_impl env r;
     (ok, buf, r) \<leftarrow> read_into_buf env TYPE_STR buf bufsize (unat len) r;
     Some (if ok then unat len else 0, buf, r)
   }"

definition mpack_expect_utf8 ::
  "reader_env \<Rightarrow> u8 list option \<Rightarrow> nat \<Rightarrow> ffi_reader \<Rightarrow> (nat \<times> u8 list option \<times> ffi_reader) option"
where
  "mpack_expect_utf8 env buf bufsize r = do {
     (len, r) \<leftarrow> expect_str_impl env r;
     (ok, buf, r) \<leftarrow> read_into_buf env TYPE_STR buf bufsize (unat len) r;
     (if \<not> ok then Some (0, buf, r)
      else do {
        bytes \<leftarrow> peek_bytes buf (unat len);
        (if \<not> check_utf8 bytes then Some (0, buf, flag_error_impl MPACK_ERROR_TYPE r)
         else Some (unat len, buf, r))
      })
   }"

text \<open>The loop over the expected bytes; whether it came to the end.\<close>

primrec match_loop :: "reader_env \<Rightarrow> u8 list \<Rightarrow> ffi_reader \<Rightarrow> (bool \<times> ffi_reader) option" where
  "match_loop env [] r = Some (True, r)"
| "match_loop env (byte # expected) r = do {
     (temp, r) \<leftarrow> read_native env (Some [0]) 1 r;
     (if fr_error r \<noteq> MPACK_OK then Some (False, r)
      else if temp \<noteq> Some [byte] then Some (False, flag_error_impl MPACK_ERROR_TYPE r)
      else match_loop env expected r)
   }"

definition mpack_expect_str_match ::
  "reader_env \<Rightarrow> u8 list option \<Rightarrow> nat \<Rightarrow> ffi_reader \<Rightarrow> ffi_reader option"
where
  "mpack_expect_str_match env str len r =
     (if len > 2 ^ 32 - 1 then Some (flag_error_impl MPACK_ERROR_TYPE r)
      else do {
        expected \<leftarrow> c_bytes str len;
        (case expected of
           None \<Rightarrow> Some (flag_error_impl MPACK_ERROR_BUG r)
         | Some expected \<Rightarrow> do {
             (got, r) \<leftarrow> expect_str_impl env r;
             (if fr_error r \<noteq> MPACK_OK then Some r
              else if unat got \<noteq> len then Some (flag_error_impl MPACK_ERROR_TYPE r)
              else do {
                (ok, r) \<leftarrow> track_call (Ffi_Track.track_bytes len) r;
                (if \<not> ok then Some r
                 else do {
                   (ok, r) \<leftarrow> match_loop env expected r;
                   (if \<not> ok then Some r else done_type_impl TYPE_STR r)
                 })
              })
           })
      })"

text \<open>The body of \<open>mpack_expect_cstr\<close> and \<open>mpack_expect_utf8_cstr\<close>, over the read of the C string.\<close>

definition expect_cstr_with ::
  "(u8 list option \<Rightarrow> nat \<Rightarrow> nat \<Rightarrow> ffi_reader \<Rightarrow> (u8 list option \<times> ffi_reader) option)
    \<Rightarrow> reader_env \<Rightarrow> u8 list option \<Rightarrow> nat \<Rightarrow> ffi_reader \<Rightarrow> (u8 list option \<times> ffi_reader) option"
where
  "expect_cstr_with read env buf sz r =
     (if sz < 1 then Some (buf, flag_error_impl MPACK_ERROR_BUG r)
      else do {
        (len, r) \<leftarrow> expect_str_impl env r;
        (buf, r) \<leftarrow> read buf sz (unat len) r;
        (if fr_error r = MPACK_OK then do { r \<leftarrow> done_type_impl TYPE_STR r; Some (buf, r) } else Some (buf, r))
      })"

definition mpack_expect_cstr ::
  "reader_env \<Rightarrow> u8 list option \<Rightarrow> nat \<Rightarrow> ffi_reader \<Rightarrow> (u8 list option \<times> ffi_reader) option"
where
  "mpack_expect_cstr env buf sz r = expect_cstr_with (mpack_read_cstr env) env buf sz r"

definition mpack_expect_utf8_cstr ::
  "reader_env \<Rightarrow> u8 list option \<Rightarrow> nat \<Rightarrow> ffi_reader \<Rightarrow> (u8 list option \<times> ffi_reader) option"
where
  "mpack_expect_utf8_cstr env buf sz r = expect_cstr_with (mpack_read_utf8_cstr env) env buf sz r"

text \<open>The closures that refuse a length above a limit.\<close>

definition length_limited :: "error \<Rightarrow> u32 \<Rightarrow> (reader \<Rightarrow> (u32 option \<times> reader) option) \<Rightarrow> reader \<Rightarrow> (u32 option \<times> reader) option" where
  "length_limited err max_payload op core = try_opt (op core) (\<lambda>n core.
     if n \<le> max_payload then Some (Some n, core) else Some (None, flag_error err core))"

definition limit_of :: "nat \<Rightarrow> u32" where
  "limit_of n = word_of_nat (min n (2 ^ 32 - 1))"

definition expect_cstr_alloc_unchecked ::
  "reader_env \<Rightarrow> nat \<Rightarrow> ffi_reader \<Rightarrow> (u8 list option \<times> nat \<times> ffi_reader) option"
where
  "expect_cstr_alloc_unchecked env maxsize r =
     (if maxsize < 1 then Some (None, 0, flag_error_impl MPACK_ERROR_BUG r)
      else do {
        (len, r) \<leftarrow> compound_open env TYPE_STR (length_limited Err_TooBig (limit_of (maxsize - 1)) expect_str) r;
        (if fr_error r \<noteq> MPACK_OK then Some (None, 0, r)
         else do {
           (pointer, r) \<leftarrow> mpack_read_bytes_alloc_impl env (unat len) True r;
           r \<leftarrow> done_type_impl TYPE_STR r;
           Some (pointer, if pointer \<noteq> None then unat len else 0, r)
         })
      })"

text \<open>The body of \<open>mpack_expect_cstr_alloc\<close> and \<open>mpack_expect_utf8_cstr_alloc\<close>, over the check of the text.\<close>

definition cstr_alloc_with ::
  "(u8 list \<Rightarrow> bool) \<Rightarrow> reader_env \<Rightarrow> nat \<Rightarrow> ffi_reader \<Rightarrow> (u8 list option \<times> ffi_reader) option"
where
  "cstr_alloc_with bad env maxsize r = do {
     (pointer, len, r) \<leftarrow> expect_cstr_alloc_unchecked env maxsize r;
     (if pointer = None then Some (None, r)
      else do {
        bytes \<leftarrow> peek_bytes pointer len;
        (if bad bytes then Some (None, flag_error_impl MPACK_ERROR_TYPE r) else Some (pointer, r))
      })
   }"

definition mpack_expect_cstr_alloc :: "reader_env \<Rightarrow> nat \<Rightarrow> ffi_reader \<Rightarrow> (u8 list option \<times> ffi_reader) option" where
  "mpack_expect_cstr_alloc env maxsize r = cstr_alloc_with (\<lambda>bytes. 0 \<in> set bytes) env maxsize r"

definition mpack_expect_utf8_cstr_alloc ::
  "reader_env \<Rightarrow> nat \<Rightarrow> ffi_reader \<Rightarrow> (u8 list option \<times> ffi_reader) option"
where
  "mpack_expect_utf8_cstr_alloc env maxsize r =
     cstr_alloc_with (\<lambda>bytes. \<not> check_utf8 bytes \<or> 0 \<in> set bytes) env maxsize r"

subsection \<open>Binaries\<close>

definition mpack_expect_bin :: "reader_env \<Rightarrow> ffi_reader \<Rightarrow> (u32 \<times> ffi_reader) option" where
  "mpack_expect_bin env r = expect_bin_impl env r"

definition mpack_expect_bin_buf ::
  "reader_env \<Rightarrow> u8 list option \<Rightarrow> nat \<Rightarrow> ffi_reader \<Rightarrow> (nat \<times> u8 list option \<times> ffi_reader) option"
where
  "mpack_expect_bin_buf env buf sz r = do {
     (len, r) \<leftarrow> expect_bin_impl env r;
     (ok, buf, r) \<leftarrow> read_into_buf env TYPE_BIN buf sz (unat len) r;
     Some (if ok then unat len else 0, buf, r)
   }"

definition mpack_expect_bin_size_buf ::
  "reader_env \<Rightarrow> u8 list option \<Rightarrow> u32 \<Rightarrow> ffi_reader \<Rightarrow> (u8 list option \<times> ffi_reader) option"
where
  "mpack_expect_bin_size_buf env buf sz r = do {
     (len, r) \<leftarrow> expect_bin_impl env r;
     (if fr_error r \<noteq> MPACK_OK then Some (buf, r)
      else if len \<noteq> sz then Some (buf, flag_error_impl MPACK_ERROR_TYPE r)
      else if sz > 0 \<and> buf = None then Some (buf, flag_error_impl MPACK_ERROR_BUG r)
      else do {
        (buf, r) \<leftarrow> mpack_read_bytes env buf (unat sz) r;
        r \<leftarrow> (if fr_error r = MPACK_OK then done_type_impl TYPE_BIN r else Some r);
        Some (buf, r)
      })
   }"

definition mpack_expect_bin_alloc ::
  "reader_env \<Rightarrow> nat \<Rightarrow> nat option \<Rightarrow> ffi_reader \<Rightarrow> (u8 list option \<times> nat option \<times> ffi_reader) option"
where
  "mpack_expect_bin_alloc env maxsize size_out r =
     (let size_out = write_out 0 size_out
      in do {
        (len, r) \<leftarrow> compound_open env TYPE_BIN (length_limited Err_Type (limit_of maxsize) expect_bin) r;
        (if fr_error r \<noteq> MPACK_OK then Some (None, size_out, r)
         else do {
           (pointer, r) \<leftarrow> mpack_read_bytes_alloc_impl env (unat len) False r;
           r \<leftarrow> done_type_impl TYPE_BIN r;
           Some (pointer, if pointer \<noteq> None then write_out (unat len) size_out else size_out, r)
         })
      })"

subsection \<open>Extensions\<close>

text \<open>The header of an extension with its tracker calls, as \<open>mpack_expect_ext\<close> and \<open>mpack_expect_ext_buf\<close> have
  it; whether the header could be read at all is the first result.\<close>

definition mpack_expect_ext ::
  "reader_env \<Rightarrow> i8 option \<Rightarrow> ffi_reader \<Rightarrow> (u32 \<times> i8 option \<times> ffi_reader) option"
where
  "mpack_expect_ext env type_out r = do {
     (ok, r) \<leftarrow> prepare_scalar env r;
     (if \<not> ok then Some (0, write_out 0 type_out, r)
      else do {
        ((ty, len), r) \<leftarrow> read_with_core (unwrap_or (0, 0) expect_ext) (0, 0) r;
        (let type_out = write_out ty type_out
         in if fr_error r = MPACK_OK then do { r \<leftarrow> push_type env TYPE_EXT len r; Some (len, type_out, r) }
            else Some (len, write_out 0 type_out, r))
      })
   }"

definition mpack_expect_ext_buf ::
  "reader_env \<Rightarrow> i8 option \<Rightarrow> u8 list option \<Rightarrow> nat \<Rightarrow> ffi_reader
    \<Rightarrow> (nat \<times> i8 option \<times> u8 list option \<times> ffi_reader) option"
where
  "mpack_expect_ext_buf env type_out buf sz r = do {
     (ok, r) \<leftarrow> prepare_scalar env r;
     (if \<not> ok then Some (0, write_out 0 type_out, buf, r)
      else do {
        ((ty, len), r) \<leftarrow> read_with_core (unwrap_or (0, 0) expect_ext) (0, 0) r;
        (let type_out = write_out ty type_out
         in if fr_error r \<noteq> MPACK_OK then Some (0, write_out 0 type_out, buf, r)
            else do {
              r \<leftarrow> push_type env TYPE_EXT len r;
              (if unat len > sz
               then Some (0, write_out 0 type_out, buf, flag_error_impl MPACK_ERROR_TOO_BIG r)
               else if unat len > 0 \<and> buf = None
               then Some (0, write_out 0 type_out, buf, flag_error_impl MPACK_ERROR_BUG r)
               else do {
                 (buf, r) \<leftarrow> mpack_read_bytes env buf (unat len) r;
                 (if fr_error r \<noteq> MPACK_OK then Some (0, write_out 0 type_out, buf, r)
                  else do {
                    r \<leftarrow> done_type_impl TYPE_EXT r;
                    Some (unat len, type_out, buf, r)
                  })
               })
            })
      })
   }"

text \<open>The closure of \<open>mpack_expect_ext_alloc\<close>.\<close>

definition ext_limited :: "u32 \<Rightarrow> reader \<Rightarrow> ((i8 \<times> u32) option \<times> reader) option" where
  "ext_limited max_payload core = try_opt (expect_ext core) (\<lambda>(ty, len) core.
     if len \<le> max_payload then Some (Some (ty, len), core) else Some (None, flag_error Err_Type core))"

definition mpack_expect_ext_alloc ::
  "reader_env \<Rightarrow> i8 option \<Rightarrow> nat \<Rightarrow> nat option \<Rightarrow> ffi_reader
    \<Rightarrow> (u8 list option \<times> i8 option \<times> nat option \<times> ffi_reader) option"
where
  "mpack_expect_ext_alloc env type_out maxsize size_out r =
     (let size_out = write_out 0 size_out
      in do {
        (ok, r) \<leftarrow> prepare_scalar env r;
        (if \<not> ok then Some (None, write_out 0 type_out, size_out, r)
         else do {
           (result, r) \<leftarrow> read_with_core (ext_limited (limit_of maxsize)) None r;
           (case result of
              None \<Rightarrow> Some (None, write_out 0 type_out, size_out, r)
            | Some (ty, len) \<Rightarrow> do {
                r \<leftarrow> push_type env TYPE_EXT len r;
                (pointer, r) \<leftarrow> mpack_read_bytes_alloc_impl env (unat len) False r;
                r \<leftarrow> done_type_impl TYPE_EXT r;
                Some (if pointer = None then (None, write_out 0 type_out, size_out, r)
                      else (pointer, write_out ty type_out, write_out (unat len) size_out, r))
              })
         })
      })"

subsection \<open>Tags and keys\<close>

definition mpack_expect_tag :: "reader_env \<Rightarrow> mpack_tag \<Rightarrow> ffi_reader \<Rightarrow> ffi_reader option" where
  "mpack_expect_tag env expected r = do {
     (actual, r) \<leftarrow> mpack_read_tag env r;
     (if fr_error r \<noteq> MPACK_OK then Some r
      else if mpack_tag_cmp actual expected \<noteq> 0 then Some (flag_error_impl MPACK_ERROR_TYPE r)
      else Some r)
   }"

definition mpack_expect_key_uint ::
  "reader_env \<Rightarrow> bool list option \<Rightarrow> nat \<Rightarrow> ffi_reader \<Rightarrow> (nat \<times> bool list option \<times> ffi_reader) option"
where
  "mpack_expect_key_uint env found count r =
     (if fr_error r \<noteq> MPACK_OK then Some (count, found, r)
      else if count = 0 then Some (count, found, flag_error_impl MPACK_ERROR_BUG r)
      else do {
        flags \<leftarrow> found_slice found count;
        (case flags of
           None \<Rightarrow> Some (count, found, flag_error_impl MPACK_ERROR_BUG r)
         | Some flags \<Rightarrow> do {
             (peeked, r) \<leftarrow> mpack_peek_tag env r;
             (if fr_error r \<noteq> MPACK_OK then Some (count, found, r)
              else if mt_type peeked \<noteq> TYPE_UINT then do { r \<leftarrow> mpack_discard env r; Some (count, found, r) }
              else do {
                (v, r) \<leftarrow> expect_option env 0 expect_u64 r;
                (if fr_error r \<noteq> MPACK_OK then Some (count, found, r)
                 else if unat v \<ge> count then Some (count, found, r)
                 else do {
                   seen \<leftarrow> index flags (unat v);
                   Some (if seen then (count, found, flag_error_impl MPACK_ERROR_INVALID r)
                         else (unat v, set_found (unat v) found, r))
                 })
              })
           })
      })"

text \<open>The loop over the table; the result is the index, \<open>count\<close> when there is none.\<close>

primrec match_key ::
  "u8 list \<Rightarrow> nat \<Rightarrow> bool list \<Rightarrow> u8 list list \<Rightarrow> nat \<Rightarrow> bool list option \<Rightarrow> ffi_reader
    \<Rightarrow> (nat \<times> bool list option \<times> ffi_reader) option"
where
  "match_key key_bytes count flags [] i found r = Some (count, found, r)"
| "match_key key_bytes count flags (key # keys) i found r =
     (if key = key_bytes then do {
        seen \<leftarrow> index flags i;
        Some (if seen then (count, found, flag_error_impl MPACK_ERROR_INVALID r) else (i, set_found i found, r))
      }
      else match_key key_bytes count flags keys (i + 1) found r)"

definition mpack_expect_key_cstr ::
  "reader_env \<Rightarrow> u8 list option list option \<Rightarrow> bool list option \<Rightarrow> nat \<Rightarrow> ffi_reader
    \<Rightarrow> (nat \<times> bool list option \<times> ffi_reader) option"
where
  "mpack_expect_key_cstr env keys found count r =
     (if fr_error r \<noteq> MPACK_OK then Some (count, found, r)
      else do {
        table \<leftarrow> key_cstr_table keys count;
        (case table of
           None \<Rightarrow> Some (count, found, flag_error_impl MPACK_ERROR_BUG r)
         | Some table \<Rightarrow> do {
             flags \<leftarrow> found_slice found count;
             (case flags of
                None \<Rightarrow> Some (count, found, flag_error_impl MPACK_ERROR_BUG r)
              | Some flags \<Rightarrow> do {
                  (peeked, r) \<leftarrow> mpack_peek_tag env r;
                  (if fr_error r \<noteq> MPACK_OK then Some (count, found, r)
                   else if mt_type peeked \<noteq> TYPE_STR then do { r \<leftarrow> mpack_discard env r; Some (count, found, r) }
                   else do {
                     (keylen, r) \<leftarrow> expect_str_impl env r;
                     (if fr_error r \<noteq> MPACK_OK then Some (count, found, r)
                      else do {
                        (key_ptr, r) \<leftarrow> mpack_read_bytes_inplace env (unat keylen) r;
                        r \<leftarrow> done_type_impl TYPE_STR r;
                        (if fr_error r \<noteq> MPACK_OK \<or> (unat keylen > 0 \<and> key_ptr = None) then Some (count, found, r)
                         else match_key (if unat keylen = 0 then [] else the key_ptr) count flags table 0 found r)
                      })
                   })
                })
           })
      })"

end
