(* ===== verification/Ffi_Expect_Values.thy ===== *)
theory Ffi_Expect_Values
  imports Ffi_Expect_Bytes Ffi_Reader_Sources Expect_Buffers
begin

section \<open>What the C expect functions read from a source of input\<close>

text \<open>
  Over the interfaces \<open>fill_source\<close> and \<open>skip_source\<close>: an expect function on a reader whose tracker is known
  reads the element that the input goes on with, however the input is cut. The operation of the safe core enters
  by its result on the header.
\<close>

subsection \<open>The core on a window that begins with a header\<close>

text \<open>\<open>yields op hs v\<close>: the operation accepts the header with the value \<open>v\<close>; \<open>refuses op hs\<close>: it is of another
  type.\<close>

definition yields :: "(reader \<Rightarrow> ('a option \<times> reader) option) \<Rightarrow> u8 list \<Rightarrow> 'a \<Rightarrow> bool" where
  "yields op hs v \<longleftrightarrow> (\<forall>bs. op (reader_new (hs @ bs)) = Some (Some v, advance (length hs) (reader_new (hs @ bs))))"

definition refuses :: "(reader \<Rightarrow> ('a option \<times> reader) option) \<Rightarrow> u8 list \<Rightarrow> bool" where
  "refuses op hs \<longleftrightarrow> (\<forall>bs. op (reader_new (hs @ bs)) = type_error (advance (length hs) (reader_new (hs @ bs))))"

lemma select_yields: "header hs t \<Longrightarrow> sel t = Some v \<Longrightarrow> yields (select_read read_tag sel) hs v"
  unfolding yields_def by (intro allI reading.select_value) (simp_all add: fresh_reader)

lemma select_refuses: "header hs t \<Longrightarrow> sel t = None \<Longrightarrow> refuses (select_read read_tag sel) hs"
  unfolding refuses_def type_error_def by (intro allI reading.select_mismatch) (simp_all add: fresh_reader)

lemma str_yields: "header hs (Tag_Str n) \<Longrightarrow> yields expect_str hs n"
  using expect_str_header by (simp add: yields_def)

lemma core_yields:
  assumes "fr_error r = MPACK_OK" and "cursor_ok r" and "ahead r = hs @ bs" and "yields op hs v"
  shows "read_with_core (unwrap_or zero op) zero' r = Some (v, advance_cursor (length hs) r)"
    and "read_with_core op zero'' r = Some (Some v, advance_cursor (length hs) r)"
proof -
  have "op (reader_new (hs @ bs)) = Some (Some v, advance (length hs) (reader_new (hs @ bs)))"
    using assms(4) by (simp add: yields_def)
  moreover have "load_buffer (fr_data r) (length (hs @ bs)) r = Some (hs @ bs)"
    using load_ahead [OF assms(2), of "length (ahead r)"] assms(3) by simp
  ultimately show "read_with_core (unwrap_or zero op) zero' r = Some (v, advance_cursor (length hs) r)"
      "read_with_core op zero'' r = Some (Some v, advance_cursor (length hs) r)"
    using assms(1,3) by (simp_all add: read_with_core_def remaining_ahead [OF assms(2)] unwrap_or_def)
qed

lemma core_refuses:
  assumes "fr_error r = MPACK_OK" and "cursor_ok r" and "ahead r = hs @ bs" and "refuses op hs"
  shows "read_with_core (unwrap_or zero op) zero' r
    = Some (zero', flag_error_on MPACK_ERROR_TYPE (advance_cursor (length hs) r))"
proof -
  have "op (reader_new (hs @ bs)) = type_error (advance (length hs) (reader_new (hs @ bs)))"
    using assms(4) by (simp add: refuses_def)
  moreover have "load_buffer (fr_data r) (length (hs @ bs)) r = Some (hs @ bs)"
    using load_ahead [OF assms(2), of "length (ahead r)"] assms(3) by simp
  moreover have "MPACK_ERROR_TYPE \<noteq> MPACK_OK"
    by (simp add: c_codes)
  ultimately show ?thesis
    using assms(1,3) by (simp add: read_with_core_def remaining_ahead [OF assms(2)] unwrap_or_def type_error_def flag_error_error)
qed

subsection \<open>The tracker\<close>

lemma peek_tracked:
  assumes "c_rep t st" and "wt_element st = (Inr (), st')"
  shows "track_peek_element t = Some MPACK_OK"
proof -
  obtain es where es: "track_rep t es" "list_all2 elem_rep es st"
    using assms(1) by (auto simp: c_rep_def)
  show ?thesis
  proof (cases st)
    case Nil
    with es track_peek_rep [OF es(1)] show ?thesis
      by (simp add: track_peek_element_def)
  next
    case (Cons a st1)
    with es(2) obtain e es' where "es = e # es'" "elem_rep e a"
      by (cases es) auto
    with track_peek_rep [OF es(1)] assms(2) Cons show ?thesis
      by (cases "te_kind a") (auto simp: track_peek_element_def wt_element_def elem_rep_def is_payload_def split: if_splits)
  qed
qed

lemma push_type_tracked:
  assumes r: "tracked_reader fill skip valid st r" and env: "tracks_up_to env d" and depth: "length st \<le> d"
  obtains t' where "push_type env (kind_code k) n r = Some (r\<lparr>fr_track := t'\<rparr>)"
    and "tracked_reader fill skip valid (\<lparr>te_kind = k, te_left = announced k (unat n)\<rparr> # st) (r\<lparr>fr_track := t'\<rparr>)"
proof -
  have rep: "c_rep (fr_track r) st" and l: "live fill skip valid r"
    using r by (simp_all add: tracked_reader_def)
  have "track_step (Call_push k (unat n)) st = (Inr (), \<lparr>te_kind = k, te_left = announced k (unat n)\<rparr> # st)"
    by (simp add: wt_push_announced)
  moreover have "c_fits (Call_push k (unat n))"
    using unat_u32_less [of n] by simp
  ultimately obtain t' where "c_run (re_malloc env) (Call_push k (unat n)) (fr_track r) = Some (MPACK_OK, t')"
      "c_rep t' (\<lparr>te_kind = k, te_left = announced k (unat n)\<rparr> # st)"
    using c_run_ok [OF rep _ env depth] by blast
  with liveD(1) [OF l] l show thesis
    by (intro that [of t']) (simp_all add: push_type_def track_call_def c_run_def tracked_reader_def)
qed

lemma into_buf_large:
  assumes "tracked_reader fill skip valid st r" and "bufsize < n"
  shows "read_into_buf env ty buf bufsize n r = Some (False, buf, flag_error_on MPACK_ERROR_TOO_BIG r)"
    and "fr_error (flag_error_on MPACK_ERROR_TOO_BIG r) = MPACK_ERROR_TOO_BIG"
  using assms liveD(1) [OF tracked_live [OF assms(1)]] by (simp_all add: read_into_buf_def flag_fields)

subsection \<open>Elements\<close>

context fill_source begin

lemma prepare_ok:
  assumes r: "tracked_reader fill skip good st r" and el: "wt_element st = (Inr (), st')"
    and h: "header hs t" and i: "input rest r = hs @ after"
    and env: "tracks_up_to env d" and depth: "length st \<le> d"
  obtains r' bs where "prepare_scalar env r = Some (True, r')" and "tracked_reader fill skip good st' r'"
    and "ahead r' = hs @ bs" and "input rest r' = hs @ after" and "same_frame r r'"
proof -
  have rep: "c_rep (fr_track r) st" and l: "live fill skip good r"
    using r by (simp_all add: tracked_reader_def)
  obtain t1 where t1: "c_run (re_malloc env) Call_element (fr_track r) = Some (MPACK_OK, t1)" "c_rep t1 st'"
    using c_run_ok [OF rep _ env depth, of Call_element] el by auto
  obtain m hs' where hs: "hs = m # hs'"
    using header_nonempty [OF h] by (cases hs) auto
  have sz: "header_size (unat m) = length hs"
    using header_size_header [of m hs' t] h hs by simp
  have 1: "live fill skip good (r\<lparr>fr_track := t1\<rparr>)" "input rest (r\<lparr>fr_track := t1\<rparr>) = m # hs' @ after"
      "header_size (unat m) \<le> Suc (length (hs' @ after))"
    using l i hs sz by simp_all
  obtain r1 where r1: "ensure_tag_header env (r\<lparr>fr_track := t1\<rparr>) = Some (True, r1)" "live fill skip good r1"
      "input rest r1 = input rest (r\<lparr>fr_track := t1\<rparr>)" "header_size (unat m) \<le> length (ahead r1)"
      "same_setup (r\<lparr>fr_track := t1\<rparr>) r1"
    by (rule tag_header_ensured [OF 1])
  have i1: "input rest r1 = hs @ after"
    using r1(3) i by simp
  obtain bs where bs: "ahead r1 = hs @ bs"
    using prefix_split [of "ahead r1" "rest (fr_context r1)" hs after] i1 r1(4) sz by (auto simp: input_def)
  have "prepare_scalar env r = Some (True, r1)"
    using liveD(1) [OF l] t1(1) r1(1) by (simp add: prepare_scalar_def track_element_or_flag_def track_call_def c_run_def)
  with r1(2) t1(2) same_setup_frame [OF r1(5)] i1 bs show thesis
    by (intro that [of r1 bs]) (simp_all add: tracked_reader_def)
qed

lemma advance_step:
  assumes "tracked_reader fill skip good st r" and "ahead r = hs @ bs" and "input rest r = hs @ after"
  shows "tracked_reader fill skip good st (advance_cursor (length hs) r)"
    and "input rest (advance_cursor (length hs) r) = after" and "same_frame r (advance_cursor (length hs) r)"
  using assms live_advance [of fill skip good r "length hs"] input_advance [of "length hs" r rest]
  by (simp_all add: tracked_reader_def same_frame_def same_setup_def advance_cursor_def)

lemma scalar_ok:
  assumes r: "tracked_reader fill skip good st r" and el: "wt_element st = (Inr (), st')"
    and h: "header hs t" and i: "input rest r = hs @ after"
    and env: "tracks_up_to env d" and depth: "length st \<le> d" and op: "yields op hs v"
  obtains r' where "expect_option env zero op r = Some (v, r')" and "tracked_reader fill skip good st' r'"
    and "input rest r' = after" and "same_frame r r'"
proof -
  obtain r1 bs where r1: "prepare_scalar env r = Some (True, r1)" "tracked_reader fill skip good st' r1"
      "ahead r1 = hs @ bs" "input rest r1 = hs @ after" "same_frame r r1"
    by (rule prepare_ok [OF r el h i env depth])
  note l = tracked_live [OF r1(2)]
  have "expect_option env zero op r = Some (v, advance_cursor (length hs) r1)"
    using r1(1) core_yields(1) [OF liveD(1) [OF l] liveD(4) [OF l] r1(3) op] by (simp add: expect_option_def)
  with advance_step [OF r1(2-4)] same_frame_trans [OF r1(5)] show thesis
    by (intro that) auto
qed

lemma scalar_mismatch:
  assumes r: "tracked_reader fill skip good st r" and el: "wt_element st = (Inr (), st')"
    and h: "header hs t" and i: "input rest r = hs @ after"
    and env: "tracks_up_to env d" and depth: "length st \<le> d" and op: "refuses op hs"
  obtains r' where "expect_option env zero op r = Some (zero, r')" and "fr_error r' = MPACK_ERROR_TYPE"
proof -
  obtain r1 bs where r1: "prepare_scalar env r = Some (True, r1)" "tracked_reader fill skip good st' r1"
      "ahead r1 = hs @ bs" "input rest r1 = hs @ after" "same_frame r r1"
    by (rule prepare_ok [OF r el h i env depth])
  note l = tracked_live [OF r1(2)]
  have "fr_error (advance_cursor (length hs) r1) = MPACK_OK"
    using liveD(1) [OF l] by (simp add: advance_cursor_def)
  with r1(1) core_refuses [OF liveD(1) [OF l] liveD(4) [OF l] r1(3) op] show thesis
    by (intro that [of "flag_error_on MPACK_ERROR_TYPE (advance_cursor (length hs) r1)"]) (simp_all add: expect_option_def)
qed

lemma compound_ok:
  assumes r: "tracked_reader fill skip good st r" and el: "wt_element st = (Inr (), st')"
    and h: "header hs t" and i: "input rest r = hs @ after"
    and env: "tracks_up_to env d" and depth: "length st \<le> d" and op: "yields op hs n"
  obtains r' where "compound_open env (kind_code k) op r = Some (n, r')"
    and "tracked_reader fill skip good (\<lparr>te_kind = k, te_left = announced k (unat n)\<rparr> # st') r'"
    and "input rest r' = after" and "same_frame r r'"
proof -
  obtain r1 bs where r1: "prepare_scalar env r = Some (True, r1)" "tracked_reader fill skip good st' r1"
      "ahead r1 = hs @ bs" "input rest r1 = hs @ after" "same_frame r r1"
    by (rule prepare_ok [OF r el h i env depth])
  note l = tracked_live [OF r1(2)]
  let ?r2 = "advance_cursor (length hs) r1"
  have r2: "read_with_core (unwrap_or 0 op) 0 r1 = Some (n, ?r2)" "fr_error ?r2 = MPACK_OK"
    using core_yields(1) [OF liveD(1) [OF l] liveD(4) [OF l] r1(3) op] liveD(1) [OF l] by (simp_all add: advance_cursor_def)
  note step = advance_step [OF r1(2-4)]
  have len: "length st' \<le> d"
    using el depth by (auto simp: wt_element_def split: list.splits if_splits)
  obtain t' where t': "push_type env (kind_code k) n ?r2 = Some (?r2\<lparr>fr_track := t'\<rparr>)"
      "tracked_reader fill skip good (\<lparr>te_kind = k, te_left = announced k (unat n)\<rparr> # st') (?r2\<lparr>fr_track := t'\<rparr>)"
    by (rule push_type_tracked [OF step(1) env len])
  have "compound_open env (kind_code k) op r = Some (n, ?r2\<lparr>fr_track := t'\<rparr>)"
    using r1(1) r2 t'(1) by (simp add: compound_open_def)
  with t'(2) step(2) same_frame_trans [OF r1(5) step(3)] show thesis
    by (intro that [of "?r2\<lparr>fr_track := t'\<rparr>"]) simp_all
qed

text \<open>The payload of an opened string or binary into a buffer, and the end of the value.\<close>

lemma into_buf_ok:
  assumes r: "tracked_reader fill skip good (\<lparr>te_kind = k, te_left = n\<rparr> # st) r" and k: "is_payload k"
    and i: "input rest r = pl @ after" and n: "length pl = n" and buf: "n \<le> bufsize" "bufsize \<le> length m"
    and env: "tracks_up_to env d" and depth: "length st < d"
  obtains r' where "read_into_buf env (kind_code k) (Some m) bufsize n r = Some (True, Some (pl @ drop n m), r')"
    and "tracked_reader fill skip good st r'" and "input rest r' = after" and "same_frame r r'"
proof -
  note ok = liveD(1) [OF tracked_live [OF r]]
  have 1: "n \<le> length (input rest r)" "n \<le> length m"
    using i n buf by simp_all
  obtain r1 where r1: "mpack_read_bytes env (Some m) n r = Some (Some (take n (input rest r) @ drop n m), r1)"
      "tracked_reader fill skip good (\<lparr>te_kind = k, te_left = 0\<rparr> # st) r1"
      "input rest r1 = drop n (input rest r)" "same_frame r r1"
    by (rule payload_into [OF r k 1 env depth])
  obtain r2 where r2: "done_type_impl (kind_code k) r1 = Some r2" "tracked_reader fill skip good st r2"
      "input rest r2 = input rest r1" "same_frame r1 r2"
    by (rule done_step [OF r1(2) env depth])
  have "read_into_buf env (kind_code k) (Some m) bufsize n r = Some (True, Some (pl @ drop n m), r2)"
    using ok r1(1) r2(1) liveD(1) [OF tracked_live [OF r1(2)]] i n buf by (simp add: read_into_buf_def)
  with r2 r1 i n same_frame_trans [OF r1(4) r2(4)] show thesis
    by (intro that [of r2]) simp_all
qed

lemma string_open:
  assumes r: "tracked_reader fill skip good st r" and el: "wt_element st = (Inr (), st')"
    and h: "header hs (Tag_Str n)" and i: "input rest r = hs @ after"
    and env: "tracks_up_to env d" and depth: "length st \<le> d"
  obtains r' where "expect_str_impl env r = Some (n, r')"
    and "tracked_reader fill skip good (\<lparr>te_kind = Kind_Str, te_left = unat n\<rparr> # st') r'"
    and "input rest r' = after" and "same_frame r r'"
proof -
  obtain r' where "compound_open env (kind_code Kind_Str) expect_str r = Some (n, r')"
      "tracked_reader fill skip good (\<lparr>te_kind = Kind_Str, te_left = announced Kind_Str (unat n)\<rparr> # st') r'"
      "input rest r' = after" "same_frame r r'"
    by (rule compound_ok [OF r el h i env depth str_yields [OF h]])
  then show thesis
    by (intro that [of r']) (simp_all add: expect_str_impl_def announced_def)
qed

lemma peek_ok:
  assumes r: "tracked_reader fill skip good st r" and el: "wt_element st = (Inr (), st')"
    and h: "header hs t" and i: "input rest r = hs @ after"
  obtains r' where "mpack_peek_tag env r = Some (tag_to_abi t, r')" and "tracked_reader fill skip good st r'"
    and "input rest r' = input rest r" and "same_frame r r'"
proof -
  have rep: "c_rep (fr_track r) st" and l: "live fill skip good r"
    using r by (simp_all add: tracked_reader_def)
  obtain m hs' where hs: "hs = m # hs'"
    using header_nonempty [OF h] by (cases hs) auto
  have sz: "header_size (unat m) = length hs"
    using header_size_header [of m hs' t] h hs by simp
  have 1: "input rest r = m # hs' @ after" "header_size (unat m) \<le> Suc (length (hs' @ after))"
    using i hs sz by simp_all
  obtain r1 where r1: "ensure_tag_header env r = Some (True, r1)" "live fill skip good r1"
      "input rest r1 = input rest r" "header_size (unat m) \<le> length (ahead r1)" "same_setup r r1"
    by (rule tag_header_ensured [OF l 1])
  obtain bs where bs: "ahead r1 = hs @ bs"
    using prefix_split [of "ahead r1" "rest (fr_context r1)" hs after] r1(3,4) i sz by (auto simp: input_def)
  have "data_slice r1 = Some (Some (ahead r1))"
    using load_ahead [OF liveD(4) [OF r1(2)], of "length (ahead r1)"] liveD(5) [OF r1(2)]
    by (auto simp: data_slice_def load_buffer_def bind_assoc split: if_splits option.splits Option.bind_splits)
  moreover have "peek_tag (reader_new (hs @ bs)) = Some (Some t, reader_new (hs @ bs))"
    using peeking.accept [OF _ h, of "reader_new (hs @ bs)" bs] by (simp add: fresh_reader)
  ultimately have "mpack_peek_tag env r = Some (tag_to_abi t, r1)"
    using liveD(1) [OF l] peek_tracked [OF rep el] r1(1) bs
    by (simp add: mpack_peek_tag_def peek_tag_impl_def fresh_reader)
  moreover have "fr_track r1 = fr_track r" "same_frame r r1"
    using r1(5) by (simp_all add: same_setup_def same_frame_def)
  ultimately show thesis
    using r1 rep by (intro that [of r1]) (simp_all add: tracked_reader_def)
qed

lemma inplace_tracked:
  assumes r: "tracked_reader fill skip good (\<lparr>te_kind = k, te_left = n\<rparr> # st) r" and k: "is_payload k"
    and n: "n \<le> length (input rest r)" and fits: "n \<le> fr_size r" and w: "fr_window r \<noteq> None"
    and env: "tracks_up_to env d" and depth: "length st < d"
  obtains r' where "mpack_read_bytes_inplace env n r = Some (Some (take n (input rest r)), r')"
    and "tracked_reader fill skip good (\<lparr>te_kind = k, te_left = 0\<rparr> # st) r'"
    and "input rest r' = drop n (input rest r)" and "same_frame r r'"
proof -
  have rep: "c_rep (fr_track r) (\<lparr>te_kind = k, te_left = n\<rparr> # st)" and l: "live fill skip good r"
    using r by (simp_all add: tracked_reader_def)
  obtain t' where t': "track_call (Ffi_Track.track_bytes n) r = Some (True, r\<lparr>fr_track := t'\<rparr>)"
      "c_rep t' (\<lparr>te_kind = k, te_left = 0\<rparr> # st)"
    by (rule bytes_tracked [OF rep k env depth])
  have l': "live fill skip good (r\<lparr>fr_track := t'\<rparr>)" "n \<le> length (input rest (r\<lparr>fr_track := t'\<rparr>))"
      "n \<le> fr_size (r\<lparr>fr_track := t'\<rparr>) \<or> n \<le> length (ahead (r\<lparr>fr_track := t'\<rparr>))" "fr_window (r\<lparr>fr_track := t'\<rparr>) \<noteq> None"
    using l n fits w by simp_all
  obtain r' where r': "read_bytes_inplace_notrack env n (r\<lparr>fr_track := t'\<rparr>)
        = Some (Some (take n (input rest (r\<lparr>fr_track := t'\<rparr>))), r')"
      "live fill skip good r'" "input rest r' = drop n (input rest (r\<lparr>fr_track := t'\<rparr>))"
      "same_setup (r\<lparr>fr_track := t'\<rparr>) r'"
    by (rule inplace_ok [OF l'])
  have "mpack_read_bytes_inplace env n r = Some (Some (take n (input rest r)), r')"
    using t'(1) r'(1) liveD(1) [OF l] by (simp add: mpack_read_bytes_inplace_def track_bytes_first_def)
  with r' t'(2) same_setup_frame [OF r'(4)] show thesis
    by (intro that [of r']) (simp_all add: tracked_reader_def)
qed

end

subsection \<open>Keys of a map\<close>

definition first_key :: "u8 list \<Rightarrow> u8 list list \<Rightarrow> nat option" where
  "first_key key ks = (if key \<in> set ks then Some (length (takeWhile (\<lambda>k. k \<noteq> key) ks)) else None)"

definition key_of :: "mvalue \<Rightarrow> u8 list list \<Rightarrow> nat option" where
  "key_of v ks = (case v of MValue (Tag_Str _) pl _ \<Rightarrow> first_key pl ks | _ \<Rightarrow> None)"

text \<open>What the C program gets for the key with this index: a key that was seen before is an error.\<close>

definition key_outcome :: "nat \<Rightarrow> bool list option \<Rightarrow> bool list \<Rightarrow> nat option \<Rightarrow> ffi_reader \<Rightarrow> nat \<times> bool list option \<times> ffi_reader" where
  "key_outcome count found flags i r =
     (case i of
        None \<Rightarrow> (count, found, r)
      | Some i \<Rightarrow> if flags ! i then (count, found, flag_error_on MPACK_ERROR_INVALID r) else (i, set_found i found, r))"

lemma match_key_first:
  assumes "i + length ks \<le> length flags"
  shows "match_key key count flags ks i found r = Some (key_outcome count found flags (map_option ((+) i) (first_key key ks)) r)"
  using assms
proof (induction ks arbitrary: i)
  case (Cons k ks)
  show ?case
  proof (cases "k = key")
    case True
    with Cons.prems show ?thesis
      by (simp add: first_key_def key_outcome_def index_def)
  next
    case False
    with Cons.IH [of "i + 1"] Cons.prems show ?thesis
      by (auto simp: first_key_def key_outcome_def)
  qed
qed (simp add: first_key_def key_outcome_def)

lemma str_code: "mt_type (tag_to_abi t) = TYPE_STR \<longleftrightarrow> (\<exists>n. t = Tag_Str n)"
  by (cases t) (simp_all add: c_types mpack_tag_nil_def)

lemma live_window: "live fill skip valid r \<Longrightarrow> fill \<noteq> None \<Longrightarrow> fr_window r \<noteq> None"
  using liveD(6) by (fastforce simp: buffer_ok_def)

context skip_source begin

lemma key_cstr_ok:
  assumes v: "value_bytes bs v" and r: "tracked_reader fill skip good st r" and el: "wt_element st = (Inr (), st')"
    and i: "input rest r = bs @ after" and env: "tracks_up_to env d" and depth: "length st + height v \<le> d"
    and table: "key_cstr_table keys count = Some (Some ks)" "length ks = count"
    and flags: "found_slice found count = Some (Some flags)" "length flags = count"
    and fill: "fill \<noteq> None" and size: "length bs \<le> fr_size r"
  shows "\<exists>r'. mpack_expect_key_cstr env keys found count r = Some (key_outcome count found flags (key_of v ks) r')
    \<and> tracked_reader fill skip good st' r' \<and> input rest r' = after \<and> same_frame r r'"
proof -
  obtain hs t pl vs cs where parts: "bs = hs @ pl @ cs" "v = MValue t pl vs" "header hs t" "length pl = payload_len t"
      "length vs = child_count t" "values_bytes cs vs"
    using v by (cases rule: value_bytes.cases) auto
  have ih: "input rest r = hs @ pl @ cs @ after"
    using i parts(1) by simp
  have d: "length st < d"
    using depth height_pos [of v] by linarith
  obtain r1 where r1: "mpack_peek_tag env r = Some (tag_to_abi t, r1)" "tracked_reader fill skip good st r1"
      "input rest r1 = input rest r" "same_frame r r1"
    by (rule peek_ok [OF r el parts(3) ih])
  note ok = liveD(1) [OF tracked_live [OF r]] liveD(1) [OF tracked_live [OF r1(2)]]
  show ?thesis
  proof (cases "\<exists>n. t = Tag_Str n")
    case False
    then have "key_of v ks = None"
      by (cases t) (simp_all add: key_of_def parts(2))
    moreover have "input rest r1 = bs @ after"
      using r1(3) i by simp
    then obtain r2 where "mpack_discard env r1 = Some r2" "tracked_reader fill skip good st' r2"
        "input rest r2 = after" "same_frame r1 r2"
      by (rule discard_ok [OF v r1(2) el _ env depth])
    moreover from this(4) have "same_frame r r2"
      by (rule same_frame_trans [OF r1(4)])
    ultimately show ?thesis
      using ok r1(1) False table flags by (simp add: mpack_expect_key_cstr_def key_outcome_def str_code)
  next
    case True
    then obtain n where t: "t = Tag_Str n" by blast
    then have p: "length pl = unat n" "cs = []" "vs = []"
      using parts(4-6) by (auto elim: values_bytes.cases)
    have i1: "input rest r1 = hs @ pl @ after"
      using r1(3) ih p(2) by simp
    have hs: "header hs (Tag_Str n)"
      using parts(3) t by simp
    have d': "length st \<le> d" "length st' < d"
      using d el by (auto simp: wt_element_def split: list.splits if_splits)
    obtain r2 where r2: "expect_str_impl env r1 = Some (n, r2)"
        "tracked_reader fill skip good (\<lparr>te_kind = Kind_Str, te_left = unat n\<rparr> # st') r2"
        "input rest r2 = pl @ after" "same_frame r1 r2"
      by (rule string_open [OF r1(2) el hs i1 env d'(1)])
    have k: "is_payload Kind_Str"
      by (simp add: is_payload_def)
    have "fr_size r2 = fr_size r"
      using r1(4) r2(4) by (simp add: same_frame_def same_setup_def)
    then have n: "unat n \<le> length (input rest r2)" "unat n \<le> fr_size r2" "fr_window r2 \<noteq> None"
      using r2(3) p parts(1) size live_window [OF tracked_live [OF r2(2)] fill] by simp_all
    obtain r3 where r3: "mpack_read_bytes_inplace env (unat n) r2 = Some (Some (take (unat n) (input rest r2)), r3)"
        "tracked_reader fill skip good (\<lparr>te_kind = Kind_Str, te_left = 0\<rparr> # st') r3"
        "input rest r3 = drop (unat n) (input rest r2)" "same_frame r2 r3"
      by (rule inplace_tracked [OF r2(2) k n env d'(2)])
    obtain r4 where r4: "done_type_impl (kind_code Kind_Str) r3 = Some r4" "tracked_reader fill skip good st' r4"
        "input rest r4 = input rest r3" "same_frame r3 r4"
      by (rule done_step [OF r3(2) env d'(2)])
    have key: "take (unat n) (input rest r2) = pl" "unat n = 0 \<Longrightarrow> pl = []"
      using r2(3) p(1) by auto
    have "mpack_expect_key_cstr env keys found count r = match_key pl count flags ks 0 found r4"
      using ok r1(1) table(1) flags(1) r2(1) r3(1) r4(1) liveD(1) [OF tracked_live [OF r2(2)]]
        liveD(1) [OF tracked_live [OF r4(2)]] key
      by (simp add: mpack_expect_key_cstr_def str_code t)
    also have "\<dots> = Some (key_outcome count found flags (key_of v ks) r4)"
      using match_key_first [of 0 ks flags] table(2) flags(2) by (cases "first_key pl ks") (simp_all add: key_of_def parts(2) t)
    finally show ?thesis
      using r4(2,3) r3(3) r2(3) p same_frame_trans [OF r1(4) same_frame_trans [OF r2(4) same_frame_trans [OF r3(4) r4(4)]]]
      by (intro exI [of _ r4]) simp
  qed
qed

end

end
