(* ===== verification/Ffi_Reader_Safety.thy ===== *)
theory Ffi_Reader_Safety
  imports Ffi_Reader_Run Ffi_Track_Theorems Ffi_Reader_Sources
begin

section \<open>Memory safety of the C reader on any input\<close>

text \<open>
  \<open>mem_safe\<close> is the invariant of a reader, with or without an error: its window lies in its memory, the buffer is
  as large as it says, and the tracker represents some items as long as there is no error. Every exported
  operation keeps it and is never undefined behaviour, whatever the bytes of the input are. \<open>left_over\<close> is how
  many bytes of input are left; no operation makes it grow.
\<close>

definition mem_safe :: "ffi_reader \<Rightarrow> bool" where
  "mem_safe r \<longleftrightarrow> cursor_ok r
     \<and> (fr_has_buffer r \<longrightarrow> (\<exists>w. fr_window r = Some w \<and> fr_size r \<le> length w))
     \<and> (fr_size r \<noteq> 0 \<or> fr_fill r \<noteq> None \<longrightarrow> fr_has_buffer r)
     \<and> (fr_fill r = Some File_Reader_Fill \<or> fr_skip r = Some File_Reader_Skip
          \<or> fr_teardown r = Some File_Reader_Teardown_Close \<longrightarrow> fr_context r \<noteq> None)
     \<and> (fr_error r = MPACK_OK \<longrightarrow> (\<exists>es. track_rep (fr_track r) es))"

definition avail :: "ffi_reader \<Rightarrow> nat" where
  "avail r = (if fr_window r = None then 0 else fr_end r - fr_data r)"

definition left_over :: "ffi_reader \<Rightarrow> nat" where
  "left_over r = avail r + length (stream_rest (fr_context r))"

text \<open>What the code outside keeps to: the allocator gives blocks of the requested size, \<open>fread\<close> and a fill callback
  store no more than they are asked for, and the callbacks change nothing of the reader but their context and,
  through \<open>mpack_reader_flag_error\<close>, the error.\<close>

definition outside_effect :: "nat \<Rightarrow> ffi_reader \<Rightarrow> ffi_reader \<Rightarrow> bool" where
  "outside_effect k r r' \<longleftrightarrow> (\<exists>c e. r' = flag_error_on e (r\<lparr>fr_context := c\<rparr>) \<and> (c = None \<longleftrightarrow> fr_context r = None)
     \<and> k + length (stream_rest c) \<le> length (stream_rest (fr_context r)))"

definition stored :: "u8 list option \<Rightarrow> u8 list" where
  "stored p = (case p of None \<Rightarrow> [] | Some bs \<Rightarrow> bs)"

definition sane_env :: "reader_env \<Rightarrow> bool" where
  "sane_env env \<longleftrightarrow> allocator_ok (re_malloc env)
     \<and> (\<forall>n s bs s'. re_fread env n s = (bs, s') \<longrightarrow> length bs \<le> n \<and> length bs + length (cs_rest s') \<le> length (cs_rest s))
     \<and> (\<forall>k s. 0 \<le> k \<longrightarrow> length (cs_rest (snd (re_fseek env k s))) \<le> length (cs_rest s))
     \<and> (\<forall>n r p r'. 0 < n \<and> re_fill env n r = (p, r') \<longrightarrow> length (stored p) \<le> n \<and> outside_effect (length (stored p)) r r')
     \<and> (\<forall>n r. outside_effect 0 r (re_skip env n r))"

lemma sane_envD:
  assumes "sane_env env"
  shows "re_fread env n s = (bs, s') \<Longrightarrow> length bs \<le> n \<and> length bs + length (cs_rest s') \<le> length (cs_rest s)"
    and "0 \<le> k \<Longrightarrow> length (cs_rest (snd (re_fseek env k s))) \<le> length (cs_rest s)"
    and "0 < n \<Longrightarrow> re_fill env n r = (p, r') \<Longrightarrow> length (stored p) \<le> n \<and> outside_effect (length (stored p)) r r'"
    and "outside_effect 0 r (re_skip env n r)"
    and "allocator_ok (re_malloc env)"
  using assms by (simp_all add: sane_env_def)

lemma plain_sane: "sane_env plain_env"
proof -
  have "outside_effect 0 r r" for r
    by (auto simp: outside_effect_def flag_error_on_def intro!: exI [of _ "fr_context r"] exI [of _ MPACK_OK])
  moreover have "outside_effect (length (take 1 (cs_rest s))) r (r\<lparr>fr_context := Some (s\<lparr>cs_rest := drop 1 (cs_rest s)\<rparr>)\<rparr>)"
    if "fr_context r = Some s" for r s
    unfolding outside_effect_def using that
    by (intro exI [of _ "Some (s\<lparr>cs_rest := drop 1 (cs_rest s)\<rparr>)"] exI [of _ MPACK_OK])
      (simp add: flag_error_on_def stream_rest_def)
  ultimately show ?thesis
    by (auto simp: sane_env_def plain_env_def allocator_ok_def isize_max_def stored_def split: option.splits)
qed

subsection \<open>Runs\<close>

definition runs :: "('a \<Rightarrow> ffi_reader \<Rightarrow> bool) \<Rightarrow> ffi_reader \<Rightarrow> ('a \<times> ffi_reader) option \<Rightarrow> bool" where
  "runs Q r res \<longleftrightarrow> (\<exists>x r'. res = Some (x, r') \<and> mem_safe r' \<and> left_over r' \<le> left_over r \<and> Q x r')"

definition moves :: "(ffi_reader \<Rightarrow> bool) \<Rightarrow> ffi_reader \<Rightarrow> ffi_reader option \<Rightarrow> bool" where
  "moves Q r res \<longleftrightarrow> (\<exists>r'. res = Some r' \<and> mem_safe r' \<and> left_over r' \<le> left_over r \<and> Q r')"

lemma runs_Some [simp]: "runs Q r (Some (x, r')) \<longleftrightarrow> mem_safe r' \<and> left_over r' \<le> left_over r \<and> Q x r'"
  by (simp add: runs_def)

lemma moves_Some [simp]: "moves Q r (Some r') \<longleftrightarrow> mem_safe r' \<and> left_over r' \<le> left_over r \<and> Q r'"
  by (simp add: moves_def)

lemma runs_weaken: "runs P r res \<Longrightarrow> (\<And>x r'. P x r' \<Longrightarrow> Q x r') \<Longrightarrow> runs Q r res"
  by (auto simp: runs_def)

lemma moves_weaken: "moves P r res \<Longrightarrow> (\<And>r'. P r' \<Longrightarrow> Q r') \<Longrightarrow> moves Q r res"
  by (auto simp: moves_def)

lemma runs_from: "runs Q r0 res \<Longrightarrow> left_over r0 \<le> left_over r \<Longrightarrow> runs Q r res"
  by (auto simp: runs_def)

lemma moves_from: "moves Q r0 res \<Longrightarrow> left_over r0 \<le> left_over r \<Longrightarrow> moves Q r res"
  by (auto simp: moves_def)

lemma runs_bind:
  assumes "runs P r m" and "\<And>x r'. mem_safe r' \<Longrightarrow> left_over r' \<le> left_over r \<Longrightarrow> P x r' \<Longrightarrow> runs Q r (f (x, r'))"
  shows "runs Q r (m \<bind> f)"
  using assms by (auto simp: runs_def)

lemma runs_moves_bind:
  assumes "runs P r m" and "\<And>x r'. mem_safe r' \<Longrightarrow> left_over r' \<le> left_over r \<Longrightarrow> P x r' \<Longrightarrow> moves Q r (f (x, r'))"
  shows "moves Q r (m \<bind> f)"
  using assms by (auto simp: runs_def moves_def)

lemma moves_runs_bind:
  assumes "moves P r m" and "\<And>r'. mem_safe r' \<Longrightarrow> left_over r' \<le> left_over r \<Longrightarrow> P r' \<Longrightarrow> runs Q r (f r')"
  shows "runs Q r (m \<bind> f)"
  using assms by (auto simp: runs_def moves_def)

lemma moves_bind:
  assumes "moves P r m" and "\<And>r'. mem_safe r' \<Longrightarrow> left_over r' \<le> left_over r \<Longrightarrow> P r' \<Longrightarrow> moves Q r (f r')"
  shows "moves Q r (m \<bind> f)"
  using assms by (auto simp: moves_def)

subsection \<open>Small steps\<close>

lemma safe_avail: "mem_safe r \<Longrightarrow> avail r = length (ahead r) \<and> remaining_of r = Some (avail r)"
  by (auto simp: mem_safe_def cursor_ok_def avail_def ahead_def remaining_of_def split: option.splits)

lemma flag_safe: "mem_safe r \<Longrightarrow> mem_safe (flag_error_on e r) \<and> left_over (flag_error_on e r) \<le> left_over r"
  by (auto simp: mem_safe_def cursor_ok_def left_over_def avail_def flag_error_on_def Let_def split: option.splits)

lemma advance_safe:
  "mem_safe r \<Longrightarrow> n \<le> avail r \<Longrightarrow> mem_safe (advance_cursor n r) \<and> left_over (advance_cursor n r) + n = left_over r"
  by (auto simp: mem_safe_def cursor_ok_def left_over_def avail_def advance_cursor_def split: option.splits if_splits)

lemma cursor_fields [simp]: "fr_error (advance_cursor n r) = fr_error r" "fr_track (advance_cursor n r) = fr_track r"
  "fr_window (advance_cursor n r) = fr_window r" "fr_fill (advance_cursor n r) = fr_fill r"
  "fr_size (advance_cursor n r) = fr_size r" "fr_context (advance_cursor n r) = fr_context r"
  "fr_skip (advance_cursor n r) = fr_skip r" "fr_has_buffer (advance_cursor n r) = fr_has_buffer r"
  by (simp_all add: advance_cursor_def)

lemma flag_skip [simp]: "fr_skip (flag_error_on e r) = fr_skip r"
  by (simp add: flag_error_on_def Let_def)

lemma avail_advance: "avail (advance_cursor n r) = avail r - n"
  by (simp add: avail_def advance_cursor_def)

lemma load_safe: "mem_safe r \<Longrightarrow> n \<le> avail r \<Longrightarrow> \<exists>bs. load_buffer (fr_data r) n r = Some bs \<and> length bs = n"
  using load_ahead [of r n] safe_avail [of r] by (auto simp: mem_safe_def)

lemma pointer_safe: "mem_safe r \<Longrightarrow> n \<le> avail r \<Longrightarrow> \<exists>p. pointer_at n r = Some p"
  by (cases "fr_window r") (auto simp: mem_safe_def cursor_ok_def avail_def pointer_at_def slice_def)

text \<open>The effect of code outside, and of a write into the buffer.\<close>

lemma context_safe:
  "mem_safe r \<Longrightarrow> c = None \<longleftrightarrow> fr_context r = None \<Longrightarrow> mem_safe (r\<lparr>fr_context := c\<rparr>)"
  by (simp add: mem_safe_def cursor_ok_def cong: option.case_cong)

lemma outside_safe:
  assumes "outside_effect k r r'" and "mem_safe r"
  shows "mem_safe r'" and "left_over r' + k \<le> left_over r"
proof -
  obtain c e where c: "r' = flag_error_on e (r\<lparr>fr_context := c\<rparr>)" "c = None \<longleftrightarrow> fr_context r = None"
      "k + length (stream_rest c) \<le> length (stream_rest (fr_context r))"
    using assms(1) by (auto simp: outside_effect_def)
  note flag = flag_safe [OF context_safe [OF assms(2) c(2)], of e]
  from flag show "mem_safe r'"
    by (simp add: c(1))
  from flag c(3) show "left_over r' + k \<le> left_over r"
    by (cases "fr_window r") (simp_all add: c(1) left_over_def avail_def)
qed

lemma flag_nothing: "fr_error (flag_error_on e r) = MPACK_OK \<Longrightarrow> flag_error_on e r = r"
proof -
  assume "fr_error (flag_error_on e r) = MPACK_OK"
  then have "e = MPACK_OK \<or> fr_error r \<noteq> MPACK_OK"
    by (simp split: if_splits)
  then show ?thesis
    by (simp add: flag_error_on_def)
qed

lemma outside_trans:
  assumes "outside_effect k r r'" and "outside_effect l r' r''" and "fr_error r' = MPACK_OK"
  shows "outside_effect (k + l) r r''"
proof -
  obtain c e where c: "r' = flag_error_on e (r\<lparr>fr_context := c\<rparr>)" "c = None \<longleftrightarrow> fr_context r = None"
      "k + length (stream_rest c) \<le> length (stream_rest (fr_context r))"
    using assms(1) by (auto simp: outside_effect_def)
  have r': "r' = r\<lparr>fr_context := c\<rparr>"
    using assms(3) unfolding c(1) by (rule flag_nothing)
  obtain c' e' where c': "r'' = flag_error_on e' (r'\<lparr>fr_context := c'\<rparr>)" "c' = None \<longleftrightarrow> fr_context r' = None"
      "l + length (stream_rest c') \<le> length (stream_rest (fr_context r'))"
    using assms(2) by (auto simp: outside_effect_def)
  with c(2,3) show ?thesis
    unfolding outside_effect_def r' by (intro exI [of _ c'] exI [of _ e']) simp
qed

lemma outside_refl: "outside_effect 0 r r"
  by (auto simp: outside_effect_def flag_error_on_def intro!: exI [of _ "fr_context r"] exI [of _ MPACK_OK])

lemma outside_flag: "outside_effect k r r' \<Longrightarrow> outside_effect k r (flag_error_on e r')"
proof -
  assume "outside_effect k r r'"
  then obtain c e' where c: "r' = flag_error_on e' (r\<lparr>fr_context := c\<rparr>)" "c = None \<longleftrightarrow> fr_context r = None"
      "k + length (stream_rest c) \<le> length (stream_rest (fr_context r))"
    by (auto simp: outside_effect_def)
  have "flag_error_on e r' = flag_error_on (if fr_error r' = MPACK_OK then e else e') (r\<lparr>fr_context := c\<rparr>)"
    unfolding c(1) by (auto simp: flag_error_on_def Let_def)
  with c(2,3) show ?thesis
    unfolding outside_effect_def
    by (intro exI [of _ c] exI [of _ "if fr_error r' = MPACK_OK then e else e'"]) simp
qed

lemma outside_fields:
  assumes "outside_effect k r r'"
  shows "fr_size r' = fr_size r" "fr_has_buffer r' = fr_has_buffer r" "fr_window r' = fr_window r"
    "fr_fill r' = fr_fill r" "fr_skip r' = fr_skip r" "fr_data r' = fr_data r" "fr_track r' = fr_track r"
    "fr_context r' = None \<longleftrightarrow> fr_context r = None"
    "k + length (stream_rest (fr_context r')) \<le> length (stream_rest (fr_context r))"
    "fr_error r' = MPACK_OK \<Longrightarrow> fr_error r = MPACK_OK \<and> fr_end r' = fr_end r"
    "fr_error r = MPACK_OK \<Longrightarrow> fr_error r' \<noteq> MPACK_OK \<Longrightarrow> fr_end r' = fr_data r'"
proof -
  obtain c e where c: "r' = flag_error_on e (r\<lparr>fr_context := c\<rparr>)" "c = None \<longleftrightarrow> fr_context r = None"
      "k + length (stream_rest c) \<le> length (stream_rest (fr_context r))"
    using assms by (auto simp: outside_effect_def)
  have "fr_data (flag_error_on e u) = fr_data u" for u
    by (simp add: flag_error_on_def Let_def)
  with c show "fr_size r' = fr_size r" "fr_has_buffer r' = fr_has_buffer r" "fr_window r' = fr_window r"
    "fr_fill r' = fr_fill r" "fr_skip r' = fr_skip r" "fr_data r' = fr_data r" "fr_track r' = fr_track r"
    "fr_context r' = None \<longleftrightarrow> fr_context r = None"
    "k + length (stream_rest (fr_context r')) \<le> length (stream_rest (fr_context r))"
    by simp_all
  show "fr_end r' = fr_data r'" if "fr_error r = MPACK_OK" "fr_error r' \<noteq> MPACK_OK"
    using that unfolding c(1) by (simp add: flag_error_on_def Let_def split: if_splits)
  assume "fr_error r' = MPACK_OK"
  then have "r' = r\<lparr>fr_context := c\<rparr>"
    unfolding c(1) by (rule flag_nothing)
  with \<open>fr_error r' = MPACK_OK\<close> show "fr_error r = MPACK_OK \<and> fr_end r' = fr_end r"
    by simp
qed

subsection \<open>Filling\<close>

lemma call_fill_safe:
  assumes env: "sane_env env" and r: "mem_safe r" "fr_fill r = Some f" and n: "0 < n"
  obtains p r' where "call_fill env f n r = Some (p, r')" and "length (stored p) \<le> n"
    and "outside_effect (length (stored p)) r r'"
proof (cases f)
  case File_Reader_Fill
  then obtain s where s: "fr_context r = Some s"
    using r by (auto simp: mem_safe_def)
  show thesis
  proof (cases "cs_eof s")
    case True
    with s File_Reader_Fill outside_flag [OF outside_refl [of r], of MPACK_ERROR_EOF] show thesis
      by (intro that [of "Some []"]) (simp_all add: call_fill_def file_reader_fill_def stored_def)
  next
    case False
    obtain bs s' where read: "re_fread env n s = (bs, s')"
      by fastforce
    have "length bs \<le> n" "length bs + length (cs_rest s') \<le> length (cs_rest s)"
      using sane_envD(1) [OF env read] by simp_all
    moreover from this(2) s have "outside_effect (length bs) r (r\<lparr>fr_context := Some s'\<rparr>)"
      unfolding outside_effect_def
      by (intro exI [of _ "Some s'"] exI [of _ MPACK_OK]) (simp add: flag_error_on_def stream_rest_def)
    ultimately show thesis
      using s False File_Reader_Fill read
      by (intro that [of "Some bs" "r\<lparr>fr_context := Some s'\<rparr>"])
        (simp_all add: call_fill_def file_reader_fill_def stored_def)
  qed
next
  case User_Fill
  obtain p r' where p: "re_fill env n r = (p, r')"
    by fastforce
  with User_Fill sane_envD(3) [OF env n p] show thesis
    by (intro that [of p r']) (simp_all add: call_fill_def)
qed

lemma fill_loop_safe:
  assumes env: "sane_env env"
  shows "mem_safe r \<Longrightarrow> fr_fill r = Some f \<Longrightarrow> length got \<le> hi \<Longrightarrow> lo \<le> hi \<Longrightarrow>
    \<exists>n bs r'. fill_loop env f lo hi got r = Some (n, got @ bs, r') \<and> length (got @ bs) \<le> hi \<and> n \<le> length (got @ bs)
      \<and> outside_effect (length bs) r r' \<and> (fr_error r' = MPACK_OK \<longrightarrow> n = length (got @ bs) \<and> lo \<le> n)
      \<and> (fr_error r = MPACK_OK \<and> fr_error r' \<noteq> MPACK_OK \<longrightarrow> n = 0)"
proof (induction "lo - length got" arbitrary: got r rule: less_induct)
  case less
  show ?case
  proof (cases "length got < lo")
    case False
    with less.prems outside_refl [of r] show ?thesis
      by (subst fill_loop.simps) (auto intro!: exI [of _ "[]"])
  next
    case True
    have n: "0 < hi - length got"
      using True less.prems(4) by simp
    obtain p r1 where c: "call_fill env f (hi - length got) r = Some (p, r1)" "length (stored p) \<le> hi - length got"
        "outside_effect (length (stored p)) r r1"
      using call_fill_safe [OF env less.prems(1,2) n] .
    note start = True c(1) fill_loop.simps [of env f lo hi got r]
    show ?thesis
    proof (cases "fr_error r1 = MPACK_OK")
      case False
      with start c(2,3) less.prems(3) show ?thesis
        by (intro exI [of _ 0] exI [of _ "stored p"] exI [of _ r1]) (simp add: stored_def)
    next
      case ok: True
      show ?thesis
      proof (cases "stored p = []")
        case True
        then have "fill_loop env f lo hi got r = Some (0, got, flag_error_on MPACK_ERROR_IO r1)"
          using start ok by (auto simp: stored_def split: option.splits)
        moreover have "outside_effect 0 r (flag_error_on MPACK_ERROR_IO r1)"
          using outside_flag [OF c(3)] True by simp
        ultimately show ?thesis
          using ok less.prems(3) by (intro exI [of _ 0] exI [of _ "[]"] exI [of _ "flag_error_on MPACK_ERROR_IO r1"]) simp
      next
        case False
        then obtain bs where bs: "p = Some bs" "bs \<noteq> []"
          by (auto simp: stored_def split: option.splits)
        then have more: "length bs \<le> hi - length got" "outside_effect (length bs) r r1"
          using c(2,3) by (simp_all add: stored_def)
        have "lo - length (got @ bs) < lo - length got"
          using True bs(2) by (auto intro: diff_less_mono2)
        moreover have "mem_safe r1" "fr_fill r1 = Some f" "length (got @ bs) \<le> hi"
          using outside_safe(1) [OF c(3) less.prems(1)] outside_fields [OF c(3)] less.prems(2,3) more(1) by simp_all
        ultimately obtain n bs' r' where loop: "fill_loop env f lo hi (got @ bs) r1 = Some (n, (got @ bs) @ bs', r')"
            "length ((got @ bs) @ bs') \<le> hi" "n \<le> length ((got @ bs) @ bs')" "outside_effect (length bs') r1 r'"
            "fr_error r' = MPACK_OK \<longrightarrow> n = length ((got @ bs) @ bs') \<and> lo \<le> n"
            "fr_error r1 = MPACK_OK \<and> fr_error r' \<noteq> MPACK_OK \<longrightarrow> n = 0"
          using less.hyps [of "got @ bs" r1] less.prems(4) by metis
        have "fill_loop env f lo hi got r = Some (n, got @ (bs @ bs'), r')"
          using start ok bs loop(1) by simp
        moreover have "outside_effect (length (bs @ bs')) r r'"
          using outside_trans [OF more(2) loop(4) ok] by simp
        ultimately show ?thesis
          using loop(2,3,5,6) ok by (intro exI [of _ n] exI [of _ "bs @ bs'"] exI [of _ r']) auto
      qed
    qed
  qed
qed

lemma fill_range_safe:
  assumes env: "sane_env env" and r: "mem_safe r"
  obtains n bs r' where "fill_range env lo hi r = Some (n, bs, r')" and "length bs \<le> hi" and "n \<le> length bs"
    and "outside_effect (length bs) r r'" and "fr_error r' = MPACK_OK \<longrightarrow> n = length bs \<and> lo \<le> n"
    and "fr_error r = MPACK_OK \<and> fr_error r' \<noteq> MPACK_OK \<longrightarrow> n = 0"
proof (cases "fr_fill r = None \<or> lo = 0 \<or> hi < lo")
  case True
  then have "fill_range env lo hi r = Some (0, [], flag_error_on MPACK_ERROR_BUG r)"
    by (cases "fr_fill r") (auto simp: fill_range_def)
  moreover have "fr_error (flag_error_on MPACK_ERROR_BUG r) \<noteq> MPACK_OK"
    by simp
  ultimately show thesis
    using outside_flag [OF outside_refl [of r], of MPACK_ERROR_BUG]
    by (intro that [of 0 "[]" "flag_error_on MPACK_ERROR_BUG r"]) simp_all
next
  case False
  then obtain f where f: "fr_fill r = Some f" "lo \<le> hi"
    by auto
  with fill_loop_safe [OF env r f(1), of "[]" hi lo] obtain n bs r' where
    "fill_loop env f lo hi [] r = Some (n, bs, r')" "length bs \<le> hi" "n \<le> length bs" "outside_effect (length bs) r r'"
    "fr_error r' = MPACK_OK \<longrightarrow> n = length bs \<and> lo \<le> n"
    "fr_error r = MPACK_OK \<and> fr_error r' \<noteq> MPACK_OK \<longrightarrow> n = 0"
    by auto
  with False f show thesis
    by (intro that) (auto simp: fill_range_def)
qed

text \<open>Into the buffer: only the bytes of the buffer change, and what was read is no longer in the source.\<close>

lemma fill_buffer_safe:
  assumes env: "sane_env env" and r: "mem_safe r" "fr_has_buffer r" and fits: "off + hi \<le> fr_size r"
  obtains n w r' where "fill_buffer env off lo hi r = Some (n, r'\<lparr>fr_window := Some w\<rparr>)" and "n \<le> hi"
    and "outside_effect n r r'" and "length w = length (the (fr_window r))" and "fr_error r' = MPACK_OK \<longrightarrow> lo \<le> n"
    and "fr_error r = MPACK_OK \<and> fr_error r' \<noteq> MPACK_OK \<longrightarrow> n = 0"
proof -
  obtain n bs r1 where f: "fill_range env lo hi r = Some (n, bs, r1)" "length bs \<le> hi" "n \<le> length bs"
      "outside_effect (length bs) r r1" "fr_error r1 = MPACK_OK \<longrightarrow> n = length bs \<and> lo \<le> n"
      "fr_error r = MPACK_OK \<and> fr_error r1 \<noteq> MPACK_OK \<longrightarrow> n = 0"
    by (rule fill_range_safe [OF env r(1)])
  have eff: "outside_effect n r r1"
    using f(3,4) by (auto simp: outside_effect_def)
  obtain w0 where w0: "fr_window r = Some w0" "fr_size r \<le> length w0"
    using r by (auto simp: mem_safe_def)
  note same = outside_fields [OF eff]
  show thesis
  proof (cases "bs = []")
    case True
    have "r1\<lparr>fr_window := Some w0\<rparr> = r1"
      using same w0(1) by simp
    with True f eff w0 show thesis
      by (intro that [of n w0 r1]) (simp_all add: fill_buffer_def store_buffer_def)
  next
    case False
    let ?w = "take off w0 @ bs @ drop (off + length bs) w0"
    have room: "off + length bs \<le> length w0"
      using f(2) fits w0(2) by simp
    then have "fill_buffer env off lo hi r = Some (n, r1\<lparr>fr_window := Some ?w\<rparr>)"
      using False f(1) same r(2) w0(1) by (simp add: fill_buffer_def store_buffer_def store_at_def)
    with f eff w0 room show thesis
      by (intro that [of n ?w r1]) auto
  qed
qed


subsection \<open>Making sure of bytes in the window\<close>

lemma cursor_safe:
  assumes "mem_safe r" and "fr_window r = Some w" and "d \<le> e" and "e \<le> length w"
  shows "mem_safe (r\<lparr>fr_data := d, fr_end := e\<rparr>)"
    and "left_over (r\<lparr>fr_data := d, fr_end := e\<rparr>) = e - d + length (stream_rest (fr_context r))"
  using assms by (simp_all add: mem_safe_def cursor_ok_def left_over_def avail_def)

lemma written_safe:
  assumes eff: "outside_effect k r r'" and r: "mem_safe r" "fr_has_buffer r" and w: "length w = length (the (fr_window r))"
  shows "mem_safe (r'\<lparr>fr_window := Some w\<rparr>)" and "left_over (r'\<lparr>fr_window := Some w\<rparr>) + k \<le> left_over r"
proof -
  obtain w0 where w0: "fr_window r' = Some w0" "length w = length w0"
    using r w outside_fields [OF eff] by (auto simp: mem_safe_def)
  with outside_safe [OF eff r(1)] show "mem_safe (r'\<lparr>fr_window := Some w\<rparr>)"
    "left_over (r'\<lparr>fr_window := Some w\<rparr>) + k \<le> left_over r"
    by (simp_all add: mem_safe_def cursor_ok_def left_over_def avail_def)
qed

lemma store_safe:
  assumes "mem_safe r" and "fr_has_buffer r" and "off + length bs \<le> fr_size r"
  obtains w where "store_buffer off bs r = Some (r\<lparr>fr_window := Some w\<rparr>)" and "length w = length (the (fr_window r))"
    and "fr_size r \<le> length w"
proof -
  obtain w0 where w0: "fr_window r = Some w0" "fr_size r \<le> length w0"
    using assms(1,2) by (auto simp: mem_safe_def)
  show thesis
  proof (cases "bs = []")
    case True
    have "r\<lparr>fr_window := Some w0\<rparr> = r"
      using w0(1) by simp
    with True w0 show thesis
      by (intro that [of w0]) (simp_all add: store_buffer_def)
  next
    case False
    with assms w0 show thesis
      by (intro that [of "take off w0 @ bs @ drop (off + length bs) w0"]) (simp_all add: store_buffer_def store_at_def)
  qed
qed

definition ensured :: "nat \<Rightarrow> bool \<Rightarrow> ffi_reader \<Rightarrow> bool" where
  "ensured n ok r' \<longleftrightarrow> (if ok then n \<le> avail r' \<and> fr_error r' = MPACK_OK else fr_error r' \<noteq> MPACK_OK)"

lemma ensure_straddle_safe:
  assumes env: "sane_env env" and r: "mem_safe r"
  shows "runs (\<lambda>ok r'. n = 0 \<or> ensured n ok r') r (ensure_straddle_impl env n r)"
proof (cases "fr_error r \<noteq> MPACK_OK \<or> n = 0 \<or> n \<le> avail r \<or> fr_fill r = None \<or> fr_size r < n \<or> \<not> fr_has_buffer r")
  case True
  with safe_avail [OF r] r flag_safe [OF r] show ?thesis
    by (auto simp: ensure_straddle_impl_def ensured_def)
next
  case False
  let ?k = "avail r"
  have k: "?k < n" "n \<le> fr_size r" "fr_has_buffer r" "fr_error r = MPACK_OK"
    using False by auto
  obtain fl where fl: "fr_fill r = Some fl"
    using False by auto
  obtain bs where bs: "load_buffer (fr_data r) ?k r = Some bs" "length bs = ?k"
    using load_safe [OF r, of ?k] by auto
  have room: "0 + length bs \<le> fr_size r"
    using bs(2) k by simp
  obtain w where w: "store_buffer 0 bs r = Some (r\<lparr>fr_window := Some w\<rparr>)" "length w = length (the (fr_window r))"
      "fr_size r \<le> length w"
    by (rule store_safe [OF r k(3) room])
  have r1: "mem_safe (r\<lparr>fr_window := Some w\<rparr>)"
    using written_safe(1) [OF outside_refl r k(3) w(2)] .
  let ?r = "r\<lparr>fr_window := Some w, fr_data := 0, fr_end := ?k\<rparr>"
  have r2: "mem_safe ?r" "left_over ?r = left_over r" "fr_has_buffer ?r"
    using cursor_safe [OF r1, of w 0 ?k] w(3) k by (simp_all add: left_over_def)
  have fits: "?k + (fr_size r - ?k) \<le> fr_size ?r"
    using k by simp
  obtain m w' r' where f: "fill_buffer env ?k (n - ?k) (fr_size r - ?k) ?r = Some (m, r'\<lparr>fr_window := Some w'\<rparr>)"
      "m \<le> fr_size r - ?k" "outside_effect m ?r r'" "length w' = length (the (fr_window ?r))"
      "fr_error r' = MPACK_OK \<longrightarrow> n - ?k \<le> m"
    by (rule fill_buffer_safe [OF env r2(1,3) fits])
  note same = outside_fields [OF f(3)]
  let ?r' = "r'\<lparr>fr_window := Some w'\<rparr>"
  have r': "mem_safe ?r'" "left_over ?r' + m \<le> left_over r"
    using written_safe [OF f(3) r2(1,3) f(4)] r2(2) by simp_all
  show ?thesis
  proof (cases "fr_error r' = MPACK_OK")
    case True
    let ?e = "fr_end r' + m"
    have e: "fr_data r' = 0" "fr_end r' = ?k" "?e \<le> length w'"
      using True same f(2,4) w(3) k by simp_all
    have "mem_safe (?r'\<lparr>fr_data := 0, fr_end := ?e\<rparr>)"
      using cursor_safe(1) [OF r'(1), of w' 0 ?e] e by simp
    moreover have "?r'\<lparr>fr_data := 0, fr_end := ?e\<rparr> = ?r'\<lparr>fr_end := ?e\<rparr>"
      using e(1) by simp
    ultimately have "mem_safe (?r'\<lparr>fr_end := ?e\<rparr>)"
      by simp
    moreover have "left_over (?r'\<lparr>fr_end := ?e\<rparr>) \<le> left_over r" "n \<le> avail (?r'\<lparr>fr_end := ?e\<rparr>)"
      using r'(2) e True f(5) by (simp_all add: left_over_def avail_def)
    ultimately show ?thesis
      using False fl safe_avail [OF r] bs(1) w(1) f(1) True
      by (simp add: ensure_straddle_impl_def Let_def ensured_def)
  next
    case bad: False
    with False fl r' safe_avail [OF r] bs(1) w(1) f(1) show ?thesis
      by (simp add: ensure_straddle_impl_def Let_def ensured_def)
  qed
qed

lemma ensure_safe:
  assumes env: "sane_env env" and r: "mem_safe r"
  shows "runs (ensured n) r (ensure_impl env n r)"
proof (cases "fr_error r = MPACK_OK \<and> avail r < n")
  case True
  then have "runs (ensured n) r (ensure_straddle_impl env n r)"
    using ensure_straddle_safe [OF assms, of n] by (auto elim: runs_weaken)
  with True safe_avail [OF r] show ?thesis
    by (simp add: ensure_impl_def)
next
  case False
  with safe_avail [OF r] r show ?thesis
    by (auto simp: ensure_impl_def ensured_def)
qed


subsection \<open>Skipping\<close>

lemma fr_swap: "r\<lparr>fr_end := e, fr_data := d\<rparr> = r\<lparr>fr_data := d, fr_end := e\<rparr>"
  by simp

lemma skip_fill_loop_safe:
  assumes env: "sane_env env"
  shows "mem_safe r \<Longrightarrow> fr_error r = MPACK_OK \<Longrightarrow> fr_size r = sz \<Longrightarrow> 0 < sz \<Longrightarrow>
    moves (\<lambda>_. True) r (skip_fill_loop env sz n r)"
proof (induction n arbitrary: r rule: less_induct)
  case (less n)
  note r = less.prems(1-3)
  have b: "fr_has_buffer r"
    using r(1,3) less.prems(4) by (auto simp: mem_safe_def)
  have fits: "0 + sz \<le> fr_size r"
    using r(3) by simp
  show ?case
  proof (cases "sz < n")
    case True
    obtain m w r' where f: "fill_buffer env 0 sz sz r = Some (m, r'\<lparr>fr_window := Some w\<rparr>)"
        "outside_effect m r r'" "length w = length (the (fr_window r))" "fr_error r' = MPACK_OK \<longrightarrow> sz \<le> m"
        "fr_error r = MPACK_OK \<and> fr_error r' \<noteq> MPACK_OK \<longrightarrow> m = 0"
      by (rule fill_buffer_safe [OF env r(1) b fits]) blast
    let ?r = "r'\<lparr>fr_window := Some w\<rparr>"
    note step = written_safe [OF f(2) r(1) b f(3)] and same = outside_fields [OF f(2)]
    show ?thesis
    proof (cases "m < sz")
      case True
      with \<open>sz < n\<close> f(1) step show ?thesis
        by (subst skip_fill_loop.simps) simp
    next
      case False
      show ?thesis
      proof (cases "fr_error r' = MPACK_OK")
        case True
        have "n - sz < n"
          using \<open>sz < n\<close> less.prems(4) by simp
        from less.IH [OF this step(1)] True same(1) r(3) less.prems(4)
        have "moves (\<lambda>_. True) ?r (skip_fill_loop env sz (n - sz) ?r)"
          by simp
        then have "moves (\<lambda>_. True) r (skip_fill_loop env sz (n - sz) ?r)"
          by (rule moves_from) (use step(2) in simp)
        with \<open>sz < n\<close> \<open>\<not> m < sz\<close> f(1) less.prems(4) show ?thesis
          by (subst skip_fill_loop.simps) simp
      next
        case False
        with f(5) \<open>fr_error r = MPACK_OK\<close> \<open>\<not> m < sz\<close> less.prems(4) show ?thesis by simp
      qed
    qed
  next
    case False
    let ?r = "r\<lparr>fr_data := 0\<rparr>"
    obtain w0 where w0: "fr_window r = Some w0" "sz \<le> length w0" "fr_end r \<le> length w0"
      using r b by (auto simp: mem_safe_def cursor_ok_def)
    have start: "mem_safe ?r" "fr_has_buffer ?r" "0 + sz \<le> fr_size ?r" "fr_error ?r = MPACK_OK"
      using cursor_safe(1) [OF r(1) w0(1) _ w0(3), of 0] b r fits by simp_all
    obtain m w r' where f: "fill_buffer env 0 n sz ?r = Some (m, r'\<lparr>fr_window := Some w\<rparr>)" "m \<le> sz"
        "outside_effect m ?r r'" "length w = length (the (fr_window ?r))" "fr_error r' = MPACK_OK \<longrightarrow> n \<le> m"
      by (rule fill_buffer_safe [OF env start(1-3)]) blast
    let ?r' = "r'\<lparr>fr_window := Some w\<rparr>"
    note step = written_safe [OF f(3) start(1,2) f(4)] and same = outside_fields [OF f(3)]
    show ?thesis
    proof (cases "fr_error r' = MPACK_OK")
      case True
      have "mem_safe (?r'\<lparr>fr_data := n, fr_end := m\<rparr>)"
          "left_over (?r'\<lparr>fr_data := n, fr_end := m\<rparr>) \<le> left_over r"
        using cursor_safe [OF step(1), of w n m] f(2,4,5) True w0 same(9) by (simp_all add: left_over_def)
      with True False f(1,5) show ?thesis
        by (subst skip_fill_loop.simps) (simp add: fr_swap)
    next
      case bad: False
      have "left_over ?r' \<le> left_over r"
        using same(9) same(11) [OF start(4) bad] by (simp add: left_over_def avail_def)
      with bad False f(1) step(1) show ?thesis
        by (subst skip_fill_loop.simps) simp
    qed
  qed
qed

end
