(* ===== verification/Ffi_Reader_Safe_Ops.thy ===== *)
theory Ffi_Reader_Safe_Ops
  imports Ffi_Reader_Safety Ffi_Reader_Sound
begin

section \<open>Every operation of the C reader is memory safe\<close>

subsection \<open>Skipping and copying\<close>

lemma safe_remaining: "mem_safe r \<Longrightarrow> remaining_of r = Some (avail r)"
  using safe_avail by blast

lemma skip_using_fill_safe:
  assumes "sane_env env" and "mem_safe r" and "fr_error r = MPACK_OK"
  shows "moves (\<lambda>_. True) r (skip_using_fill env n r)"
  using skip_fill_loop_safe [OF assms refl] flag_safe [OF assms(2)] assms(2) by (simp add: skip_using_fill_def)

lemma file_skip_safe:
  assumes env: "sane_env env" and r: "mem_safe r" "fr_skip r = Some File_Reader_Skip" and n: "n < 2 ^ 63"
  shows "moves (\<lambda>_. True) r (file_reader_skip env n r)"
proof (cases "fr_error r = MPACK_OK")
  case True
  obtain s where s: "fr_context r = Some s"
    using r by (auto simp: mem_safe_def)
  note fill = skip_using_fill_safe [OF env]
  show ?thesis
  proof (cases "re_ftell env s \<ge> 0")
    case False
    with fill [OF r(1) True] s True show ?thesis
      by (simp add: file_reader_skip_def)
  next
    case tell: True
    have "sint (word_of_int (int n) :: i64) = int n"
      by (simp only: signed_of_int) (use n in \<open>simp add: signed_take_bit_int_eq_self_iff\<close>)
    then have k: "sint (word_of_nat n :: i64) = int n"
      by simp
    obtain res s' where seek: "re_fseek env (int n) s = (res, s')"
      by fastforce
    have "length (cs_rest s') \<le> length (cs_rest s)"
      using sane_envD(2) [OF env, of "int n" s] seek by simp
    then have eff: "outside_effect 0 r (r\<lparr>fr_context := Some s'\<rparr>)"
      unfolding outside_effect_def using s
      by (intro exI [of _ "Some s'"] exI [of _ MPACK_OK]) (simp add: flag_error_on_def stream_rest_def)
    note safe = outside_safe [OF eff r(1)]
    have "moves (\<lambda>_. True) r (skip_using_fill env n (r\<lparr>fr_context := Some s'\<rparr>))"
      by (rule moves_from [OF fill [OF safe(1)]]) (use True safe(2) in simp_all)
    moreover have "file_reader_skip env n r = (if res = 0 then Some (r\<lparr>fr_context := Some s'\<rparr>)
        else if re_ferror env s' then Some (flag_error_on MPACK_ERROR_IO (r\<lparr>fr_context := Some s'\<rparr>))
        else skip_using_fill env n (r\<lparr>fr_context := Some s'\<rparr>))"
      using True s tell k seek by (simp add: file_reader_skip_def Let_def)
    ultimately show ?thesis
      using safe flag_safe [OF safe(1), of MPACK_ERROR_IO] by simp
  qed
qed (use r in \<open>simp add: file_reader_skip_def\<close>)

lemma call_skip_safe:
  assumes env: "sane_env env" and r: "mem_safe r" "fr_skip r = Some f" and n: "n < 2 ^ 63"
  shows "moves (\<lambda>_. True) r (call_skip env f n r)"
  using file_skip_safe [OF env r(1) _ n] r(2) outside_safe [OF sane_envD(4) [OF env] r(1), of n]
  by (cases f) (simp_all add: call_skip_def)

lemma skip_bytes_safe:
  assumes env: "sane_env env" and r: "mem_safe r" and n: "n < 2 ^ 63"
  shows "moves (\<lambda>_. True) r (skip_bytes_impl env n r)"
proof (cases "fr_error r \<noteq> MPACK_OK \<or> n \<le> avail r \<or> fr_fill r = None")
  case True
  with r safe_avail [OF r] advance_safe [OF r, of n] flag_safe [OF r] show ?thesis
    by (auto simp: skip_bytes_impl_def skip_bytes_straddle_def)
next
  case False
  obtain fl where fl: "fr_fill r = Some fl"
    using False by auto
  obtain w where w: "fr_window r = Some w" "fr_end r \<le> length w"
    using False r by (auto simp: mem_safe_def cursor_ok_def)
  let ?r = "r\<lparr>fr_data := fr_end r\<rparr>" and ?n = "n - avail r"
  have safe: "mem_safe ?r" "left_over ?r \<le> left_over r"
    using cursor_safe [OF r w(1) _ w(2), of "fr_end r"] by (simp_all add: left_over_def)
  have fill: "moves (\<lambda>_. True) r (skip_using_fill env ?n ?r)"
    by (rule moves_from [OF skip_using_fill_safe [OF env safe(1)]]) (use False safe(2) in simp_all)
  have skip: "moves (\<lambda>_. True) r (call_skip env f ?n ?r)" if "fr_skip r = Some f" for f
    by (rule moves_from [OF call_skip_safe [OF env safe(1)]]) (use that n safe(2) in simp_all)
  have "skip_bytes_impl env n r = (case fr_skip r of None \<Rightarrow> skip_using_fill env ?n ?r
      | Some f \<Rightarrow> if fr_size r > 0 \<and> ?n > fr_size r div 16 then call_skip env f ?n ?r else skip_using_fill env ?n ?r)"
    using False safe_remaining [OF r] fl
    by (simp add: skip_bytes_impl_def skip_bytes_straddle_def Let_def cong: option.case_cong)
  with fill skip show ?thesis
    by (cases "fr_skip r") simp_all
qed

text \<open>A destination of the C program with room for \<open>n\<close> bytes keeps its length.\<close>

definition room :: "nat \<Rightarrow> u8 list option \<Rightarrow> bool" where
  "room n p \<longleftrightarrow> (case p of None \<Rightarrow> n = 0 | Some m \<Rightarrow> n \<le> length m)"

definition same_room :: "u8 list option \<Rightarrow> u8 list option \<Rightarrow> bool" where
  "same_room p q \<longleftrightarrow> map_option length p = map_option length q"

lemma same_room_refl [simp]: "same_room p p"
  by (simp add: same_room_def)

lemma same_room_trans: "same_room p q \<Longrightarrow> same_room q s \<Longrightarrow> same_room p s"
  by (simp add: same_room_def)

lemma same_room_room: "same_room p q \<Longrightarrow> room n p = room n q"
  by (auto simp: same_room_def room_def split: option.splits)

lemma poke_safe:
  assumes "room n p" and "off + length bs \<le> n"
  obtains q where "poke p off bs = Some q" and "same_room p q"
proof (cases "bs = []")
  case True
  then show thesis
    by (intro that [of p]) (simp_all add: poke_def)
next
  case False
  then obtain m where "p = Some m" "off + length bs \<le> length m"
    using assms by (cases p) (auto simp: room_def)
  with False show thesis
    by (intro that [of "Some (take off m @ bs @ drop (off + length bs) m)"])
      (simp_all add: poke_def store_at_def same_room_def)
qed

lemma zero_fill_safe:
  assumes "room n p"
  obtains q where "zero_fill p n = Some q" and "same_room p q"
  using poke_safe [OF assms, of 0 "replicate n 0"] by (auto simp: zero_fill_def)

lemma peek_safe: "room n p \<Longrightarrow> p \<noteq> None \<Longrightarrow> \<exists>bs. peek_bytes p n = Some bs \<and> length bs = n"
  by (auto simp: room_def peek_bytes_def slice_def)

lemma zero_and_flag_safe:
  assumes "mem_safe r" and "room n p"
  shows "runs (\<lambda>q r'. same_room p q) r (zero_and_flag p n e r)"
proof -
  obtain q where "zero_fill p n = Some q" "same_room p q"
    using zero_fill_safe [OF assms(2)] .
  with flag_safe [OF assms(1), of e] show ?thesis
    by (simp add: zero_and_flag_def)
qed


lemma straddle_copy_safe:
  assumes env: "sane_env env" and r: "mem_safe r" and p: "room n p" "p \<noteq> None"
  shows "runs (\<lambda>q r'. same_room p q) r (read_native_straddle_impl env p n r)"
proof (cases "n = 0 \<or> fr_error r \<noteq> MPACK_OK \<or> n \<le> avail r \<or> fr_fill r = None \<or> fr_size r = 0")
  case True
  obtain q where "zero_fill p n = Some q" "same_room p q"
    using zero_fill_safe [OF p(1)] .
  with True r p(2) safe_remaining [OF r] zero_and_flag_safe [OF r p(1)] show ?thesis
    by (auto simp: read_native_straddle_impl_def)
next
  case False
  let ?k = "avail r" and ?r = "advance_cursor (avail r) r"
  have k: "?k < n" "fr_error r = MPACK_OK" "fr_size r \<noteq> 0"
    using False by auto
  obtain fl where fl: "fr_fill r = Some fl"
    using False by auto
  obtain bs where bs: "load_buffer (fr_data r) ?k r = Some bs" "length bs = ?k"
    using load_safe [OF r, of ?k] by auto
  have "0 + length bs \<le> n"
    using bs(2) k by simp
  then obtain q where q: "poke p 0 bs = Some q" "same_room p q"
    by (rule poke_safe [OF p(1)])
  have r1: "mem_safe ?r" "left_over ?r \<le> left_over r"
    using advance_safe [OF r, of ?k] by simp_all
  obtain m0 where m0: "p = Some m0"
    using p(2) by blast
  note start = q(1) bs(1) safe_remaining [OF r] False fl m0
  show ?thesis
  proof (cases "n - ?k \<le> fr_size r div 32")
    case True
    have b: "fr_has_buffer ?r" "0 + fr_size r \<le> fr_size ?r"
      using r k(3) by (simp_all add: mem_safe_def)
    obtain m w r' where f: "fill_buffer env 0 (n - ?k) (fr_size r) ?r = Some (m, r'\<lparr>fr_window := Some w\<rparr>)" "m \<le> fr_size r"
        "outside_effect m ?r r'" "length w = length (the (fr_window ?r))" "fr_error r' = MPACK_OK \<longrightarrow> n - ?k \<le> m"
      by (rule fill_buffer_safe [OF env r1(1) b]) blast
    let ?r' = "r'\<lparr>fr_window := Some w\<rparr>"
    note step = written_safe [OF f(3) r1(1) b(1) f(4)] and same = outside_fields [OF f(3)]
    have sz: "fr_size r \<le> length w"
      using b f(4) r by (auto simp: mem_safe_def)
    show ?thesis
    proof (cases "fr_error r' = MPACK_OK")
      case ok: True
      have more: "n - ?k \<le> length w" "n - ?k \<le> m"
        using order_trans [OF True order_trans [OF div_le_dividend sz]] ok f(5) by simp_all
      have "\<exists>bs'. load_buffer 0 (n - ?k) ?r' = Some bs' \<and> length bs' = n - ?k"
        using more(1) k(1) by (simp add: load_buffer_def slice_def)
      then obtain bs' where bs': "load_buffer 0 (n - ?k) ?r' = Some bs'" "length bs' = n - ?k"
        by blast
      have "?k + length bs' \<le> n"
        using bs'(2) k by simp
      then obtain q' where q': "poke q ?k bs' = Some q'" "same_room q q'"
        using poke_safe [of n q] same_room_room [OF q(2)] p(1) by blast
      have "mem_safe (?r'\<lparr>fr_data := n - ?k, fr_end := m\<rparr>)"
          "left_over (?r'\<lparr>fr_data := n - ?k, fr_end := m\<rparr>) \<le> left_over r"
        using cursor_safe [OF step(1), of w "n - ?k" m] f(2) sz more(2) same(9) by (simp_all add: left_over_def)
      with start True ok k f(1) bs'(1) q' same_room_trans [OF q(2) q'(2)] show ?thesis
        by (simp add: read_native_straddle_impl_def Let_def)
    next
      case bad: False
      with start True k f(1) step r1(2) q(2) show ?thesis
        by (simp add: read_native_straddle_impl_def Let_def)
    qed
  next
    case False
    obtain m bs' r' where f: "fill_range env (n - ?k) (n - ?k) ?r = Some (m, bs', r')" "length bs' \<le> n - ?k"
        "outside_effect (length bs') ?r r'"
      by (rule fill_range_safe [OF env r1(1)]) blast
    note step = outside_safe [OF f(3) r1(1)]
    have "?k + length bs' \<le> n"
      using f(2) k by simp
    then obtain q' where q': "poke q ?k bs' = Some q'" "same_room q q'"
      using poke_safe [of n q] same_room_room [OF q(2)] p(1) by blast
    with start False k f step r1(2) same_room_trans [OF q(2) q'(2)] show ?thesis
      by (simp add: read_native_straddle_impl_def Let_def)
  qed
qed

lemma native_safe:
  assumes env: "sane_env env" and r: "mem_safe r" and p: "room n p"
  shows "runs (\<lambda>q r'. same_room p q) r (read_native env p n r)"
proof (cases "n = 0")
  case False
  then have "p \<noteq> None"
    using p by (cases p) (simp_all add: room_def)
  note straddle = straddle_copy_safe [OF env r p this]
  obtain q where q: "zero_fill p n = Some q" "same_room p q"
    using zero_fill_safe [OF p] .
  show ?thesis
  proof (cases "fr_error r = MPACK_OK \<and> n \<le> avail r")
    case True
    obtain bs where bs: "load_buffer (fr_data r) n r = Some bs" "length bs = n"
      using load_safe [OF r] True by blast
    then have "0 + length bs \<le> n" by simp
    then obtain q' where "poke p 0 bs = Some q'" "same_room p q'"
      by (rule poke_safe [OF p])
    with True False bs(1) safe_remaining [OF r] advance_safe [OF r, of n] show ?thesis
      by (simp add: read_native_def)
  next
    case other: False
    with False q r straddle safe_remaining [OF r] show ?thesis
      by (auto simp: read_native_def)
  qed
qed (use r in \<open>simp add: read_native_def\<close>)

lemma inplace_safe:
  assumes env: "sane_env env" and r: "mem_safe r"
  shows "runs (\<lambda>p r'. p = None \<or> (\<exists>bs. p = Some bs \<and> length bs = n)) r (read_bytes_inplace_notrack env n r)"
proof (cases "fr_error r = MPACK_OK")
  case True
  show ?thesis
  proof (cases "n \<le> avail r")
    case enough: True
    with True pointer_safe [OF r enough] safe_remaining [OF r] advance_safe [OF r enough] show ?thesis
      by (auto simp: read_bytes_inplace_notrack_def pointer_at_def slice_def split: option.splits if_splits)
  next
    case False
    have "runs (\<lambda>p r'. p = None \<or> (\<exists>bs. p = Some bs \<and> length bs = n)) r
      (ensure_impl env n r \<bind> (\<lambda>(ok, r). if \<not> ok then Some (None, r) else pointer_at n r \<bind> (\<lambda>bytes. Some (bytes, advance_cursor n r))))"
    proof (rule runs_bind [OF ensure_safe [OF env r]])
      fix ok r' assume r': "mem_safe r'" "left_over r' \<le> left_over r" "ensured n ok r'"
      show "runs (\<lambda>p r'. p = None \<or> (\<exists>bs. p = Some bs \<and> length bs = n)) r
        (case (ok, r') of (ok, r) \<Rightarrow> if \<not> ok then Some (None, r)
          else pointer_at n r \<bind> (\<lambda>bytes. Some (bytes, advance_cursor n r)))"
      proof (cases ok)
        case True
        then have n: "n \<le> avail r'"
          using r'(3) by (simp add: ensured_def)
        obtain p where p: "pointer_at n r' = Some p"
          using pointer_safe [OF r'(1) n] by blast
        then have "p = None \<or> (\<exists>bs. p = Some bs \<and> length bs = n)"
          by (auto simp: pointer_at_def slice_def split: option.splits if_splits)
        with True p r'(2) advance_safe [OF r'(1) n] show ?thesis
          by simp
      qed (use r' in simp)
    qed
    with True False safe_remaining [OF r] show ?thesis
      by (simp add: read_bytes_inplace_notrack_def)
  qed
qed (use r in \<open>simp add: read_bytes_inplace_notrack_def\<close>)


subsection \<open>Tags and the tracker\<close>

text \<open>A call to the tracker went through, or the error is flagged.\<close>

definition tracked_on :: "ffi_reader \<Rightarrow> bool \<Rightarrow> ffi_reader \<Rightarrow> bool" where
  "tracked_on r ok r' \<longleftrightarrow> (if ok then \<exists>t. r' = r\<lparr>fr_track := t\<rparr> else fr_error r' \<noteq> MPACK_OK)"

lemma tracked_on_ok: "tracked_on r ok r' \<Longrightarrow> fr_error r = MPACK_OK \<Longrightarrow> ok \<longleftrightarrow> fr_error r' = MPACK_OK"
  by (auto simp: tracked_on_def split: if_splits)

lemma track_call_step:
  assumes r: "mem_safe r" "fr_error r = MPACK_OK" and op: "op_allocator_ok op"
  obtains err t where "c_track_step op (fr_track r) = Some (err, t)"
    and "runs (\<lambda>ok r'. ok = (err = MPACK_OK) \<and> tracked_on r ok r') r (track_call (c_track_step op) r)"
proof -
  obtain es where "track_rep (fr_track r) es"
    using r by (auto simp: mem_safe_def)
  from c_track_step_rep [OF this op] obtain err t es' where t: "c_track_step op (fr_track r) = Some (err, t)" "track_rep t es'"
    by blast
  have safe: "mem_safe (r\<lparr>fr_track := t\<rparr>)" "left_over (r\<lparr>fr_track := t\<rparr>) = left_over r"
    using r(1) t(2) by (auto simp: mem_safe_def left_over_def avail_def)
  have "runs (\<lambda>ok r'. ok = (err = MPACK_OK) \<and> tracked_on r ok r') r (track_call (c_track_step op) r)"
  proof (cases "err = MPACK_OK")
    case True
    with t(1) safe show ?thesis
      by (auto simp: track_call_def tracked_on_def)
  next
    case False
    with t(1) safe r(2) flag_safe [OF safe(1), of err] show ?thesis
      by (simp add: track_call_def tracked_on_def)
  qed
  with t(1) show thesis by (rule that)
qed

lemma track_safe:
  assumes "mem_safe r" and "fr_error r = MPACK_OK" and "op_allocator_ok op" and "c_track_step op = f"
  shows "runs (tracked_on r) r (track_call f r)"
  using track_call_step [OF assms(1-3)] assms(4) by (metis (no_types, lifting) runs_weaken)

lemma track_bytes_safe:
  assumes r: "mem_safe r" "fr_error r = MPACK_OK"
  shows "runs (\<lambda>ok r'. tracked_on r ok r' \<and> (ok \<longrightarrow> n < 2 ^ 63)) r (track_call (Ffi_Track.track_bytes n) r)"
proof -
  obtain es where rep: "track_rep (fr_track r) es"
    using r by (auto simp: mem_safe_def)
  obtain err t where t: "c_track_step (C_bytes n) (fr_track r) = Some (err, t)"
      "runs (\<lambda>ok r'. ok = (err = MPACK_OK) \<and> tracked_on r ok r') r (track_call (c_track_step (C_bytes n)) r)"
    using track_call_step [OF r, of "C_bytes n"] by auto
  have "n < 2 ^ 63" if "err = MPACK_OK"
    using that t(1) track_bytes_rep [OF rep, of n] unat_u32_less [of "ft_left (hd es)"]
    by (cases es) (auto simp: Ffi_Track.track_bytes_def split: if_splits)
  moreover have "c_track_step (C_bytes n) = Ffi_Track.track_bytes n"
    by (simp add: fun_eq_iff)
  ultimately show ?thesis
    using t(2) by (auto elim: runs_weaken)
qed

lemma track_bytes_first_safe:
  assumes r: "mem_safe r"
  shows "runs (\<lambda>ok r'. fr_error r' = MPACK_OK \<longrightarrow> n < 2 ^ 63) r (track_bytes_first n r)"
proof (cases "fr_error r = MPACK_OK")
  case True
  have "runs (\<lambda>ok r'. fr_error r' = MPACK_OK \<longrightarrow> n < 2 ^ 63) r (track_call (Ffi_Track.track_bytes n) r)"
    using track_bytes_safe [OF r True, of n] by (rule runs_weaken) (use tracked_on_ok True in blast)
  with True show ?thesis
    by (simp add: track_bytes_first_def)
qed (use r in \<open>simp add: track_bytes_first_def\<close>)

lemma push_tag_safe:
  assumes r: "mem_safe r" "fr_error r = MPACK_OK" and alloc: "allocator_ok malloc"
  shows "runs (tracked_on r) r (track_call (track_push_for_tag malloc ty n) r)"
proof (cases "ty \<in> {TYPE_MAP, TYPE_ARRAY, TYPE_STR, TYPE_BIN, TYPE_EXT}")
  case True
  then have "c_track_step (C_push malloc ty n) = track_push_for_tag malloc ty n"
    by (auto simp: track_push_for_tag_def fun_eq_iff)
  with alloc show ?thesis
    by (intro track_safe [OF r]) simp_all
next
  case False
  then have "track_call (track_push_for_tag malloc ty n) r = Some (True, r\<lparr>fr_track := fr_track r\<rparr>)"
    by (simp add: track_push_for_tag_def track_call_def)
  moreover have "tracked_on r True r"
    by (auto simp: tracked_on_def intro: exI [of _ "fr_track r"])
  ultimately show ?thesis
    using r by simp
qed

lemma tag_header_safe:
  assumes env: "sane_env env" and r: "mem_safe r"
  shows "runs (ensured 0) r (ensure_tag_header env r)"
  unfolding ensure_tag_header_def
proof (rule runs_bind [OF ensure_safe [OF env r, of 1]])
  fix ok r' assume r': "mem_safe r'" "left_over r' \<le> left_over r" "ensured 1 ok r'"
  show "runs (ensured 0) r (case (ok, r') of (ok, r) \<Rightarrow>
      if \<not> ok then Some (False, r) else fr_window r \<bind> (\<lambda>w. index w (fr_data r) \<bind> (\<lambda>marker.
        ensure_impl env (min (header_size_for_marker marker) (MAXIMUM_TAG_SIZE + 1)) r)))"
  proof (cases ok)
    case True
    then have "avail r' \<noteq> 0"
      using r'(3) by (simp add: ensured_def)
    then obtain w m where w: "fr_window r' = Some w" "index w (fr_data r') = Some m"
      using r'(1) by (auto simp: mem_safe_def cursor_ok_def avail_def index_def split: if_splits)
    let ?n = "min (header_size_for_marker m) (MAXIMUM_TAG_SIZE + 1)"
    have "runs (ensured 0) r' (ensure_impl env ?n r')"
      using ensure_safe [OF env r'(1), of ?n] by (rule runs_weaken) (simp add: ensured_def split: if_splits)
    then have "runs (ensured 0) r (ensure_impl env ?n r')"
      using r'(2) by (rule runs_from)
    with True w show ?thesis by simp
  qed (use r' in \<open>simp add: ensured_def\<close>)
qed


lemma core_tag_safe:
  assumes r: "mem_safe r" "fr_error r = MPACK_OK"
  shows "runs (\<lambda>tag r'. fr_error r' = MPACK_OK \<longrightarrow> left_over r' < left_over r) r (read_with_core core_read_tag mpack_tag_nil r)"
proof -
  have c: "cursor_ok r" "avail r = length (ahead r)"
    using r(1) safe_avail [OF r(1)] by (simp_all add: mem_safe_def)
  show ?thesis
  proof (cases "has_header (ahead r)")
    case True
    then obtain hs t after where h: "header hs t" "ahead r = hs @ after"
      by (auto simp: has_header_def)
    have n: "length hs \<le> avail r" "0 < length hs"
      using h header_nonempty [OF h(1)] c(2) by simp_all
    note adv = advance_safe [OF r(1) n(1)]
    then have "left_over (advance_cursor (length hs) r) < left_over r"
      using n(2) by linarith
    with core_tag_header [OF r(2) c(1) h] adv show ?thesis
      by simp
  next
    case False
    from core_tag_reject [OF r(2) c(1) False] obtain k where k: "k \<le> length (ahead r)"
        "read_with_core core_read_tag mpack_tag_nil r
          = Some (mpack_tag_nil, flag_error_on MPACK_ERROR_INVALID (advance_cursor k r))"
      by blast
    have "k \<le> avail r"
      using k(1) c(2) by simp
    note adv = advance_safe [OF r(1) this]
    with flag_safe [OF conjunct1 [OF adv], of MPACK_ERROR_INVALID] r(2) show ?thesis
      by (simp add: k(2))
  qed
qed

text \<open>After a tag without an error there is less input.\<close>

definition went_on :: "ffi_reader \<Rightarrow> ffi_reader \<Rightarrow> bool" where
  "went_on r r' \<longleftrightarrow> (fr_error r' = MPACK_OK \<longrightarrow> left_over r' < left_over r)"

lemma tracked_on_left: "tracked_on r ok r' \<Longrightarrow> fr_error r' = MPACK_OK \<Longrightarrow> left_over r' = left_over r"
  by (auto simp: tracked_on_def left_over_def avail_def split: if_splits)

lemma runsE:
  assumes "runs Q r res"
  obtains x r' where "res = Some (x, r')" and "mem_safe r'" and "left_over r' \<le> left_over r" and "Q x r'"
  using assms by (auto simp: runs_def)

lemma movesE:
  assumes "moves Q r res"
  obtains r' where "res = Some r'" and "mem_safe r'" and "left_over r' \<le> left_over r" and "Q r'"
  using assms by (auto simp: moves_def)

lemma element_call: "c_track_step C_element = Ffi_Track.track_element" "op_allocator_ok C_element"
  by (simp_all add: fun_eq_iff)

lemma read_tag_safe:
  assumes env: "sane_env env" and r: "mem_safe r"
  shows "runs (\<lambda>tag. went_on r) r (read_tag_impl env r)"
proof (cases "fr_error r = MPACK_OK")
  case ok: True
  obtain ok1 r1 where r1: "track_call Ffi_Track.track_element r = Some (ok1, r1)" "mem_safe r1" "left_over r1 \<le> left_over r"
      "tracked_on r ok1 r1"
    by (rule runsE [OF track_safe [OF r ok element_call(2,1)]])
  show ?thesis
  proof (cases ok1)
    case False
    with ok r1 show ?thesis
      by (simp add: read_tag_impl_def tracked_on_def went_on_def)
  next
    case True
    obtain ok2 r2 where r2: "ensure_tag_header env r1 = Some (ok2, r2)" "mem_safe r2" "left_over r2 \<le> left_over r1"
        "ensured 0 ok2 r2"
      by (rule runsE [OF tag_header_safe [OF env r1(2)]])
    show ?thesis
    proof (cases ok2)
      case False
      with ok r1 True r2 show ?thesis
        by (simp add: read_tag_impl_def went_on_def ensured_def)
    next
      case True
      with r2(4) have e2: "fr_error r2 = MPACK_OK" by (simp add: ensured_def)
      obtain tag r3 where r3: "read_with_core core_read_tag mpack_tag_nil r2 = Some (tag, r3)" "mem_safe r3"
          "left_over r3 \<le> left_over r2" "fr_error r3 = MPACK_OK \<longrightarrow> left_over r3 < left_over r2"
        by (rule runsE [OF core_tag_safe [OF r2(2) e2]])
      note start = ok r1(1) \<open>ok1\<close> r2(1) True r3(1)
      show ?thesis
      proof (cases "fr_error r3 = MPACK_OK")
        case False
        with start r1(3) r2(3) r3(2,3) show ?thesis
          by (simp add: read_tag_impl_def went_on_def)
      next
        case True
        obtain ok4 r4 where r4: "track_call (track_push_for_tag (re_malloc env) (mt_type tag) (tag_length tag)) r3 = Some (ok4, r4)"
            "mem_safe r4" "left_over r4 \<le> left_over r3" "tracked_on r3 ok4 r4"
          by (rule runsE [OF push_tag_safe [OF r3(2) True sane_envD(5) [OF env]]])
        with start True r1(3) r2(3) r3(3,4) show ?thesis
          by (simp add: read_tag_impl_def went_on_def)
      qed
    qed
  qed
qed (use r in \<open>simp add: read_tag_impl_def went_on_def\<close>)


lemma slice_safe: "mem_safe r \<Longrightarrow> \<exists>bs. data_slice r = Some (Some bs)"
  by (auto simp: mem_safe_def cursor_ok_def data_slice_def remaining_of_def slice_def split: option.splits)

lemma peek_tag_safe:
  assumes env: "sane_env env" and r: "mem_safe r"
  shows "runs (\<lambda>tag r'. True) r (peek_tag_impl env r)"
proof (cases "fr_error r = MPACK_OK")
  case ok: True
  obtain es where "track_rep (fr_track r) es"
    using r ok by (auto simp: mem_safe_def)
  from track_peek_rep [OF this] obtain e where e: "track_peek_element (fr_track r) = Some e"
    by (auto simp: track_peek_element_def)
  obtain ok1 r1 where r1: "ensure_tag_header env r = Some (ok1, r1)" "mem_safe r1" "left_over r1 \<le> left_over r" "ensured 0 ok1 r1"
    by (rule runsE [OF tag_header_safe [OF env r]])
  obtain bs where bs: "data_slice r1 = Some (Some bs)"
    using slice_safe [OF r1(2)] by blast
  have "wf_reader (reader_new bs)"
    by (simp add: wf_reader_def reader_new_def)
  then obtain t core where t: "peek_tag (reader_new bs) = Some (t, core)"
    using typed_reads(2) unfolding reads_def by blast
  have "peek_tag_impl env r = (if e \<noteq> MPACK_OK then Some (mpack_tag_nil, flag_error_on e r)
      else if \<not> ok1 then Some (mpack_tag_nil, r1)
      else (let err = core_error_to_abi (r_error core)
        in if err \<noteq> MPACK_OK then Some (mpack_tag_nil, flag_error_on err r1)
           else Some (case t of None \<Rightarrow> mpack_tag_nil | Some t \<Rightarrow> tag_to_abi t, r1)))"
    using ok e r1(1) bs t by (simp add: peek_tag_impl_def)
  moreover have "mem_safe (flag_error_on e r)" "left_over (flag_error_on e r) \<le> left_over r"
    using flag_safe [OF r] by simp_all
  moreover have "mem_safe (flag_error_on err r1)" "left_over (flag_error_on err r1) \<le> left_over r" for err
    using flag_safe [OF r1(2), of err] r1(3) by simp_all
  ultimately show ?thesis
    using r1(2,3) by (simp add: Let_def)
qed (use r in \<open>simp add: peek_tag_impl_def\<close>)

lemma pop_call: "c_track_step (C_pop ty) = track_pop ty" "op_allocator_ok (C_pop ty)"
  by (simp_all add: fun_eq_iff)

lemma done_safe:
  assumes r: "mem_safe r"
  shows "moves (\<lambda>_. True) r (done_type_impl ty r)"
proof (cases "fr_error r = MPACK_OK")
  case True
  obtain ok1 r1 where "track_call (track_pop ty) r = Some (ok1, r1)" "mem_safe r1" "left_over r1 \<le> left_over r"
    by (rule runsE [OF track_safe [OF r True pop_call(2,1)]])
  with True show ?thesis
    by (simp add: done_type_impl_def)
qed (use r in \<open>simp add: done_type_impl_def\<close>)

subsection \<open>Discarding\<close>

lemma finish_frames_safe: "mem_safe r \<Longrightarrow> runs (\<lambda>stack r'. True) r (finish_frames stack r)"
proof (induction stack arbitrary: r)
  case (Cons f stack)
  have go_on: "runs (\<lambda>stack r'. True) r (done_type_impl ty r \<bind> finish_frames stack)" for ty
  proof (rule movesE [OF done_safe [OF Cons.prems, of ty]])
    fix r' assume r': "done_type_impl ty r = Some r'" "mem_safe r'" "left_over r' \<le> left_over r"
    from runs_from [OF Cons.IH [OF r'(2)] r'(3)] r'(1) show ?thesis by simp
  qed
  show ?case
  proof (cases f)
    case (Frame_Array n)
    with go_on Cons.prems show ?thesis
      by (simp add: Let_def)
  next
    case (Frame_Map n v)
    with go_on Cons.prems show ?thesis
      by (simp add: Let_def)
  qed
qed simp

lemma discard_tag_safe:
  assumes env: "sane_env env" and r: "mem_safe r" "fr_error r = MPACK_OK"
  shows "runs (\<lambda>next r'. True) r (discard_tag env tag stack r)"
proof -
  let ?n = "unat (tag_length tag)"
  obtain ok1 r1 where r1: "track_call (Ffi_Track.track_bytes ?n) r = Some (ok1, r1)" "mem_safe r1" "left_over r1 \<le> left_over r"
    by (rule runsE [OF track_bytes_safe [OF r]])
  have "?n < 2 ^ 63"
    using unat_u32_less [of "tag_length tag"] by simp
  then obtain r2 where r2: "skip_bytes_impl env ?n r1 = Some r2" "mem_safe r2" "left_over r2 \<le> left_over r1"
    using skip_bytes_safe [OF env r1(2)] by (blast elim: movesE)
  obtain r3 where r3: "done_type_impl (mt_type tag) r2 = Some r3" "mem_safe r3" "left_over r3 \<le> left_over r2"
    by (rule movesE [OF done_safe [OF r2(2)]])
  obtain s4 r4 where r4: "finish_frames stack r3 = Some (s4, r4)" "mem_safe r4" "left_over r4 \<le> left_over r3"
    by (rule runsE [OF finish_frames_safe [OF r3(2)]])
  obtain r5 where r5: "(if mt_type tag = TYPE_ARRAY \<or> mt_type tag = TYPE_MAP then done_type_impl (mt_type tag) r else Some r) = Some r5"
      "mem_safe r5" "left_over r5 \<le> left_over r"
    using movesE [OF done_safe [OF r(1), of "mt_type tag"]] r(1) by (metis order_refl)
  obtain s6 r6 where r6: "finish_frames stack r5 = Some (s6, r6)" "mem_safe r6" "left_over r6 \<le> left_over r5"
    by (rule runsE [OF finish_frames_safe [OF r5(2)]])
  have left: "left_over r2 \<le> left_over r" "left_over r4 \<le> left_over r" "left_over r6 \<le> left_over r"
    using r1(3) r2(3) r3(3) r4(3) r5(3) r6(3) by linarith+
  note steps = r1(1) r2(1) r3(1) r4(1) r5(1) r6(1)
  show ?thesis
  proof (cases "mt_type tag = TYPE_STR \<or> mt_type tag = TYPE_BIN \<or> mt_type tag = TYPE_EXT")
    case True
    have "discard_tag env tag stack r = (if \<not> ok1 then Some (None, r1)
        else if fr_error r2 \<noteq> MPACK_OK then Some (None, r2) else Some (Some s4, r4))"
      unfolding discard_tag_def if_P [OF True] Let_def steps by (simp add: steps)
    with left r1(2,3) r2(2) r4(2) show ?thesis
      by simp
  next
    case False
    have "\<exists>s' r'. discard_tag env tag stack r = Some (s', r') \<and> (r' = r \<or> r' = r6)"
      unfolding discard_tag_def if_not_P [OF False] steps by (simp add: steps)
    with left r6(2) r(1) show ?thesis
      by auto
  qed
qed

lemma discard_loop_safe:
  assumes env: "sane_env env"
  shows "mem_safe r \<Longrightarrow> moves (\<lambda>_. True) r (discard_loop env stack r)"
proof (induction "left_over r" arbitrary: r stack rule: less_induct)
  case less
  obtain tag r1 where r1: "read_tag_impl env r = Some (tag, r1)" "mem_safe r1" "left_over r1 \<le> left_over r" "went_on r r1"
    by (rule runsE [OF read_tag_safe [OF env less.prems]])
  show ?case
  proof (cases "fr_error r1 = MPACK_OK")
    case True
    obtain nxt r2 where r2: "discard_tag env tag stack r1 = Some (nxt, r2)" "mem_safe r2" "left_over r2 \<le> left_over r1"
      by (rule runsE [OF discard_tag_safe [OF env r1(2) True]])
    have "left_over r2 < left_over r"
      using r1(4) r2(3) True by (simp add: went_on_def)
    note again = moves_from [OF less.hyps [OF this r2(2)] less_imp_le [OF this]]
    show ?thesis
      using True r1(1) r2 r1(3) again
      by (subst discard_loop.simps) (simp split: option.splits)
  next
    case False
    with r1 show ?thesis
      by (subst discard_loop.simps) simp
  qed
qed

end
