(* ===== verification/Ffi_Reader_Safe_Api.thy ===== *)
theory Ffi_Reader_Safe_Api
  imports Ffi_Reader_Safe_Ops
begin

section \<open>The exported functions of the C reader are memory safe\<close>

subsection \<open>Payload functions\<close>

lemma same_room_null: "same_room p q \<Longrightarrow> q = None \<longleftrightarrow> p = None"
  by (cases p; cases q) (simp_all add: same_room_def)

lemma read_bytes_safe:
  assumes env: "sane_env env" and r: "mem_safe r" and p: "p = None \<or> room n p"
  shows "runs (\<lambda>q r'. same_room p q) r (mpack_read_bytes env p n r)"
proof (cases "p = None \<and> n \<noteq> 0")
  case False
  then have p': "room n p"
    using p by (auto simp: room_def)
  obtain ok r1 where r1: "track_bytes_first n r = Some (ok, r1)" "mem_safe r1" "left_over r1 \<le> left_over r"
    by (rule runsE [OF track_bytes_first_safe [OF r]])
  obtain q r2 where r2: "read_native env p n r1 = Some (q, r2)" "mem_safe r2" "left_over r2 \<le> left_over r1"
      "same_room p q"
    by (rule runsE [OF native_safe [OF env r1(2) p']])
  have "mpack_read_bytes env p n r = (if \<not> ok then Some (p, r1) else Some (q, r2))"
    unfolding mpack_read_bytes_def if_not_P [OF False] by (simp add: r1(1) r2(1))
  with r1 r2 show ?thesis by simp
qed (use flag_safe [OF r] in \<open>simp add: mpack_read_bytes_def\<close>)

lemma skip_call_safe:
  assumes env: "sane_env env" and r: "mem_safe r"
  shows "moves (\<lambda>_. True) r (mpack_skip_bytes env n r)"
proof -
  obtain ok r1 where r1: "track_bytes_first n r = Some (ok, r1)" "mem_safe r1" "left_over r1 \<le> left_over r"
      "fr_error r1 = MPACK_OK \<longrightarrow> n < 2 ^ 63"
    by (rule runsE [OF track_bytes_first_safe [OF r]])
  have "moves (\<lambda>_. True) r (skip_bytes_impl env n r1)"
  proof (cases "fr_error r1 = MPACK_OK")
    case True
    with r1(4) show ?thesis
      by (intro moves_from [OF skip_bytes_safe [OF env r1(2)] r1(3)]) simp
  qed (use r1 in \<open>simp add: skip_bytes_impl_def\<close>)
  with r1 show ?thesis
    by (simp add: mpack_skip_bytes_def)
qed

lemma inplace_call_safe:
  assumes env: "sane_env env" and r: "mem_safe r"
  shows "runs (\<lambda>p r'. p = None \<or> length (the p) = n) r (mpack_read_bytes_inplace env n r)" and "runs (\<lambda>p r'. True) r (mpack_read_utf8_inplace env n r)"
proof -
  obtain ok r1 where r1: "track_bytes_first n r = Some (ok, r1)" "mem_safe r1" "left_over r1 \<le> left_over r"
    by (rule runsE [OF track_bytes_first_safe [OF r]])
  obtain p r2 where "read_bytes_inplace_notrack env n r1 = Some (p, r2)" "mem_safe r2" "left_over r2 \<le> left_over r1"
      "p = None \<or> (\<exists>bs. p = Some bs \<and> length bs = n)"
    by (rule runsE [OF inplace_safe [OF env r1(2)]])
  with r1 show "runs (\<lambda>p r'. p = None \<or> length (the p) = n) r (mpack_read_bytes_inplace env n r)"
    by (auto simp: mpack_read_bytes_inplace_def)
  obtain p r2 where p: "read_bytes_inplace_notrack env n r = Some (p, r2)" "mem_safe r2" "left_over r2 \<le> left_over r"
    by (rule runsE [OF inplace_safe [OF env r]])
  show "runs (\<lambda>p r'. True) r (mpack_read_utf8_inplace env n r)"
    using p flag_safe [OF p(2), of MPACK_ERROR_TYPE] order_trans [OF conjunct2 [OF flag_safe [OF p(2)]] p(3)]
    by (cases p) (simp_all add: mpack_read_utf8_inplace_def)
qed

lemma read_utf8_safe:
  assumes env: "sane_env env" and r: "mem_safe r" and p: "if p = None then n \<noteq> 0 else room n p"
  shows "runs (\<lambda>q r'. True) r (mpack_read_utf8 env p n r)"
proof (cases p)
  case (Some m)
  then have p': "room n p"
    using p by simp
  obtain q r1 where r1: "read_native env p n r = Some (q, r1)" "mem_safe r1" "left_over r1 \<le> left_over r" "same_room p q"
    by (rule runsE [OF native_safe [OF env r p']])
  have "room n q" "q \<noteq> None"
    using same_room_room [OF r1(4)] same_room_null [OF r1(4)] p' Some by simp_all
  then obtain bs where "peek_bytes q n = Some bs"
    using peek_safe by blast
  with Some r1 flag_safe [OF r1(2), of MPACK_ERROR_TYPE] order_trans [OF conjunct2 [OF flag_safe [OF r1(2)]] r1(3)] show ?thesis
    by (simp add: mpack_read_utf8_def)
qed (use p flag_safe [OF r] in \<open>simp add: mpack_read_utf8_def\<close>)

subsection \<open>C strings\<close>

text \<open>A buffer that a C program passes with its size.\<close>

definition buffer_arg :: "u8 list option \<Rightarrow> nat \<Rightarrow> bool" where
  "buffer_arg buf sz \<longleftrightarrow> (case buf of None \<Rightarrow> True | Some m \<Rightarrow> sz \<le> length m)"

lemma clear_safe:
  assumes "mem_safe r" and "room 1 buf"
  shows "runs (\<lambda>q r'. same_room buf q \<and> r' = r) r (clear_cstr buf r)"
proof -
  have "0 + length [0 :: u8] \<le> 1"
    by simp
  then obtain q where "poke buf 0 [0] = Some q" "same_room buf q"
    by (rule poke_safe [OF assms(2)])
  with assms(1) show ?thesis
    by (simp add: clear_cstr_def)
qed

lemma str_call: "c_track_step (C_str_bytes_all n) = Ffi_Track.track_str_bytes_all n" "op_allocator_ok (C_str_bytes_all n)"
  by (simp_all add: fun_eq_iff)

lemma cstr_safe:
  assumes env: "sane_env env" and r: "mem_safe r" and buf: "buffer_arg buf sz"
  shows "runs (\<lambda>q r'. same_room buf q \<and> (fr_error r' = MPACK_OK \<longrightarrow> buf \<noteq> None \<and> room (Suc n) buf)) r
    (read_cstr_unchecked env buf sz n r)"
proof (cases "buf = None \<or> sz = 0")
  case True
  with flag_safe [OF r, of MPACK_ERROR_BUG] show ?thesis
    by (simp add: read_cstr_unchecked_def)
next
  case False
  then obtain m where m: "buf = Some m" "1 \<le> length m" "0 < sz" "sz \<le> length m"
    using buf by (auto simp: buffer_arg_def)
  then have one: "room 1 buf"
    by (simp add: room_def)
  note clear = clear_safe [OF _ one]
  show ?thesis
  proof (cases "fr_error r = MPACK_OK \<and> n \<le> sz - 1")
    case True
    have fits: "room n buf" "room (Suc n) buf"
      using True m by (auto simp: room_def)
    obtain ok r1 where r1: "track_call (Ffi_Track.track_str_bytes_all n) r = Some (ok, r1)" "mem_safe r1"
        "left_over r1 \<le> left_over r" "tracked_on r ok r1"
      using runsE [OF track_safe [OF r _ str_call(2,1)]] True by blast
    obtain q r2 where r2: "read_native env buf n r1 = Some (q, r2)" "mem_safe r2" "left_over r2 \<le> left_over r1" "same_room buf q"
      by (rule runsE [OF native_safe [OF env r1(2) fits(1)]])
    have "room (Suc n) q" "n + length [0 :: u8] \<le> Suc n"
      using same_room_room [OF r2(4)] fits(2) by simp_all
    then obtain q' where q': "poke q n [0] = Some q'" "same_room q q'"
      by (rule poke_safe)
    obtain c where c: "clear_cstr buf r1 = Some (c, r1)" "same_room buf c"
      using clear [OF r1(2)] by (auto simp: runs_def)
    have "read_cstr_unchecked env buf sz n r = (if \<not> ok then Some (c, r1) else Some (q', r2))"
      using m(1,3) True r1(1) r2(1) q'(1) c(1) by (simp add: read_cstr_unchecked_def not_less)
    with r1 r2 c(2) same_room_trans [OF r2(4) q'(2)] fits(2) m(1) show ?thesis
      by simp
  next
    case bad: False
    let ?r = "if fr_error r \<noteq> MPACK_OK then r else flag_error_on MPACK_ERROR_TOO_BIG r"
    have safe: "mem_safe ?r" "left_over ?r \<le> left_over r" "fr_error ?r \<noteq> MPACK_OK"
      using r flag_safe [OF r, of MPACK_ERROR_TOO_BIG] by simp_all
    have "read_cstr_unchecked env buf sz n r = clear_cstr buf ?r"
      using m(1,3) bad by (auto simp: read_cstr_unchecked_def)
    with clear [OF safe(1)] safe show ?thesis
      by (auto simp: runs_def)
  qed
qed

lemma checked_cstr_safe:
  assumes env: "sane_env env" and r: "mem_safe r" and buf: "buffer_arg buf sz"
  shows "runs (\<lambda>q r'. True) r (checked_cstr good env buf sz n r)"
proof -
  obtain q r1 where r1: "read_cstr_unchecked env buf sz n r = Some (q, r1)" "mem_safe r1" "left_over r1 \<le> left_over r"
      "same_room buf q \<and> (fr_error r1 = MPACK_OK \<longrightarrow> buf \<noteq> None \<and> room (Suc n) buf)"
    by (rule runsE [OF cstr_safe [OF assms]])
  show ?thesis
  proof (cases "fr_error r1 = MPACK_OK")
    case True
    with r1(4) have q: "q \<noteq> None" "room (Suc n) q"
      using same_room_room [of buf q] same_room_null [of buf q] by auto
    then have "room n q" "room 1 q"
      by (auto simp: room_def)
    obtain bs where bs: "peek_bytes q n = Some bs"
      using peek_safe [OF \<open>room n q\<close> q(1)] by blast
    note flag = flag_safe [OF r1(2), of MPACK_ERROR_TYPE]
    obtain c where "clear_cstr q (flag_error_on MPACK_ERROR_TYPE r1) = Some (c, flag_error_on MPACK_ERROR_TYPE r1)"
      using clear_safe [OF conjunct1 [OF flag] \<open>room 1 q\<close>] by (auto simp: runs_def)
    with True r1(1-3) bs flag order_trans [OF conjunct2 [OF flag] r1(3)] show ?thesis
      by (simp add: checked_cstr_def)
  qed (use r1 in \<open>simp add: checked_cstr_def\<close>)
qed


subsection \<open>Copies on the heap, timestamps, the rest of the input\<close>

lemma error_fn_safe [simp]:
  "mem_safe (r\<lparr>fr_error_fn := b\<rparr>) = mem_safe r" "mem_safe (r\<lparr>fr_reports := l\<rparr>) = mem_safe r"
  "left_over (r\<lparr>fr_error_fn := b\<rparr>) = left_over r" "left_over (r\<lparr>fr_reports := l\<rparr>) = left_over r"
  by (simp_all add: mem_safe_def cursor_ok_def left_over_def avail_def cong: option.case_cong)

lemma bytes_alloc_safe:
  assumes env: "sane_env env" and r: "mem_safe r"
  shows "runs (\<lambda>p r'. p = None \<or> n \<le> length (the p)) r (mpack_read_bytes_alloc_impl env n z r)"
proof (cases "fr_error r \<noteq> MPACK_OK \<or> n = 0 \<and> \<not> z \<or> n + of_bool z > usize_max")
  case True
  with r flag_safe [OF r, of MPACK_ERROR_TOO_BIG] show ?thesis
    by (auto simp: mpack_read_bytes_alloc_impl_def)
next
  case False
  then have ok: "fr_error r = MPACK_OK" by simp
  let ?sz = "max (n + of_bool z) 1"
  obtain k r1 where r1: "track_call (Ffi_Track.track_bytes n) r = Some (k, r1)" "mem_safe r1" "left_over r1 \<le> left_over r"
    by (rule runsE [OF track_bytes_safe [OF r ok]])
  note start = False r1(1)
  show ?thesis
  proof (cases "k \<and> re_malloc env ?sz \<noteq> None")
    case True
    then obtain block where b: "re_malloc env ?sz = Some block" "length block = ?sz"
      using sane_envD(5) [OF env] by (auto simp: allocator_ok_def)
    let ?r1 = "r1\<lparr>fr_error_fn := False\<rparr>"
    have m1: "mem_safe ?r1"
      using r1(2) by simp
    have rooms: "room n (Some block)" "z \<Longrightarrow> room (Suc n) (Some block)"
      using b(2) by (auto simp: room_def)
    obtain q r2 where r2: "read_native env (Some block) n ?r1 = Some (q, r2)" "mem_safe r2" "left_over r2 \<le> left_over ?r1"
        "same_room (Some block) q"
      by (rule runsE [OF native_safe [OF env m1 rooms(1)]])
    have left: "left_over r2 \<le> left_over r"
      using r2(3) r1(3) by simp
    have long: "room n p \<Longrightarrow> p = None \<or> n \<le> length (the p)" for p
      by (auto simp: room_def split: option.splits)
    have q: "room n q"
      using same_room_room [OF r2(4)] rooms(1) by simp
    have z': "\<exists>q'. poke q n [0] = Some q' \<and> (q' = None \<or> n \<le> length (the q'))" if z
    proof -
      have "room (Suc n) q"
        using same_room_room [OF r2(4)] rooms(2) [OF that] by simp
      then obtain q' where q': "poke q n [0] = Some q'" "same_room q q'"
        by (rule poke_safe [of _ _ n "[0]"]) simp_all
      with long [of q'] q same_room_room [OF q'(2)] show ?thesis
        by simp
    qed
    show ?thesis
      using start True b(1) r2(1,2) left z' long [OF q]
      by (auto simp: mpack_read_bytes_alloc_impl_def Let_def split: if_splits)
  next
    case bad: False
    have "mpack_read_bytes_alloc_impl env n z r = Some (None, if k then flag_error_on MPACK_ERROR_MEMORY r1 else r1)"
      using start bad by (auto simp: mpack_read_bytes_alloc_impl_def Let_def)
    with r1 flag_safe [OF r1(2), of MPACK_ERROR_MEMORY] order_trans [OF conjunct2 [OF flag_safe [OF r1(2)]] r1(3)] show ?thesis
      by simp
  qed
qed

lemma timestamp_safe:
  assumes env: "sane_env env" and r: "mem_safe r"
  shows "runs (\<lambda>ts r'. True) r (mpack_read_timestamp env n r)"
proof (cases "n = 4 \<or> n = 8 \<or> n = 12")
  case True
  have rm: "room n (Some (replicate 12 0))"
    using True by (auto simp: room_def)
  obtain q r1 where r1: "read_native env (Some (replicate 12 0)) n r = Some (q, r1)" "mem_safe r1" "left_over r1 \<le> left_over r"
      "same_room (Some (replicate 12 0)) q"
    by (rule runsE [OF native_safe [OF env r rm]])
  obtain r2 where r2: "done_type_impl TYPE_EXT r1 = Some r2" "mem_safe r2" "left_over r2 \<le> left_over r1"
    by (rule movesE [OF done_safe [OF r1(2)]])
  obtain bs where bs: "peek_bytes q n = Some bs"
    using peek_safe [of n q] same_room_room [OF r1(4)] same_room_null [OF r1(4)] rm by auto
  have "mpack_read_timestamp env n r = (if fr_error r2 \<noteq> MPACK_OK then Some (timestamp_zero, r2)
      else case decode_timestamp_payload bs of Some ts \<Rightarrow> Some (ts, r2)
        | None \<Rightarrow> Some (timestamp_zero, flag_error_on MPACK_ERROR_INVALID r2))"
    using True r1(1) r2(1) bs by (auto simp: mpack_read_timestamp_def mpack_done_type_def split: option.splits)
  with r2(2) r1(3) r2(3) flag_safe [OF r2(2), of MPACK_ERROR_INVALID] show ?thesis
    by (cases "decode_timestamp_payload bs") simp_all
next
  case False
  with flag_safe [OF r, of MPACK_ERROR_INVALID] show ?thesis
    by (simp add: mpack_read_timestamp_def)
qed

lemma remaining_call_safe:
  assumes r: "mem_safe r"
  shows "\<exists>n p r'. mpack_reader_remaining r = Some (n, p, r') \<and> mem_safe r' \<and> left_over r' \<le> left_over r"
  using r flag_safe [OF r, of "track_check_empty (fr_track r)"] safe_remaining [OF r] pointer_safe [OF r, of "avail r"]
  by (auto simp: mpack_reader_remaining_def Let_def)


subsection \<open>Any sequence of calls\<close>

text \<open>The functions a C program calls on a reader, with the destinations it passes. \<open>op_ok\<close> is what their
  headers ask for: a destination holds as many bytes as the call says (for \<open>mpack_read_utf8\<close> also when that is
  none), and the callbacks are the program's own.\<close>

datatype c_reader_op =
    R_read_tag
  | R_peek_tag
  | R_read_bytes "u8 list option" nat
  | R_skip_bytes nat
  | R_bytes_inplace nat
  | R_utf8_inplace nat
  | R_read_utf8 "u8 list option" nat
  | R_read_cstr "u8 list option" nat nat
  | R_read_utf8_cstr "u8 list option" nat nat
  | R_bytes_alloc nat bool
  | R_done_type c_int
  | R_discard
  | R_timestamp nat
  | R_remaining
  | R_flag_error c_int
  | R_set_fill "fill_fn option"
  | R_set_skip "skip_fn option"
  | R_ensure_straddle nat
  | R_native_straddle "u8 list option" nat

fun c_reader_step :: "reader_env \<Rightarrow> c_reader_op \<Rightarrow> ffi_reader \<Rightarrow> ffi_reader option" where
  "c_reader_step env R_read_tag r = map_option snd (mpack_read_tag env r)"
| "c_reader_step env R_peek_tag r = map_option snd (mpack_peek_tag env r)"
| "c_reader_step env (R_read_bytes p n) r = map_option snd (mpack_read_bytes env p n r)"
| "c_reader_step env (R_skip_bytes n) r = mpack_skip_bytes env n r"
| "c_reader_step env (R_bytes_inplace n) r = map_option snd (mpack_read_bytes_inplace env n r)"
| "c_reader_step env (R_utf8_inplace n) r = map_option snd (mpack_read_utf8_inplace env n r)"
| "c_reader_step env (R_read_utf8 p n) r = map_option snd (mpack_read_utf8 env p n r)"
| "c_reader_step env (R_read_cstr buf sz n) r = map_option snd (mpack_read_cstr env buf sz n r)"
| "c_reader_step env (R_read_utf8_cstr buf sz n) r = map_option snd (mpack_read_utf8_cstr env buf sz n r)"
| "c_reader_step env (R_bytes_alloc n z) r = map_option snd (mpack_read_bytes_alloc_impl env n z r)"
| "c_reader_step env (R_done_type ty) r = mpack_done_type ty r"
| "c_reader_step env R_discard r = mpack_discard env r"
| "c_reader_step env (R_timestamp n) r = map_option snd (mpack_read_timestamp env n r)"
| "c_reader_step env R_remaining r = map_option (snd \<circ> snd) (mpack_reader_remaining r)"
| "c_reader_step env (R_flag_error e) r = Some (mpack_reader_flag_error e r)"
| "c_reader_step env (R_set_fill f) r = Some (mpack_reader_set_fill f r)"
| "c_reader_step env (R_set_skip f) r = Some (mpack_reader_set_skip f r)"
| "c_reader_step env (R_ensure_straddle n) r = map_option snd (mpack_reader_ensure_straddle env n r)"
| "c_reader_step env (R_native_straddle p n) r = map_option snd (mpack_read_native_straddle env p n r)"

fun op_ok :: "c_reader_op \<Rightarrow> bool" where
  "op_ok (R_read_bytes p n) \<longleftrightarrow> p = None \<or> room n p"
| "op_ok (R_read_utf8 p n) \<longleftrightarrow> (if p = None then n \<noteq> 0 else room n p)"
| "op_ok (R_read_cstr buf sz n) \<longleftrightarrow> buffer_arg buf sz"
| "op_ok (R_read_utf8_cstr buf sz n) \<longleftrightarrow> buffer_arg buf sz"
| "op_ok (R_set_fill f) \<longleftrightarrow> f \<noteq> Some File_Reader_Fill"
| "op_ok (R_set_skip f) \<longleftrightarrow> f \<noteq> Some File_Reader_Skip"
| "op_ok (R_native_straddle p n) \<longleftrightarrow> p = None \<or> room n p"
| "op_ok _ \<longleftrightarrow> True"

inductive c_reader_reachable :: "reader_env \<Rightarrow> ffi_reader \<Rightarrow> bool" for env where
  from_data: "buffer_arg data n \<Longrightarrow> c_reader_reachable env (mpack_reader_init_data env data n)"
| from_buffer: "buffer_arg buf sz \<Longrightarrow> n \<le> sz \<Longrightarrow> c_reader_reachable env (mpack_reader_init env buf sz n)"
| from_stdfile: "c_reader_reachable env (mpack_reader_init_stdfile env stream close_it)"
| from_filename: "c_reader_reachable env (mpack_reader_init_filename env filename)"
| from_error: "e \<noteq> MPACK_OK \<Longrightarrow> c_reader_reachable env (mpack_reader_init_error e)"
| called: "c_reader_reachable env r \<Longrightarrow> op_ok op \<Longrightarrow> c_reader_step env op r = Some r' \<Longrightarrow> c_reader_reachable env r'"

lemma runs_snd: "runs Q r res \<Longrightarrow> moves (\<lambda>_. True) r (map_option snd res)"
  by (auto simp: runs_def)

lemma set_callback_safe:
  assumes r: "mem_safe r"
  shows "fr_size r \<noteq> 0 \<Longrightarrow> f \<noteq> Some File_Reader_Fill \<Longrightarrow> mem_safe (r\<lparr>fr_fill := f\<rparr>)"
    and "k \<noteq> Some File_Reader_Skip \<Longrightarrow> mem_safe (r\<lparr>fr_skip := k\<rparr>)"
    and "left_over (r\<lparr>fr_fill := f\<rparr>) = left_over r" and "left_over (r\<lparr>fr_skip := k\<rparr>) = left_over r"
  using r by (simp_all add: mem_safe_def cursor_ok_def left_over_def avail_def cong: option.case_cong)

lemma c_reader_step_safe:
  assumes env: "sane_env env" and r: "mem_safe r" and op: "op_ok op"
  shows "moves (\<lambda>_. True) r (c_reader_step env op r)"
proof (cases op)
  case (R_native_straddle p n)
  show ?thesis
  proof (cases p)
    case None
    have "read_native_straddle_impl env p n r = Some (p, if n = 0 then r else flag_error_on MPACK_ERROR_BUG r)"
      by (simp add: read_native_straddle_impl_def None)
    with R_native_straddle r flag_safe [OF r, of MPACK_ERROR_BUG] show ?thesis
      by (simp add: mpack_read_native_straddle_def)
  next
    case (Some m)
    with R_native_straddle op straddle_copy_safe [OF env r, of n p] show ?thesis
      by (simp add: mpack_read_native_straddle_def runs_snd)
  qed
next
  case R_remaining
  with remaining_call_safe [OF r] show ?thesis
    by auto
next
  case (R_set_fill f)
  have "c_reader_step env op r = Some (if fr_size r < 32 then flag_error_on MPACK_ERROR_BUG r else r\<lparr>fr_fill := f\<rparr>)"
    using R_set_fill by (simp add: mpack_reader_set_fill_def READER_MINIMUM_BUFFER_SIZE_def)
  with R_set_fill op set_callback_safe(1,3) [OF r, of f] flag_safe [OF r, of MPACK_ERROR_BUG] show ?thesis
    by simp
next
  case (R_set_skip k)
  have "c_reader_step env op r = Some (if fr_size r = 0 then flag_error_on MPACK_ERROR_BUG r else r\<lparr>fr_skip := k\<rparr>)"
    using R_set_skip by (simp add: mpack_reader_set_skip_def)
  with R_set_skip op set_callback_safe(2,4) [OF r, of k] flag_safe [OF r, of MPACK_ERROR_BUG] show ?thesis
    by simp
qed (use op flag_safe [OF r] discard_loop_safe [OF env r] done_safe [OF r] skip_call_safe [OF env r] in
    \<open>simp_all add: mpack_read_tag_def mpack_peek_tag_def mpack_read_cstr_def mpack_read_utf8_cstr_def
      mpack_done_type_def mpack_discard_def discard_impl_def mpack_reader_flag_error_def mpack_reader_ensure_straddle_def
      runs_snd [OF read_tag_safe [OF env r]] runs_snd [OF peek_tag_safe [OF env r]] runs_snd [OF read_bytes_safe [OF env r]]
      runs_snd [OF inplace_call_safe(1) [OF env r]] runs_snd [OF inplace_call_safe(2) [OF env r]]
      runs_snd [OF read_utf8_safe [OF env r]] runs_snd [OF checked_cstr_safe [OF env r]]
      runs_snd [OF bytes_alloc_safe [OF env r]] runs_snd [OF timestamp_safe [OF env r]]
      runs_snd [OF ensure_straddle_safe [OF env r]]\<close>)


lemma track_init_safe:
  assumes "mem_safe (r\<lparr>fr_error := MPACK_ERROR_BUG\<rparr>)" and "allocator_ok (re_malloc env)"
  shows "mem_safe (reader_track_init env r)"
proof -
  obtain err t where t: "track_init (re_force_fail env) (re_malloc env) (fr_track r) = (err, t)"
    by fastforce
  have "\<exists>es. track_rep t es" if "err = MPACK_OK"
  proof -
    have no: "\<not> re_force_fail env" and m: "re_malloc env 36 \<noteq> None"
      using t that by (cases "re_malloc env 36"; auto simp: track_init_def sat_mul_def usize_max_def track_elem_size_def
          TRACKING_INITIAL_CAPACITY_def Let_def split: if_splits)+
    show ?thesis
      using track_init_rep [of "re_malloc env" "fr_track r", OF m assms(2)] no t by auto
  qed
  with assms t show ?thesis
    by (cases "err = MPACK_OK")
      (simp_all add: reader_track_init_def Let_def mem_safe_def cursor_ok_def cong: option.case_cong)
qed

lemma error_state_safe: "e \<noteq> MPACK_OK \<Longrightarrow> mem_safe (reader_error_state e)"
  by (simp add: reader_error_state_def empty_reader_def mem_safe_def cursor_ok_def)

lemma stdfile_safe:
  assumes "allocator_ok (re_malloc env)"
  shows "mem_safe (init_stdfile_impl env s close_it)"
proof (cases "re_malloc env OWNED_BUFFER_CAPACITY")
  case (Some buf)
  then have "length buf = OWNED_BUFFER_CAPACITY"
    using assms by (simp add: allocator_ok_def)
  then show ?thesis
    unfolding init_stdfile_impl_def Some option.case
    by (intro track_init_safe assms) (simp add: mem_safe_def cursor_ok_def empty_reader_def)
qed (simp add: init_stdfile_impl_def error_state_safe)

lemma init_safe:
  assumes env: "sane_env env"
  shows "buffer_arg data n \<Longrightarrow> mem_safe (mpack_reader_init_data env data n)"
    and "buffer_arg buf sz \<Longrightarrow> n \<le> sz \<Longrightarrow> mem_safe (mpack_reader_init env buf sz n)"
    and "mem_safe (mpack_reader_init_stdfile env stream close_it)"
    and "mem_safe (mpack_reader_init_filename env filename)"
proof -
  show "mem_safe (mpack_reader_init_data env data n)" if "buffer_arg data n"
    unfolding mpack_reader_init_data_def using that
    by (intro track_init_safe sane_envD(5) [OF env]) (auto simp: mem_safe_def cursor_ok_def empty_reader_def buffer_arg_def split: option.splits)
  show "mem_safe (mpack_reader_init env buf sz n)" if "buffer_arg buf sz" "n \<le> sz"
  proof (cases buf)
    case (Some m)
    show ?thesis
      unfolding mpack_reader_init_def Some using that Some
      by (simp, intro track_init_safe sane_envD(5) [OF env]) (simp add: mem_safe_def cursor_ok_def empty_reader_def buffer_arg_def)
  qed (simp add: mpack_reader_init_def error_state_safe)
  note file_safe = stdfile_safe [OF sane_envD(5) [OF env]]
  show "mem_safe (mpack_reader_init_stdfile env stream close_it)"
    by (cases stream) (simp_all add: mpack_reader_init_stdfile_def error_state_safe file_safe)
  show "mem_safe (mpack_reader_init_filename env filename)"
    by (cases filename)
      (simp_all add: mpack_reader_init_filename_def error_state_safe file_safe split: option.split)
qed

lemma reachable_safe:
  assumes env: "sane_env env"
  shows "c_reader_reachable env r \<Longrightarrow> mem_safe r"
proof (induction rule: c_reader_reachable.induct)
  case (called r op r')
  with c_reader_step_safe [OF env called.IH called.hyps(2)] show ?case
    by simp
qed (simp_all add: init_safe [OF env] mpack_reader_init_error_def error_state_safe)

lemma some_bind: "m \<noteq> None \<Longrightarrow> m \<bind> (\<lambda>r. Some (g r)) \<noteq> None"
  by (cases m) simp_all

lemma destroy_safe:
  assumes r: "mem_safe r"
  shows "mpack_reader_destroy env r \<noteq> None"
proof -
  obtain e t where t: "track_destroy (fr_error r \<noteq> MPACK_OK) (fr_track r) = (e, t)"
    by fastforce
  have close: "file_reader_teardown_close env u \<noteq> None" if "fr_context u \<noteq> None" for u
    using that by (auto simp: file_reader_teardown_close_def Let_def)
  let ?r = "let r = r\<lparr>fr_track := t\<rparr> in if e \<noteq> MPACK_OK \<and> fr_error r = MPACK_OK then r\<lparr>fr_error := e\<rparr> else r"
  have td: "fr_teardown ?r = fr_teardown r" "fr_context ?r = fr_context r"
    by (simp_all add: Let_def)
  have "call_reader_teardown env f (?r\<lparr>fr_teardown := None\<rparr>) \<noteq> None" if "fr_teardown r = Some f" for f
    using that r td close [of "?r\<lparr>fr_teardown := None\<rparr>"]
    by (cases f) (simp_all add: mem_safe_def call_reader_teardown_def)
  then have "(case fr_teardown ?r of None \<Rightarrow> Some ?r
      | Some f \<Rightarrow> call_reader_teardown env f (?r\<lparr>fr_teardown := None\<rparr>)) \<noteq> None"
    unfolding td(1) by (cases "fr_teardown r") (simp_all only: option.case option.distinct simp_thms)
  then show ?thesis
    unfolding mpack_reader_destroy_def Let_def t prod.case by (rule some_bind)
qed

text \<open>Any C program, any bytes: from any initialisation of a C reader, through any sequence of calls with
  destinations as large as announced, on data in memory, through a fill callback or from a file, no call reads
  or writes outside the buffers, uses a null pointer or an unwritten slot of the tracker, or fails to return
  (\<open>mpack_discard\<close> included, whatever it finds), and no call makes the input longer; destroying the reader is
  safe at any time.\<close>

theorem c_reader_memory_safe:
  assumes "sane_env env" and "c_reader_reachable env r" and "op_ok op"
  shows "(\<exists>r'. c_reader_step env op r = Some r' \<and> left_over r' \<le> left_over r) \<and> mpack_reader_destroy env r \<noteq> None"
  using c_reader_step_safe [OF assms(1) reachable_safe [OF assms(1,2)] assms(3)] destroy_safe [OF reachable_safe [OF assms(1,2)]]
  by (auto elim: movesE)

theorem c_reader_memory_safe_witness:
  "\<exists>r r'. r = mpack_reader_init_stdfile plain_env (Some \<lparr>cs_rest = [0x92, 0xdf, 0xff], cs_eof = False\<rparr>) True
    \<and> c_reader_step plain_env R_discard r = Some r'"
proof -
  have "c_reader_reachable plain_env (mpack_reader_init_stdfile plain_env (Some \<lparr>cs_rest = [0x92, 0xdf, 0xff], cs_eof = False\<rparr>) True)"
    by (rule from_stdfile)
  from c_reader_memory_safe [OF plain_sane this, of R_discard] show ?thesis
    by auto
qed

end
