(* ===== verification/Ffi_Expect_Safety.thy ===== *)
theory Ffi_Expect_Safety
  imports Ffi_Expect_Bytes Ffi_Reader_Safe_Api Expect_Contract
begin

section \<open>Memory safety of the C expect functions\<close>

text \<open>
  \<open>returns Q res\<close>: the operation returns, with a result that satisfies \<open>Q\<close>. \<open>within_bound b r\<close> is the invariant
  of the reader with a bound on the input that is left. Every expect function keeps it.
\<close>

definition returns :: "('z \<Rightarrow> bool) \<Rightarrow> 'z option \<Rightarrow> bool" where
  "returns Q res \<longleftrightarrow> (\<exists>z. res = Some z \<and> Q z)"

definition safe_at :: "nat \<Rightarrow> ffi_reader \<Rightarrow> bool" where
  "safe_at b r \<longleftrightarrow> mem_safe r \<and> left_over r \<le> b"

lemma returns_Some [simp]: "returns Q (Some z) \<longleftrightarrow> Q z"
  by (simp add: returns_def)

lemma returns_bind: "returns P m \<Longrightarrow> (\<And>z. P z \<Longrightarrow> returns Q (k z)) \<Longrightarrow> returns Q (m \<bind> k)"
  by (auto simp: returns_def)

lemma returns_weaken: "returns P m \<Longrightarrow> (\<And>z. P z \<Longrightarrow> Q z) \<Longrightarrow> returns Q m"
  by (auto simp: returns_def)

lemma returns_runs:
  "runs Q r res \<Longrightarrow> safe_at b r \<Longrightarrow> returns (\<lambda>(x, r'). safe_at b r' \<and> Q x r') res"
  by (auto simp: returns_def runs_def safe_at_def)

lemma returns_moves:
  "moves Q r res \<Longrightarrow> safe_at b r \<Longrightarrow> returns (\<lambda>r'. safe_at b r' \<and> Q r') res"
  by (auto simp: returns_def moves_def safe_at_def)

lemma safe_atD: "safe_at b r \<Longrightarrow> mem_safe r"
  by (simp add: safe_at_def)

lemma flag_at [simp]: "safe_at b r \<Longrightarrow> safe_at b (flag_error_on e r)"
  using flag_safe [of r e] by (simp add: safe_at_def)

subsection \<open>The parts\<close>

lemma track_call_at:
  assumes "safe_at b r" and "fr_error r = MPACK_OK" and "op_allocator_ok op" and "c_track_step op = f"
  shows "returns (\<lambda>(ok, r'). safe_at b r') (track_call f r)"
  using returns_runs [OF track_safe [OF safe_atD [OF assms(1)] assms(2-4)] assms(1)] by (auto simp: returns_def)

lemma element_at: "safe_at b r \<Longrightarrow> returns (\<lambda>(ok, r'). safe_at b r') (track_element_or_flag r)"
  using track_call_at [OF _ _ element_call(2,1), of b r] by (simp add: track_element_or_flag_def)

lemma push_at:
  assumes "sane_env env" and "safe_at b r"
  shows "returns (safe_at b) (push_type env ty n r)"
proof (cases "fr_error r = MPACK_OK")
  case True
  have "c_track_step (C_push (re_malloc env) ty n) = track_push (re_malloc env) ty n"
    by (simp add: fun_eq_iff)
  from track_call_at [OF assms(2) True _ this] sane_envD(5) [OF assms(1)]
  have "returns (\<lambda>(ok, r'). safe_at b r') (track_call (track_push (re_malloc env) ty n) r)"
    by simp
  with True show ?thesis
    unfolding push_type_def by (auto simp: returns_def)
qed (use assms in \<open>simp add: push_type_def\<close>)

lemma prepare_at:
  assumes "sane_env env" and "safe_at b r"
  shows "returns (\<lambda>(ok, r'). safe_at b r') (prepare_scalar env r)"
  unfolding prepare_scalar_def
proof (rule returns_bind [OF element_at [OF assms(2)]])
  fix z :: "bool \<times> ffi_reader"
  assume "case z of (ok, r') \<Rightarrow> safe_at b r'"
  then show "returns (\<lambda>(ok, r'). safe_at b r') (case z of (ok, r) \<Rightarrow> if ok then ensure_tag_header env r else Some (False, r))"
    using returns_runs [OF tag_header_safe [OF assms(1) safe_atD], of b "snd z" b]
    by (cases z) (auto elim!: returns_weaken)
qed

lemma actsE:
  assumes "acts op" and "wf_reader r"
  obtains x r' where "op r = Some (x, r')" and "advances r r'"
  using assms by (auto simp: acts_def)

lemma core_at:
  assumes op: "acts op" and r: "safe_at b r"
  shows "returns (\<lambda>(x, r'). safe_at b r') (read_with_core op fallback r)"
proof (cases "fr_error r = MPACK_OK")
  case True
  note safe = safe_atD [OF r]
  obtain bs where bs: "load_buffer (fr_data r) (avail r) r = Some bs" "length bs = avail r"
    using load_safe [OF safe, of "avail r"] by auto
  obtain x core where x: "op (reader_new bs) = Some (x, core)" "advances (reader_new bs) core"
    by (rule actsE [OF op wf_reader_new])
  then have used: "r_position core \<le> avail r"
    using bs(2) advances_wf [OF x(2) wf_reader_new] by (simp add: advances_def wf_reader_def) (metis reader.select_convs(1) reader_new_def)
  then have "safe_at b (advance_cursor (r_position core) r)"
    using advance_safe [OF safe used] r by (auto simp: safe_at_def)
  with True bs x used safe_remaining [OF safe] show ?thesis
    by (simp add: read_with_core_def Let_def)
qed (use r in \<open>simp add: read_with_core_def\<close>)

lemma acts_unwrap: "acts op \<Longrightarrow> acts (unwrap_or zero op)"
  unfolding acts_def unwrap_or_def by fastforce

lemma done_at: "safe_at b r \<Longrightarrow> returns (safe_at b) (done_type_impl ty r)"
  using returns_moves [OF done_safe [OF safe_atD]] by (auto simp: returns_def)

lemma read_bytes_at:
  "sane_env env \<Longrightarrow> safe_at b r \<Longrightarrow> p = None \<or> room n p \<Longrightarrow>
    returns (\<lambda>(q, r'). safe_at b r' \<and> same_room p q) (mpack_read_bytes env p n r)"
  by (rule returns_runs [OF read_bytes_safe]) (auto dest: safe_atD)

lemma bytes_alloc_at:
  "sane_env env \<Longrightarrow> safe_at b r \<Longrightarrow>
    returns (\<lambda>(p, r'). safe_at b r' \<and> (p = None \<or> n \<le> length (the p))) (mpack_read_bytes_alloc_impl env n z r)"
  by (rule returns_runs [OF bytes_alloc_safe]) (auto dest: safe_atD)

lemma discard_at: "sane_env env \<Longrightarrow> safe_at b r \<Longrightarrow> returns (safe_at b) (mpack_discard env r)"
  using returns_moves [OF discard_loop_safe [OF _ safe_atD]]
  by (fastforce simp: mpack_discard_def discard_impl_def returns_def)

lemma peek_at: "sane_env env \<Longrightarrow> safe_at b r \<Longrightarrow> returns (\<lambda>(t, r'). safe_at b r') (mpack_peek_tag env r)"
  using returns_runs [OF peek_tag_safe [OF _ safe_atD]] by (fastforce simp: mpack_peek_tag_def returns_def)

lemma read_tag_at: "sane_env env \<Longrightarrow> safe_at b r \<Longrightarrow> returns (\<lambda>(t, r'). safe_at b r') (mpack_read_tag env r)"
  using returns_runs [OF read_tag_safe [OF _ safe_atD]] by (fastforce simp: mpack_read_tag_def returns_def)

subsection \<open>Reads of one header\<close>

lemma expect_option_at:
  assumes env: "sane_env env" and op: "acts op" and r: "safe_at b r"
  shows "returns (\<lambda>(x, r'). safe_at b r') (expect_option env zero op r)"
  unfolding expect_option_def
  by (rule returns_bind [OF prepare_at [OF env r]]) (auto intro: core_at [OF acts_unwrap [OF op]])

lemma expect_void_at:
  assumes env: "sane_env env" and op: "acts op" and r: "safe_at b r"
  shows "returns (safe_at b) (expect_void env op r)"
  unfolding expect_void_def
  by (rule returns_bind [OF prepare_at [OF env r]])
    (auto intro!: returns_bind [OF core_at [OF op]])

lemma expect_range_at:
  assumes env: "sane_env env" and op: "\<And>lo hi. acts (op lo hi)" and r: "safe_at b r"
  shows "returns (\<lambda>(x, r'). safe_at b r') (expect_range_op env gt op lo hi r)"
  using expect_option_at [OF env op r] r by (simp add: expect_range_op_def)

lemma compound_open_at:
  assumes env: "sane_env env" and op: "acts op" and r: "safe_at b r"
  shows "returns (\<lambda>(n, r'). safe_at b r') (compound_open env ty op r)"
  unfolding compound_open_def
  by (rule returns_bind [OF prepare_at [OF env r]])
    (auto intro!: returns_bind [OF core_at [OF acts_unwrap [OF op]]] returns_bind [where P = "safe_at b"] push_at [OF env])

lemma compound_or_nil_at:
  assumes env: "sane_env env" and op: "acts op" and r: "safe_at b r"
  shows "returns (\<lambda>(x, c, r'). safe_at b r' \<and> (c = None \<longleftrightarrow> out = None)) (compound_or_nil_open env ty out op r)"
  unfolding compound_or_nil_open_def
  by (rule returns_bind [OF prepare_at [OF env r]])
    (auto simp: Let_def write_out_def intro!: returns_bind [OF core_at [OF acts_unwrap [OF op]]] returns_bind [OF push_at [OF env]])

subsection \<open>Maps and arrays\<close>

text \<open>What the core operations used here have in common.\<close>

lemma checks_acts: "checks m \<Longrightarrow> acts m"
  unfolding checks_def acts_def by blast

lemma length_limited_acts: "acts op \<Longrightarrow> acts (length_limited err n op)"
proof -
  assume op: "acts op"
  show ?thesis
    unfolding acts_def length_limited_def
  proof (intro allI impI)
    fix r assume wf: "wf_reader r"
    obtain x r' where x: "op r = Some (x, r')" "advances r r'"
      by (rule actsE [OF op wf])
    with advances_trans [OF x(2) advances_flag] show "\<exists>y r'. try_opt (op r) (\<lambda>m core.
        if m \<le> n then Some (Some m, core) else Some (None, flag_error err core)) = Some (y, r') \<and> advances r r'"
      by (cases x) auto
  qed
qed

lemma ext_limited_acts: "acts (ext_limited n)"
  unfolding acts_def ext_limited_def
proof (intro allI impI)
  fix r :: reader assume wf: "wf_reader r"
  obtain x r' where x: "expect_ext r = Some (x, r')" "advances r r'"
    by (rule actsE [OF reads_acts [OF expect_reads(9)] wf])
  with advances_trans [OF x(2) advances_flag] show "\<exists>y r'. try_opt (expect_ext r) (\<lambda>(ty, m) core.
      if m \<le> n then Some (Some (ty, m), core) else Some (None, flag_error Err_Type core)) = Some (y, r') \<and> advances r r'"
    by (cases x) auto
qed

lemma core_acts:
  "acts expect_u8" "acts expect_u16" "acts expect_u32" "acts expect_u64"
  "acts expect_i8" "acts expect_i16" "acts expect_i32" "acts expect_i64"
  "acts (expect_u8_range a8 b8)" "acts (expect_u16_range a16 b16)" "acts (expect_u32_range a32 b32)" "acts (expect_u64_range a64 b64)"
  "acts (expect_i8_range a8 b8)" "acts (expect_i16_range a16 b16)" "acts (expect_i32_range a32 b32)" "acts (expect_i64_range a64 b64)"
  "acts expect_float" "acts expect_double" "acts expect_float_strict" "acts expect_double_strict"
  "acts (expect_float_range flo fhi)" "acts (expect_double_range dlo dhi)"
  "acts expect_bool" "acts expect_timestamp" "acts expect_timestamp_truncate"
  "acts expect_map" "acts (expect_map_range nlo nhi)" "acts expect_map_or_nil" "acts (expect_map_max_or_nil m)"
  "acts expect_array" "acts (expect_array_range nlo nhi)" "acts expect_array_or_nil" "acts (expect_array_max_or_nil m)"
  "acts expect_str" "acts expect_bin" "acts expect_ext"
  "acts (expect_uint_match uv)" "acts (expect_int_match iv)" "acts expect_nil" "acts expect_true" "acts expect_false"
  "acts (expect_map_match n)" "acts (expect_array_match n)"
  by (simp_all only: expect_functions expect_selections expect_map_or_nil_def [abs_def]
      expect_map_max_or_nil_def [abs_def] expect_array_or_nil_def [abs_def] expect_array_max_or_nil_def [abs_def]
      reads_acts reading.select_reads expect_bool_reads expect_timestamp_reads expect_timestamp_truncate_reads
      compound_or_nil_reads expect_str_reads checks_acts expect_checks)

lemma compound_range_at:
  assumes env: "sane_env env" and op: "acts op" and r: "safe_at b r"
  shows "returns (\<lambda>(n, r'). safe_at b r') (prepare_scalar env r \<bind> (\<lambda>(ok, r). if \<not> ok then Some (lo, r)
     else read_with_core (unwrap_or lo op) lo r \<bind> (\<lambda>(n, r).
       (if fr_error r = MPACK_OK then push_type env ty n r else Some r) \<bind> (\<lambda>r. Some (n, r)))))"
  by (rule returns_bind [OF prepare_at [OF env r]])
    (auto intro!: returns_bind [OF core_at [OF acts_unwrap [OF op]]] returns_bind [where P = "safe_at b"] push_at [OF env])

lemma compound_match_at:
  assumes env: "sane_env env" and op: "acts op" and r: "safe_at b r"
  shows "returns (safe_at b) (prepare_scalar env r \<bind> (\<lambda>(ok, r). if \<not> ok then Some r
     else read_with_core op False r \<bind> (\<lambda>(matched, r).
       if matched \<and> fr_error r = MPACK_OK then push_type env ty n r else Some r)))"
  by (rule returns_bind [OF prepare_at [OF env r]]) (auto intro!: returns_bind [OF core_at [OF op]] push_at [OF env])

lemma alloc_elements_at:
  assumes env: "sane_env env" and r: "safe_at b r"
  shows "returns (\<lambda>(p, c, r'). safe_at b r') (alloc_elements env sz n out r)"
proof (cases "suite_alloc env (sz * unat n)")
  case (Some block)
  then have "length block = max (sz * unat n) 1"
    using sane_envD(5) [OF env] by (simp add: suite_alloc_def allocator_ok_def)
  then have "room (sz * unat n) (Some block)"
    by (simp add: room_def)
  then obtain q where "poke (Some block) 0 (replicate (sz * unat n) 0) = Some q"
    by (rule poke_safe [where bs = "replicate (sz * unat n) 0" and off = 0]) simp_all
  with Some r show ?thesis
    by (simp add: alloc_elements_def Let_def)
qed (use r in \<open>simp add: alloc_elements_def\<close>)

lemma array_alloc_at:
  assumes env: "sane_env env" and r: "safe_at b r"
  shows "returns (\<lambda>(p, c, r'). safe_at b r') (mpack_expect_array_alloc_impl env sz mx out nil r)"
proof (cases "out = None")
  case False
  let ?head = "if nil then expect_array_max_or_nil_impl env mx (Some 0) r \<bind> (\<lambda>(h, c, r). Some (h, the c, r))
      else compound_open env TYPE_ARRAY (expect_array_range 0 mx) r \<bind> (\<lambda>(c, r). Some (fr_error r = MPACK_OK, c, r))"
  have "returns (\<lambda>(h, c, r'). safe_at b r') ?head"
    using returns_bind [OF compound_or_nil_at [OF env core_acts(33) [of mx] r, where ty = TYPE_ARRAY and out = "Some 0"],
        of "\<lambda>(h, c, r'). safe_at b r'" "\<lambda>(h, c, r). Some (h, the c, r)"]
      returns_bind [OF compound_open_at [OF env core_acts(31) [of 0 mx] r, where ty = TYPE_ARRAY],
        of "\<lambda>(h, c, r'). safe_at b r'" "\<lambda>(c, r). Some (fr_error r = MPACK_OK, c, r)"]
    by (auto simp: expect_array_max_or_nil_impl_def)
  moreover have "write_out 0 out \<noteq> None"
    using False by (simp add: write_out_def)
  ultimately show ?thesis
    unfolding mpack_expect_array_alloc_impl_def Let_def
    by (simp only: if_False) (erule returns_bind,
        auto intro!: alloc_elements_at [OF env] returns_bind [where P = "safe_at b"] done_at)
qed (use r in \<open>simp add: mpack_expect_array_alloc_impl_def write_out_def\<close>)

subsection \<open>Payloads\<close>

lemma str_at: "sane_env env \<Longrightarrow> safe_at b r \<Longrightarrow> returns (\<lambda>(n, r'). safe_at b r') (expect_str_impl env r)"
  by (simp add: expect_str_impl_def compound_open_at core_acts)

lemma bin_at: "sane_env env \<Longrightarrow> safe_at b r \<Longrightarrow> returns (\<lambda>(n, r'). safe_at b r') (expect_bin_impl env r)"
  by (simp add: expect_bin_impl_def compound_open_at core_acts)

lemma room_below: "buffer_arg buf n \<Longrightarrow> k \<le> n \<Longrightarrow> buf = None \<or> room k buf"
  by (auto simp: buffer_arg_def room_def split: option.splits)

lemma read_into_buf_at:
  assumes env: "sane_env env" and r: "safe_at b r" and buf: "buffer_arg buf n"
  shows "returns (\<lambda>(ok, q, r'). safe_at b r' \<and> same_room buf q \<and> (ok \<longrightarrow> k \<le> n)) (read_into_buf env ty buf n k r)"
proof (cases "fr_error r \<noteq> MPACK_OK \<or> n < k \<or> (0 < k \<and> buf = None)")
  case False
  then have "buf = None \<or> room k buf"
    by (intro room_below [OF buf]) simp
  then show ?thesis
    unfolding read_into_buf_def using False
    by (auto intro!: returns_bind [OF read_bytes_at [OF env r]] returns_bind [OF done_at])
qed (use r in \<open>auto simp: read_into_buf_def\<close>)

lemma same_room_buffer: "same_room p q \<Longrightarrow> buffer_arg q n = buffer_arg p n"
  by (cases p; cases q) (simp_all add: same_room_def buffer_arg_def)

lemma str_buf_at:
  assumes env: "sane_env env" and r: "safe_at b r" and buf: "buffer_arg buf n"
  shows "returns (\<lambda>(k, q, r'). safe_at b r') (mpack_expect_str_buf env buf n r)"
    and "returns (\<lambda>(k, q, r'). safe_at b r') (mpack_expect_bin_buf env buf n r)"
  unfolding mpack_expect_str_buf_def mpack_expect_bin_buf_def
  by (rule returns_bind [OF str_at [OF env r]] returns_bind [OF bin_at [OF env r]],
      auto intro!: returns_bind [OF read_into_buf_at [OF env _ buf]])+

lemma peek_buffer: "p \<noteq> None \<Longrightarrow> buffer_arg p n \<Longrightarrow> k \<le> n \<Longrightarrow> \<exists>bs. peek_bytes p k = Some bs"
  by (auto simp: buffer_arg_def peek_bytes_def slice_def)

lemma utf8_buf_at:
  assumes env: "sane_env env" and r: "safe_at b r" and buf: "buffer_arg buf n" "buf \<noteq> None"
  shows "returns (\<lambda>(k, q, r'). safe_at b r') (mpack_expect_utf8 env buf n r)"
  unfolding mpack_expect_utf8_def
proof (rule returns_bind [OF str_at [OF env r]])
  fix z :: "u32 \<times> ffi_reader"
  assume z: "case z of (m, r') \<Rightarrow> safe_at b r'"
  obtain m r1 where z': "z = (m, r1)" "safe_at b r1"
    using z by (cases z) auto
  from read_into_buf_at [OF env z'(2) buf(1), where k = "unat m" and ty = TYPE_STR]
  obtain ok q r2 where q: "read_into_buf env TYPE_STR buf n (unat m) r1 = Some (ok, q, r2)" "safe_at b r2" "same_room buf q"
      "ok \<longrightarrow> unat m \<le> n"
    by (auto simp: returns_def)
  have "ok \<Longrightarrow> \<exists>bs. peek_bytes q (unat m) = Some bs"
    using peek_buffer [of q n "unat m"] same_room_null [OF q(3)] same_room_buffer [OF q(3)] buf q(4) by simp
  with q z' show "returns (\<lambda>(k, q, r'). safe_at b r') (case z of (len, r) \<Rightarrow>
      read_into_buf env TYPE_STR buf n (unat len) r \<bind> (\<lambda>(ok, buf, r). if \<not> ok then Some (0, buf, r)
        else peek_bytes buf (unat len) \<bind> (\<lambda>bytes. if \<not> check_utf8 bytes
          then Some (0, buf, flag_error_impl MPACK_ERROR_TYPE r) else Some (unat len, buf, r))))"
    by auto
qed

lemma native_at:
  "sane_env env \<Longrightarrow> safe_at b r \<Longrightarrow> room n p \<Longrightarrow>
    returns (\<lambda>(q, r'). safe_at b r' \<and> same_room p q) (read_native env p n r)"
  by (rule returns_runs [OF native_safe]) (auto dest: safe_atD)

lemma match_loop_at:
  "sane_env env \<Longrightarrow> safe_at b r \<Longrightarrow> returns (\<lambda>(ok, r'). safe_at b r') (match_loop env bs r)"
proof (induction bs arbitrary: r)
  case (Cons c bs)
  have "room 1 (Some [0])"
    by (simp add: room_def)
  from native_at [OF Cons.prems this] Cons.IH [OF Cons.prems(1)] show ?case
    by (auto intro!: returns_bind [where P = "\<lambda>(q, r'). safe_at b r' \<and> same_room (Some [0]) q"])
qed simp

lemma str_match_at:
  assumes env: "sane_env env" and r: "safe_at b r" and str: "buffer_arg str n"
  shows "returns (safe_at b) (mpack_expect_str_match env str n r)"
proof -
  have "\<exists>x. c_bytes str n = Some x"
    using str by (cases str) (auto simp: c_bytes_def buffer_arg_def slice_def)
  then obtain x where x: "c_bytes str n = Some x" ..
  have tracked: "returns (\<lambda>(ok, r'). safe_at b r') (track_call (Ffi_Track.track_bytes k) u)"
    if "safe_at b u" "fr_error u = MPACK_OK" for u k
    using returns_runs [OF track_bytes_safe [OF safe_atD [OF that(1)] that(2), of k] that(1)] by (auto simp: returns_def)
  show ?thesis
    using r unfolding mpack_expect_str_match_def x
    by (cases x) (auto intro!: returns_bind [OF str_at [OF env r]] returns_bind [OF tracked]
        returns_bind [OF match_loop_at [OF env]] done_at)
qed

lemma expect_cstr_at:
  assumes env: "sane_env env" and r: "safe_at b r" and buf: "buffer_arg buf n"
    and read: "\<And>k u. safe_at b u \<Longrightarrow> returns (\<lambda>(q, r'). safe_at b r') (read buf n k u)"
  shows "returns (\<lambda>(q, r'). safe_at b r') (expect_cstr_with read env buf n r)"
  using r unfolding expect_cstr_with_def
  by (auto intro!: returns_bind [OF str_at [OF env r]] returns_bind [OF read] returns_bind [OF done_at])

lemma cstr_calls_at:
  assumes env: "sane_env env" and r: "safe_at b r" and buf: "buffer_arg buf n"
  shows "returns (\<lambda>(q, r'). safe_at b r') (mpack_expect_cstr env buf n r)"
    and "returns (\<lambda>(q, r'). safe_at b r') (mpack_expect_utf8_cstr env buf n r)"
proof -
  have "returns (\<lambda>(q, r'). safe_at b r') (checked_cstr good env buf n k u)" if "safe_at b u" for good k u
    using returns_runs [OF checked_cstr_safe [OF env safe_atD [OF that] buf] that] by (auto simp: returns_def)
  then show "returns (\<lambda>(q, r'). safe_at b r') (mpack_expect_cstr env buf n r)"
    "returns (\<lambda>(q, r'). safe_at b r') (mpack_expect_utf8_cstr env buf n r)"
    unfolding mpack_expect_cstr_def mpack_expect_utf8_cstr_def mpack_read_cstr_def mpack_read_utf8_cstr_def
    by (auto intro!: expect_cstr_at [OF env r buf])
qed

lemma cstr_alloc_at:
  assumes env: "sane_env env" and r: "safe_at b r"
  shows "returns (\<lambda>(p, r'). safe_at b r') (cstr_alloc_with bad env n r)"
proof -
  have un: "returns (\<lambda>(p, k, r'). safe_at b r' \<and> (p = None \<or> k \<le> length (the p))) (expect_cstr_alloc_unchecked env n r)"
    using r unfolding expect_cstr_alloc_unchecked_def
    by (auto intro!: returns_bind [OF compound_open_at [OF env length_limited_acts [OF core_acts(34)] r]]
        returns_bind [OF bytes_alloc_at [OF env]] returns_bind [OF done_at])
  show ?thesis
    unfolding cstr_alloc_with_def by (rule returns_bind [OF un]) (auto simp: peek_bytes_def slice_def)
qed

lemma bin_size_buf_at:
  assumes env: "sane_env env" and r: "safe_at b r" and buf: "buffer_arg buf (unat n)"
  shows "returns (\<lambda>(q, r'). safe_at b r') (mpack_expect_bin_size_buf env buf n r)"
  using room_below [OF buf order_refl] unfolding mpack_expect_bin_size_buf_def
  by (auto intro!: returns_bind [OF bin_at [OF env r]] returns_bind [OF read_bytes_at [OF env]]
      returns_bind [where P = "safe_at b"] done_at)

lemma bin_alloc_at:
  assumes env: "sane_env env" and r: "safe_at b r"
  shows "returns (\<lambda>(p, k, r'). safe_at b r') (mpack_expect_bin_alloc env n out r)"
  unfolding mpack_expect_bin_alloc_def Let_def
  by (auto intro!: returns_bind [OF compound_open_at [OF env length_limited_acts [OF core_acts(35)] r]]
      returns_bind [OF bytes_alloc_at [OF env]] returns_bind [OF done_at])

subsection \<open>Extensions, tags, keys\<close>

lemma ext_core_at:
  "safe_at b r \<Longrightarrow> returns (\<lambda>((ty, n), r'). safe_at b r') (read_with_core (unwrap_or (0, 0) expect_ext) (0, 0) r)"
  using core_at [OF acts_unwrap [OF core_acts(36)], of b r "(0, 0)" "(0, 0)"] by (auto simp: returns_def)

lemma ext_at:
  assumes env: "sane_env env" and r: "safe_at b r"
  shows "returns (\<lambda>(n, ty, r'). safe_at b r') (mpack_expect_ext env out r)"
  unfolding mpack_expect_ext_def
  by (rule returns_bind [OF prepare_at [OF env r]])
    (auto simp: Let_def intro!: returns_bind [OF ext_core_at] returns_bind [OF push_at [OF env]])

lemma ext_buf_at:
  assumes env: "sane_env env" and r: "safe_at b r" and buf: "buffer_arg buf n"
  shows "returns (\<lambda>(k, ty, q, r'). safe_at b r') (mpack_expect_ext_buf env out buf n r)"
proof (cases buf)
  case None
  show ?thesis
    unfolding mpack_expect_ext_buf_def None
    by (rule returns_bind [OF prepare_at [OF env r]])
      (auto simp: Let_def intro!: flag_at returns_bind [OF ext_core_at] returns_bind [OF push_at [OF env]]
        returns_bind [OF read_bytes_at [OF env]] returns_bind [OF done_at])
next
  case (Some m)
  then have "n \<le> length m"
    using buf by (simp add: buffer_arg_def)
  then show ?thesis
    unfolding mpack_expect_ext_buf_def Some
    by (intro returns_bind [OF prepare_at [OF env r]])
      (auto simp: Let_def room_def intro!: flag_at returns_bind [OF ext_core_at] returns_bind [OF push_at [OF env]]
        returns_bind [OF read_bytes_at [OF env]] returns_bind [OF done_at])
qed

lemma ext_alloc_at:
  assumes env: "sane_env env" and r: "safe_at b r"
  shows "returns (\<lambda>(p, ty, k, r'). safe_at b r') (mpack_expect_ext_alloc env out n size_out r)"
  unfolding mpack_expect_ext_alloc_def Let_def
  by (rule returns_bind [OF prepare_at [OF env r]])
    (auto intro!: returns_bind [OF core_at [OF ext_limited_acts]] returns_bind [OF push_at [OF env]]
      returns_bind [OF bytes_alloc_at [OF env]] returns_bind [OF done_at] split: option.split)

lemma tag_at:
  assumes env: "sane_env env" and r: "safe_at b r"
  shows "returns (safe_at b) (mpack_expect_tag env t r)"
  unfolding mpack_expect_tag_def by (auto intro!: returns_bind [OF read_tag_at [OF env r]])

definition flags_arg :: "bool list option \<Rightarrow> nat \<Rightarrow> bool" where
  "flags_arg found n \<longleftrightarrow> (case found of None \<Rightarrow> True | Some l \<Rightarrow> n \<le> length l)"

lemma found_slice_at: "flags_arg found n \<Longrightarrow> returns (\<lambda>x. x = None \<or> length (the x) = n) (found_slice found n)"
  by (auto simp: found_slice_def flags_arg_def slice_def split: option.splits)

lemma key_uint_at:
  assumes env: "sane_env env" and r: "safe_at b r" and found: "flags_arg found n"
  shows "returns (\<lambda>(k, f, r'). safe_at b r') (mpack_expect_key_uint env found n r)"
  using r unfolding mpack_expect_key_uint_def
  by (auto simp: index_def not_le intro!: flag_at returns_bind [OF found_slice_at [OF found]] returns_bind [OF peek_at [OF env r]]
      returns_bind [OF discard_at [OF env]] returns_bind [OF expect_option_at [OF env core_acts(4)]] split: option.split)

text \<open>A table of C strings.\<close>

definition keys_arg :: "u8 list option list option \<Rightarrow> nat \<Rightarrow> bool" where
  "keys_arg keys n \<longleftrightarrow> (case keys of None \<Rightarrow> True
     | Some ks \<Rightarrow> n \<le> length ks \<and> (\<forall>k\<in>set ks. k = None \<or> 0 \<in> set (the k)))"

lemma key_table_loop_at:
  "i + n \<le> length ks \<Longrightarrow> \<forall>k\<in>set ks. k = None \<or> 0 \<in> set (the k) \<Longrightarrow>
    returns (\<lambda>t. t = None \<or> length (the t) = length out + n) (key_table_loop ks i n out)"
proof (induction n arbitrary: i out)
  case (Suc n)
  then have i: "i < length ks"
    by simp
  then have "ks ! i = None \<or> 0 \<in> set (the (ks ! i))"
    using Suc.prems(2) by simp
  then have "\<exists>x. cstr_bytes (ks ! i) = Some x"
    by (auto simp: cstr_bytes_def split: option.splits)
  then obtain x where x: "cstr_bytes (ks ! i) = Some x" ..
  show ?case
    using i x Suc.IH [of "Suc i" "out @ [the x]"] Suc.prems by (cases x) (simp_all add: index_def)
qed simp

lemma key_table_at:
  "keys_arg keys n \<Longrightarrow> returns (\<lambda>t. t = None \<or> length (the t) = n) (key_cstr_table keys n)"
  using key_table_loop_at [of 0 n "the keys" "[]"] by (auto simp: key_cstr_table_def keys_arg_def split: option.splits)

lemma match_key_at:
  "safe_at b r \<Longrightarrow> i + length keys \<le> length flags \<Longrightarrow>
    returns (\<lambda>(k, f, r'). safe_at b r') (match_key bytes n flags keys i found r)"
  by (induction keys arbitrary: i) (auto simp: index_def)

lemma inplace_at:
  "sane_env env \<Longrightarrow> safe_at b r \<Longrightarrow> returns (\<lambda>(p, r'). safe_at b r') (mpack_read_bytes_inplace env n r)"
  using returns_runs [OF inplace_call_safe(1) [OF _ safe_atD, of env b r n], of b] by (auto simp: returns_def)

lemma key_cstr_at:
  assumes env: "sane_env env" and r: "safe_at b r" and keys: "keys_arg keys n" and found: "flags_arg found n"
  shows "returns (\<lambda>(k, f, r'). safe_at b r') (mpack_expect_key_cstr env keys found n r)"
  using r found unfolding mpack_expect_key_cstr_def
  by (auto intro!: flag_at returns_bind [OF key_table_at [OF keys]] returns_bind [OF found_slice_at]
      returns_bind [OF peek_at [OF env r]] returns_bind [OF discard_at [OF env]] returns_bind [OF str_at [OF env]]
      returns_bind [OF inplace_at [OF env]] returns_bind [OF done_at] match_key_at split: option.split)

end
