(* ===== verification/Ffi_Expect_Safe_Api.thy ===== *)
theory Ffi_Expect_Safe_Api
  imports Ffi_Expect_Safety
begin

section \<open>Any sequence of reader and expect calls is memory safe\<close>

text \<open>
  The expect functions a C program calls, with the buffers it passes; \<open>expect_op_ok\<close> is what their headers ask
  for: a buffer is as large as its size says, the flags and the table have \<open>count\<close> entries, the keys are
  terminated, and the buffer of \<open>mpack_expect_utf8\<close> is not null (see \<open>utf8_null_buffer_undefined\<close>).
\<close>

datatype c_number_op =
    E_u8
  | E_u16
  | E_u32
  | E_u64
  | E_i8
  | E_i16
  | E_i32
  | E_i64
  | E_u8_range u8 u8
  | E_u16_range u16 u16
  | E_u32_range u32 u32
  | E_u64_range u64 u64
  | E_i8_range i8 i8
  | E_i16_range i16 i16
  | E_i32_range i32 i32
  | E_i64_range i64 i64
  | E_float
  | E_double
  | E_float_strict
  | E_double_strict
  | E_float_range f32 f32
  | E_double_range f64 f64
  | E_uint_match u64
  | E_int_match i64

datatype c_compound_op =
    E_nil
  | E_true
  | E_false
  | E_bool
  | E_timestamp
  | E_timestamp_truncate
  | E_map
  | E_map_range u32 u32
  | E_map_match u32
  | E_map_or_nil "u32 option"
  | E_map_max_or_nil u32 "u32 option"
  | E_array
  | E_array_range u32 u32
  | E_array_match u32
  | E_array_or_nil "u32 option"
  | E_array_max_or_nil u32 "u32 option"
  | E_array_alloc nat u32 "u32 option" bool

datatype c_bytes_op =
    E_str
  | E_str_buf "u8 list option" nat
  | E_utf8 "u8 list option" nat
  | E_str_match "u8 list option" nat
  | E_cstr "u8 list option" nat
  | E_utf8_cstr "u8 list option" nat
  | E_cstr_alloc nat
  | E_utf8_cstr_alloc nat
  | E_bin
  | E_bin_buf "u8 list option" nat
  | E_bin_size_buf "u8 list option" u32
  | E_bin_alloc nat "nat option"
  | E_ext "i8 option"
  | E_ext_buf "i8 option" "u8 list option" nat
  | E_ext_alloc "i8 option" nat "nat option"
  | E_tag mpack_tag
  | E_key_uint "bool list option" nat
  | E_key_cstr "u8 list option list option" "bool list option" nat

datatype c_expect_op = E_number c_number_op | E_compound c_compound_op | E_bytes c_bytes_op

fun number_op_step :: "reader_env \<Rightarrow> c_number_op \<Rightarrow> ffi_reader \<Rightarrow> ffi_reader option" where
  "number_op_step env E_u8 r = map_option snd (mpack_expect_u8 env r)"
| "number_op_step env E_u16 r = map_option snd (mpack_expect_u16 env r)"
| "number_op_step env E_u32 r = map_option snd (mpack_expect_u32 env r)"
| "number_op_step env E_u64 r = map_option snd (mpack_expect_u64 env r)"
| "number_op_step env E_i8 r = map_option snd (mpack_expect_i8 env r)"
| "number_op_step env E_i16 r = map_option snd (mpack_expect_i16 env r)"
| "number_op_step env E_i32 r = map_option snd (mpack_expect_i32 env r)"
| "number_op_step env E_i64 r = map_option snd (mpack_expect_i64 env r)"
| "number_op_step env (E_u8_range a1 a2) r = map_option snd (mpack_expect_u8_range env a1 a2 r)"
| "number_op_step env (E_u16_range a1 a2) r = map_option snd (mpack_expect_u16_range env a1 a2 r)"
| "number_op_step env (E_u32_range a1 a2) r = map_option snd (mpack_expect_u32_range env a1 a2 r)"
| "number_op_step env (E_u64_range a1 a2) r = map_option snd (mpack_expect_u64_range env a1 a2 r)"
| "number_op_step env (E_i8_range a1 a2) r = map_option snd (mpack_expect_i8_range env a1 a2 r)"
| "number_op_step env (E_i16_range a1 a2) r = map_option snd (mpack_expect_i16_range env a1 a2 r)"
| "number_op_step env (E_i32_range a1 a2) r = map_option snd (mpack_expect_i32_range env a1 a2 r)"
| "number_op_step env (E_i64_range a1 a2) r = map_option snd (mpack_expect_i64_range env a1 a2 r)"
| "number_op_step env E_float r = map_option snd (mpack_expect_float env r)"
| "number_op_step env E_double r = map_option snd (mpack_expect_double env r)"
| "number_op_step env E_float_strict r = map_option snd (mpack_expect_float_strict env r)"
| "number_op_step env E_double_strict r = map_option snd (mpack_expect_double_strict env r)"
| "number_op_step env (E_float_range a1 a2) r = map_option snd (mpack_expect_float_range env a1 a2 r)"
| "number_op_step env (E_double_range a1 a2) r = map_option snd (mpack_expect_double_range env a1 a2 r)"
| "number_op_step env (E_uint_match a1) r = mpack_expect_uint_match env a1 r"
| "number_op_step env (E_int_match a1) r = mpack_expect_int_match env a1 r"

fun compound_op_step :: "reader_env \<Rightarrow> c_compound_op \<Rightarrow> ffi_reader \<Rightarrow> ffi_reader option" where
  "compound_op_step env E_nil r = mpack_expect_nil env r"
| "compound_op_step env E_true r = mpack_expect_true env r"
| "compound_op_step env E_false r = mpack_expect_false env r"
| "compound_op_step env E_bool r = map_option snd (mpack_expect_bool env r)"
| "compound_op_step env E_timestamp r = map_option snd (mpack_expect_timestamp env r)"
| "compound_op_step env E_timestamp_truncate r = map_option snd (mpack_expect_timestamp_truncate env r)"
| "compound_op_step env E_map r = map_option snd (mpack_expect_map env r)"
| "compound_op_step env (E_map_range a1 a2) r = map_option snd (mpack_expect_map_range env a1 a2 r)"
| "compound_op_step env (E_map_match a1) r = mpack_expect_map_match env a1 r"
| "compound_op_step env (E_map_or_nil a1) r = map_option (snd \<circ> snd) (mpack_expect_map_or_nil env a1 r)"
| "compound_op_step env (E_map_max_or_nil a1 a2) r = map_option (snd \<circ> snd) (mpack_expect_map_max_or_nil env a1 a2 r)"
| "compound_op_step env E_array r = map_option snd (mpack_expect_array env r)"
| "compound_op_step env (E_array_range a1 a2) r = map_option snd (mpack_expect_array_range env a1 a2 r)"
| "compound_op_step env (E_array_match a1) r = mpack_expect_array_match env a1 r"
| "compound_op_step env (E_array_or_nil a1) r = map_option (snd \<circ> snd) (mpack_expect_array_or_nil env a1 r)"
| "compound_op_step env (E_array_max_or_nil a1 a2) r = map_option (snd \<circ> snd) (mpack_expect_array_max_or_nil env a1 a2 r)"
| "compound_op_step env (E_array_alloc a1 a2 a3 a4) r = map_option (snd \<circ> snd) (mpack_expect_array_alloc_impl env a1 a2 a3 a4 r)"

fun bytes_op_step :: "reader_env \<Rightarrow> c_bytes_op \<Rightarrow> ffi_reader \<Rightarrow> ffi_reader option" where
  "bytes_op_step env E_str r = map_option snd (mpack_expect_str env r)"
| "bytes_op_step env (E_str_buf a1 a2) r = map_option (snd \<circ> snd) (mpack_expect_str_buf env a1 a2 r)"
| "bytes_op_step env (E_utf8 a1 a2) r = map_option (snd \<circ> snd) (mpack_expect_utf8 env a1 a2 r)"
| "bytes_op_step env (E_str_match a1 a2) r = mpack_expect_str_match env a1 a2 r"
| "bytes_op_step env (E_cstr a1 a2) r = map_option snd (mpack_expect_cstr env a1 a2 r)"
| "bytes_op_step env (E_utf8_cstr a1 a2) r = map_option snd (mpack_expect_utf8_cstr env a1 a2 r)"
| "bytes_op_step env (E_cstr_alloc a1) r = map_option snd (mpack_expect_cstr_alloc env a1 r)"
| "bytes_op_step env (E_utf8_cstr_alloc a1) r = map_option snd (mpack_expect_utf8_cstr_alloc env a1 r)"
| "bytes_op_step env E_bin r = map_option snd (mpack_expect_bin env r)"
| "bytes_op_step env (E_bin_buf a1 a2) r = map_option (snd \<circ> snd) (mpack_expect_bin_buf env a1 a2 r)"
| "bytes_op_step env (E_bin_size_buf a1 a2) r = map_option snd (mpack_expect_bin_size_buf env a1 a2 r)"
| "bytes_op_step env (E_bin_alloc a1 a2) r = map_option (snd \<circ> snd) (mpack_expect_bin_alloc env a1 a2 r)"
| "bytes_op_step env (E_ext a1) r = map_option (snd \<circ> snd) (mpack_expect_ext env a1 r)"
| "bytes_op_step env (E_ext_buf a1 a2 a3) r = map_option (snd \<circ> snd \<circ> snd) (mpack_expect_ext_buf env a1 a2 a3 r)"
| "bytes_op_step env (E_ext_alloc a1 a2 a3) r = map_option (snd \<circ> snd \<circ> snd) (mpack_expect_ext_alloc env a1 a2 a3 r)"
| "bytes_op_step env (E_tag a1) r = mpack_expect_tag env a1 r"
| "bytes_op_step env (E_key_uint a1 a2) r = map_option (snd \<circ> snd) (mpack_expect_key_uint env a1 a2 r)"
| "bytes_op_step env (E_key_cstr a1 a2 a3) r = map_option (snd \<circ> snd) (mpack_expect_key_cstr env a1 a2 a3 r)"

fun c_expect_step :: "reader_env \<Rightarrow> c_expect_op \<Rightarrow> ffi_reader \<Rightarrow> ffi_reader option" where
  "c_expect_step env (E_number op) r = number_op_step env op r"
| "c_expect_step env (E_compound op) r = compound_op_step env op r"
| "c_expect_step env (E_bytes op) r = bytes_op_step env op r"

fun bytes_op_ok :: "c_bytes_op \<Rightarrow> bool" where
  "bytes_op_ok E_str \<longleftrightarrow> True"
| "bytes_op_ok (E_str_buf a1 a2) \<longleftrightarrow> buffer_arg a1 a2"
| "bytes_op_ok (E_utf8 a1 a2) \<longleftrightarrow> a1 \<noteq> None \<and> buffer_arg a1 a2"
| "bytes_op_ok (E_str_match a1 a2) \<longleftrightarrow> buffer_arg a1 a2"
| "bytes_op_ok (E_cstr a1 a2) \<longleftrightarrow> buffer_arg a1 a2"
| "bytes_op_ok (E_utf8_cstr a1 a2) \<longleftrightarrow> buffer_arg a1 a2"
| "bytes_op_ok (E_cstr_alloc a1) \<longleftrightarrow> True"
| "bytes_op_ok (E_utf8_cstr_alloc a1) \<longleftrightarrow> True"
| "bytes_op_ok E_bin \<longleftrightarrow> True"
| "bytes_op_ok (E_bin_buf a1 a2) \<longleftrightarrow> buffer_arg a1 a2"
| "bytes_op_ok (E_bin_size_buf a1 a2) \<longleftrightarrow> buffer_arg a1 (unat a2)"
| "bytes_op_ok (E_bin_alloc a1 a2) \<longleftrightarrow> True"
| "bytes_op_ok (E_ext a1) \<longleftrightarrow> True"
| "bytes_op_ok (E_ext_buf a1 a2 a3) \<longleftrightarrow> buffer_arg a2 a3"
| "bytes_op_ok (E_ext_alloc a1 a2 a3) \<longleftrightarrow> True"
| "bytes_op_ok (E_tag a1) \<longleftrightarrow> True"
| "bytes_op_ok (E_key_uint a1 a2) \<longleftrightarrow> flags_arg a1 a2"
| "bytes_op_ok (E_key_cstr a1 a2 a3) \<longleftrightarrow> keys_arg a1 a3 \<and> flags_arg a2 a3"

fun expect_op_ok :: "c_expect_op \<Rightarrow> bool" where
  "expect_op_ok (E_bytes op) \<longleftrightarrow> bytes_op_ok op"
| "expect_op_ok (E_number _) \<longleftrightarrow> True"
| "expect_op_ok (E_compound _) \<longleftrightarrow> True"

inductive c_program_reachable :: "reader_env \<Rightarrow> ffi_reader \<Rightarrow> bool" for env where
  reader_only: "c_reader_reachable env r \<Longrightarrow> c_program_reachable env r"
| reader_call: "c_program_reachable env r \<Longrightarrow> op_ok op \<Longrightarrow> c_reader_step env op r = Some r' \<Longrightarrow>
    c_program_reachable env r'"
| expect_call: "c_program_reachable env r \<Longrightarrow> expect_op_ok op \<Longrightarrow> c_expect_step env op r = Some r' \<Longrightarrow>
    c_program_reachable env r'"

lemma returns_reader:
  "returns (\<lambda>(x, r'). safe_at b r') res \<Longrightarrow> returns (safe_at b) (map_option snd res)"
  "returns (\<lambda>(x, y, r'). safe_at b r') res' \<Longrightarrow> returns (safe_at b) (map_option (snd \<circ> snd) res')"
  "returns (\<lambda>(x, y, z, r'). safe_at b r') res'' \<Longrightarrow> returns (safe_at b) (map_option (snd \<circ> snd \<circ> snd) res'')"
  by (auto simp: returns_def)

lemma or_nil_at:
  assumes "sane_env env" and "acts op" and "safe_at b r"
  shows "returns (\<lambda>(x, c, r'). safe_at b r') (compound_or_nil_open env ty out op r)"
  using compound_or_nil_at [OF assms] by (rule returns_weaken) auto

lemmas expect_call_defs = mpack_expect_u8_def mpack_expect_u16_def mpack_expect_u32_def mpack_expect_u64_def
  mpack_expect_i8_def mpack_expect_i16_def mpack_expect_i32_def mpack_expect_i64_def
  mpack_expect_u8_range_def mpack_expect_u16_range_def mpack_expect_u32_range_def mpack_expect_u64_range_def
  mpack_expect_i8_range_def mpack_expect_i16_range_def mpack_expect_i32_range_def mpack_expect_i64_range_def
  mpack_expect_float_def mpack_expect_double_def mpack_expect_float_strict_def mpack_expect_double_strict_def
  mpack_expect_float_range_def mpack_expect_double_range_def
  mpack_expect_uint_match_def mpack_expect_int_match_def mpack_expect_nil_def mpack_expect_true_def
  mpack_expect_false_def mpack_expect_bool_def mpack_expect_timestamp_truncate_def
  mpack_expect_map_def mpack_expect_array_def mpack_expect_map_or_nil_def mpack_expect_array_or_nil_def
  mpack_expect_map_max_or_nil_def mpack_expect_array_max_or_nil_def expect_array_max_or_nil_impl_def
  mpack_expect_str_def mpack_expect_bin_def mpack_expect_cstr_alloc_def mpack_expect_utf8_cstr_alloc_def

lemma timestamp_at:
  assumes "sane_env env" and "safe_at b r"
  shows "returns (\<lambda>(x, r'). safe_at b r') (mpack_expect_timestamp env r)"
  using expect_option_at [OF assms(1) core_acts(24) assms(2), of timestamp_zero]
  by (simp add: mpack_expect_timestamp_def expect_option_def)

lemma counted_at:
  assumes env: "sane_env env" and r: "safe_at b r"
  shows "returns (\<lambda>(n, r'). safe_at b r') (mpack_expect_map_range env lo hi r)"
    and "returns (\<lambda>(n, r'). safe_at b r') (mpack_expect_array_range env lo hi r)"
    and "returns (safe_at b) (mpack_expect_map_match env n r)"
    and "returns (safe_at b) (mpack_expect_array_match env n r)"
  using compound_range_at [OF env core_acts(27) r] compound_range_at [OF env core_acts(31) r]
    compound_match_at [OF env core_acts(42) r] compound_match_at [OF env core_acts(43) r] r
  by (simp_all add: mpack_expect_map_range_def mpack_expect_array_range_def mpack_expect_map_match_def
      mpack_expect_array_match_def)


lemma number_op_at:
  assumes env: "sane_env env" and r: "safe_at b r"
  shows "returns (safe_at b) (number_op_step env op r)"
  by (cases op) (simp_all only: number_op_step.simps,
    (simp add: returns_reader(1) expect_call_defs expect_option_at [OF env _ r] expect_void_at [OF env _ r]
      expect_range_at [OF env _ r] core_acts)+)

lemma compound_op_at:
  assumes env: "sane_env env" and r: "safe_at b r"
  shows "returns (safe_at b) (compound_op_step env op r)"
  by (cases op) (simp_all only: compound_op_step.simps,
    (simp add: returns_reader(1,2) expect_call_defs expect_option_at [OF env _ r] expect_void_at [OF env _ r]
      compound_open_at [OF env _ r] or_nil_at [OF env _ r] core_acts timestamp_at [OF env r]
      counted_at [OF env r] array_alloc_at [OF env r])+)

lemma bytes_op_at:
  assumes env: "sane_env env" and r: "safe_at b r" and op: "bytes_op_ok op"
  shows "returns (safe_at b) (bytes_op_step env op r)"
  using op
  by (cases op) (simp_all only: bytes_op_step.simps bytes_op_ok.simps,
    (simp add: returns_reader expect_call_defs str_at [OF env r] bin_at [OF env r] str_buf_at [OF env r]
      utf8_buf_at [OF env r] str_match_at [OF env r] cstr_calls_at [OF env r] cstr_alloc_at [OF env r]
      bin_size_buf_at [OF env r] bin_alloc_at [OF env r] ext_at [OF env r] ext_buf_at [OF env r] ext_alloc_at [OF env r]
      tag_at [OF env r] key_uint_at [OF env r] key_cstr_at [OF env r])+)

lemma c_expect_step_at:
  assumes "sane_env env" and "safe_at b r" and "expect_op_ok op"
  shows "returns (safe_at b) (c_expect_step env op r)"
  using assms number_op_at compound_op_at bytes_op_at by (cases op) simp_all

lemma program_reachable_safe:
  assumes env: "sane_env env"
  shows "c_program_reachable env r \<Longrightarrow> mem_safe r"
proof (induction rule: c_program_reachable.induct)
  case (reader_only r)
  then show ?case
    by (rule reachable_safe [OF env])
next
  case (reader_call r op r')
  with c_reader_step_safe [OF env reader_call.IH reader_call.hyps(2)] show ?case
    by simp
next
  case (expect_call r op r')
  with c_expect_step_at [OF env _ expect_call.hyps(2), of "left_over r" r] show ?case
    by (simp add: safe_at_def)
qed

text \<open>C15. Any C program that mixes reader and expect calls on any bytes: from any initialisation, no call reads or
  writes outside the buffers it was given or the reader's own memory, uses a null pointer or an unwritten slot of
  the tracker, or fails to return, and no call makes the input longer; destroying the reader is safe at any
  time.\<close>

theorem c_expect_memory_safe:
  assumes "sane_env env" and "c_program_reachable env r" and "expect_op_ok op" and "op_ok rop"
  shows "(\<exists>r'. c_expect_step env op r = Some r' \<and> left_over r' \<le> left_over r)
    \<and> (\<exists>r'. c_reader_step env rop r = Some r' \<and> left_over r' \<le> left_over r)
    \<and> mpack_reader_destroy env r \<noteq> None"
proof -
  note r = program_reachable_safe [OF assms(1,2)]
  have "returns (safe_at (left_over r)) (c_expect_step env op r)"
    by (rule c_expect_step_at [OF assms(1) _ assms(3)]) (use r in \<open>simp add: safe_at_def\<close>)
  with c_reader_step_safe [OF assms(1) r assms(4)] destroy_safe [OF r] show ?thesis
    by (auto simp: returns_def safe_at_def elim: movesE)
qed

theorem c_expect_memory_safe_witness:
  "\<exists>r r'. r = mpack_reader_init_stdfile plain_env (Some \<lparr>cs_rest = [0xc7, 0x0c, 0xff], cs_eof = False\<rparr>) True
    \<and> c_expect_step plain_env (E_bytes (E_ext_buf None (Some [0, 0]) 2)) r = Some r'"
proof -
  have "c_program_reachable plain_env (mpack_reader_init_stdfile plain_env (Some \<lparr>cs_rest = [0xc7, 0x0c, 0xff], cs_eof = False\<rparr>) True)"
    by (intro reader_only from_stdfile)
  from c_expect_memory_safe [OF plain_sane this, of "E_bytes (E_ext_buf None (Some [0, 0]) 2)" R_read_tag] show ?thesis
    by (auto simp: buffer_arg_def)
qed

end
