(* ===== verification/Ffi_Expect_Theorems.thy ===== *)
theory Ffi_Expect_Theorems
  imports Ffi_Expect_Values Ffi_Expect_Safe_Api Ffi_Reader_Theorems Expect_Theorems
begin

section \<open>Properties of the C expect functions\<close>

subsection \<open>Integers\<close>

text \<open>The reader after a number: right behind it with the element counted, or stopped by the type error.\<close>

definition number_done :: "write_tracker \<Rightarrow> u8 list \<Rightarrow> bool \<Rightarrow> ffi_reader \<Rightarrow> bool" where
  "number_done st after accepted r \<longleftrightarrow>
     (if accepted then tracked_reader (Some User_Fill) None some_context st r \<and> input stream_rest r = after
      else fr_error r = MPACK_ERROR_TYPE)"

lemma number_read:
  assumes "delivering env" and "tracked_reader (Some User_Fill) None some_context st r" and "wt_element st = (Inr (), st')"
    and "header hs t" and "input stream_rest r = hs @ after" and "tracks_up_to env d" and "length st \<le> d"
    and "sel t = (if P then Some v else None)"
  shows "\<exists>r'. expect_option env zero (select_read read_tag sel) r = Some (if P then v else zero, r') \<and> number_done st' after P r'"
proof (cases P)
  case True
  with assms(8) have "yields (select_read read_tag sel) hs v"
    by (intro select_yields [OF assms(4)]) simp
  then obtain r' where "expect_option env zero (select_read read_tag sel) r = Some (v, r')"
      "tracked_reader (Some User_Fill) None some_context st' r'" "input stream_rest r' = after"
    by (rule callback_source.scalar_ok [where env = env, unfolded callback_env(2) [OF assms(1)], OF assms(2-7)])
  with True show ?thesis
    by (simp add: number_done_def)
next
  case False
  with assms(8) have "refuses (select_read read_tag sel) hs"
    by (intro select_refuses [OF assms(4)]) simp
  then obtain r' where "expect_option env zero (select_read read_tag sel) r = Some (zero, r')" "fr_error r' = MPACK_ERROR_TYPE"
    by (rule callback_source.scalar_mismatch [where env = env, unfolded callback_env(2) [OF assms(1)], OF assms(2-7)])
  with False show ?thesis
    by (simp add: number_done_def)
qed

lemmas mpack_integers = mpack_expect_u8_def mpack_expect_u16_def mpack_expect_u32_def mpack_expect_u64_def
  mpack_expect_i8_def mpack_expect_i16_def mpack_expect_i32_def mpack_expect_i64_def
  expect_u8_def expect_u16_def expect_u32_def expect_u64_def expect_i8_def expect_i16_def expect_i32_def expect_i64_def
  expect_integer_select

text \<open>C16. The C integer functions work on the value, through any fill callback and wherever the reader stands in nested
  compounds: an integer in any of its encodings is accepted exactly when it is representable in the requested
  type; then its value is returned, the reader is right behind it, and the tracker has counted one element. Otherwise
  the result is zero and the error is \<open>Type\<close>.\<close>

theorem c_expect_integers_by_value:
  assumes "delivering env" and "tracked_reader (Some User_Fill) None some_context st r" and "wt_element st = (Inr (), st')"
    and "header hs t" and "input stream_rest r = hs @ after" and "tracks_up_to env d" and "length st \<le> d"
    and "tag_integer t = Some k"
  shows "(\<exists>r'. mpack_expect_u8 env r = Some (if 0 \<le> k \<and> k < 2 ^ 8 then word_of_int k else 0, r')
        \<and> number_done st' after (0 \<le> k \<and> k < 2 ^ 8) r')
    \<and> (\<exists>r'. mpack_expect_u16 env r = Some (if 0 \<le> k \<and> k < 2 ^ 16 then word_of_int k else 0, r')
        \<and> number_done st' after (0 \<le> k \<and> k < 2 ^ 16) r')
    \<and> (\<exists>r'. mpack_expect_u32 env r = Some (if 0 \<le> k \<and> k < 2 ^ 32 then word_of_int k else 0, r')
        \<and> number_done st' after (0 \<le> k \<and> k < 2 ^ 32) r')
    \<and> (\<exists>r'. mpack_expect_u64 env r = Some (if 0 \<le> k \<and> k < 2 ^ 64 then word_of_int k else 0, r')
        \<and> number_done st' after (0 \<le> k \<and> k < 2 ^ 64) r')
    \<and> (\<exists>r'. mpack_expect_i8 env r = Some (if - (2 ^ 7) \<le> k \<and> k < 2 ^ 7 then word_of_int k else 0, r')
        \<and> number_done st' after (- (2 ^ 7) \<le> k \<and> k < 2 ^ 7) r')
    \<and> (\<exists>r'. mpack_expect_i16 env r = Some (if - (2 ^ 15) \<le> k \<and> k < 2 ^ 15 then word_of_int k else 0, r')
        \<and> number_done st' after (- (2 ^ 15) \<le> k \<and> k < 2 ^ 15) r')
    \<and> (\<exists>r'. mpack_expect_i32 env r = Some (if - (2 ^ 31) \<le> k \<and> k < 2 ^ 31 then word_of_int k else 0, r')
        \<and> number_done st' after (- (2 ^ 31) \<le> k \<and> k < 2 ^ 31) r')
    \<and> (\<exists>r'. mpack_expect_i64 env r = Some (if - (2 ^ 63) \<le> k \<and> k < 2 ^ 63 then word_of_int k else 0, r')
        \<and> number_done st' after (- (2 ^ 63) \<le> k \<and> k < 2 ^ 63) r')"
proof -
  note u = select_uint_integer [OF assms(8)] and i = select_int_integer [OF assms(8)]
  show ?thesis
    unfolding mpack_integers
    using number_read [OF assms(1-7), of "and_select fits_uint tag_u64", OF u [where 'a = 8, simplified], of 0]
      number_read [OF assms(1-7), of "and_select fits_uint tag_u64", OF u [where 'a = 16, simplified], of 0]
      number_read [OF assms(1-7), of "and_select fits_uint tag_u64", OF u [where 'a = 32, simplified], of 0]
      number_read [OF assms(1-7), of "and_select fits_uint tag_u64", OF u [where 'a = 64, simplified], of 0]
      number_read [OF assms(1-7), of "and_select fits_int tag_i64", OF i [where 'a = 8, simplified], of 0]
      number_read [OF assms(1-7), of "and_select fits_int tag_i64", OF i [where 'a = 16, simplified], of 0]
      number_read [OF assms(1-7), of "and_select fits_int tag_i64", OF i [where 'a = 32, simplified], of 0]
      number_read [OF assms(1-7), of "and_select fits_int tag_i64", OF i [where 'a = 64, simplified], of 0]
    by simp
qed

text \<open>A reader over a callback that delivers these bytes, with a buffer of 40 bytes, at the top level.\<close>

definition sample_reader :: "u8 list \<Rightarrow> ffi_reader" where
  "sample_reader bs = callback_reader plain_env (replicate 40 7) 40 \<lparr>cs_rest = bs, cs_eof = False\<rparr>"

lemma sample_reader:
  "tracked_reader (Some User_Fill) None some_context [] (sample_reader bs)" "input stream_rest (sample_reader bs) = bs"
  "tracks_up_to plain_env 10" "fr_size (sample_reader bs) = 40"
proof -
  show env: "tracks_up_to plain_env 10"
    by (simp add: tracks_plain)
  have "32 \<le> (40 :: nat)" "40 \<le> length (replicate 40 (7 :: u8))"
    by simp_all
  from start_callback [OF env no_force_plain this, of "\<lparr>cs_rest = bs, cs_eof = False\<rparr>"]
  show "tracked_reader (Some User_Fill) None some_context [] (sample_reader bs)" "input stream_rest (sample_reader bs) = bs"
    by (simp_all add: sample_reader_def callback_reader_def)
  show "fr_size (sample_reader bs) = 40"
    by (simp add: sample_reader_def callback_reader_def mpack_reader_init_def mpack_reader_set_fill_def
        READER_MINIMUM_BUFFER_SIZE_def reader_track_init_def plain_env_def Let_def split: prod.splits)
qed

theorem c_expect_integers_by_value_witness:
  "(\<exists>r. mpack_expect_u16 plain_env (sample_reader [0xd1, 1, 0, 9]) = Some (256, r) \<and> input stream_rest r = [9])
   \<and> (\<exists>r. mpack_expect_i8 plain_env (sample_reader [0xd1, 1, 0, 9]) = Some (0, r) \<and> fr_error r = MPACK_ERROR_TYPE)"
proof -
  have "to_be_bytes (256 :: i16) = [1, 0]"
    by code_simp
  then have h: "header [0xd1, 1, 0] (Tag_Int (scast (256 :: i16)))"
    using int16 [of 256] by simp
  have k: "tag_integer (Tag_Int (scast (256 :: i16))) = Some 256"
    by (simp add: tag_integer_def)
  have i: "input stream_rest (sample_reader [0xd1, 1, 0, 9]) = [0xd1, 1, 0] @ [9]" "length ([] :: write_tracker) \<le> 10"
    by (simp_all add: sample_reader)
  from c_expect_integers_by_value [OF plain_env(2) sample_reader(1) wt_element_top h i(1) sample_reader(3) i(2) k]
  show ?thesis
    by (simp add: number_done_def) blast
qed

subsection \<open>Strings into a buffer\<close>

text \<open>C17. Through any fill callback, \<open>mpack_expect_str_buf\<close> on a string copies exactly its bytes to the front of the
  buffer, leaves the rest of the buffer alone, returns the length, and leaves the reader right behind the string with
  the string closed; a string longer than the buffer is the error \<open>TooBig\<close>, and the buffer is as it was.
  \<open>mpack_expect_utf8\<close> does the same, also closes the string, and ends with the error \<open>Type\<close> exactly when the string
  is not valid UTF-8.\<close>

theorem c_expect_str_into_buffer:
  assumes "delivering env" and "tracked_reader (Some User_Fill) None some_context st r" and "wt_element st = (Inr (), st')"
    and "header hs (Tag_Str n)" and "length pl = unat n" and "input stream_rest r = hs @ pl @ after"
    and "tracks_up_to env d" and "length st < d" and "bufsize \<le> length m"
  shows "if length pl \<le> bufsize
    then (\<exists>r'. mpack_expect_str_buf env (Some m) bufsize r = Some (length pl, Some (pl @ drop (length pl) m), r')
        \<and> tracked_reader (Some User_Fill) None some_context st' r' \<and> input stream_rest r' = after)
      \<and> (\<exists>r'. mpack_expect_utf8 env (Some m) bufsize r
          = Some (if check_utf8 pl then length pl else 0, Some (pl @ drop (length pl) m), r')
        \<and> fr_error r' = (if check_utf8 pl then MPACK_OK else MPACK_ERROR_TYPE) \<and> c_rep (fr_track r') st'
        \<and> (check_utf8 pl \<longrightarrow> tracked_reader (Some User_Fill) None some_context st' r' \<and> input stream_rest r' = after))
    else (\<exists>r'. mpack_expect_str_buf env (Some m) bufsize r = Some (0, Some m, r') \<and> fr_error r' = MPACK_ERROR_TOO_BIG)
      \<and> (\<exists>r'. mpack_expect_utf8 env (Some m) bufsize r = Some (0, Some m, r') \<and> fr_error r' = MPACK_ERROR_TOO_BIG)"
proof -
  have depth: "length st \<le> d" "length st' < d"
    using assms(3,8) by (auto simp: wt_element_def split: list.splits if_splits)
  obtain r1 where r1: "expect_str_impl env r = Some (n, r1)"
      "tracked_reader (Some User_Fill) None some_context (\<lparr>te_kind = Kind_Str, te_left = unat n\<rparr> # st') r1"
      "input stream_rest r1 = pl @ after"
    by (rule callback_source.string_open [where env = env, unfolded callback_env(2) [OF assms(1)],
          OF assms(2-4,6,7) depth(1)])
  show ?thesis
  proof (cases "length pl \<le> bufsize")
    case True
    have n: "unat n \<le> bufsize" "is_payload Kind_Str"
      using True assms(5) by (simp_all add: is_payload_def)
    obtain r2 where r2: "read_into_buf env (kind_code Kind_Str) (Some m) bufsize (unat n) r1
          = Some (True, Some (pl @ drop (unat n) m), r2)"
        "tracked_reader (Some User_Fill) None some_context st' r2" "input stream_rest r2 = after"
      by (rule callback_source.into_buf_ok [where env = env, unfolded callback_env(2) [OF assms(1)],
            OF r1(2) n(2) r1(3) assms(5) n(1) assms(9,7) depth(2)])
    have "peek_bytes (Some (pl @ drop (unat n) m)) (unat n) = Some pl"
      using assms(5) by (simp add: peek_bytes_def slice_def)
    moreover have "fr_error r2 = MPACK_OK"
      using liveD(1) [OF tracked_live [OF r2(2)]] .
    moreover have "c_rep (fr_track r2) st'" "fr_track (flag_error_on MPACK_ERROR_TYPE r2) = fr_track r2"
      using r2(2) by (simp_all add: tracked_reader_def flag_fields)
    ultimately show ?thesis
      using True r1(1) r2 assms(5) by (simp add: mpack_expect_str_buf_def mpack_expect_utf8_def)
  next
    case False
    then have "bufsize < unat n"
      using assms(5) by simp
    note large = into_buf_large [OF r1(2) this]
    with False r1(1) show ?thesis
      by (simp add: mpack_expect_str_buf_def mpack_expect_utf8_def)
  qed
qed

theorem c_expect_str_into_buffer_witness:
  "(\<exists>r. mpack_expect_str_buf plain_env (Some [1, 2, 3, 4]) 3 (sample_reader [0xa2, 0xff, 65, 0xc0]) = Some (2, Some [0xff, 65, 3, 4], r)
      \<and> input stream_rest r = [0xc0])
   \<and> (\<exists>r. mpack_expect_utf8 plain_env (Some [1, 2, 3, 4]) 3 (sample_reader [0xa2, 0xff, 65, 0xc0]) = Some (0, Some [0xff, 65, 3, 4], r)
      \<and> fr_error r = MPACK_ERROR_TYPE)"
proof -
  have h: "header [0xa2] (Tag_Str 2)"
    using fixstr [of 2] by simp
  have i: "input stream_rest (sample_reader [0xa2, 0xff, 65, 0xc0]) = [0xa2] @ [0xff, 65] @ [0xc0]"
      "length ([] :: write_tracker) < 10" "length [0xff, 65 :: u8] = unat (2 :: u32)" "3 \<le> length [1, 2, 3, 4 :: u8]"
    by (simp_all add: sample_reader)
  have "\<not> check_utf8 [0xff, 65]"
    by code_simp
  with c_expect_str_into_buffer [OF plain_env(2) sample_reader(1) wt_element_top h i(3,1) sample_reader(3) i(2,4)]
  show ?thesis
    by auto
qed

text \<open>With a null buffer, which the header file allows for a string of no bytes, \<open>mpack_expect_utf8\<close> makes a slice from
  the null pointer.\<close>

lemma utf8_null_buffer_undefined:
  assumes "delivering env" and "tracked_reader (Some User_Fill) None some_context st r" and "wt_element st = (Inr (), st')"
    and "header hs (Tag_Str 0)" and "input stream_rest r = hs @ after" and "tracks_up_to env d" and "length st < d"
  shows "mpack_expect_utf8 env None bufsize r = None"
proof -
  have depth: "length st \<le> d" "length st' < d"
    using assms(3,7) by (auto simp: wt_element_def split: list.splits if_splits)
  obtain r1 where r1: "expect_str_impl env r = Some (0, r1)"
      "tracked_reader (Some User_Fill) None some_context (\<lparr>te_kind = Kind_Str, te_left = unat (0 :: u32)\<rparr> # st') r1"
    by (rule callback_source.string_open [where env = env, unfolded callback_env(2) [OF assms(1)],
          OF assms(2-6) depth(1)])
  have l: "live (Some User_Fill) None some_context r1" "c_rep (fr_track r1) (\<lparr>te_kind = Kind_Str, te_left = 0\<rparr> # st')"
    using r1(2) by (simp_all add: tracked_reader_def)
  have k: "is_payload Kind_Str"
    by (simp add: is_payload_def)
  obtain t' where t': "track_call (Ffi_Track.track_bytes 0) r1 = Some (True, r1\<lparr>fr_track := t'\<rparr>)"
      "c_rep t' (\<lparr>te_kind = Kind_Str, te_left = 0\<rparr> # st')"
    by (rule bytes_tracked [OF l(2) k assms(6) depth(2)])
  let ?r2 = "r1\<lparr>fr_track := t'\<rparr>"
  have rep: "c_rep (fr_track ?r2) (\<lparr>te_kind = Kind_Str, te_left = 0\<rparr> # st')" and ok: "fr_error ?r2 = MPACK_OK"
    using t'(2) liveD(1) [OF l(1)] by simp_all
  obtain t'' where "done_type_impl (kind_code Kind_Str) ?r2 = Some (?r2\<lparr>fr_track := t''\<rparr>)"
    by (rule done_tracked [OF rep ok assms(6) depth(2)])
  with r1(1) t'(1) liveD(1) [OF l(1)] show ?thesis
    by (simp add: mpack_expect_utf8_def read_into_buf_def mpack_read_bytes_def track_bytes_first_def read_native_def
        peek_bytes_def)
qed

subsection \<open>Keys\<close>

lemma terminated_keys:
  assumes "\<forall>k\<in>set ks. 0 \<notin> set k \<and> str_from_utf8 k"
  shows "key_cstr_table (Some (map (\<lambda>k. Some (k @ [0])) ks)) (length ks) = Some (Some ks)"
proof -
  have one: "takeWhile (\<lambda>b. b \<noteq> 0) (k @ [0]) = k" if "k \<in> set ks" for k :: "u8 list"
  proof -
    have "\<forall>b\<in>set k. b \<noteq> 0"
      using assms that by auto
    then show ?thesis
      by (simp add: takeWhile_append2)
  qed
  have "key_table_loop (map (\<lambda>k. Some (k @ [0])) ks) i n out = Some (Some (out @ drop i ks))" if "i + n = length ks" for i n out
    using that
  proof (induction n arbitrary: i out)
    case (Suc n)
    then have "i < length ks"
      by simp
    moreover from this have "drop i ks = ks ! i # drop (Suc i) ks"
      by (rule Cons_nth_drop_Suc [symmetric])
    ultimately show ?case
      using Suc.IH [of "Suc i"] Suc.prems one assms by (simp add: index_def cstr_bytes_def)
  qed simp
  from this [of 0 "length ks" "[]"] show ?thesis
    by (auto simp: key_cstr_table_def)
qed

text \<open>C18. \<open>mpack_expect_key_cstr\<close> with a table of terminated UTF-8 keys, through any fill callback: on a string it
  returns the index of the first equal key and sets its flag, on any other string or any value that is not a
  string, however deeply nested, it returns the number of keys and changes no flag; in both cases the reader is right
  behind the whole key, with one element counted. A key whose flag is set already is the error \<open>Invalid\<close>.\<close>

theorem c_expect_key_cstr_finds:
  assumes "delivering env" and "tracked_reader (Some User_Fill) None some_context st r" and "wt_element st = (Inr (), st')"
    and "value_bytes bs v" and "input stream_rest r = bs @ after" and "length bs \<le> fr_size r"
    and "tracks_up_to env d" and "length st + height v \<le> d"
    and "\<forall>k\<in>set ks. 0 \<notin> set k \<and> str_from_utf8 k" and "length flags = length ks"
  shows "\<exists>r'. mpack_expect_key_cstr env (Some (map (\<lambda>k. Some (k @ [0])) ks)) (Some flags) (length ks) r =
      Some (case key_of v ks of
          None \<Rightarrow> (length ks, Some flags, r')
        | Some i \<Rightarrow> if flags ! i then (length ks, Some flags, flag_error_on MPACK_ERROR_INVALID r')
            else (i, Some (flags[i := True]), r'))
    \<and> tracked_reader (Some User_Fill) None some_context st' r' \<and> input stream_rest r' = after"
proof -
  have fs: "found_slice (Some flags) (length ks) = Some (Some flags)"
    using assms(10) by (auto simp: found_slice_def slice_def)
  have f: "Some User_Fill \<noteq> None"
    by simp
  note key = callback_source.key_cstr_ok [where env = env, unfolded callback_env(2) [OF assms(1)],
      OF assms(4,2,3,5,7,8) terminated_keys [OF assms(9)] refl fs assms(10) f assms(6)]
  from key obtain r' where r': "mpack_expect_key_cstr env (Some (map (\<lambda>k. Some (k @ [0])) ks)) (Some flags) (length ks) r =
      Some (key_outcome (length ks) (Some flags) flags (key_of v ks) r')"
    "tracked_reader (Some User_Fill) None some_context st' r'" "input stream_rest r' = after"
    by blast
  then show ?thesis
    by (intro exI [of _ r']) (simp add: key_outcome_def set_found_def split: option.split)
qed

theorem c_expect_key_cstr_finds_witness:
  "\<exists>r. mpack_expect_key_cstr plain_env (Some [Some [65, 0], Some [66, 67, 0]]) (Some [True, False]) 2 (sample_reader [0xa2, 66, 67, 1])
     = Some (1, Some [True, True], r) \<and> input stream_rest r = [1]"
proof -
  have "header [0xa2] (Tag_Str 2)"
    using fixstr [of 2] by simp
  then have "value_bytes ([0xa2] @ [66, 67] @ []) (MValue (Tag_Str 2) [66, 67] [])"
    by (intro one_value) simp_all
  then have v: "value_bytes [0xa2, 66, 67] (MValue (Tag_Str 2) [66, 67] [])"
    by simp
  have i: "input stream_rest (sample_reader [0xa2, 66, 67, 1]) = [0xa2, 66, 67] @ [1]"
      "length [0xa2, 66, 67 :: u8] \<le> fr_size (sample_reader [0xa2, 66, 67, 1])"
      "length ([] :: write_tracker) + height (MValue (Tag_Str 2) [66, 67] []) \<le> 10"
    by (simp_all add: sample_reader height.simps)
  have "str_from_utf8 [65]" "str_from_utf8 [66, 67]"
    by code_simp+
  then have k: "\<forall>k\<in>set [[65], [66, 67 :: u8]]. 0 \<notin> set k \<and> str_from_utf8 k" "length [True, False] = length [[65], [66, 67 :: u8]]"
    by simp_all
  from c_expect_key_cstr_finds [OF plain_env(2) sample_reader(1) wt_element_top v i(1,2) sample_reader(3) i(3) k]
  show ?thesis
    by (auto simp: key_of_def first_key_def numeral_2_eq_2)
qed

subsection \<open>Timestamps\<close>

definition sample_state :: "ffi_track \<Rightarrow> u8 list \<Rightarrow> ffi_reader" where
  "sample_state t bs = empty_reader\<lparr>fr_window := Some (replicate 40 7), fr_has_buffer := True, fr_size := 40, fr_data := 0,
     fr_end := 0, fr_track := t, fr_fill := Some User_Fill, fr_context := Some \<lparr>cs_rest = bs, cs_eof = False\<rparr>\<rparr>"

lemma sample_form:
  obtains t where "sample_reader bs = sample_state t bs" and "c_rep t []"
proof -
  have "tracks_up_to plain_env 10"
    by (simp add: tracks_plain)
  from reader_tracked [OF this no_force_plain] obtain t where "reader_track_init plain_env
      (empty_reader\<lparr>fr_window := Some (replicate 40 7), fr_has_buffer := True, fr_size := 40, fr_data := 0, fr_end := 0\<rparr>)
    = empty_reader\<lparr>fr_window := Some (replicate 40 7), fr_has_buffer := True, fr_size := 40, fr_data := 0, fr_end := 0, fr_track := t\<rparr>"
    "c_rep t []" .
  then show thesis
    by (intro that [of t]) (simp_all add: sample_reader_def sample_state_def callback_reader_def mpack_reader_init_def
        mpack_reader_set_fill_def READER_MINIMUM_BUFFER_SIZE_def)
qed

lemma trickles: "call_fill plain_env User_Fill n r = (case fr_context r of None \<Rightarrow> Some (Some [], r)
       | Some s \<Rightarrow> Some (Some (take 1 (cs_rest s)), r\<lparr>fr_context := Some (s\<lparr>cs_rest := drop 1 (cs_rest s)\<rparr>)\<rparr>))"
  by (simp add: call_fill_def plain_env_def split: option.split)

lemma header_only:
  "\<exists>r'. ensure_tag_header plain_env (sample_state t [0xd6, 0xff, 0, 0, 0, 5]) = Some (True, r') \<and> ahead r' = [0xd6, 0xff]
    \<and> fr_error r' = MPACK_OK \<and> cursor_ok r'"
  by (simp add: sample_state_def empty_reader_def ensure_tag_header_def ensure_impl_def remaining_of_def ensure_straddle_impl_def
      fill_buffer_def fill_range_def fill_loop.simps trickles store_buffer_def store_at_def
      load_buffer_def Let_def index_def header_size_for_marker_def MAXIMUM_TAG_SIZE_def slice_def ahead_def cursor_ok_def)

text \<open>C19. \<open>mpack_expect_timestamp\<close> makes sure of the header only: whenever the whole payload of a timestamp is not in the
  window behind its header, it ends with the zero timestamp and the error \<open>Invalid\<close>, however valid the
  timestamp is and however much the fill callback could still deliver.\<close>

theorem c_timestamp_split_is_invalid:
  assumes "prepare_scalar env r = Some (True, r1)" and "fr_error r1 = MPACK_OK" and "cursor_ok r1"
    and "header hs (Tag_Ext timestamp_ext_type n)" and "ahead r1 = hs @ bs" and "length bs < unat n"
  shows "\<exists>r'. mpack_expect_timestamp env r = Some (timestamp_zero, r') \<and> fr_error r' = MPACK_ERROR_INVALID"
proof -
  let ?c = "reader_new (hs @ bs)"
  have "expect_ext ?c = Some (Some (timestamp_ext_type, n), advance (length hs) ?c)"
    using select_yields [OF assms(4), of tag_ext] by (simp add: expect_select yields_def)
  then have core: "expect_timestamp ?c = Some (None, flag_error Err_Invalid (advance (length hs) ?c))"
    using assms(6) by (auto simp: expect_timestamp_def read_timestamp_def require_def remaining_def advance_def reader_new_def)
  have "load_buffer (fr_data r1) (length (hs @ bs)) r1 = Some (hs @ bs)"
    using load_ahead [OF assms(3), of "length (ahead r1)"] assms(5) by simp
  with core assms(1,2,5) have "mpack_expect_timestamp env r
      = Some (timestamp_zero, flag_error_on MPACK_ERROR_INVALID (advance_cursor (length hs) r1))"
    by (simp add: mpack_expect_timestamp_def read_with_core_def remaining_ahead [OF assms(3)] unwrap_or_def flag_error_error)
  moreover have "fr_error (advance_cursor (length hs) r1) = MPACK_OK"
    using assms(2) by (simp add: advance_cursor_def)
  ultimately show ?thesis
    by (intro exI [of _ "flag_error_on MPACK_ERROR_INVALID (advance_cursor (length hs) r1)"]) simp
qed

theorem c_timestamp_split_is_invalid_witness:
  "\<exists>r. mpack_expect_timestamp plain_env (sample_reader [0xd6, 0xff, 0, 0, 0, 5]) = Some (timestamp_zero, r)
     \<and> fr_error r = MPACK_ERROR_INVALID"
proof -
  obtain t where t: "sample_reader [0xd6, 0xff, 0, 0, 0, 5] = sample_state t [0xd6, 0xff, 0, 0, 0, 5]" "c_rep t []"
    by (rule sample_form)
  have env: "tracks_up_to plain_env 10"
    by (simp add: tracks_plain)
  obtain t1 where t1: "c_run (re_malloc plain_env) Call_element t = Some (MPACK_OK, t1)"
    using c_run_ok [OF t(2) _ env, of Call_element] wt_element_top by auto
  obtain r1 where r1: "ensure_tag_header plain_env (sample_state t1 [0xd6, 0xff, 0, 0, 0, 5]) = Some (True, r1)"
      "ahead r1 = [0xd6, 0xff]" "fr_error r1 = MPACK_OK" "cursor_ok r1"
    using header_only by blast
  have "prepare_scalar plain_env (sample_reader [0xd6, 0xff, 0, 0, 0, 5]) = Some (True, r1)"
    using r1(1) t1 by (simp add: t(1) prepare_scalar_def track_element_or_flag_def track_call_def c_run_def)
      (simp add: sample_state_def empty_reader_def)
  moreover have "header [0xd6, 0xff] (Tag_Ext timestamp_ext_type 4)"
  proof -
    have "(- 1 :: i8) = 0xff"
      by simp
    then show ?thesis
      using fixext4 [of "0xff"] by (simp only: timestamp_ext_type_def)
  qed
  ultimately show ?thesis
    using c_timestamp_split_is_invalid [of plain_env _ r1 "[0xd6, 0xff]" 4 "[]"] r1(2-4) by simp
qed

end
