(* ===== verification/Ffi_Print.thy ===== *)
theory Ffi_Print
  imports Float_Conv Reader_Ops
begin

section \<open>Formatted text of the standard library\<close>

text \<open>
  The bytes \<open>write!\<close> appends to a \<open>Vec<u8>\<close>, for the formats the crate uses: string literals, \<open>{}\<close> of the
  integer types, \<open>{:02x}\<close> of a byte, and \<open>{:.6}\<close> of the float types, which prints the exact value
  rounded to six decimals, ties to even. Writing to a vector never fails.
\<close>

definition ascii :: "string \<Rightarrow> u8 list" where
  "ascii s = map of_char s"

fun digits :: "nat \<Rightarrow> u8 list" where
  "digits n = (if n < 10 then [] else digits (n div 10)) @ [word_of_nat (48 + n mod 10)]"

declare digits.simps [simp del]

definition show_u64 :: "u64 \<Rightarrow> u8 list" where
  "show_u64 v = digits (unat v)"

definition show_u32 :: "u32 \<Rightarrow> u8 list" where
  "show_u32 v = digits (unat v)"

definition show_int :: "int \<Rightarrow> u8 list" where
  "show_int i = (if i < 0 then ascii ''-'' else []) @ digits (nat \<bar>i\<bar>)"

definition hex_digit :: "nat \<Rightarrow> u8" where
  "hex_digit d = word_of_nat (if d < 10 then 48 + d else 87 + d)"

definition show_hex :: "u8 \<Rightarrow> u8 list" where
  "show_hex b = [hex_digit (unat b div 16), hex_digit (unat b mod 16)]"

text \<open>The value \<open>m * 2 ^ e\<close> in millionths.\<close>

definition millionths :: "nat \<Rightarrow> int \<Rightarrow> nat" where
  "millionths m e =
     (if 0 \<le> e then m * 2 ^ nat e * 10 ^ 6 else round_shift (m * 10 ^ 6) (nat (- e)))"

definition six_digits :: "nat \<Rightarrow> u8 list" where
  "six_digits n = (let ds = digits n in replicate (6 - length ds) 48 @ ds)"

definition show_fixed :: "bool \<Rightarrow> nat \<Rightarrow> u8 list" where
  "show_fixed negative n =
     (if negative then ascii ''-'' else []) @ digits (n div 10 ^ 6) @ ascii ''.'' @ six_digits (n mod 10 ^ 6)"

definition show_f64 :: "f64 \<Rightarrow> u8 list" where
  "show_f64 x =
     (if f64_is_nan x then ascii ''NaN''
      else if f64_exp x = 2047 then ascii (if f64_sign x then ''-inf'' else ''inf'')
      else show_fixed (f64_sign x) (millionths (f64_mant x) (f64_scale x)))"

definition show_f32 :: "f32 \<Rightarrow> u8 list" where
  "show_f32 x =
     (if f32_is_nan x then ascii ''NaN''
      else if f32_exp x = 255 then ascii (if f32_sign x then ''-inf'' else ''inf'')
      else show_fixed (f32_sign x) (millionths (f32_mant x) (f32_scale x)))"

subsection \<open>Reading the digits back\<close>

definition number_of :: "u8 list \<Rightarrow> nat" where
  "number_of ds = foldl (\<lambda>n d. 10 * n + (unat d - 48)) 0 ds"

lemma number_of_snoc [simp]: "number_of (ds @ [d]) = 10 * number_of ds + (unat d - 48)"
  by (simp add: number_of_def)

lemma unat_digit: "unat (word_of_nat (48 + n mod 10) :: u8) = 48 + n mod 10"
proof -
  have "48 + n mod 10 < 2 ^ LENGTH(8)"
    using mod_less_divisor [of 10 n] by simp
  then show ?thesis
    by (rule unat_of_nat_small)
qed

lemma number_of_digits: "number_of (digits n) = n"
proof (induction n rule: digits.induct)
  case (1 n)
  show ?case
  proof (cases "n < 10")
    case True
    have "number_of [word_of_nat (48 + n mod 10)] = n mod 10"
      by (simp only: number_of_def foldl.simps unat_digit)
    with True have "number_of (digits n) = n mod 10"
      by (subst digits.simps) simp
    with True show ?thesis
      by simp
  next
    case False
    then have "number_of (digits n) = 10 * (n div 10) + n mod 10"
      using 1 by (subst digits.simps) (simp only: if_False number_of_snoc unat_digit, simp)
    then show ?thesis
      by simp
  qed
qed

lemma digits_nonempty: "digits n \<noteq> []"
  by (subst digits.simps) simp

lemma digits_ascii: "\<forall>d\<in>set (digits n). 48 \<le> unat d \<and> unat d < 58"
proof (induction n rule: digits.induct)
  case (1 n)
  have "n mod 10 < 10"
    by simp
  with 1 show ?case
    by (subst digits.simps) (auto simp only: set_append list.set unat_digit Un_iff if_True if_False empty_iff insert_iff split: if_splits)
qed

lemma length_digits: "n < 10 ^ Suc k \<Longrightarrow> length (digits n) \<le> Suc k"
proof (induction k arbitrary: n)
  case 0
  then show ?case
    by (subst digits.simps) simp
next
  case (Suc k)
  then have "n div 10 < 10 ^ Suc k"
    by (simp add: less_mult_imp_div_less)
  with Suc.IH [of "n div 10"] show ?case
    by (subst digits.simps) simp
qed

lemma six_digits_length: "n < 10 ^ 6 \<Longrightarrow> length (six_digits n) = 6"
  using length_digits [of n 5] by (simp add: six_digits_def Let_def)

text \<open>The decimals are those of the nearest multiple of a millionth.\<close>

lemma nearest_arith:
  "q + r = m \<Longrightarrow> r < P \<Longrightarrow> P \<le> 2 * r \<Longrightarrow> 2 * (q + P) \<le> 2 * m + P \<and> 2 * m \<le> 2 * (q + P) + (P :: nat)"
  "q + r = m \<Longrightarrow> r < P \<Longrightarrow> 2 * r \<le> P \<Longrightarrow> 2 * q \<le> 2 * m + P \<and> 2 * m \<le> 2 * q + P"
  by auto

lemma round_shift_nearest:
  "2 * (round_shift m k * 2 ^ k) \<le> 2 * m + 2 ^ k \<and> 2 * m \<le> 2 * (round_shift m k * 2 ^ k) + 2 ^ k"
proof -
  let ?q = "m div 2 ^ k" and ?r = "m mod 2 ^ k"
  have m: "2 ^ k * ?q + ?r = m" and r: "?r < 2 ^ k"
    by (rule mult_div_mod_eq, simp)
  show ?thesis
  proof (cases "2 * ?r > 2 ^ k \<or> (2 * ?r = 2 ^ k \<and> odd ?q)")
    case True
    then have "round_shift m k = ?q + 1"
      by (simp add: round_shift_def Let_def)
    then have "round_shift m k * 2 ^ k = 2 ^ k * ?q + 2 ^ k"
      by (simp only:) (simp add: mult.commute)
    moreover have "2 ^ k \<le> 2 * ?r"
      using True by auto
    ultimately show ?thesis
      using nearest_arith(1) [OF m r] by (simp only:)
  next
    case False
    then have "round_shift m k = ?q"
      by (simp only: round_shift_def Let_def if_False)
    then have "round_shift m k * 2 ^ k = 2 ^ k * ?q"
      by (simp only: mult.commute)
    moreover have "2 * ?r \<le> 2 ^ k"
      using False by auto
    ultimately show ?thesis
      using nearest_arith(2) [OF m r] by (simp only:)
  qed
qed

section \<open>Printing MessagePack as text (\<open>src/ffi/reader.rs\<close>)\<close>

text \<open>
  \<open>mpack_print_data_to_buffer\<close> and \<open>mpack_print_data_to_file\<close>: a pseudo-JSON rendering of the first value of
  the data, by a loop with its own stack of open compounds. The text is the vector \<open>output\<close>. The innermost
  frame is the first of the stack. \<open>None\<close> as the value of an operation is a panic, a loop that never ends, or
  an access outside the memory of the C program.
\<close>

definition PRINT_BYTE_COUNT :: nat where "PRINT_BYTE_COUNT = 12"

fun error_name :: "error \<Rightarrow> string" where
  "error_name Err_Ok = ''mpack_ok''"
| "error_name Err_Io = ''mpack_error_io''"
| "error_name Err_Invalid = ''mpack_error_invalid''"
| "error_name Err_Unsupported = ''mpack_error_unsupported''"
| "error_name Err_Type = ''mpack_error_type''"
| "error_name Err_TooBig = ''mpack_error_too_big''"
| "error_name Err_Memory = ''mpack_error_memory''"
| "error_name Err_Bug = ''mpack_error_bug''"
| "error_name Err_Data = ''mpack_error_data''"
| "error_name Err_Eof = ''mpack_error_eof''"

definition write_print_indent :: "nat \<Rightarrow> u8 list \<Rightarrow> u8 list" where
  "write_print_indent depth output = output @ concat (replicate depth (ascii ''    ''))"

subsection \<open>Leaves\<close>

definition complete_bin_ext :: "nat \<Rightarrow> u8 list \<Rightarrow> u8 list \<Rightarrow> u8 list" where
  "complete_bin_ext total_len prefix output =
     (if total_len = 0 then output @ ascii ''>''
      else
        (let shown = take PRINT_BYTE_COUNT prefix;
             output = output @ ascii '': '' @ concat (map show_hex shown)
         in if total_len > length shown then output @ ascii ''...>'' else output @ ascii ''>''))"

definition print_bin_pseudo_json :: "u32 \<Rightarrow> u8 list \<Rightarrow> u8 list \<Rightarrow> u8 list" where
  "print_bin_pseudo_json len prefix output =
     complete_bin_ext (unat len) prefix (output @ ascii ''<binary data of length '' @ show_u32 len)"

definition print_ext_pseudo_json :: "i8 \<Rightarrow> u32 \<Rightarrow> u8 list \<Rightarrow> u8 list \<Rightarrow> u8 list" where
  "print_ext_pseudo_json exttype len prefix output =
     complete_bin_ext (unat len) prefix
       (output @ ascii ''<ext data of type '' @ show_int (sint exttype) @ ascii '' and length '' @ show_u32 len)"

definition read_print_prefix :: "nat \<Rightarrow> reader \<Rightarrow> (u8 list \<times> reader) option" where
  "read_print_prefix len core =
     (if len = 0 then Some ([], core)
      else
        (let n = min len PRINT_BYTE_COUNT
         in do {
           (bytes, core) \<leftarrow> read_bytes n core;
           (let prefix = case_option [] id bytes
            in if len > n then Some (prefix, snd (skip_bytes (len - n) core)) else Some (prefix, core))
         }))"

definition escape_byte :: "u8 \<Rightarrow> u8 list" where
  "escape_byte byte =
     (if byte = 10 then [92, 110]
      else if byte = 92 then [92, 92]
      else if byte = 34 then [92, 34]
      else [byte])"

fun print_leaf :: "tag \<Rightarrow> u8 list \<Rightarrow> reader \<Rightarrow> (u8 list \<times> reader) option" where
  "print_leaf (Tag_Str len) output core = do {
     (bytes, core) \<leftarrow> read_bytes (unat len) core;
     Some (output @ [34] @ concat (map escape_byte (case_option [] id bytes)) @ [34], core)
   }"
| "print_leaf (Tag_Bin len) output core = do {
     (prefix, core) \<leftarrow> read_print_prefix (unat len) core;
     Some (print_bin_pseudo_json len prefix output, core)
   }"
| "print_leaf (Tag_Ext exttype len) output core = do {
     (prefix, core) \<leftarrow> read_print_prefix (unat len) core;
     Some (print_ext_pseudo_json exttype len prefix output, core)
   }"
| "print_leaf Tag_Nil output core = Some (output @ ascii ''null'', core)"
| "print_leaf (Tag_Bool b) output core = Some (output @ ascii (if b then ''true'' else ''false''), core)"
| "print_leaf (Tag_Int v) output core = Some (output @ show_int (sint v), core)"
| "print_leaf (Tag_Uint v) output core = Some (output @ show_u64 v, core)"
| "print_leaf (Tag_Float v) output core = Some (output @ show_f32 v, core)"
| "print_leaf (Tag_Double v) output core = Some (output @ show_f64 v, core)"
| "print_leaf (Tag_Array _) output core = None"
| "print_leaf (Tag_Map _) output core = None"

subsection \<open>Values\<close>

datatype map_phase = Phase_Key | Phase_Value

datatype print_frame =
    Print_Array u32 nat
  | Print_Map u32 nat map_phase

text \<open>The inner loop. The result is the stack and the depth it goes on with, and the text; no frames is the
  \<open>return\<close>.\<close>

fun close_frames :: "print_frame list \<Rightarrow> u8 list \<Rightarrow> print_frame list \<times> nat \<times> u8 list" where
  "close_frames [] output = ([], 0, output)"
| "close_frames (Print_Array left depth # stack) output =
     (let left = left - 1;
          output = (if left > 0 then output @ ascii '','' else output) @ [10]
      in if left = 0 then close_frames stack (write_print_indent depth output @ ascii '']'')
         else (Print_Array left depth # stack, depth + 1, write_print_indent (depth + 1) output))"
| "close_frames (Print_Map left depth Phase_Key # stack) output =
     (Print_Map left depth Phase_Value # stack, depth + 1, output @ ascii '': '')"
| "close_frames (Print_Map left depth Phase_Value # stack) output =
     (let left = left - 1;
          output = (if left > 0 then output @ ascii '','' else output) @ [10]
      in if left = 0 then close_frames stack (write_print_indent depth output @ ascii ''}'')
         else (Print_Map left depth Phase_Key # stack, depth + 1, write_print_indent (depth + 1) output))"

text \<open>The \<open>match\<close> on a tag: \<open>Inl\<close> a compound that was opened (\<open>continue\<close>), \<open>Inr\<close> the text and the reader after
  a value.\<close>

definition print_tag ::
  "tag \<Rightarrow> nat \<Rightarrow> u8 list \<Rightarrow> reader \<Rightarrow> ((print_frame \<times> u8 list) + (u8 list \<times> reader)) option"
where
  "print_tag tag depth output core =
     (case tag of
        Tag_Array count \<Rightarrow>
          (let output = output @ ascii ''['' @ [10]
           in if count = 0 then Some (Inr (write_print_indent depth output @ ascii '']'', core))
              else Some (Inl (Print_Array count depth, write_print_indent (depth + 1) output)))
      | Tag_Map count \<Rightarrow>
          (let output = output @ ascii ''{'' @ [10]
           in if count = 0 then Some (Inr (write_print_indent depth output @ ascii ''}'', core))
              else Some (Inl (Print_Map count depth Phase_Key, write_print_indent (depth + 1) output)))
      | leaf \<Rightarrow> map_option Inr (print_leaf leaf output core))"

partial_function (option) print_loop ::
  "print_frame list \<Rightarrow> nat \<Rightarrow> u8 list \<Rightarrow> reader \<Rightarrow> (u8 list \<times> reader) option"
where
  "print_loop stack depth output core =
     Option.bind (read_tag core) (\<lambda>(tag, core).
       case tag of
         None \<Rightarrow> Some (output, core)
       | Some tag \<Rightarrow>
           Option.bind (print_tag tag depth output core) (\<lambda>next.
             case next of
               Inl (frame, output) \<Rightarrow> print_loop (frame # stack) (depth + 1) output core
             | Inr (output, core) \<Rightarrow>
                 if r_error core \<noteq> Err_Ok then Some (output, core)
                 else
                   (case close_frames stack output of
                      (stack, depth, output) \<Rightarrow>
                        if stack = [] then Some (output, core) else print_loop stack depth output core)))"

definition print_element :: "nat \<Rightarrow> u8 list \<Rightarrow> reader \<Rightarrow> (u8 list \<times> reader) option" where
  "print_element depth output core = print_loop [] depth output core"

subsection \<open>The two entry points\<close>

definition print_trailer :: "reader \<Rightarrow> u8 list \<Rightarrow> u8 list option" where
  "print_trailer core output = do {
     left \<leftarrow> remaining core;
     Some (if r_error core \<noteq> Err_Ok
           then output @ [10] @ ascii ''<mpack parsing error '' @ ascii (error_name (r_error core)) @ ascii ''>''
           else if left > 0
           then output @ [10] @ ascii ''<'' @ digits left @ ascii '' extra bytes at end of message>''
           else output)
   }"

definition print_input :: "u8 list option \<Rightarrow> nat \<Rightarrow> u8 list option" where
  "print_input data n =
     (if data = None \<or> n = 0 then Some [] else do { d \<leftarrow> data; slice d 0 n })"

definition mpack_print_data_to_buffer ::
  "u8 list option \<Rightarrow> nat \<Rightarrow> u8 list option \<Rightarrow> nat \<Rightarrow> u8 list option option"
where
  "mpack_print_data_to_buffer data data_size buffer buffer_size =
     (case buffer of
        None \<Rightarrow> Some None
      | Some mem \<Rightarrow>
          if buffer_size = 0 then Some (Some mem)
          else do {
            input \<leftarrow> print_input data data_size;
            (output, core) \<leftarrow> print_element 0 [] (reader_new input);
            output \<leftarrow> print_trailer core output;
            (let copy = min (length output) (buffer_size - 1)
             in do {
               mem \<leftarrow> store_at mem 0 (take copy output);
               mem \<leftarrow> store_at mem copy [0];
               mem \<leftarrow> store_at mem (buffer_size - 1) [0];
               Some (Some mem)
             })
          })"

text \<open>\<open>fwrite\<close> is the \<open>suite_fwrite\<close> of the C library; the result is the stream after it.\<close>

definition mpack_print_data_to_file ::
  "(u8 list \<Rightarrow> 'f \<Rightarrow> 'f) \<Rightarrow> u8 list option \<Rightarrow> nat \<Rightarrow> 'f option \<Rightarrow> 'f option option"
where
  "mpack_print_data_to_file fwrite data len stream =
     (case stream of
        None \<Rightarrow> Some None
      | Some f \<Rightarrow> do {
          input \<leftarrow> print_input data len;
          (output, core) \<leftarrow> print_element 2 (write_print_indent 2 []) (reader_new input);
          output \<leftarrow> print_trailer core output;
          Some (Some (fwrite (output @ [10]) f))
        })"

end
