(* ===== verification/Ffi_Print_Theorems.thy ===== *)
theory Ffi_Print_Theorems
  imports Ffi_Print Value_Format Reader_Typed
begin

section \<open>What is printed\<close>

text \<open>
  The rendering of a value by recursion on it, and the loop of \<open>print_element\<close> against it: from any stack of
  frames the loop prints one value and goes on with the stack. Input that holds no whole value ends in the
  error \<open>Invalid\<close>, so the loop always ends.
\<close>

subsection \<open>The rendering\<close>

definition indent :: "nat \<Rightarrow> u8 list" where
  "indent depth = concat (replicate depth (ascii ''    ''))"

definition hex_text :: "u8 list \<Rightarrow> u8 list" where
  "hex_text pl =
     (if pl = [] then [] else ascii '': '' @ concat (map show_hex (take 12 pl)) @ (if length pl > 12 then ascii ''...'' else []))
     @ ascii ''>''"

fun leaf_text :: "tag \<Rightarrow> u8 list \<Rightarrow> u8 list" where
  "leaf_text Tag_Nil pl = ascii ''null''"
| "leaf_text (Tag_Bool b) pl = ascii (if b then ''true'' else ''false'')"
| "leaf_text (Tag_Int v) pl = show_int (sint v)"
| "leaf_text (Tag_Uint v) pl = digits (unat v)"
| "leaf_text (Tag_Float v) pl = show_f32 v"
| "leaf_text (Tag_Double v) pl = show_f64 v"
| "leaf_text (Tag_Str _) pl = [34] @ concat (map escape_byte pl) @ [34]"
| "leaf_text (Tag_Bin len) pl = ascii ''<binary data of length '' @ digits (unat len) @ hex_text pl"
| "leaf_text (Tag_Ext ty len) pl =
     ascii ''<ext data of type '' @ show_int (sint ty) @ ascii '' and length '' @ digits (unat len) @ hex_text pl"
| "leaf_text (Tag_Array _) pl = []"
| "leaf_text (Tag_Map _) pl = []"

text \<open>The lines of a compound: one element, or one key with its value, to a line.\<close>

fun separated :: "u8 list list \<Rightarrow> u8 list" where
  "separated [] = []"
| "separated [line] = line @ [10]"
| "separated (line # lines) = line @ ascii '','' @ [10] @ separated lines"

fun entry_texts :: "u8 list list \<Rightarrow> u8 list list" where
  "entry_texts (k # v # rest) = (k @ ascii '': '' @ v) # entry_texts rest"
| "entry_texts _ = []"

fun value_text :: "nat \<Rightarrow> mvalue \<Rightarrow> u8 list" where
  "value_text depth (MValue t pl vs) =
     (let texts = map (value_text (depth + 1)) vs;
          block = (\<lambda>lines. [10] @ separated (map (\<lambda>line. indent (depth + 1) @ line) lines) @ indent depth)
      in case t of
           Tag_Array _ \<Rightarrow> ascii ''['' @ block texts @ ascii '']''
         | Tag_Map _ \<Rightarrow> ascii ''{'' @ block (entry_texts texts) @ ascii ''}''
         | _ \<Rightarrow> leaf_text t pl)"

subsection \<open>Frames\<close>

text \<open>How many values a frame waits for, the depth they are printed at, what is printed after one of them, and
  the frame that then waits for the others.\<close>

fun values_due :: "print_frame \<Rightarrow> nat" where
  "values_due (Print_Array n _) = unat n"
| "values_due (Print_Map n _ Phase_Key) = 2 * unat n"
| "values_due (Print_Map n _ Phase_Value) = 2 * unat n - 1"

fun print_depth :: "print_frame \<Rightarrow> nat" where
  "print_depth (Print_Array _ depth) = depth"
| "print_depth (Print_Map _ depth _) = depth"

fun after_one :: "print_frame \<Rightarrow> u8 list" where
  "after_one (Print_Array _ depth) = ascii '','' @ [10] @ indent (depth + 1)"
| "after_one (Print_Map _ depth Phase_Key) = ascii '': ''"
| "after_one (Print_Map _ depth Phase_Value) = ascii '','' @ [10] @ indent (depth + 1)"

fun next_frame :: "print_frame \<Rightarrow> print_frame" where
  "next_frame (Print_Array n depth) = Print_Array (n - 1) depth"
| "next_frame (Print_Map n depth Phase_Key) = Print_Map n depth Phase_Value"
| "next_frame (Print_Map n depth Phase_Value) = Print_Map (n - 1) depth Phase_Key"

fun after_last :: "print_frame \<Rightarrow> u8 list" where
  "after_last (Print_Array _ depth) = [10] @ indent depth @ ascii '']''"
| "after_last (Print_Map _ depth _) = [10] @ indent depth @ ascii ''}''"

fun frame_text :: "print_frame \<Rightarrow> u8 list list \<Rightarrow> u8 list" where
  "frame_text f [] = []"
| "frame_text f [text] = text @ after_last f"
| "frame_text f (text # texts) = text @ after_one f @ frame_text (next_frame f) texts"

lemma indent_write: "write_print_indent depth output = output @ indent depth"
  by (simp add: write_print_indent_def indent_def)

lemma print_left_pred: "0 < unat (n :: u32) \<Longrightarrow> unat (n - 1) = unat n - 1"
  by (metis gr_implies_not0 unat_minus_one unsigned_0)

lemma print_left_one: "n = 1 \<longleftrightarrow> unat (n :: u32) = 1"
  by (simp add: word_unat_eq_iff)

lemma print_left_oneD: "unat (n :: u32) = Suc 0 \<Longrightarrow> n = 1"
  "2 * unat n - Suc 0 = Suc 0 \<Longrightarrow> n = 1"
  by (simp add: print_left_one, cases "unat n", simp_all add: print_left_one)

lemma print_left_more: "unat n \<noteq> 1 \<Longrightarrow> 0 < n - (1 :: u32)"
  using print_left_one [of n] word_neq_0_conv [of "n - 1"] by auto

lemma values_due_next: "1 < values_due f \<Longrightarrow> values_due (next_frame f) = values_due f - 1"
  by (cases f rule: next_frame.cases) (auto simp: print_left_pred)

lemma print_depth_next [simp]: "print_depth (next_frame f) = print_depth f"
  by (cases f rule: next_frame.cases) auto

lemma after_last_next [simp]: "after_last (next_frame f) = after_last f"
  by (cases f rule: next_frame.cases) auto

lemma close_last:
  "values_due f = 1 \<Longrightarrow> close_frames (f # stack) output = close_frames stack (output @ after_last f)"
  by (cases f rule: next_frame.cases) (auto simp: indent_write Let_def dest!: print_left_oneD)

lemma close_more:
  "1 < values_due f \<Longrightarrow>
    close_frames (f # stack) output = (next_frame f # stack, print_depth f + 1, output @ after_one f)"
  by (cases f rule: next_frame.cases)
    (auto simp: print_left_one print_left_more indent_write Let_def)

lemma append_separated: "indent depth @ separated (line # lines) = separated ((indent depth @ line) # lines)"
  by (cases lines) simp_all

lemma array_frame_text:
  "frame_text (Print_Array n depth) (line # lines) @ ys
    = separated (line # map (\<lambda>line. indent (depth + 1) @ line) lines) @ indent depth @ ascii '']'' @ ys"
  by (induction lines arbitrary: line n) (auto simp: append_separated)

lemma map_frame_text:
  "even (length texts) \<Longrightarrow> frame_text (Print_Map n depth Phase_Key) (k # v # texts) @ ys
    = separated ((k @ ascii '': '' @ v) # map (\<lambda>line. indent (depth + 1) @ line) (entry_texts texts))
      @ indent depth @ ascii ''}'' @ ys"
  by (induction texts arbitrary: k v n rule: entry_texts.induct) (auto simp: append_separated)

subsection \<open>The loop\<close>

definition print_on :: "print_frame list \<Rightarrow> u8 list \<Rightarrow> reader \<Rightarrow> (u8 list \<times> reader) option" where
  "print_on stack output core =
     (case close_frames stack output of
        (stack, depth, output) \<Rightarrow> if stack = [] then Some (output, core) else print_loop stack depth output core)"

lemma print_on_nil [simp]: "print_on [] output core = Some (output, core)"
  by (simp add: print_on_def)

lemma print_on_last:
  "values_due f = 1 \<Longrightarrow> print_on (f # stack) output core = print_on stack (output @ after_last f) core"
  by (simp add: print_on_def close_last)

lemma print_on_more:
  "1 < values_due f \<Longrightarrow> print_on (f # stack) output core
    = print_loop (next_frame f # stack) (print_depth f + 1) (output @ after_one f) core"
  by (simp add: print_on_def close_more)

lemma print_loop_header:
  assumes "r_error r = Err_Ok" and "header hs t" and "unread r = hs @ rest"
  shows "print_loop stack depth output r =
    print_tag t depth output (advance (length hs) r) \<bind> (\<lambda>next. case next of
       Inl (frame, output) \<Rightarrow> print_loop (frame # stack) (depth + 1) output (advance (length hs) r)
     | Inr (output, core) \<Rightarrow> if r_error core \<noteq> Err_Ok then Some (output, core) else print_on stack output core)"
  using reading.accept [OF assms] by (subst print_loop.simps) (simp add: print_on_def cong: if_cong)

lemma print_loop_reject:
  assumes "r_error r = Err_Ok" and "\<not> has_header (unread r)"
  shows "print_loop stack depth output r
    = Some (output, flag_error Err_Invalid (advance (reject_skip True (unread r)) r))"
  using reading.reject [OF assms] by (subst print_loop.simps) simp

subsection \<open>A whole value\<close>

lemma wf_advance: "wf_reader r \<Longrightarrow> unread r = xs @ rest \<Longrightarrow> wf_reader (advance (length xs) r)"
  using length_unread [of r] by (simp add: wf_reader_def)

lemma read_print_prefix_ok:
  assumes "r_error r = Err_Ok" and "wf_reader r" and "unread r = pl @ rest"
  shows "read_print_prefix (length pl) r = Some (take PRINT_BYTE_COUNT pl, advance (length pl) r)"
  using assms
  by (auto simp: read_print_prefix_def read_bytes_ok skip_bytes_ok min_def)

lemma complete_text: "complete_bin_ext (length pl) (take PRINT_BYTE_COUNT pl) output = output @ hex_text pl"
  by (simp add: complete_bin_ext_def hex_text_def PRINT_BYTE_COUNT_def min_def ascii_def)

lemma print_leaf_ok:
  assumes "r_error r = Err_Ok" and "wf_reader r" and "unread r = pl @ rest" and "length pl = payload_len t"
    and "\<not> (\<exists>n. t = Tag_Array n \<or> t = Tag_Map n)"
  shows "print_leaf t output r = Some (output @ leaf_text t pl, advance (length pl) r)"
proof (cases t)
  case (Tag_Bin len)
  with assms(4) have "unat len = length pl"
    by simp
  with Tag_Bin read_print_prefix_ok [OF assms(1-3)] show ?thesis
    by (simp add: print_bin_pseudo_json_def complete_text show_u32_def)
next
  case (Tag_Ext ty len)
  with assms(4) have "unat len = length pl"
    by simp
  with Tag_Ext read_print_prefix_ok [OF assms(1-3)] show ?thesis
    by (simp add: print_ext_pseudo_json_def complete_text show_u32_def)
qed (use assms in \<open>auto simp: read_bytes_ok show_u64_def\<close>)

lemma even_length_2: "even n \<Longrightarrow> n = length xs \<Longrightarrow> xs \<noteq> [] \<Longrightarrow> \<exists>a b ys. xs = a # b # ys \<and> even (length ys)"
  by (cases xs; cases "tl xs") auto

lemma value_text_array:
  assumes "t = Tag_Array n" and "vs \<noteq> []"
  shows "value_text depth (MValue t pl vs)
    = ascii ''['' @ [10] @ indent (depth + 1) @ frame_text (Print_Array n depth) (map (value_text (depth + 1)) vs)"
proof -
  obtain w ws where "vs = w # ws"
    using assms(2) by (cases vs) auto
  with assms(1) show ?thesis
    using array_frame_text [of n depth "value_text (depth + 1) w" "map (value_text (depth + 1)) ws" "[]"]
    by (simp add: append_separated comp_def)
qed

lemma value_text_map:
  assumes "t = Tag_Map n" and "vs \<noteq> []" and "even (length vs)"
  shows "value_text depth (MValue t pl vs)
    = ascii ''{'' @ [10] @ indent (depth + 1) @ frame_text (Print_Map n depth Phase_Key) (map (value_text (depth + 1)) vs)"
proof -
  obtain k v ws where ws: "vs = k # v # ws" "even (length ws)"
    using even_length_2 [OF assms(3) refl assms(2)] by auto
  with assms(1) show ?thesis
    using map_frame_text [of "map (value_text (depth + 1)) ws" n depth "value_text (depth + 1) k" "value_text (depth + 1) v" "[]"]
    by (simp add: append_separated comp_def)
qed

lemma print_loop_ok:
  "value_bytes bs v \<Longrightarrow> r_error r = Err_Ok \<Longrightarrow> wf_reader r \<Longrightarrow> unread r = bs @ rest \<Longrightarrow>
    print_loop stack depth out r = print_on stack (out @ value_text depth v) (advance (length bs) r)"
  "values_bytes bs vs \<Longrightarrow> r_error r = Err_Ok \<Longrightarrow> wf_reader r \<Longrightarrow> unread r = bs @ rest \<Longrightarrow>
    vs \<noteq> [] \<Longrightarrow> values_due f = length vs \<Longrightarrow>
    print_loop (f # stack) (print_depth f + 1) out r
      = print_on stack (out @ frame_text f (map (value_text (print_depth f + 1)) vs)) (advance (length bs) r)"
proof (induction arbitrary: r rest stack depth out and r rest stack out f rule: value_bytes_values_bytes.inducts)
  case (one_value hs t pl vs bs)
  let ?r = "advance (length hs) r"
  have u: "unread ?r = pl @ bs @ rest" and ok: "r_error ?r = Err_Ok" and wf: "wf_reader ?r"
    using one_value.prems by (simp_all add: wf_advance)
  note run = print_loop_header [OF one_value.prems(1) one_value(1), of "pl @ bs @ rest" stack depth out]
  show ?case
  proof (cases "\<exists>n. t = Tag_Array n \<or> t = Tag_Map n")
    case False
    then have none: "vs = []" "bs = []" and leaf: "value_text depth (MValue t pl vs) = leaf_text t pl"
      using one_value(3,4) by (cases t; simp)+
    have "print_tag t depth out ?r = map_option Inr (print_leaf t out ?r)"
      using False by (cases t) (simp_all add: print_tag_def)
    with print_leaf_ok [OF ok wf u one_value(2) False] run one_value.prems(1,3) none leaf show ?thesis
      by simp
  next
    case True
    then have pl: "pl = []"
      using one_value(2) by auto
    show ?thesis
    proof (cases "vs = []")
      case empty: True
      then have bs: "bs = []"
        using one_value(4) by simp
      have "print_tag t depth out ?r = Some (Inr (out @ value_text depth (MValue t pl vs), ?r))"
        using True one_value(3) empty
        by (auto simp: print_tag_def indent_write word_unat_eq_iff)
      with run one_value.prems(1,3) empty pl bs show ?thesis
        by simp
    next
      case more: False
      let ?f = "case t of Tag_Map n \<Rightarrow> Print_Map n depth Phase_Key | Tag_Array n \<Rightarrow> Print_Array n depth"
      let ?out = "out @ (case t of Tag_Map n \<Rightarrow> ascii ''{'' | _ \<Rightarrow> ascii ''['') @ [10] @ indent (depth + 1)"
      have f: "values_due ?f = length vs" "print_depth ?f = depth"
        using True one_value(3) by auto
      have n: "t = Tag_Array n \<Longrightarrow> n \<noteq> 0" "t = Tag_Map n \<Longrightarrow> n \<noteq> 0" for n
        using one_value(3) more by auto
      have "print_tag t depth out ?r = Some (Inl (?f, ?out))"
        using True n by (auto simp: print_tag_def indent_write)
      then have "print_loop stack depth out r = print_loop (?f # stack) (print_depth ?f + 1) ?out ?r"
        using run one_value.prems(1,3) f(2) by simp
      also have "\<dots> = print_on stack (?out @ frame_text ?f (map (value_text (depth + 1)) vs)) (advance (length bs) ?r)"
        using one_value.IH [OF ok wf _ more f(1), of rest stack ?out] u pl f(2) by simp
      also have "?out @ frame_text ?f (map (value_text (depth + 1)) vs) = out @ value_text depth (MValue t pl vs)"
        using True value_text_array [OF _ more, of t _ depth pl] value_text_map [OF _ more, of t _ depth pl] one_value(3)
        by (auto simp del: value_text.simps)
      finally show ?thesis
        using pl by (simp del: value_text.simps)
    qed
  qed
next
  case no_values
  then show ?case by simp
next
  case (more_values bs v bs' vs)
  show ?case
  proof (cases vs)
    case Nil
    with more_values(2) have "bs' = []"
      by simp
    with Nil more_values.IH(1) [of r rest "f # stack" "print_depth f + 1" out] more_values.prems show ?thesis
      by (simp add: print_on_last)
  next
    case (Cons w ws)
    let ?r = "advance (length bs) r"
    have "wf_reader ?r"
      using more_values.prems by (simp add: wf_advance)
    with Cons more_values.IH(1) [of r "bs' @ rest" "f # stack" "print_depth f + 1" out]
      more_values.IH(2) [of ?r rest "next_frame f" stack "out @ value_text (print_depth f + 1) v @ after_one f"]
      more_values.prems
    show ?thesis
      by (simp add: print_on_more values_due_next)
  qed
qed

subsection \<open>No whole value\<close>

definition starts_value :: "u8 list \<Rightarrow> bool" where
  "starts_value bs \<longleftrightarrow> (\<exists>b v rest. bs = b @ rest \<and> value_bytes b v)"

definition starts_values :: "nat \<Rightarrow> u8 list \<Rightarrow> bool" where
  "starts_values n bs \<longleftrightarrow> (\<exists>b vs rest. bs = b @ rest \<and> values_bytes b vs \<and> length vs = n)"

lemma starts_values_0 [simp]: "starts_values 0 bs"
  unfolding starts_values_def by (intro exI [of _ "[]"] exI [of _ bs]) simp

lemma starts_values_Suc:
  assumes "value_bytes b v" and "starts_values n rest"
  shows "starts_values (Suc n) (b @ rest)"
proof -
  obtain c vs rest' where c: "rest = c @ rest'" "values_bytes c vs" "length vs = n"
    using assms(2) by (auto simp: starts_values_def)
  have "values_bytes (b @ c) (v # vs)"
    using assms(1) c(2) by (rule more_values)
  with c show ?thesis
    unfolding starts_values_def
    by (intro exI [of _ "b @ c"] exI [of _ "v # vs"] exI [of _ rest']) (simp del: values_bytes_simps)
qed

lemma starts_value_header:
  assumes "header hs t" and "payload_len t \<le> length rest"
    and "starts_values (child_count t) (drop (payload_len t) rest)"
  shows "starts_value (hs @ rest)"
proof -
  obtain b vs rest' where b: "drop (payload_len t) rest = b @ rest'" "values_bytes b vs" "length vs = child_count t"
    using assms(3) by (auto simp: starts_values_def)
  have "value_bytes (hs @ take (payload_len t) rest @ b) (MValue t (take (payload_len t) rest) vs)"
    using assms b by (intro one_value) simp_all
  moreover have "hs @ rest = (hs @ take (payload_len t) rest @ b) @ rest'"
    using b(1) by (metis append.assoc append_take_drop_id)
  ultimately show ?thesis
    unfolding starts_value_def by blast
qed

definition fails :: "(u8 list \<times> reader) option \<Rightarrow> reader \<Rightarrow> bool" where
  "fails result r \<longleftrightarrow> (\<exists>out r'. result = Some (out, r') \<and> r_error r' = Err_Invalid \<and> wf_reader r' \<and> r_data r' = r_data r)"

lemma flag_fails [simp]:
  "r_error r = Err_Ok \<Longrightarrow> wf_reader r \<Longrightarrow> fails (Some (out, flag_error Err_Invalid r)) r"
  by (simp add: fails_def flag_error_def wf_reader_def)

lemma read_print_prefix_short:
  assumes "r_error r = Err_Ok" and "wf_reader r" and "length (unread r) < n"
  shows "fails (read_print_prefix n r) r"
  using assms
  by (auto simp: read_print_prefix_def read_bytes_ok skip_bytes_ok min_def fails_def flag_error_def wf_reader_def
      length_unread PRINT_BYTE_COUNT_def)

lemma print_leaf_short:
  assumes "r_error r = Err_Ok" and "wf_reader r" and "length (unread r) < payload_len t"
  shows "fails (print_leaf t out r) r"
  using assms read_print_prefix_short [OF assms(1,2), of "payload_len t"]
  by (cases t) (auto simp: read_bytes_ok fails_def flag_error_def wf_reader_def)

lemma print_loop_fails_elements:
  assumes short: "\<And>r stack depth out. length (unread r) < k \<Longrightarrow> r_error r = Err_Ok \<Longrightarrow> wf_reader r \<Longrightarrow>
      \<not> starts_value (unread r) \<Longrightarrow> fails (print_loop stack depth out r) r"
  shows "length (unread r) < k \<Longrightarrow> r_error r = Err_Ok \<Longrightarrow> wf_reader r \<Longrightarrow> \<not> starts_values n (unread r) \<Longrightarrow>
    values_due f = n \<Longrightarrow> fails (print_loop (f # stack) (print_depth f + 1) out r) r"
proof (induction n arbitrary: r f out)
  case (Suc n)
  show ?case
  proof (cases "starts_value (unread r)")
    case False
    with Suc.prems short show ?thesis
      by simp
  next
    case True
    then obtain b v rest where b: "unread r = b @ rest" "value_bytes b v"
      by (auto simp: starts_value_def)
    then have no: "\<not> starts_values n rest"
      using Suc.prems(4) starts_values_Suc by auto
    then obtain m where m: "n = Suc m"
      by (cases n) auto
    let ?r = "advance (length b) r" and ?out = "out @ value_text (print_depth f + 1) v @ after_one f"
    have "print_loop (f # stack) (print_depth f + 1) out r
        = print_loop (next_frame f # stack) (print_depth f + 1) ?out ?r"
      using print_loop_ok(1) [OF b(2) Suc.prems(2,3) b(1)] Suc.prems(5) m by (simp add: print_on_more)
    moreover have "fails (print_loop (next_frame f # stack) (print_depth (next_frame f) + 1) ?out ?r) ?r"
      using Suc.prems b(1) no m by (intro Suc.IH) (simp_all add: wf_advance values_due_next)
    ultimately show ?thesis
      by (simp add: fails_def)
  qed
qed simp

lemma print_loop_fails:
  "r_error r = Err_Ok \<Longrightarrow> wf_reader r \<Longrightarrow> \<not> starts_value (unread r) \<Longrightarrow> fails (print_loop stack depth out r) r"
proof (induction "length (unread r)" arbitrary: r stack depth out rule: less_induct)
  case less
  show ?case
  proof (cases "has_header (unread r)")
    case False
    have "reject_skip True (unread r) \<le> length (unread r)"
      by (rule reading.skip_le)
    with False less.prems show ?thesis
      by (simp add: print_loop_reject fails_def flag_error_def wf_reader_def length_unread)
  next
    case True
    then obtain hs t rest where h: "header hs t" "unread r = hs @ rest"
      by (auto simp: has_header_def)
    let ?r = "advance (length hs) r"
    have r: "unread ?r = rest" "r_error ?r = Err_Ok" "wf_reader ?r" and shorter: "length rest < length (unread r)"
      using less.prems h header_nonempty [OF h(1)] by (simp_all add: wf_advance)
    note run = print_loop_header [OF less.prems(1) h, of stack depth out]
    have no: "payload_len t \<le> length rest \<Longrightarrow> \<not> starts_values (child_count t) (drop (payload_len t) rest)"
      using starts_value_header [OF h(1)] less.prems(3) h(2) by auto
    show ?thesis
    proof (cases "\<exists>n. t = Tag_Array n \<or> t = Tag_Map n")
      case False
      then have "child_count t = 0"
        by (cases t) auto
      then have "length rest < payload_len t"
        using no by force
      then have "fails (print_leaf t out ?r) ?r"
        using r by (intro print_leaf_short) (simp_all only:)
      moreover have "print_tag t depth out ?r = map_option Inr (print_leaf t out ?r)"
        using False by (cases t) (simp_all add: print_tag_def)
      ultimately show ?thesis
        unfolding run by (auto simp: fails_def)
    next
      case True
      then have "payload_len t = 0"
        by auto
      with no have none: "\<not> starts_values (child_count t) rest"
        by simp
      let ?f = "case t of Tag_Map n \<Rightarrow> Print_Map n depth Phase_Key | Tag_Array n \<Rightarrow> Print_Array n depth"
      let ?out = "out @ (case t of Tag_Map n \<Rightarrow> ascii ''{'' | _ \<Rightarrow> ascii ''['') @ [10] @ indent (depth + 1)"
      have f: "values_due ?f = child_count t" "print_depth ?f = depth"
        using True by auto
      have n: "t = Tag_Array n \<Longrightarrow> n \<noteq> 0" "t = Tag_Map n \<Longrightarrow> n \<noteq> 0" for n
        using none by auto
      have "print_tag t depth out ?r = Some (Inl (?f, ?out))"
        using True n by (auto simp: print_tag_def indent_write)
      then have "print_loop stack depth out r = print_loop (?f # stack) (print_depth ?f + 1) ?out ?r"
        using run f(2) by simp
      moreover have "fails (print_loop (?f # stack) (print_depth ?f + 1) ?out ?r) ?r"
        using r none f(1) shorter
        by (intro print_loop_fails_elements [of "length (unread r)" _ "child_count t"] less.hyps) simp_all
      ultimately show ?thesis
        by (simp add: fails_def)
    qed
  qed
qed

subsection \<open>The entry points\<close>

definition extra_note :: "u8 list \<Rightarrow> u8 list" where
  "extra_note rest =
     (if rest = [] then []
      else [10] @ ascii ''<'' @ digits (length rest) @ ascii '' extra bytes at end of message>'')"

definition error_note :: "u8 list" where
  "error_note = [10] @ ascii ''<mpack parsing error mpack_error_invalid>''"

lemma unread_reader_new: "unread (reader_new bs) = bs" "r_error (reader_new bs) = Err_Ok"
  by (simp_all add: reader_new_def unread_def)

lemma print_element_ok:
  assumes "value_bytes b v"
  shows "print_element depth start (reader_new (b @ rest))
    = Some (start @ value_text depth v, advance (length b) (reader_new (b @ rest)))"
  using print_loop_ok(1) [OF assms, of "reader_new (b @ rest)" rest "[]" depth start]
  by (simp add: print_element_def unread_reader_new)

lemma print_trailer_rest:
  "print_trailer (advance (length b) (reader_new (b @ rest))) text = Some (text @ extra_note rest)"
  by (auto simp: print_trailer_def remaining_def extra_note_def reader_new_def)

lemma print_trailer_error:
  "r_error r = Err_Invalid \<Longrightarrow> wf_reader r \<Longrightarrow> print_trailer r text = Some (text @ error_note)"
  by (simp add: print_trailer_def remaining_def error_note_def wf_reader_def ascii_def)

lemma print_whole:
  "\<exists>out core full. print_element depth start (reader_new input) = Some (out, core) \<and> print_trailer core out = Some full
    \<and> (starts_value input \<longrightarrow>
        (\<exists>b v rest. input = b @ rest \<and> value_bytes b v \<and> full = start @ value_text depth v @ extra_note rest))
    \<and> (\<not> starts_value input \<longrightarrow> (\<exists>out. full = out @ error_note))"
proof (cases "starts_value input")
  case True
  then obtain b v rest where b: "input = b @ rest" "value_bytes b v"
    by (auto simp: starts_value_def)
  with print_element_ok [OF b(2), of depth start rest] print_trailer_rest [of b rest "start @ value_text depth v"] True
  show ?thesis
    by (auto simp: b(1))
next
  case False
  have "fails (print_element depth start (reader_new input)) (reader_new input)"
    unfolding print_element_def by (rule print_loop_fails) (simp_all add: unread_reader_new False)
  then obtain out core where o: "print_element depth start (reader_new input) = Some (out, core)"
      "r_error core = Err_Invalid" "wf_reader core"
    by (auto simp: fails_def)
  with print_trailer_error [OF o(2,3), of out] False show ?thesis
    by auto
qed

text \<open>The memory after a text was stored as a C string in a buffer of \<open>n\<close> bytes: the text cut to fit, a
  terminator after it and one at the end of the buffer.\<close>

definition stored_text :: "nat \<Rightarrow> u8 list \<Rightarrow> u8 list \<Rightarrow> u8 list" where
  "stored_text n full mem =
     (let kept = take (n - 1) full in kept @ [0] @ drop (length kept + 1) (mem[n - 1 := 0]))"

lemma store_text:
  assumes "0 < n" and "n \<le> length mem"
  obtains m1 m2 where "store_at mem 0 (take (min (length full) (n - 1)) full) = Some m1"
    and "store_at m1 (min (length full) (n - 1)) [0] = Some m2"
    and "store_at m2 (n - 1) [0] = Some (stored_text n full mem)"
proof -
  let ?k = "min (length full) (n - 1)"
  let ?m = "take ?k full @ [0] @ drop (?k + 1) mem"
  have k: "?k \<le> n - 1" "n - 1 < length mem"
    using assms by auto
  have kept: "take (n - 1) full = take ?k full"
    by (simp add: min_def)
  have 1: "store_at mem 0 (take ?k full) = Some (take ?k full @ drop ?k mem)"
    using k by (simp add: store_at_def)
  have 2: "store_at (take ?k full @ drop ?k mem) ?k [0] = Some ?m"
    using k by (simp add: store_at_def)
  have "?m[n - 1 := 0] = stored_text n full mem"
  proof (cases "?k = n - 1")
    case True
    with k kept show ?thesis
      by (simp add: stored_text_def Let_def list_update_append)
  next
    case False
    with k have "length full < n - 1" and kf: "?k = length full"
      by simp_all
    then obtain j where j: "n - 1 = length full + Suc j"
      by (auto simp: less_iff_Suc_add)
    then show ?thesis
      using k(2) unfolding kf by (simp add: stored_text_def Let_def list_update_append drop_update_swap)
  qed
  then have 3: "store_at ?m (n - 1) [0] = Some (stored_text n full mem)"
    using k by (simp add: store_at_def upd_conv_take_nth_drop)
  show thesis
    using 1 2 3 by (rule that)
qed

lemma print_input_ok: "n \<le> length d \<Longrightarrow> print_input (Some d) n = Some (take n d)"
  by (simp add: print_input_def slice_def)

lemma print_data_to_file_text:
  assumes "n \<le> length d"
  shows "\<exists>full. mpack_print_data_to_file fwrite (Some d) n (Some f) = Some (Some (fwrite (full @ [10]) f))
    \<and> (starts_value (take n d) \<longrightarrow>
        (\<exists>b v rest. take n d = b @ rest \<and> value_bytes b v \<and> full = indent 2 @ value_text 2 v @ extra_note rest))
    \<and> (\<not> starts_value (take n d) \<longrightarrow> (\<exists>out. full = out @ error_note))"
proof -
  obtain out core full where p: "print_element 2 (indent 2) (reader_new (take n d)) = Some (out, core)"
      "print_trailer core out = Some full"
    and full: "(starts_value (take n d) \<longrightarrow>
        (\<exists>b v rest. take n d = b @ rest \<and> value_bytes b v \<and> full = indent 2 @ value_text 2 v @ extra_note rest))
      \<and> (\<not> starts_value (take n d) \<longrightarrow> (\<exists>out. full = out @ error_note))"
    using print_whole [of 2 "indent 2" "take n d"] by blast
  have "mpack_print_data_to_file fwrite (Some d) n (Some f) = Some (Some (fwrite (full @ [10]) f))"
    using p(1,2) assms by (simp add: mpack_print_data_to_file_def print_input_ok indent_write)
  with full show ?thesis
    by (intro exI [of _ full]) simp
qed

text \<open>A NaN is printed as \<open>NaN\<close>; the \<open>%f\<close> of the C library, which the code means to match, prints \<open>nan\<close> or
  \<open>-nan\<close>.\<close>

theorem nan_printed_unlike_printf:
  "f64_is_nan v \<Longrightarrow> print_leaf (Tag_Double v) out r = Some (out @ ascii ''NaN'', r)"
  by (simp add: show_f64_def)

text \<open>The decimals of a finite double are those of a nearest multiple of a millionth, for the scaled value
  \<open>m * 2 ^ e\<close> with a negative exponent.\<close>

lemma millionths_nearest:
  "2 * (millionths m (- int k) * 2 ^ k) \<le> 2 * (m * 10 ^ 6) + 2 ^ k
    \<and> 2 * (m * 10 ^ 6) \<le> 2 * (millionths m (- int k) * 2 ^ k) + 2 ^ k"
proof (cases k)
  case 0
  then show ?thesis
    by (simp add: millionths_def)
next
  case (Suc j)
  then have "\<not> 0 \<le> - int k"
    by simp
  then have "millionths m (- int k) = round_shift (m * 10 ^ 6) k"
    by (simp only: millionths_def minus_minus nat_int if_False)
  then show ?thesis
    by (simp only: round_shift_nearest)
qed

text \<open>C24. Printing any data into a buffer ends, and stores a C string and nothing behind the buffer. If the data
  begins with the encoding of a value, the string is the rendering of that value, computed by recursion on it,
  and a note on what follows it; otherwise it ends in the note on invalid data. It is cut to the buffer.\<close>

theorem print_data_to_buffer_text:
  assumes "n \<le> length d" and "0 < bsize" and "bsize \<le> length mem"
  shows "\<exists>full. mpack_print_data_to_buffer (Some d) n (Some mem) bsize = Some (Some (stored_text bsize full mem))
    \<and> (starts_value (take n d) \<longrightarrow>
        (\<exists>b v rest. take n d = b @ rest \<and> value_bytes b v \<and> full = value_text 0 v @ extra_note rest))
    \<and> (\<not> starts_value (take n d) \<longrightarrow> (\<exists>out. full = out @ error_note))"
proof -
  obtain out core full where p: "print_element 0 ([]) (reader_new (take n d)) = Some (out, core)"
      "print_trailer core out = Some full"
    and full: "(starts_value (take n d) \<longrightarrow>
        (\<exists>b v rest. take n d = b @ rest \<and> value_bytes b v \<and> full = [] @ value_text 0 v @ extra_note rest))
      \<and> (\<not> starts_value (take n d) \<longrightarrow> (\<exists>out. full = out @ error_note))"
    using print_whole [of 0 "[]" "take n d"] by blast
  obtain m1 m2 where "store_at mem 0 (take (min (length full) (bsize - 1)) full) = Some m1"
      "store_at m1 (min (length full) (bsize - 1)) [0] = Some m2"
      "store_at m2 (bsize - 1) [0] = Some (stored_text bsize full mem)"
    by (rule store_text [OF assms(2,3), of full])
  then have "mpack_print_data_to_buffer (Some d) n (Some mem) bsize = Some (Some (stored_text bsize full mem))"
    using assms p(1,2) by (simp add: mpack_print_data_to_buffer_def print_input_ok Let_def)
  with full show ?thesis
    by (intro exI [of _ full]) simp
qed

theorem print_data_to_buffer_text_witness:
  "\<exists>full. mpack_print_data_to_buffer (Some [0x91, 0xc0, 0xc1]) 2 (Some (replicate 40 7)) 30
      = Some (Some (stored_text 30 full (replicate 40 7)))
    \<and> (starts_value (take 2 [0x91, 0xc0, 0xc1]) \<longrightarrow>
        (\<exists>b v rest. take 2 [0x91, 0xc0, 0xc1] = b @ rest \<and> value_bytes b v \<and> full = value_text 0 v @ extra_note rest))
    \<and> (\<not> starts_value (take 2 [0x91, 0xc0, 0xc1]) \<longrightarrow> (\<exists>out. full = out @ error_note))"
  by (rule print_data_to_buffer_text) simp_all

end
