(* ===== verification/Ffi_Node.thy ===== *)
theory Ffi_Node
  imports Ffi_Reader Node_Values
begin

section \<open>The C tree: state, node table, parsing (\<open>src/ffi/node.rs\<close>)\<close>

text \<open>
  The tree of the C interface, in the configuration \<open>full-suite-abi\<close>. A C program owns the struct
  \<open>mpack_tree_t\<close>; the crate keeps a side table with one entry for each tree, found by the address of
  the struct. The safe core parses; its node table is then laid out breadth first as C nodes, so that the
  children of an array or map are consecutive, in a block of the crate or in a pool of the C program.

  \<^item> \<open>ffi_tree\<close> is the struct. \<open>tr_state\<close> is the tree's entry in the side table, \<open>None\<close> without one.
    \<open>tr_data\<close> is the memory from the pointer \<open>data\<close> on, \<open>None\<close> for null; \<open>Some []\<close> is also a pointer to
    memory that has been freed. Of the parser's fields only \<open>state\<close> is ever used. \<open>tr_reports\<close> is what the error
    handler was told, \<open>tr_closed\<close> how often \<open>fclose\<close> was called.
  \<^item> A pointer to a C node is a \<open>node_ptr\<close>: \<open>Entry k\<close> points to the element \<open>k\<close> of the tree's node storage. The union
    in a node is a number or the pointer to the first child, \<open>Children k\<close>; the pointer 0 is \<open>Number 0\<close>.
  \<^item> Code outside the crate is the record \<open>tree_env\<close>. A read callback gets the tree and the number of bytes wanted;
    it answers its return value, the bytes it has stored, the new contents behind \<open>context\<close> and the error
    it has flagged on the tree (\<open>MPACK_OK\<close> for none).
  \<^item> \<open>None\<close> as the value of an operation is undefined behaviour, a panic, or a loop that never ends. The
    pointer to the tree is not null.
\<close>

subsection \<open>State\<close>

datatype node_union = Number u64 | Children nat

record abi_node =
  an_type :: c_int
  an_len :: u32
  an_value :: node_union

definition node_data_nil :: abi_node where
  "node_data_nil = \<lparr>an_type = 1, an_len = 0, an_value = Number 0\<rparr>"

definition node_data_missing :: abi_node where
  "node_data_missing = \<lparr>an_type = 0, an_len = 0, an_value = Number 0\<rparr>"

datatype node_ptr = Null_Node | Nil_Node | Missing_Node | Entry nat

record tree_state =
  ts_nodes :: "node_data list"
  ts_root :: "nat option"
  ts_size :: nat
  ts_parsed :: bool
  ts_heap_nodes :: "abi_node list"
  ts_abi_to_safe :: "nat list"
  ts_safe_to_abi :: "nat list"
  ts_using_pool :: bool
  ts_owned_data :: "u8 list"
  ts_close_file :: "c_stream option"
  ts_max_size :: nat
  ts_max_nodes :: nat

record ffi_tree =
  tr_error_fn :: bool
  tr_read_fn :: bool
  tr_teardown :: bool
  tr_context :: "c_stream option"
  tr_nil_node :: abi_node
  tr_missing_node :: abi_node
  tr_error :: c_int
  tr_data :: "u8 list option"
  tr_data_length :: nat
  tr_size :: nat
  tr_node_count :: nat
  tr_max_size :: nat
  tr_max_nodes :: nat
  tr_parser_state :: c_int
  tr_root :: node_ptr
  tr_pool :: "abi_node list option"
  tr_pool_count :: nat
  tr_state :: "tree_state option"
  tr_reports :: "c_int list"
  tr_closed :: nat

record tree_env =
  te_malloc :: allocator
  te_read :: "nat \<Rightarrow> ffi_tree \<Rightarrow> nat \<times> u8 list \<times> c_stream option \<times> c_int"
  te_teardown :: "ffi_tree \<Rightarrow> ffi_tree"
  te_fopen :: "string \<Rightarrow> c_stream option"
  te_fseek :: "int \<Rightarrow> c_int \<Rightarrow> c_stream \<Rightarrow> c_int \<times> c_stream"
  te_ftell :: "c_stream \<Rightarrow> i64"
  te_fread :: "nat \<Rightarrow> c_stream \<Rightarrow> u8 list \<times> c_stream"

definition INITIAL_STREAM_CAPACITY :: nat where "INITIAL_STREAM_CAPACITY = 4096"
definition SEEK_SET :: c_int where "SEEK_SET = 0"
definition SEEK_END :: c_int where "SEEK_END = 2"
definition LONG_MAX :: nat where "LONG_MAX = 2 ^ 63 - 1"

subsection \<open>The tree's views and its sticky error\<close>

definition update_state :: "(tree_state \<Rightarrow> tree_state) \<Rightarrow> ffi_tree \<Rightarrow> ffi_tree" where
  "update_state f t = (case tr_state t of None \<Rightarrow> t | Some s \<Rightarrow> t\<lparr>tr_state := Some (f s)\<rparr>)"

definition clear_views :: "tree_state \<Rightarrow> tree_state" where
  "clear_views s = s\<lparr>ts_nodes := [], ts_root := None, ts_size := 0, ts_parsed := False, ts_heap_nodes := [],
     ts_abi_to_safe := [], ts_safe_to_abi := []\<rparr>"

definition clear_abi_parse_views :: "ffi_tree \<Rightarrow> ffi_tree" where
  "clear_abi_parse_views t =
     update_state clear_views (t\<lparr>tr_root := Nil_Node, tr_size := 0, tr_node_count := 0, tr_parser_state := 0\<rparr>)"

definition advance_previous_message :: "ffi_tree \<Rightarrow> ffi_tree" where
  "advance_previous_message t =
     (let n = tr_size t in
      if n = 0 then t
      else
        (let t = t\<lparr>tr_root := Nil_Node\<rparr>;
             t = (case tr_state t of
                 None \<Rightarrow> t
               | Some s \<Rightarrow>
                   if ts_owned_data s \<noteq> []
                   then (let owned = drop (min n (length (ts_owned_data s))) (ts_owned_data s)
                     in t\<lparr>tr_state := Some (clear_views (s\<lparr>ts_owned_data := owned\<rparr>)),
                          tr_data := Some owned, tr_data_length := length owned\<rparr>)
                   else if tr_data t \<noteq> None \<and> n \<le> tr_data_length t
                   then t\<lparr>tr_state := Some (clear_views s), tr_data := map_option (drop n) (tr_data t),
                          tr_data_length := tr_data_length t - n\<rparr>
                   else t\<lparr>tr_state := Some (clear_views s)\<rparr>)
         in t\<lparr>tr_size := 0, tr_node_count := 0, tr_parser_state := 0\<rparr>))"

definition flag_tree_error :: "c_int \<Rightarrow> ffi_tree \<Rightarrow> ffi_tree" where
  "flag_tree_error err t =
     (if err = MPACK_OK \<or> tr_error t \<noteq> MPACK_OK then t
      else
        (let t = t\<lparr>tr_error := err\<rparr>
         in if tr_error_fn t then t\<lparr>tr_reports := tr_reports t @ [err]\<rparr> else t))"

definition replace_tree_error :: "c_int \<Rightarrow> ffi_tree \<Rightarrow> ffi_tree" where
  "replace_tree_error err t = (if err = MPACK_OK then t else flag_tree_error err (t\<lparr>tr_error := MPACK_OK\<rparr>))"

definition remap_stream_incomplete :: "bool \<Rightarrow> ffi_tree \<Rightarrow> ffi_tree" where
  "remap_stream_incomplete hit_max_size t =
     (if tr_error t \<noteq> MPACK_ERROR_INVALID \<and> tr_error t \<noteq> MPACK_ERROR_EOF then t
      else if hit_max_size then replace_tree_error MPACK_ERROR_TOO_BIG t
      else replace_tree_error MPACK_ERROR_IO t)"

definition abi_error_to_core :: "c_int \<Rightarrow> error" where
  "abi_error_to_core err =
     (if err = MPACK_OK then Err_Ok
      else if err = MPACK_ERROR_IO then Err_Io
      else if err = MPACK_ERROR_INVALID then Err_Invalid
      else if err = MPACK_ERROR_UNSUPPORTED then Err_Unsupported
      else if err = MPACK_ERROR_TYPE then Err_Type
      else if err = MPACK_ERROR_TOO_BIG then Err_TooBig
      else if err = MPACK_ERROR_MEMORY then Err_Memory
      else if err = MPACK_ERROR_BUG then Err_Bug
      else if err = MPACK_ERROR_DATA then Err_Data
      else if err = MPACK_ERROR_EOF then Err_Eof
      else Err_Bug)"

subsection \<open>The node storage\<close>

text \<open>What a node pointer points to. The storage is the pool of the C program or the block of the crate.\<close>

definition node_block :: "ffi_tree \<Rightarrow> abi_node list option" where
  "node_block t =
     (case tr_state t of None \<Rightarrow> None | Some s \<Rightarrow> if ts_using_pool s then tr_pool t else Some (ts_heap_nodes s))"

fun deref :: "node_ptr \<Rightarrow> ffi_tree \<Rightarrow> abi_node option" where
  "deref Null_Node t = None"
| "deref Nil_Node t = Some (tr_nil_node t)"
| "deref Missing_Node t = Some (tr_missing_node t)"
| "deref (Entry k) t = do { block \<leftarrow> node_block t; index block k }"

definition nd_type :: "node_ptr \<Rightarrow> ffi_tree \<Rightarrow> c_int option" where
  "nd_type p t = (if p = Null_Node then Some TYPE_NIL else map_option an_type (deref p t))"

definition nd_len :: "node_ptr \<Rightarrow> ffi_tree \<Rightarrow> u32 option" where
  "nd_len p t = (if p = Null_Node then Some 0 else map_option an_len (deref p t))"

definition nd_union :: "node_ptr \<Rightarrow> ffi_tree \<Rightarrow> node_union option" where
  "nd_union p t = (if p = Null_Node then Some (Number 0) else map_option an_value (deref p t))"

text \<open>The union as a number; the address of a child is no number the model knows.\<close>

definition nd_value :: "node_ptr \<Rightarrow> ffi_tree \<Rightarrow> u64 option" where
  "nd_value p t = do { v \<leftarrow> nd_union p t; (case v of Number n \<Rightarrow> Some n | Children _ \<Rightarrow> None) }"

text \<open>\<open>slice::from_raw_parts\<close> behind a guard against null pointers and empty ranges, as for the input of the parser.\<close>

definition raw_slice :: "u8 list option \<Rightarrow> nat \<Rightarrow> u8 list option" where
  "raw_slice p n = (if p = None \<or> n = 0 then Some [] else do { mem \<leftarrow> p; slice mem 0 n })"

subsection \<open>Laying out the nodes breadth first\<close>

definition set_at :: "'a list \<Rightarrow> nat \<Rightarrow> 'a \<Rightarrow> 'a list option" where
  "set_at xs i x = (if i < length xs then Some (xs[i := x]) else None)"

text \<open>The loop over the children of a node: consecutive places from \<open>next\<close> on.\<close>

fun place_children :: "nat list \<Rightarrow> nat \<Rightarrow> nat list \<Rightarrow> (nat \<times> nat list) option" where
  "place_children [] next_idx safe_to_abi = Some (next_idx, safe_to_abi)"
| "place_children (child # rest) next_idx safe_to_abi = do {
     safe_to_abi \<leftarrow> set_at safe_to_abi child next_idx;
     place_children rest (next_idx + 1) safe_to_abi
   }"

text \<open>One node taken from the queue: its children, the next place, and the two tables.\<close>

definition place_node ::
  "node_data list \<Rightarrow> nat \<Rightarrow> nat \<Rightarrow> nat list \<Rightarrow> nat list \<Rightarrow> (nat list \<times> nat \<times> nat list \<times> nat list) option"
where
  "place_node nodes safe_idx next_idx safe_to_abi starts = do {
     node \<leftarrow> index nodes safe_idx;
     (if nd_children node = [] then Some ([], next_idx, safe_to_abi, starts)
      else do {
        starts \<leftarrow> set_at starts safe_idx next_idx;
        (next_idx, safe_to_abi) \<leftarrow> place_children (nd_children node) next_idx safe_to_abi;
        Some (nd_children node, next_idx, safe_to_abi, starts)
      })
   }"

partial_function (option) place_loop ::
  "node_data list \<Rightarrow> nat list \<Rightarrow> nat \<Rightarrow> nat list \<Rightarrow> nat list \<Rightarrow> (nat list \<times> nat list) option"
where
  "place_loop nodes queue next_idx safe_to_abi starts =
     (case queue of
        [] \<Rightarrow> Some (safe_to_abi, starts)
      | safe_idx # queue \<Rightarrow>
          Option.bind (place_node nodes safe_idx next_idx safe_to_abi starts)
            (\<lambda>(children, next_idx, safe_to_abi, starts).
              place_loop nodes (queue @ children) next_idx safe_to_abi starts))"

fun invert_table :: "nat list \<Rightarrow> nat \<Rightarrow> nat list \<Rightarrow> nat list option" where
  "invert_table [] safe_idx abi_to_safe = Some abi_to_safe"
| "invert_table (abi_idx # rest) safe_idx abi_to_safe = do {
     abi_to_safe \<leftarrow> set_at abi_to_safe abi_idx safe_idx;
     invert_table rest (safe_idx + 1) abi_to_safe
   }"

text \<open>The C node of a node of the core; \<open>start\<close> is the place of its first child.\<close>

definition children_value :: "node_data \<Rightarrow> nat \<Rightarrow> node_union" where
  "children_value node start = (if nd_children node = [] then Number 0 else Children start)"

definition abi_node_of :: "node_data \<Rightarrow> nat \<Rightarrow> abi_node" where
  "abi_node_of node start =
     (let offset = Number (word_of_nat (nd_payload_off node))
      in case nd_tag node of
           Tag_Nil \<Rightarrow> \<lparr>an_type = TYPE_NIL, an_len = 0, an_value = Number 0\<rparr>
         | Tag_Bool v \<Rightarrow> \<lparr>an_type = TYPE_BOOL, an_len = 0, an_value = Number (of_bool v)\<rparr>
         | Tag_Int v \<Rightarrow> \<lparr>an_type = TYPE_INT, an_len = 0, an_value = Number v\<rparr>
         | Tag_Uint v \<Rightarrow> \<lparr>an_type = TYPE_UINT, an_len = 0, an_value = Number v\<rparr>
         | Tag_Float v \<Rightarrow> \<lparr>an_type = TYPE_FLOAT, an_len = 0, an_value = Number (ucast v)\<rparr>
         | Tag_Double v \<Rightarrow> \<lparr>an_type = TYPE_DOUBLE, an_len = 0, an_value = Number v\<rparr>
         | Tag_Str len \<Rightarrow> \<lparr>an_type = TYPE_STR, an_len = len, an_value = offset\<rparr>
         | Tag_Bin len \<Rightarrow> \<lparr>an_type = TYPE_BIN, an_len = len, an_value = offset\<rparr>
         | Tag_Ext _ len \<Rightarrow> \<lparr>an_type = TYPE_EXT, an_len = len, an_value = offset\<rparr>
         | Tag_Array count \<Rightarrow> \<lparr>an_type = TYPE_ARRAY, an_len = count, an_value = children_value node start\<rparr>
         | Tag_Map count \<Rightarrow> \<lparr>an_type = TYPE_MAP, an_len = count, an_value = children_value node start\<rparr>)"

text \<open>The loop over the nodes that writes them to \<open>dest\<close>; \<open>safe_idx\<close> is the index of the first of the list.\<close>

fun fill_nodes ::
  "node_data list \<Rightarrow> nat \<Rightarrow> nat list \<Rightarrow> nat list \<Rightarrow> abi_node list \<Rightarrow> abi_node list option"
where
  "fill_nodes [] safe_idx safe_to_abi starts dest = Some dest"
| "fill_nodes (node # rest) safe_idx safe_to_abi starts dest = do {
     abi_idx \<leftarrow> index safe_to_abi safe_idx;
     start \<leftarrow> index starts safe_idx;
     dest \<leftarrow> set_at dest abi_idx (abi_node_of node start);
     fill_nodes rest (safe_idx + 1) safe_to_abi starts dest
   }"

definition materialize_nodes ::
  "node_data list \<Rightarrow> nat \<Rightarrow> abi_node list \<Rightarrow> (abi_node list \<times> nat list \<times> nat list) option"
where
  "materialize_nodes nodes root dest =
     (let n = length nodes in
      if n = 0 then Some (dest, [], [])
      else do {
        safe_to_abi \<leftarrow> set_at (replicate n 0) root 0;
        (safe_to_abi, starts) \<leftarrow> place_loop nodes [root] 1 safe_to_abi (replicate n 0);
        abi_to_safe \<leftarrow> invert_table safe_to_abi 0 (replicate n 0);
        dest \<leftarrow> fill_nodes nodes 0 safe_to_abi starts dest;
        Some (dest, abi_to_safe, safe_to_abi)
      })"

end
