(* ===== verification/Ffi_Node_Layout.thy ===== *)
theory Ffi_Node_Layout
  imports Ffi_Node
begin

section \<open>The breadth-first layout is a relabelling of the parsed tree\<close>

text \<open>
  \<open>tree_links\<close>: in the table of a parsed tree every node but the root is a child exactly once, and children
  come after their parent. On such a table \<open>materialize_nodes\<close> ends, never leaves its tables, and gives
  every node one place, so that the children of a node are at consecutive places.
\<close>

definition kids :: "node_data list \<Rightarrow> nat \<Rightarrow> nat list" where
  "kids nodes i = nd_children (nodes ! i)"

definition tree_links :: "node_data list \<Rightarrow> bool" where
  "tree_links nodes \<longleftrightarrow>
     (\<forall>i<length nodes. distinct (kids nodes i) \<and> (\<forall>c\<in>set (kids nodes i). i < c \<and> c < length nodes))
   \<and> (\<forall>i<length nodes. \<forall>j<length nodes. i \<noteq> j \<longrightarrow> set (kids nodes i) \<inter> set (kids nodes j) = {})
   \<and> (\<forall>c<length nodes. 0 < c \<longrightarrow> (\<exists>p<c. c \<in> set (kids nodes p)))"

subsection \<open>The parser builds such a table\<close>

lemma tree_links_root: "nd_children nd = [] \<Longrightarrow> tree_links [nd]"
  by (simp add: tree_links_def kids_def)

lemma tree_links_child:
  assumes t: "tree_links nodes" and p: "p < length nodes" and nd: "nd_children nd = []"
  shows "tree_links (add_children p [length nodes] (nodes @ [nd]))"
proof -
  let ?n = "length nodes" and ?new = "add_children p [length nodes] (nodes @ [nd])"
  have k: "kids ?new i = (if i = p then kids nodes p @ [?n] else if i = ?n then [] else kids nodes i)"
    if "i < Suc ?n" for i
  proof (cases "i = ?n")
    case True
    with p nd show ?thesis by (simp add: kids_def add_children_def nth_append)
  next
    case False
    with that have "i < ?n" by simp
    with p show ?thesis
      by (cases "i = p") (simp_all add: kids_def add_children_def nth_append)
  qed
  have old: "\<forall>i<?n. distinct (kids nodes i) \<and> (\<forall>c\<in>set (kids nodes i). i < c \<and> c < ?n)"
    "\<forall>i<?n. \<forall>j<?n. i \<noteq> j \<longrightarrow> set (kids nodes i) \<inter> set (kids nodes j) = {}"
    "\<forall>c<?n. 0 < c \<longrightarrow> (\<exists>p<c. c \<in> set (kids nodes p))"
    using t unfolding tree_links_def by blast+
  have fresh: "?n \<notin> set (kids nodes i)" if "i < ?n" for i
    using old(1) that by blast
  have a: "distinct (kids ?new i) \<and> (\<forall>c\<in>set (kids ?new i). i < c \<and> c < Suc ?n)" if "i < Suc ?n" for i
  proof (cases "i = ?n")
    case True
    with k [OF that] p show ?thesis by simp
  next
    case False
    with that have i: "i < ?n" by simp
    with old(1) have *: "distinct (kids nodes i)" "\<forall>c\<in>set (kids nodes i). i < c \<and> c < ?n" by blast+
    show ?thesis
    proof (cases "i = p")
      case True
      with * i fresh [OF i] k [OF that] show ?thesis by (simp add: less_SucI)
    next
      case no: False
      with * i False k [OF that] show ?thesis by (simp add: less_SucI)
    qed
  qed
  have b: "set (kids ?new i) \<inter> set (kids ?new j) = {}" if "i < Suc ?n" "j < Suc ?n" "i \<noteq> j" for i j
  proof -
    have 1: "set (kids ?new i) \<subseteq> (if i = ?n then {} else if i = p then insert ?n (set (kids nodes i)) else set (kids nodes i))"
      if "i < Suc ?n" for i
      using k [OF that] p by simp
    show ?thesis
    proof (cases "i = ?n \<or> j = ?n")
      case True
      with 1 [OF that(1)] 1 [OF that(2)] show ?thesis by auto
    next
      case False
      with that have ij: "i < ?n" "j < ?n" by simp_all
      with old(2) that(3) have "set (kids nodes i) \<inter> set (kids nodes j) = {}" by blast
      with False 1 [OF that(1)] 1 [OF that(2)] fresh [OF ij(1)] fresh [OF ij(2)] that(3) show ?thesis
        by (cases "i = p"; cases "j = p") auto
    qed
  qed
  have c: "\<exists>q<c. c \<in> set (kids ?new q)" if "c < Suc ?n" "0 < c" for c
  proof (cases "c = ?n")
    case True
    with p k [of p] show ?thesis by (intro exI [of _ p]) simp
  next
    case False
    with that have "c < ?n" by simp
    with old(3) that obtain q where "q < c" "c \<in> set (kids nodes q)" by blast
    with \<open>c < ?n\<close> k [of q] show ?thesis by (intro exI [of _ q]) auto
  qed
  have len: "length ?new = Suc ?n"
    by simp
  show ?thesis
    unfolding tree_links_def len using a b c by blast
qed

definition frames_in :: "node_data list \<Rightarrow> parse_frame list \<Rightarrow> bool" where
  "frames_in nodes stack \<longleftrightarrow> (\<forall>f\<in>set stack. pf_node_index f < length nodes)"

lemma push_node_shape:
  assumes "parse_push_node max_nodes r nodes = Some (Some i, r', nodes')"
  obtains nd where "i = length nodes" and "nodes' = nodes @ [nd]" and "nd_children nd = []"
proof -
  from assms obtain t r1 where t: "read_tag r = Some (Some t, r1)"
    by (auto simp: parse_push_node_def bind_eq_Some_conv split: if_splits option.splits)
  show thesis
    using assms t that
    by (cases t) (auto simp: parse_push_node_def Let_def split: if_splits prod.splits bool.splits)
qed

lemma open_compound_shape:
  assumes "open_compound i r nodes stack = Some (Inr (r', nodes', stack'))"
    and "i < length nodes" and "frames_in nodes stack"
  shows "nodes' = nodes \<and> frames_in nodes stack'"
  using assms by (auto simp: open_compound_def checked bind_eq_Some_conv frames_in_def split: option.splits if_splits)

lemma parse_child_links:
  assumes run: "parse_child max_nodes r nodes f stack = Some (Inr (r', nodes', stack'))"
    and t: "tree_links nodes" and f: "frames_in nodes (f # stack)"
  shows "tree_links nodes' \<and> frames_in nodes' stack'"
proof -
  from run obtain i r1 nodes1 where push: "parse_push_node max_nodes r nodes = Some (Some i, r1, nodes1)"
    by (auto simp: parse_child_def Let_def bind_eq_Some_conv split: option.splits)
  obtain nd where nd: "i = length nodes" "nodes1 = nodes @ [nd]" "nd_children nd = []"
    by (rule push_node_shape [OF push])
  let ?nodes = "add_children (pf_node_index f) [length nodes] (nodes @ [nd])"
  have p: "pf_node_index f < length nodes"
    using f by (simp add: frames_in_def)
  have "open_compound i r1 ?nodes (f\<lparr>pf_remaining := pf_remaining f - 1\<rparr> # stack) = Some (Inr (r', nodes', stack'))"
    using run p by (auto simp: parse_child_def push nd Let_def add_children_def checked split: if_splits)
  moreover have "frames_in ?nodes (f\<lparr>pf_remaining := pf_remaining f - 1\<rparr> # stack)"
    using f by (simp add: frames_in_def less_SucI)
  ultimately have "nodes' = ?nodes \<and> frames_in ?nodes stack'"
    using open_compound_shape nd(1) by fastforce
  with tree_links_child [OF t p nd(3)] show ?thesis
    by simp
qed

lemma parse_loop_links:
  "parse_loop max_nodes r nodes stack = Some (True, r', nodes') \<Longrightarrow> tree_links nodes \<Longrightarrow> frames_in nodes stack \<Longrightarrow>
    tree_links nodes'"
proof (induction max_nodes r nodes stack rule: parse_loop.induct)
  case (1 max_nodes r nodes stack)
  show ?case
  proof (cases stack)
    case Nil
    with 1(3,4) show ?thesis
      by (simp add: parse_loop.simps [of _ _ _ "[]"])
  next
    case (Cons f rest)
    show ?thesis
    proof (cases "pf_remaining f = 0")
      case True
      with 1(3-) Cons 1(1) [OF Cons True] show ?thesis
        by (subst (asm) parse_loop.simps) (simp add: frames_in_def)
    next
      case False
      from 1(3) False Cons obtain r1 nodes1 stack1
        where child: "parse_child max_nodes r nodes f rest = Some (Inr (r1, nodes1, stack1))"
        and run: "parse_loop max_nodes r1 nodes1 stack1 = Some (True, r', nodes')"
        by (subst (asm) parse_loop.simps) (auto split: option.splits sum.splits)
      from parse_child_links [OF child] 1(4,5) Cons have "tree_links nodes1" "frames_in nodes1 stack1"
        by simp_all
      from 1(2) [OF Cons False child refl refl refl run this] show ?thesis .
    qed
  qed
qed

lemma parse_tree_steps:
  assumes "parse_tree max_nodes r = Some (Some root, r', nodes)"
  obtains r1 nodes1 r2 nodes2 stack2 where
    "parse_push_node max_nodes r [] = Some (Some root, r1, nodes1)"
    and "open_compound root r1 nodes1 [] = Some (Inr (r2, nodes2, stack2))"
    and "parse_loop max_nodes r2 nodes2 stack2 = Some (True, r', nodes)"
proof -
  from assms obtain root' r1 nodes1 res where
    push: "parse_push_node max_nodes r [] = Some (Some root', r1, nodes1)"
    and res: "open_compound root' r1 nodes1 [] = Some res"
    and more: "(case res of Inl (r, nodes) \<Rightarrow> Some (None, r, nodes)
      | Inr (r, nodes, stack) \<Rightarrow> do {
          (finished, r, nodes) \<leftarrow> parse_loop max_nodes r nodes stack;
          (if finished \<longrightarrow> r_error r \<noteq> Err_Ok then Some (None, r, nodes) else Some (Some root', r, nodes))
        }) = Some (Some root, r', nodes)"
    by (auto simp: parse_tree_def bind_eq_Some_conv split: if_splits option.splits)
  from more obtain r2 nodes2 stack2 where "res = Inr (r2, nodes2, stack2)"
    and run: "parse_loop max_nodes r2 nodes2 stack2 = Some (True, r', nodes)" and same: "root' = root"
    by (cases res) (auto simp: bind_eq_Some_conv split: if_splits)
  with res have "open_compound root r1 nodes1 [] = Some (Inr (r2, nodes2, stack2))"
    by simp
  with push [unfolded same] run show thesis
    by (intro that)
qed

lemma parse_tree_links:
  assumes "parse_tree max_nodes r = Some (Some root, r', nodes)"
  shows "root = 0 \<and> tree_links nodes"
proof -
  obtain r1 nodes1 r2 nodes2 stack2 where
    push: "parse_push_node max_nodes r [] = Some (Some root, r1, nodes1)"
    and opened: "open_compound root r1 nodes1 [] = Some (Inr (r2, nodes2, stack2))"
    and run: "parse_loop max_nodes r2 nodes2 stack2 = Some (True, r', nodes)"
    using parse_tree_steps [OF assms] .
  obtain nd where nd: "root = length ([] :: node_data list)" "nodes1 = [] @ [nd]" "nd_children nd = []"
    by (rule push_node_shape [OF push])
  from open_compound_shape [OF opened] nd have "nodes2 = [nd]" "frames_in [nd] stack2"
    by (simp_all add: frames_in_def)
  with parse_loop_links [OF run] tree_links_root [OF nd(3)] nd(1) show ?thesis
    by simp
qed

subsection \<open>The two loops over a table\<close>

lemma place_children_ok:
  "distinct cs \<Longrightarrow> \<forall>c\<in>set cs. c < length table \<Longrightarrow>
    \<exists>table'. place_children cs m table = Some (m + length cs, table') \<and> length table' = length table
      \<and> (\<forall>k<length cs. table' ! (cs ! k) = m + k) \<and> (\<forall>i. i \<notin> set cs \<longrightarrow> table' ! i = table ! i)"
proof (induction cs arbitrary: m table)
  case Nil
  then show ?case by simp
next
  case (Cons c cs)
  have "distinct cs" "\<forall>c'\<in>set cs. c' < length (table[c := m])"
    using Cons.prems by simp_all
  from Cons.IH [OF this, of "m + 1"] obtain table' where
    t: "place_children cs (m + 1) (table[c := m]) = Some (m + 1 + length cs, table')"
      "length table' = length table" "\<forall>k<length cs. table' ! (cs ! k) = m + 1 + k"
      "\<forall>i. i \<notin> set cs \<longrightarrow> table' ! i = table[c := m] ! i"
    unfolding length_list_update by (elim exE conjE) (rule that; assumption)
  have "table' ! ((c # cs) ! k) = m + k" if "k < length (c # cs)" for k
    using t Cons.prems that by (cases k) simp_all
  with t Cons.prems show ?case
    by (intro exI [of _ table']) (simp add: set_at_def)
qed

lemma invert_table_place: "invert_table xs m table = map_option snd (place_children xs m table)"
  by (induction xs arbitrary: m table) (simp_all add: set_at_def)

lemma fill_nodes_ok:
  "m + length rest \<le> length sta \<Longrightarrow> length starts = length sta \<Longrightarrow> distinct sta \<Longrightarrow>
    \<forall>j\<in>set sta. j < length dest \<Longrightarrow>
    \<exists>dest'. fill_nodes rest m sta starts dest = Some dest' \<and> length dest' = length dest
      \<and> (\<forall>k<length rest. dest' ! (sta ! (m + k)) = abi_node_of (rest ! k) (starts ! (m + k)))
      \<and> (\<forall>i<m. dest' ! (sta ! i) = dest ! (sta ! i))
      \<and> (\<forall>j. j \<notin> set sta \<longrightarrow> dest' ! j = dest ! j)"
proof (induction rest arbitrary: m dest)
  case Nil
  then show ?case by simp
next
  case (Cons nd rest)
  let ?dest = "dest[sta ! m := abi_node_of nd (starts ! m)]"
  have m: "m < length sta" "sta ! m < length dest"
    using Cons.prems by auto
  have "m + 1 + length rest \<le> length sta" "\<forall>j\<in>set sta. j < length ?dest"
    using Cons.prems by simp_all
  from Cons.IH [OF this(1) Cons.prems(2,3) this(2)] obtain dest' where d:
      "fill_nodes rest (m + 1) sta starts ?dest = Some dest'" "length dest' = length dest"
      "\<forall>k<length rest. dest' ! (sta ! (m + 1 + k)) = abi_node_of (rest ! k) (starts ! (m + 1 + k))"
      "\<forall>i<m + 1. dest' ! (sta ! i) = ?dest ! (sta ! i)"
      "\<forall>j. j \<notin> set sta \<longrightarrow> dest' ! j = ?dest ! j"
    unfolding length_list_update by (elim exE conjE) (rule that; assumption)
  have 1: "dest' ! (sta ! (m + k)) = abi_node_of ((nd # rest) ! k) (starts ! (m + k))" if "k < length (nd # rest)" for k
    using that d(3) d(4) m by (cases k) simp_all
  have 2: "dest' ! (sta ! i) = dest ! (sta ! i)" if "i < m" for i
    using that d(4) m nth_eq_iff_index_eq [OF Cons.prems(3), of i m] by simp
  have 3: "dest' ! j = dest ! j" if "j \<notin> set sta" for j
    using that d(5) m by (metis nth_list_update_neq nth_mem)
  have "fill_nodes (nd # rest) m sta starts dest = Some dest'"
    using d(1) m Cons.prems(1,2) by (simp add: checked set_at_def)
  with d(2) 1 2 3 show ?case
    by blast
qed

subsection \<open>The queue\<close>

text \<open>\<open>done\<close> are the nodes taken from the queue so far, in order; all nodes seen so far are at the places they have in
  the concatenation of \<open>done\<close> and the queue.\<close>

definition laid_out :: "node_data list \<Rightarrow> nat list \<Rightarrow> nat list \<Rightarrow> nat list \<Rightarrow> nat list \<Rightarrow> bool" where
  "laid_out nodes seen queue sta starts \<longleftrightarrow>
     seen @ queue = 0 # concat (map (kids nodes) seen) \<and> distinct (seen @ queue)
   \<and> (\<forall>i\<in>set (seen @ queue). i < length nodes) \<and> length sta = length nodes \<and> length starts = length nodes
   \<and> (\<forall>j<length (seen @ queue). sta ! ((seen @ queue) ! j) = j)
   \<and> (\<forall>i\<in>set seen. \<forall>k<length (kids nodes i). sta ! (kids nodes i ! k) = starts ! i + k)"

lemma tree_linksD:
  assumes "tree_links nodes"
  shows "i < length nodes \<Longrightarrow> distinct (kids nodes i)"
    and "i < length nodes \<Longrightarrow> c \<in> set (kids nodes i) \<Longrightarrow> i < c \<and> c < length nodes"
    and "i < length nodes \<Longrightarrow> j < length nodes \<Longrightarrow> c \<in> set (kids nodes i) \<Longrightarrow> c \<in> set (kids nodes j) \<Longrightarrow> i = j"
    and "c < length nodes \<Longrightarrow> 0 < c \<Longrightarrow> \<exists>p<c. c \<in> set (kids nodes p)"
  using assms unfolding tree_links_def by blast+

lemma laid_outD:
  assumes "laid_out nodes seen queue sta starts"
  shows "seen @ queue = 0 # concat (map (kids nodes) seen)" and "distinct (seen @ queue)"
    and "j \<in> set (seen @ queue) \<Longrightarrow> j < length nodes"
    and "length sta = length nodes" and "length starts = length nodes"
    and "m < length (seen @ queue) \<Longrightarrow> sta ! ((seen @ queue) ! m) = m"
    and "j \<in> set seen \<Longrightarrow> k < length (kids nodes j) \<Longrightarrow> sta ! (kids nodes j ! k) = starts ! j + k"
  using assms unfolding laid_out_def by blast+

lemma place_node_ok:
  assumes t: "tree_links nodes" and l: "laid_out nodes seen (i # queue) sta starts"
  obtains sta' starts' where
    "place_node nodes i (length (seen @ i # queue)) sta starts
      = Some (kids nodes i, length (seen @ i # queue) + length (kids nodes i), sta', starts')"
    and "laid_out nodes (seen @ [i]) (queue @ kids nodes i) sta' starts'"
proof -
  let ?all = "seen @ i # queue" and ?cs = "kids nodes i"
  note eq = laid_outD(1) [OF l] and d = laid_outD(2) [OF l] and inr = laid_outD(3) [OF l] and len = laid_outD(4,5) [OF l]
    and at = laid_outD(6) [OF l] and done_kids = laid_outD(7) [OF l]
  have i: "i < length nodes"
    using inr by simp
  have cs: "distinct ?cs" "\<forall>c\<in>set ?cs. c < length sta"
    using tree_linksD(1,2) [OF t i] len by auto
  have fresh: "set ?cs \<inter> set ?all = {}"
  proof -
    have "c \<notin> set (kids nodes j)" if "c \<in> set ?cs" "j \<in> set seen" for c j
      using tree_linksD(3) [OF t i _ that(1)] inr [of j] that(2) d by auto
    moreover have "0 \<notin> set ?cs"
      using tree_linksD(2) [OF t i, of 0] by auto
    ultimately show ?thesis
      unfolding eq by auto
  qed
  have node: "index nodes i = Some (nodes ! i)" "nd_children (nodes ! i) = ?cs"
    using i by (simp_all add: checked kids_def)
  from place_children_ok [OF cs, of "length ?all"] obtain sta' where s:
      "place_children ?cs (length ?all) sta = Some (length ?all + length ?cs, sta')" "length sta' = length sta"
      "\<forall>k<length ?cs. sta' ! (?cs ! k) = length ?all + k" "\<forall>j. j \<notin> set ?cs \<longrightarrow> sta' ! j = sta ! j"
    by blast
  let ?starts = "if ?cs = [] then starts else starts[i := length ?all]"
  have "place_node nodes i (length ?all) sta starts = Some (?cs, length ?all + length ?cs, sta', ?starts)"
    using node s(1) i len(2)
    by (cases "?cs = []") (simp_all add: place_node_def set_at_def)
  moreover have "laid_out nodes (seen @ [i]) (queue @ ?cs) sta' ?starts"
    unfolding laid_out_def
  proof (intro conjI ballI allI impI)
    show "(seen @ [i]) @ queue @ ?cs = 0 # concat (map (kids nodes) (seen @ [i]))"
      using eq by simp
    show "distinct ((seen @ [i]) @ queue @ ?cs)"
      using d fresh cs(1) by auto
    show "j < length nodes" if "j \<in> set ((seen @ [i]) @ queue @ ?cs)" for j
      using that inr [of j] cs(2) len by auto
    show "sta' ! (((seen @ [i]) @ queue @ ?cs) ! j) = j" if "j < length ((seen @ [i]) @ queue @ ?cs)" for j
    proof (cases "j < length ?all")
      case True
      then have "?all ! j \<notin> set ?cs"
        using fresh nth_mem [OF True] by blast
      moreover have "((seen @ [i]) @ queue @ ?cs) ! j = ?all ! j"
        using True nth_append [of ?all ?cs j] by simp
      ultimately show ?thesis
        using at [OF True] s(4) by simp
    next
      case False
      with that have k: "j - length ?all < length ?cs" "length ?all + (j - length ?all) = j"
        by simp_all
      have "((seen @ [i]) @ queue @ ?cs) ! j = ?cs ! (j - length ?all)"
        using False nth_append [of ?all ?cs j] by simp
      with s(3) k show ?thesis
        by simp
    qed
    show "sta' ! (kids nodes j ! k) = ?starts ! j + k"
      if "j \<in> set (seen @ [i])" "k < length (kids nodes j)" for j k
    proof (cases "j = i")
      case True
      from that(2) True have k: "k < length ?cs" by simp
      then have "?cs \<noteq> []" by auto
      with k s(3) i len(2) True show ?thesis by simp
    next
      case False
      with that(1) have j: "j \<in> set seen" by simp
      have "kids nodes j ! k \<in> set ?all"
        unfolding eq using j nth_mem [OF that(2)] by auto
      with fresh have "kids nodes j ! k \<notin> set ?cs"
        by blast
      with s(4) done_kids [OF j that(2)] False show ?thesis
        by simp
    qed
  qed (use s len in simp_all)
  ultimately show thesis
    by (rule that)
qed

lemma place_loop_ok:
  assumes t: "tree_links nodes"
  shows "laid_out nodes seen queue sta starts \<Longrightarrow>
    \<exists>seen' sta' starts'. place_loop nodes queue (length (seen @ queue)) sta starts = Some (sta', starts')
      \<and> laid_out nodes seen' [] sta' starts'"
proof (induction "length nodes - length seen" arbitrary: seen queue sta starts rule: less_induct)
  case less
  show ?case
  proof (cases queue)
    case Nil
    with less.prems show ?thesis
      by (auto simp: place_loop.simps [of _ "[]"])
  next
    case (Cons i rest)
    from place_node_ok [OF t less.prems [unfolded Cons]] obtain sta' starts' where
      step: "place_node nodes i (length (seen @ i # rest)) sta starts
        = Some (kids nodes i, length (seen @ i # rest) + length (kids nodes i), sta', starts')"
      and next_l: "laid_out nodes (seen @ [i]) (rest @ kids nodes i) sta' starts'" .
    have "distinct (seen @ i # rest)" "set (seen @ i # rest) \<subseteq> {..<length nodes}"
      using laid_outD(2,3) [OF less.prems] unfolding Cons by blast+
    then have "length (seen @ i # rest) \<le> length nodes"
      using card_mono [of "{..<length nodes}" "set (seen @ i # rest)"] distinct_card by fastforce
    then have "length nodes - length (seen @ [i]) < length nodes - length seen"
      by simp
    from less.hyps [OF this next_l] obtain seen' sta'' starts'' where
      run: "place_loop nodes (rest @ kids nodes i) (length ((seen @ [i]) @ rest @ kids nodes i)) sta' starts'
        = Some (sta'', starts'')" "laid_out nodes seen' [] sta'' starts''"
      by blast
    have "length ((seen @ [i]) @ rest @ kids nodes i) = length (seen @ i # rest) + length (kids nodes i)"
      by simp
    with run step show ?thesis
      unfolding Cons by (subst place_loop.simps) (simp only: list.case bind.bind_lunit prod.case, blast)
  qed
qed

subsection \<open>The result\<close>

text \<open>\<open>placed nodes dest abi_to_safe safe_to_abi\<close>: every node has its place in \<open>dest\<close>, the two tables are inverse to each
  other, and the children of a node are at consecutive places.\<close>

definition placed :: "node_data list \<Rightarrow> abi_node list \<Rightarrow> nat list \<Rightarrow> nat list \<Rightarrow> bool" where
  "placed nodes dest abi_to_safe safe_to_abi \<longleftrightarrow>
     length abi_to_safe = length nodes \<and> length safe_to_abi = length nodes \<and> length nodes \<le> length dest
   \<and> safe_to_abi ! 0 = 0
   \<and> (\<forall>i<length nodes. safe_to_abi ! i < length nodes \<and> abi_to_safe ! (safe_to_abi ! i) = i
       \<and> (\<exists>start. dest ! (safe_to_abi ! i) = abi_node_of (nodes ! i) start
           \<and> (\<forall>k<length (kids nodes i). safe_to_abi ! (kids nodes i ! k) = start + k)))"

lemma laid_out_all:
  assumes t: "tree_links nodes" and n: "nodes \<noteq> []" and l: "laid_out nodes seen [] sta starts"
  shows "set seen = {..<length nodes}" and "distinct sta" and "\<forall>j\<in>set sta. j < length nodes" and "sta ! 0 = 0"
proof -
  note eq = laid_outD(1) [OF l, simplified] and d = laid_outD(2) [OF l, simplified]
    and inr = laid_outD(3) [OF l, simplified] and len = laid_outD(4) [OF l] and at = laid_outD(6) [OF l, simplified]
  have "c < length nodes \<longrightarrow> c \<in> set seen" for c
  proof (induction c rule: less_induct)
    case (less c)
    show ?case
    proof (cases "c = 0")
      case True
      have "0 \<in> set (0 # concat (map (kids nodes) seen))" by simp
      then have "0 \<in> set seen" by (simp only: eq [symmetric])
      with True show ?thesis by simp
    next
      case False
      show ?thesis
      proof
        assume "c < length nodes"
        with tree_linksD(4) [OF t this] False obtain p where p: "p < c" "c \<in> set (kids nodes p)"
          by blast
        with less.IH [OF p(1)] \<open>c < length nodes\<close> have "p \<in> set seen" by simp
        with p(2) have "c \<in> set (0 # concat (map (kids nodes) seen))" by auto
        then show "c \<in> set seen" by (simp only: eq [symmetric])
      qed
    qed
  qed
  with inr show all: "set seen = {..<length nodes}"
    by auto
  then have ln: "length seen = length nodes"
    using distinct_card [OF d] by simp
  have pos: "\<exists>j<length nodes. seen ! j = i \<and> sta ! i = j" if "i < length nodes" for i
  proof -
    have "i \<in> set seen"
      using that all by simp
    then obtain j where "j < length seen" "seen ! j = i"
      by (auto simp: in_set_conv_nth)
    with at [of j] ln show ?thesis by auto
  qed
  show "\<forall>j\<in>set sta. j < length nodes"
    using pos len by (auto simp: in_set_conv_nth)
  show "distinct sta"
    unfolding distinct_conv_nth
  proof (intro allI impI)
    fix i j assume "i < length sta" "j < length sta" "i \<noteq> j"
    with pos [of i] pos [of j] len show "sta ! i \<noteq> sta ! j" by auto
  qed
  have "seen ! 0 = 0"
    by (subst eq) simp
  with at [of 0] ln n show "sta ! 0 = 0" by simp
qed

theorem materialize_nodes_ok:
  assumes t: "tree_links nodes" and n: "nodes \<noteq> []" and dest: "length nodes \<le> length dest"
  obtains dest' abi_to_safe safe_to_abi where
    "materialize_nodes nodes 0 dest = Some (dest', abi_to_safe, safe_to_abi)"
    and "length dest' = length dest" and "placed nodes dest' abi_to_safe safe_to_abi"
    and "\<forall>j. length nodes \<le> j \<longrightarrow> dest' ! j = dest ! j"
proof -
  let ?n = "length nodes"
  have first: "set_at (replicate ?n 0) 0 (0 :: nat) = Some (replicate ?n 0)"
    using n by (cases ?n) (simp_all add: set_at_def)
  have "laid_out nodes [] [0] (replicate ?n 0) (replicate ?n 0)"
    using n by (simp add: laid_out_def)
  from place_loop_ok [OF t this] obtain seen sta starts where
    loop: "place_loop nodes [0] 1 (replicate ?n 0) (replicate ?n 0) = Some (sta, starts)"
    and l: "laid_out nodes seen [] sta starts"
    by auto
  note all = laid_out_all [OF t n l] and len = laid_outD(4,5) [OF l]
  have "\<forall>c\<in>set sta. c < length (replicate ?n (0 :: nat))"
    using all(3) by simp
  from place_children_ok [OF all(2) this, of 0] obtain ats where
    a: "place_children sta 0 (replicate ?n 0) = Some (0 + length sta, ats)" "length ats = ?n"
      "\<forall>k<length sta. ats ! (sta ! k) = 0 + k"
    by auto
  have "0 + ?n \<le> length sta" "length starts = length sta" "\<forall>j\<in>set sta. j < length dest"
    using len all(3) dest by auto
  from fill_nodes_ok [OF this(1,2) all(2) this(3)] obtain dest' where
    f: "fill_nodes nodes 0 sta starts dest = Some dest'" "length dest' = length dest"
      "\<forall>k<?n. dest' ! (sta ! (0 + k)) = abi_node_of (nodes ! k) (starts ! (0 + k))"
      "\<forall>j. j \<notin> set sta \<longrightarrow> dest' ! j = dest ! j"
    by blast
  have "materialize_nodes nodes 0 dest = Some (dest', ats, sta)"
    using n first loop a(1) f(1) by (simp add: materialize_nodes_def Let_def invert_table_place)
  moreover have "placed nodes dest' ats sta"
    unfolding placed_def
  proof (intro conjI allI impI)
    fix i assume i: "i < ?n"
    show "sta ! i < ?n"
      using all(3) i len by simp
    show "ats ! (sta ! i) = i"
      using a(3) i len by simp
    show "\<exists>start. dest' ! (sta ! i) = abi_node_of (nodes ! i) start
        \<and> (\<forall>k<length (kids nodes i). sta ! (kids nodes i ! k) = start + k)"
      using f(3) laid_outD(7) [OF l, of i] all(1) i by (intro exI [of _ "starts ! i"]) simp
  qed (use len a(2) f(2) dest all(4) in simp_all)
  moreover have "\<forall>j. ?n \<le> j \<longrightarrow> dest' ! j = dest ! j"
    using f(4) all(3) by (meson not_le)
  ultimately show thesis
    using f(2) by (intro that)
qed

end
