(* ===== verification/Ffi_Node_Parse.thy ===== *)
theory Ffi_Node_Parse
  imports Ffi_Node
begin

section \<open>The C tree: sources, parsing, life cycle (\<open>src/ffi/node.rs\<close>)\<close>

text \<open>
  Initialisation over data, a read callback, a node pool or a file, the blocking and the non-blocking parse,
  and the destruction of a tree. A message that was parsed is dropped from the front of the data by the next parse.
\<close>

subsection \<open>Parsing\<close>

definition parse_failed :: "c_int \<Rightarrow> ffi_tree \<Rightarrow> bool \<times> ffi_tree" where
  "parse_failed err t = (False, flag_tree_error err (clear_abi_parse_views t))"

text \<open>What the side table and the tree record of a parsed message.\<close>

definition publish ::
  "tree \<Rightarrow> nat list \<times> nat list \<Rightarrow> abi_node list \<Rightarrow> tree_state \<Rightarrow> ffi_tree \<Rightarrow> ffi_tree"
where
  "publish core maps heap s t =
     t\<lparr>tr_state := Some (s\<lparr>ts_nodes := t_nodes core, ts_root := t_root core, ts_size := t_size core,
         ts_parsed := True, ts_abi_to_safe := fst maps, ts_safe_to_abi := snd maps, ts_heap_nodes := heap\<rparr>),
       tr_size := t_size core, tr_node_count := length (t_nodes core), tr_parser_state := 2\<rparr>"

definition do_parse_inner :: "ffi_tree \<Rightarrow> (bool \<times> ffi_tree) option" where
  "do_parse_inner t =
     (if tr_error t \<noteq> MPACK_OK then Some (False, t)
      else case tr_state t of
        None \<Rightarrow> Some (parse_failed MPACK_ERROR_BUG t)
      | Some s \<Rightarrow>
          (let max_nodes = (if ts_using_pool s then tr_pool_count t else ts_max_nodes s);
               limit = (if max_nodes = usize_max then None else Some max_nodes)
           in do {
             data \<leftarrow> raw_slice (tr_data t) (tr_data_length t);
             core \<leftarrow> parse_with_limits data limit;
             (let nodes = t_nodes core; root = case_option 0 id (t_root core)
              in if t_error core \<noteq> Err_Ok then Some (parse_failed (core_error_to_abi (t_error core)) t)
                 else if ts_using_pool s then
                   if length nodes > tr_pool_count t then Some (parse_failed MPACK_ERROR_TOO_BIG t)
                   else if tr_pool t = None \<or> nodes = [] then Some (True, publish core ([], []) [] s t)
                   else do {
                     pool \<leftarrow> tr_pool t;
                     (pool, maps) \<leftarrow> materialize_nodes nodes root pool;
                     Some (True, publish core maps [] s (t\<lparr>tr_pool := Some pool, tr_root := Entry 0\<rparr>))
                   }
                 else do {
                   (heap, maps) \<leftarrow> materialize_nodes nodes root (replicate (max (length nodes) 1) node_data_nil);
                   Some (True, publish core maps heap s
                     (t\<lparr>tr_root := if nodes \<noteq> [] then Entry 0 else Nil_Node\<rparr>))
                 })
           }))"

subsection \<open>Filling from a read callback\<close>

text \<open>The calls of the C program: the callback gets room for \<open>want\<close> bytes in the chunk.\<close>

definition call_read ::
  "tree_env \<Rightarrow> nat \<Rightarrow> u8 list \<Rightarrow> ffi_tree \<Rightarrow> (nat \<times> u8 list \<times> ffi_tree) option"
where
  "call_read env want chunk t =
     (case te_read env want t of
        (count, bytes, context, err) \<Rightarrow> do {
          chunk \<leftarrow> store_at chunk 0 bytes;
          Some (count, chunk, flag_tree_error err (t\<lparr>tr_context := context\<rparr>))
        })"

definition owned_length :: "ffi_tree \<Rightarrow> nat" where
  "owned_length t = (case tr_state t of None \<Rightarrow> 0 | Some s \<Rightarrow> length (ts_owned_data s))"

text \<open>Appending to the owned data may move it; a pointer to the old memory dangles.\<close>

definition append_owned :: "u8 list \<Rightarrow> ffi_tree \<Rightarrow> ffi_tree" where
  "append_owned bytes t =
     (case tr_state t of
        None \<Rightarrow> t
      | Some s \<Rightarrow> t\<lparr>tr_state := Some (s\<lparr>ts_owned_data := ts_owned_data s @ bytes\<rparr>),
          tr_data := map_option (\<lambda>_. []) (tr_data t)\<rparr>)"

text \<open>One iteration: \<open>Inl\<close> leaves the loop, with whether the fill is \<open>ok\<close> and whether it hit \<open>max_size\<close>.\<close>

definition fill_stream_round ::
  "tree_env \<Rightarrow> bool \<Rightarrow> nat \<Rightarrow> u8 list \<Rightarrow> ffi_tree \<Rightarrow> (bool \<times> bool \<times> ffi_tree + u8 list \<times> ffi_tree) option"
where
  "fill_stream_round env blocking max_size chunk t =
     (let current_len = owned_length t in
      if current_len \<ge> max_size then Some (Inl (True, True, t))
      else
        (let room = max_size - current_len
         in do {
           (read, chunk, t) \<leftarrow> call_read env (min room (length chunk)) chunk t;
           (if tr_error t \<noteq> MPACK_OK then Some (Inl (False, False, t))
            else if read = 0 \<or> read = usize_max then Some (Inl (True, False, t))
            else do {
              bytes \<leftarrow> slice chunk 0 (min read room);
              (let t = append_owned bytes t
               in if current_len + min read room \<ge> max_size then Some (Inl (True, True, t))
                  else if \<not> blocking then Some (Inl (True, False, t))
                  else Some (Inr (chunk, t)))
            })
         }))"

partial_function (option) fill_stream_loop ::
  "tree_env \<Rightarrow> bool \<Rightarrow> nat \<Rightarrow> u8 list \<Rightarrow> ffi_tree \<Rightarrow> (bool \<times> bool \<times> ffi_tree) option"
where
  "fill_stream_loop env blocking max_size chunk t =
     Option.bind (fill_stream_round env blocking max_size chunk t) (\<lambda>next.
       case next of
         Inl outcome \<Rightarrow> Some outcome
       | Inr (chunk, t) \<Rightarrow> fill_stream_loop env blocking max_size chunk t)"

definition fill_stream :: "tree_env \<Rightarrow> bool \<Rightarrow> ffi_tree \<Rightarrow> (bool \<times> bool \<times> ffi_tree) option" where
  "fill_stream env blocking t =
     (if \<not> tr_read_fn t then Some (True, False, t)
      else
        (let max_size = (case tr_state t of None \<Rightarrow> usize_max | Some s \<Rightarrow> ts_max_size s)
         in do {
           (ok, hit_max_size, t) \<leftarrow>
             fill_stream_loop env blocking max_size (replicate INITIAL_STREAM_CAPACITY 0) t;
           (if \<not> ok then Some (False, hit_max_size, t)
            else Some (True, hit_max_size,
              (case tr_state t of
                 None \<Rightarrow> t
               | Some s \<Rightarrow> t\<lparr>tr_data := Some (ts_owned_data s), tr_data_length := length (ts_owned_data s)\<rparr>)))
         }))"

definition mpack_tree_parse :: "tree_env \<Rightarrow> ffi_tree \<Rightarrow> ffi_tree option" where
  "mpack_tree_parse env t =
     (if tr_error t \<noteq> MPACK_OK then Some t
      else
        (let t = advance_previous_message t; has_read_fn = tr_read_fn t
         in do {
           (ok, hit_max_size, t) \<leftarrow> fill_stream env True t;
           (if \<not> ok then Some t
            else do {
              (parsed, t) \<leftarrow> do_parse_inner t;
              Some (if \<not> parsed \<and> has_read_fn then remap_stream_incomplete hit_max_size t else t)
            })
         }))"

definition mpack_tree_try_parse :: "tree_env \<Rightarrow> ffi_tree \<Rightarrow> (bool \<times> ffi_tree) option" where
  "mpack_tree_try_parse env t =
     (if tr_error t \<noteq> MPACK_OK then Some (False, t)
      else
        (let t = advance_previous_message t; has_read_fn = tr_read_fn t
         in do {
           (ok, hit_max_size, t) \<leftarrow> fill_stream env False t;
           (if \<not> ok then Some (False, t)
            else
              (let prev_error = tr_error t
               in do {
                 (ok, t) \<leftarrow> do_parse_inner t;
                 (if \<not> ok \<and> (tr_error t = MPACK_ERROR_INVALID \<or> tr_error t = MPACK_ERROR_EOF)
                  then
                    (if has_read_fn \<and> hit_max_size
                     then Some (False, replace_tree_error MPACK_ERROR_TOO_BIG t)
                     else Some (False, (clear_abi_parse_views t)\<lparr>tr_error := prev_error\<rparr>))
                  else Some (ok, t))
               }))
         }))"

subsection \<open>Initialisation\<close>

definition new_state :: tree_state where
  "new_state =
     \<lparr>ts_nodes = [], ts_root = None, ts_size = 0, ts_parsed = False, ts_heap_nodes = [], ts_abi_to_safe = [],
      ts_safe_to_abi = [], ts_using_pool = False, ts_owned_data = [], ts_close_file = None,
      ts_max_size = usize_max, ts_max_nodes = usize_max\<rparr>"

definition init_tree_clear :: "ffi_tree \<Rightarrow> ffi_tree" where
  "init_tree_clear t =
     \<lparr>tr_error_fn = False, tr_read_fn = False, tr_teardown = False, tr_context = None,
      tr_nil_node = node_data_nil, tr_missing_node = node_data_missing, tr_error = MPACK_OK,
      tr_data = None, tr_data_length = 0, tr_size = 0, tr_node_count = 0, tr_max_size = usize_max,
      tr_max_nodes = usize_max, tr_parser_state = 0, tr_root = Nil_Node, tr_pool = None, tr_pool_count = 0,
      tr_state = Some new_state, tr_reports = tr_reports t, tr_closed = tr_closed t\<rparr>"

definition mpack_tree_init_data :: "u8 list option \<Rightarrow> nat \<Rightarrow> ffi_tree \<Rightarrow> ffi_tree" where
  "mpack_tree_init_data data len t = (init_tree_clear t)\<lparr>tr_data := data, tr_data_length := len\<rparr>"

definition mpack_tree_init_stream ::
  "bool \<Rightarrow> c_stream option \<Rightarrow> nat \<Rightarrow> nat \<Rightarrow> ffi_tree \<Rightarrow> ffi_tree"
where
  "mpack_tree_init_stream read_fn context max_size max_nodes t =
     update_state (\<lambda>s. s\<lparr>ts_max_size := max_size, ts_max_nodes := max_nodes, ts_owned_data := []\<rparr>)
       ((init_tree_clear t)\<lparr>tr_read_fn := read_fn, tr_context := context, tr_max_size := max_size,
          tr_max_nodes := max_nodes\<rparr>)"

definition mpack_tree_init_pool ::
  "u8 list option \<Rightarrow> nat \<Rightarrow> abi_node list option \<Rightarrow> nat \<Rightarrow> ffi_tree \<Rightarrow> ffi_tree"
where
  "mpack_tree_init_pool data len pool pool_count t =
     (if pool_count = 0 then flag_tree_error MPACK_ERROR_BUG (init_tree_clear t)
      else update_state (\<lambda>s. s\<lparr>ts_using_pool := True, ts_max_nodes := pool_count\<rparr>)
        ((init_tree_clear t)\<lparr>tr_data := data, tr_data_length := len, tr_pool := pool,
           tr_pool_count := pool_count, tr_max_nodes := pool_count\<rparr>))"

definition load_file_data :: "tree_env \<Rightarrow> c_stream \<Rightarrow> nat \<Rightarrow> ((c_int + u8 list) \<times> c_stream) option" where
  "load_file_data env stream max_bytes =
     (case te_fseek env 0 SEEK_END stream of (code, stream) \<Rightarrow>
        if code \<noteq> 0 then Some (Inl MPACK_ERROR_IO, stream)
        else
          (let file_size_raw = te_ftell env stream
           in case te_fseek env 0 SEEK_SET stream of (code, stream) \<Rightarrow>
             if code \<noteq> 0 then Some (Inl MPACK_ERROR_IO, stream)
             else
               (case check_file_tree_bytes file_size_raw max_bytes of
                  Inl Err_Invalid \<Rightarrow> Some (Inl MPACK_ERROR_INVALID, stream)
                | Inl Err_TooBig \<Rightarrow> Some (Inl MPACK_ERROR_TOO_BIG, stream)
                | Inl _ \<Rightarrow> Some (Inl MPACK_ERROR_IO, stream)
                | Inr file_size \<Rightarrow>
                    (case te_fread env file_size stream of (bytes, stream) \<Rightarrow>
                       if length bytes > file_size then None
                       else if length bytes \<noteq> file_size then Some (Inl MPACK_ERROR_IO, stream)
                       else Some (Inr bytes, stream)))))"

definition close_stream :: "ffi_tree \<Rightarrow> ffi_tree" where
  "close_stream t = t\<lparr>tr_closed := tr_closed t + 1\<rparr>"

definition tree_file_check_max_bytes :: "nat \<Rightarrow> ffi_tree \<Rightarrow> bool \<times> ffi_tree" where
  "tree_file_check_max_bytes max_bytes t =
     (if max_bytes > LONG_MAX then (False, flag_tree_error MPACK_ERROR_BUG (init_tree_clear t)) else (True, t))"

text \<open>The tree takes the contents of a file over. The entry has just been made by \<open>init_tree_clear\<close>, so the
  branches of the code for a missing one are never taken.\<close>

definition store_owned :: "u8 list \<Rightarrow> c_stream option \<Rightarrow> ffi_tree \<Rightarrow> ffi_tree" where
  "store_owned bytes close_file t =
     (case tr_state t of
        None \<Rightarrow> flag_tree_error MPACK_ERROR_BUG (clear_abi_parse_views t)
      | Some s \<Rightarrow> t\<lparr>tr_state := Some (s\<lparr>ts_owned_data := bytes, ts_close_file := close_file\<rparr>),
          tr_data := Some bytes, tr_data_length := length bytes\<rparr>)"

definition mpack_tree_init_filename ::
  "tree_env \<Rightarrow> string option \<Rightarrow> nat \<Rightarrow> ffi_tree \<Rightarrow> ffi_tree option"
where
  "mpack_tree_init_filename env filename max_bytes t =
     (case filename of
        None \<Rightarrow> Some (flag_tree_error MPACK_ERROR_BUG (init_tree_clear t))
      | Some name \<Rightarrow>
          (case tree_file_check_max_bytes max_bytes t of (fine, t) \<Rightarrow>
             if \<not> fine then Some t
             else case te_fopen env name of
               None \<Rightarrow> Some (flag_tree_error MPACK_ERROR_IO (init_tree_clear t))
             | Some stream \<Rightarrow>
                 (let t = init_tree_clear t
                  in do {
                    (loaded, stream) \<leftarrow> load_file_data env stream max_bytes;
                    Some (close_stream (case loaded of
                        Inr bytes \<Rightarrow> store_owned bytes None t
                      | Inl err \<Rightarrow> flag_tree_error err t))
                  })))"

text \<open>The second result is the file of the C program after the call.\<close>

definition mpack_tree_init_stdfile ::
  "tree_env \<Rightarrow> c_stream option \<Rightarrow> nat \<Rightarrow> bool \<Rightarrow> ffi_tree \<Rightarrow> (ffi_tree \<times> c_stream option) option"
where
  "mpack_tree_init_stdfile env stdfile max_bytes close_when_done t =
     (case stdfile of
        None \<Rightarrow> Some (flag_tree_error MPACK_ERROR_BUG (init_tree_clear t), None)
      | Some stream \<Rightarrow>
          (case tree_file_check_max_bytes max_bytes t of (fine, t) \<Rightarrow>
             if \<not> fine then Some (if close_when_done then close_stream t else t, Some stream)
             else
               (let t = init_tree_clear t
                in do {
                  (loaded, stream) \<leftarrow> load_file_data env stream max_bytes;
                  Some (case loaded of
                      Inr bytes \<Rightarrow> store_owned bytes (if close_when_done then Some stream else None) t
                    | Inl err \<Rightarrow> flag_tree_error err (if close_when_done then close_stream t else t),
                    Some stream)
                })))"

definition mpack_tree_init_error :: "c_int \<Rightarrow> ffi_tree \<Rightarrow> ffi_tree" where
  "mpack_tree_init_error err t = flag_tree_error err (init_tree_clear t)"

definition mpack_tree_set_limits :: "nat \<Rightarrow> nat \<Rightarrow> ffi_tree \<Rightarrow> ffi_tree" where
  "mpack_tree_set_limits max_message_size max_message_nodes t =
     (if max_message_size = 0 \<or> max_message_nodes = 0 then flag_tree_error MPACK_ERROR_BUG t
      else update_state (\<lambda>s. s\<lparr>ts_max_size := max_message_size, ts_max_nodes := max_message_nodes\<rparr>)
        (t\<lparr>tr_max_size := max_message_size, tr_max_nodes := max_message_nodes\<rparr>))"

subsection \<open>Root and destruction\<close>

definition mpack_tree_root :: "ffi_tree \<Rightarrow> node_ptr \<times> ffi_tree" where
  "mpack_tree_root t =
     (if tr_error t \<noteq> MPACK_OK then (Nil_Node, t)
      else if (case tr_state t of None \<Rightarrow> False | Some s \<Rightarrow> ts_parsed s) then (tr_root t, t)
      else (Nil_Node, flag_tree_error MPACK_ERROR_BUG t))"

definition mpack_tree_flag_error :: "c_int \<Rightarrow> ffi_tree \<Rightarrow> ffi_tree" where
  "mpack_tree_flag_error err t = flag_tree_error err t"

text \<open>Dropping the entry frees the data it owns, so a pointer to that data dangles.\<close>

definition mpack_tree_destroy :: "tree_env \<Rightarrow> ffi_tree \<Rightarrow> c_int \<times> ffi_tree" where
  "mpack_tree_destroy env t =
     (let t = clear_abi_parse_views t;
          t = (case tr_state t of
              None \<Rightarrow> t
            | Some s \<Rightarrow>
                (let t = (if ts_close_file s \<noteq> None then close_stream t else t)
                 in t\<lparr>tr_state := None,
                      tr_data := (if ts_owned_data s \<noteq> [] then Some [] else tr_data t)\<rparr>));
          t = (if tr_teardown t then te_teardown env (t\<lparr>tr_teardown := False\<rparr>) else t)
      in (tr_error t, t))"

end
