(* ===== verification/Ffi_Node_Access.thy ===== *)
theory Ffi_Node_Access
  imports Ffi_Node_Parse Ffi_Expect
begin

section \<open>The C node accessors (\<open>src/ffi/node.rs\<close>)\<close>

text \<open>
  An accessor is a function of the node pointer and the tree; it returns its value and the tree with
  the error it may have flagged, \<open>None\<close> for undefined behaviour. The lookups by key and the
  enumerations run in the safe core, on the node table the tree has kept. A pointer into the data is the
  memory from there on; a destination of the C program is the list of its bytes, returned as it is afterwards.
\<close>

subsection \<open>Common steps\<close>

type_synonym 'a node_read = "ffi_tree \<Rightarrow> ('a \<times> ffi_tree) option"

definition node_flag :: "c_int \<Rightarrow> 'a \<Rightarrow> 'a node_read" where
  "node_flag err fallback t = Some (fallback, flag_tree_error err t)"

text \<open>The guard of nearly every accessor: on a tree with an error the answer is \<open>fallback\<close>.\<close>

definition guarded :: "'a \<Rightarrow> 'a node_read \<Rightarrow> 'a node_read" where
  "guarded fallback f t = (if tr_error t \<noteq> MPACK_OK then Some (fallback, t) else f t)"

text \<open>The type check: any other type flags \<open>Type\<close>.\<close>

definition of_type :: "c_int \<Rightarrow> node_ptr \<Rightarrow> 'a \<Rightarrow> 'a node_read \<Rightarrow> 'a node_read" where
  "of_type ty p fallback f t = do {
     actual \<leftarrow> nd_type p t;
     (if actual \<noteq> ty then node_flag MPACK_ERROR_TYPE fallback t else f t)
   }"

definition mpack_node_flag_error :: "c_int \<Rightarrow> ffi_tree \<Rightarrow> ffi_tree" where
  "mpack_node_flag_error err t = flag_tree_error err t"

subsection \<open>Tags and types\<close>

text \<open>The extension type is the byte before the payload.\<close>

definition exttype_at :: "u8 list option \<Rightarrow> u64 \<Rightarrow> i8 option" where
  "exttype_at data offset =
     (case data of
        None \<Rightarrow> Some 0
      | Some mem \<Rightarrow> if 0 < offset then index mem (unat offset - 1) else Some 0)"

definition zero_tag :: "c_int \<Rightarrow> u64 \<Rightarrow> mpack_tag" where
  "zero_tag ty v = \<lparr>mt_type = ty, mt_exttype = 0, mt_value = v\<rparr>"

definition abi_node_to_tag :: "abi_node \<Rightarrow> u8 list option \<Rightarrow> mpack_tag option" where
  "abi_node_to_tag nd data =
     (let ty = an_type nd;
          value = (case an_value nd of Number v \<Rightarrow> Some v | Children _ \<Rightarrow> None)
      in if ty = TYPE_MISSING then Some mpack_tag_zero
         else if ty = TYPE_NIL then Some mpack_tag_nil
         else if ty = TYPE_BOOL then do { v \<leftarrow> value; Some (zero_tag TYPE_BOOL (v AND 0xff)) }
         else if ty = TYPE_INT then do { v \<leftarrow> value; Some (zero_tag TYPE_INT v) }
         else if ty = TYPE_UINT then do { v \<leftarrow> value; Some (zero_tag TYPE_UINT v) }
         else if ty = TYPE_FLOAT then do { v \<leftarrow> value; Some (zero_tag TYPE_FLOAT (v AND 0xffffffff)) }
         else if ty = TYPE_DOUBLE then do { v \<leftarrow> value; Some (zero_tag TYPE_DOUBLE v) }
         else if ty = TYPE_STR then Some (zero_tag TYPE_STR (ucast (an_len nd)))
         else if ty = TYPE_BIN then Some (zero_tag TYPE_BIN (ucast (an_len nd)))
         else if ty = TYPE_ARRAY then Some (zero_tag TYPE_ARRAY (ucast (an_len nd)))
         else if ty = TYPE_MAP then Some (zero_tag TYPE_MAP (ucast (an_len nd)))
         else if ty = TYPE_EXT then do {
           v \<leftarrow> value;
           exttype \<leftarrow> exttype_at data v;
           Some \<lparr>mt_type = TYPE_EXT, mt_exttype = exttype, mt_value = ucast (an_len nd)\<rparr>
         }
         else Some mpack_tag_nil)"

definition mpack_node_tag :: "node_ptr \<Rightarrow> mpack_tag node_read" where
  "mpack_node_tag p t =
     (if p = Null_Node then Some (mpack_tag_nil, t)
      else guarded mpack_tag_nil (\<lambda>t. do {
        nd \<leftarrow> deref p t;
        tag \<leftarrow> abi_node_to_tag nd (tr_data t);
        Some (tag, t)
      }) t)"

definition mpack_node_type :: "node_ptr \<Rightarrow> c_int node_read" where
  "mpack_node_type p t =
     (if p = Null_Node then Some (TYPE_NIL, t)
      else guarded TYPE_NIL (\<lambda>t. do { ty \<leftarrow> nd_type p t; Some (ty, t) }) t)"

definition mpack_node_is_nil :: "node_ptr \<Rightarrow> bool node_read" where
  "mpack_node_is_nil p t =
     (if p = Null_Node then Some (True, t)
      else guarded True (\<lambda>t. do { ty \<leftarrow> nd_type p t; Some (ty = TYPE_NIL, t) }) t)"

definition mpack_node_is_missing :: "node_ptr \<Rightarrow> bool node_read" where
  "mpack_node_is_missing p t =
     (if p = Null_Node then Some (False, t)
      else guarded False (\<lambda>t. do { ty \<leftarrow> nd_type p t; Some (ty = TYPE_MISSING, t) }) t)"

definition mpack_node_nil :: "node_ptr \<Rightarrow> unit node_read" where
  "mpack_node_nil p = guarded () (of_type TYPE_NIL p () (\<lambda>t. Some ((), t)))"

definition mpack_node_missing :: "node_ptr \<Rightarrow> unit node_read" where
  "mpack_node_missing p = guarded () (of_type TYPE_MISSING p () (\<lambda>t. Some ((), t)))"

subsection \<open>Booleans and integers\<close>

definition mpack_node_true :: "node_ptr \<Rightarrow> unit node_read" where
  "mpack_node_true p = guarded () (of_type TYPE_BOOL p () (\<lambda>t. do {
     v \<leftarrow> nd_value p t;
     (if v = 0 then node_flag MPACK_ERROR_TYPE () t else Some ((), t))
   }))"

definition mpack_node_false :: "node_ptr \<Rightarrow> unit node_read" where
  "mpack_node_false p = guarded () (of_type TYPE_BOOL p () (\<lambda>t. do {
     v \<leftarrow> nd_value p t;
     (if v \<noteq> 0 then node_flag MPACK_ERROR_TYPE () t else Some ((), t))
   }))"

definition mpack_node_bool :: "node_ptr \<Rightarrow> bool node_read" where
  "mpack_node_bool p = guarded False (of_type TYPE_BOOL p False (\<lambda>t. do { v \<leftarrow> nd_value p t; Some (v \<noteq> 0, t) }))"

definition node_as_u64_impl :: "node_ptr \<Rightarrow> u64 node_read" where
  "node_as_u64_impl p = guarded 0 (\<lambda>t. do {
     ty \<leftarrow> nd_type p t;
     (if ty = TYPE_UINT then do { v \<leftarrow> nd_value p t; Some (v, t) }
      else if ty = TYPE_INT then do {
        v \<leftarrow> nd_value p t;
        (if 0 \<le> sint v then Some (v, t) else node_flag MPACK_ERROR_TYPE 0 t)
      }
      else node_flag MPACK_ERROR_TYPE 0 t)
   })"

definition node_as_i64_impl :: "node_ptr \<Rightarrow> i64 node_read" where
  "node_as_i64_impl p = guarded 0 (\<lambda>t. do {
     ty \<leftarrow> nd_type p t;
     (if ty = TYPE_INT then do { v \<leftarrow> nd_value p t; Some (v, t) }
      else if ty = TYPE_UINT then do {
        v \<leftarrow> nd_value p t;
        (if unat v < 2 ^ 63 then Some (v, t) else node_flag MPACK_ERROR_TYPE 0 t)
      }
      else node_flag MPACK_ERROR_TYPE 0 t)
   })"

text \<open>The bodies of the two macros.\<close>

definition node_uint_fn :: "node_ptr \<Rightarrow> 'a::len word node_read" where
  "node_uint_fn p t = do {
     (v, t) \<leftarrow> node_as_u64_impl p t;
     (if tr_error t \<noteq> MPACK_OK then Some (0, t)
      else if unat v \<ge> 2 ^ LENGTH('a) then node_flag MPACK_ERROR_TYPE 0 t
      else Some (ucast v, t))
   }"

definition node_sint_fn :: "node_ptr \<Rightarrow> 'a::len word node_read" where
  "node_sint_fn p t = do {
     (v, t) \<leftarrow> node_as_i64_impl p t;
     (if tr_error t \<noteq> MPACK_OK then Some (0, t)
      else if sint v < - (2 ^ (LENGTH('a) - 1)) \<or> sint v \<ge> 2 ^ (LENGTH('a) - 1)
      then node_flag MPACK_ERROR_TYPE 0 t
      else Some (ucast v, t))
   }"

definition mpack_node_u8 :: "node_ptr \<Rightarrow> u8 node_read" where "mpack_node_u8 = node_uint_fn"
definition mpack_node_u16 :: "node_ptr \<Rightarrow> u16 node_read" where "mpack_node_u16 = node_uint_fn"
definition mpack_node_u32 :: "node_ptr \<Rightarrow> u32 node_read" where "mpack_node_u32 = node_uint_fn"
definition mpack_node_i8 :: "node_ptr \<Rightarrow> i8 node_read" where "mpack_node_i8 = node_sint_fn"
definition mpack_node_i16 :: "node_ptr \<Rightarrow> i16 node_read" where "mpack_node_i16 = node_sint_fn"
definition mpack_node_i32 :: "node_ptr \<Rightarrow> i32 node_read" where "mpack_node_i32 = node_sint_fn"
definition mpack_node_u64 :: "node_ptr \<Rightarrow> u64 node_read" where "mpack_node_u64 = node_as_u64_impl"
definition mpack_node_i64 :: "node_ptr \<Rightarrow> i64 node_read" where "mpack_node_i64 = node_as_i64_impl"
definition mpack_node_int :: "node_ptr \<Rightarrow> c_int node_read" where "mpack_node_int = node_sint_fn"
definition mpack_node_uint :: "node_ptr \<Rightarrow> 32 word node_read" where "mpack_node_uint = node_uint_fn"

subsection \<open>Floats\<close>

definition node_float_impl :: "node_ptr \<Rightarrow> bool \<Rightarrow> f32 node_read" where
  "node_float_impl p strict = guarded 0 (\<lambda>t. do {
     ty \<leftarrow> nd_type p t;
     (if ty = TYPE_FLOAT then do { v \<leftarrow> nd_value p t; Some (ucast v, t) }
      else if ty = TYPE_DOUBLE \<and> \<not> strict then do { v \<leftarrow> nd_value p t; Some (f64_to_f32 v, t) }
      else if ty = TYPE_INT \<and> \<not> strict then do { v \<leftarrow> nd_value p t; Some (i64_to_f32 v, t) }
      else if ty = TYPE_UINT \<and> \<not> strict then do { v \<leftarrow> nd_value p t; Some (u64_to_f32 v, t) }
      else node_flag MPACK_ERROR_TYPE 0 t)
   })"

definition node_double_impl :: "node_ptr \<Rightarrow> bool \<Rightarrow> f64 node_read" where
  "node_double_impl p strict = guarded 0 (\<lambda>t. do {
     ty \<leftarrow> nd_type p t;
     (if ty = TYPE_DOUBLE then do { v \<leftarrow> nd_value p t; Some (v, t) }
      else if ty = TYPE_FLOAT then do { v \<leftarrow> nd_value p t; Some (f32_to_f64 (ucast v), t) }
      else if ty = TYPE_INT \<and> \<not> strict then do { v \<leftarrow> nd_value p t; Some (i64_to_f64 v, t) }
      else if ty = TYPE_UINT \<and> \<not> strict then do { v \<leftarrow> nd_value p t; Some (u64_to_f64 v, t) }
      else node_flag MPACK_ERROR_TYPE 0 t)
   })"

definition mpack_node_float :: "node_ptr \<Rightarrow> f32 node_read" where "mpack_node_float p = node_float_impl p False"
definition mpack_node_double :: "node_ptr \<Rightarrow> f64 node_read" where "mpack_node_double p = node_double_impl p False"
definition mpack_node_float_strict :: "node_ptr \<Rightarrow> f32 node_read" where
  "mpack_node_float_strict p = node_float_impl p True"
definition mpack_node_double_strict :: "node_ptr \<Rightarrow> f64 node_read" where
  "mpack_node_double_strict p = node_double_impl p True"

subsection \<open>Timestamps and extension types\<close>

text \<open>The inner result is the \<open>Option\<close> of the code.\<close>

definition decode_ext_timestamp :: "u8 list option \<Rightarrow> nat \<Rightarrow> u32 \<Rightarrow> timestamp option option" where
  "decode_ext_timestamp data offset len =
     (case data of
        None \<Rightarrow> Some None
      | Some mem \<Rightarrow> do {
          bytes \<leftarrow> slice mem offset (offset + unat len);
          (if len = 4
           then Some (Some \<lparr>seconds = word_of_nat (from_be bytes), nanoseconds = 0\<rparr>)
           else if len = 8 then
             (let packed = word_of_nat (from_be bytes) :: u64;
                  ns = ucast (drop_bit 34 packed) :: u32;
                  secs = packed AND (push_bit 34 1 - 1)
              in if ns > 999999999 then Some None else Some (Some \<lparr>seconds = secs, nanoseconds = ns\<rparr>))
           else if len = 12 then do {
             hi \<leftarrow> slice bytes 0 4;
             lo \<leftarrow> slice bytes 4 12;
             (let ns = word_of_nat (from_be hi) :: u32; secs = word_of_nat (from_be lo) :: i64
              in if ns > 999999999 then Some None else Some (Some \<lparr>seconds = secs, nanoseconds = ns\<rparr>))
           }
           else Some None)
        })"

definition mpack_node_timestamp :: "node_ptr \<Rightarrow> timestamp node_read" where
  "mpack_node_timestamp p = (let zero = \<lparr>seconds = 0, nanoseconds = 0\<rparr> in guarded zero (\<lambda>t. do {
     nd \<leftarrow> deref p t;
     (if an_type nd \<noteq> TYPE_EXT then node_flag MPACK_ERROR_TYPE zero t
      else do {
        offset \<leftarrow> nd_value p t;
        exttype \<leftarrow> exttype_at (tr_data t) offset;
        (if exttype \<noteq> -1 then node_flag MPACK_ERROR_TYPE zero t
         else do {
           ts \<leftarrow> decode_ext_timestamp (tr_data t) (unat offset) (an_len nd);
           (case ts of Some ts \<Rightarrow> Some (ts, t) | None \<Rightarrow> node_flag MPACK_ERROR_INVALID zero t)
         })
      })
   }))"

definition mpack_node_timestamp_seconds :: "node_ptr \<Rightarrow> i64 node_read" where
  "mpack_node_timestamp_seconds p t = do { (ts, t) \<leftarrow> mpack_node_timestamp p t; Some (seconds ts, t) }"

definition mpack_node_timestamp_nanoseconds :: "node_ptr \<Rightarrow> u32 node_read" where
  "mpack_node_timestamp_nanoseconds p t = do { (ts, t) \<leftarrow> mpack_node_timestamp p t; Some (nanoseconds ts, t) }"

definition mpack_node_exttype :: "node_ptr \<Rightarrow> i8 node_read" where
  "mpack_node_exttype p = guarded 0 (\<lambda>t. do {
     nd \<leftarrow> deref p t;
     (if an_type nd \<noteq> TYPE_EXT then node_flag MPACK_ERROR_TYPE 0 t
      else do {
        offset \<leftarrow> nd_value p t;
        exttype \<leftarrow> exttype_at (tr_data t) offset;
        Some (exttype, t)
      })
   })"

subsection \<open>Lengths and pointers\<close>

definition payload_type :: "c_int \<Rightarrow> bool" where
  "payload_type ty \<longleftrightarrow> ty = TYPE_STR \<or> ty = TYPE_BIN \<or> ty = TYPE_EXT"

definition mpack_node_data_len :: "node_ptr \<Rightarrow> u32 node_read" where
  "mpack_node_data_len p = guarded 0 (\<lambda>t. do {
     ty \<leftarrow> nd_type p t;
     (if payload_type ty then do { len \<leftarrow> nd_len p t; Some (len, t) } else node_flag MPACK_ERROR_TYPE 0 t)
   })"

definition mpack_node_strlen :: "node_ptr \<Rightarrow> nat node_read" where
  "mpack_node_strlen p = guarded 0 (of_type TYPE_STR p 0 (\<lambda>t. do { len \<leftarrow> nd_len p t; Some (unat len, t) }))"

definition mpack_node_bin_size :: "node_ptr \<Rightarrow> nat node_read" where
  "mpack_node_bin_size p = guarded 0 (of_type TYPE_BIN p 0 (\<lambda>t. do { len \<leftarrow> nd_len p t; Some (unat len, t) }))"

text \<open>A pointer into the data; \<open>None\<close> is the null pointer.\<close>

definition data_pointer :: "node_ptr \<Rightarrow> u8 list option node_read" where
  "data_pointer p t =
     (case tr_data t of
        None \<Rightarrow> Some (None, t)
      | Some mem \<Rightarrow> do { offset \<leftarrow> nd_value p t; Some (Some (drop (unat offset) mem), t) })"

definition node_data_pointer_impl :: "node_ptr \<Rightarrow> c_int \<Rightarrow> u8 list option node_read" where
  "node_data_pointer_impl p expected_type = guarded None (of_type expected_type p None (data_pointer p))"

definition node_data_pointer_multi_impl :: "node_ptr \<Rightarrow> bool \<Rightarrow> u8 list option node_read" where
  "node_data_pointer_multi_impl p accept_ext = guarded None (\<lambda>t. do {
     ty \<leftarrow> nd_type p t;
     (if \<not> (ty = TYPE_STR \<or> ty = TYPE_BIN \<or> accept_ext \<and> ty = TYPE_EXT)
      then node_flag MPACK_ERROR_TYPE None t else data_pointer p t)
   })"

definition mpack_node_str :: "node_ptr \<Rightarrow> u8 list option node_read" where
  "mpack_node_str p = node_data_pointer_impl p TYPE_STR"

definition mpack_node_data :: "node_ptr \<Rightarrow> u8 list option node_read" where
  "mpack_node_data p = node_data_pointer_multi_impl p True"

definition mpack_node_bin_data :: "node_ptr \<Rightarrow> u8 list option node_read" where
  "mpack_node_bin_data p = node_data_pointer_impl p TYPE_BIN"

subsection \<open>UTF-8 checks\<close>

definition check_utf8_with :: "(u8 list \<Rightarrow> bool) \<Rightarrow> node_ptr \<Rightarrow> unit node_read" where
  "check_utf8_with valid p = guarded () (of_type TYPE_STR p () (\<lambda>t. do {
     (pointer, t) \<leftarrow> node_data_pointer_impl p TYPE_STR t;
     len \<leftarrow> nd_len p t;
     (case pointer of
        None \<Rightarrow> Some ((), t)
      | Some mem \<Rightarrow> do {
          bytes \<leftarrow> slice mem 0 (unat len);
          (if \<not> valid bytes then node_flag MPACK_ERROR_TYPE () t else Some ((), t))
        })
   }))"

definition mpack_node_check_utf8 :: "node_ptr \<Rightarrow> unit node_read" where
  "mpack_node_check_utf8 = check_utf8_with check_utf8"

definition mpack_node_check_utf8_cstr :: "node_ptr \<Rightarrow> unit node_read" where
  "mpack_node_check_utf8_cstr = check_utf8_with check_utf8_no_null"

end
