(* ===== verification/Ffi_Node_Lookup.thy ===== *)
theory Ffi_Node_Lookup
  imports Ffi_Node_Access
begin

section \<open>The C node accessors: copies, children, lookups (\<open>src/ffi/node.rs\<close>)\<close>

text \<open>
  Copies of a payload into memory of the C program or a new block, children by position, and
  the enumerations and lookups by key, which the safe core runs on the node table the tree has kept.
\<close>

subsection \<open>Copies\<close>

text \<open>The payload as a slice: \<open>slice::from_raw_parts(tree_data.add(nd_value(node)), len)\<close>.\<close>

definition node_payload :: "node_ptr \<Rightarrow> nat \<Rightarrow> ffi_tree \<Rightarrow> u8 list option" where
  "node_payload p len t = do {
     offset \<leftarrow> nd_value p t;
     mem \<leftarrow> tr_data t;
     slice mem (unat offset) (unat offset + len)
   }"

definition store_some :: "u8 list option \<Rightarrow> nat \<Rightarrow> u8 list \<Rightarrow> u8 list option option" where
  "store_some buffer i bytes = do { mem \<leftarrow> buffer; mem \<leftarrow> store_at mem i bytes; Some (Some mem) }"

definition mpack_node_copy_data ::
  "node_ptr \<Rightarrow> u8 list option \<Rightarrow> nat \<Rightarrow> (nat \<times> u8 list option) node_read"
where
  "mpack_node_copy_data p buffer bufsize = guarded (0, buffer) (\<lambda>t. do {
     ty \<leftarrow> nd_type p t;
     (if \<not> payload_type ty then node_flag MPACK_ERROR_TYPE (0, buffer) t
      else do {
        len \<leftarrow> nd_len p t;
        (let len = unat len
         in if len > bufsize then node_flag MPACK_ERROR_TOO_BIG (0, buffer) t
            else if len > 0 \<and> buffer \<noteq> None then do {
              bytes \<leftarrow> node_payload p len t;
              buffer \<leftarrow> store_some buffer 0 bytes;
              Some ((len, buffer), t)
            }
            else Some ((len, buffer), t))
      })
   })"

definition mpack_node_copy_utf8 ::
  "node_ptr \<Rightarrow> u8 list option \<Rightarrow> nat \<Rightarrow> (nat \<times> u8 list option) node_read"
where
  "mpack_node_copy_utf8 p buffer bufsize = guarded (0, buffer) (of_type TYPE_STR p (0, buffer) (\<lambda>t. do {
     len \<leftarrow> nd_len p t;
     (let len = unat len
      in if len > bufsize then node_flag MPACK_ERROR_TOO_BIG (0, buffer) t
         else do {
           bytes \<leftarrow> node_payload p len t;
           (if \<not> check_utf8 bytes then node_flag MPACK_ERROR_TYPE (0, buffer) t
            else if len > 0 \<and> buffer \<noteq> None then do {
              buffer \<leftarrow> store_some buffer 0 bytes;
              Some ((len, buffer), t)
            }
            else Some ((len, buffer), t))
         })
   }))"

text \<open>The two copies that terminate the text; \<open>bad\<close> is the content that is refused. Every failure behind the two
  assertions leaves an empty text.\<close>

definition copy_cstr_with ::
  "(u8 list \<Rightarrow> bool) \<Rightarrow> node_ptr \<Rightarrow> u8 list option \<Rightarrow> nat \<Rightarrow> u8 list option node_read"
where
  "copy_cstr_with bad p buffer sz t =
     (if buffer = None \<or> sz = 0 then Some (buffer, t)
      else
        (let cleared = (\<lambda>err. do {
               buffer \<leftarrow> store_some buffer 0 [0];
               Some (buffer, flag_tree_error err t)
             })
         in if tr_error t \<noteq> MPACK_OK then cleared MPACK_OK
            else do {
              ty \<leftarrow> nd_type p t;
              (if ty \<noteq> TYPE_STR then cleared MPACK_ERROR_TYPE
               else do {
                 len \<leftarrow> nd_len p t;
                 (let len = unat len
                  in if len \<ge> sz then cleared MPACK_ERROR_TOO_BIG
                     else do {
                       bytes \<leftarrow> node_payload p len t;
                       (if bad bytes then cleared MPACK_ERROR_TYPE
                        else do {
                          buffer \<leftarrow> store_some buffer 0 bytes;
                          buffer \<leftarrow> store_some buffer len [0];
                          Some (buffer, t)
                        })
                     })
               })
            }))"

definition mpack_node_copy_cstr :: "node_ptr \<Rightarrow> u8 list option \<Rightarrow> nat \<Rightarrow> u8 list option node_read" where
  "mpack_node_copy_cstr = copy_cstr_with (\<lambda>bytes. 0 \<in> set bytes)"

definition mpack_node_copy_utf8_cstr :: "node_ptr \<Rightarrow> u8 list option \<Rightarrow> nat \<Rightarrow> u8 list option node_read" where
  "mpack_node_copy_utf8_cstr = copy_cstr_with (\<lambda>bytes. \<not> check_utf8_no_null bytes)"

definition mpack_node_data_alloc :: "tree_env \<Rightarrow> node_ptr \<Rightarrow> nat \<Rightarrow> u8 list option node_read" where
  "mpack_node_data_alloc env p maxsize = guarded None (\<lambda>t. do {
     ty \<leftarrow> nd_type p t;
     (if \<not> payload_type ty then node_flag MPACK_ERROR_TYPE None t
      else do {
        len \<leftarrow> nd_len p t;
        (let len = unat len
         in if len > maxsize then node_flag MPACK_ERROR_TOO_BIG None t
            else case te_malloc env (max len 1) of
              None \<Rightarrow> node_flag MPACK_ERROR_MEMORY None t
            | Some block \<Rightarrow>
                if len > 0 then do {
                  bytes \<leftarrow> node_payload p len t;
                  block \<leftarrow> store_at block 0 bytes;
                  Some (Some block, t)
                }
                else Some (Some block, t))
      })
   })"

definition node_cstr_alloc_with ::
  "(u8 list \<Rightarrow> bool) \<Rightarrow> tree_env \<Rightarrow> node_ptr \<Rightarrow> nat \<Rightarrow> u8 list option node_read"
where
  "node_cstr_alloc_with bad env p maxsize = guarded None (\<lambda>t.
     if maxsize < 1 then node_flag MPACK_ERROR_BUG None t
     else of_type TYPE_STR p None (\<lambda>t. do {
       len \<leftarrow> nd_len p t;
       (let len = unat len
        in if len \<ge> maxsize then node_flag MPACK_ERROR_TOO_BIG None t
           else do {
             bytes \<leftarrow> node_payload p len t;
             (if bad bytes then node_flag MPACK_ERROR_TYPE None t
              else case te_malloc env (len + 1) of
                None \<Rightarrow> node_flag MPACK_ERROR_MEMORY None t
              | Some block \<Rightarrow> do {
                  block \<leftarrow> store_at block 0 bytes;
                  block \<leftarrow> store_at block len [0];
                  Some (Some block, t)
                })
           })
     }) t)"

definition mpack_node_cstr_alloc :: "tree_env \<Rightarrow> node_ptr \<Rightarrow> nat \<Rightarrow> u8 list option node_read" where
  "mpack_node_cstr_alloc = node_cstr_alloc_with (\<lambda>bytes. 0 \<in> set bytes)"

definition mpack_node_utf8_cstr_alloc :: "tree_env \<Rightarrow> node_ptr \<Rightarrow> nat \<Rightarrow> u8 list option node_read" where
  "mpack_node_utf8_cstr_alloc = node_cstr_alloc_with (\<lambda>bytes. \<not> check_utf8_no_null bytes)"

subsection \<open>Children by position\<close>

text \<open>The child at \<open>offset\<close> from the pointer in the union; other numbers than zero are wild pointers.\<close>

definition child_node :: "node_ptr \<Rightarrow> nat \<Rightarrow> node_ptr node_read" where
  "child_node p offset t = do {
     v \<leftarrow> nd_union p t;
     (case v of
        Number n \<Rightarrow> if n = 0 then node_flag MPACK_ERROR_BUG Nil_Node t else None
      | Children k \<Rightarrow> Some (Entry (k + offset), t))
   }"

definition compound_child :: "c_int \<Rightarrow> node_ptr \<Rightarrow> nat \<Rightarrow> nat \<Rightarrow> node_ptr node_read" where
  "compound_child ty p i offset = guarded Nil_Node (of_type ty p Nil_Node (\<lambda>t. do {
     count \<leftarrow> nd_len p t;
     (if i \<ge> unat count then node_flag MPACK_ERROR_DATA Nil_Node t else child_node p offset t)
   }))"

definition mpack_node_array_length :: "node_ptr \<Rightarrow> nat node_read" where
  "mpack_node_array_length p = guarded 0 (of_type TYPE_ARRAY p 0 (\<lambda>t. do { len \<leftarrow> nd_len p t; Some (unat len, t) }))"

definition mpack_node_array_at :: "node_ptr \<Rightarrow> nat \<Rightarrow> node_ptr node_read" where
  "mpack_node_array_at p i = compound_child TYPE_ARRAY p i i"

definition mpack_node_map_count :: "node_ptr \<Rightarrow> nat node_read" where
  "mpack_node_map_count p = guarded 0 (of_type TYPE_MAP p 0 (\<lambda>t. do { len \<leftarrow> nd_len p t; Some (unat len, t) }))"

definition mpack_node_map_key_at :: "node_ptr \<Rightarrow> nat \<Rightarrow> node_ptr node_read" where
  "mpack_node_map_key_at p i = compound_child TYPE_MAP p i (i * 2)"

definition mpack_node_map_value_at :: "node_ptr \<Rightarrow> nat \<Rightarrow> node_ptr node_read" where
  "mpack_node_map_value_at p i = compound_child TYPE_MAP p i (i * 2 + 1)"

subsection \<open>The bridge to the safe core\<close>

text \<open>\<open>abi_base_and_count\<close>: whether the base pointer is not null, and the number of nodes.\<close>

definition abi_base_and_count :: "ffi_tree \<Rightarrow> tree_state \<Rightarrow> bool \<times> nat" where
  "abi_base_and_count t s =
     (if ts_using_pool s then (tr_pool t \<noteq> None, length (ts_abi_to_safe s)) else (True, length (ts_abi_to_safe s)))"

text \<open>The index of a node from its address; the two sentinels lie outside the storage.\<close>

definition abi_index_of :: "node_ptr \<Rightarrow> bool \<times> nat \<Rightarrow> nat option" where
  "abi_index_of p bc =
     (case bc of (base, count) \<Rightarrow>
        if p = Null_Node \<or> \<not> base \<or> count = 0 then None
        else case p of Entry k \<Rightarrow> if k \<ge> count then None else Some k | _ \<Rightarrow> None)"

definition abi_node_from_safe :: "ffi_tree \<Rightarrow> tree_state \<Rightarrow> nat \<Rightarrow> node_ptr" where
  "abi_node_from_safe t s safe_idx =
     (case index (ts_safe_to_abi s) safe_idx of
        None \<Rightarrow> Nil_Node
      | Some abi_idx \<Rightarrow>
          (case abi_base_and_count t s of (base, count) \<Rightarrow>
             if \<not> base \<or> abi_idx \<ge> count then Nil_Node else Entry abi_idx))"

definition with_core_node :: "node_ptr \<Rightarrow> (nat \<Rightarrow> tree \<Rightarrow> ('a \<times> tree) option) \<Rightarrow> 'a option node_read" where
  "with_core_node p f t =
     (case tr_state t of
        None \<Rightarrow> Some (None, t)
      | Some s \<Rightarrow>
          if \<not> ts_parsed s \<or> ts_nodes s = [] then Some (None, t)
          else (case abi_index_of p (abi_base_and_count t s) of
              None \<Rightarrow> Some (None, t)
            | Some abi_idx \<Rightarrow>
                (case index (ts_abi_to_safe s) abi_idx of
                   None \<Rightarrow> Some (None, t)
                 | Some safe_idx \<Rightarrow> do {
                     data \<leftarrow> raw_slice (tr_data t) (tr_data_length t);
                     (res, core) \<leftarrow> f safe_idx
                       \<lparr>t_data = data, t_nodes = ts_nodes s, t_root = ts_root s,
                        t_error = abi_error_to_core (tr_error t), t_size = ts_size s\<rparr>;
                     (let s = s\<lparr>ts_nodes := t_nodes core, ts_root := t_root core, ts_size := t_size core\<rparr>;
                          new_error = core_error_to_abi (t_error core);
                          t' = t\<lparr>tr_state := Some s\<rparr>
                      in Some (Some res,
                           if new_error \<noteq> MPACK_OK \<and> tr_error t = MPACK_OK then flag_tree_error new_error t' else t'))
                   })))"

definition ensure_abi_map :: "node_ptr \<Rightarrow> bool node_read" where
  "ensure_abi_map p t = do {
     ty \<leftarrow> nd_type p t;
     (if ty \<noteq> TYPE_MAP then node_flag MPACK_ERROR_TYPE False t else Some (True, t))
   }"

text \<open>\<open>core_map_required\<close> and \<open>core_map_optional\<close> differ in the answer for a key that was not found.\<close>

definition core_map_lookup ::
  "(ffi_tree \<Rightarrow> node_ptr) \<Rightarrow> node_ptr \<Rightarrow> (nat \<Rightarrow> tree \<Rightarrow> (nat option \<times> tree) option) \<Rightarrow> node_ptr node_read"
where
  "core_map_lookup absent p lookup = guarded Nil_Node (\<lambda>t. do {
     (is_map, t) \<leftarrow> ensure_abi_map p t;
     (if \<not> is_map then Some (Nil_Node, t)
      else do {
        (found, t) \<leftarrow> with_core_node p lookup t;
        (case found of
           Some (Some safe_idx) \<Rightarrow>
             Some (case tr_state t of None \<Rightarrow> Nil_Node | Some s \<Rightarrow> abi_node_from_safe t s safe_idx, t)
         | Some None \<Rightarrow> Some (absent t, t)
         | None \<Rightarrow> node_flag MPACK_ERROR_BUG Nil_Node t)
      })
   })"

definition core_map_required ::
  "node_ptr \<Rightarrow> (nat \<Rightarrow> tree \<Rightarrow> (nat option \<times> tree) option) \<Rightarrow> node_ptr node_read"
where
  "core_map_required = core_map_lookup (\<lambda>t. Nil_Node)"

definition core_map_optional ::
  "node_ptr \<Rightarrow> (nat \<Rightarrow> tree \<Rightarrow> (nat option \<times> tree) option) \<Rightarrow> node_ptr node_read"
where
  "core_map_optional = core_map_lookup (\<lambda>t. if tr_error t = MPACK_OK then Missing_Node else Nil_Node)"

definition core_map_contains :: "node_ptr \<Rightarrow> (nat \<Rightarrow> tree \<Rightarrow> (bool \<times> tree) option) \<Rightarrow> bool node_read" where
  "core_map_contains p check = guarded False (\<lambda>t. do {
     (is_map, t) \<leftarrow> ensure_abi_map p t;
     (if \<not> is_map then Some (False, t)
      else do {
        (found, t) \<leftarrow> with_core_node p check t;
        (case found of Some v \<Rightarrow> Some (v, t) | None \<Rightarrow> node_flag MPACK_ERROR_BUG False t)
      })
   })"

subsection \<open>Enumerations\<close>

text \<open>The loop that copies the candidate strings; a null pointer stands for the empty string.\<close>

primrec owned_strings :: "u8 list option list \<Rightarrow> nat \<Rightarrow> nat \<Rightarrow> u8 list list option" where
  "owned_strings strings i 0 = Some []"
| "owned_strings strings i (Suc n) = do {
     s_ptr \<leftarrow> index strings i;
     bytes \<leftarrow> cstr_bytes s_ptr;
     rest \<leftarrow> owned_strings strings (i + 1) n;
     Some (case_option [] id bytes # rest)
   }"

text \<open>\<open>Vec::with_capacity(count)\<close> of a vector of vectors, three words each, panics when its size overflows. It comes
  before the test for a null pointer, so a count that no array has can reach it. The panic is the value \<open>None\<close> of
  the read, and \<open>catch_ffi_panic\<close> of the exported functions turns it into \<open>MPACK_ERROR_BUG\<close>.\<close>

definition VEC_SIZE :: nat where "VEC_SIZE = 24"

definition node_enum_via_core ::
  "node_ptr \<Rightarrow> u8 list option list option \<Rightarrow> nat \<Rightarrow> bool \<Rightarrow> nat option node_read"
where
  "node_enum_via_core p strings count optional = guarded (Some count) (\<lambda>t. do {
     ty \<leftarrow> nd_type p t;
     (if ty \<noteq> TYPE_STR then Some (Some count, if \<not> optional then flag_tree_error MPACK_ERROR_TYPE t else t)
      else if count * VEC_SIZE > isize_max then Some (None, t)
      else do {
        views \<leftarrow> (case strings of None \<Rightarrow> Some [] | Some strings \<Rightarrow> owned_strings strings 0 count);
        (found, t) \<leftarrow> with_core_node p (\<lambda>n core. Some (enum_str views optional n core)) t;
        (case found of Some v \<Rightarrow> Some (Some v, t) | None \<Rightarrow> node_flag MPACK_ERROR_BUG (Some count) t)
      })
   })"

definition catch_ffi_panic :: "'a \<Rightarrow> 'a option node_read \<Rightarrow> 'a node_read" where
  "catch_ffi_panic fallback operation t = do {
     (res, t) \<leftarrow> operation t;
     (case res of Some v \<Rightarrow> Some (v, t) | None \<Rightarrow> node_flag MPACK_ERROR_BUG fallback t)
   }"

definition mpack_node_enum :: "node_ptr \<Rightarrow> u8 list option list option \<Rightarrow> nat \<Rightarrow> nat node_read" where
  "mpack_node_enum p strings count = catch_ffi_panic count (node_enum_via_core p strings count False)"

definition mpack_node_enum_optional :: "node_ptr \<Rightarrow> u8 list option list option \<Rightarrow> nat \<Rightarrow> nat node_read" where
  "mpack_node_enum_optional p strings count = catch_ffi_panic count (node_enum_via_core p strings count True)"

subsection \<open>Lookups by key\<close>

definition mpack_node_map_int :: "node_ptr \<Rightarrow> i64 \<Rightarrow> node_ptr node_read" where
  "mpack_node_map_int p num = core_map_required p (node_map_int num)"

definition mpack_node_map_uint :: "node_ptr \<Rightarrow> u64 \<Rightarrow> node_ptr node_read" where
  "mpack_node_map_uint p num = core_map_required p (node_map_uint num)"

definition mpack_node_map_str :: "node_ptr \<Rightarrow> u8 list option \<Rightarrow> nat \<Rightarrow> node_ptr node_read" where
  "mpack_node_map_str p str len t = do {
     key \<leftarrow> raw_slice str len;
     core_map_required p (node_map_str key) t
   }"

text \<open>A null pointer for the text is a bug of the caller; the check comes before all others.\<close>

definition mpack_node_map_cstr :: "node_ptr \<Rightarrow> u8 list option \<Rightarrow> node_ptr node_read" where
  "mpack_node_map_cstr p cstr t = do {
     key \<leftarrow> cstr_bytes cstr;
     (case key of
        None \<Rightarrow> node_flag MPACK_ERROR_BUG Nil_Node t
      | Some key \<Rightarrow> core_map_required p (node_map_str key) t)
   }"

definition mpack_node_map_int_optional :: "node_ptr \<Rightarrow> i64 \<Rightarrow> node_ptr node_read" where
  "mpack_node_map_int_optional p num = core_map_optional p (node_map_int_optional num)"

definition mpack_node_map_uint_optional :: "node_ptr \<Rightarrow> u64 \<Rightarrow> node_ptr node_read" where
  "mpack_node_map_uint_optional p num = core_map_optional p (node_map_uint_optional num)"

definition mpack_node_map_str_optional :: "node_ptr \<Rightarrow> u8 list option \<Rightarrow> nat \<Rightarrow> node_ptr node_read" where
  "mpack_node_map_str_optional p str len t = do {
     key \<leftarrow> raw_slice str len;
     core_map_optional p (node_map_str_optional key) t
   }"

definition mpack_node_map_cstr_optional :: "node_ptr \<Rightarrow> u8 list option \<Rightarrow> node_ptr node_read" where
  "mpack_node_map_cstr_optional p cstr t = do {
     key \<leftarrow> cstr_bytes cstr;
     (case key of
        None \<Rightarrow> node_flag MPACK_ERROR_BUG Nil_Node t
      | Some key \<Rightarrow> core_map_optional p (node_map_str_optional key) t)
   }"

definition mpack_node_map_contains_int :: "node_ptr \<Rightarrow> i64 \<Rightarrow> bool node_read" where
  "mpack_node_map_contains_int p num = core_map_contains p (node_map_contains_int num)"

definition mpack_node_map_contains_uint :: "node_ptr \<Rightarrow> u64 \<Rightarrow> bool node_read" where
  "mpack_node_map_contains_uint p num = core_map_contains p (node_map_contains_uint num)"

definition mpack_node_map_contains_str :: "node_ptr \<Rightarrow> u8 list option \<Rightarrow> nat \<Rightarrow> bool node_read" where
  "mpack_node_map_contains_str p str len t = do {
     key \<leftarrow> raw_slice str len;
     core_map_contains p (node_map_contains_str key) t
   }"

definition mpack_node_map_contains_cstr :: "node_ptr \<Rightarrow> u8 list option \<Rightarrow> bool node_read" where
  "mpack_node_map_contains_cstr p cstr t = do {
     key \<leftarrow> cstr_bytes cstr;
     (case key of
        None \<Rightarrow> Some (False, t)
      | Some key \<Rightarrow> core_map_contains p (node_map_contains_str key) t)
   }"

end
