(* ===== verification/Ffi_Node_Parsed.thy ===== *)
theory Ffi_Node_Parsed
  imports Ffi_Node_Layout Ffi_Node_Lookup
begin

section \<open>What a parsed C tree holds\<close>

text \<open>
  The byte before the payload of an extension is its type, which the C interface reads from there. A parsed
  message is then described by \<open>c_node_is t p v\<close>: the C node behind \<open>p\<close>, with the nodes its union points to
  and the data its offsets point at, is the value \<open>v\<close>.
\<close>

subsection \<open>The byte before the payload of an extension\<close>

definition ext_byte :: "u8 list \<Rightarrow> node_data \<Rightarrow> bool" where
  "ext_byte data nd \<longleftrightarrow>
     (case nd_tag nd of
        Tag_Ext ty n \<Rightarrow> 0 < nd_payload_off nd \<and> nd_payload_off nd \<le> length data \<and> data ! (nd_payload_off nd - 1) = ty
      | _ \<Rightarrow> True)"

lemma header_ext_last: "header hs t \<Longrightarrow> t = Tag_Ext ty n \<Longrightarrow> hs \<noteq> [] \<and> last hs = ty"
  by (induction rule: header.induct) auto

lemma pushed_ext_byte:
  assumes "header hs t" and "unread r = hs @ xs" and "wf_reader r"
  shows "ext_byte (r_data r) \<lparr>nd_tag = t, nd_payload_off = r_position r + length hs, nd_children = []\<rparr>"
proof -
  have "drop (r_position r) (r_data r) = hs @ xs" "r_position r \<le> length (r_data r)"
    using assms(2,3) by (simp_all add: unread_def wf_reader_def)
  then have "r_data r = take (r_position r) (r_data r) @ hs @ xs" "length (take (r_position r) (r_data r)) = r_position r"
    by (metis append_take_drop_id, simp)
  then obtain pre where pre: "r_data r = pre @ hs @ xs" "length pre = r_position r"
    by blast
  show ?thesis
  proof (cases "\<exists>ty n. t = Tag_Ext ty n")
    case True
    then obtain ty n where t: "t = Tag_Ext ty n" by blast
    from header_ext_last [OF assms(1) t] have h: "hs \<noteq> []" "last hs = ty" by simp_all
    have "(pre @ hs @ xs) ! (length pre + (length hs - 1)) = (hs @ xs) ! (length hs - 1)"
      by (rule nth_append_length_plus)
    also have "\<dots> = ty"
      using h by (simp add: nth_append last_conv_nth)
    also have "length pre + (length hs - 1) = length pre + length hs - 1"
      using h(1) by (simp add: Suc_leI)
    finally have "(pre @ hs @ xs) ! (length pre + length hs - 1) = ty" .
    with h(1) pre show ?thesis by (simp add: ext_byte_def t Suc_leI)
  next
    case False
    then show ?thesis by (simp add: ext_byte_def split: tag.split)
  qed
qed

lemma ext_byte_children:
  "\<forall>nd\<in>set nodes. ext_byte data nd \<Longrightarrow> p < length nodes \<Longrightarrow> \<forall>nd\<in>set (add_children p cs nodes). ext_byte data nd"
proof
  fix nd assume e: "\<forall>nd\<in>set nodes. ext_byte data nd" and p: "p < length nodes"
    and "nd \<in> set (add_children p cs nodes)"
  then consider "nd = (nodes ! p)\<lparr>nd_children := nd_children (nodes ! p) @ cs\<rparr>" | "nd \<in> set nodes"
    unfolding add_children_def using set_update_subset_insert by fastforce
  then show "ext_byte data nd"
  proof cases
    case 1
    have "ext_byte data (nodes ! p)"
      using e p by simp
    with 1 show ?thesis by (simp add: ext_byte_def cong: tag.case_cong)
  next
    case 2
    with e show ?thesis by simp
  qed
qed

lemma open_compound_same:
  assumes "open_compound i r nodes stack = Some (Inr (r', nodes', stack'))"
  shows "r' = r \<and> nodes' = nodes"
  using assms by (auto simp: open_compound_def bind_eq_Some_conv reserve_children_def split: option.splits if_splits)

lemma parse_child_ext_bytes:
  assumes run: "parse_child max_nodes r nodes f stack = Some (Inr (r', nodes', stack'))"
    and ok: "r_error r = Err_Ok" and wf: "wf_reader r" and e: "\<forall>nd\<in>set nodes. ext_byte (r_data r) nd"
  shows "(\<forall>nd\<in>set nodes'. ext_byte (r_data r) nd) \<and> r_data r' = r_data r"
proof -
  from run obtain i r1 nodes1 where push: "parse_push_node max_nodes r nodes = Some (Some i, r1, nodes1)"
    by (auto simp: parse_child_def Let_def bind_eq_Some_conv split: option.splits)
  from parse_push_node_SomeD [OF ok push] obtain hs t pl rest where h: "header hs t"
      "unread r = hs @ pl @ rest" "r1 = advance (length hs + length pl) r" "i = length nodes"
      "nodes1 = nodes @ [\<lparr>nd_tag = t, nd_payload_off = r_position r + length hs, nd_children = []\<rparr>]"
    by metis
  have e1: "\<forall>nd\<in>set nodes1. ext_byte (r_data r) nd"
    using e pushed_ext_byte [OF h(1,2) wf] by (auto simp: h(5))
  from run have p: "pf_node_index f < length nodes1"
    by (auto simp: parse_child_def push Let_def bind_eq_Some_conv index_def split: if_splits)
  from run have "open_compound i r1 (add_children (pf_node_index f) [i] nodes1) (f\<lparr>pf_remaining := pf_remaining f - 1\<rparr> # stack)
      = Some (Inr (r', nodes', stack'))"
    using p by (auto simp: parse_child_def push Let_def checked add_children_def split: if_splits)
  from open_compound_same [OF this] have "r' = r1" "nodes' = add_children (pf_node_index f) [i] nodes1"
    by simp_all
  with ext_byte_children [OF e1 p] h(3) show ?thesis
    by simp
qed

lemma parse_loop_ext_bytes:
  "parse_loop max_nodes r nodes stack = Some (True, r', nodes') \<Longrightarrow> r_error r = Err_Ok \<Longrightarrow> wf_reader r \<Longrightarrow>
    \<forall>nd\<in>set nodes. ext_byte (r_data r) nd \<Longrightarrow> \<forall>nd\<in>set nodes'. ext_byte (r_data r) nd"
proof (induction max_nodes r nodes stack rule: parse_loop.induct)
  case (1 max_nodes r nodes stack)
  show ?case
  proof (cases stack)
    case Nil
    with 1(3-) show ?thesis
      by (simp add: parse_loop.simps [of _ _ _ "[]"])
  next
    case (Cons f rest)
    show ?thesis
    proof (cases "pf_remaining f = 0")
      case True
      with 1(3) Cons have "parse_loop max_nodes r nodes rest = Some (True, r', nodes')"
        by (simp add: parse_loop.simps [of _ _ _ "f # rest"])
      from 1(1) [OF Cons True this 1(4-6)] show ?thesis .
    next
      case False
      from 1(3) False Cons obtain r1 nodes1 stack1
        where child: "parse_child max_nodes r nodes f rest = Some (Inr (r1, nodes1, stack1))"
        and run: "parse_loop max_nodes r1 nodes1 stack1 = Some (True, r', nodes')"
        by (subst (asm) parse_loop.simps) (auto split: option.splits sum.splits)
      from parse_child_ext_bytes [OF child 1(4-6)]
      have e: "\<forall>nd\<in>set nodes1. ext_byte (r_data r1) nd" "r_data r1 = r_data r"
        by simp_all
      obtain n where "r1 = advance n r" "wf_reader r1"
        by (rule parse_child_SomeD [OF child 1(4,5) False])
      then have "r_error r1 = Err_Ok" "wf_reader r1"
        using 1(4) by simp_all
      from 1(2) [OF Cons False child refl refl refl run this e(1)] e(2) show ?thesis by simp
    qed
  qed
qed

lemma parse_tree_ext_bytes:
  assumes "parse_tree max_nodes (reader_new data) = Some (Some root, r', nodes)"
  shows "\<forall>nd\<in>set nodes. ext_byte data nd"
proof -
  let ?r = "reader_new data"
  have start: "r_error ?r = Err_Ok" "wf_reader ?r" "r_data ?r = data"
    by (simp_all add: reader_new_def wf_reader_def)
  obtain root' r1 nodes1 r2 nodes2 stack2 where
    push: "parse_push_node max_nodes ?r [] = Some (Some root', r1, nodes1)"
    and opened: "open_compound root' r1 nodes1 [] = Some (Inr (r2, nodes2, stack2))"
    and run: "parse_loop max_nodes r2 nodes2 stack2 = Some (True, r', nodes)"
    using parse_tree_steps [OF assms] .
  from parse_push_node_SomeD [OF start(1) push] obtain hs t pl rest where h: "header hs t"
      "unread ?r = hs @ pl @ rest" "r1 = advance (length hs + length pl) ?r"
      "nodes1 = [] @ [\<lparr>nd_tag = t, nd_payload_off = r_position ?r + length hs, nd_children = []\<rparr>]"
    by metis
  have "wf_reader r1"
    unfolding h(3) using start(1) h(2) by (intro advances_wf [OF advances_advance start(2)]) simp_all
  moreover have "\<forall>nd\<in>set nodes1. ext_byte data nd"
    using pushed_ext_byte [OF h(1,2) start(2)] by (simp add: h(4) start(3))
  ultimately show ?thesis
    using parse_loop_ext_bytes [OF run] open_compound_same [OF opened] h(3) start by simp
qed

subsection \<open>The parse of the safe core, under a limit\<close>

lemma parse_limits_value:
  assumes v: "value_bytes bs v" and u: "data = bs @ rest" and short: "length data < 2 ^ 32"
    and room: "room_for max_nodes (node_count v)"
  obtains nodes where "parse_with_limits data max_nodes
      = Some \<lparr>t_data = data, t_nodes = nodes, t_root = Some 0, t_error = Err_Ok, t_size = length bs\<rparr>"
    and "length nodes = node_count v" and "represents data nodes 0 v" and "tree_links nodes"
    and "\<forall>nd\<in>set nodes. ext_byte data nd"
proof -
  obtain nodes where run: "parse_tree max_nodes (reader_new data)
      = Some (Some 0, advance (length bs) (reader_new data), nodes)"
    and n: "length nodes = node_count v" "represents data nodes 0 v"
    by (rule parse_tree_value [OF assms])
  have "parse_with_limits data max_nodes
      = Some \<lparr>t_data = data, t_nodes = nodes, t_root = Some 0, t_error = Err_Ok, t_size = length bs\<rparr>"
    using run by (simp add: parse_with_limits_def reader_new_def)
  with n parse_tree_links [OF run] parse_tree_ext_bytes [OF run] show thesis
    by (intro that) simp_all
qed

lemma parse_limits_failed:
  assumes "\<not> (\<exists>bs v rest. value_bytes bs v \<and> data = bs @ rest \<and> room_for max_nodes (node_count v))"
  obtains core where "parse_with_limits data max_nodes = Some core" and "t_error core \<in> parse_errors max_nodes"
  using assms by (cases rule: parse_tree_cases [of max_nodes data]) (auto simp: parse_with_limits_def intro: that)

subsection \<open>The C nodes of a value\<close>

definition c_node_is :: "ffi_tree \<Rightarrow> node_ptr \<Rightarrow> mvalue \<Rightarrow> bool" where
  "c_node_is t p v \<longleftrightarrow> tr_error t = MPACK_OK
     \<and> (\<exists>s mem data block i. tr_state t = Some s \<and> ts_parsed s \<and> tr_data t = Some mem
       \<and> slice mem 0 (tr_data_length t) = Some data \<and> length data \<le> usize_max
       \<and> node_block t = Some block \<and> placed (ts_nodes s) block (ts_abi_to_safe s) (ts_safe_to_abi s)
       \<and> (\<forall>nd\<in>set (ts_nodes s). ext_byte data nd)
       \<and> p = Entry (ts_safe_to_abi s ! i) \<and> represents data (ts_nodes s) i v)"

text \<open>What an accessor sees: the C node at its place, and the bytes of the payload.\<close>

lemma c_node_isE:
  assumes "c_node_is t p (MValue tg pl vs)"
  obtains nd start mem where "tr_error t = MPACK_OK" and "p \<noteq> Null_Node" and "deref p t = Some (abi_node_of nd start)"
    and "nd_tag nd = tg" and "nd_children nd = [] \<longleftrightarrow> vs = []" and "length vs = child_count tg"
    and "\<And>k. k < length vs \<Longrightarrow> c_node_is t (Entry (start + k)) (vs ! k)"
    and "tr_data t = Some mem" and "unat (word_of_nat (nd_payload_off nd) :: u64) = nd_payload_off nd"
    and "length pl = payload_len tg"
    and "slice mem (nd_payload_off nd) (nd_payload_off nd + payload_len tg) = Some pl"
    and "take (payload_len tg) (drop (nd_payload_off nd) mem) = pl"
    and "\<And>ty n. tg = Tag_Ext ty n \<Longrightarrow> 0 < nd_payload_off nd \<and> nd_payload_off nd - 1 < length mem
      \<and> mem ! (nd_payload_off nd - 1) = ty"
proof -
  from assms obtain s mem data block i where c: "tr_error t = MPACK_OK" "tr_state t = Some s" "ts_parsed s"
      "tr_data t = Some mem" "slice mem 0 (tr_data_length t) = Some data" "length data \<le> usize_max"
      "node_block t = Some block" "placed (ts_nodes s) block (ts_abi_to_safe s) (ts_safe_to_abi s)"
      "\<forall>nd\<in>set (ts_nodes s). ext_byte data nd"
      "p = Entry (ts_safe_to_abi s ! i)" "represents data (ts_nodes s) i (MValue tg pl vs)"
    unfolding c_node_is_def by blast
  let ?nd = "ts_nodes s ! i"
  from c(11) have r: "i < length (ts_nodes s)" "nd_tag ?nd = tg"
      "nd_payload_off ?nd + payload_len tg \<le> length data"
      "pl = take (payload_len tg) (drop (nd_payload_off ?nd) data)"
      "list_all2 (represents data (ts_nodes s)) (nd_children ?nd) vs" "length vs = child_count tg"
    by (auto elim: representsE)
  from c(5) have d: "tr_data_length t \<le> length mem" "data = take (tr_data_length t) mem"
    by (auto simp: slice_def split: if_splits)
  from c(8) r(1) obtain start where p: "ts_safe_to_abi s ! i < length (ts_nodes s)" "length (ts_nodes s) \<le> length block"
      "block ! (ts_safe_to_abi s ! i) = abi_node_of ?nd start"
      "\<forall>k<length (kids (ts_nodes s) i). ts_safe_to_abi s ! (kids (ts_nodes s) i ! k) = start + k"
    unfolding placed_def by blast
  have "deref p t = Some (abi_node_of ?nd start)"
    using c(7,10) p by (simp add: checked)
  moreover have "c_node_is t (Entry (start + k)) (vs ! k)" if "k < length vs" for k
  proof -
    have k: "k < length (kids (ts_nodes s) i)"
      using that list_all2_lengthD [OF r(5)] by (simp add: kids_def)
    have "represents data (ts_nodes s) (kids (ts_nodes s) i ! k) (vs ! k)"
      using list_all2_nthD2 [OF r(5) that] by (simp add: kids_def)
    moreover have "Entry (start + k) = Entry (ts_safe_to_abi s ! (kids (ts_nodes s) i ! k))"
      using p(4) k by simp
    ultimately show ?thesis
      unfolding c_node_is_def using c by blast
  qed
  moreover have off: "nd_payload_off ?nd \<le> length data"
    using r(3) by simp
  then have "unat (word_of_nat (nd_payload_off ?nd) :: u64) = nd_payload_off ?nd"
    using c(6) by (intro unat_of_nat_small) (simp add: usize_max_def)
  moreover have pl: "take (payload_len tg) (drop (nd_payload_off ?nd) mem) = pl"
  proof -
    have "payload_len tg \<le> tr_data_length t - nd_payload_off ?nd"
      using r(3) d by simp
    then show ?thesis
      using r(4) d(2) by (simp add: drop_take take_take min_absorb1)
  qed
  moreover have "slice mem (nd_payload_off ?nd) (nd_payload_off ?nd + payload_len tg) = Some pl"
    using pl r(3) d by (simp add: slice_def)
  moreover have "length pl = payload_len tg"
    using r(3,4) by simp
  moreover have "0 < nd_payload_off ?nd \<and> nd_payload_off ?nd - 1 < length mem \<and> mem ! (nd_payload_off ?nd - 1) = ty"
    if "tg = Tag_Ext ty n" for ty n
  proof -
    have "ext_byte data ?nd"
      using c(9) r(1) by simp
    then have "0 < nd_payload_off ?nd" "nd_payload_off ?nd \<le> length data" "data ! (nd_payload_off ?nd - 1) = ty"
      using r(2) that by (simp_all add: ext_byte_def)
    with d show ?thesis by simp
  qed
  moreover have "nd_children ?nd = [] \<longleftrightarrow> vs = []"
    using list_all2_lengthD [OF r(5)] by auto
  ultimately show thesis
    using c(1,4,10) r(2,6) by (intro that [of ?nd start mem]) auto
qed

subsection \<open>The fields of such a node\<close>

definition type_code :: "tag \<Rightarrow> c_int" where
  "type_code t = mt_type (tag_to_abi t)"

lemma type_code_simps [simp]:
  "type_code Tag_Nil = TYPE_NIL" "type_code (Tag_Bool b) = TYPE_BOOL" "type_code (Tag_Int v) = TYPE_INT"
  "type_code (Tag_Uint v) = TYPE_UINT" "type_code (Tag_Float f) = TYPE_FLOAT" "type_code (Tag_Double d) = TYPE_DOUBLE"
  "type_code (Tag_Str n) = TYPE_STR" "type_code (Tag_Bin n) = TYPE_BIN" "type_code (Tag_Array n) = TYPE_ARRAY"
  "type_code (Tag_Map n) = TYPE_MAP" "type_code (Tag_Ext ty n) = TYPE_EXT"
  by (simp_all add: type_code_def mpack_tag_nil_def TYPE_NIL_def)

lemma c_types_distinct [simp]:
  "TYPE_NIL \<noteq> TYPE_MISSING" "TYPE_MISSING \<noteq> TYPE_NIL"
  "TYPE_BOOL \<notin> {TYPE_MISSING, TYPE_NIL}" "TYPE_INT \<notin> {TYPE_MISSING, TYPE_NIL, TYPE_BOOL}"
  "TYPE_UINT \<notin> {TYPE_MISSING, TYPE_NIL, TYPE_BOOL, TYPE_INT}"
  "TYPE_FLOAT \<notin> {TYPE_MISSING, TYPE_NIL, TYPE_BOOL, TYPE_INT, TYPE_UINT}"
  "TYPE_DOUBLE \<notin> {TYPE_MISSING, TYPE_NIL, TYPE_BOOL, TYPE_INT, TYPE_UINT, TYPE_FLOAT}"
  by (simp_all add: c_types)

fun tag_size :: "tag \<Rightarrow> u32" where
  "tag_size (Tag_Str n) = n"
| "tag_size (Tag_Bin n) = n"
| "tag_size (Tag_Ext _ n) = n"
| "tag_size (Tag_Array n) = n"
| "tag_size (Tag_Map n) = n"
| "tag_size _ = 0"

fun tag_union :: "tag \<Rightarrow> nat \<Rightarrow> node_union \<Rightarrow> node_union" where
  "tag_union Tag_Nil off children = Number 0"
| "tag_union (Tag_Bool b) off children = Number (of_bool b)"
| "tag_union (Tag_Int v) off children = Number v"
| "tag_union (Tag_Uint v) off children = Number v"
| "tag_union (Tag_Float f) off children = Number (ucast f)"
| "tag_union (Tag_Double d) off children = Number d"
| "tag_union (Tag_Array n) off children = children"
| "tag_union (Tag_Map n) off children = children"
| "tag_union _ off children = Number (word_of_nat off)"

text \<open>The payload \<open>pl\<close> is in the data at \<open>off\<close>, and an extension's type in front of it.\<close>

definition payload_at :: "u8 list \<Rightarrow> nat \<Rightarrow> tag \<Rightarrow> u8 list \<Rightarrow> bool" where
  "payload_at mem off tg pl \<longleftrightarrow>
     unat (word_of_nat off :: u64) = off \<and> length pl = payload_len tg
   \<and> slice mem off (off + payload_len tg) = Some pl \<and> take (payload_len tg) (drop off mem) = pl
   \<and> payload_len tg \<le> length (drop off mem)
   \<and> (\<forall>ty n. tg = Tag_Ext ty n \<longrightarrow> exttype_at (Some mem) (word_of_nat off) = Some ty)"

lemma c_node_fields:
  assumes "c_node_is t p (MValue tg pl vs)"
  obtains off start mem where "tr_error t = MPACK_OK" and "p \<noteq> Null_Node"
    and "deref p t = Some \<lparr>an_type = type_code tg, an_len = tag_size tg,
        an_value = tag_union tg off (if vs = [] then Number 0 else Children start)\<rparr>"
    and "length vs = child_count tg"
    and "\<And>k. k < length vs \<Longrightarrow> c_node_is t (Entry (start + k)) (vs ! k)"
    and "tr_data t = Some mem" and "payload_at mem off tg pl"
  using assms
proof (rule c_node_isE)
  fix nd start mem
  assume c: "tr_error t = MPACK_OK" "p \<noteq> Null_Node" "deref p t = Some (abi_node_of nd start)"
    "nd_tag nd = tg" "nd_children nd = [] \<longleftrightarrow> vs = []" "length vs = child_count tg"
    "\<And>k. k < length vs \<Longrightarrow> c_node_is t (Entry (start + k)) (vs ! k)" "tr_data t = Some mem"
    "unat (word_of_nat (nd_payload_off nd) :: u64) = nd_payload_off nd" "length pl = payload_len tg"
    "slice mem (nd_payload_off nd) (nd_payload_off nd + payload_len tg) = Some pl"
    "take (payload_len tg) (drop (nd_payload_off nd) mem) = pl"
    "\<And>ty n. tg = Tag_Ext ty n \<Longrightarrow> 0 < nd_payload_off nd \<and> nd_payload_off nd - 1 < length mem
      \<and> mem ! (nd_payload_off nd - 1) = ty"
  have "abi_node_of nd start = \<lparr>an_type = type_code tg, an_len = tag_size tg,
      an_value = tag_union tg (nd_payload_off nd) (if vs = [] then Number 0 else Children start)\<rparr>"
    using c(4,5) by (cases tg) (simp_all add: abi_node_of_def children_value_def Let_def)
  moreover have "payload_at mem (nd_payload_off nd) tg pl"
  proof -
    have "payload_len tg \<le> length (drop (nd_payload_off nd) mem)"
      using c(10,12) by (metis length_take min.cobounded1)
    moreover have "exttype_at (Some mem) (word_of_nat (nd_payload_off nd)) = Some ty" if "tg = Tag_Ext ty n" for ty n
    proof -
      from c(13) [OF that] have e: "0 < nd_payload_off nd" "nd_payload_off nd - 1 < length mem"
          "mem ! (nd_payload_off nd - 1) = ty" by simp_all
      have "(0 :: u64) < word_of_nat (nd_payload_off nd)"
        using e(1) c(9) by (simp add: word_less_nat_alt)
      with e c(9) show ?thesis by (simp add: exttype_at_def checked)
    qed
    ultimately show ?thesis
      using c by (auto simp: payload_at_def)
  qed
  ultimately show thesis
    using c by (intro that [of "nd_payload_off nd" start mem]) simp_all
qed

lemma payload_atD:
  assumes "payload_at mem off tg pl"
  shows "unat (word_of_nat off :: u64) = off" and "length pl = payload_len tg"
    and "n = payload_len tg \<Longrightarrow> slice mem off (off + n) = Some pl"
    and "n = payload_len tg \<Longrightarrow> slice (drop off mem) 0 n = Some pl"
    and "tg = Tag_Ext ty m \<Longrightarrow> exttype_at (Some mem) (word_of_nat off) = Some ty"
  using assms by (auto simp: payload_at_def slice_def)

end
