(* ===== verification/Ffi_Node_Values.thy ===== *)
theory Ffi_Node_Values
  imports Ffi_Node_Parsed Ffi_Reader_Values Canonical
begin

section \<open>The C node accessors read the value\<close>

text \<open>
  On a C node that is a value, every accessor answers from the value alone: the scalar accessors
  what the tag holds or a \<open>Type\<close> error, the pointers lead to the payload, and the children by position are
  C nodes of the elements. A C program that walks the nodes with these accessors gets the value.
\<close>

subsection \<open>Scalars\<close>

definition answer :: "'a \<Rightarrow> 'a option \<Rightarrow> 'a node_read" where
  "answer fallback x t = (case x of Some v \<Rightarrow> Some (v, t) | None \<Rightarrow> node_flag MPACK_ERROR_TYPE fallback t)"

lemma answer_simps [simp]:
  "answer d (Some v) t = Some (v, t)" "answer d None t = node_flag MPACK_ERROR_TYPE d t"
  by (simp_all add: answer_def)

named_theorems node_reads "the definitions of the accessors"

lemmas node_steps = guarded_def of_type_def nd_type_def nd_len_def nd_union_def nd_value_def data_pointer_def
  node_payload_def payload_type_def

declare mpack_node_type_def [node_reads] mpack_node_is_nil_def [node_reads] mpack_node_is_missing_def [node_reads]
  mpack_node_nil_def [node_reads] mpack_node_missing_def [node_reads] mpack_node_true_def [node_reads]
  mpack_node_false_def [node_reads] mpack_node_bool_def [node_reads] node_as_u64_impl_def [node_reads]
  node_as_i64_impl_def [node_reads] node_float_impl_def [node_reads] node_double_impl_def [node_reads]
  mpack_node_strlen_def [node_reads] mpack_node_bin_size_def [node_reads] mpack_node_data_len_def [node_reads]
  mpack_node_tag_def [node_reads] mpack_node_exttype_def [node_reads]
  mpack_node_array_length_def [node_reads] mpack_node_map_count_def [node_reads]

lemma ucast_f32: "ucast (ucast (v :: f32) :: u64) = v"
  by (rule bit_word_eqI) (simp add: bit_simps)

lemma node_type_value:
  assumes "c_node_is t p (MValue tg pl vs)"
  shows "mpack_node_type p t = Some (type_code tg, t)" "nd_type p t = Some (type_code tg)"
    "mpack_node_is_nil p t = Some (tg = Tag_Nil, t)" "mpack_node_is_missing p t = Some (False, t)"
  by (rule c_node_fields [OF assms]; cases tg; simp add: node_reads node_steps c_types)+

lemma node_bool_value:
  assumes "c_node_is t p (MValue tg pl vs)"
  shows "mpack_node_bool p t = answer False (tag_bool tg) t"
    "mpack_node_nil p t = answer () (if tg = Tag_Nil then Some () else None) t"
    "mpack_node_true p t = answer () (if tg = Tag_Bool True then Some () else None) t"
    "mpack_node_false p t = answer () (if tg = Tag_Bool False then Some () else None) t"
    "mpack_node_missing p t = answer () None t"
  by (rule c_node_fields [OF assms]; cases tg; simp add: node_reads node_steps c_types)+

lemma node_number_value:
  assumes "c_node_is t p (MValue tg pl vs)"
  shows "node_as_u64_impl p t = answer 0 (tag_u64 tg) t" "node_as_i64_impl p t = answer 0 (tag_i64 tg) t"
    "node_float_impl p True t = answer 0 (tag_f32 tg) t" "node_double_impl p True t = answer 0 (tag_f64 tg) t"
  by (rule c_node_fields [OF assms]; cases tg; simp add: node_reads node_steps ucast_f32 c_types)+

text \<open>The narrow integer reads: a value that does not fit is a \<open>Type\<close> error as well.\<close>

definition fits_unsigned :: "u64 option \<Rightarrow> 'a::len word option" where
  "fits_unsigned x = (case x of None \<Rightarrow> None | Some v \<Rightarrow> if unat v < 2 ^ LENGTH('a) then Some (ucast v) else None)"

definition fits_signed :: "i64 option \<Rightarrow> 'a::len word option" where
  "fits_signed x = (case x of None \<Rightarrow> None
     | Some v \<Rightarrow> if - (2 ^ (LENGTH('a) - 1)) \<le> sint v \<and> sint v < 2 ^ (LENGTH('a) - 1) then Some (ucast v) else None)"

lemma c_node_ok: "c_node_is t p v \<Longrightarrow> tr_error t = MPACK_OK"
  by (simp add: c_node_is_def)

lemma flagged_type: "tr_error t = MPACK_OK \<Longrightarrow> tr_error (flag_tree_error MPACK_ERROR_TYPE t) \<noteq> MPACK_OK"
  by (simp add: flag_tree_error_def Let_def c_codes)

lemma node_narrow_value:
  assumes "c_node_is t p (MValue tg pl vs)"
  shows "node_uint_fn p t = answer 0 (fits_unsigned (tag_u64 tg) :: 'a::len word option) t"
    and "node_sint_fn p t = answer 0 (fits_signed (tag_i64 tg) :: 'a::len word option) t"
  using node_number_value [OF assms] c_node_ok [OF assms] flagged_type [OF c_node_ok [OF assms]]
  by (cases "tag_u64 tg", simp_all add: node_uint_fn_def fits_unsigned_def node_flag_def not_less)
    (cases "tag_i64 tg", simp_all add: node_sint_fn_def fits_signed_def node_flag_def not_less not_le)

lemma node_tag_value:
  assumes "c_node_is t p (MValue tg pl vs)"
  shows "mpack_node_tag p t = Some (tag_to_abi tg, t)"
proof -
  have "(of_bool b :: u64) AND 255 = of_bool b" for b
    by (cases b) simp_all
  moreover have "(ucast (f :: f32) :: u64) AND 0xFFFFFFFF = ucast f" for f
    by (rule masked_ucast)
  ultimately show ?thesis
    by (rule_tac c_node_fields [OF assms]; cases tg;
        simp add: node_reads node_steps abi_node_to_tag_def zero_tag_def c_types mpack_tag_nil_def payload_atD(5))
qed

subsection \<open>Payloads\<close>

definition has_payload :: "tag \<Rightarrow> bool" where
  "has_payload tg = (tag_str tg \<noteq> None \<or> tag_bin tg \<noteq> None \<or> tag_ext tg \<noteq> None)"

lemma node_size_value:
  assumes "c_node_is t p (MValue tg pl vs)"
  shows "mpack_node_strlen p t = answer 0 (map_option unat (tag_str tg)) t"
    "mpack_node_bin_size p t = answer 0 (map_option unat (tag_bin tg)) t"
    "mpack_node_data_len p t = answer 0 (if has_payload tg then Some (tag_size tg) else None) t"
    "mpack_node_exttype p t = answer 0 (map_option fst (tag_ext tg)) t"
    "mpack_node_array_length p t = answer 0 (map_option unat (tag_array tg)) t"
    "mpack_node_map_count p t = answer 0 (map_option unat (tag_map tg)) t"
  by (rule c_node_fields [OF assms]; cases tg;
      simp add: node_reads node_steps has_payload_def payload_atD(5) c_types)+

text \<open>A pointer to the payload.\<close>

definition points_to :: "u8 list option \<Rightarrow> u8 list \<Rightarrow> bool" where
  "points_to pointer pl \<longleftrightarrow> peek_bytes pointer (length pl) = Some pl"

lemma points_to_payload: "payload_at mem off tg pl \<Longrightarrow> points_to (Some (drop off mem)) pl"
  by (simp add: points_to_def peek_bytes_def payload_atD(2) payload_atD(4))

lemma node_pointer_value:
  assumes "c_node_is t p (MValue tg pl vs)"
  obtains pointer where "points_to pointer pl"
    and "mpack_node_data p t = answer None (if has_payload tg then Some pointer else None) t"
    and "mpack_node_str p t = answer None (if tag_str tg = None then None else Some pointer) t"
    and "mpack_node_bin_data p t = answer None (if tag_bin tg = None then None else Some pointer) t"
proof (rule c_node_fields [OF assms])
  fix off start mem
  assume f: "tr_error t = MPACK_OK" "p \<noteq> Null_Node" "tr_data t = Some mem" "payload_at mem off tg pl"
    "deref p t = Some \<lparr>an_type = type_code tg, an_len = tag_size tg,
        an_value = tag_union tg off (if vs = [] then Number 0 else Children start)\<rparr>"
  note defs = mpack_node_data_def mpack_node_str_def mpack_node_bin_data_def node_data_pointer_impl_def
    node_data_pointer_multi_impl_def
  show thesis
    by (rule that [OF points_to_payload [OF f(4)]]; use f payload_atD(1) [OF f(4)] in \<open>cases tg;
        simp add: defs node_steps has_payload_def c_types\<close>)
qed

lemma node_payload_value:
  assumes "c_node_is t p (MValue tg pl vs)" and "has_payload tg"
  shows "node_payload p (unat (tag_size tg)) t = Some pl" and "unat (tag_size tg) = length pl"
  by (rule c_node_fields [OF assms(1)]; use assms(2) in \<open>cases tg;
      simp add: node_steps has_payload_def payload_atD(1) payload_atD(2) payload_atD(3)\<close>)+

subsection \<open>Children by position\<close>

text \<open>The answer of an accessor: a C node of the element, or a \<open>Data\<close> error past the end.\<close>

definition child_answer :: "(node_ptr \<times> ffi_tree) option \<Rightarrow> ffi_tree \<Rightarrow> nat \<Rightarrow> mvalue list \<Rightarrow> bool" where
  "child_answer res t k vs \<longleftrightarrow>
     (if k < length vs then (\<exists>q. res = Some (q, t) \<and> c_node_is t q (vs ! k))
      else res = node_flag MPACK_ERROR_DATA Nil_Node t)"

lemma node_child_value:
  assumes "c_node_is t p (MValue tg pl vs)"
  shows "tag_array tg = None \<Longrightarrow> mpack_node_array_at p k t = node_flag MPACK_ERROR_TYPE Nil_Node t"
    and "tag_map tg = None \<Longrightarrow> mpack_node_map_key_at p k t = node_flag MPACK_ERROR_TYPE Nil_Node t
      \<and> mpack_node_map_value_at p k t = node_flag MPACK_ERROR_TYPE Nil_Node t"
    and "tg = Tag_Array n \<Longrightarrow> child_answer (mpack_node_array_at p k t) t k vs"
    and "tg = Tag_Map n \<Longrightarrow> child_answer (mpack_node_map_key_at p k t) t (2 * k) vs"
    and "tg = Tag_Map n \<Longrightarrow> child_answer (mpack_node_map_value_at p k t) t (2 * k + 1) vs"
proof -
  note defs = mpack_node_array_at_def mpack_node_map_key_at_def mpack_node_map_value_at_def compound_child_def
    node_steps child_node_def child_answer_def
  show "tag_array tg = None \<Longrightarrow> mpack_node_array_at p k t = node_flag MPACK_ERROR_TYPE Nil_Node t"
    by (rule c_node_fields [OF assms]; cases tg; simp add: defs c_types)
  show "tag_map tg = None \<Longrightarrow> mpack_node_map_key_at p k t = node_flag MPACK_ERROR_TYPE Nil_Node t
      \<and> mpack_node_map_value_at p k t = node_flag MPACK_ERROR_TYPE Nil_Node t"
    by (rule c_node_fields [OF assms]; cases tg; simp add: defs c_types)
  show "tg = Tag_Array n \<Longrightarrow> child_answer (mpack_node_array_at p k t) t k vs"
    by (rule c_node_fields [OF assms]; auto simp: defs c_types)
  show "tg = Tag_Map n \<Longrightarrow> child_answer (mpack_node_map_key_at p k t) t (2 * k) vs"
    by (rule c_node_fields [OF assms]; auto simp: defs c_types mult.commute)
  show "tg = Tag_Map n \<Longrightarrow> child_answer (mpack_node_map_value_at p k t) t (2 * k + 1) vs"
    by (rule c_node_fields [OF assms]; auto simp: defs c_types mult.commute simp del: add_Suc_right)
qed

subsection \<open>A C program that walks the nodes\<close>

text \<open>The program reads each node's tag, the payload it points to, and the children one after the other; \<open>d\<close>
  bounds the depth.\<close>

primrec c_node_elements ::
  "(nat \<Rightarrow> ffi_tree \<Rightarrow> (cvalue \<times> ffi_tree) option) \<Rightarrow> nat \<Rightarrow> nat \<Rightarrow> cvalue list node_read"
where
  "c_node_elements one i 0 t = Some ([], t)"
| "c_node_elements one i (Suc n) t = do {
     (v, t) \<leftarrow> one i t;
     (vs, t) \<leftarrow> c_node_elements one (i + 1) n t;
     Some (v # vs, t)
   }"

definition c_entry_at :: "node_ptr \<Rightarrow> nat \<Rightarrow> node_ptr node_read" where
  "c_entry_at p i = (if even i then mpack_node_map_key_at p (i div 2) else mpack_node_map_value_at p (i div 2))"

primrec c_node_value :: "nat \<Rightarrow> node_ptr \<Rightarrow> cvalue node_read" where
  "c_node_value 0 p t = None"
| "c_node_value (Suc d) p t = do {
     (tag, t) \<leftarrow> mpack_node_tag p t;
     (let ty = mt_type tag
      in if ty = TYPE_STR \<or> ty = TYPE_BIN \<or> ty = TYPE_EXT then do {
           (n, t) \<leftarrow> mpack_node_data_len p t;
           (pointer, t) \<leftarrow> mpack_node_data p t;
           pl \<leftarrow> peek_bytes pointer (unat n);
           Some (CValue tag pl [], t)
         }
         else if ty = TYPE_ARRAY then do {
           (n, t) \<leftarrow> mpack_node_array_length p t;
           (vs, t) \<leftarrow> c_node_elements (\<lambda>i t. do { (q, t) \<leftarrow> mpack_node_array_at p i t; c_node_value d q t }) 0 n t;
           Some (CValue tag [] vs, t)
         }
         else if ty = TYPE_MAP then do {
           (n, t) \<leftarrow> mpack_node_map_count p t;
           (vs, t) \<leftarrow> c_node_elements (\<lambda>i t. do { (q, t) \<leftarrow> c_entry_at p i t; c_node_value d q t }) 0 (2 * n) t;
           Some (CValue tag [] vs, t)
         }
         else Some (CValue tag [] [], t))
   }"

lemma c_node_elements_ok:
  "(\<And>k. k < length vs \<Longrightarrow> one (i + k) t = Some (abi_value (vs ! k), t)) \<Longrightarrow>
    c_node_elements one i (length vs) t = Some (map abi_value vs, t)"
proof (induction vs arbitrary: i)
  case Nil
  then show ?case by simp
next
  case (Cons v vs)
  have "one (i + 1 + k) t = Some (abi_value (vs ! k), t)" if "k < length vs" for k
    using Cons.prems [of "Suc k"] that by simp
  with Cons.IH [of "i + 1"] Cons.prems [of 0] show ?case by simp
qed

lemma entry_child:
  assumes "c_node_is t p (MValue (Tag_Map n) pl vs)"
  shows "child_answer (c_entry_at p i t) t i vs"
  using node_child_value(4) [OF assms refl, of "i div 2"] node_child_value(5) [OF assms refl, of "i div 2"]
  by (auto simp: c_entry_at_def elim!: evenE oddE)

lemma c_node_value_ok:
  "c_node_is t p v \<Longrightarrow> height v \<le> d \<Longrightarrow> c_node_value d p t = Some (abi_value v, t)"
proof (induction d arbitrary: p v)
  case 0
  then show ?case using height_pos [of v] by simp
next
  case (Suc d)
  obtain tg pl vs where v: "v = MValue tg pl vs"
    by (cases v)
  note c = Suc.prems(1) [unfolded v]
  note tag = node_tag_value [OF c] and size = node_size_value [OF c]
  have below: "\<forall>v\<in>set vs. height v \<le> d"
    using Suc.prems(2) v height_children by blast
  from c have len: "length vs = child_count tg" and pl: "length pl = payload_len tg"
    by (auto elim: c_node_isE)
  have kid: "do { (q, t) \<leftarrow> at i t; c_node_value d q t } = Some (abi_value (vs ! i), t)"
    if "child_answer (at i t) t i vs" "i < length vs" for at :: "nat \<Rightarrow> ffi_tree \<Rightarrow> (node_ptr \<times> ffi_tree) option" and i
    using that below Suc.IH by (auto simp: child_answer_def)
  consider "has_payload tg" | n where "tg = Tag_Array n" | n where "tg = Tag_Map n"
    | "\<not> has_payload tg" "tag_array tg = None" "tag_map tg = None"
    by (cases tg) (auto simp: has_payload_def)
  then show ?case
  proof cases
    case 1
    obtain pointer where ptr: "points_to pointer pl"
        "mpack_node_data p t = answer None (if has_payload tg then Some pointer else None) t"
      by (rule node_pointer_value [OF c])
    have "vs = []" "mt_type (tag_to_abi tg) \<in> {TYPE_STR, TYPE_BIN, TYPE_EXT}"
      using 1 len by (cases tg; simp add: has_payload_def)+
    moreover have "peek_bytes pointer (unat (tag_size tg)) = Some pl"
      using ptr(1) node_payload_value(2) [OF c 1] by (simp add: points_to_def)
    ultimately show ?thesis
      using tag size(3) ptr(2) 1 v by auto
  next
    case 2
    have "c_node_elements (\<lambda>i t. do { (q, t) \<leftarrow> mpack_node_array_at p i t; c_node_value d q t }) 0 (length vs) t
        = Some (map abi_value vs, t)"
      using kid [where at = "mpack_node_array_at p", OF node_child_value(3) [OF c 2]] by (intro c_node_elements_ok) simp
    with tag size(5) 2 len pl v show ?thesis
      by (simp add: c_types)
  next
    case 3
    have "c_node_elements (\<lambda>i t. do { (q, t) \<leftarrow> c_entry_at p i t; c_node_value d q t }) 0 (length vs) t
        = Some (map abi_value vs, t)"
      using kid [where at = "c_entry_at p", OF entry_child [OF c [unfolded 3]]] by (intro c_node_elements_ok) simp
    with tag size(6) 3 len pl v show ?thesis
      by (simp add: c_types)
  next
    case 4
    then have "vs = []" "pl = []"
      "mt_type (tag_to_abi tg) \<notin> {TYPE_STR, TYPE_BIN, TYPE_EXT, TYPE_ARRAY, TYPE_MAP}"
      using len pl by (cases tg; simp add: has_payload_def mpack_tag_nil_def c_types)+
    with tag v show ?thesis by simp
  qed
qed

section \<open>Parsing messages with a C tree\<close>

text \<open>
  \<open>tree_ready t\<close>: an initialised tree without an error whose data covers what is left to parse; \<open>unparsed t\<close> is
  that input, behind the message that was parsed last. A parse without a read callback reads one message from
  the front of it.
\<close>

definition tree_ready :: "ffi_tree \<Rightarrow> bool" where
  "tree_ready t \<longleftrightarrow> tr_error t = MPACK_OK
     \<and> (\<exists>s mem. tr_state t = Some s \<and> tr_data t = Some mem \<and> tr_data_length t \<le> length mem
       \<and> tr_data_length t < 2 ^ 32 \<and> tr_size t \<le> tr_data_length t
       \<and> (ts_owned_data s \<noteq> [] \<longrightarrow> mem = ts_owned_data s \<and> tr_data_length t = length mem)
       \<and> (ts_using_pool s \<longrightarrow> (\<exists>pool. tr_pool t = Some pool \<and> tr_pool_count t \<le> length pool)))"

definition unparsed :: "ffi_tree \<Rightarrow> u8 list" where
  "unparsed t = drop (tr_size t) (take (tr_data_length t) (case_option [] id (tr_data t)))"

definition node_limit :: "ffi_tree \<Rightarrow> nat option" where
  "node_limit t =
     (let m = (case tr_state t of None \<Rightarrow> usize_max
         | Some s \<Rightarrow> if ts_using_pool s then tr_pool_count t else ts_max_nodes s)
      in if m = usize_max then None else Some m)"

lemma tree_readyE:
  assumes "tree_ready t"
  obtains s mem where "tr_error t = MPACK_OK" and "tr_state t = Some s" and "tr_data t = Some mem"
    and "tr_data_length t \<le> length mem" and "tr_data_length t < 2 ^ 32" and "tr_size t \<le> tr_data_length t"
    and "ts_owned_data s \<noteq> [] \<longrightarrow> mem = ts_owned_data s \<and> tr_data_length t = length mem"
    and "ts_using_pool s \<longrightarrow> (\<exists>pool. tr_pool t = Some pool \<and> tr_pool_count t \<le> length pool)"
  using assms unfolding tree_ready_def by blast

subsection \<open>Dropping the previous message\<close>

lemma advance_ready:
  assumes "tree_ready t"
  shows "tree_ready (advance_previous_message t)" and "tr_size (advance_previous_message t) = 0"
    and "unparsed (advance_previous_message t) = unparsed t"
    and "node_limit (advance_previous_message t) = node_limit t"
    and "tr_read_fn (advance_previous_message t) = tr_read_fn t"
    and "\<exists>s. tr_state (advance_previous_message t) = Some s"
proof -
  obtain s mem where r: "tr_error t = MPACK_OK" "tr_state t = Some s" "tr_data t = Some mem"
      "tr_data_length t \<le> length mem" "tr_data_length t < 2 ^ 32" "tr_size t \<le> tr_data_length t"
      "ts_owned_data s \<noteq> [] \<longrightarrow> mem = ts_owned_data s \<and> tr_data_length t = length mem"
      "ts_using_pool s \<longrightarrow> (\<exists>pool. tr_pool t = Some pool \<and> tr_pool_count t \<le> length pool)"
    by (rule tree_readyE [OF assms])
  show "tr_size (advance_previous_message t) = 0" "tr_read_fn (advance_previous_message t) = tr_read_fn t"
    "\<exists>s. tr_state (advance_previous_message t) = Some s"
    using r(2) by (auto simp: advance_previous_message_def Let_def)
  show "node_limit (advance_previous_message t) = node_limit t"
    using r(2) by (auto simp: advance_previous_message_def Let_def node_limit_def clear_views_def)
  show "unparsed (advance_previous_message t) = unparsed t"
    using r by (auto simp: advance_previous_message_def Let_def unparsed_def drop_take)
  show "tree_ready (advance_previous_message t)"
    using r by (auto simp: advance_previous_message_def Let_def tree_ready_def clear_views_def)
qed

subsection \<open>One parse\<close>

lemma node_count_le:
  "value_bytes bs v \<Longrightarrow> node_count v \<le> length bs"
  "values_bytes bs vs \<Longrightarrow> sum_list (map node_count vs) \<le> length bs"
  by (induction rule: value_bytes_values_bytes.inducts) (auto dest: header_length)

lemma ready_input:
  assumes "tree_ready t" and "tr_size t = 0"
  shows "raw_slice (tr_data t) (tr_data_length t) = Some (unparsed t)" and "length (unparsed t) < 2 ^ 32"
  using assms by (auto elim!: tree_readyE simp: raw_slice_def unparsed_def slice_def)

lemma core_error_codes:
  "e \<in> parse_errors m \<Longrightarrow> e \<noteq> Err_Ok \<and> (core_error_to_abi e = MPACK_ERROR_INVALID
     \<or> m \<noteq> None \<and> core_error_to_abi e = MPACK_ERROR_TOO_BIG)"
  by (auto simp: parse_errors_def split: if_splits)

lemma parse_failed_error: "tr_error t = MPACK_OK \<Longrightarrow> tr_error (snd (parse_failed err t)) = err"
  by (simp add: parse_failed_def flag_tree_error_def clear_abi_parse_views_def update_state_def Let_def split: option.split)

lemma parse_inner_failed:
  assumes ready: "tree_ready t" and fresh: "tr_size t = 0"
    and bad: "\<not> (\<exists>bs v rest. value_bytes bs v \<and> unparsed t = bs @ rest \<and> room_for (node_limit t) (node_count v))"
  obtains err where "do_parse_inner t = Some (parse_failed err t)"
    and "err = MPACK_ERROR_INVALID \<or> node_limit t \<noteq> None \<and> err = MPACK_ERROR_TOO_BIG"
proof -
  obtain s where s: "tr_error t = MPACK_OK" "tr_state t = Some s"
    using tree_readyE [OF ready] by metis
  obtain core where core: "parse_with_limits (unparsed t) (node_limit t) = Some core"
      "t_error core \<in> parse_errors (node_limit t)"
    by (rule parse_limits_failed [OF bad])
  have "do_parse_inner t = Some (parse_failed (core_error_to_abi (t_error core)) t)"
    using s core core_error_codes [OF core(2)] ready_input(1) [OF ready fresh]
    by (simp add: do_parse_inner_def node_limit_def Let_def)
  with core_error_codes [OF core(2)] that show thesis
    by blast
qed

text \<open>What a parse leaves as it is: the source of the tree, and what the error handler was told.\<close>

definition same_source :: "ffi_tree \<Rightarrow> ffi_tree \<Rightarrow> bool" where
  "same_source t t' \<longleftrightarrow>
     tr_read_fn t' = tr_read_fn t \<and> tr_context t' = tr_context t \<and> tr_data t' = tr_data t
   \<and> tr_data_length t' = tr_data_length t \<and> tr_reports t' = tr_reports t \<and> tr_closed t' = tr_closed t
   \<and> map_option (\<lambda>s. (ts_owned_data s, ts_using_pool s, ts_max_size s, ts_max_nodes s, ts_close_file s)) (tr_state t')
     = map_option (\<lambda>s. (ts_owned_data s, ts_using_pool s, ts_max_size s, ts_max_nodes s, ts_close_file s)) (tr_state t)"

text \<open>The root of a published table is at its first place.\<close>

lemma published_root:
  assumes "tr_error t = MPACK_OK" and "tr_data t = Some mem" and "slice mem 0 (tr_data_length t) = Some data"
    and "length data \<le> usize_max" and "\<forall>nd\<in>set (t_nodes core). ext_byte data nd"
    and "represents data (t_nodes core) 0 v" and "placed (t_nodes core) block ats sta"
    and "(if ts_using_pool s then tr_pool t else Some heap) = Some block"
  shows "c_node_is (publish core (ats, sta) heap s t) (Entry 0) v"
  unfolding c_node_is_def
proof (intro conjI exI)
  let ?s = "s\<lparr>ts_nodes := t_nodes core, ts_root := t_root core, ts_size := t_size core, ts_parsed := True,
      ts_abi_to_safe := ats, ts_safe_to_abi := sta, ts_heap_nodes := heap\<rparr>"
  show "tr_state (publish core (ats, sta) heap s t) = Some ?s"
    by (simp add: publish_def)
  show "node_block (publish core (ats, sta) heap s t) = Some block"
    using assms(8) by (cases "ts_using_pool s") (simp_all add: node_block_def publish_def)
  show "represents data (ts_nodes ?s) 0 v"
    using assms(6) by simp
  show "placed (ts_nodes ?s) block (ts_abi_to_safe ?s) (ts_safe_to_abi ?s)"
    using assms(7) by simp
  show "Entry 0 = Entry (ts_safe_to_abi ?s ! 0)"
    using assms(7) by (simp add: placed_def)
qed (use assms(1-5) in \<open>simp_all add: publish_def\<close>)

lemma parse_inner_value:
  assumes ready: "tree_ready t" and fresh: "tr_size t = 0"
    and v: "value_bytes bs v" and u: "unparsed t = bs @ rest" and room: "room_for (node_limit t) (node_count v)"
  obtains t' where "do_parse_inner t = Some (True, t')" and "tree_ready t'" and "unparsed t' = rest"
    and "node_limit t' = node_limit t" and "same_source t t'"
    and "mpack_tree_root t' = (Entry 0, t')" and "c_node_is t' (Entry 0) v"
    and "tr_size t' = length bs" and "tr_node_count t' = node_count v"
proof -
  obtain s mem where r: "tr_error t = MPACK_OK" "tr_state t = Some s" "tr_data t = Some mem"
      "tr_data_length t \<le> length mem" "tr_data_length t < 2 ^ 32" "tr_size t \<le> tr_data_length t"
      "ts_owned_data s \<noteq> [] \<longrightarrow> mem = ts_owned_data s \<and> tr_data_length t = length mem"
      "ts_using_pool s \<longrightarrow> (\<exists>pool. tr_pool t = Some pool \<and> tr_pool_count t \<le> length pool)"
    by (rule tree_readyE [OF ready])
  obtain nodes where p: "parse_with_limits (unparsed t) (node_limit t)
        = Some \<lparr>t_data = unparsed t, t_nodes = nodes, t_root = Some 0, t_error = Err_Ok, t_size = length bs\<rparr>"
      "length nodes = node_count v" "represents (unparsed t) nodes 0 v" "tree_links nodes"
      "\<forall>nd\<in>set nodes. ext_byte (unparsed t) nd"
    by (rule parse_limits_value [OF v u ready_input(2) [OF ready fresh] room])
  let ?core = "\<lparr>t_data = unparsed t, t_nodes = nodes, t_root = Some 0, t_error = Err_Ok, t_size = length bs\<rparr>"
  have ne: "nodes \<noteq> []"
    using p(2) by (cases v) auto
  have data: "unparsed t = take (tr_data_length t) mem" "length (unparsed t) = tr_data_length t"
    using r(3,4) fresh by (simp_all add: unparsed_def)
  have e: "take (tr_data_length t) mem = bs @ rest"
    using data(1) u by simp
  have sl: "slice mem 0 (tr_data_length t) = Some (unparsed t)" "length (unparsed t) \<le> usize_max"
    using r(4,5) data by (simp_all add: slice_def usize_max_def)
  have bs: "length bs \<le> tr_data_length t"
    using data(2) u by simp
  note start = r(1,2) ready_input(1) [OF ready fresh] p(1) ne
  show thesis
  proof (cases "ts_using_pool s")
    case True
    then obtain pool where pool: "tr_pool t = Some pool" "tr_pool_count t \<le> length pool"
      using r(8) by blast
    have fits: "length nodes \<le> tr_pool_count t"
    proof (cases "tr_pool_count t = usize_max")
      case True
      have "node_count v \<le> length bs"
        using node_count_le(1) [OF v] .
      then show ?thesis
        using bs r(5) p(2) True by (simp add: usize_max_def)
    next
      case False
      then show ?thesis
        using room p(2) \<open>ts_using_pool s\<close> r(2) by (simp add: node_limit_def room_for_def Let_def)
    qed
    obtain pool' ats sta where m: "materialize_nodes nodes 0 pool = Some (pool', ats, sta)"
        "length pool' = length pool" "placed nodes pool' ats sta"
      by (rule materialize_nodes_ok [OF p(4) ne le_trans [OF fits pool(2)]])
    let ?t = "publish ?core (ats, sta) [] s (t\<lparr>tr_pool := Some pool', tr_root := Entry 0\<rparr>)"
    have "do_parse_inner t = Some (True, ?t)"
      using start True pool fits m(1) by (simp add: do_parse_inner_def node_limit_def Let_def)
    moreover have "tree_ready ?t"
      using r True pool m(2) bs by (auto simp: tree_ready_def publish_def)
    moreover have "unparsed ?t = rest"
      using r(3) e by (simp add: unparsed_def publish_def)
    moreover have "mpack_tree_root ?t = (Entry 0, ?t)"
      using r(1) by (simp add: mpack_tree_root_def publish_def)
    moreover have "c_node_is ?t (Entry 0) v"
      by (rule published_root [where data = "unparsed t" and mem = mem and block = "pool'"])
        (use r(1,3) sl True m(3) p(3,5) in simp_all)
    moreover have "node_limit ?t = node_limit t" "same_source t ?t"
      "tr_size ?t = length bs" "tr_node_count ?t = node_count v"
      using r(2) True p(2) by (simp_all add: node_limit_def publish_def same_source_def)
    ultimately show thesis
      by (intro that)
  next
    case False
    let ?dest = "replicate (max (length nodes) 1) node_data_nil"
    have "length nodes \<le> length ?dest"
      by simp
    then obtain heap ats sta where m: "materialize_nodes nodes 0 ?dest = Some (heap, ats, sta)" "placed nodes heap ats sta"
      by (rule materialize_nodes_ok [OF p(4) ne])
    let ?t = "publish ?core (ats, sta) heap s (t\<lparr>tr_root := Entry 0\<rparr>)"
    have "do_parse_inner t = Some (True, ?t)"
      using start False m(1) by (simp add: do_parse_inner_def node_limit_def Let_def)
    moreover have "tree_ready ?t"
      using r False bs by (auto simp: tree_ready_def publish_def)
    moreover have "unparsed ?t = rest"
      using r(3) e by (simp add: unparsed_def publish_def)
    moreover have "mpack_tree_root ?t = (Entry 0, ?t)"
      using r(1) by (simp add: mpack_tree_root_def publish_def)
    moreover have "c_node_is ?t (Entry 0) v"
      by (rule published_root [where data = "unparsed t" and mem = mem and block = heap])
        (use r(1,3) sl False m(2) p(3,5) in simp_all)
    moreover have "node_limit ?t = node_limit t" "same_source t ?t"
      "tr_size ?t = length bs" "tr_node_count ?t = node_count v"
      using r(2) False p(2) by (simp_all add: node_limit_def publish_def same_source_def)
    ultimately show thesis
      by (intro that)
  qed
qed

subsection \<open>The blocking parse of data in memory\<close>

lemma parse_value:
  assumes ready: "tree_ready t" and no_fn: "\<not> tr_read_fn t" and v: "value_bytes bs v" and u: "unparsed t = bs @ rest"
    and room: "room_for (node_limit t) (node_count v)"
  obtains t' where "mpack_tree_parse env t = Some t'" and "tree_ready t'" and "unparsed t' = rest"
    and "node_limit t' = node_limit t" and "\<not> tr_read_fn t'" and "mpack_tree_root t' = (Entry 0, t')"
    and "c_node_is t' (Entry 0) v"
proof -
  note a = advance_ready [OF ready]
  have "tr_error t = MPACK_OK"
    using ready by (simp add: tree_ready_def)
  moreover obtain t' where t': "do_parse_inner (advance_previous_message t) = Some (True, t')" "tree_ready t'"
      "unparsed t' = rest" "node_limit t' = node_limit t" "same_source (advance_previous_message t) t'"
      "mpack_tree_root t' = (Entry 0, t')" "c_node_is t' (Entry 0) v"
    using parse_inner_value [OF a(1,2) v] a(3,4) u room by metis
  ultimately have "mpack_tree_parse env t = Some t'"
    using a(5) no_fn by (simp add: mpack_tree_parse_def fill_stream_def Let_def)
  with t' a(5) no_fn show thesis
    by (intro that) (simp_all add: same_source_def)
qed

lemma parse_no_value:
  assumes ready: "tree_ready t" and no_fn: "\<not> tr_read_fn t"
    and bad: "\<not> (\<exists>bs v rest. value_bytes bs v \<and> unparsed t = bs @ rest \<and> room_for (node_limit t) (node_count v))"
  obtains t' where "mpack_tree_parse env t = Some t'"
    and "tr_error t' = MPACK_ERROR_INVALID \<or> node_limit t \<noteq> None \<and> tr_error t' = MPACK_ERROR_TOO_BIG"
    and "tr_root t' = Nil_Node"
proof -
  note a = advance_ready [OF ready]
  have ok: "tr_error t = MPACK_OK" "tr_error (advance_previous_message t) = MPACK_OK"
    using ready a(1) by (simp_all add: tree_ready_def)
  obtain err where err: "do_parse_inner (advance_previous_message t) = Some (parse_failed err (advance_previous_message t))"
      "err = MPACK_ERROR_INVALID \<or> node_limit t \<noteq> None \<and> err = MPACK_ERROR_TOO_BIG"
    using parse_inner_failed [OF a(1,2)] bad a(3,4) by metis
  let ?t = "snd (parse_failed err (advance_previous_message t))"
  have "mpack_tree_parse env t = Some ?t"
    using err(1) a(5) no_fn ok by (simp add: mpack_tree_parse_def fill_stream_def Let_def parse_failed_def)
  moreover have "tr_root ?t = Nil_Node"
    by (simp add: parse_failed_def flag_tree_error_def clear_abi_parse_views_def update_state_def Let_def split: option.split)
  ultimately show thesis
    using err(2) parse_failed_error [OF ok(2), of err] by (intro that) simp_all
qed

text \<open>The trees a C program gets from data, from data with a node pool, and from a file.\<close>

lemma init_data_ready:
  assumes "n \<le> length mem" and "n < 2 ^ 32"
  shows "tree_ready (mpack_tree_init_data (Some mem) n t)" and "unparsed (mpack_tree_init_data (Some mem) n t) = take n mem"
    and "node_limit (mpack_tree_init_data (Some mem) n t) = None" and "\<not> tr_read_fn (mpack_tree_init_data (Some mem) n t)"
  using assms by (simp_all add: mpack_tree_init_data_def init_tree_clear_def tree_ready_def unparsed_def
      node_limit_def new_state_def)

lemma init_pool_ready:
  assumes "n \<le> length mem" and "n < 2 ^ 32" and "0 < k" and "k \<le> length pool" and "k < usize_max"
  shows "tree_ready (mpack_tree_init_pool (Some mem) n (Some pool) k t)"
    and "unparsed (mpack_tree_init_pool (Some mem) n (Some pool) k t) = take n mem"
    and "node_limit (mpack_tree_init_pool (Some mem) n (Some pool) k t) = Some k"
    and "\<not> tr_read_fn (mpack_tree_init_pool (Some mem) n (Some pool) k t)"
  using assms by (simp_all add: mpack_tree_init_pool_def init_tree_clear_def tree_ready_def unparsed_def
      node_limit_def new_state_def update_state_def)

end
