(* ===== verification/Ffi_Node_Theorems.thy ===== *)
theory Ffi_Node_Theorems
  imports Ffi_Node_Values
begin

section \<open>What the C tree guarantees\<close>

text \<open>
  A C program that parses message after message from data in memory, a node pool or a file and walks the nodes
  gets the values; the blocking parse accepts exactly the input that begins with a value.
\<close>

subsection \<open>Message after message\<close>

text \<open>The program parses \<open>n\<close> messages and reads the value below each root; it stops at an error.\<close>

primrec c_tree_messages :: "tree_env \<Rightarrow> nat \<Rightarrow> nat \<Rightarrow> cvalue list node_read" where
  "c_tree_messages env d 0 t = Some ([], t)"
| "c_tree_messages env d (Suc n) t = do {
     t \<leftarrow> mpack_tree_parse env t;
     (case mpack_tree_root t of (root, t) \<Rightarrow>
        if tr_error t \<noteq> MPACK_OK then Some ([], t)
        else do {
          (v, t) \<leftarrow> c_node_value d root t;
          (vs, t) \<leftarrow> c_tree_messages env d n t;
          Some (v # vs, t)
        })
   }"

lemma tree_messages:
  "values_bytes bs vs \<Longrightarrow> tree_ready t \<Longrightarrow> \<not> tr_read_fn t \<Longrightarrow> unparsed t = bs @ rest \<Longrightarrow>
    \<forall>v\<in>set vs. room_for (node_limit t) (node_count v) \<and> height v \<le> d \<Longrightarrow>
    \<exists>t'. c_tree_messages env d (length vs) t = Some (map abi_value vs, t') \<and> tree_ready t' \<and> unparsed t' = rest"
proof (induction vs arbitrary: bs t)
  case Nil
  then show ?case by simp
next
  case (Cons v vs)
  then obtain b c where b: "bs = b @ c" "value_bytes b v" "values_bytes c vs"
    by auto
  have u: "unparsed t = b @ (c @ rest)"
    using Cons.prems(4) b(1) by simp
  have room: "room_for (node_limit t) (node_count v)" and h: "height v \<le> d"
    using Cons.prems(5) by simp_all
  obtain t1 where t1: "mpack_tree_parse env t = Some t1" "tree_ready t1" "unparsed t1 = c @ rest"
      "node_limit t1 = node_limit t" "\<not> tr_read_fn t1" "mpack_tree_root t1 = (Entry 0, t1)" "c_node_is t1 (Entry 0) v"
    by (rule parse_value [OF Cons.prems(2,3) b(2) u room])
  have "\<forall>v\<in>set vs. room_for (node_limit t1) (node_count v) \<and> height v \<le> d"
    using Cons.prems(5) t1(4) by simp
  from Cons.IH [OF b(3) t1(2,5,3) this] obtain t' where
    "c_tree_messages env d (length vs) t1 = Some (map abi_value vs, t')" "tree_ready t'" "unparsed t' = rest"
    by blast
  with t1(1,6) c_node_ok [OF t1(7)] c_node_value_ok [OF t1(7) h] show ?case
    by simp
qed

text \<open>C6. A C program that has the tree parse message after message from data in memory, and walks the nodes of
  each with the exported accessors, gets exactly the values whose encodings, in any form the format allows, the data
  begins with; no error is flagged, and the data behind them is what is left. With a node pool of the C program
  the same holds as long as every message fits the pool.\<close>

theorem c_tree_reads_messages:
  assumes "values_bytes bs vs" and "take n mem = bs @ rest" and "n \<le> length mem" and "n < 2 ^ 32"
    and "\<forall>v\<in>set vs. height v \<le> d"
  shows "(\<exists>t'. c_tree_messages env d (length vs) (mpack_tree_init_data (Some mem) n t) = Some (map abi_value vs, t')
      \<and> tr_error t' = MPACK_OK \<and> unparsed t' = rest)
    \<and> (\<forall>pool. 0 < length pool \<and> length pool < usize_max \<and> (\<forall>v\<in>set vs. node_count v \<le> length pool) \<longrightarrow>
        (\<exists>t'. c_tree_messages env d (length vs) (mpack_tree_init_pool (Some mem) n (Some pool) (length pool) t)
            = Some (map abi_value vs, t') \<and> tr_error t' = MPACK_OK \<and> unparsed t' = rest))"
proof (intro conjI allI impI)
  note a = init_data_ready [OF assms(3,4), where t = t]
  have "\<forall>v\<in>set vs. room_for (node_limit (mpack_tree_init_data (Some mem) n t)) (node_count v) \<and> height v \<le> d"
    using assms(5) by (simp add: a(3) room_for_def)
  from tree_messages [OF assms(1) a(1,4) _ this] a(2) assms(2) obtain t' where
    "c_tree_messages env d (length vs) (mpack_tree_init_data (Some mem) n t) = Some (map abi_value vs, t')"
    "tree_ready t'" "unparsed t' = rest"
    by metis
  then show "\<exists>t'. c_tree_messages env d (length vs) (mpack_tree_init_data (Some mem) n t) = Some (map abi_value vs, t')
      \<and> tr_error t' = MPACK_OK \<and> unparsed t' = rest"
    by (auto simp: tree_ready_def)
next
  fix pool :: "abi_node list"
  assume p: "0 < length pool \<and> length pool < usize_max \<and> (\<forall>v\<in>set vs. node_count v \<le> length pool)"
  let ?t = "mpack_tree_init_pool (Some mem) n (Some pool) (length pool) t"
  have "0 < length pool" "length pool \<le> length pool" "length pool < usize_max"
    using p by simp_all
  note a = init_pool_ready [OF assms(3,4) this, where t = t]
  have "\<forall>v\<in>set vs. room_for (node_limit ?t) (node_count v) \<and> height v \<le> d"
    using assms(5) p by (simp add: a(3) room_for_def)
  from tree_messages [OF assms(1) a(1,4) _ this] a(2) assms(2) obtain t' where
    "c_tree_messages env d (length vs) ?t = Some (map abi_value vs, t')" "tree_ready t'" "unparsed t' = rest"
    by metis
  then show "\<exists>t'. c_tree_messages env d (length vs) ?t = Some (map abi_value vs, t')
      \<and> tr_error t' = MPACK_OK \<and> unparsed t' = rest"
    by (auto simp: tree_ready_def)
qed

text \<open>A tree whose storage was never used, and an environment, for the witnesses.\<close>

definition blank_tree :: ffi_tree where
  "blank_tree =
     \<lparr>tr_error_fn = False, tr_read_fn = False, tr_teardown = False, tr_context = None, tr_nil_node = node_data_nil,
      tr_missing_node = node_data_missing, tr_error = MPACK_OK, tr_data = None, tr_data_length = 0, tr_size = 0,
      tr_node_count = 0, tr_max_size = 0, tr_max_nodes = 0, tr_parser_state = 0, tr_root = Null_Node, tr_pool = None,
      tr_pool_count = 0, tr_state = None, tr_reports = [], tr_closed = 0\<rparr>"

definition plain_tree_env :: tree_env where
  "plain_tree_env =
     \<lparr>te_malloc = (\<lambda>n. Some (replicate n 0)),
      te_read = (\<lambda>n t. case tr_context t of
          None \<Rightarrow> (0, [], None, MPACK_OK)
        | Some s \<Rightarrow> (min n (length (cs_rest s)), take n (cs_rest s), Some (s\<lparr>cs_rest := drop n (cs_rest s)\<rparr>), MPACK_OK)),
      te_teardown = (\<lambda>t. t), te_fopen = (\<lambda>name. None), te_fseek = (\<lambda>off whence s. (0, s)),
      te_ftell = (\<lambda>s. word_of_nat (length (cs_rest s))),
      te_fread = (\<lambda>n s. (take n (cs_rest s), s\<lparr>cs_rest := drop n (cs_rest s)\<rparr>))\<rparr>"

abbreviation tree_sample :: mvalue where
  "tree_sample \<equiv> MValue (Tag_Array 2) [] [MValue (Tag_Str 1) [65] [], MValue Tag_Nil [] []]"

lemma tree_sample_bytes: "value_bytes [0x92, 0xa1, 65, 0xc0] tree_sample" "values_bytes [0x92, 0xa1, 65, 0xc0] [tree_sample]"
proof -
  have "enc_value tree_sample = [0x92, 0xa1, 65, 0xc0]"
    by (simp add: enc_array_def enc_str_def enc_uint_def)
  moreover have "value_bytes (enc_value tree_sample) (normal_value tree_sample)"
    by (rule value_bytes_enc) simp
  ultimately show v: "value_bytes [0x92, 0xa1, 65, 0xc0] tree_sample"
    by (simp only:) simp
  from more_values [OF v no_values] show "values_bytes [0x92, 0xa1, 65, 0xc0] [tree_sample]"
    by (simp del: values_bytes_simps)
qed

lemma tree_sample_height: "height tree_sample \<le> 2"
  by (simp add: height.simps)

theorem c_tree_reads_messages_witness:
  "\<exists>t'. c_tree_messages plain_tree_env 2 1 (mpack_tree_init_data (Some [0x92, 0xa1, 65, 0xc0, 7]) 5 blank_tree)
     = Some ([abi_value tree_sample], t') \<and> tr_error t' = MPACK_OK \<and> unparsed t' = [7]"
  using c_tree_reads_messages [OF tree_sample_bytes(2), where n = 5 and mem = "[0x92, 0xa1, 65, 0xc0, 7]" and rest = "[7]"
      and d = 2 and env = plain_tree_env and t = blank_tree] tree_sample_height
  by simp

subsection \<open>Exactly the values\<close>

text \<open>C12. The blocking parse of data in memory always returns. It succeeds exactly when the data begins with the
  encoding of a value, and with a node pool when that value also fits the pool; otherwise the error is
  \<open>Invalid\<close>, or \<open>TooBig\<close> with a pool, and the root is the nil node.\<close>

theorem c_tree_parse_exact:
  assumes "n \<le> length mem" and "n < 2 ^ 32"
  shows "(\<exists>t'. mpack_tree_parse env (mpack_tree_init_data (Some mem) n t) = Some t'
      \<and> (tr_error t' = MPACK_OK \<longleftrightarrow> (\<exists>bs v rest. value_bytes bs v \<and> take n mem = bs @ rest))
      \<and> (tr_error t' \<noteq> MPACK_OK \<longrightarrow> tr_error t' = MPACK_ERROR_INVALID \<and> mpack_tree_root t' = (Nil_Node, t')))
    \<and> (\<forall>pool. 0 < length pool \<and> length pool < usize_max \<longrightarrow>
      (\<exists>t'. mpack_tree_parse env (mpack_tree_init_pool (Some mem) n (Some pool) (length pool) t) = Some t'
      \<and> (tr_error t' = MPACK_OK \<longleftrightarrow>
          (\<exists>bs v rest. value_bytes bs v \<and> take n mem = bs @ rest \<and> node_count v \<le> length pool))
      \<and> (tr_error t' \<noteq> MPACK_OK \<longrightarrow>
          (tr_error t' = MPACK_ERROR_INVALID \<or> tr_error t' = MPACK_ERROR_TOO_BIG) \<and> mpack_tree_root t' = (Nil_Node, t'))))"
proof -
  have exact: "\<exists>t'. mpack_tree_parse env t = Some t'
      \<and> (tr_error t' = MPACK_OK \<longleftrightarrow>
          (\<exists>bs v rest. value_bytes bs v \<and> unparsed t = bs @ rest \<and> room_for (node_limit t) (node_count v)))
      \<and> (tr_error t' \<noteq> MPACK_OK \<longrightarrow>
          (tr_error t' = MPACK_ERROR_INVALID \<or> node_limit t \<noteq> None \<and> tr_error t' = MPACK_ERROR_TOO_BIG)
          \<and> mpack_tree_root t' = (Nil_Node, t'))"
    if "tree_ready t" "\<not> tr_read_fn t" for t
  proof (cases "\<exists>bs v rest. value_bytes bs v \<and> unparsed t = bs @ rest \<and> room_for (node_limit t) (node_count v)")
    case True
    with parse_value [OF that, of _ _ _ env] c_node_ok show ?thesis
      by metis
  next
    case False
    from parse_no_value [OF that this, of env] obtain t' where "mpack_tree_parse env t = Some t'"
        "tr_error t' = MPACK_ERROR_INVALID \<or> node_limit t \<noteq> None \<and> tr_error t' = MPACK_ERROR_TOO_BIG"
        "tr_root t' = Nil_Node" .
    with False show ?thesis
      by (intro exI [of _ t']) (auto simp: mpack_tree_root_def c_codes)
  qed
  note a = init_data_ready [OF assms, where t = t]
  show ?thesis
  proof (rule conjI)
    show "\<exists>t'. mpack_tree_parse env (mpack_tree_init_data (Some mem) n t) = Some t'
      \<and> (tr_error t' = MPACK_OK \<longleftrightarrow> (\<exists>bs v rest. value_bytes bs v \<and> take n mem = bs @ rest))
      \<and> (tr_error t' \<noteq> MPACK_OK \<longrightarrow> tr_error t' = MPACK_ERROR_INVALID \<and> mpack_tree_root t' = (Nil_Node, t'))"
      using exact [OF a(1,4)] a(2,3) by (simp add: room_for_def)
    show "\<forall>pool. 0 < length pool \<and> length pool < usize_max \<longrightarrow>
      (\<exists>t'. mpack_tree_parse env (mpack_tree_init_pool (Some mem) n (Some pool) (length pool) t) = Some t'
      \<and> (tr_error t' = MPACK_OK \<longleftrightarrow>
          (\<exists>bs v rest. value_bytes bs v \<and> take n mem = bs @ rest \<and> node_count v \<le> length pool))
      \<and> (tr_error t' \<noteq> MPACK_OK \<longrightarrow>
          (tr_error t' = MPACK_ERROR_INVALID \<or> tr_error t' = MPACK_ERROR_TOO_BIG) \<and> mpack_tree_root t' = (Nil_Node, t')))"
    proof (intro allI impI)
      fix pool :: "abi_node list" assume "0 < length pool \<and> length pool < usize_max"
      then have "0 < length pool" "length pool \<le> length pool" "length pool < usize_max"
        by simp_all
      note b = init_pool_ready [OF assms this, where t = t]
      show "\<exists>t'. mpack_tree_parse env (mpack_tree_init_pool (Some mem) n (Some pool) (length pool) t) = Some t'
        \<and> (tr_error t' = MPACK_OK \<longleftrightarrow>
          (\<exists>bs v rest. value_bytes bs v \<and> take n mem = bs @ rest \<and> node_count v \<le> length pool))
        \<and> (tr_error t' \<noteq> MPACK_OK \<longrightarrow>
          (tr_error t' = MPACK_ERROR_INVALID \<or> tr_error t' = MPACK_ERROR_TOO_BIG) \<and> mpack_tree_root t' = (Nil_Node, t'))"
        using exact [OF b(1,4)] b(2,3) by (simp add: room_for_def)
    qed
  qed
qed

theorem c_tree_parse_exact_witness:
  "\<exists>t'. mpack_tree_parse plain_tree_env (mpack_tree_init_data (Some [0x92, 0xa1, 65, 0xc0, 7]) 5 blank_tree) = Some t'
     \<and> tr_error t' = MPACK_OK"
proof -
  have "\<exists>bs v rest. value_bytes bs v \<and> take 5 [0x92, 0xa1, 65, 0xc0, 7] = bs @ rest"
    using tree_sample_bytes(1) by (intro exI [of _ "[0x92, 0xa1, 65, 0xc0]"] exI [of _ tree_sample] exI [of _ "[7]"]) simp
  then show ?thesis
    using c_tree_parse_exact [of 5 "[0x92, 0xa1, 65, 0xc0, 7]" plain_tree_env blank_tree] by auto
qed

subsection \<open>The non-blocking parse hides what is wrong with the data\<close>

lemma no_value_0xc1: "\<not> (\<exists>bs v rest. value_bytes bs v \<and> [0xc1] = bs @ rest)"
proof
  assume "\<exists>bs v rest. value_bytes bs v \<and> [0xc1] = bs @ rest"
  then obtain hs t rest where h: "header hs t" "[0xc1] = hs @ rest"
    by (metis append.assoc mvalue.exhaust value_bytesE)
  have "r_error (reader_new [0xc1]) = Err_Ok" "unread (reader_new [0xc1]) = hs @ rest"
    using h(2) by (simp_all add: reader_new_def unread_def)
  from reading.accept [OF this(1) h(1) this(2)] have "read_tag (reader_new [0xc1]) \<noteq> None
      \<and> fst (the (read_tag (reader_new [0xc1]))) \<noteq> None"
    by simp
  moreover have "\<exists>r. read_tag (reader_new [0xc1]) = Some (None, r)"
    by (simp add: read_tag_def parse_tag_def reader_new_def checked header_size_def require_def remaining_def
        tag_of_marker_def)
  ultimately show False by auto
qed

lemma clear_views_frame [simp]:
  "tr_reports (clear_abi_parse_views t) = tr_reports t" "tr_error (clear_abi_parse_views t) = tr_error t"
  "tr_root (clear_abi_parse_views t) = Nil_Node" "tr_error_fn (clear_abi_parse_views t) = tr_error_fn t"
  by (simp_all add: clear_abi_parse_views_def update_state_def split: option.split)

lemma parse_failed_reports:
  assumes "tr_error t = MPACK_OK" and "err \<noteq> MPACK_OK"
  shows "tr_reports (snd (parse_failed err t)) = tr_reports t @ (if tr_error_fn t then [err] else [])"
  using assms by (simp add: parse_failed_def flag_tree_error_def Let_def)

text \<open>C13. The non-blocking parse of data in memory accepts exactly the input that begins with a value, but it never
  leaves an error on the tree: data that can never become a message is answered like a message that is not
  complete yet. The error handler of the C program is told \<open>Invalid\<close> all the same.\<close>

theorem c_try_parse_hides_invalid:
  assumes "n \<le> length mem" and "n < 2 ^ 32"
  shows "\<exists>accepted t'. mpack_tree_try_parse env ((mpack_tree_init_data (Some mem) n t)\<lparr>tr_error_fn := handler\<rparr>)
      = Some (accepted, t')
    \<and> (accepted \<longleftrightarrow> (\<exists>bs v rest. value_bytes bs v \<and> take n mem = bs @ rest))
    \<and> tr_error t' = MPACK_OK
    \<and> tr_reports t' = tr_reports t @ (if \<not> accepted \<and> handler then [MPACK_ERROR_INVALID] else [])"
proof -
  let ?t = "(mpack_tree_init_data (Some mem) n t)\<lparr>tr_error_fn := handler\<rparr>"
  have ready: "tree_ready ?t" and u: "unparsed ?t = take n mem" and limit: "node_limit ?t = None"
    and size: "tr_size ?t = 0" and start: "tr_error ?t = MPACK_OK" "\<not> tr_read_fn ?t" "tr_reports ?t = tr_reports t"
      "tr_error_fn ?t = handler"
    using assms by (simp_all add: mpack_tree_init_data_def init_tree_clear_def tree_ready_def unparsed_def
        node_limit_def new_state_def)
  have same: "advance_previous_message ?t = ?t"
    using size by (simp add: advance_previous_message_def)
  show ?thesis
  proof (cases "\<exists>bs v rest. value_bytes bs v \<and> take n mem = bs @ rest")
    case True
    then obtain bs v rest where v: "value_bytes bs v" "unparsed ?t = bs @ rest"
      using u by auto
    have room: "room_for (node_limit ?t) (node_count v)"
      unfolding limit by (simp add: room_for_def)
    obtain t' where t': "do_parse_inner ?t = Some (True, t')" "same_source ?t t'" "c_node_is t' (Entry 0) v"
      by (rule parse_inner_value [OF ready size v room])
    have "mpack_tree_try_parse env ?t = Some (True, t')"
      using start same t'(1) by (simp add: mpack_tree_try_parse_def fill_stream_def Let_def)
    with True c_node_ok [OF t'(3)] t'(2) start show ?thesis
      by (intro exI [of _ True] exI [of _ t']) (simp add: same_source_def)
  next
    case False
    then have "\<not> (\<exists>bs v rest. value_bytes bs v \<and> unparsed ?t = bs @ rest \<and> room_for (node_limit ?t) (node_count v))"
      using u by auto
    then have failed: "do_parse_inner ?t = Some (parse_failed MPACK_ERROR_INVALID ?t)"
    proof (rule parse_inner_failed [OF ready size])
      fix err
      assume "do_parse_inner ?t = Some (parse_failed err ?t)"
        and "err = MPACK_ERROR_INVALID \<or> node_limit ?t \<noteq> None \<and> err = MPACK_ERROR_TOO_BIG"
      then show ?thesis
        using limit by simp
    qed
    let ?t' = "(clear_abi_parse_views (snd (parse_failed MPACK_ERROR_INVALID ?t)))\<lparr>tr_error := MPACK_OK\<rparr>"
    have "mpack_tree_try_parse env ?t = Some (False, ?t')"
      using start same failed parse_failed_error [OF start(1), of MPACK_ERROR_INVALID]
      by (simp add: mpack_tree_try_parse_def fill_stream_def Let_def parse_failed_def)
    moreover have "tr_reports ?t' = tr_reports t @ (if handler then [MPACK_ERROR_INVALID] else [])"
      using parse_failed_reports [OF start(1), of MPACK_ERROR_INVALID] start(3,4) by simp
    ultimately show ?thesis
      using False by (intro exI [of _ False] exI [of _ ?t']) simp
  qed
qed

theorem c_try_parse_hides_invalid_witness:
  "\<exists>t'. mpack_tree_try_parse plain_tree_env ((mpack_tree_init_data (Some [0xc1]) 1 blank_tree)\<lparr>tr_error_fn := True\<rparr>)
     = Some (False, t') \<and> tr_error t' = MPACK_OK \<and> tr_reports t' = [MPACK_ERROR_INVALID]"
  using c_try_parse_hides_invalid [where n = 1 and mem = "[0xc1]" and env = plain_tree_env
      and t = blank_tree and handler = True] no_value_0xc1
  by (auto simp: blank_tree_def)

end
