(* ===== verification/Ffi_Node_Stream.thy ===== *)
theory Ffi_Node_Stream
  imports Ffi_Node_Theorems
begin

section \<open>Parsing messages from a read callback\<close>

text \<open>
  A blocking parse of a tree with a read callback reads until the callback has no more, or the limit
  \<open>max_size\<close> is reached, whatever pieces the callback delivers, and then parses the front of all the
  data it has collected. So the message it finds depends on the bytes of the stream alone.
\<close>

subsection \<open>What a callback may do\<close>

text \<open>The callback delivers the next bytes of the stream behind \<open>context\<close>, at least one and at most as many as asked for,
  and none at the end.\<close>

definition tree_delivers :: "tree_env \<Rightarrow> bool" where
  "tree_delivers env \<longleftrightarrow> (\<forall>n t s. tr_context t = Some s \<and> 0 < n \<longrightarrow>
     (\<exists>k. te_read env n t = (k, take k (cs_rest s), Some (s\<lparr>cs_rest := drop k (cs_rest s)\<rparr>), MPACK_OK)
        \<and> k \<le> n \<and> k \<le> length (cs_rest s) \<and> (cs_rest s \<noteq> [] \<longrightarrow> 0 < k)))"

text \<open>A tree over a callback: the data it owns, and the stream behind its context.\<close>

definition stream_tree :: "u8 list \<Rightarrow> c_stream \<Rightarrow> nat \<Rightarrow> ffi_tree \<Rightarrow> bool" where
  "stream_tree owned st max_size t \<longleftrightarrow>
     tr_error t = MPACK_OK \<and> tr_read_fn t \<and> tr_context t = Some st \<and> tr_size t \<le> length owned
   \<and> (\<exists>s. tr_state t = Some s \<and> ts_owned_data s = owned \<and> \<not> ts_using_pool s \<and> ts_max_size s = max_size)"

lemma stream_treeE:
  assumes "stream_tree owned st max_size t"
  obtains s where "tr_error t = MPACK_OK" and "tr_read_fn t" and "tr_context t = Some st"
    and "tr_size t \<le> length owned" and "tr_state t = Some s" and "ts_owned_data s = owned"
    and "\<not> ts_using_pool s" and "ts_max_size s = max_size"
  using assms unfolding stream_tree_def by blast

definition after_stream :: "nat \<Rightarrow> c_stream \<Rightarrow> c_stream" where
  "after_stream n st = st\<lparr>cs_rest := drop n (cs_rest st)\<rparr>"

lemma after_stream_end: "cs_rest st = [] \<Longrightarrow> after_stream n st = st"
  by (cases st) (simp add: after_stream_def)

subsection \<open>The fill loop\<close>

text \<open>What does not change while filling.\<close>

definition same_settings :: "ffi_tree \<Rightarrow> ffi_tree \<Rightarrow> bool" where
  "same_settings t t' \<longleftrightarrow> tr_size t' = tr_size t \<and> tr_error_fn t' = tr_error_fn t \<and> tr_reports t' = tr_reports t
     \<and> node_limit t' = node_limit t"

lemma same_settings_trans: "same_settings t u \<Longrightarrow> same_settings u w \<Longrightarrow> same_settings t w"
  by (simp add: same_settings_def)

lemma fill_round:
  assumes env: "tree_delivers env" and t: "stream_tree owned st max_size t" and chunk: "length chunk = 4096"
    and room: "length owned < max_size" and size: "tr_size t = 0"
  obtains (none) t' where "cs_rest st = []"
      and "fill_stream_round env blocking max_size chunk t = Some (Inl (True, False, t'))"
      and "stream_tree owned st max_size t'" and "same_settings t t'"
    | (some) k chunk' t' where "0 < k" and "k \<le> length (cs_rest st)" and "length owned + k \<le> max_size"
      and "length chunk' = 4096"
      and "fill_stream_round env blocking max_size chunk t =
        Some (if length owned + k = max_size then Inl (True, True, t')
              else if \<not> blocking then Inl (True, False, t') else Inr (chunk', t'))"
      and "stream_tree (owned @ take k (cs_rest st)) (after_stream k st) max_size t'" and "same_settings t t'"
proof -
  obtain s where s: "tr_error t = MPACK_OK" "tr_read_fn t" "tr_context t = Some st"
      "tr_size t \<le> length owned" "tr_state t = Some s" "ts_owned_data s = owned"
      "\<not> ts_using_pool s" "ts_max_size s = max_size"
    by (rule stream_treeE [OF t])
  let ?want = "min (max_size - length owned) 4096"
  have "0 < ?want"
    using room by simp
  with env s(3) obtain k where k: "te_read env ?want t = (k, take k (cs_rest st), Some (after_stream k st), MPACK_OK)"
      "k \<le> ?want" "k \<le> length (cs_rest st)" "cs_rest st \<noteq> [] \<longrightarrow> 0 < k"
    unfolding tree_delivers_def after_stream_def by blast
  have small: "k \<noteq> usize_max"
    using k(2) by (simp add: usize_max_def)
  let ?chunk = "take k (cs_rest st) @ drop k chunk"
  have store: "store_at chunk 0 (take k (cs_rest st)) = Some ?chunk"
    using k chunk by (simp add: store_at_def)
  let ?t = "t\<lparr>tr_context := Some (after_stream k st)\<rparr>"
  have call: "call_read env ?want chunk t = Some (k, ?chunk, ?t)"
    using k(1) store by (simp add: call_read_def flag_tree_error_def)
  have owned: "owned_length t = length owned"
    using s by (simp add: owned_length_def)
  show thesis
  proof (cases "k = 0")
    case True
    then have e: "cs_rest st = []" "after_stream k st = st"
      using k(4) by (simp_all add: after_stream_def)
    have "fill_stream_round env blocking max_size chunk t = Some (Inl (True, False, ?t))"
      using call owned room s(1) True chunk by (simp add: fill_stream_round_def Let_def)
    moreover have "stream_tree owned st max_size ?t" "same_settings t ?t"
      using s e by (simp_all add: stream_tree_def same_settings_def node_limit_def)
    ultimately show thesis
      using none e(1) by blast
  next
    case False
    let ?t' = "append_owned (take k (cs_rest st)) ?t"
    have m: "min k (max_size - length owned) = k"
      using k(2) by simp
    have full: "max_size \<le> length owned + k \<longleftrightarrow> length owned + k = max_size"
      using k(2) room by auto
    have sl: "slice ?chunk 0 k = Some (take k (cs_rest st))"
      using k(3) by (simp add: slice_def)
    have "fill_stream_round env blocking max_size chunk t =
        Some (if length owned + k = max_size then Inl (True, True, ?t')
              else if \<not> blocking then Inl (True, False, ?t') else Inr (?chunk, ?t'))"
      using call owned room s(1) False chunk small m sl k(2) full by (simp add: fill_stream_round_def Let_def)
    moreover have "stream_tree (owned @ take k (cs_rest st)) (after_stream k st) max_size ?t'" "same_settings t ?t'"
      using s size by (simp_all add: stream_tree_def same_settings_def node_limit_def append_owned_def)
    moreover have "length ?chunk = 4096"
      using k chunk by simp
    moreover have "length owned + k \<le> max_size"
      using k(2) room by linarith
    ultimately show thesis
      using some [of k ?chunk ?t'] False k(3) by simp
  qed
qed

lemma fill_loop_blocking:
  assumes env: "tree_delivers env"
  shows "stream_tree owned st max_size t \<Longrightarrow> length chunk = 4096 \<Longrightarrow> length owned \<le> max_size \<Longrightarrow> tr_size t = 0 \<Longrightarrow>
    \<exists>t'. fill_stream_loop env True max_size chunk t
        = Some (True, max_size \<le> length owned + length (cs_rest st), t')
      \<and> stream_tree (owned @ take (max_size - length owned) (cs_rest st))
          (after_stream (max_size - length owned) st) max_size t'
      \<and> same_settings t t'"
proof (induction "length (cs_rest st)" arbitrary: owned st chunk t rule: less_induct)
  case less
  show ?case
  proof (cases "length owned < max_size")
    case False
    then have m: "length owned = max_size"
      using less.prems(3) by simp
    have "owned_length t = max_size"
      using less.prems(1) m by (auto elim!: stream_treeE simp: owned_length_def)
    then have "fill_stream_loop env True max_size chunk t = Some (True, True, t)"
      by (subst fill_stream_loop.simps) (simp add: fill_stream_round_def)
    with less.prems(1) m show ?thesis
      by (simp add: after_stream_def same_settings_def)
  next
    case True
    from env less.prems(1,2) True less.prems(4) show ?thesis
    proof (cases rule: fill_round [where blocking = True])
      case (none t')
      then show ?thesis
        using True by (subst fill_stream_loop.simps) (auto simp: after_stream_end)
    next
      case (some k chunk' t')
      let ?owned = "owned @ take k (cs_rest st)" and ?st = "after_stream k st"
      have len: "length ?owned = length owned + k" "length (cs_rest ?st) = length (cs_rest st) - k"
        using some(2) by (simp_all add: after_stream_def)
      show ?thesis
      proof (cases "length owned + k = max_size")
        case full: True
        then have "max_size - length owned = k"
          by simp
        with full some show ?thesis
          by (subst fill_stream_loop.simps) simp
      next
        case False
        have size: "tr_size t' = 0"
          using some(7) less.prems(4) by (simp add: same_settings_def)
        have "length (cs_rest ?st) < length (cs_rest st)" "length ?owned \<le> max_size"
          using some(1,2,3) len by simp_all
        from less.hyps [OF this(1) some(6,4) this(2) size] obtain u where
          u: "fill_stream_loop env True max_size chunk' t'
              = Some (True, max_size \<le> length ?owned + length (cs_rest ?st), u)"
            "stream_tree (?owned @ take (max_size - length ?owned) (cs_rest ?st))
              (after_stream (max_size - length ?owned) ?st) max_size u" "same_settings t' u"
          by blast
        have "fill_stream_loop env True max_size chunk t
            = Some (True, max_size \<le> length owned + length (cs_rest st), u)"
          using some(2,5) False u(1) len by (subst fill_stream_loop.simps) simp
        moreover have "?owned @ take (max_size - length ?owned) (cs_rest ?st)
            = owned @ take (max_size - length owned) (cs_rest st)"
        proof -
          have "max_size - length owned = k + (max_size - length ?owned)"
            using some(3) len by simp
          then show ?thesis
            by (simp add: take_add after_stream_def)
        qed
        moreover have "after_stream (max_size - length ?owned) ?st = after_stream (max_size - length owned) st"
          using some(3) len by (simp add: after_stream_def)
        ultimately show ?thesis
          using u(2,3) same_settings_trans [OF some(7) u(3)] by metis
      qed
    qed
  qed
qed

subsection \<open>One blocking parse\<close>

lemma init_stream_tree: "stream_tree [] st max_size (mpack_tree_init_stream True (Some st) max_size max_nodes t)"
  "tr_size (mpack_tree_init_stream True (Some st) max_size max_nodes t) = 0"
  by (simp_all add: mpack_tree_init_stream_def init_tree_clear_def update_state_def new_state_def stream_tree_def)

lemma advance_stream:
  assumes "stream_tree owned st max_size t"
  shows "stream_tree (drop (tr_size t) owned) st max_size (advance_previous_message t)"
    and "tr_size (advance_previous_message t) = 0" and "node_limit (advance_previous_message t) = node_limit t"
    and "tr_reports (advance_previous_message t) = tr_reports t" "tr_error_fn (advance_previous_message t) = tr_error_fn t"
proof -
  obtain s where s: "tr_error t = MPACK_OK" "tr_read_fn t" "tr_context t = Some st"
      "tr_size t \<le> length owned" "tr_state t = Some s" "ts_owned_data s = owned"
      "\<not> ts_using_pool s" "ts_max_size s = max_size"
    by (rule stream_treeE [OF assms])
  show "stream_tree (drop (tr_size t) owned) st max_size (advance_previous_message t)"
    using s by (auto simp: advance_previous_message_def Let_def stream_tree_def clear_views_def)
  show "tr_size (advance_previous_message t) = 0" "tr_reports (advance_previous_message t) = tr_reports t"
    "tr_error_fn (advance_previous_message t) = tr_error_fn t"
    using s by (auto simp: advance_previous_message_def Let_def)
  show "node_limit (advance_previous_message t) = node_limit t"
    using s by (auto simp: advance_previous_message_def Let_def node_limit_def clear_views_def)
qed

lemma unparsed_whole: "tr_data t = Some d \<Longrightarrow> tr_data_length t = length d \<Longrightarrow> tr_size t = 0 \<Longrightarrow> unparsed t = d"
  by (simp add: unparsed_def)

lemma fill_stream_blocking:
  assumes env: "tree_delivers env" and t: "stream_tree owned st max_size t" and size: "tr_size t = 0"
    and room: "length owned \<le> max_size" and short: "length owned + length (cs_rest st) < 2 ^ 32"
  obtains t' where "fill_stream env True t = Some (True, max_size \<le> length owned + length (cs_rest st), t')"
    and "stream_tree (owned @ take (max_size - length owned) (cs_rest st)) (after_stream (max_size - length owned) st) max_size t'"
    and "same_settings t t'" and "tree_ready t'"
    and "unparsed t' = owned @ take (max_size - length owned) (cs_rest st)"
proof -
  let ?owned = "owned @ take (max_size - length owned) (cs_rest st)"
  obtain s where s: "tr_read_fn t" "tr_state t = Some s" "ts_max_size s = max_size"
    by (rule stream_treeE [OF t]) (rule that)
  obtain u where u: "fill_stream_loop env True max_size (replicate INITIAL_STREAM_CAPACITY 0) t
        = Some (True, max_size \<le> length owned + length (cs_rest st), u)"
      "stream_tree ?owned (after_stream (max_size - length owned) st) max_size u" "same_settings t u"
    using fill_loop_blocking [OF env t _ room size, of "replicate INITIAL_STREAM_CAPACITY 0"]
    by (auto simp: INITIAL_STREAM_CAPACITY_def)
  obtain s' where s': "tr_error u = MPACK_OK" "tr_read_fn u" "tr_state u = Some s'" "ts_owned_data s' = ?owned"
      "\<not> ts_using_pool s'" "ts_max_size s' = max_size"
    by (rule stream_treeE [OF u(2)]) (rule that)
  let ?t = "u\<lparr>tr_data := Some ?owned, tr_data_length := length ?owned\<rparr>"
  have "fill_stream env True t = Some (True, max_size \<le> length owned + length (cs_rest st), ?t)"
    using s u(1) s'(3,4) by (simp add: fill_stream_def)
  moreover have "stream_tree ?owned (after_stream (max_size - length owned) st) max_size ?t" "same_settings t ?t"
    using u(2,3) by (auto simp: stream_tree_def same_settings_def node_limit_def)
  moreover have "tree_ready ?t"
    using s' short u(3) size by (auto simp: tree_ready_def same_settings_def)
  moreover have "unparsed ?t = ?owned"
    by (rule unparsed_whole) (use u(3) size in \<open>simp_all add: same_settings_def\<close>)
  ultimately show thesis
    by (rule that)
qed

lemma stream_parse_value:
  assumes env: "tree_delivers env" and t: "stream_tree owned st max_size t"
    and all: "drop (tr_size t) owned @ cs_rest st = bs @ rest" and v: "value_bytes bs v"
    and room: "room_for (node_limit t) (node_count v)"
    and fits: "length bs + length rest \<le> max_size" and short: "length bs + length rest < 2 ^ 32"
  obtains t' owned' where "mpack_tree_parse env t = Some t'" and "stream_tree owned' (st\<lparr>cs_rest := []\<rparr>) max_size t'"
    and "drop (tr_size t') owned' = rest" and "unparsed t' = rest" and "node_limit t' = node_limit t"
    and "mpack_tree_root t' = (Entry 0, t')" and "c_node_is t' (Entry 0) v"
proof -
  let ?t = "advance_previous_message t" and ?owned = "drop (tr_size t) owned"
  note a = advance_stream [OF t]
  have total: "length ?owned + length (cs_rest st) = length bs + length rest"
    using all by (metis length_append)
  obtain u where u: "fill_stream env True ?t = Some (True, max_size \<le> length ?owned + length (cs_rest st), u)"
      "stream_tree (?owned @ take (max_size - length ?owned) (cs_rest st)) (after_stream (max_size - length ?owned) st) max_size u"
      "same_settings ?t u" "tree_ready u" "unparsed u = ?owned @ take (max_size - length ?owned) (cs_rest st)"
  proof (rule fill_stream_blocking [OF env a(1,2)])
    show "length ?owned \<le> max_size" "length ?owned + length (cs_rest st) < 2 ^ 32"
      using total fits short by linarith+
  qed
  have whole: "take (max_size - length ?owned) (cs_rest st) = cs_rest st"
      "after_stream (max_size - length ?owned) st = st\<lparr>cs_rest := []\<rparr>"
    using total fits by (simp_all add: after_stream_def)
  have "tr_size u = 0" "room_for (node_limit u) (node_count v)" "unparsed u = bs @ rest"
    using u(3,5) a(2,3) room whole(1) all by (simp_all add: same_settings_def)
  then obtain t' where t': "do_parse_inner u = Some (True, t')" "unparsed t' = rest" "node_limit t' = node_limit u"
      "same_source u t'" "mpack_tree_root t' = (Entry 0, t')" "c_node_is t' (Entry 0) v" "tr_size t' = length bs"
    using parse_inner_value [OF u(4) _ v] by metis
  have "tr_error t = MPACK_OK"
    using t by (simp add: stream_tree_def)
  then have "mpack_tree_parse env t = Some t'"
    using u(1) t'(1) by (simp add: mpack_tree_parse_def Let_def)
  moreover have "stream_tree (bs @ rest) (st\<lparr>cs_rest := []\<rparr>) max_size t'"
    using u(2) t'(4,7) c_node_ok [OF t'(6)] whole all
    by (auto simp: stream_tree_def same_source_def)
  ultimately show thesis
    using t' u(3) a(3) by (intro that [of t' "bs @ rest"]) (simp_all add: same_settings_def)
qed

lemma stream_messages:
  assumes env: "tree_delivers env"
  shows "values_bytes bs vs \<Longrightarrow> stream_tree owned st max_size t \<Longrightarrow> drop (tr_size t) owned @ cs_rest st = bs @ rest \<Longrightarrow>
    length bs + length rest \<le> max_size \<Longrightarrow> length bs + length rest < 2 ^ 32 \<Longrightarrow>
    \<forall>v\<in>set vs. room_for (node_limit t) (node_count v) \<and> height v \<le> d \<Longrightarrow>
    \<exists>t' owned' st'. c_tree_messages env d (length vs) t = Some (map abi_value vs, t')
      \<and> stream_tree owned' st' max_size t' \<and> drop (tr_size t') owned' @ cs_rest st' = rest
      \<and> (vs \<noteq> [] \<longrightarrow> cs_rest st' = [] \<and> unparsed t' = rest)"
proof (induction vs arbitrary: bs owned st t)
  case Nil
  then show ?case by auto
next
  case (Cons v vs)
  then obtain b c where b: "bs = b @ c" "value_bytes b v" "values_bytes c vs"
    by auto
  have u: "drop (tr_size t) owned @ cs_rest st = b @ (c @ rest)"
    using Cons.prems(3) b(1) by simp
  have room: "room_for (node_limit t) (node_count v)" and h: "height v \<le> d"
    and fits: "length b + length (c @ rest) \<le> max_size" "length b + length (c @ rest) < 2 ^ 32"
    using Cons.prems(4-6) b(1) by simp_all
  obtain t1 owned1 where t1: "mpack_tree_parse env t = Some t1" "stream_tree owned1 (st\<lparr>cs_rest := []\<rparr>) max_size t1"
      "drop (tr_size t1) owned1 = c @ rest" "unparsed t1 = c @ rest" "node_limit t1 = node_limit t"
      "mpack_tree_root t1 = (Entry 0, t1)" "c_node_is t1 (Entry 0) v"
    by (rule stream_parse_value [OF env Cons.prems(2) u b(2) room fits])
  have "drop (tr_size t1) owned1 @ cs_rest (st\<lparr>cs_rest := []\<rparr>) = c @ rest" "length c + length rest \<le> max_size"
    "length c + length rest < 2 ^ 32" "\<forall>v\<in>set vs. room_for (node_limit t1) (node_count v) \<and> height v \<le> d"
    using t1(3,5) fits Cons.prems(6) by simp_all
  from Cons.IH [OF b(3) t1(2) this] obtain t' owned' st' where
    "c_tree_messages env d (length vs) t1 = Some (map abi_value vs, t')"
    "stream_tree owned' st' max_size t'" "drop (tr_size t') owned' @ cs_rest st' = rest"
    "vs \<noteq> [] \<longrightarrow> cs_rest st' = [] \<and> unparsed t' = rest"
    by blast
  moreover have "cs_rest st' = [] \<and> unparsed t' = rest" if "vs = []"
    using that calculation t1(2,4) b(3) by (auto simp: stream_tree_def)
  ultimately show ?case
    using t1(1,6) c_node_ok [OF t1(7)] c_node_value_ok [OF t1(7) h] by (intro exI [of _ t']) (auto simp: stream_tree_def)
qed

text \<open>C7. A C program that has a tree parse message after message from a read callback gets exactly the values whose
  encodings the bytes of the stream begin with, however the callback cuts the stream into pieces, as long as the
  stream is not longer than \<open>max_size\<close> and no message has more nodes than \<open>max_nodes\<close>. The first parse already reads the
  stream to its end.\<close>

theorem c_tree_reads_stream:
  assumes "tree_delivers env" and "values_bytes bs vs" and "cs_rest st = bs @ rest"
    and "length (cs_rest st) \<le> max_size" and "length (cs_rest st) < 2 ^ 32"
    and "\<forall>v\<in>set vs. node_count v \<le> max_nodes \<and> height v \<le> d"
  shows "\<exists>t' st'. c_tree_messages env d (length vs) (mpack_tree_init_stream True (Some st) max_size max_nodes t)
      = Some (map abi_value vs, t')
    \<and> tr_error t' = MPACK_OK \<and> tr_context t' = Some st' \<and> (vs \<noteq> [] \<longrightarrow> cs_rest st' = [] \<and> unparsed t' = rest)"
proof -
  let ?t = "mpack_tree_init_stream True (Some st) max_size max_nodes t"
  have limit: "node_limit ?t = (if max_nodes = usize_max then None else Some max_nodes)"
    by (simp add: mpack_tree_init_stream_def init_tree_clear_def update_state_def new_state_def node_limit_def)
  have "drop (tr_size ?t) [] @ cs_rest st = bs @ rest" "length bs + length rest \<le> max_size" "length bs + length rest < 2 ^ 32"
    "\<forall>v\<in>set vs. room_for (node_limit ?t) (node_count v) \<and> height v \<le> d"
    using assms(3-6) by (simp_all add: limit room_for_def)
  from stream_messages [OF assms(1,2) init_stream_tree(1) this] obtain t' owned' st' where
    t': "c_tree_messages env d (length vs) ?t = Some (map abi_value vs, t')"
      "stream_tree owned' st' max_size t'" "drop (tr_size t') owned' @ cs_rest st' = rest" "vs \<noteq> [] \<longrightarrow> cs_rest st' = [] \<and> unparsed t' = rest"
    by blast
  show ?thesis
    using t' by (intro exI [of _ t'] exI [of _ st']) (auto simp: stream_tree_def)
qed

lemma plain_tree_delivers: "tree_delivers plain_tree_env"
  unfolding tree_delivers_def
proof (intro allI impI)
  fix n :: nat and t :: ffi_tree and s :: c_stream assume "tr_context t = Some s \<and> 0 < n"
  then show "\<exists>k. te_read plain_tree_env n t = (k, take k (cs_rest s), Some (s\<lparr>cs_rest := drop k (cs_rest s)\<rparr>), MPACK_OK)
      \<and> k \<le> n \<and> k \<le> length (cs_rest s) \<and> (cs_rest s \<noteq> [] \<longrightarrow> 0 < k)"
    by (intro exI [of _ "min n (length (cs_rest s))"]) (simp add: plain_tree_env_def min_def)
qed

theorem c_tree_reads_stream_witness:
  "\<exists>t'. c_tree_messages plain_tree_env 2 1
      (mpack_tree_init_stream True (Some \<lparr>cs_rest = [0x92, 0xa1, 65, 0xc0, 7], cs_eof = False\<rparr>) 100 10 blank_tree)
     = Some ([abi_value tree_sample], t') \<and> tr_error t' = MPACK_OK \<and> unparsed t' = [7]"
proof -
  let ?s = "\<lparr>cs_rest = [0x92, 0xa1, 65, 0xc0, 7], cs_eof = False\<rparr>"
  have "cs_rest ?s = [0x92, 0xa1, 65, 0xc0] @ [7]" "length (cs_rest ?s) \<le> 100" "length (cs_rest ?s) < 2 ^ 32"
    "\<forall>v\<in>set [tree_sample]. node_count v \<le> 10 \<and> height v \<le> 2"
    using tree_sample_height by simp_all
  from c_tree_reads_stream [OF plain_tree_delivers tree_sample_bytes(2) this] show ?thesis
    by auto
qed

subsection \<open>Input that is no message\<close>

text \<open>C14. When the bytes a blocking parse has collected from a read callback do not begin with a value, complete or not,
  the error is \<open>Io\<close>, or \<open>TooBig\<close> when \<open>max_size\<close> was reached; the error handler is told twice, first \<open>Invalid\<close> and
  then that error.\<close>

theorem c_stream_parse_errors:
  assumes "tree_delivers env" and "length (cs_rest st) < 2 ^ 32"
    and "\<not> (\<exists>bs v rest. value_bytes bs v \<and> take max_size (cs_rest st) = bs @ rest)"
  shows "\<exists>t'. mpack_tree_parse env ((mpack_tree_init_stream True (Some st) max_size usize_max t)\<lparr>tr_error_fn := handler\<rparr>)
      = Some t'
    \<and> tr_error t' = (if max_size \<le> length (cs_rest st) then MPACK_ERROR_TOO_BIG else MPACK_ERROR_IO)
    \<and> tr_reports t' = tr_reports t @ (if handler then [MPACK_ERROR_INVALID, tr_error t'] else [])
    \<and> mpack_tree_root t' = (Nil_Node, t')"
proof -
  let ?t = "(mpack_tree_init_stream True (Some st) max_size usize_max t)\<lparr>tr_error_fn := handler\<rparr>"
  have t: "stream_tree [] st max_size ?t" and size: "tr_size ?t = 0" and start: "tr_error ?t = MPACK_OK" "tr_read_fn ?t"
      "tr_reports ?t = tr_reports t" "tr_error_fn ?t = handler" and limit: "node_limit ?t = None"
    by (simp_all add: mpack_tree_init_stream_def init_tree_clear_def update_state_def new_state_def stream_tree_def node_limit_def)
  have same: "advance_previous_message ?t = ?t"
    using size by (simp add: advance_previous_message_def)
  have le: "length ([] :: u8 list) \<le> max_size" "length ([] :: u8 list) + length (cs_rest st) < 2 ^ 32"
    using assms(2) by simp_all
  obtain u where u: "fill_stream env True ?t = Some (True, max_size \<le> length (cs_rest st), u)"
      "stream_tree (take max_size (cs_rest st)) (after_stream max_size st) max_size u"
      "same_settings ?t u" "tree_ready u" "unparsed u = take max_size (cs_rest st)"
    by (rule fill_stream_blocking [OF assms(1) t size le]) (rule that; simp)
  have u': "tr_size u = 0" "node_limit u = None" "tr_error_fn u = handler" "tr_reports u = tr_reports t" "tr_error u = MPACK_OK"
    using u(2,3) size limit start(3,4) by (simp_all add: same_settings_def stream_tree_def)
  have "\<not> (\<exists>bs v rest. value_bytes bs v \<and> unparsed u = bs @ rest \<and> room_for (node_limit u) (node_count v))"
    using assms(3) u(5) by auto
  then have failed: "do_parse_inner u = Some (parse_failed MPACK_ERROR_INVALID u)"
  proof (rule parse_inner_failed [OF u(4) u'(1)])
    fix err
    assume "do_parse_inner u = Some (parse_failed err u)"
      and "err = MPACK_ERROR_INVALID \<or> node_limit u \<noteq> None \<and> err = MPACK_ERROR_TOO_BIG"
    then show ?thesis
      using u'(2) by simp
  qed
  let ?u = "snd (parse_failed MPACK_ERROR_INVALID u)"
  let ?t' = "remap_stream_incomplete (max_size \<le> length (cs_rest st)) ?u"
  have "mpack_tree_parse env ?t = Some ?t'"
    using start same u(1) failed by (simp add: mpack_tree_parse_def Let_def parse_failed_def)
  moreover have inv: "tr_error ?u = MPACK_ERROR_INVALID" "tr_error_fn ?u = handler"
      "tr_reports ?u = tr_reports t @ (if handler then [MPACK_ERROR_INVALID] else [])" "tr_root ?u = Nil_Node"
    using parse_failed_error [OF u'(5), of MPACK_ERROR_INVALID] parse_failed_reports [OF u'(5), of MPACK_ERROR_INVALID] u'
    by (simp_all add: parse_failed_def flag_tree_error_def Let_def)
  then have "tr_error ?t' = (if max_size \<le> length (cs_rest st) then MPACK_ERROR_TOO_BIG else MPACK_ERROR_IO)"
    "tr_reports ?t' = tr_reports t @ (if handler then [MPACK_ERROR_INVALID, tr_error ?t'] else [])"
    "tr_error ?t' \<noteq> MPACK_OK"
    by (simp_all add: remap_stream_incomplete_def replace_tree_error_def flag_tree_error_def Let_def)
  moreover have "mpack_tree_root ?t' = (Nil_Node, ?t')"
    using calculation(4) by (simp add: mpack_tree_root_def)
  ultimately show ?thesis
    by blast
qed

theorem c_stream_parse_errors_witness:
  "\<exists>t'. mpack_tree_parse plain_tree_env
       ((mpack_tree_init_stream True (Some \<lparr>cs_rest = [0xc1], cs_eof = False\<rparr>) 100 usize_max blank_tree)\<lparr>tr_error_fn := True\<rparr>)
     = Some t' \<and> tr_error t' = MPACK_ERROR_IO \<and> tr_reports t' = [MPACK_ERROR_INVALID, MPACK_ERROR_IO]"
  using c_stream_parse_errors [where env = plain_tree_env and st = "\<lparr>cs_rest = [0xc1], cs_eof = False\<rparr>" and max_size = 100
      and t = blank_tree and handler = True, OF plain_tree_delivers] no_value_0xc1
  by (auto simp: blank_tree_def)

section \<open>Parsing messages from a file\<close>

text \<open>
  A tree over a file reads the whole file when it is initialised. The file of a name is closed at once; the file of
  the C program is kept, and closed when the tree is destroyed if the program asked for that.
\<close>

subsection \<open>Loading\<close>

text \<open>A regular file with the contents \<open>bytes\<close>: seeking to its end and asking for the position gives its size, and after
  seeking to its start what is read is the front of it.\<close>

definition file_holds :: "tree_env \<Rightarrow> c_stream \<Rightarrow> u8 list \<Rightarrow> bool" where
  "file_holds env s bytes \<longleftrightarrow> length bytes < 2 ^ 63
     \<and> (\<exists>at_end at_start. te_fseek env 0 SEEK_END s = (0, at_end) \<and> te_ftell env at_end = word_of_nat (length bytes)
       \<and> te_fseek env 0 SEEK_SET at_end = (0, at_start) \<and> (\<forall>n. fst (te_fread env n at_start) = take n bytes))"

lemma load_file_ok:
  assumes "file_holds env s bytes" and "bytes \<noteq> []" and "max_bytes = 0 \<or> length bytes \<le> max_bytes"
  obtains s' where "load_file_data env s max_bytes = Some (Inr bytes, s')"
proof -
  from assms(1) obtain e b where f: "length bytes < 2 ^ 63" "te_fseek env 0 SEEK_END s = (0, e)"
      "te_ftell env e = word_of_nat (length bytes)" "te_fseek env 0 SEEK_SET e = (0, b)"
      "fst (te_fread env (length bytes) b) = take (length bytes) bytes"
    unfolding file_holds_def by blast
  let ?n = "word_of_nat (length bytes) :: i64"
  have u: "unat ?n = length bytes"
    using f(1) by (intro unat_of_nat_small) simp
  have "uint ?n = int (length bytes)"
    using u by (metis uint_nat)
  then have "sint ?n = int (length bytes)"
    using f(1) by (simp add: sint_uint signed_take_bit_int_eq_self)
  moreover have "?n \<noteq> 0"
    using u assms(2) by (metis length_0_conv unsigned_0)
  ultimately have "check_file_tree_bytes ?n max_bytes = Inr (length bytes)"
    using u assms(3) by (auto simp: check_file_tree_bytes_def Let_def)
  with f(2-5) show thesis
    by (cases "te_fread env (length bytes) b") (auto simp: load_file_data_def intro: that)
qed

subsection \<open>What a parse keeps\<close>

text \<open>The file of the tree, how often files were closed, and the teardown.\<close>

definition file_state :: "ffi_tree \<Rightarrow> nat \<times> c_stream option option \<times> bool" where
  "file_state t = (tr_closed t, map_option ts_close_file (tr_state t), tr_teardown t)"

lemma file_state_steps [simp]:
  "file_state (clear_abi_parse_views t) = file_state t" "file_state (flag_tree_error e t) = file_state t"
  "file_state (advance_previous_message t) = file_state t" "file_state (t\<lparr>tr_root := root\<rparr>) = file_state t"
  "file_state (t\<lparr>tr_pool := pool\<rparr>) = file_state t"
  "tr_state t = Some s \<Longrightarrow> file_state (publish core maps heap s t) = file_state t"
  by (auto simp: file_state_def clear_abi_parse_views_def update_state_def clear_views_def flag_tree_error_def Let_def
      advance_previous_message_def publish_def split: option.split)

lemma parse_inner_file: "do_parse_inner t = Some (ok, t') \<Longrightarrow> file_state t' = file_state t"
  by (auto simp: do_parse_inner_def Let_def parse_failed_def split: if_splits option.splits bind_splits prod.splits)

lemma parse_file:
  assumes "mpack_tree_parse env t = Some t'" and "\<not> tr_read_fn t"
  shows "file_state t' = file_state t"
proof -
  have "tr_read_fn (advance_previous_message t) = tr_read_fn t"
    by (auto simp: advance_previous_message_def Let_def split: option.split)
  with assms parse_inner_file [of "advance_previous_message t"] show ?thesis
    by (auto simp: mpack_tree_parse_def fill_stream_def Let_def split: if_splits bind_splits)
qed

lemma tree_messages_file:
  "values_bytes bs vs \<Longrightarrow> tree_ready t \<Longrightarrow> \<not> tr_read_fn t \<Longrightarrow> unparsed t = bs @ rest \<Longrightarrow>
    \<forall>v\<in>set vs. room_for (node_limit t) (node_count v) \<and> height v \<le> d \<Longrightarrow>
    \<exists>t'. c_tree_messages env d (length vs) t = Some (map abi_value vs, t') \<and> tr_error t' = MPACK_OK
      \<and> unparsed t' = rest \<and> file_state t' = file_state t"
proof (induction vs arbitrary: bs t)
  case Nil
  then show ?case by (simp add: tree_ready_def)
next
  case (Cons v vs)
  then obtain b c where b: "bs = b @ c" "value_bytes b v" "values_bytes c vs"
    by auto
  have u: "unparsed t = b @ (c @ rest)"
    using Cons.prems(4) b(1) by simp
  have room: "room_for (node_limit t) (node_count v)" and h: "height v \<le> d"
    using Cons.prems(5) by simp_all
  obtain t1 where t1: "mpack_tree_parse env t = Some t1" "tree_ready t1" "unparsed t1 = c @ rest"
      "node_limit t1 = node_limit t" "\<not> tr_read_fn t1" "mpack_tree_root t1 = (Entry 0, t1)" "c_node_is t1 (Entry 0) v"
    by (rule parse_value [OF Cons.prems(2,3) b(2) u room])
  have "\<forall>v\<in>set vs. room_for (node_limit t1) (node_count v) \<and> height v \<le> d"
    using Cons.prems(5) t1(4) by simp
  from Cons.IH [OF b(3) t1(2,5,3) this] obtain t' where
    "c_tree_messages env d (length vs) t1 = Some (map abi_value vs, t')" "tr_error t' = MPACK_OK" "unparsed t' = rest"
    "file_state t' = file_state t1"
    by blast
  with t1(1,6) c_node_ok [OF t1(7)] c_node_value_ok [OF t1(7) h] parse_file [OF t1(1) Cons.prems(3)] show ?case
    by simp
qed

lemma tree_destroy_file:
  assumes "tr_error t = MPACK_OK" and "file_state t = (n, Some f, False)"
  obtains t' where "mpack_tree_destroy env t = (MPACK_OK, t')" and "tr_closed t' = (if f = None then n else n + 1)"
proof -
  have c: "file_state (clear_abi_parse_views t) = (n, Some f, False)"
    using assms(2) by simp
  then obtain s where "tr_state (clear_abi_parse_views t) = Some s" "ts_close_file s = f"
      "tr_closed (clear_abi_parse_views t) = n" "\<not> tr_teardown (clear_abi_parse_views t)"
    by (auto simp: file_state_def)
  with assms(1) show thesis
    by (cases f) (auto simp: mpack_tree_destroy_def Let_def close_stream_def intro: that)
qed

subsection \<open>From a file to the values\<close>

lemma store_owned_ready:
  assumes "length bytes < 2 ^ 32" and "tr_error t = MPACK_OK" and "tr_size t = 0" and "tr_state t = Some new_state"
    and "\<not> tr_teardown t"
  shows "tree_ready (store_owned bytes f t)" "unparsed (store_owned bytes f t) = bytes" "node_limit (store_owned bytes f t) = None"
    "tr_read_fn (store_owned bytes f t) = tr_read_fn t" "file_state (store_owned bytes f t) = (tr_closed t, Some f, False)"
  using assms by (simp_all add: store_owned_def tree_ready_def unparsed_def node_limit_def new_state_def file_state_def)

lemma init_clear_fields:
  "tr_error (init_tree_clear t) = MPACK_OK" "tr_size (init_tree_clear t) = 0" "tr_state (init_tree_clear t) = Some new_state"
  "\<not> tr_teardown (init_tree_clear t)" "\<not> tr_read_fn (init_tree_clear t)" "tr_closed (init_tree_clear t) = tr_closed t"
  by (simp_all add: init_tree_clear_def)

lemma owned_messages:
  assumes "length bytes < 2 ^ 32" and "values_bytes bs vs" and "bytes = bs @ rest" and "\<forall>v\<in>set vs. height v \<le> d"
    and t: "tr_error t = MPACK_OK" "tr_size t = 0" "tr_state t = Some new_state" "\<not> tr_teardown t" "\<not> tr_read_fn t"
  shows "\<exists>t1 t2. c_tree_messages env d (length vs) (store_owned bytes f t) = Some (map abi_value vs, t1)
    \<and> unparsed t1 = rest \<and> mpack_tree_destroy env t1 = (MPACK_OK, t2)
    \<and> tr_closed t2 = (if f = None then tr_closed t else tr_closed t + 1)"
proof -
  note r = store_owned_ready [OF assms(1) t(1-4), where f = f]
  have "\<forall>v\<in>set vs. room_for (node_limit (store_owned bytes f t)) (node_count v) \<and> height v \<le> d"
    using assms(4) by (simp add: r(3) room_for_def)
  from tree_messages_file [OF assms(2) r(1) _ _ this, of rest env] t(5) r(2,4) assms(3) obtain t1 where
    t1: "c_tree_messages env d (length vs) (store_owned bytes f t) = Some (map abi_value vs, t1)" "tr_error t1 = MPACK_OK"
      "unparsed t1 = rest" "file_state t1 = (tr_closed t, Some f, False)"
    using r(5) by metis
  obtain t2 where "mpack_tree_destroy env t1 = (MPACK_OK, t2)" "tr_closed t2 = (if f = None then tr_closed t else tr_closed t + 1)"
    by (rule tree_destroy_file [OF t1(2,4)])
  with t1 show ?thesis
    by blast
qed

text \<open>C10. A tree on a file parses message after message exactly the values whose encodings the file begins with, and
  is destroyed without an error; a file the crate has opened is closed exactly once, and the file of the C program exactly
  once when the program asked for that and never otherwise.\<close>

theorem c_tree_reads_file:
  assumes "file_holds env s bytes" and "length bytes < 2 ^ 32" and "max_bytes = 0 \<or> length bytes \<le> max_bytes"
    and "max_bytes \<le> LONG_MAX" and "values_bytes bs vs" and "bytes = bs @ rest" and "bytes \<noteq> []"
    and "\<forall>v\<in>set vs. height v \<le> d"
  shows "(\<forall>name. te_fopen env name = Some s \<longrightarrow> (\<exists>t1 t2 t3. mpack_tree_init_filename env (Some name) max_bytes t = Some t1
      \<and> c_tree_messages env d (length vs) t1 = Some (map abi_value vs, t2) \<and> unparsed t2 = rest
      \<and> mpack_tree_destroy env t2 = (MPACK_OK, t3) \<and> tr_closed t3 = tr_closed t + 1))
    \<and> (\<exists>t1 s1 t2 t3. mpack_tree_init_stdfile env (Some s) max_bytes close_when_done t = Some (t1, s1)
      \<and> c_tree_messages env d (length vs) t1 = Some (map abi_value vs, t2) \<and> unparsed t2 = rest
      \<and> mpack_tree_destroy env t2 = (MPACK_OK, t3) \<and> tr_closed t3 = (if close_when_done then tr_closed t + 1 else tr_closed t))"
proof -
  obtain s' where load: "load_file_data env s max_bytes = Some (Inr bytes, s')"
    by (rule load_file_ok [OF assms(1,7,3)])
  have fine: "tree_file_check_max_bytes max_bytes t = (True, t)"
    using assms(4) by (simp add: tree_file_check_max_bytes_def)
  note clear = init_clear_fields [of t] and run = owned_messages [OF assms(2,5,6,8), of _ env]
  have named: "\<exists>t1 t2 t3. mpack_tree_init_filename env (Some name) max_bytes t = Some t1
      \<and> c_tree_messages env d (length vs) t1 = Some (map abi_value vs, t2) \<and> unparsed t2 = rest
      \<and> mpack_tree_destroy env t2 = (MPACK_OK, t3) \<and> tr_closed t3 = tr_closed t + 1"
    if "te_fopen env name = Some s" for name
  proof -
    let ?t = "(init_tree_clear t)\<lparr>tr_closed := tr_closed t + 1\<rparr>"
    have "close_stream (store_owned bytes None (init_tree_clear t)) = store_owned bytes None ?t"
      by (simp add: close_stream_def store_owned_def clear(3,6))
    then have "mpack_tree_init_filename env (Some name) max_bytes t = Some (store_owned bytes None ?t)"
      using that load fine by (simp add: mpack_tree_init_filename_def Let_def)
    moreover have "tr_error ?t = MPACK_OK" "tr_size ?t = 0" "tr_state ?t = Some new_state" "\<not> tr_teardown ?t" "\<not> tr_read_fn ?t"
      using clear by simp_all
    from run [OF this, of None] obtain t2 t3 where "c_tree_messages env d (length vs) (store_owned bytes None ?t) = Some (map abi_value vs, t2)"
      "unparsed t2 = rest" "mpack_tree_destroy env t2 = (MPACK_OK, t3)" "tr_closed t3 = tr_closed t + 1"
      by auto
    ultimately show ?thesis
      by blast
  qed
  let ?f = "if close_when_done then Some s' else None"
  have init: "mpack_tree_init_stdfile env (Some s) max_bytes close_when_done t
      = Some (store_owned bytes ?f (init_tree_clear t), Some s')"
    using load fine by (simp add: mpack_tree_init_stdfile_def Let_def)
  from run [OF clear(1-5), of ?f] obtain t2 t3 where
    "c_tree_messages env d (length vs) (store_owned bytes ?f (init_tree_clear t)) = Some (map abi_value vs, t2)"
    "unparsed t2 = rest" "mpack_tree_destroy env t2 = (MPACK_OK, t3)"
    "tr_closed t3 = (if close_when_done then tr_closed t + 1 else tr_closed t)"
    using clear(6) by (auto split: if_splits)
  with init have "\<exists>t1 s1 t2 t3. mpack_tree_init_stdfile env (Some s) max_bytes close_when_done t = Some (t1, s1)
      \<and> c_tree_messages env d (length vs) t1 = Some (map abi_value vs, t2) \<and> unparsed t2 = rest
      \<and> mpack_tree_destroy env t2 = (MPACK_OK, t3) \<and> tr_closed t3 = (if close_when_done then tr_closed t + 1 else tr_closed t)"
    by blast
  with named show ?thesis
    by blast
qed

definition sample_file :: c_stream where
  "sample_file = \<lparr>cs_rest = [0x92, 0xa1, 65, 0xc0, 7], cs_eof = False\<rparr>"

definition sample_file_env :: tree_env where
  "sample_file_env = plain_tree_env\<lparr>te_fopen := (\<lambda>name. Some sample_file)\<rparr>"

theorem c_tree_reads_file_witness:
  "\<exists>t1 t2 t3. mpack_tree_init_filename sample_file_env (Some ''data.mp'') 0 blank_tree = Some t1
     \<and> c_tree_messages sample_file_env 2 1 t1 = Some ([abi_value tree_sample], t2) \<and> unparsed t2 = [7]
     \<and> mpack_tree_destroy sample_file_env t2 = (MPACK_OK, t3) \<and> tr_closed t3 = 1"
proof -
  have "file_holds sample_file_env sample_file [0x92, 0xa1, 65, 0xc0, 7]" and opened: "te_fopen sample_file_env name = Some sample_file" for name
    by (simp_all add: file_holds_def plain_tree_env_def sample_file_env_def sample_file_def)
  note all = c_tree_reads_file [OF this(1), where max_bytes = 0 and vs = "[tree_sample]" and rest = "[7]" and d = 2 and t = blank_tree]
  have "tr_closed blank_tree + 1 = 1" "length [tree_sample] = 1" "map abi_value [tree_sample] = [abi_value tree_sample]"
    by (simp_all add: blank_tree_def)
  moreover have "\<exists>t1 t2 t3. mpack_tree_init_filename sample_file_env (Some ''data.mp'') 0 blank_tree = Some t1
     \<and> c_tree_messages sample_file_env 2 (length [tree_sample]) t1 = Some (map abi_value [tree_sample], t2) \<and> unparsed t2 = [7]
     \<and> mpack_tree_destroy sample_file_env t2 = (MPACK_OK, t3) \<and> tr_closed t3 = tr_closed blank_tree + 1"
    by (rule conjunct1 [OF all, rule_format, OF _ _ _ tree_sample_bytes(2) _ _ _ opened])
      (use tree_sample_height in \<open>simp_all add: LONG_MAX_def\<close>)
  ultimately show ?thesis
    by (simp only:)
qed

end
