(* ===== verification/Ffi_Node_Maps.thy ===== *)
theory Ffi_Node_Maps
  imports Ffi_Node_Theorems
begin

section \<open>Lookups and enumerations in a C tree\<close>

text \<open>
  The lookups by key and the enumerations of the C tree run in the safe core, on the node table the tree has kept,
  after the address of the node was translated to an index and before the index found is translated back. On a C
  node that is a value, the answer depends on the value alone.
\<close>

subsection \<open>The bridge\<close>

text \<open>The core tree the bridge makes, and the index it gives to a node.\<close>

definition core_of :: "ffi_tree \<Rightarrow> tree" where
  "core_of t = (let s = the (tr_state t)
     in \<lparr>t_data = the (raw_slice (tr_data t) (tr_data_length t)), t_nodes = ts_nodes s, t_root = ts_root s,
         t_error = Err_Ok, t_size = ts_size s\<rparr>)"

fun core_index :: "node_ptr \<Rightarrow> ffi_tree \<Rightarrow> nat" where
  "core_index (Entry k) t = ts_abi_to_safe (the (tr_state t)) ! k"
| "core_index p t = 0"

lemma bridge:
  assumes "c_node_is t p v"
  obtains s k where "tr_error t = MPACK_OK" and "tr_state t = Some s" and "ts_parsed s" and "ts_nodes s \<noteq> []"
    and "raw_slice (tr_data t) (tr_data_length t) = Some (t_data (core_of t))"
    and "abi_index_of p (abi_base_and_count t s) = Some k" and "index (ts_abi_to_safe s) k = Some (core_index p t)"
    and "node_is (core_of t) (core_index p t) v"
    and "\<And>j w. node_is (core_of t) j w \<Longrightarrow> c_node_is t (abi_node_from_safe t s j) w"
proof -
  from assms obtain s mem data block i where c: "tr_error t = MPACK_OK" "tr_state t = Some s" "ts_parsed s"
      "tr_data t = Some mem" "slice mem 0 (tr_data_length t) = Some data" "length data \<le> usize_max"
      "node_block t = Some block" "placed (ts_nodes s) block (ts_abi_to_safe s) (ts_safe_to_abi s)"
      "\<forall>nd\<in>set (ts_nodes s). ext_byte data nd" "p = Entry (ts_safe_to_abi s ! i)" "represents data (ts_nodes s) i v"
    unfolding c_node_is_def by blast
  have inside: "j < length (ts_nodes s)" if "represents data (ts_nodes s) j w" for j w
    using that by (cases w) (auto elim: representsE)
  note i_in = inside [OF c(11)]
  have raw: "raw_slice (tr_data t) (tr_data_length t) = Some data"
    using c(4,5) by (auto simp: raw_slice_def slice_def)
  have core: "core_of t = \<lparr>t_data = data, t_nodes = ts_nodes s, t_root = ts_root s, t_error = Err_Ok, t_size = ts_size s\<rparr>"
    using c(2) raw by (simp add: core_of_def)
  have base: "abi_base_and_count t s = (True, length (ts_nodes s))"
    using c(2,7,8) by (auto simp: abi_base_and_count_def placed_def node_block_def split: if_splits)
  have place: "ts_safe_to_abi s ! j < length (ts_nodes s) \<and> ts_abi_to_safe s ! (ts_safe_to_abi s ! j) = j"
    if "j < length (ts_nodes s)" for j
    using c(8) that unfolding placed_def by blast
  have len: "length (ts_abi_to_safe s) = length (ts_nodes s)" "length (ts_safe_to_abi s) = length (ts_nodes s)"
    using c(8) unfolding placed_def by blast+
  have index_is: "core_index p t = i"
    using place [OF i_in] c(2,10) by simp
  have at: "abi_index_of p (abi_base_and_count t s) = Some (ts_safe_to_abi s ! i)"
    "index (ts_abi_to_safe s) (ts_safe_to_abi s ! i) = Some (core_index p t)"
    using place [OF i_in] i_in c(10) base len index_is by (auto simp: abi_index_of_def index_def)
  have found: "c_node_is t (abi_node_from_safe t s j) w" if "node_is (core_of t) j w" for j w
  proof -
    have j: "represents data (ts_nodes s) j w"
      using that by (simp add: node_is_def core)
    have "abi_node_from_safe t s j = Entry (ts_safe_to_abi s ! j)"
      using place [OF inside [OF j]] inside [OF j] base len by (simp add: abi_node_from_safe_def index_def)
    with j c show ?thesis
      unfolding c_node_is_def by blast
  qed
  have root: "node_is (core_of t) (core_index p t) v"
    using c(6,11) index_is by (simp add: node_is_def core)
  have some: "ts_nodes s \<noteq> []"
    using i_in by auto
  have "raw_slice (tr_data t) (tr_data_length t) = Some (t_data (core_of t))"
    using raw core by simp
  from c(1-3) some this at root found show thesis
    by (rule that)
qed

text \<open>What an accessor of the core may change is the error.\<close>

lemma with_core_node_value:
  assumes "c_node_is t p v" and "f (core_index p t) (core_of t) = Some (x, tree_flag_error e (core_of t))"
  shows "with_core_node p f t = Some (Some x, if e = Err_Ok then t else flag_tree_error (core_error_to_abi e) t)"
proof -
  obtain s k where s: "tr_error t = MPACK_OK" "tr_state t = Some s" "ts_parsed s" "ts_nodes s \<noteq> []"
      "raw_slice (tr_data t) (tr_data_length t) = Some (t_data (core_of t))"
      "abi_index_of p (abi_base_and_count t s) = Some k" "index (ts_abi_to_safe s) k = Some (core_index p t)"
    by (rule bridge [OF assms(1)]) (rule that)
  have core: "core_of t = \<lparr>t_data = t_data (core_of t), t_nodes = ts_nodes s, t_root = ts_root s,
      t_error = abi_error_to_core (tr_error t), t_size = ts_size s\<rparr>"
    using s(1,2) by (simp add: core_of_def abi_error_to_core_def)
  have same: "t\<lparr>tr_state := Some s\<rparr> = t"
    using s(2) by (cases t) simp
  have fields: "t_nodes (tree_flag_error e (core_of t)) = ts_nodes s" "t_root (tree_flag_error e (core_of t)) = ts_root s"
      "t_size (tree_flag_error e (core_of t)) = ts_size s" "t_error (tree_flag_error e (core_of t)) = e"
    using s(2) by (simp_all add: tree_flag_error_def core_of_def)
  have f: "f (core_index p t) \<lparr>t_data = t_data (core_of t), t_nodes = ts_nodes s, t_root = ts_root s,
      t_error = abi_error_to_core (tr_error t), t_size = ts_size s\<rparr> = Some (x, tree_flag_error e (core_of t))"
    using assms(2) core by simp
  have "with_core_node p f t = Some (Some x,
      if core_error_to_abi e \<noteq> MPACK_OK \<and> tr_error t = MPACK_OK then flag_tree_error (core_error_to_abi e) t else t)"
    using s(2-7) f by (simp add: with_core_node_def fields same)
  with s(1) show ?thesis
    by (cases e) (simp_all add: c_codes)
qed

subsection \<open>Lookups by key\<close>

lemma flag_none: "tree_flag_error Err_Ok t = t"
  by (simp add: tree_flag_error_def)

lemma core_lookup_value:
  assumes c: "c_node_is t p (MValue (Tag_Map n) pl vs)"
  shows "case matching (key_value_matches key) vs of
      [] \<Rightarrow> with_core_node p (map_lookup key required) t
          = Some (Some None, if required then flag_tree_error MPACK_ERROR_DATA t else t)
    | [v] \<Rightarrow> (\<exists>j s. with_core_node p (map_lookup key required) t = Some (Some (Some j), t)
          \<and> tr_state t = Some s \<and> c_node_is t (abi_node_from_safe t s j) v)
    | _ \<Rightarrow> with_core_node p (map_lookup key required) t = Some (Some None, flag_tree_error MPACK_ERROR_DATA t)"
proof -
  obtain s where b: "tr_state t = Some s" "node_is (core_of t) (core_index p t) (MValue (Tag_Map n) pl vs)"
    and found: "\<And>j w. node_is (core_of t) j w \<Longrightarrow> c_node_is t (abi_node_from_safe t s j) w"
    by (rule bridge [OF c]) (rule that)
  note res = map_lookup_value [OF b(2), of key required] and call = with_core_node_value [OF c, of "map_lookup key required"]
  show ?thesis
  proof (cases "matching (key_value_matches key) vs" rule: remdups_adj.cases)
    case 1
    then have "map_lookup key required (core_index p t) (core_of t)
        = Some (None, tree_flag_error (if required then Err_Data else Err_Ok) (core_of t))"
      using res by (simp add: flag_none)
    from call [OF this] 1 show ?thesis
      by (cases required) simp_all
  next
    case (2 v)
    then obtain j where "map_lookup key required (core_index p t) (core_of t) = Some (Some j, tree_flag_error Err_Ok (core_of t))"
        "node_is (core_of t) j v"
      using res by (auto simp: flag_none)
    with call [OF this(1)] found [OF this(2)] 2 b(1) show ?thesis
      by auto
  next
    case (3 v w rest)
    then have "map_lookup key required (core_index p t) (core_of t) = Some (None, tree_flag_error Err_Data (core_of t))"
      using res by simp
    from call [OF this] 3 show ?thesis
      by simp
  qed
qed

lemma core_contains_value:
  assumes c: "c_node_is t p (MValue (Tag_Map n) pl vs)"
  shows "with_core_node p (map_contains key) t = Some (Some (length (matching (key_value_matches key) vs) = 1),
    if length (matching (key_value_matches key) vs) \<le> 1 then t else flag_tree_error MPACK_ERROR_DATA t)"
proof -
  obtain s where b: "node_is (core_of t) (core_index p t) (MValue (Tag_Map n) pl vs)"
    by (rule bridge [OF c]) (rule that)
  have ok: "t_error (core_of t) = Err_Ok"
    by (simp add: core_of_def Let_def)
  let ?e = "if length (matching (key_value_matches key) vs) \<le> 1 then Err_Ok else Err_Data"
  have "map_contains key (core_index p t) (core_of t)
      = Some (length (matching (key_value_matches key) vs) = 1, tree_flag_error ?e (core_of t))"
    using map_lookup_value [OF b, of key False] ok
    by (cases "matching (key_value_matches key) vs" rule: remdups_adj.cases)
      (auto simp: map_contains_def tree_flag_error_def)
  from with_core_node_value [where f = "map_contains key", OF c this] show ?thesis
    by (simp split: if_splits)
qed

text \<open>What a lookup answers, by the values of the entries whose key is the one asked for: one entry is the answer, of
  more than one none is, and \<open>absent\<close> is the answer for no entry.\<close>

definition lookup_answer ::
  "ffi_tree \<Rightarrow> (node_ptr \<times> ffi_tree) \<Rightarrow> mvalue list \<Rightarrow> (node_ptr \<times> ffi_tree) option \<Rightarrow> bool"
where
  "lookup_answer t absent found res \<longleftrightarrow> (case found of
      [] \<Rightarrow> res = Some absent
    | [v] \<Rightarrow> (\<exists>q. res = Some (q, t) \<and> c_node_is t q v)
    | _ \<Rightarrow> res = Some (Nil_Node, flag_tree_error MPACK_ERROR_DATA t))"

lemma data_flagged: "tr_error t = MPACK_OK \<Longrightarrow> tr_error (flag_tree_error MPACK_ERROR_DATA t) \<noteq> MPACK_OK"
  by (simp add: flag_tree_error_def Let_def c_codes)

lemma core_map_value:
  assumes c: "c_node_is t p (MValue (Tag_Map n) pl vs)"
    and found: "found = matching (key_value_matches key) vs"
  shows "lookup_answer t (Nil_Node, flag_tree_error MPACK_ERROR_DATA t) found (core_map_required p (map_lookup key True) t)"
    and "lookup_answer t (Missing_Node, t) found (core_map_optional p (map_lookup key False) t)"
    and "core_map_contains p (map_contains key) t
      = Some (length found = 1, if length found \<le> 1 then t else flag_tree_error MPACK_ERROR_DATA t)"
proof -
  have ok: "tr_error t = MPACK_OK" and is_map: "ensure_abi_map p t = Some (True, t)"
    using c_node_ok [OF c] node_type_value(2) [OF c] by (simp_all add: ensure_abi_map_def)
  note defs = core_map_required_def core_map_optional_def core_map_lookup_def guarded_def lookup_answer_def
  show "lookup_answer t (Nil_Node, flag_tree_error MPACK_ERROR_DATA t) found (core_map_required p (map_lookup key True) t)"
    using core_lookup_value [OF c, of key True] ok is_map unfolding found
    by (cases "matching (key_value_matches key) vs" rule: remdups_adj.cases) (auto simp: defs)
  show "lookup_answer t (Missing_Node, t) found (core_map_optional p (map_lookup key False) t)"
    using core_lookup_value [OF c, of key False] ok is_map data_flagged [OF ok] unfolding found
    by (cases "matching (key_value_matches key) vs" rule: remdups_adj.cases) (auto simp: defs)
  show "core_map_contains p (map_contains key) t
      = Some (length found = 1, if length found \<le> 1 then t else flag_tree_error MPACK_ERROR_DATA t)"
    using ok is_map core_contains_value [OF c, of key] by (simp add: core_map_contains_def guarded_def found)
qed

text \<open>The exported functions by the kind of the key.\<close>

definition c_lookup :: "map_key \<Rightarrow> node_ptr \<Rightarrow> node_ptr node_read" where
  "c_lookup key p = (case key of Key_Int n \<Rightarrow> mpack_node_map_int p n | Key_Uint n \<Rightarrow> mpack_node_map_uint p n
     | Key_Str s \<Rightarrow> mpack_node_map_str p (Some s) (length s))"

definition c_lookup_optional :: "map_key \<Rightarrow> node_ptr \<Rightarrow> node_ptr node_read" where
  "c_lookup_optional key p = (case key of Key_Int n \<Rightarrow> mpack_node_map_int_optional p n
     | Key_Uint n \<Rightarrow> mpack_node_map_uint_optional p n | Key_Str s \<Rightarrow> mpack_node_map_str_optional p (Some s) (length s))"

definition c_contains :: "map_key \<Rightarrow> node_ptr \<Rightarrow> bool node_read" where
  "c_contains key p = (case key of Key_Int n \<Rightarrow> mpack_node_map_contains_int p n
     | Key_Uint n \<Rightarrow> mpack_node_map_contains_uint p n | Key_Str s \<Rightarrow> mpack_node_map_contains_str p (Some s) (length s))"

lemma raw_slice_whole [simp]: "raw_slice (Some s) (length s) = Some s"
  by (simp add: raw_slice_def slice_def)

lemma c_lookup_core:
  "c_lookup key p = core_map_required p (map_lookup key True)"
  "c_lookup_optional key p = core_map_optional p (map_lookup key False)"
  "c_contains key p = core_map_contains p (map_contains key)"
  by (cases key; simp add: c_lookup_def c_lookup_optional_def c_contains_def mpack_node_map_int_def mpack_node_map_uint_def
      mpack_node_map_str_def mpack_node_map_int_optional_def mpack_node_map_uint_optional_def mpack_node_map_str_optional_def
      mpack_node_map_contains_int_def mpack_node_map_contains_uint_def mpack_node_map_contains_str_def fun_eq_iff
      node_map_int_def [abs_def] node_map_uint_def [abs_def] node_map_str_def [abs_def] node_map_int_optional_def [abs_def]
      node_map_uint_optional_def [abs_def] node_map_str_optional_def [abs_def] node_map_contains_int_def [abs_def]
      node_map_contains_uint_def [abs_def] node_map_contains_str_def [abs_def])+

lemma cstr_bytes_text: "0 \<notin> set s \<Longrightarrow> cstr_bytes (Some (s @ 0 # junk)) = Some (Some s)"
  by (auto simp: cstr_bytes_def takeWhile_append)

text \<open>C9. The lookups by key on a C node that is a map, with an integer of either signedness or a string as the key,
  answer by the values of the entries with that key: the C node of the only one; for none \<open>Data\<close>, or the missing
  node and no error from the optional functions; for more than one always \<open>Data\<close>. A C string is looked up as the string
  before its terminator. On a node that is no map the answer is \<open>Type\<close>.\<close>

theorem c_map_lookup_by_value:
  assumes "c_node_is t p (MValue tg pl vs)"
  shows "(\<forall>n key. tg = Tag_Map n \<longrightarrow> (let found = matching (key_value_matches key) vs; missed = flag_tree_error MPACK_ERROR_DATA t
      in lookup_answer t (Nil_Node, missed) found (c_lookup key p t)
       \<and> lookup_answer t (Missing_Node, t) found (c_lookup_optional key p t)
       \<and> c_contains key p t = Some (length found = 1, if length found \<le> 1 then t else missed)))
    \<and> (\<forall>key. tag_map tg = None \<longrightarrow> (let bad = flag_tree_error MPACK_ERROR_TYPE t
      in c_lookup key p t = Some (Nil_Node, bad) \<and> c_lookup_optional key p t = Some (Nil_Node, bad)
       \<and> c_contains key p t = Some (False, bad)))
    \<and> (\<forall>s junk. 0 \<notin> set s \<longrightarrow>
        mpack_node_map_cstr p (Some (s @ 0 # junk)) t = mpack_node_map_str p (Some s) (length s) t
      \<and> mpack_node_map_cstr_optional p (Some (s @ 0 # junk)) t = mpack_node_map_str_optional p (Some s) (length s) t
      \<and> mpack_node_map_contains_cstr p (Some (s @ 0 # junk)) t = mpack_node_map_contains_str p (Some s) (length s) t)"
proof (intro conjI allI impI)
  fix n key
  assume "tg = Tag_Map n"
  with assms have "c_node_is t p (MValue (Tag_Map n) pl vs)"
    by simp
  then show "let found = matching (key_value_matches key) vs; missed = flag_tree_error MPACK_ERROR_DATA t
      in lookup_answer t (Nil_Node, missed) found (c_lookup key p t)
       \<and> lookup_answer t (Missing_Node, t) found (c_lookup_optional key p t)
       \<and> c_contains key p t = Some (length found = 1, if length found \<le> 1 then t else missed)"
    unfolding Let_def c_lookup_core by (intro conjI core_map_value [OF _ refl])
next
  fix key
  assume "tag_map tg = None"
  then have "ensure_abi_map p t = node_flag MPACK_ERROR_TYPE False t"
    using node_type_value(2) [OF assms] by (cases tg) (simp_all add: ensure_abi_map_def c_types)
  then show "let bad = flag_tree_error MPACK_ERROR_TYPE t
      in c_lookup key p t = Some (Nil_Node, bad) \<and> c_lookup_optional key p t = Some (Nil_Node, bad)
       \<and> c_contains key p t = Some (False, bad)"
    using c_node_ok [OF assms]
    by (simp add: c_lookup_core core_map_required_def core_map_optional_def core_map_lookup_def core_map_contains_def
        guarded_def node_flag_def)
next
  fix s junk :: "u8 list"
  assume s: "0 \<notin> set s"
  note defs = cstr_bytes_text [OF s] mpack_node_map_cstr_def mpack_node_map_str_def mpack_node_map_cstr_optional_def
    mpack_node_map_str_optional_def mpack_node_map_contains_cstr_def mpack_node_map_contains_str_def
  show "mpack_node_map_cstr p (Some (s @ 0 # junk)) t = mpack_node_map_str p (Some s) (length s) t"
    "mpack_node_map_cstr_optional p (Some (s @ 0 # junk)) t = mpack_node_map_str_optional p (Some s) (length s) t"
    "mpack_node_map_contains_cstr p (Some (s @ 0 # junk)) t = mpack_node_map_contains_str p (Some s) (length s) t"
    by (simp_all add: defs)
qed

lemma parsed_c_node:
  assumes "value_bytes bs v" and "n = length bs" and "n < 2 ^ 32"
  shows "\<exists>t'. mpack_tree_parse env (mpack_tree_init_data (Some bs) n t) = Some t'
    \<and> mpack_tree_root t' = (Entry 0, t') \<and> c_node_is t' (Entry 0) v"
proof -
  note a = init_data_ready [OF eq_refl [OF assms(2)] assms(3), where t = t]
  have "unparsed (mpack_tree_init_data (Some bs) n t) = bs @ []"
    "room_for (node_limit (mpack_tree_init_data (Some bs) n t)) (node_count v)"
    using a(2,3) assms(2) by (simp_all add: room_for_def)
  with parse_value [OF a(1,4) assms(1), of "[]" env] show ?thesis
    by metis
qed

theorem c_map_lookup_by_value_witness:
  "\<exists>t q. mpack_tree_parse plain_tree_env (mpack_tree_init_data (Some [0x81, 0xa1, 0x61, 5]) 4 blank_tree) = Some t
     \<and> mpack_node_map_str (Entry 0) (Some [0x61]) 1 t = Some (q, t) \<and> c_node_is t q (MValue (Tag_Uint 5) [] [])"
proof -
  obtain t where t: "mpack_tree_parse plain_tree_env (mpack_tree_init_data (Some [0x81, 0xa1, 0x61, 5]) 4 blank_tree) = Some t"
      "c_node_is t (Entry 0) sample_map"
    using parsed_c_node [OF sample_map_bytes, of 4 plain_tree_env blank_tree] by auto
  have "matching (key_value_matches (Key_Str [0x61])) [MValue (Tag_Str 1) [0x61] [], MValue (Tag_Uint 5) [] []]
      = [MValue (Tag_Uint 5) [] []]"
    by (simp add: key_value_matches_def)
  with c_map_lookup_by_value [OF t(2)] t(1) show ?thesis
    by (auto simp: c_lookup_def lookup_answer_def dest!: spec [where x = "Key_Str [0x61]"])
qed

subsection \<open>Enumerations\<close>

lemma owned_strings_ok:
  "list_all2 (\<lambda>pointer s. cstr_bytes pointer = Some (Some s)) pointers strings \<Longrightarrow> i \<le> length pointers \<Longrightarrow>
    owned_strings pointers i (length pointers - i) = Some (drop i strings)"
proof (induction "length pointers - i" arbitrary: i)
  case 0
  then show ?case by (auto dest: list_all2_lengthD)
next
  case (Suc n)
  then have i: "i < length pointers" "length pointers - i = Suc (length pointers - (i + 1))" "length strings = length pointers"
    by (auto dest: list_all2_lengthD)
  have "cstr_bytes (pointers ! i) = Some (Some (strings ! i))"
    using list_all2_nthD [OF Suc.prems(1) i(1)] .
  moreover have "drop i strings = strings ! i # drop (i + 1) strings"
    using i by (simp add: Cons_nth_drop_Suc)
  ultimately show ?case
    using Suc.hyps(1) [of "i + 1"] Suc.hyps(2) Suc.prems(1) i unfolding i(2) by (simp add: checked)
qed

lemma core_enum_value:
  assumes c: "c_node_is t p (MValue tg pl vs)" and s: "kind tg = Type_Str"
  shows "with_core_node p (\<lambda>n core. Some (enum_str views optional n core)) t =
    (if pl \<in> set views then Some (Some (length (takeWhile (\<lambda>s. s \<noteq> pl) views)), t)
     else Some (Some (length views), if optional then t else flag_tree_error MPACK_ERROR_TYPE t))"
proof -
  obtain st where b: "node_is (core_of t) (core_index p t) (MValue tg pl vs)"
    by (rule bridge [OF c]) (rule that)
  let ?e = "if pl \<in> set views \<or> optional then Err_Ok else Err_Type"
  have "Some (enum_str views optional (core_index p t) (core_of t))
      = Some (if pl \<in> set views then length (takeWhile (\<lambda>s. s \<noteq> pl) views) else length views, tree_flag_error ?e (core_of t))"
    using enum_str_by_value [OF b, of views optional] s by (simp add: flag_none)
  from with_core_node_value [where f = "\<lambda>n core. Some (enum_str views optional n core)", OF c this] show ?thesis
    by simp
qed

text \<open>An enumeration answers the position of the first candidate equal to the string, and otherwise their number, with
  \<open>Type\<close> flagged unless it is optional. With a null pointer for the candidates there is nothing to compare with, and the
  answer is zero, as if the first one had been found; with a count beyond the capacity of a vector the function
  panics, which is caught and reported as a bug.\<close>

theorem c_enum_by_value:
  assumes "c_node_is t p (MValue tg pl vs)"
    and "list_all2 (\<lambda>pointer s. cstr_bytes pointer = Some (Some s)) pointers strings"
    and "length pointers * VEC_SIZE \<le> isize_max"
  shows "node_enum_via_core p (Some pointers) (length pointers) optional t =
      Some (if kind tg = Type_Str \<and> pl \<in> set strings then (Some (length (takeWhile (\<lambda>s. s \<noteq> pl) strings)), t)
        else (Some (length pointers), if optional then t else flag_tree_error MPACK_ERROR_TYPE t))"
    and "kind tg = Type_Str \<Longrightarrow> mpack_node_enum_optional p None count t =
      Some (if count * VEC_SIZE \<le> isize_max then (0, t) else (count, flag_tree_error MPACK_ERROR_BUG t))"
proof -
  have ok: "tr_error t = MPACK_OK"
    by (rule c_node_ok [OF assms(1)])
  have ty: "nd_type p t = Some (type_code tg)" "type_code tg = TYPE_STR \<longleftrightarrow> kind tg = Type_Str"
    using node_type_value(2) [OF assms(1)] by (auto, (cases tg; simp add: c_types)+)
  have len: "length strings = length pointers"
    using list_all2_lengthD [OF assms(2)] by simp
  have views: "owned_strings pointers 0 (length pointers) = Some strings"
    using owned_strings_ok [OF assms(2), of 0] by simp
  show "node_enum_via_core p (Some pointers) (length pointers) optional t =
      Some (if kind tg = Type_Str \<and> pl \<in> set strings then (Some (length (takeWhile (\<lambda>s. s \<noteq> pl) strings)), t)
        else (Some (length pointers), if optional then t else flag_tree_error MPACK_ERROR_TYPE t))"
    using assms(3) ok ty views len core_enum_value [OF assms(1), of strings optional]
    by (cases "kind tg = Type_Str") (simp_all add: node_enum_via_core_def guarded_def)
  show "mpack_node_enum_optional p None count t =
      Some (if count * VEC_SIZE \<le> isize_max then (0, t) else (count, flag_tree_error MPACK_ERROR_BUG t))"
    if "kind tg = Type_Str"
    using that ok ty core_enum_value [OF assms(1) that, of "[]" True]
    by (simp add: mpack_node_enum_optional_def catch_ffi_panic_def node_enum_via_core_def guarded_def node_flag_def)
qed

end
