(* ===== verification/Ffi_Node_Print.thy ===== *)
theory Ffi_Node_Print
  imports Ffi_Node_Lookup Ffi_Print
begin

section \<open>Printing a C tree as text (\<open>src/ffi/node.rs\<close>)\<close>

text \<open>
  \<open>mpack_node_print_to_buffer\<close> and \<open>mpack_node_print_to_file\<close>: a pseudo-JSON rendering of the nodes below a
  node, by a loop with its own stack of open compounds, the innermost first. Writing to the vector
  \<open>output\<close> never fails.
\<close>

datatype node_frame =
    Frame_Array node_ptr u32 u32 nat
  | Frame_Map node_ptr u32 u32 bool nat

text \<open>The union as a pointer to children, and the pointer that many places behind it.\<close>

fun children_pointer :: "node_union \<Rightarrow> node_ptr option" where
  "children_pointer (Number n) = (if n = 0 then Some Null_Node else None)"
| "children_pointer (Children k) = Some (Entry k)"

fun ptr_add :: "node_ptr \<Rightarrow> nat \<Rightarrow> node_ptr" where
  "ptr_add (Entry k) n = Entry (k + n)"
| "ptr_add p n = Null_Node"

definition print_indent :: "u8 list \<Rightarrow> nat \<Rightarrow> u8 list" where
  "print_indent output depth = output @ concat (replicate depth (ascii ''    ''))"

text \<open>The bytes of a binary or an extension that are shown.\<close>

definition node_bytes_text :: "u64 \<Rightarrow> u32 \<Rightarrow> u8 list option \<Rightarrow> u8 list option" where
  "node_bytes_text offset len data =
     (case data of
        None \<Rightarrow> Some []
      | Some mem \<Rightarrow>
          if len = 0 then Some []
          else
            (let shown = min (unat len) PRINT_BYTE_COUNT
             in do {
               bytes \<leftarrow> slice mem (unat offset) (unat offset + shown);
               Some (ascii '': '' @ concat (map show_hex bytes) @ (if unat len > shown then ascii ''...'' else []))
             }))"

text \<open>The \<open>match\<close> on the type, for nodes that are no compounds.\<close>

definition print_node_leaf :: "abi_node \<Rightarrow> u8 list option \<Rightarrow> u8 list option" where
  "print_node_leaf nd data =
     (let ty = an_type nd;
          value = (case an_value nd of Number v \<Rightarrow> Some v | Children _ \<Rightarrow> None)
      in if ty = TYPE_NIL then Some (ascii ''null'')
         else if ty = TYPE_MISSING then Some (ascii ''<missing>'')
         else if ty = TYPE_BOOL then do { v \<leftarrow> value; Some (ascii (if v \<noteq> 0 then ''true'' else ''false'')) }
         else if ty = TYPE_INT then do { v \<leftarrow> value; Some (show_int (sint v)) }
         else if ty = TYPE_UINT then do { v \<leftarrow> value; Some (show_u64 v) }
         else if ty = TYPE_FLOAT then do { v \<leftarrow> value; Some (show_f32 (ucast v)) }
         else if ty = TYPE_DOUBLE then do { v \<leftarrow> value; Some (show_f64 v) }
         else if ty = TYPE_STR then
           (if data \<noteq> None \<and> 0 < an_len nd then do {
              mem \<leftarrow> data;
              v \<leftarrow> value;
              bytes \<leftarrow> slice mem (unat v) (unat v + unat (an_len nd));
              Some ([34] @ concat (map escape_byte bytes) @ [34])
            }
            else Some ([34] @ [34]))
         else if ty = TYPE_BIN then do {
           v \<leftarrow> value;
           bytes \<leftarrow> node_bytes_text v (an_len nd) data;
           Some (ascii ''<binary data of length '' @ show_u32 (an_len nd) @ bytes @ ascii ''>'')
         }
         else if ty = TYPE_EXT then do {
           v \<leftarrow> value;
           exttype \<leftarrow> exttype_at data v;
           bytes \<leftarrow> node_bytes_text v (an_len nd) data;
           Some (ascii ''<ext data of type '' @ show_int (sint exttype) @ ascii '' and length '' @ show_u32 (an_len nd)
             @ bytes @ ascii ''>'')
         }
         else Some (ascii ''<unknown>''))"

text \<open>\<open>Inl\<close> a compound that was opened, with its first child (\<open>continue\<close>); \<open>Inr\<close> the text after a leaf.\<close>

definition print_one_node ::
  "abi_node \<Rightarrow> u8 list option \<Rightarrow> nat \<Rightarrow> u8 list \<Rightarrow> (node_frame \<times> node_ptr \<times> u8 list + u8 list) option"
where
  "print_one_node nd data depth output =
     (if an_type nd = TYPE_ARRAY then
        (let output = output @ ascii ''['' @ [10]
         in if an_len nd = 0 then Some (Inr (print_indent output depth @ ascii '']''))
            else do {
              children \<leftarrow> children_pointer (an_value nd);
              Some (Inl (Frame_Array children (an_len nd) 0 depth, children, print_indent output (depth + 1)))
            })
      else if an_type nd = TYPE_MAP then
        (let output = output @ ascii ''{'' @ [10]
         in if an_len nd = 0 then Some (Inr (print_indent output depth @ ascii ''}''))
            else do {
              children \<leftarrow> children_pointer (an_value nd);
              Some (Inl (Frame_Map children (an_len nd) 0 True depth, children, print_indent output (depth + 1)))
            })
      else map_option (\<lambda>text. Inr (output @ text)) (print_node_leaf nd data))"

text \<open>The inner loop after a value: \<open>Inl\<close> is the \<open>return\<close>, \<open>Inr\<close> the stack, the next node and its depth.\<close>

fun advance_frames ::
  "node_frame list \<Rightarrow> u8 list \<Rightarrow> u8 list + node_frame list \<times> node_ptr \<times> nat \<times> u8 list"
where
  "advance_frames [] output = Inl output"
| "advance_frames (Frame_Array children count next d # stack) output =
     (let next = next + 1
      in if next < count
         then Inr (Frame_Array children count next d # stack, ptr_add children (unat next), d + 1,
           print_indent (output @ ascii '','' @ [10]) (d + 1))
         else advance_frames stack (print_indent (output @ [10]) d @ ascii '']''))"
| "advance_frames (Frame_Map children count pair True d # stack) output =
     Inr (Frame_Map children count pair False d # stack, ptr_add children (unat pair * 2 + 1), d + 1,
       output @ ascii '': '')"
| "advance_frames (Frame_Map children count pair False d # stack) output =
     (let pair = pair + 1
      in if pair < count
         then Inr (Frame_Map children count pair True d # stack, ptr_add children (unat pair * 2), d + 1,
           print_indent (output @ ascii '','' @ [10]) (d + 1))
         else advance_frames stack (print_indent (output @ [10]) d @ ascii ''}''))"

partial_function (option) print_node_loop ::
  "ffi_tree \<Rightarrow> node_frame list \<Rightarrow> node_ptr \<Rightarrow> nat \<Rightarrow> u8 list \<Rightarrow> u8 list option"
where
  "print_node_loop t stack current depth output =
     (if current = Null_Node then Some output
      else Option.bind (deref current t) (\<lambda>nd.
        Option.bind (print_one_node nd (tr_data t) depth output) (\<lambda>next.
          case next of
            Inl (frame, child, output) \<Rightarrow> print_node_loop t (frame # stack) child (depth + 1) output
          | Inr output \<Rightarrow>
              (case advance_frames stack output of
                 Inl output \<Rightarrow> Some output
               | Inr (stack, current, depth, output) \<Rightarrow> print_node_loop t stack current depth output))))"

definition print_node_to_vec :: "node_ptr \<Rightarrow> ffi_tree \<Rightarrow> u8 list \<Rightarrow> nat \<Rightarrow> u8 list option" where
  "print_node_to_vec p t output depth = print_node_loop t [] p depth output"

definition mpack_node_print_to_buffer ::
  "node_ptr \<Rightarrow> ffi_tree \<Rightarrow> u8 list option \<Rightarrow> nat \<Rightarrow> u8 list option option"
where
  "mpack_node_print_to_buffer p t buffer buffer_size =
     (case buffer of
        None \<Rightarrow> Some None
      | Some mem \<Rightarrow>
          if buffer_size = 0 then Some (Some mem)
          else do {
            output \<leftarrow>
              (if p = Null_Node \<or> tr_error t \<noteq> MPACK_OK then Some (ascii ''<mpack node error>'')
               else print_node_to_vec p t [] 0);
            (let copy = min (length output) (buffer_size - 1)
             in do {
               mem \<leftarrow> store_at mem 0 (take copy output);
               mem \<leftarrow> store_at mem copy [0];
               mem \<leftarrow> store_at mem (buffer_size - 1) [0];
               Some (Some mem)
             })
          })"

text \<open>\<open>fwrite\<close> is the \<open>suite_fwrite\<close> of the C library; the result is the stream after it.\<close>

definition mpack_node_print_to_file ::
  "(u8 list \<Rightarrow> 'f \<Rightarrow> 'f) \<Rightarrow> node_ptr \<Rightarrow> ffi_tree \<Rightarrow> 'f option \<Rightarrow> 'f option option"
where
  "mpack_node_print_to_file fwrite p t stream =
     (case stream of
        None \<Rightarrow> Some None
      | Some f \<Rightarrow> do {
          output \<leftarrow>
            (if p = Null_Node \<or> tr_error t \<noteq> MPACK_OK then Some (ascii ''<mpack node error>'')
             else print_node_to_vec p t (print_indent [] 2) 2);
          Some (Some (fwrite (output @ [10]) f))
        })"

end
