(* ===== verification/Ffi_Node_Text.thy ===== *)
theory Ffi_Node_Text
  imports Ffi_Node_Print Ffi_Node_Theorems Ffi_Print_Theorems
begin

section \<open>What is printed of a C tree\<close>

text \<open>
  The loop of \<open>print_node_to_vec\<close> walks the nodes by their child pointers. It prints the same rendering of a
  value as the loop of the reader does from the bytes: a frame that counts the children it has printed
  corresponds to a frame of the reader that counts those still to come.
\<close>

subsection \<open>Frames\<close>

text \<open>The frame of the reader, the children, and how many of them have been printed.\<close>

fun print_frame_of :: "node_frame \<Rightarrow> print_frame" where
  "print_frame_of (Frame_Array children count next d) = Print_Array (count - next) d"
| "print_frame_of (Frame_Map children count pair is_key d) =
     Print_Map (count - pair) d (if is_key then Phase_Key else Phase_Value)"

fun children_of :: "node_frame \<Rightarrow> node_ptr" where
  "children_of (Frame_Array children count next d) = children"
| "children_of (Frame_Map children count pair is_key d) = children"

fun printed_of :: "node_frame \<Rightarrow> nat" where
  "printed_of (Frame_Array children count next d) = unat next"
| "printed_of (Frame_Map children count pair is_key d) = 2 * unat pair + (if is_key then 0 else 1)"

fun step_frame :: "node_frame \<Rightarrow> node_frame" where
  "step_frame (Frame_Array children count next d) = Frame_Array children count (next + 1) d"
| "step_frame (Frame_Map children count pair True d) = Frame_Map children count pair False d"
| "step_frame (Frame_Map children count pair False d) = Frame_Map children count (pair + 1) True d"

definition frame_ok :: "node_frame \<Rightarrow> bool" where
  "frame_ok f \<longleftrightarrow> (case f of
     Frame_Array children count next d \<Rightarrow> next < count | Frame_Map children count pair is_key d \<Rightarrow> pair < count)"

lemma print_indent_indent: "print_indent output depth = output @ indent depth"
  by (simp add: print_indent_def indent_def)

lemma u32_count:
  assumes "(next :: u32) < count"
  shows "unat (count - next) = unat count - unat next" "unat (next + 1) = unat next + 1"
    "next + 1 < count \<longleftrightarrow> unat count - unat next \<noteq> 1" "count - (next + 1) = count - next - 1"
proof -
  show m: "unat (count - next) = unat count - unat next"
    using assms by (intro unat_sub) (simp add: order_less_imp_le)
  have "unat next + 1 < 2 ^ 32"
    using assms unat_u32_less [of count] by (simp add: word_less_nat_alt)
  then show p: "unat (next + 1) = unat next + 1"
    by (simp add: unat_word_ariths)
  show "next + 1 < count \<longleftrightarrow> unat count - unat next \<noteq> 1"
    using assms p by (auto simp: word_less_nat_alt)
  show "count - (next + 1) = count - next - 1"
    by simp
qed

lemma step_frame_facts [simp]: "children_of (step_frame f) = children_of f"
  by (cases f rule: step_frame.cases) simp_all

lemma advance_last:
  assumes "frame_ok f" and "values_due (print_frame_of f) = 1"
  shows "advance_frames (f # stack) output = advance_frames stack (output @ after_last (print_frame_of f))"
  using assms
  by (cases f rule: step_frame.cases)
    (auto simp: frame_ok_def u32_count print_indent_indent Let_def)

lemma advance_more:
  assumes "frame_ok f" and "1 < values_due (print_frame_of f)"
  shows "advance_frames (f # stack) output = Inr (step_frame f # stack, ptr_add (children_of f) (printed_of f + 1),
      print_depth (print_frame_of f) + 1, output @ after_one (print_frame_of f))"
    and "frame_ok (step_frame f)" and "print_frame_of (step_frame f) = next_frame (print_frame_of f)"
    and "printed_of (step_frame f) = printed_of f + 1"
proof -
  show "advance_frames (f # stack) output = Inr (step_frame f # stack, ptr_add (children_of f) (printed_of f + 1),
      print_depth (print_frame_of f) + 1, output @ after_one (print_frame_of f))"
    using assms
    by (cases f rule: step_frame.cases) (auto simp: frame_ok_def u32_count print_indent_indent Let_def mult.commute)
  show "frame_ok (step_frame f)"
    using assms by (cases f rule: step_frame.cases) (auto simp: frame_ok_def u32_count)
  show "print_frame_of (step_frame f) = next_frame (print_frame_of f)"
    using assms(1) by (cases f rule: step_frame.cases) (auto simp: frame_ok_def u32_count)
  show "printed_of (step_frame f) = printed_of f + 1"
    using assms(1) by (cases f rule: step_frame.cases) (auto simp: frame_ok_def u32_count)
qed

subsection \<open>The loop\<close>

definition node_print_on :: "ffi_tree \<Rightarrow> node_frame list \<Rightarrow> u8 list \<Rightarrow> u8 list option" where
  "node_print_on t stack output =
     (case advance_frames stack output of
        Inl output \<Rightarrow> Some output
      | Inr (stack, current, depth, output) \<Rightarrow> print_node_loop t stack current depth output)"

lemma node_print_on_nil [simp]: "node_print_on t [] output = Some output"
  by (simp add: node_print_on_def)

lemma node_print_on_last:
  "frame_ok f \<Longrightarrow> values_due (print_frame_of f) = 1 \<Longrightarrow>
    node_print_on t (f # stack) output = node_print_on t stack (output @ after_last (print_frame_of f))"
  by (simp add: node_print_on_def advance_last)

lemma node_print_on_more:
  "frame_ok f \<Longrightarrow> 1 < values_due (print_frame_of f) \<Longrightarrow>
    node_print_on t (f # stack) output = print_node_loop t (step_frame f # stack)
      (ptr_add (children_of f) (printed_of f + 1)) (print_depth (print_frame_of f) + 1)
      (output @ after_one (print_frame_of f))"
  by (simp add: node_print_on_def advance_more(1))

lemma node_bytes_hex:
  assumes "payload_at mem off tg pl" and "unat len = payload_len tg"
  shows "map_option (\<lambda>bytes. bytes @ ascii ''>'') (node_bytes_text (word_of_nat off) len (Some mem)) = Some (hex_text pl)"
proof (cases "pl = []")
  case True
  with payload_atD(2) [OF assms(1)] assms(2) show ?thesis
    by (simp add: node_bytes_text_def hex_text_def unat_eq_0)
next
  case False
  note D = payload_atD(1,2) [OF assms(1)]
  have "0 < unat len" using False D(2) assms(2) by (metis length_greater_0_conv)
  then have "len \<noteq> 0" by auto
  have "take (payload_len tg) (drop off mem) = pl" "off + payload_len tg \<le> length mem"
    using assms(1) by (auto simp: payload_at_def slice_def split: if_splits)
  then have "slice mem off (off + min (payload_len tg) PRINT_BYTE_COUNT) = Some (take PRINT_BYTE_COUNT pl)"
    by (auto simp: slice_def min_def)
  with \<open>len \<noteq> 0\<close> False D assms(2) show ?thesis
    by (simp add: node_bytes_text_def hex_text_def PRINT_BYTE_COUNT_def Let_def)
qed

lemma node_bytes_hexE:
  assumes "payload_at mem off tg pl" and "unat len = payload_len tg"
  obtains bytes where "node_bytes_text (word_of_nat off) len (Some mem) = Some bytes" and "bytes @ ascii ''>'' = hex_text pl"
  using node_bytes_hex [OF assms] by auto

lemma print_node_leaf_ok:
  assumes "payload_at mem off tg pl" and "\<not> (\<exists>n. tg = Tag_Array n \<or> tg = Tag_Map n)"
  shows "print_node_leaf \<lparr>an_type = type_code tg, an_len = tag_size tg, an_value = tag_union tg off u\<rparr> (Some mem)
    = Some (leaf_text tg pl)"
proof -
  note D = payload_atD [OF assms(1)]
  show ?thesis
  proof (cases tg)
    case (Tag_Str n)
    then show ?thesis
      using D(1,2) D(3) [of "unat n"] by (auto simp: print_node_leaf_def c_types Let_def word_neq_0_conv [symmetric])
  next
    case (Tag_Bin n)
    then have "unat n = payload_len tg" by simp
    then obtain bytes where "node_bytes_text (word_of_nat off) n (Some mem) = Some bytes" "bytes @ ascii ''>'' = hex_text pl"
      by (rule node_bytes_hexE [OF assms(1)])
    then show ?thesis
      unfolding Tag_Bin by (simp add: print_node_leaf_def c_types Let_def show_u32_def)
  next
    case (Tag_Ext ty n)
    then have "unat n = payload_len tg" by simp
    then obtain bytes where "node_bytes_text (word_of_nat off) n (Some mem) = Some bytes" "bytes @ ascii ''>'' = hex_text pl"
      by (rule node_bytes_hexE [OF assms(1)])
    with D(5) [OF Tag_Ext] show ?thesis
      unfolding Tag_Ext by (simp add: print_node_leaf_def c_types Let_def show_u32_def)
  qed (use assms(2) in \<open>auto simp: print_node_leaf_def c_types Let_def show_u64_def ucast_f32\<close>)
qed

lemma print_node_elements:
  assumes one: "\<And>v p stack depth out. v \<in> set vs \<Longrightarrow> c_node_is t p v \<Longrightarrow>
      print_node_loop t stack p depth out = node_print_on t stack (out @ value_text depth v)"
    and "vs \<noteq> []" and "frame_ok f" and "values_due (print_frame_of f) = length vs" and "children_of f = Entry start"
    and "\<And>k. k < length vs \<Longrightarrow> c_node_is t (Entry (start + (printed_of f + k))) (vs ! k)"
  shows "print_node_loop t (f # stack) (Entry (start + printed_of f)) (print_depth (print_frame_of f) + 1) out
    = node_print_on t stack (out @ frame_text (print_frame_of f) (map (value_text (print_depth (print_frame_of f) + 1)) vs))"
  using assms
proof (induction vs arbitrary: f out)
  case Nil
  then show ?case by simp
next
  case (Cons v vs)
  let ?d = "print_depth (print_frame_of f) + 1"
  have first: "print_node_loop t (f # stack) (Entry (start + printed_of f)) ?d out
      = node_print_on t (f # stack) (out @ value_text ?d v)"
    using Cons.prems(1) [of v] Cons.prems(6) [of 0] by simp
  show ?case
  proof (cases vs)
    case Nil
    with first Cons.prems(3,4) show ?thesis
      by (simp add: node_print_on_last)
  next
    case (Cons w ws)
    note more = advance_more [OF Cons.prems(3)]
    have due: "1 < values_due (print_frame_of f)"
      using Cons.prems(4) Cons by simp
    have kids: "c_node_is t (Entry (start + (printed_of (step_frame f) + k))) (vs ! k)" if "k < length vs" for k
      using Cons.prems(6) [of "Suc k"] that more(4) [OF due] by simp
    have rest: "print_node_loop t (step_frame f # stack) (Entry (start + printed_of (step_frame f)))
        (print_depth (print_frame_of (step_frame f)) + 1) (out @ value_text ?d v @ after_one (print_frame_of f))
      = node_print_on t stack ((out @ value_text ?d v @ after_one (print_frame_of f))
          @ frame_text (print_frame_of (step_frame f)) (map (value_text (print_depth (print_frame_of (step_frame f)) + 1)) vs))"
    proof (rule Cons.IH)
      show "vs \<noteq> []" "frame_ok (step_frame f)" "children_of (step_frame f) = Entry start"
        using Cons more(2) [OF due] Cons.prems(5) by simp_all
      show "values_due (print_frame_of (step_frame f)) = length vs"
        using more(3) [OF due] values_due_next [OF due] Cons.prems(4) by simp
    qed (use Cons.prems(1) kids in auto)
    with first Cons due more(3,4) [OF due] Cons.prems(3,5) show ?thesis
      by (simp add: node_print_on_more)
  qed
qed

lemma node_loop_step:
  assumes "deref p t = Some nd" and "p \<noteq> Null_Node"
  shows "print_node_loop t stack p depth out = Option.bind (print_one_node nd (tr_data t) depth out) (\<lambda>next.
      case next of
        Inl (frame, child, output) \<Rightarrow> print_node_loop t (frame # stack) child (depth + 1) output
      | Inr output \<Rightarrow> node_print_on t stack output)"
proof -
  have "node_print_on t stack = (\<lambda>output. case advance_frames stack output of Inl output \<Rightarrow> Some output
      | Inr (stack, current, depth, output) \<Rightarrow> print_node_loop t stack current depth output)"
    by (simp add: node_print_on_def fun_eq_iff)
  with assms show ?thesis
    by (subst print_node_loop.simps) simp
qed

lemma print_node_value:
  "c_node_is t p v \<Longrightarrow> print_node_loop t stack p depth out = node_print_on t stack (out @ value_text depth v)"
proof (induction v arbitrary: p stack depth out)
  case (MValue tg pl vs)
  obtain off start mem where f: "p \<noteq> Null_Node" "deref p t = Some \<lparr>an_type = type_code tg, an_len = tag_size tg,
        an_value = tag_union tg off (if vs = [] then Number 0 else Children start)\<rparr>" (is "_ = Some ?nd")
      "length vs = child_count tg" "\<And>k. k < length vs \<Longrightarrow> c_node_is t (Entry (start + k)) (vs ! k)"
      "tr_data t = Some mem" "payload_at mem off tg pl"
    by (rule c_node_fields [OF MValue.prems]) (rule that)
  note run = node_loop_step [OF f(2,1), of stack depth out]
  show ?case
  proof (cases "\<exists>n. tg = Tag_Array n \<or> tg = Tag_Map n")
    case False
    then have "print_one_node ?nd (tr_data t) depth out = map_option (\<lambda>text. Inr (out @ text)) (print_node_leaf ?nd (tr_data t))"
      by (cases tg) (simp_all add: print_one_node_def c_types)
    moreover have "value_text depth (MValue tg pl vs) = leaf_text tg pl"
      using False by (cases tg) simp_all
    ultimately show ?thesis
      using run print_node_leaf_ok [OF f(6) False] f(5) by simp
  next
    case True
    show ?thesis
    proof (cases "vs = []")
      case empty: True
      then have "print_one_node ?nd (tr_data t) depth out = Some (Inr (out @ value_text depth (MValue tg pl vs)))"
        using True f(3) by (auto simp: print_one_node_def print_indent_indent c_types word_unat_eq_iff)
      with run show ?thesis by simp
    next
      case more: False
      let ?f = "case tg of Tag_Map n \<Rightarrow> Frame_Map (Entry start) n 0 True depth | Tag_Array n \<Rightarrow> Frame_Array (Entry start) n 0 depth"
      let ?out = "out @ (case tg of Tag_Map n \<Rightarrow> ascii ''{'' | _ \<Rightarrow> ascii ''['') @ [10] @ indent (depth + 1)"
      have n: "tg = Tag_Array n \<Longrightarrow> n \<noteq> 0" "tg = Tag_Map n \<Longrightarrow> n \<noteq> 0" for n
        using f(3) more by auto
      have g: "frame_ok ?f" "values_due (print_frame_of ?f) = length vs" "children_of ?f = Entry start" "printed_of ?f = 0"
          "print_depth (print_frame_of ?f) = depth"
        using True f(3) n by (auto simp: frame_ok_def word_neq_0_conv)
      have "print_one_node ?nd (tr_data t) depth out = Some (Inl (?f, Entry start, ?out))"
        using True more n by (auto simp: print_one_node_def print_indent_indent c_types)
      then have "print_node_loop t stack p depth out
          = print_node_loop t (?f # stack) (Entry (start + printed_of ?f)) (print_depth (print_frame_of ?f) + 1) ?out"
        using run g by simp
      also have "\<dots> = node_print_on t stack (?out @ frame_text (print_frame_of ?f) (map (value_text (depth + 1)) vs))"
        using print_node_elements [OF _ more g(1,2,3), of t stack ?out] MValue.IH f(4) g(4,5) by simp
      also have "?out @ frame_text (print_frame_of ?f) (map (value_text (depth + 1)) vs) = out @ value_text depth (MValue tg pl vs)"
        using True value_text_array [OF _ more, of tg _ depth pl] value_text_map [OF _ more, of tg _ depth pl] f(3)
        by (auto simp del: value_text.simps)
      finally show ?thesis .
    qed
  qed
qed

lemma node_to_vec_text: "c_node_is t p v \<Longrightarrow> print_node_to_vec p t out depth = Some (out @ value_text depth v)"
  by (simp add: print_node_to_vec_def print_node_value)

lemma c_node_not_null: "c_node_is t p v \<Longrightarrow> p \<noteq> Null_Node"
  by (auto simp: c_node_is_def)

lemma node_print_to_buffer_text:
  assumes "c_node_is t p v" and "0 < bsize" and "bsize \<le> length mem"
  shows "mpack_node_print_to_buffer p t (Some mem) bsize = Some (Some (stored_text bsize (value_text 0 v) mem))"
proof (rule store_text [OF assms(2,3), of "value_text 0 v"])
  fix m1 m2
  assume "store_at mem 0 (take (min (length (value_text 0 v)) (bsize - 1)) (value_text 0 v)) = Some m1"
    "store_at m1 (min (length (value_text 0 v)) (bsize - 1)) [0] = Some m2"
    "store_at m2 (bsize - 1) [0] = Some (stored_text bsize (value_text 0 v) mem)"
  then show ?thesis
    using assms node_to_vec_text [OF assms(1), of "[]" 0] c_node_ok [OF assms(1)] c_node_not_null [OF assms(1)]
    by (simp add: mpack_node_print_to_buffer_def Let_def)
qed

lemma node_print_to_file_text:
  assumes "c_node_is t p v"
  shows "mpack_node_print_to_file fwrite p t (Some f) = Some (Some (fwrite (indent 2 @ value_text 2 v @ [10]) f))"
  using node_to_vec_text [OF assms, of "print_indent [] 2" 2] c_node_ok [OF assms] c_node_not_null [OF assms]
  by (simp add: mpack_node_print_to_file_def print_indent_indent)

lemma error_tree_text:
  assumes "tr_error t \<noteq> MPACK_OK" and "0 < bsize" and "bsize \<le> length mem"
  shows "mpack_node_print_to_buffer p t (Some mem) bsize
    = Some (Some (stored_text bsize (ascii ''<mpack node error>'') mem))"
proof (rule store_text [OF assms(2,3), of "ascii ''<mpack node error>''"])
  fix m1 m2
  let ?full = "ascii ''<mpack node error>''"
  assume "store_at mem 0 (take (min (length ?full) (bsize - 1)) ?full) = Some m1"
    "store_at m1 (min (length ?full) (bsize - 1)) [0] = Some m2"
    "store_at m2 (bsize - 1) [0] = Some (stored_text bsize ?full mem)"
  then show ?thesis
    using assms by (simp add: mpack_node_print_to_buffer_def Let_def del: length_map)
qed

subsection \<open>The two printers agree\<close>

lemma print_message_to_buffer:
  assumes "value_bytes bs v" and "take n mem = bs" and "n \<le> length mem" and "0 < bsize" and "bsize \<le> length buf"
  shows "mpack_print_data_to_buffer (Some mem) n (Some buf) bsize = Some (Some (stored_text bsize (value_text 0 v) buf))"
proof (rule store_text [OF assms(4,5), of "value_text 0 v"])
  fix m1 m2
  assume "store_at buf 0 (take (min (length (value_text 0 v)) (bsize - 1)) (value_text 0 v)) = Some m1"
    "store_at m1 (min (length (value_text 0 v)) (bsize - 1)) [0] = Some m2"
    "store_at m2 (bsize - 1) [0] = Some (stored_text bsize (value_text 0 v) buf)"
  then show ?thesis
    using assms print_element_ok [OF assms(1), of 0 "[]" "[]"] print_trailer_rest [of bs "[]" "value_text 0 v"]
    by (simp add: mpack_print_data_to_buffer_def print_input_ok Let_def extra_note_def)
qed

text \<open>C11. Printing the root of a parsed message into a buffer stores the rendering of its value, computed by recursion
  on the value and cut to the buffer, as a C string and nothing behind the buffer; when the message is all the data,
  \<open>mpack_print_data_to_buffer\<close> stores the same. Printing a node of a tree with an error stores a note.\<close>

theorem c_node_print_agrees:
  assumes "value_bytes bs v" and "take n mem = bs @ rest" and "n \<le> length mem" and "n < 2 ^ 32"
    and "0 < bsize" and "bsize \<le> length buf"
  shows "\<exists>t' root. mpack_tree_parse env (mpack_tree_init_data (Some mem) n t) = Some t' \<and> mpack_tree_root t' = (root, t')
    \<and> mpack_node_print_to_buffer root t' (Some buf) bsize = Some (Some (stored_text bsize (value_text 0 v) buf))
    \<and> (rest = [] \<longrightarrow> mpack_print_data_to_buffer (Some mem) n (Some buf) bsize
        = mpack_node_print_to_buffer root t' (Some buf) bsize)
    \<and> (\<forall>err. err \<noteq> MPACK_OK \<longrightarrow> mpack_node_print_to_buffer root (mpack_tree_flag_error err t') (Some buf) bsize
        = Some (Some (stored_text bsize (ascii ''<mpack node error>'') buf)))"
proof -
  let ?t = "mpack_tree_init_data (Some mem) n t"
  note a = init_data_ready [OF assms(3,4), where t = t]
  have u: "unparsed ?t = bs @ rest" and room: "room_for (node_limit ?t) (node_count v)"
    using a(2,3) assms(2) by (simp_all add: room_for_def)
  obtain t' where t': "mpack_tree_parse env ?t = Some t'" "mpack_tree_root t' = (Entry 0, t')" "c_node_is t' (Entry 0) v"
    using parse_value [OF a(1,4) assms(1) u room, of env] by metis
  have "mpack_node_print_to_buffer (Entry 0) (mpack_tree_flag_error err t') (Some buf) bsize
      = Some (Some (stored_text bsize (ascii ''<mpack node error>'') buf))" if "err \<noteq> MPACK_OK" for err
  proof -
    have "tr_error (mpack_tree_flag_error err t') \<noteq> MPACK_OK"
      using that c_node_ok [OF t'(3)] by (simp add: mpack_tree_flag_error_def flag_tree_error_def Let_def)
    then show ?thesis
      by (rule error_tree_text [OF _ assms(5,6)])
  qed
  with t' node_print_to_buffer_text [OF t'(3) assms(5,6)] print_message_to_buffer [OF assms(1) _ assms(3,5,6)] assms(2)
  show ?thesis by (intro exI [of _ t'] exI [of _ "Entry 0"]) simp
qed

theorem c_node_print_agrees_witness:
  "\<exists>t' root. mpack_tree_parse plain_tree_env (mpack_tree_init_data (Some [0x92, 0xa1, 65, 0xc0, 7]) 5 blank_tree) = Some t'
     \<and> mpack_node_print_to_buffer root t' (Some (replicate 40 9)) 30
        = Some (Some (stored_text 30 (value_text 0 tree_sample) (replicate 40 9)))"
  using c_node_print_agrees [OF tree_sample_bytes(1), where n = 5 and mem = "[0x92, 0xa1, 65, 0xc0, 7]" and rest = "[7]"
      and bsize = 30 and buf = "replicate 40 9" and env = plain_tree_env and t = blank_tree]
  by auto

end
