(* ===== verification/Ffi_Node_Safety.thy ===== *)
theory Ffi_Node_Safety
  imports Ffi_Node_Maps Ffi_Node_Text
begin

section \<open>Memory safety of the C node accessors\<close>

text \<open>
  On a tree that was parsed from any data, no sequence of calls on nodes the tree has handed out reads outside the
  data, the node table or the two sentinels, writes outside a destination of the C program or a fresh allocation, or
  panics, also after errors: no accessor is undefined.
\<close>

subsection \<open>Handles\<close>

text \<open>A node the C program may hold: a sentinel, or a node of the table that was a value when it was parsed.\<close>

definition handle :: "ffi_tree \<Rightarrow> node_ptr \<Rightarrow> bool" where
  "handle t p \<longleftrightarrow> tr_nil_node t = node_data_nil \<and> tr_missing_node t = node_data_missing
     \<and> (p = Nil_Node \<or> p = Missing_Node \<or> (\<exists>v. c_node_is (t\<lparr>tr_error := MPACK_OK\<rparr>) p v))"

text \<open>An accessor returns, and leaves the tree as it is up to an error it flags.\<close>

definition fine :: "ffi_tree \<Rightarrow> ('a \<times> ffi_tree) option \<Rightarrow> bool" where
  "fine t res \<longleftrightarrow> (\<exists>x err. res = Some (x, flag_tree_error err t))"

lemma flag_tree_none [simp]: "flag_tree_error MPACK_OK t = t"
  by (simp add: flag_tree_error_def)

lemma flag_tree_twice: "err \<noteq> MPACK_OK \<Longrightarrow> flag_tree_error err' (flag_tree_error err t) = flag_tree_error err t"
  by (simp add: flag_tree_error_def Let_def)

lemma fine_simps [simp]: "fine t (Some (x, t))" "fine t (node_flag err x t)" "fine t (answer d y t)"
  "fine t (Some (x, flag_tree_error err t))"
  unfolding fine_def node_flag_def
  by (rule exI, rule exI [of _ MPACK_OK], simp) (auto, cases y, auto simp: node_flag_def intro: exI [of _ MPACK_OK])

lemma handle_flag: "handle t p \<Longrightarrow> handle (flag_tree_error err t) p"
proof -
  assume h: "handle t p"
  let ?t = "t\<lparr>tr_error := MPACK_OK\<rparr>" and ?u = "(flag_tree_error err t)\<lparr>tr_error := MPACK_OK\<rparr>"
  have f: "tr_state ?u = tr_state ?t" "tr_data ?u = tr_data ?t" "tr_data_length ?u = tr_data_length ?t" "tr_error ?u = tr_error ?t"
      "tr_pool ?u = tr_pool ?t" "tr_nil_node ?u = tr_nil_node ?t" "tr_missing_node ?u = tr_missing_node ?t"
    by (simp_all add: flag_tree_error_def Let_def)
  then have "node_block ?u = node_block ?t"
    by (simp only: node_block_def)
  with f have "c_node_is ?u p v = c_node_is ?t p v" for v
    by (simp only: c_node_is_def)
  with h f(6,7) show ?thesis
    by (simp add: handle_def)
qed

lemma handle_node: "c_node_is t p v \<Longrightarrow> handle t q \<Longrightarrow> handle t p"
proof -
  assume c: "c_node_is t p v" and h: "handle t q"
  have "t\<lparr>tr_error := MPACK_OK\<rparr> = t"
    using c_node_ok [OF c] by (cases t) simp
  with c h show "handle t p"
    unfolding handle_def by auto
qed

text \<open>To see that an accessor is fine it is enough to look at a tree with an error, a sentinel and a value.\<close>

lemma handle_cases:
  assumes "handle t p"
  obtains (error) "tr_error t \<noteq> MPACK_OK"
    | (nil) "tr_error t = MPACK_OK" and "p = Nil_Node" and "deref Nil_Node t = Some node_data_nil"
    | (missing) "tr_error t = MPACK_OK" and "p = Missing_Node" and "deref Missing_Node t = Some node_data_missing"
    | (node) tg pl vs where "c_node_is t p (MValue tg pl vs)"
proof (cases "tr_error t = MPACK_OK")
  case True
  then have "t\<lparr>tr_error := MPACK_OK\<rparr> = t"
    by (cases t) simp
  with assms consider "p = Nil_Node" | "p = Missing_Node" | v where "c_node_is t p v"
    unfolding handle_def by auto
  then show thesis
  proof cases
    case 1
    with assms True nil show ?thesis
      by (simp add: handle_def)
  next
    case 2
    with assms True missing show ?thesis
      by (simp add: handle_def)
  next
    case (3 v)
    then show ?thesis
      by (cases v) (auto intro: node)
  qed
qed (rule error)

lemmas sentinel_steps = node_steps node_data_nil_def node_data_missing_def c_types

subsection \<open>Accessors without a destination\<close>

lemma query_node:
  assumes "c_node_is t p (MValue tg pl vs)"
  shows "fine t (mpack_node_type p t)" "fine t (mpack_node_is_nil p t)" "fine t (mpack_node_is_missing p t)"
    "fine t (mpack_node_nil p t)" "fine t (mpack_node_missing p t)" "fine t (mpack_node_true p t)"
    "fine t (mpack_node_false p t)" "fine t (mpack_node_bool p t)" "fine t (node_as_u64_impl p t)"
    "fine t (node_as_i64_impl p t)" "fine t (mpack_node_strlen p t)" "fine t (mpack_node_bin_size p t)"
    "fine t (mpack_node_data_len p t)" "fine t (mpack_node_array_length p t)" "fine t (mpack_node_map_count p t)"
    "fine t (mpack_node_exttype p t)" "fine t (mpack_node_tag p t)"
  by (simp_all add: node_type_value [OF assms] node_bool_value [OF assms] node_number_value [OF assms]
      node_size_value [OF assms] node_tag_value [OF assms])

lemma query_fine:
  assumes "handle t p"
  shows "fine t (mpack_node_type p t)" "fine t (mpack_node_is_nil p t)" "fine t (mpack_node_is_missing p t)"
    "fine t (mpack_node_nil p t)" "fine t (mpack_node_missing p t)" "fine t (mpack_node_true p t)"
    "fine t (mpack_node_false p t)" "fine t (mpack_node_bool p t)" "fine t (node_as_u64_impl p t)"
    "fine t (node_as_i64_impl p t)" "fine t (mpack_node_strlen p t)" "fine t (mpack_node_bin_size p t)"
    "fine t (mpack_node_data_len p t)" "fine t (mpack_node_array_length p t)" "fine t (mpack_node_map_count p t)"
    "fine t (mpack_node_exttype p t)" "fine t (mpack_node_tag p t)"
  by (rule handle_cases [OF assms];
      (erule query_node | simp add: node_reads sentinel_steps abi_node_to_tag_def del: deref.simps))+

lemma float_node:
  assumes "c_node_is t p (MValue tg pl vs)"
  shows "fine t (node_float_impl p strict t)" "fine t (node_double_impl p strict t)"
  by (rule c_node_fields [OF assms]; cases tg; simp add: node_reads node_steps c_types)+

lemma fine_bind:
  assumes "fine t res" and "\<And>x. fine t (f (x, t))"
    and "\<And>x err. err \<noteq> MPACK_OK \<Longrightarrow> tr_error t = MPACK_OK \<Longrightarrow> fine t (f (x, flag_tree_error err t))"
  shows "fine t (Option.bind res f)"
proof -
  obtain x err where r: "res = Some (x, flag_tree_error err t)"
    using assms(1) by (auto simp: fine_def)
  show ?thesis
  proof (cases "err = MPACK_OK \<or> tr_error t \<noteq> MPACK_OK")
    case True
    then have "flag_tree_error err t = t"
      by (simp add: flag_tree_error_def)
    with r assms(2) [of x] show ?thesis by simp
  next
    case False
    with r assms(3) [of err x] show ?thesis by simp
  qed
qed

lemma flagged_error: "err \<noteq> MPACK_OK \<Longrightarrow> tr_error (flag_tree_error err t) \<noteq> MPACK_OK"
  by (simp add: flag_tree_error_def Let_def)

lemma number_fine:
  assumes "handle t p"
  shows "fine t (node_uint_fn p t)" "fine t (node_sint_fn p t)"
    "fine t (node_float_impl p strict t)" "fine t (node_double_impl p strict t)"
proof -
  show "fine t (node_uint_fn p t)"
    unfolding node_uint_fn_def
    by (rule fine_bind [OF query_fine(9) [OF assms]]) (auto simp: flagged_error)
  show "fine t (node_sint_fn p t)"
    unfolding node_sint_fn_def
    by (rule fine_bind [OF query_fine(10) [OF assms]]) (auto simp: flagged_error)
  show "fine t (node_float_impl p strict t)" "fine t (node_double_impl p strict t)"
    by (rule handle_cases [OF assms]; (erule float_node | simp add: node_reads sentinel_steps del: deref.simps))+
qed

subsection \<open>Payloads\<close>

lemmas pointer_defs = mpack_node_data_def mpack_node_str_def mpack_node_bin_data_def node_data_pointer_impl_def
  node_data_pointer_multi_impl_def

lemma pointer_node:
  assumes "c_node_is t p (MValue tg pl vs)"
  shows "fine t (mpack_node_str p t)" "fine t (mpack_node_data p t)" "fine t (mpack_node_bin_data p t)"
  by (rule node_pointer_value [OF assms]; simp)+

lemma pointer_fine:
  assumes "handle t p"
  shows "fine t (mpack_node_str p t)" "fine t (mpack_node_data p t)" "fine t (mpack_node_bin_data p t)"
  by (rule handle_cases [OF assms]; (erule pointer_node | simp add: pointer_defs sentinel_steps del: deref.simps))+

lemma check_utf8_fine:
  assumes "handle t p"
  shows "fine t (check_utf8_with valid p t)"
proof (rule handle_cases [OF assms])
  fix tg pl vs
  assume c: "c_node_is t p (MValue tg pl vs)"
  show ?thesis
    by (rule c_node_fields [OF c]; cases tg; simp add: check_utf8_with_def node_data_pointer_impl_def node_steps c_types
        payload_atD(1,4))
qed (simp_all add: check_utf8_with_def sentinel_steps del: deref.simps)

lemma decode_timestamp_some:
  "payload_at mem off (Tag_Ext ty n) pl \<Longrightarrow> decode_ext_timestamp (Some mem) off n \<noteq> None"
  using payload_atD(2) [of mem off "Tag_Ext ty n" pl] payload_atD(3) [of mem off "Tag_Ext ty n" pl "unat n"]
  by (auto simp: decode_ext_timestamp_def slice_def Let_def)

lemma timestamp_fine:
  assumes "handle t p"
  shows "fine t (mpack_node_timestamp p t)"
proof (rule handle_cases [OF assms])
  fix tg pl vs
  assume c: "c_node_is t p (MValue tg pl vs)"
  show ?thesis
  proof (cases "\<exists>ty n. tg = Tag_Ext ty n")
    case True
    then obtain ty n where tg: "tg = Tag_Ext ty n"
      by auto
    show ?thesis
      by (rule c_node_fields [OF c [unfolded tg]]; frule decode_timestamp_some;
          auto simp: mpack_node_timestamp_def node_steps Let_def payload_atD(1,5) split: option.split)
  next
    case False
    then show ?thesis
      by (rule_tac c_node_fields [OF c]; cases tg; simp add: mpack_node_timestamp_def node_steps Let_def c_types)
  qed
qed (simp_all add: mpack_node_timestamp_def sentinel_steps Let_def del: deref.simps)

lemma bind_pair_fine: "fine t res \<Longrightarrow> fine t (do { (x, t') \<leftarrow> res; Some (f x, t') })"
  by (auto simp: fine_def)

subsection \<open>Copies\<close>

text \<open>A destination of the C program with room for \<open>n\<close> bytes, or the null pointer.\<close>

definition dest_room :: "u8 list option \<Rightarrow> nat \<Rightarrow> bool" where
  "dest_room buffer n \<longleftrightarrow> (case buffer of None \<Rightarrow> True | Some mem \<Rightarrow> n \<le> length mem)"

lemma store_some_ok:
  assumes "dest_room buffer n" and "buffer \<noteq> None" and "i + length bytes \<le> n"
  obtains mem where "store_some buffer i bytes = Some (Some mem)" and "dest_room (Some mem) n"
  using assms by (auto simp: store_some_def store_at_def dest_room_def)

text \<open>What the copies look at.\<close>

lemma payload_node:
  assumes "c_node_is t p (MValue tg pl vs)"
  shows "tr_error t = MPACK_OK" "nd_type p t = Some (type_code tg)" "nd_len p t = Some (tag_size tg)"
    "payload_type (type_code tg) \<longleftrightarrow> has_payload tg" "type_code tg = TYPE_STR \<Longrightarrow> has_payload tg"
    "has_payload tg \<Longrightarrow> unat (tag_size tg) = length pl" "has_payload tg \<Longrightarrow> node_payload p (length pl) t = Some pl"
proof -
  show "tr_error t = MPACK_OK"
    by (rule c_node_ok [OF assms])
  show "nd_type p t = Some (type_code tg)"
    by (rule node_type_value [OF assms])
  show "nd_len p t = Some (tag_size tg)"
    by (rule c_node_fields [OF assms]) (simp add: nd_len_def)
  show "payload_type (type_code tg) \<longleftrightarrow> has_payload tg" "type_code tg = TYPE_STR \<Longrightarrow> has_payload tg"
    by (cases tg; simp add: payload_type_def has_payload_def c_types)+
  show "has_payload tg \<Longrightarrow> unat (tag_size tg) = length pl" "has_payload tg \<Longrightarrow> node_payload p (length pl) t = Some pl"
    using node_payload_value [OF assms] by simp_all
qed

lemma copy_fine:
  assumes "handle t p" and "dest_room buffer n"
  shows "fine t (mpack_node_copy_data p buffer n t)" "fine t (mpack_node_copy_utf8 p buffer n t)"
proof -
  have data: "fine t (mpack_node_copy_data p buffer n t)" and utf8: "fine t (mpack_node_copy_utf8 p buffer n t)"
    if c: "c_node_is t p (MValue tg pl vs)" for tg pl vs
  proof -
    note P = payload_node [OF c]
    have stored: "\<exists>q. store_some buffer 0 pl = Some q" if "length pl \<le> n" "buffer \<noteq> None"
      by (rule store_some_ok [OF assms(2) that(2), of 0 pl]) (use that in auto)
    show "fine t (mpack_node_copy_data p buffer n t)"
      using P stored by (cases "has_payload tg") (auto simp: mpack_node_copy_data_def guarded_def Let_def not_less)
    show "fine t (mpack_node_copy_utf8 p buffer n t)"
      using P stored
      by (cases "type_code tg = TYPE_STR") (auto simp: mpack_node_copy_utf8_def guarded_def of_type_def Let_def not_less)
  qed
  show "fine t (mpack_node_copy_data p buffer n t)" "fine t (mpack_node_copy_utf8 p buffer n t)"
    by (rule handle_cases [OF assms(1)]; (erule data utf8
      | simp add: mpack_node_copy_data_def mpack_node_copy_utf8_def sentinel_steps del: deref.simps))+
qed

lemma copy_cstr_fine:
  assumes "handle t p" and "dest_room buffer n"
  shows "fine t (copy_cstr_with bad p buffer n t)"
proof (cases "buffer = None \<or> n = 0")
  case True
  then show ?thesis by (auto simp: copy_cstr_with_def)
next
  case False
  then have some: "buffer \<noteq> None" "0 < n" by simp_all
  obtain mem where z: "store_some buffer 0 [0] = Some (Some mem)"
    by (rule store_some_ok [OF assms(2) some(1), of 0 "[0]"]) (use some(2) in auto)
  show ?thesis
  proof (rule handle_cases [OF assms(1)])
    fix tg pl vs
    assume c: "c_node_is t p (MValue tg pl vs)"
    note P = payload_node [OF c]
    have stored: "\<exists>m m'. store_some buffer 0 pl = Some (Some m) \<and> store_some (Some m) (length pl) [0] = Some m'" if "length pl < n"
    proof (rule store_some_ok [OF assms(2) some(1), of 0 pl])
      fix m assume m: "store_some buffer 0 pl = Some (Some m)" "dest_room (Some m) n"
      show ?thesis
        by (rule store_some_ok [OF m(2), of "length pl" "[0]"]) (use that m in auto)
    qed (use that in simp)
    show ?thesis
      using P stored z some
      by (cases "type_code tg = TYPE_STR") (auto simp: copy_cstr_with_def Let_def not_le)
  qed (use some z in \<open>simp_all add: copy_cstr_with_def sentinel_steps del: deref.simps\<close>)
qed

lemma allocated:
  assumes "allocator_ok malloc" and "malloc n = Some block"
  shows "dest_room (Some block) n"
  using assms by (auto simp: allocator_ok_def dest_room_def)

lemma store_fits:
  assumes "dest_room (Some block) n" and "i + length bytes \<le> n"
  obtains block' where "store_at block i bytes = Some block'" and "dest_room (Some block') n"
  using assms by (auto simp: store_at_def dest_room_def)

lemma alloc_fine:
  assumes "handle t p" and "allocator_ok (te_malloc env)"
  shows "fine t (mpack_node_data_alloc env p n t)" "fine t (node_cstr_alloc_with bad env p n t)"
proof -
  have data: "fine t (mpack_node_data_alloc env p n t)" and cstr: "fine t (node_cstr_alloc_with bad env p n t)"
    if c: "c_node_is t p (MValue tg pl vs)" for tg pl vs
  proof -
    note P = payload_node [OF c]
    have stored: "\<exists>b. store_at block 0 pl = Some b" if "te_malloc env (max (length pl) 1) = Some block" for block
      by (rule store_fits [OF allocated [OF assms(2) that], of 0 pl]) auto
    show "fine t (mpack_node_data_alloc env p n t)"
      using P stored
      by (cases "has_payload tg") (auto simp: mpack_node_data_alloc_def guarded_def Let_def not_less split: option.split)
    have stored: "\<exists>b c. store_at block 0 pl = Some b \<and> store_at b (length pl) [0] = Some c"
      if "te_malloc env (Suc (length pl)) = Some block" for block
    proof (rule store_fits [OF allocated [OF assms(2) that], of 0 pl])
      fix b assume b: "store_at block 0 pl = Some b" "dest_room (Some b) (Suc (length pl))"
      show ?thesis
        by (rule store_fits [OF b(2), of "length pl" "[0]"]) (use b in auto)
    qed simp
    show "fine t (node_cstr_alloc_with bad env p n t)"
      using P stored
      by (cases "type_code tg = TYPE_STR")
        (auto simp: node_cstr_alloc_with_def guarded_def of_type_def Let_def not_le split: option.split)
  qed
  show "fine t (mpack_node_data_alloc env p n t)" "fine t (node_cstr_alloc_with bad env p n t)"
    by (rule handle_cases [OF assms(1)]; (erule data cstr
      | simp add: mpack_node_data_alloc_def node_cstr_alloc_with_def sentinel_steps del: deref.simps))+
qed

subsection \<open>Lookups, enumerations, printing\<close>

definition next_handle :: "ffi_tree \<Rightarrow> (node_ptr \<times> ffi_tree) option \<Rightarrow> bool" where
  "next_handle t res \<longleftrightarrow> (\<exists>q err. res = Some (q, flag_tree_error err t) \<and> handle t q)"

lemma sentinel_handles: "handle t p \<Longrightarrow> handle t Nil_Node \<and> handle t Missing_Node"
  by (auto simp: handle_def)

lemma next_handle_flag: "handle t p \<Longrightarrow> next_handle t (node_flag err Nil_Node t)"
  by (auto simp: next_handle_def node_flag_def dest: sentinel_handles)

lemma next_handle_same: "handle t q \<Longrightarrow> next_handle t (Some (q, t))"
  unfolding next_handle_def by (rule exI [of _ q], rule exI [of _ MPACK_OK]) simp

lemma child_next:
  assumes "handle t p" and "child_answer res t k vs"
  shows "next_handle t res"
proof (cases "k < length vs")
  case True
  then obtain q where q: "res = Some (q, t)" "c_node_is t q (vs ! k)"
    using assms(2) by (auto simp: child_answer_def)
  show ?thesis
    unfolding q(1) by (rule next_handle_same [OF handle_node [OF q(2) assms(1)]])
next
  case False
  with assms(2) next_handle_flag [OF assms(1)] show ?thesis
    by (simp add: child_answer_def)
qed

lemma child_handle:
  assumes h: "handle t p"
  shows "next_handle t (mpack_node_array_at p k t)" "next_handle t (mpack_node_map_key_at p k t)"
    "next_handle t (mpack_node_map_value_at p k t)"
proof -
  note flag = next_handle_flag [OF h]
  have node: "next_handle t (mpack_node_array_at p k t)" "next_handle t (mpack_node_map_key_at p k t)"
      "next_handle t (mpack_node_map_value_at p k t)"
    if c: "c_node_is t p (MValue tg pl vs)" for tg pl vs
  proof -
    note child = node_child_value [OF c]
    show "next_handle t (mpack_node_array_at p k t)"
      using child(1) [of k] child_next [OF h child(3)] flag by (cases tg) simp_all
    show "next_handle t (mpack_node_map_key_at p k t)"
      using child(2) [of k] child_next [OF h child(4)] flag by (cases tg) simp_all
    show "next_handle t (mpack_node_map_value_at p k t)"
      using child(2) [of k] child_next [OF h child(5)] flag by (cases tg) simp_all
  qed
  have "handle t Nil_Node"
    using sentinel_handles [OF h] by simp
  note same = next_handle_same [OF this]
  show "next_handle t (mpack_node_array_at p k t)" "next_handle t (mpack_node_map_key_at p k t)"
    "next_handle t (mpack_node_map_value_at p k t)"
    by (rule handle_cases [OF h]; (erule node | simp add: mpack_node_array_at_def mpack_node_map_key_at_def
      mpack_node_map_value_at_def compound_child_def sentinel_steps flag same del: deref.simps))+
qed

lemma lookup_next:
  assumes h: "handle t p" and "lookup_answer t (q, t') found res"
    and "q = Nil_Node \<or> q = Missing_Node" and "t' = t \<or> t' = flag_tree_error MPACK_ERROR_DATA t"
  shows "next_handle t res"
proof -
  have q: "handle t q" and nil: "handle t Nil_Node"
    using assms(3) sentinel_handles [OF h] by auto
  consider "res = Some (q, t')" | q' v where "res = Some (q', t)" "c_node_is t q' v"
    | "res = Some (Nil_Node, flag_tree_error MPACK_ERROR_DATA t)"
    using assms(2) by (auto simp: lookup_answer_def split: list.splits)
  then show ?thesis
  proof cases
    case 1
    with assms(4) q next_handle_same [OF q] show ?thesis
      by (auto simp: next_handle_def)
  next
    case 2
    with next_handle_same [OF handle_node [OF 2(2) h]] show ?thesis by simp
  next
    case 3
    with next_handle_flag [OF h, of MPACK_ERROR_DATA] show ?thesis by (simp add: node_flag_def)
  qed
qed

lemma lookup_sentinel:
  assumes "tr_error t \<noteq> MPACK_OK \<or> ensure_abi_map p t = node_flag MPACK_ERROR_TYPE False t" and "handle t p"
  shows "next_handle t (c_lookup key p t)" "next_handle t (c_lookup_optional key p t)" "fine t (c_contains key p t)"
proof -
  have nil: "handle t Nil_Node"
    using sentinel_handles [OF assms(2)] by simp
  note ends = next_handle_same [OF nil] next_handle_flag [OF nil, of MPACK_ERROR_TYPE]
  show "next_handle t (c_lookup key p t)" "next_handle t (c_lookup_optional key p t)" "fine t (c_contains key p t)"
    using assms(1) ends
    by (auto simp: c_lookup_core core_map_required_def core_map_optional_def core_map_lookup_def core_map_contains_def
        guarded_def node_flag_def)
qed

lemma lookup_handle:
  assumes h: "handle t p"
  shows "next_handle t (c_lookup key p t)" "next_handle t (c_lookup_optional key p t)" "fine t (c_contains key p t)"
proof -
  have node: "next_handle t (c_lookup key p t)" "next_handle t (c_lookup_optional key p t)" "fine t (c_contains key p t)"
    if c: "c_node_is t p (MValue tg pl vs)" for tg pl vs
  proof -
    have "next_handle t (c_lookup key p t) \<and> next_handle t (c_lookup_optional key p t) \<and> fine t (c_contains key p t)"
    proof (cases "\<exists>n. tg = Tag_Map n")
      case True
      then obtain n where "c_node_is t p (MValue (Tag_Map n) pl vs)"
        using c by auto
      note v = core_map_value [OF this refl, of key]
      have "next_handle t (c_lookup key p t)"
        unfolding c_lookup_core by (rule lookup_next [OF h v(1)]) simp_all
      moreover have "next_handle t (c_lookup_optional key p t)"
        unfolding c_lookup_core by (rule lookup_next [OF h v(2)]) simp_all
      ultimately show ?thesis
        by (simp add: c_lookup_core(3) v(3))
    next
      case False
      then have "ensure_abi_map p t = node_flag MPACK_ERROR_TYPE False t"
        using node_type_value(2) [OF c] by (cases tg) (simp_all add: ensure_abi_map_def c_types)
      then show ?thesis
        using lookup_sentinel [OF _ h] by blast
    qed
    then show "next_handle t (c_lookup key p t)" "next_handle t (c_lookup_optional key p t)" "fine t (c_contains key p t)"
      by simp_all
  qed
  show "next_handle t (c_lookup key p t)" "next_handle t (c_lookup_optional key p t)" "fine t (c_contains key p t)"
    by (rule handle_cases [OF h]; (erule node | (rule lookup_sentinel [OF _ h],
      simp add: ensure_abi_map_def sentinel_steps del: deref.simps)))+
qed

text \<open>The candidates of an enumeration: as many pointers as announced, each null or to a C string; or a null pointer,
  with any count, also one that makes the function panic.\<close>

definition candidates_ok :: "u8 list option list option \<Rightarrow> nat \<Rightarrow> bool" where
  "candidates_ok strings n \<longleftrightarrow> (case strings of None \<Rightarrow> True
     | Some pointers \<Rightarrow> n \<le> length pointers \<and> (\<forall>q\<in>set pointers. cstr_bytes q \<noteq> None))"

lemma owned_strings_some:
  "i + n \<le> length pointers \<Longrightarrow> \<forall>q\<in>set pointers. cstr_bytes q \<noteq> None \<Longrightarrow> owned_strings pointers i n \<noteq> None"
proof (induction n arbitrary: i)
  case 0
  then show ?case by simp
next
  case (Suc n)
  then have "owned_strings pointers (i + 1) n \<noteq> None" "cstr_bytes (pointers ! i) \<noteq> None" "i < length pointers"
    by simp_all
  then show ?case by (auto simp: checked)
qed

lemma enum_fine:
  assumes "handle t p" and "candidates_ok strings n"
  shows "fine t (catch_ffi_panic n (node_enum_via_core p strings n optional) t)"
proof (rule handle_cases [OF assms(1)])
  fix tg pl vs
  assume c: "c_node_is t p (MValue tg pl vs)"
  note P = payload_node [OF c]
  show ?thesis
  proof (cases "type_code tg = TYPE_STR")
    case True
    then have "kind tg = Type_Str"
      by (cases tg) (simp_all add: c_types)
    note core = core_enum_value [OF c this]
    obtain views where "(case strings of None \<Rightarrow> Some [] | Some pointers \<Rightarrow> owned_strings pointers 0 n) = Some views"
      using assms(2) owned_strings_some [of 0 n] by (auto simp: candidates_ok_def split: option.splits)
    with P True core [of views optional] show ?thesis
      by (simp add: catch_ffi_panic_def node_enum_via_core_def guarded_def)
  next
    case False
    with P show ?thesis
      by (simp add: catch_ffi_panic_def node_enum_via_core_def guarded_def)
  qed
qed (simp_all add: catch_ffi_panic_def node_enum_via_core_def sentinel_steps del: deref.simps)

lemma print_one_sentinel:
  "print_one_node node_data_nil data d out = Some (Inr (out @ ascii ''null''))"
  "print_one_node node_data_missing data d out = Some (Inr (out @ ascii ''<missing>''))"
  by (simp_all add: print_one_node_def print_node_leaf_def node_data_nil_def node_data_missing_def c_types Let_def)

lemma print_sentinel:
  "deref p t = Some node_data_nil \<Longrightarrow> p \<noteq> Null_Node \<Longrightarrow> print_node_to_vec p t out d = Some (out @ ascii ''null'')"
  "deref p t = Some node_data_missing \<Longrightarrow> p \<noteq> Null_Node \<Longrightarrow> print_node_to_vec p t out d = Some (out @ ascii ''<missing>'')"
  by (simp_all add: print_node_to_vec_def node_loop_step print_one_sentinel)

lemma printed_text:
  assumes "handle t p"
  shows "tr_error t = MPACK_OK \<longrightarrow> (\<exists>text. print_node_to_vec p t out d = Some text)"
proof (rule handle_cases [OF assms])
  fix tg pl vs
  assume "c_node_is t p (MValue tg pl vs)"
  then show ?thesis
    using node_to_vec_text by blast
qed (simp_all add: print_sentinel del: deref.simps)

lemma print_fine:
  assumes "handle t p" and "dest_room buffer n"
  shows "mpack_node_print_to_buffer p t buffer n \<noteq> None" "mpack_node_print_to_file fwrite p t stream \<noteq> None"
proof -
  have vec: "\<exists>text. (if p = Null_Node \<or> tr_error t \<noteq> MPACK_OK then Some (ascii ''<mpack node error>'')
      else print_node_to_vec p t out d) = Some text" for out d
    using printed_text [OF assms(1), of out d] by auto
  show "mpack_node_print_to_file fwrite p t stream \<noteq> None"
    using vec [of "print_indent [] 2" 2] by (auto simp: mpack_node_print_to_file_def split: option.split)
  show "mpack_node_print_to_buffer p t buffer n \<noteq> None"
  proof (cases "buffer = None \<or> n = 0")
    case True
    then show ?thesis by (auto simp: mpack_node_print_to_buffer_def split: option.split)
  next
    case False
    then obtain mem where mem: "buffer = Some mem" "0 < n" "n \<le> length mem"
      using assms(2) by (auto simp: dest_room_def)
    obtain out where out: "(if p = Null_Node \<or> tr_error t \<noteq> MPACK_OK then Some (ascii ''<mpack node error>'')
        else print_node_to_vec p t [] 0) = Some out"
      using vec [of "[]" 0] by auto
    show ?thesis
      by (rule store_text [OF mem(2,3), of out]) (use mem out in \<open>simp add: mpack_node_print_to_buffer_def Let_def\<close>)
  qed
qed

end
