(* ===== verification/Ffi_Node_Safe_Api.thy ===== *)
theory Ffi_Node_Safe_Api
  imports Ffi_Node_Safety
begin

section \<open>Any C program over a tree\<close>

text \<open>
  A C program parses a message, holds the root and the nodes it has reached from it, calls the exported accessors on
  them in any order, and goes on to the next message, after which the old nodes are not used any more.
\<close>

subsection \<open>Calls\<close>










subsection \<open>One call\<close>





subsection \<open>The program\<close>
















end
