(* ===== verification/Spec2Isabelle.thy ===== *)
theory Spec2Isabelle
  imports Writer_Theorems Compound_Theorems Reader_Theorems Expect_Theorems Node_Values
    Ffi_Track_Theorems Ffi_Writer_Theorems Ffi_Reader_Theorems Ffi_Expect_Theorems Ffi_Print_Theorems
    Ffi_Node_Stream Ffi_Node_Safe_Api
begin

text \<open>
  A verification library for the Rust port of MPack, an encoder and decoder of the MessagePack format
  (the crate under \<open>src/src/\<close>).

  \<^bold>\<open>The program.\<close> The safe core is five modules: \<open>common.rs\<close> (errors, types, tags), \<open>writer.rs\<close> (a writer over
  a fixed buffer, a growable writer, a tracker of open compounds, a builder that counts elements by
  itself), \<open>reader.rs\<close> (a reader over a byte slice), \<open>expect.rs\<close> (reads against an expected schema) and
  \<open>node.rs\<close> (a parser into a table of nodes and its accessors). The module \<open>ffi/\<close> gives the C interface of
  MPack over the core: raw buffers, flush callbacks, files, a C tracker and C builders. A writer encodes one
  header at a time; the growable writer and the C writer run it over scratch space or over what is left of
  their buffer. The expect module, the node parser and the skipping of values all read headers through
  \<open>Reader::parse_tag\<close>.

  \<^bold>\<open>Conventions.\<close> \<open>Mpack_Prelude\<close>: machine integers are words, floats their bit patterns, \<open>usize\<close> is \<open>nat\<close> with
  saturation at \<open>2 ^ 64 - 1\<close> written out. A method with \<open>&mut self\<close> is a function on a record of the fields.
  The value \<open>None\<close> of an operation is a panic (and, in the C interface, undefined behaviour or a loop without
  end); every slice access of the code is a checked one. \<open>?\<close> is \<open>try_opt\<close>. An error is the sticky field of the
  state, as in the code.

  \<^bold>\<open>Theories and code.\<close>
  \<^item> \<open>Mpack_Common\<close>: \<open>common.rs\<close>. \<open>Msgpack_Format\<close>: the relation \<open>header\<close> between bytes and tags, stated
    independently of the code; \<open>Value_Format\<close>: whole values, the canonical encoding \<open>enc_value\<close> and its
    uniqueness and minimality; \<open>Canonical\<close>: the canonical header is a shortest one.
  \<^item> \<open>Writer_Fixed\<close>, \<open>Writer_Growable\<close>: \<open>Writer\<close> and \<open>GrowableWriter\<close>. \<open>Writer_Encode\<close> gives each operation's bytes,
    \<open>Writer_Contract\<close> the locale \<open>encoder\<close>, interpreted by both writers, \<open>Writer_Theorems\<close> the properties.
  \<^item> \<open>Write_Tracker\<close>, \<open>Write_Builder\<close>: \<open>WriteTracker\<close> and \<open>Builder\<close>; \<open>Compound_Theorems\<close>: which call sequences the
    tracker accepts, and that the builder refines the canonical encoding.
  \<^item> \<open>Reader_Core\<close>, \<open>Reader_Ops\<close>: \<open>Reader\<close>. \<open>Reader_Header\<close> and \<open>Reader_Typed\<close> characterise the header and the
    typed reads, \<open>Reader_Contract\<close> holds the contract every read meets (a locale), \<open>Reader_Discard\<close> the skipping
    of values, \<open>Reader_Theorems\<close> the properties. \<open>Utf8\<close>, \<open>Utf8_Spec\<close>: the UTF-8 check and its specification.
    \<open>Timestamps\<close>: the timestamp layouts.
  \<^item> \<open>Expect\<close>: \<open>expect.rs\<close> (with \<open>Float_Conv\<close> for the conversions between floats).
    \<open>Expect_Contract\<close>, \<open>Expect_Buffers\<close>, \<open>Expect_Keys\<close>, \<open>Expect_Theorems\<close>: its properties.
  \<^item> \<open>Node_Parse\<close>, \<open>Node_Access\<close>: \<open>node.rs\<close>. \<open>Node_Tree\<close>: which table represents a value, and that the parse
    of an encoding builds it; \<open>Node_Sound\<close>: what an arbitrary parse does; \<open>Node_Theorems\<close>, \<open>Node_Values\<close>: the
    properties of the parse and of the accessors.
  \<^item> \<open>Ffi_Types\<close>, \<open>Ffi_Common\<close>: \<open>ffi/types.rs\<close>, \<open>ffi/common.rs\<close> and \<open>tag_to_abi\<close> of \<open>ffi/reader.rs\<close>.
    \<open>Ffi_Track\<close>, \<open>Ffi_Track_Theorems\<close>: \<open>ffi/stubs/track.rs\<close>, its memory safety, and that it refines
    \<open>WriteTracker\<close> (locale \<open>tracker_model\<close>).
  \<^item> \<open>Ffi_Writer\<close>, \<open>Ffi_Writer_Api\<close>: \<open>ffi/writer.rs\<close>. \<open>Ffi_Writer_Run\<close>: the locale \<open>flush_sink\<close>, what a flush
    callback promises, and what every step of the writer does over it; \<open>Ffi_Writer_Values\<close>: writing whole
    values; \<open>Ffi_Writer_Theorems\<close>: the growable and the file writer provide the locale, and what comes out of
    them from initialisation to teardown.
  \<^item> \<open>Ffi_Reader\<close>, \<open>Ffi_Reader_Api\<close>: \<open>ffi/reader.rs\<close>. \<open>Ffi_Reader_Run\<close>,
    \<open>Ffi_Reader_Payload\<close>: the locales \<open>fill_source\<close> and \<open>skip_source\<close>, what a fill and a skip callback promise, and
    that every operation sees one sequence of bytes however it is cut. \<open>Ffi_Reader_Values\<close>, \<open>Ffi_Reader_Discard\<close>:
    reading and discarding whole values with the tracker; \<open>Ffi_Reader_Sound\<close>: the converse,
    and that reading always ends. \<open>Ffi_Reader_Sources\<close>: data in memory, a file and a callback of the C program
    provide the locales. \<open>Ffi_Reader_Theorems\<close>: from initialisation to teardown, and from the C writer to the C
    reader through a file. \<open>Ffi_Reader_Safety\<close>, \<open>Ffi_Reader_Safe_Ops\<close>, \<open>Ffi_Reader_Safe_Api\<close>: memory safety of any
    sequence of calls on any input. \<open>Ffi_Print\<close>: the printing of data as text, over the formats of the standard
    library; \<open>Ffi_Print_Theorems\<close>: its loop against the recursive rendering of values.
  \<^item> \<open>Ffi_Expect\<close>, \<open>Ffi_Expect_Bytes\<close>: \<open>ffi/expect.rs\<close>. \<open>Ffi_Expect_Safety\<close>, \<open>Ffi_Expect_Safe_Api\<close>: memory safety of any
    sequence of reader and expect calls. \<open>Ffi_Expect_Values\<close>, \<open>Ffi_Expect_Theorems\<close>: what they read, over the
    interfaces of the C reader.
  \<^item> \<open>Ffi_Node\<close>, \<open>Ffi_Node_Parse\<close>, \<open>Ffi_Node_Access\<close>, \<open>Ffi_Node_Lookup\<close>, \<open>Ffi_Node_Print\<close>: \<open>ffi/node.rs\<close>: the tree and its entry in
    the side table, the sources and the parse, the accessors, the bridge to the lookups of \<open>node.rs\<close>, the
    printing. \<open>Ffi_Node_Layout\<close>: the breadth-first copy of the parsed nodes is a relabelling that keeps the children
    of a node side by side. \<open>Ffi_Node_Parsed\<close>: what it means that a node of a C tree holds a value (\<open>c_node_is\<close>), and that
    a parse establishes it; \<open>Ffi_Node_Values\<close>: what every accessor answers at such a node, and the parse of the next message.
    \<open>Ffi_Node_Theorems\<close>, \<open>Ffi_Node_Stream\<close>: message after message, from memory, a read callback, a file.
    \<open>Ffi_Node_Maps\<close>: lookups by key and enumerations; \<open>Ffi_Node_Text\<close>: the printed text is the rendering of the value;
    \<open>Ffi_Node_Safety\<close>, \<open>Ffi_Node_Safe_Api\<close>: memory safety of any sequence of calls on the nodes of any data.

  \<^bold>\<open>Bounds and fuel.\<close> \<open>discard\<close> and the key reads of \<open>expect.rs\<close> that use it recurse once per nesting level; their
  first argument is the number of calls the stack still holds, and \<open>discard_total\<close> shows that one more than the
  length of the unread input is enough, \<open>parse_agrees_with_discard\<close> that one call per nesting level is needed: with
  fewer it aborts on a value the node parser accepts. The
  loop of the node parser is a terminating function, by a measure on the unread input and the nodes still
  owed. The header loop of the C writer is a partial function, because it need not end
  (\<open>header_loop_never_returns\<close>); with the flush callbacks of the crate it ends after at most one flush. The
  theorems on the C writers assume an output of at most \<open>2 ^ 58\<close> bytes, below which no size computation can
  overflow, and say how much memory is enough. The loop of \<open>mpack_discard\<close> is a partial function; on a source with a
  finite input it always returns. Reading a value with \<open>c_read_value\<close>, the way a C program does, has a bound on the
  nesting; one more than the length of the input is enough (\<open>callback_reader_reads_exactly\<close>).

  \<^bold>\<open>Environment.\<close> The allocator, the file functions, and the callbacks a C program installs are code outside the
  crate: parameters of the model. What is assumed of them is what the C standard says: an allocation has the
  requested size and none exceeds \<open>PTRDIFF_MAX\<close> (\<open>allocator_ok\<close>; the tracker's array has as many slots as the bytes
  it requested have room for); \<open>fread\<close> and \<open>fseek\<close> on a regular file
  (\<open>regular_file\<close>) move along its contents; a fill callback delivers what there is (\<open>delivering\<close>), or, for memory
  safety, only stores no more than it was asked for (\<open>sane_env\<close>); a read callback of a tree delivers the next bytes of
  its stream (\<open>tree_delivers\<close>), and a file a tree is made from has a size and can be read (\<open>file_holds\<close>). The configuration is \<open>full-suite-abi\<close> outside the
  frozen link.

  \<^bold>\<open>Not modelled.\<close> The digests of the fuzz targets (\<open>fuzz/src/digest.rs\<close>) only drive the functions above. The bindings to libc, the printing stubs and the test harness have no logic
  of their own. Capacities of vectors in the safe core are allocation hints and not modelled. The
  \<open>catch_unwind\<close> of the exported functions turns a panic into an error. One panic can be reached in what is modelled, the
  capacity overflow in \<open>node_enum_via_core\<close> for a null array with an absurd count, and there the guard is a
  definition, \<open>catch_ffi_panic\<close>; elsewhere a panic is the value \<open>None\<close>, which the safety theorems exclude. The vectors
  of Rust itself come from Rust's allocator, which aborts the process when memory runs out; that is outside the model,
  as is the capacity of the vector of keys in \<open>key_cstr_table\<close>, which the array of pointers the C program really
  has (checked for null first) bounds.
\<close>

end
